(* ===== verification/Prelude.thy ===== *)
theory Prelude
imports Main "HOL-Library.Word" "HOL-Library.Monad_Syntax" "HOL-Library.Multiset"
begin

text \<open>
  Shared material of the development: the named collections that the component theories
  extend, the reading of C assertions in the option monad, and generic lemmas on lists,
  words and the option monad.

  A kernel function that can stop the machine has an \<open>option\<close> result. \<open>None\<close> means that
  the call never returns: an \<open>assert\<close> failed or \<open>panic\<close> was called (both end in the endless
  monitor loop of \<open>kern/debug/panic.c\<close>), or a loop of the function does not end.
  Error codes that the code returns to its caller are ordinary values.
\<close>

named_theorems links_simps \<open>effect of the list.h operations on the two link fields\<close>
named_theorems dlist_intros \<open>list.h operations on well-formed circular lists\<close>

section \<open>Assertions and the option monad\<close>

definition kassert :: "bool \<Rightarrow> unit option" where
  "kassert b = (if b then Some () else None)"

lemma kassert_simps [simp]:
  "kassert True = Some ()" "kassert False = None"
  by (simp_all add: kassert_def)

lemma kassert_eq_Some [simp]: "kassert b = Some u \<longleftrightarrow> b"
  by (cases u) (simp add: kassert_def)

lemma bind_kassert: "Option.bind (kassert b) f = (if b then f () else None)"
  by (simp add: kassert_def)

section \<open>Lists\<close>

lemma last_Cons_snoc: "\<exists>as. x # xs = as @ [last (x # xs)]"
  by (metis append_butlast_last_id list.distinct(1))

lemma hd_snoc_Cons: "\<exists>bs. ys @ [y] = hd (ys @ [y]) # bs"
  by (cases ys) auto

section \<open>Machine words\<close>

lemma unat_u32_less: "unat (x :: 32 word) < 2 ^ 32"
proof -
  have "unat x < 2 ^ LENGTH(32)" by (rule unsigned_less)
  then show ?thesis by simp
qed

lemma unat_of_nat_u32: "n < 2 ^ 32 \<Longrightarrow> unat (of_nat n :: 32 word) = n"
  by (simp add: unat_of_nat take_bit_nat_eq_self_iff)

lemma unat_add_u32:
  "unat (x :: 32 word) + unat y < 2 ^ 32 \<Longrightarrow> unat (x + y) = unat x + unat y"
  by (simp add: unat_word_ariths)

lemma unat_sub_u32: "n \<le> unat (x :: 32 word) \<Longrightarrow> unat (x - of_nat n) = unat x - n"
proof -
  assume n: "n \<le> unat x"
  then have "n < 2 ^ 32" using unat_u32_less [of x] by simp
  then have "of_nat n \<le> x" using n by (simp add: word_le_nat_alt unat_of_nat_u32)
  then show ?thesis using \<open>n < 2 ^ 32\<close> by (simp add: unat_sub unat_of_nat_u32)
qed

end
