(* ===== verification/LinkedList.thy ===== *)
theory LinkedList
imports Prelude
begin

text \<open>
  The intrusive circular doubly linked list of \<open>libs/list.h\<close>. A store of links maps every
  list entry (the address of a \<open>list_entry_t\<close>) to its \<open>next\<close> and \<open>prev\<close> fields, so that the
  aliasing of entries is explicit; every inline function of the header is one definition that
  performs the same assignments in the same order. \<open>dlist L h xs\<close> is the representation
  predicate: from the head \<open>h\<close> the two fields describe the sequence \<open>xs\<close> and its reverse.
\<close>

record 'n links =
  next_of :: "'n \<Rightarrow> 'n"
  prev_of :: "'n \<Rightarrow> 'n"

section \<open>The operations of list.h\<close>

definition list_init :: "'n \<Rightarrow> 'n links \<Rightarrow> 'n links" where
  "list_init elm L = L\<lparr>next_of := (next_of L)(elm := elm), prev_of := (prev_of L)(elm := elm)\<rparr>"

text \<open>\<open>__list_add\<close>: \<open>prev->next = next->prev = elm; elm->next = next; elm->prev = prev;\<close>\<close>

definition list_link_add :: "'n \<Rightarrow> 'n \<Rightarrow> 'n \<Rightarrow> 'n links \<Rightarrow> 'n links" where
  "list_link_add elm prv nxt L =
     (let L1 = L\<lparr>prev_of := (prev_of L)(nxt := elm)\<rparr>;
          L2 = L1\<lparr>next_of := (next_of L1)(prv := elm)\<rparr>;
          L3 = L2\<lparr>next_of := (next_of L2)(elm := nxt)\<rparr>
      in L3\<lparr>prev_of := (prev_of L3)(elm := prv)\<rparr>)"

text \<open>\<open>__list_del\<close>: \<open>prev->next = next; next->prev = prev;\<close>\<close>

definition list_link_del :: "'n \<Rightarrow> 'n \<Rightarrow> 'n links \<Rightarrow> 'n links" where
  "list_link_del prv nxt L =
     (let L1 = L\<lparr>next_of := (next_of L)(prv := nxt)\<rparr>
      in L1\<lparr>prev_of := (prev_of L1)(nxt := prv)\<rparr>)"

definition list_add_after :: "'n \<Rightarrow> 'n \<Rightarrow> 'n links \<Rightarrow> 'n links" where
  "list_add_after listelm elm L = list_link_add elm listelm (next_of L listelm) L"

definition list_add :: "'n \<Rightarrow> 'n \<Rightarrow> 'n links \<Rightarrow> 'n links" where
  "list_add listelm elm L = list_add_after listelm elm L"

definition list_add_before :: "'n \<Rightarrow> 'n \<Rightarrow> 'n links \<Rightarrow> 'n links" where
  "list_add_before listelm elm L = list_link_add elm (prev_of L listelm) listelm L"

definition list_del :: "'n \<Rightarrow> 'n links \<Rightarrow> 'n links" where
  "list_del listelm L = list_link_del (prev_of L listelm) (next_of L listelm) L"

definition list_del_init :: "'n \<Rightarrow> 'n links \<Rightarrow> 'n links" where
  "list_del_init listelm L = list_init listelm (list_del listelm L)"

definition list_empty :: "'n \<Rightarrow> 'n links \<Rightarrow> bool" where
  "list_empty l L \<longleftrightarrow> next_of L l = l"

definition list_next :: "'n \<Rightarrow> 'n links \<Rightarrow> 'n" where
  "list_next listelm L = next_of L listelm"

definition list_prev :: "'n \<Rightarrow> 'n links \<Rightarrow> 'n" where
  "list_prev listelm L = prev_of L listelm"

lemma next_of_ops [links_simps]:
  "next_of (list_init e L) = (next_of L)(e := e)"
  "next_of (list_link_add e p n L) = (next_of L)(p := e, e := n)"
  "next_of (list_link_del p n L) = (next_of L)(p := n)"
  by (simp_all add: list_init_def list_link_add_def list_link_del_def Let_def)

lemma prev_of_ops [links_simps]:
  "prev_of (list_init e L) = (prev_of L)(e := e)"
  "prev_of (list_link_add e p n L) = (prev_of L)(n := e, e := p)"
  "prev_of (list_link_del p n L) = (prev_of L)(n := p)"
  by (simp_all add: list_init_def list_link_add_def list_link_del_def Let_def)

lemmas list_h_defs =
  list_add_def list_add_after_def list_add_before_def list_del_def list_del_init_def
  list_empty_def list_next_def list_prev_def

section \<open>The representation predicate\<close>

fun linked :: "'n links \<Rightarrow> 'n list \<Rightarrow> bool" where
  "linked L (a # b # r) \<longleftrightarrow> next_of L a = b \<and> prev_of L b = a \<and> linked L (b # r)"
| "linked L _ \<longleftrightarrow> True"

definition dlist :: "'n links \<Rightarrow> 'n \<Rightarrow> 'n list \<Rightarrow> bool" where
  "dlist L h xs \<longleftrightarrow> distinct (h # xs) \<and> linked L (h # xs @ [h])"

lemma linked_append:
  "linked L (xs @ a # ys) \<longleftrightarrow> linked L (xs @ [a]) \<and> linked L (a # ys)"
proof (induction xs)
  case (Cons x xs)
  then show ?case by (cases xs) auto
qed simp

lemma linked_append2:
  "linked L (xs @ a # b # ys) \<longleftrightarrow>
     linked L (xs @ [a]) \<and> next_of L a = b \<and> prev_of L b = a \<and> linked L (b # ys)"
  by (subst linked_append) simp

lemma linked_cong:
  assumes "\<And>x. x \<in> set (butlast xs) \<Longrightarrow> next_of L' x = next_of L x"
    and "\<And>x. x \<in> set (tl xs) \<Longrightarrow> prev_of L' x = prev_of L x"
  shows "linked L' xs \<longleftrightarrow> linked L xs"
  using assms
proof (induction L' xs rule: linked.induct)
  case (1 L' a b r)
  then have "linked L' (b # r) \<longleftrightarrow> linked L (b # r)"
    by (intro "1.IH") (auto split: if_splits dest: list.set_sel(2)[rotated])
  with 1 show ?case by simp
qed simp_all

lemma dlist_distinct: "dlist L h xs \<Longrightarrow> distinct xs" "dlist L h xs \<Longrightarrow> h \<notin> set xs"
  by (auto simp: dlist_def)

lemma dlist_split:
  assumes "dlist L h xs" and "h # xs = as @ [p]" 
  shows "linked L (as @ [p])"
proof -
  have "linked L ((as @ [p]) @ [h])"
    using assms by (metis append_Cons dlist_def)
  then show ?thesis by (simp add: linked_append2)
qed

section \<open>Effect of the operations on well-formed lists\<close>

lemma dlist_init [dlist_intros]: "dlist (list_init h L) h []"
  by (simp add: dlist_def links_simps)

lemma dlist_frame:
  assumes "dlist L h xs"
    and "\<And>x. x \<in> set (h # xs) \<Longrightarrow> next_of L' x = next_of L x"
    and "\<And>x. x \<in> set (h # xs) \<Longrightarrow> prev_of L' x = prev_of L x"
  shows "dlist L' h xs"
proof -
  have "linked L' (h # xs @ [h]) \<longleftrightarrow> linked L (h # xs @ [h])"
    using assms(2,3) by (intro linked_cong) (auto simp: butlast_append split: if_splits)
  with assms(1) show ?thesis by (simp add: dlist_def)
qed

lemma dlist_next_prev:
  assumes "dlist L h (xs @ e # ys)"
  shows "next_of L e = hd (ys @ [h])" and "prev_of L e = last (h # xs)"
proof -
  obtain as where as: "h # xs = as @ [last (h # xs)]" using last_Cons_snoc by metis
  obtain bs where bs: "ys @ [h] = hd (ys @ [h]) # bs" using hd_snoc_Cons by metis
  have "linked L ((h # xs) @ e # ys @ [h])" using assms by (simp add: dlist_def)
  then have "linked L (as @ last (h # xs) # e # hd (ys @ [h]) # bs)"
    using as bs by (metis append.assoc append_Cons append_Nil)
  then show "next_of L e = hd (ys @ [h])" and "prev_of L e = last (h # xs)"
    by (simp_all only: linked_append2) auto
qed

lemma dlist_next_head:
  assumes "dlist L h xs"
  shows "next_of L h = hd (xs @ [h])" and "prev_of L h = last (h # xs)"
proof -
  show "next_of L h = hd (xs @ [h])"
    using assms by (cases xs) (auto simp: dlist_def)
  obtain as where as: "h # xs = as @ [last (h # xs)]" using last_Cons_snoc by metis
  have "linked L ((h # xs) @ [h])" using assms by (simp add: dlist_def)
  then have "linked L (as @ last (h # xs) # h # [])"
    using as by (metis append.assoc append_Cons append_Nil)
  then show "prev_of L h = last (h # xs)" by (simp only: linked_append2)
qed

lemma dlist_next_last:
  assumes "dlist L h (xs @ ys)"
  shows "next_of L (last (h # xs)) = hd (ys @ [h])"
proof (cases xs rule: rev_cases)
  case Nil
  then show ?thesis using assms dlist_next_head(1) by fastforce
next
  case (snoc xs' x)
  then show ?thesis using assms dlist_next_prev(1) by fastforce
qed

lemma dlist_prev_hd:
  assumes "dlist L h (xs @ ys)"
  shows "prev_of L (hd (ys @ [h])) = last (h # xs)"
proof (cases ys)
  case Nil
  then show ?thesis using assms dlist_next_head(2) by fastforce
next
  case (Cons y ys')
  then show ?thesis using assms dlist_next_prev(2) by fastforce
qed

text \<open>The forward chain alone: all that a loop over \<open>list_next\<close> sees of a list.\<close>

fun next_path :: "'n links \<Rightarrow> 'n list \<Rightarrow> bool" where
  "next_path L (a # b # r) \<longleftrightarrow> next_of L a = b \<and> next_path L (b # r)"
| "next_path L _ \<longleftrightarrow> True"

lemma linked_next_path: "linked L xs \<Longrightarrow> next_path L xs"
  by (induction L xs rule: linked.induct) auto

lemma dlist_next_path: "dlist L h xs \<Longrightarrow> next_path L (h # xs @ [h])"
  unfolding dlist_def by (blast intro: linked_next_path)

lemma next_path_cong:
  assumes "\<And>x. x \<in> set (butlast xs) \<Longrightarrow> next_of L' x = next_of L x"
  shows "next_path L' xs \<longleftrightarrow> next_path L xs"
  using assms
proof (induction L' xs rule: next_path.induct)
  case (1 L' a b r)
  then have "next_path L' (b # r) \<longleftrightarrow> next_path L (b # r)" by (intro "1.IH") auto
  with 1 show ?case by simp
qed simp_all

lemma next_path_append:
  "next_path L (xs @ a # ys) \<longleftrightarrow> next_path L (xs @ [a]) \<and> next_path L (a # ys)"
proof (induction xs)
  case (Cons x xs)
  then show ?case by (cases xs) auto
qed simp

lemma dlist_list_empty: "dlist L h xs \<Longrightarrow> list_empty h L \<longleftrightarrow> xs = []"
  by (cases xs) (auto simp: list_empty_def dlist_def)

lemma dlist_neighbours:
  assumes "distinct (h # xs @ ys)"
  obtains as bs where
    "h # xs = as @ [last (h # xs)]" "ys @ [h] = hd (ys @ [h]) # bs"
    "set as \<subseteq> set (h # xs)" "set bs \<subseteq> set (h # ys)"
    "set (tl (as @ [last (h # xs)])) \<subseteq> set xs" "set (butlast (hd (ys @ [h]) # bs)) \<subseteq> set ys"
    "last (h # xs) \<notin> set ys" "hd (ys @ [h]) \<notin> set xs"
    "last (h # xs) \<notin> set as" "hd (ys @ [h]) \<notin> set bs"
    "last (h # xs) \<in> set (h # xs)" "hd (ys @ [h]) \<in> set (h # ys)"
proof -
  have as: "h # xs = butlast (h # xs) @ [last (h # xs)]" by simp
  have bs: "ys @ [h] = hd (ys @ [h]) # tl (ys @ [h])" by simp
  have dj: "h \<notin> set xs" "h \<notin> set ys" "set xs \<inter> set ys = {}" using assms by auto
  have last_in: "last (h # xs) \<in> set (h # xs)" by (rule last_in_set) simp
  have hd_in: "hd (ys @ [h]) \<in> set (h # ys)" by (cases ys) auto
  have "distinct (butlast (h # xs) @ [last (h # xs)])"
    using assms by (simp only: as [symmetric]) simp
  then have p_as: "last (h # xs) \<notin> set (butlast (h # xs))" by simp
  have "distinct (ys @ [h])" using assms by auto
  then have n_bs: "hd (ys @ [h]) \<notin> set (tl (ys @ [h]))" by (cases ys) auto
  show thesis
  proof (rule that [OF as bs])
    show "set (tl (butlast (h # xs) @ [last (h # xs)])) \<subseteq> set xs"
      by (simp only: as [symmetric] list.sel order_refl)
    show "set (butlast (hd (ys @ [h]) # tl (ys @ [h]))) \<subseteq> set ys"
      by (simp only: bs [symmetric] butlast_snoc order_refl)
    show "last (h # xs) \<notin> set ys"
      by (metis dj(2,3) disjoint_iff set_ConsD last_in)
    show "hd (ys @ [h]) \<notin> set xs"
      by (metis dj(1,3) disjoint_iff set_ConsD hd_in)
    show "set (butlast (h # xs)) \<subseteq> set (h # xs)" by (meson in_set_butlastD subsetI)
    show "set (tl (ys @ [h])) \<subseteq> set (h # ys)" by (cases ys) auto
  qed (fact p_as n_bs last_in hd_in)+
qed

lemma dlist_link_add:
  assumes d: "dlist L h (xs @ ys)" and e: "e \<notin> set (h # xs @ ys)"
  shows "dlist (list_link_add e (last (h # xs)) (hd (ys @ [h])) L) h (xs @ e # ys)"
    (is "dlist ?L h _")
proof -
  have dist: "distinct (h # xs @ ys)" using d by (simp add: dlist_def)
  then obtain as bs where ab: "h # xs = as @ [last (h # xs)]" "ys @ [h] = hd (ys @ [h]) # bs"
    and in_ab: "set as \<subseteq> set (h # xs)" "set bs \<subseteq> set (h # ys)"
    and ends: "set (tl (as @ [last (h # xs)])) \<subseteq> set xs"
      "set (butlast (hd (ys @ [h]) # bs)) \<subseteq> set ys"
    and nin: "last (h # xs) \<notin> set ys" "hd (ys @ [h]) \<notin> set xs"
      "last (h # xs) \<notin> set as" "hd (ys @ [h]) \<notin> set bs"
      "last (h # xs) \<in> set (h # xs)" "hd (ys @ [h]) \<in> set (h # ys)"
    by (rule dlist_neighbours)
  define p n where pn: "p = last (h # xs)" "n = hd (ys @ [h])"
  have e_out: "e \<notin> set (h # xs)" "e \<notin> set (h # ys)" using e by auto
  then have e_ne: "e \<noteq> p" "e \<noteq> n" using nin(5,6) unfolding pn by metis+
  have "e \<notin> set as" "e \<notin> set bs" using e_out in_ab by auto
  note facts = ab ends nin this
  have "linked L ((h # xs) @ ys @ [h])" using d by (simp add: dlist_def)
  then have "linked L (as @ p # n # bs)"
    using ab unfolding pn by (metis append.assoc append_Cons append_Nil)
  then have l: "linked L (as @ [p])" "linked L (n # bs)" by (simp_all add: linked_append2)
  have "linked ?L (as @ [p])"
    using l(1) facts e unfolding pn[symmetric]
    by (subst linked_cong[of _ _ L]) (auto simp: links_simps)
  moreover have "linked ?L (n # bs)"
    using l(2) facts e unfolding pn[symmetric]
    by (subst linked_cong[of _ _ L]) (auto simp: links_simps)
  ultimately have "linked ?L (as @ p # e # n # bs)"
    unfolding pn[symmetric] using e_ne by (auto simp: linked_append2 links_simps)
  then have "linked ?L ((h # xs) @ e # ys @ [h])"
    using ab unfolding pn by (metis append.assoc append_Cons append_Nil)
  with dist e show ?thesis by (auto simp: dlist_def)
qed

lemma dlist_link_del:
  assumes d: "dlist L h (xs @ e # ys)"
  shows "dlist (list_link_del (last (h # xs)) (hd (ys @ [h])) L) h (xs @ ys)"
    (is "dlist ?L h _")
proof -
  have dist: "distinct (h # xs @ e # ys)" using d by (simp add: dlist_def)
  then have "distinct (h # xs @ ys)" by simp
  then obtain as bs where ab: "h # xs = as @ [last (h # xs)]" "ys @ [h] = hd (ys @ [h]) # bs"
    and ends: "set (tl (as @ [last (h # xs)])) \<subseteq> set xs"
      "set (butlast (hd (ys @ [h]) # bs)) \<subseteq> set ys"
    and nin: "last (h # xs) \<notin> set ys" "hd (ys @ [h]) \<notin> set xs"
      "last (h # xs) \<notin> set as" "hd (ys @ [h]) \<notin> set bs"
    by (rule dlist_neighbours)
  define p n where pn: "p = last (h # xs)" "n = hd (ys @ [h])"
  have "linked L ((h # xs) @ e # ys @ [h])" using d by (simp add: dlist_def)
  then have "linked L (as @ p # e # n # bs)"
    using ab unfolding pn by (metis append.assoc append_Cons append_Nil)
  then have l: "linked L (as @ [p])" "linked L (n # bs)" by (simp_all add: linked_append2)
  have "linked ?L (as @ [p])"
    using l(1) ends nin unfolding pn[symmetric]
    by (subst linked_cong[of _ _ L]) (auto simp: links_simps)
  moreover have "linked ?L (n # bs)"
    using l(2) ends nin unfolding pn[symmetric]
    by (subst linked_cong[of _ _ L]) (auto simp: links_simps)
  ultimately have "linked ?L (as @ p # n # bs)"
    unfolding pn[symmetric] by (auto simp: linked_append2 links_simps)
  then have "linked ?L ((h # xs) @ ys @ [h])"
    using ab unfolding pn by (metis append.assoc append_Cons append_Nil)
  with dist show ?thesis by (simp add: dlist_def)
qed

lemma dlist_add_before [dlist_intros]:
  assumes "dlist L h (xs @ ys)" and "e \<notin> set (h # xs @ ys)" and "le = hd (ys @ [h])"
  shows "dlist (list_add_before le e L) h (xs @ e # ys)"
proof -
  have "prev_of L le = last (h # xs)" using assms dlist_prev_hd by metis
  then show ?thesis using dlist_link_add [OF assms(1,2)] assms(3)
    by (simp add: list_add_before_def)
qed

lemma dlist_add_after [dlist_intros]:
  assumes "dlist L h (xs @ ys)" and "e \<notin> set (h # xs @ ys)" and "le = last (h # xs)"
  shows "dlist (list_add_after le e L) h (xs @ e # ys)"
proof -
  have "next_of L le = hd (ys @ [h])" using assms dlist_next_last by metis
  then show ?thesis using dlist_link_add [OF assms(1,2)] assms(3)
    by (simp add: list_add_after_def)
qed

lemmas dlist_add [dlist_intros] = dlist_add_after [folded list_add_def]

lemma dlist_del [dlist_intros]:
  assumes "dlist L h (xs @ e # ys)"
  shows "dlist (list_del e L) h (xs @ ys)"
  using dlist_link_del [OF assms] dlist_next_prev [OF assms] by (simp add: list_del_def)

lemma dlist_del_init [dlist_intros]:
  assumes "dlist L h (xs @ e # ys)"
  shows "dlist (list_del_init e L) h (xs @ ys)"
proof -
  have "e \<notin> set (h # xs @ ys)" using assms by (auto simp: dlist_def)
  then show ?thesis
    by (intro dlist_frame [OF dlist_del [OF assms]])
      (auto simp: list_del_init_def links_simps)
qed

lemma list_empty_del_init [simp]: "list_empty e (list_del_init e L)"
  by (simp add: list_empty_def list_del_init_def links_simps)

text \<open>The links determine the sequence.\<close>

lemma next_path_unique:
  assumes "next_path L (a # xs @ [h])" "next_path L (a # ys @ [h])" "h \<notin> set xs" "h \<notin> set ys"
  shows "xs = ys"
  using assms
proof (induction xs arbitrary: a ys)
  case Nil
  then show ?case by (cases ys) auto
next
  case (Cons x xs)
  then obtain y ys' where ys: "ys = y # ys'" by (cases ys) auto
  with Cons.prems have "y = x" by simp
  moreover have "xs = ys'"
    using Cons.prems ys \<open>y = x\<close> by (intro Cons.IH [of x ys']) simp_all
  ultimately show ?case using ys by simp
qed

lemma dlist_unique: "dlist L h xs \<Longrightarrow> dlist L h ys \<Longrightarrow> xs = ys"
  using next_path_unique dlist_next_path dlist_distinct(2) by metis

text \<open>Entries outside the list keep their own links.\<close>

lemma dlist_add_before_frame:
  assumes "dlist L h xs" and "q \<notin> set (h # xs)" and "q \<noteq> e"
  shows "next_of (list_add_before h e L) q = next_of L q"
proof -
  have "last (h # xs) \<in> set (h # xs)" by (rule last_in_set) simp
  with assms show ?thesis
    by (auto simp: list_add_before_def links_simps dlist_next_head)
qed

lemma dlist_del_init_frame:
  assumes "dlist L h xs" and "e \<in> set xs" and "q \<notin> set (h # xs)"
  shows "next_of (list_del_init e L) q = next_of L q"
proof -
  obtain as bs where xs: "xs = as @ e # bs" using assms(2) split_list by metis
  have "last (h # as) \<in> set (h # as)" by (rule last_in_set) simp
  then have "last (h # as) \<in> set (h # xs)" using xs by auto
  moreover have "prev_of L e = last (h # as)" using assms(1) xs dlist_next_prev by metis
  ultimately show ?thesis
    using assms xs by (auto simp: list_del_init_def list_del_def links_simps)
qed

lemma dlist_self_not_in:
  assumes "dlist L h xs" and "list_empty q L" and "q \<noteq> h"
  shows "q \<notin> set xs"
proof
  assume "q \<in> set xs"
  then obtain as bs where xs: "xs = as @ q # bs" using split_list by metis
  have "next_of L q = hd (bs @ [h])" using assms(1) dlist_next_prev unfolding xs by metis
  moreover have "hd (bs @ [h]) \<in> set (h # bs)" by (cases bs) auto
  moreover have "q \<notin> set bs" using dlist_distinct(1) [OF assms(1)] xs by simp
  ultimately show False using assms(2,3) by (auto simp: list_empty_def)
qed

text \<open>
  The degenerate call \<open>list_add(e, e)\<close> on the last entry of a list: the forward chain is
  kept, but the entry becomes its own predecessor.
\<close>

lemma list_add_self:
  assumes "next_of L e = h" and "h \<noteq> e"
  shows "next_of (list_add e e L) = next_of L" and "prev_of (list_add e e L) = (prev_of L)(h := e, e := e)"
  using assms by (auto simp: list_add_def list_add_after_def links_simps)

end
