(* ===== verification/PageDesc.thy ===== *)
theory PageDesc
imports LinkedList
begin

text \<open>
  The page descriptors of \<open>kern/mm/memlayout.h\<close> and the bookkeeping state of a physical
  memory manager. A \<open>struct Page *\<close> is the index of its descriptor in the array \<open>pages\<close>, so
  that pointer arithmetic and comparison within the array are those of \<open>nat\<close>; the fields keep
  the widths of the source (\<open>uint64_t flags\<close>, \<open>unsigned int property\<close>). The list links
  embedded in the descriptors are the entries \<open>PageLink p\<close> of the list store; \<open>le2page\<close> is
  the pattern match on that constructor, and the head of the free list is the entry \<open>FreeList\<close>.
\<close>

record Page =
  pg_ref :: int
  pg_flags :: "64 word"
  pg_property :: "32 word"

definition PG_reserved :: nat where "PG_reserved = 0"
definition PG_property :: nat where "PG_property = 1"

definition SetPageReserved :: "Page \<Rightarrow> Page" where
  "SetPageReserved pg = pg\<lparr>pg_flags := set_bit PG_reserved (pg_flags pg)\<rparr>"

definition ClearPageReserved :: "Page \<Rightarrow> Page" where
  "ClearPageReserved pg = pg\<lparr>pg_flags := unset_bit PG_reserved (pg_flags pg)\<rparr>"

definition PageReserved :: "Page \<Rightarrow> bool" where
  "PageReserved pg \<longleftrightarrow> bit (pg_flags pg) PG_reserved"

definition SetPageProperty :: "Page \<Rightarrow> Page" where
  "SetPageProperty pg = pg\<lparr>pg_flags := set_bit PG_property (pg_flags pg)\<rparr>"

definition ClearPageProperty :: "Page \<Rightarrow> Page" where
  "ClearPageProperty pg = pg\<lparr>pg_flags := unset_bit PG_property (pg_flags pg)\<rparr>"

definition PageProperty :: "Page \<Rightarrow> bool" where
  "PageProperty pg \<longleftrightarrow> bit (pg_flags pg) PG_property"

definition set_page_ref :: "int \<Rightarrow> Page \<Rightarrow> Page" where
  "set_page_ref val pg = pg\<lparr>pg_ref := val\<rparr>"

lemmas page_flag_defs =
  SetPageReserved_def ClearPageReserved_def PageReserved_def
  SetPageProperty_def ClearPageProperty_def PageProperty_def
  PG_reserved_def PG_property_def set_page_ref_def

lemma page_flags_simps [simp]:
  "PageProperty (SetPageProperty pg)"
  "\<not> PageProperty (ClearPageProperty pg)"
  "PageReserved (SetPageProperty pg) = PageReserved pg"
  "PageReserved (ClearPageProperty pg) = PageReserved pg"
  "PageReserved (SetPageReserved pg)"
  "PageProperty (SetPageReserved pg) = PageProperty pg"
  "PageProperty (pg\<lparr>pg_property := x\<rparr>) = PageProperty pg"
  "PageReserved (pg\<lparr>pg_property := x\<rparr>) = PageReserved pg"
  "PageProperty (pg\<lparr>pg_ref := r\<rparr>) = PageProperty pg"
  "PageReserved (pg\<lparr>pg_ref := r\<rparr>) = PageReserved pg"
  "\<not> PageProperty (pg\<lparr>pg_flags := 0\<rparr>)"
  "\<not> PageReserved (pg\<lparr>pg_flags := 0\<rparr>)"
  "PageProperty (set_page_ref r pg) = PageProperty pg"
  "PageReserved (set_page_ref r pg) = PageReserved pg"
  "pg_property (SetPageProperty pg) = pg_property pg"
  "pg_property (ClearPageProperty pg) = pg_property pg"
  "pg_property (set_page_ref r pg) = pg_property pg"
  "pg_property (SetPageReserved pg) = pg_property pg"
  "pg_ref (SetPageProperty pg) = pg_ref pg"
  "pg_ref (ClearPageProperty pg) = pg_ref pg"
  "pg_ref (set_page_ref r pg) = r"
  by (simp_all add: page_flag_defs bit_simps)

datatype fnode = FreeList | PageLink nat

text \<open>
  \<open>free_area_t\<close> together with the descriptors it manages.
\<close>

record pmm =
  page_of :: "nat \<Rightarrow> Page"
  free_links :: "fnode links"
  nr_free :: "32 word"

definition upd_page :: "nat \<Rightarrow> (Page \<Rightarrow> Page) \<Rightarrow> pmm \<Rightarrow> pmm" where
  "upd_page p f s = s\<lparr>page_of := (page_of s)(p := f (page_of s p))\<rparr>"

definition upd_links :: "(fnode links \<Rightarrow> fnode links) \<Rightarrow> pmm \<Rightarrow> pmm" where
  "upd_links f s = s\<lparr>free_links := f (free_links s)\<rparr>"

lemma upd_page_simps [simp]:
  "page_of (upd_page p f s) = (page_of s)(p := f (page_of s p))"
  "free_links (upd_page p f s) = free_links s"
  "nr_free (upd_page p f s) = nr_free s"
  "page_of (upd_links g s) = page_of s"
  "free_links (upd_links g s) = g (free_links s)"
  "nr_free (upd_links g s) = nr_free s"
  by (simp_all add: upd_page_def upd_links_def)

definition property_of :: "pmm \<Rightarrow> nat \<Rightarrow> nat" where
  "property_of s p = unat (pg_property (page_of s p))"

section \<open>Free blocks as a list of page ranges\<close>

text \<open>
  The abstract free list of a manager: blocks \<open>(b, l)\<close> of \<open>l\<close> pages from page \<open>b\<close> in address
  order. \<open>free_rep s bs\<close> relates it to the descriptors and links: the circular list holds the
  first page of every block, the \<open>PG_property\<close> bit is set on exactly these pages and their
  \<open>property\<close> field is the length of the block, free pages are not reserved, and \<open>nr_free\<close>
  counts the free pages.
\<close>

type_synonym block = "nat \<times> nat"

definition heads :: "block list \<Rightarrow> fnode list" where
  "heads bs = map (\<lambda>b. PageLink (fst b)) bs"

definition pages_in :: "block list \<Rightarrow> nat set" where
  "pages_in bs = (\<Union>b\<in>set bs. {fst b..<fst b + snd b})"

definition total_pages :: "block list \<Rightarrow> nat" where
  "total_pages bs = sum_list (map snd bs)"

definition ordered :: "block list \<Rightarrow> bool" where
  "ordered bs \<longleftrightarrow> sorted_wrt (\<lambda>a b. fst a + snd a \<le> fst b) bs \<and> (\<forall>b\<in>set bs. 0 < snd b)"

definition free_rep :: "pmm \<Rightarrow> block list \<Rightarrow> bool" where
  "free_rep s bs \<longleftrightarrow>
     dlist (free_links s) FreeList (heads bs) \<and>
     ordered bs \<and>
     (\<forall>b\<in>set bs. property_of s (fst b) = snd b) \<and>
     (\<forall>p. PageProperty (page_of s p) \<longleftrightarrow> p \<in> fst ` set bs) \<and>
     (\<forall>p\<in>pages_in bs. \<not> PageReserved (page_of s p)) \<and>
     unat (nr_free s) = total_pages bs"

lemma heads_simps [simp]:
  "heads [] = []" "heads (b # bs) = PageLink (fst b) # heads bs"
  "heads (xs @ ys) = heads xs @ heads ys" "heads bs = [] \<longleftrightarrow> bs = []"
  "PageLink p \<in> set (heads bs) \<longleftrightarrow> p \<in> fst ` set bs"
  by (auto simp: heads_def)

lemma pages_in_simps [simp]:
  "pages_in [] = {}" "pages_in (b # bs) = {fst b..<fst b + snd b} \<union> pages_in bs"
  "pages_in (xs @ ys) = pages_in xs \<union> pages_in ys"
  by (auto simp: pages_in_def)

lemma total_pages_simps [simp]:
  "total_pages [] = 0" "total_pages (b # bs) = snd b + total_pages bs"
  "total_pages (xs @ ys) = total_pages xs + total_pages ys"
  by (auto simp: total_pages_def)

lemma ordered_Nil [simp]: "ordered []"
  by (simp add: ordered_def)

lemma ordered_Cons: "ordered (b # bs) \<longleftrightarrow>
    0 < snd b \<and> (\<forall>c\<in>set bs. fst b + snd b \<le> fst c) \<and> ordered bs"
  by (auto simp: ordered_def)

lemma ordered_append: "ordered (xs @ ys) \<longleftrightarrow>
    ordered xs \<and> ordered ys \<and> (\<forall>x\<in>set xs. \<forall>y\<in>set ys. fst x + snd x \<le> fst y)"
  by (auto simp: ordered_def sorted_wrt_append)

lemma ordered_apart:
  assumes "ordered (pre @ c # post)" and "x \<in> set (pre @ post)"
  shows "fst x + snd x \<le> fst c \<or> fst c + snd c \<le> fst x" and "0 < snd x" and "0 < snd c"
  using assms by (auto simp: ordered_def sorted_wrt_append)

lemma block_le_total: "b \<in> set bs \<Longrightarrow> snd b \<le> total_pages bs"
  by (induction bs) auto

lemma free_rep_dlist: "free_rep s bs \<Longrightarrow> dlist (free_links s) FreeList (heads bs)"
  by (simp add: free_rep_def)

lemma free_rep_property: "free_rep s bs \<Longrightarrow> b \<in> set bs \<Longrightarrow> property_of s (fst b) = snd b"
  by (simp add: free_rep_def)

lemma last_heads_ne [simp]: "bs \<noteq> [] \<Longrightarrow> last (heads bs) = PageLink (fst (last bs))"
  by (simp add: heads_def last_map)

lemma last_heads: "last (FreeList # heads bs) = (if bs = [] then FreeList else PageLink (fst (last bs)))"
  by (cases bs rule: rev_cases) auto

end
