(* ===== verification/PmmManager.thy ===== *)
theory PmmManager
imports PageDesc
begin

text \<open>
  The interface \<open>struct pmm_manager\<close> of \<open>kern/mm/pmm.h\<close> as a locale: what the rest of the
  memory code may rely on, whichever manager is installed. \<open>inv\<close> is the manager's own
  invariant, \<open>free_set\<close> the pages it holds, \<open>freeable\<close> the condition under which a run of
  pages may be given back.
\<close>

locale page_allocator =
  fixes inv :: "'s \<Rightarrow> bool"
    and free_set :: "'s \<Rightarrow> nat set"
    and count :: "'s \<Rightarrow> nat"
    and alloc :: "nat \<Rightarrow> 's \<Rightarrow> (nat option \<times> 's) option"
    and release :: "nat \<Rightarrow> nat \<Rightarrow> 's \<Rightarrow> 's option"
    and freeable :: "'s \<Rightarrow> nat \<Rightarrow> nat \<Rightarrow> bool"
  assumes finite_free: "inv s \<Longrightarrow> finite (free_set s)"
    and count_free: "inv s \<Longrightarrow> count s = card (free_set s)"
    and alloc_total: "inv s \<Longrightarrow> 0 < n \<Longrightarrow> \<exists>r s'. alloc n s = Some (r, s')"
    and alloc_none: "inv s \<Longrightarrow> 0 < n \<Longrightarrow> alloc n s = Some (None, s') \<Longrightarrow> s' = s"
    and alloc_some: "inv s \<Longrightarrow> 0 < n \<Longrightarrow> alloc n s = Some (Some p, s') \<Longrightarrow>
      inv s' \<and> {p..<p + n} \<subseteq> free_set s \<and> free_set s' = free_set s - {p..<p + n}"
    and alloc_one: "inv s \<Longrightarrow> alloc 1 s = Some (None, s') \<Longrightarrow> free_set s = {}"
    and release_ok: "inv s \<Longrightarrow> freeable s p n \<Longrightarrow>
      \<exists>s'. release p n s = Some s' \<and> inv s' \<and> free_set s' = free_set s \<union> {p..<p + n}"
    and freeable_out: "inv s \<Longrightarrow> freeable s p n \<Longrightarrow> 0 < n \<and> free_set s \<inter> {p..<p + n} = {}"
begin

lemma alloc_count:
  assumes "inv s" "0 < n" "alloc n s = Some (Some p, s')"
  shows "count s' + n = count s"
proof -
  from alloc_some [OF assms] have a: "inv s'" "{p..<p + n} \<subseteq> free_set s"
    "free_set s' = free_set s - {p..<p + n}" by auto
  then have "card (free_set s') = card (free_set s) - card {p..<p + n}"
    by (simp add: card_Diff_subset)
  moreover have "card {p..<p + n} \<le> card (free_set s)"
    using a(2) finite_free [OF assms(1)] by (rule card_mono[rotated])
  ultimately show ?thesis using count_free assms(1) a(1) by simp
qed

lemma alloc_disjoint:
  assumes "inv s" "0 < n" "alloc n s = Some (Some p, s1)"
    and "0 < m" "alloc m s1 = Some (Some q, s2)"
  shows "{p..<p + n} \<inter> {q..<q + m} = {}"
proof -
  from alloc_some [OF assms(1-3)] have "inv s1" "free_set s1 = free_set s - {p..<p + n}" by auto
  with alloc_some [OF _ assms(4,5)] show ?thesis by blast
qed

lemma alloc_release:
  assumes "inv s" "0 < n" "alloc n s = Some (Some p, s1)" "freeable s1 p n"
  shows "\<exists>s2. release p n s1 = Some s2 \<and> inv s2 \<and> free_set s2 = free_set s \<and> count s2 = count s"
proof -
  from alloc_some [OF assms(1-3)] have a: "inv s1" "{p..<p + n} \<subseteq> free_set s"
    "free_set s1 = free_set s - {p..<p + n}" by auto
  from release_ok [OF a(1) assms(4)] obtain s2 where
    s2: "release p n s1 = Some s2" "inv s2" "free_set s2 = free_set s1 \<union> {p..<p + n}" by blast
  then have "free_set s2 = free_set s" using a by auto
  with s2 show ?thesis using count_free assms(1) by auto
qed

lemma alloc_page_cases:
  assumes "inv s"
  obtains (empty) "alloc 1 s = Some (None, s)" "free_set s = {}"
  | (page) p s' where "alloc 1 s = Some (Some p, s')" "inv s'" "p \<in> free_set s"
      "free_set s' = free_set s - {p}"
proof -
  obtain r s' where r: "alloc 1 s = Some (r, s')" using alloc_total [OF assms, of 1] by auto
  show thesis
  proof (cases r)
    case None
    then show ?thesis using r alloc_none [OF assms, of 1] alloc_one [OF assms] empty by auto
  next
    case (Some p)
    then have "inv s'" "{p..<p + 1} \<subseteq> free_set s" "free_set s' = free_set s - {p..<p + 1}"
      using r alloc_some [OF assms, of 1 p s'] by auto
    then show ?thesis using r Some page [of p s'] by auto
  qed
qed

end

end
