(* ===== verification/FirstFit.thy ===== *)
theory FirstFit
imports PmmManager
begin

text \<open>
  The first-fit physical memory manager of \<open>kern/mm/default_pmm.c\<close>, function by function.
  The loops over the free list follow the \<open>next\<close> fields of the store and are
  \<open>partial_function\<close>s, because on a damaged list they need not end. The theorems relate every
  operation to the abstract block list of \<open>free_rep\<close>; the last section shows what happens when
  a block is freed behind all free blocks.
\<close>

section \<open>The operations of default_pmm.c\<close>

definition default_init :: "pmm \<Rightarrow> pmm" where
  "default_init s = (upd_links (list_init FreeList) s)\<lparr>nr_free := 0\<rparr>"

primrec init_pages_loop :: "nat \<Rightarrow> nat \<Rightarrow> pmm \<Rightarrow> pmm option" where
  "init_pages_loop 0 p s = Some s"
| "init_pages_loop (Suc k) p s = do {
     kassert (PageReserved (page_of s p));
     init_pages_loop k (p + 1)
       (upd_page p (\<lambda>pg. set_page_ref 0 (pg\<lparr>pg_flags := 0, pg_property := 0\<rparr>)) s) }"

text \<open>
  The insertion loop of \<open>default_init_memmap\<close> and \<open>default_free_pages\<close>. There is no \<open>break\<close>
  after the \<open>list_add\<close> of the second branch, so the loop goes on from the entry it stands on.
\<close>

partial_function (option) insert_loop :: "nat \<Rightarrow> fnode \<Rightarrow> pmm \<Rightarrow> pmm option" where
  "insert_loop base le s =
     (case list_next le (free_links s) of
        FreeList \<Rightarrow> Some s
      | PageLink page \<Rightarrow>
          (if base < page
           then Some (upd_links (list_add_before (PageLink page) (PageLink base)) s)
           else if list_next (PageLink page) (free_links s) = FreeList
           then insert_loop base (PageLink page) (upd_links (list_add (PageLink page) (PageLink base)) s)
           else insert_loop base (PageLink page) s))"

definition insert_free_block :: "nat \<Rightarrow> pmm \<Rightarrow> pmm option" where
  "insert_free_block base s =
     (if list_empty FreeList (free_links s)
      then Some (upd_links (list_add FreeList (PageLink base)) s)
      else insert_loop base FreeList s)"

definition set_block_head :: "nat \<Rightarrow> nat \<Rightarrow> pmm \<Rightarrow> pmm" where
  "set_block_head base n s =
     (let s1 = upd_page base (\<lambda>pg. pg\<lparr>pg_property := of_nat n\<rparr>) s;
          s2 = upd_page base SetPageProperty s1
      in s2\<lparr>nr_free := nr_free s2 + of_nat n\<rparr>)"

definition default_init_memmap :: "nat \<Rightarrow> nat \<Rightarrow> pmm \<Rightarrow> pmm option" where
  "default_init_memmap base n s = do {
     kassert (n > 0);
     s1 \<leftarrow> init_pages_loop n base s;
     insert_free_block base (set_block_head base n s1) }"

partial_function (option) find_fit_loop :: "nat \<Rightarrow> fnode \<Rightarrow> pmm \<Rightarrow> nat option option" where
  "find_fit_loop n le s =
     (case list_next le (free_links s) of
        FreeList \<Rightarrow> Some None
      | PageLink p \<Rightarrow>
          (if property_of s p \<ge> n then Some (Some p) else find_fit_loop n (PageLink p) s))"

definition take_block :: "nat \<Rightarrow> nat \<Rightarrow> pmm \<Rightarrow> pmm" where
  "take_block page n s =
     (let prev = list_prev (PageLink page) (free_links s);
          s1 = upd_links (list_del (PageLink page)) s;
          s2 = (if property_of s1 page > n then
                  (let p = page + n;
                       t1 = upd_page p (\<lambda>pg. pg\<lparr>pg_property := pg_property (page_of s1 page) - of_nat n\<rparr>) s1;
                       t2 = upd_page p SetPageProperty t1
                   in upd_links (list_add prev (PageLink p)) t2)
                else s1);
          s3 = s2\<lparr>nr_free := nr_free s2 - of_nat n\<rparr>
      in upd_page page ClearPageProperty s3)"

definition default_alloc_pages :: "nat \<Rightarrow> pmm \<Rightarrow> (nat option \<times> pmm) option" where
  "default_alloc_pages n s = do {
     kassert (n > 0);
     if n > unat (nr_free s) then Some (None, s)
     else do {
       r \<leftarrow> find_fit_loop n FreeList s;
       case r of
         None \<Rightarrow> Some (None, s)
       | Some page \<Rightarrow> Some (Some page, take_block page n s) } }"

primrec free_pages_loop :: "nat \<Rightarrow> nat \<Rightarrow> pmm \<Rightarrow> pmm option" where
  "free_pages_loop 0 p s = Some s"
| "free_pages_loop (Suc k) p s = do {
     kassert (\<not> PageReserved (page_of s p) \<and> \<not> PageProperty (page_of s p));
     free_pages_loop k (p + 1) (upd_page p (\<lambda>pg. set_page_ref 0 (pg\<lparr>pg_flags := 0\<rparr>)) s) }"

definition merge_backward :: "nat \<Rightarrow> pmm \<Rightarrow> nat \<times> pmm" where
  "merge_backward base s =
     (case list_prev (PageLink base) (free_links s) of
        FreeList \<Rightarrow> (base, s)
      | PageLink p \<Rightarrow>
          (if p + property_of s p = base then
             (let s1 = upd_page p (\<lambda>pg. pg\<lparr>pg_property := pg_property pg + pg_property (page_of s base)\<rparr>) s;
                  s2 = upd_page base ClearPageProperty s1;
                  s3 = upd_links (list_del (PageLink base)) s2
              in (p, s3))
           else (base, s)))"

definition merge_forward :: "nat \<Rightarrow> pmm \<Rightarrow> pmm" where
  "merge_forward base s =
     (case list_next (PageLink base) (free_links s) of
        FreeList \<Rightarrow> s
      | PageLink p \<Rightarrow>
          (if base + property_of s base = p then
             (let s1 = upd_page base (\<lambda>pg. pg\<lparr>pg_property := pg_property pg + pg_property (page_of s p)\<rparr>) s;
                  s2 = upd_page p ClearPageProperty s1
              in upd_links (list_del (PageLink p)) s2)
           else s))"

definition default_free_pages :: "nat \<Rightarrow> nat \<Rightarrow> pmm \<Rightarrow> pmm option" where
  "default_free_pages base n s = do {
     kassert (n > 0);
     s1 \<leftarrow> free_pages_loop n base s;
     s2 \<leftarrow> insert_free_block base (set_block_head base n s1);
     (let (base', s3) = merge_backward base s2 in Some (merge_forward base' s3)) }"

definition default_nr_free_pages :: "pmm \<Rightarrow> nat" where
  "default_nr_free_pages s = unat (nr_free s)"

section \<open>The list walks on a well-formed free list\<close>

lemma find_fit_loop_spec:
  assumes "next_path (free_links s) (le # heads bs @ [FreeList])"
    and "\<And>b. b \<in> set bs \<Longrightarrow> property_of s (fst b) = snd b"
  shows "find_fit_loop n le s = Some (map_option fst (find (\<lambda>b. n \<le> snd b) bs))"
  using assms
proof (induction bs arbitrary: le)
  case Nil
  then show ?case by (simp add: find_fit_loop.simps list_next_def)
next
  case (Cons b bs)
  then have "list_next le (free_links s) = PageLink (fst b)" "property_of s (fst b) = snd b"
    "find_fit_loop n (PageLink (fst b)) s = Some (map_option fst (find (\<lambda>b. n \<le> snd b) bs))"
    by (auto simp: list_next_def)
  then show ?case by (subst find_fit_loop.simps) simp
qed

lemma insert_loop_middle:
  assumes "next_path (free_links s) (le # heads (mid @ c # post) @ [FreeList])"
    and "\<And>b. b \<in> set mid \<Longrightarrow> \<not> base < fst b" and "base < fst c"
  shows "insert_loop base le s =
           Some (upd_links (list_add_before (PageLink (fst c)) (PageLink base)) s)"
  using assms
proof (induction mid arbitrary: le)
  case Nil
  then show ?case by (subst insert_loop.simps) (simp add: list_next_def)
next
  case (Cons m mid)
  have "list_next le (free_links s) = PageLink (fst m)" "\<not> base < fst m"
    using Cons.prems(1) Cons.prems(2) [of m] by (simp_all add: list_next_def)
  moreover have "list_next (PageLink (fst m)) (free_links s) \<noteq> FreeList"
    using Cons.prems(1) by (cases mid) (auto simp: list_next_def)
  moreover have "insert_loop base (PageLink (fst m)) s =
      Some (upd_links (list_add_before (PageLink (fst c)) (PageLink base)) s)"
    using Cons.prems by (intro Cons.IH) auto
  ultimately show ?case by (subst insert_loop.simps) simp
qed

text \<open>Behind the last block the loop adds the new entry twice, the second time after itself.\<close>

lemma insert_loop_tail:
  assumes "next_path (free_links s) (le # heads (mid @ [m]) @ [FreeList])"
    and "\<And>b. b \<in> set (mid @ [m]) \<Longrightarrow> fst b < base"
  shows "insert_loop base le s =
           Some (upd_links (list_add (PageLink base) (PageLink base))
                  (upd_links (list_add (PageLink (fst m)) (PageLink base)) s))"
  using assms
proof (induction mid arbitrary: le)
  case Nil
  have nxt: "list_next le (free_links s) = PageLink (fst m)"
    "list_next (PageLink (fst m)) (free_links s) = FreeList"
    using Nil(1) by (simp_all add: list_next_def)
  have ne: "fst m \<noteq> base" "\<not> base < fst m" using Nil(2) [of m] by auto
  show ?case
    using nxt ne
    by (subst insert_loop.simps, simp, subst insert_loop.simps,
        simp add: list_next_def list_add_def list_add_after_def links_simps,
        subst insert_loop.simps,
        simp add: list_next_def list_add_def list_add_after_def links_simps)
next
  case (Cons b mid)
  have "list_next le (free_links s) = PageLink (fst b)" "\<not> base < fst b"
    using Cons.prems(1) Cons.prems(2) [of b] by (simp_all add: list_next_def)
  moreover have "list_next (PageLink (fst b)) (free_links s) \<noteq> FreeList"
    using Cons.prems(1) by (cases mid) (auto simp: list_next_def)
  moreover have "insert_loop base (PageLink (fst b)) s =
           Some (upd_links (list_add (PageLink base) (PageLink base))
                  (upd_links (list_add (PageLink (fst m)) (PageLink base)) s))"
    using Cons.prems by (intro Cons.IH) auto
  ultimately show ?case by (subst insert_loop.simps) simp
qed

section \<open>The descriptor loops\<close>

definition over_range :: "nat \<Rightarrow> nat \<Rightarrow> (Page \<Rightarrow> Page) \<Rightarrow> pmm \<Rightarrow> pmm" where
  "over_range p n f s =
     s\<lparr>page_of := (\<lambda>q. if p \<le> q \<and> q < p + n then f (page_of s q) else page_of s q)\<rparr>"

lemma over_range_simps [simp]:
  "free_links (over_range p n f s) = free_links s"
  "nr_free (over_range p n f s) = nr_free s"
  "page_of (over_range p n f s) q = (if p \<le> q \<and> q < p + n then f (page_of s q) else page_of s q)"
  by (simp_all add: over_range_def)

lemma over_range_0: "over_range p 0 f s = s"
proof -
  have "(\<lambda>q. if p \<le> q \<and> q < p + 0 then f (page_of s q) else page_of s q) = page_of s"
    by (auto simp: fun_eq_iff)
  then show ?thesis unfolding over_range_def by (simp only:) simp
qed

lemma over_range_Suc: "over_range (Suc p) k f (upd_page p f s) = over_range p (Suc k) f s"
  by (auto simp: over_range_def upd_page_def fun_eq_iff)

lemma free_pages_loop_ok:
  assumes "\<And>q. p \<le> q \<Longrightarrow> q < p + n \<Longrightarrow> \<not> PageReserved (page_of s q) \<and> \<not> PageProperty (page_of s q)"
  shows "free_pages_loop n p s =
           Some (over_range p n (\<lambda>pg. set_page_ref 0 (pg\<lparr>pg_flags := 0\<rparr>)) s)"
  using assms
proof (induction n arbitrary: p s)
  case 0
  then show ?case by (simp add: over_range_0)
next
  case (Suc n)
  have "\<not> PageReserved (page_of s p) \<and> \<not> PageProperty (page_of s p)" using Suc.prems [of p] by simp
  moreover have "free_pages_loop n (Suc p) (upd_page p (\<lambda>pg. set_page_ref 0 (pg\<lparr>pg_flags := 0\<rparr>)) s) =
      Some (over_range (Suc p) n (\<lambda>pg. set_page_ref 0 (pg\<lparr>pg_flags := 0\<rparr>))
             (upd_page p (\<lambda>pg. set_page_ref 0 (pg\<lparr>pg_flags := 0\<rparr>)) s))"
    by (rule Suc.IH) (use Suc.prems in auto)
  ultimately show ?case by (simp add: over_range_Suc)
qed

lemma free_pages_loop_panic:
  assumes "p \<le> q" "q < p + n" and "PageReserved (page_of s q) \<or> PageProperty (page_of s q)"
  shows "free_pages_loop n p s = None"
  using assms
proof (induction n arbitrary: p s)
  case (Suc n)
  show ?case
  proof (cases "p = q")
    case True
    then show ?thesis using Suc.prems by (auto simp: bind_kassert)
  next
    case False
    then have "free_pages_loop n (Suc p) (upd_page p (\<lambda>pg. set_page_ref 0 (pg\<lparr>pg_flags := 0\<rparr>)) s) = None"
      by (intro Suc.IH) (use Suc.prems in auto)
    then show ?thesis by (simp add: bind_kassert)
  qed
qed simp

lemma init_pages_loop_ok:
  assumes "\<And>q. p \<le> q \<Longrightarrow> q < p + n \<Longrightarrow> PageReserved (page_of s q)"
  shows "init_pages_loop n p s =
           Some (over_range p n (\<lambda>pg. set_page_ref 0 (pg\<lparr>pg_flags := 0, pg_property := 0\<rparr>)) s)"
  using assms
proof (induction n arbitrary: p s)
  case 0
  then show ?case by (simp add: over_range_0)
next
  case (Suc n)
  have "PageReserved (page_of s p)" using Suc.prems [of p] by simp
  moreover have "init_pages_loop n (Suc p)
        (upd_page p (\<lambda>pg. set_page_ref 0 (pg\<lparr>pg_flags := 0, pg_property := 0\<rparr>)) s) =
      Some (over_range (Suc p) n (\<lambda>pg. set_page_ref 0 (pg\<lparr>pg_flags := 0, pg_property := 0\<rparr>))
             (upd_page p (\<lambda>pg. set_page_ref 0 (pg\<lparr>pg_flags := 0, pg_property := 0\<rparr>)) s))"
    by (rule Suc.IH) (use Suc.prems in auto)
  ultimately show ?case by (simp add: over_range_Suc)
qed

section \<open>Each step on the abstract block list\<close>

definition fits_between :: "block list \<Rightarrow> nat \<Rightarrow> nat \<Rightarrow> block list \<Rightarrow> bool" where
  "fits_between pre b n post \<longleftrightarrow>
     (\<forall>x\<in>set pre. fst x + snd x \<le> b) \<and> (\<forall>y\<in>set post. b + n \<le> fst y)"

lemma fits_between_not_head:
  assumes "ordered (pre @ post)" "fits_between pre b n post" "0 < n" "b \<le> p" "p < b + n"
  shows "p \<notin> fst ` set (pre @ post)"
  using assms by (force simp: fits_between_def ordered_def)

lemma set_block_head_simps [simp]:
  "free_links (set_block_head b n s) = free_links s"
  "nr_free (set_block_head b n s) = nr_free s + of_nat n"
  "page_of (set_block_head b n s) = (page_of s)(b := SetPageProperty ((page_of s b)\<lparr>pg_property := of_nat n\<rparr>))"
  by (simp_all add: set_block_head_def Let_def fun_eq_iff)

lemma free_rep_add_block:
  assumes rep: "free_rep s (pre @ post)" and fit: "fits_between pre b n post" and n: "0 < n"
    and room: "total_pages (pre @ post) + n < 2 ^ 32"
    and s1: "s1 = set_block_head b n (over_range b n f s)"
    and f: "\<And>pg. pg_flags (f pg) = 0"
    and L: "free_links s' = L" "page_of s' = page_of s1" "nr_free s' = nr_free s1"
    and d: "dlist L FreeList (heads (pre @ (b, n) # post))"
  shows "free_rep s' (pre @ (b, n) # post)"
proof -
  have ord: "ordered (pre @ (b, n) # post)"
    using rep fit n by (force simp: free_rep_def ordered_append ordered_Cons fits_between_def)
  have nh: "\<And>p. b \<le> p \<Longrightarrow> p < b + n \<Longrightarrow> p \<notin> fst ` set (pre @ post)"
    using fits_between_not_head rep fit n by (metis free_rep_def)
  have f0: "\<And>pg. \<not> PageProperty (f pg)" "\<And>pg. \<not> PageReserved (f pg)"
    using f by (auto simp: PageProperty_def PageReserved_def)
  have nr: "unat (nr_free s + of_nat n) = unat (nr_free s) + n"
    using rep room by (subst unat_add_u32) (auto simp: free_rep_def unat_of_nat_u32)
  have lens: "property_of s' (fst x) = snd x" if "x \<in> set (pre @ (b, n) # post)" for x
  proof (cases "x = (b, n)")
    case True
    then show ?thesis using L s1 room by (simp add: property_of_def unat_of_nat_u32)
  next
    case False
    then have x: "x \<in> set (pre @ post)" using that by auto
    then have "\<not> (b \<le> fst x \<and> fst x < b + n)" using nh by blast
    then have "fst x \<noteq> b" "\<not> (b \<le> fst x \<and> fst x < b + n)" using n by auto
    then show ?thesis using x rep L s1 by (auto simp: free_rep_def property_of_def)
  qed
  have pp: "PageProperty (page_of s' p) \<longleftrightarrow> p \<in> fst ` set (pre @ (b, n) # post)" for p
    using rep L s1 f0 nh [of p] n by (auto simp: free_rep_def)
  have pr: "\<not> PageReserved (page_of s' p)" if "p \<in> pages_in (pre @ (b, n) # post)" for p
    using that rep L s1 f0 n by (auto simp: free_rep_def)
  show ?thesis
    unfolding free_rep_def
    using d L ord lens pp pr nr s1 rep by (auto simp: free_rep_def)
qed

lemma prev_before:
  assumes "dlist L FreeList (heads (pre @ (b, n) # post))"
  shows "list_prev (PageLink b) L = last (FreeList # heads pre)"
    and "list_next (PageLink b) L = hd (heads post @ [FreeList])"
  using dlist_next_prev [of L FreeList "heads pre" "PageLink b" "heads post"] assms
  by (simp_all add: list_next_def list_prev_def)

lemma merge_backward_apart:
  assumes "free_rep s (pre @ (b, n) # post)"
    and "pre = [] \<or> fst (last pre) + snd (last pre) \<noteq> b"
  shows "merge_backward b s = (b, s)"
  using assms prev_before(1) [OF free_rep_dlist [OF assms(1)]]
    free_rep_property [OF assms(1), of "last pre"]
  by (auto simp: merge_backward_def last_heads)

lemma merged_property:
  assumes "free_rep s (pre @ (a, k) # (b, n) # post)"
  shows "unat (pg_property (page_of s a) + pg_property (page_of s b)) = k + n"
proof -
  have "property_of s a = k" "property_of s b = n"
    using free_rep_property [OF assms, of "(a, k)"] free_rep_property [OF assms, of "(b, n)"] by auto
  moreover have "k + n \<le> total_pages (pre @ (a, k) # (b, n) # post)" by simp
  then have "k + n < 2 ^ 32"
    using assms unat_u32_less [of "nr_free s"] by (simp add: free_rep_def)
  ultimately show ?thesis by (simp add: property_of_def unat_add_u32)
qed

lemma free_rep_join:
  assumes rep: "free_rep s (pre @ (a, k) # (b, n) # post)" and adj: "a + k = b"
    and s': "page_of s' = (page_of s)
        (a := (page_of s a)\<lparr>pg_property := pg_property (page_of s a) + pg_property (page_of s b)\<rparr>,
         b := ClearPageProperty (page_of s b))"
      "free_links s' = list_del (PageLink b) (free_links s)" "nr_free s' = nr_free s"
  shows "free_rep s' (pre @ (a, k + n) # post)"
proof -
  let ?bs = "pre @ (a, k) # (b, n) # post"
  have ord: "ordered ?bs" using rep by (simp add: free_rep_def)
  then have ord': "ordered (pre @ (a, k + n) # post)"
    using adj by (auto simp: ordered_append ordered_Cons)
  have pos: "0 < k" "0 < n" using ord by (simp_all add: ordered_append ordered_Cons)
  then have ne: "a \<noteq> b" using adj by simp
  have out: "fst x \<noteq> a \<and> fst x \<noteq> b" if "x \<in> set (pre @ post)" for x
    using ordered_apart(1,2) [OF ord', of x] that adj pos by auto
  have d: "dlist (free_links s') FreeList (heads (pre @ (a, k + n) # post))"
    using dlist_del [of "free_links s" FreeList "heads (pre @ [(a, k)])" "PageLink b" "heads post"]
      free_rep_dlist [OF rep] s' by simp
  have lens: "property_of s' (fst x) = snd x" if "x \<in> set (pre @ (a, k + n) # post)" for x
  proof (cases "x = (a, k + n)")
    case True
    then show ?thesis using merged_property [OF rep] s' ne by (simp add: property_of_def)
  next
    case False
    then have "x \<in> set (pre @ post)" using that by auto
    then show ?thesis using out rep s' by (auto simp: free_rep_def property_of_def)
  qed
  have pp: "PageProperty (page_of s' p) \<longleftrightarrow> p \<in> fst ` set (pre @ (a, k + n) # post)" for p
  proof -
    have old: "PageProperty (page_of s p) \<longleftrightarrow> p \<in> fst ` set ?bs"
      using rep by (simp add: free_rep_def)
    have "b \<notin> fst ` set (pre @ post)" using out by blast
    with old show ?thesis using s'(1) ne by auto
  qed
  have pr: "\<not> PageReserved (page_of s' p)" if "p \<in> pages_in (pre @ (a, k + n) # post)" for p
  proof -
    have "p \<in> pages_in ?bs" using that adj by auto
    then show ?thesis using rep s' by (auto simp: free_rep_def)
  qed
  show ?thesis
    unfolding free_rep_def using d ord' lens pp pr s' rep by (auto simp: free_rep_def)
qed

lemma merge_backward_joins:
  assumes rep: "free_rep s (pre @ (a, k) # (b, n) # post)" and adj: "a + k = b"
  obtains s' where "merge_backward b s = (a, s')" "free_rep s' (pre @ (a, k + n) # post)"
    "\<And>p. PageReserved (page_of s' p) = PageReserved (page_of s p)"
proof -
  have "ordered (pre @ (a, k) # (b, n) # post)" using rep by (simp add: free_rep_def)
  then have "a \<noteq> b" using adj by (auto simp: ordered_append ordered_Cons)
  have "list_prev (PageLink b) (free_links s) = PageLink a"
    using prev_before(1) [of "free_links s" "pre @ [(a, k)]" b n post] free_rep_dlist [OF rep]
    by (simp del: last.simps) (simp add: last_heads)
  moreover have "property_of s a = k" using free_rep_property [OF rep, of "(a, k)"] by simp
  ultimately have m: "merge_backward b s =
     (a, upd_links (list_del (PageLink b)) (upd_page b ClearPageProperty
       (upd_page a (\<lambda>pg. pg\<lparr>pg_property := pg_property pg + pg_property (page_of s b)\<rparr>) s)))"
    using adj by (simp add: merge_backward_def Let_def)
  show thesis
    by (rule that [OF m free_rep_join [OF rep adj]]) (use \<open>a \<noteq> b\<close> in auto)
qed

lemma merge_forward_apart:
  assumes "free_rep s (pre @ (b, n) # post)"
    and "post = [] \<or> b + n \<noteq> fst (hd post)"
  shows "merge_forward b s = s"
  using assms prev_before(2) [OF free_rep_dlist [OF assms(1)]]
    free_rep_property [OF assms(1), of "(b, n)"]
  by (cases post) (auto simp: merge_forward_def)

lemma merge_forward_joins:
  assumes rep: "free_rep s (pre @ (a, k) # (b, n) # post)" and adj: "a + k = b"
  shows "free_rep (merge_forward a s) (pre @ (a, k + n) # post)"
proof -
  have "ordered (pre @ (a, k) # (b, n) # post)" using rep by (simp add: free_rep_def)
  then have "a \<noteq> b" using adj by (auto simp: ordered_append ordered_Cons)
  have "list_next (PageLink a) (free_links s) = PageLink b"
    using prev_before(2) [of "free_links s" pre a k "(b, n) # post"] free_rep_dlist [OF rep] by simp
  moreover have "property_of s a = k" using free_rep_property [OF rep, of "(a, k)"] by simp
  ultimately show ?thesis
    using adj \<open>a \<noteq> b\<close>
    by (intro free_rep_join [OF rep adj]) (auto simp: merge_forward_def Let_def)
qed

lemma take_block_links:
  "free_links (take_block b n s) =
     (let L = list_del (PageLink b) (free_links s)
      in if n < property_of s b
         then list_add (list_prev (PageLink b) (free_links s)) (PageLink (b + n)) L else L)"
  by (simp add: take_block_def Let_def property_of_def)

lemma take_block_rep:
  assumes rep: "free_rep s (pre @ (b, l) # post)" and n: "0 < n" "n \<le> l"
  shows "free_rep (take_block b n s) (pre @ (if n < l then [(b + n, l - n)] else []) @ post)"
    (is "free_rep ?s (pre @ ?rest @ post)")
proof -
  let ?bs = "pre @ (b, l) # post"
  have ord: "ordered ?bs" using rep by (simp add: free_rep_def)
  then have ord': "ordered (pre @ ?rest @ post)"
    using n by (auto simp: ordered_append ordered_Cons)
  have pb: "property_of s b = l" using free_rep_property [OF rep, of "(b, l)"] by simp
  have out: "fst x \<noteq> b \<and> (n < l \<longrightarrow> fst x \<noteq> b + n)" if "x \<in> set (pre @ post)" for x
    using ordered_apart(1,2) [OF ord, of x] that n by auto
  have prev: "list_prev (PageLink b) (free_links s) = last (FreeList # heads pre)"
    by (rule prev_before(1) [OF free_rep_dlist [OF rep]])
  have del: "dlist (list_del (PageLink b) (free_links s)) FreeList (heads pre @ heads post)"
    using dlist_del free_rep_dlist [OF rep] by fastforce
  have links: "free_links ?s = (if n < l then list_add (last (FreeList # heads pre)) (PageLink (b + n))
      (list_del (PageLink b) (free_links s)) else list_del (PageLink b) (free_links s))"
    unfolding take_block_links pb prev Let_def ..
  have d: "dlist (free_links ?s) FreeList (heads (pre @ ?rest @ post))"
  proof (cases "n < l")
    case True
    have "b + n \<notin> fst ` set (pre @ post)" using out True by (metis imageE)
    then have "PageLink (b + n) \<notin> set (FreeList # heads pre @ heads post)"
      by (simp add: image_Un)
    from dlist_add [OF del this refl] show ?thesis using True links by simp
  next
    case False
    then show ?thesis using del links by simp
  qed
  have rest: "unat (pg_property (page_of s b) - of_nat n) = l - n"
    using pb n by (simp add: property_of_def unat_sub_u32)
  have pages: "page_of ?s q =
     (if q = b then ClearPageProperty (page_of s b)
      else if q = b + n \<and> n < l
      then SetPageProperty ((page_of s q)\<lparr>pg_property := pg_property (page_of s b) - of_nat n\<rparr>)
      else page_of s q)" for q
    using pb n by (auto simp: take_block_def Let_def property_of_def)
  have lens: "property_of ?s (fst x) = snd x" if "x \<in> set (pre @ ?rest @ post)" for x
  proof (cases "x \<in> set (pre @ post)")
    case True
    then show ?thesis
      using out [OF True] rep by (auto simp: pages property_of_def free_rep_def)
  next
    case False
    then have "n < l" "x = (b + n, l - n)" using that by (auto split: if_splits)
    then show ?thesis using n rest by (simp add: pages property_of_def)
  qed
  have pp: "PageProperty (page_of ?s p) \<longleftrightarrow> p \<in> fst ` set (pre @ ?rest @ post)" for p
    using rep out n by (auto simp: pages free_rep_def)
  have pr: "\<not> PageReserved (page_of ?s p)" if "p \<in> pages_in (pre @ ?rest @ post)" for p
  proof -
    have "p \<in> pages_in ?bs" using that by (auto split: if_splits)
    then show ?thesis using rep by (auto simp: pages free_rep_def)
  qed
  have nr: "unat (nr_free ?s) = total_pages (pre @ ?rest @ post)"
  proof -
    have "n \<le> unat (nr_free s)" using rep n by (simp add: free_rep_def)
    moreover have "nr_free ?s = nr_free s - of_nat n" by (simp add: take_block_def Let_def)
    ultimately show ?thesis using rep n by (auto simp: unat_sub_u32 free_rep_def)
  qed
  show ?thesis
    unfolding free_rep_def using d ord' lens pp pr nr by blast
qed

lemma take_block_reserved: "PageReserved (page_of (take_block b n s) p) = PageReserved (page_of s p)"
  by (simp add: take_block_def Let_def)

section \<open>The allocator implements the abstract block list\<close>

fun alloc_blocks :: "nat \<Rightarrow> block list \<Rightarrow> block list" where
  "alloc_blocks n [] = []"
| "alloc_blocks n ((b, l) # bs) =
     (if n \<le> l then (if n < l then (b + n, l - n) # bs else bs) else (b, l) # alloc_blocks n bs)"

definition join_right :: "block \<Rightarrow> block list \<Rightarrow> block list" where
  "join_right blk post =
     (case post of
        (c, m) # post' \<Rightarrow> if fst blk + snd blk = c then (fst blk, snd blk + m) # post' else blk # post
      | [] \<Rightarrow> [blk])"

definition join_blocks :: "block list \<Rightarrow> block \<Rightarrow> block list \<Rightarrow> block list" where
  "join_blocks pre blk post =
     (if pre \<noteq> [] \<and> fst (last pre) + snd (last pre) = fst blk
      then butlast pre @ join_right (fst (last pre), snd (last pre) + snd blk) post
      else pre @ join_right blk post)"

lemma pages_in_join_blocks:
  "pages_in (join_blocks pre (b, n) post) = pages_in pre \<union> {b..<b + n} \<union> pages_in post"
proof -
  have r: "pages_in (join_right (c, k) post) = {c..<c + k} \<union> pages_in post" for c k
    by (cases post) (auto simp: join_right_def split: prod.splits)
  show ?thesis
  proof (cases pre rule: rev_cases)
    case Nil
    then show ?thesis by (simp add: join_blocks_def r)
  next
    case (snoc pre' x)
    then show ?thesis by (cases x) (auto simp: join_blocks_def r)
  qed
qed

lemma find_split:
  assumes "find P xs = Some x"
  obtains pre post where "xs = pre @ x # post" "\<forall>y\<in>set pre. \<not> P y" "P x"
proof -
  obtain i where i: "i < length xs" "P (xs ! i)" "x = xs ! i" "\<forall>j<i. \<not> P (xs ! j)"
    using assms by (auto simp: find_Some_iff)
  show thesis
    by (rule that [of "take i xs" "drop (Suc i) xs"])
      (use i in \<open>auto simp: id_take_nth_drop [symmetric] in_set_conv_nth\<close>)
qed

lemma alloc_blocks_split:
  "\<forall>y\<in>set pre. \<not> n \<le> snd y \<Longrightarrow> n \<le> l \<Longrightarrow>
    alloc_blocks n (pre @ (b, l) # post) = pre @ (if n < l then [(b + n, l - n)] else []) @ post"
  by (induction pre) (auto split: prod.splits)

lemma alloc_blocks_none: "find (\<lambda>b. n \<le> snd b) bs = None \<Longrightarrow> alloc_blocks n bs = bs"
  by (induction n bs rule: alloc_blocks.induct) (auto split: if_splits)

lemma default_alloc_spec:
  assumes rep: "free_rep s bs" and n: "0 < n"
  shows "\<exists>s'. default_alloc_pages n s = Some (map_option fst (find (\<lambda>b. n \<le> snd b) bs), s') \<and>
              free_rep s' (alloc_blocks n bs) \<and>
              (\<forall>p. PageReserved (page_of s' p) = PageReserved (page_of s p))"
proof (cases "find (\<lambda>b. n \<le> snd b) bs")
  case None
  have "find_fit_loop n FreeList s = Some None"
    using find_fit_loop_spec [OF dlist_next_path [OF free_rep_dlist [OF rep]]]
      free_rep_property [OF rep] None by simp
  then show ?thesis
    using None rep n by (simp add: default_alloc_pages_def alloc_blocks_none)
next
  case (Some blk)
  then obtain pre post where sp: "bs = pre @ blk # post" "\<forall>y\<in>set pre. \<not> n \<le> snd y" "n \<le> snd blk"
    by (rule find_split)
  obtain b l where blk: "blk = (b, l)" by (cases blk)
  have "find_fit_loop n FreeList s = Some (Some b)"
    using find_fit_loop_spec [OF dlist_next_path [OF free_rep_dlist [OF rep]]]
      free_rep_property [OF rep] Some blk by simp
  moreover have "n \<le> unat (nr_free s)"
    using rep sp blk by (simp add: free_rep_def)
  ultimately have "default_alloc_pages n s = Some (Some b, take_block b n s)"
    using n by (simp add: default_alloc_pages_def)
  moreover have "free_rep (take_block b n s) (alloc_blocks n bs)"
    using take_block_rep [of s pre b l post n] rep n sp blk alloc_blocks_split by simp
  ultimately show ?thesis
    using Some blk by (auto simp: take_block_reserved)
qed

lemma insert_free_block_links:
  assumes d: "dlist (free_links s) FreeList (heads (pre @ post))"
    and pre: "\<And>x. x \<in> set pre \<Longrightarrow> fst x < b" and post: "\<And>y. y \<in> set post \<Longrightarrow> b < fst y"
    and nt: "pre = [] \<or> post \<noteq> []"
  shows "\<exists>L. insert_free_block b s = Some (s\<lparr>free_links := L\<rparr>) \<and>
             dlist L FreeList (heads (pre @ (b, n) # post))"
proof -
  have nin: "PageLink b \<notin> set (FreeList # heads pre @ heads post)"
    using pre post by (fastforce simp: image_Un)
  have d': "dlist (free_links s) FreeList (heads pre @ heads post)" using d by simp
  show ?thesis
  proof (cases post)
    case Nil
    then have "pre = []" using nt by simp
    then show ?thesis
      using Nil dlist_list_empty [OF d] dlist_add [OF d' nin refl]
      by (auto simp: insert_free_block_def upd_links_def)
  next
    case (Cons c post')
    then have ne: "\<not> list_empty FreeList (free_links s)" using dlist_list_empty [OF d] by simp
    have "insert_loop b FreeList s = Some (upd_links (list_add_before (PageLink (fst c)) (PageLink b)) s)"
      using dlist_next_path [OF d] Cons post [of c] pre
      by (intro insert_loop_middle [where mid = pre and post = post']) (auto dest: less_imp_not_less)
    moreover have "dlist (list_add_before (PageLink (fst c)) (PageLink b) (free_links s))
        FreeList (heads (pre @ (b, n) # post))"
      using dlist_add_before [OF d' nin] Cons by simp
    ultimately show ?thesis using ne by (auto simp: insert_free_block_def upd_links_def)
  qed
qed

lemma fits_between_less:
  assumes "ordered (pre @ post)" "fits_between pre b n post" "0 < n"
  shows "\<And>x. x \<in> set pre \<Longrightarrow> fst x < b" "\<And>y. y \<in> set post \<Longrightarrow> b < fst y"
  using assms by (force simp: fits_between_def ordered_def)+

lemma merge_steps_rep:
  assumes rep: "free_rep s (pre @ (b, n) # post)"
  shows "free_rep (case merge_backward b s of (b', s') \<Rightarrow> merge_forward b' s') (join_blocks pre (b, n) post)
    \<and> (\<forall>p. PageReserved (page_of (case merge_backward b s of (b', s') \<Rightarrow> merge_forward b' s') p)
           = PageReserved (page_of s p))"
proof -
  have fwd_res: "PageReserved (page_of (merge_forward c t) p) = PageReserved (page_of t p)" for c t p
    by (auto simp: merge_forward_def Let_def split: fnode.splits)
  have fwd: "free_rep (merge_forward c t) (qs @ join_right (c, k) post)"
    if t: "free_rep t (qs @ (c, k) # post)" for c k t qs
  proof (cases post)
    case Nil
    then show ?thesis using t merge_forward_apart [OF t] by (simp add: join_right_def)
  next
    case (Cons d post')
    obtain e m where d: "d = (e, m)" by (cases d)
    show ?thesis
    proof (cases "c + k = e")
      case True
      then show ?thesis
        using merge_forward_joins [of t qs c k e m post'] t Cons d by (simp add: join_right_def)
    next
      case False
      then show ?thesis
        using t merge_forward_apart [OF t] Cons d by (simp add: join_right_def)
    qed
  qed
  show ?thesis
  proof (cases "pre \<noteq> [] \<and> fst (last pre) + snd (last pre) = b")
    case False
    then have "merge_backward b s = (b, s)" using merge_backward_apart [OF rep] by blast
    then show ?thesis using fwd [OF rep] False fwd_res by (auto simp: join_blocks_def)
  next
    case True
    then obtain pre' a k where pre: "pre = pre' @ [(a, k)]" "a + k = b"
      by (cases pre rule: rev_cases) auto
    then have "free_rep s (pre' @ (a, k) # (b, n) # post)" using rep by simp
    then obtain s' where s': "merge_backward b s = (a, s')" "free_rep s' (pre' @ (a, k + n) # post)"
      "\<And>p. PageReserved (page_of s' p) = PageReserved (page_of s p)"
      using merge_backward_joins pre(2) by metis
    then show ?thesis using fwd [OF s'(2)] pre fwd_res by (simp add: join_blocks_def)
  qed
qed

lemma default_free_spec:
  assumes rep: "free_rep s (pre @ post)" and n: "0 < n" and fit: "fits_between pre b n post"
    and room: "total_pages (pre @ post) + n < 2 ^ 32"
    and res: "\<forall>p. b \<le> p \<and> p < b + n \<longrightarrow> \<not> PageReserved (page_of s p)"
    and not_tail: "pre = [] \<or> post \<noteq> []"
  shows "\<exists>s'. default_free_pages b n s = Some s' \<and> free_rep s' (join_blocks pre (b, n) post) \<and>
              (\<forall>p. PageReserved (page_of s' p) = PageReserved (page_of s p))"
proof -
  define f where "f = (\<lambda>pg. set_page_ref 0 (pg\<lparr>pg_flags := 0\<rparr>))"
  define s1 where "s1 = set_block_head b n (over_range b n f s)"
  have ord: "ordered (pre @ post)" using rep by (simp add: free_rep_def)
  have "free_pages_loop n b s = Some (over_range b n f s)"
    unfolding f_def
  proof (rule free_pages_loop_ok)
    fix q assume "b \<le> q" "q < b + n"
    then show "\<not> PageReserved (page_of s q) \<and> \<not> PageProperty (page_of s q)"
      using res rep fits_between_not_head [OF ord fit n] by (auto simp: free_rep_def)
  qed
  moreover have "dlist (free_links s1) FreeList (heads (pre @ post))"
    using rep by (simp add: s1_def free_rep_def)
  then obtain L where L: "insert_free_block b s1 = Some (s1\<lparr>free_links := L\<rparr>)"
    "dlist L FreeList (heads (pre @ (b, n) # post))"
    using insert_free_block_links fits_between_less [OF ord fit n] not_tail by metis
  ultimately have free: "default_free_pages b n s =
      Some (case merge_backward b (s1\<lparr>free_links := L\<rparr>) of (b', s') \<Rightarrow> merge_forward b' s')"
    using n by (simp add: default_free_pages_def s1_def Let_def split: prod.splits)
  have rep': "free_rep (s1\<lparr>free_links := L\<rparr>) (pre @ (b, n) # post)"
    by (rule free_rep_add_block [OF rep fit n room s1_def _ _ _ _ L(2)]) (simp_all add: f_def set_page_ref_def)
  have "PageReserved (page_of (s1\<lparr>free_links := L\<rparr>) p) = PageReserved (page_of s p)" for p
    using res n by (auto simp: s1_def f_def)
  then show ?thesis using free merge_steps_rep [OF rep'] by auto
qed

text \<open>
  Freeing a run that contains a reserved page or the head of a free block stops in the
  assertion of \<open>default_free_pages\<close>.
\<close>

lemma default_free_pages_checks_flags:
  assumes "b \<le> p" "p < b + n" "PageReserved (page_of s p) \<or> PageProperty (page_of s p)"
  shows "default_free_pages b n s = None"
  using free_pages_loop_panic [OF assms] by (simp add: default_free_pages_def bind_kassert)

section \<open>A concrete free list\<close>

text \<open>Two free blocks, pages 2 to 4 and pages 10 to 14, for the evaluated instances.\<close>

definition example_pmm :: pmm where
  "example_pmm = \<lparr>page_of = (\<lambda>_. \<lparr>pg_ref = 0, pg_flags = 0, pg_property = 0\<rparr>)
       (2 := \<lparr>pg_ref = 0, pg_flags = 2, pg_property = 3\<rparr>,
        10 := \<lparr>pg_ref = 0, pg_flags = 2, pg_property = 5\<rparr>),
     free_links = \<lparr>next_of = (\<lambda>n. n)(FreeList := PageLink 2, PageLink 2 := PageLink 10, PageLink 10 := FreeList),
       prev_of = (\<lambda>n. n)(FreeList := PageLink 10, PageLink 2 := FreeList, PageLink 10 := PageLink 2)\<rparr>,
     nr_free = 8\<rparr>"

lemma example_pmm_rep: "free_rep example_pmm [(2, 3), (10, 5)]"
proof -
  have "PageProperty (page_of example_pmm p) \<longleftrightarrow> p = 2 \<or> p = 10" for p
    by (auto simp: example_pmm_def PageProperty_def PG_property_def)
  moreover have "\<not> PageReserved (page_of example_pmm p)" for p
    by (auto simp: example_pmm_def PageReserved_def PG_reserved_def)
  ultimately show ?thesis
    by (auto simp: free_rep_def dlist_def ordered_def property_of_def example_pmm_def)
qed

lemma example_pmm_unreserved: "\<not> PageReserved (page_of example_pmm p)"
  by (auto simp: example_pmm_def PageReserved_def PG_reserved_def)

section \<open>Freeing behind the last free block\<close>

lemma tail_free_state:
  assumes rep: "free_rep s bs" and ne: "bs \<noteq> []" and fit: "fits_between bs b n []" and n: "0 < n"
    and room: "total_pages bs + n < 2 ^ 32"
    and res: "\<forall>p. b \<le> p \<and> p < b + n \<longrightarrow> \<not> PageReserved (page_of s p)"
  obtains s1 where "default_free_pages b n s = Some s1"
    "next_path (free_links s1) (FreeList # heads bs @ [PageLink b])"
    "prev_of (free_links s1) (PageLink b) = PageLink b"
    "\<And>x. x \<in> set bs \<Longrightarrow> property_of s1 (fst x) = snd x \<and> fst x < b"
    "property_of s1 b = n" "unat (nr_free s1) = total_pages bs + n"
proof -
  define f where "f = (\<lambda>pg. set_page_ref 0 (pg\<lparr>pg_flags := 0\<rparr>))"
  define s0 where "s0 = set_block_head b n (over_range b n f s)"
  obtain pre z where bs: "bs = pre @ [z]" using ne by (cases bs rule: rev_cases) auto
  define L where "L = list_add (PageLink b) (PageLink b)
      (list_add (PageLink (fst z)) (PageLink b) (free_links s0))"
  define s1 where "s1 = s0\<lparr>free_links := L\<rparr>"
  have ord: "ordered (bs @ [])" using rep by (simp add: free_rep_def)
  have below: "fst x < b" if "x \<in> set bs" for x using fits_between_less(1) [OF ord fit n that] .
  have rep_d: "dlist (free_links s0) FreeList (heads bs)" using rep by (simp add: s0_def free_rep_def)
  have path: "next_path (free_links s0) (FreeList # heads (pre @ [z]) @ [FreeList])"
    using dlist_next_path [OF rep_d] bs by simp
  have "free_pages_loop n b s = Some (over_range b n f s)"
    unfolding f_def
  proof (rule free_pages_loop_ok)
    fix q assume "b \<le> q" "q < b + n"
    then show "\<not> PageReserved (page_of s q) \<and> \<not> PageProperty (page_of s q)"
      using res rep fits_between_not_head [OF ord fit n] by (auto simp: free_rep_def)
  qed
  moreover have "\<not> list_empty FreeList (free_links s0)"
    using dlist_list_empty [OF rep_d] bs by simp
  then have "insert_free_block b s0 = Some s1"
    using insert_loop_tail [OF path] below bs
    by (simp add: insert_free_block_def s1_def L_def upd_links_def)
  moreover have z_next: "next_of (free_links s0) (PageLink (fst z)) = FreeList"
    using dlist_next_prev(1) [of "free_links s0" FreeList "heads pre" "PageLink (fst z)" "[]"] rep_d bs
    by simp
  have zb: "fst z < b" using below bs by simp
  have Ln: "next_of L = (next_of (free_links s0))(PageLink (fst z) := PageLink b, PageLink b := FreeList)"
    using z_next zb by (simp add: L_def list_add_def list_add_after_def links_simps fun_eq_iff)
  have Lp: "prev_of L (PageLink b) = PageLink b"
    by (simp add: L_def list_add_def list_add_after_def links_simps)
  have bn: "property_of s1 b = n"
    using room by (simp add: s1_def s0_def property_of_def unat_of_nat_u32)
  have "merge_backward b s1 = (b, s1)" "merge_forward b s1 = s1"
    using n Lp Ln bn by (simp_all add: merge_backward_def merge_forward_def list_prev_def list_next_def s1_def)
  ultimately have free: "default_free_pages b n s = Some s1"
    using n by (simp add: default_free_pages_def s0_def)
  have "next_path L (FreeList # heads pre @ [PageLink (fst z)])"
  proof -
    have "x \<noteq> PageLink (fst z) \<and> x \<noteq> PageLink b" if "x \<in> set (FreeList # heads pre)" for x
      using that rep_d below bs by (fastforce simp: dlist_def)
    then have "next_path L (FreeList # heads pre @ [PageLink (fst z)]) \<longleftrightarrow>
        next_path (free_links s0) (FreeList # heads pre @ [PageLink (fst z)])"
      by (intro next_path_cong) (auto simp: Ln butlast_append split: if_splits)
    then show ?thesis
      using path next_path_append [of _ "FreeList # heads pre" "PageLink (fst z)" "[FreeList]"] by simp
  qed
  then have "next_path L (FreeList # heads bs @ [PageLink b])"
    using next_path_append [of L "FreeList # heads pre" "PageLink (fst z)" "[PageLink b]"] zb
    by (simp add: bs Ln)
  moreover have "property_of s1 (fst x) = snd x \<and> fst x < b" if "x \<in> set bs" for x
    using that below [of x] rep by (simp add: s1_def s0_def property_of_def free_rep_def)
  moreover have "unat (nr_free s1) = total_pages bs + n"
    using rep room by (simp add: s1_def s0_def free_rep_def unat_add_u32 unat_of_nat_u32)
  ultimately show thesis using that [of s1] free Lp bn by (simp add: s1_def)
qed

lemma find_fit_loop_stops:
  assumes "next_path (free_links s) (le # heads bs @ [PageLink b])"
    and "\<And>x. x \<in> set bs \<Longrightarrow> property_of s (fst x) < n" and "n \<le> property_of s b"
  shows "find_fit_loop n le s = Some (Some b)"
  using assms
proof (induction bs arbitrary: le)
  case Nil
  then show ?case by (subst find_fit_loop.simps) (simp add: list_next_def)
next
  case (Cons c bs)
  then have "list_next le (free_links s) = PageLink (fst c)" "property_of s (fst c) < n"
    "find_fit_loop n (PageLink (fst c)) s = Some (Some b)"
    by (auto simp: list_next_def)
  then show ?case by (subst find_fit_loop.simps) simp
qed

lemma self_linked_alloc:
  assumes path: "next_path (free_links t) (FreeList # heads bs @ [PageLink b])"
    and self: "prev_of (free_links t) (PageLink b) = PageLink b"
    and small: "\<And>x. x \<in> set bs \<Longrightarrow> property_of t (fst x) < m \<and> fst x < b"
    and m: "0 < m" "m \<le> property_of t b" "m \<le> unat (nr_free t)"
  shows "default_alloc_pages m t = Some (Some b, take_block b m t)"
    and "next_path (free_links (take_block b m t)) (FreeList # heads bs @ [PageLink b])"
    and "x \<in> set bs \<Longrightarrow> property_of (take_block b m t) (fst x) = property_of t (fst x)"
    and "property_of (take_block b m t) b = property_of t b"
    and "unat (nr_free (take_block b m t)) = unat (nr_free t) - m"
proof -
  show "default_alloc_pages m t = Some (Some b, take_block b m t)"
    using find_fit_loop_stops [OF path] small m by (simp add: default_alloc_pages_def)
  have "y \<noteq> PageLink b \<and> y \<noteq> PageLink (b + m)" if "y \<in> set (FreeList # heads bs)" for y
    using that small m by (cases y) fastforce+
  moreover have "next_of (list_del (PageLink b) (free_links t)) = next_of (free_links t)"
    by (simp add: list_del_def links_simps self fun_eq_iff)
  ultimately have "next_of (free_links (take_block b m t)) y = next_of (free_links t) y"
    if "y \<in> set (FreeList # heads bs)" for y
    using that self
    by (auto simp: take_block_links Let_def list_prev_def list_add_def list_add_after_def links_simps)
  then have "next_path (free_links (take_block b m t)) (FreeList # heads bs @ [PageLink b]) \<longleftrightarrow>
      next_path (free_links t) (FreeList # heads bs @ [PageLink b])"
    by (intro next_path_cong) (auto simp: butlast_append split: if_splits)
  with path show "next_path (free_links (take_block b m t)) (FreeList # heads bs @ [PageLink b])"
    by blast
  show "property_of (take_block b m t) b = property_of t b"
    using m by (simp add: take_block_def Let_def property_of_def)
  show "unat (nr_free (take_block b m t)) = unat (nr_free t) - m"
    using m by (simp add: take_block_def Let_def unat_sub_u32)
  show "x \<in> set bs \<Longrightarrow> property_of (take_block b m t) (fst x) = property_of t (fst x)"
    using small [of x] m by (auto simp: take_block_def Let_def property_of_def)
qed

text \<open>
  C16: after a block is freed behind the last free block, first-fit hands the same page out
  twice. The insertion loop has linked the block with itself as predecessor, so \<open>list_del\<close>
  does not take it off the list.
\<close>

theorem default_tail_free_double_allocation:
  assumes rep: "free_rep s bs" and ne: "bs \<noteq> []" and fit: "fits_between bs b n []"
    and room: "total_pages bs + n < 2 ^ 32"
    and res: "\<forall>p. b \<le> p \<and> p < b + n \<longrightarrow> \<not> PageReserved (page_of s p)"
    and small: "\<forall>x\<in>set bs. snd x < m"
    and m: "0 < m" "m \<le> n" "2 * m \<le> total_pages bs + n"
  shows "\<exists>s1 s2 s3. default_free_pages b n s = Some s1 \<and>
           default_alloc_pages m s1 = Some (Some b, s2) \<and>
           default_alloc_pages m s2 = Some (Some b, s3)"
proof -
  have n: "0 < n" using m by simp
  from tail_free_state [OF rep ne fit n room res] obtain s1 where
    free: "default_free_pages b n s = Some s1"
    and path: "next_path (free_links s1) (FreeList # heads bs @ [PageLink b])"
    and self: "prev_of (free_links s1) (PageLink b) = PageLink b"
    and len: "\<And>x. x \<in> set bs \<Longrightarrow> property_of s1 (fst x) = snd x \<and> fst x < b"
    and bn: "property_of s1 b = n" "unat (nr_free s1) = total_pages bs + n" by blast
  have sm: "property_of s1 (fst x) < m \<and> fst x < b" if "x \<in> set bs" for x
    using len [OF that] small that by auto
  have m1: "0 < m" "m \<le> property_of s1 b" "m \<le> unat (nr_free s1)" using m bn by auto
  note step = self_linked_alloc [OF path self sm m1]
  have "find_fit_loop m FreeList (take_block b m s1) = Some (Some b)"
    using step(3,4) sm m bn by (intro find_fit_loop_stops [OF step(2)]) auto
  then have "default_alloc_pages m (take_block b m s1) = Some (Some b, take_block b m (take_block b m s1))"
    using step(5) m bn by (simp add: default_alloc_pages_def)
  with free step(1) show ?thesis by blast
qed

theorem default_tail_free_double_allocation_witness:
  "\<exists>s1 s2 s3. default_free_pages 20 8 example_pmm = Some s1 \<and>
     default_alloc_pages 6 s1 = Some (Some 20, s2) \<and> default_alloc_pages 6 s2 = Some (Some 20, s3)"
  using default_tail_free_double_allocation [OF example_pmm_rep, of 20 8 6] example_pmm_unreserved
  by (auto simp: fits_between_def)

section \<open>Building the free list\<close>

lemma default_init_rep:
  assumes "\<And>p. \<not> PageProperty (page_of s p)"
  shows "free_rep (default_init s) []"
  using assms dlist_init [of FreeList "free_links s"]
  by (simp add: free_rep_def default_init_def)

lemma default_init_memmap_spec:
  assumes rep: "free_rep s (pre @ post)" and n: "0 < n" and fit: "fits_between pre b n post"
    and room: "total_pages (pre @ post) + n < 2 ^ 32"
    and res: "\<forall>p. b \<le> p \<and> p < b + n \<longrightarrow> PageReserved (page_of s p)"
    and not_tail: "pre = [] \<or> post \<noteq> []"
  shows "\<exists>s'. default_init_memmap b n s = Some s' \<and> free_rep s' (pre @ (b, n) # post) \<and>
              (\<forall>p. PageReserved (page_of s' p) \<longleftrightarrow>
                   PageReserved (page_of s p) \<and> \<not> (b \<le> p \<and> p < b + n))"
proof -
  define f where "f = (\<lambda>pg. set_page_ref 0 (pg\<lparr>pg_flags := 0, pg_property := 0\<rparr>))"
  define s1 where "s1 = set_block_head b n (over_range b n f s)"
  have ord: "ordered (pre @ post)" using rep by (simp add: free_rep_def)
  have "init_pages_loop n b s = Some (over_range b n f s)"
    unfolding f_def by (rule init_pages_loop_ok) (use res in auto)
  moreover have "dlist (free_links s1) FreeList (heads (pre @ post))"
    using rep by (simp add: s1_def free_rep_def)
  then obtain L where L: "insert_free_block b s1 = Some (s1\<lparr>free_links := L\<rparr>)"
    "dlist L FreeList (heads (pre @ (b, n) # post))"
    using insert_free_block_links fits_between_less [OF ord fit n] not_tail by metis
  ultimately have init: "default_init_memmap b n s = Some (s1\<lparr>free_links := L\<rparr>)"
    using n by (simp add: default_init_memmap_def s1_def)
  have "free_rep (s1\<lparr>free_links := L\<rparr>) (pre @ (b, n) # post)"
    by (rule free_rep_add_block [OF rep fit n room s1_def _ _ _ _ L(2)]) (simp_all add: f_def set_page_ref_def)
  moreover have "PageReserved (page_of (s1\<lparr>free_links := L\<rparr>) p) \<longleftrightarrow>
      PageReserved (page_of s p) \<and> \<not> (b \<le> p \<and> p < b + n)" for p
    using n by (auto simp: s1_def f_def page_flag_defs bit_simps)
  ultimately show ?thesis using init by blast
qed

section \<open>The first-fit manager as a page allocator\<close>

definition list_inv :: "pmm \<Rightarrow> bool" where
  "list_inv s \<longleftrightarrow> (\<exists>bs. free_rep s bs)"

definition list_free_set :: "pmm \<Rightarrow> nat set" where
  "list_free_set s = {p. \<exists>b. PageProperty (page_of s b) \<and> b \<le> p \<and> p < b + property_of s b}"

text \<open>
  A run may be given back when it is disjoint from the free pages, not reserved, and, because
  of the insertion loop, not behind all free blocks (unless the list is empty).
\<close>

definition list_freeable :: "pmm \<Rightarrow> nat \<Rightarrow> nat \<Rightarrow> bool" where
  "list_freeable s p n \<longleftrightarrow> 0 < n \<and> list_free_set s \<inter> {p..<p + n} = {} \<and>
     (\<forall>q. p \<le> q \<and> q < p + n \<longrightarrow> \<not> PageReserved (page_of s q)) \<and>
     unat (nr_free s) + n < 2 ^ 32 \<and>
     (list_free_set s = {} \<or> (\<exists>q\<in>list_free_set s. p < q))"

lemma free_rep_free_set: "free_rep s bs \<Longrightarrow> list_free_set s = pages_in bs"
  by (fastforce simp: free_rep_def list_free_set_def pages_in_def)

lemma finite_pages_in [simp]: "finite (pages_in bs)"
  by (simp add: pages_in_def)

lemma card_pages_in: "ordered bs \<Longrightarrow> card (pages_in bs) = total_pages bs"
proof (induction bs)
  case (Cons b bs)
  then have "{fst b..<fst b + snd b} \<inter> pages_in bs = {}"
    by (fastforce simp: ordered_Cons pages_in_def)
  with Cons show ?case by (simp add: ordered_Cons card_Un_disjoint)
qed simp

lemma pages_in_alloc_blocks:
  assumes "ordered bs" "find (\<lambda>b. n \<le> snd b) bs = Some blk"
  shows "{fst blk..<fst blk + n} \<subseteq> pages_in bs"
    and "pages_in (alloc_blocks n bs) = pages_in bs - {fst blk..<fst blk + n}"
proof -
  from find_split [OF assms(2)] obtain pre post where
    sp: "bs = pre @ blk # post" "\<forall>y\<in>set pre. \<not> n \<le> snd y" "n \<le> snd blk" .
  obtain b l where blk: "blk = (b, l)" by (cases blk)
  have eq: "alloc_blocks n bs = pre @ (if n < l then [(b + n, l - n)] else []) @ post"
    using sp blk alloc_blocks_split by simp
  show "{fst blk..<fst blk + n} \<subseteq> pages_in bs" using sp by auto
  have "p \<notin> {b..<b + l}" if "p \<in> pages_in (pre @ post)" for p
    using that ordered_apart(1) [of pre blk post] assms(1) sp blk
    by (fastforce simp: pages_in_def)
  then have disj: "pages_in (pre @ post) \<inter> {b..<b + n} = {}" using sp blk by force
  have rest: "pages_in (if n < l then [(b + n, l - n)] else []) = {b..<b + l} - {b..<b + n}"
    using sp blk by auto
  have "pages_in (alloc_blocks n bs) = pages_in (pre @ post) \<union> ({b..<b + l} - {b..<b + n})"
    unfolding eq pages_in_simps(3) rest by blast
  moreover have "pages_in bs = pages_in (pre @ post) \<union> {b..<b + l}"
    by (auto simp: sp(1) blk)
  ultimately show "pages_in (alloc_blocks n bs) = pages_in bs - {fst blk..<fst blk + n}"
    using disj blk by auto
qed

lemma block_gap:
  assumes ord: "ordered bs" and out: "pages_in bs \<inter> {b..<b + n} = {}" and n: "0 < n"
  obtains pre post where "bs = pre @ post" "fits_between pre b n post"
proof -
  let ?pre = "takeWhile (\<lambda>x. fst x < b) bs" and ?post = "dropWhile (\<lambda>x. fst x < b) bs"
  have sep: "fst x + snd x \<le> b \<or> b + n \<le> fst x" if "x \<in> set bs" for x
  proof (rule ccontr)
    assume "\<not> ?thesis"
    moreover have "0 < snd x" using ord that by (auto simp: ordered_def)
    ultimately have "max (fst x) b \<in> {fst x..<fst x + snd x}" "max (fst x) b \<in> {b..<b + n}"
      using n by auto
    moreover have "{fst x..<fst x + snd x} \<subseteq> pages_in bs" using that by (auto simp: pages_in_def)
    ultimately show False using out by blast
  qed
  have pre: "fst x + snd x \<le> b" if "x \<in> set ?pre" for x
    using sep [of x] set_takeWhileD [OF that] by auto
  have "b + n \<le> fst y" if y: "y \<in> set ?post" for y
  proof -
    obtain z zs where z: "?post = z # zs" using y by (cases ?post) auto
    then have "\<not> fst z < b" by (metis hd_dropWhile list.discI list.sel(1))
    moreover have "ordered ?post" using ord by (metis ordered_append takeWhile_dropWhile_id)
    ultimately have "\<not> fst y < b" using y z by (force simp: ordered_Cons)
    then show ?thesis using sep [of y] y by (auto dest!: set_dropWhileD) (use ord in \<open>auto simp: ordered_def\<close>)
  qed
  then show thesis using that [of ?pre ?post] pre by (auto simp: fits_between_def)
qed

lemma list_release_ok:
  assumes inv: "list_inv s" and fr: "list_freeable s p n"
  shows "\<exists>s'. default_free_pages p n s = Some s' \<and> list_inv s' \<and>
              list_free_set s' = list_free_set s \<union> {p..<p + n}"
proof -
  from inv obtain bs where rep: "free_rep s bs" by (auto simp: list_inv_def)
  have n: "0 < n" and out: "pages_in bs \<inter> {p..<p + n} = {}"
    using fr free_rep_free_set [OF rep] by (auto simp: list_freeable_def)
  from rep have ord: "ordered bs" by (simp add: free_rep_def)
  from block_gap [OF ord out n] obtain pre post where sp: "bs = pre @ post" "fits_between pre p n post" .
  have nt: "pre = [] \<or> post \<noteq> []"
  proof (rule ccontr)
    assume "\<not> ?thesis"
    then have post: "post = []" and pre: "pre \<noteq> []" by auto
    then have "fst (hd pre) \<in> pages_in bs"
      using ord sp by (cases pre) (auto simp: ordered_Cons)
    then obtain q where "q \<in> pages_in bs" "p < q"
      using fr free_rep_free_set [OF rep] by (auto simp: list_freeable_def)
    then show False using sp post by (force simp: fits_between_def pages_in_def)
  qed
  have room: "total_pages (pre @ post) + n < 2 ^ 32"
    using fr rep sp by (simp add: list_freeable_def free_rep_def)
  have res: "\<forall>q. p \<le> q \<and> q < p + n \<longrightarrow> \<not> PageReserved (page_of s q)"
    using fr by (simp add: list_freeable_def)
  obtain s' where
    s': "default_free_pages p n s = Some s'" "free_rep s' (join_blocks pre (p, n) post)"
    using default_free_spec [OF rep [unfolded sp(1)] n sp(2) room res nt] by blast
  have "list_free_set s' = list_free_set s \<union> {p..<p + n}"
    using free_rep_free_set [OF s'(2)] free_rep_free_set [OF rep] sp
    by (auto simp: pages_in_join_blocks)
  with s' show ?thesis by (auto simp: list_inv_def)
qed

interpretation ff: page_allocator list_inv list_free_set default_nr_free_pages
  default_alloc_pages default_free_pages list_freeable
proof unfold_locales
  fix s :: pmm assume "list_inv s"
  then obtain bs where rep: "free_rep s bs" by (auto simp: list_inv_def)
  then have ord: "ordered bs" by (simp add: free_rep_def)
  note fs = free_rep_free_set [OF rep]
  show "finite (list_free_set s)" by (simp add: fs)
  show "default_nr_free_pages s = card (list_free_set s)"
    using rep card_pages_in [OF ord] by (simp add: fs default_nr_free_pages_def free_rep_def)
  fix n s'
  { fix n :: nat assume n: "0 < n"
    note spec = default_alloc_spec [OF rep n]
    show "\<exists>r s'. default_alloc_pages n s = Some (r, s')" using spec by auto
    { fix s' assume a: "default_alloc_pages n s = Some (None, s')"
      with spec have "find (\<lambda>b. n \<le> snd b) bs = None" by auto
      then have "find_fit_loop n FreeList s = Some None"
        using find_fit_loop_spec [OF dlist_next_path [OF free_rep_dlist [OF rep]]]
          free_rep_property [OF rep] by simp
      with a n show "s' = s" by (auto simp: default_alloc_pages_def split: if_splits) }
    fix p s' assume a: "default_alloc_pages n s = Some (Some p, s')"
    with spec have "Some p = map_option fst (find (\<lambda>b. n \<le> snd b) bs)"
      and rep': "free_rep s' (alloc_blocks n bs)" by auto
    then obtain blk where blk: "find (\<lambda>b. n \<le> snd b) bs = Some blk" "p = fst blk"
      by (metis map_option_eq_Some)
    then show "list_inv s' \<and> {p..<p + n} \<subseteq> list_free_set s \<and>
        list_free_set s' = list_free_set s - {p..<p + n}"
      using pages_in_alloc_blocks [OF ord blk(1)] fs free_rep_free_set [OF rep'] rep'
      by (auto simp: list_inv_def) }
  assume "default_alloc_pages 1 s = Some (None, s')"
  with default_alloc_spec [OF rep, of 1] have "find (\<lambda>b. 1 \<le> snd b) bs = None" by auto
  then have "bs = []" using ord by (cases bs) (auto simp: ordered_Cons)
  then show "list_free_set s = {}" using fs by simp
next
  fix s p n assume "list_inv s" "list_freeable s p n"
  then show "\<exists>s'. default_free_pages p n s = Some s' \<and> list_inv s' \<and>
      list_free_set s' = list_free_set s \<union> {p..<p + n}"
    by (rule list_release_ok)
qed (simp add: list_freeable_def)

section \<open>Properties\<close>

text \<open>
  C14: on a well-formed free list, first-fit allocation returns the first block that is large
  enough (NULL when there is none), and leaves a well-formed free list with exactly the first
  \<open>n\<close> pages of that block removed.
\<close>

theorem default_alloc_pages_first_fit:
  assumes rep: "free_rep s bs" and n: "0 < n"
  shows "\<exists>s'. default_alloc_pages n s = Some (map_option fst (find (\<lambda>b. n \<le> snd b) bs), s') \<and>
              free_rep s' (alloc_blocks n bs) \<and>
              (\<forall>p. PageReserved (page_of s' p) = PageReserved (page_of s p))"
  using assms by (rule default_alloc_spec)

theorem default_alloc_pages_first_fit_witness:
  "\<exists>s'. default_alloc_pages 4 example_pmm = Some (Some 10, s') \<and> free_rep s' [(2, 3), (14, 1)]"
  using default_alloc_pages_first_fit [OF example_pmm_rep, of 4] by auto

text \<open>
  C15: freeing an allocated run of pages that does not lie behind all free blocks puts the run
  into its place in address order and joins it with the free neighbours on both sides.
\<close>

theorem default_free_pages_coalesces:
  assumes rep: "free_rep s (pre @ post)" and n: "0 < n" and fit: "fits_between pre b n post"
    and room: "total_pages (pre @ post) + n < 2 ^ 32"
    and res: "\<forall>p. b \<le> p \<and> p < b + n \<longrightarrow> \<not> PageReserved (page_of s p)"
    and not_tail: "pre = [] \<or> post \<noteq> []"
  shows "\<exists>s'. default_free_pages b n s = Some s' \<and> free_rep s' (join_blocks pre (b, n) post) \<and>
              (\<forall>p. PageReserved (page_of s' p) = PageReserved (page_of s p))"
  using assms by (rule default_free_spec)

theorem default_free_pages_coalesces_witness:
  "\<exists>s'. default_free_pages 5 5 example_pmm = Some s' \<and> free_rep s' [(2, 13)]"
  using default_free_pages_coalesces [of example_pmm "[(2, 3)]" "[(10, 5)]" 5 5]
    example_pmm_rep example_pmm_unreserved
  by (auto simp: fits_between_def join_blocks_def join_right_def)

end
