(* ===== verification/BestFit.thy ===== *)
theory BestFit
imports FirstFit
begin

text \<open>
  The best-fit physical memory manager of \<open>lab2/kern/mm/best_fit_pmm.c\<close>. It shares the free
  list, the insertion loop and the merging of neighbours with the first-fit manager; only the
  search of \<open>best_fit_alloc_pages\<close> differs: it walks the whole list and keeps the smallest
  block that is large enough.
\<close>

section \<open>The operations of best_fit_pmm.c\<close>

definition best_fit_init :: "pmm \<Rightarrow> pmm" where
  "best_fit_init s = (upd_links (list_init FreeList) s)\<lparr>nr_free := 0\<rparr>"

definition best_fit_init_memmap :: "nat \<Rightarrow> nat \<Rightarrow> pmm \<Rightarrow> pmm option" where
  "best_fit_init_memmap base n s = do {
     kassert (n > 0);
     s1 \<leftarrow> init_pages_loop n base s;
     insert_free_block base (set_block_head base n s1) }"

partial_function (option) find_best_loop ::
  "nat \<Rightarrow> fnode \<Rightarrow> nat \<Rightarrow> nat option \<Rightarrow> pmm \<Rightarrow> nat option option" where
  "find_best_loop n le min_size page s =
     (case list_next le (free_links s) of
        FreeList \<Rightarrow> Some page
      | PageLink p \<Rightarrow>
          (if property_of s p \<ge> n \<and> property_of s p < min_size
           then find_best_loop n (PageLink p) (property_of s p) (Some p) s
           else find_best_loop n (PageLink p) min_size page s))"

definition best_fit_alloc_pages :: "nat \<Rightarrow> pmm \<Rightarrow> (nat option \<times> pmm) option" where
  "best_fit_alloc_pages n s = do {
     kassert (n > 0);
     if n > unat (nr_free s) then Some (None, s)
     else do {
       r \<leftarrow> find_best_loop n FreeList (unat (nr_free s + 1)) None s;
       case r of
         None \<Rightarrow> Some (None, s)
       | Some page \<Rightarrow> Some (Some page, take_block page n s) } }"

definition best_fit_free_pages :: "nat \<Rightarrow> nat \<Rightarrow> pmm \<Rightarrow> pmm option" where
  "best_fit_free_pages base n s = do {
     kassert (n > 0);
     s1 \<leftarrow> free_pages_loop n base s;
     s2 \<leftarrow> insert_free_block base (set_block_head base n s1);
     (let (base', s3) = merge_backward base s2 in Some (merge_forward base' s3)) }"

definition best_fit_nr_free_pages :: "pmm \<Rightarrow> nat" where
  "best_fit_nr_free_pages s = unat (nr_free s)"

section \<open>The search\<close>

text \<open>What one pass over the blocks computes: the last strict improvement.\<close>

fun best_block :: "nat \<Rightarrow> nat \<Rightarrow> nat option \<Rightarrow> block list \<Rightarrow> nat option" where
  "best_block n m r [] = r"
| "best_block n m r ((b, l) # bs) =
     (if l \<ge> n \<and> l < m then best_block n l (Some b) bs else best_block n m r bs)"

lemma find_best_loop_spec:
  assumes "next_path (free_links s) (le # heads bs @ [FreeList])"
    and "\<And>b. b \<in> set bs \<Longrightarrow> property_of s (fst b) = snd b"
  shows "find_best_loop n le m r s = Some (best_block n m r bs)"
  using assms
proof (induction bs arbitrary: le m r)
  case Nil
  then show ?case by (simp add: find_best_loop.simps list_next_def)
next
  case (Cons b bs)
  then have "list_next le (free_links s) = PageLink (fst b)" "property_of s (fst b) = snd b"
    "\<And>m r. find_best_loop n (PageLink (fst b)) m r s = Some (best_block n m r bs)"
    by (auto simp: list_next_def)
  then show ?case by (subst find_best_loop.simps) (cases b, simp)
qed

lemma best_block_none: "\<forall>x\<in>set bs. \<not> (n \<le> snd x \<and> snd x < m) \<Longrightarrow> best_block n m r bs = r"
  by (induction n m r bs rule: best_block.induct) auto

lemma best_block_some:
  assumes "x \<in> set bs" "n \<le> snd x" "snd x < m"
  obtains pre b l post where "best_block n m r bs = Some b" "bs = pre @ (b, l) # post" "n \<le> l"
    "l < m" "\<forall>y\<in>set bs. n \<le> snd y \<longrightarrow> l \<le> snd y"
  using assms
proof (induction n m r bs arbitrary: x thesis rule: best_block.induct)
  case (2 n m r c k bs)
  show ?case
  proof (cases "n \<le> k \<and> k < m")
    case True
    show ?thesis
    proof (cases "\<exists>y\<in>set bs. n \<le> snd y \<and> snd y < k")
      case better: True
      then obtain y where y: "y \<in> set bs" "n \<le> snd y" "snd y < k" by blast
      from "2.IH"(1) [OF True _ y] obtain pre b l post where
        r: "best_block n k (Some c) bs = Some b" "bs = pre @ (b, l) # post" "n \<le> l" "l < k"
           "\<forall>y\<in>set bs. n \<le> snd y \<longrightarrow> l \<le> snd y" by metis
      show ?thesis
        by (rule "2.prems"(1) [of b "(c, k) # pre" l post]) (use r True in auto)
    next
      case False
      then have "best_block n k (Some c) bs = Some c" by (intro best_block_none) auto
      then show ?thesis
        by (intro "2.prems"(1) [of c "[]" k bs]) (use True False in \<open>auto simp: not_less\<close>)
    qed
  next
    case False
    then have "x \<in> set bs" using "2.prems" by auto
    from "2.IH"(2) [OF False _ this "2.prems"(3,4)] obtain pre b l post where
      r: "best_block n m r bs = Some b" "bs = pre @ (b, l) # post" "n \<le> l" "l < m"
         "\<forall>y\<in>set bs. n \<le> snd y \<longrightarrow> l \<le> snd y" by metis
    show ?thesis
      by (rule "2.prems"(1) [of b "(c, k) # pre" l post]) (use r False in auto)
  qed
qed simp

lemma min_size_bound:
  assumes "free_rep s bs" "total_pages bs + 1 < 2 ^ 32" "x \<in> set bs"
  shows "snd x < unat (nr_free s + 1)"
proof -
  have "unat (nr_free s + 1) = total_pages bs + 1"
    using assms(1,2) by (simp add: free_rep_def unat_add_u32)
  then show ?thesis using block_le_total [OF assms(3)] by simp
qed

lemma best_fit_alloc_some:
  assumes rep: "free_rep s bs" and n: "0 < n" and room: "total_pages bs + 1 < 2 ^ 32"
    and x: "x \<in> set bs" "n \<le> snd x"
  obtains pre b l post where "bs = pre @ (b, l) # post" "n \<le> l"
    "\<forall>y\<in>set bs. n \<le> snd y \<longrightarrow> l \<le> snd y"
    "best_fit_alloc_pages n s = Some (Some b, take_block b n s)"
    "free_rep (take_block b n s) (pre @ (if n < l then [(b + n, l - n)] else []) @ post)"
proof -
  from best_block_some [OF x min_size_bound [OF rep room x(1)], of None]
  obtain pre b l post where r: "best_block n (unat (nr_free s + 1)) None bs = Some b"
    "bs = pre @ (b, l) # post" "n \<le> l" "\<forall>y\<in>set bs. n \<le> snd y \<longrightarrow> l \<le> snd y" by metis
  have "n \<le> unat (nr_free s)" using rep x block_le_total [OF x(1)] by (simp add: free_rep_def)
  then have "best_fit_alloc_pages n s = Some (Some b, take_block b n s)"
    using n r(1) find_best_loop_spec [OF dlist_next_path [OF free_rep_dlist [OF rep]]]
      free_rep_property [OF rep]
    by (simp add: best_fit_alloc_pages_def)
  then show thesis using that r take_block_rep [of s pre b l post n] rep n by simp
qed

lemma best_fit_alloc_none:
  assumes rep: "free_rep s bs" and n: "0 < n" and none: "\<forall>x\<in>set bs. snd x < n"
  shows "best_fit_alloc_pages n s = Some (None, s)"
proof -
  have "best_block n (unat (nr_free s + 1)) None bs = None"
    using none by (intro best_block_none) force
  then show ?thesis using n find_best_loop_spec [OF dlist_next_path [OF free_rep_dlist [OF rep]]] free_rep_property [OF rep]
    by (auto simp: best_fit_alloc_pages_def)
qed

lemma best_fit_same_code:
  "best_fit_init = default_init" "best_fit_init_memmap = default_init_memmap"
  "best_fit_free_pages = default_free_pages" "best_fit_nr_free_pages = default_nr_free_pages"
  by (simp_all add: fun_eq_iff best_fit_init_def default_init_def best_fit_init_memmap_def
      default_init_memmap_def best_fit_free_pages_def default_free_pages_def
      best_fit_nr_free_pages_def default_nr_free_pages_def)

section \<open>The best-fit manager as a page allocator\<close>

definition best_fit_inv :: "pmm \<Rightarrow> bool" where
  "best_fit_inv s \<longleftrightarrow> list_inv s \<and> unat (nr_free s) + 1 < 2 ^ 32"

definition best_fit_freeable :: "pmm \<Rightarrow> nat \<Rightarrow> nat \<Rightarrow> bool" where
  "best_fit_freeable s p n \<longleftrightarrow> list_freeable s p n \<and> unat (nr_free s) + n + 1 < 2 ^ 32"

lemma pages_in_take:
  assumes "ordered (pre @ (b, l) # post)" "n \<le> l"
  shows "pages_in (pre @ (if n < l then [(b + n, l - n)] else []) @ post) =
         pages_in (pre @ (b, l) # post) - {b..<b + n}"
proof -
  have "p \<notin> {b..<b + l}" if "p \<in> pages_in (pre @ post)" for p
    using that ordered_apart(1) [OF assms(1)] by (fastforce simp: pages_in_def)
  then have disj: "pages_in (pre @ post) \<inter> {b..<b + n} = {}" using assms(2) by force
  have rest: "pages_in (if n < l then [(b + n, l - n)] else []) = {b..<b + l} - {b..<b + n}"
    using assms(2) by auto
  show ?thesis
    unfolding pages_in_simps(3) rest using disj by auto
qed

lemma inv_count: "list_inv s \<Longrightarrow> unat (nr_free s) = card (list_free_set s)"
  using ff.count_free by (simp add: default_nr_free_pages_def)

interpretation bf: page_allocator best_fit_inv list_free_set best_fit_nr_free_pages
  best_fit_alloc_pages best_fit_free_pages best_fit_freeable
proof unfold_locales
  fix s :: pmm assume inv: "best_fit_inv s"
  then have linv: "list_inv s" by (simp add: best_fit_inv_def)
  then obtain bs where rep: "free_rep s bs" by (auto simp: list_inv_def)
  then have ord: "ordered bs" and nr: "unat (nr_free s) = total_pages bs"
    by (simp_all add: free_rep_def)
  have room: "total_pages bs + 1 < 2 ^ 32" using inv nr by (simp add: best_fit_inv_def)
  note fs = free_rep_free_set [OF rep]
  show "finite (list_free_set s)" by (rule ff.finite_free [OF linv])
  show "best_fit_nr_free_pages s = card (list_free_set s)"
    using ff.count_free [OF linv] by (simp add: best_fit_same_code)
  fix n :: nat and s'
  { fix n :: nat assume n: "0 < n"
    show "\<exists>r s'. best_fit_alloc_pages n s = Some (r, s')"
      using best_fit_alloc_some [OF rep n room] best_fit_alloc_none [OF rep n]
      by (metis not_le)
    { fix s' assume "best_fit_alloc_pages n s = Some (None, s')"
      then show "s' = s"
        by (auto simp: best_fit_alloc_pages_def bind_eq_Some_conv split: if_splits option.splits) }
    fix p s' assume a: "best_fit_alloc_pages n s = Some (Some p, s')"
    then obtain x where x: "x \<in> set bs" "n \<le> snd x"
      using best_fit_alloc_none [OF rep n] by (metis option.distinct(1) option.inject prod.inject not_le)
    from best_fit_alloc_some [OF rep n room x] obtain pre b l post where
      b: "bs = pre @ (b, l) # post" "n \<le> l"
      "best_fit_alloc_pages n s = Some (Some b, take_block b n s)"
      "free_rep (take_block b n s) (pre @ (if n < l then [(b + n, l - n)] else []) @ post)" .
    then have "p = b" "s' = take_block b n s" using a by simp_all
    then have r: "bs = pre @ (p, l) # post" "n \<le> l"
      "free_rep s' (pre @ (if n < l then [(p + n, l - n)] else []) @ post)"
      using b by (simp_all only:)
    have fs': "list_free_set s' = list_free_set s - {p..<p + n}"
      using free_rep_free_set [OF r(3)] fs pages_in_take [of pre p l post n] ord r(1,2) by simp
    have linv': "list_inv s'" using r(3) by (auto simp: list_inv_def)
    have "card (list_free_set s') \<le> card (list_free_set s)"
      using fs' fs by (simp add: card_mono)
    then have "best_fit_inv s'"
      using inv inv_count [OF linv] inv_count [OF linv'] linv' by (simp add: best_fit_inv_def)
    moreover have "{p..<p + n} \<subseteq> pages_in (pre @ (p, l) # post)" using r(2) by auto
    then have "{p..<p + n} \<subseteq> list_free_set s" using fs r(1) by simp
    ultimately show "best_fit_inv s' \<and> {p..<p + n} \<subseteq> list_free_set s \<and>
        list_free_set s' = list_free_set s - {p..<p + n}" using fs' by blast }
  assume one: "best_fit_alloc_pages 1 s = Some (None, s')"
  have "bs = []"
  proof (rule ccontr)
    assume "bs \<noteq> []"
    then have "hd bs \<in> set bs" "1 \<le> snd (hd bs)"
      using ord by (auto simp: ordered_def Suc_le_eq)
    from best_fit_alloc_some [OF rep _ room this] one show False by fastforce
  qed
  then show "list_free_set s = {}" using fs by simp
next
  fix s p n assume inv: "best_fit_inv s" and fr: "best_fit_freeable s p n"
  then have l: "list_inv s" "list_freeable s p n"
    by (simp_all add: best_fit_inv_def best_fit_freeable_def)
  from ff.release_ok [OF this] obtain s' where s': "default_free_pages p n s = Some s'" "list_inv s'"
    "list_free_set s' = list_free_set s \<union> {p..<p + n}" by blast
  have "card (list_free_set s') \<le> card (list_free_set s) + n"
    using card_Un_le [of "list_free_set s" "{p..<p + n}"] s'(3) by simp
  then have "best_fit_inv s'"
    using fr inv_count [OF l(1)] inv_count [OF s'(2)] s'(2)
    by (simp add: best_fit_inv_def best_fit_freeable_def)
  then show "\<exists>s'. best_fit_free_pages p n s = Some s' \<and> best_fit_inv s' \<and>
      list_free_set s' = list_free_set s \<union> {p..<p + n}"
    using s' by (auto simp: best_fit_same_code)
qed (auto simp: best_fit_freeable_def list_freeable_def)

section \<open>Properties\<close>

text \<open>
  C17: best-fit allocation returns a block of minimal length among those that are large enough
  and removes its first \<open>n\<close> pages, or returns NULL and changes nothing when there is none.
\<close>

theorem best_fit_alloc_pages_minimal:
  assumes rep: "free_rep s bs" and n: "0 < n" and room: "total_pages bs + 1 < 2 ^ 32"
  shows "if \<exists>x\<in>set bs. n \<le> snd x
         then \<exists>pre b l post s'. bs = pre @ (b, l) # post \<and> n \<le> l \<and>
                (\<forall>y\<in>set bs. n \<le> snd y \<longrightarrow> l \<le> snd y) \<and>
                best_fit_alloc_pages n s = Some (Some b, s') \<and>
                free_rep s' (pre @ (if n < l then [(b + n, l - n)] else []) @ post)
         else best_fit_alloc_pages n s = Some (None, s)"
proof (cases "\<exists>x\<in>set bs. n \<le> snd x")
  case True
  then obtain x where "x \<in> set bs" "n \<le> snd x" by blast
  from best_fit_alloc_some [OF rep n room this] True show ?thesis by metis
next
  case False
  then show ?thesis using best_fit_alloc_none [OF rep n] by (auto simp: not_le)
qed

theorem best_fit_alloc_pages_minimal_witness:
  "\<exists>s'. best_fit_alloc_pages 2 example_pmm = Some (Some 2, s') \<and> free_rep s' [(4, 1), (10, 5)]"
proof -
  have "\<exists>pre b l post s'. [(2, 3), (10, 5)] = pre @ (b, l) # post \<and> 2 \<le> l \<and>
     (\<forall>y\<in>set [(2, 3), (10, 5)]. 2 \<le> snd y \<longrightarrow> l \<le> snd y) \<and>
     best_fit_alloc_pages 2 example_pmm = Some (Some b, s') \<and>
     free_rep s' (pre @ (if 2 < l then [(b + 2, l - 2)] else []) @ post)"
    using best_fit_alloc_pages_minimal [OF example_pmm_rep, of 2] by simp
  then obtain pre b l post s' where r: "[(2, 3), (10, 5)] = pre @ (b, l) # post" "l \<le> 3"
     "best_fit_alloc_pages 2 example_pmm = Some (Some b, s')"
     "free_rep s' (pre @ (if 2 < l then [(b + 2, l - 2)] else []) @ post)" by auto
  then have "pre = []" "b = 2" "l = 3" "post = [(10, 5)]" by (auto simp: Cons_eq_append_conv)
  then show ?thesis using r by simp
qed

end
