(* ===== verification/Buddy.thy ===== *)
theory Buddy
imports PageDesc
begin

unbundle bit_operations_syntax

text \<open>
  The buddy allocator of \<open>lab2/kern/mm/buddy_pmm.c\<close>: an array of free lists, one per order,
  with a page counter each. List entries are the heads \<open>Area k\<close> and the links of the page
  descriptors; \<open>size_t\<close> counters are 64-bit words, block sizes and page indices are \<open>nat\<close>
  (\<open>npage\<close> and \<open>nbase\<close> are the globals that \<open>page_init\<close> sets). An access to \<open>buddy_areas\<close>
  outside its \<open>MAX_ORDER\<close> elements and a \<open>le2page\<close> of a list head have no defined result in
  C; the model gives \<open>None\<close>.

  The theorems are about \<open>order_of\<close> and about the accounting of pages: allocation takes
  \<open>2^order_of n\<close> pages from the counters while \<open>buddy_free_pages\<close> gives back exactly \<open>n\<close>.
\<close>

definition MAX_ORDER :: nat where "MAX_ORDER = 15"

datatype bnode = Area nat | BuddyLink nat

record buddy =
  bpage_of :: "nat \<Rightarrow> Page"
  blinks :: "bnode links"
  area_nr_free :: "nat \<Rightarrow> 64 word"
  buddy_max_order :: nat
  b_npage :: nat
  b_nbase :: nat

definition upd_bpage :: "nat \<Rightarrow> (Page \<Rightarrow> Page) \<Rightarrow> buddy \<Rightarrow> buddy" where
  "upd_bpage p f s = s\<lparr>bpage_of := (bpage_of s)(p := f (bpage_of s p))\<rparr>"

definition upd_blinks :: "(bnode links \<Rightarrow> bnode links) \<Rightarrow> buddy \<Rightarrow> buddy" where
  "upd_blinks f s = s\<lparr>blinks := f (blinks s)\<rparr>"

definition add_nr_free :: "nat \<Rightarrow> 64 word \<Rightarrow> buddy \<Rightarrow> buddy" where
  "add_nr_free k d s = s\<lparr>area_nr_free := (area_nr_free s)(k := area_nr_free s k + d)\<rparr>"

section \<open>Helpers\<close>

partial_function (option) order_of_loop :: "nat \<Rightarrow> nat \<Rightarrow> nat \<Rightarrow> nat option" where
  "order_of_loop n sz k =
     (if sz < n then order_of_loop n (sz * 2 mod 2 ^ 64) (k + 1) else Some k)"

definition order_of :: "nat \<Rightarrow> nat option" where
  "order_of n = order_of_loop n 1 0"

definition buddy_of :: "nat \<Rightarrow> nat \<Rightarrow> nat \<Rightarrow> nat option" where
  "buddy_of np base k =
     (let buddy_idx = base XOR 2 ^ k in if buddy_idx \<ge> np then None else Some buddy_idx)"

definition buddy_init :: "buddy \<Rightarrow> buddy" where
  "buddy_init s =
     fold (\<lambda>i s. (upd_blinks (list_init (Area i)) s)
                  \<lparr>area_nr_free := (area_nr_free s)(i := 0)\<rparr>) [0..<MAX_ORDER] s"

section \<open>Building the lists\<close>

primrec buddy_init_pages :: "nat \<Rightarrow> nat \<Rightarrow> buddy \<Rightarrow> buddy option" where
  "buddy_init_pages 0 p s = Some s"
| "buddy_init_pages (Suc k) p s = do {
     kassert (PageReserved (bpage_of s p));
     buddy_init_pages k (p + 1)
       (upd_bpage p (\<lambda>pg. (set_page_ref 0 (pg\<lparr>pg_flags := 0\<rparr>))\<lparr>pg_property := 0\<rparr>) s) }"

function max_fit_loop :: "nat \<Rightarrow> nat \<Rightarrow> nat \<Rightarrow> nat \<Rightarrow> nat \<Rightarrow> nat \<times> nat" where
  "max_fit_loop global_idx i n max_fit k =
     (if global_idx mod (max_fit * 2) = 0 \<and> i + max_fit * 2 \<le> n
      then (if k + 1 + 1 \<ge> MAX_ORDER then (max_fit * 2, k + 1)
            else max_fit_loop global_idx i n (max_fit * 2) (k + 1))
      else (max_fit, k))"
  by pat_completeness auto
termination
  by (relation "measure (\<lambda>(_, _, _, _, k). MAX_ORDER - k)") (auto simp: MAX_ORDER_def)

definition put_block :: "nat \<Rightarrow> nat \<Rightarrow> buddy \<Rightarrow> buddy" where
  "put_block p k s =
     (let s1 = upd_bpage p (\<lambda>pg. pg\<lparr>pg_property := of_nat (2 ^ k)\<rparr>) s;
          s2 = upd_bpage p SetPageProperty s1;
          s3 = upd_blinks (list_add (Area k) (BuddyLink p)) s2
      in add_nr_free k (2 ^ k) s3)"

partial_function (option) insert_blocks_loop :: "nat \<Rightarrow> nat \<Rightarrow> nat \<Rightarrow> buddy \<Rightarrow> buddy option" where
  "insert_blocks_loop base n i s =
     (if i < n then
        (let p = base + i;
             (max_fit, k) = max_fit_loop p i n 1 0;
             s1 = upd_bpage p (\<lambda>pg. pg\<lparr>pg_property := of_nat max_fit\<rparr>) s;
             s2 = upd_bpage p SetPageProperty s1;
             s3 = upd_blinks (list_add (Area k) (BuddyLink p)) s2
         in insert_blocks_loop base n (i + max_fit) (add_nr_free k (of_nat max_fit) s3))
      else Some s)"

function max_order_loop :: "nat \<Rightarrow> nat \<Rightarrow> nat \<Rightarrow> nat" where
  "max_order_loop tp sz mo =
     (if sz < tp \<and> mo + 1 < MAX_ORDER then max_order_loop tp (sz * 2) (mo + 1) else mo)"
  by pat_completeness auto
termination
  by (relation "measure (\<lambda>(_, _, mo). MAX_ORDER - mo)") auto

definition buddy_init_memmap :: "nat \<Rightarrow> nat \<Rightarrow> buddy \<Rightarrow> buddy option" where
  "buddy_init_memmap base n s = do {
     kassert (n > 0);
     s1 \<leftarrow> buddy_init_pages n base s;
     s2 \<leftarrow> insert_blocks_loop base n 0 s1;
     Some (s2\<lparr>buddy_max_order := max_order_loop (b_npage s2 - b_nbase s2) 1 0\<rparr>) }"

section \<open>Allocation\<close>

function find_order_loop :: "nat \<Rightarrow> buddy \<Rightarrow> nat" where
  "find_order_loop j s =
     (if j < MAX_ORDER then
        (if \<not> list_empty (Area j) (blinks s) then j else find_order_loop (j + 1) s)
      else j)"
  by pat_completeness auto
termination
  by (relation "measure (\<lambda>(j, _). MAX_ORDER - j)") auto

text \<open>\<open>while (j > k)\<close>: the upper half of the block becomes a free block of order \<open>j - 1\<close>.\<close>

primrec split_loop :: "nat \<Rightarrow> nat \<Rightarrow> nat \<Rightarrow> buddy \<Rightarrow> buddy" where
  "split_loop p k 0 s = s"
| "split_loop p k (Suc j) s =
     (if Suc j > k then split_loop p k j (put_block (p + 2 ^ j) j s) else s)"

definition buddy_alloc_pages :: "nat \<Rightarrow> buddy \<Rightarrow> (nat option \<times> buddy) option" where
  "buddy_alloc_pages n s = do {
     kassert (n > 0);
     k \<leftarrow> order_of n;
     (let j = find_order_loop k s in
      if j \<ge> MAX_ORDER then Some (None, s)
      else case list_next (Area j) (blinks s) of
             Area _ \<Rightarrow> None
           | BuddyLink p \<Rightarrow>
               (let s1 = upd_blinks (list_del (BuddyLink p)) s;
                    s2 = add_nr_free j (- (2 ^ j)) s1;
                    s3 = upd_bpage p ClearPageProperty s2;
                    s4 = split_loop p k j s3;
                    s5 = upd_bpage p (set_page_ref 0) s4
                in Some (Some p, s5))) }"

section \<open>Release\<close>

fun align_loop :: "nat \<Rightarrow> nat \<Rightarrow> nat" where
  "align_loop gidx cur_k =
     (if gidx AND (2 ^ cur_k - 1) \<noteq> 0
      then (case cur_k of 0 \<Rightarrow> 0 | Suc k \<Rightarrow> align_loop gidx k) else cur_k)"

function merge_loop :: "nat \<Rightarrow> nat \<Rightarrow> buddy \<Rightarrow> nat \<times> nat \<times> buddy" where
  "merge_loop blk pk s =
     (if pk + 1 < MAX_ORDER then
        (case buddy_of (b_npage s) blk pk of
           None \<Rightarrow> (blk, pk, s)
         | Some buddy \<Rightarrow>
             (if \<not> PageProperty (bpage_of s buddy) \<or> unat (pg_property (bpage_of s buddy)) \<noteq> 2 ^ pk
              then (blk, pk, s)
              else
                (let s1 = upd_blinks (list_del (BuddyLink buddy)) s;
                     s2 = add_nr_free pk (- (2 ^ pk)) s1;
                     s3 = upd_bpage buddy ClearPageProperty s2;
                     s4 = upd_bpage blk ClearPageProperty s3;
                     blk' = (if buddy < blk then buddy else blk)
                 in merge_loop blk' (pk + 1) s4)))
      else (blk, pk, s))"
  by pat_completeness auto
termination
  by (relation "measure (\<lambda>(_, pk, _). MAX_ORDER - pk)") auto

partial_function (option) buddy_free_loop :: "nat \<Rightarrow> nat \<Rightarrow> nat \<Rightarrow> buddy \<Rightarrow> buddy option" where
  "buddy_free_loop base n off s =
     (if off < n then
        Option.bind (order_of (n - off)) (\<lambda>ord.
          (let cur = base + off;
               cur_k = align_loop cur ord;
               s1 = upd_bpage cur (\<lambda>pg. pg\<lparr>pg_property := of_nat (2 ^ cur_k)\<rparr>) s;
               s2 = upd_bpage cur SetPageProperty s1;
               (blk, pk, s3) = merge_loop cur cur_k s2
           in if pk \<ge> MAX_ORDER then None
              else buddy_free_loop base n (off + 2 ^ cur_k) (put_block blk pk s3)))
      else Some s)"

definition buddy_free_pages :: "nat \<Rightarrow> nat \<Rightarrow> buddy \<Rightarrow> buddy option" where
  "buddy_free_pages base n s = do {
     kassert (n > 0);
     k \<leftarrow> order_of n;
     buddy_free_loop base n 0 s }"

definition buddy_nr_free_pages :: "buddy \<Rightarrow> 64 word" where
  "buddy_nr_free_pages s = fold (\<lambda>i total. total + area_nr_free s i) [0..<MAX_ORDER] 0"

declare max_fit_loop.simps [simp del] max_order_loop.simps [simp del]
  find_order_loop.simps [simp del] align_loop.simps [simp del] merge_loop.simps [simp del]

section \<open>order\_of\<close>

lemma order_of_loop_least:
  assumes "n \<le> 2 ^ 63" "k \<le> 63" "k = 0 \<or> 2 ^ (k - 1) < n"
  shows "\<exists>j. order_of_loop n (2 ^ k) k = Some j \<and> n \<le> 2 ^ j \<and> (j = 0 \<or> 2 ^ (j - 1) < n) \<and> j \<le> 63"
  using assms
proof (induction "63 - k" arbitrary: k rule: less_induct)
  case less
  show ?case
  proof (cases "2 ^ k < n")
    case False
    then show ?thesis using less.prems by (subst order_of_loop.simps) auto
  next
    case True
    then have "(2::nat) ^ k < 2 ^ 63" using less.prems(1) by linarith
    then have k: "k < 63" using power_less_imp_less_exp [of "2::nat" k 63] by simp
    then have "(2::nat) ^ Suc k \<le> 2 ^ 63" by (intro power_increasing) auto
    then have wrap: "2 ^ k * 2 mod 2 ^ 64 = (2::nat) ^ Suc k" by simp
    have "\<exists>j. order_of_loop n (2 ^ Suc k) (Suc k) = Some j \<and> n \<le> 2 ^ j \<and> (j = 0 \<or> 2 ^ (j - 1) < n) \<and> j \<le> 63"
      by (rule less.hyps) (use k True less.prems in auto)
    then show ?thesis using True wrap by (subst order_of_loop.simps) simp
  qed
qed

lemma order_of_spec:
  assumes "n \<le> 2 ^ 63"
  obtains k where "order_of n = Some k" "n \<le> 2 ^ k" "k = 0 \<or> 2 ^ (k - 1) < n" "k \<le> 63"
  using order_of_loop_least [of n 0] assms by (auto simp: order_of_def)

section \<open>Accounting of pages\<close>

text \<open>The counters are only changed through \<open>add_nr_free\<close>; their sum is what \<open>nr_free_pages\<close> returns.\<close>

lemma fold_sum: "fold (\<lambda>i total. total + f i) xs (a :: 64 word) = a + sum_list (map f xs)"
  by (induction xs arbitrary: a) (simp_all add: algebra_simps)

lemma nr_free_pages_sum: "buddy_nr_free_pages s = (\<Sum>i = 0..<MAX_ORDER. area_nr_free s i)"
  by (simp add: buddy_nr_free_pages_def fold_sum interv_sum_list_conv_sum_set_nat)

lemma nr_free_pages_add:
  "buddy_nr_free_pages (add_nr_free k d s) = buddy_nr_free_pages s + (if k < MAX_ORDER then d else 0)"
proof -
  have "(\<Sum>i = 0..<MAX_ORDER. area_nr_free (add_nr_free k d s) i) =
        (\<Sum>i = 0..<MAX_ORDER. area_nr_free s i + (if i = k then d else 0))"
    by (intro sum.cong) (auto simp: add_nr_free_def)
  then show ?thesis by (simp add: nr_free_pages_sum sum.distrib sum.delta)
qed

lemma nr_free_pages_frame [simp]:
  "buddy_nr_free_pages (upd_bpage p f s) = buddy_nr_free_pages s"
  "buddy_nr_free_pages (upd_blinks g s) = buddy_nr_free_pages s"
  by (simp_all add: nr_free_pages_sum upd_bpage_def upd_blinks_def)

lemma nr_free_pages_put_block:
  "k < MAX_ORDER \<Longrightarrow> buddy_nr_free_pages (put_block p k s) = buddy_nr_free_pages s + 2 ^ k"
  by (simp add: put_block_def Let_def nr_free_pages_add)

lemma npage_frame [simp]:
  "b_npage (upd_bpage p f s) = b_npage s" "b_npage (upd_blinks g s) = b_npage s"
  "b_npage (add_nr_free k d s) = b_npage s"
  by (simp_all add: upd_bpage_def upd_blinks_def add_nr_free_def)

lemma nr_free_pages_split_loop:
  assumes "k \<le> j" "j < MAX_ORDER"
  shows "buddy_nr_free_pages (split_loop p k j s) + 2 ^ k = buddy_nr_free_pages s + 2 ^ j"
  using assms
proof (induction j arbitrary: s)
  case (Suc j)
  show ?case
  proof (cases "k < Suc j")
    case True
    then have "buddy_nr_free_pages (split_loop p k j (put_block (p + 2 ^ j) j s)) + 2 ^ k =
        buddy_nr_free_pages (put_block (p + 2 ^ j) j s) + 2 ^ j"
      using Suc.prems by (intro Suc.IH) auto
    then show ?thesis using True Suc.prems by (simp add: nr_free_pages_put_block algebra_simps)
  next
    case False
    then have "k = Suc j" using Suc.prems by simp
    then show ?thesis by simp
  qed
qed simp

lemma nr_free_pages_merge_loop:
  assumes "merge_loop blk pk s = (blk', pk', s')" and "pk < MAX_ORDER"
  shows "buddy_nr_free_pages s' + 2 ^ pk' = buddy_nr_free_pages s + 2 ^ pk \<and> pk' < MAX_ORDER"
  using assms
proof (induction blk pk s rule: merge_loop.induct)
  case (1 blk pk s)
  show ?case
  proof (cases "merge_loop blk pk s = (blk, pk, s)")
    case True
    then show ?thesis using "1.prems" by simp
  next
    case False
    then obtain b where pk: "pk + 1 < MAX_ORDER" and b: "buddy_of (b_npage s) blk pk = Some b"
      and ok: "\<not> (\<not> PageProperty (bpage_of s b) \<or> unat (pg_property (bpage_of s b)) \<noteq> 2 ^ pk)"
      by (subst (asm) merge_loop.simps) (auto split: if_splits option.splits)
    define s4 where "s4 = upd_bpage blk ClearPageProperty (upd_bpage b ClearPageProperty
        (add_nr_free pk (- (2 ^ pk)) (upd_blinks (list_del (BuddyLink b)) s)))"
    have "merge_loop (if b < blk then b else blk) (pk + 1) s4 = (blk', pk', s')"
      using "1.prems"(1) pk b ok by (subst (asm) merge_loop.simps) (simp add: s4_def Let_def)
    then have "buddy_nr_free_pages s' + 2 ^ pk' = buddy_nr_free_pages s4 + 2 ^ (pk + 1) \<and> pk' < MAX_ORDER"
      using "1.IH" [OF pk b ok refl refl refl refl refl] pk unfolding s4_def by blast
    then show ?thesis using pk by (simp add: s4_def nr_free_pages_add algebra_simps)
  qed
qed

lemma align_loop_aligned:
  assumes "2 ^ k dvd g"
  shows "align_loop g k = k"
proof -
  have "g AND (2 ^ k - 1) = take_bit k g"
    by (simp add: take_bit_eq_mask mask_eq_exp_minus_1)
  also have "\<dots> = 0" using assms by (simp add: take_bit_eq_mod)
  finally show ?thesis by (subst align_loop.simps) simp
qed

lemma buddy_alloc_accounting:
  assumes a: "buddy_alloc_pages n s = Some (Some p, s')" and k: "order_of n = Some k"
  shows "buddy_nr_free_pages s' + 2 ^ k = buddy_nr_free_pages s \<and> k < MAX_ORDER"
proof -
  define j where "j = find_order_loop k s"
  from a k have j: "j < MAX_ORDER" and n: "0 < n"
    by (auto simp: buddy_alloc_pages_def bind_kassert j_def Let_def split: if_splits)
  have kj: "k \<le> j"
    unfolding j_def
    by (induction k s rule: find_order_loop.induct) (subst find_order_loop.simps, auto)
  obtain q where q: "list_next (Area j) (blinks s) = BuddyLink q"
    using a k n j by (auto simp: buddy_alloc_pages_def j_def Let_def split: bnode.splits)
  define s3 where "s3 = upd_bpage q ClearPageProperty
      (add_nr_free j (- (2 ^ j)) (upd_blinks (list_del (BuddyLink q)) s))"
  have "s' = upd_bpage p (set_page_ref 0) (split_loop p k j s3)" "q = p"
    using a k n j q by (auto simp: buddy_alloc_pages_def j_def Let_def s3_def)
  then have "buddy_nr_free_pages s' + 2 ^ k = buddy_nr_free_pages s3 + 2 ^ j"
    using nr_free_pages_split_loop [OF kj j] by simp
  also have "\<dots> = buddy_nr_free_pages s" using j by (simp add: s3_def nr_free_pages_add)
  finally show ?thesis using kj j by simp
qed

lemma buddy_free_accounting:
  assumes k: "order_of n = Some k" "k < MAX_ORDER" and al: "2 ^ k dvd b" and n: "0 < n" "n \<le> 2 ^ k"
  shows "\<exists>s'. buddy_free_pages b n s = Some s' \<and> buddy_nr_free_pages s' = buddy_nr_free_pages s + 2 ^ k"
proof -
  define s2 where "s2 = upd_bpage b SetPageProperty
      (upd_bpage b (\<lambda>pg. pg\<lparr>pg_property := of_nat (2 ^ k)\<rparr>) s)"
  obtain blk pk s3 where m: "merge_loop b k s2 = (blk, pk, s3)" by (cases "merge_loop b k s2") auto
  from nr_free_pages_merge_loop [OF m k(2)]
  have acc: "buddy_nr_free_pages s3 + 2 ^ pk = buddy_nr_free_pages s + 2 ^ k" "pk < MAX_ORDER"
    by (simp_all add: s2_def)
  have "buddy_free_loop b n 0 s = buddy_free_loop b n (2 ^ k) (put_block blk pk s3)"
    using n k al m acc(2)
    by (subst buddy_free_loop.simps) (simp add: align_loop_aligned s2_def Let_def)
  also have "\<dots> = Some (put_block blk pk s3)"
    using n by (subst buddy_free_loop.simps) simp
  finally have "buddy_free_pages b n s = Some (put_block blk pk s3)"
    using n k by (simp add: buddy_free_pages_def)
  then show ?thesis using acc by (auto simp: nr_free_pages_put_block)
qed

section \<open>Properties\<close>

text \<open>
  C18: an allocation of \<open>n\<close> pages takes \<open>2^k\<close> pages from the counters, where \<open>2^k\<close> is the least
  power of two that is at least \<open>n\<close>, and giving the aligned block back with the same \<open>n\<close>
  restores the number of free pages exactly, whatever blocks were split and merged.
\<close>

theorem buddy_alloc_free_conserves_pages:
  assumes a: "buddy_alloc_pages n s = Some (Some p, s1)" and n: "n \<le> 2 ^ 63"
    and al: "\<forall>k. order_of n = Some k \<longrightarrow> 2 ^ k dvd p"
  shows "\<exists>k s2. order_of n = Some k \<and> n \<le> 2 ^ k \<and> (k = 0 \<or> 2 ^ (k - 1) < n) \<and>
           buddy_nr_free_pages s1 = buddy_nr_free_pages s - 2 ^ k \<and>
           buddy_free_pages p n s1 = Some s2 \<and>
           buddy_nr_free_pages s2 = buddy_nr_free_pages s"
proof -
  from order_of_spec [OF n] obtain k where
    k: "order_of n = Some k" "n \<le> 2 ^ k" "k = 0 \<or> 2 ^ (k - 1) < n" .
  from buddy_alloc_accounting [OF a k(1)]
  have acc: "buddy_nr_free_pages s1 + 2 ^ k = buddy_nr_free_pages s" "k < MAX_ORDER" by auto
  have "0 < n" using a by (auto simp: buddy_alloc_pages_def bind_kassert split: if_splits)
  from buddy_free_accounting [OF k(1) acc(2) _ this k(2), of p s1] al k(1)
  obtain s2 where "buddy_free_pages p n s1 = Some s2"
    "buddy_nr_free_pages s2 = buddy_nr_free_pages s1 + 2 ^ k" by auto
  then show ?thesis using k acc by (auto simp: algebra_simps)
qed

text \<open>One free block of four pages at page 8, on a machine of 16 pages.\<close>

definition example_buddy :: buddy where
  "example_buddy = put_block 8 2 (buddy_init
     \<lparr>bpage_of = (\<lambda>_. \<lparr>pg_ref = 0, pg_flags = 0, pg_property = 0\<rparr>),
      blinks = \<lparr>next_of = (\<lambda>n. n), prev_of = (\<lambda>n. n)\<rparr>, area_nr_free = (\<lambda>_. 0),
      buddy_max_order = 0, b_npage = 16, b_nbase = 0\<rparr>)"

lemma order_of_3: "order_of 3 = Some 2"
  by (simp add: order_of_def order_of_loop.simps)

lemma example_buddy_links:
  "list_empty (Area 2) (blinks example_buddy) = False"
  "list_next (Area 2) (blinks example_buddy) = BuddyLink 8"
  by (simp_all add: example_buddy_def put_block_def Let_def upd_blinks_def upd_bpage_def
      add_nr_free_def list_h_defs links_simps)

lemma example_buddy_alloc: "\<exists>s1. buddy_alloc_pages 3 example_buddy = Some (Some 8, s1)"
proof -
  have "find_order_loop 2 example_buddy = 2"
    by (subst find_order_loop.simps) (simp add: MAX_ORDER_def example_buddy_links)
  then show ?thesis
    by (simp add: buddy_alloc_pages_def order_of_3 example_buddy_links MAX_ORDER_def)
qed

theorem buddy_alloc_free_conserves_pages_witness:
  "\<exists>s1 s2. buddy_alloc_pages 3 example_buddy = Some (Some 8, s1) \<and>
     buddy_nr_free_pages s1 = buddy_nr_free_pages example_buddy - 4 \<and>
     buddy_free_pages 8 3 s1 = Some s2 \<and> buddy_nr_free_pages s2 = buddy_nr_free_pages example_buddy"
proof -
  obtain s1 where s1: "buddy_alloc_pages 3 example_buddy = Some (Some 8, s1)"
    using example_buddy_alloc by blast
  from buddy_alloc_free_conserves_pages [OF s1] show ?thesis
    using s1 by (auto simp: order_of_3)
qed

end
