(* ===== verification/ErrorCodes.thy ===== *)
theory ErrorCodes
imports Prelude
begin

text \<open>The error codes of \<open>libs/error.h\<close>. A function that fails returns a negated code.\<close>

definition E_UNSPECIFIED :: int where "E_UNSPECIFIED = 1"
definition E_BAD_PROC :: int where "E_BAD_PROC = 2"
definition E_INVAL :: int where "E_INVAL = 3"
definition E_NO_MEM :: int where "E_NO_MEM = 4"
definition E_NO_FREE_PROC :: int where "E_NO_FREE_PROC = 5"
definition E_FAULT :: int where "E_FAULT = 6"
definition E_SWAP_FAULT :: int where "E_SWAP_FAULT = 7"
definition E_INVAL_ELF :: int where "E_INVAL_ELF = 8"
definition E_KILLED :: int where "E_KILLED = 9"
definition E_PANIC :: int where "E_PANIC = 10"
definition E_TIMEOUT :: int where "E_TIMEOUT = 11"
definition E_TOO_BIG :: int where "E_TOO_BIG = 12"
definition E_NO_DEV :: int where "E_NO_DEV = 13"
definition E_NA_DEV :: int where "E_NA_DEV = 14"
definition E_BUSY :: int where "E_BUSY = 15"
definition E_NOENT :: int where "E_NOENT = 16"
definition E_ISDIR :: int where "E_ISDIR = 17"
definition E_NOTDIR :: int where "E_NOTDIR = 18"
definition E_XDEV :: int where "E_XDEV = 19"
definition E_UNIMP :: int where "E_UNIMP = 20"
definition E_SEEK :: int where "E_SEEK = 21"
definition E_MAX_OPEN :: int where "E_MAX_OPEN = 22"
definition E_EXISTS :: int where "E_EXISTS = 23"
definition E_NOTEMPTY :: int where "E_NOTEMPTY = 24"
definition MAXERROR :: int where "MAXERROR = 24"

lemmas error_codes =
  E_BAD_PROC_def E_INVAL_def E_NO_MEM_def E_NO_FREE_PROC_def E_FAULT_def E_SWAP_FAULT_def
  E_INVAL_ELF_def E_KILLED_def E_TIMEOUT_def E_TOO_BIG_def E_NO_DEV_def E_NA_DEV_def
  E_BUSY_def E_NOENT_def E_ISDIR_def E_NOTDIR_def E_XDEV_def E_UNIMP_def E_SEEK_def
  E_MAX_OPEN_def E_EXISTS_def E_NOTEMPTY_def E_UNSPECIFIED_def E_PANIC_def

end
