(* ===== verification/Bitmap.thy ===== *)
theory Bitmap
imports Prelude ErrorCodes
begin

unbundle bit_operations_syntax

text \<open>
  The block bitmap of \<open>kern/fs/sfs/bitmap.c\<close>. A set bit marks a free block and a cleared bit
  a block in use. The code scans 32-bit words for the first word that is not zero and then
  scans that word for its first set bit. The abstract view of a bitmap is the set \<open>free_bits\<close>
  of the indices whose bit is set; the locale \<open>free_set\<close> states the contract that the file
  system relies on, and it is interpreted on the operations of the code.

  The two calls of \<open>kmalloc\<close> in \<open>bitmap_create\<close> are modelled by two arguments that tell
  whether they succeed.
\<close>

section \<open>The operations\<close>

record bitmap =
  nbits :: nat
  nwords :: nat
  words :: "32 word list"

definition WORD_BITS :: nat where "WORD_BITS = 32"

function clear_over_bits :: "nat \<Rightarrow> 32 word \<Rightarrow> 32 word" where
  "clear_over_bits overbits w =
    (if overbits < WORD_BITS then clear_over_bits (overbits + 1) (w XOR push_bit overbits 1) else w)"
  by auto
termination by (relation "measure (\<lambda>(overbits, w). WORD_BITS - overbits)") auto

declare clear_over_bits.simps [simp del]

definition bitmap_create :: "bool \<Rightarrow> bool \<Rightarrow> nat \<Rightarrow> bitmap option option" where
  "bitmap_create bitmap_ok map_ok n = do {
     kassert (n \<noteq> 0 \<and> n + WORD_BITS > n);
     (if \<not> bitmap_ok then Some None
      else if \<not> map_ok then Some None
      else do {
        let nw = (n + WORD_BITS - 1) div WORD_BITS;
        let m = replicate nw (0xFFFFFFFF :: 32 word);
        (if n \<noteq> nw * WORD_BITS
         then do {
           let ix = nw - 1;
           let overbits = n - ix * WORD_BITS;
           kassert (n div WORD_BITS = ix);
           kassert (overbits > 0 \<and> overbits < WORD_BITS);
           Some (Some \<lparr>nbits = n, nwords = nw, words = m[ix := clear_over_bits overbits (m ! ix)]\<rparr>)
         }
         else Some (Some \<lparr>nbits = n, nwords = nw, words = m\<rparr>))
      })
   }"

function first_bit :: "32 word \<Rightarrow> nat \<Rightarrow> nat option" where
  "first_bit w off =
    (if off < WORD_BITS
     then if w AND push_bit off 1 \<noteq> 0 then Some off else first_bit w (off + 1)
     else None)"
  by auto
termination by (relation "measure (\<lambda>(w, off). WORD_BITS - off)") auto

declare first_bit.simps [simp del]

function bitmap_alloc_loop :: "bitmap \<Rightarrow> nat \<Rightarrow> (bitmap \<times> int \<times> nat option) option" where
  "bitmap_alloc_loop bm ix =
    (if ix < nwords bm
     then if words bm ! ix \<noteq> 0
          then (case first_bit (words bm ! ix) 0 of
                  Some off \<Rightarrow>
                    Some (bm\<lparr>words := (words bm)[ix := words bm ! ix XOR push_bit off 1]\<rparr>, 0,
                          Some (ix * WORD_BITS + off))
                | None \<Rightarrow> None)
          else bitmap_alloc_loop bm (ix + 1)
     else Some (bm, - E_NO_MEM, None))"
  by auto
termination by (relation "measure (\<lambda>(bm, ix). nwords bm - ix)") auto

declare bitmap_alloc_loop.simps [simp del]

definition bitmap_alloc :: "bitmap \<Rightarrow> (bitmap \<times> int \<times> nat option) option" where
  "bitmap_alloc bm = bitmap_alloc_loop bm 0"

definition bitmap_translate :: "bitmap \<Rightarrow> nat \<Rightarrow> (nat \<times> 32 word) option" where
  "bitmap_translate bm index = do {
     kassert (index < nbits bm);
     Some (index div WORD_BITS, push_bit (index mod WORD_BITS) 1)
   }"

definition bitmap_test :: "bitmap \<Rightarrow> nat \<Rightarrow> bool option" where
  "bitmap_test bm index = do {
     (ix, mask) \<leftarrow> bitmap_translate bm index;
     Some (words bm ! ix AND mask \<noteq> 0)
   }"

definition bitmap_free :: "bitmap \<Rightarrow> nat \<Rightarrow> bitmap option" where
  "bitmap_free bm index = do {
     (ix, mask) \<leftarrow> bitmap_translate bm index;
     kassert (\<not> (words bm ! ix AND mask \<noteq> 0));
     Some (bm\<lparr>words := (words bm)[ix := words bm ! ix OR mask]\<rparr>)
   }"

definition bitmap_getdata :: "bitmap \<Rightarrow> 32 word list \<times> nat" where
  "bitmap_getdata bm = (words bm, 4 * nwords bm)"

section \<open>The set of free bits\<close>

definition free_bits :: "bitmap \<Rightarrow> nat set" where
  "free_bits bm = {i. i < nwords bm * WORD_BITS \<and> bit (words bm ! (i div WORD_BITS)) (i mod WORD_BITS)}"

definition bitmap_ok :: "bitmap \<Rightarrow> bool" where
  "bitmap_ok bm \<longleftrightarrow> length (words bm) = nwords bm \<and> free_bits bm \<subseteq> {0..<nbits bm} \<and>
     nbits bm \<le> nwords bm * WORD_BITS"

lemma and_mask_bit: "(w AND 2 ^ off \<noteq> 0) = bit w off" "(w AND 2 ^ off = 0) = (\<not> bit w off)"
  for w :: "32 word"
  using bit_iff_and_push_bit_not_eq_0 [of w off] by auto

lemma WORD_BITS_pos [simp]: "0 < WORD_BITS" "WORD_BITS \<noteq> 0" by (simp_all add: WORD_BITS_def)

lemma bit_below: "bit (w :: 32 word) k \<Longrightarrow> k < WORD_BITS"
  using bit_imp_le_length [of w k] by (simp add: WORD_BITS_def)

lemma finite_free_bits [simp]: "finite (free_bits bm)"
  by (rule finite_subset [of _ "{..<nwords bm * WORD_BITS}"]) (auto simp: free_bits_def)

lemma first_bit_Some:
  "first_bit w off = Some k \<Longrightarrow> off \<le> k \<and> k < WORD_BITS \<and> bit w k \<and> (\<forall>j. off \<le> j \<and> j < k \<longrightarrow> \<not> bit w j)"
proof (induction w off rule: first_bit.induct)
  case (1 w off)
  show ?case
  proof (cases "off < WORD_BITS \<and> \<not> bit w off")
    case True
    then have "first_bit w (off + 1) = Some k"
      using 1(2) by (simp add: first_bit.simps [of w off] and_mask_bit)
    with 1(1) True show ?thesis by (auto simp: and_mask_bit less_eq_Suc_le) (metis le_antisym not_less_eq_eq)
  next
    case False
    with 1(2) show ?thesis by (auto simp: first_bit.simps [of w off] and_mask_bit split: if_splits)
  qed
qed

lemma first_bit_None: "first_bit w off = None \<Longrightarrow> off \<le> k \<Longrightarrow> \<not> bit w k"
proof (induction w off rule: first_bit.induct)
  case (1 w off)
  show ?case
  proof (cases "off < WORD_BITS")
    case True
    then have "first_bit w (off + 1) = None" "\<not> bit w off"
      using 1(2) by (simp_all add: first_bit.simps [of w off] and_mask_bit split: if_splits)
    with 1(1,3) True show ?thesis by (cases "k = off") (auto simp: and_mask_bit)
  next
    case False
    with 1(3) show ?thesis using bit_below [of w k] by linarith
  qed
qed

lemma first_bit_exists: "w \<noteq> 0 \<Longrightarrow> \<exists>k. first_bit w 0 = Some k"
proof (rule ccontr)
  assume "w \<noteq> 0" "\<not> ?thesis"
  then have "first_bit w 0 = None" by auto
  then have "w = 0" by (auto intro!: bit_eqI dest: first_bit_None)
  with \<open>w \<noteq> 0\<close> show False by simp
qed

lemma div_mod_index: "off < WORD_BITS \<Longrightarrow> (ix * WORD_BITS + off) div WORD_BITS = ix \<and> (ix * WORD_BITS + off) mod WORD_BITS = off"
  by simp

lemma free_bits_update:
  assumes ok: "length (words bm) = nwords bm" and ix: "ix < nwords bm" and off: "off < WORD_BITS"
    and w: "\<And>k. k < WORD_BITS \<Longrightarrow> bit w k = (if k = off then b else bit (words bm ! ix) k)"
  shows "free_bits (bm\<lparr>words := (words bm)[ix := w]\<rparr>)
    = (if b then insert (ix * WORD_BITS + off) (free_bits bm) else free_bits bm - {ix * WORD_BITS + off})"
proof -
  have lt: "ix * WORD_BITS + off < nwords bm * WORD_BITS"
  proof -
    have "ix * WORD_BITS + off < (ix + 1) * WORD_BITS" using off by (simp add: algebra_simps)
    also have "\<dots> \<le> nwords bm * WORD_BITS" using ix by (intro mult_le_mono1) simp
    finally show ?thesis .
  qed
  have eq: "i = ix * WORD_BITS + off \<longleftrightarrow> i div WORD_BITS = ix \<and> i mod WORD_BITS = off" for i
    using div_mod_index [OF off, of ix] div_mult_mod_eq [of i WORD_BITS] by auto
  have m: "bit ((words bm)[ix := w] ! (i div WORD_BITS)) (i mod WORD_BITS) =
     (if i = ix * WORD_BITS + off then b else bit (words bm ! (i div WORD_BITS)) (i mod WORD_BITS))"
    if "i < nwords bm * WORD_BITS" for i
  proof (cases "i div WORD_BITS = ix")
    case True
    then have "(words bm)[ix := w] ! (i div WORD_BITS) = w" using ok ix by simp
    then show ?thesis using w [of "i mod WORD_BITS"] True eq [of i] by auto
  next
    case False then show ?thesis using eq [of i] by simp
  qed
  have iff: "i \<in> free_bits (bm\<lparr>words := (words bm)[ix := w]\<rparr>) \<longleftrightarrow>
      i < nwords bm * WORD_BITS \<and> (if i = ix * WORD_BITS + off then b
        else bit (words bm ! (i div WORD_BITS)) (i mod WORD_BITS))" for i
    using m [of i] by (simp add: free_bits_def cong: conj_cong)
  show ?thesis using lt iff by (cases b) (simp_all add: set_eq_iff, auto simp: free_bits_def)
qed

lemma index_lt: "i < nwords bm * WORD_BITS \<Longrightarrow> i div WORD_BITS < nwords bm"
  by (simp add: less_mult_imp_div_less)

lemma bitmap_test_free:
  "bitmap_ok bm \<Longrightarrow> bitmap_test bm i = (if i < nbits bm then Some (i \<in> free_bits bm) else None)"
  by (auto simp: bitmap_test_def bitmap_translate_def bind_kassert and_mask_bit free_bits_def bitmap_ok_def)

lemma bitmap_free_spec:
  assumes ok: "bitmap_ok bm" and i: "i < nbits bm" "i \<notin> free_bits bm"
  obtains bm' where "bitmap_free bm i = Some bm'" "bitmap_ok bm'" "free_bits bm' = insert i (free_bits bm)"
    "nbits bm' = nbits bm" "nwords bm' = nwords bm"
proof -
  define ix off where "ix = i div WORD_BITS" and "off = i mod WORD_BITS"
  have len: "length (words bm) = nwords bm" and le: "i < nwords bm * WORD_BITS"
    using ok i by (auto simp: bitmap_ok_def)
  have ix: "ix < nwords bm" and off: "off < WORD_BITS" and i_eq: "ix * WORD_BITS + off = i"
    using index_lt [OF le] by (simp_all add: ix_def off_def)
  have nb: "\<not> bit (words bm ! ix) off" using i(2) le by (simp add: free_bits_def ix_def off_def)
  let ?w = "words bm ! ix OR push_bit off 1"
  let ?bm = "bm\<lparr>words := (words bm)[ix := ?w]\<rparr>"
  have "free_bits ?bm = (if True then insert (ix * WORD_BITS + off) (free_bits bm) else free_bits bm - {ix * WORD_BITS + off})"
    by (rule free_bits_update [OF len ix off]) (use off in \<open>auto simp: bit_simps WORD_BITS_def\<close>)
  then have fb: "free_bits ?bm = insert i (free_bits bm)" using i_eq by simp
  show thesis
  proof (rule that [of ?bm])
    show "bitmap_free bm i = Some ?bm"
      using i nb by (simp add: bitmap_free_def bitmap_translate_def bind_kassert and_mask_bit ix_def off_def)
    show "bitmap_ok ?bm" using ok i fb by (auto simp: bitmap_ok_def)
  qed (use fb in simp_all)
qed

lemma bitmap_free_used:
  "bitmap_ok bm \<Longrightarrow> i \<in> free_bits bm \<or> nbits bm \<le> i \<Longrightarrow> bitmap_free bm i = None"
  by (auto simp: bitmap_free_def bitmap_translate_def bind_kassert and_mask_bit free_bits_def bitmap_ok_def)

lemma bitmap_alloc_loop_spec:
  assumes "length (words bm) = nwords bm" "\<forall>j<ix. words bm ! j = 0" "ix \<le> nwords bm"
  shows "bitmap_alloc_loop bm ix =
    (if free_bits bm = {} then Some (bm, - E_NO_MEM, None)
     else Some (bm\<lparr>words := (words bm)[Min (free_bits bm) div WORD_BITS :=
                    words bm ! (Min (free_bits bm) div WORD_BITS) XOR push_bit (Min (free_bits bm) mod WORD_BITS) 1]\<rparr>,
                0, Some (Min (free_bits bm))))"
  using assms
proof (induction bm ix rule: bitmap_alloc_loop.induct)
  case (1 bm ix)
  show ?case
  proof (cases "ix < nwords bm")
    case False
    then have "free_bits bm = {}" using 1(3,4) index_lt [of _ bm] by (auto simp: free_bits_def)
    then show ?thesis using False by (simp add: bitmap_alloc_loop.simps [of bm ix])
  next
    case lt: True
    show ?thesis
    proof (cases "words bm ! ix = 0")
      case True
      then have *: "\<forall>j<ix + 1. words bm ! j = 0" using 1(3) by (auto simp: less_Suc_eq)
      have "bitmap_alloc_loop bm ix = bitmap_alloc_loop bm (ix + 1)"
        using lt True by (subst bitmap_alloc_loop.simps) simp
      moreover have "\<not> words bm ! ix \<noteq> 0" "ix + 1 \<le> nwords bm" using True lt by simp_all
      ultimately show ?thesis using 1(1) [OF lt _ 1(2) *] by simp
    next
      case False
      then obtain off where off: "first_bit (words bm ! ix) 0 = Some off" using first_bit_exists by blast
      note fb = first_bit_Some [OF off]
      have in_free: "ix * WORD_BITS + off \<in> free_bits bm"
      proof -
        have "ix * WORD_BITS + off < (ix + 1) * WORD_BITS" using fb by (simp add: algebra_simps)
        also have "\<dots> \<le> nwords bm * WORD_BITS" using lt by (intro mult_le_mono1) simp
        finally show ?thesis using fb by (simp add: free_bits_def)
      qed
      have least: "ix * WORD_BITS + off \<le> i" if "i \<in> free_bits bm" for i
      proof -
        have b: "bit (words bm ! (i div WORD_BITS)) (i mod WORD_BITS)" using that by (simp add: free_bits_def)
        have "ix \<le> i div WORD_BITS" using 1(3) b by (metis bit_0_eq bot_apply bot_bool_def linorder_not_less)
        moreover have "off \<le> i mod WORD_BITS" if "i div WORD_BITS = ix"
          using fb b that by (meson le0 not_le_imp_less)
        moreover have "i = i div WORD_BITS * WORD_BITS + i mod WORD_BITS" by simp
        moreover have "ix * WORD_BITS + off \<le> i div WORD_BITS * WORD_BITS" if "ix < i div WORD_BITS"
        proof -
          have "ix * WORD_BITS + off \<le> (ix + 1) * WORD_BITS" using fb by simp
          also have "\<dots> \<le> i div WORD_BITS * WORD_BITS" using that by (intro mult_le_mono1) simp
          finally show ?thesis .
        qed
        ultimately show ?thesis by (metis add_le_cancel_left le_add1 le_neq_implies_less le_trans)
      qed
      have Min: "Min (free_bits bm) = ix * WORD_BITS + off"
        using in_free least by (intro Min_eqI) auto
      have "Min (free_bits bm) div WORD_BITS = ix" "Min (free_bits bm) mod WORD_BITS = off"
        using Min div_mod_index [of off ix] fb by simp_all
      then show ?thesis
        using lt False off in_free Min by (subst bitmap_alloc_loop.simps) auto
    qed
  qed
qed

lemma bitmap_alloc_none:
  "bitmap_ok bm \<Longrightarrow> free_bits bm = {} \<Longrightarrow> bitmap_alloc bm = Some (bm, - E_NO_MEM, None)"
  by (simp add: bitmap_alloc_def bitmap_alloc_loop_spec bitmap_ok_def)

lemma bitmap_alloc_some:
  assumes ok: "bitmap_ok bm" and ne: "free_bits bm \<noteq> {}"
  obtains bm' where "bitmap_alloc bm = Some (bm', 0, Some (Min (free_bits bm)))" "bitmap_ok bm'"
    "free_bits bm' = free_bits bm - {Min (free_bits bm)}" "nbits bm' = nbits bm" "nwords bm' = nwords bm"
proof -
  let ?i = "Min (free_bits bm)"
  define ix off where "ix = ?i div WORD_BITS" and "off = ?i mod WORD_BITS"
  have len: "length (words bm) = nwords bm" using ok by (simp add: bitmap_ok_def)
  have i: "?i \<in> free_bits bm" using ne by simp
  have ix: "ix < nwords bm" and off: "off < WORD_BITS" and i_eq: "ix * WORD_BITS + off = ?i"
    using index_lt [of ?i bm] i by (simp_all add: ix_def off_def free_bits_def)
  let ?bm = "bm\<lparr>words := (words bm)[ix := words bm ! ix XOR push_bit off 1]\<rparr>"
  have b: "bit (words bm ! ix) off" using i by (simp add: free_bits_def ix_def off_def)
  have "free_bits ?bm = (if False then insert (ix * WORD_BITS + off) (free_bits bm) else free_bits bm - {ix * WORD_BITS + off})"
    by (rule free_bits_update [OF len ix off]) (use off b in \<open>auto simp: bit_simps WORD_BITS_def\<close>)
  then have fb: "free_bits ?bm = free_bits bm - {?i}" using i_eq by simp
  show thesis
  proof (rule that [of ?bm])
    show "bitmap_alloc bm = Some (?bm, 0, Some ?i)"
      using ne len by (simp add: bitmap_alloc_def bitmap_alloc_loop_spec ix_def off_def)
    show "bitmap_ok ?bm" using ok fb by (auto simp: bitmap_ok_def)
  qed (use fb in simp_all)
qed

lemma clear_over_bits_bit:
  "k < WORD_BITS \<Longrightarrow> bit (clear_over_bits overbits w) k = (if overbits \<le> k then \<not> bit w k else bit w k)"
proof (induction overbits w rule: clear_over_bits.induct)
  case (1 overbits w)
  then show ?case
    by (cases "overbits < WORD_BITS")
      (auto simp: clear_over_bits.simps [of overbits w] bit_simps WORD_BITS_def)
qed

lemma bitmap_create_spec:
  assumes n: "n \<noteq> 0"
  obtains bm where "bitmap_create True True n = Some (Some bm)" "bitmap_ok bm"
    "free_bits bm = {0..<n}" "nbits bm = n" "nwords bm = (n + WORD_BITS - 1) div WORD_BITS"
proof -
  define nw where "nw = (n + WORD_BITS - 1) div WORD_BITS"
  define one where "one = (0xFFFFFFFF :: 32 word)"
  define m where "m = replicate nw one"
  define ix where "ix = nw - 1"
  define ov where "ov = n - ix * WORD_BITS"
  have nw_pos: "0 < nw" using n by (simp add: nw_def WORD_BITS_def div_greater_zero_iff)
  have ones: "bit one k" if "k < WORD_BITS" for k
  proof -
    have "one = mask 32" by (simp add: one_def mask_eq_exp_minus_1)
    then show ?thesis using that by (simp only: bit_mask_iff) (simp add: WORD_BITS_def)
  qed
  have m_bit: "bit (m ! (i div WORD_BITS)) (i mod WORD_BITS)" if "i < nw * WORD_BITS" for i
    using less_mult_imp_div_less [OF that] ones [of "i mod WORD_BITS"] by (simp add: m_def)
  show thesis
  proof (cases "n = nw * WORD_BITS")
    case True
    let ?bm = "\<lparr>nbits = n, nwords = nw, words = m\<rparr>"
    have fb: "free_bits ?bm = {0..<n}" using m_bit True by (auto simp: free_bits_def)
    show thesis
    proof (rule that [of ?bm])
      show "bitmap_create True True n = Some (Some ?bm)"
        unfolding bitmap_create_def Let_def nw_def [symmetric] one_def [symmetric] m_def [symmetric]
        using n True by (simp add: bind_kassert)
      show "bitmap_ok ?bm" using fb True by (simp add: bitmap_ok_def m_def)
    qed (use fb nw_def in simp_all)
  next
    case False
    have n_eq: "n = ix * WORD_BITS + ov" "ov < WORD_BITS" "0 < ov" "n div WORD_BITS = ix"
      using False nw_pos n unfolding ov_def ix_def nw_def WORD_BITS_def by linarith+
    let ?w = "clear_over_bits ov (m ! ix)"
    let ?bm = "\<lparr>nbits = n, nwords = nw, words = m[ix := ?w]\<rparr>"
    have mem: "i \<in> free_bits ?bm \<longleftrightarrow> i < n" for i
    proof (cases "i < nw * WORD_BITS")
      case False
      moreover have "n \<le> nw * WORD_BITS" using n by (simp add: nw_def WORD_BITS_def)
      ultimately show ?thesis by (simp add: free_bits_def)
    next
      case True
      have ix_lt: "ix < nw" using nw_pos by (simp add: ix_def)
      show ?thesis
      proof (cases "i div WORD_BITS = ix")
        case here: True
        have i_eq: "i = ix * WORD_BITS + i mod WORD_BITS" using here div_mult_mod_eq [of i WORD_BITS] by simp
        have "bit ?w (i mod WORD_BITS) \<longleftrightarrow> i mod WORD_BITS < ov"
          using m_bit [OF True] here by (auto simp: clear_over_bits_bit)
        moreover have "i < n \<longleftrightarrow> i mod WORD_BITS < ov" using n_eq(1) i_eq by linarith
        ultimately show ?thesis using True here ix_lt by (simp add: free_bits_def m_def)
      next
        case other: False
        have "i div WORD_BITS < nw" using True by (rule less_mult_imp_div_less)
        then have "i div WORD_BITS < ix" using other nw_pos by (simp add: ix_def)
        then have "i < ix * WORD_BITS" by (simp add: div_less_iff_less_mult)
        then show ?thesis using m_bit [OF True] other True n_eq(1) by (simp add: free_bits_def)
      qed
    qed
    have fb: "free_bits ?bm = {0..<n}"
      by (rule set_eqI) (simp only: mem atLeastLessThan_iff le0 simp_thms)
    have le: "n \<le> nw * WORD_BITS" unfolding nw_def WORD_BITS_def using n by linarith
    show thesis
    proof (rule that [of ?bm])
      show "bitmap_create True True n = Some (Some ?bm)"
        unfolding bitmap_create_def Let_def nw_def [symmetric] one_def [symmetric] m_def [symmetric]
          ix_def [symmetric] ov_def [symmetric]
        using n False n_eq by (simp add: bind_kassert)
      show "bitmap_ok ?bm" using fb le by (simp add: bitmap_ok_def m_def)
    qed (use fb nw_def in simp_all)
  qed
qed

section \<open>The contract of an allocator of numbered blocks\<close>

text \<open>
  What \<open>sfs_inode.c\<close> relies on: a state that stands for a finite set of free indices, an
  operation that takes one of them, one that gives a used index back and stops the machine
  otherwise, and a test.
\<close>

locale free_set =
  fixes inv :: "'s \<Rightarrow> bool" and free :: "'s \<Rightarrow> nat set" and bound :: "'s \<Rightarrow> nat"
    and take_one :: "'s \<Rightarrow> ('s \<times> int \<times> nat option) option"
    and give :: "'s \<Rightarrow> nat \<Rightarrow> 's option" and test :: "'s \<Rightarrow> nat \<Rightarrow> bool option"
  assumes free_bound: "inv s \<Longrightarrow> free s \<subseteq> {0..<bound s}"
    and take_none: "inv s \<Longrightarrow> free s = {} \<Longrightarrow> take_one s = Some (s, - E_NO_MEM, None)"
    and take_some: "inv s \<Longrightarrow> free s \<noteq> {} \<Longrightarrow>
      \<exists>s' i. take_one s = Some (s', 0, Some i) \<and> i \<in> free s \<and> inv s' \<and> free s' = free s - {i} \<and> bound s' = bound s"
    and give_used: "inv s \<Longrightarrow> i < bound s \<Longrightarrow> i \<notin> free s \<Longrightarrow>
      \<exists>s'. give s i = Some s' \<and> inv s' \<and> free s' = insert i (free s) \<and> bound s' = bound s"
    and give_other: "inv s \<Longrightarrow> i \<in> free s \<or> bound s \<le> i \<Longrightarrow> give s i = None"
    and test_free: "inv s \<Longrightarrow> test s i = (if i < bound s then Some (i \<in> free s) else None)"
begin

lemma finite_free: "inv s \<Longrightarrow> finite (free s)"
  using free_bound [of s] finite_subset by blast

lemma take_total: "inv s \<Longrightarrow> take_one s \<noteq> None"
  using take_none [of s] take_some [of s] by (cases "free s = {}") auto

lemma take_card:
  assumes "inv s" "take_one s = Some (s', ret, Some i)"
  shows "card (free s) = Suc (card (free s')) \<and> test s' i = Some False"
proof -
  have ne: "free s \<noteq> {}" using take_none [OF assms(1)] assms(2) by auto
  obtain s1 j where s1: "take_one s = Some (s1, 0, Some j)" "j \<in> free s" "inv s1"
      "free s1 = free s - {j}" "bound s1 = bound s"
    using take_some [OF assms(1) ne] by blast
  then have "s1 = s'" "j = i" using assms(2) by auto
  moreover have "i < bound s'" using s1 free_bound [OF assms(1)] calculation by auto
  ultimately show ?thesis
    using s1 finite_free [OF assms(1)] test_free [of s' i] card.remove [of "free s" i] by auto
qed

lemma take_give:
  assumes "inv s" "take_one s = Some (s', ret, Some i)"
  obtains s2 where "give s' i = Some s2" "inv s2" "free s2 = free s" "bound s2 = bound s"
proof -
  have ne: "free s \<noteq> {}" using take_none [OF assms(1)] assms(2) by auto
  obtain s1 j where s1: "take_one s = Some (s1, 0, Some j)" "j \<in> free s" "inv s1"
      "free s1 = free s - {j}" "bound s1 = bound s"
    using take_some [OF assms(1) ne] by blast
  then have eq: "s1 = s'" "j = i" using assms(2) by auto
  then have "i < bound s'" "i \<notin> free s'" using s1 free_bound [OF assms(1)] by auto
  then obtain s2 where "give s' i = Some s2" "inv s2" "free s2 = insert i (free s')" "bound s2 = bound s'"
    using give_used [of s' i] s1 eq by blast
  then show thesis using that s1 eq by (metis insert_Diff)
qed

end

interpretation bm: free_set bitmap_ok free_bits nbits bitmap_alloc bitmap_free bitmap_test
proof unfold_locales
  fix s i
  assume ok: "bitmap_ok s"
  show "free_bits s \<subseteq> {0..<nbits s}" using ok by (simp add: bitmap_ok_def)
  show "free_bits s = {} \<Longrightarrow> bitmap_alloc s = Some (s, - E_NO_MEM, None)"
    by (rule bitmap_alloc_none [OF ok])
  show "bitmap_test s i = (if i < nbits s then Some (i \<in> free_bits s) else None)"
    by (rule bitmap_test_free [OF ok])
  show "i \<in> free_bits s \<or> nbits s \<le> i \<Longrightarrow> bitmap_free s i = None"
    by (rule bitmap_free_used [OF ok])
  show "\<exists>s' i. bitmap_alloc s = Some (s', 0, Some i) \<and> i \<in> free_bits s \<and> bitmap_ok s' \<and>
      free_bits s' = free_bits s - {i} \<and> nbits s' = nbits s" if ne: "free_bits s \<noteq> {}"
    by (rule bitmap_alloc_some [OF ok ne]) (use Min_in [OF finite_free_bits ne] in auto)
  show "\<exists>s'. bitmap_free s i = Some s' \<and> bitmap_ok s' \<and> free_bits s' = insert i (free_bits s) \<and> nbits s' = nbits s"
    if "i < nbits s" "i \<notin> free_bits s"
    by (rule bitmap_free_spec [OF ok that]) auto
qed

section \<open>Properties\<close>

text \<open>
  C33: \<open>bitmap_alloc\<close> refines taking the least element of a finite set: on a well-formed bitmap it
  always returns; with no free bit it reports \<open>-E_NO_MEM\<close> and leaves the bitmap alone, otherwise
  it stores the least free index and removes exactly that index from the free set. The index
  can be given back, which restores the free set, and giving it back a second time stops the
  machine.
\<close>

theorem bitmap_alloc_refines_least:
  assumes "bitmap_ok bm"
  shows "if free_bits bm = {} then bitmap_alloc bm = Some (bm, - E_NO_MEM, None)
    else (\<exists>bm' bm2. bitmap_alloc bm = Some (bm', 0, Some (Min (free_bits bm))) \<and> bitmap_ok bm' \<and>
      free_bits bm' = free_bits bm - {Min (free_bits bm)} \<and> nbits bm' = nbits bm \<and>
      bitmap_free bm' (Min (free_bits bm)) = Some bm2 \<and> free_bits bm2 = free_bits bm \<and>
      bitmap_free bm2 (Min (free_bits bm)) = None)"
proof (cases "free_bits bm = {}")
  case True
  then show ?thesis using bitmap_alloc_none [OF assms] by simp
next
  case False
  obtain bm' where a: "bitmap_alloc bm = Some (bm', 0, Some (Min (free_bits bm)))" "bitmap_ok bm'"
      "free_bits bm' = free_bits bm - {Min (free_bits bm)}" "nbits bm' = nbits bm"
    using bitmap_alloc_some [OF assms False] by metis
  obtain bm2 where b: "bitmap_free bm' (Min (free_bits bm)) = Some bm2" "bitmap_ok bm2"
      "free_bits bm2 = free_bits bm"
    using bm.take_give [OF assms a(1)] by metis
  have "bitmap_free bm2 (Min (free_bits bm)) = None"
    using bm.give_other [OF b(2)] b(3) False by simp
  then show ?thesis using a b False by auto
qed

theorem bitmap_alloc_refines_least_witness:
  "bitmap_ok \<lparr>nbits = 40, nwords = 2, words = [0, 0x80]\<rparr> \<and>
   (\<exists>bm'. bitmap_alloc \<lparr>nbits = 40, nwords = 2, words = [0, 0x80]\<rparr> = Some (bm', 0, Some 39))"
proof -
  define w :: "32 word" where "w = 0x80"
  let ?bm = "\<lparr>nbits = 40, nwords = 2, words = [0, w]\<rparr>"
  have b: "bit w k \<longleftrightarrow> k = 7" for k
  proof -
    have eq: "w = 2 ^ 7" by (simp add: w_def)
    show ?thesis unfolding eq bit_exp_iff by (auto simp: possible_bit_word)
  qed
  have "i \<in> free_bits ?bm \<longleftrightarrow> i = 39" for i
  proof -
    consider "i < 32" | "32 \<le> i" "i < 64" | "64 \<le> i" by linarith
    then show ?thesis
    proof cases
      case 1 then show ?thesis by (simp add: free_bits_def WORD_BITS_def)
    next
      case 2
      define j where "j = i - 32"
      then have j: "i = 32 + j" "j < 32" using 2 by simp_all
      then have "i div 32 = 1" "i mod 32 = j" by simp_all
      then have "i \<in> free_bits ?bm \<longleftrightarrow> i < 64 \<and> bit w j" by (simp add: free_bits_def WORD_BITS_def)
      then show ?thesis using 2 j b by simp
    next
      case 3 then show ?thesis by (simp add: free_bits_def WORD_BITS_def)
    qed
  qed
  then have fb: "free_bits ?bm = {39}" by auto
  then have ok: "bitmap_ok ?bm" by (simp add: bitmap_ok_def WORD_BITS_def)
  show ?thesis using bitmap_alloc_refines_least [OF ok] ok fb unfolding w_def [symmetric] by auto
qed

end
