(* ===== verification/Disk.thy ===== *)
theory Disk
imports Prelude ErrorCodes
begin

text \<open>
  The block device under the file system: I/O buffers (\<open>kern/fs/iobuf.c\<close>), the IDE layer
  (\<open>kern/driver/ide.c\<close>), the RAM disk behind it (\<open>kern/driver/ramdisk.c\<close>) and the block device
  \<open>disk0\<close> (\<open>kern/fs/devs/dev_disk0.c\<close>).

  A piece of memory that a pointer parameter refers to is a list of bytes; an access that
  leaves it has no result (\<open>None\<close>). The memory that holds the disk images is a function from
  addresses to bytes, so a sector number past the end of an image reads what lies behind it,
  as the C code does. A semaphore that guards a critical section is its counter: taking it
  when the counter is not positive puts the caller to sleep, which has no result here.
\<close>

type_synonym byte = "8 word"

section \<open>Accesses to a piece of memory\<close>

definition mem_get :: "nat \<Rightarrow> nat \<Rightarrow> byte list \<Rightarrow> byte list option" where
  "mem_get off n xs = (if off + n \<le> length xs then Some (take n (drop off xs)) else None)"

definition mem_put :: "nat \<Rightarrow> byte list \<Rightarrow> byte list \<Rightarrow> byte list option" where
  "mem_put off ys xs =
    (if off + length ys \<le> length xs then Some (take off xs @ ys @ drop (off + length ys) xs) else None)"

lemma mem_get_eq [simp]: "off + n \<le> length xs \<Longrightarrow> mem_get off n xs = Some (take n (drop off xs))"
  by (simp add: mem_get_def)

lemma mem_put_eq [simp]:
  "off + length ys \<le> length xs \<Longrightarrow> mem_put off ys xs = Some (take off xs @ ys @ drop (off + length ys) xs)"
  by (simp add: mem_put_def)

section \<open>A semaphore used as a lock\<close>

definition sem_down :: "int \<Rightarrow> int option" where
  "sem_down value = (if value > 0 then Some (value - 1) else None)"

definition sem_up :: "int \<Rightarrow> int" where
  "sem_up value = value + 1"

section \<open>I/O buffers (iobuf.c)\<close>

record iobuf =
  io_mem :: "byte list"
  io_base :: nat
  io_offset :: nat
  io_len :: nat
  io_resid :: nat

definition iobuf_init :: "byte list \<Rightarrow> nat \<Rightarrow> nat \<Rightarrow> nat \<Rightarrow> iobuf" where
  "iobuf_init mem base len offset =
    \<lparr>io_mem = mem, io_base = base, io_offset = offset, io_len = len, io_resid = len\<rparr>"

definition iobuf_skip :: "iobuf \<Rightarrow> nat \<Rightarrow> iobuf option" where
  "iobuf_skip iob n = do {
     kassert (io_resid iob \<ge> n);
     Some (iob\<lparr>io_base := io_base iob + n, io_offset := io_offset iob + n, io_resid := io_resid iob - n\<rparr>)
   }"

definition iobuf_move ::
    "iobuf \<Rightarrow> byte list \<Rightarrow> nat \<Rightarrow> bool \<Rightarrow> (iobuf \<times> byte list \<times> nat \<times> int) option" where
  "iobuf_move iob data len m2b = do {
     let alen = (if io_resid iob > len then len else io_resid iob);
     (iob', data', len') \<leftarrow>
       (if alen > 0
        then do {
          (m, d) \<leftarrow>
            (if m2b
             then do { src \<leftarrow> mem_get 0 alen data; m \<leftarrow> mem_put (io_base iob) src (io_mem iob); Some (m, data) }
             else do { src \<leftarrow> mem_get (io_base iob) alen (io_mem iob); d \<leftarrow> mem_put 0 src data; Some (io_mem iob, d) });
          iob' \<leftarrow> iobuf_skip (iob\<lparr>io_mem := m\<rparr>) alen;
          Some (iob', d, len - alen)
        }
        else Some (iob, data, len));
     Some (iob', data', alen, if len' = 0 then 0 else - E_NO_MEM)
   }"

definition iobuf_move_zeros :: "iobuf \<Rightarrow> nat \<Rightarrow> (iobuf \<times> nat \<times> int) option" where
  "iobuf_move_zeros iob len = do {
     let alen = (if io_resid iob > len then len else io_resid iob);
     (iob', len') \<leftarrow>
       (if alen > 0
        then do {
          m \<leftarrow> mem_put (io_base iob) (replicate alen 0) (io_mem iob);
          iob' \<leftarrow> iobuf_skip (iob\<lparr>io_mem := m\<rparr>) alen;
          Some (iob', len - alen)
        }
        else Some (iob, len));
     Some (iob', alen, if len' = 0 then 0 else - E_NO_MEM)
   }"

section \<open>The RAM disk and the IDE layer\<close>

definition SECTSIZE :: nat where "SECTSIZE = 512"
definition MAX_IDE :: nat where "MAX_IDE = 4"
definition MAX_NSECS :: nat where "MAX_NSECS = 128"
definition MAX_DISK_NSECS :: nat where "MAX_DISK_NSECS = 0x10000000"
definition SWAP_DEV_NO :: nat where "SWAP_DEV_NO = 1"
definition DISK0_DEV_NO :: nat where "DISK0_DEV_NO = 2"

record ide_device =
  ide_valid :: bool
  ide_size :: nat
  ide_iobase :: nat

definition ramdisk_init :: "nat \<times> nat \<Rightarrow> nat \<times> nat \<Rightarrow> nat \<Rightarrow> ide_device option" where
  "ramdisk_init swap_img sfs_img devno = do {
     (initrd_begin, initrd_end) \<leftarrow>
       (if devno = SWAP_DEV_NO then Some swap_img
        else if devno = DISK0_DEV_NO then Some sfs_img
        else None);
     (if initrd_begin = initrd_end
      then Some \<lparr>ide_valid = False, ide_size = 0, ide_iobase = 0\<rparr>
      else Some \<lparr>ide_valid = True, ide_size = ((initrd_end - initrd_begin) mod 2 ^ 32) div SECTSIZE,
                 ide_iobase = initrd_begin\<rparr>)
   }"

record disk0 =
  ide_devices :: "nat \<Rightarrow> ide_device"
  img_mem :: "nat \<Rightarrow> byte"
  disk0_buffer :: "byte list"
  disk0_sem :: int

definition VALID_IDE :: "disk0 \<Rightarrow> nat \<Rightarrow> bool" where
  "VALID_IDE st ideno \<longleftrightarrow> ideno < MAX_IDE \<and> ide_valid (ide_devices st ideno)"

definition ide_init :: "nat \<times> nat \<Rightarrow> nat \<times> nat \<Rightarrow> disk0 \<Rightarrow> disk0 option" where
  "ide_init swap_img sfs_img st = do {
     let st = st\<lparr>ide_devices := (\<lambda>ideno. if ideno < MAX_IDE then (ide_devices st ideno)\<lparr>ide_valid := False\<rparr>
                                        else ide_devices st ideno)\<rparr>;
     dev \<leftarrow> ramdisk_init swap_img sfs_img SWAP_DEV_NO;
     let st = st\<lparr>ide_devices := (ide_devices st)(SWAP_DEV_NO := dev)\<rparr>;
     kassert (VALID_IDE st SWAP_DEV_NO);
     dev \<leftarrow> ramdisk_init swap_img sfs_img DISK0_DEV_NO;
     let st = st\<lparr>ide_devices := (ide_devices st)(DISK0_DEV_NO := dev)\<rparr>;
     kassert (VALID_IDE st DISK0_DEV_NO);
     Some st
   }"

definition ide_device_size :: "disk0 \<Rightarrow> nat \<Rightarrow> nat" where
  "ide_device_size st ideno = (if VALID_IDE st ideno then ide_size (ide_devices st ideno) else 0)"

text \<open>\<open>nsecs\<close> and the difference are unsigned, so the test \<open>nsecs < 0\<close> of the code never succeeds.\<close>

definition ramdisk_nsecs :: "ide_device \<Rightarrow> nat \<Rightarrow> nat \<Rightarrow> nat" where
  "ramdisk_nsecs dev secno nsecs =
    (let avail = (if secno \<le> ide_size dev then ide_size dev - secno else 2 ^ 64 + ide_size dev - secno)
     in if nsecs < avail then nsecs else avail)"

definition ramdisk_read ::
    "(nat \<Rightarrow> byte) \<Rightarrow> ide_device \<Rightarrow> nat \<Rightarrow> byte list \<Rightarrow> nat \<Rightarrow> (byte list \<times> int) option" where
  "ramdisk_read mem dev secno dst nsecs = do {
     let nsecs = ramdisk_nsecs dev secno nsecs;
     dst' \<leftarrow> mem_put 0 (map (\<lambda>i. mem (ide_iobase dev + secno * SECTSIZE + i)) [0..<nsecs * SECTSIZE]) dst;
     Some (dst', 0)
   }"

definition ramdisk_write ::
    "(nat \<Rightarrow> byte) \<Rightarrow> ide_device \<Rightarrow> nat \<Rightarrow> byte list \<Rightarrow> nat \<Rightarrow> ((nat \<Rightarrow> byte) \<times> int) option" where
  "ramdisk_write mem dev secno src nsecs = do {
     let nsecs = ramdisk_nsecs dev secno nsecs;
     bs \<leftarrow> mem_get 0 (nsecs * SECTSIZE) src;
     let start = ide_iobase dev + secno * SECTSIZE;
     Some (\<lambda>a. if start \<le> a \<and> a < start + nsecs * SECTSIZE then bs ! (a - start) else mem a, 0)
   }"

definition ide_read_secs :: "disk0 \<Rightarrow> nat \<Rightarrow> nat \<Rightarrow> byte list \<Rightarrow> nat \<Rightarrow> (byte list \<times> int) option" where
  "ide_read_secs st ideno secno dst nsecs = do {
     kassert (nsecs \<le> MAX_NSECS \<and> VALID_IDE st ideno);
     kassert (secno < MAX_DISK_NSECS \<and> secno + nsecs \<le> MAX_DISK_NSECS);
     ramdisk_read (img_mem st) (ide_devices st ideno) secno dst nsecs
   }"

definition ide_write_secs :: "disk0 \<Rightarrow> nat \<Rightarrow> nat \<Rightarrow> byte list \<Rightarrow> nat \<Rightarrow> ((nat \<Rightarrow> byte) \<times> int) option" where
  "ide_write_secs st ideno secno src nsecs = do {
     kassert (nsecs \<le> MAX_NSECS \<and> VALID_IDE st ideno);
     kassert (secno < MAX_DISK_NSECS \<and> secno + nsecs \<le> MAX_DISK_NSECS);
     ramdisk_write (img_mem st) (ide_devices st ideno) secno src nsecs
   }"

section \<open>The block device disk0\<close>

definition DISK0_BLKSIZE :: nat where "DISK0_BLKSIZE = 4096"
definition DISK0_BUFSIZE :: nat where "DISK0_BUFSIZE = 4 * DISK0_BLKSIZE"
definition DISK0_BLK_NSECT :: nat where "DISK0_BLK_NSECT = DISK0_BLKSIZE div SECTSIZE"

definition lock_disk0 :: "disk0 \<Rightarrow> disk0 option" where
  "lock_disk0 st = do { v \<leftarrow> sem_down (disk0_sem st); Some (st\<lparr>disk0_sem := v\<rparr>) }"

definition unlock_disk0 :: "disk0 \<Rightarrow> disk0" where
  "unlock_disk0 st = st\<lparr>disk0_sem := sem_up (disk0_sem st)\<rparr>"

definition disk0_read_blks_nolock :: "nat \<Rightarrow> nat \<Rightarrow> disk0 \<Rightarrow> disk0 option" where
  "disk0_read_blks_nolock blkno nblks st = do {
     let sectno = (blkno * DISK0_BLK_NSECT) mod 2 ^ 32;
     let nsecs = (nblks * DISK0_BLK_NSECT) mod 2 ^ 32;
     (buf, ret) \<leftarrow> ide_read_secs st DISK0_DEV_NO sectno (disk0_buffer st) nsecs;
     kassert (ret = 0);
     Some (st\<lparr>disk0_buffer := buf\<rparr>)
   }"

definition disk0_write_blks_nolock :: "nat \<Rightarrow> nat \<Rightarrow> disk0 \<Rightarrow> disk0 option" where
  "disk0_write_blks_nolock blkno nblks st = do {
     let sectno = (blkno * DISK0_BLK_NSECT) mod 2 ^ 32;
     let nsecs = (nblks * DISK0_BLK_NSECT) mod 2 ^ 32;
     (mem, ret) \<leftarrow> ide_write_secs st DISK0_DEV_NO sectno (disk0_buffer st) nsecs;
     kassert (ret = 0);
     Some (st\<lparr>img_mem := mem\<rparr>)
   }"

definition disk0_write_step :: "nat \<Rightarrow> nat \<Rightarrow> disk0 \<Rightarrow> iobuf \<Rightarrow> (disk0 \<times> iobuf \<times> nat \<times> nat) option" where
  "disk0_write_step resid blkno st iob = do {
     (iob', buf, copied, ret) \<leftarrow> iobuf_move iob (disk0_buffer st) DISK0_BUFSIZE False;
     let st = st\<lparr>disk0_buffer := buf\<rparr>;
     kassert (copied \<noteq> 0 \<and> copied \<le> resid \<and> copied mod DISK0_BLKSIZE = 0);
     let nblks = copied div DISK0_BLKSIZE;
     st \<leftarrow> disk0_write_blks_nolock blkno nblks st;
     Some (st, iob', copied, nblks)
   }"

definition disk0_read_step :: "nat \<Rightarrow> nat \<Rightarrow> disk0 \<Rightarrow> iobuf \<Rightarrow> (disk0 \<times> iobuf \<times> nat \<times> nat) option" where
  "disk0_read_step resid blkno st iob = do {
     let alen = (if DISK0_BUFSIZE > resid then resid else DISK0_BUFSIZE);
     let nblks = alen div DISK0_BLKSIZE;
     st \<leftarrow> disk0_read_blks_nolock blkno nblks st;
     (iob', buf, copied, ret) \<leftarrow> iobuf_move iob (disk0_buffer st) alen True;
     kassert (copied = alen \<and> copied mod DISK0_BLKSIZE = 0);
     Some (st\<lparr>disk0_buffer := buf\<rparr>, iob', copied, nblks)
   }"

partial_function (option) disk0_loop :: "bool \<Rightarrow> nat \<Rightarrow> nat \<Rightarrow> disk0 \<Rightarrow> iobuf \<Rightarrow> (disk0 \<times> iobuf) option" where
  "disk0_loop write resid blkno st iob =
    (if resid \<noteq> 0
     then Option.bind (if write then disk0_write_step resid blkno st iob else disk0_read_step resid blkno st iob)
       (\<lambda>(st, iob, copied, nblks). disk0_loop write (resid - copied) ((blkno + nblks) mod 2 ^ 32) st iob)
     else Some (st, iob))"

definition disk0_io :: "nat \<Rightarrow> disk0 \<Rightarrow> iobuf \<Rightarrow> bool \<Rightarrow> (int \<times> disk0 \<times> iobuf) option" where
  "disk0_io d_blocks st iob write = do {
     let offset = io_offset iob;
     let resid = io_resid iob;
     let blkno = (offset div DISK0_BLKSIZE) mod 2 ^ 32;
     let nblks = (resid div DISK0_BLKSIZE) mod 2 ^ 32;
     (if offset mod DISK0_BLKSIZE \<noteq> 0 \<or> resid mod DISK0_BLKSIZE \<noteq> 0 then Some (- E_INVAL, st, iob)
      else if (blkno + nblks) mod 2 ^ 32 > d_blocks then Some (- E_INVAL, st, iob)
      else if nblks = 0 then Some (0, st, iob)
      else do {
        st \<leftarrow> lock_disk0 st;
        (st, iob) \<leftarrow> disk0_loop write resid blkno st iob;
        Some (0, unlock_disk0 st, iob)
      })
   }"

text \<open>\<open>struct device\<close> (\<open>dev.h\<close>): the geometry, the state behind the device and its function pointer
  \<open>d_io\<close>, which is given the number of blocks of the device it is called on.\<close>

record 'd device =
  d_blocks :: nat
  d_blocksize :: nat
  d_io :: "nat \<Rightarrow> 'd \<Rightarrow> iobuf \<Rightarrow> bool \<Rightarrow> (int \<times> 'd \<times> iobuf) option"
  d_state :: 'd

definition dop_io :: "'d device \<Rightarrow> iobuf \<Rightarrow> bool \<Rightarrow> (int \<times> 'd device \<times> iobuf) option" where
  "dop_io dev iob write = do {
     (ret, st, iob) \<leftarrow> d_io dev (d_blocks dev) (d_state dev) iob write;
     Some (ret, dev\<lparr>d_state := st\<rparr>, iob)
   }"

text \<open>The argument \<open>buffer\<close> is the block of \<open>DISK0_BUFSIZE\<close> bytes that \<open>kmalloc\<close> returns, if any.\<close>

definition disk0_device_init :: "byte list option \<Rightarrow> disk0 \<Rightarrow> disk0 device option" where
  "disk0_device_init buffer st = do {
     kassert (VALID_IDE st DISK0_DEV_NO);
     buf \<leftarrow> buffer;
     Some \<lparr>d_blocks = ide_device_size st DISK0_DEV_NO div DISK0_BLK_NSECT, d_blocksize = DISK0_BLKSIZE,
           d_io = disk0_io, d_state = st\<lparr>disk0_sem := 1, disk0_buffer := buf\<rparr>\<rparr>
   }"


section \<open>The bytes of the disk\<close>

definition disk_base :: "disk0 \<Rightarrow> nat" where
  "disk_base st = ide_iobase (ide_devices st DISK0_DEV_NO)"

definition disk_byte :: "disk0 \<Rightarrow> nat \<Rightarrow> byte" where
  "disk_byte st i = img_mem st (disk_base st + i)"

definition disk0_ok :: "nat \<Rightarrow> disk0 \<Rightarrow> bool" where
  "disk0_ok blocks st \<longleftrightarrow> VALID_IDE st DISK0_DEV_NO \<and> 8 * blocks \<le> ide_size (ide_devices st DISK0_DEV_NO) \<and>
     8 * blocks \<le> MAX_DISK_NSECS \<and> length (disk0_buffer st) = DISK0_BUFSIZE"

lemma disk0_ok_update [simp]:
  "disk0_ok blocks (st\<lparr>img_mem := m\<rparr>) = disk0_ok blocks st"
  "disk0_ok blocks (st\<lparr>disk0_sem := v\<rparr>) = disk0_ok blocks st"
  by (auto simp: disk0_ok_def VALID_IDE_def)

lemma disk0_ok_mono: "length b = DISK0_BUFSIZE \<Longrightarrow> disk0_ok blocks st \<Longrightarrow> disk0_ok blocks (st\<lparr>disk0_buffer := b\<rparr>)"
  by (simp add: disk0_ok_def VALID_IDE_def)

lemmas disk_sizes = DISK0_BLKSIZE_def DISK0_BUFSIZE_def DISK0_BLK_NSECT_def SECTSIZE_def MAX_NSECS_def MAX_DISK_NSECS_def

lemma iobuf_move_in:
  assumes "0 < alen" "alen \<le> io_resid iob" "alen \<le> length data" "io_base iob + alen \<le> length (io_mem iob)"
  shows "iobuf_move iob data alen True = Some (iob\<lparr>
      io_mem := take (io_base iob) (io_mem iob) @ take alen data @ drop (io_base iob + alen) (io_mem iob),
      io_base := io_base iob + alen, io_offset := io_offset iob + alen, io_resid := io_resid iob - alen\<rparr>, data, alen, 0)"
  using assms by (auto simp: iobuf_move_def Let_def iobuf_skip_def)

lemma iobuf_move_out:
  assumes "alen = min len (io_resid iob)" "0 < alen" "alen \<le> length data" "io_base iob + alen \<le> length (io_mem iob)"
  shows "\<exists>ret. iobuf_move iob data len False = Some (iob\<lparr>
      io_base := io_base iob + alen, io_offset := io_offset iob + alen, io_resid := io_resid iob - alen\<rparr>,
      take alen (drop (io_base iob) (io_mem iob)) @ drop alen data, alen, ret)"
proof -
  have src: "mem_get (io_base iob) alen (io_mem iob) = Some (take alen (drop (io_base iob) (io_mem iob)))"
    using assms(4) by (rule mem_get_eq)
  have len: "length (take alen (drop (io_base iob) (io_mem iob))) = alen" using assms(4) by simp
  have dst: "mem_put 0 (take alen (drop (io_base iob) (io_mem iob))) data =
      Some (take alen (drop (io_base iob) (io_mem iob)) @ drop alen data)"
    using assms(3) len by (simp add: mem_put_def)
  have a: "(if io_resid iob > len then len else io_resid iob) = alen" using assms(1) by simp
  show ?thesis
    unfolding iobuf_move_def Let_def a src dst if_P [OF assms(2)] if_False Option.bind.simps
    using assms(1) by (simp add: iobuf_skip_def src dst)
qed

lemma disk0_transfer_range:
  assumes "disk0_ok blocks st" "k + n \<le> blocks" "n \<le> 4" "0 < n"
  shows "(k * DISK0_BLK_NSECT) mod 2 ^ 32 = k * 8" "(n * DISK0_BLK_NSECT) mod 2 ^ 32 = n * 8"
    "n * 8 \<le> MAX_NSECS" "k * 8 < MAX_DISK_NSECS" "k * 8 + n * 8 \<le> MAX_DISK_NSECS"
    "ramdisk_nsecs (ide_devices st DISK0_DEV_NO) (k * 8) (n * 8) = n * 8"
  using assms by (auto simp: disk0_ok_def disk_sizes ramdisk_nsecs_def Let_def)

lemma disk0_read_blks_spec:
  assumes ok: "disk0_ok blocks st" and r: "k + n \<le> blocks" "n \<le> 4" "0 < n"
  shows "disk0_read_blks_nolock k n st = Some (st\<lparr>disk0_buffer :=
     map (\<lambda>i. disk_byte st (4096 * k + i)) [0..<4096 * n] @ drop (4096 * n) (disk0_buffer st)\<rparr>)"
proof -
  note R = disk0_transfer_range [OF ok r]
  have len: "length (disk0_buffer st) = 16384" and v: "VALID_IDE st DISK0_DEV_NO"
    using ok by (simp_all add: disk0_ok_def disk_sizes)
  have le: "n * 8 * SECTSIZE \<le> length (disk0_buffer st)" using len r by (simp add: SECTSIZE_def)
  have mul: "n * 8 * SECTSIZE = 4096 * n" "k * 8 * SECTSIZE = 4096 * k" by (simp_all add: SECTSIZE_def)
  show ?thesis
    using R v le unfolding disk0_read_blks_nolock_def Let_def R(1) R(2) ide_read_secs_def ramdisk_read_def
    by (simp add: mul disk_byte_def disk_base_def add.assoc)
qed

lemma disk0_write_blks_spec:
  assumes ok: "disk0_ok blocks st" and r: "k + n \<le> blocks" "n \<le> 4" "0 < n"
  shows "disk0_write_blks_nolock k n st = Some (st\<lparr>img_mem :=
     (\<lambda>a. if disk_base st + 4096 * k \<le> a \<and> a < disk_base st + 4096 * k + 4096 * n
          then take (4096 * n) (disk0_buffer st) ! (a - (disk_base st + 4096 * k)) else img_mem st a)\<rparr>)"
proof -
  note R = disk0_transfer_range [OF ok r]
  have len: "length (disk0_buffer st) = 16384" and v: "VALID_IDE st DISK0_DEV_NO"
    using ok by (simp_all add: disk0_ok_def disk_sizes)
  have le: "n * 8 * SECTSIZE \<le> length (disk0_buffer st)" using len r by (simp add: SECTSIZE_def)
  have mul: "n * 8 * SECTSIZE = 4096 * n" "k * 8 * SECTSIZE = 4096 * k" by (simp_all add: SECTSIZE_def)
  show ?thesis
    using R v le unfolding disk0_write_blks_nolock_def Let_def R(1) R(2) ide_write_secs_def ramdisk_write_def
    by (simp add: mul disk_base_def add.assoc cong: if_cong)
qed

text \<open>One round of the loop moves \<open>m = min 4 n\<close> blocks.\<close>

lemma disk0_read_step_spec:
  assumes ok: "disk0_ok blocks st" and n: "0 < n" "k + n \<le> blocks" "io_resid iob = 4096 * n"
    "io_base iob + 4096 * n \<le> length (io_mem iob)"
  defines "m \<equiv> min 4 n"
  shows "\<exists>b. disk0_read_step (4096 * n) k st iob = Some (st\<lparr>disk0_buffer := b\<rparr>,
      iob\<lparr>io_mem := take (io_base iob) (io_mem iob) @ map (\<lambda>i. disk_byte st (4096 * k + i)) [0..<4096 * m]
            @ drop (io_base iob + 4096 * m) (io_mem iob),
          io_base := io_base iob + 4096 * m, io_offset := io_offset iob + 4096 * m,
          io_resid := 4096 * (n - m)\<rparr>, 4096 * m, m) \<and> length b = DISK0_BUFSIZE"
proof -
  have m: "0 < m" "m \<le> 4" "m \<le> n" "k + m \<le> blocks" using n by (simp_all add: m_def)
  have alen: "(if DISK0_BUFSIZE > 4096 * n then 4096 * n else DISK0_BUFSIZE) = 4096 * m"
    by (auto simp: disk_sizes m_def min_def)
  have div: "4096 * m div DISK0_BLKSIZE = m" "4096 * m mod DISK0_BLKSIZE = 0" by (simp_all add: disk_sizes)
  define b where "b = map (\<lambda>i. disk_byte st (4096 * k + i)) [0..<4096 * m] @ drop (4096 * m) (disk0_buffer st)"
  have lenb: "length b = DISK0_BUFSIZE" using ok m by (simp add: b_def disk0_ok_def disk_sizes)
  have rd: "disk0_read_blks_nolock k m st = Some (st\<lparr>disk0_buffer := b\<rparr>)"
    unfolding b_def by (rule disk0_read_blks_spec [OF ok m(4,2,1)])
  have mv: "iobuf_move iob b (4096 * m) True = Some (iob\<lparr>
      io_mem := take (io_base iob) (io_mem iob) @ take (4096 * m) b @ drop (io_base iob + 4096 * m) (io_mem iob),
      io_base := io_base iob + 4096 * m, io_offset := io_offset iob + 4096 * m,
      io_resid := io_resid iob - 4096 * m\<rparr>, b, 4096 * m, 0)"
    by (rule iobuf_move_in) (use m n lenb in \<open>auto simp: disk_sizes\<close>)
  have st: "disk0_read_step (4096 * n) k st iob = Some (st\<lparr>disk0_buffer := b\<rparr>,
      iob\<lparr>io_mem := take (io_base iob) (io_mem iob) @ take (4096 * m) b @ drop (io_base iob + 4096 * m) (io_mem iob),
      io_base := io_base iob + 4096 * m, io_offset := io_offset iob + 4096 * m,
      io_resid := io_resid iob - 4096 * m\<rparr>, 4096 * m, m)"
    unfolding disk0_read_step_def Let_def alen div(1) rd
    by (simp add: mv bind_kassert div)
  have "io_resid iob - 4096 * m = 4096 * (n - m)" using n by (simp add: diff_mult_distrib2)
  moreover have "take (4096 * m) b = map (\<lambda>i. disk_byte st (4096 * k + i)) [0..<4096 * m]" by (simp add: b_def)
  ultimately show ?thesis using st lenb by (intro exI [of _ b]) (simp only: simp_thms)
qed

lemma disk0_write_step_spec:
  assumes ok: "disk0_ok blocks st" and n: "0 < n" "k + n \<le> blocks" "io_resid iob = 4096 * n"
    "io_base iob + 4096 * n \<le> length (io_mem iob)"
  defines "m \<equiv> min 4 n"
  shows "\<exists>b. disk0_write_step (4096 * n) k st iob = Some (st\<lparr>disk0_buffer := b, img_mem :=
      (\<lambda>a. if disk_base st + 4096 * k \<le> a \<and> a < disk_base st + 4096 * k + 4096 * m
           then io_mem iob ! (io_base iob + (a - (disk_base st + 4096 * k))) else img_mem st a)\<rparr>,
      iob\<lparr>io_base := io_base iob + 4096 * m, io_offset := io_offset iob + 4096 * m,
          io_resid := 4096 * (n - m)\<rparr>, 4096 * m, m) \<and> length b = DISK0_BUFSIZE"
proof -
  have m: "0 < m" "m \<le> 4" "m \<le> n" "k + m \<le> blocks" using n by (simp_all add: m_def)
  have alen: "4096 * m = min DISK0_BUFSIZE (io_resid iob)" using n by (auto simp: disk_sizes m_def min_def)
  have div: "4096 * m div DISK0_BLKSIZE = m" "4096 * m mod DISK0_BLKSIZE = 0" by (simp_all add: disk_sizes)
  define b where "b = take (4096 * m) (drop (io_base iob) (io_mem iob)) @ drop (4096 * m) (disk0_buffer st)"
  have lens: "length (disk0_buffer st) = DISK0_BUFSIZE" using ok by (simp add: disk0_ok_def)
  have lenb: "length b = DISK0_BUFSIZE" using ok m n by (simp add: b_def disk0_ok_def disk_sizes)
  have pos: "0 < 4096 * m" and lelen: "4096 * m \<le> length (disk0_buffer st)"
    and le: "io_base iob + 4096 * m \<le> length (io_mem iob)"
    using m n lens by (simp_all add: disk_sizes)
  obtain ret where mv: "iobuf_move iob (disk0_buffer st) DISK0_BUFSIZE False = Some (iob\<lparr>
      io_base := io_base iob + 4096 * m, io_offset := io_offset iob + 4096 * m,
      io_resid := io_resid iob - 4096 * m\<rparr>, b, 4096 * m, ret)"
    using iobuf_move_out [OF alen pos lelen le, folded b_def] by (elim exE) (rule that)
  have ok': "disk0_ok blocks (st\<lparr>disk0_buffer := b\<rparr>)" by (rule disk0_ok_mono [OF lenb ok])
  have wr: "disk0_write_blks_nolock k m (st\<lparr>disk0_buffer := b\<rparr>) = Some (st\<lparr>disk0_buffer := b, img_mem :=
     (\<lambda>a. if disk_base st + 4096 * k \<le> a \<and> a < disk_base st + 4096 * k + 4096 * m
          then take (4096 * m) b ! (a - (disk_base st + 4096 * k)) else img_mem st a)\<rparr>)"
    using disk0_write_blks_spec [OF ok' m(4,2,1)] by (simp add: disk_base_def cong: if_cong)
  have nth: "take (4096 * m) b ! j = io_mem iob ! (io_base iob + j)" if "j < 4096 * m" for j
    using that m n by (simp add: b_def nth_append)
  have img: "(\<lambda>a. if disk_base st + 4096 * k \<le> a \<and> a < disk_base st + 4096 * k + 4096 * m
          then take (4096 * m) b ! (a - (disk_base st + 4096 * k)) else img_mem st a) =
      (\<lambda>a. if disk_base st + 4096 * k \<le> a \<and> a < disk_base st + 4096 * k + 4096 * m
           then io_mem iob ! (io_base iob + (a - (disk_base st + 4096 * k))) else img_mem st a)"
    by (rule ext) (rule if_cong [OF refl _ refl], rule nth, linarith)
  have a: "(4096 * m \<noteq> 0 \<and> 4096 * m \<le> 4096 * n \<and> 4096 * m mod DISK0_BLKSIZE = 0) = True"
    using m div by simp
  have "io_resid iob - 4096 * m = 4096 * (n - m)" using n by (simp add: diff_mult_distrib2)
  then show ?thesis
    using lenb unfolding disk0_write_step_def mv Let_def Option.bind.simps prod.case bind_kassert a div(1) wr if_True img
    by (intro exI [of _ b]) (simp only: simp_thms prod.case Option.bind.simps)
qed

lemma disk0_byte_updates [simp]:
  "disk_byte (st\<lparr>disk0_buffer := b\<rparr>) = disk_byte st"
  "disk_byte (st\<lparr>disk0_sem := v\<rparr>) = disk_byte st"
  "disk_base (st\<lparr>disk0_buffer := b\<rparr>) = disk_base st"
  "disk_base (st\<lparr>img_mem := m\<rparr>) = disk_base st"
  "disk_base (st\<lparr>disk0_sem := v\<rparr>) = disk_base st"
  by (simp_all add: disk_byte_def disk_base_def fun_eq_iff)

lemma map_upt_add: "map f [0..<a + b] = map f [0..<a] @ map (\<lambda>i. f (a + i)) [0..<b]"
  by (rule nth_equalityI) (auto simp: nth_append)

lemma blkno_wrap: "disk0_ok blocks st \<Longrightarrow> k \<le> blocks \<Longrightarrow> k < 2 ^ 32"
  by (simp add: disk0_ok_def disk_sizes)

lemma disk0_read_loop:
  assumes "disk0_ok blocks st" "k + n \<le> blocks" "io_resid iob = 4096 * n"
    "io_base iob + 4096 * n \<le> length (io_mem iob)"
  shows "\<exists>b. disk0_loop False (4096 * n) k st iob = Some (st\<lparr>disk0_buffer := b\<rparr>,
      iob\<lparr>io_mem := take (io_base iob) (io_mem iob) @ map (\<lambda>i. disk_byte st (4096 * k + i)) [0..<4096 * n]
            @ drop (io_base iob + 4096 * n) (io_mem iob),
          io_base := io_base iob + 4096 * n, io_offset := io_offset iob + 4096 * n, io_resid := 0\<rparr>)
      \<and> length b = DISK0_BUFSIZE"
  using assms
proof (induction n arbitrary: k st iob rule: less_induct)
  case (less n)
  show ?case
  proof (cases "n = 0")
    case True
    then show ?thesis using less.prems
      by (intro exI [of _ "disk0_buffer st"]) (subst disk0_loop.simps, simp add: disk0_ok_def)
  next
    case False
    define m where "m = min 4 n"
    have m: "0 < m" "m \<le> n" "n - m < n" using False by (simp_all add: m_def)
    let ?bytes = "\<lambda>k n. map (\<lambda>i. disk_byte st (4096 * k + i)) [0..<4096 * n]"
    define mem1 where "mem1 = take (io_base iob) (io_mem iob) @ ?bytes k m @ drop (io_base iob + 4096 * m) (io_mem iob)"
    define iob1 where "iob1 = iob\<lparr>io_mem := mem1,
      io_base := io_base iob + 4096 * m, io_offset := io_offset iob + 4096 * m, io_resid := 4096 * (n - m)\<rparr>"
    have n0: "0 < n" using False by simp
    obtain b where b: "disk0_read_step (4096 * n) k st iob = Some (st\<lparr>disk0_buffer := b\<rparr>, iob1, 4096 * m, m)"
        "length b = DISK0_BUFSIZE"
      using disk0_read_step_spec [OF less.prems(1) n0 less.prems(2,3,4), folded m_def, folded mem1_def, folded iob1_def]
      by (elim exE conjE) (rule that)
    have ok1: "disk0_ok blocks (st\<lparr>disk0_buffer := b\<rparr>)" by (rule disk0_ok_mono [OF b(2) less.prems(1)])
    have len1: "length mem1 = length (io_mem iob)" using less.prems(4) m by (simp add: mem1_def)
    have r1: "(k + m) + (n - m) \<le> blocks" "io_resid iob1 = 4096 * (n - m)"
        "io_base iob1 + 4096 * (n - m) \<le> length (io_mem iob1)"
      using less.prems m len1 by (simp_all add: iob1_def diff_mult_distrib2)
    obtain b2 where b2: "disk0_loop False (4096 * (n - m)) (k + m) (st\<lparr>disk0_buffer := b\<rparr>) iob1 =
        Some (st\<lparr>disk0_buffer := b2\<rparr>,
          iob1\<lparr>io_mem := take (io_base iob1) (io_mem iob1) @ ?bytes (k + m) (n - m)
              @ drop (io_base iob1 + 4096 * (n - m)) (io_mem iob1),
            io_base := io_base iob1 + 4096 * (n - m), io_offset := io_offset iob1 + 4096 * (n - m), io_resid := 0\<rparr>)"
        "length b2 = DISK0_BUFSIZE"
      using less.IH [OF m(3) ok1 r1] by auto
    have w: "k + m < 2 ^ 32" using blkno_wrap [OF less.prems(1)] less.prems(2) m by simp
    have sub: "4096 * n - 4096 * m = 4096 * (n - m)" by (simp add: diff_mult_distrib2)
    have add: "a + 4096 * m + 4096 * (n - m) = a + 4096 * n" for a using m by (simp flip: sub)
    have loop: "disk0_loop False (4096 * n) k st iob = disk0_loop False (4096 * (n - m)) (k + m) (st\<lparr>disk0_buffer := b\<rparr>) iob1"
      using False w by (subst disk0_loop.simps) (simp add: b(1) sub)
    have split: "?bytes k n = ?bytes k m @ ?bytes (k + m) (n - m)"
    proof -
      have "4096 * n = 4096 * m + 4096 * (n - m)" using m by (simp flip: sub)
      then show ?thesis by (simp only: map_upt_add) (simp add: algebra_simps)
    qed
    have "take (io_base iob1) mem1 = take (io_base iob) (io_mem iob) @ ?bytes k m"
      using less.prems(4) m by (simp add: iob1_def mem1_def)
    moreover have "drop (io_base iob1 + 4096 * (n - m)) mem1 = drop (io_base iob + 4096 * n) (io_mem iob)"
      using less.prems(4) m add [of "io_base iob"] by (simp add: iob1_def mem1_def add.commute)
    ultimately have "iob1\<lparr>io_mem := take (io_base iob1) (io_mem iob1) @ ?bytes (k + m) (n - m)
              @ drop (io_base iob1 + 4096 * (n - m)) (io_mem iob1),
            io_base := io_base iob1 + 4096 * (n - m), io_offset := io_offset iob1 + 4096 * (n - m), io_resid := 0\<rparr>
      = iob\<lparr>io_mem := take (io_base iob) (io_mem iob) @ ?bytes k n @ drop (io_base iob + 4096 * n) (io_mem iob),
          io_base := io_base iob + 4096 * n, io_offset := io_offset iob + 4096 * n, io_resid := 0\<rparr>"
      using add [of 0] unfolding split by (simp add: iob1_def add.assoc)
    then show ?thesis using loop b2 by auto
  qed
qed

lemma disk0_write_loop:
  assumes "disk0_ok blocks st" "k + n \<le> blocks" "io_resid iob = 4096 * n"
    "io_base iob + 4096 * n \<le> length (io_mem iob)"
  shows "\<exists>b. disk0_loop True (4096 * n) k st iob = Some (st\<lparr>disk0_buffer := b, img_mem :=
      (\<lambda>a. if disk_base st + 4096 * k \<le> a \<and> a < disk_base st + 4096 * k + 4096 * n
           then io_mem iob ! (io_base iob + (a - (disk_base st + 4096 * k))) else img_mem st a)\<rparr>,
      iob\<lparr>io_base := io_base iob + 4096 * n, io_offset := io_offset iob + 4096 * n, io_resid := 0\<rparr>)
      \<and> length b = DISK0_BUFSIZE"
  using assms
proof (induction n arbitrary: k st iob rule: less_induct)
  case (less n)
  show ?case
  proof (cases "n = 0")
    case True
    have "(\<lambda>a. if disk_base st + 4096 * k \<le> a \<and> a < disk_base st + 4096 * k
           then io_mem iob ! (io_base iob + (a - (disk_base st + 4096 * k))) else img_mem st a) = img_mem st"
      by (rule ext) (rule if_not_P, linarith)
    then show ?thesis using less.prems True
      by (intro exI [of _ "disk0_buffer st"]) (subst disk0_loop.simps, simp add: disk0_ok_def)
  next
    case False
    define m where "m = min 4 n"
    have m: "0 < m" "m \<le> n" "n - m < n" using False by (simp_all add: m_def)
    define img where "img = (\<lambda>a. if disk_base st + 4096 * k \<le> a \<and> a < disk_base st + 4096 * k + 4096 * m
           then io_mem iob ! (io_base iob + (a - (disk_base st + 4096 * k))) else img_mem st a)"
    define iob1 where "iob1 = iob\<lparr>
      io_base := io_base iob + 4096 * m, io_offset := io_offset iob + 4096 * m, io_resid := 4096 * (n - m)\<rparr>"
    have n0: "0 < n" using False by simp
    obtain b where b: "disk0_write_step (4096 * n) k st iob =
          Some (st\<lparr>disk0_buffer := b, img_mem := img\<rparr>, iob1, 4096 * m, m)"
        "length b = DISK0_BUFSIZE"
      using disk0_write_step_spec [OF less.prems(1) n0 less.prems(2,3,4), folded m_def, folded img_def, folded iob1_def]
      by (elim exE conjE) (rule that)
    let ?st1 = "st\<lparr>disk0_buffer := b, img_mem := img\<rparr>"
    have ok1: "disk0_ok blocks ?st1" using disk0_ok_mono [OF b(2) less.prems(1)] by simp
    have r1: "(k + m) + (n - m) \<le> blocks" "io_resid iob1 = 4096 * (n - m)"
        "io_base iob1 + 4096 * (n - m) \<le> length (io_mem iob1)"
      using less.prems m by (simp_all add: iob1_def diff_mult_distrib2)
    define img2 where "img2 = (\<lambda>a. if disk_base st + 4096 * (k + m) \<le> a \<and> a < disk_base st + 4096 * (k + m) + 4096 * (n - m)
           then io_mem iob1 ! (io_base iob1 + (a - (disk_base st + 4096 * (k + m)))) else img a)"
    obtain b2 where b2: "disk0_loop True (4096 * (n - m)) (k + m) ?st1 iob1 =
        Some (st\<lparr>disk0_buffer := b2, img_mem := img2\<rparr>,
          iob1\<lparr>io_base := io_base iob1 + 4096 * (n - m), io_offset := io_offset iob1 + 4096 * (n - m), io_resid := 0\<rparr>)"
        "length b2 = DISK0_BUFSIZE"
      using less.IH [OF m(3) ok1 r1] unfolding img2_def by (auto cong: if_cong)
    have w: "k + m < 2 ^ 32" using blkno_wrap [OF less.prems(1)] less.prems(2) m by simp
    have sub: "4096 * n - 4096 * m = 4096 * (n - m)" by (simp add: diff_mult_distrib2)
    have add: "a + 4096 * m + 4096 * (n - m) = a + 4096 * n" for a using m by (simp flip: sub)
    have loop: "disk0_loop True (4096 * n) k st iob = disk0_loop True (4096 * (n - m)) (k + m) ?st1 iob1"
      using False w by (subst disk0_loop.simps) (simp add: b(1) sub)
    have "img2 a = (if disk_base st + 4096 * k \<le> a \<and> a < disk_base st + 4096 * k + 4096 * n
           then io_mem iob ! (io_base iob + (a - (disk_base st + 4096 * k))) else img_mem st a)" for a
    proof (cases "disk_base st + 4096 * (k + m) \<le> a")
      case True
      have hi: "disk_base st + 4096 * (k + m) + 4096 * (n - m) = disk_base st + 4096 * k + 4096 * n"
        using add [of "disk_base st + 4096 * k"] by (simp add: algebra_simps)
      have ix: "io_base iob + 4096 * m + (a - (disk_base st + 4096 * (k + m))) =
          io_base iob + (a - (disk_base st + 4096 * k))" using True by simp
      show ?thesis using True unfolding img2_def img_def hi by (simp add: iob1_def ix)
    next
      case False
      then show ?thesis using m unfolding img2_def img_def by auto
    qed
    then have "img2 = (\<lambda>a. if disk_base st + 4096 * k \<le> a \<and> a < disk_base st + 4096 * k + 4096 * n
           then io_mem iob ! (io_base iob + (a - (disk_base st + 4096 * k))) else img_mem st a)" by blast
    moreover have "iob1\<lparr>io_base := io_base iob1 + 4096 * (n - m), io_offset := io_offset iob1 + 4096 * (n - m), io_resid := 0\<rparr>
      = iob\<lparr>io_base := io_base iob + 4096 * n, io_offset := io_offset iob + 4096 * n, io_resid := 0\<rparr>"
      using add by (simp add: iob1_def)
    ultimately show ?thesis using loop b2 by auto
  qed
qed

text \<open>The whole operation on \<open>n\<close> blocks from block \<open>k\<close>, as reads and writes of the bytes of the disk.\<close>

definition disk0_ready :: "nat \<Rightarrow> disk0 \<Rightarrow> bool" where
  "disk0_ready blocks st \<longleftrightarrow> disk0_ok blocks st \<and> disk0_sem st = 1"

definition at_block :: "nat \<Rightarrow> nat \<Rightarrow> iobuf \<Rightarrow> bool" where
  "at_block k n iob \<longleftrightarrow> io_offset iob = 4096 * k \<and> io_resid iob = 4096 * n \<and>
     io_base iob + 4096 * n \<le> length (io_mem iob)"

definition iob_done :: "iobuf \<Rightarrow> iobuf" where
  "iob_done iob = iob\<lparr>io_base := io_base iob + io_resid iob, io_offset := io_offset iob + io_resid iob, io_resid := 0\<rparr>"

lemma disk0_io_range:
  assumes ok: "disk0_ready blocks st" and at: "at_block k n iob" and n: "0 < n" "k + n \<le> blocks"
  shows "disk0_io blocks st iob write = do {
        (st, iob) \<leftarrow> disk0_loop write (4096 * n) k (st\<lparr>disk0_sem := 0\<rparr>) iob;
        Some (0, unlock_disk0 st, iob)
      }"
proof -
  have "blocks < 2 ^ 32" using ok by (simp add: disk0_ready_def disk0_ok_def disk_sizes)
  then have w: "k < 2 ^ 32" "n < 2 ^ 32" "k + n < 2 ^ 32" using n by simp_all
  have l: "lock_disk0 st = Some (st\<lparr>disk0_sem := 0\<rparr>)"
    using ok by (simp add: disk0_ready_def lock_disk0_def sem_down_def)
  show ?thesis
    using at n w unfolding disk0_io_def Let_def by (simp add: at_block_def disk_sizes l)
qed

lemma disk0_io_read:
  assumes ok: "disk0_ready blocks st" and at: "at_block k n iob" and n: "0 < n" "k + n \<le> blocks"
  obtains st' where "disk0_io blocks st iob False = Some (0, st', (iob_done iob)\<lparr>io_mem :=
      take (io_base iob) (io_mem iob) @ map (\<lambda>i. disk_byte st (4096 * k + i)) [0..<4096 * n]
            @ drop (io_base iob + 4096 * n) (io_mem iob)\<rparr>)"
    "disk0_ready blocks st'" "disk_byte st' = disk_byte st"
proof -
  have ok0: "disk0_ok blocks (st\<lparr>disk0_sem := 0\<rparr>)" using ok by (simp add: disk0_ready_def)
  have a: "io_resid iob = 4096 * n" "io_base iob + 4096 * n \<le> length (io_mem iob)"
    using at by (simp_all add: at_block_def)
  obtain b where b: "disk0_loop False (4096 * n) k (st\<lparr>disk0_sem := 0\<rparr>) iob = Some (st\<lparr>disk0_sem := 0, disk0_buffer := b\<rparr>,
      iob\<lparr>io_mem := take (io_base iob) (io_mem iob) @ map (\<lambda>i. disk_byte st (4096 * k + i)) [0..<4096 * n]
            @ drop (io_base iob + 4096 * n) (io_mem iob),
          io_base := io_base iob + 4096 * n, io_offset := io_offset iob + 4096 * n, io_resid := 0\<rparr>)"
      "length b = DISK0_BUFSIZE"
    using disk0_read_loop [OF ok0 n(2) a] by auto
  let ?st = "unlock_disk0 (st\<lparr>disk0_sem := 0, disk0_buffer := b\<rparr>)"
  show thesis
  proof (rule that [of ?st])
    show "disk0_ready blocks ?st" using disk0_ok_mono [OF b(2)] ok
      by (simp add: disk0_ready_def unlock_disk0_def sem_up_def)
    show "disk_byte ?st = disk_byte st" by (simp add: unlock_disk0_def)
  qed (simp add: disk0_io_range [OF ok at n] b(1) iob_done_def a)
qed

lemma disk0_io_write:
  assumes ok: "disk0_ready blocks st" and at: "at_block k n iob" and n: "0 < n" "k + n \<le> blocks"
  obtains st' where "disk0_io blocks st iob True = Some (0, st', iob_done iob)" "disk0_ready blocks st'"
    "\<forall>i. disk_byte st' i = (if 4096 * k \<le> i \<and> i < 4096 * k + 4096 * n
        then io_mem iob ! (io_base iob + (i - 4096 * k)) else disk_byte st i)"
proof -
  have ok0: "disk0_ok blocks (st\<lparr>disk0_sem := 0\<rparr>)" using ok by (simp add: disk0_ready_def)
  have a: "io_resid iob = 4096 * n" "io_base iob + 4096 * n \<le> length (io_mem iob)"
    using at by (simp_all add: at_block_def)
  define img where "img = (\<lambda>a. if disk_base st + 4096 * k \<le> a \<and> a < disk_base st + 4096 * k + 4096 * n
           then io_mem iob ! (io_base iob + (a - (disk_base st + 4096 * k))) else img_mem st a)"
  obtain b where b: "disk0_loop True (4096 * n) k (st\<lparr>disk0_sem := 0\<rparr>) iob =
      Some (st\<lparr>disk0_sem := 0, disk0_buffer := b, img_mem := img\<rparr>,
      iob\<lparr>io_base := io_base iob + 4096 * n, io_offset := io_offset iob + 4096 * n, io_resid := 0\<rparr>)"
      "length b = DISK0_BUFSIZE"
    using disk0_write_loop [OF ok0 n(2) a] unfolding img_def by (auto cong: if_cong)
  let ?st = "unlock_disk0 (st\<lparr>disk0_sem := 0, disk0_buffer := b, img_mem := img\<rparr>)"
  show thesis
  proof (rule that [of ?st])
    show "disk0_ready blocks ?st" using disk0_ok_mono [OF b(2)] ok
      by (simp add: disk0_ready_def unlock_disk0_def sem_up_def)
    show "\<forall>i. disk_byte ?st i = (if 4096 * k \<le> i \<and> i < 4096 * k + 4096 * n
        then io_mem iob ! (io_base iob + (i - 4096 * k)) else disk_byte st i)"
      by (auto simp: unlock_disk0_def disk_byte_def img_def disk_base_def)
  qed (simp add: disk0_io_range [OF ok at n] b(1) iob_done_def a)
qed

lemma disk0_io_rejects:
  assumes "io_offset iob mod 4096 \<noteq> 0 \<or> io_resid iob mod 4096 \<noteq> 0 \<or>
      blocks < (io_offset iob div 4096 + io_resid iob div 4096) mod 2 ^ 32"
  shows "disk0_io blocks st iob write = Some (- E_INVAL, st, iob)"
  using assms by (auto simp: disk0_io_def Let_def DISK0_BLKSIZE_def mod_simps)

section \<open>The contract of a block device\<close>

definition block_at :: "('d \<Rightarrow> nat \<Rightarrow> byte) \<Rightarrow> 'd \<Rightarrow> nat \<Rightarrow> byte list" where
  "block_at byte_at st k = map (\<lambda>i. byte_at st (4096 * k + i)) [0..<4096]"

lemma length_block_at [simp]: "length (block_at byte_at st k) = 4096"
  by (simp add: block_at_def)

lemma nth_block_at: "i < 4096 \<Longrightarrow> block_at byte_at st k ! i = byte_at st (4096 * k + i)"
  by (simp add: block_at_def)

lemma block_at_cong: "byte_at st' = byte_at st \<Longrightarrow> block_at byte_at st' = block_at byte_at st"
  by (simp add: block_at_def fun_eq_iff)

text \<open>
  What the file system relies on: a device is an array of bytes; a transfer of whole blocks
  inside the device succeeds, a read leaves the bytes alone and fills the buffer with them, a
  write replaces exactly the bytes of the blocks.
\<close>

locale block_device =
  fixes io :: "nat \<Rightarrow> 'd \<Rightarrow> iobuf \<Rightarrow> bool \<Rightarrow> (int \<times> 'd \<times> iobuf) option"
    and ready :: "nat \<Rightarrow> 'd \<Rightarrow> bool" and byte_at :: "'d \<Rightarrow> nat \<Rightarrow> byte"
  assumes io_read: "ready blocks st \<Longrightarrow> at_block k n iob \<Longrightarrow> 0 < n \<Longrightarrow> k + n \<le> blocks \<Longrightarrow>
      \<exists>st'. io blocks st iob False = Some (0, st', (iob_done iob)\<lparr>io_mem :=
          take (io_base iob) (io_mem iob) @ map (\<lambda>i. byte_at st (4096 * k + i)) [0..<4096 * n]
            @ drop (io_base iob + 4096 * n) (io_mem iob)\<rparr>) \<and> ready blocks st' \<and> byte_at st' = byte_at st"
    and io_write: "ready blocks st \<Longrightarrow> at_block k n iob \<Longrightarrow> 0 < n \<Longrightarrow> k + n \<le> blocks \<Longrightarrow>
      \<exists>st'. io blocks st iob True = Some (0, st', iob_done iob) \<and> ready blocks st' \<and>
        (\<forall>i. byte_at st' i = (if 4096 * k \<le> i \<and> i < 4096 * k + 4096 * n
           then io_mem iob ! (io_base iob + (i - 4096 * k)) else byte_at st i))"
begin

text \<open>The transfers that the file system makes: one block, through the front of a buffer.\<close>

lemma read_block:
  assumes "ready blocks st" "k < blocks" "base + 4096 \<le> length mem"
  obtains st' where "io blocks st (iobuf_init mem base 4096 (4096 * k)) False =
      Some (0, st', (iob_done (iobuf_init mem base 4096 (4096 * k)))\<lparr>io_mem :=
        take base mem @ block_at byte_at st k @ drop (base + 4096) mem\<rparr>)"
    "ready blocks st'" "block_at byte_at st' = block_at byte_at st"
proof -
  have at: "at_block k 1 (iobuf_init mem base 4096 (4096 * k))"
    using assms(3) by (simp add: at_block_def iobuf_init_def)
  obtain st' where "io blocks st (iobuf_init mem base 4096 (4096 * k)) False =
      Some (0, st', (iob_done (iobuf_init mem base 4096 (4096 * k)))\<lparr>io_mem :=
        take base mem @ block_at byte_at st k @ drop (base + 4096) mem\<rparr>)"
    "ready blocks st'" "byte_at st' = byte_at st"
    using io_read [OF assms(1) at] assms(2) by (auto simp: iobuf_init_def block_at_def)
  then show thesis by (rule that [OF _ _ block_at_cong])
qed

lemma write_block:
  assumes "ready blocks st" "k < blocks" "base + 4096 \<le> length mem"
  obtains st' where "io blocks st (iobuf_init mem base 4096 (4096 * k)) True =
      Some (0, st', iob_done (iobuf_init mem base 4096 (4096 * k)))"
    "ready blocks st'" "block_at byte_at st' = (block_at byte_at st)(k := take 4096 (drop base mem))"
proof -
  have at: "at_block k 1 (iobuf_init mem base 4096 (4096 * k))"
    using assms(3) by (simp add: at_block_def iobuf_init_def)
  obtain st' where st': "io blocks st (iobuf_init mem base 4096 (4096 * k)) True =
      Some (0, st', iob_done (iobuf_init mem base 4096 (4096 * k)))"
    "ready blocks st'"
    "\<forall>i. byte_at st' i = (if 4096 * k \<le> i \<and> i < 4096 * k + 4096
           then mem ! (base + (i - 4096 * k)) else byte_at st i)"
    using io_write [OF assms(1) at] assms(2) by (auto simp: iobuf_init_def)
  have "block_at byte_at st' j = ((block_at byte_at st)(k := take 4096 (drop base mem))) j" for j
  proof (cases "j = k")
    case True
    then show ?thesis using st'(3) assms(3) by (auto intro!: nth_equalityI simp: nth_block_at)
  next
    case False
    have "\<not> (4096 * k \<le> 4096 * j + i \<and> 4096 * j + i < 4096 * k + 4096)" if "i < 4096" for i
    proof (cases "j < k")
      case True then show ?thesis using that by linarith
    next
      case False then show ?thesis using \<open>j \<noteq> k\<close> that by linarith
    qed
    then show ?thesis using False st'(3) by (auto intro!: nth_equalityI simp: nth_block_at)
  qed
  then have eq: "block_at byte_at st' = (block_at byte_at st)(k := take 4096 (drop base mem))" by blast
  show thesis by (rule that [OF st'(1,2) eq])
qed

end

interpretation d0: block_device disk0_io disk0_ready disk_byte
proof unfold_locales
  fix blocks st k n iob
  assume a: "disk0_ready blocks st" "at_block k n iob" "0 < n" "k + n \<le> blocks"
  show "\<exists>st'. disk0_io blocks st iob False = Some (0, st', (iob_done iob)\<lparr>io_mem :=
          take (io_base iob) (io_mem iob) @ map (\<lambda>i. disk_byte st (4096 * k + i)) [0..<4096 * n]
            @ drop (io_base iob + 4096 * n) (io_mem iob)\<rparr>) \<and> disk0_ready blocks st' \<and> disk_byte st' = disk_byte st"
    by (rule disk0_io_read [OF a]) blast
  show "\<exists>st'. disk0_io blocks st iob True = Some (0, st', iob_done iob) \<and> disk0_ready blocks st' \<and>
        (\<forall>i. disk_byte st' i = (if 4096 * k \<le> i \<and> i < 4096 * k + 4096 * n
           then io_mem iob ! (io_base iob + (i - 4096 * k)) else disk_byte st i))"
    by (rule disk0_io_write [OF a]) blast
qed

section \<open>Properties\<close>

text \<open>
  C30: A transfer of \<open>n > 0\<close> whole blocks inside the device through \<open>disk0_io\<close>, which moves at most
  four blocks per round through its buffer, always ends with 0. Writing puts the buffer's
  bytes on the disk and touches no other byte, and reading the same blocks afterwards into any
  buffer gives the written bytes back. Transfers that are not aligned or that leave the device
  are refused with \<open>-E_INVAL\<close> and change nothing.
\<close>

theorem disk0_io_write_read:
  assumes "disk0_ready blocks st" "at_block k n iob" "at_block k n iob2" "0 < n" "k + n \<le> blocks"
  shows "\<exists>st' iob' st2 iob2'. disk0_io blocks st iob True = Some (0, st', iob') \<and> io_resid iob' = 0 \<and>
    (\<forall>i. i < 4096 * k \<or> 4096 * (k + n) \<le> i \<longrightarrow> disk_byte st' i = disk_byte st i) \<and>
    disk0_io blocks st' iob2 False = Some (0, st2, iob2') \<and>
    take (4096 * n) (drop (io_base iob2) (io_mem iob2')) = take (4096 * n) (drop (io_base iob) (io_mem iob)) \<and>
    disk0_io blocks st (iob\<lparr>io_offset := 4096 * k + 1\<rparr>) True = Some (- E_INVAL, st, iob\<lparr>io_offset := 4096 * k + 1\<rparr>) \<and>
    (blocks < 2 ^ 31 \<longrightarrow> disk0_io blocks st (iob\<lparr>io_offset := 4096 * (blocks - n + 1)\<rparr>) False =
       Some (- E_INVAL, st, iob\<lparr>io_offset := 4096 * (blocks - n + 1)\<rparr>))"
proof -
  obtain st' where w: "disk0_io blocks st iob True = Some (0, st', iob_done iob)" "disk0_ready blocks st'"
    "\<forall>i. disk_byte st' i = (if 4096 * k \<le> i \<and> i < 4096 * k + 4096 * n
        then io_mem iob ! (io_base iob + (i - 4096 * k)) else disk_byte st i)"
    using disk0_io_write [OF assms(1,2,4,5)] by blast
  obtain st2 where r: "disk0_io blocks st' iob2 False = Some (0, st2, (iob_done iob2)\<lparr>io_mem :=
      take (io_base iob2) (io_mem iob2) @ map (\<lambda>i. disk_byte st' (4096 * k + i)) [0..<4096 * n]
            @ drop (io_base iob2 + 4096 * n) (io_mem iob2)\<rparr>)"
    using disk0_io_read [OF w(2) assms(3,4,5)] by blast
  have len: "io_base iob + 4096 * n \<le> length (io_mem iob)" "io_base iob2 + 4096 * n \<le> length (io_mem iob2)"
    using assms(2,3) by (simp_all add: at_block_def)
  have bytes: "map (\<lambda>i. disk_byte st' (4096 * k + i)) [0..<4096 * n] = take (4096 * n) (drop (io_base iob) (io_mem iob))"
    using w(3) len by (intro nth_equalityI) auto
  have e1: "disk0_io blocks st (iob\<lparr>io_offset := 4096 * k + 1\<rparr>) True = Some (- E_INVAL, st, iob\<lparr>io_offset := 4096 * k + 1\<rparr>)"
  proof (rule disk0_io_rejects)
    have "(1 + 4096 * k) mod 4096 = (1 :: nat)" by (subst mod_mult_self2) simp
    then show "io_offset (iob\<lparr>io_offset := 4096 * k + 1\<rparr>) mod 4096 \<noteq> 0 \<or>
      io_resid (iob\<lparr>io_offset := 4096 * k + 1\<rparr>) mod 4096 \<noteq> 0 \<or>
      blocks < (io_offset (iob\<lparr>io_offset := 4096 * k + 1\<rparr>) div 4096 +
        io_resid (iob\<lparr>io_offset := 4096 * k + 1\<rparr>) div 4096) mod 2 ^ 32"
      by (simp add: add.commute)
  qed
  have e2: "disk0_io blocks st (iob\<lparr>io_offset := 4096 * (blocks - n + 1)\<rparr>) False =
       Some (- E_INVAL, st, iob\<lparr>io_offset := 4096 * (blocks - n + 1)\<rparr>)" if "blocks < 2 ^ 31"
    by (rule disk0_io_rejects) (use assms that in \<open>simp add: at_block_def\<close>)
  show ?thesis
    using w r bytes e1 e2 len
    by (intro exI [of _ st'] exI [of _ "iob_done iob"] exI [of _ st2] exI conjI impI allI)
      (auto simp: iob_done_def)
qed

definition example_disk :: disk0 where
  "example_disk = \<lparr>ide_devices = (\<lambda>_. \<lparr>ide_valid = True, ide_size = 16000, ide_iobase = 100\<rparr>),
      img_mem = (\<lambda>_. 0), disk0_buffer = replicate 16384 0, disk0_sem = 1\<rparr>"

lemma example_disk_ready: "blocks \<le> 2000 \<Longrightarrow> disk0_ready blocks example_disk"
  by (simp add: disk0_ready_def disk0_ok_def example_disk_def VALID_IDE_def MAX_IDE_def DISK0_DEV_NO_def disk_sizes)

theorem disk0_io_write_read_witness:
  "\<exists>st' iob'. disk0_io 10 example_disk (iobuf_init (replicate 24576 7) 0 (4096 * 6) (4096 * 3)) True =
     Some (0, st', iob') \<and> io_resid iob' = 0"
proof -
  have at: "at_block 3 6 (iobuf_init (replicate 24576 7) 0 (4096 * 6) (4096 * 3))"
    by (simp add: at_block_def iobuf_init_def)
  have "disk0_ready 10 example_disk" by (rule example_disk_ready) simp
  then show ?thesis using disk0_io_write_read [OF _ at at, of 10 example_disk] by auto
qed
end
