(* ===== verification/Sfs.thy ===== *)
theory Sfs
imports Bitmap Disk
begin

text \<open>
  The simple file system of \<open>kern/fs/sfs\<close>: the block I/O of \<open>sfs_io.c\<close> and the operations of
  \<open>sfs_inode.c\<close> that allocate blocks, map the blocks of a file and read, write and resize it.

  Block numbers, sizes and counters are natural numbers; where the code computes with them in
  32 or 64 bits and the result may not fit, the wrap-around is written out. The semaphores
  \<open>io_sem\<close> and \<open>sem\<close> guard critical sections and are counters (\<open>Disk.sem_down\<close>). An out
  parameter that a failing call leaves alone is an \<open>option\<close>.
\<close>

section \<open>On-disk data\<close>

definition SFS_MAGIC :: nat where "SFS_MAGIC = 0x2f8dbe2a"
definition SFS_BLKSIZE :: nat where "SFS_BLKSIZE = 4096"
definition SFS_NDIRECT :: nat where "SFS_NDIRECT = 12"
definition SFS_BLKBITS :: nat where "SFS_BLKBITS = SFS_BLKSIZE * 8"
definition SFS_BLK_NENTRY :: nat where "SFS_BLK_NENTRY = SFS_BLKSIZE div 4"
definition SFS_MAX_FILE_SIZE :: nat where "SFS_MAX_FILE_SIZE = 1024 * 1024 * 128"
definition SFS_BLKN_SUPER :: nat where "SFS_BLKN_SUPER = 0"
definition SFS_BLKN_ROOT :: nat where "SFS_BLKN_ROOT = 1"
definition SFS_BLKN_FREEMAP :: nat where "SFS_BLKN_FREEMAP = 2"
definition SFS_TYPE_FILE :: nat where "SFS_TYPE_FILE = 1"
definition SFS_TYPE_DIR :: nat where "SFS_TYPE_DIR = 2"
definition SFS_TYPE_LINK :: nat where "SFS_TYPE_LINK = 3"

lemmas sfs_sizes = SFS_BLKSIZE_def SFS_NDIRECT_def SFS_BLKBITS_def SFS_BLK_NENTRY_def SFS_MAX_FILE_SIZE_def
  SFS_BLKN_SUPER_def SFS_BLKN_ROOT_def SFS_BLKN_FREEMAP_def

text \<open>Numbers lie on the disk in little-endian order.\<close>

definition le_bytes :: "nat \<Rightarrow> nat \<Rightarrow> byte list" where
  "le_bytes n x = map (\<lambda>i. of_nat (x div 256 ^ i)) [0..<n]"

fun of_le :: "byte list \<Rightarrow> nat" where
  "of_le [] = 0"
| "of_le (b # bs) = unat b + 256 * of_le bs"

record sfs_super =
  s_magic :: nat
  s_blocks :: nat
  s_unused :: nat
  s_info :: "byte list"

record sfs_disk_inode =
  di_size :: nat
  di_type :: nat
  di_nlinks :: nat
  di_blocks :: nat
  di_direct :: "nat list"
  di_indirect :: nat

record sfs_inode =
  din :: sfs_disk_inode
  sin_ino :: nat
  sin_dirty :: bool
  reclaim_count :: int
  sin_sem :: int

record 'd sfs_fs =
  super :: sfs_super
  fs_dev :: "'d device"
  freemap :: bitmap
  super_dirty :: bool
  sfs_buffer :: "byte list"
  fs_sem :: int
  io_sem :: int
  mutex_sem :: int

definition super_bytes :: "sfs_super \<Rightarrow> byte list" where
  "super_bytes s = le_bytes 4 (s_magic s) @ le_bytes 4 (s_blocks s) @ le_bytes 4 (s_unused s) @ s_info s"

definition din_bytes :: "sfs_disk_inode \<Rightarrow> byte list" where
  "din_bytes d = le_bytes 4 (di_size d) @ le_bytes 2 (di_type d) @ le_bytes 2 (di_nlinks d) @
     le_bytes 4 (di_blocks d) @ concat (map (le_bytes 4) (di_direct d)) @ le_bytes 4 (di_indirect d)"

definition field_at :: "nat \<Rightarrow> nat \<Rightarrow> byte list \<Rightarrow> nat" where
  "field_at off n bs = of_le (take n (drop off bs))"

definition din_of_bytes :: "byte list \<Rightarrow> sfs_disk_inode" where
  "din_of_bytes bs = \<lparr>di_size = field_at 0 4 bs, di_type = field_at 4 2 bs, di_nlinks = field_at 6 2 bs,
     di_blocks = field_at 8 4 bs, di_direct = map (\<lambda>i. field_at (12 + 4 * i) 4 bs) [0..<SFS_NDIRECT],
     di_indirect = field_at (12 + 4 * SFS_NDIRECT) 4 bs\<rparr>"

definition sfs_freemap_blocks :: "sfs_super \<Rightarrow> nat" where
  "sfs_freemap_blocks s = (s_blocks s + SFS_BLKBITS - 1) div SFS_BLKBITS"

definition sfs_freemap_bits :: "sfs_super \<Rightarrow> nat" where
  "sfs_freemap_bits s = ((s_blocks s + SFS_BLKBITS - 1) div SFS_BLKBITS * SFS_BLKBITS) mod 2 ^ 32"

section \<open>Block I/O (sfs_io.c)\<close>

definition lock_sfs_io :: "('d, 'z) sfs_fs_scheme \<Rightarrow> ('d, 'z) sfs_fs_scheme option" where
  "lock_sfs_io sfs = do { v \<leftarrow> sem_down (io_sem sfs); Some (sfs\<lparr>io_sem := v\<rparr>) }"

definition unlock_sfs_io :: "('d, 'z) sfs_fs_scheme \<Rightarrow> ('d, 'z) sfs_fs_scheme" where
  "unlock_sfs_io sfs = sfs\<lparr>io_sem := sem_up (io_sem sfs)\<rparr>"

text \<open>The buffer is the memory \<open>mem\<close> from index \<open>base\<close>. The product is computed in 32 bits.\<close>

definition sfs_rwblock_nolock ::
    "('d, 'z) sfs_fs_scheme \<Rightarrow> byte list \<Rightarrow> nat \<Rightarrow> nat \<Rightarrow> bool \<Rightarrow> bool \<Rightarrow> (int \<times> ('d, 'z) sfs_fs_scheme \<times> byte list) option" where
  "sfs_rwblock_nolock sfs mem base blkno write check = do {
     kassert ((blkno \<noteq> 0 \<or> \<not> check) \<and> blkno < s_blocks (super sfs));
     let iob = iobuf_init mem base SFS_BLKSIZE ((blkno * SFS_BLKSIZE) mod 2 ^ 32);
     (ret, dev, iob) \<leftarrow> dop_io (fs_dev sfs) iob write;
     Some (ret, sfs\<lparr>fs_dev := dev\<rparr>, io_mem iob)
   }"

fun sfs_rwblock_loop ::
    "('d, 'z) sfs_fs_scheme \<Rightarrow> byte list \<Rightarrow> nat \<Rightarrow> nat \<Rightarrow> nat \<Rightarrow> bool \<Rightarrow> (int \<times> ('d, 'z) sfs_fs_scheme \<times> byte list) option" where
  "sfs_rwblock_loop sfs mem base blkno 0 write = Some (0, sfs, mem)"
| "sfs_rwblock_loop sfs mem base blkno (Suc nblks) write = do {
     (ret, sfs, mem) \<leftarrow> sfs_rwblock_nolock sfs mem base blkno write True;
     (if ret \<noteq> 0 then Some (ret, sfs, mem)
      else sfs_rwblock_loop sfs mem (base + SFS_BLKSIZE) ((blkno + 1) mod 2 ^ 32) nblks write)
   }"

definition sfs_rwblock ::
    "('d, 'z) sfs_fs_scheme \<Rightarrow> byte list \<Rightarrow> nat \<Rightarrow> nat \<Rightarrow> nat \<Rightarrow> bool \<Rightarrow> (int \<times> ('d, 'z) sfs_fs_scheme \<times> byte list) option" where
  "sfs_rwblock sfs mem base blkno nblks write = do {
     sfs \<leftarrow> lock_sfs_io sfs;
     (ret, sfs, mem) \<leftarrow> sfs_rwblock_loop sfs mem base blkno nblks write;
     Some (ret, unlock_sfs_io sfs, mem)
   }"

definition sfs_rblock where
  "sfs_rblock sfs mem base blkno nblks = sfs_rwblock sfs mem base blkno nblks False"

definition sfs_wblock where
  "sfs_wblock sfs mem base blkno nblks = sfs_rwblock sfs mem base blkno nblks True"

text \<open>The two transfers of a part of a block go through \<open>sfs_buffer\<close>. \<open>sfs_wbuf\<close> leaves \<open>mem\<close> alone.\<close>

definition sfs_rbuf ::
    "('d, 'z) sfs_fs_scheme \<Rightarrow> byte list \<Rightarrow> nat \<Rightarrow> nat \<Rightarrow> nat \<Rightarrow> nat \<Rightarrow> (int \<times> ('d, 'z) sfs_fs_scheme \<times> byte list) option" where
  "sfs_rbuf sfs mem base len blkno offset = do {
     kassert (offset < SFS_BLKSIZE \<and> offset + len \<le> SFS_BLKSIZE);
     sfs \<leftarrow> lock_sfs_io sfs;
     (ret, sfs, buf) \<leftarrow> sfs_rwblock_nolock sfs (sfs_buffer sfs) 0 blkno False True;
     let sfs = sfs\<lparr>sfs_buffer := buf\<rparr>;
     mem \<leftarrow> (if ret = 0 then do { bs \<leftarrow> mem_get offset len buf; mem_put base bs mem } else Some mem);
     Some (ret, unlock_sfs_io sfs, mem)
   }"

definition sfs_wbuf ::
    "('d, 'z) sfs_fs_scheme \<Rightarrow> byte list \<Rightarrow> nat \<Rightarrow> nat \<Rightarrow> nat \<Rightarrow> nat \<Rightarrow> (int \<times> ('d, 'z) sfs_fs_scheme \<times> byte list) option" where
  "sfs_wbuf sfs mem base len blkno offset = do {
     kassert (offset < SFS_BLKSIZE \<and> offset + len \<le> SFS_BLKSIZE);
     sfs \<leftarrow> lock_sfs_io sfs;
     (ret, sfs, buf) \<leftarrow> sfs_rwblock_nolock sfs (sfs_buffer sfs) 0 blkno False True;
     (ret, sfs) \<leftarrow>
       (if ret = 0
        then do {
          bs \<leftarrow> mem_get base len mem;
          buf \<leftarrow> mem_put offset bs buf;
          (ret, sfs, buf) \<leftarrow> sfs_rwblock_nolock sfs buf 0 blkno True True;
          Some (ret, sfs\<lparr>sfs_buffer := buf\<rparr>)
        }
        else Some (ret, sfs\<lparr>sfs_buffer := buf\<rparr>));
     Some (ret, unlock_sfs_io sfs, mem)
   }"

definition sfs_sync_super :: "('d, 'z) sfs_fs_scheme \<Rightarrow> (int \<times> ('d, 'z) sfs_fs_scheme) option" where
  "sfs_sync_super sfs = do {
     sfs \<leftarrow> lock_sfs_io sfs;
     let buf = replicate SFS_BLKSIZE 0;
     buf \<leftarrow> mem_put 0 (super_bytes (super sfs)) buf;
     (ret, sfs, buf) \<leftarrow> sfs_rwblock_nolock sfs buf 0 SFS_BLKN_SUPER True False;
     Some (ret, unlock_sfs_io (sfs\<lparr>sfs_buffer := buf\<rparr>))
   }"

definition freemap_bytes :: "bitmap \<Rightarrow> byte list" where
  "freemap_bytes bm = concat (map (\<lambda>w. le_bytes 4 (unat w)) (fst (bitmap_getdata bm)))"

definition sfs_sync_freemap :: "('d, 'z) sfs_fs_scheme \<Rightarrow> (int \<times> ('d, 'z) sfs_fs_scheme) option" where
  "sfs_sync_freemap sfs = do {
     (ret, sfs, mem) \<leftarrow>
       sfs_wblock sfs (freemap_bytes (freemap sfs)) 0 SFS_BLKN_FREEMAP (sfs_freemap_blocks (super sfs));
     Some (ret, sfs)
   }"

text \<open>With \<open>nblks = 0\<close> the code returns an uninitialised value; no caller passes 0.\<close>

fun sfs_clear_loop :: "('d, 'z) sfs_fs_scheme \<Rightarrow> nat \<Rightarrow> nat \<Rightarrow> (int \<times> ('d, 'z) sfs_fs_scheme) option" where
  "sfs_clear_loop sfs blkno 0 = Some (0, sfs)"
| "sfs_clear_loop sfs blkno (Suc nblks) = do {
     (ret, sfs, buf) \<leftarrow> sfs_rwblock_nolock sfs (sfs_buffer sfs) 0 blkno True True;
     let sfs = sfs\<lparr>sfs_buffer := buf\<rparr>;
     (if ret \<noteq> 0 then Some (ret, sfs) else sfs_clear_loop sfs ((blkno + 1) mod 2 ^ 32) nblks)
   }"

definition sfs_clear_block :: "('d, 'z) sfs_fs_scheme \<Rightarrow> nat \<Rightarrow> nat \<Rightarrow> (int \<times> ('d, 'z) sfs_fs_scheme) option" where
  "sfs_clear_block sfs blkno nblks = do {
     sfs \<leftarrow> lock_sfs_io sfs;
     let sfs = sfs\<lparr>sfs_buffer := replicate SFS_BLKSIZE 0\<rparr>;
     (ret, sfs) \<leftarrow> sfs_clear_loop sfs blkno nblks;
     Some (ret, unlock_sfs_io sfs)
   }"

section \<open>Allocation of blocks (sfs_inode.c)\<close>

definition sfs_block_inuse :: "('d, 'z) sfs_fs_scheme \<Rightarrow> nat \<Rightarrow> bool option" where
  "sfs_block_inuse sfs ino =
    (if ino \<noteq> 0 \<and> ino < s_blocks (super sfs)
     then do { b \<leftarrow> bitmap_test (freemap sfs) ino; Some (\<not> b) }
     else None)"

definition sfs_block_alloc :: "('d, 'z) sfs_fs_scheme \<Rightarrow> (int \<times> ('d, 'z) sfs_fs_scheme \<times> nat option) option" where
  "sfs_block_alloc sfs = do {
     (fm, ret, ix) \<leftarrow> bitmap_alloc (freemap sfs);
     let sfs = sfs\<lparr>freemap := fm\<rparr>;
     (case ix of
        None \<Rightarrow> Some (ret, sfs, None)
      | Some ino \<Rightarrow> do {
          kassert (s_unused (super sfs) > 0);
          let sfs = sfs\<lparr>super := (super sfs)\<lparr>s_unused := s_unused (super sfs) - 1\<rparr>, super_dirty := True\<rparr>;
          used \<leftarrow> sfs_block_inuse sfs ino;
          kassert used;
          (ret, sfs) \<leftarrow> sfs_clear_block sfs ino 1;
          Some (ret, sfs, Some ino)
        })
   }"

definition sfs_block_free :: "('d, 'z) sfs_fs_scheme \<Rightarrow> nat \<Rightarrow> ('d, 'z) sfs_fs_scheme option" where
  "sfs_block_free sfs ino = do {
     used \<leftarrow> sfs_block_inuse sfs ino;
     kassert used;
     fm \<leftarrow> bitmap_free (freemap sfs) ino;
     Some (sfs\<lparr>freemap := fm, super := (super sfs)\<lparr>s_unused := (s_unused (super sfs) + 1) mod 2 ^ 32\<rparr>,
               super_dirty := True\<rparr>)
   }"

section \<open>The block map of a file\<close>

text \<open>Lines 225 to 244 of \<open>sfs_bmap_get_sub_nolock\<close>: a new block is entered in the indirect block
  \<open>ent\<close>, which is given back when it is new itself and the operation fails.\<close>

definition bmap_sub_cleanup :: "int \<Rightarrow> ('d, 'z) sfs_fs_scheme \<Rightarrow> nat \<Rightarrow> nat \<Rightarrow>
    (int \<times> ('d, 'z) sfs_fs_scheme \<times> nat \<times> nat option) option" where
  "bmap_sub_cleanup ret sfs entp ent = do {
     sfs \<leftarrow> (if ent \<noteq> entp then sfs_block_free sfs ent else Some sfs);
     Some (ret, sfs, entp, None)
   }"

definition bmap_sub_create :: "('d, 'z) sfs_fs_scheme \<Rightarrow> nat \<Rightarrow> nat \<Rightarrow> nat \<Rightarrow>
    (int \<times> ('d, 'z) sfs_fs_scheme \<times> nat \<times> nat option) option" where
  "bmap_sub_create sfs entp ent offset = do {
     (ret, sfs, ix) \<leftarrow> sfs_block_alloc sfs;
     (if ret \<noteq> 0 then bmap_sub_cleanup ret sfs entp ent
      else do {
        ino \<leftarrow> ix;
        (ret, sfs, mem) \<leftarrow> sfs_wbuf sfs (le_bytes 4 ino) 0 4 ent offset;
        (if ret \<noteq> 0
         then do { sfs \<leftarrow> sfs_block_free sfs ino; bmap_sub_cleanup ret sfs entp ent }
         else Some (0, sfs, ent, Some ino))
      })
   }"

definition sfs_bmap_get_sub_nolock :: "('d, 'z) sfs_fs_scheme \<Rightarrow> nat \<Rightarrow> nat \<Rightarrow> bool \<Rightarrow>
    (int \<times> ('d, 'z) sfs_fs_scheme \<times> nat \<times> nat option) option" where
  "sfs_bmap_get_sub_nolock sfs entp index create = do {
     kassert (index < SFS_BLK_NENTRY);
     let offset = index * 4;
     (if entp \<noteq> 0
      then do {
        (ret, sfs, mem) \<leftarrow> sfs_rbuf sfs (le_bytes 4 0) 0 4 entp offset;
        (if ret \<noteq> 0 then Some (ret, sfs, entp, None)
         else let ino = of_le mem in
           if ino \<noteq> 0 \<or> \<not> create then Some (0, sfs, entp, Some ino)
           else bmap_sub_create sfs entp entp offset)
      }
      else if \<not> create then Some (0, sfs, entp, Some 0)
      else do {
        (ret, sfs, ix) \<leftarrow> sfs_block_alloc sfs;
        (if ret \<noteq> 0 then Some (ret, sfs, entp, None)
         else do { ent \<leftarrow> ix; bmap_sub_create sfs entp ent offset })
      })
   }"

definition bmap_out :: "('d, 'z) sfs_fs_scheme \<Rightarrow> sfs_inode \<Rightarrow> nat \<Rightarrow>
    (int \<times> ('d, 'z) sfs_fs_scheme \<times> sfs_inode \<times> nat option) option" where
  "bmap_out sfs sin ino = do {
     used \<leftarrow> (if ino = 0 then Some True else sfs_block_inuse sfs ino);
     kassert used;
     Some (0, sfs, sin, Some ino)
   }"

definition sfs_bmap_get_nolock :: "('d, 'z) sfs_fs_scheme \<Rightarrow> sfs_inode \<Rightarrow> nat \<Rightarrow> bool \<Rightarrow>
    (int \<times> ('d, 'z) sfs_fs_scheme \<times> sfs_inode \<times> nat option) option" where
  "sfs_bmap_get_nolock sfs sin index create =
    (if index < SFS_NDIRECT
     then let ino = di_direct (din sin) ! index in
       if ino = 0 \<and> create
       then do {
         (ret, sfs, ix) \<leftarrow> sfs_block_alloc sfs;
         (if ret \<noteq> 0 then Some (ret, sfs, sin, None)
          else do {
            ino \<leftarrow> ix;
            bmap_out sfs (sin\<lparr>din := (din sin)\<lparr>di_direct := (di_direct (din sin))[index := ino]\<rparr>, sin_dirty := True\<rparr>) ino
          })
       }
       else bmap_out sfs sin ino
     else let index = index - SFS_NDIRECT in
       if index < SFS_BLK_NENTRY
       then do {
         (ret, sfs, ent, ix) \<leftarrow> sfs_bmap_get_sub_nolock sfs (di_indirect (din sin)) index create;
         (if ret \<noteq> 0 then Some (ret, sfs, sin, None)
          else do {
            ino \<leftarrow> ix;
            (if ent \<noteq> di_indirect (din sin)
             then do {
               kassert (di_indirect (din sin) = 0);
               bmap_out sfs (sin\<lparr>din := (din sin)\<lparr>di_indirect := ent\<rparr>, sin_dirty := True\<rparr>) ino
             }
             else bmap_out sfs sin ino)
          })
       }
       else None)"

definition sfs_bmap_free_sub_nolock :: "('d, 'z) sfs_fs_scheme \<Rightarrow> nat \<Rightarrow> nat \<Rightarrow> (int \<times> ('d, 'z) sfs_fs_scheme) option" where
  "sfs_bmap_free_sub_nolock sfs ent index = do {
     used \<leftarrow> sfs_block_inuse sfs ent;
     kassert (used \<and> index < SFS_BLK_NENTRY);
     let offset = index * 4;
     (ret, sfs, mem) \<leftarrow> sfs_rbuf sfs (le_bytes 4 0) 0 4 ent offset;
     (if ret \<noteq> 0 then Some (ret, sfs)
      else let ino = of_le mem in
        if ino \<noteq> 0
        then do {
          (ret, sfs, mem) \<leftarrow> sfs_wbuf sfs (le_bytes 4 0) 0 4 ent offset;
          (if ret \<noteq> 0 then Some (ret, sfs)
           else do { sfs \<leftarrow> sfs_block_free sfs ino; Some (0, sfs) })
        }
        else Some (0, sfs))
   }"

definition sfs_bmap_free_nolock :: "('d, 'z) sfs_fs_scheme \<Rightarrow> sfs_inode \<Rightarrow> nat \<Rightarrow>
    (int \<times> ('d, 'z) sfs_fs_scheme \<times> sfs_inode) option" where
  "sfs_bmap_free_nolock sfs sin index =
    (if index < SFS_NDIRECT
     then let ino = di_direct (din sin) ! index in
       if ino \<noteq> 0
       then do {
         sfs \<leftarrow> sfs_block_free sfs ino;
         Some (0, sfs, sin\<lparr>din := (din sin)\<lparr>di_direct := (di_direct (din sin))[index := 0]\<rparr>, sin_dirty := True\<rparr>)
       }
       else Some (0, sfs, sin)
     else let index = index - SFS_NDIRECT; ent = di_indirect (din sin) in
       if index < SFS_BLK_NENTRY \<and> ent \<noteq> 0
       then do { (ret, sfs) \<leftarrow> sfs_bmap_free_sub_nolock sfs ent index; Some (ret, sfs, sin) }
       else Some (0, sfs, sin))"

definition sfs_bmap_load_nolock :: "('d, 'z) sfs_fs_scheme \<Rightarrow> sfs_inode \<Rightarrow> nat \<Rightarrow>
    (int \<times> ('d, 'z) sfs_fs_scheme \<times> sfs_inode \<times> nat option) option" where
  "sfs_bmap_load_nolock sfs sin index = do {
     kassert (index \<le> di_blocks (din sin));
     let create = (index = di_blocks (din sin));
     (ret, sfs, sin, ix) \<leftarrow> sfs_bmap_get_nolock sfs sin index create;
     (if ret \<noteq> 0 then Some (ret, sfs, sin, None)
      else do {
        ino \<leftarrow> ix;
        used \<leftarrow> sfs_block_inuse sfs ino;
        kassert used;
        Some (0, sfs,
          if create then sin\<lparr>din := (din sin)\<lparr>di_blocks := (di_blocks (din sin) + 1) mod 2 ^ 32\<rparr>\<rparr> else sin,
          Some ino)
      })
   }"

definition sfs_bmap_truncate_nolock :: "('d, 'z) sfs_fs_scheme \<Rightarrow> sfs_inode \<Rightarrow>
    (int \<times> ('d, 'z) sfs_fs_scheme \<times> sfs_inode) option" where
  "sfs_bmap_truncate_nolock sfs sin = do {
     kassert (di_blocks (din sin) \<noteq> 0);
     (ret, sfs, sin) \<leftarrow> sfs_bmap_free_nolock sfs sin (di_blocks (din sin) - 1);
     (if ret \<noteq> 0 then Some (ret, sfs, sin)
      else Some (0, sfs, sin\<lparr>din := (din sin)\<lparr>di_blocks := di_blocks (din sin) - 1\<rparr>, sin_dirty := True\<rparr>))
   }"

section \<open>Reading, writing and resizing a file\<close>

definition lock_sin :: "sfs_inode \<Rightarrow> sfs_inode option" where
  "lock_sin sin = do { v \<leftarrow> sem_down (sin_sem sin); Some (sin\<lparr>sin_sem := v\<rparr>) }"

definition unlock_sin :: "sfs_inode \<Rightarrow> sfs_inode" where
  "unlock_sin sin = sin\<lparr>sin_sem := sem_up (sin_sem sin)\<rparr>"

text \<open>Steps of \<open>sfs_io_nolock\<close>. They return the error code, the file system, the inode, the memory
  and the number of bytes moved by the step.\<close>

type_synonym ('d, 'z) io_result = "int \<times> ('d, 'z) sfs_fs_scheme \<times> sfs_inode \<times> byte list \<times> nat"

definition sfs_io_part :: "('d, 'z) sfs_fs_scheme \<Rightarrow> sfs_inode \<Rightarrow> byte list \<Rightarrow> nat \<Rightarrow> nat \<Rightarrow> nat \<Rightarrow> nat \<Rightarrow> bool \<Rightarrow>
    ('d, 'z) io_result option" where
  "sfs_io_part sfs sin mem base len blkno blkoff write = do {
     (ret, sfs, sin, ix) \<leftarrow> sfs_bmap_load_nolock sfs sin blkno;
     (if ret \<noteq> 0 then Some (ret, sfs, sin, mem, 0)
      else do {
        ino \<leftarrow> ix;
        (ret, sfs, mem) \<leftarrow> (if write then sfs_wbuf sfs mem base len ino blkoff
                           else sfs_rbuf sfs mem base len ino blkoff);
        (if ret \<noteq> 0 then Some (ret, sfs, sin, mem, 0) else Some (0, sfs, sin, mem, len))
      })
   }"

function sfs_io_full :: "('d, 'z) sfs_fs_scheme \<Rightarrow> sfs_inode \<Rightarrow> byte list \<Rightarrow> nat \<Rightarrow> nat \<Rightarrow> nat \<Rightarrow> bool \<Rightarrow> nat \<Rightarrow>
    ('d, 'z) io_result option" where
  "sfs_io_full sfs sin mem base blkno end_blkno write alen =
    (if blkno < end_blkno
     then do {
       (ret, sfs, sin, ix) \<leftarrow> sfs_bmap_load_nolock sfs sin blkno;
       (if ret \<noteq> 0 then Some (ret, sfs, sin, mem, alen)
        else do {
          ino \<leftarrow> ix;
          (ret, sfs, mem) \<leftarrow> (if write then sfs_wblock sfs mem base ino 1 else sfs_rblock sfs mem base ino 1);
          (if ret \<noteq> 0 then Some (ret, sfs, sin, mem, alen)
           else sfs_io_full sfs sin mem (base + SFS_BLKSIZE) (blkno + 1) end_blkno write (alen + SFS_BLKSIZE))
        })
     }
     else Some (0, sfs, sin, mem, alen))"
  by pat_completeness auto
termination by (relation "measure (\<lambda>(sfs, sin, mem, base, blkno, end_blkno, write, alen). end_blkno - blkno)") auto

declare sfs_io_full.simps [simp del]

text \<open>The three steps for a range that starts in block \<open>blkno\<close> and ends in another block.\<close>

definition sfs_io_steps :: "('d, 'z) sfs_fs_scheme \<Rightarrow> sfs_inode \<Rightarrow> byte list \<Rightarrow> nat \<Rightarrow> nat \<Rightarrow> nat \<Rightarrow> bool \<Rightarrow>
    ('d, 'z) io_result option" where
  "sfs_io_steps sfs sin mem base offset endpos write = do {
     let blkno = offset div SFS_BLKSIZE;
     let end_blkno = endpos div SFS_BLKSIZE;
     let blkoff = offset mod SFS_BLKSIZE;
     (ret, sfs, sin, mem, alen) \<leftarrow>
       (if blkoff \<noteq> 0 then sfs_io_part sfs sin mem base (SFS_BLKSIZE - blkoff) blkno blkoff write
        else Some (0, sfs, sin, mem, 0));
     (if ret \<noteq> 0 then Some (ret, sfs, sin, mem, alen)
      else do {
        let blkno = (if blkoff \<noteq> 0 then blkno + 1 else blkno);
        (ret, sfs, sin, mem, alen) \<leftarrow> sfs_io_full sfs sin mem (base + alen) blkno end_blkno write alen;
        (if ret \<noteq> 0 then Some (ret, sfs, sin, mem, alen)
         else let last_size = endpos mod SFS_BLKSIZE in
           if last_size \<noteq> 0
           then do {
             (ret, sfs, sin, mem, n) \<leftarrow> sfs_io_part sfs sin mem (base + alen) last_size end_blkno 0 write;
             Some (ret, sfs, sin, mem, alen + n)
           }
           else Some (0, sfs, sin, mem, alen))
      })
   }"

text \<open>\<open>off_t\<close> is a signed 64-bit number; \<open>alen\<close> is below \<open>2 ^ 64\<close>.\<close>

definition sfs_io_nolock :: "('d, 'z) sfs_fs_scheme \<Rightarrow> sfs_inode \<Rightarrow> byte list \<Rightarrow> nat \<Rightarrow> int \<Rightarrow> nat \<Rightarrow> bool \<Rightarrow>
    ('d, 'z) io_result option" where
  "sfs_io_nolock sfs sin mem base offset alen write = do {
     kassert (di_type (din sin) \<noteq> SFS_TYPE_DIR);
     let endpos = signed_take_bit 63 (offset + int alen);
     (if offset < 0 \<or> offset \<ge> int SFS_MAX_FILE_SIZE \<or> offset > endpos then Some (- E_INVAL, sfs, sin, mem, 0)
      else if offset = endpos then Some (0, sfs, sin, mem, 0)
      else
        let endpos = (if endpos > int SFS_MAX_FILE_SIZE then SFS_MAX_FILE_SIZE else nat endpos);
            offset = nat offset in
        if \<not> write \<and> offset \<ge> di_size (din sin) then Some (0, sfs, sin, mem, 0)
        else do {
          let endpos = (if \<not> write \<and> endpos > di_size (din sin) then di_size (din sin) else endpos);
          (ret, sfs, sin, mem, alen) \<leftarrow>
            (if offset div SFS_BLKSIZE = endpos div SFS_BLKSIZE
             then sfs_io_part sfs sin mem base (endpos - offset) (offset div SFS_BLKSIZE) (offset mod SFS_BLKSIZE) write
             else sfs_io_steps sfs sin mem base offset endpos write);
          Some (ret, sfs,
            if offset + alen > di_size (din sin)
            then sin\<lparr>din := (din sin)\<lparr>di_size := offset + alen\<rparr>, sin_dirty := True\<rparr> else sin,
            mem, alen)
        })
   }"

definition sfs_io :: "('d, 'z) sfs_fs_scheme \<Rightarrow> sfs_inode \<Rightarrow> iobuf \<Rightarrow> bool \<Rightarrow>
    (int \<times> ('d, 'z) sfs_fs_scheme \<times> sfs_inode \<times> iobuf) option" where
  "sfs_io sfs sin iob write = do {
     sin \<leftarrow> lock_sin sin;
     (ret, sfs, sin, mem, alen) \<leftarrow>
       sfs_io_nolock sfs sin (io_mem iob) (io_base iob) (int (io_offset iob)) (io_resid iob) write;
     let iob = iob\<lparr>io_mem := mem\<rparr>;
     iob \<leftarrow> (if alen \<noteq> 0 then iobuf_skip iob alen else Some iob);
     Some (ret, sfs, unlock_sin sin, iob)
   }"

definition sfs_fsync :: "('d, 'z) sfs_fs_scheme \<Rightarrow> sfs_inode \<Rightarrow> (int \<times> ('d, 'z) sfs_fs_scheme \<times> sfs_inode) option" where
  "sfs_fsync sfs sin =
    (if sin_dirty sin
     then do {
       sin \<leftarrow> lock_sin sin;
       (ret, sfs, sin) \<leftarrow>
         (if sin_dirty sin
          then do {
            let sin = sin\<lparr>sin_dirty := False\<rparr>;
            (ret, sfs, mem) \<leftarrow> sfs_wbuf sfs (din_bytes (din sin)) 0 64 (sin_ino sin) 0;
            Some (ret, sfs, if ret \<noteq> 0 then sin\<lparr>sin_dirty := True\<rparr> else sin)
          }
          else Some (0, sfs, sin));
       Some (ret, sfs, unlock_sin sin)
     }
     else Some (0, sfs, sin))"

fun sfs_grow_loop :: "('d, 'z) sfs_fs_scheme \<Rightarrow> sfs_inode \<Rightarrow> nat \<Rightarrow> nat \<Rightarrow> (int \<times> ('d, 'z) sfs_fs_scheme \<times> sfs_inode) option" where
  "sfs_grow_loop sfs sin nblks 0 = Some (0, sfs, sin)"
| "sfs_grow_loop sfs sin nblks (Suc n) = do {
     (ret, sfs, sin, ix) \<leftarrow> sfs_bmap_load_nolock sfs sin nblks;
     (if ret \<noteq> 0 then Some (ret, sfs, sin) else sfs_grow_loop sfs sin (nblks + 1) n)
   }"

fun sfs_shrink_loop :: "('d, 'z) sfs_fs_scheme \<Rightarrow> sfs_inode \<Rightarrow> nat \<Rightarrow> (int \<times> ('d, 'z) sfs_fs_scheme \<times> sfs_inode) option" where
  "sfs_shrink_loop sfs sin 0 = Some (0, sfs, sin)"
| "sfs_shrink_loop sfs sin (Suc n) = do {
     (ret, sfs, sin) \<leftarrow> sfs_bmap_truncate_nolock sfs sin;
     (if ret \<noteq> 0 then Some (ret, sfs, sin) else sfs_shrink_loop sfs sin n)
   }"

definition sfs_truncfile :: "('d, 'z) sfs_fs_scheme \<Rightarrow> sfs_inode \<Rightarrow> int \<Rightarrow> (int \<times> ('d, 'z) sfs_fs_scheme \<times> sfs_inode) option" where
  "sfs_truncfile sfs sin len =
    (if len < 0 \<or> len > int SFS_MAX_FILE_SIZE then Some (- E_INVAL, sfs, sin)
     else let len = nat len; tblks = (len + SFS_BLKSIZE - 1) div SFS_BLKSIZE in
       if di_size (din sin) = len
       then do { kassert (tblks = di_blocks (din sin)); Some (0, sfs, sin) }
       else do {
         sin \<leftarrow> lock_sin sin;
         let nblks = di_blocks (din sin);
         (ret, sfs, sin) \<leftarrow>
           (if nblks < tblks then sfs_grow_loop sfs sin nblks (tblks - nblks)
            else if tblks < nblks then sfs_shrink_loop sfs sin (nblks - tblks)
            else Some (0, sfs, sin));
         (if ret \<noteq> 0 then Some (ret, sfs, unlock_sin sin)
          else do {
            kassert (di_blocks (din sin) = tblks);
            Some (0, sfs, unlock_sin (sin\<lparr>din := (din sin)\<lparr>di_size := len\<rparr>, sin_dirty := True\<rparr>))
          })
       })"

definition sfs_tryseek :: "('d, 'z) sfs_fs_scheme \<Rightarrow> sfs_inode \<Rightarrow> int \<Rightarrow> (int \<times> ('d, 'z) sfs_fs_scheme \<times> sfs_inode) option" where
  "sfs_tryseek sfs sin pos =
    (if pos < 0 \<or> pos \<ge> int SFS_MAX_FILE_SIZE then Some (- E_INVAL, sfs, sin)
     else if pos > int (di_size (din sin)) then sfs_truncfile sfs sin pos
     else Some (0, sfs, sin))"

end
