(* ===== verification/SfsMap.thy ===== *)
theory SfsMap
imports Sfs
begin

text \<open>
  Correctness of the block layer of the simple file system over any device that keeps the
  contract \<open>block_device\<close>, and over \<open>disk0\<close> by interpretation: what the block transfers,
  the allocation of blocks, the block map of a file and the resizing of a file do.
\<close>

section \<open>Numbers on the disk\<close>

lemma length_le_bytes [simp]: "length (le_bytes n x) = n"
  by (simp add: le_bytes_def)

lemma le_bytes_Suc: "le_bytes (Suc n) x = of_nat x # le_bytes n (x div 256)"
proof -
  have "map (\<lambda>i. of_nat (x div 256 ^ i)) [0..<Suc n] = (of_nat x :: byte) # map (\<lambda>i. of_nat (x div 256 ^ Suc i)) [0..<n]"
    by (simp add: upt_conv_Cons map_Suc_upt [symmetric] o_def del: upt_Suc)
  then show ?thesis by (simp add: le_bytes_def div_mult2_eq)
qed

lemma of_le_le_bytes: "of_le (le_bytes n x) = x mod 256 ^ n"
proof (induction n arbitrary: x)
  case 0
  then show ?case by (simp add: le_bytes_def)
next
  case (Suc n)
  have "x mod (256 * 256 ^ n) = 256 * (x div 256 mod 256 ^ n) + x mod 256" by (rule mod_mult2_eq)
  then show ?case by (simp add: le_bytes_Suc Suc unat_of_nat)
qed

lemma of_le_zero: "of_le (replicate n 0) = 0"
  by (induction n) simp_all

lemma of_le_less: "of_le bs < 256 ^ length bs"
proof (induction bs)
  case (Cons b bs)
  have "unat b < 256" using unsigned_less [of b] by simp
  then show ?case using Cons by simp
qed simp

lemma le_bytes_zero: "le_bytes n 0 = replicate n 0"
  by (rule nth_equalityI) (simp_all add: le_bytes_def)

section \<open>The state of a mounted file system\<close>

text \<open>Everything but the device: the freemap describes the blocks \<open>1 .. blocks - 1\<close>, and the
  counter of the superblock agrees with it. The bound on \<open>blocks\<close> keeps byte offsets in 32 bits.\<close>

definition fs_ok :: "('d, 'z) sfs_fs_scheme \<Rightarrow> bool" where
  "fs_ok sfs \<longleftrightarrow> bitmap_ok (freemap sfs) \<and> s_blocks (super sfs) \<le> nbits (freemap sfs) \<and>
     free_bits (freemap sfs) \<subseteq> {1..<s_blocks (super sfs)} \<and>
     s_unused (super sfs) = card (free_bits (freemap sfs)) \<and>
     s_blocks (super sfs) \<le> 2 ^ 20 \<and> s_blocks (super sfs) \<le> d_blocks (fs_dev sfs) \<and>
     length (sfs_buffer sfs) = 4096 \<and> io_sem sfs = 1"

definition free_blocks :: "('d, 'z) sfs_fs_scheme \<Rightarrow> nat set" where
  "free_blocks sfs = free_bits (freemap sfs)"

definition used_block :: "('d, 'z) sfs_fs_scheme \<Rightarrow> nat \<Rightarrow> bool" where
  "used_block sfs b \<longleftrightarrow> 0 < b \<and> b < s_blocks (super sfs) \<and> b \<notin> free_blocks sfs"

text \<open>What block I/O leaves alone.\<close>

definition same_meta :: "('d, 'z) sfs_fs_scheme \<Rightarrow> ('d, 'z) sfs_fs_scheme \<Rightarrow> bool" where
  "same_meta sfs sfs' \<longleftrightarrow> super sfs' = super sfs \<and> freemap sfs' = freemap sfs \<and>
     super_dirty sfs' = super_dirty sfs \<and> fs_sem sfs' = fs_sem sfs \<and> mutex_sem sfs' = mutex_sem sfs \<and>
     d_blocks (fs_dev sfs') = d_blocks (fs_dev sfs) \<and> sfs_fs.more sfs' = sfs_fs.more sfs"

lemma same_metaD:
  "same_meta sfs sfs' \<Longrightarrow> super sfs' = super sfs" "same_meta sfs sfs' \<Longrightarrow> freemap sfs' = freemap sfs"
  "same_meta sfs sfs' \<Longrightarrow> free_blocks sfs' = free_blocks sfs"
  "same_meta sfs sfs' \<Longrightarrow> used_block sfs' = used_block sfs"
  by (simp_all add: same_meta_def free_blocks_def used_block_def fun_eq_iff)

lemma same_meta_trans: "same_meta a b \<Longrightarrow> same_meta b c \<Longrightarrow> same_meta a c"
  by (simp add: same_meta_def)

lemma fs_ok_facts:
  assumes "fs_ok sfs"
  shows "finite (free_blocks sfs)" "b \<in> free_blocks sfs \<Longrightarrow> 0 < b \<and> b < s_blocks (super sfs)"
    "used_block sfs b \<Longrightarrow> sfs_block_inuse sfs b = Some True"
    "b \<in> free_blocks sfs \<Longrightarrow> sfs_block_inuse sfs b = Some False"
proof -
  have ok: "bitmap_ok (freemap sfs)" and sub: "free_bits (freemap sfs) \<subseteq> {1..<s_blocks (super sfs)}"
    and le: "s_blocks (super sfs) \<le> nbits (freemap sfs)"
    using assms by (simp_all add: fs_ok_def)
  show "finite (free_blocks sfs)" by (simp add: free_blocks_def)
  show r: "b \<in> free_blocks sfs \<Longrightarrow> 0 < b \<and> b < s_blocks (super sfs)" for b
    using sub by (auto simp: free_blocks_def)
  show "used_block sfs b \<Longrightarrow> sfs_block_inuse sfs b = Some True"
    using le by (simp add: used_block_def sfs_block_inuse_def bm.test_free [OF ok] free_blocks_def)
  show "b \<in> free_blocks sfs \<Longrightarrow> sfs_block_inuse sfs b = Some False"
    using le r [of b] by (simp add: sfs_block_inuse_def bm.test_free [OF ok] free_blocks_def)
qed

section \<open>The block map of a file\<close>

text \<open>Both views depend on the contents \<open>f\<close> of the blocks of the disk only.\<close>

definition ent_of :: "byte list \<Rightarrow> nat \<Rightarrow> nat" where
  "ent_of b i = of_le (take 4 (drop (4 * i) b))"

definition put_at :: "nat \<Rightarrow> byte list \<Rightarrow> byte list \<Rightarrow> byte list" where
  "put_at off bs b = take off b @ bs @ drop (off + length bs) b"

definition bmap :: "(nat \<Rightarrow> byte list) \<Rightarrow> sfs_disk_inode \<Rightarrow> nat \<Rightarrow> nat" where
  "bmap f d i =
    (if i < 12 then di_direct d ! i
     else if i < 1036 \<and> di_indirect d \<noteq> 0 then ent_of (f (di_indirect d)) (i - 12) else 0)"

definition file_ok :: "(nat \<Rightarrow> bool) \<Rightarrow> (nat \<Rightarrow> byte list) \<Rightarrow> sfs_disk_inode \<Rightarrow> bool" where
  "file_ok used f d \<longleftrightarrow> length (di_direct d) = 12 \<and> di_blocks d \<le> 1036 \<and>
     (\<forall>i<1036. bmap f d i \<noteq> 0 \<longleftrightarrow> i < di_blocks d) \<and> (\<forall>i<di_blocks d. used (bmap f d i)) \<and>
     inj_on (bmap f d) {..<di_blocks d} \<and>
     (di_indirect d \<noteq> 0 \<longrightarrow> used (di_indirect d) \<and> (\<forall>i<di_blocks d. bmap f d i \<noteq> di_indirect d))"

lemma length_put_at [simp]: "off + length bs \<le> length b \<Longrightarrow> length (put_at off bs b) = length b"
  by (simp add: put_at_def)

lemma nth_put_at:
  assumes "off + length bs \<le> length b" "i < length b"
  shows "put_at off bs b ! i = (if off \<le> i \<and> i < off + length bs then bs ! (i - off) else b ! i)"
  using assms by (auto simp: put_at_def nth_append)

lemma ent_of_put:
  assumes "length b = 4096" "i < 1024" "j < 1024" "x < 2 ^ 32"
  shows "ent_of (put_at (4 * j) (le_bytes 4 x) b) i = (if i = j then x else ent_of b i)"
proof (cases "i = j")
  case True
  have "take 4 (drop (4 * j) (put_at (4 * j) (le_bytes 4 x) b)) = le_bytes 4 x"
    using assms by (simp add: put_at_def)
  then show ?thesis using True assms by (simp add: ent_of_def of_le_le_bytes)
next
  case False
  have "take 4 (drop (4 * i) (put_at (4 * j) (le_bytes 4 x) b)) = take 4 (drop (4 * i) b)"
  proof (rule nth_equalityI)
    fix k assume "k < length (take 4 (drop (4 * i) (put_at (4 * j) (le_bytes 4 x) b)))"
    then have k: "k < 4" by simp
    then have "4 * i + k < 4096" using assms by linarith
    moreover have out: "\<not> (4 * j \<le> 4 * i + k \<and> 4 * i + k < 4 * j + length (le_bytes 4 x))"
      using k False by simp
    moreover have "put_at (4 * j) (le_bytes 4 x) b ! (4 * i + k) = b ! (4 * i + k)"
      by (subst nth_put_at) (use assms calculation in \<open>simp_all only: if_not_P [OF out], simp_all\<close>)
    ultimately show "take 4 (drop (4 * i) (put_at (4 * j) (le_bytes 4 x) b)) ! k = take 4 (drop (4 * i) b) ! k"
      using k assms by simp
  qed (use assms in simp)
  then show ?thesis using False by (simp add: ent_of_def)
qed

lemma ent_of_zeros: "i < 1024 \<Longrightarrow> ent_of (replicate 4096 0) i = 0"
  by (simp add: ent_of_def of_le_zero)

lemma ent_of_less: "ent_of b i < 2 ^ 32"
proof -
  have "256 ^ length (take 4 (drop (4 * i) b)) \<le> (256 :: nat) ^ 4" by (rule power_increasing) simp_all
  then have "of_le (take 4 (drop (4 * i) b)) < 256 ^ 4"
    using of_le_less [of "take 4 (drop (4 * i) b)"] by (rule less_le_trans [rotated])
  then show ?thesis by (simp add: ent_of_def)
qed

lemma file_okD:
  assumes "file_ok used f d"
  shows "length (di_direct d) = 12" "di_blocks d \<le> 1036" "i < di_blocks d \<Longrightarrow> used (bmap f d i)"
    "i < 1036 \<Longrightarrow> bmap f d i = 0 \<longleftrightarrow> \<not> i < di_blocks d" "inj_on (bmap f d) {..<di_blocks d}"
    "di_indirect d \<noteq> 0 \<Longrightarrow> used (di_indirect d)"
    "di_indirect d \<noteq> 0 \<Longrightarrow> i < di_blocks d \<Longrightarrow> bmap f d i \<noteq> di_indirect d"
  using assms by (auto simp: file_ok_def)

text \<open>A block \<open>ino\<close> has been entered at index \<open>i\<close> of a file; \<open>F\<close> and \<open>G\<close> are the free blocks before
  and after. The indirect block may be new as well.\<close>

definition new_block :: "nat set \<Rightarrow> (nat \<Rightarrow> byte list) \<Rightarrow> sfs_disk_inode \<Rightarrow> nat \<Rightarrow> nat \<Rightarrow>
    nat set \<Rightarrow> (nat \<Rightarrow> byte list) \<Rightarrow> sfs_disk_inode \<Rightarrow> bool" where
  "new_block F f d i ino G f' d' \<longleftrightarrow> ino \<in> F \<and> G \<subseteq> F \<and> ino \<notin> G \<and> F - G \<subseteq> {ino, di_indirect d'} \<and>
     f' ino = replicate 4096 0 \<and> (\<forall>b. b \<notin> F \<and> b \<noteq> di_indirect d \<longrightarrow> f' b = f b) \<and>
     (\<forall>j<1036. bmap f' d' j = (if j = i then ino else bmap f d j)) \<and> length (di_direct d') = 12 \<and>
     di_size d' = di_size d \<and> di_type d' = di_type d \<and> di_nlinks d' = di_nlinks d \<and> di_blocks d' = di_blocks d \<and>
     (di_indirect d' = di_indirect d \<or>
      di_indirect d = 0 \<and> di_indirect d' \<in> F \<and> di_indirect d' \<notin> G \<and> di_indirect d' \<noteq> ino)"

lemma bmap_blocks [simp]: "bmap f (d\<lparr>di_blocks := n\<rparr>) = bmap f d" "bmap f (d\<lparr>di_size := n\<rparr>) = bmap f d"
  by (simp_all add: bmap_def fun_eq_iff)

lemma file_ok_size [simp]: "file_ok used f (d\<lparr>di_size := n\<rparr>) = file_ok used f d"
  by (simp add: file_ok_def)

lemma file_ok_cong:
  assumes "file_ok used f d" "\<And>b. used b \<Longrightarrow> used' b" "di_indirect d \<noteq> 0 \<Longrightarrow> f' (di_indirect d) = f (di_indirect d)"
  shows "file_ok used' f' d" "bmap f' d = bmap f d"
proof -
  show eq: "bmap f' d = bmap f d" using assms(3) by (auto simp: bmap_def fun_eq_iff)
  show "file_ok used' f' d" using assms(1,2) unfolding file_ok_def eq by blast
qed

lemma new_block_file_ok:
  assumes ok: "file_ok used f d" and i: "i = di_blocks d" "i < 1036" and new: "new_block F f d i ino G f' d'"
    and z: "0 \<notin> F" and used: "\<And>b. used b \<Longrightarrow> b \<notin> F" "\<And>b. used b \<Longrightarrow> used' b" "\<And>b. b \<in> F \<Longrightarrow> b \<notin> G \<Longrightarrow> used' b"
  shows "file_ok used' f' (d'\<lparr>di_blocks := i + 1\<rparr>)"
proof -
  note N = new [unfolded new_block_def]
  have bm: "bmap f' d' j = (if j = i then ino else bmap f d j)" if "j < 1036" for j using N that by blast
  have old: "bmap f d j \<noteq> ino" "used (bmap f d j)" "bmap f d j \<notin> F" if "j < i" for j
    using file_okD(3) [OF ok, of j] that i used(1) [of "bmap f d j"] N by auto
  have inoF: "ino \<in> F" "ino \<notin> G" using N by simp_all
  have used_ino: "used' ino" by (rule used(3) [OF inoF])
  have inj: "inj_on (bmap f' d') {..<i + 1}"
  proof (rule inj_onI)
    fix x y assume a: "x \<in> {..<i + 1}" "y \<in> {..<i + 1}" "bmap f' d' x = bmap f' d' y"
    have inj0: "inj_on (bmap f d) {..<i}" using file_okD(5) [OF ok] i by simp
    have "bmap f' d' x = (if x = i then ino else bmap f d x)" "bmap f' d' y = (if y = i then ino else bmap f d y)"
      using a i bm by simp_all
    then show "x = y" using a old(1) [of x] old(1) [of y] inj_onD [OF inj0, of x y]
      by (auto split: if_splits)
  qed
  have ind: "di_indirect d' \<noteq> 0 \<longrightarrow> used' (di_indirect d') \<and> (\<forall>j<i + 1. bmap f' d' j \<noteq> di_indirect d')"
  proof (intro impI)
    assume nz: "di_indirect d' \<noteq> 0"
    consider "di_indirect d' = di_indirect d" | "di_indirect d' \<in> F" "di_indirect d' \<notin> G" "di_indirect d' \<noteq> ino"
      using N by blast
    then show "used' (di_indirect d') \<and> (\<forall>j<i + 1. bmap f' d' j \<noteq> di_indirect d')"
    proof cases
      case 1
      then have u: "used (di_indirect d)" using file_okD(6) [OF ok] nz by simp
      have "bmap f' d' j \<noteq> di_indirect d" if "j < i + 1" for j
        using that bm [of j] i file_okD(7) [OF ok, of j] nz 1 used(1) [OF u] inoF by (cases "j = i") auto
      then show ?thesis using 1 used(2) [OF u] by simp
    next
      case 2
      have "bmap f' d' j \<noteq> di_indirect d'" if "j < i + 1" for j
        using that bm [of j] i old(3) [of j] 2 by (cases "j = i") auto
      then show ?thesis using used(3) [OF 2(1,2)] by simp
    qed
  qed
  show ?thesis
    unfolding file_ok_def bmap_blocks
  proof (intro conjI)
    show "\<forall>j<1036. (bmap f' d' j \<noteq> 0) = (j < di_blocks (d'\<lparr>di_blocks := i + 1\<rparr>))"
    proof (intro allI impI)
      fix j :: nat assume j: "j < 1036"
      have "ino \<noteq> 0" using z inoF(1) by metis
      then show "(bmap f' d' j \<noteq> 0) = (j < di_blocks (d'\<lparr>di_blocks := i + 1\<rparr>))"
        using bm [OF j] file_okD(4) [OF ok j] i by auto
    qed
    show "\<forall>j<di_blocks (d'\<lparr>di_blocks := i + 1\<rparr>). used' (bmap f' d' j)"
      using bm old(2) used(2) used_ino i by (auto simp: less_Suc_eq)
  qed (use N i inj ind in simp_all)
qed

section \<open>Over a device that keeps its contract\<close>

context block_device
begin

abbreviation dev_ok :: "('d, 'z) sfs_fs_scheme \<Rightarrow> bool" where
  "dev_ok sfs \<equiv> d_io (fs_dev sfs) = io \<and> ready (d_blocks (fs_dev sfs)) (d_state (fs_dev sfs))"

abbreviation blk :: "('d, 'z) sfs_fs_scheme \<Rightarrow> nat \<Rightarrow> byte list" where
  "blk sfs \<equiv> block_at byte_at (d_state (fs_dev sfs))"

definition geometry_ok :: "('d, 'z) sfs_fs_scheme \<Rightarrow> bool" where
  "geometry_ok sfs \<longleftrightarrow> s_blocks (super sfs) \<le> 2 ^ 20 \<and> s_blocks (super sfs) \<le> d_blocks (fs_dev sfs)"

lemma fs_ok_geometry: "fs_ok sfs \<Longrightarrow> geometry_ok (sfs\<lparr>io_sem := v\<rparr>)" "fs_ok sfs \<Longrightarrow> geometry_ok sfs"
  by (simp_all add: fs_ok_def geometry_ok_def)

lemma rwblock_read:
  assumes "geometry_ok sfs" "dev_ok sfs" "b < s_blocks (super sfs)" "b \<noteq> 0 \<or> \<not> check" "base + 4096 \<le> length mem"
  shows "\<exists>dev. sfs_rwblock_nolock sfs mem base b False check =
      Some (0, sfs\<lparr>fs_dev := dev\<rparr>, take base mem @ blk sfs b @ drop (base + 4096) mem) \<and>
    d_io dev = io \<and> d_blocks dev = d_blocks (fs_dev sfs) \<and> ready (d_blocks dev) (d_state dev) \<and>
    block_at byte_at (d_state dev) = blk sfs"
proof -
  have b: "b < d_blocks (fs_dev sfs)" "b * 4096 < 2 ^ 32"
    using assms(1,3) by (simp_all add: geometry_ok_def)
  obtain st' where st': "io (d_blocks (fs_dev sfs)) (d_state (fs_dev sfs)) (iobuf_init mem base 4096 (4096 * b)) False =
      Some (0, st', (iob_done (iobuf_init mem base 4096 (4096 * b)))\<lparr>io_mem :=
        take base mem @ blk sfs b @ drop (base + 4096) mem\<rparr>)"
    "ready (d_blocks (fs_dev sfs)) st'" "block_at byte_at st' = blk sfs"
    using read_block [of "d_blocks (fs_dev sfs)" "d_state (fs_dev sfs)" b base mem] assms b by blast
  have off: "(b * SFS_BLKSIZE) mod 2 ^ 32 = 4096 * b" using b by (simp add: SFS_BLKSIZE_def)
  show ?thesis
    using assms st' unfolding sfs_rwblock_nolock_def dop_io_def Let_def off
    by (intro exI [of _ "(fs_dev sfs)\<lparr>d_state := st'\<rparr>"]) (simp add: SFS_BLKSIZE_def)
qed

lemma rwblock_write:
  assumes "geometry_ok sfs" "dev_ok sfs" "b < s_blocks (super sfs)" "b \<noteq> 0 \<or> \<not> check" "base + 4096 \<le> length mem"
  shows "\<exists>dev. sfs_rwblock_nolock sfs mem base b True check = Some (0, sfs\<lparr>fs_dev := dev\<rparr>, mem) \<and>
    d_io dev = io \<and> d_blocks dev = d_blocks (fs_dev sfs) \<and> ready (d_blocks dev) (d_state dev) \<and>
    block_at byte_at (d_state dev) = (blk sfs)(b := take 4096 (drop base mem))"
proof -
  have b: "b < d_blocks (fs_dev sfs)" "b * 4096 < 2 ^ 32"
    using assms(1,3) by (simp_all add: geometry_ok_def)
  obtain st' where st': "io (d_blocks (fs_dev sfs)) (d_state (fs_dev sfs)) (iobuf_init mem base 4096 (4096 * b)) True =
      Some (0, st', iob_done (iobuf_init mem base 4096 (4096 * b)))"
    "ready (d_blocks (fs_dev sfs)) st'" "block_at byte_at st' = (blk sfs)(b := take 4096 (drop base mem))"
    using write_block [of "d_blocks (fs_dev sfs)" "d_state (fs_dev sfs)" b base mem] assms b by blast
  have off: "(b * SFS_BLKSIZE) mod 2 ^ 32 = 4096 * b" using b by (simp add: SFS_BLKSIZE_def)
  have "io_mem (iob_done (iobuf_init mem base 4096 (4096 * b))) = mem"
    by (simp add: iob_done_def iobuf_init_def)
  then show ?thesis
    using assms st' unfolding sfs_rwblock_nolock_def dop_io_def Let_def off
    by (intro exI [of _ "(fs_dev sfs)\<lparr>d_state := st'\<rparr>"]) (simp add: SFS_BLKSIZE_def)
qed

text \<open>The outcome of a successful block operation.\<close>

definition io_step :: "('d, 'z) sfs_fs_scheme \<Rightarrow> ('d, 'z) sfs_fs_scheme \<Rightarrow> (nat \<Rightarrow> byte list) \<Rightarrow> bool" where
  "io_step sfs sfs' f \<longleftrightarrow> fs_ok sfs' \<and> dev_ok sfs' \<and> same_meta sfs sfs' \<and> blk sfs' = f"


lemma lock_io: "fs_ok sfs \<Longrightarrow> lock_sfs_io sfs = Some (sfs\<lparr>io_sem := 0\<rparr>)"
  by (simp add: fs_ok_def lock_sfs_io_def sem_down_def)

lemma rbuf_spec:
  assumes ok: "fs_ok sfs" "dev_ok sfs" and b: "0 < b" "b < s_blocks (super sfs)"
    and r: "off < 4096" "off + len \<le> 4096" "base + len \<le> length mem"
  obtains sfs' where "sfs_rbuf sfs mem base len b off = Some (0, sfs',
      take base mem @ take len (drop off (blk sfs b)) @ drop (base + len) mem)" "io_step sfs sfs' (blk sfs)"
proof -
  let ?s = "sfs\<lparr>io_sem := 0\<rparr>"
  have buf: "length (sfs_buffer sfs) = 4096" using ok by (simp add: fs_ok_def)
  have dev: "dev_ok ?s" "b < s_blocks (super ?s)" "b \<noteq> 0 \<or> \<not> True" "0 + 4096 \<le> length (sfs_buffer sfs)"
    using ok b buf by simp_all
  obtain dev where d: "sfs_rwblock_nolock ?s (sfs_buffer sfs) 0 b False True = Some (0, ?s\<lparr>fs_dev := dev\<rparr>, blk sfs b)"
    "d_io dev = io" "d_blocks dev = d_blocks (fs_dev sfs)" "ready (d_blocks dev) (d_state dev)"
    "block_at byte_at (d_state dev) = blk sfs"
    using rwblock_read [OF fs_ok_geometry(1) [OF ok(1)] dev] buf by auto
  let ?s' = "unlock_sfs_io (?s\<lparr>fs_dev := dev, sfs_buffer := blk sfs b\<rparr>)"
  have get: "mem_get off len (blk sfs b) = Some (take len (drop off (blk sfs b)))" using r by simp
  have put: "mem_put base (take len (drop off (blk sfs b))) mem =
      Some (take base mem @ take len (drop off (blk sfs b)) @ drop (base + len) mem)"
    using r by (simp add: mem_put_def)
  show thesis
  proof (rule that [of ?s'])
    show "sfs_rbuf sfs mem base len b off = Some (0, ?s',
      take base mem @ take len (drop off (blk sfs b)) @ drop (base + len) mem)"
      using r unfolding sfs_rbuf_def lock_io [OF ok(1)] Let_def
      by (simp add: SFS_BLKSIZE_def d(1) get put)
    show "io_step sfs ?s' (blk sfs)"
      using ok d by (simp add: io_step_def unlock_sfs_io_def fs_ok_def same_meta_def sem_up_def)
  qed
qed

lemma wbuf_spec:
  assumes ok: "fs_ok sfs" "dev_ok sfs" and b: "0 < b" "b < s_blocks (super sfs)"
    and r: "off < 4096" "off + len \<le> 4096" "base + len \<le> length mem"
  obtains sfs' where "sfs_wbuf sfs mem base len b off = Some (0, sfs', mem)"
    "io_step sfs sfs' ((blk sfs)(b := put_at off (take len (drop base mem)) (blk sfs b)))"
proof -
  let ?s = "sfs\<lparr>io_sem := 0\<rparr>"
  have buf: "length (sfs_buffer sfs) = 4096" using ok by (simp add: fs_ok_def)
  have dev: "dev_ok ?s" "b < s_blocks (super ?s)" "b \<noteq> 0 \<or> \<not> True" "0 + 4096 \<le> length (sfs_buffer sfs)"
    using ok b buf by simp_all
  obtain dev where d: "sfs_rwblock_nolock ?s (sfs_buffer sfs) 0 b False True = Some (0, ?s\<lparr>fs_dev := dev\<rparr>, blk sfs b)"
    "d_io dev = io" "d_blocks dev = d_blocks (fs_dev sfs)" "ready (d_blocks dev) (d_state dev)"
    "block_at byte_at (d_state dev) = blk sfs"
    using rwblock_read [OF fs_ok_geometry(1) [OF ok(1)] dev] buf by auto
  define bs where "bs = take len (drop base mem)"
  have len: "length bs = len" using r by (simp add: bs_def)
  define nb where "nb = put_at off bs (blk sfs b)"
  have lenb: "length nb = 4096" using r len by (simp add: nb_def put_at_def)
  have get: "mem_get base len mem = Some bs" using r by (simp add: bs_def)
  have put: "mem_put off bs (blk sfs b) = Some nb" using r len by (simp add: mem_put_def nb_def put_at_def)
  let ?s1 = "?s\<lparr>fs_dev := dev\<rparr>"
  have g: "geometry_ok ?s1" using ok d by (simp add: fs_ok_def geometry_ok_def)
  have dev1: "dev_ok ?s1" "b < s_blocks (super ?s1)" "b \<noteq> 0 \<or> \<not> True" "0 + 4096 \<le> length nb"
    using d b lenb by simp_all
  obtain dev2 where e: "sfs_rwblock_nolock ?s1 nb 0 b True True = Some (0, ?s1\<lparr>fs_dev := dev2\<rparr>, nb)"
    "d_io dev2 = io" "d_blocks dev2 = d_blocks dev" "ready (d_blocks dev2) (d_state dev2)"
    "block_at byte_at (d_state dev2) = (blk sfs)(b := nb)"
    using rwblock_write [OF g dev1] lenb d(5) by auto
  let ?s' = "unlock_sfs_io (?s\<lparr>fs_dev := dev2, sfs_buffer := nb\<rparr>)"
  show thesis
  proof (rule that [of ?s'])
    show "sfs_wbuf sfs mem base len b off = Some (0, ?s', mem)"
      using r unfolding sfs_wbuf_def lock_io [OF ok(1)]
      by (simp add: SFS_BLKSIZE_def d(1) get put e(1))
    show "io_step sfs ?s' ((blk sfs)(b := put_at off (take len (drop base mem)) (blk sfs b)))"
      using ok d e lenb by (simp add: io_step_def unlock_sfs_io_def fs_ok_def same_meta_def sem_up_def nb_def bs_def)
  qed
qed

lemma rblock_spec:
  assumes ok: "fs_ok sfs" "dev_ok sfs" and b: "0 < b" "b < s_blocks (super sfs)"
    and r: "base + 4096 \<le> length mem"
  obtains sfs' where "sfs_rblock sfs mem base b 1 = Some (0, sfs', take base mem @ blk sfs b @ drop (base + 4096) mem)"
    "io_step sfs sfs' (blk sfs)"
proof -
  let ?s = "sfs\<lparr>io_sem := 0\<rparr>"
  have dev: "dev_ok ?s" "b < s_blocks (super ?s)" "b \<noteq> 0 \<or> \<not> True" using ok b by simp_all
  obtain dev where d: "sfs_rwblock_nolock ?s mem base b False True =
      Some (0, ?s\<lparr>fs_dev := dev\<rparr>, take base mem @ blk sfs b @ drop (base + 4096) mem)"
    "d_io dev = io" "d_blocks dev = d_blocks (fs_dev sfs)" "ready (d_blocks dev) (d_state dev)"
    "block_at byte_at (d_state dev) = blk sfs"
    using rwblock_read [OF fs_ok_geometry(1) [OF ok(1)] dev r] by auto
  let ?s' = "unlock_sfs_io (?s\<lparr>fs_dev := dev\<rparr>)"
  show thesis
  proof (rule that [of ?s'])
    show "sfs_rblock sfs mem base b 1 = Some (0, ?s', take base mem @ blk sfs b @ drop (base + 4096) mem)"
      unfolding sfs_rblock_def sfs_rwblock_def lock_io [OF ok(1)] One_nat_def by (simp add: d(1))
    show "io_step sfs ?s' (blk sfs)"
      using ok d by (simp add: io_step_def unlock_sfs_io_def fs_ok_def same_meta_def sem_up_def)
  qed
qed

lemma wblock_spec:
  assumes ok: "fs_ok sfs" "dev_ok sfs" and b: "0 < b" "b < s_blocks (super sfs)"
    and r: "base + 4096 \<le> length mem"
  obtains sfs' where "sfs_wblock sfs mem base b 1 = Some (0, sfs', mem)"
    "io_step sfs sfs' ((blk sfs)(b := take 4096 (drop base mem)))"
proof -
  let ?s = "sfs\<lparr>io_sem := 0\<rparr>"
  have dev: "dev_ok ?s" "b < s_blocks (super ?s)" "b \<noteq> 0 \<or> \<not> True" using ok b by simp_all
  obtain dev where d: "sfs_rwblock_nolock ?s mem base b True True = Some (0, ?s\<lparr>fs_dev := dev\<rparr>, mem)"
    "d_io dev = io" "d_blocks dev = d_blocks (fs_dev sfs)" "ready (d_blocks dev) (d_state dev)"
    "block_at byte_at (d_state dev) = (blk sfs)(b := take 4096 (drop base mem))"
    using rwblock_write [OF fs_ok_geometry(1) [OF ok(1)] dev r] by auto
  let ?s' = "unlock_sfs_io (?s\<lparr>fs_dev := dev\<rparr>)"
  show thesis
  proof (rule that [of ?s'])
    show "sfs_wblock sfs mem base b 1 = Some (0, ?s', mem)"
      unfolding sfs_wblock_def sfs_rwblock_def lock_io [OF ok(1)] One_nat_def by (simp add: d(1))
    show "io_step sfs ?s' ((blk sfs)(b := take 4096 (drop base mem)))"
      using ok d by (simp add: io_step_def unlock_sfs_io_def fs_ok_def same_meta_def sem_up_def)
  qed
qed

lemma clear_block_spec:
  assumes ok: "fs_ok sfs" "dev_ok sfs" and b: "0 < b" "b < s_blocks (super sfs)"
  obtains sfs' where "sfs_clear_block sfs b 1 = Some (0, sfs')"
    "io_step sfs sfs' ((blk sfs)(b := replicate 4096 0))"
proof -
  let ?s = "sfs\<lparr>io_sem := 0, sfs_buffer := replicate 4096 0\<rparr>"
  have g: "geometry_ok ?s" using ok by (simp add: fs_ok_def geometry_ok_def)
  have dev: "dev_ok ?s" "b < s_blocks (super ?s)" "b \<noteq> 0 \<or> \<not> True" "0 + 4096 \<le> length (replicate 4096 (0 :: byte))"
    using ok b by simp_all
  obtain dev where d: "sfs_rwblock_nolock ?s (replicate 4096 0) 0 b True True = Some (0, ?s\<lparr>fs_dev := dev\<rparr>, replicate 4096 0)"
    "d_io dev = io" "d_blocks dev = d_blocks (fs_dev sfs)" "ready (d_blocks dev) (d_state dev)"
    "block_at byte_at (d_state dev) = (blk sfs)(b := replicate 4096 0)"
    using rwblock_write [OF g dev] by auto
  let ?s' = "unlock_sfs_io (?s\<lparr>fs_dev := dev, sfs_buffer := replicate 4096 0\<rparr>)"
  show thesis
  proof (rule that [of ?s'])
    show "sfs_clear_block sfs b 1 = Some (0, ?s')"
      unfolding sfs_clear_block_def lock_io [OF ok(1)] One_nat_def by (simp add: d(1) SFS_BLKSIZE_def)
    show "io_step sfs ?s' ((blk sfs)(b := replicate 4096 0))"
      using ok d by (simp add: io_step_def unlock_sfs_io_def fs_ok_def same_meta_def sem_up_def)
  qed
qed

text \<open>The outcome of an operation that may change the set of free blocks.\<close>

definition fs_step :: "('d, 'z) sfs_fs_scheme \<Rightarrow> ('d, 'z) sfs_fs_scheme \<Rightarrow> nat set \<Rightarrow> (nat \<Rightarrow> byte list) \<Rightarrow> bool" where
  "fs_step sfs sfs' F f \<longleftrightarrow> fs_ok sfs' \<and> dev_ok sfs' \<and> free_blocks sfs' = F \<and> blk sfs' = f \<and>
     s_blocks (super sfs') = s_blocks (super sfs) \<and> fs_sem sfs' = fs_sem sfs \<and>
     mutex_sem sfs' = mutex_sem sfs \<and> sfs_fs.more sfs' = sfs_fs.more sfs"

lemma fs_step_io: "io_step sfs sfs' f \<Longrightarrow> fs_step sfs sfs' (free_blocks sfs) f"
  unfolding io_step_def fs_step_def same_meta_def free_blocks_def by auto

lemma fs_step_refl: "fs_ok sfs \<Longrightarrow> dev_ok sfs \<Longrightarrow> fs_step sfs sfs (free_blocks sfs) (blk sfs)"
  by (simp add: fs_step_def)

lemma fs_stepD:
  assumes "fs_step sfs sfs' F f"
  shows "fs_ok sfs'" "dev_ok sfs'" "free_blocks sfs' = F" "blk sfs' = f" "s_blocks (super sfs') = s_blocks (super sfs)"
  using assms by (simp_all add: fs_step_def)

lemma fs_step_trans:
  assumes "fs_step a b F f" "fs_step b c G g"
  shows "fs_step a c G g"
  using assms by (simp add: fs_step_def)

lemma used_block_step: "fs_step sfs sfs' F f \<Longrightarrow> used_block sfs' b \<longleftrightarrow> 0 < b \<and> b < s_blocks (super sfs) \<and> b \<notin> F"
  by (simp add: used_block_def fs_step_def)

lemma block_alloc_none:
  assumes "fs_ok sfs" "free_blocks sfs = {}"
  shows "sfs_block_alloc sfs = Some (- E_NO_MEM, sfs, None)"
  using assms bm.take_none [of "freemap sfs"]
  by (simp add: sfs_block_alloc_def fs_ok_def free_blocks_def)

lemma block_alloc_some:
  assumes ok: "fs_ok sfs" "dev_ok sfs" and ne: "free_blocks sfs \<noteq> {}"
  obtains sfs' ino where "sfs_block_alloc sfs = Some (0, sfs', Some ino)" "ino \<in> free_blocks sfs"
    "fs_step sfs sfs' (free_blocks sfs - {ino}) ((blk sfs)(ino := replicate 4096 0))" "used_block sfs' ino"
proof -
  have inv: "bitmap_ok (freemap sfs)" using ok by (simp add: fs_ok_def)
  obtain fm ino where fm: "bitmap_alloc (freemap sfs) = Some (fm, 0, Some ino)" "ino \<in> free_blocks sfs"
      "bitmap_ok fm" "free_bits fm = free_blocks sfs - {ino}" "nbits fm = nbits (freemap sfs)"
    using bm.take_some [OF inv] ne unfolding free_blocks_def by blast
  have ino: "0 < ino" "ino < s_blocks (super sfs)" using fs_ok_facts(2) [OF ok(1) fm(2)] by simp_all
  have card: "card (free_blocks sfs) = Suc (card (free_bits fm))"
    using bm.take_card [OF inv fm(1)] by (simp add: free_blocks_def)
  let ?s = "sfs\<lparr>freemap := fm, super := (super sfs)\<lparr>s_unused := s_unused (super sfs) - 1\<rparr>, super_dirty := True\<rparr>"
  have unused: "s_unused (super sfs) = card (free_blocks sfs)" using ok by (simp add: fs_ok_def free_blocks_def)
  have oks: "fs_ok ?s" using ok fm card unused by (auto simp: fs_ok_def free_blocks_def)
  have dev: "dev_ok ?s" using ok by simp
  have used: "sfs_block_inuse ?s ino = Some True"
    by (rule fs_ok_facts(3) [OF oks]) (use ino fm in \<open>simp add: used_block_def free_blocks_def\<close>)
  have b: "ino < s_blocks (super ?s)" using ino by simp
  obtain s2 where s2: "sfs_clear_block ?s ino 1 = Some (0, s2)" "io_step ?s s2 ((blk ?s)(ino := replicate 4096 0))"
    by (rule clear_block_spec [OF oks dev ino(1) b])
  have st: "fs_step sfs s2 (free_blocks sfs - {ino}) ((blk sfs)(ino := replicate 4096 0))"
    using fs_step_io [OF s2(2)] fm by (simp add: fs_step_def free_blocks_def)
  show thesis
  proof (rule that [OF _ fm(2) st])
    have "\<not> s_unused (super sfs) = 0" using unused card by simp
    then show "sfs_block_alloc sfs = Some (0, s2, Some ino)"
      using used s2(1) by (simp add: sfs_block_alloc_def fm(1))
    show "used_block s2 ino" using ino used_block_step [OF st] by simp
  qed
qed

lemma block_free_spec:
  assumes ok: "fs_ok sfs" "dev_ok sfs" and u: "used_block sfs b"
  obtains sfs' where "sfs_block_free sfs b = Some sfs'" "fs_step sfs sfs' (insert b (free_blocks sfs)) (blk sfs)"
proof -
  have inv: "bitmap_ok (freemap sfs)" using ok by (simp add: fs_ok_def)
  have b: "0 < b" "b < s_blocks (super sfs)" "b < nbits (freemap sfs)" "b \<notin> free_bits (freemap sfs)"
    using u ok by (simp_all add: used_block_def free_blocks_def fs_ok_def)
  obtain fm where fm: "bitmap_free (freemap sfs) b = Some fm" "bitmap_ok fm"
      "free_bits fm = insert b (free_bits (freemap sfs))" "nbits fm = nbits (freemap sfs)"
    using bm.give_used [OF inv b(3,4)] by blast
  have fin: "finite (free_bits (freemap sfs))" by simp
  have "card (free_bits fm) \<le> card {1..<s_blocks (super sfs)}"
    using ok b fm by (intro card_mono) (auto simp: fs_ok_def)
  moreover have "s_blocks (super sfs) \<le> 2 ^ 20" using ok by (simp add: fs_ok_def)
  ultimately have lt: "card (free_bits fm) < 2 ^ 32" by simp
  have card: "card (free_bits fm) = Suc (card (free_bits (freemap sfs)))"
    using fm b fin by simp
  then have cnt: "(s_unused (super sfs) + 1) mod 2 ^ 32 = card (free_bits fm)"
    using lt ok by (simp add: fs_ok_def)
  let ?s = "sfs\<lparr>freemap := fm, super := (super sfs)\<lparr>s_unused := (s_unused (super sfs) + 1) mod 2 ^ 32\<rparr>, super_dirty := True\<rparr>"
  show thesis
  proof (rule that [of ?s])
    show "sfs_block_free sfs b = Some ?s"
      using fs_ok_facts(3) [OF ok(1) u] fm(1) by (simp add: sfs_block_free_def)
    have "fs_ok ?s" using ok fm b unfolding cnt by (auto simp: fs_ok_def)
    then show "fs_step sfs ?s (insert b (free_blocks sfs)) (blk sfs)"
      using ok fm by (simp add: fs_step_def free_blocks_def)
  qed
qed

lemma sub_create_some:
  assumes ok: "fs_ok sfs" "dev_ok sfs" and ne: "free_blocks sfs \<noteq> {}" and ent: "used_block sfs ent" and j: "j < 1024"
  obtains sfs' ino where "bmap_sub_create sfs entp ent (j * 4) = Some (0, sfs', ent, Some ino)" "ino \<in> free_blocks sfs"
    "fs_step sfs sfs' (free_blocks sfs - {ino})
       ((blk sfs)(ino := replicate 4096 0, ent := put_at (4 * j) (le_bytes 4 ino) (blk sfs ent)))"
proof -
  obtain s1 ino where s1: "sfs_block_alloc sfs = Some (0, s1, Some ino)" "ino \<in> free_blocks sfs"
    "fs_step sfs s1 (free_blocks sfs - {ino}) ((blk sfs)(ino := replicate 4096 0))" "used_block s1 ino"
    by (rule block_alloc_some [OF ok ne])
  note D = fs_stepD [OF s1(3)]
  have e: "0 < ent" "ent < s_blocks (super s1)" using ent D(5) by (simp_all add: used_block_def)
  have r: "j * 4 < 4096" "j * 4 + 4 \<le> 4096" "0 + 4 \<le> length (le_bytes 4 ino)" using j by simp_all
  obtain s2 where s2: "sfs_wbuf s1 (le_bytes 4 ino) 0 4 ent (j * 4) = Some (0, s2, le_bytes 4 ino)"
    "io_step s1 s2 ((blk s1)(ent := put_at (j * 4) (take 4 (drop 0 (le_bytes 4 ino))) (blk s1 ent)))"
    by (rule wbuf_spec [OF D(1,2) e r])
  have neq: "ent \<noteq> ino" using ent s1(2) by (auto simp: used_block_def)
  have eq: "(blk s1)(ent := put_at (j * 4) (take 4 (drop 0 (le_bytes 4 ino))) (blk s1 ent)) =
      (blk sfs)(ino := replicate 4096 0, ent := put_at (4 * j) (le_bytes 4 ino) (blk sfs ent))"
    unfolding D(4) using neq by (simp add: mult.commute)
  have st: "fs_step sfs s2 (free_blocks sfs - {ino})
       ((blk sfs)(ino := replicate 4096 0, ent := put_at (4 * j) (le_bytes 4 ino) (blk sfs ent)))"
    using fs_step_trans [OF s1(3) fs_step_io [OF s2(2)]] unfolding eq D(3) .
  show thesis by (rule that [OF _ s1(2) st]) (simp add: bmap_sub_create_def s1(1) s2(1))
qed

lemma sub_create_none:
  assumes ok: "fs_ok sfs" "dev_ok sfs" and e: "free_blocks sfs = {}" and ent: "used_block sfs ent"
  obtains sfs' where "bmap_sub_create sfs entp ent off = Some (- E_NO_MEM, sfs', entp, None)"
    "fs_step sfs sfs' (if ent = entp then {} else {ent}) (blk sfs)"
proof -
  have n: "- E_NO_MEM \<noteq> 0" by (simp add: E_NO_MEM_def)
  show thesis
  proof (cases "ent = entp")
    case True
    show thesis
      by (rule that [of sfs]) (use True ok e n fs_step_refl [OF ok] in
        \<open>simp_all add: bmap_sub_create_def block_alloc_none bmap_sub_cleanup_def\<close>)
  next
    case False
    obtain s' where "sfs_block_free sfs ent = Some s'" "fs_step sfs s' (insert ent (free_blocks sfs)) (blk sfs)"
      by (rule block_free_spec [OF ok ent])
    then show thesis
      using that [of s'] False ok e n by (simp add: bmap_sub_create_def block_alloc_none bmap_sub_cleanup_def)
  qed
qed

lemma get_present:
  assumes ok: "fs_ok sfs" "dev_ok sfs" and f: "file_ok (used_block sfs) (blk sfs) (din sin)"
    and i: "i < di_blocks (din sin)"
  obtains sfs' where "sfs_bmap_get_nolock sfs sin i create = Some (0, sfs', sin, Some (bmap (blk sfs) (din sin) i))"
    "fs_step sfs sfs' (free_blocks sfs) (blk sfs)"
proof -
  define ino where "ino = bmap (blk sfs) (din sin) i"
  have u: "used_block sfs ino" using file_okD(3) [OF f i] by (simp add: ino_def)
  have i1036: "i < 1036" using i file_okD(2) [OF f] by simp
  have nz: "ino \<noteq> 0" using file_okD(4) [OF f i1036] i by (simp add: ino_def)
  show thesis
  proof (cases "i < 12")
    case True
    then have "di_direct (din sin) ! i = ino" by (simp add: ino_def bmap_def)
    then show thesis
      using that [of sfs] True nz u fs_ok_facts(3) [OF ok(1) u] fs_step_refl [OF ok]
      by (simp add: sfs_bmap_get_nolock_def SFS_NDIRECT_def bmap_out_def ino_def)
  next
    case False
    define ent where "ent = di_indirect (din sin)"
    have e0: "ent \<noteq> 0" using nz False by (auto simp: ino_def bmap_def ent_def split: if_splits)
    then have e: "used_block sfs ent" using file_okD(6) [OF f] by (simp add: ent_def)
    have ino: "ino = ent_of (blk sfs ent) (i - 12)" using False i1036 e0 by (simp add: ino_def bmap_def ent_def)
    have eb: "0 < ent" "ent < s_blocks (super sfs)" using e by (simp_all add: used_block_def)
    have r: "(i - 12) * 4 < 4096" "(i - 12) * 4 + 4 \<le> 4096" "0 + 4 \<le> length (le_bytes 4 0)" using i1036 False by simp_all
    obtain s1 where s1: "sfs_rbuf sfs (le_bytes 4 0) 0 4 ent ((i - 12) * 4) =
        Some (0, s1, take 0 (le_bytes 4 0) @ take 4 (drop ((i - 12) * 4) (blk sfs ent)) @ drop (0 + 4) (le_bytes 4 0))"
        "io_step sfs s1 (blk sfs)"
      by (rule rbuf_spec [OF ok eb r])
    have dec: "of_le (take 0 (le_bytes 4 0) @ take 4 (drop ((i - 12) * 4) (blk sfs ent)) @ drop (0 + 4) (le_bytes 4 0)) = ino"
      unfolding ino ent_of_def by (simp add: mult.commute)
    have idx: "i - 12 < 1024" using i1036 False by simp
    have sub: "sfs_bmap_get_sub_nolock sfs ent (i - 12) create = Some (0, s1, ent, Some ino)"
      using e0 idx nz s1(1) dec by (simp add: sfs_bmap_get_sub_nolock_def sfs_sizes Let_def)
    have st: "fs_step sfs s1 (free_blocks sfs) (blk sfs)" by (rule fs_step_io [OF s1(2)])
    have u1: "used_block s1 ino" using u used_block_step [OF st, of ino] unfolding used_block_def by blast
    show thesis
      using that [OF _ st] False idx sub fs_ok_facts(3) [OF fs_stepD(1) [OF st] u1]
      by (simp add: sfs_bmap_get_nolock_def sfs_sizes bmap_out_def Let_def flip: ent_def ino_def)
  qed
qed

text \<open>The entry of a new block in an existing indirect block, and in a new one.\<close>

lemma bmap_indirect_update:
  assumes d: "length (di_direct d) = 12" and i: "12 \<le> i" "i < 1036" and e: "e \<noteq> 0" "length fe = 4096"
    and old: "\<And>j. 12 \<le> j \<Longrightarrow> j < 1036 \<Longrightarrow> ent_of fe (j - 12) = bmap h d j"
    and x: "x < 2 ^ 32" and g: "g e = put_at (4 * (i - 12)) (le_bytes 4 x) fe" and j: "j < 1036"
  shows "bmap g (d\<lparr>di_indirect := e\<rparr>) j = (if j = i then x else bmap h d j)"
proof (cases "j < 12")
  case True
  then show ?thesis using i by (simp add: bmap_def)
next
  case False
  have "bmap g (d\<lparr>di_indirect := e\<rparr>) j = ent_of (g e) (j - 12)" using False j e by (simp add: bmap_def)
  also have "\<dots> = (if j - 12 = i - 12 then x else ent_of fe (j - 12))"
    unfolding g by (rule ent_of_put) (use e i j False x in simp_all)
  also have "\<dots> = (if j = i then x else bmap h d j)" using False i old [of j] j by auto
  finally show ?thesis .
qed

lemma block_number_32: "fs_ok sfs \<Longrightarrow> b \<in> free_blocks sfs \<Longrightarrow> b < 2 ^ 32"
  using fs_ok_facts(2) [of sfs b] by (simp add: fs_ok_def)

definition room_for :: "('d, 'z) sfs_fs_scheme \<Rightarrow> sfs_disk_inode \<Rightarrow> nat \<Rightarrow> bool" where
  "room_for sfs d i \<longleftrightarrow> (if 12 \<le> i \<and> di_indirect d = 0 then 2 else 1) \<le> card (free_blocks sfs)"

lemma get_new_direct:
  assumes ok: "fs_ok sfs" "dev_ok sfs" and f: "file_ok (used_block sfs) (blk sfs) (din sin)"
    and i: "i = di_blocks (din sin)" "i < 12" and ne: "free_blocks sfs \<noteq> {}"
  shows "\<exists>sfs' ino d'. sfs_bmap_get_nolock sfs sin i True =
      Some (0, sfs', sin\<lparr>din := d', sin_dirty := True\<rparr>, Some ino) \<and>
    fs_step sfs sfs' (free_blocks sfs') (blk sfs') \<and> used_block sfs' ino \<and>
    new_block (free_blocks sfs) (blk sfs) (din sin) i ino (free_blocks sfs') (blk sfs') d'"
proof -
  obtain s1 ino where s1: "sfs_block_alloc sfs = Some (0, s1, Some ino)" "ino \<in> free_blocks sfs"
    "fs_step sfs s1 (free_blocks sfs - {ino}) ((blk sfs)(ino := replicate 4096 0))" "used_block s1 ino"
    by (rule block_alloc_some [OF ok ne])
  note D = fs_stepD [OF s1(3)]
  have i1036: "i < 1036" using i by simp
  have z: "di_direct (din sin) ! i = 0" using file_okD(4) [OF f i1036] i by (simp add: bmap_def)
  let ?d = "(din sin)\<lparr>di_direct := (di_direct (din sin))[i := ino]\<rparr>"
  have len: "length (di_direct (din sin)) = 12" by (rule file_okD(1) [OF f])
  have ind: "di_indirect (din sin) \<noteq> 0 \<Longrightarrow> di_indirect (din sin) \<noteq> ino"
    using file_okD(6) [OF f] s1(2) by (auto simp: used_block_def)
  have bm: "bmap (blk s1) ?d j = (if j = i then ino else bmap (blk sfs) (din sin) j)" for j
    unfolding D(4) using i len ind by (auto simp: bmap_def)
  have new: "new_block (free_blocks sfs) (blk sfs) (din sin) i ino (free_blocks s1) (blk s1) ?d"
    unfolding new_block_def D(3) using bm s1(2) len D(4) by auto
  have "sfs_bmap_get_nolock sfs sin i True = Some (0, s1, sin\<lparr>din := ?d, sin_dirty := True\<rparr>, Some ino)"
    using i z s1(1) fs_ok_facts(3) [OF D(1) s1(4)]
    by (simp add: sfs_bmap_get_nolock_def SFS_NDIRECT_def bmap_out_def Let_def)
  then show ?thesis using s1(3,4) new D(3,4) by metis
qed

lemma get_new_indirect:
  assumes ok: "fs_ok sfs" "dev_ok sfs" and f: "file_ok (used_block sfs) (blk sfs) (din sin)"
    and i: "i = di_blocks (din sin)" "12 \<le> i" "i < 1036" and e0: "di_indirect (din sin) \<noteq> 0"
    and ne: "free_blocks sfs \<noteq> {}"
  shows "\<exists>sfs' ino d' b. sfs_bmap_get_nolock sfs sin i True =
      Some (0, sfs', sin\<lparr>din := d', sin_dirty := b\<rparr>, Some ino) \<and>
    fs_step sfs sfs' (free_blocks sfs') (blk sfs') \<and> used_block sfs' ino \<and>
    new_block (free_blocks sfs) (blk sfs) (din sin) i ino (free_blocks sfs') (blk sfs') d'"
proof -
  define ent where "ent = di_indirect (din sin)"
  have e: "used_block sfs ent" using file_okD(6) [OF f] e0 by (simp add: ent_def)
  have eb: "0 < ent" "ent < s_blocks (super sfs)" using e by (simp_all add: used_block_def)
  have idx: "i - 12 < 1024" using i by simp
  have r: "(i - 12) * 4 < 4096" "(i - 12) * 4 + 4 \<le> 4096" "0 + 4 \<le> length (le_bytes 4 0)" using idx by simp_all
  obtain s1 where s1: "sfs_rbuf sfs (le_bytes 4 0) 0 4 ent ((i - 12) * 4) =
      Some (0, s1, take 0 (le_bytes 4 0) @ take 4 (drop ((i - 12) * 4) (blk sfs ent)) @ drop (0 + 4) (le_bytes 4 0))"
      "io_step sfs s1 (blk sfs)"
    by (rule rbuf_spec [OF ok eb r])
  have bm0: "bmap (blk sfs) (din sin) j = ent_of (blk sfs ent) (j - 12)" if "12 \<le> j" "j < 1036" for j
    using that e0 by (simp add: bmap_def ent_def)
  have dec: "of_le (take 0 (le_bytes 4 0) @ take 4 (drop ((i - 12) * 4) (blk sfs ent)) @ drop (0 + 4) (le_bytes 4 0)) = 0"
    using bm0 [OF i(2,3)] file_okD(4) [OF f i(3)] i(1) by (simp add: ent_of_def mult.commute)
  have st1: "fs_step sfs s1 (free_blocks sfs) (blk sfs)" by (rule fs_step_io [OF s1(2)])
  note D1 = fs_stepD [OF st1]
  have e1: "used_block s1 ent" using e used_block_step [OF st1, of ent] unfolding used_block_def by blast
  have ne1: "free_blocks s1 \<noteq> {}" using ne D1(3) by simp
  obtain s2 ino where s2: "bmap_sub_create s1 ent ent ((i - 12) * 4) = Some (0, s2, ent, Some ino)" "ino \<in> free_blocks s1"
    "fs_step s1 s2 (free_blocks s1 - {ino})
       ((blk s1)(ino := replicate 4096 0, ent := put_at (4 * (i - 12)) (le_bytes 4 ino) (blk s1 ent)))"
    by (rule sub_create_some [OF D1(1,2) ne1 e1 idx])
  note D2 = fs_stepD [OF s2(3)]
  have sub: "sfs_bmap_get_sub_nolock sfs ent (i - 12) True = Some (0, s2, ent, Some ino)"
    using eb idx s1(1) s2(1) dec by (simp add: sfs_bmap_get_sub_nolock_def sfs_sizes Let_def)
  have st: "fs_step sfs s2 (free_blocks s2) (blk s2)"
    using fs_step_trans [OF st1 s2(3)] unfolding D2(3,4) .
  have u2: "used_block s2 ino"
    using s2(2) D1(3) fs_ok_facts(2) [OF ok(1), of ino] used_block_step [OF st, of ino] D2(3) by simp
  have "sfs_bmap_get_nolock sfs sin i True = Some (0, s2, sin, Some ino)"
    using i idx sub fs_ok_facts(3) [OF D2(1) u2]
    by (simp add: sfs_bmap_get_nolock_def sfs_sizes bmap_out_def Let_def flip: ent_def)
  moreover have "sin = sin\<lparr>din := din sin, sin_dirty := sin_dirty sin\<rparr>" by simp
  moreover have "new_block (free_blocks sfs) (blk sfs) (din sin) i ino (free_blocks s2) (blk s2) (din sin)"
  proof -
    have len: "length (di_direct (din sin)) = 12" by (rule file_okD(1) [OF f])
    have ino_e: "ino \<noteq> ent" using s2(2) e1 by (auto simp: used_block_def)
    have g: "blk s2 ent = put_at (4 * (i - 12)) (le_bytes 4 ino) (blk sfs ent)" using D2(4) D1(4) by simp
    have bm: "bmap (blk s2) (din sin) j = (if j = i then ino else bmap (blk sfs) (din sin) j)" if "j < 1036" for j
      using bmap_indirect_update [where g = "blk s2" and h = "blk sfs" and e = ent and fe = "blk sfs ent" and x = ino and j = j,
          OF len i(2,3) _ _ bm0 [symmetric] _ g that] eb
        block_number_32 [OF D1(1) s2(2)] by (simp add: ent_def)
    show ?thesis
      unfolding new_block_def D2(3) D1(3) using bm s2(2) D1(3) len D2(4) D1(4) ino_e by (auto simp: ent_def)
  qed
  ultimately show ?thesis using st u2 by metis
qed

lemma get_new_first_indirect:
  assumes ok: "fs_ok sfs" "dev_ok sfs" and f: "file_ok (used_block sfs) (blk sfs) (din sin)"
    and i: "i = di_blocks (din sin)" "12 \<le> i" "i < 1036" and e0: "di_indirect (din sin) = 0"
    and two: "2 \<le> card (free_blocks sfs)"
  shows "\<exists>sfs' ino d' b. sfs_bmap_get_nolock sfs sin i True =
      Some (0, sfs', sin\<lparr>din := d', sin_dirty := b\<rparr>, Some ino) \<and>
    fs_step sfs sfs' (free_blocks sfs') (blk sfs') \<and> used_block sfs' ino \<and>
    new_block (free_blocks sfs) (blk sfs) (din sin) i ino (free_blocks sfs') (blk sfs') d'"
proof -
  have ne: "free_blocks sfs \<noteq> {}" using two by auto
  obtain s1 ent where s1: "sfs_block_alloc sfs = Some (0, s1, Some ent)" "ent \<in> free_blocks sfs"
    "fs_step sfs s1 (free_blocks sfs - {ent}) ((blk sfs)(ent := replicate 4096 0))" "used_block s1 ent"
    by (rule block_alloc_some [OF ok ne])
  note D1 = fs_stepD [OF s1(3)]
  have "card (free_blocks s1) = card (free_blocks sfs) - 1"
    using s1(2) fs_ok_facts(1) [OF ok(1)] D1(3) by simp
  then have ne1: "free_blocks s1 \<noteq> {}" using two by auto
  have idx: "i - 12 < 1024" using i by simp
  obtain s2 ino where s2: "bmap_sub_create s1 0 ent ((i - 12) * 4) = Some (0, s2, ent, Some ino)" "ino \<in> free_blocks s1"
    "fs_step s1 s2 (free_blocks s1 - {ino})
       ((blk s1)(ino := replicate 4096 0, ent := put_at (4 * (i - 12)) (le_bytes 4 ino) (blk s1 ent)))"
    by (rule sub_create_some [OF D1(1,2) ne1 s1(4) idx])
  note D2 = fs_stepD [OF s2(3)]
  have ent0: "ent \<noteq> 0" using fs_ok_facts(2) [OF ok(1) s1(2)] by simp
  have ino_e: "ino \<noteq> ent" "ino \<in> free_blocks sfs" using s2(2) D1(3) by auto
  have sub: "sfs_bmap_get_sub_nolock sfs 0 (i - 12) True = Some (0, s2, ent, Some ino)"
    using idx s1(1) s2(1) by (simp add: sfs_bmap_get_sub_nolock_def sfs_sizes Let_def)
  have st: "fs_step sfs s2 (free_blocks s2) (blk s2)"
    using fs_step_trans [OF s1(3) s2(3)] unfolding D2(3,4) .
  have u2: "used_block s2 ino"
    using ino_e fs_ok_facts(2) [OF ok(1) ino_e(2)] used_block_step [OF st, of ino] D2(3) by simp
  let ?d = "(din sin)\<lparr>di_indirect := ent\<rparr>"
  have eq: "sfs_bmap_get_nolock sfs sin i True = Some (0, s2, sin\<lparr>din := ?d, sin_dirty := True\<rparr>, Some ino)"
    using i idx sub e0 ent0 fs_ok_facts(3) [OF D2(1) u2]
    by (simp add: sfs_bmap_get_nolock_def sfs_sizes bmap_out_def Let_def)
  have new: "new_block (free_blocks sfs) (blk sfs) (din sin) i ino (free_blocks s2) (blk s2) ?d"
  proof -
    have len: "length (di_direct (din sin)) = 12" by (rule file_okD(1) [OF f])
    have old: "ent_of (blk s1 ent) (j - 12) = bmap (blk sfs) (din sin) j" if "12 \<le> j" "j < 1036" for j
      using that e0 D1(4) ent_of_zeros [of "j - 12"] by (simp add: bmap_def)
    have g: "blk s2 ent = put_at (4 * (i - 12)) (le_bytes 4 ino) (blk s1 ent)" using D2(4) by simp
    have bm: "bmap (blk s2) ?d j = (if j = i then ino else bmap (blk sfs) (din sin) j)" if "j < 1036" for j
      by (rule bmap_indirect_update [where g = "blk s2" and h = "blk sfs" and e = ent and fe = "blk s1 ent" and x = ino,
          OF len i(2,3) ent0 _ old _ g that])
        (use block_number_32 [OF ok(1) ino_e(2)] in simp_all)
    show ?thesis
      unfolding new_block_def D2(3) D1(3) using bm ino_e s1(2) len D2(4) D1(4) e0 by auto
  qed
  show ?thesis using eq st u2 new by blast
qed

lemma get_full:
  assumes ok: "fs_ok sfs" "dev_ok sfs" and f: "file_ok (used_block sfs) (blk sfs) (din sin)"
    and i: "i = di_blocks (din sin)" "i < 1036" and full: "\<not> room_for sfs (din sin) i"
  obtains sfs' where "sfs_bmap_get_nolock sfs sin i True = Some (- E_NO_MEM, sfs', sin, None)"
    "fs_step sfs sfs' (free_blocks sfs) (blk sfs')" "\<forall>b. b \<notin> free_blocks sfs \<longrightarrow> blk sfs' b = blk sfs b"
proof -
  have n: "- E_NO_MEM \<noteq> 0" by (simp add: E_NO_MEM_def)
  have fin: "finite (free_blocks sfs)" by (rule fs_ok_facts(1) [OF ok(1)])
  have z: "bmap (blk sfs) (din sin) i = 0" using file_okD(4) [OF f i(2)] i(1) by simp
  show thesis
  proof (cases "12 \<le> i \<and> di_indirect (din sin) = 0")
    case False
    then have e: "free_blocks sfs = {}" using full fin by (auto simp: room_for_def not_less_eq_eq)
    show thesis
    proof (cases "i < 12")
      case True
      then show thesis
        using that [of sfs] z n block_alloc_none [OF ok(1) e] fs_step_refl [OF ok]
        by (simp add: sfs_bmap_get_nolock_def SFS_NDIRECT_def bmap_def Let_def)
    next
      case i12: False
      define ent where "ent = di_indirect (din sin)"
      have e0: "ent \<noteq> 0" using False i12 by (simp add: ent_def)
      have eu: "used_block sfs ent" using file_okD(6) [OF f] e0 by (simp add: ent_def)
      have eb: "0 < ent" "ent < s_blocks (super sfs)" using eu by (simp_all add: used_block_def)
      have idx: "i - 12 < 1024" using i i12 by simp
      have r: "(i - 12) * 4 < 4096" "(i - 12) * 4 + 4 \<le> 4096" "0 + 4 \<le> length (le_bytes 4 0)" using idx by simp_all
      obtain s1 where s1: "sfs_rbuf sfs (le_bytes 4 0) 0 4 ent ((i - 12) * 4) =
          Some (0, s1, take 0 (le_bytes 4 0) @ take 4 (drop ((i - 12) * 4) (blk sfs ent)) @ drop (0 + 4) (le_bytes 4 0))"
          "io_step sfs s1 (blk sfs)"
        by (rule rbuf_spec [OF ok eb r])
      have dec: "of_le (take 0 (le_bytes 4 0) @ take 4 (drop ((i - 12) * 4) (blk sfs ent)) @ drop (0 + 4) (le_bytes 4 0)) = 0"
        using z i12 i e0 by (simp add: bmap_def ent_of_def mult.commute flip: ent_def)
      have st1: "fs_step sfs s1 (free_blocks sfs) (blk sfs)" by (rule fs_step_io [OF s1(2)])
      note D1 = fs_stepD [OF st1]
      have e1: "used_block s1 ent" using eu used_block_step [OF st1, of ent] unfolding used_block_def by blast
      have em1: "free_blocks s1 = {}" using e D1(3) by simp
      obtain s2 where s2: "bmap_sub_create s1 ent ent ((i - 12) * 4) = Some (- E_NO_MEM, s2, ent, None)"
          "fs_step s1 s2 (if ent = ent then {} else {ent}) (blk s1)"
        by (rule sub_create_none [OF D1(1,2) em1 e1])
      have sub: "sfs_bmap_get_sub_nolock sfs ent (i - 12) True = Some (- E_NO_MEM, s2, ent, None)"
        using eb idx s1(1) s2(1) dec by (simp add: sfs_bmap_get_sub_nolock_def sfs_sizes Let_def)
      have st: "fs_step sfs s2 (free_blocks sfs) (blk s2)"
        using fs_step_trans [OF st1 s2(2)] fs_stepD(4) [OF s2(2)] e by simp
      show thesis
      proof (rule that [OF _ st])
        show "sfs_bmap_get_nolock sfs sin i True = Some (- E_NO_MEM, s2, sin, None)"
          using i12 i idx sub n by (simp add: sfs_bmap_get_nolock_def sfs_sizes Let_def flip: ent_def)
        show "\<forall>b. b \<notin> free_blocks sfs \<longrightarrow> blk s2 b = blk sfs b"
          using fs_stepD(4) [OF s2(2)] D1(4) by simp
      qed
    qed
  next
    case True
    have idx: "i - 12 < 1024" "12 \<le> i" using i True by simp_all
    show thesis
    proof (cases "free_blocks sfs = {}")
      case e: True
      have sub: "sfs_bmap_get_sub_nolock sfs 0 (i - 12) True = Some (- E_NO_MEM, sfs, 0, None)"
        using idx n block_alloc_none [OF ok(1) e] by (simp add: sfs_bmap_get_sub_nolock_def sfs_sizes Let_def)
      then show thesis
        using that [of sfs] True idx n fs_step_refl [OF ok]
        by (simp add: sfs_bmap_get_nolock_def sfs_sizes Let_def)
    next
      case ne: False
      obtain s1 ent where s1: "sfs_block_alloc sfs = Some (0, s1, Some ent)" "ent \<in> free_blocks sfs"
        "fs_step sfs s1 (free_blocks sfs - {ent}) ((blk sfs)(ent := replicate 4096 0))" "used_block s1 ent"
        by (rule block_alloc_some [OF ok ne])
      note D1 = fs_stepD [OF s1(3)]
      have one: "card (free_blocks sfs) \<le> 1" using full True by (simp add: room_for_def)
      then have single: "free_blocks sfs = {ent}"
        using s1(2) fin by (metis card_le_Suc0_iff_eq is_singletonI' is_singleton_the_elem One_nat_def empty_iff singletonD)
      then have em1: "free_blocks s1 = {}" using D1(3) by simp
      have ent0: "ent \<noteq> 0" using fs_ok_facts(2) [OF ok(1) s1(2)] by simp
      obtain s2 where s2: "bmap_sub_create s1 0 ent ((i - 12) * 4) = Some (- E_NO_MEM, s2, 0, None)"
          "fs_step s1 s2 (if ent = 0 then {} else {ent}) (blk s1)"
        by (rule sub_create_none [OF D1(1,2) em1 s1(4)])
      have sub: "sfs_bmap_get_sub_nolock sfs 0 (i - 12) True = Some (- E_NO_MEM, s2, 0, None)"
        using idx s1(1) s2(1) by (simp add: sfs_bmap_get_sub_nolock_def sfs_sizes Let_def)
      have st: "fs_step sfs s2 (free_blocks sfs) (blk s2)"
        using fs_step_trans [OF s1(3) s2(2)] fs_stepD(4) [OF s2(2)] single ent0 by simp
      show thesis
      proof (rule that [OF _ st])
        show "sfs_bmap_get_nolock sfs sin i True = Some (- E_NO_MEM, s2, sin, None)"
          using True idx sub n by (simp add: sfs_bmap_get_nolock_def sfs_sizes Let_def)
        show "\<forall>b. b \<notin> free_blocks sfs \<longrightarrow> blk s2 b = blk sfs b"
          using fs_stepD(4) [OF s2(2)] D1(4) single by simp
      qed
    qed
  qed
qed

lemma get_new:
  assumes ok: "fs_ok sfs" "dev_ok sfs" and f: "file_ok (used_block sfs) (blk sfs) (din sin)"
    and i: "i = di_blocks (din sin)" "i < 1036" and room: "room_for sfs (din sin) i"
  shows "\<exists>sfs' ino d' b. sfs_bmap_get_nolock sfs sin i True =
      Some (0, sfs', sin\<lparr>din := d', sin_dirty := b\<rparr>, Some ino) \<and>
    fs_step sfs sfs' (free_blocks sfs') (blk sfs') \<and> used_block sfs' ino \<and>
    new_block (free_blocks sfs) (blk sfs) (din sin) i ino (free_blocks sfs') (blk sfs') d'"
proof -
  have ne: "free_blocks sfs \<noteq> {}" using room by (auto simp: room_for_def split: if_splits)
  consider "i < 12" | "12 \<le> i" "di_indirect (din sin) \<noteq> 0" | "12 \<le> i" "di_indirect (din sin) = 0" by linarith
  then show ?thesis
  proof cases
    case 1
    then show ?thesis using get_new_direct [OF ok f i(1) _ ne] by blast
  next
    case 2
    then show ?thesis using get_new_indirect [OF ok f i(1) _ i(2) _ ne] by blast
  next
    case 3
    then show ?thesis using get_new_first_indirect [OF ok f i(1) _ i(2)] room by (simp add: room_for_def)
  qed
qed

lemma load_present:
  assumes ok: "fs_ok sfs" "dev_ok sfs" and f: "file_ok (used_block sfs) (blk sfs) (din sin)"
    and i: "i < di_blocks (din sin)"
  obtains sfs' where "sfs_bmap_load_nolock sfs sin i = Some (0, sfs', sin, Some (bmap (blk sfs) (din sin) i))"
    "fs_step sfs sfs' (free_blocks sfs) (blk sfs)"
proof -
  obtain s1 where s1: "sfs_bmap_get_nolock sfs sin i False = Some (0, s1, sin, Some (bmap (blk sfs) (din sin) i))"
    "fs_step sfs s1 (free_blocks sfs) (blk sfs)"
    by (rule get_present [OF ok f i])
  have u: "used_block s1 (bmap (blk sfs) (din sin) i)"
    using file_okD(3) [OF f i] used_block_step [OF s1(2)] unfolding used_block_def by blast
  have le: "i \<le> di_blocks (din sin)" "(i = di_blocks (din sin)) = False" using i by simp_all
  show thesis
    by (rule that [OF _ s1(2)])
      (simp add: sfs_bmap_load_nolock_def Let_def le s1(1) fs_ok_facts(3) [OF fs_stepD(1) [OF s1(2)] u])
qed

text \<open>The file has grown from \<open>d\<close> to \<open>d'\<close>: its old blocks are untouched, the new ones are zero,
  and no other block in use has changed.\<close>

definition grown :: "('d, 'z) sfs_fs_scheme \<Rightarrow> sfs_disk_inode \<Rightarrow> ('d, 'z) sfs_fs_scheme \<Rightarrow> sfs_disk_inode \<Rightarrow> bool" where
  "grown sfs d sfs' d' \<longleftrightarrow> fs_step sfs sfs' (free_blocks sfs') (blk sfs') \<and>
     file_ok (used_block sfs') (blk sfs') d' \<and> di_blocks d \<le> di_blocks d' \<and>
     di_size d' = di_size d \<and> di_type d' = di_type d \<and> di_nlinks d' = di_nlinks d \<and>
     free_blocks sfs' \<subseteq> free_blocks sfs \<and>
     (\<forall>i<di_blocks d. bmap (blk sfs') d' i = bmap (blk sfs) d i) \<and>
     (\<forall>i<di_blocks d'. di_blocks d \<le> i \<longrightarrow>
        bmap (blk sfs') d' i \<in> free_blocks sfs \<and> blk sfs' (bmap (blk sfs') d' i) = replicate 4096 0) \<and>
     (\<forall>b. used_block sfs b \<and> b \<noteq> di_indirect d \<longrightarrow> blk sfs' b = blk sfs b) \<and>
     (di_indirect d' = di_indirect d \<or> di_indirect d = 0 \<and> di_indirect d' \<in> free_blocks sfs)"

lemma grown_refl:
  "fs_ok sfs \<Longrightarrow> dev_ok sfs \<Longrightarrow> file_ok (used_block sfs) (blk sfs) d \<Longrightarrow> grown sfs d sfs d"
  by (simp add: grown_def fs_step_refl)

lemma grown_used: "grown sfs d sfs' d' \<Longrightarrow> used_block sfs b \<Longrightarrow> used_block sfs' b"
  unfolding grown_def used_block_def fs_step_def by auto

lemma grown_trans:
  assumes g: "grown a d b e" and h: "grown b e c k"
  shows "grown a d c k"
proof -
  note G = g [unfolded grown_def] and H = h [unfolded grown_def]
  have u: "used_block b x" if "used_block a x" for x by (rule grown_used [OF g that])
  have ni: "x \<noteq> di_indirect e" if "used_block a x" "x \<noteq> di_indirect d" for x
    using G that by (auto simp: used_block_def)
  have keep: "blk c x = blk a x" if "used_block a x" "x \<noteq> di_indirect d" for x
    using H G u [OF that(1)] ni [OF that] that by simp
  have okE: "file_ok (used_block b) (blk b) e" using G by blast
  have new: "bmap (blk c) k i \<in> free_blocks a \<and> blk c (bmap (blk c) k i) = replicate 4096 0"
    if i: "i < di_blocks k" "di_blocks d \<le> i" for i
  proof (cases "i < di_blocks e")
    case True
    have eq: "bmap (blk c) k i = bmap (blk b) e i" using H True by blast
    have u: "used_block b (bmap (blk b) e i)" by (rule file_okD(3) [OF okE True])
    have "bmap (blk b) e i \<noteq> di_indirect e"
      using file_okD(7) [OF okE _ True] file_okD(6) [OF okE] u by (cases "di_indirect e = 0") (auto simp: used_block_def)
    then have "blk c (bmap (blk b) e i) = blk b (bmap (blk b) e i)" using H u by blast
    then show ?thesis using G True i eq by simp
  next
    case False
    then show ?thesis using H G i by (meson not_less subset_eq)
  qed
  have st: "fs_step a c (free_blocks c) (blk c)" using G H fs_step_trans by blast
  have old: "bmap (blk c) k i = bmap (blk a) d i" if "i < di_blocks d" for i
  proof -
    have "i < di_blocks e" using G that by linarith
    then show ?thesis using G H that by simp
  qed
  have ind: "di_indirect k = di_indirect d \<or> di_indirect d = 0 \<and> di_indirect k \<in> free_blocks a"
    using G H by auto
  have free: "free_blocks c \<subseteq> free_blocks a" using G H by blast
  have rest: "file_ok (used_block c) (blk c) k" "di_blocks d \<le> di_blocks k" "di_size k = di_size d"
    "di_type k = di_type d" "di_nlinks k = di_nlinks d" using G H by simp_all
  show ?thesis unfolding grown_def using st rest free old new keep ind by blast
qed

lemma load_new:
  assumes ok: "fs_ok sfs" "dev_ok sfs" and f: "file_ok (used_block sfs) (blk sfs) (din sin)"
    and i: "di_blocks (din sin) < 1036" and room: "room_for sfs (din sin) (di_blocks (din sin))"
  obtains sfs' ino d' b where
    "sfs_bmap_load_nolock sfs sin (di_blocks (din sin)) =
       Some (0, sfs', sin\<lparr>din := d', sin_dirty := b\<rparr>, Some ino)"
    "grown sfs (din sin) sfs' d'" "di_blocks d' = di_blocks (din sin) + 1"
    "ino = bmap (blk sfs') d' (di_blocks (din sin))"
    "card (free_blocks sfs) \<le> card (free_blocks sfs') + (if di_indirect d' = di_indirect (din sin) then 1 else 2)"
proof -
  let ?i = "di_blocks (din sin)"
  obtain s1 ino d1 b where s1: "sfs_bmap_get_nolock sfs sin ?i True = Some (0, s1, sin\<lparr>din := d1, sin_dirty := b\<rparr>, Some ino)"
    "fs_step sfs s1 (free_blocks s1) (blk s1)" "used_block s1 ino"
    "new_block (free_blocks sfs) (blk sfs) (din sin) ?i ino (free_blocks s1) (blk s1) d1"
    using get_new [OF ok f refl i room] by blast
  note N = s1(4) [unfolded new_block_def]
  define d' where "d' = d1\<lparr>di_blocks := ?i + 1\<rparr>"
  have z: "0 \<notin> free_blocks sfs" using fs_ok_facts(2) [OF ok(1)] by blast
  have u: "used_block s1 x \<longleftrightarrow> 0 < x \<and> x < s_blocks (super sfs) \<and> x \<notin> free_blocks s1" for x
    by (rule used_block_step [OF s1(2)])
  have fok: "file_ok (used_block s1) (blk s1) d'"
    unfolding d'_def
  proof (rule new_block_file_ok [OF f refl i s1(4) z])
    show "used_block sfs x \<Longrightarrow> x \<notin> free_blocks sfs" for x by (simp add: used_block_def)
    show "used_block s1 x" if "used_block sfs x" for x
    proof -
      have a: "0 < x" "x < s_blocks (super sfs)" "x \<notin> free_blocks sfs" using that by (simp_all add: used_block_def)
      then have "x \<notin> free_blocks s1" using N by blast
      then show ?thesis using a by (simp add: u)
    qed
    show "x \<in> free_blocks sfs \<Longrightarrow> x \<notin> free_blocks s1 \<Longrightarrow> used_block s1 x" for x
      unfolding u using fs_ok_facts(2) [OF ok(1), of x] by simp
  qed
  have bm: "bmap (blk s1) d' j = (if j = ?i then ino else bmap (blk sfs) (din sin) j)" if "j < 1036" for j
    using N that unfolding d'_def bmap_blocks by blast
  have g: "grown sfs (din sin) s1 d'"
    unfolding grown_def
  proof (intro conjI)
    show "\<forall>j<di_blocks (din sin). bmap (blk s1) d' j = bmap (blk sfs) (din sin) j"
      using bm i by simp
    show "\<forall>j<di_blocks d'. di_blocks (din sin) \<le> j \<longrightarrow>
        bmap (blk s1) d' j \<in> free_blocks sfs \<and> blk s1 (bmap (blk s1) d' j) = replicate 4096 0"
    proof (intro allI impI)
      fix j assume "j < di_blocks d'" "di_blocks (din sin) \<le> j"
      then have "j = ?i" by (simp add: d'_def)
      then show "bmap (blk s1) d' j \<in> free_blocks sfs \<and> blk s1 (bmap (blk s1) d' j) = replicate 4096 0"
        using bm [of j] i N by simp
    qed
    show "\<forall>x. used_block sfs x \<and> x \<noteq> di_indirect (din sin) \<longrightarrow> blk s1 x = blk sfs x"
      using N by (auto simp: used_block_def)
    show "di_indirect d' = di_indirect (din sin) \<or> di_indirect (din sin) = 0 \<and> di_indirect d' \<in> free_blocks sfs"
      using N by (auto simp: d'_def)
    show "file_ok (used_block s1) (blk s1) d'" by (rule fok)
    show "fs_step sfs s1 (free_blocks s1) (blk s1)" by (rule s1(2))
  qed (use N in \<open>simp_all add: d'_def\<close>)
  have fin: "finite (free_blocks sfs)" by (rule fs_ok_facts(1) [OF ok(1)])
  have card: "card (free_blocks sfs) \<le> card (free_blocks s1) + (if di_indirect d' = di_indirect (din sin) then 1 else 2)"
  proof -
    have sub: "free_blocks s1 \<subseteq> free_blocks sfs" using N by blast
    then have fin1: "finite (free_blocks s1)" using fin by (rule finite_subset)
    have diff: "free_blocks sfs - free_blocks s1 \<subseteq> {ino, di_indirect d'}" using N by (simp add: d'_def)
    have c: "card (free_blocks sfs) = card (free_blocks s1) + card (free_blocks sfs - free_blocks s1)"
      using card_Diff_subset [OF fin1 sub] card_mono [OF fin sub] by simp
    have "card (free_blocks sfs - free_blocks s1) \<le> (if di_indirect d' = di_indirect (din sin) then 1 else 2)"
    proof (cases "di_indirect d' = di_indirect (din sin)")
      case True
      have "di_indirect (din sin) \<notin> free_blocks sfs"
        using file_okD(6) [OF f] z by (cases "di_indirect (din sin) = 0") (auto simp: used_block_def)
      then have "free_blocks sfs - free_blocks s1 \<subseteq> {ino}" using diff True by auto
      then have "card (free_blocks sfs - free_blocks s1) \<le> card {ino}" by (rule card_mono [rotated]) simp
      then show ?thesis using True by simp
    next
      case False
      have "card (free_blocks sfs - free_blocks s1) \<le> card {ino, di_indirect d'}" by (rule card_mono [OF _ diff]) simp
      also have "\<dots> \<le> 2" by (simp add: card_insert_if)
      finally show ?thesis using False by simp
    qed
    then show ?thesis using c by simp
  qed
  have w: "(di_blocks d1 + 1) mod 2 ^ 32 = ?i + 1" using N i by simp
  show thesis
  proof (rule that [OF _ g _ _ card])
    show "sfs_bmap_load_nolock sfs sin ?i = Some (0, s1, sin\<lparr>din := d', sin_dirty := b\<rparr>, Some ino)"
      using fs_ok_facts(3) [OF fs_stepD(1) [OF s1(2)] s1(3)]
      by (simp add: sfs_bmap_load_nolock_def s1(1) w [simplified] d'_def)
    show "di_blocks d' = di_blocks (din sin) + 1" by (simp add: d'_def)
    show "ino = bmap (blk s1) d' (di_blocks (din sin))" using bm i by simp
  qed
qed

lemma load_full:
  assumes ok: "fs_ok sfs" "dev_ok sfs" and f: "file_ok (used_block sfs) (blk sfs) (din sin)"
    and i: "di_blocks (din sin) < 1036" and full: "\<not> room_for sfs (din sin) (di_blocks (din sin))"
  obtains sfs' where "sfs_bmap_load_nolock sfs sin (di_blocks (din sin)) = Some (- E_NO_MEM, sfs', sin, None)"
    "grown sfs (din sin) sfs' (din sin)" "free_blocks sfs' = free_blocks sfs"
proof -
  obtain s1 where s1: "sfs_bmap_get_nolock sfs sin (di_blocks (din sin)) True = Some (- E_NO_MEM, s1, sin, None)"
    "fs_step sfs s1 (free_blocks sfs) (blk s1)" "\<forall>b. b \<notin> free_blocks sfs \<longrightarrow> blk s1 b = blk sfs b"
    by (rule get_full [OF ok f refl i full])
  have u: "used_block s1 = used_block sfs"
    using used_block_step [OF s1(2)] by (auto simp: fun_eq_iff used_block_def)
  have ind: "blk s1 (di_indirect (din sin)) = blk sfs (di_indirect (din sin))" if "di_indirect (din sin) \<noteq> 0"
    using file_okD(6) [OF f that] s1(3) by (simp add: used_block_def)
  have eq: "file_ok (used_block s1) (blk s1) (din sin)" "bmap (blk s1) (din sin) = bmap (blk sfs) (din sin)"
    by (rule file_ok_cong [where f' = "blk s1" and used' = "used_block s1", OF f]; use ind u in simp)+
  show thesis
  proof (rule that [of s1])
    show "sfs_bmap_load_nolock sfs sin (di_blocks (din sin)) = Some (- E_NO_MEM, s1, sin, None)"
      by (simp add: sfs_bmap_load_nolock_def s1(1) E_NO_MEM_def)
    show "grown sfs (din sin) s1 (din sin)"
      unfolding grown_def using s1 eq fs_stepD(3) [OF s1(2)] by (auto simp: used_block_def)
    show "free_blocks s1 = free_blocks sfs" by (rule fs_stepD(3) [OF s1(2)])
  qed
qed

lemma load_out_of_range:
  assumes "length (di_direct (din sin)) = 12" "di_blocks (din sin) = 1036"
  shows "sfs_bmap_load_nolock sfs sin 1036 = None"
  using assms by (simp add: sfs_bmap_load_nolock_def sfs_bmap_get_nolock_def sfs_sizes Let_def)

text \<open>The file has shrunk from \<open>d\<close> to \<open>d'\<close>: the blocks cut off are free again, nothing else has changed
  but the indirect block.\<close>

definition shrunk :: "('d, 'z) sfs_fs_scheme \<Rightarrow> sfs_disk_inode \<Rightarrow> ('d, 'z) sfs_fs_scheme \<Rightarrow> sfs_disk_inode \<Rightarrow> bool" where
  "shrunk sfs d sfs' d' \<longleftrightarrow> fs_step sfs sfs' (free_blocks sfs') (blk sfs') \<and>
     file_ok (used_block sfs') (blk sfs') d' \<and> di_blocks d' \<le> di_blocks d \<and>
     di_size d' = di_size d \<and> di_type d' = di_type d \<and> di_nlinks d' = di_nlinks d \<and>
     di_indirect d' = di_indirect d \<and>
     free_blocks sfs' = free_blocks sfs \<union> bmap (blk sfs) d ` {di_blocks d'..<di_blocks d} \<and>
     (\<forall>i<di_blocks d'. bmap (blk sfs') d' i = bmap (blk sfs) d i) \<and>
     (\<forall>b. b \<noteq> di_indirect d \<longrightarrow> blk sfs' b = blk sfs b)"

lemma shrunk_refl:
  "fs_ok sfs \<Longrightarrow> dev_ok sfs \<Longrightarrow> file_ok (used_block sfs) (blk sfs) d \<Longrightarrow> shrunk sfs d sfs d"
  by (simp add: shrunk_def fs_step_refl)

lemma shrunk_trans:
  assumes g: "shrunk a d b e" and h: "shrunk b e c k"
  shows "shrunk a d c k"
proof -
  note G = g [unfolded shrunk_def] and H = h [unfolded shrunk_def]
  have le: "di_blocks k \<le> di_blocks e" "di_blocks e \<le> di_blocks d" using G H by simp_all
  have img: "bmap (blk b) e ` {di_blocks k..<di_blocks e} = bmap (blk a) d ` {di_blocks k..<di_blocks e}"
    using G by (intro image_cong) auto
  have split: "{di_blocks k..<di_blocks d} = {di_blocks k..<di_blocks e} \<union> {di_blocks e..<di_blocks d}"
    using le by auto
  have free: "free_blocks c = free_blocks a \<union> bmap (blk a) d ` {di_blocks k..<di_blocks d}"
  proof -
    have "free_blocks c = free_blocks b \<union> bmap (blk b) e ` {di_blocks k..<di_blocks e}" using H by blast
    moreover have "free_blocks b = free_blocks a \<union> bmap (blk a) d ` {di_blocks e..<di_blocks d}" using G by blast
    ultimately show ?thesis unfolding split image_Un img by (simp only: Un_ac)
  qed
  have st: "fs_step a c (free_blocks c) (blk c)"
    by (rule fs_step_trans [OF conjunct1 [OF G] conjunct1 [OF H]])
  have old: "bmap (blk c) k i = bmap (blk a) d i" if "i < di_blocks k" for i
    using G H le that by simp
  have rest: "blk c x = blk a x" if "x \<noteq> di_indirect d" for x using G H that by simp
  show ?thesis unfolding shrunk_def using G H st old rest free le by simp
qed

lemma shrunk_one:
  assumes f: "file_ok (used_block sfs) (blk sfs) d" and n: "di_blocks d = Suc n"
    and st: "fs_step sfs sfs' (insert (bmap (blk sfs) d n) (free_blocks sfs)) g"
    and g: "\<And>b. b \<noteq> di_indirect d \<Longrightarrow> g b = blk sfs b"
    and bm: "\<And>j. j < 1036 \<Longrightarrow> bmap g d' j = (if j = n then 0 else bmap (blk sfs) d j)"
    and d': "length (di_direct d') = 12" "di_size d' = di_size d" "di_type d' = di_type d" "di_nlinks d' = di_nlinks d"
      "di_indirect d' = di_indirect d" "di_blocks d' = n"
  shows "shrunk sfs d sfs' d'"
proof -
  note D = fs_stepD [OF st]
  let ?last = "bmap (blk sfs) d n"
  have n1036: "n < 1036" using file_okD(2) [OF f] n by simp
  have u: "used_block sfs' b" if "used_block sfs b" "b \<noteq> ?last" for b
    using that used_block_step [OF st, of b] by (simp add: used_block_def)
  have inj: "inj_on (bmap (blk sfs) d) {..<Suc n}" using file_okD(5) [OF f] n by simp
  have neq: "bmap (blk sfs) d j \<noteq> ?last" if "j < n" for j
    using inj_onD [OF inj, of j n] that by auto
  have "file_ok (used_block sfs') g d'"
    unfolding file_ok_def
  proof (intro conjI)
    show "\<forall>i<1036. (bmap g d' i \<noteq> 0) = (i < di_blocks d')"
    proof (intro allI impI)
      fix i :: nat assume i: "i < 1036"
      show "(bmap g d' i \<noteq> 0) = (i < di_blocks d')"
        using bm [OF i] file_okD(4) [OF f i] n d'(6) by (cases "i = n") auto
    qed
    show "\<forall>i<di_blocks d'. used_block sfs' (bmap g d' i)"
    proof (intro allI impI)
      fix i assume "i < di_blocks d'"
      then have i: "i < n" using d' by simp
      then have "bmap g d' i = bmap (blk sfs) d i" using bm [of i] n1036 by simp
      moreover have "used_block sfs (bmap (blk sfs) d i)" by (rule file_okD(3) [OF f]) (use i n in simp)
      ultimately show "used_block sfs' (bmap g d' i)" using u neq [OF i] by simp
    qed
    have "inj_on (bmap (blk sfs) d) {..<n}" using inj by (rule inj_on_subset) auto
    moreover have "bmap g d' i = bmap (blk sfs) d i" if "i \<in> {..<n}" for i using bm [of i] that n1036 by simp
    ultimately show "inj_on (bmap g d') {..<di_blocks d'}" unfolding d'(6) using inj_on_cong by blast
    show "di_indirect d' \<noteq> 0 \<longrightarrow> used_block sfs' (di_indirect d') \<and> (\<forall>i<di_blocks d'. bmap g d' i \<noteq> di_indirect d')"
    proof
      assume "di_indirect d' \<noteq> 0"
      then have nz: "di_indirect d \<noteq> 0" using d' by simp
      have "di_indirect d \<noteq> ?last" using file_okD(7) [OF f nz, of n] n by simp
      then have "used_block sfs' (di_indirect d')" using u file_okD(6) [OF f nz] d' by simp
      moreover have "bmap g d' i \<noteq> di_indirect d'" if "i < n" for i
        using that bm [of i] n1036 file_okD(7) [OF f nz, of i] n d' by simp
      ultimately show "used_block sfs' (di_indirect d') \<and> (\<forall>i<di_blocks d'. bmap g d' i \<noteq> di_indirect d')"
        using d' by simp
    qed
  qed (use d' n1036 in simp_all)
  moreover have "{n..<Suc n} = {n}" by auto
  moreover have "bmap g d' i = bmap (blk sfs) d i" if "i < n" for i using bm [of i] that n1036 by simp
  ultimately show ?thesis unfolding shrunk_def D(3,4) using st g d' n by auto
qed

lemma truncate_spec:
  assumes ok: "fs_ok sfs" "dev_ok sfs" and f: "file_ok (used_block sfs) (blk sfs) (din sin)"
    and n: "di_blocks (din sin) = Suc n"
  obtains sfs' d' where "sfs_bmap_truncate_nolock sfs sin = Some (0, sfs', sin\<lparr>din := d', sin_dirty := True\<rparr>)"
    "shrunk sfs (din sin) sfs' d'" "di_blocks d' = n"
proof -
  define ino where "ino = bmap (blk sfs) (din sin) n"
  have n1036: "n < 1036" using file_okD(2) [OF f] n by simp
  have u: "used_block sfs ino" unfolding ino_def by (rule file_okD(3) [OF f]) (simp add: n)
  have nz: "ino \<noteq> 0" using u by (simp add: used_block_def)
  have len: "length (di_direct (din sin)) = 12" by (rule file_okD(1) [OF f])
  show thesis
  proof (cases "n < 12")
    case True
    then have e: "di_direct (din sin) ! n = ino" by (simp add: ino_def bmap_def)
    obtain s1 where s1: "sfs_block_free sfs ino = Some s1" "fs_step sfs s1 (insert ino (free_blocks sfs)) (blk sfs)"
      by (rule block_free_spec [OF ok u])
    let ?d = "(din sin)\<lparr>di_direct := (di_direct (din sin))[n := 0], di_blocks := n\<rparr>"
    have "shrunk sfs (din sin) s1 ?d"
    proof (rule shrunk_one [OF f n s1(2) [unfolded ino_def]])
      show "bmap (blk sfs) ?d j = (if j = n then 0 else bmap (blk sfs) (din sin) j)" for j
        using True len by (auto simp: bmap_def)
    qed (use len in simp_all)
    then show thesis
      using that [of s1 ?d] True n e nz s1(1)
      by (simp add: sfs_bmap_truncate_nolock_def sfs_bmap_free_nolock_def SFS_NDIRECT_def Let_def)
  next
    case False
    define ent where "ent = di_indirect (din sin)"
    have e0: "ent \<noteq> 0" using nz False by (auto simp: ino_def bmap_def ent_def split: if_splits)
    have eu: "used_block sfs ent" using file_okD(6) [OF f] e0 by (simp add: ent_def)
    have ne: "ino \<noteq> ent" using file_okD(7) [OF f] e0 n by (simp add: ino_def ent_def)
    have eb: "0 < ent" "ent < s_blocks (super sfs)" using eu by (simp_all add: used_block_def)
    have idx: "n - 12 < 1024" using n1036 False by simp
    have r: "(n - 12) * 4 < 4096" "(n - 12) * 4 + 4 \<le> 4096" "0 + 4 \<le> length (le_bytes 4 0)" using idx by simp_all
    obtain s1 where s1: "sfs_rbuf sfs (le_bytes 4 0) 0 4 ent ((n - 12) * 4) =
        Some (0, s1, take 0 (le_bytes 4 0) @ take 4 (drop ((n - 12) * 4) (blk sfs ent)) @ drop (0 + 4) (le_bytes 4 0))"
        "io_step sfs s1 (blk sfs)"
      by (rule rbuf_spec [OF ok eb r])
    have dec: "of_le (take 0 (le_bytes 4 0) @ take 4 (drop ((n - 12) * 4) (blk sfs ent)) @ drop (0 + 4) (le_bytes 4 0)) = ino"
      using False n1036 e0 by (simp add: ino_def bmap_def ent_of_def mult.commute flip: ent_def)
    have st1: "fs_step sfs s1 (free_blocks sfs) (blk sfs)" by (rule fs_step_io [OF s1(2)])
    note D1 = fs_stepD [OF st1]
    have eb1: "ent < s_blocks (super s1)" using eb D1(5) by simp
    obtain s2 where s2: "sfs_wbuf s1 (le_bytes 4 0) 0 4 ent ((n - 12) * 4) = Some (0, s2, le_bytes 4 0)"
      "io_step s1 s2 ((blk s1)(ent := put_at ((n - 12) * 4) (take 4 (drop 0 (le_bytes 4 0))) (blk s1 ent)))"
      by (rule wbuf_spec [OF D1(1,2) eb(1) eb1 r])
    note D2 = fs_stepD [OF fs_step_io [OF s2(2)]]
    have u2: "used_block s2 ino"
      using u used_block_step [OF fs_step_trans [OF st1 fs_step_io [OF s2(2)]], of ino] D1(3)
      by (simp add: used_block_def)
    obtain s3 where s3: "sfs_block_free s2 ino = Some s3" "fs_step s2 s3 (insert ino (free_blocks s2)) (blk s2)"
      by (rule block_free_spec [OF D2(1,2) u2])
    define g where "g = (blk sfs)(ent := put_at (4 * (n - 12)) (le_bytes 4 0) (blk sfs ent))"
    have g: "blk s2 = g" using D2(4) D1(4) by (simp add: g_def mult.commute)
    have st: "fs_step sfs s3 (insert ino (free_blocks sfs)) g"
      using fs_step_trans [OF fs_step_trans [OF st1 fs_step_io [OF s2(2)]] s3(2)] D1(3) D2(3) g by simp
    let ?d = "(din sin)\<lparr>di_blocks := n\<rparr>"
    have "shrunk sfs (din sin) s3 ?d"
    proof (rule shrunk_one [OF f n st [unfolded ino_def]])
      show "b \<noteq> di_indirect (din sin) \<Longrightarrow> g b = blk sfs b" for b by (simp add: g_def ent_def)
      fix j :: nat assume j: "j < 1036"
      have "bmap g ((din sin)\<lparr>di_indirect := ent\<rparr>) j = (if j = n then 0 else bmap (blk sfs) (din sin) j)"
      proof (rule bmap_indirect_update [OF len _ n1036 e0 _ _ _ _ j])
        show "g ent = put_at (4 * (n - 12)) (le_bytes 4 0) (blk sfs ent)" by (simp add: g_def)
        show "ent_of (blk sfs ent) (i - 12) = bmap (blk sfs) (din sin) i" if "12 \<le> i" "i < 1036" for i
          using that e0 by (simp add: bmap_def flip: ent_def)
      qed (use False in simp_all)
      then show "bmap g ?d j = (if j = n then 0 else bmap (blk sfs) (din sin) j)" by (simp add: ent_def)
    qed (use len in simp_all)
    moreover have "sfs_bmap_free_sub_nolock sfs ent (n - 12) = Some (0, s3)"
      using idx nz fs_ok_facts(3) [OF ok(1) eu] s1(1) dec s2(1) s3(1)
      by (simp add: sfs_bmap_free_sub_nolock_def sfs_sizes Let_def)
    then have "sfs_bmap_truncate_nolock sfs sin = Some (0, s3, sin\<lparr>din := ?d, sin_dirty := True\<rparr>)"
      using False n idx e0
      by (simp add: sfs_bmap_truncate_nolock_def sfs_bmap_free_nolock_def sfs_sizes Let_def flip: ent_def)
    ultimately show thesis using that [of s3 ?d] by simp
  qed
qed

end

end
