(* ===== verification/SfsFile.thy ===== *)
theory SfsFile
imports SfsMap
begin

text \<open>
  Correctness of the operations on a whole file of the simple file system: \<open>sfs_truncfile\<close>,
  \<open>sfs_tryseek\<close> and \<open>sfs_io\<close>. The abstract file is the function \<open>file_byte\<close> from positions to
  bytes, of which \<open>di_size\<close> are visible.
\<close>

definition file_byte :: "(nat \<Rightarrow> byte list) \<Rightarrow> sfs_disk_inode \<Rightarrow> nat \<Rightarrow> byte" where
  "file_byte f d i = f (bmap f d (i div 4096)) ! (i mod 4096)"

lemma file_byte_size [simp]: "file_byte f (d\<lparr>di_size := n\<rparr>) = file_byte f d"
  by (simp add: file_byte_def fun_eq_iff)

context block_device
begin

section \<open>Resizing\<close>

lemma grown_D:
  assumes "grown sfs d sfs' d'"
  shows "fs_ok sfs'" "dev_ok sfs'" "file_ok (used_block sfs') (blk sfs') d'" "di_blocks d \<le> di_blocks d'"
    "free_blocks sfs' \<subseteq> free_blocks sfs" "di_size d' = di_size d"
    "s_blocks (super sfs') = s_blocks (super sfs)"
  using assms by (simp_all add: grown_def fs_step_def)

lemma grown_file_byte:
  assumes ok: "file_ok (used_block sfs) (blk sfs) d" and g: "grown sfs d sfs' d'" and i: "i < 4096 * di_blocks d'"
  shows "file_byte (blk sfs') d' i = (if i < 4096 * di_blocks d then file_byte (blk sfs) d i else 0)"
proof (cases "i < 4096 * di_blocks d")
  case True
  then have k: "i div 4096 < di_blocks d" by (simp add: less_mult_imp_div_less mult.commute)
  have u: "used_block sfs (bmap (blk sfs) d (i div 4096))" by (rule file_okD(3) [OF ok k])
  have "bmap (blk sfs) d (i div 4096) \<noteq> di_indirect d"
    using file_okD(7) [OF ok _ k] u by (cases "di_indirect d = 0") (auto simp: used_block_def)
  then show ?thesis using True k u g by (simp add: file_byte_def grown_def)
next
  case False
  then have "di_blocks d \<le> i div 4096" by (simp add: le_div_geq less_eq_div_iff_mult_less_eq mult.commute not_less)
  moreover have "i div 4096 < di_blocks d'" using i by (simp add: less_mult_imp_div_less mult.commute)
  ultimately show ?thesis using False g by (simp add: file_byte_def grown_def)
qed

lemma grown_card:
  assumes ok: "fs_ok sfs" and g: "grown sfs d sfs' d'"
  shows "card (free_blocks sfs') + (di_blocks d' - di_blocks d) \<le> card (free_blocks sfs)"
proof -
  note G = g [unfolded grown_def]
  let ?new = "bmap (blk sfs') d' ` {di_blocks d..<di_blocks d'}"
  have fok: "file_ok (used_block sfs') (blk sfs') d'" using G by blast
  have "inj_on (bmap (blk sfs') d') {di_blocks d..<di_blocks d'}"
    by (rule inj_on_subset [OF file_okD(5) [OF fok]]) auto
  then have c: "card ?new = di_blocks d' - di_blocks d" by (simp add: card_image)
  have fin: "finite (free_blocks sfs)" by (rule fs_ok_facts(1) [OF ok])
  have "?new \<inter> free_blocks sfs' = {}" using file_okD(3) [OF fok] by (auto simp: used_block_def)
  moreover have "finite (free_blocks sfs')" using G fin finite_subset by blast
  ultimately have "card (free_blocks sfs' \<union> ?new) = card (free_blocks sfs') + card ?new"
    by (intro card_Un_disjoint) auto
  moreover have "free_blocks sfs' \<union> ?new \<subseteq> free_blocks sfs" using G by auto
  then have "card (free_blocks sfs' \<union> ?new) \<le> card (free_blocks sfs)" by (rule card_mono [OF fin])
  ultimately show ?thesis using c by linarith
qed

lemma grow_loop_outcome:
  assumes "fs_ok sfs" "dev_ok sfs" "file_ok (used_block sfs) (blk sfs) (din sin)" "di_blocks (din sin) + n \<le> 1036"
  shows "\<exists>ret sfs' d' b. sfs_grow_loop sfs sin (di_blocks (din sin)) n = Some (ret, sfs', sin\<lparr>din := d', sin_dirty := b\<rparr>) \<and>
    grown sfs (din sin) sfs' d' \<and>
    (ret = 0 \<and> di_blocks d' = di_blocks (din sin) + n \<or> ret = - E_NO_MEM \<and> di_blocks d' < di_blocks (din sin) + n) \<and>
    (n + (if di_indirect (din sin) = 0 then 1 else 0) \<le> card (free_blocks sfs) \<longrightarrow> ret = 0) \<and>
    (room_for sfs (din sin) (di_blocks (din sin)) \<and> 0 < n \<longrightarrow> di_blocks (din sin) < di_blocks d')"
  using assms
proof (induction n arbitrary: sfs sin)
  case 0
  have "sin = sin\<lparr>din := din sin, sin_dirty := sin_dirty sin\<rparr>" by simp
  then show ?case using grown_refl [OF 0(1-3)] by (metis add_0_right less_irrefl sfs_grow_loop.simps(1))
next
  case (Suc n)
  let ?i = "di_blocks (din sin)"
  have i: "?i < 1036" using Suc.prems(4) by simp
  show ?case
  proof (cases "room_for sfs (din sin) ?i")
    case False
    obtain s1 where s1: "sfs_bmap_load_nolock sfs sin ?i = Some (- E_NO_MEM, s1, sin, None)"
        "grown sfs (din sin) s1 (din sin)" "free_blocks s1 = free_blocks sfs"
      by (rule load_full [OF Suc.prems(1-3) i False])
    have "\<not> Suc n + (if di_indirect (din sin) = 0 then 1 else 0) \<le> card (free_blocks sfs)"
      using False by (auto simp: room_for_def split: if_splits)
    moreover have "sin = sin\<lparr>din := din sin, sin_dirty := sin_dirty sin\<rparr>" by simp
    moreover have "sfs_grow_loop sfs sin ?i (Suc n) = Some (- E_NO_MEM, s1, sin)"
      by (simp add: s1(1) E_NO_MEM_def)
    ultimately show ?thesis using False s1(2) by (metis Suc_le_eq add_Suc_right le_add1 less_Suc_eq_le)
  next
    case True
    obtain s1 ino d1 b1 where s1: "sfs_bmap_load_nolock sfs sin ?i = Some (0, s1, sin\<lparr>din := d1, sin_dirty := b1\<rparr>, Some ino)"
        "grown sfs (din sin) s1 d1" "di_blocks d1 = ?i + 1" "ino = bmap (blk s1) d1 ?i"
        "card (free_blocks sfs) \<le> card (free_blocks s1) + (if di_indirect d1 = di_indirect (din sin) then 1 else 2)"
      by (rule load_new [OF Suc.prems(1-3) i True])
    let ?sin = "sin\<lparr>din := d1, sin_dirty := b1\<rparr>"
    have g: "fs_ok s1" "dev_ok s1" "file_ok (used_block s1) (blk s1) (din ?sin)" "di_blocks (din ?sin) + n \<le> 1036"
      using grown_D [OF s1(2)] s1(3) Suc.prems(4) by simp_all
    obtain ret s2 d2 b2 where s2: "sfs_grow_loop s1 ?sin (di_blocks (din ?sin)) n = Some (ret, s2, ?sin\<lparr>din := d2, sin_dirty := b2\<rparr>)"
        "grown s1 (din ?sin) s2 d2"
        "ret = 0 \<and> di_blocks d2 = di_blocks (din ?sin) + n \<or> ret = - E_NO_MEM \<and> di_blocks d2 < di_blocks (din ?sin) + n"
        "n + (if di_indirect (din ?sin) = 0 then 1 else 0) \<le> card (free_blocks s1) \<longrightarrow> ret = 0"
      using Suc.IH [OF g] by blast
    have loop: "sfs_grow_loop sfs sin ?i (Suc n) = Some (ret, s2, sin\<lparr>din := d2, sin_dirty := b2\<rparr>)"
      using s1(1,3) s2(1) by simp
    have gr: "grown sfs (din sin) s2 d2" using grown_trans [OF s1(2)] s2(2) by simp
    have out: "ret = 0 \<and> di_blocks d2 = ?i + Suc n \<or> ret = - E_NO_MEM \<and> di_blocks d2 < ?i + Suc n"
      using s2(3) s1(3) by simp
    have enough: "Suc n + (if di_indirect (din sin) = 0 then 1 else 0) \<le> card (free_blocks sfs) \<longrightarrow> ret = 0"
    proof
      assume a: "Suc n + (if di_indirect (din sin) = 0 then 1 else 0) \<le> card (free_blocks sfs)"
      have "di_indirect d1 = di_indirect (din sin) \<or> di_indirect (din sin) = 0 \<and> di_indirect d1 \<in> free_blocks sfs"
        using s1(2) by (simp add: grown_def)
      moreover have "di_indirect d1 \<noteq> 0" if "di_indirect d1 \<in> free_blocks sfs"
        using fs_ok_facts(2) [OF Suc.prems(1) that] by simp
      ultimately have "n + (if di_indirect d1 = 0 then 1 else 0) \<le> card (free_blocks s1)"
        using a s1(5) by (auto split: if_splits)
      then show "ret = 0" using s2(4) by simp
    qed
    have more: "?i < di_blocks d2" using grown_D(4) [OF s2(2)] s1(3) by simp
    show ?thesis using loop gr out enough more by blast
  qed
qed

lemma grow_loop_limit:
  assumes "fs_ok sfs" "dev_ok sfs" "file_ok (used_block sfs) (blk sfs) (din sin)" "1036 < di_blocks (din sin) + n"
    "1036 + (if di_indirect (din sin) = 0 then 1 else 0) \<le> di_blocks (din sin) + card (free_blocks sfs)"
  shows "sfs_grow_loop sfs sin (di_blocks (din sin)) n = None"
  using assms
proof (induction n arbitrary: sfs sin)
  case 0
  then show ?case using file_okD(2) [OF 0(3)] by simp
next
  case (Suc n)
  let ?i = "di_blocks (din sin)"
  show ?case
  proof (cases "?i = 1036")
    case True
    have "sfs_bmap_load_nolock sfs sin ?i = None"
      using load_out_of_range [OF file_okD(1) [OF Suc.prems(3)] True] True by simp
    then show ?thesis by simp
  next
    case False
    then have i: "?i < 1036" using file_okD(2) [OF Suc.prems(3)] by simp
    have room: "room_for sfs (din sin) ?i" using Suc.prems(5) i by (auto simp: room_for_def)
    obtain s1 ino d1 b1 where s1: "sfs_bmap_load_nolock sfs sin ?i = Some (0, s1, sin\<lparr>din := d1, sin_dirty := b1\<rparr>, Some ino)"
        "grown sfs (din sin) s1 d1" "di_blocks d1 = ?i + 1" "ino = bmap (blk s1) d1 ?i"
        "card (free_blocks sfs) \<le> card (free_blocks s1) + (if di_indirect d1 = di_indirect (din sin) then 1 else 2)"
      by (rule load_new [OF Suc.prems(1-3) i room])
    have z: "di_indirect d1 \<noteq> 0" if "di_indirect d1 \<in> free_blocks sfs"
      using fs_ok_facts(2) [OF Suc.prems(1) that] by simp
    have ind: "di_indirect d1 = di_indirect (din sin) \<or> di_indirect (din sin) = 0 \<and> di_indirect d1 \<in> free_blocks sfs"
      using s1(2) by (simp add: grown_def)
    have "1036 + (if di_indirect d1 = 0 then 1 else 0) \<le> di_blocks d1 + card (free_blocks s1)"
    proof (cases "di_indirect d1 = di_indirect (din sin)")
      case True then show ?thesis using s1(3,5) Suc.prems(5) by simp
    next
      case False
      then have "di_indirect d1 \<noteq> 0" "di_indirect (din sin) = 0" using ind z by auto
      then show ?thesis using s1(3,5) Suc.prems(5) by simp
    qed
    then have "sfs_grow_loop s1 (sin\<lparr>din := d1, sin_dirty := b1\<rparr>) (di_blocks d1) n = None"
      using Suc.IH [of s1 "sin\<lparr>din := d1, sin_dirty := b1\<rparr>"] grown_D [OF s1(2)] s1(3) Suc.prems(4) by simp
    then show ?thesis using s1(1,3) by simp
  qed
qed

lemma shrink_loop_outcome:
  assumes "fs_ok sfs" "dev_ok sfs" "file_ok (used_block sfs) (blk sfs) (din sin)" "n \<le> di_blocks (din sin)"
  shows "\<exists>sfs' d' b. sfs_shrink_loop sfs sin n = Some (0, sfs', sin\<lparr>din := d', sin_dirty := b\<rparr>) \<and>
    shrunk sfs (din sin) sfs' d' \<and> di_blocks d' = di_blocks (din sin) - n"
  using assms
proof (induction n arbitrary: sfs sin)
  case 0
  have "sin = sin\<lparr>din := din sin, sin_dirty := sin_dirty sin\<rparr>" by simp
  then show ?case using shrunk_refl [OF 0(1-3)] by (metis diff_zero sfs_shrink_loop.simps(1))
next
  case (Suc n)
  obtain m where m: "di_blocks (din sin) = Suc m" using Suc.prems(4) by (cases "di_blocks (din sin)") auto
  obtain s1 d1 where s1: "sfs_bmap_truncate_nolock sfs sin = Some (0, s1, sin\<lparr>din := d1, sin_dirty := True\<rparr>)"
      "shrunk sfs (din sin) s1 d1" "di_blocks d1 = m"
    by (rule truncate_spec [OF Suc.prems(1-3) m])
  let ?sin = "sin\<lparr>din := d1, sin_dirty := True\<rparr>"
  have g: "fs_ok s1" "dev_ok s1" "file_ok (used_block s1) (blk s1) (din ?sin)" "n \<le> di_blocks (din ?sin)"
    using s1(2,3) Suc.prems(4) m by (simp_all add: shrunk_def fs_step_def)
  obtain s2 d2 b2 where s2: "sfs_shrink_loop s1 ?sin n = Some (0, s2, ?sin\<lparr>din := d2, sin_dirty := b2\<rparr>)"
      "shrunk s1 (din ?sin) s2 d2" "di_blocks d2 = di_blocks (din ?sin) - n"
    using Suc.IH [OF g] by blast
  have "shrunk sfs (din sin) s2 d2" using shrunk_trans [OF s1(2)] s2(2) by simp
  then show ?case using s1(1,3) s2 m by (intro exI [of _ s2] exI [of _ d2] exI [of _ b2]) simp
qed

text \<open>What a resize leaves: the common part of the file, and the rest of the file system.\<close>

definition resized :: "('d, 'z) sfs_fs_scheme \<Rightarrow> sfs_disk_inode \<Rightarrow> ('d, 'z) sfs_fs_scheme \<Rightarrow> sfs_disk_inode \<Rightarrow> bool" where
  "resized sfs d sfs' d' \<longleftrightarrow> fs_ok sfs' \<and> dev_ok sfs' \<and> file_ok (used_block sfs') (blk sfs') d' \<and>
     di_size d' = di_size d \<and> di_type d' = di_type d \<and> di_nlinks d' = di_nlinks d \<and>
     (\<forall>i<4096 * di_blocks d'. file_byte (blk sfs') d' i =
        (if i < 4096 * di_blocks d then file_byte (blk sfs) d i else 0)) \<and>
     (\<forall>b. used_block sfs b \<and> b \<noteq> di_indirect d \<and> (\<forall>i<di_blocks d. b \<noteq> bmap (blk sfs) d i) \<longrightarrow>
        used_block sfs' b \<and> blk sfs' b = blk sfs b)"

lemma grown_resized: "file_ok (used_block sfs) (blk sfs) d \<Longrightarrow> grown sfs d sfs' d' \<Longrightarrow> resized sfs d sfs' d'"
  using grown_file_byte [of sfs d sfs' d'] grown_used [of sfs d sfs' d']
  unfolding resized_def by (simp add: grown_def fs_step_def)

lemma shrunk_resized:
  assumes ok: "file_ok (used_block sfs) (blk sfs) d" and s: "shrunk sfs d sfs' d'"
  shows "resized sfs d sfs' d'"
proof -
  note S = s [unfolded shrunk_def]
  have byte: "file_byte (blk sfs') d' i = (if i < 4096 * di_blocks d then file_byte (blk sfs) d i else 0)"
    if i: "i < 4096 * di_blocks d'" for i
  proof -
    have k: "i div 4096 < di_blocks d'" using i by (simp add: less_mult_imp_div_less mult.commute)
    then have kd: "i div 4096 < di_blocks d" using S by linarith
    have u: "used_block sfs (bmap (blk sfs) d (i div 4096))" by (rule file_okD(3) [OF ok kd])
    have "bmap (blk sfs) d (i div 4096) \<noteq> di_indirect d"
      using file_okD(7) [OF ok _ kd] u by (cases "di_indirect d = 0") (auto simp: used_block_def)
    moreover have "i < 4096 * di_blocks d" using i S by linarith
    ultimately show ?thesis using S k by (simp add: file_byte_def)
  qed
  have used: "used_block sfs' b" if "used_block sfs b" "\<forall>i<di_blocks d. b \<noteq> bmap (blk sfs) d i" for b
  proof -
    have "b \<notin> free_blocks sfs'" using that S by (auto simp: used_block_def)
    then show ?thesis
      using that used_block_step [OF conjunct1 [OF S], of b] by (simp only: used_block_def simp_thms)
  qed
  show ?thesis unfolding resized_def using S byte used by (simp add: fs_step_def)
qed

lemma truncfile_outcome:
  assumes ok: "fs_ok sfs" "dev_ok sfs" and f: "file_ok (used_block sfs) (blk sfs) (din sin)"
    and size: "di_blocks (din sin) = (di_size (din sin) + 4095) div 4096" and sem: "sin_sem sin = 1"
    and len: "0 \<le> len" "len \<le> 4243456"
  shows "\<exists>ret sfs' d' b. sfs_truncfile sfs sin len = Some (ret, sfs', sin\<lparr>din := d', sin_dirty := b\<rparr>) \<and>
    resized sfs (din sin) sfs' (d'\<lparr>di_size := di_size (din sin)\<rparr>) \<and>
    (ret = 0 \<and> di_size d' = nat len \<and> di_blocks d' = (di_size d' + 4095) div 4096 \<or>
     ret = - E_NO_MEM \<and> di_size d' = di_size (din sin) \<and> grown sfs (din sin) sfs' d') \<and>
    ((nat len + 4095) div 4096 < di_blocks (din sin) + card (free_blocks sfs) \<or>
     (nat len + 4095) div 4096 \<le> di_blocks (din sin) \<longrightarrow> ret = 0)"
proof -
  define n t where "n = nat len" and "t = (n + 4095) div 4096"
  have n: "len = int n" "n \<le> 4243456" using len by (simp_all add: n_def)
  have t: "t \<le> 1036" using n by (simp add: t_def)
  have sin: "sin = sin\<lparr>din := din sin, sin_dirty := sin_dirty sin\<rparr>" by simp
  have self: "resized sfs (din sin) sfs ((din sin)\<lparr>di_size := di_size (din sin)\<rparr>)"
    using grown_resized [OF f grown_refl [OF ok f]] by simp
  let ?body = "\<lambda>(ret, sfs, sin). if ret \<noteq> 0 then Some (ret, sfs, unlock_sin sin)
      else Option.bind (kassert (di_blocks (din sin) = t))
        (\<lambda>_. Some (0, sfs, unlock_sin (sin\<lparr>din := (din sin)\<lparr>di_size := n\<rparr>, sin_dirty := True\<rparr>)))"
  let ?s0 = "sin\<lparr>sin_sem := 0\<rparr>"
  have unfold: "sfs_truncfile sfs sin len =
     (if di_size (din sin) = n then Option.bind (kassert (t = di_blocks (din sin))) (\<lambda>_. Some (0, sfs, sin))
      else Option.bind
        (if di_blocks (din sin) < t then sfs_grow_loop sfs ?s0 (di_blocks (din sin)) (t - di_blocks (din sin))
         else if t < di_blocks (din sin) then sfs_shrink_loop sfs ?s0 (di_blocks (din sin) - t)
         else Some (0, sfs, ?s0)) ?body)"
    using n sem by (simp add: sfs_truncfile_def SFS_MAX_FILE_SIZE_def SFS_BLKSIZE_def Let_def lock_sin_def
        sem_down_def t_def add.commute cong: if_cong)
  have semid: "sin\<lparr>sin_sem := 1\<rparr> = sin" using sem by simp
  show ?thesis
  proof (cases "di_size (din sin) = n")
    case True
    then have "t = di_blocks (din sin)" using size by (simp add: t_def)
    then show ?thesis using True unfold self size sin
      by (intro exI [of _ 0] exI [of _ sfs] exI [of _ "din sin"] exI [of _ "sin_dirty sin"]) (simp add: n_def)
  next
    case False
    consider "di_blocks (din sin) < t" | "t < di_blocks (din sin)" | "t = di_blocks (din sin)" by linarith
    then show ?thesis
    proof cases
      case 1
      then have le: "di_blocks (din ?s0) + (t - di_blocks (din sin)) \<le> 1036" using t by simp
      obtain ret s1 d1 b1 where s1: "sfs_grow_loop sfs ?s0 (di_blocks (din sin)) (t - di_blocks (din sin)) =
            Some (ret, s1, ?s0\<lparr>din := d1, sin_dirty := b1\<rparr>)"
          "grown sfs (din sin) s1 d1"
          "ret = 0 \<and> di_blocks d1 = di_blocks (din sin) + (t - di_blocks (din sin)) \<or>
           ret = - E_NO_MEM \<and> di_blocks d1 < di_blocks (din sin) + (t - di_blocks (din sin))"
          "t - di_blocks (din sin) + (if di_indirect (din sin) = 0 then 1 else 0) \<le> card (free_blocks sfs) \<longrightarrow> ret = 0"
        using grow_loop_outcome [OF ok _ le] f by auto
      have r: "resized sfs (din sin) s1 d1" by (rule grown_resized [OF f s1(2)])
      have sz: "di_size d1 = di_size (din sin)" by (rule grown_D(6) [OF s1(2)])
      have enough: "t < di_blocks (din sin) + card (free_blocks sfs) \<or> t \<le> di_blocks (din sin) \<longrightarrow> ret = 0"
        using s1(4) 1 by (auto split: if_splits)
      show ?thesis
      proof (cases "ret = 0")
        case True
        have eq: "sfs_truncfile sfs sin len = Some (0, s1, sin\<lparr>din := d1\<lparr>di_size := n\<rparr>, sin_dirty := True\<rparr>)"
          using unfold False 1 s1(1,3) True semid sem
          by (simp add: unlock_sin_def sem_up_def E_NO_MEM_def)
        show ?thesis
          using eq r sz s1(3) True 1
          by (intro exI [of _ 0] exI [of _ s1] exI [of _ "d1\<lparr>di_size := n\<rparr>"] exI [of _ True])
            (auto simp: n_def t_def E_NO_MEM_def resized_def)
      next
        case no: False
        have eq: "sfs_truncfile sfs sin len = Some (ret, s1, sin\<lparr>din := d1, sin_dirty := b1\<rparr>)"
          using unfold False 1 s1(1) no semid sem by (simp add: unlock_sin_def sem_up_def)
        show ?thesis
          using eq r sz s1(2,3) no enough
          by (intro exI [of _ ret] exI [of _ s1] exI [of _ d1] exI [of _ b1])
            (auto simp: n_def t_def resized_def)
      qed
    next
      case 2
      obtain s1 d1 b1 where s1: "sfs_shrink_loop sfs ?s0 (di_blocks (din sin) - t) =
            Some (0, s1, ?s0\<lparr>din := d1, sin_dirty := b1\<rparr>)"
          "shrunk sfs (din sin) s1 d1" "di_blocks d1 = di_blocks (din sin) - (di_blocks (din sin) - t)"
        using shrink_loop_outcome [OF ok, of ?s0 "di_blocks (din sin) - t"] f by auto
      have r: "resized sfs (din sin) s1 d1" by (rule shrunk_resized [OF f s1(2)])
      have eq: "sfs_truncfile sfs sin len = Some (0, s1, sin\<lparr>din := d1\<lparr>di_size := n\<rparr>, sin_dirty := True\<rparr>)"
        using unfold False 2 s1(1,3) semid sem by (simp add: unlock_sin_def sem_up_def)
      show ?thesis
        using eq r s1(3) 2
        by (intro exI [of _ 0] exI [of _ s1] exI [of _ "d1\<lparr>di_size := n\<rparr>"] exI [of _ True])
          (auto simp: n_def t_def resized_def)
    next
      case 3
      have eq: "sfs_truncfile sfs sin len = Some (0, sfs, sin\<lparr>din := (din sin)\<lparr>di_size := n\<rparr>, sin_dirty := True\<rparr>)"
        using unfold False 3 semid sem by (simp add: unlock_sin_def sem_up_def)
      show ?thesis
        using eq self 3
        by (intro exI [of _ 0] exI [of _ sfs] exI [of _ "(din sin)\<lparr>di_size := n\<rparr>"] exI [of _ True])
          (auto simp: n_def t_def resized_def)
    qed
  qed
qed

end

section \<open>The file system on disk0\<close>

definition disk_block :: "(disk0, 'z) sfs_fs_scheme \<Rightarrow> nat \<Rightarrow> byte list" where
  "disk_block sfs = block_at disk_byte (d_state (fs_dev sfs))"

definition sfs_mounted :: "(disk0, 'z) sfs_fs_scheme \<Rightarrow> bool" where
  "sfs_mounted sfs \<longleftrightarrow> fs_ok sfs \<and> d_io (fs_dev sfs) = disk0_io \<and>
     disk0_ready (d_blocks (fs_dev sfs)) (d_state (fs_dev sfs))"

definition sfs_file :: "(disk0, 'z) sfs_fs_scheme \<Rightarrow> sfs_disk_inode \<Rightarrow> bool" where
  "sfs_file sfs d \<longleftrightarrow> file_ok (used_block sfs) (disk_block sfs) d \<and> di_blocks d = (di_size d + 4095) div 4096"

definition in_file :: "(disk0, 'z) sfs_fs_scheme \<Rightarrow> sfs_disk_inode \<Rightarrow> nat \<Rightarrow> bool" where
  "in_file sfs d b \<longleftrightarrow> b = di_indirect d \<or> (\<exists>i<di_blocks d. b = bmap (disk_block sfs) d i)"

text \<open>
  C28: Resizing a well-formed file that nobody holds, to at most 1036 blocks on a disk with room for
  the new blocks, returns 0. The file has the new size and is again well-formed; the bytes that
  its old blocks held are kept, the added blocks are zero; the blocks of all other files stay
  in use and unchanged.
\<close>

theorem sfs_truncfile_resizes:
  assumes "sfs_mounted sfs" "sfs_file sfs (din sin)" "sin_sem sin = 1" "0 \<le> len" "len \<le> 4243456"
    "(nat len + 4095) div 4096 < di_blocks (din sin) + card (free_blocks sfs) \<or>
     (nat len + 4095) div 4096 \<le> di_blocks (din sin)"
  shows "\<exists>sfs' sin'. sfs_truncfile sfs sin len = Some (0, sfs', sin') \<and> sfs_mounted sfs' \<and>
    sfs_file sfs' (din sin') \<and> di_size (din sin') = nat len \<and> sin_sem sin' = 1 \<and>
    (\<forall>i<4096 * di_blocks (din sin'). file_byte (disk_block sfs') (din sin') i =
       (if i < 4096 * di_blocks (din sin) then file_byte (disk_block sfs) (din sin) i else 0)) \<and>
    (\<forall>b. used_block sfs b \<and> \<not> in_file sfs (din sin) b \<longrightarrow>
       used_block sfs' b \<and> disk_block sfs' b = disk_block sfs b)"
proof -
  have ok: "fs_ok sfs" "d_io (fs_dev sfs) = disk0_io \<and> disk0_ready (d_blocks (fs_dev sfs)) (d_state (fs_dev sfs))"
    and f: "file_ok (used_block sfs) (block_at disk_byte (d_state (fs_dev sfs))) (din sin)"
    and size: "di_blocks (din sin) = (di_size (din sin) + 4095) div 4096"
    using assms(1,2) by (simp_all add: sfs_mounted_def sfs_file_def disk_block_def)
  obtain sfs' d' b where r: "sfs_truncfile sfs sin len = Some (0, sfs', sin\<lparr>din := d', sin_dirty := b\<rparr>)"
      "d0.resized sfs (din sin) sfs' (d'\<lparr>di_size := di_size (din sin)\<rparr>)"
      "di_size d' = nat len" "di_blocks d' = (di_size d' + 4095) div 4096"
    using d0.truncfile_outcome [OF ok f size assms(3-5)] assms(6) by (auto simp: E_NO_MEM_def)
  have "sfs_mounted sfs'" "sfs_file sfs' d'"
    using r by (simp_all add: sfs_mounted_def sfs_file_def disk_block_def d0.resized_def)
  then show ?thesis
    using r assms(3) by (intro exI [of _ sfs'] exI [of _ "sin\<lparr>din := d', sin_dirty := b\<rparr>"])
      (auto simp: d0.resized_def disk_block_def in_file_def)
qed

text \<open>
  C34: \<open>sfs_tryseek\<close> accepts every position below \<open>SFS_MAX_FILE_SIZE\<close> (128 MiB) and grows the file up to
  it, but the block map ends after 12 direct and 1024 indirect blocks. A seek of a well-formed file
  to any position past 1036 blocks, on a disk with room for 1036 blocks, stops the machine in
  \<open>sfs_bmap_get_nolock\<close>.
\<close>

theorem sfs_tryseek_limit_panics:
  assumes "sfs_mounted sfs" "sfs_file sfs (din sin)" "sin_sem sin = 1"
    "4243456 < pos" "pos < int SFS_MAX_FILE_SIZE" "1037 \<le> di_blocks (din sin) + card (free_blocks sfs)"
  shows "sfs_tryseek sfs sin pos = None"
proof -
  have ok: "fs_ok sfs" "d_io (fs_dev sfs) = disk0_io \<and> disk0_ready (d_blocks (fs_dev sfs)) (d_state (fs_dev sfs))"
    and f: "file_ok (used_block sfs) (block_at disk_byte (d_state (fs_dev sfs))) (din sin)"
    and size: "di_blocks (din sin) = (di_size (din sin) + 4095) div 4096"
    using assms(1,2) by (simp_all add: sfs_mounted_def sfs_file_def disk_block_def)
  define n t where "n = nat pos" and "t = (n + 4095) div 4096"
  have n: "pos = int n" "4243456 < n" "n < 134217728" using assms(4,5) by (simp_all add: n_def SFS_MAX_FILE_SIZE_def)
  have t: "1036 < t" using n by (simp add: t_def)
  have le: "di_blocks (din sin) \<le> 1036" by (rule file_okD(2) [OF f])
  then have small: "di_size (din sin) < n" using size n by linarith
  have loop: "sfs_grow_loop sfs (sin\<lparr>sin_sem := 0\<rparr>) (di_blocks (din sin)) (t - di_blocks (din sin)) = None"
    using d0.grow_loop_limit [of sfs "sin\<lparr>sin_sem := 0\<rparr>" "t - di_blocks (din sin)"] ok f t le assms(6) by simp
  have lt: "di_blocks (din sin) < t" using le t by simp
  have "sfs_truncfile sfs sin pos = None"
    using n small lt loop assms(3)
    by (simp add: sfs_truncfile_def SFS_MAX_FILE_SIZE_def SFS_BLKSIZE_def Let_def lock_sin_def sem_down_def
        add.commute flip: t_def)
  then show ?thesis using n small by (simp add: sfs_tryseek_def SFS_MAX_FILE_SIZE_def)
qed

text \<open>
  When a resize stops because the disk is full after it has added blocks, the recorded size stays
  but the number of blocks does not: the assertion \<open>tblks == din->blocks\<close> then stops the machine in
  the next resize to the recorded size, for example when an empty file is opened for truncation.
\<close>

theorem sfs_truncfile_full_disk_panics_later:
  assumes "sfs_mounted sfs" "sfs_file sfs (din sin)" "sin_sem sin = 1" "0 \<le> len" "len \<le> 4243456"
    "sfs_truncfile sfs sin len = Some (ret, sfs', sin')" "ret \<noteq> 0" "di_blocks (din sin') \<noteq> di_blocks (din sin)"
  shows "ret = - E_NO_MEM \<and> di_size (din sin') = di_size (din sin) \<and>
    sfs_truncfile sfs' sin' (int (di_size (din sin'))) = None"
proof -
  have ok: "fs_ok sfs" "d_io (fs_dev sfs) = disk0_io \<and> disk0_ready (d_blocks (fs_dev sfs)) (d_state (fs_dev sfs))"
    and f: "file_ok (used_block sfs) (block_at disk_byte (d_state (fs_dev sfs))) (din sin)"
    and size: "di_blocks (din sin) = (di_size (din sin) + 4095) div 4096"
    using assms(1,2) by (simp_all add: sfs_mounted_def sfs_file_def disk_block_def)
  obtain s1 d1 b where r: "sfs_truncfile sfs sin len = Some (ret, s1, sin\<lparr>din := d1, sin_dirty := b\<rparr>)"
      "ret = - E_NO_MEM" "di_size d1 = di_size (din sin)"
    using d0.truncfile_outcome [OF ok f size assms(3-5)] assms(6,7) by auto
  have eq: "din sin' = d1" using r(1) assms(6) by auto
  have "di_blocks (din sin) \<le> 1036" by (rule file_okD(2) [OF f])
  then have "di_size (din sin) \<le> 134217728" using size by linarith
  then have "sfs_truncfile sfs' sin' (int (di_size (din sin'))) = None"
    using eq r(3) size assms(8) by (simp add: sfs_truncfile_def SFS_MAX_FILE_SIZE_def SFS_BLKSIZE_def Let_def add.commute)
  then show ?thesis using r eq by simp
qed

text \<open>An empty file in a file system of \<open>n\<close> blocks, of which block 0 alone is in use.\<close>

definition example_inode :: sfs_inode where
  "example_inode = \<lparr>din = \<lparr>di_size = 0, di_type = SFS_TYPE_FILE, di_nlinks = 1, di_blocks = 0,
      di_direct = replicate 12 0, di_indirect = 0\<rparr>, sin_ino = 1, sin_dirty = False, reclaim_count = 1, sin_sem = 1\<rparr>"

lemma example_inode_simps [simp]:
  "di_size (din example_inode) = 0" "di_blocks (din example_inode) = 0" "sin_sem example_inode = 1"
  "di_indirect (din example_inode) = 0" "di_type (din example_inode) = 1"
  by (simp_all add: example_inode_def SFS_TYPE_FILE_def)

lemma example_file: "sfs_file sfs (din example_inode)"
  by (auto simp: sfs_file_def file_ok_def bmap_def example_inode_def)

lemma example_mounted:
  assumes "2 \<le> n" "n \<le> 2000"
  obtains sfs :: "disk0 sfs_fs" where "sfs_mounted sfs" "card (free_blocks sfs) = n - 1"
proof -
  obtain bm0 where bm0: "bitmap_create True True n = Some (Some bm0)" "bitmap_ok bm0"
    "free_bits bm0 = {0..<n}" "nbits bm0 = n" "nwords bm0 = (n + WORD_BITS - 1) div WORD_BITS"
    by (rule bitmap_create_spec [of n]) (use assms in auto)
  have ne: "free_bits bm0 \<noteq> {}" using bm0(3) assms by auto
  have min0: "Min (free_bits bm0) = 0" unfolding bm0(3) by (rule Min_eqI) (use assms in auto)
  obtain bm1 where a: "bitmap_alloc bm0 = Some (bm1, 0, Some (Min (free_bits bm0)))" "bitmap_ok bm1"
      "free_bits bm1 = free_bits bm0 - {Min (free_bits bm0)}" "nbits bm1 = nbits bm0" "nwords bm1 = nwords bm0"
    by (rule bitmap_alloc_some [OF bm0(2) ne])
  have free: "free_bits bm1 = {1..<n}" unfolding a(3) min0 unfolding bm0(3) by auto
  have bm1: "bitmap_ok bm1" "nbits bm1 = n" by (rule a(2)) (rule trans [OF a(4) bm0(4)])
  let ?sfs = "\<lparr>super = \<lparr>s_magic = SFS_MAGIC, s_blocks = n, s_unused = n - 1, s_info = replicate 32 0\<rparr>,
      fs_dev = \<lparr>d_blocks = n, d_blocksize = 4096, d_io = disk0_io, d_state = example_disk\<rparr>,
      freemap = bm1, super_dirty = False, sfs_buffer = replicate 4096 0, fs_sem = 1, io_sem = 1, mutex_sem = 1\<rparr>"
  show thesis
  proof (rule that [of ?sfs])
    show "sfs_mounted ?sfs"
      using bm1 free assms example_disk_ready [of n] by (simp add: sfs_mounted_def fs_ok_def)
    show "card (free_blocks ?sfs) = n - 1" using free by (simp add: free_blocks_def)
  qed
qed

theorem sfs_truncfile_resizes_witness:
  "\<exists>(sfs :: disk0 sfs_fs) sfs' sin'. sfs_truncfile sfs example_inode 5000 = Some (0, sfs', sin') \<and>
     di_size (din sin') = 5000 \<and> di_blocks (din sin') = 2"
proof -
  obtain sfs :: "disk0 sfs_fs" where sfs: "sfs_mounted sfs" "card (free_blocks sfs) = 9"
    using example_mounted [of 10] by auto
  obtain sfs' sin' where r: "sfs_truncfile sfs example_inode 5000 = Some (0, sfs', sin')"
      "sfs_file sfs' (din sin')" "di_size (din sin') = 5000"
    using sfs_truncfile_resizes [OF sfs(1) example_file, of 5000] sfs(2) by auto
  then have "di_blocks (din sin') = 2" by (simp add: sfs_file_def)
  then show ?thesis using r by blast
qed

theorem sfs_tryseek_limit_panics_witness:
  "\<exists>sfs :: disk0 sfs_fs. sfs_mounted sfs \<and> sfs_tryseek sfs example_inode 5000000 = None"
proof -
  obtain sfs :: "disk0 sfs_fs" where sfs: "sfs_mounted sfs" "card (free_blocks sfs) = 1999"
    using example_mounted [of 2000] by auto
  have "sfs_tryseek sfs example_inode 5000000 = None"
    by (rule sfs_tryseek_limit_panics [OF sfs(1) example_file]) (use sfs(2) in \<open>simp_all add: SFS_MAX_FILE_SIZE_def\<close>)
  then show ?thesis using sfs(1) by blast
qed

theorem sfs_truncfile_full_disk_panics_later_witness:
  "\<exists>(sfs :: disk0 sfs_fs) sfs' sin'. sfs_mounted sfs \<and>
     sfs_truncfile sfs example_inode 8192 = Some (- E_NO_MEM, sfs', sin') \<and> sfs_truncfile sfs' sin' 0 = None"
proof -
  obtain sfs :: "disk0 sfs_fs" where sfs: "sfs_mounted sfs" "card (free_blocks sfs) = 1"
    using example_mounted [of 2] by auto
  let ?s0 = "example_inode\<lparr>sin_sem := 0\<rparr>"
  have ok: "fs_ok sfs" "d_io (fs_dev sfs) = disk0_io \<and> disk0_ready (d_blocks (fs_dev sfs)) (d_state (fs_dev sfs))"
    and f: "file_ok (used_block sfs) (block_at disk_byte (d_state (fs_dev sfs))) (din ?s0)"
    using sfs(1) example_file [of sfs] by (simp_all add: sfs_mounted_def sfs_file_def disk_block_def)
  obtain ret s1 d1 b1 where s1: "sfs_grow_loop sfs ?s0 0 2 = Some (ret, s1, ?s0\<lparr>din := d1, sin_dirty := b1\<rparr>)"
      "d0.grown sfs (din ?s0) s1 d1" "ret = 0 \<and> di_blocks d1 = 2 \<or> ret = - E_NO_MEM \<and> di_blocks d1 < 2"
      "d0.room_for sfs (din ?s0) 0 \<longrightarrow> 0 < di_blocks d1"
    using d0.grow_loop_outcome [OF ok f, of 2] by auto
  have "di_blocks d1 \<le> 1" using d0.grown_card [OF ok(1) s1(2)] sfs(2) by simp
  then have ret: "ret = - E_NO_MEM" "di_blocks d1 = 1"
    using s1(3,4) sfs(2) by (auto simp: d0.room_for_def)
  let ?sin = "example_inode\<lparr>din := d1, sin_dirty := b1\<rparr>"
  have sem: "sin_sem example_inode = 1" by simp
  have eq: "sfs_truncfile sfs example_inode 8192 = Some (- E_NO_MEM, s1, ?sin)"
    using s1(1) ret(1)
    by (simp add: sfs_truncfile_def SFS_MAX_FILE_SIZE_def SFS_BLKSIZE_def Let_def lock_sin_def unlock_sin_def
        sem_down_def sem_up_def E_NO_MEM_def numeral_2_eq_2)
  have n: "- E_NO_MEM \<noteq> 0" by (simp add: E_NO_MEM_def)
  have blocks: "di_blocks (din ?sin) \<noteq> di_blocks (din example_inode)" using ret(2) by simp
  have z: "di_size (din ?sin) = di_size (din example_inode)"
    and t: "sfs_truncfile s1 ?sin (int (di_size (din ?sin))) = None"
    using sfs_truncfile_full_disk_panics_later [OF sfs(1) example_file sem _ _ eq n blocks] by linarith+
  have "sfs_truncfile s1 ?sin 0 = None" using t unfolding z by simp
  then show ?thesis using sfs(1) eq by blast
qed

end
