(* ===== verification/SfsIO.thy ===== *)
theory SfsIO
imports SfsFile
begin

text \<open>
  Correctness of reading and writing a file (\<open>sfs_io_nolock\<close>, \<open>sfs_io\<close>): a read fills the buffer with
  the bytes of the abstract file, a write replaces exactly the bytes of its range, adding blocks at
  the end where needed, and reports how far it came when the disk is full.
\<close>

definition filled :: "byte list \<Rightarrow> byte list \<Rightarrow> nat \<Rightarrow> nat \<Rightarrow> (nat \<Rightarrow> byte) \<Rightarrow> bool" where
  "filled mem mem' base n g \<longleftrightarrow> length mem' = length mem \<and>
     (\<forall>k<length mem. mem' ! k = (if base \<le> k \<and> k < base + n then g (k - base) else mem ! k))"

lemma filled_0: "filled mem mem base 0 g"
  unfolding filled_def by (intro conjI allI impI refl) (subst if_not_P, linarith, simp)

lemma filled_trans:
  assumes "filled m1 m2 base n g" "filled m2 m3 (base + n) k h" "\<And>j. j < k \<Longrightarrow> h j = g (n + j)"
  shows "filled m1 m3 base (n + k) g"
  unfolding filled_def
proof (intro conjI allI impI)
  show "length m3 = length m1" using assms by (simp add: filled_def)
  fix i assume i: "i < length m1"
  then have i2: "i < length m2" using assms(1) by (simp add: filled_def)
  have 3: "m3 ! i = (if base + n \<le> i \<and> i < base + n + k then h (i - (base + n)) else m2 ! i)"
    using assms(2) i2 by (simp add: filled_def)
  have 2: "m2 ! i = (if base \<le> i \<and> i < base + n then g (i - base) else m1 ! i)"
    using assms(1) i by (simp add: filled_def)
  show "m3 ! i = (if base \<le> i \<and> i < base + (n + k) then g (i - base) else m1 ! i)"
  proof (cases "base + n \<le> i \<and> i < base + n + k")
    case True
    then have "h (i - (base + n)) = g (n + (i - (base + n)))" by (intro assms(3)) linarith
    moreover have "n + (i - (base + n)) = i - base" using True by simp
    ultimately show ?thesis using 3 True by simp
  next
    case False
    then show ?thesis using 3 2 by auto
  qed
qed

lemma filled_splice:
  assumes "length bs = n" "base + n \<le> length mem" "\<And>j. j < n \<Longrightarrow> bs ! j = g j"
  shows "filled mem (take base mem @ bs @ drop (base + n) mem) base n g"
  using assms by (auto simp: filled_def nth_append)

context block_device
begin

section \<open>Reading\<close>

lemma file_ok_step:
  assumes "fs_step sfs sfs' (free_blocks sfs) (blk sfs)" "file_ok (used_block sfs) (blk sfs) d"
  shows "file_ok (used_block sfs') (blk sfs') d"
proof -
  have "used_block sfs' = used_block sfs" using used_block_step [OF assms(1)] by (auto simp: fun_eq_iff used_block_def)
  then show ?thesis using assms fs_stepD(4) [OF assms(1)] by simp
qed

lemma file_byte_block: "off + j < 4096 \<Longrightarrow> file_byte f d (4096 * k + off + j) = f (bmap f d k) ! (off + j)"
proof -
  assume a: "off + j < 4096"
  have "(4096 * k + (off + j)) div 4096 = k" "(4096 * k + (off + j)) mod 4096 = off + j" using a by simp_all
  then show ?thesis by (simp add: file_byte_def add.assoc)
qed

lemma io_part_read:
  assumes ok: "fs_ok sfs" "dev_ok sfs" and f: "file_ok (used_block sfs) (blk sfs) (din sin)"
    and k: "k < di_blocks (din sin)" and r: "off < 4096" "off + len \<le> 4096" "base + len \<le> length mem"
  obtains sfs' mem' where "sfs_io_part sfs sin mem base len k off False = Some (0, sfs', sin, mem', len)"
    "fs_step sfs sfs' (free_blocks sfs) (blk sfs)"
    "filled mem mem' base len (\<lambda>j. file_byte (blk sfs) (din sin) (4096 * k + off + j))"
proof -
  let ?b = "bmap (blk sfs) (din sin) k"
  obtain s1 where s1: "sfs_bmap_load_nolock sfs sin k = Some (0, s1, sin, Some ?b)"
      "fs_step sfs s1 (free_blocks sfs) (blk sfs)"
    by (rule load_present [OF ok f k])
  note D = fs_stepD [OF s1(2)]
  have u: "used_block sfs ?b" by (rule file_okD(3) [OF f k])
  then have b: "0 < ?b" "?b < s_blocks (super s1)" using D(5) by (simp_all add: used_block_def)
  obtain s2 where s2: "sfs_rbuf s1 mem base len ?b off = Some (0, s2,
      take base mem @ take len (drop off (blk s1 ?b)) @ drop (base + len) mem)" "io_step s1 s2 (blk s1)"
    by (rule rbuf_spec [OF D(1,2) b r])
  have st: "fs_step sfs s2 (free_blocks sfs) (blk sfs)"
    using fs_step_trans [OF s1(2) fs_step_io [OF s2(2)]] D(3,4) by simp
  show thesis
  proof (rule that [OF _ st])
    show "sfs_io_part sfs sin mem base len k off False = Some (0, s2, sin,
        take base mem @ take len (drop off (blk s1 ?b)) @ drop (base + len) mem, len)"
      by (simp add: sfs_io_part_def s1(1) s2(1))
    show "filled mem (take base mem @ take len (drop off (blk s1 ?b)) @ drop (base + len) mem) base len
        (\<lambda>j. file_byte (blk sfs) (din sin) (4096 * k + off + j))"
      by (rule filled_splice) (use r D(4) in \<open>simp_all add: file_byte_block\<close>)
  qed
qed

lemma io_full_read:
  assumes "fs_ok sfs" "dev_ok sfs" "file_ok (used_block sfs) (blk sfs) (din sin)"
    "k + n \<le> di_blocks (din sin)" "base + 4096 * n \<le> length mem"
  shows "\<exists>sfs' mem'. sfs_io_full sfs sin mem base k (k + n) False alen = Some (0, sfs', sin, mem', alen + 4096 * n) \<and>
    fs_step sfs sfs' (free_blocks sfs) (blk sfs) \<and>
    filled mem mem' base (4096 * n) (\<lambda>j. file_byte (blk sfs) (din sin) (4096 * k + j))"
  using assms
proof (induction n arbitrary: sfs mem base k alen)
  case 0
  then show ?case using fs_step_refl by (simp add: sfs_io_full.simps filled_0)
next
  case (Suc n)
  let ?b = "bmap (blk sfs) (din sin) k"
  have k: "k < di_blocks (din sin)" using Suc.prems(4) by simp
  obtain s1 where s1: "sfs_bmap_load_nolock sfs sin k = Some (0, s1, sin, Some ?b)"
      "fs_step sfs s1 (free_blocks sfs) (blk sfs)"
    by (rule load_present [OF Suc.prems(1-3) k])
  note D = fs_stepD [OF s1(2)]
  have u: "used_block sfs ?b" by (rule file_okD(3) [OF Suc.prems(3) k])
  then have b: "0 < ?b" "?b < s_blocks (super s1)" using D(5) by (simp_all add: used_block_def)
  have r: "base + 4096 \<le> length mem" using Suc.prems(5) by simp
  let ?mem = "take base mem @ blk s1 ?b @ drop (base + 4096) mem"
  obtain s2 where s2: "sfs_rblock s1 mem base ?b 1 = Some (0, s2, ?mem)" "io_step s1 s2 (blk s1)"
    by (rule rblock_spec [OF D(1,2) b r])
  have st: "fs_step sfs s2 (free_blocks sfs) (blk sfs)"
    using fs_step_trans [OF s1(2) fs_step_io [OF s2(2)]] D(3,4) by simp
  note D2 = fs_stepD [OF st]
  have f2: "file_ok (used_block s2) (blk s2) (din sin)" by (rule file_ok_step [OF st Suc.prems(3)])
  have fill: "filled mem ?mem base 4096 (\<lambda>j. file_byte (blk sfs) (din sin) (4096 * k + j))"
  proof (rule filled_splice)
    fix j :: nat assume "j < 4096"
    then show "blk s1 ?b ! j = file_byte (blk sfs) (din sin) (4096 * k + j)"
      using file_byte_block [of 0 j "blk sfs" "din sin" k] D(4) by simp
  qed (use r in simp_all)
  have p: "k + 1 + n \<le> di_blocks (din sin)" "base + 4096 + 4096 * n \<le> length ?mem"
    using Suc.prems(4,5) r by simp_all
  obtain s3 mem3 where s3: "sfs_io_full s2 sin ?mem (base + 4096) (k + 1) (k + 1 + n) False (alen + 4096) =
        Some (0, s3, sin, mem3, alen + 4096 + 4096 * n)"
      "fs_step s2 s3 (free_blocks s2) (blk s2)"
      "filled ?mem mem3 (base + 4096) (4096 * n) (\<lambda>j. file_byte (blk s2) (din sin) (4096 * (k + 1) + j))"
    using Suc.IH [OF D2(1,2) f2 p] by blast
  have "sfs_io_full sfs sin mem base k (k + Suc n) False alen = Some (0, s3, sin, mem3, alen + 4096 * Suc n)"
    using s1(1) s2(1) s3(1) by (subst sfs_io_full.simps) (simp add: SFS_BLKSIZE_def add.assoc)
  moreover have "fs_step sfs s3 (free_blocks sfs) (blk sfs)" using fs_step_trans [OF st s3(2)] D2(3,4) by simp
  moreover have "filled mem mem3 base (4096 + 4096 * n) (\<lambda>j. file_byte (blk sfs) (din sin) (4096 * k + j))"
    by (rule filled_trans [OF fill s3(3)]) (simp add: D2(4) algebra_simps)
  ultimately show ?case by (metis add_mult_distrib2 mult_Suc_right)
qed

lemma io_steps_read:
  assumes ok: "fs_ok sfs" "dev_ok sfs" and f: "file_ok (used_block sfs) (blk sfs) (din sin)"
    and r: "offset < endpos" "endpos \<le> 4096 * di_blocks (din sin)" "base + (endpos - offset) \<le> length mem"
    and ne: "offset div 4096 \<noteq> endpos div 4096"
  shows "\<exists>sfs' mem'. sfs_io_steps sfs sin mem base offset endpos False = Some (0, sfs', sin, mem', endpos - offset) \<and>
    fs_step sfs sfs' (free_blocks sfs) (blk sfs) \<and>
    filled mem mem' base (endpos - offset) (\<lambda>j. file_byte (blk sfs) (din sin) (offset + j))"
proof -
  define k e bo l where "k = offset div 4096" and "e = endpos div 4096" and "bo = offset mod 4096" and "l = endpos mod 4096"
  have off: "offset = 4096 * k + bo" "bo < 4096" and en: "endpos = 4096 * e + l" "l < 4096"
    by (simp_all add: k_def bo_def e_def l_def)
  have ke: "k < e" using ne div_le_mono [of offset endpos 4096] r(1) by (simp add: k_def e_def)
  have eb: "e \<le> di_blocks (din sin)" "l \<noteq> 0 \<Longrightarrow> e < di_blocks (din sin)" using r(2) en by linarith+
  define n1 where "n1 = (if bo \<noteq> 0 then 4096 - bo else 0)"
  define k1 where "k1 = (if bo \<noteq> 0 then k + 1 else k)"
  have k1: "k1 \<le> e" "4096 * k1 = offset + n1" using ke off by (auto simp: k1_def n1_def)
  let ?g = "\<lambda>j. file_byte (blk sfs) (din sin) (offset + j)"
  have sz: "n1 + 4096 * (e - k1) + l = endpos - offset"
  proof -
    have "4096 * (e - k1) = 4096 * e - (offset + n1)" using k1 by (simp add: diff_mult_distrib2)
    moreover have "offset + n1 \<le> 4096 * e" using k1 by (metis mult_le_mono2)
    ultimately show ?thesis using en by linarith
  qed
  obtain s1 m1 where s1: "(if bo \<noteq> 0 then sfs_io_part sfs sin mem base (4096 - bo) k bo False
        else Some (0, sfs, sin, mem, 0)) = Some (0, s1, sin, m1, n1)"
      "fs_step sfs s1 (free_blocks sfs) (blk sfs)" "filled mem m1 base n1 ?g"
  proof (cases "bo = 0")
    case True
    then show thesis using that [of sfs mem] fs_step_refl [OF ok] by (simp add: n1_def filled_0)
  next
    case False
    have kb: "k < di_blocks (din sin)" using ke eb by linarith
    have b: "bo < 4096" "bo + (4096 - bo) \<le> 4096" "base + (4096 - bo) \<le> length mem"
      using off(2) r(3) sz False by (simp_all add: n1_def)
    obtain s' m' where "sfs_io_part sfs sin mem base (4096 - bo) k bo False = Some (0, s', sin, m', 4096 - bo)"
        "fs_step sfs s' (free_blocks sfs) (blk sfs)"
        "filled mem m' base (4096 - bo) (\<lambda>j. file_byte (blk sfs) (din sin) (4096 * k + bo + j))"
      by (rule io_part_read [OF ok f kb b])
    then show thesis using that [of s' m'] False off(1) by (simp add: n1_def)
  qed
  note D1 = fs_stepD [OF s1(2)]
  have f1: "file_ok (used_block s1) (blk s1) (din sin)" by (rule file_ok_step [OF s1(2) f])
  have len1: "length m1 = length mem" using s1(3) by (simp add: filled_def)
  have p1: "k1 + (e - k1) \<le> di_blocks (din sin)" "base + n1 + 4096 * (e - k1) \<le> length m1"
    using k1 eb r(3) sz len1 by linarith+
  obtain s2 m2 where s2: "sfs_io_full s1 sin m1 (base + n1) k1 (k1 + (e - k1)) False n1 =
        Some (0, s2, sin, m2, n1 + 4096 * (e - k1))"
      "fs_step s1 s2 (free_blocks s1) (blk s1)"
      "filled m1 m2 (base + n1) (4096 * (e - k1)) (\<lambda>j. file_byte (blk s1) (din sin) (4096 * k1 + j))"
    using io_full_read [OF D1(1,2) f1 p1] by blast
  have st2: "fs_step sfs s2 (free_blocks sfs) (blk sfs)" using fs_step_trans [OF s1(2) s2(2)] D1(3,4) by simp
  note D2 = fs_stepD [OF st2]
  have f2: "file_ok (used_block s2) (blk s2) (din sin)" by (rule file_ok_step [OF st2 f])
  have fill2: "filled mem m2 base (n1 + 4096 * (e - k1)) ?g"
    by (rule filled_trans [OF s1(3) s2(3)]) (simp add: D1(4) k1(2) add.assoc)
  have len2: "length m2 = length mem" using fill2 by (simp add: filled_def)
  have full: "sfs_io_full s1 sin m1 (base + n1) k1 e False n1 = Some (0, s2, sin, m2, n1 + 4096 * (e - k1))"
    using s2(1) k1(1) by simp
  show ?thesis
  proof (cases "l = 0")
    case True
    have "sfs_io_steps sfs sin mem base offset endpos False = Some (0, s2, sin, m2, endpos - offset)"
      using full s1(1) True sz
      unfolding sfs_io_steps_def Let_def SFS_BLKSIZE_def k_def [symmetric] e_def [symmetric] bo_def [symmetric] l_def [symmetric]
        k1_def [symmetric] by simp
    then show ?thesis using st2 fill2 True sz by simp
  next
    case False
    have b: "(0::nat) < 4096" "0 + l \<le> 4096" "base + (n1 + 4096 * (e - k1)) + l \<le> length m2"
      using en(2) r(3) sz len2 by simp_all
    obtain s3 m3 where s3: "sfs_io_part s2 sin m2 (base + (n1 + 4096 * (e - k1))) l e 0 False = Some (0, s3, sin, m3, l)"
        "fs_step s2 s3 (free_blocks s2) (blk s2)"
        "filled m2 m3 (base + (n1 + 4096 * (e - k1))) l (\<lambda>j. file_byte (blk s2) (din sin) (4096 * e + 0 + j))"
      by (rule io_part_read [OF D2(1,2) f2 eb(2) [OF False] b])
    have e_eq: "4096 * e = offset + (n1 + 4096 * (e - k1))" using sz en r(1) by linarith
    have "sfs_io_steps sfs sin mem base offset endpos False = Some (0, s3, sin, m3, endpos - offset)"
      using full s1(1) False sz s3(1)
      unfolding sfs_io_steps_def Let_def SFS_BLKSIZE_def k_def [symmetric] e_def [symmetric] bo_def [symmetric] l_def [symmetric]
        k1_def [symmetric] by simp
    moreover have "fs_step sfs s3 (free_blocks sfs) (blk sfs)" using fs_step_trans [OF st2 s3(2)] D2(3,4) by simp
    moreover have "filled mem m3 base (n1 + 4096 * (e - k1) + l) ?g"
      by (rule filled_trans [OF fill2 s3(3)]) (simp add: D2(4) e_eq add.assoc)
    ultimately show ?thesis using sz by auto
  qed
qed

section \<open>Writing\<close>

definition written :: "('d, 'z) sfs_fs_scheme \<Rightarrow> sfs_disk_inode \<Rightarrow> ('d, 'z) sfs_fs_scheme \<Rightarrow> sfs_disk_inode \<Rightarrow>
    nat \<Rightarrow> nat \<Rightarrow> (nat \<Rightarrow> byte) \<Rightarrow> bool" where
  "written sfs d sfs' d' off n g \<longleftrightarrow> fs_step sfs sfs' (free_blocks sfs') (blk sfs') \<and>
     file_ok (used_block sfs') (blk sfs') d' \<and> di_blocks d \<le> di_blocks d' \<and>
     di_size d' = di_size d \<and> di_type d' = di_type d \<and> di_nlinks d' = di_nlinks d \<and>
     free_blocks sfs' \<subseteq> free_blocks sfs \<and> (n = 0 \<or> off + n \<le> 4096 * di_blocks d') \<and>
     (\<forall>i<di_blocks d. bmap (blk sfs') d' i = bmap (blk sfs) d i) \<and>
     (\<forall>i<di_blocks d'. di_blocks d \<le> i \<longrightarrow> bmap (blk sfs') d' i \<in> free_blocks sfs) \<and>
     (di_indirect d' = di_indirect d \<or> di_indirect d = 0 \<and> di_indirect d' \<in> free_blocks sfs) \<and>
     (\<forall>i<4096 * di_blocks d'. file_byte (blk sfs') d' i = (if off \<le> i \<and> i < off + n then g (i - off)
        else if i < 4096 * di_blocks d then file_byte (blk sfs) d i else 0)) \<and>
     (\<forall>b. used_block sfs b \<and> b \<noteq> di_indirect d \<and> (\<forall>i<di_blocks d. b \<noteq> bmap (blk sfs) d i) \<longrightarrow>
        blk sfs' b = blk sfs b)"

lemma written_D:
  assumes "written sfs d sfs' d' off n g"
  shows "fs_ok sfs'" "dev_ok sfs'" "file_ok (used_block sfs') (blk sfs') d'" "di_blocks d \<le> di_blocks d'"
  using assms by (simp_all add: written_def fs_step_def)

lemma grown_written:
  assumes ok: "file_ok (used_block sfs) (blk sfs) d" and g: "grown sfs d sfs' d'"
  shows "written sfs d sfs' d' off 0 h"
proof -
  have "file_byte (blk sfs') d' i = (if off \<le> i \<and> i < off + 0 then h (i - off)
      else if i < 4096 * di_blocks d then file_byte (blk sfs) d i else 0)" if "i < 4096 * di_blocks d'" for i
    using grown_file_byte [OF ok g that] by (subst if_not_P) linarith+
  then show ?thesis using g unfolding written_def grown_def by blast
qed

lemma written_used: "written sfs d sfs' d' off n g \<Longrightarrow> used_block sfs b \<Longrightarrow> used_block sfs' b"
  unfolding written_def used_block_def fs_step_def by auto

lemma written_trans:
  assumes g: "written a d b e off n g" and h: "written b e c k (off + n) m h"
    and x: "\<And>j. j < n \<Longrightarrow> x j = g j" "\<And>j. j < m \<Longrightarrow> x (n + j) = h j"
  shows "written a d c k off (n + m) x"
proof -
  note G = g [unfolded written_def] and H = h [unfolded written_def]
  have st: "fs_step a c (free_blocks c) (blk c)" by (rule fs_step_trans [OF conjunct1 [OF G] conjunct1 [OF H]])
  have le: "di_blocks d \<le> di_blocks e" "di_blocks e \<le> di_blocks k" using G H by simp_all
  have bm: "bmap (blk c) k i = bmap (blk a) d i" if "i < di_blocks d" for i using G H le that by simp
  have new: "bmap (blk c) k i \<in> free_blocks a" if "i < di_blocks k" "di_blocks d \<le> i" for i
    using G H le that by (cases "i < di_blocks e") auto
  have ind: "di_indirect k = di_indirect d \<or> di_indirect d = 0 \<and> di_indirect k \<in> free_blocks a" using G H by auto
  have range: "n + m = 0 \<or> off + (n + m) \<le> 4096 * di_blocks k" using G H le by linarith
  have bytes: "file_byte (blk c) k i = (if off \<le> i \<and> i < off + (n + m) then x (i - off)
      else if i < 4096 * di_blocks d then file_byte (blk a) d i else 0)" if i: "i < 4096 * di_blocks k" for i
  proof -
    have 2: "file_byte (blk c) k i = (if off + n \<le> i \<and> i < off + n + m then h (i - (off + n))
        else if i < 4096 * di_blocks e then file_byte (blk b) e i else 0)" using H i by blast
    have 1: "file_byte (blk b) e i = (if off \<le> i \<and> i < off + n then g (i - off)
        else if i < 4096 * di_blocks d then file_byte (blk a) d i else 0)" if "i < 4096 * di_blocks e" using G that by blast
    have rng: "n = 0 \<or> off + n \<le> 4096 * di_blocks e" using G by blast
    consider "off + n \<le> i" "i < off + n + m" | "off \<le> i" "i < off + n" | "i < off \<or> off + n + m \<le> i" by linarith
    then show ?thesis
    proof cases
      case 1
      then have "x (n + (i - (off + n))) = h (i - (off + n))" by (intro x(2)) linarith
      moreover have "n + (i - (off + n)) = i - off" using 1 by simp
      ultimately show ?thesis using 2 1 by simp
    next
      case c2: 2
      then have "i < 4096 * di_blocks e" using rng by linarith
      moreover have "x (i - off) = g (i - off)" by (rule x(1)) (use c2 in linarith)
      ultimately show ?thesis using 2 1 c2 by simp
    next
      case 3
      then show ?thesis using 2 1 le by auto
    qed
  qed
  have other: "blk c y = blk a y" if y: "used_block a y" "y \<noteq> di_indirect d" "\<forall>i<di_blocks d. y \<noteq> bmap (blk a) d i" for y
  proof -
    have "blk b y = blk a y" using G y by blast
    moreover have "used_block b y" by (rule written_used [OF g y(1)])
    moreover have "y \<noteq> di_indirect e" using G y(1,2) by (auto simp: used_block_def)
    moreover have "y \<noteq> bmap (blk b) e i" if "i < di_blocks e" for i
      using G y that by (cases "i < di_blocks d") (auto simp: used_block_def)
    ultimately show ?thesis using H by metis
  qed
  have rest: "file_ok (used_block c) (blk c) k" "di_size k = di_size d" "di_type k = di_type d" "di_nlinks k = di_nlinks d"
    "free_blocks c \<subseteq> free_blocks a" using G H by auto
  show ?thesis unfolding written_def using st rest le range bm new ind bytes other by (meson le_trans)
qed

lemma written_refl:
  "fs_ok sfs \<Longrightarrow> dev_ok sfs \<Longrightarrow> file_ok (used_block sfs) (blk sfs) d \<Longrightarrow> written sfs d sfs d off 0 h"
  by (intro grown_written grown_refl)

text \<open>Storing bytes in one block of the file.\<close>

lemma file_block_free_of_others:
  assumes f: "file_ok used f d" and k: "k < di_blocks d" and u: "\<not> used 0"
  shows "bmap f d k \<noteq> di_indirect d"
  using file_okD(7) [OF f _ k] file_okD(3) [OF f k] u by (cases "di_indirect d = 0") metis+

lemma written_block:
  assumes ok: "fs_ok sfs" "dev_ok sfs" and f: "file_ok (used_block sfs) (blk sfs) d" and k: "k < di_blocks d"
    and io: "io_step sfs sfs' ((blk sfs)(bmap (blk sfs) d k := nb))"
    and nb: "\<And>i. i < 4096 \<Longrightarrow> nb ! i = (if bo \<le> i \<and> i < bo + n then g (i - bo) else blk sfs (bmap (blk sfs) d k) ! i)"
    and r: "bo + n \<le> 4096"
  shows "written sfs d sfs' d (4096 * k + bo) n g"
proof -
  let ?b = "bmap (blk sfs) d k"
  have st: "fs_step sfs sfs' (free_blocks sfs) ((blk sfs)(?b := nb))" by (rule fs_step_io [OF io])
  note D = fs_stepD [OF st]
  have ne: "?b \<noteq> di_indirect d" by (rule file_block_free_of_others [OF f k]) (simp add: used_block_def)
  have used: "used_block sfs' = used_block sfs" using used_block_step [OF st] by (auto simp: fun_eq_iff used_block_def)
  have ind: "(blk sfs)(?b := nb) = blk sfs'" using D(4) by simp
  have eq: "file_ok (used_block sfs') (blk sfs') d" "bmap (blk sfs') d = bmap (blk sfs) d"
    by (rule file_ok_cong [where f' = "blk sfs'" and used' = "used_block sfs'", OF f]; use D(4) ne used in simp)+
  have bytes: "file_byte (blk sfs') d i = (if 4096 * k + bo \<le> i \<and> i < 4096 * k + bo + n then g (i - (4096 * k + bo))
      else if i < 4096 * di_blocks d then file_byte (blk sfs) d i else 0)" if i: "i < 4096 * di_blocks d" for i
  proof -
    define q j where "q = i div 4096" and "j = i mod 4096"
    have ij: "i = 4096 * q + j" "j < 4096" by (simp_all add: q_def j_def)
    have q: "q < di_blocks d" using i ij by linarith
    have fb: "file_byte (blk sfs') d i = ((blk sfs)(?b := nb)) (bmap (blk sfs) d q) ! j"
        "file_byte (blk sfs) d i = blk sfs (bmap (blk sfs) d q) ! j"
      using eq(2) D(4) by (simp_all add: file_byte_def q_def j_def)
    show ?thesis
    proof (cases "q = k")
      case True
      have "4096 * k + bo \<le> i \<and> i < 4096 * k + bo + n \<longleftrightarrow> bo \<le> j \<and> j < bo + n" using ij True by auto
      moreover have "i - (4096 * k + bo) = j - bo" using ij True by simp
      ultimately show ?thesis using i nb [OF ij(2)] True unfolding fb by simp
    next
      case False
      have "bmap (blk sfs) d q \<noteq> ?b" using inj_onD [OF file_okD(5) [OF f], of q k] False q k by auto
      moreover have "\<not> (4096 * k + bo \<le> i \<and> i < 4096 * k + bo + n)"
      proof (cases "q < k")
        case True then show ?thesis using ij by linarith
      next
        case f2: False
        then have "k + 1 \<le> q" using False by simp
        then show ?thesis using ij r by linarith
      qed
      ultimately show ?thesis using i unfolding fb by auto
    qed
  qed
  have "4096 * k + bo + n \<le> 4096 * di_blocks d" using k r by linarith
  then show ?thesis
    unfolding written_def using fs_step_io [OF io] eq bytes D(3,4) k by (auto simp: used_block_def)
qed

text \<open>Room for a file of \<open>e\<close> blocks: enough free blocks for the missing ones and for an indirect block.\<close>

definition credit :: "('d, 'z) sfs_fs_scheme \<Rightarrow> sfs_disk_inode \<Rightarrow> nat \<Rightarrow> bool" where
  "credit sfs d e \<longleftrightarrow> e \<le> di_blocks d \<or>
     e + (if di_indirect d = 0 then 1 else 0) \<le> di_blocks d + card (free_blocks sfs)"

lemma credit_room: "credit sfs d e \<Longrightarrow> di_blocks d < e \<Longrightarrow> room_for sfs d (di_blocks d)"
  by (auto simp: credit_def room_for_def)

text \<open>Finding the block at index \<open>k\<close> for writing.\<close>

lemma load_for_write:
  assumes ok: "fs_ok sfs" "dev_ok sfs" and f: "file_ok (used_block sfs) (blk sfs) (din sin)"
    and k: "k \<le> di_blocks (din sin)" "k < 1036"
  shows "\<exists>ret sfs' d' b ix. sfs_bmap_load_nolock sfs sin k = Some (ret, sfs', sin\<lparr>din := d', sin_dirty := b\<rparr>, ix) \<and>
    grown sfs (din sin) sfs' d' \<and>
    (ret = 0 \<and> k < di_blocks d' \<and> di_blocks d' \<le> max (di_blocks (din sin)) (k + 1) \<and> ix = Some (bmap (blk sfs') d' k) \<or>
     ret = - E_NO_MEM) \<and>
    (\<forall>e. credit sfs (din sin) e \<and> k < e \<longrightarrow> ret = 0 \<and> credit sfs' d' e)"
proof -
  have self: "sin = sin\<lparr>din := din sin, sin_dirty := sin_dirty sin\<rparr>" by simp
  show ?thesis
  proof (cases "k < di_blocks (din sin)")
    case True
    obtain s1 where s1: "sfs_bmap_load_nolock sfs sin k = Some (0, s1, sin, Some (bmap (blk sfs) (din sin) k))"
        "fs_step sfs s1 (free_blocks sfs) (blk sfs)"
      by (rule load_present [OF ok f True])
    note D = fs_stepD [OF s1(2)]
    have u: "used_block s1 = used_block sfs" using used_block_step [OF s1(2)] by (auto simp: fun_eq_iff used_block_def)
    have g: "grown sfs (din sin) s1 (din sin)"
      unfolding grown_def using s1(2) f D u by simp
    have c: "credit sfs (din sin) e \<Longrightarrow> credit s1 (din sin) e" for e using D(3) by (simp add: credit_def)
    show ?thesis
      by (rule exI [of _ 0], rule exI [of _ s1], rule exI [of _ "din sin"], rule exI [of _ "sin_dirty sin"],
          rule exI [of _ "Some (bmap (blk sfs) (din sin) k)"]) (use s1(1) g True D(4) c in simp)
  next
    case False
    then have ki: "k = di_blocks (din sin)" using k(1) by simp
    then have i: "di_blocks (din sin) < 1036" using k(2) by simp
    show ?thesis
    proof (cases "room_for sfs (din sin) (di_blocks (din sin))")
      case room: True
      obtain s1 ino d1 b1 where s1: "sfs_bmap_load_nolock sfs sin (di_blocks (din sin)) =
            Some (0, s1, sin\<lparr>din := d1, sin_dirty := b1\<rparr>, Some ino)"
          "grown sfs (din sin) s1 d1" "di_blocks d1 = di_blocks (din sin) + 1"
          "ino = bmap (blk s1) d1 (di_blocks (din sin))"
          "card (free_blocks sfs) \<le> card (free_blocks s1) + (if di_indirect d1 = di_indirect (din sin) then 1 else 2)"
        by (rule load_new [OF ok f i room])
      have ind: "di_indirect d1 = di_indirect (din sin) \<or> di_indirect (din sin) = 0 \<and> di_indirect d1 \<in> free_blocks sfs"
        using s1(2) by (simp add: grown_def)
      have z: "di_indirect d1 \<noteq> 0" if "di_indirect d1 \<in> free_blocks sfs"
        using fs_ok_facts(2) [OF ok(1) that] by simp
      have c: "credit s1 d1 e" if "credit sfs (din sin) e" for e
      proof (cases "di_indirect d1 = di_indirect (din sin)")
        case True then show ?thesis using that s1(3,5) by (auto simp: credit_def)
      next
        case False
        then have "di_indirect d1 \<noteq> 0" "di_indirect (din sin) = 0" using ind z by auto
        then show ?thesis using that s1(3,5) by (auto simp: credit_def)
      qed
      show ?thesis
        by (rule exI [of _ 0], rule exI [of _ s1], rule exI [of _ d1], rule exI [of _ b1], rule exI [of _ "Some ino"])
          (use s1 ki c in simp)
    next
      case full: False
      obtain s1 where s1: "sfs_bmap_load_nolock sfs sin (di_blocks (din sin)) = Some (- E_NO_MEM, s1, sin, None)"
          "grown sfs (din sin) s1 (din sin)" "free_blocks s1 = free_blocks sfs"
        by (rule load_full [OF ok f i full])
      have nc: "\<not> (credit sfs (din sin) e \<and> k < e)" for e using credit_room [of sfs "din sin" e] full ki by auto
      have eq: "sfs_bmap_load_nolock sfs sin k =
          Some (- E_NO_MEM, s1, sin\<lparr>din := din sin, sin_dirty := sin_dirty sin\<rparr>, None)"
        using s1(1) ki by simp
      show ?thesis
        by (rule exI [of _ "- E_NO_MEM"], rule exI [of _ s1], rule exI [of _ "din sin"], rule exI [of _ "sin_dirty sin"],
            rule exI [of _ None]) (use eq s1(2) nc in blast)
    qed
  qed
qed

text \<open>The outcome of a write of \<open>len\<close> bytes at \<open>off\<close> taken from \<open>mem\<close> at \<open>base\<close>, of which \<open>n\<close> were stored.\<close>

definition write_result :: "('d, 'z) sfs_fs_scheme \<Rightarrow> sfs_inode \<Rightarrow> byte list \<Rightarrow> nat \<Rightarrow> nat \<Rightarrow> nat \<Rightarrow>
    ('d, 'z) io_result option \<Rightarrow> nat \<Rightarrow> bool" where
  "write_result sfs sin mem base off len res alen \<longleftrightarrow>
     (\<exists>ret sfs' d' b n. res = Some (ret, sfs', sin\<lparr>din := d', sin_dirty := b\<rparr>, mem, alen + n) \<and>
        written sfs (din sin) sfs' d' off n (\<lambda>j. mem ! (base + j)) \<and>
        (ret = 0 \<and> n = len \<and> di_blocks d' \<le> max (di_blocks (din sin)) (if len = 0 then 0 else (off + len + 4095) div 4096) \<or>
         ret = - E_NO_MEM \<and> n \<le> len) \<and>
        (\<forall>e. credit sfs (din sin) e \<and> off + len \<le> 4096 * e \<longrightarrow> ret = 0 \<and> credit sfs' d' e))"

lemma io_part_write:
  assumes ok: "fs_ok sfs" "dev_ok sfs" and f: "file_ok (used_block sfs) (blk sfs) (din sin)"
    and k: "k \<le> di_blocks (din sin)" "k < 1036"
    and r: "bo < 4096" "bo + len \<le> 4096" "base + len \<le> length mem" "0 < len"
  shows "write_result sfs sin mem base (4096 * k + bo) len (sfs_io_part sfs sin mem base len k bo True) 0"
proof -
  obtain ret s1 d1 b1 ix where s1: "sfs_bmap_load_nolock sfs sin k = Some (ret, s1, sin\<lparr>din := d1, sin_dirty := b1\<rparr>, ix)"
      "grown sfs (din sin) s1 d1"
      "ret = 0 \<and> k < di_blocks d1 \<and> di_blocks d1 \<le> max (di_blocks (din sin)) (k + 1) \<and> ix = Some (bmap (blk s1) d1 k) \<or>
       ret = - E_NO_MEM"
      "\<forall>e. credit sfs (din sin) e \<and> k < e \<longrightarrow> ret = 0 \<and> credit s1 d1 e"
    using load_for_write [OF ok f k] by blast
  note G = grown_D [OF s1(2)]
  have w1: "written sfs (din sin) s1 d1 (4096 * k + bo) 0 h" for h by (rule grown_written [OF f s1(2)])
  have ke: "k < e" if "4096 * k + bo + len \<le> 4096 * e" for e using that r(4) by linarith
  show ?thesis
  proof (cases "ret = 0")
    case False
    then have ret: "ret = - E_NO_MEM" using s1(3) by blast
    have "sfs_io_part sfs sin mem base len k bo True = Some (- E_NO_MEM, s1, sin\<lparr>din := d1, sin_dirty := b1\<rparr>, mem, 0 + 0)"
      using s1(1) ret by (simp add: sfs_io_part_def E_NO_MEM_def)
    moreover have "\<forall>e. credit sfs (din sin) e \<and> 4096 * k + bo + len \<le> 4096 * e \<longrightarrow> False"
      using s1(4) False ke by blast
    ultimately show ?thesis unfolding write_result_def using w1 by blast
  next
    case True
    let ?b = "bmap (blk s1) d1 k"
    have kb: "k < di_blocks d1" and ix: "ix = Some ?b" and top: "di_blocks d1 \<le> max (di_blocks (din sin)) (k + 1)"
      using s1(3) True by (auto simp: E_NO_MEM_def)
    have u: "used_block s1 ?b" by (rule file_okD(3) [OF G(3) kb])
    then have b: "0 < ?b" "?b < s_blocks (super s1)" by (simp_all add: used_block_def)
    obtain s2 where s2: "sfs_wbuf s1 mem base len ?b bo = Some (0, s2, mem)"
        "io_step s1 s2 ((blk s1)(?b := put_at bo (take len (drop base mem)) (blk s1 ?b)))"
      by (rule wbuf_spec [OF G(1,2) b r(1-3)])
    have w2: "written s1 d1 s2 d1 (4096 * k + bo) len (\<lambda>j. mem ! (base + j))"
    proof (rule written_block [OF G(1-3) kb s2(2) _ r(2)])
      fix i :: nat assume "i < 4096"
      then show "put_at bo (take len (drop base mem)) (blk s1 ?b) ! i =
          (if bo \<le> i \<and> i < bo + len then mem ! (base + (i - bo)) else blk s1 ?b ! i)"
        using r by (auto simp: nth_put_at)
    qed
    have w: "written sfs (din sin) s2 d1 (4096 * k + bo) (0 + len) (\<lambda>j. mem ! (base + j))"
      by (rule written_trans [OF w1 [of "\<lambda>j. mem ! (base + j)"]]) (use w2 in simp_all)
    have c: "credit s2 d1 e" if "credit s1 d1 e" for e
      using that fs_stepD(3) [OF fs_step_io [OF s2(2)]] by (simp add: credit_def)
    have eq: "sfs_io_part sfs sin mem base len k bo True = Some (0, s2, sin\<lparr>din := d1, sin_dirty := b1\<rparr>, mem, 0 + len)"
      using s1(1) True s2(1) ix by (simp add: sfs_io_part_def)
    have "k + 1 \<le> (4096 * k + bo + len + 4095) div 4096" using r(4) by linarith
    then have "di_blocks d1 \<le> max (di_blocks (din sin)) (if len = 0 then 0 else (4096 * k + bo + len + 4095) div 4096)"
      using top r(4) by simp
    moreover have "\<forall>e. credit sfs (din sin) e \<and> 4096 * k + bo + len \<le> 4096 * e \<longrightarrow> (0::int) = 0 \<and> credit s2 d1 e"
      using s1(4) ke c by blast
    ultimately show ?thesis unfolding write_result_def using eq w by auto
  qed
qed

lemma write_result_then:
  assumes w: "written sfs (din sin) s1 d1 off l1 (\<lambda>j. mem ! (base + j))"
    and b: "di_blocks d1 \<le> max (di_blocks (din sin)) (if l1 = 0 then 0 else (off + l1 + 4095) div 4096)"
    and c: "\<And>e. credit sfs (din sin) e \<Longrightarrow> off + l1 \<le> 4096 * e \<Longrightarrow> credit s1 d1 e"
    and r: "write_result s1 (sin\<lparr>din := d1, sin_dirty := b1\<rparr>) mem (base + l1) (off + l1) l2 res (a + l1)"
  shows "write_result sfs sin mem base off (l1 + l2) res a"
proof -
  obtain ret s2 d2 b2 n where R: "res = Some (ret, s2, sin\<lparr>din := d2, sin_dirty := b2\<rparr>, mem, a + l1 + n)"
      "written s1 d1 s2 d2 (off + l1) n (\<lambda>j. mem ! (base + l1 + j))"
      "ret = 0 \<and> n = l2 \<and> di_blocks d2 \<le> max (di_blocks d1) (if l2 = 0 then 0 else (off + l1 + l2 + 4095) div 4096) \<or>
       ret = - E_NO_MEM \<and> n \<le> l2"
      "\<forall>e. credit s1 d1 e \<and> off + l1 + l2 \<le> 4096 * e \<longrightarrow> ret = 0 \<and> credit s2 d2 e"
    using r unfolding write_result_def by (auto simp: add.assoc)
  have wr: "written sfs (din sin) s2 d2 off (l1 + n) (\<lambda>j. mem ! (base + j))"
    by (rule written_trans [OF w R(2)]) (simp_all add: add.assoc)
  have mono: "(off + l1 + 4095) div 4096 \<le> (off + (l1 + l2) + 4095) div 4096" by (rule div_le_mono) simp
  have bound: "di_blocks d2 \<le> max (di_blocks (din sin)) (if l1 + l2 = 0 then 0 else (off + (l1 + l2) + 4095) div 4096)"
    if "ret = 0"
  proof -
    have 2: "di_blocks d2 \<le> max (di_blocks d1) (if l2 = 0 then 0 else (off + l1 + l2 + 4095) div 4096)"
      using R(3) that by (auto simp: E_NO_MEM_def)
    show ?thesis using 2 b mono by (auto simp: add.assoc split: if_splits)
  qed
  have out: "ret = 0 \<and> l1 + n = l1 + l2 \<and>
        di_blocks d2 \<le> max (di_blocks (din sin)) (if l1 + l2 = 0 then 0 else (off + (l1 + l2) + 4095) div 4096) \<or>
      ret = - E_NO_MEM \<and> l1 + n \<le> l1 + l2" using R(3) bound by auto
  have cr: "\<forall>e. credit sfs (din sin) e \<and> off + (l1 + l2) \<le> 4096 * e \<longrightarrow> ret = 0 \<and> credit s2 d2 e"
  proof (intro allI impI)
    fix e assume e: "credit sfs (din sin) e \<and> off + (l1 + l2) \<le> 4096 * e"
    then have "credit s1 d1 e" by (intro c) auto
    moreover have "off + l1 + l2 \<le> 4096 * e" using e by linarith
    ultimately show "ret = 0 \<and> credit s2 d2 e" using R(4) by blast
  qed
  have "res = Some (ret, s2, sin\<lparr>din := d2, sin_dirty := b2\<rparr>, mem, a + (l1 + n))" using R(1) by (simp add: add.assoc)
  then show ?thesis unfolding write_result_def using wr out cr by blast
qed

lemma write_result_stop:
  assumes "written sfs (din sin) s1 d1 off n (\<lambda>j. mem ! (base + j))" "n \<le> len"
    "\<And>e. credit sfs (din sin) e \<Longrightarrow> off + len \<le> 4096 * e \<Longrightarrow> False"
  shows "write_result sfs sin mem base off len (Some (- E_NO_MEM, s1, sin\<lparr>din := d1, sin_dirty := b1\<rparr>, mem, a + n)) a"
  unfolding write_result_def using assms by blast

lemma write_result_nothing:
  assumes "fs_ok sfs" "dev_ok sfs" "file_ok (used_block sfs) (blk sfs) (din sin)"
  shows "write_result sfs sin mem base off 0 (Some (0, sfs, sin, mem, a)) a"
proof -
  have "sin = sin\<lparr>din := din sin, sin_dirty := sin_dirty sin\<rparr>" by simp
  moreover have "written sfs (din sin) sfs (din sin) off 0 (\<lambda>j. mem ! (base + j))" by (rule written_refl [OF assms])
  ultimately show ?thesis unfolding write_result_def
    by (intro exI [of _ 0] exI [of _ sfs] exI [of _ "din sin"] exI [of _ "sin_dirty sin"]) auto
qed

lemma io_full_write:
  assumes "fs_ok sfs" "dev_ok sfs" "file_ok (used_block sfs) (blk sfs) (din sin)"
    "k \<le> di_blocks (din sin)" "k + n \<le> 1036" "base + 4096 * n \<le> length mem"
  shows "write_result sfs sin mem base (4096 * k) (4096 * n) (sfs_io_full sfs sin mem base k (k + n) True a) a"
  using assms
proof (induction n arbitrary: sfs sin base k a)
  case 0
  then show ?case using write_result_nothing [OF 0(1-3)] by (simp add: sfs_io_full.simps)
next
  case (Suc n)
  have k: "k < 1036" using Suc.prems(5) by simp
  obtain ret s1 d1 b1 ix where s1: "sfs_bmap_load_nolock sfs sin k = Some (ret, s1, sin\<lparr>din := d1, sin_dirty := b1\<rparr>, ix)"
      "grown sfs (din sin) s1 d1"
      "ret = 0 \<and> k < di_blocks d1 \<and> di_blocks d1 \<le> max (di_blocks (din sin)) (k + 1) \<and> ix = Some (bmap (blk s1) d1 k) \<or>
       ret = - E_NO_MEM"
      "\<forall>e. credit sfs (din sin) e \<and> k < e \<longrightarrow> ret = 0 \<and> credit s1 d1 e"
    using load_for_write [OF Suc.prems(1-4) k] by blast
  note G = grown_D [OF s1(2)]
  have w1: "written sfs (din sin) s1 d1 (4096 * k) 0 h" for h by (rule grown_written [OF Suc.prems(3) s1(2)])
  have ke: "k < e" if "4096 * k + 4096 * Suc n \<le> 4096 * e" for e
  proof -
    have "4096 * (k + Suc n) \<le> 4096 * e" using that by (simp only: distrib_left)
    then show ?thesis by simp
  qed
  have lt: "k < k + Suc n" by simp
  show ?case
  proof (cases "ret = 0")
    case False
    then have ret: "ret = - E_NO_MEM" using s1(3) by blast
    have eq: "sfs_io_full sfs sin mem base k (k + Suc n) True a =
        Some (- E_NO_MEM, s1, sin\<lparr>din := d1, sin_dirty := b1\<rparr>, mem, a + 0)"
      using s1(1) ret by (subst sfs_io_full.simps) (simp add: E_NO_MEM_def)
    show ?thesis unfolding eq
      by (rule write_result_stop [OF w1]) (use s1(4) False ke in auto)
  next
    case True
    let ?b = "bmap (blk s1) d1 k"
    have kb: "k < di_blocks d1" and ix: "ix = Some ?b" and top: "di_blocks d1 \<le> max (di_blocks (din sin)) (k + 1)"
      using s1(3) True by (auto simp: E_NO_MEM_def)
    have u: "used_block s1 ?b" by (rule file_okD(3) [OF G(3) kb])
    then have b: "0 < ?b" "?b < s_blocks (super s1)" by (simp_all add: used_block_def)
    have r: "base + 4096 \<le> length mem" using Suc.prems(6) by simp
    obtain s2 where s2: "sfs_wblock s1 mem base ?b 1 = Some (0, s2, mem)"
        "io_step s1 s2 ((blk s1)(?b := take 4096 (drop base mem)))"
      by (rule wblock_spec [OF G(1,2) b r])
    have w2: "written s1 d1 s2 d1 (4096 * k + 0) 4096 (\<lambda>j. mem ! (base + j))"
      by (rule written_block [OF G(1-3) kb s2(2)]) (use r in simp_all)
    have w: "written sfs (din sin) s2 d1 (4096 * k) (0 + 4096) (\<lambda>j. mem ! (base + j))"
      by (rule written_trans [OF w1 [of "\<lambda>j. mem ! (base + j)"]]) (use w2 in simp_all)
    note W = written_D [OF w]
    have c: "credit s2 d1 e" if "credit sfs (din sin) e" "4096 * k + 4096 \<le> 4096 * e" for e
    proof -
      have "k < e" using that(2) by simp
      then have "credit s1 d1 e" using s1(4) that(1) by blast
      then show ?thesis using fs_stepD(3) [OF fs_step_io [OF s2(2)]] by (simp add: credit_def)
    qed
    let ?sin = "sin\<lparr>din := d1, sin_dirty := b1\<rparr>"
    have p: "fs_ok s2" "dev_ok s2" "file_ok (used_block s2) (blk s2) (din ?sin)" "k + 1 \<le> di_blocks (din ?sin)"
        "k + 1 + n \<le> 1036" "base + 4096 + 4096 * n \<le> length mem"
      using W kb Suc.prems(5,6) by simp_all
    have ih: "write_result s2 ?sin mem (base + 4096) (4096 * (k + 1)) (4096 * n)
        (sfs_io_full s2 ?sin mem (base + 4096) (k + 1) (k + 1 + n) True (a + 4096)) (a + 4096)"
      by (rule Suc.IH [OF p])
    have eq: "sfs_io_full sfs sin mem base k (k + Suc n) True a =
        sfs_io_full s2 ?sin mem (base + 4096) (k + 1) (k + 1 + n) True (a + 4096)"
      using s1(1) True s2(1) ix by (subst sfs_io_full.simps) (simp add: SFS_BLKSIZE_def)
    have bound: "di_blocks d1 \<le> max (di_blocks (din sin)) (if (4096 :: nat) = 0 then 0 else (4096 * k + 4096 + 4095) div 4096)"
      using top by simp
    have "write_result sfs sin mem base (4096 * k) (4096 + 4096 * n)
        (sfs_io_full s2 ?sin mem (base + 4096) (k + 1) (k + 1 + n) True (a + 4096)) a"
    proof (rule write_result_then [OF _ bound c])
      show "written sfs (din sin) s2 d1 (4096 * k) 4096 (\<lambda>j. mem ! (base + j))" using w by simp
      show "write_result s2 ?sin mem (base + 4096) (4096 * k + 4096) (4096 * n)
          (sfs_io_full s2 ?sin mem (base + 4096) (k + 1) (k + 1 + n) True (a + 4096)) (a + 4096)"
        using ih by (simp add: algebra_simps)
    qed
    then show ?thesis unfolding eq by simp
  qed
qed

lemma write_result_shift:
  assumes "write_result sfs sin mem base off len res 0"
  shows "write_result sfs sin mem base off len
    (Option.bind res (\<lambda>(ret, sfs, sin, mem, n). Some (ret, sfs, sin, mem, a + n))) a"
  using assms unfolding write_result_def by fastforce

lemma write_resultE:
  assumes "write_result sfs sin mem base off len res a"
  obtains (stored) s1 d1 b1 where "res = Some (0, s1, sin\<lparr>din := d1, sin_dirty := b1\<rparr>, mem, a + len)"
      "written sfs (din sin) s1 d1 off len (\<lambda>j. mem ! (base + j))"
      "di_blocks d1 \<le> max (di_blocks (din sin)) (if len = 0 then 0 else (off + len + 4095) div 4096)"
      "\<And>e. credit sfs (din sin) e \<Longrightarrow> off + len \<le> 4096 * e \<Longrightarrow> credit s1 d1 e"
    | (full) s1 d1 b1 n where "res = Some (- E_NO_MEM, s1, sin\<lparr>din := d1, sin_dirty := b1\<rparr>, mem, a + n)"
      "written sfs (din sin) s1 d1 off n (\<lambda>j. mem ! (base + j))" "n \<le> len"
      "\<And>e. credit sfs (din sin) e \<Longrightarrow> off + len \<le> 4096 * e \<Longrightarrow> False"
proof -
  obtain ret s1 d1 b1 n where R: "res = Some (ret, s1, sin\<lparr>din := d1, sin_dirty := b1\<rparr>, mem, a + n)"
      "written sfs (din sin) s1 d1 off n (\<lambda>j. mem ! (base + j))"
      "ret = 0 \<and> n = len \<and> di_blocks d1 \<le> max (di_blocks (din sin)) (if len = 0 then 0 else (off + len + 4095) div 4096) \<or>
       ret = - E_NO_MEM \<and> n \<le> len"
      "\<forall>e. credit sfs (din sin) e \<and> off + len \<le> 4096 * e \<longrightarrow> ret = 0 \<and> credit s1 d1 e"
    using assms unfolding write_result_def by blast
  show thesis
  proof (cases "ret = 0")
    case True
    then have "n = len" using R(3) by (auto simp: E_NO_MEM_def)
    then show thesis using R True by (intro stored [of s1 b1 d1]) (auto simp: E_NO_MEM_def)
  next
    case False
    then have "ret = - E_NO_MEM" "n \<le> len" using R(3) by auto
    then show thesis using full R(1,2,4) False by blast
  qed
qed

lemma io_steps_write:
  fixes sfs :: "('d, 'c) sfs_fs_scheme"
  assumes ok: "fs_ok sfs" "dev_ok sfs" and f: "file_ok (used_block sfs) (blk sfs) (din sin)"
    and r: "offset < endpos" "endpos \<le> 4096 * 1036" "base + (endpos - offset) \<le> length mem"
    and pos: "offset \<le> 4096 * di_blocks (din sin)" and ne: "offset div 4096 \<noteq> endpos div 4096"
  shows "write_result sfs sin mem base offset (endpos - offset) (sfs_io_steps sfs sin mem base offset endpos True) 0"
proof -
  define k e bo l where "k = offset div 4096" and "e = endpos div 4096" and "bo = offset mod 4096" and "l = endpos mod 4096"
  have off: "offset = 4096 * k + bo" "bo < 4096" and en: "endpos = 4096 * e + l" "l < 4096"
    by (simp_all add: k_def bo_def e_def l_def)
  have ke: "k < e" using ne div_le_mono [of offset endpos 4096] r(1) by (simp add: k_def e_def)
  have kb: "k \<le> di_blocks (din sin)" using pos off by linarith
  have e1036: "e \<le> 1036" "l \<noteq> 0 \<Longrightarrow> e < 1036" using r(2) en by linarith+
  define n1 where "n1 = (if bo \<noteq> 0 then 4096 - bo else 0)"
  define k1 where "k1 = (if bo \<noteq> 0 then k + 1 else k)"
  have k1: "k1 \<le> e" "4096 * k1 = offset + n1" using ke off by (auto simp: k1_def n1_def)
  define m2 where "m2 = n1 + 4096 * (e - k1)"
  have e_eq: "4096 * e = offset + m2" using k1 by (simp add: m2_def diff_mult_distrib2)
  have sz: "m2 + l = endpos - offset" using e_eq en r(1) by linarith
  define first where "first = (if bo \<noteq> 0 then sfs_io_part sfs sin mem base (4096 - bo) k bo True else Some (0, sfs, sin, mem, 0))"
  define rest where "rest = (\<lambda>(ret, sfs, sin, mem, alen). if ret \<noteq> 0 then Some (ret, sfs, sin, mem, alen)
         else if l \<noteq> 0 then Option.bind (sfs_io_part sfs sin mem (base + alen) l e 0 True)
             (\<lambda>(ret, sfs, sin, mem, n). Some (ret, sfs, sin, mem, alen + n))
         else Some (0 :: int, sfs :: ('d, 'c) sfs_fs_scheme, sin, mem :: byte list, alen))"
  have steps: "sfs_io_steps sfs sin mem base offset endpos True = Option.bind first
      (\<lambda>(ret, sfs, sin, mem, alen). if ret \<noteq> 0 then Some (ret, sfs, sin, mem, alen)
        else Option.bind (sfs_io_full sfs sin mem (base + alen) k1 e True alen) rest)"
    unfolding sfs_io_steps_def Let_def SFS_BLKSIZE_def k_def [symmetric] e_def [symmetric] bo_def [symmetric] l_def [symmetric]
      k1_def [symmetric] first_def rest_def by (simp cong: if_cong)
  have F: "write_result sfs sin mem base offset n1 first 0"
  proof (cases "bo = 0")
    case True
    then show ?thesis using write_result_nothing [OF ok f] by (simp add: n1_def first_def)
  next
    case False
    have "write_result sfs sin mem base (4096 * k + bo) (4096 - bo) (sfs_io_part sfs sin mem base (4096 - bo) k bo True) 0"
    proof (rule io_part_write [OF ok f kb])
      show "k < 1036" using ke e1036 by linarith
      show "base + (4096 - bo) \<le> length mem" using r(3) sz False by (simp add: n1_def m2_def)
    qed (use off in simp_all)
    then show ?thesis using False off(1) by (simp add: n1_def first_def)
  qed
  from F show ?thesis
  proof (cases rule: write_resultE)
    case (full s1 d1 b1 n)
    have nz: "- E_NO_MEM \<noteq> 0" by (simp add: E_NO_MEM_def)
    have eq: "sfs_io_steps sfs sin mem base offset endpos True =
        Some (- E_NO_MEM, s1, sin\<lparr>din := d1, sin_dirty := b1\<rparr>, mem, 0 + n)"
      unfolding steps using full(1) nz by simp
    show ?thesis unfolding eq
    proof (rule write_result_stop [OF full(2)])
      show "n \<le> endpos - offset" using full(3) sz by (simp add: m2_def)
      fix x assume "credit sfs (din sin) x" "offset + (endpos - offset) \<le> 4096 * x"
      then show False using full(4) [of x] sz by (simp add: m2_def)
    qed
  next
    case (stored s1 d1 b1)
    note D = written_D [OF stored(2)]
    let ?sin1 = "sin\<lparr>din := d1, sin_dirty := b1\<rparr>"
    have k1b: "k1 \<le> di_blocks d1"
    proof (cases "n1 = 0")
      case True
      then have "k1 = k" using off by (auto simp: n1_def k1_def split: if_splits)
      then show ?thesis using kb D(4) by simp
    next
      case False
      then have "offset + n1 \<le> 4096 * di_blocks d1" using stored(2) by (simp add: written_def)
      then show ?thesis using k1(2) by simp
    qed
    have p: "fs_ok s1" "dev_ok s1" "file_ok (used_block s1) (blk s1) (din ?sin1)" "k1 \<le> di_blocks (din ?sin1)"
        "k1 + (e - k1) \<le> 1036" "base + n1 + 4096 * (e - k1) \<le> length mem"
      using D k1b k1(1) e1036 r(3) sz by (simp_all add: m2_def)
    have full: "write_result s1 ?sin1 mem (base + n1) (offset + n1) (4096 * (e - k1))
        (sfs_io_full s1 ?sin1 mem (base + n1) k1 e True n1) (0 + n1)"
      using io_full_write [OF p, of n1] k1 by simp
    have W: "write_result sfs sin mem base offset m2 (sfs_io_full s1 ?sin1 mem (base + n1) k1 e True n1) 0"
      unfolding m2_def by (rule write_result_then [OF stored(2) _ _ full]) (use stored(3,4) in auto)
    have steps1: "sfs_io_steps sfs sin mem base offset endpos True =
        Option.bind (sfs_io_full s1 ?sin1 mem (base + n1) k1 e True n1) rest"
      unfolding steps using stored(1) by simp
    from W show ?thesis
    proof (cases rule: write_resultE)
      case (full s2 d2 b2 n)
      have nz: "- E_NO_MEM \<noteq> 0" by (simp add: E_NO_MEM_def)
      have eq: "sfs_io_steps sfs sin mem base offset endpos True =
          Some (- E_NO_MEM, s2, sin\<lparr>din := d2, sin_dirty := b2\<rparr>, mem, 0 + n)"
        unfolding steps1 using full(1) nz by (simp add: rest_def)
      show ?thesis unfolding eq
      proof (rule write_result_stop [OF full(2)])
        show "n \<le> endpos - offset" using full(3) sz by simp
        fix x assume "credit sfs (din sin) x" "offset + (endpos - offset) \<le> 4096 * x"
        then show False using full(4) [of x] sz by simp
      qed
    next
      case d2: (stored s2 d2 b2)
      note D2 = written_D [OF d2(2)]
      let ?sin2 = "sin\<lparr>din := d2, sin_dirty := b2\<rparr>"
      show ?thesis
      proof (cases "l = 0")
        case True
        have eq: "sfs_io_steps sfs sin mem base offset endpos True = sfs_io_full s1 ?sin1 mem (base + n1) k1 e True n1"
          unfolding steps1 using d2(1) True by (simp add: rest_def)
        show ?thesis unfolding eq using W True sz by simp
      next
        case False
        have eb: "e \<le> di_blocks d2"
        proof (cases "m2 = 0")
          case True
          then have "4096 * e = offset" using e_eq by simp
          then show ?thesis using pos D2(4) by simp
        next
          case m0: False
          then have "offset + m2 \<le> 4096 * di_blocks d2" using d2(2) by (simp add: written_def)
          then show ?thesis using e_eq by simp
        qed
        have part: "write_result s2 ?sin2 mem (base + m2) (4096 * e + 0) l (sfs_io_part s2 ?sin2 mem (base + m2) l e 0 True) 0"
        proof (rule io_part_write)
          show "e \<le> di_blocks (din ?sin2)" using eb by simp
          show "base + m2 + l \<le> length mem" using r(3) sz by simp
        qed (use D2 e1036 False en in simp_all)
        have P: "write_result s2 ?sin2 mem (base + m2) (offset + m2) l
            (Option.bind (sfs_io_part s2 ?sin2 mem (base + m2) l e 0 True)
              (\<lambda>(ret, sfs, sin, mem, n). Some (ret, sfs, sin, mem, m2 + n))) (0 + m2)"
          using write_result_shift [OF part, of m2] e_eq by simp
        have eq: "sfs_io_steps sfs sin mem base offset endpos True =
            Option.bind (sfs_io_part s2 ?sin2 mem (base + m2) l e 0 True)
              (\<lambda>(ret, sfs, sin, mem, n). Some (ret, sfs, sin, mem, m2 + n))"
          unfolding steps1 using d2(1) False by (simp add: rest_def)
        show ?thesis unfolding eq sz [symmetric]
          by (rule write_result_then [OF d2(2) _ _ P]) (use d2(3,4) in auto)
      qed
    qed
  qed
qed

section \<open>The whole operation\<close>

lemma same_block: "off div 4096 = (off + n) div 4096 \<Longrightarrow> off mod 4096 + n \<le> (4096 :: nat)"
proof -
  assume a: "off div 4096 = (off + n) div 4096"
  have "off = 4096 * (off div 4096) + off mod 4096" "off + n = 4096 * ((off + n) div 4096) + (off + n) mod 4096"
    "(off + n) mod 4096 < 4096" by simp_all
  then show ?thesis using a by linarith
qed

lemma off_t_sum: "int a + int b < 2 ^ 63 \<Longrightarrow> signed_take_bit 63 (int a + int b) = int (a + b)"
  by (subst signed_take_bit_int_eq_self) simp_all

lemma io_nolock_read:
  assumes ok: "fs_ok sfs" "dev_ok sfs" and f: "file_ok (used_block sfs) (blk sfs) (din sin)"
    and ty: "di_type (din sin) \<noteq> SFS_TYPE_DIR" and size: "di_size (din sin) \<le> 4096 * di_blocks (din sin)"
    and n: "n = min len (di_size (din sin) - off)" "off < di_size (din sin)" "0 < len" "int off + int len < 2 ^ 63"
    and r: "base + n \<le> length mem"
  shows "\<exists>sfs' mem'. sfs_io_nolock sfs sin mem base (int off) len False = Some (0, sfs', sin, mem', n) \<and>
    fs_step sfs sfs' (free_blocks sfs) (blk sfs) \<and>
    filled mem mem' base n (\<lambda>j. file_byte (blk sfs) (din sin) (off + j))"
proof -
  have "di_blocks (din sin) \<le> 1036" by (rule file_okD(2) [OF f])
  then have s128: "di_size (din sin) \<le> 4243456" using size by linarith
  have endn: "min (off + len) (di_size (din sin)) = off + n" using n by (auto simp: min_def)
  have en: "off < off + n" "off + n \<le> 4096 * di_blocks (din sin)" "base + (off + n - off) \<le> length mem"
    using n size r by auto
  define body where "body = (if off div 4096 = (off + n) div 4096
      then sfs_io_part sfs sin mem base (off + n - off) (off div 4096) (off mod 4096) False
      else sfs_io_steps sfs sin mem base off (off + n) False)"
  have e2: "(if off + n > di_size (din sin) then di_size (din sin) else off + n) = off + n" using n by auto
  have e1: "(if int (off + len) > int SFS_MAX_FILE_SIZE then SFS_MAX_FILE_SIZE else off + len) =
      min SFS_MAX_FILE_SIZE (off + len)" by (auto simp: min_def)
  have e3: "(if min SFS_MAX_FILE_SIZE (off + len) > di_size (din sin) then di_size (din sin) else min SFS_MAX_FILE_SIZE (off + len)) = off + n"
    using endn s128 by (auto simp: SFS_MAX_FILE_SIZE_def min_def split: if_splits)
  have sum: "signed_take_bit 63 (int off + int len) = int (off + len)" by (rule off_t_sum [OF n(4)])
  have io: "sfs_io_nolock sfs sin mem base (int off) len False = Option.bind body
      (\<lambda>(ret, sfs, sin', mem, alen). Some (ret, sfs,
            if off + alen > di_size (din sin') then sin'\<lparr>din := (din sin')\<lparr>di_size := off + alen\<rparr>, sin_dirty := True\<rparr> else sin',
            mem, alen))"
  proof -
    have c: "\<not> (int off < 0 \<or> int off \<ge> int SFS_MAX_FILE_SIZE \<or> int off > int (off + len))" "\<not> int off = int (off + len)"
      "\<not> (\<not> False \<and> off \<ge> di_size (din sin))"
      using n s128 by (simp_all add: SFS_MAX_FILE_SIZE_def)
    show ?thesis
      unfolding sfs_io_nolock_def Let_def sum nat_int e1 if_not_P [OF c(1)] if_not_P [OF c(2)] if_not_P [OF c(3)]
        not_False_eq_True simp_thms(21,22) e3
      using ty n(2) by (simp add: body_def SFS_BLKSIZE_def)
  qed
  obtain s1 m1 where b: "body = Some (0, s1, sin, m1, n)" "fs_step sfs s1 (free_blocks sfs) (blk sfs)"
      "filled mem m1 base n (\<lambda>j. file_byte (blk sfs) (din sin) (off + j))"
  proof (cases "off div 4096 = (off + n) div 4096")
    case True
    have k: "off div 4096 < di_blocks (din sin)" using en by linarith
    have p: "off mod 4096 < 4096" "off mod 4096 + n \<le> 4096" "base + n \<le> length mem"
      using same_block [OF True] r by simp_all
    obtain s' m' where "sfs_io_part sfs sin mem base n (off div 4096) (off mod 4096) False = Some (0, s', sin, m', n)"
        "fs_step sfs s' (free_blocks sfs) (blk sfs)"
        "filled mem m' base n (\<lambda>j. file_byte (blk sfs) (din sin) (4096 * (off div 4096) + off mod 4096 + j))"
      by (rule io_part_read [OF ok f k p])
    then have w: "filled mem m' base n (\<lambda>j. file_byte (blk sfs) (din sin) (off + j))"
      by (simp only: mult_div_mod_eq)
    have bo: "body = Some (0, s', sin, m', n)"
      unfolding body_def if_P [OF True] using \<open>sfs_io_part sfs sin mem base n _ _ False = _\<close> by simp
    show thesis
      by (rule that [OF bo \<open>fs_step sfs s' _ _\<close> w])
  next
    case False
    then show thesis using that io_steps_read [OF ok f en False] by (auto simp: body_def)
  qed
  have "\<not> off + n > di_size (din sin)" using n by simp
  then show ?thesis using io b by auto
qed

lemma io_nolock_write:
  assumes ok: "fs_ok sfs" "dev_ok sfs" and f: "file_ok (used_block sfs) (blk sfs) (din sin)"
    and ty: "di_type (din sin) \<noteq> SFS_TYPE_DIR"
    and n: "off \<le> 4096 * di_blocks (din sin)" "0 < len" "off + len \<le> 4096 * 1036"
    and r: "base + len \<le> length mem"
  shows "\<exists>ret sfs' d' b n. sfs_io_nolock sfs sin mem base (int off) len True =
      Some (ret, sfs', sin\<lparr>din := d'\<lparr>di_size := max (di_size (din sin)) (off + n)\<rparr>, sin_dirty := b\<rparr>, mem, n) \<and>
    written sfs (din sin) sfs' d' off n (\<lambda>j. mem ! (base + j)) \<and>
    (ret = 0 \<and> n = len \<and> di_blocks d' \<le> max (di_blocks (din sin)) ((off + len + 4095) div 4096) \<or>
     ret = - E_NO_MEM \<and> n \<le> len \<and> (\<forall>e. credit sfs (din sin) e \<longrightarrow> \<not> off + len \<le> 4096 * e))"
proof -
  define body where "body = (if off div 4096 = (off + len) div 4096
      then sfs_io_part sfs sin mem base (off + len - off) (off div 4096) (off mod 4096) True
      else sfs_io_steps sfs sin mem base off (off + len) True)"
  have sum: "signed_take_bit 63 (int off + int len) = int (off + len)" by (rule off_t_sum) (use n in simp)
  have io: "sfs_io_nolock sfs sin mem base (int off) len True = Option.bind body
      (\<lambda>(ret, sfs, sin', mem, alen). Some (ret, sfs,
            if off + alen > di_size (din sin') then sin'\<lparr>din := (din sin')\<lparr>di_size := off + alen\<rparr>, sin_dirty := True\<rparr> else sin',
            mem, alen))"
  proof -
    have c: "\<not> (int off < 0 \<or> int off \<ge> int SFS_MAX_FILE_SIZE \<or> int off > int (off + len))" "\<not> int off = int (off + len)"
      "\<not> int (off + len) > int SFS_MAX_FILE_SIZE"
      using n by (simp_all add: SFS_MAX_FILE_SIZE_def)
    show ?thesis
      unfolding sfs_io_nolock_def Let_def sum if_not_P [OF c(1)] if_not_P [OF c(2)] if_not_P [OF c(3)] nat_int
      using ty by (simp add: body_def SFS_BLKSIZE_def)
  qed
  have W: "write_result sfs sin mem base off len body 0"
  proof (cases "off div 4096 = (off + len) div 4096")
    case True
    have "write_result sfs sin mem base (4096 * (off div 4096) + off mod 4096) len
        (sfs_io_part sfs sin mem base len (off div 4096) (off mod 4096) True) 0"
    proof (rule io_part_write [OF ok f])
      show "off div 4096 \<le> di_blocks (din sin)" using n(1) by linarith
      show "off div 4096 < 1036" using n True by linarith
      show "off mod 4096 + len \<le> 4096" by (rule same_block [OF True])
    qed (use r n in simp_all)
    then have w: "write_result sfs sin mem base off len (sfs_io_part sfs sin mem base len (off div 4096) (off mod 4096) True) 0"
      by (simp only: mult_div_mod_eq)
    have b: "body = sfs_io_part sfs sin mem base len (off div 4096) (off mod 4096) True"
      unfolding body_def if_P [OF True] by simp
    show ?thesis unfolding b by (rule w)
  next
    case False
    have "write_result sfs sin mem base off (off + len - off) (sfs_io_steps sfs sin mem base off (off + len) True) 0"
      by (rule io_steps_write [OF ok f _ _ _ n(1) False]) (use n r in simp_all)
    then show ?thesis using False by (simp add: body_def)
  qed
  have sz: "(if off + k > di_size (din s) then s\<lparr>din := (din s)\<lparr>di_size := off + k\<rparr>, sin_dirty := True\<rparr> else s) =
      s\<lparr>din := (din s)\<lparr>di_size := max (di_size (din s)) (off + k)\<rparr>, sin_dirty := (off + k > di_size (din s) \<or> sin_dirty s)\<rparr>"
    for k and s :: sfs_inode by (auto simp: max_def)
  from W show ?thesis
  proof (cases rule: write_resultE)
    case (stored s1 d1 b1)
    have dsz: "di_size d1 = di_size (din sin)" using stored(2) by (simp add: written_def)
    show ?thesis
      using io stored(1-3) n(2) dsz unfolding sz
      by (intro exI [of _ 0] exI [of _ s1] exI [of _ d1] exI [of _ "off + len > di_size d1 \<or> b1"] exI [of _ len]) auto
  next
    case (full s1 d1 b1 m)
    have dsz: "di_size d1 = di_size (din sin)" using full(2) by (simp add: written_def)
    show ?thesis
      using io full dsz unfolding sz
      by (intro exI [of _ "- E_NO_MEM"] exI [of _ s1] exI [of _ d1] exI [of _ "off + m > di_size d1 \<or> b1"] exI [of _ m]) auto
  qed
qed

end

section \<open>Reading and writing on disk0\<close>

text \<open>A request that asks for \<open>len\<close> bytes at \<open>off\<close> through memory that is large enough.\<close>

definition request :: "iobuf \<Rightarrow> nat \<Rightarrow> nat \<Rightarrow> bool" where
  "request iob off len \<longleftrightarrow> io_offset iob = off \<and> io_resid iob = len \<and> io_base iob + len \<le> length (io_mem iob)"

definition request_bytes :: "iobuf \<Rightarrow> nat \<Rightarrow> byte list \<Rightarrow> byte list" where
  "request_bytes iob n mem = take n (drop (io_base iob) mem)"

definition plain_file :: "sfs_inode \<Rightarrow> bool" where
  "plain_file sin \<longleftrightarrow> di_type (din sin) \<noteq> SFS_TYPE_DIR \<and> sin_sem sin = 1"

lemma sfs_file_size: "sfs_file sfs d \<Longrightarrow> di_size d \<le> 4096 * di_blocks d"
  by (simp add: sfs_file_def)

lemma filled_bytes:
  "filled mem mem' base n g \<Longrightarrow> base + n \<le> length mem \<Longrightarrow> take n (drop base mem') = map g [0..<n]"
  by (auto simp: filled_def intro!: nth_equalityI)

lemma sfs_read_outcome:
  assumes "sfs_mounted sfs" "sfs_file sfs (din sin)" "plain_file sin" "request iob off len"
    "off < di_size (din sin)" "0 < len" "int off + int len < 2 ^ 63"
  obtains sfs' iob' where "sfs_io sfs sin iob False = Some (0, sfs', sin, iob')"
    "io_resid iob' = len - min len (di_size (din sin) - off)" "sfs_mounted sfs'" "disk_block sfs' = disk_block sfs"
    "free_blocks sfs' = free_blocks sfs" "used_block sfs' = used_block sfs"
    "request_bytes iob (min len (di_size (din sin) - off)) (io_mem iob') =
      map (\<lambda>j. file_byte (disk_block sfs) (din sin) (off + j)) [0..<min len (di_size (din sin) - off)]"
proof -
  define n where "n = min len (di_size (din sin) - off)"
  let ?s0 = "sin\<lparr>sin_sem := 0\<rparr>"
  have ok: "fs_ok sfs" "d_io (fs_dev sfs) = disk0_io \<and> disk0_ready (d_blocks (fs_dev sfs)) (d_state (fs_dev sfs))"
    and f: "file_ok (used_block sfs) (block_at disk_byte (d_state (fs_dev sfs))) (din ?s0)"
    using assms(1,2) by (simp_all add: sfs_mounted_def sfs_file_def disk_block_def)
  have ty: "di_type (din ?s0) \<noteq> SFS_TYPE_DIR" using assms(3) by (simp add: plain_file_def)
  have size: "di_size (din ?s0) \<le> 4096 * di_blocks (din ?s0)" using sfs_file_size [OF assms(2)] by simp
  have nn: "n = min len (di_size (din ?s0) - off)" "off < di_size (din ?s0)" using assms(5) by (simp_all add: n_def)
  have iob: "io_offset iob = off" "io_resid iob = len" "io_base iob + len \<le> length (io_mem iob)"
    using assms(4) by (simp_all add: request_def)
  have r: "io_base iob + n \<le> length (io_mem iob)" using iob(3) by (simp add: n_def)
  obtain s1 m1 where s1: "sfs_io_nolock sfs ?s0 (io_mem iob) (io_base iob) (int off) len False = Some (0, s1, ?s0, m1, n)"
      "d0.fs_step sfs s1 (free_blocks sfs) (block_at disk_byte (d_state (fs_dev sfs)))"
      "filled (io_mem iob) m1 (io_base iob) n (\<lambda>j. file_byte (block_at disk_byte (d_state (fs_dev sfs))) (din ?s0) (off + j))"
    using d0.io_nolock_read [OF ok f ty size nn assms(6,7) r] by blast
  have n0: "n \<noteq> 0" "n \<le> len" using assms(5,6) by (simp_all add: n_def)
  have sem: "sin\<lparr>sin_sem := 1\<rparr> = sin" using assms(3) by (simp add: plain_file_def)
  let ?iob = "iob\<lparr>io_mem := m1, io_base := io_base iob + n, io_offset := off + n, io_resid := len - n\<rparr>"
  have eq: "sfs_io sfs sin iob False = Some (0, s1, sin, ?iob)"
    using s1(1) n0 assms(3) sem iob
    by (simp add: sfs_io_def lock_sin_def sem_down_def unlock_sin_def sem_up_def plain_file_def iobuf_skip_def)
  note D = d0.fs_stepD [OF s1(2)]
  show thesis
  proof (rule that [OF eq])
    show "io_resid ?iob = len - min len (di_size (din sin) - off)" by (simp add: n_def)
    show "sfs_mounted s1" using D by (simp add: sfs_mounted_def)
    show "disk_block s1 = disk_block sfs" using D(4) by (simp add: disk_block_def)
    show "free_blocks s1 = free_blocks sfs" by (rule D(3))
    show "used_block s1 = used_block sfs"
      using d0.used_block_step [OF s1(2)] by (auto simp: fun_eq_iff used_block_def)
    show "request_bytes iob (min len (di_size (din sin) - off)) (io_mem ?iob) =
        map (\<lambda>j. file_byte (disk_block sfs) (din sin) (off + j)) [0..<min len (di_size (din sin) - off)]"
      using filled_bytes [OF s1(3) r] by (simp add: request_bytes_def disk_block_def n_def)
  qed
qed

lemma blocks_cover: "z \<le> 4096 * ((z + 4095) div 4096)" for z :: nat
  by linarith

lemma sfs_write_outcome:
  assumes "sfs_mounted sfs" "sfs_file sfs (din sin)" "plain_file sin" "request iob off len"
    "off \<le> di_size (din sin)" "0 < len" "off + len \<le> 4243456"
    "(off + len + 4095) div 4096 < di_blocks (din sin) + card (free_blocks sfs) \<or>
     (off + len + 4095) div 4096 \<le> di_blocks (din sin)"
  obtains sfs' sin' iob' where "sfs_io sfs sin iob True = Some (0, sfs', sin', iob')"
    "io_resid iob' = 0" "sfs_mounted sfs'" "sfs_file sfs' (din sin')" "plain_file sin'"
    "di_size (din sin') = max (di_size (din sin)) (off + len)"
    "\<And>i. i < di_size (din sin') \<Longrightarrow> file_byte (disk_block sfs') (din sin') i =
       (if off \<le> i \<and> i < off + len then request_bytes iob len (io_mem iob) ! (i - off)
        else file_byte (disk_block sfs) (din sin) i)"
    "\<And>b. used_block sfs b \<Longrightarrow> \<not> in_file sfs (din sin) b \<Longrightarrow> used_block sfs' b \<and> disk_block sfs' b = disk_block sfs b"
proof -
  let ?s0 = "sin\<lparr>sin_sem := 0\<rparr>"
  have ok: "fs_ok sfs" "d_io (fs_dev sfs) = disk0_io \<and> disk0_ready (d_blocks (fs_dev sfs)) (d_state (fs_dev sfs))"
    and f: "file_ok (used_block sfs) (block_at disk_byte (d_state (fs_dev sfs))) (din ?s0)"
    and bl: "di_blocks (din sin) = (di_size (din sin) + 4095) div 4096"
    using assms(1,2) by (simp_all add: sfs_mounted_def sfs_file_def disk_block_def)
  have ty: "di_type (din ?s0) \<noteq> SFS_TYPE_DIR" using assms(3) by (simp add: plain_file_def)
  have iob: "io_offset iob = off" "io_resid iob = len" "io_base iob + len \<le> length (io_mem iob)"
    using assms(4) by (simp_all add: request_def)
  have le: "di_size (din sin) \<le> 4096 * di_blocks (din sin)" by (rule sfs_file_size [OF assms(2)])
  have n: "off \<le> 4096 * di_blocks (din ?s0)" "0 < len" "off + len \<le> 4096 * 1036"
    using assms(5-7) le by simp_all
  define e where "e = (off + len + 4095) div 4096"
  have ecr: "d0.credit sfs (din ?s0) e" "off + len \<le> 4096 * e"
    using assms(8) by (auto simp: d0.credit_def e_def)
  obtain ret s1 d1 b1 m where io: "sfs_io_nolock sfs ?s0 (io_mem iob) (io_base iob) (int off) len True =
      Some (ret, s1, ?s0\<lparr>din := d1\<lparr>di_size := max (di_size (din ?s0)) (off + m)\<rparr>, sin_dirty := b1\<rparr>, io_mem iob, m)"
      "d0.written sfs (din ?s0) s1 d1 off m (\<lambda>j. io_mem iob ! (io_base iob + j))"
      "ret = 0 \<and> m = len \<and> di_blocks d1 \<le> max (di_blocks (din ?s0)) ((off + len + 4095) div 4096) \<or>
       ret = - E_NO_MEM \<and> m \<le> len \<and> (\<forall>e. d0.credit sfs (din ?s0) e \<longrightarrow> \<not> off + len \<le> 4096 * e)"
    using d0.io_nolock_write [OF ok f ty n iob(3)] by blast
  have r: "ret = 0" "m = len" "di_blocks d1 \<le> max (di_blocks (din sin)) e"
    using io(3) ecr by (auto simp: e_def)
  note W = io(2) [unfolded d0.written_def r(2)]
  let ?sz = "max (di_size (din sin)) (off + len)"
  let ?d = "d1\<lparr>di_size := ?sz\<rparr>"
  let ?sin = "sin\<lparr>din := ?d, sin_dirty := b1\<rparr>"
  have sem: "sin\<lparr>din := ?d, sin_dirty := b1, sin_sem := 1\<rparr> = ?sin" using assms(3) by (simp add: plain_file_def)
  let ?iob = "iob\<lparr>io_base := io_base iob + len, io_offset := off + len, io_resid := 0\<rparr>"
  have eq: "sfs_io sfs sin iob True = Some (0, s1, ?sin, ?iob)"
    using io(1) r n(2) assms(3) sem iob
    by (simp add: sfs_io_def lock_sin_def sem_down_def unlock_sin_def sem_up_def plain_file_def iobuf_skip_def)
  have meta: "fs_ok s1" "file_ok (used_block s1) (block_at disk_byte (d_state (fs_dev s1))) d1"
    "d0.dev_ok s1" "di_type d1 = di_type (din sin)"
    using W by (simp_all add: d0.fs_step_def)
  have blocks: "di_blocks d1 = (?sz + 4095) div 4096"
  proof -
    have ge: "di_blocks (din sin) \<le> di_blocks d1" "off + len \<le> 4096 * di_blocks d1" using W n(2) by auto
    then have "(off + len + 4095) div 4096 \<le> di_blocks d1" by linarith
    then have "di_blocks d1 = max (di_blocks (din sin)) e" using r(3) ge by (simp add: e_def)
    then show ?thesis unfolding bl e_def by (auto simp: max_def div_le_mono intro!: antisym)
  qed
  have sz1: "?sz \<le> 4096 * di_blocks d1" unfolding blocks by (rule blocks_cover)
  show thesis
  proof (rule that [OF eq])
    show "sfs_mounted s1" using meta by (simp add: sfs_mounted_def)
    show "sfs_file s1 (din ?sin)" using meta(2) blocks by (simp add: sfs_file_def disk_block_def)
    show "plain_file ?sin" using assms(3) meta(4) by (simp add: plain_file_def)
    fix i assume "i < di_size (din ?sin)"
    then have i: "i < 4096 * di_blocks d1" "\<not> (off \<le> i \<and> i < off + len) \<Longrightarrow> i < 4096 * di_blocks (din sin)"
      using sz1 le assms(5) by auto
    have "file_byte (disk_block s1) ?d i = file_byte (disk_block s1) d1 i" by (simp add: file_byte_def bmap_def)
    also have "\<dots> = (if off \<le> i \<and> i < off + len then io_mem iob ! (io_base iob + (i - off))
        else if i < 4096 * di_blocks (din sin) then file_byte (disk_block sfs) (din sin) i else 0)"
      using W i(1) by (simp add: disk_block_def)
    also have "\<dots> = (if off \<le> i \<and> i < off + len then request_bytes iob len (io_mem iob) ! (i - off)
        else file_byte (disk_block sfs) (din sin) i)"
      using i(2) iob(3) by (auto simp: request_bytes_def)
    finally show "file_byte (disk_block s1) (din ?sin) i = (if off \<le> i \<and> i < off + len
        then request_bytes iob len (io_mem iob) ! (i - off) else file_byte (disk_block sfs) (din sin) i)" by simp
  next
    fix b assume b: "used_block sfs b" "\<not> in_file sfs (din sin) b"
    show "used_block s1 b \<and> disk_block s1 b = disk_block sfs b"
      using d0.written_used [OF io(2) b(1)] W b by (simp add: in_file_def disk_block_def)
  qed (simp_all)
qed

text \<open>
  C31: Reading from a well-formed plain file below its size returns 0 and delivers
  \<open>min len (size - off)\<close> bytes: the request's memory then holds the file's bytes from \<open>off\<close> on, the
  request says how many are still missing, and the disk, the inode and the free blocks are as before.
\<close>

theorem sfs_io_reads_file_bytes:
  assumes "sfs_mounted sfs" "sfs_file sfs (din sin)" "plain_file sin" "request iob off len"
    "off < di_size (din sin)" "0 < len" "int off + int len < 2 ^ 63"
  shows "\<exists>sfs' iob'. sfs_io sfs sin iob False = Some (0, sfs', sin, iob') \<and>
    io_resid iob' = len - min len (di_size (din sin) - off) \<and> sfs_mounted sfs' \<and>
    disk_block sfs' = disk_block sfs \<and> free_blocks sfs' = free_blocks sfs \<and>
    request_bytes iob (min len (di_size (din sin) - off)) (io_mem iob') =
      map (\<lambda>j. file_byte (disk_block sfs) (din sin) (off + j)) [0..<min len (di_size (din sin) - off)]"
  by (rule sfs_read_outcome [OF assms]) blast

text \<open>
  C1: Writing to a well-formed plain file, from a position inside it or at its end and with room on the
  disk, returns 0 and takes the whole request: the size becomes the larger of the old size and
  the end of the write, the bytes of the range are the request's, all other bytes of the file
  are kept, the file system and the file stay well-formed and no block of another file changes.
\<close>

theorem sfs_io_writes_file_bytes:
  assumes "sfs_mounted sfs" "sfs_file sfs (din sin)" "plain_file sin" "request iob off len"
    "off \<le> di_size (din sin)" "0 < len" "off + len \<le> 4243456"
    "(off + len + 4095) div 4096 < di_blocks (din sin) + card (free_blocks sfs) \<or>
     (off + len + 4095) div 4096 \<le> di_blocks (din sin)"
  shows "\<exists>sfs' sin' iob'. sfs_io sfs sin iob True = Some (0, sfs', sin', iob') \<and>
    io_resid iob' = 0 \<and> sfs_mounted sfs' \<and> sfs_file sfs' (din sin') \<and>
    di_size (din sin') = max (di_size (din sin)) (off + len) \<and>
    (\<forall>i<di_size (din sin'). file_byte (disk_block sfs') (din sin') i =
       (if off \<le> i \<and> i < off + len then request_bytes iob len (io_mem iob) ! (i - off)
        else file_byte (disk_block sfs) (din sin) i)) \<and>
    (\<forall>b. used_block sfs b \<and> \<not> in_file sfs (din sin) b \<longrightarrow>
       used_block sfs' b \<and> disk_block sfs' b = disk_block sfs b)"
  by (rule sfs_write_outcome [OF assms]) blast

text \<open>
  C3: What is written to a file is read back: after a write that fits, reading the same range
  returns 0, leaves nothing of the request and gives the bytes that were written.
\<close>

theorem sfs_write_read:
  assumes "sfs_mounted sfs" "sfs_file sfs (din sin)" "plain_file sin" "request iob off len"
    "off \<le> di_size (din sin)" "0 < len" "off + len \<le> 4243456"
    "(off + len + 4095) div 4096 < di_blocks (din sin) + card (free_blocks sfs) \<or>
     (off + len + 4095) div 4096 \<le> di_blocks (din sin)"
    "request rb off len"
  shows "\<exists>sfs1 sin1 iob1 sfs2 rb2. sfs_io sfs sin iob True = Some (0, sfs1, sin1, iob1) \<and>
    sfs_io sfs1 sin1 rb False = Some (0, sfs2, sin1, rb2) \<and> io_resid rb2 = 0 \<and>
    request_bytes rb len (io_mem rb2) = request_bytes iob len (io_mem iob)"
proof -
  obtain s1 n1 iob1 where w: "sfs_io sfs sin iob True = Some (0, s1, n1, iob1)"
      "sfs_mounted s1" "sfs_file s1 (din n1)" "plain_file n1" "di_size (din n1) = max (di_size (din sin)) (off + len)"
      "\<And>i. i < di_size (din n1) \<Longrightarrow> file_byte (disk_block s1) (din n1) i =
         (if off \<le> i \<and> i < off + len then request_bytes iob len (io_mem iob) ! (i - off)
          else file_byte (disk_block sfs) (din sin) i)"
    by (rule sfs_write_outcome [OF assms(1-8)]) blast
  have lt: "off < di_size (din n1)" "int off + int len < 2 ^ 63" using w(5) assms(6,7) by auto
  have n: "min len (di_size (din n1) - off) = len" using w(5) by simp
  obtain s2 rb2 where r: "sfs_io s1 n1 rb False = Some (0, s2, n1, rb2)" "io_resid rb2 = 0"
      "request_bytes rb len (io_mem rb2) = map (\<lambda>j. file_byte (disk_block s1) (din n1) (off + j)) [0..<len]"
    by (rule sfs_read_outcome [OF w(2-4) assms(9) lt(1) assms(6) lt(2)]) (simp add: n)
  have l: "length (request_bytes iob len (io_mem iob)) = len"
    using assms(4) by (auto simp: request_bytes_def request_def min_def)
  have "request_bytes rb len (io_mem rb2) = request_bytes iob len (io_mem iob)"
    unfolding r(3) by (rule nth_equalityI) (use l w(5,6) in simp_all)
  then show ?thesis using w(1) r(1,2) by blast
qed

definition example_request :: "byte list \<Rightarrow> iobuf" where
  "example_request bs = \<lparr>io_mem = bs, io_base = 0, io_offset = 0, io_len = length bs, io_resid = length bs\<rparr>"

lemma example_request: "request (example_request bs) 0 (length bs)"
  by (simp add: request_def example_request_def)

lemma example_plain: "plain_file example_inode"
  by (simp add: plain_file_def SFS_TYPE_DIR_def)

theorem sfs_io_writes_file_bytes_witness:
  "\<exists>(sfs :: disk0 sfs_fs) sfs' sin' iob'.
     sfs_io sfs example_inode (example_request [7, 8, 9]) True = Some (0, sfs', sin', iob') \<and>
     di_size (din sin') = 3 \<and> file_byte (disk_block sfs') (din sin') 1 = 8"
proof -
  obtain sfs :: "disk0 sfs_fs" where sfs: "sfs_mounted sfs" "card (free_blocks sfs) = 9"
    using example_mounted [of 10] by auto
  obtain sfs' sin' iob' where w: "sfs_io sfs example_inode (example_request [7, 8, 9]) True = Some (0, sfs', sin', iob')"
      "di_size (din sin') = 3"
      "\<And>i. i < 3 \<Longrightarrow> file_byte (disk_block sfs') (din sin') i = request_bytes (example_request [7, 8, 9]) 3 [7, 8, 9] ! i"
    using sfs_io_writes_file_bytes [OF sfs(1) example_file example_plain example_request, of "[7, 8, 9]"] sfs(2)
    by (auto simp: example_request_def numeral_3_eq_3)
  have "file_byte (disk_block sfs') (din sin') 1 = 8"
    using w(3) [of 1] by (simp add: request_bytes_def example_request_def)
  then show ?thesis using w(1,2) by blast
qed

theorem sfs_write_read_witness:
  "\<exists>(sfs :: disk0 sfs_fs) sfs1 sin1 iob1 sfs2 rb2.
     sfs_io sfs example_inode (example_request [7, 8, 9]) True = Some (0, sfs1, sin1, iob1) \<and>
     sfs_io sfs1 sin1 (example_request [0, 0, 0]) False = Some (0, sfs2, sin1, rb2) \<and>
     take 3 (io_mem rb2) = [7, 8, 9]"
proof -
  obtain sfs :: "disk0 sfs_fs" where sfs: "sfs_mounted sfs" "card (free_blocks sfs) = 9"
    using example_mounted [of 10] by auto
  have rb: "request (example_request [0, 0, 0]) 0 (length [7, 8, 9 :: byte])"
    by (simp add: request_def example_request_def)
  obtain s1 n1 i1 s2 rb2 where r: "sfs_io sfs example_inode (example_request [7, 8, 9]) True = Some (0, s1, n1, i1)"
      "sfs_io s1 n1 (example_request [0, 0, 0]) False = Some (0, s2, n1, rb2)"
      "request_bytes (example_request [0, 0, 0]) (length [7, 8, 9 :: byte]) (io_mem rb2) =
       request_bytes (example_request [7, 8, 9]) (length [7, 8, 9 :: byte]) (io_mem (example_request [7, 8, 9]))"
    using sfs_write_read [OF sfs(1) example_file example_plain example_request _ _ _ _ rb] sfs(2) by auto
  have "take 3 (io_mem rb2) = [7, 8, 9]" using r(3) by (simp add: request_bytes_def example_request_def numeral_3_eq_3)
  then show ?thesis using r(1,2) by blast
qed

theorem sfs_io_reads_file_bytes_witness:
  "\<exists>(sfs :: disk0 sfs_fs) sin sfs' iob'. di_size (din sin) = 3 \<and>
     sfs_io sfs sin (example_request [0, 0, 0, 0]) False = Some (0, sfs', sin, iob') \<and> io_resid iob' = 1"
proof -
  obtain sfs :: "disk0 sfs_fs" where sfs: "sfs_mounted sfs" "card (free_blocks sfs) = 9"
    using example_mounted [of 10] by auto
  obtain s1 :: "disk0 sfs_fs" and n1 where w: "sfs_mounted s1" "sfs_file s1 (din n1)" "plain_file n1" "di_size (din n1) = 3"
    by (rule sfs_write_outcome [OF sfs(1) example_file example_plain example_request, of "[7, 8, 9]"])
      (use sfs(2) in auto)
  obtain s2 rb2 where "sfs_io s1 n1 (example_request [0, 0, 0, 0]) False = Some (0, s2, n1, rb2)" "io_resid rb2 = 1"
    using sfs_io_reads_file_bytes [OF w(1-3) example_request, of "[0, 0, 0, 0]"] w(4) by auto
  then show ?thesis using w(4) by blast
qed

end
