(* ===== verification/SkewHeap.thy ===== *)
theory SkewHeap
imports Prelude "HOL-Library.Tree"
begin

text \<open>
  The intrusive skew heap of \<open>libs/skew_heap.h\<close>. A store maps every entry (the address of a
  \<open>skew_heap_entry_t\<close>) to its \<open>parent\<close>, \<open>left\<close> and \<open>right\<close> fields; a pointer is an option,
  \<open>None\<close> for \<open>NULL\<close>. The comparison callback is a function of the two entries: it reads the
  processes that contain them, which no heap operation writes.

  \<open>skew_heap_merge\<close> is a recursion through the store that need not end on arbitrary pointers
  (\<open>None\<close> then). \<open>sheap H r t\<close> relates the pointer \<open>r\<close> to a binary tree of entries; on
  disjoint trees every operation ends, and its result represents the tree computed by the
  purely functional reference \<open>skew_merge\<close> or \<open>skew_delete\<close>.
\<close>

record 'n skew =
  parent_of :: "'n \<Rightarrow> 'n option"
  left_of :: "'n \<Rightarrow> 'n option"
  right_of :: "'n \<Rightarrow> 'n option"

type_synonym 'n compare_f = "'n \<Rightarrow> 'n \<Rightarrow> int"

section \<open>The operations of skew\_heap.h\<close>

definition skew_heap_init :: "'n \<Rightarrow> 'n skew \<Rightarrow> 'n skew" where
  "skew_heap_init a H =
     H\<lparr>right_of := (right_of H)(a := None), left_of := (left_of H)(a := None),
       parent_of := (parent_of H)(a := None)\<rparr>"

text \<open>\<open>a->left = l; a->right = r; if (l) l->parent = a;\<close>\<close>

definition skew_heap_hang :: "'n \<Rightarrow> 'n option \<Rightarrow> 'n option \<Rightarrow> 'n skew \<Rightarrow> 'n skew" where
  "skew_heap_hang a l r H =
     (let H1 = H\<lparr>left_of := (left_of H)(a := l)\<rparr>;
          H2 = H1\<lparr>right_of := (right_of H1)(a := r)\<rparr>
      in case l of None \<Rightarrow> H2
         | Some l' \<Rightarrow> H2\<lparr>parent_of := (parent_of H2)(l' := Some a)\<rparr>)"

partial_function (option) skew_heap_merge ::
  "'n compare_f \<Rightarrow> 'n option \<Rightarrow> 'n option \<Rightarrow> 'n skew \<Rightarrow> ('n option \<times> 'n skew) option" where
  "skew_heap_merge cmp a b H =
     (case a of None \<Rightarrow> Some (b, H)
      | Some a' \<Rightarrow> (case b of None \<Rightarrow> Some (a, H)
        | Some b' \<Rightarrow>
            if cmp a' b' = -1
            then let r = left_of H a' in
                 Option.bind (skew_heap_merge cmp (right_of H a') b H)
                   (\<lambda>(l, H'). Some (a, skew_heap_hang a' l r H'))
            else let r = left_of H b' in
                 Option.bind (skew_heap_merge cmp a (right_of H b') H)
                   (\<lambda>(l, H'). Some (b, skew_heap_hang b' l r H'))))"

definition skew_heap_insert ::
  "'n compare_f \<Rightarrow> 'n option \<Rightarrow> 'n \<Rightarrow> 'n skew \<Rightarrow> ('n option \<times> 'n skew) option" where
  "skew_heap_insert cmp a b H = skew_heap_merge cmp a (Some b) (skew_heap_init b H)"

text \<open>\<open>if (rep) rep->parent = p;\<close>\<close>

definition set_parent :: "'n option \<Rightarrow> 'n option \<Rightarrow> 'n skew \<Rightarrow> 'n skew" where
  "set_parent rep p H =
     (case rep of None \<Rightarrow> H | Some x \<Rightarrow> H\<lparr>parent_of := (parent_of H)(x := p)\<rparr>)"

definition skew_heap_remove ::
  "'n compare_f \<Rightarrow> 'n option \<Rightarrow> 'n \<Rightarrow> 'n skew \<Rightarrow> ('n option \<times> 'n skew) option" where
  "skew_heap_remove cmp a b H =
     (let p = parent_of H b in
      do {
        (rep, H1) \<leftarrow> skew_heap_merge cmp (left_of H b) (right_of H b) H;
        let H2 = set_parent rep p H1;
        Some (case p of
            None \<Rightarrow> (rep, H2)
          | Some q \<Rightarrow>
              (a, if left_of H2 q = Some b then H2\<lparr>left_of := (left_of H2)(q := rep)\<rparr>
                  else H2\<lparr>right_of := (right_of H2)(q := rep)\<rparr>))
      })"

lemma skew_heap_merge_simps:
  "skew_heap_merge cmp None b H = Some (b, H)"
  "skew_heap_merge cmp a None H = Some (a, H)"
  "cmp x y = -1 \<Longrightarrow> skew_heap_merge cmp (Some x) (Some y) H =
     Option.bind (skew_heap_merge cmp (right_of H x) (Some y) H)
       (\<lambda>(l, H'). Some (Some x, skew_heap_hang x l (left_of H x) H'))"
  "cmp x y \<noteq> -1 \<Longrightarrow> skew_heap_merge cmp (Some x) (Some y) H =
     Option.bind (skew_heap_merge cmp (Some x) (right_of H y) H)
       (\<lambda>(l, H'). Some (Some y, skew_heap_hang y l (left_of H y) H'))"
  by (subst skew_heap_merge.simps; simp split: option.splits)+

section \<open>The functional reference\<close>

fun skew_merge :: "'n compare_f \<Rightarrow> 'n tree \<Rightarrow> 'n tree \<Rightarrow> 'n tree" where
  "skew_merge cmp Leaf t = t"
| "skew_merge cmp t Leaf = t"
| "skew_merge cmp (Node l1 a r1) (Node l2 b r2) =
     (if cmp a b = -1 then Node (skew_merge cmp r1 (Node l2 b r2)) a l1
      else Node (skew_merge cmp (Node l1 a r1) r2) b l2)"

fun skew_delete :: "'n compare_f \<Rightarrow> 'n \<Rightarrow> 'n tree \<Rightarrow> 'n tree" where
  "skew_delete cmp b Leaf = Leaf"
| "skew_delete cmp b (Node l x r) =
     (if x = b then skew_merge cmp l r
      else if b \<in> set_tree l then Node (skew_delete cmp b l) x r
      else Node l x (skew_delete cmp b r))"

fun nodes :: "'n tree \<Rightarrow> 'n multiset" where
  "nodes Leaf = {#}"
| "nodes (Node l x r) = add_mset x (nodes l + nodes r)"

fun heap_by :: "('n \<Rightarrow> int) \<Rightarrow> 'n tree \<Rightarrow> bool" where
  "heap_by k Leaf \<longleftrightarrow> True"
| "heap_by k (Node l x r) \<longleftrightarrow>
     (\<forall>y \<in> set_tree l \<union> set_tree r. k x \<le> k y) \<and> heap_by k l \<and> heap_by k r"

text \<open>The callback agrees with the integer keys \<open>k\<close> on the entries of \<open>S\<close>.\<close>

definition comp_ok :: "'n compare_f \<Rightarrow> ('n \<Rightarrow> int) \<Rightarrow> 'n set \<Rightarrow> bool" where
  "comp_ok cmp k S \<longleftrightarrow> (\<forall>a \<in> S. \<forall>b \<in> S. cmp a b = -1 \<longleftrightarrow> k a < k b)"

lemma set_mset_nodes [simp]: "set_mset (nodes t) = set_tree t"
  by (induction t) auto

lemma nodes_skew_merge [simp]: "nodes (skew_merge cmp t u) = nodes t + nodes u"
  by (induction cmp t u rule: skew_merge.induct) (auto simp: ac_simps)

lemma set_skew_merge [simp]: "set_tree (skew_merge cmp t u) = set_tree t \<union> set_tree u"
  by (metis nodes_skew_merge set_mset_nodes set_mset_union)

lemma comp_ok_mono: "comp_ok cmp k S \<Longrightarrow> T \<subseteq> S \<Longrightarrow> comp_ok cmp k T"
  by (simp add: comp_ok_def subset_iff)

lemma heap_by_skew_merge:
  assumes "heap_by k t" "heap_by k u" "comp_ok cmp k (set_tree t \<union> set_tree u)"
  shows "heap_by k (skew_merge cmp t u)"
  using assms
proof (induction cmp t u rule: skew_merge.induct)
  case (3 cmp l1 a r1 l2 b r2)
  have ab: "cmp a b = -1 \<longleftrightarrow> k a < k b" using "3.prems"(3) by (simp add: comp_ok_def)
  have ok: "comp_ok cmp k (set_tree r1 \<union> set_tree (Node l2 b r2))"
    "comp_ok cmp k (set_tree (Node l1 a r1) \<union> set_tree r2)"
    by (rule comp_ok_mono [OF "3.prems"(3)]; auto)+
  show ?case
  proof (cases "cmp a b = -1")
    case True
    then have "heap_by k (skew_merge cmp r1 (Node l2 b r2))"
      using "3.IH"(1) "3.prems" ok by simp
    moreover have "\<forall>y \<in> set_tree (Node l2 b r2). k a \<le> k y"
      using True ab "3.prems"(2) by (auto intro: order_trans [of "k a" "k b"])
    ultimately show ?thesis using True "3.prems"(1) by (simp add: ball_Un)
  next
    case False
    then have "heap_by k (skew_merge cmp (Node l1 a r1) r2)"
      using "3.IH"(2) "3.prems" ok by simp
    moreover have "\<forall>y \<in> set_tree (Node l1 a r1). k b \<le> k y"
      using False ab "3.prems"(1) by (auto intro: order_trans [of "k b" "k a"])
    ultimately show ?thesis using False "3.prems"(2) by (simp add: ball_Un)
  qed
qed simp_all

lemma nodes_skew_delete:
  assumes "b \<in> set_tree t"
  shows "nodes (skew_delete cmp b t) = nodes t - {#b#}"
  using assms
proof (induction t)
  case (Node l x r)
  show ?case
  proof (cases "x = b")
    case False
    have "b \<in># nodes l \<Longrightarrow> nodes l - {#b#} + nodes r = nodes l + nodes r - {#b#}"
      by (metis add.commute diff_union_single_conv)
    moreover have "b \<in># nodes r \<Longrightarrow> nodes l + (nodes r - {#b#}) = nodes l + nodes r - {#b#}"
      by (metis diff_union_single_conv)
    ultimately show ?thesis using Node False by auto
  qed simp
qed simp

lemma set_skew_delete_subset: "set_tree (skew_delete cmp b t) \<subseteq> set_tree t"
  by (induction t) auto

lemma heap_by_skew_delete:
  assumes "heap_by k t" "comp_ok cmp k (set_tree t)"
  shows "heap_by k (skew_delete cmp b t)"
  using assms
proof (induction t)
  case (Node l x r)
  have ok: "comp_ok cmp k (set_tree l \<union> set_tree r)" "comp_ok cmp k (set_tree l)"
    "comp_ok cmp k (set_tree r)"
    by (rule comp_ok_mono [OF Node.prems(2)]; auto)+
  have h: "heap_by k l" "heap_by k r" using Node.prems(1) by simp_all
  have "heap_by k (skew_merge cmp l r)" using h ok(1) by (rule heap_by_skew_merge)
  moreover have "heap_by k (skew_delete cmp b l)" "heap_by k (skew_delete cmp b r)"
    using Node.IH h ok by simp_all
  moreover have "\<forall>y \<in> set_tree (skew_delete cmp b l). k x \<le> k y"
    "\<forall>y \<in> set_tree (skew_delete cmp b r). k x \<le> k y"
    using Node.prems(1) set_skew_delete_subset [of cmp b l] set_skew_delete_subset [of cmp b r]
    by (simp_all add: subset_iff)
  ultimately show ?case using Node.prems(1) by (simp add: ball_Un)
qed simp

lemma heap_by_root:
  assumes "heap_by k (Node l x r)" "y \<in> set_tree (Node l x r)"
  shows "k x \<le> k y"
  using assms by auto

section \<open>The representation\<close>

fun rooted :: "'n skew \<Rightarrow> 'n option \<Rightarrow> 'n tree \<Rightarrow> bool" where
  "rooted H p Leaf \<longleftrightarrow> True"
| "rooted H p (Node l x r) \<longleftrightarrow> parent_of H x = p"

fun sheap :: "'n skew \<Rightarrow> 'n option \<Rightarrow> 'n tree \<Rightarrow> bool" where
  "sheap H r Leaf \<longleftrightarrow> r = None"
| "sheap H r (Node t x u) \<longleftrightarrow>
     r = Some x \<and> x \<notin> set_tree t \<and> x \<notin> set_tree u \<and> set_tree t \<inter> set_tree u = {} \<and>
     sheap H (left_of H x) t \<and> rooted H (Some x) t \<and>
     sheap H (right_of H x) u \<and> rooted H (Some x) u"


definition same_fields :: "'n skew \<Rightarrow> 'n skew \<Rightarrow> 'n set \<Rightarrow> bool" where
  "same_fields H H' S \<longleftrightarrow>
     (\<forall>x \<in> S. parent_of H' x = parent_of H x \<and> left_of H' x = left_of H x \<and>
        right_of H' x = right_of H x)"

lemma rooted_cong: "same_fields H H' (set_tree t) \<Longrightarrow> rooted H' p t = rooted H p t"
  by (cases t) (auto simp: same_fields_def)

lemma sheap_cong: "same_fields H H' (set_tree t) \<Longrightarrow> sheap H' r t = sheap H r t"
proof (induction t arbitrary: r)
  case (Node t x u)
  have "same_fields H H' (set_tree t)" "same_fields H H' (set_tree u)"
    using Node.prems by (simp_all add: same_fields_def)
  with Node show ?case by (simp add: rooted_cong) (simp add: same_fields_def)
qed simp

lemma sheap_set_root_parent:
  assumes "sheap H r t" "r = Some x"
  shows "sheap (H\<lparr>parent_of := (parent_of H)(x := p)\<rparr>) r t"
proof (cases t)
  case (Node t1 y t2)
  have "same_fields H (H\<lparr>parent_of := (parent_of H)(x := p)\<rparr>) (set_tree t1)"
    "same_fields H (H\<lparr>parent_of := (parent_of H)(x := p)\<rparr>) (set_tree t2)"
    using assms Node by (auto simp: same_fields_def)
  with assms Node show ?thesis by (simp add: rooted_cong sheap_cong)
qed (use assms in simp)

lemma sheap_root_in: "sheap H (Some x) t \<Longrightarrow> x \<in> set_tree t"
  by (cases t) auto

lemma sheap_hang:
  assumes "sheap H l t" "sheap H r u" "rooted H (Some a) u"
    and "a \<notin> set_tree t" "a \<notin> set_tree u" "set_tree t \<inter> set_tree u = {}"
  shows "sheap (skew_heap_hang a l r H) (Some a) (Node t a u)"
    and "same_fields H (skew_heap_hang a l r H) (- insert a (set_tree t))"
    and "parent_of (skew_heap_hang a l r H) a = parent_of H a"
proof -
  let ?H = "skew_heap_hang a l r H"
  have u: "same_fields H ?H (set_tree u)"
    using assms sheap_root_in [of H _ t]
    by (auto simp: same_fields_def skew_heap_hang_def Let_def split: option.splits)
  have t: "sheap ?H l t \<and> rooted ?H (Some a) t"
  proof (cases l)
    case None
    then have "t = Leaf" using assms(1) by (cases t) auto
    with None show ?thesis by simp
  next
    case (Some x)
    let ?G = "H\<lparr>parent_of := (parent_of H)(x := Some a)\<rparr>"
    have "same_fields ?G ?H (set_tree t)"
      using assms(4) Some by (auto simp: same_fields_def skew_heap_hang_def Let_def)
    moreover have "sheap ?G l t" using sheap_set_root_parent [OF assms(1) Some] .
    moreover have "rooted ?G (Some a) t" using assms(1) Some by (cases t) auto
    ultimately show ?thesis by (simp add: sheap_cong rooted_cong)
  qed
  have "left_of ?H a = l" "right_of ?H a = r"
    by (simp_all add: skew_heap_hang_def Let_def split: option.splits)
  with t u assms show "sheap ?H (Some a) (Node t a u)" by (simp add: sheap_cong rooted_cong)
  show "same_fields H ?H (- insert a (set_tree t))"
    using assms(1) sheap_root_in [of H _ t]
    by (auto simp: same_fields_def skew_heap_hang_def Let_def split: option.splits)
  show "parent_of ?H a = parent_of H a"
    using assms(1,4) sheap_root_in [of H _ t]
    by (auto simp: skew_heap_hang_def Let_def split: option.splits)
qed

lemma same_fields_trans:
  "same_fields H H' S \<Longrightarrow> same_fields H' H'' T \<Longrightarrow> U \<subseteq> S \<inter> T \<Longrightarrow> same_fields H H'' U"
  by (simp add: same_fields_def subset_iff)

lemma same_fields_mono: "same_fields H H' S \<Longrightarrow> T \<subseteq> S \<Longrightarrow> same_fields H H' T"
  by (auto simp: same_fields_def)

section \<open>Refinement of the functional reference\<close>

definition merges_to :: "'n compare_f \<Rightarrow> 'n option \<Rightarrow> 'n option \<Rightarrow> 'n skew \<Rightarrow> 'n tree \<Rightarrow> 'n set \<Rightarrow> bool"
where
  "merges_to cmp a b H v S \<longleftrightarrow>
     (\<exists>r H'. skew_heap_merge cmp a b H = Some (r, H') \<and> sheap H' r v \<and>
        same_fields H H' (- S) \<and> (\<forall>x. r = Some x \<longrightarrow> parent_of H' x = parent_of H x))"

lemma merge_step:
  assumes m: "merges_to cmp l0 b0 H v S" and v: "set_tree v = S"
    and u: "sheap H r u" "rooted H (Some a) u"
    and d: "a \<notin> S" "a \<notin> set_tree u" "S \<inter> set_tree u = {}"
    and eq: "skew_heap_merge cmp a0 b1 H =
      Option.bind (skew_heap_merge cmp l0 b0 H) (\<lambda>(l, H'). Some (Some a, skew_heap_hang a l r H'))"
  shows "merges_to cmp a0 b1 H (Node v a u) (insert a (S \<union> set_tree u))"
proof -
  obtain l H' where l: "skew_heap_merge cmp l0 b0 H = Some (l, H')" "sheap H' l v"
    "same_fields H H' (- S)"
    using m by (auto simp: merges_to_def)
  have s: "same_fields H H' (set_tree u)" "same_fields H H' {a}"
    using d by (auto intro: same_fields_mono [OF l(3)])
  have h: "sheap H' r u" "rooted H' (Some a) u"
    using u s(1) by (simp_all add: sheap_cong rooted_cong)
  note hang = sheap_hang [OF l(2) h, unfolded v, OF d]
  have "same_fields H (skew_heap_hang a l r H') (- insert a (S \<union> set_tree u))"
    by (rule same_fields_trans [OF l(3) hang(2)]) auto
  moreover have "parent_of (skew_heap_hang a l r H') a = parent_of H a"
    using hang(3) s(2) by (simp add: same_fields_def)
  ultimately show ?thesis using eq l(1) hang(1) by (auto simp: merges_to_def)
qed

lemma skew_heap_merge_refines:
  assumes "sheap H a t" "sheap H b u" "set_tree t \<inter> set_tree u = {}"
  shows "merges_to cmp a b H (skew_merge cmp t u) (set_tree t \<union> set_tree u)"
  using assms
proof (induction cmp t u arbitrary: a b rule: skew_merge.induct)
  case (1 cmp t)
  then show ?case
    by (auto simp: merges_to_def skew_heap_merge_simps same_fields_def)
next
  case (2 cmp l x r)
  then show ?case
    by (auto simp: merges_to_def skew_heap_merge_simps same_fields_def)
next
  case (3 cmp l1 x r1 l2 y r2)
  have ab: "a = Some x" "b = Some y" using "3.prems" by auto
  show ?case
  proof (cases "cmp x y = -1")
    case True
    have "merges_to cmp (right_of H x) b H (skew_merge cmp r1 (Node l2 y r2))
        (set_tree r1 \<union> set_tree (Node l2 y r2))"
      using "3.prems" by (intro "3.IH"(1)) (use True in auto)
    then have "merges_to cmp a b H (Node (skew_merge cmp r1 (Node l2 y r2)) x l1)
        (insert x ((set_tree r1 \<union> set_tree (Node l2 y r2)) \<union> set_tree l1))"
      by (rule merge_step)
        (use "3.prems" True ab in \<open>auto simp: skew_heap_merge_simps(3)\<close>)
    then show ?thesis using True by (simp add: insert_commute Un_ac)
  next
    case False
    have "merges_to cmp a (right_of H y) H (skew_merge cmp (Node l1 x r1) r2)
        (set_tree (Node l1 x r1) \<union> set_tree r2)"
      using "3.prems" by (intro "3.IH"(2)) (use False in auto)
    then have "merges_to cmp a b H (Node (skew_merge cmp (Node l1 x r1) r2) y l2)
        (insert y ((set_tree (Node l1 x r1) \<union> set_tree r2) \<union> set_tree l2))"
      by (rule merge_step)
        (use "3.prems" False ab in \<open>auto simp: skew_heap_merge_simps(4)\<close>)
    then show ?thesis using False by (simp add: insert_commute Un_ac)
  qed
qed

text \<open>The entries of a represented tree are distinct, so a deletion removes them all.\<close>

lemma count_nodes: "sheap H r t \<Longrightarrow> count (nodes t) x \<le> 1"
proof (induction t arbitrary: r)
  case (Node l y u)
  then have "count (nodes l) x \<le> 1" "count (nodes u) x \<le> 1" by auto
  moreover have "x \<notin> set_tree l \<or> x \<notin> set_tree u" using Node.prems by auto
  moreover have "count (nodes l) x = 0" if "x \<notin> set_tree l"
    using that by (simp add: count_eq_zero_iff)
  moreover have "count (nodes u) x = 0" if "x \<notin> set_tree u"
    using that by (simp add: count_eq_zero_iff)
  ultimately show ?case using Node.prems by auto
qed simp

lemma set_skew_delete:
  assumes "sheap H r t"
  shows "set_tree (skew_delete cmp b t) = set_tree t - {b}"
proof (cases "b \<in> set_tree t")
  case True
  have *: "x \<in># nodes t - {#b#} \<longleftrightarrow> x \<in># nodes t \<and> x \<noteq> b" for x
    using count_nodes [OF assms, of b] by (auto simp: in_diff_count not_in_iff)
  have "set_mset (nodes t - {#b#}) = set_mset (nodes t) - {b}" by (rule set_eqI) (simp only: *, simp)
  then show ?thesis by (simp only: nodes_skew_delete [OF True, of cmp, symmetric] set_mset_nodes)
next
  case False
  then have "skew_delete cmp b t = t" by (induction t) auto
  with False show ?thesis by simp
qed

lemma rooted_skew_merge:
  "rooted H p t \<Longrightarrow> rooted H p u \<Longrightarrow> rooted H p (skew_merge cmp t u)"
  by (cases t; cases u) auto

lemma rooted_root: "sheap H (Some x) t \<Longrightarrow> rooted H p t \<longleftrightarrow> parent_of H x = p"
  by (cases t) auto

text \<open>A complete heap: the root has no parent.\<close>

definition heap_rep :: "'n skew \<Rightarrow> 'n option \<Rightarrow> 'n tree \<Rightarrow> bool" where
  "heap_rep H r t \<longleftrightarrow> sheap H r t \<and> rooted H None t"

lemma heap_rep_Leaf: "heap_rep H None Leaf"
  by (simp add: heap_rep_def)

lemma heap_rep_cong: "same_fields H H' (set_tree t) \<Longrightarrow> heap_rep H' r t = heap_rep H r t"
  by (simp add: heap_rep_def sheap_cong rooted_cong)

lemma heap_rep_root: "heap_rep H r t \<Longrightarrow> r = None \<longleftrightarrow> t = Leaf" 
  by (cases t) (auto simp: heap_rep_def)

lemma rooted_same_root:
  assumes "sheap H r v" "sheap H' r v" "rooted H p v"
    and "\<forall>x. r = Some x \<longrightarrow> parent_of H' x = parent_of H x"
  shows "rooted H' p v"
  using assms by (cases v) auto

lemma skew_heap_insert_refines:
  assumes rep: "heap_rep H a t" and b: "b \<notin> set_tree t"
  obtains r H' where "skew_heap_insert cmp a b H = Some (r, H')"
    and "heap_rep H' r (skew_merge cmp t (Node Leaf b Leaf))"
    and "same_fields H H' (- insert b (set_tree t))"
proof -
  let ?H = "skew_heap_init b H" and ?b = "Node Leaf b Leaf"
  have s: "same_fields H ?H (- {b})" by (simp add: same_fields_def skew_heap_init_def)
  then have t: "sheap ?H a t" "rooted ?H None t"
    using rep b same_fields_mono [OF s, of "set_tree t"]
    by (auto simp: heap_rep_def sheap_cong rooted_cong)
  have sb: "sheap ?H (Some b) ?b" "rooted ?H None ?b" by (simp_all add: skew_heap_init_def)
  obtain r H' where m: "skew_heap_merge cmp a (Some b) ?H = Some (r, H')"
    "sheap H' r (skew_merge cmp t ?b)" "same_fields ?H H' (- (set_tree t \<union> set_tree ?b))"
    "\<forall>x. r = Some x \<longrightarrow> parent_of H' x = parent_of ?H x"
    using skew_heap_merge_refines [OF t(1) sb(1), where cmp = cmp] b unfolding merges_to_def by auto
  have "rooted ?H None (skew_merge cmp t ?b)" using t(2) sb(2) by (rule rooted_skew_merge)
  then have "rooted H' None (skew_merge cmp t ?b)"
    using m(2,4) by (cases "skew_merge cmp t ?b") auto
  moreover have "same_fields H H' (- insert b (set_tree t))"
    by (rule same_fields_trans [OF s m(3)]) auto
  ultimately show ?thesis
    using that m(1,2) by (simp add: skew_heap_insert_def heap_rep_def)
qed

lemma set_parent_facts:
  assumes "sheap H r v"
  shows "sheap (set_parent r p H) r v" "rooted (set_parent r p H) p v"
    "same_fields H (set_parent r p H) (- set_tree v)"
    "left_of (set_parent r p H) = left_of H" "right_of (set_parent r p H) = right_of H"
proof -
  show "sheap (set_parent r p H) r v"
    using assms sheap_set_root_parent [OF assms]
    by (auto simp: set_parent_def split: option.splits)
  show "rooted (set_parent r p H) p v"
    using assms by (cases v) (auto simp: set_parent_def)
  show "same_fields H (set_parent r p H) (- set_tree v)"
    using assms sheap_root_in [of H _ v]
    by (auto simp: set_parent_def same_fields_def split: option.splits)
qed (simp_all add: set_parent_def split: option.splits)

text \<open>The merge of the two children of the removed entry, hung below its parent.\<close>

lemma remove_rep:
  assumes "sheap H (Some b) (Node l b r)"
  obtains rep G where "skew_heap_merge cmp (left_of H b) (right_of H b) H = Some (rep, G)"
    and "sheap (set_parent rep p G) rep (skew_merge cmp l r)"
    and "rooted (set_parent rep p G) p (skew_merge cmp l r)"
    and "same_fields H (set_parent rep p G) (- (set_tree l \<union> set_tree r))"
proof -
  obtain rep G where m: "skew_heap_merge cmp (left_of H b) (right_of H b) H = Some (rep, G)"
    "sheap G rep (skew_merge cmp l r)" "same_fields H G (- (set_tree l \<union> set_tree r))"
    using skew_heap_merge_refines [of H "left_of H b" l "right_of H b" r cmp] assms
    unfolding merges_to_def by auto
  have "same_fields H (set_parent rep p G) (- (set_tree l \<union> set_tree r))"
    by (rule same_fields_trans [OF m(3) set_parent_facts(3) [OF m(2)]]) auto
  with m set_parent_facts [OF m(2)] show ?thesis by (intro that) auto
qed

definition removes_to :: "'n compare_f \<Rightarrow> 'n option \<Rightarrow> 'n \<Rightarrow> 'n skew \<Rightarrow> 'n tree \<Rightarrow> 'n set \<Rightarrow> bool"
where
  "removes_to cmp a b H v S \<longleftrightarrow>
     (\<exists>H'. skew_heap_remove cmp a b H = Some (a, H') \<and> sheap H' a v \<and> same_fields H H' (- S) \<and>
        (\<forall>x. a = Some x \<longrightarrow> parent_of H' x = parent_of H x))"

lemma remove_left_child:
  assumes t: "sheap H (Some x) (Node (Node l b r) x u)"
  shows "removes_to cmp (Some x) b H (Node (skew_merge cmp l r) x u)
           (set_tree (Node (Node l b r) x u))"
proof -
  have b: "sheap H (Some b) (Node l b r)" "parent_of H b = Some x" "left_of H x = Some b"
    using t by auto
  obtain rep G where G: "skew_heap_merge cmp (left_of H b) (right_of H b) H = Some (rep, G)"
    "sheap (set_parent rep (Some x) G) rep (skew_merge cmp l r)"
    "rooted (set_parent rep (Some x) G) (Some x) (skew_merge cmp l r)"
    "same_fields H (set_parent rep (Some x) G) (- (set_tree l \<union> set_tree r))"
    using remove_rep [OF b(1)] by metis
  let ?G = "set_parent rep (Some x) G"
  let ?H = "?G\<lparr>left_of := (left_of ?G)(x := rep)\<rparr>"
  have x: "x \<in> - (set_tree l \<union> set_tree r)" using t by auto
  have s: "same_fields ?G ?H (set_tree (skew_merge cmp l r))" "same_fields ?G ?H (set_tree u)"
    "same_fields ?G ?H (- {x})"
    using x t by (auto simp: same_fields_def)
  have "set_tree u \<subseteq> - (set_tree l \<union> set_tree r)" using t by auto
  then have su: "same_fields H ?H (set_tree u)"
    by (intro same_fields_trans [OF G(4) s(2)]) simp
  have px: "left_of ?G x = Some b" "right_of ?G x = right_of H x" "parent_of ?G x = parent_of H x"
    using G(4) x b(3) unfolding same_fields_def by auto
  have "sheap ?H (Some x) (Node (skew_merge cmp l r) x u)"
    using t G(2,3) px s(1) su by (auto simp: sheap_cong rooted_cong)
  moreover have "same_fields H ?H (- set_tree (Node (Node l b r) x u))"
    by (rule same_fields_trans [OF G(4) s(3)]) auto
  moreover have "skew_heap_remove cmp (Some x) b H = Some (Some x, ?H)"
    using G(1) b(2) px(1) by (simp add: skew_heap_remove_def Let_def)
  ultimately show ?thesis using px(3) by (simp add: removes_to_def)
qed

lemma remove_right_child:
  assumes t: "sheap H (Some x) (Node u x (Node l b r))"
  shows "removes_to cmp (Some x) b H (Node u x (skew_merge cmp l r))
           (set_tree (Node u x (Node l b r)))"
proof -
  have b: "sheap H (Some b) (Node l b r)" "parent_of H b = Some x" "left_of H x \<noteq> Some b"
    using t sheap_root_in [of H b u] by auto
  obtain rep G where G: "skew_heap_merge cmp (left_of H b) (right_of H b) H = Some (rep, G)"
    "sheap (set_parent rep (Some x) G) rep (skew_merge cmp l r)"
    "rooted (set_parent rep (Some x) G) (Some x) (skew_merge cmp l r)"
    "same_fields H (set_parent rep (Some x) G) (- (set_tree l \<union> set_tree r))"
    using remove_rep [OF b(1)] by metis
  let ?G = "set_parent rep (Some x) G"
  let ?H = "?G\<lparr>right_of := (right_of ?G)(x := rep)\<rparr>"
  have x: "x \<in> - (set_tree l \<union> set_tree r)" using t by auto
  have s: "same_fields ?G ?H (set_tree (skew_merge cmp l r))" "same_fields ?G ?H (set_tree u)"
    "same_fields ?G ?H (- {x})"
    using x t by (auto simp: same_fields_def)
  have "set_tree u \<subseteq> - (set_tree l \<union> set_tree r)" using t by auto
  then have su: "same_fields H ?H (set_tree u)"
    by (intro same_fields_trans [OF G(4) s(2)]) simp
  have px: "left_of ?G x = left_of H x" "parent_of ?G x = parent_of H x"
    using G(4) x unfolding same_fields_def by auto
  have "sheap ?H (Some x) (Node u x (skew_merge cmp l r))"
    using t G(2,3) px s(1) su by (auto simp: sheap_cong rooted_cong)
  moreover have "same_fields H ?H (- set_tree (Node u x (Node l b r)))"
    by (rule same_fields_trans [OF G(4) s(3)]) auto
  moreover have "skew_heap_remove cmp (Some x) b H = Some (Some x, ?H)"
    using G(1) b(2,3) px(1) by (simp add: skew_heap_remove_def Let_def)
  ultimately show ?thesis using px(2) by (simp add: removes_to_def)
qed

text \<open>Removing an entry that has a parent does not read the root pointer.\<close>

lemma removes_to_lift:
  assumes r: "removes_to cmp a b H v S" and p: "parent_of H b \<noteq> None"
    and d: "x \<notin> S" "set_tree v \<subseteq> S" "S \<inter> set_tree u = {}" "x \<notin> set_tree u"
    and u: "sheap H ru u" "rooted H (Some x) u"
    and v: "rooted H (Some x) t" "sheap H a t" "t \<noteq> Leaf"
  shows "a = left_of H x \<Longrightarrow> ru = right_of H x \<Longrightarrow>
      removes_to cmp (Some x) b H (Node v x u) (insert x (S \<union> set_tree u))"
    and "ru = left_of H x \<Longrightarrow> a = right_of H x \<Longrightarrow>
      removes_to cmp (Some x) b H (Node u x v) (insert x (S \<union> set_tree u))"
proof -
  obtain H' where H': "skew_heap_remove cmp a b H = Some (a, H')" "sheap H' a v"
    "same_fields H H' (- S)" "\<forall>y. a = Some y \<longrightarrow> parent_of H' y = parent_of H y"
    using r by (auto simp: removes_to_def)
  have rem: "skew_heap_remove cmp (Some x) b H = Some (Some x, H')"
    using H'(1) p
    by (cases "parent_of H b"; cases "skew_heap_merge cmp (left_of H b) (right_of H b) H")
      (auto simp: skew_heap_remove_def Let_def)
  obtain y where y: "a = Some y" "parent_of H y = Some x" using v by (cases t) auto
  then have rv: "rooted H' (Some x) v" using H'(2,4) by (cases v) auto
  have su: "same_fields H H' (set_tree u)" "same_fields H H' {x}"
    using d by (auto intro: same_fields_mono [OF H'(3)])
  then have x: "left_of H' x = left_of H x" "right_of H' x = right_of H x"
    "parent_of H' x = parent_of H x" by (auto simp: same_fields_def)
  have uu: "sheap H' ru u" "rooted H' (Some x) u" using u su(1) by (simp_all add: sheap_cong rooted_cong)
  have fr: "same_fields H H' (- insert x (S \<union> set_tree u))"
    by (rule same_fields_mono [OF H'(3)]) auto
  have dis: "x \<notin> set_tree v" "set_tree v \<inter> set_tree u = {}" "set_tree u \<inter> set_tree v = {}"
    using d by auto
  { assume "a = left_of H x" "ru = right_of H x"
    then have "sheap H' (Some x) (Node v x u)" using H'(2) rv uu x dis d(4) by simp
    then show "removes_to cmp (Some x) b H (Node v x u) (insert x (S \<union> set_tree u))"
      using rem fr x(3) by (simp add: removes_to_def) }
  { assume "ru = left_of H x" "a = right_of H x"
    then have "sheap H' (Some x) (Node u x v)" using H'(2) rv uu x dis d(4) by simp
    then show "removes_to cmp (Some x) b H (Node u x v) (insert x (S \<union> set_tree u))"
      using rem fr x(3) by (simp add: removes_to_def) }
qed

lemma parent_in_tree:
  assumes "sheap H a t" "b \<in> set_tree t" "a \<noteq> Some b"
  shows "parent_of H b \<noteq> None"
  using assms
proof (induction t arbitrary: a)
  case (Node l x r)
  then show ?case by (cases l; cases r) auto
qed simp

lemma skew_heap_remove_inner:
  assumes "sheap H a t" "b \<in> set_tree t" "a \<noteq> Some b"
  shows "removes_to cmp a b H (skew_delete cmp b t) (set_tree t)"
  using assms
proof (induction t arbitrary: a)
  case (Node l x r)
  have a: "a = Some x" and xb: "x \<noteq> b" using Node.prems by auto
  have p: "parent_of H b \<noteq> None" by (rule parent_in_tree [OF Node.prems])
  have not_leaf: "b \<in> set_tree l \<Longrightarrow> l \<noteq> Leaf" "b \<in> set_tree r \<Longrightarrow> r \<noteq> Leaf" by auto
  show ?case
  proof (cases "b \<in> set_tree l")
    case True
    show ?thesis
    proof (cases "left_of H x = Some b")
      case lb: True
      then obtain l1 l2 where l: "l = Node l1 b l2" using Node.prems(1) True by (cases l) auto
      show ?thesis
        using remove_left_child [of H x l1 b l2 r cmp] Node.prems(1) a xb l by simp
    next
      case False
      have "removes_to cmp (left_of H x) b H (skew_delete cmp b l) (set_tree l)"
        using Node.prems(1) True False by (intro Node.IH(1)) auto
      then show ?thesis
        using removes_to_lift(1) [of cmp "left_of H x" b H _ "set_tree l" x r "right_of H x" l]
          Node.prems(1) p True a xb set_skew_delete_subset [of cmp b l] not_leaf(1) [OF True]
        by simp
    qed
  next
    case False
    then have br: "b \<in> set_tree r" using Node.prems(2) xb by simp
    show ?thesis
    proof (cases "right_of H x = Some b")
      case rb: True
      then obtain l1 l2 where l: "r = Node l1 b l2" using Node.prems(1) br by (cases r) auto
      show ?thesis
        using remove_right_child [of H x l l1 b l2 cmp] Node.prems(1) a xb l False by simp
    next
      case rb: False
      have "removes_to cmp (right_of H x) b H (skew_delete cmp b r) (set_tree r)"
        using Node.prems(1) br rb by (intro Node.IH(2)) auto
      then show ?thesis
        using removes_to_lift(2) [of cmp "right_of H x" b H _ "set_tree r" x l "left_of H x" r]
          Node.prems(1) p br a xb False set_skew_delete_subset [of cmp b r] not_leaf(2) [OF br]
        by (simp add: Un_commute Int_commute)
    qed
  qed
qed simp

lemma skew_heap_remove_refines:
  assumes rep: "heap_rep H a t" and b: "b \<in> set_tree t"
  obtains r H' where "skew_heap_remove cmp a b H = Some (r, H')"
    and "heap_rep H' r (skew_delete cmp b t)"
    and "same_fields H H' (- set_tree t)"
proof (cases "a = Some b")
  case True
  then obtain l u where t: "t = Node l b u" using rep by (cases t) (auto simp: heap_rep_def)
  have "sheap H (Some b) (Node l b u)" using rep t by (simp add: heap_rep_def)
  then obtain rep' G where G: "skew_heap_merge cmp (left_of H b) (right_of H b) H = Some (rep', G)"
    "sheap (set_parent rep' None G) rep' (skew_merge cmp l u)"
    "rooted (set_parent rep' None G) None (skew_merge cmp l u)"
    "same_fields H (set_parent rep' None G) (- (set_tree l \<union> set_tree u))"
    using remove_rep by metis
  have "parent_of H b = None" using rep t by (simp add: heap_rep_def)
  then have "skew_heap_remove cmp a b H = Some (rep', set_parent rep' None G)"
    using G(1) by (simp add: skew_heap_remove_def Let_def)
  moreover have "same_fields H (set_parent rep' None G) (- set_tree t)"
    by (rule same_fields_mono [OF G(4)]) (use t in auto)
  ultimately show ?thesis using that G(2,3) t by (simp add: heap_rep_def)
next
  case False
  have "removes_to cmp a b H (skew_delete cmp b t) (set_tree t)"
    using rep b False by (intro skew_heap_remove_inner) (auto simp: heap_rep_def)
  then obtain H' where H': "skew_heap_remove cmp a b H = Some (a, H')"
    "sheap H' a (skew_delete cmp b t)" "same_fields H H' (- set_tree t)"
    "\<forall>x. a = Some x \<longrightarrow> parent_of H' x = parent_of H x"
    by (auto simp: removes_to_def)
  have "\<exists>x. a = Some x \<and> parent_of H x = None"
    using rep b by (cases t) (auto simp: heap_rep_def)
  then have "rooted H' None (skew_delete cmp b t)"
    using H'(2,4) by (cases "skew_delete cmp b t") auto
  then show ?thesis using that H' by (simp add: heap_rep_def)
qed

section \<open>The contract of the heap\<close>

text \<open>
  C35: on a well-formed min-heap, inserting an entry that is not in it ends, gives a
  well-formed heap of exactly one more entry that is still min-ordered whenever the callback
  compares the keys, and writes no field of any other entry.
\<close>

theorem skew_heap_insert_correct:
  assumes "heap_rep H a t" "b \<notin> set_tree t"
    and "heap_by k t" "comp_ok cmp k (insert b (set_tree t))"
  shows "\<exists>r H' t'. skew_heap_insert cmp a b H = Some (r, H') \<and> heap_rep H' r t' \<and>
           heap_by k t' \<and> nodes t' = add_mset b (nodes t) \<and>
           (\<forall>x. x \<noteq> b \<and> x \<notin> set_tree t \<longrightarrow>
              left_of H' x = left_of H x \<and> right_of H' x = right_of H x \<and>
              parent_of H' x = parent_of H x)"
proof -
  obtain r H' where i: "skew_heap_insert cmp a b H = Some (r, H')"
    "heap_rep H' r (skew_merge cmp t (Node Leaf b Leaf))"
    "same_fields H H' (- insert b (set_tree t))"
    using skew_heap_insert_refines [OF assms(1,2)] by metis
  have "heap_by k (skew_merge cmp t (Node Leaf b Leaf))"
    by (rule heap_by_skew_merge) (use assms(3,4) in auto)
  with i show ?thesis
    by (intro exI [of _ r] exI [of _ H'] exI [of _ "skew_merge cmp t (Node Leaf b Leaf)"])
      (auto simp: same_fields_def)
qed

text \<open>
  C36: removing an entry of a well-formed min-heap, the root or any other, ends, deletes
  exactly this entry, keeps the heap well-formed and min-ordered, and writes no field outside
  the heap.
\<close>

theorem skew_heap_remove_correct:
  assumes "heap_rep H a t" "b \<in> set_tree t"
    and "heap_by k t" "comp_ok cmp k (set_tree t)"
  shows "\<exists>r H' t'. skew_heap_remove cmp a b H = Some (r, H') \<and> heap_rep H' r t' \<and>
           heap_by k t' \<and> nodes t' = nodes t - {#b#} \<and>
           (\<forall>x. x \<notin> set_tree t \<longrightarrow>
              left_of H' x = left_of H x \<and> right_of H' x = right_of H x \<and>
              parent_of H' x = parent_of H x)"
proof -
  obtain r H' where i: "skew_heap_remove cmp a b H = Some (r, H')"
    "heap_rep H' r (skew_delete cmp b t)" "same_fields H H' (- set_tree t)"
    using skew_heap_remove_refines [OF assms(1,2)] by metis
  have "heap_by k (skew_delete cmp b t)" using assms(3,4) by (rule heap_by_skew_delete)
  with i nodes_skew_delete [OF assms(2), of cmp] show ?thesis
    by (intro exI [of _ r] exI [of _ H'] exI [of _ "skew_delete cmp b t"])
      (auto simp: same_fields_def)
qed

section \<open>Witnesses\<close>

text \<open>A heap of the entries 1, 2 and 3, whose keys are the entries themselves.\<close>

definition example_heap :: "nat skew" where
  "example_heap = \<lparr>parent_of = (\<lambda>_. None)(2 := Some 1, 3 := Some 1),
     left_of = (\<lambda>_. None)(1 := Some 2), right_of = (\<lambda>_. None)(1 := Some 3)\<rparr>"

definition nat_comp :: "nat \<Rightarrow> nat \<Rightarrow> int" where
  "nat_comp a b = (if a < b then -1 else if a = b then 0 else 1)"

definition example_tree :: "nat tree" where
  "example_tree = Node (Node Leaf 2 Leaf) 1 (Node Leaf 3 Leaf)"

lemma example_heap_ok:
  "heap_rep example_heap (Some 1) example_tree" "heap_by int example_tree"
  "comp_ok nat_comp int S"
  by (simp_all add: heap_rep_def example_heap_def example_tree_def comp_ok_def nat_comp_def)

theorem skew_heap_insert_correct_witness:
  "\<exists>r H' t'. skew_heap_insert nat_comp (Some 1) 4 example_heap = Some (r, H') \<and>
     heap_rep H' r t' \<and> heap_by int t' \<and> nodes t' = {#4, 1, 2, 3#}"
proof -
  have "(4::nat) \<notin> set_tree example_tree" "nodes example_tree = {#1, 2, 3#}"
    by (simp_all add: example_tree_def)
  then show ?thesis
    using skew_heap_insert_correct [OF example_heap_ok(1) _ example_heap_ok(2,3), of 4] by auto
qed

theorem skew_heap_remove_correct_witness:
  "\<exists>r H' t'. skew_heap_remove nat_comp (Some 1) 2 example_heap = Some (r, H') \<and>
     heap_rep H' r t' \<and> heap_by int t' \<and> nodes t' = {#1, 3#}"
proof -
  have "(2::nat) \<in> set_tree example_tree" "nodes example_tree - {#2#} = {#1, 3#}"
    by (simp_all add: example_tree_def)
  then show ?thesis
    using skew_heap_remove_correct [OF example_heap_ok(1) _ example_heap_ok(2,3), of 2] by auto
qed

end
