(* ===== verification/ProcStruct.thy ===== *)
theory ProcStruct
imports LinkedList SkewHeap
begin

text \<open>
  The process descriptor of \<open>kern/process/proc.h\<close> and the run queue of
  \<open>kern/schedule/sched.h\<close>. A process pointer is a natural number (\<open>NULL\<close> is \<open>None\<close> where a
  field may hold it) and the descriptors live in a store \<open>procs\<close>. The intrusive entries of a
  descriptor are nodes of their own stores: \<open>run_link\<close> of \<open>p\<close> is \<open>RunLink p\<close>, the head of the
  run list is \<open>RunList\<close>; the \<open>lab6_run_pool\<close> entry of \<open>p\<close> is \<open>p\<close> in the skew heap store.
  The kernel has one run queue, the static \<open>__rq\<close> of \<open>sched.c\<close>, so \<open>proc->rq\<close> is recorded as
  the truth value of \<open>proc->rq == &__rq\<close>.
\<close>

type_synonym proc_ptr = nat

datatype proc_state = PROC_UNINIT | PROC_SLEEPING | PROC_RUNNABLE | PROC_ZOMBIE

record proc_context_regs =
  ctx_ra :: "64 word"
  ctx_sp :: "64 word"
  ctx_s :: "(64 word) list"

record proc_struct =
  state :: proc_state
  pid :: int
  runs :: "32 word"
  kstack :: "nat option"
  need_resched :: bool
  parent :: "proc_ptr option"
  mm :: "nat option"
  proc_context :: proc_context_regs
  tf :: "nat option"
  pgdir :: "64 word"
  flags :: "32 word"
  proc_name :: string
  exit_code :: int
  wait_state :: "32 word"
  cptr :: "proc_ptr option"
  yptr :: "proc_ptr option"
  optr :: "proc_ptr option"
  on_rq :: bool
  time_slice :: int
  lab6_stride :: "32 word"
  lab6_priority :: "32 word"
  filesp :: "nat option"

definition PF_EXITING :: "32 word" where "PF_EXITING = 1"
definition WT_INTERRUPTED :: "32 word" where "WT_INTERRUPTED = 0x80000000"
definition WT_CHILD :: "32 word" where "WT_CHILD = 0x80000001"
definition WT_KSEM :: "32 word" where "WT_KSEM = 0x100"
definition WT_TIMER :: "32 word" where "WT_TIMER = 0x80000002"
definition WT_KBD :: "32 word" where "WT_KBD = 0x80000004"
definition MAX_TIME_SLICE :: int where "MAX_TIME_SLICE = 5"

datatype rnode = RunList | RunLink proc_ptr

text \<open>\<open>le2proc(le, run_link)\<close>; the head is not inside a \<open>proc_struct\<close>.\<close>

fun le2proc :: "rnode \<Rightarrow> proc_ptr option" where
  "le2proc (RunLink p) = Some p"
| "le2proc RunList = None"

text \<open>The processes and the run queue: what the functions of a \<open>sched_class\<close> read and write.\<close>

record sched =
  procs :: "proc_ptr \<Rightarrow> proc_struct"
  run_links :: "rnode links"
  pool :: "proc_ptr skew"
  proc_num :: "32 word"
  max_time_slice :: int
  lab6_run_pool :: "proc_ptr option"

definition upd_proc :: "proc_ptr \<Rightarrow> (proc_struct \<Rightarrow> proc_struct) \<Rightarrow> 'a sched_scheme \<Rightarrow> 'a sched_scheme"
where
  "upd_proc p f s = s\<lparr>procs := (procs s)(p := f (procs s p))\<rparr>"

lemma upd_proc_simps [simp]:
  "procs (upd_proc p f s) = (procs s)(p := f (procs s p))"
  "run_links (upd_proc p f s) = run_links s"
  "pool (upd_proc p f s) = pool s"
  "proc_num (upd_proc p f s) = proc_num s"
  "max_time_slice (upd_proc p f s) = max_time_slice s"
  "lab6_run_pool (upd_proc p f s) = lab6_run_pool s"
  "sched.more (upd_proc p f s) = sched.more s"
  by (simp_all add: upd_proc_def)

definition upd_run_links :: "(rnode links \<Rightarrow> rnode links) \<Rightarrow> 'a sched_scheme \<Rightarrow> 'a sched_scheme" where
  "upd_run_links f s = s\<lparr>run_links := f (run_links s)\<rparr>"

lemma upd_run_links_simps [simp]:
  "procs (upd_run_links g s) = procs s"
  "run_links (upd_run_links g s) = g (run_links s)"
  "pool (upd_run_links g s) = pool s"
  "proc_num (upd_run_links g s) = proc_num s"
  "max_time_slice (upd_run_links g s) = max_time_slice s"
  "lab6_run_pool (upd_run_links g s) = lab6_run_pool s"
  "sched.more (upd_run_links g s) = sched.more s"
  by (simp_all add: upd_run_links_def)

text \<open>
  \<open>struct sched_class\<close>: the function pointers, for a machine state \<open>'s\<close>. A scheduling function
  that stops on an assertion or divides by zero has no result.
\<close>

record 's sched_class =
  class_name :: string
  sc_init :: "'s \<Rightarrow> 's"
  sc_enqueue :: "proc_ptr \<Rightarrow> 's \<Rightarrow> 's option"
  sc_dequeue :: "proc_ptr \<Rightarrow> 's \<Rightarrow> 's option"
  sc_pick_next :: "'s \<Rightarrow> (proc_ptr option \<times> 's) option"
  sc_proc_tick :: "proc_ptr \<Rightarrow> 's \<Rightarrow> 's"

text \<open>What a scheduling function may change of a process: \<open>time_slice\<close>, \<open>rq\<close>, \<open>lab6_stride\<close>.\<close>

definition same_proc :: "proc_struct \<Rightarrow> proc_struct \<Rightarrow> bool" where
  "same_proc p q \<longleftrightarrow>
     q\<lparr>on_rq := False, time_slice := 0, lab6_stride := 0\<rparr> =
     p\<lparr>on_rq := False, time_slice := 0, lab6_stride := 0\<rparr>"

definition same_procs :: "'a sched_scheme \<Rightarrow> 'a sched_scheme \<Rightarrow> bool" where
  "same_procs s s' \<longleftrightarrow> (\<forall>p. same_proc (procs s p) (procs s' p)) \<and> sched.more s' = sched.more s"

lemma same_proc_refl [simp]: "same_proc p p"
  by (simp add: same_proc_def)

lemma same_procs_refl [simp]: "same_procs s s"
  by (simp add: same_procs_def)

lemma same_proc_fields:
  assumes "same_proc p q"
  shows "state q = state p" "pid q = pid p" "runs q = runs p" "need_resched q = need_resched p"
    "wait_state q = wait_state p" "lab6_priority q = lab6_priority p" "parent q = parent p"
    "mm q = mm p"
proof -
  note e = assms [unfolded same_proc_def]
  show "state q = state p" using arg_cong [OF e, of state] by simp
  show "pid q = pid p" using arg_cong [OF e, of pid] by simp
  show "runs q = runs p" using arg_cong [OF e, of runs] by simp
  show "need_resched q = need_resched p" using arg_cong [OF e, of need_resched] by simp
  show "wait_state q = wait_state p" using arg_cong [OF e, of wait_state] by simp
  show "lab6_priority q = lab6_priority p" using arg_cong [OF e, of lab6_priority] by simp
  show "parent q = parent p" using arg_cong [OF e, of parent] by simp
  show "mm q = mm p" using arg_cong [OF e, of mm] by simp
qed

lemma same_proc_trans: "same_proc p q \<Longrightarrow> same_proc q r \<Longrightarrow> same_proc p r"
  by (simp add: same_proc_def)

lemma same_procs_trans: "same_procs s t \<Longrightarrow> same_procs t u \<Longrightarrow> same_procs s u"
  by (auto simp: same_procs_def intro: same_proc_trans)

end
