(* ===== verification/SchedClass.thy ===== *)
theory SchedClass
imports ProcStruct
begin

text \<open>
  The scheduling core of \<open>kern/schedule/sched.c\<close>, with the scheduling class \<open>C\<close> as a
  parameter, as the code calls it through \<open>struct sched_class\<close>: \<open>wakeup_proc\<close>, \<open>schedule\<close> and
  the tick, and \<open>proc_run\<close> of \<open>kern/process/proc.c\<close>. The locale \<open>sched_class_laws\<close> is the
  contract of a scheduling class; its lemmas are the guarantees of the core for every class
  that satisfies the contract.

  \<open>schedule\<close> is modelled up to \<open>switch_to\<close>: the state after it is the one the chosen process
  runs in. Interrupts are disabled in these functions (\<open>local_intr_save\<close>), so they are atomic
  steps. Dereferencing a \<open>NULL\<close> \<open>current\<close> or \<open>idleproc\<close> stops the machine.
\<close>

record kernel = sched +
  current :: "proc_ptr option"
  idleproc :: "proc_ptr option"
  initproc :: "proc_ptr option"
  satp :: "64 word"

lemma upd_proc_kernel [simp]:
  "current (upd_proc p f s) = current s" "idleproc (upd_proc p f s) = idleproc s"
  "initproc (upd_proc p f s) = initproc s" "satp (upd_proc p f s) = satp s"
  "kernel.more (upd_proc p f s) = kernel.more s"
  by (simp_all add: upd_proc_def)

lemma more_eq_kernel:
  fixes s s' :: "'a kernel_scheme"
  assumes "sched.more s' = sched.more s"
  shows "current s' = current s" "idleproc s' = idleproc s" "initproc s' = initproc s"
    "satp s' = satp s" "kernel.more s' = kernel.more s"
  using assms by (cases s; cases s'; simp)+

section \<open>The operations\<close>

definition sched_class_enqueue ::
  "'a kernel_scheme sched_class \<Rightarrow> proc_ptr \<Rightarrow> 'a kernel_scheme \<Rightarrow> 'a kernel_scheme option"
where
  "sched_class_enqueue C p s = (if Some p \<noteq> idleproc s then sc_enqueue C p s else Some s)"

definition sched_class_proc_tick ::
  "'a kernel_scheme sched_class \<Rightarrow> proc_ptr \<Rightarrow> 'a kernel_scheme \<Rightarrow> 'a kernel_scheme"
where
  "sched_class_proc_tick C p s =
     (if Some p \<noteq> idleproc s then sc_proc_tick C p s
      else upd_proc p (\<lambda>d. d\<lparr>need_resched := True\<rparr>) s)"

definition wakeup_proc ::
  "'a kernel_scheme sched_class \<Rightarrow> proc_ptr \<Rightarrow> 'a kernel_scheme \<Rightarrow> 'a kernel_scheme option"
where
  "wakeup_proc C p s =
     do {
       kassert (state (procs s p) \<noteq> PROC_ZOMBIE);
       if state (procs s p) \<noteq> PROC_RUNNABLE
       then let s1 = upd_proc p (\<lambda>d. d\<lparr>state := PROC_RUNNABLE\<rparr>) s;
                s2 = upd_proc p (\<lambda>d. d\<lparr>wait_state := 0\<rparr>) s1
            in (if Some p \<noteq> current s2 then sched_class_enqueue C p s2 else Some s2)
       else Some s
     }"

definition SATP_MODE_SV39 :: "64 word" where "SATP_MODE_SV39 = 8"

definition proc_run :: "proc_ptr \<Rightarrow> 'a kernel_scheme \<Rightarrow> 'a kernel_scheme" where
  "proc_run p s =
     (if Some p \<noteq> current s
      then s\<lparr>current := Some p,
             satp := or (push_bit 60 SATP_MODE_SV39) (drop_bit 12 (pgdir (procs s p)))\<rparr>
      else s)"

definition schedule :: "'a kernel_scheme sched_class \<Rightarrow> 'a kernel_scheme \<Rightarrow> 'a kernel_scheme option"
where
  "schedule C s =
     do {
       c \<leftarrow> current s;
       let s1 = upd_proc c (\<lambda>d. d\<lparr>need_resched := False\<rparr>) s;
       s2 \<leftarrow> (if state (procs s1 c) = PROC_RUNNABLE then sched_class_enqueue C c s1 else Some s1);
       (nx, s3) \<leftarrow> sc_pick_next C s2;
       s4 \<leftarrow> (case nx of None \<Rightarrow> Some s3 | Some n \<Rightarrow> sc_dequeue C n s3);
       n \<leftarrow> (case nx of None \<Rightarrow> idleproc s4 | Some n \<Rightarrow> Some n);
       let s5 = upd_proc n (\<lambda>d. d\<lparr>runs := runs d + 1\<rparr>) s4;
       Some (if Some n \<noteq> current s5 then proc_run n s5 else s5)
     }"

text \<open>Repeated scheduling, with no other event in between.\<close>

fun schedule_times ::
  "'a kernel_scheme sched_class \<Rightarrow> nat \<Rightarrow> 'a kernel_scheme \<Rightarrow> 'a kernel_scheme option"
where
  "schedule_times C 0 s = Some s"
| "schedule_times C (Suc n) s = do { s1 \<leftarrow> schedule C s; schedule_times C n s1 }"

text \<open>How often \<open>p\<close> is the process chosen by these schedules; its 32-bit counter \<open>runs\<close> wraps.\<close>

fun run_count ::
  "'a kernel_scheme sched_class \<Rightarrow> nat \<Rightarrow> 'a kernel_scheme \<Rightarrow> proc_ptr \<Rightarrow> nat"
where
  "run_count C 0 s p = 0"
| "run_count C (Suc n) s p =
     (case schedule C s of
        None \<Rightarrow> 0
      | Some s1 \<Rightarrow> (if current s1 = Some p then 1 else 0) + run_count C n s1 p)"

section \<open>The contract of a scheduling class\<close>

text \<open>The part of the state a scheduling class owns.\<close>

definition same_queue :: "'a sched_scheme \<Rightarrow> 'b sched_scheme \<Rightarrow> bool" where
  "same_queue s s' \<longleftrightarrow>
     run_links s' = run_links s \<and> pool s' = pool s \<and> proc_num s' = proc_num s \<and>
     max_time_slice s' = max_time_slice s \<and> lab6_run_pool s' = lab6_run_pool s \<and>
     (\<forall>p. on_rq (procs s' p) = on_rq (procs s p) \<and>
          time_slice (procs s' p) = time_slice (procs s p) \<and>
          lab6_stride (procs s' p) = lab6_stride (procs s p) \<and>
          lab6_priority (procs s' p) = lab6_priority (procs s p))"

lemma same_queue_upd_proc:
  assumes "\<And>d. on_rq (f d) = on_rq d \<and> time_slice (f d) = time_slice d \<and>
    lab6_stride (f d) = lab6_stride d \<and> lab6_priority (f d) = lab6_priority d"
  shows "same_queue s (upd_proc p f s)"
  using assms by (simp add: same_queue_def)

lemma same_queue_proc_run: "same_queue s (proc_run p s)"
  by (simp add: same_queue_def proc_run_def)

lemma same_queue_trans: "same_queue s t \<Longrightarrow> same_queue t u \<Longrightarrow> same_queue s u"
  by (simp add: same_queue_def)

locale sched_class_laws =
  fixes C :: "'a sched_scheme sched_class"
    and rq_ok :: "'a sched_scheme \<Rightarrow> bool"
    and queue :: "'a sched_scheme \<Rightarrow> proc_ptr set"
    and ready :: "proc_ptr \<Rightarrow> 'a sched_scheme \<Rightarrow> bool"
  assumes frame: "rq_ok s \<Longrightarrow> same_queue s s' \<Longrightarrow>
      rq_ok s' \<and> queue s' = queue s \<and> (\<forall>p. ready p s' = ready p s)"
    and ready_not_queued: "rq_ok s \<Longrightarrow> ready p s \<Longrightarrow> p \<notin> queue s"
    and enqueue: "rq_ok s \<Longrightarrow> ready p s \<Longrightarrow>
      \<exists>s'. sc_enqueue C p s = Some s' \<and> rq_ok s' \<and> queue s' = insert p (queue s) \<and>
           same_procs s s' \<and> (\<forall>q. ready q s' \<longleftrightarrow> ready q s \<and> q \<noteq> p)"
    and dequeue: "rq_ok s \<Longrightarrow> p \<in> queue s \<Longrightarrow>
      \<exists>s'. sc_dequeue C p s = Some s' \<and> rq_ok s' \<and> queue s' = queue s - {p} \<and>
           same_procs s s' \<and> (\<forall>q. ready q s' \<longleftrightarrow> ready q s \<or> q = p)"
    and pick_next: "rq_ok s \<Longrightarrow>
      \<exists>r s'. sc_pick_next C s = Some (r, s') \<and> rq_ok s' \<and> queue s' = queue s \<and>
           same_procs s s' \<and> (\<forall>q. ready q s' = ready q s) \<and>
           (case r of None \<Rightarrow> queue s = {} | Some p \<Rightarrow> p \<in> queue s)"
    and proc_tick: "rq_ok s \<Longrightarrow>
      rq_ok (sc_proc_tick C p s) \<and> queue (sc_proc_tick C p s) = queue s \<and>
      (\<forall>q. ready q (sc_proc_tick C p s) = ready q s) \<and>
      (\<forall>q. state (procs (sc_proc_tick C p s) q) = state (procs s q)) \<and>
      sched.more (sc_proc_tick C p s) = sched.more s"

section \<open>What the core guarantees for every scheduling class\<close>

text \<open>
  The scheduling invariant over a set \<open>P\<close> of live processes: exactly the runnable processes
  of \<open>P\<close> other than the current and the idle process are queued, and every other process of
  \<open>P\<close> can be put into the queue.
\<close>

definition sched_ok ::
  "('a kernel_scheme \<Rightarrow> bool) \<Rightarrow> ('a kernel_scheme \<Rightarrow> proc_ptr set) \<Rightarrow>
   (proc_ptr \<Rightarrow> 'a kernel_scheme \<Rightarrow> bool) \<Rightarrow> proc_ptr set \<Rightarrow> proc_ptr \<Rightarrow> proc_ptr \<Rightarrow>
   'a kernel_scheme \<Rightarrow> bool"
where
  "sched_ok rq_ok queue ready P c i s \<longleftrightarrow>
     rq_ok s \<and> current s = Some c \<and> idleproc s = Some i \<and> c \<in> insert i P \<and> i \<notin> P \<and>
     queue s \<subseteq> P - {c} \<and> (\<forall>p \<in> queue s. state (procs s p) = PROC_RUNNABLE) \<and>
     (\<forall>p \<in> P - {c}. state (procs s p) = PROC_RUNNABLE \<longrightarrow> p \<in> queue s) \<and>
     (\<forall>p \<in> P - queue s. ready p s)"

text \<open>The processes that \<open>schedule\<close> can choose from.\<close>

definition candidates ::
  "('a kernel_scheme \<Rightarrow> proc_ptr set) \<Rightarrow> proc_ptr \<Rightarrow> proc_ptr \<Rightarrow> 'a kernel_scheme \<Rightarrow> proc_ptr set"
where
  "candidates queue c i s =
     queue s \<union> (if state (procs s c) = PROC_RUNNABLE \<and> c \<noteq> i then {c} else {})"

lemma same_procs_state: "same_procs s s' \<Longrightarrow> state (procs s' p) = state (procs s p)"
  by (simp add: same_procs_def same_proc_fields)

lemma same_procs_runs: "same_procs s s' \<Longrightarrow> runs (procs s' p) = runs (procs s p)"
  by (simp add: same_procs_def same_proc_fields)

lemma same_procs_wait_state: "same_procs s s' \<Longrightarrow> wait_state (procs s' p) = wait_state (procs s p)"
  by (simp add: same_procs_def same_proc_fields)

lemma same_procs_need_resched:
  "same_procs s s' \<Longrightarrow> need_resched (procs s' p) = need_resched (procs s p)"
  by (simp add: same_procs_def same_proc_fields)

lemma same_procs_more:
  fixes s s' :: "'a kernel_scheme"
  assumes "same_procs s s'"
  shows "current s' = current s" "idleproc s' = idleproc s"
  using assms more_eq_kernel [of s' s] by (simp_all add: same_procs_def)

locale sched_core = sched_class_laws C rq_ok queue ready
  for C :: "'b kernel_scheme sched_class"
    and rq_ok :: "'b kernel_scheme \<Rightarrow> bool"
    and queue :: "'b kernel_scheme \<Rightarrow> proc_ptr set"
    and ready :: "proc_ptr \<Rightarrow> 'b kernel_scheme \<Rightarrow> bool"
begin

lemma enqueue_current:
  assumes ok: "sched_ok rq_ok queue ready P c i s"
  obtains s2 where
    "(if state (procs s c) = PROC_RUNNABLE then sched_class_enqueue C c s else Some s) = Some s2"
    "rq_ok s2" "queue s2 = candidates queue c i s" "same_procs s s2"
    "\<forall>q \<in> P - candidates queue c i s. ready q s2"
proof (cases "state (procs s c) = PROC_RUNNABLE \<and> c \<noteq> i")
  case True
  then have c: "rq_ok s" "ready c s" "Some c \<noteq> idleproc s" using ok by (auto simp: sched_ok_def)
  obtain s2 where s2: "sc_enqueue C c s = Some s2" "rq_ok s2" "queue s2 = insert c (queue s)"
    "same_procs s s2" "\<forall>q. ready q s2 \<longleftrightarrow> ready q s \<and> q \<noteq> c"
    using enqueue [OF c(1,2)] by blast
  have "\<forall>q \<in> P - candidates queue c i s. ready q s2"
    using s2(5) True ok by (auto simp: sched_ok_def candidates_def)
  then show ?thesis using that s2 True c(3) by (simp add: sched_class_enqueue_def candidates_def)
next
  case False
  have "candidates queue c i s = queue s" using False by (auto simp: candidates_def)
  moreover have "idleproc s = Some i" "rq_ok s" "\<forall>p \<in> P - queue s. ready p s"
    using ok by (auto simp: sched_ok_def)
  ultimately show ?thesis using that [of s] False by (auto simp: sched_class_enqueue_def)
qed

lemma pick_and_dequeue:
  assumes s: "rq_ok s" and rd: "\<forall>q \<in> P - queue s. ready q s"
  obtains nx s3 s4 where "sc_pick_next C s = Some (nx, s3)"
    "(case nx of None \<Rightarrow> Some s3 | Some n \<Rightarrow> sc_dequeue C n s3) = Some s4"
    "rq_ok s4" "same_procs s s4" "queue s4 = queue s - set_option nx"
    "case nx of None \<Rightarrow> queue s = {} | Some p \<Rightarrow> p \<in> queue s"
    "\<forall>q \<in> P - queue s4. ready q s4"
proof -
  obtain nx s3 where p: "sc_pick_next C s = Some (nx, s3)" "rq_ok s3" "queue s3 = queue s"
    "same_procs s s3" "\<forall>q. ready q s3 = ready q s"
    "case nx of None \<Rightarrow> queue s = {} | Some p \<Rightarrow> p \<in> queue s"
    using pick_next [OF s] by metis
  show ?thesis
  proof (cases nx)
    case None
    then show ?thesis using that [of nx s3 s3] p rd by auto
  next
    case (Some n)
    then have n: "n \<in> queue s3" using p by simp
    obtain s4 where d: "sc_dequeue C n s3 = Some s4" "rq_ok s4" "queue s4 = queue s3 - {n}"
      "same_procs s3 s4" "\<forall>q. ready q s4 \<longleftrightarrow> ready q s3 \<or> q = n"
      using dequeue [OF p(2) n] by blast
    have "same_procs s s4" using p(4) d(4) by (rule same_procs_trans)
    moreover have "\<forall>q \<in> P - queue s4. ready q s4" using d p rd by auto
    ultimately show ?thesis using that [of nx s3 s4] p d Some by simp
  qed
qed

text \<open>
  \<open>schedule\<close> always returns, and chooses a candidate; the idle process runs only when there is
  no candidate.
\<close>

lemma schedule_spec:
  assumes ok: "sched_ok rq_ok queue ready P c i s"
  obtains s' n where "schedule C s = Some s'" "sched_ok rq_ok queue ready P n i s'"
    "if candidates queue c i s = {} then n = i else n \<in> candidates queue c i s"
    "queue s' = candidates queue c i s - {n}"
    "\<forall>p. state (procs s' p) = state (procs s p)"
    "\<forall>p. runs (procs s' p) = (if p = n then runs (procs s p) + 1 else runs (procs s p))"
    "\<not> need_resched (procs s' c)"
    "\<forall>p. wait_state (procs s' p) = wait_state (procs s p)" "kernel.more s' = kernel.more s"
proof -
  let ?s1 = "upd_proc c (\<lambda>d. d\<lparr>need_resched := False\<rparr>) s"
  let ?R = "candidates queue c i s"
  have sq: "same_queue s ?s1" by (rule same_queue_upd_proc) simp
  have f1: "rq_ok ?s1" "queue ?s1 = queue s" "\<forall>p. ready p ?s1 = ready p s"
    using frame [OF _ sq] ok by (auto simp: sched_ok_def)
  have ok1: "sched_ok rq_ok queue ready P c i ?s1"
    using ok f1 by (auto simp: sched_ok_def)
  have R1: "candidates queue c i ?s1 = ?R" using f1 by (simp add: candidates_def)
  obtain s2 where e: "(if state (procs ?s1 c) = PROC_RUNNABLE then sched_class_enqueue C c ?s1 else Some ?s1) = Some s2"
    "rq_ok s2" "queue s2 = ?R" "same_procs ?s1 s2" "\<forall>q \<in> P - queue s2. ready q s2"
    using enqueue_current [OF ok1] R1 by metis
  obtain nx s3 s4 where d: "sc_pick_next C s2 = Some (nx, s3)"
    "(case nx of None \<Rightarrow> Some s3 | Some n \<Rightarrow> sc_dequeue C n s3) = Some s4"
    "rq_ok s4" "same_procs s2 s4" "queue s4 = queue s2 - set_option nx"
    "case nx of None \<Rightarrow> queue s2 = {} | Some p \<Rightarrow> p \<in> queue s2"
    "\<forall>q \<in> P - queue s4. ready q s4"
    using pick_and_dequeue [OF e(2,5)] by metis
  have s14: "same_procs ?s1 s4" using e(4) d(4) by (rule same_procs_trans)
  have cur: "current s = Some c" "idleproc s = Some i" "i \<notin> P" "queue s \<subseteq> P - {c}" "c \<in> insert i P"
    using ok by (auto simp: sched_ok_def)
  have cur4: "current s4 = Some c" "idleproc s4 = Some i"
    using same_procs_more [OF s14] cur by auto
  define n where "n = (case nx of None \<Rightarrow> i | Some n \<Rightarrow> n)"
  have n': "(case nx of None \<Rightarrow> idleproc s4 | Some n \<Rightarrow> Some n) = Some n"
    using cur4(2) by (cases nx) (simp_all add: n_def)
  have RP: "?R \<subseteq> P" using cur by (auto simp: candidates_def)
  have n: "if ?R = {} then n = i else n \<in> ?R" "queue s4 = ?R - {n}"
    using d(5,6) e(3) RP cur(3) by (auto simp: n_def split: option.splits)
  have nP: "n \<in> insert i P" using n(1) RP by (auto split: if_splits)
  let ?s5 = "upd_proc n (\<lambda>d. d\<lparr>runs := runs d + 1\<rparr>) s4"
  let ?s6 = "if Some n \<noteq> current ?s5 then proc_run n ?s5 else ?s5"
  have "schedule C s = Some ?s6"
    using cur(1) e(1) d(1,2) n' by (simp add: schedule_def Let_def)
  moreover have six: "current ?s6 = Some n" "idleproc ?s6 = Some i" "procs ?s6 = procs ?s5"
    using cur4 by (auto simp: proc_run_def)
  have "same_queue s4 ?s6"
    by (cases "Some n \<noteq> current ?s5")
      (auto intro!: same_queue_trans [OF same_queue_upd_proc same_queue_proc_run]
        same_queue_upd_proc)
  then have f6: "rq_ok ?s6" "queue ?s6 = queue s4" "\<forall>p. ready p ?s6 = ready p s4"
    using frame [OF d(3)] by blast+
  have st: "\<forall>p. state (procs ?s6 p) = state (procs s p)"
    using same_procs_state [OF s14] six(3) by (simp add: fun_upd_def)
  have "sched_ok rq_ok queue ready P n i ?s6"
    unfolding sched_ok_def
  proof (intro conjI)
    note ok' = ok [unfolded sched_ok_def]
    have q6: "queue ?s6 = ?R - {n}" using f6(2) n(2) by simp
    have R: "\<forall>p \<in> ?R. state (procs s p) = PROC_RUNNABLE"
      "\<forall>p \<in> P. state (procs s p) = PROC_RUNNABLE \<longrightarrow> p \<in> ?R"
      using ok' by (auto simp: candidates_def)
    show "\<forall>p \<in> queue ?s6. state (procs ?s6 p) = PROC_RUNNABLE"
      using R(1) st q6 by simp
    show "\<forall>p \<in> P - {n}. state (procs ?s6 p) = PROC_RUNNABLE \<longrightarrow> p \<in> queue ?s6"
      using R(2) st q6 by simp
    show "queue ?s6 \<subseteq> P - {n}" using q6 RP by blast
    show "\<forall>p \<in> P - queue ?s6. ready p ?s6" using d(7) f6(2,3) by simp
  qed (use f6(1) six nP cur(3) in simp_all)
  moreover have "\<forall>p. runs (procs ?s6 p) = (if p = n then runs (procs s p) + 1 else runs (procs s p))"
    using same_procs_runs [OF s14] six(3) by (simp add: fun_upd_def)
  moreover have "\<not> need_resched (procs ?s6 c)"
    using same_procs_need_resched [OF s14] six(3) by simp
  moreover have "\<forall>p. wait_state (procs ?s6 p) = wait_state (procs s p)"
    using same_procs_wait_state [OF s14] six(3) by (simp add: fun_upd_def)
  moreover have "sched.more s4 = sched.more s" using s14 by (simp add: same_procs_def)
  then have "kernel.more ?s6 = kernel.more s"
    using more_eq_kernel(5) [of s4 s] by (simp add: proc_run_def)
  ultimately show ?thesis using that [of ?s6 n] n f6(2) st by simp
qed

text \<open>\<open>wakeup_proc\<close> on a live process that is not a zombie: it becomes runnable and is queued.\<close>

lemma wakeup_spec:
  assumes ok: "sched_ok rq_ok queue ready P c i s" and p: "p \<in> P"
    and z: "state (procs s p) \<noteq> PROC_ZOMBIE"
  obtains s' where "wakeup_proc C p s = Some s'" "sched_ok rq_ok queue ready P c i s'"
    "state (procs s' p) = PROC_RUNNABLE" "p \<in> candidates queue c i s'"
    "\<forall>q. q \<noteq> p \<longrightarrow> state (procs s' q) = state (procs s q)"
    "state (procs s p) \<noteq> PROC_RUNNABLE \<Longrightarrow> wait_state (procs s' p) = 0"
    "state (procs s p) = PROC_RUNNABLE \<Longrightarrow> s' = s"
    "\<forall>q. q \<noteq> p \<longrightarrow> wait_state (procs s' q) = wait_state (procs s q)"
    "sched.more s' = sched.more s"
proof -
  have cur: "current s = Some c" "idleproc s = Some i" "i \<notin> P" "rq_ok s"
    using ok by (auto simp: sched_ok_def)
  show ?thesis
  proof (cases "state (procs s p) = PROC_RUNNABLE")
    case True
    then have "p \<in> candidates queue c i s" using ok p by (auto simp: sched_ok_def candidates_def)
    then show ?thesis using that [of s] ok True by (simp add: wakeup_proc_def)
  next
    case False
    let ?s1 = "upd_proc p (\<lambda>d. d\<lparr>state := PROC_RUNNABLE\<rparr>) s"
    let ?s2 = "upd_proc p (\<lambda>d. d\<lparr>wait_state := 0\<rparr>) ?s1"
    have nq: "p \<notin> queue s" using ok False by (auto simp: sched_ok_def)
    have "same_queue s ?s2"
      by (rule same_queue_trans [OF same_queue_upd_proc same_queue_upd_proc]) simp_all
    then have f2: "rq_ok ?s2" "queue ?s2 = queue s" "\<forall>q. ready q ?s2 = ready q s"
      using frame cur(4) by blast+
    show ?thesis
    proof (cases "p = c")
      case True
      have "sched_ok rq_ok queue ready P c i ?s2" using ok f2 True by (auto simp: sched_ok_def)
      moreover have "wakeup_proc C p s = Some ?s2"
        using False z True cur(1) by (simp add: wakeup_proc_def)
      moreover have "p \<in> candidates queue c i ?s2"
        using True p cur(3) by (auto simp: candidates_def)
      ultimately show ?thesis using that [of ?s2] False by simp
    next
      case pc: False
      have "ready p ?s2" using f2(3) ok p nq by (auto simp: sched_ok_def)
      then obtain s3 where e: "sc_enqueue C p ?s2 = Some s3" "rq_ok s3"
        "queue s3 = insert p (queue ?s2)" "same_procs ?s2 s3"
        "\<forall>q. ready q s3 \<longleftrightarrow> ready q ?s2 \<and> q \<noteq> p"
        using enqueue [OF f2(1)] by blast
      have "Some p \<noteq> idleproc ?s2" using p cur(2,3) by auto
      then have "wakeup_proc C p s = Some s3"
        using False z pc cur(1) e(1) by (simp add: wakeup_proc_def sched_class_enqueue_def)
      moreover have m: "current s3 = Some c" "idleproc s3 = Some i"
        using same_procs_more [OF e(4)] cur by auto
      have st: "state (procs s3 p) = PROC_RUNNABLE"
        "\<And>q. q \<noteq> p \<Longrightarrow> state (procs s3 q) = state (procs s q)"
        using same_procs_state [OF e(4)] by (simp_all add: fun_upd_def)
      have q3: "queue s3 = insert p (queue s)" "\<And>q. ready q s3 \<longleftrightarrow> ready q s \<and> q \<noteq> p"
        using e(3,5) f2 by auto
      note ok' = ok [unfolded sched_ok_def]
      have "sched_ok rq_ok queue ready P c i s3"
        unfolding sched_ok_def q3
      proof (intro conjI)
        show "\<forall>q \<in> insert p (queue s). state (procs s3 q) = PROC_RUNNABLE"
          using ok' st by (metis insert_iff)
        show "\<forall>q \<in> P - {c}. state (procs s3 q) = PROC_RUNNABLE \<longrightarrow> q \<in> insert p (queue s)"
          using ok' st(2) by (metis insert_iff)
      qed (use ok' m e(2) p pc in auto)
      moreover note st
      moreover have "wait_state (procs s3 p) = 0"
        using same_procs_wait_state [OF e(4)] by (simp add: fun_upd_def)
      moreover have "p \<in> candidates queue c i s3" using q3(1) by (simp add: candidates_def)
      moreover have "\<forall>q. q \<noteq> p \<longrightarrow> wait_state (procs s3 q) = wait_state (procs s q)"
        "sched.more s3 = sched.more s"
        using e(4) same_procs_wait_state [OF e(4)] by (simp_all add: same_procs_def)
      ultimately show ?thesis using that [of s3] False by simp
    qed
  qed
qed

text \<open>The timer tick changes no process state and keeps the scheduling invariant.\<close>

lemma tick_spec:
  assumes ok: "sched_ok rq_ok queue ready P c i s"
  shows "sched_ok rq_ok queue ready P c i (sched_class_proc_tick C c s)"
    and "state (procs (sched_class_proc_tick C c s) p) = state (procs s p)"
    and "sched.more (sched_class_proc_tick C c s) = sched.more s"
proof -
  have r: "rq_ok s" "idleproc s = Some i" using ok by (simp_all add: sched_ok_def)
  let ?s = "upd_proc c (\<lambda>d. d\<lparr>need_resched := True\<rparr>) s"
  have "same_queue s ?s" by (rule same_queue_upd_proc) simp
  note f = frame [OF r(1) this]
  have n: "sched_ok rq_ok queue ready P c i ?s" using ok f by (auto simp: sched_ok_def)
  note t = proc_tick [OF r(1), of c]
  then have m: "current (sc_proc_tick C c s) = current s" "idleproc (sc_proc_tick C c s) = idleproc s"
    using more_eq_kernel [of "sc_proc_tick C c s" s] by simp_all
  have "sched_ok rq_ok queue ready P c i (sc_proc_tick C c s)"
    using ok t m by (simp add: sched_ok_def)
  then show "sched_ok rq_ok queue ready P c i (sched_class_proc_tick C c s)"
    using n by (simp add: sched_class_proc_tick_def)
  show "state (procs (sched_class_proc_tick C c s) p) = state (procs s p)"
    "sched.more (sched_class_proc_tick C c s) = sched.more s"
    using t by (simp_all add: sched_class_proc_tick_def)
qed

end

end
