(* ===== verification/RoundRobin.thy ===== *)
theory RoundRobin
imports SchedClass
begin

text \<open>
  The round-robin scheduling class of \<open>kern/schedule/default_sched.c\<close>. Each of the five
  functions is one definition; \<open>default_sched_class\<close> collects them. \<open>rr_rep s ps\<close>: the run list
  holds the processes \<open>ps\<close> in this order, and the other fields agree with it.
\<close>

section \<open>The operations\<close>

definition RR_init :: "'a sched_scheme \<Rightarrow> 'a sched_scheme" where
  "RR_init s = (upd_run_links (list_init RunList) s)\<lparr>proc_num := 0\<rparr>"

definition RR_enqueue :: "proc_ptr \<Rightarrow> 'a sched_scheme \<Rightarrow> 'a sched_scheme option" where
  "RR_enqueue p s =
     do {
       kassert (list_empty (RunLink p) (run_links s));
       let s1 = upd_run_links (list_add_before RunList (RunLink p)) s;
       let s2 = (if time_slice (procs s1 p) = 0 \<or> time_slice (procs s1 p) > max_time_slice s1
                 then upd_proc p (\<lambda>d. d\<lparr>time_slice := max_time_slice s1\<rparr>) s1 else s1);
       let s3 = upd_proc p (\<lambda>d. d\<lparr>on_rq := True\<rparr>) s2;
       Some (s3\<lparr>proc_num := proc_num s3 + 1\<rparr>)
     }"

definition RR_dequeue :: "proc_ptr \<Rightarrow> 'a sched_scheme \<Rightarrow> 'a sched_scheme option" where
  "RR_dequeue p s =
     do {
       kassert (\<not> list_empty (RunLink p) (run_links s) \<and> on_rq (procs s p));
       let s1 = upd_run_links (list_del_init (RunLink p)) s;
       Some (s1\<lparr>proc_num := proc_num s1 - 1\<rparr>)
     }"

definition RR_pick_next :: "'a sched_scheme \<Rightarrow> (proc_ptr option \<times> 'a sched_scheme) option" where
  "RR_pick_next s =
     (let le = list_next RunList (run_links s) in
      if le \<noteq> RunList then Some (le2proc le, s) else Some (None, s))"

definition RR_proc_tick :: "proc_ptr \<Rightarrow> 'a sched_scheme \<Rightarrow> 'a sched_scheme" where
  "RR_proc_tick p s =
     (let s1 = (if time_slice (procs s p) > 0
                then upd_proc p (\<lambda>d. d\<lparr>time_slice := time_slice d - 1\<rparr>) s else s)
      in if time_slice (procs s1 p) = 0
         then upd_proc p (\<lambda>d. d\<lparr>need_resched := True\<rparr>) s1 else s1)"

definition default_sched_class :: "'a sched_scheme sched_class" where
  "default_sched_class =
     \<lparr>class_name = ''RR_scheduler'', sc_init = RR_init, sc_enqueue = RR_enqueue,
      sc_dequeue = RR_dequeue, sc_pick_next = RR_pick_next, sc_proc_tick = RR_proc_tick\<rparr>"

section \<open>The run queue as a sequence\<close>

definition rr_rep :: "'a sched_scheme \<Rightarrow> proc_ptr list \<Rightarrow> bool" where
  "rr_rep s ps \<longleftrightarrow>
     dlist (run_links s) RunList (map RunLink ps) \<and> proc_num s = of_nat (length ps) \<and>
     (\<forall>p \<in> set ps. on_rq (procs s p))"

lemma rr_rep_unique: "rr_rep s ps \<Longrightarrow> rr_rep s qs \<Longrightarrow> ps = qs"
proof -
  assume a: "rr_rep s ps" "rr_rep s qs"
  then have "map RunLink ps = map RunLink qs"
    using dlist_unique unfolding rr_rep_def by metis
  then show ?thesis by (rule map_injective) (simp add: inj_def)
qed

lemma rr_rep_init: "rr_rep (RR_init s) []"
  by (simp add: rr_rep_def RR_init_def dlist_intros)

lemma rr_enqueue_rep:
  assumes rep: "rr_rep s ps" and e: "list_empty (RunLink p) (run_links s)"
  obtains s' where "RR_enqueue p s = Some s'" "rr_rep s' (ps @ [p])" "same_procs s s'"
    "\<forall>q. list_empty (RunLink q) (run_links s') \<longleftrightarrow> list_empty (RunLink q) (run_links s) \<and> q \<noteq> p"
    "0 < max_time_slice s \<Longrightarrow> 0 \<le> time_slice (procs s p) \<Longrightarrow>
       0 < time_slice (procs s' p) \<and> time_slice (procs s' p) \<le> max_time_slice s"
    "max_time_slice s' = max_time_slice s"
proof -
  have d: "dlist (run_links s) RunList (map RunLink ps)" using rep by (simp add: rr_rep_def)
  have np: "RunLink p \<notin> set (map RunLink ps)" using dlist_self_not_in [OF d e] by simp
  let ?L = "list_add_before RunList (RunLink p) (run_links s)"
  have d': "dlist ?L RunList (map RunLink (ps @ [p]))"
    using dlist_add_before [of "run_links s" RunList "map RunLink ps" "[]" "RunLink p" RunList] d np
    by simp
  define s' where "s' = the (RR_enqueue p s)"
  have s': "RR_enqueue p s = Some s'" "run_links s' = ?L" "proc_num s' = proc_num s + 1"
    "max_time_slice s' = max_time_slice s" "same_procs s s'"
    "on_rq (procs s' p)" "\<And>q. q \<noteq> p \<Longrightarrow> procs s' q = procs s q"
    "time_slice (procs s' p) =
       (if time_slice (procs s p) = 0 \<or> time_slice (procs s p) > max_time_slice s
        then max_time_slice s else time_slice (procs s p))"
    using e by (simp_all add: s'_def RR_enqueue_def Let_def same_procs_def same_proc_def)
  have "rr_rep s' (ps @ [p])"
    using rep d' s'(2,3,6,7) by (simp add: rr_rep_def) metis
  moreover have "list_empty (RunLink q) (run_links s') \<longleftrightarrow>
    list_empty (RunLink q) (run_links s) \<and> q \<noteq> p" for q
  proof (cases "q = p \<or> q \<in> set ps")
    case True
    then have "\<not> list_empty (RunLink q) ?L"
      using dlist_self_not_in [OF d', of "RunLink q"] by auto
    moreover have "q \<in> set ps \<Longrightarrow> \<not> list_empty (RunLink q) (run_links s)"
      using dlist_self_not_in [OF d, of "RunLink q"] by auto
    ultimately show ?thesis using True s'(2) by auto
  next
    case False
    then have "next_of ?L (RunLink q) = next_of (run_links s) (RunLink q)"
      by (intro dlist_add_before_frame [OF d]) auto
    then show ?thesis using s'(2) False by (simp add: list_empty_def)
  qed
  ultimately show ?thesis using that [of s'] s' by auto
qed

lemma rr_dequeue_rep:
  assumes rep: "rr_rep s ps" and p: "p \<in> set ps"
  obtains s' where "RR_dequeue p s = Some s'" "rr_rep s' (remove1 p ps)" "same_procs s s'"
    "\<forall>q. list_empty (RunLink q) (run_links s') \<longleftrightarrow> list_empty (RunLink q) (run_links s) \<or> q = p"
    "max_time_slice s' = max_time_slice s" "procs s' = procs s"
proof -
  have d: "dlist (run_links s) RunList (map RunLink ps)" using rep by (simp add: rr_rep_def)
  obtain as bs where ps: "ps = as @ p # bs" "p \<notin> set as"
    using p split_list_first by metis
  let ?L = "list_del_init (RunLink p) (run_links s)"
  have r: "remove1 p ps = as @ bs" using ps by (simp add: remove1_append)
  have d': "dlist ?L RunList (map RunLink (as @ bs))"
    using dlist_del_init [of "run_links s" RunList "map RunLink as" "RunLink p" "map RunLink bs"]
      d ps by simp
  have ne: "\<not> list_empty (RunLink p) (run_links s)"
    using dlist_self_not_in [OF d, of "RunLink p"] p by auto
  define s' where "s' = the (RR_dequeue p s)"
  have s': "RR_dequeue p s = Some s'" "run_links s' = ?L" "proc_num s' = proc_num s - 1"
    "max_time_slice s' = max_time_slice s" "procs s' = procs s" "same_procs s s'"
    using ne rep p by (simp_all add: s'_def RR_dequeue_def rr_rep_def Let_def same_procs_def)
  have "rr_rep s' (as @ bs)"
    using rep d' s' ps by (auto simp: rr_rep_def)
  moreover have "list_empty (RunLink q) (run_links s') \<longleftrightarrow>
    list_empty (RunLink q) (run_links s) \<or> q = p" for q
  proof (cases "q \<in> set ps")
    case True
    show ?thesis
    proof (cases "q = p")
      case False
      then have "q \<in> set (as @ bs)" using True ps by auto
      then have "\<not> list_empty (RunLink q) ?L"
        using dlist_self_not_in [OF d', of "RunLink q"] by auto
      moreover have "\<not> list_empty (RunLink q) (run_links s)"
        using dlist_self_not_in [OF d, of "RunLink q"] True by auto
      ultimately show ?thesis using False s'(2) by simp
    qed (simp add: s'(2))
  next
    case False
    then have "next_of ?L (RunLink q) = next_of (run_links s) (RunLink q)"
      using p by (intro dlist_del_init_frame [OF d]) auto
    moreover have "q \<noteq> p" using False p by auto
    ultimately show ?thesis using s'(2) by (simp add: list_empty_def)
  qed
  ultimately show ?thesis using that [of s'] s' r by simp
qed

lemma rr_pick_next_rep:
  assumes "rr_rep s ps"
  shows "RR_pick_next s = Some (case ps of [] \<Rightarrow> None | p # _ \<Rightarrow> Some p, s)"
  using assms dlist_next_head(1) [of "run_links s" RunList "map RunLink ps"]
  by (cases ps) (auto simp: RR_pick_next_def rr_rep_def list_next_def)

section \<open>The class satisfies the contract\<close>

definition rr_ok :: "'a sched_scheme \<Rightarrow> bool" where
  "rr_ok s \<longleftrightarrow> (\<exists>ps. rr_rep s ps)"

definition rr_queue :: "'a sched_scheme \<Rightarrow> proc_ptr set" where
  "rr_queue s = {p. \<exists>ps. rr_rep s ps \<and> p \<in> set ps}"

definition rr_ready :: "proc_ptr \<Rightarrow> 'a sched_scheme \<Rightarrow> bool" where
  "rr_ready p s \<longleftrightarrow> list_empty (RunLink p) (run_links s)"

lemma rr_queue_rep: "rr_rep s ps \<Longrightarrow> rr_queue s = set ps"
  using rr_rep_unique by (auto simp: rr_queue_def)

lemma rr_rep_same_queue: "same_queue s s' \<Longrightarrow> rr_rep s' ps = rr_rep s ps"
  by (simp add: rr_rep_def same_queue_def)

lemma rr_class_sel [simp]:
  "sc_enqueue default_sched_class = RR_enqueue" "sc_dequeue default_sched_class = RR_dequeue"
  "sc_pick_next default_sched_class = RR_pick_next" "sc_init default_sched_class = RR_init"
  "sc_proc_tick default_sched_class = RR_proc_tick"
  by (simp_all add: default_sched_class_def)

interpretation rr: sched_core default_sched_class rr_ok rr_queue rr_ready
proof unfold_locales
  fix s :: "'b kernel_scheme" assume "rr_ok s"
  then obtain ps where rep: "rr_rep s ps" by (auto simp: rr_ok_def)
  note q = rr_queue_rep [OF rep]
  { fix s' :: "'b kernel_scheme" assume "same_queue s s'"
    then have "\<And>ps. rr_rep s' ps = rr_rep s ps" "run_links s' = run_links s"
      by (simp_all add: rr_rep_same_queue) (simp add: same_queue_def)
    then show "rr_ok s' \<and> rr_queue s' = rr_queue s \<and> (\<forall>p. rr_ready p s' = rr_ready p s)"
      using rep by (auto simp: rr_ok_def rr_queue_def rr_ready_def) }
  { fix p assume "rr_ready p s"
    then have e: "list_empty (RunLink p) (run_links s)" by (simp add: rr_ready_def)
    have "RunLink p \<notin> set (map RunLink ps)"
      using rep e by (intro dlist_self_not_in [of "run_links s" RunList]) (auto simp: rr_rep_def)
    then show "p \<notin> rr_queue s" using q by auto
    obtain s' where s': "RR_enqueue p s = Some s'" "rr_rep s' (ps @ [p])" "same_procs s s'"
      "\<forall>q. list_empty (RunLink q) (run_links s') \<longleftrightarrow>
         list_empty (RunLink q) (run_links s) \<and> q \<noteq> p"
      using rr_enqueue_rep [OF rep e] by metis
    show "\<exists>s'. sc_enqueue default_sched_class p s = Some s' \<and> rr_ok s' \<and>
        rr_queue s' = insert p (rr_queue s) \<and> same_procs s s' \<and>
        (\<forall>q. rr_ready q s' = (rr_ready q s \<and> q \<noteq> p))"
      using s' rr_queue_rep [OF s'(2)] q by (auto simp: rr_ok_def rr_ready_def) }
  { fix p assume "p \<in> rr_queue s"
    then obtain s' where s': "RR_dequeue p s = Some s'" "rr_rep s' (remove1 p ps)" "same_procs s s'"
      "\<forall>q. list_empty (RunLink q) (run_links s') \<longleftrightarrow> list_empty (RunLink q) (run_links s) \<or> q = p"
      using rr_dequeue_rep [OF rep] q by metis
    have "distinct ps" using rep by (auto simp: rr_rep_def distinct_map dest: dlist_distinct)
    then show "\<exists>s'. sc_dequeue default_sched_class p s = Some s' \<and> rr_ok s' \<and>
        rr_queue s' = rr_queue s - {p} \<and> same_procs s s' \<and>
        (\<forall>q. rr_ready q s' = (rr_ready q s \<or> q = p))"
      using s' rr_queue_rep [OF s'(2)] q by (auto simp: rr_ok_def rr_ready_def) }
  show "\<exists>r s'. sc_pick_next default_sched_class s = Some (r, s') \<and> rr_ok s' \<and>
      rr_queue s' = rr_queue s \<and> same_procs s s' \<and> (\<forall>q. rr_ready q s' = rr_ready q s) \<and>
      (case r of None \<Rightarrow> rr_queue s = {} | Some p \<Rightarrow> p \<in> rr_queue s)"
    using rr_pick_next_rep [OF rep] rep q by (cases ps) (auto simp: rr_ok_def)
  fix p
  let ?s = "RR_proc_tick p s"
  have tick: "run_links ?s = run_links s" "proc_num ?s = proc_num s" "sched.more ?s = sched.more s"
    "\<And>q. on_rq (procs ?s q) = on_rq (procs s q)" "\<And>q. state (procs ?s q) = state (procs s q)"
    by (simp_all add: RR_proc_tick_def Let_def)
  then have r: "rr_rep ?s ps" using rep by (simp add: rr_rep_def)
  then show "rr_ok (sc_proc_tick default_sched_class p s) \<and>
      rr_queue (sc_proc_tick default_sched_class p s) = rr_queue s \<and>
      (\<forall>q. rr_ready q (sc_proc_tick default_sched_class p s) = rr_ready q s) \<and>
      (\<forall>q. state (procs (sc_proc_tick default_sched_class p s) q) = state (procs s q)) \<and>
      sched.more (sc_proc_tick default_sched_class p s) = sched.more s"
    using tick q rr_queue_rep [OF r] by (auto simp: rr_ok_def rr_ready_def)
qed

section \<open>Scheduling order\<close>

text \<open>The current process, when it stays runnable, goes to the tail; the head runs next.\<close>

lemma rr_schedule_rep:
  assumes rep: "rr_rep s ps" and c: "current s = Some c" "idleproc s = Some i"
    and rd: "state (procs s c) = PROC_RUNNABLE \<Longrightarrow> c \<noteq> i \<Longrightarrow> rr_ready c s"
    and qs: "qs = ps @ (if state (procs s c) = PROC_RUNNABLE \<and> c \<noteq> i then [c] else [])"
  obtains s' where "schedule default_sched_class s = Some s'" "rr_rep s' (tl qs)"
    "current s' = Some (if qs = [] then i else hd qs)"
proof -
  let ?s1 = "upd_proc c (\<lambda>d. d\<lparr>need_resched := False\<rparr>) s"
  have "same_queue s ?s1" by (rule same_queue_upd_proc) simp
  then have r1: "rr_rep ?s1 ps" using rep by (simp add: rr_rep_same_queue)
  obtain s2 where s2: "rr_rep s2 qs" "same_procs ?s1 s2"
    "(if state (procs ?s1 c) = PROC_RUNNABLE then sched_class_enqueue default_sched_class c ?s1
      else Some ?s1) = Some s2"
  proof (cases "state (procs s c) = PROC_RUNNABLE \<and> c \<noteq> i")
    case True
    then have "list_empty (RunLink c) (run_links ?s1)" using rd by (simp add: rr_ready_def)
    with r1 obtain s2 where "RR_enqueue c ?s1 = Some s2" "rr_rep s2 (ps @ [c])" "same_procs ?s1 s2"
      using rr_enqueue_rep by metis
    then show ?thesis using that True qs c by (simp add: sched_class_enqueue_def)
  next
    case False
    then show ?thesis using that [of ?s1] r1 qs c by (auto simp: sched_class_enqueue_def)
  qed
  note pick = rr_pick_next_rep [OF s2(1)]
  have cur2: "current s2 = Some c" "idleproc s2 = Some i"
    using same_procs_more [OF s2(2)] c by auto
  obtain s4 where s4: "rr_rep s4 (tl qs)" "same_procs s2 s4"
    "(case (case qs of [] \<Rightarrow> None | p # _ \<Rightarrow> Some p) of None \<Rightarrow> Some s2
      | Some n \<Rightarrow> RR_dequeue n s2) = Some s4"
  proof (cases qs)
    case Nil
    then show ?thesis using that s2(1) by simp
  next
    case (Cons p qs')
    then obtain s4 where "RR_dequeue p s2 = Some s4" "rr_rep s4 qs'" "same_procs s2 s4"
      using rr_dequeue_rep [OF s2(1), of p] by auto
    then show ?thesis using that Cons by simp
  qed
  define n where "n = (if qs = [] then i else hd qs)"
  have cur4: "current s4 = Some c" "idleproc s4 = Some i"
    using same_procs_more [OF s4(2)] cur2 by auto
  let ?s5 = "upd_proc n (\<lambda>d. d\<lparr>runs := runs d + 1\<rparr>) s4"
  let ?s6 = "if Some n \<noteq> current ?s5 then proc_run n ?s5 else ?s5"
  have n: "(case (case qs of [] \<Rightarrow> None | p # _ \<Rightarrow> Some p) of None \<Rightarrow> idleproc s4
      | Some n \<Rightarrow> Some n) = Some n"
    using cur4(2) by (cases qs) (simp_all add: n_def)
  have "schedule default_sched_class s = Some ?s6"
    using c(1) s2(3) pick s4(3) n by (cases qs) (simp_all add: schedule_def Let_def)
  moreover have "same_queue s4 ?s6"
    by (cases "Some n \<noteq> current ?s5")
      (auto intro!: same_queue_trans [OF same_queue_upd_proc same_queue_proc_run]
        same_queue_upd_proc)
  then have "rr_rep ?s6 (tl qs)" using s4(1) by (simp add: rr_rep_same_queue)
  moreover have "current ?s6 = Some n" by (auto simp: proc_run_def)
  ultimately show ?thesis using that by (simp add: n_def)
qed

text \<open>The current process is preempted whenever another one can run.\<close>

lemma rr_schedule_next:
  assumes ok: "sched_ok rr_ok rr_queue rr_ready P c i s"
  obtains s' n where "schedule default_sched_class s = Some s'" "sched_ok rr_ok rr_queue rr_ready P n i s'"
    "if \<exists>p \<in> P - {c}. state (procs s p) = PROC_RUNNABLE then n \<in> P - {c} \<and> state (procs s n) = PROC_RUNNABLE
     else n = (if state (procs s c) = PROC_RUNNABLE then c else i)"
    "\<forall>p. state (procs s' p) = state (procs s p)"
    "\<forall>p. runs (procs s' p) = (if p = n then runs (procs s p) + 1 else runs (procs s p))"
    "\<not> need_resched (procs s' c)" "kernel.more s' = kernel.more s"
proof -
  obtain s' n where s': "schedule default_sched_class s = Some s'" "sched_ok rr_ok rr_queue rr_ready P n i s'"
    "\<forall>p. state (procs s' p) = state (procs s p)"
    "\<forall>p. runs (procs s' p) = (if p = n then runs (procs s p) + 1 else runs (procs s p))"
    "\<not> need_resched (procs s' c)" "kernel.more s' = kernel.more s"
    by (rule rr.schedule_spec [OF ok]) blast
  obtain ps where ps: "rr_rep s ps" using ok by (auto simp: sched_ok_def rr_ok_def)
  have q: "rr_queue s = set ps" by (rule rr_queue_rep [OF ps])
  have k: "current s = Some c" "idleproc s = Some i" "c \<in> insert i P" "\<forall>p \<in> P - rr_queue s. rr_ready p s"
    "set ps \<subseteq> P - {c}" "\<forall>p \<in> set ps. state (procs s p) = PROC_RUNNABLE"
    "\<forall>p \<in> P - {c}. state (procs s p) = PROC_RUNNABLE \<longrightarrow> p \<in> set ps"
    using ok unfolding q [symmetric] by (auto simp: sched_ok_def)
  then have rd: "state (procs s c) = PROC_RUNNABLE \<Longrightarrow> c \<noteq> i \<Longrightarrow> rr_ready c s" using q by auto
  let ?qs = "ps @ (if state (procs s c) = PROC_RUNNABLE \<and> c \<noteq> i then [c] else [])"
  have "current s' = Some (if ?qs = [] then i else hd ?qs)"
    using rr_schedule_rep [OF ps k(1,2) rd refl] s'(1) by (metis option.inject)
  then have n: "n = (if ?qs = [] then i else hd ?qs)" using s'(2) by (simp add: sched_ok_def)
  have "if \<exists>p \<in> P - {c}. state (procs s p) = PROC_RUNNABLE then n \<in> P - {c} \<and> state (procs s n) = PROC_RUNNABLE
     else n = (if state (procs s c) = PROC_RUNNABLE then c else i)"
  proof (cases ps)
    case Nil
    then show ?thesis using n k(7) by (auto split: if_splits)
  next
    case (Cons p qs)
    then have "p \<in> P - {c}" "state (procs s p) = PROC_RUNNABLE" "n = p" using n k(5,6) by auto
    then show ?thesis by auto
  qed
  then show thesis using that s' by blast
qed

lemma rr_bounded_waiting_gen:
  assumes "sched_ok rr_ok rr_queue rr_ready P c i s" "rr_rep s ps" "k < length ps"
  shows "\<exists>s' . schedule_times default_sched_class (Suc k) s = Some s' \<and>
           current s' = Some (ps ! k) \<and> sched_ok rr_ok rr_queue rr_ready P (ps ! k) i s'"
  using assms
proof (induction k arbitrary: s ps c)
  case (0 s ps c)
  have ok: "current s = Some c" "idleproc s = Some i" "c \<in> insert i P" "\<forall>p \<in> P - rr_queue s. rr_ready p s"
    "rr_queue s \<subseteq> P - {c}"
    using "0.prems"(1) by (auto simp: sched_ok_def)
  then have rd: "state (procs s c) = PROC_RUNNABLE \<Longrightarrow> c \<noteq> i \<Longrightarrow> rr_ready c s" by auto
  let ?qs = "ps @ (if state (procs s c) = PROC_RUNNABLE \<and> c \<noteq> i then [c] else [])"
  obtain s1 where s1: "schedule default_sched_class s = Some s1" "rr_rep s1 (tl ?qs)"
    "current s1 = Some (if ?qs = [] then i else hd ?qs)"
    using rr_schedule_rep [OF "0.prems"(2) ok(1,2) rd refl] by metis
  obtain n where n: "sched_ok rr_ok rr_queue rr_ready P n i s1"
    using rr.schedule_spec [OF "0.prems"(1)] s1(1) by (metis option.inject)
  have "current s1 = Some (ps ! 0)" using s1(3) "0.prems"(3) by (cases ps) auto
  moreover have "current s1 = Some n" using n by (simp add: sched_ok_def)
  ultimately show ?case using s1(1) n by simp
next
  case (Suc k s ps c)
  have ok: "current s = Some c" "idleproc s = Some i" "c \<in> insert i P" "\<forall>p \<in> P - rr_queue s. rr_ready p s"
    "rr_queue s \<subseteq> P - {c}"
    using Suc.prems(1) by (auto simp: sched_ok_def)
  then have rd: "state (procs s c) = PROC_RUNNABLE \<Longrightarrow> c \<noteq> i \<Longrightarrow> rr_ready c s" by auto
  let ?qs = "ps @ (if state (procs s c) = PROC_RUNNABLE \<and> c \<noteq> i then [c] else [])"
  obtain s1 where s1: "schedule default_sched_class s = Some s1" "rr_rep s1 (tl ?qs)"
    using rr_schedule_rep [OF Suc.prems(2) ok(1,2) rd refl] by metis
  obtain n where n: "sched_ok rr_ok rr_queue rr_ready P n i s1"
    using rr.schedule_spec [OF Suc.prems(1)] s1(1) by (metis option.inject)
  have "tl ?qs ! k = ps ! Suc k" "k < length (tl ?qs)"
    using Suc.prems(3) by (cases ps; auto simp: nth_append)+
  then show ?case using Suc.IH [OF n s1(2)] s1(1) by simp
qed

lemma RR_proc_tick_times:
  assumes "0 < time_slice (procs s p)"
  shows "need_resched (procs ((RR_proc_tick p ^^ k) s) p) \<longleftrightarrow>
      need_resched (procs s p) \<or> nat (time_slice (procs s p)) \<le> k"
    and "time_slice (procs ((RR_proc_tick p ^^ k) s) p) = max 0 (time_slice (procs s p) - int k)"
proof -
  have *: "(need_resched (procs ((RR_proc_tick p ^^ k) s) p) \<longleftrightarrow>
        need_resched (procs s p) \<or> nat (time_slice (procs s p)) \<le> k) \<and>
      time_slice (procs ((RR_proc_tick p ^^ k) s) p) = max 0 (time_slice (procs s p) - int k)"
  proof (induction k)
    case (Suc k)
    then show ?case
      using assms by (auto simp: RR_proc_tick_def Let_def)
  qed (use assms in auto)
  then show "need_resched (procs ((RR_proc_tick p ^^ k) s) p) \<longleftrightarrow>
      need_resched (procs s p) \<or> nat (time_slice (procs s p)) \<le> k"
    and "time_slice (procs ((RR_proc_tick p ^^ k) s) p) = max 0 (time_slice (procs s p) - int k)"
    by blast+
qed

section \<open>Guarantees of the kernel with this class\<close>

text \<open>
  C22: under the round-robin class \<open>schedule\<close> always returns, switches to a runnable process
  (to the idle process only when no other is runnable), keeps every other runnable process in
  the queue and changes no process state; the scheduling invariant is kept.
\<close>

theorem schedule_work_conserving:
  assumes "sched_ok rr_ok rr_queue rr_ready P c i s"
  shows "\<exists>s' n. schedule default_sched_class s = Some s' \<and>
           sched_ok rr_ok rr_queue rr_ready P n i s' \<and>
           (if candidates rr_queue c i s = {} then n = i else n \<in> candidates rr_queue c i s) \<and>
           rr_queue s' = candidates rr_queue c i s - {n} \<and>
           (\<forall>p. state (procs s' p) = state (procs s p))"
  using rr.schedule_spec [OF assms] by metis

text \<open>
  C24: waking a live process that is not a zombie always returns; the process is runnable
  with a cleared wait state and can be chosen by the next \<open>schedule\<close>, no other process changes
  its state, and the scheduling invariant is kept (no wakeup is lost).
\<close>

theorem wakeup_proc_not_lost:
  assumes "sched_ok rr_ok rr_queue rr_ready P c i s" "p \<in> P"
    and "state (procs s p) \<noteq> PROC_ZOMBIE"
  shows "\<exists>s'. wakeup_proc default_sched_class p s = Some s' \<and>
           sched_ok rr_ok rr_queue rr_ready P c i s' \<and>
           state (procs s' p) = PROC_RUNNABLE \<and> p \<in> candidates rr_queue c i s' \<and>
           (state (procs s p) \<noteq> PROC_RUNNABLE \<longrightarrow> wait_state (procs s' p) = 0) \<and>
           (\<forall>q. q \<noteq> p \<longrightarrow> state (procs s' q) = state (procs s q))"
  using rr.wakeup_spec [OF assms] by metis

text \<open>
  C26: round robin has no starvation: the process at position \<open>k\<close> of the run queue runs after
  exactly \<open>k + 1\<close> calls of \<open>schedule\<close>, whatever the current process does.
\<close>

theorem rr_bounded_waiting:
  assumes "sched_ok rr_ok rr_queue rr_ready P c i s" "rr_rep s ps" "k < length ps"
  shows "\<exists>s'. schedule_times default_sched_class (Suc k) s = Some s' \<and>
           current s' = Some (ps ! k)"
  using rr_bounded_waiting_gen [OF assms] by blast

text \<open>
  A process that is put into the queue gets a time slice between one and
  \<open>max_time_slice\<close> ticks, and the timer tick requests a reschedule exactly when it is used up.
\<close>

theorem rr_time_slice_bound:
  assumes "rr_rep s ps" "rr_ready p s" "0 < max_time_slice s" "0 \<le> time_slice (procs s p)"
    and "\<not> need_resched (procs s p)"
  shows "\<exists>s' n. RR_enqueue p s = Some s' \<and> rr_rep s' (ps @ [p]) \<and>
           time_slice (procs s' p) = int n \<and> 0 < n \<and> int n \<le> max_time_slice s \<and>
           (\<forall>k. need_resched (procs ((RR_proc_tick p ^^ k) s') p) \<longleftrightarrow> n \<le> k)"
proof -
  obtain s' where s': "RR_enqueue p s = Some s'" "rr_rep s' (ps @ [p])" "same_procs s s'"
    "0 < time_slice (procs s' p) \<and> time_slice (procs s' p) \<le> max_time_slice s"
    using rr_enqueue_rep [OF assms(1) assms(2) [unfolded rr_ready_def]] assms(3,4) by metis
  have "\<not> need_resched (procs s' p)" using same_procs_need_resched [OF s'(3)] assms(5) by simp
  then have "need_resched (procs ((RR_proc_tick p ^^ k) s') p) \<longleftrightarrow>
      nat (time_slice (procs s' p)) \<le> k" for k
    using RR_proc_tick_times(1) s'(4) by blast
  then show ?thesis
    using s' by (intro exI [of _ s'] exI [of _ "nat (time_slice (procs s' p))"]) auto
qed

section \<open>Witnesses\<close>

definition example_proc :: proc_struct where
  "example_proc =
     \<lparr>state = PROC_RUNNABLE, pid = 1, runs = 0, kstack = None, need_resched = False,
      parent = None, mm = None, proc_context = \<lparr>ctx_ra = 0, ctx_sp = 0, ctx_s = []\<rparr>, tf = None,
      pgdir = 0, flags = 0, proc_name = [], exit_code = 0, wait_state = 0, cptr = None,
      yptr = None, optr = None, on_rq = True, time_slice = 0, lab6_stride = 0,
      lab6_priority = 1, filesp = None\<rparr>"

text \<open>The idle process 0 runs, 1 and 2 are queued, 3 sleeps.\<close>

definition example_kernel :: kernel where
  "example_kernel =
     \<lparr>procs = (\<lambda>_. example_proc)(3 := example_proc\<lparr>state := PROC_SLEEPING\<rparr>),
      run_links = \<lparr>next_of = id(RunList := RunLink 1, RunLink 1 := RunLink 2, RunLink 2 := RunList),
                   prev_of = id(RunList := RunLink 2, RunLink 2 := RunLink 1, RunLink 1 := RunList)\<rparr>,
      pool = \<lparr>parent_of = (\<lambda>_. None), left_of = (\<lambda>_. None), right_of = (\<lambda>_. None)\<rparr>,
      proc_num = 2, max_time_slice = 5, lab6_run_pool = None,
      current = Some 0, idleproc = Some 0, initproc = Some 1, satp = 0\<rparr>"

lemma example_kernel_rep: "rr_rep example_kernel [1, 2]"
  by (simp add: rr_rep_def example_kernel_def dlist_def example_proc_def)

lemma example_kernel_ok: "sched_ok rr_ok rr_queue rr_ready {1, 2, 3} 0 0 example_kernel"
  using example_kernel_rep rr_queue_rep [OF example_kernel_rep]
  by (auto simp: sched_ok_def rr_ok_def example_kernel_def example_proc_def rr_ready_def
      list_empty_def)

theorem schedule_work_conserving_witness:
  "\<exists>s' n. schedule default_sched_class example_kernel = Some s' \<and> n \<in> {1, 2} \<and>
     rr_queue s' = {1, 2} - {n}"
proof -
  have "candidates rr_queue 0 0 example_kernel = {1, 2}"
    by (simp add: candidates_def rr_queue_rep [OF example_kernel_rep])
  then show ?thesis using schedule_work_conserving [OF example_kernel_ok] by auto
qed

theorem wakeup_proc_not_lost_witness:
  "\<exists>s'. wakeup_proc default_sched_class 3 example_kernel = Some s' \<and>
     state (procs s' 3) = PROC_RUNNABLE \<and> 3 \<in> candidates rr_queue 0 0 s'"
proof -
  have "state (procs example_kernel 3) \<noteq> PROC_ZOMBIE" by (simp add: example_kernel_def)
  then show ?thesis using wakeup_proc_not_lost [OF example_kernel_ok, of 3] by auto
qed

theorem rr_bounded_waiting_witness:
  "\<exists>s'. schedule_times default_sched_class 2 example_kernel = Some s' \<and> current s' = Some 2"
  using rr_bounded_waiting [OF example_kernel_ok example_kernel_rep, of 1]
  by (simp add: numeral_2_eq_2)

theorem rr_time_slice_bound_witness:
  "\<exists>s' n. RR_enqueue 3 example_kernel = Some s' \<and> rr_rep s' [1, 2, 3] \<and>
     0 < n \<and> int n \<le> 5 \<and> (\<forall>k. need_resched (procs ((RR_proc_tick 3 ^^ k) s') 3) \<longleftrightarrow> n \<le> k)"
proof -
  have "rr_ready 3 example_kernel" "max_time_slice example_kernel = 5"
    "time_slice (procs example_kernel 3) = 0" "\<not> need_resched (procs example_kernel 3)"
    by (simp_all add: example_kernel_def example_proc_def rr_ready_def list_empty_def)
  then show ?thesis using rr_time_slice_bound [OF example_kernel_rep, of 3] by auto
qed

end
