(* ===== verification/Stride.thy ===== *)
theory Stride
imports SchedClass
begin

text \<open>
  The stride scheduling class of \<open>kern/schedule/default_sched_stride.c\<close>, on the skew heap of
  \<open>SkewHeap\<close>. Strides are 32-bit counters that wrap; the comparison reads their difference as
  a signed number. \<open>stride_rep\<close> describes the heap of queued processes; \<open>window\<close> is the
  condition under which the wrapped comparison is the order of unbounded strides.

  Dividing \<open>BIG_STRIDE\<close> by a zero priority is undefined behaviour in C and has no result here.
  The process descriptors are taken to be numbered below \<open>proc_slots\<close>, so that the counter
  \<open>proc_num\<close> cannot wrap.
\<close>

section \<open>The operations\<close>

definition BIG_STRIDE :: "32 word" where "BIG_STRIDE = push_bit 30 1"

definition proc_stride_comp_f :: "'a sched_scheme \<Rightarrow> proc_ptr \<Rightarrow> proc_ptr \<Rightarrow> int" where
  "proc_stride_comp_f s a b =
     (let c = sint (lab6_stride (procs s a) - lab6_stride (procs s b)) in
      if c > 0 then 1 else if c = 0 then 0 else -1)"

definition stride_init :: "'a sched_scheme \<Rightarrow> 'a sched_scheme" where
  "stride_init s = (upd_run_links (list_init RunList) s)\<lparr>lab6_run_pool := None, proc_num := 0\<rparr>"

definition stride_enqueue :: "proc_ptr \<Rightarrow> 'a sched_scheme \<Rightarrow> 'a sched_scheme option" where
  "stride_enqueue p s =
     do {
       (r, H) \<leftarrow> skew_heap_insert (proc_stride_comp_f s) (lab6_run_pool s) p (pool s);
       let s1 = s\<lparr>pool := H, lab6_run_pool := r\<rparr>;
       let s2 = (if time_slice (procs s1 p) = 0 \<or> time_slice (procs s1 p) > max_time_slice s1
                 then upd_proc p (\<lambda>d. d\<lparr>time_slice := max_time_slice s1\<rparr>) s1 else s1);
       let s3 = upd_proc p (\<lambda>d. d\<lparr>on_rq := True\<rparr>) s2;
       Some (s3\<lparr>proc_num := proc_num s3 + 1\<rparr>)
     }"

definition stride_dequeue :: "proc_ptr \<Rightarrow> 'a sched_scheme \<Rightarrow> 'a sched_scheme option" where
  "stride_dequeue p s =
     do {
       kassert (on_rq (procs s p) \<and> proc_num s > 0);
       (r, H) \<leftarrow> skew_heap_remove (proc_stride_comp_f s) (lab6_run_pool s) p (pool s);
       let s1 = s\<lparr>pool := H, lab6_run_pool := r\<rparr>;
       Some (s1\<lparr>proc_num := proc_num s1 - 1\<rparr>)
     }"

definition stride_pick_next :: "'a sched_scheme \<Rightarrow> (proc_ptr option \<times> 'a sched_scheme) option" where
  "stride_pick_next s =
     (case lab6_run_pool s of
        None \<Rightarrow> Some (None, s)
      | Some p \<Rightarrow>
          if lab6_priority (procs s p) = 0 then None
          else Some (Some p, upd_proc p (\<lambda>d. d\<lparr>lab6_stride :=
                 lab6_stride d + BIG_STRIDE div lab6_priority d\<rparr>) s))"

definition stride_proc_tick :: "proc_ptr \<Rightarrow> 'a sched_scheme \<Rightarrow> 'a sched_scheme" where
  "stride_proc_tick p s =
     (let s1 = (if time_slice (procs s p) > 0
                then upd_proc p (\<lambda>d. d\<lparr>time_slice := time_slice d - 1\<rparr>) s else s)
      in if time_slice (procs s1 p) = 0
         then upd_proc p (\<lambda>d. d\<lparr>need_resched := True\<rparr>) s1 else s1)"

definition stride_sched_class :: "'a sched_scheme sched_class" where
  "stride_sched_class =
     \<lparr>class_name = ''stride_scheduler'', sc_init = stride_init, sc_enqueue = stride_enqueue,
      sc_dequeue = stride_dequeue, sc_pick_next = stride_pick_next,
      sc_proc_tick = stride_proc_tick\<rparr>"

section \<open>The queue as a heap\<close>

definition proc_slots :: nat where "proc_slots = 2 ^ 31"

definition stride_rep :: "'a sched_scheme \<Rightarrow> proc_ptr tree \<Rightarrow> bool" where
  "stride_rep s t \<longleftrightarrow>
     heap_rep (pool s) (lab6_run_pool s) t \<and> proc_num s = of_nat (card (set_tree t)) \<and>
     set_tree t \<subseteq> {..<proc_slots} \<and>
     (\<forall>p \<in> set_tree t. on_rq (procs s p) \<and> lab6_priority (procs s p) \<noteq> 0)"

lemma sheap_unique: "sheap H r t \<Longrightarrow> sheap H r u \<Longrightarrow> t = u"
proof (induction t arbitrary: r u)
  case Leaf
  then show ?case by (cases u) auto
next
  case (Node l x r')
  then obtain l' r'' where u: "u = Node l' x r''" by (cases u) auto
  with Node.prems have "l = l'" "r' = r''" by (auto intro: Node.IH)
  with u show ?case by simp
qed

lemma stride_rep_unique: "stride_rep s t \<Longrightarrow> stride_rep s u \<Longrightarrow> t = u"
  using sheap_unique by (auto simp: stride_rep_def heap_rep_def)

lemma stride_rep_init: "stride_rep (stride_init s) Leaf"
  by (simp add: stride_rep_def stride_init_def heap_rep_Leaf)

lemma card_slots:
  assumes "set_tree t \<subseteq> {..<proc_slots}" shows "card (set_tree t) \<le> proc_slots"
  using card_mono [OF _ assms] by simp

lemma proc_num_pos:
  assumes "stride_rep s t" "p \<in> set_tree t"
  shows "proc_num s > 0"
proof -
  have "card (set_tree t) \<noteq> 0" using assms(2) by (auto simp: card_eq_0_iff)
  moreover have "card (set_tree t) < 2 ^ 32"
    using assms(1) card_slots [of t] by (simp add: stride_rep_def proc_slots_def)
  ultimately have "unat (of_nat (card (set_tree t)) :: 32 word) \<noteq> 0"
    by (simp only: unat_of_nat_u32 not_False_eq_True)
  then have "(of_nat (card (set_tree t)) :: 32 word) \<noteq> 0" by (metis unat_0)
  then show ?thesis using assms(1) by (simp add: stride_rep_def word_neq_0_conv)
qed

lemma stride_enqueue_rep:
  assumes rep: "stride_rep s t" and p: "p \<notin> set_tree t" "p < proc_slots"
    "lab6_priority (procs s p) \<noteq> 0"
  obtains s' t' where "stride_enqueue p s = Some s'" "stride_rep s' t'"
    "t' = skew_merge (proc_stride_comp_f s) t (Node Leaf p Leaf)" "same_procs s s'"
    "\<forall>q. lab6_stride (procs s' q) = lab6_stride (procs s q)"
proof -
  obtain r H where i: "skew_heap_insert (proc_stride_comp_f s) (lab6_run_pool s) p (pool s) = Some (r, H)"
    "heap_rep H r (skew_merge (proc_stride_comp_f s) t (Node Leaf p Leaf))"
    using rep p(1) skew_heap_insert_refines unfolding stride_rep_def by metis
  define s' where "s' = the (stride_enqueue p s)"
  have s': "stride_enqueue p s = Some s'" "pool s' = H" "lab6_run_pool s' = r"
    "proc_num s' = proc_num s + 1" "same_procs s s'" "on_rq (procs s' p)"
    "\<And>q. q \<noteq> p \<Longrightarrow> procs s' q = procs s q"
    "\<And>q. lab6_priority (procs s' q) = lab6_priority (procs s q)"
    "\<And>q. lab6_stride (procs s' q) = lab6_stride (procs s q)"
    using i(1) by (simp_all add: s'_def stride_enqueue_def Let_def same_procs_def same_proc_def)
  have "stride_rep s' (skew_merge (proc_stride_comp_f s) t (Node Leaf p Leaf))"
    unfolding stride_rep_def
  proof (intro conjI)
    show "\<forall>q \<in> set_tree (skew_merge (proc_stride_comp_f s) t (Node Leaf p Leaf)).
        on_rq (procs s' q) \<and> lab6_priority (procs s' q) \<noteq> 0"
      using rep p(3) s'(6,7,8) unfolding stride_rep_def
      by (metis UnE empty_iff insertE set_skew_merge tree.set(1,2) sup_bot.right_neutral)
  qed (use rep i(2) s' p in \<open>simp_all add: stride_rep_def\<close>)
  with s' that show ?thesis by blast
qed

lemma stride_dequeue_rep:
  assumes rep: "stride_rep s t" and p: "p \<in> set_tree t"
  obtains s' t' where "stride_dequeue p s = Some s'" "stride_rep s' t'"
    "t' = skew_delete (proc_stride_comp_f s) p t" "set_tree t' = set_tree t - {p}" "procs s' = procs s"
    "sched.more s' = sched.more s"
proof -
  obtain r H where i: "skew_heap_remove (proc_stride_comp_f s) (lab6_run_pool s) p (pool s) = Some (r, H)"
    "heap_rep H r (skew_delete (proc_stride_comp_f s) p t)"
    using rep p skew_heap_remove_refines unfolding stride_rep_def by metis
  define s' where "s' = the (stride_dequeue p s)"
  have s': "stride_dequeue p s = Some s'" "pool s' = H" "lab6_run_pool s' = r"
    "proc_num s' = proc_num s - 1" "procs s' = procs s" "sched.more s' = sched.more s"
    using i(1) rep p proc_num_pos [OF rep p]
    by (simp_all add: s'_def stride_dequeue_def stride_rep_def Let_def)
  have "sheap (pool s) (lab6_run_pool s) t" using rep by (simp add: stride_rep_def heap_rep_def)
  then have set: "set_tree (skew_delete (proc_stride_comp_f s) p t) = set_tree t - {p}"
    by (rule set_skew_delete)
  have "card (set_tree t) = Suc (card (set_tree t - {p}))"
    using p by (simp only: card_Suc_Diff1 finite_set_tree)
  then have "stride_rep s' (skew_delete (proc_stride_comp_f s) p t)"
    using rep i(2) s' set unfolding stride_rep_def by (auto simp del: of_nat_Suc simp add: of_nat_Suc)
  with s' that set show ?thesis by blast
qed

section \<open>The class satisfies the contract\<close>

definition stride_ok :: "'a sched_scheme \<Rightarrow> bool" where
  "stride_ok s \<longleftrightarrow> (\<exists>t. stride_rep s t)"

definition stride_queue :: "'a sched_scheme \<Rightarrow> proc_ptr set" where
  "stride_queue s = {p. \<exists>t. stride_rep s t \<and> p \<in> set_tree t}"

definition stride_ready :: "proc_ptr \<Rightarrow> 'a sched_scheme \<Rightarrow> bool" where
  "stride_ready p s \<longleftrightarrow>
     p < proc_slots \<and> lab6_priority (procs s p) \<noteq> 0 \<and> p \<notin> stride_queue s"

lemma stride_queue_rep: "stride_rep s t \<Longrightarrow> stride_queue s = set_tree t"
  using stride_rep_unique by (auto simp: stride_queue_def)

lemma stride_rep_same_queue: "same_queue s s' \<Longrightarrow> stride_rep s' t = stride_rep s t"
  by (simp add: stride_rep_def same_queue_def)

lemma stride_pick_next_rep:
  assumes rep: "stride_rep s t"
  obtains "t = Leaf" "stride_pick_next s = Some (None, s)"
  | l p r s' where "t = Node l p r" "stride_pick_next s = Some (Some p, s')" "stride_rep s' t"
    "same_procs s s'"
    "s' = upd_proc p (\<lambda>d. d\<lparr>lab6_stride := lab6_stride d + BIG_STRIDE div lab6_priority d\<rparr>) s"
proof (cases t)
  case Leaf
  then show ?thesis
    using that(1) rep by (simp add: stride_pick_next_def stride_rep_def heap_rep_def)
next
  case (Node l p r)
  let ?s = "upd_proc p (\<lambda>d. d\<lparr>lab6_stride := lab6_stride d + BIG_STRIDE div lab6_priority d\<rparr>) s"
  have "lab6_run_pool s = Some p" using rep Node by (simp add: stride_rep_def heap_rep_def)
  moreover have "lab6_priority (procs s p) \<noteq> 0" using rep Node by (simp add: stride_rep_def)
  ultimately have "stride_pick_next s = Some (Some p, ?s)" by (simp add: stride_pick_next_def)
  moreover have "stride_rep ?s t" using rep by (simp add: stride_rep_def)
  moreover have "same_procs s ?s" by (simp add: same_procs_def same_proc_def)
  ultimately show ?thesis using that(2) Node by blast
qed

lemma stride_class_sel [simp]:
  "sc_enqueue stride_sched_class = stride_enqueue" "sc_dequeue stride_sched_class = stride_dequeue"
  "sc_pick_next stride_sched_class = stride_pick_next" "sc_init stride_sched_class = stride_init"
  "sc_proc_tick stride_sched_class = stride_proc_tick"
  by (simp_all add: stride_sched_class_def)

lemma same_procs_priority:
  "same_procs s s' \<Longrightarrow> lab6_priority (procs s' p) = lab6_priority (procs s p)"
  by (simp add: same_procs_def same_proc_fields)

lemma stride_ready_rep:
  "stride_rep s t \<Longrightarrow> stride_ready p s \<longleftrightarrow>
     p < proc_slots \<and> lab6_priority (procs s p) \<noteq> 0 \<and> p \<notin> set_tree t"
  by (simp add: stride_ready_def stride_queue_rep)

interpretation stride: sched_core stride_sched_class stride_ok stride_queue stride_ready
proof unfold_locales
  fix s :: "'b kernel_scheme" assume "stride_ok s"
  then obtain t where rep: "stride_rep s t" by (auto simp: stride_ok_def)
  note q = stride_queue_rep [OF rep]
  { fix s' :: "'b kernel_scheme" assume sq: "same_queue s s'"
    then have "\<And>u. stride_rep s' u = stride_rep s u"
      "\<And>p. lab6_priority (procs s' p) = lab6_priority (procs s p)"
      by (simp_all add: stride_rep_same_queue) (simp add: same_queue_def)
    then show "stride_ok s' \<and> stride_queue s' = stride_queue s \<and>
        (\<forall>p. stride_ready p s' = stride_ready p s)"
      using rep by (auto simp: stride_ok_def stride_queue_def stride_ready_def) }
  { fix p assume rd: "stride_ready p s"
    then show "p \<notin> stride_queue s" by (simp add: stride_ready_def)
    have p: "p \<notin> set_tree t" "p < proc_slots" "lab6_priority (procs s p) \<noteq> 0"
      using rd by (simp_all add: stride_ready_rep [OF rep])
    obtain s' t' where s': "stride_enqueue p s = Some s'" "stride_rep s' t'"
      "t' = skew_merge (proc_stride_comp_f s) t (Node Leaf p Leaf)" "same_procs s s'"
      using stride_enqueue_rep [OF rep p] by metis
    have "set_tree t' = insert p (set_tree t)" using s'(3) by simp
    then show "\<exists>s'. sc_enqueue stride_sched_class p s = Some s' \<and> stride_ok s' \<and>
        stride_queue s' = insert p (stride_queue s) \<and> same_procs s s' \<and>
        (\<forall>q. stride_ready q s' = (stride_ready q s \<and> q \<noteq> p))"
      using s' same_procs_priority [OF s'(4)]
      by (auto simp: stride_ok_def q stride_queue_rep [OF s'(2)] stride_ready_rep [OF s'(2)]
          stride_ready_rep [OF rep]) }
  { fix p assume pq: "p \<in> stride_queue s"
    then obtain s' t' where s': "stride_dequeue p s = Some s'" "stride_rep s' t'"
      "set_tree t' = set_tree t - {p}" "procs s' = procs s" "sched.more s' = sched.more s"
      using stride_dequeue_rep [OF rep] q by metis
    have "p < proc_slots \<and> lab6_priority (procs s p) \<noteq> 0"
      using rep pq q by (auto simp: stride_rep_def)
    moreover have "same_procs s s'" using s'(4,5) by (simp add: same_procs_def)
    ultimately show "\<exists>s'. sc_dequeue stride_sched_class p s = Some s' \<and> stride_ok s' \<and>
        stride_queue s' = stride_queue s - {p} \<and> same_procs s s' \<and>
        (\<forall>q. stride_ready q s' = (stride_ready q s \<or> q = p))"
      using s' by (auto simp: stride_ok_def q stride_queue_rep [OF s'(2)]
          stride_ready_rep [OF s'(2)] stride_ready_rep [OF rep]) }
  show "\<exists>r s'. sc_pick_next stride_sched_class s = Some (r, s') \<and> stride_ok s' \<and>
      stride_queue s' = stride_queue s \<and> same_procs s s' \<and>
      (\<forall>q. stride_ready q s' = stride_ready q s) \<and>
      (case r of None \<Rightarrow> stride_queue s = {} | Some p \<Rightarrow> p \<in> stride_queue s)"
  proof (rule stride_pick_next_rep [OF rep])
    assume "t = Leaf" "stride_pick_next s = Some (None, s)"
    then show ?thesis using rep q by (auto simp: stride_ok_def)
  next
    fix l p r s'
    assume t: "t = Node l p r" "stride_pick_next s = Some (Some p, s')" "stride_rep s' t"
      "same_procs s s'"
    then show ?thesis
      using same_procs_priority [OF t(4)]
      by (auto simp: stride_ok_def q stride_queue_rep [OF t(3)] stride_ready_rep [OF t(3)]
          stride_ready_rep [OF rep])
  qed
  fix p
  let ?s = "stride_proc_tick p s"
  have tick: "pool ?s = pool s" "lab6_run_pool ?s = lab6_run_pool s" "proc_num ?s = proc_num s"
    "sched.more ?s = sched.more s" "\<And>q. on_rq (procs ?s q) = on_rq (procs s q)"
    "\<And>q. lab6_priority (procs ?s q) = lab6_priority (procs s q)"
    "\<And>q. state (procs ?s q) = state (procs s q)"
    by (simp_all add: stride_proc_tick_def Let_def)
  then have r: "stride_rep ?s t" using rep by (simp add: stride_rep_def)
  then show "stride_ok (sc_proc_tick stride_sched_class p s) \<and>
      stride_queue (sc_proc_tick stride_sched_class p s) = stride_queue s \<and>
      (\<forall>q. stride_ready q (sc_proc_tick stride_sched_class p s) = stride_ready q s) \<and>
      (\<forall>q. state (procs (sc_proc_tick stride_sched_class p s) q) = state (procs s q)) \<and>
      sched.more (sc_proc_tick stride_sched_class p s) = sched.more s"
    using tick q stride_queue_rep [OF r] by (auto simp: stride_ok_def stride_ready_def)
qed

section \<open>Wrapped strides compare like unbounded ones\<close>

text \<open>
  \<open>k\<close> gives every process an unbounded stride whose low 32 bits are \<open>lab6_stride\<close>; all
  processes of \<open>S\<close> lie within \<open>BIG_STRIDE\<close> of each other.
\<close>

definition window :: "'a sched_scheme \<Rightarrow> (proc_ptr \<Rightarrow> int) \<Rightarrow> proc_ptr set \<Rightarrow> bool" where
  "window s k S \<longleftrightarrow>
     (\<forall>p \<in> S. lab6_stride (procs s p) = of_int (k p)) \<and>
     (\<forall>p \<in> S. \<forall>q \<in> S. k p - k q \<le> uint BIG_STRIDE)"

definition pass :: "'a sched_scheme \<Rightarrow> proc_ptr \<Rightarrow> int" where
  "pass s p = uint (BIG_STRIDE div lab6_priority (procs s p))"

lemma uint_BIG_STRIDE: "uint BIG_STRIDE = 2 ^ 30"
  by (simp add: BIG_STRIDE_def)

lemma sint_of_int_small: "- (2 ^ 31) \<le> x \<Longrightarrow> x < 2 ^ 31 \<Longrightarrow> sint (of_int x :: 32 word) = x"
  by (simp add: signed_of_int signed_take_bit_int_eq_self)

lemma window_comp_ok: "window s k S \<Longrightarrow> comp_ok (proc_stride_comp_f s) k S"
  unfolding comp_ok_def
proof (intro ballI)
  fix a b assume w: "window s k S" and ab: "a \<in> S" "b \<in> S"
  have "k a - k b \<le> 2 ^ 30" "k b - k a \<le> 2 ^ 30"
    using w ab by (auto simp: window_def uint_BIG_STRIDE)
  moreover have "lab6_stride (procs s a) - lab6_stride (procs s b) = of_int (k a - k b)"
    using w ab by (simp add: window_def)
  ultimately have "sint (lab6_stride (procs s a) - lab6_stride (procs s b)) = k a - k b"
    by (simp only:) (rule sint_of_int_small; simp)
  then show "(proc_stride_comp_f s a b = -1) = (k a < k b)"
    by (simp add: proc_stride_comp_f_def Let_def)
qed

lemma pass_bounds: "0 \<le> pass s p" "pass s p \<le> uint BIG_STRIDE"
proof -
  show "0 \<le> pass s p" by (simp add: pass_def)
  let ?d = "uint (lab6_priority (procs s p))"
  have "2 ^ 30 div ?d \<le> (2 ^ 30 :: int)"
  proof (cases "?d = 0")
    case False
    then have "1 \<le> ?d" using uint_ge_0 [of "lab6_priority (procs s p)"] by linarith
    then have "2 ^ 30 div ?d \<le> 2 ^ 30 div 1" by (intro zdiv_mono2) auto
    then show ?thesis by simp
  qed (simp only: div_by_0, simp)
  then show "pass s p \<le> uint BIG_STRIDE" by (simp add: pass_def uint_div uint_BIG_STRIDE)
qed

text \<open>Advancing the minimum by its pass keeps the window.\<close>

lemma window_advance:
  assumes w: "window s k S" and p: "p \<in> S" "\<forall>q \<in> S. k p \<le> k q"
    and s': "\<forall>q. lab6_stride (procs s' q) =
      (if q = p then lab6_stride (procs s p) + BIG_STRIDE div lab6_priority (procs s p)
       else lab6_stride (procs s q))"
  shows "window s' (k(p := k p + pass s p)) S"
  unfolding window_def
proof (intro conjI ballI)
  fix q assume "q \<in> S"
  then show "lab6_stride (procs s' q) = of_int ((k(p := k p + pass s p)) q)"
    using w s' p(1) by (auto simp: window_def pass_def)
next
  fix a b assume ab: "a \<in> S" "b \<in> S"
  have "k a - k b \<le> uint BIG_STRIDE" "k p \<le> k b" using w ab p by (auto simp: window_def)
  then show "(k(p := k p + pass s p)) a - (k(p := k p + pass s p)) b \<le> uint BIG_STRIDE"
    using pass_bounds [of s p] by (cases "a = p"; cases "b = p") auto
qed

section \<open>Scheduling by stride\<close>

lemma window_cong:
  assumes "\<And>q. lab6_stride (procs s' q) = lab6_stride (procs s q)"
  shows "window s' k S = window s k S"
  using assms by (simp add: window_def)

lemma heap_by_cong: "(\<And>x. x \<in> set_tree t \<Longrightarrow> k' x = k x) \<Longrightarrow> heap_by k' t = heap_by k t"
  by (induction t) auto

lemma heap_by_delete_root:
  assumes h: "heap_by k (Node l p r)" and d: "p \<notin> set_tree l" "p \<notin> set_tree r"
    and c: "comp_ok cmp (k(p := x)) (set_tree l \<union> set_tree r)"
  shows "heap_by (k(p := x)) (skew_delete cmp p (Node l p r))"
proof -
  have "heap_by (k(p := x)) l = heap_by k l" "heap_by (k(p := x)) r = heap_by k r"
    using d by (auto intro!: heap_by_cong)
  then show ?thesis using h c by (simp add: heap_by_skew_merge)
qed

lemma same_queue_stride:
  "same_queue s s' \<Longrightarrow> lab6_stride (procs s' p) = lab6_stride (procs s p)"
  "same_queue s s' \<Longrightarrow> lab6_priority (procs s' p) = lab6_priority (procs s p)"
  by (simp_all add: same_queue_def)

text \<open>The state in which \<open>schedule\<close> runs: heap \<open>t\<close>, current process \<open>c\<close>, unbounded strides \<open>k\<close>.\<close>

definition stride_state ::
  "'a kernel_scheme \<Rightarrow> (proc_ptr \<Rightarrow> int) \<Rightarrow> proc_ptr set \<Rightarrow> proc_ptr \<Rightarrow> proc_ptr \<Rightarrow> bool"
where
  "stride_state s k S c i \<longleftrightarrow>
     (\<exists>t. stride_rep s t \<and> heap_by k t \<and> window s k S \<and> candidates stride_queue c i s = S)"

lemma stride_enqueue_step:
  assumes rep: "stride_rep s t" and h: "heap_by k t" and w: "window s k S"
    and c: "stride_ready c s" "insert c (set_tree t) = S"
  obtains s' t' where "stride_enqueue c s = Some s'" "stride_rep s' t'" "heap_by k t'"
    "set_tree t' = S" "window s' k S" "same_procs s s'"
proof -
  have c': "c \<notin> set_tree t" "c < proc_slots" "lab6_priority (procs s c) \<noteq> 0"
    using c(1) by (simp_all add: stride_ready_rep [OF rep])
  obtain s' t' where s': "stride_enqueue c s = Some s'" "stride_rep s' t'"
    "t' = skew_merge (proc_stride_comp_f s) t (Node Leaf c Leaf)" "same_procs s s'"
    "\<forall>q. lab6_stride (procs s' q) = lab6_stride (procs s q)"
    using stride_enqueue_rep [OF rep c'] by metis
  have "comp_ok (proc_stride_comp_f s) k S" using w by (rule window_comp_ok)
  then have "heap_by k t'" unfolding s'(3)
    using h c(2) by (intro heap_by_skew_merge) (auto elim: comp_ok_mono)
  moreover have "set_tree t' = S" using s'(3) c(2) by simp
  moreover have "window s' k S" using w s'(5) window_cong by metis
  ultimately show ?thesis using that s' by blast
qed

text \<open>Picking and unlinking: the process of least stride, whose stride advances by its pass.\<close>

lemma stride_pick_step:
  assumes rep: "stride_rep s t" and h: "heap_by k t" and w: "window s k S"
    and S: "set_tree t = S" "S \<noteq> {}"
  obtains p s3 s4 t4 where "stride_pick_next s = Some (Some p, s3)" "stride_dequeue p s3 = Some s4"
    "p \<in> S" "\<forall>q \<in> S. k p \<le> k q" "stride_rep s4 t4" "heap_by (k(p := k p + pass s p)) t4"
    "window s4 (k(p := k p + pass s p)) S" "same_procs s s4"
proof (rule stride_pick_next_rep [OF rep])
  assume "t = Leaf" then show thesis using S by simp
next
  fix l p r s3
  assume t: "t = Node l p r" "stride_pick_next s = Some (Some p, s3)" "stride_rep s3 t"
    "same_procs s s3"
    "s3 = upd_proc p (\<lambda>d. d\<lparr>lab6_stride := lab6_stride d + BIG_STRIDE div lab6_priority d\<rparr>) s"
  let ?k = "k(p := k p + pass s p)"
  have p: "p \<in> S" "\<forall>q \<in> S. k p \<le> k q" using S t(1) h by auto
  have w3: "window s3 ?k S"
    by (rule window_advance [OF w p]) (simp add: t(5))
  obtain s4 t4 where s4: "stride_dequeue p s3 = Some s4" "stride_rep s4 t4"
    "t4 = skew_delete (proc_stride_comp_f s3) p t" "procs s4 = procs s3"
    "sched.more s4 = sched.more s3"
    using stride_dequeue_rep [OF t(3), of p] t(1) by (metis tree.set_intros(2))
  have "sheap (pool s3) (lab6_run_pool s3) t" using t(3) by (simp add: stride_rep_def heap_rep_def)
  then have "p \<notin> set_tree l" "p \<notin> set_tree r" using t(1) by auto
  moreover have "comp_ok (proc_stride_comp_f s3) ?k (set_tree l \<union> set_tree r)"
    by (rule comp_ok_mono [OF window_comp_ok [OF w3]]) (use S t(1) in auto)
  ultimately have "heap_by ?k t4"
    unfolding s4(3) t(1) using h t(1) by (intro heap_by_delete_root) auto
  moreover have "window s4 ?k S" using w3 s4(4) by (simp add: window_def)
  moreover have "same_procs s s4"
    using t(4) s4(4,5) by (simp add: same_procs_def)
  ultimately show thesis using that t(2) s4(1,2) p by blast
qed

lemma stride_schedule_step:
  assumes ok: "sched_ok stride_ok stride_queue stride_ready P c i s"
    and st: "stride_state s k S c i" and S: "S \<noteq> {}"
  obtains s' p where "schedule stride_sched_class s = Some s'" "p \<in> S" "\<forall>q \<in> S. k p \<le> k q"
    "sched_ok stride_ok stride_queue stride_ready P p i s'"
    "stride_state s' (k(p := k p + pass s p)) S p i"
    "\<forall>q. runs (procs s' q) = (if q = p then runs (procs s q) + 1 else runs (procs s q))"
    "\<forall>q. pass s' q = pass s q"
proof -
  obtain t where t: "stride_rep s t" "heap_by k t" "window s k S"
    "candidates stride_queue c i s = S"
    using st by (auto simp: stride_state_def)
  have c: "current s = Some c" "idleproc s = Some i" "i \<notin> P" "c \<in> insert i P"
    "stride_queue s \<subseteq> P - {c}" "\<forall>p \<in> P - stride_queue s. stride_ready p s"
    using ok by (auto simp: sched_ok_def)
  let ?s1 = "upd_proc c (\<lambda>d. d\<lparr>need_resched := False\<rparr>) s"
  have sq1: "same_queue s ?s1" by (rule same_queue_upd_proc) simp
  have r1: "stride_rep ?s1 t" using t(1) sq1 by (simp add: stride_rep_same_queue)
  have w1: "window ?s1 k S" using t(3) same_queue_stride(1) [OF sq1] window_cong by metis
  obtain s2 t2 where s2: "stride_rep s2 t2" "heap_by k t2" "set_tree t2 = S" "window s2 k S"
    "same_procs ?s1 s2"
    "(if state (procs ?s1 c) = PROC_RUNNABLE then sched_class_enqueue stride_sched_class c ?s1
      else Some ?s1) = Some s2"
  proof (cases "state (procs s c) = PROC_RUNNABLE \<and> c \<noteq> i")
    case True
    have "stride_ready c s" using c(4-6) True by auto
    then have rdy: "stride_ready c ?s1"
      by (simp add: stride_ready_rep [OF t(1)] stride_ready_rep [OF r1])
    have ins: "insert c (set_tree t) = S"
      using t(4) True stride_queue_rep [OF t(1)] by (simp add: candidates_def)
    obtain s2 t2 where "stride_enqueue c ?s1 = Some s2" "stride_rep s2 t2"
      "heap_by k t2" "set_tree t2 = S" "window s2 k S" "same_procs ?s1 s2"
      by (rule stride_enqueue_step [OF r1 t(2) w1 rdy ins])
    then show ?thesis using that [of s2 t2] True c(2) by (simp add: sched_class_enqueue_def)
  next
    case False
    then have "candidates stride_queue c i s = stride_queue s"
      unfolding candidates_def by (simp only: if_False Un_empty_right)
    then have "set_tree t = S" using t(4) stride_queue_rep [OF t(1)] by simp
    moreover have "(if state (procs ?s1 c) = PROC_RUNNABLE
        then sched_class_enqueue stride_sched_class c ?s1 else Some ?s1) = Some ?s1"
      using False c(2) by (simp add: sched_class_enqueue_def)
    ultimately show ?thesis using that [of ?s1 t] r1 t(2) w1 by simp
  qed
  obtain p s3 s4 t4 where s4: "stride_pick_next s2 = Some (Some p, s3)"
    "stride_dequeue p s3 = Some s4" "p \<in> S" "\<forall>q \<in> S. k p \<le> k q" "stride_rep s4 t4"
    "heap_by (k(p := k p + pass s2 p)) t4" "window s4 (k(p := k p + pass s2 p)) S" "same_procs s2 s4"
    using stride_pick_step [OF s2(1,2,4,3) S] by metis
  have ps2: "pass s2 q = pass s q" for q
    using same_procs_priority [OF s2(5), of q] by (simp add: pass_def)
  let ?s5 = "upd_proc p (\<lambda>d. d\<lparr>runs := runs d + 1\<rparr>) s4"
  define s6 where "s6 = (if Some p \<noteq> current ?s5 then proc_run p ?s5 else ?s5)"
  have sch: "schedule stride_sched_class s = Some s6"
    using c(1) s2(6) s4(1,2) by (simp add: schedule_def s6_def Let_def)
  have sq6: "same_queue s4 s6"
    unfolding s6_def by (cases "Some p \<noteq> current ?s5")
      (auto intro!: same_queue_trans [OF same_queue_upd_proc same_queue_proc_run]
        same_queue_upd_proc)
  have cur6: "current s6 = Some p" by (auto simp: s6_def proc_run_def)
  obtain n where n: "sched_ok stride_ok stride_queue stride_ready P n i s6"
    "stride_queue s6 = candidates stride_queue c i s - {n}"
    "\<forall>q. state (procs s6 q) = state (procs s q)"
    "\<forall>q. runs (procs s6 q) = (if q = n then runs (procs s q) + 1 else runs (procs s q))"
    using stride.schedule_spec [OF ok] sch by (metis option.inject)
  have np: "n = p" using n(1) cur6 by (simp add: sched_ok_def)
  have R: "\<forall>q \<in> S. state (procs s q) = PROC_RUNNABLE \<and> q \<noteq> i"
    using ok t(4) by (auto simp: sched_ok_def candidates_def split: if_splits)
  have "candidates stride_queue p i s6 = S"
    using n(2,3) np t(4) R s4(3) by (auto simp: candidates_def)
  moreover have "stride_rep s6 t4" using s4(5) sq6 by (simp add: stride_rep_same_queue)
  moreover have "window s6 (k(p := k p + pass s p)) S"
    using s4(7) ps2 same_queue_stride(1) [OF sq6] window_cong by metis
  ultimately have "stride_state s6 (k(p := k p + pass s p)) S p i"
    using s4(6) ps2 by (auto simp: stride_state_def)
  moreover have "\<forall>q. pass s6 q = pass s q"
    using ps2 same_queue_stride(2) [OF sq6] same_procs_priority [OF s4(8)] by (simp add: pass_def)
  ultimately show ?thesis using that sch s4(3,4) n np by blast
qed

text \<open>After any number of schedules the unbounded strides count how often a process was chosen.\<close>

lemma stride_schedule_times:
  assumes "sched_ok stride_ok stride_queue stride_ready P c i s" "stride_state s k S c i" "S \<noteq> {}"
  shows "\<exists>s' c' k'. schedule_times stride_sched_class n s = Some s' \<and>
           sched_ok stride_ok stride_queue stride_ready P c' i s' \<and> stride_state s' k' S c' i \<and>
           (\<forall>q. k' q = k q + int (run_count stride_sched_class n s q) * pass s q \<and>
                runs (procs s' q) = runs (procs s q) + of_nat (run_count stride_sched_class n s q))"
  using assms
proof (induction n arbitrary: s c k)
  case (0 s c k)
  then show ?case by auto
next
  case (Suc n s c k)
  obtain s1 p where s1: "schedule stride_sched_class s = Some s1"
    "sched_ok stride_ok stride_queue stride_ready P p i s1"
    "stride_state s1 (k(p := k p + pass s p)) S p i"
    "\<forall>q. runs (procs s1 q) = (if q = p then runs (procs s q) + 1 else runs (procs s q))"
    "\<forall>q. pass s1 q = pass s q"
    using stride_schedule_step [OF Suc.prems] by metis
  have cur: "current s1 = Some p" using s1(2) by (simp add: sched_ok_def)
  let ?n = "run_count stride_sched_class n s1"
  obtain s' c' k' where s': "schedule_times stride_sched_class n s1 = Some s'"
    "sched_ok stride_ok stride_queue stride_ready P c' i s'" "stride_state s' k' S c' i"
    "\<forall>q. k' q = (k(p := k p + pass s p)) q + int (?n q) * pass s1 q \<and>
       runs (procs s' q) = runs (procs s1 q) + of_nat (?n q)"
    using Suc.IH [OF s1(2,3) Suc.prems(3)] by blast
  have "run_count stride_sched_class (Suc n) s q = (if q = p then 1 else 0) + ?n q" for q
    using s1(1) cur by auto
  then have "k' q = k q + int (run_count stride_sched_class (Suc n) s q) * pass s q \<and>
      runs (procs s' q) = runs (procs s q) + of_nat (run_count stride_sched_class (Suc n) s q)" for q
    using spec [OF s1(4), of q] spec [OF s1(5), of q] spec [OF s'(4), of q]
    by (cases "q = p") (simp_all add: algebra_simps del: run_count.simps)
  moreover have "schedule_times stride_sched_class (Suc n) s = Some s'" using s1(1) s'(1) by simp
  ultimately show ?case using s'(2,3) by blast
qed

section \<open>Guarantees of the stride class\<close>

text \<open>
  C32: while the strides lie within \<open>BIG_STRIDE\<close> of each other, \<open>schedule\<close> under the stride class
  runs a process of least unbounded stride, although the 32-bit strides wrap, advances it by
  its pass, and keeps the strides within \<open>BIG_STRIDE\<close> of each other.
\<close>

theorem stride_schedule_minimum:
  assumes "sched_ok stride_ok stride_queue stride_ready P c i s" "stride_state s k S c i" "S \<noteq> {}"
  shows "\<exists>s' p. schedule stride_sched_class s = Some s' \<and> current s' = Some p \<and> p \<in> S \<and>
           (\<forall>q \<in> S. k p \<le> k q) \<and> stride_state s' (k(p := k p + pass s p)) S p i"
proof -
  obtain s' p where s': "schedule stride_sched_class s = Some s'" "p \<in> S" "\<forall>q \<in> S. k p \<le> k q"
    "sched_ok stride_ok stride_queue stride_ready P p i s'"
    "stride_state s' (k(p := k p + pass s p)) S p i"
    using stride_schedule_step [OF assms] by metis
  then have "current s' = Some p" by (simp add: sched_ok_def)
  with s' show ?thesis by blast
qed

text \<open>
  C29: proportional share: among processes that stay runnable and start with equal strides, the number
  of times a process was chosen, times its pass, differs by at most \<open>BIG_STRIDE\<close> after any number of
  schedules, so processes run in proportion to their priorities. The field \<open>runs\<close> counts these times
  modulo $2^{32}$.
\<close>

theorem stride_proportional_share:
  assumes "sched_ok stride_ok stride_queue stride_ready P c i s" "stride_state s k S c i"
    and "p \<in> S" "q \<in> S" "k p = k q"
  shows "\<exists>s'. schedule_times stride_sched_class n s = Some s' \<and>
           runs (procs s' p) = runs (procs s p) + of_nat (run_count stride_sched_class n s p) \<and>
           runs (procs s' q) = runs (procs s q) + of_nat (run_count stride_sched_class n s q) \<and>
           \<bar>int (run_count stride_sched_class n s p) * pass s p -
            int (run_count stride_sched_class n s q) * pass s q\<bar> \<le> 2 ^ 30"
proof -
  obtain s' c' k' where s': "schedule_times stride_sched_class n s = Some s'"
    "stride_state s' k' S c' i"
    "\<forall>q. k' q = k q + int (run_count stride_sched_class n s q) * pass s q \<and>
       runs (procs s' q) = runs (procs s q) + of_nat (run_count stride_sched_class n s q)"
    using stride_schedule_times [OF assms(1,2)] assms(3) by blast
  then have "window s' k' S" by (auto simp: stride_state_def)
  then have "k' p - k' q \<le> 2 ^ 30" "k' q - k' p \<le> 2 ^ 30"
    using assms(3,4) by (auto simp: window_def uint_BIG_STRIDE)
  then show ?thesis using s'(1,3) assms(5) by (intro exI [of _ s']) (simp add: abs_le_iff)
qed

section \<open>Witnesses\<close>

text \<open>
  The idle process 0 runs; 1 and 2 are queued with the strides \<open>2\<^sup>3\<^sup>2 - 1\<close> and 0, which has
  wrapped, and the priorities 1 and 2.
\<close>

definition stride_proc :: "32 word \<Rightarrow> 32 word \<Rightarrow> proc_struct" where
  "stride_proc v prio =
     \<lparr>state = PROC_RUNNABLE, pid = 1, runs = 0, kstack = None, need_resched = False,
      parent = None, mm = None, proc_context = \<lparr>ctx_ra = 0, ctx_sp = 0, ctx_s = []\<rparr>, tf = None,
      pgdir = 0, flags = 0, proc_name = [], exit_code = 0, wait_state = 0, cptr = None,
      yptr = None, optr = None, on_rq = True, time_slice = 0, lab6_stride = v,
      lab6_priority = prio, filesp = None\<rparr>"

definition stride_kernel :: "32 word \<Rightarrow> kernel" where
  "stride_kernel v =
     \<lparr>procs = (\<lambda>_. stride_proc 0 2)(1 := stride_proc v 1),
      run_links = \<lparr>next_of = id, prev_of = id\<rparr>,
      pool = \<lparr>parent_of = (\<lambda>_. None)(2 := Some 1), left_of = (\<lambda>_. None)(1 := Some 2),
              right_of = (\<lambda>_. None)\<rparr>,
      proc_num = 2, max_time_slice = 5, lab6_run_pool = Some 1,
      current = Some 0, idleproc = Some 0, initproc = Some 1, satp = 0\<rparr>"

lemma stride_kernel_rep: "stride_rep (stride_kernel v) (Node (Node Leaf 2 Leaf) 1 Leaf)"
  by (auto simp: stride_rep_def stride_kernel_def heap_rep_def stride_proc_def proc_slots_def)

lemma stride_kernel_ok:
  "sched_ok stride_ok stride_queue stride_ready {1, 2} 0 0 (stride_kernel v)"
  using stride_kernel_rep [of v] stride_queue_rep [OF stride_kernel_rep, of v]
  by (auto simp: sched_ok_def stride_ok_def stride_kernel_def stride_proc_def)

lemma stride_kernel_state:
  assumes "v = of_int x" "x \<le> 0" "- (2 ^ 30) \<le> x"
  shows "stride_state (stride_kernel v) ((\<lambda>_. 0)(1 := x)) {1, 2} 0 0"
proof -
  have "candidates stride_queue 0 0 (stride_kernel v) = {1, 2}"
    by (auto simp: candidates_def stride_queue_rep [OF stride_kernel_rep])
  moreover have "window (stride_kernel v) ((\<lambda>_. 0)(1 := x)) {1, 2}"
    using assms by (simp add: window_def stride_kernel_def stride_proc_def uint_BIG_STRIDE)
  ultimately show ?thesis
    using stride_kernel_rep [of v] assms(2) by (fastforce simp: stride_state_def)
qed

theorem stride_schedule_minimum_witness:
  "\<exists>s'. schedule stride_sched_class (stride_kernel (-1)) = Some s' \<and> current s' = Some 1"
proof -
  have "stride_state (stride_kernel (-1)) ((\<lambda>_. 0)(1 := -1)) {1, 2} 0 0"
    by (rule stride_kernel_state) simp_all
  from stride_schedule_minimum [OF stride_kernel_ok this] show ?thesis by fastforce
qed

theorem stride_proportional_share_witness:
  "\<exists>s'. schedule_times stride_sched_class 1000 (stride_kernel 0) = Some s' \<and>
     runs (procs s' 1) = of_nat (run_count stride_sched_class 1000 (stride_kernel 0) 1) \<and>
     \<bar>int (run_count stride_sched_class 1000 (stride_kernel 0) 1) * 2 ^ 30 -
      int (run_count stride_sched_class 1000 (stride_kernel 0) 2) * 2 ^ 29\<bar> \<le> 2 ^ 30"
proof -
  have "stride_state (stride_kernel 0) ((\<lambda>_. 0)(1 := 0)) {1, 2} 0 0"
    by (rule stride_kernel_state) simp_all
  moreover have "pass (stride_kernel 0) 1 = 2 ^ 30" "pass (stride_kernel 0) 2 = 2 ^ 29"
    "runs (procs (stride_kernel 0) 1) = 0" "runs (procs (stride_kernel 0) 2) = 0"
    by (simp_all add: pass_def stride_kernel_def stride_proc_def BIG_STRIDE_def)
  ultimately show ?thesis
    using stride_proportional_share [OF stride_kernel_ok, of 0 "(\<lambda>_. 0)(1 := 0)" "{1, 2}" 1 2 1000]
    by auto
qed

end
