(* ===== verification/Sched.thy ===== *)
theory Sched
imports RoundRobin Stride
begin

text \<open>
  The timer list of \<open>kern/schedule/sched.c\<close>: \<open>add_timer\<close>, \<open>del_timer\<close>, \<open>run_timer_list\<close>, and
  \<open>sched_init\<close>. A timer stores the ticks after its predecessor in the list expires, so the
  list stands for absolute deadlines, the prefix sums \<open>deadlines\<close>. The theorems say that the
  operations insert, remove and count down deadlines and change no other.
\<close>

record timer_t =
  expires :: "32 word"
  timer_proc :: "proc_ptr option"

datatype tnode = TimerList | TimerLink nat

fun le2timer :: "tnode \<Rightarrow> nat option" where
  "le2timer (TimerLink t) = Some t"
| "le2timer TimerList = None"

record timed_kernel = kernel +
  timers :: "nat \<Rightarrow> timer_t"
  timer_links :: "tnode links"

definition upd_timer :: "nat \<Rightarrow> (timer_t \<Rightarrow> timer_t) \<Rightarrow> 'a timed_kernel_scheme \<Rightarrow> 'a timed_kernel_scheme"
where
  "upd_timer t f s = s\<lparr>timers := (timers s)(t := f (timers s t))\<rparr>"

definition upd_timer_links ::
  "(tnode links \<Rightarrow> tnode links) \<Rightarrow> 'a timed_kernel_scheme \<Rightarrow> 'a timed_kernel_scheme"
where
  "upd_timer_links f s = s\<lparr>timer_links := f (timer_links s)\<rparr>"

lemma upd_timer_simps [simp]:
  "timers (upd_timer t f s) = (timers s)(t := f (timers s t))"
  "timer_links (upd_timer t f s) = timer_links s"
  "timers (upd_timer_links g s) = timers s"
  "timer_links (upd_timer_links g s) = g (timer_links s)"
  by (simp_all add: upd_timer_def upd_timer_links_def)

section \<open>The operations\<close>

definition timer_init :: "nat \<Rightarrow> proc_ptr \<Rightarrow> 32 word \<Rightarrow> 'a timed_kernel_scheme \<Rightarrow> 'a timed_kernel_scheme"
where
  "timer_init t p e s =
     upd_timer_links (list_init (TimerLink t))
       (upd_timer t (\<lambda>d. d\<lparr>expires := e, timer_proc := Some p\<rparr>) s)"

definition sched_init :: "'a timed_kernel_scheme \<Rightarrow> 'a timed_kernel_scheme" where
  "sched_init s =
     (let s1 = upd_timer_links (list_init TimerList) s;
          s2 = s1\<lparr>max_time_slice := MAX_TIME_SLICE\<rparr>
      in sc_init default_sched_class s2)"

partial_function (option) add_timer_loop ::
  "nat \<Rightarrow> tnode \<Rightarrow> 'a timed_kernel_scheme \<Rightarrow> (tnode \<times> 'a timed_kernel_scheme) option"
where
  "add_timer_loop t le s =
     (case le2timer le of
        None \<Rightarrow> Some (le, s)
      | Some nx \<Rightarrow>
          if expires (timers s t) < expires (timers s nx)
          then Some (le, upd_timer nx (\<lambda>d. d\<lparr>expires := expires d - expires (timers s t)\<rparr>) s)
          else let s1 = upd_timer t (\<lambda>d. d\<lparr>expires := expires d - expires (timers s nx)\<rparr>) s
               in add_timer_loop t (list_next le (timer_links s1)) s1)"

definition add_timer :: "nat \<Rightarrow> 'a timed_kernel_scheme \<Rightarrow> 'a timed_kernel_scheme option" where
  "add_timer t s =
     do {
       kassert (expires (timers s t) > 0 \<and> timer_proc (timers s t) \<noteq> None);
       kassert (list_empty (TimerLink t) (timer_links s));
       (le, s1) \<leftarrow> add_timer_loop t (list_next TimerList (timer_links s)) s;
       Some (upd_timer_links (list_add_before le (TimerLink t)) s1)
     }"

definition del_timer :: "nat \<Rightarrow> 'a timed_kernel_scheme \<Rightarrow> 'a timed_kernel_scheme" where
  "del_timer t s =
     (if \<not> list_empty (TimerLink t) (timer_links s)
      then let s1 = (if expires (timers s t) \<noteq> 0
                     then (case le2timer (list_next (TimerLink t) (timer_links s)) of
                             None \<Rightarrow> s
                           | Some nx \<Rightarrow>
                               upd_timer nx (\<lambda>d. d\<lparr>expires := expires d + expires (timers s t)\<rparr>) s)
                     else s)
           in upd_timer_links (list_del_init (TimerLink t)) s1
      else s)"

partial_function (option) expire_loop ::
  "'a timed_kernel_scheme sched_class \<Rightarrow> nat \<Rightarrow> tnode \<Rightarrow> 'a timed_kernel_scheme \<Rightarrow>
   'a timed_kernel_scheme option"
where
  "expire_loop C t le s =
     (if expires (timers s t) = 0
      then do {
        let le' = list_next le (timer_links s);
        p \<leftarrow> timer_proc (timers s t);
        (if wait_state (procs s p) \<noteq> 0
         then kassert (and (wait_state (procs s p)) WT_INTERRUPTED \<noteq> 0) else Some ());
        s1 \<leftarrow> wakeup_proc C p s;
        let s2 = del_timer t s1;
        case le2timer le' of None \<Rightarrow> Some s2 | Some t' \<Rightarrow> expire_loop C t' le' s2
      }
      else Some s)"

definition run_timer_list ::
  "'a timed_kernel_scheme sched_class \<Rightarrow> 'a timed_kernel_scheme \<Rightarrow> 'a timed_kernel_scheme option"
where
  "run_timer_list C s =
     do {
       let le = list_next TimerList (timer_links s);
       s1 \<leftarrow> (case le2timer le of
          None \<Rightarrow> Some s
        | Some t \<Rightarrow> do {
            kassert (expires (timers s t) \<noteq> 0);
            expire_loop C t le (upd_timer t (\<lambda>d. d\<lparr>expires := expires d - 1\<rparr>) s)
          });
       Some (case current s1 of None \<Rightarrow> s1 | Some c \<Rightarrow> sched_class_proc_tick C c s1)
     }"

section \<open>The list as absolute deadlines\<close>

fun deadlines :: "(nat \<Rightarrow> timer_t) \<Rightarrow> nat \<Rightarrow> nat list \<Rightarrow> (nat \<times> nat) list" where
  "deadlines T acc [] = []"
| "deadlines T acc (t # ts) =
     (t, acc + unat (expires (T t))) # deadlines T (acc + unat (expires (T t))) ts"

definition span :: "(nat \<Rightarrow> timer_t) \<Rightarrow> nat list \<Rightarrow> nat" where
  "span T ts = sum_list (map (\<lambda>t. unat (expires (T t))) ts)"

definition timer_seq :: "'a timed_kernel_scheme \<Rightarrow> nat list \<Rightarrow> bool" where
  "timer_seq s ts \<longleftrightarrow>
     dlist (timer_links s) TimerList (map TimerLink ts) \<and> span (timers s) ts < 2 ^ 32"

definition timer_rep :: "'a timed_kernel_scheme \<Rightarrow> nat list \<Rightarrow> bool" where
  "timer_rep s ts \<longleftrightarrow>
     timer_seq s ts \<and> (case ts of [] \<Rightarrow> True | t # _ \<Rightarrow> expires (timers s t) \<noteq> 0)"

lemma map_fst_deadlines [simp]: "map fst (deadlines T a ts) = ts"
  by (induction ts arbitrary: a) auto

lemma deadlines_cong:
  "(\<And>t. t \<in> set ts \<Longrightarrow> expires (T' t) = expires (T t)) \<Longrightarrow> deadlines T' a ts = deadlines T a ts"
  by (induction ts arbitrary: a) auto

lemma span_cong:
  "(\<And>t. t \<in> set ts \<Longrightarrow> expires (T' t) = expires (T t)) \<Longrightarrow> span T' ts = span T ts"
  by (simp add: span_def cong: map_cong)

lemma span_simps [simp]: "span T [] = 0" "span T (t # ts) = unat (expires (T t)) + span T ts"
  "span T (xs @ ys) = span T xs + span T ys"
  by (simp_all add: span_def)

lemma timers_other:
  assumes "n \<notin> set ts" and "\<And>x. x \<noteq> n \<Longrightarrow> T' x = T x"
  shows "deadlines T' a ts = deadlines T a ts" and "span T' ts = span T ts"
proof -
  have "T' t = T t" if "t \<in> set ts" for t using assms that by (cases "t = n") auto
  then show "deadlines T' a ts = deadlines T a ts" and "span T' ts = span T ts"
    by (simp_all cong: deadlines_cong span_cong)
qed

lemma deadlines_append: "deadlines T a (xs @ ys) = deadlines T a xs @ deadlines T (a + span T xs) ys"
  by (induction xs arbitrary: a) (auto simp: ac_simps)

lemma deadlines_shift:
  "deadlines T (a + b) ts = map (\<lambda>(t, d). (t, d + b)) (deadlines T a ts)"
proof (induction ts arbitrary: a)
  case (Cons t ts)
  have "a + b + unat (expires (T t)) = (a + unat (expires (T t))) + b" by simp
  then show ?case by (simp only: deadlines.simps Cons list.map prod.case)
qed simp

lemma deadlines_ge: "(t, d) \<in> set (deadlines T a ts) \<Longrightarrow> a \<le> d"
  by (induction ts arbitrary: a) (auto, force)

lemma deadlines_sorted: "sorted (map snd (deadlines T a ts))"
  by (induction ts arbitrary: a) (auto dest: deadlines_ge)

text \<open>Where \<open>add_timer\<close> puts a deadline: behind all that are not later.\<close>

fun ins_deadline :: "nat \<times> nat \<Rightarrow> (nat \<times> nat) list \<Rightarrow> (nat \<times> nat) list" where
  "ins_deadline x [] = [x]"
| "ins_deadline x (y # ys) = (if snd x < snd y then x # y # ys else y # ins_deadline x ys)"

lemma unat_sub_le: "(y :: 32 word) \<le> x \<Longrightarrow> unat (x - y) = unat x - unat y"
  by (simp add: unat_sub)

section \<open>Inserting a timer\<close>

definition timers_upd :: "(nat \<Rightarrow> timer_t) \<Rightarrow> 'a timed_kernel_scheme \<Rightarrow> 'a timed_kernel_scheme" where
  "timers_upd T s = s\<lparr>timers := T\<rparr>"

lemma timers_upd_simps [simp]:
  "timers (timers_upd T s) = T" "timer_links (timers_upd T s) = timer_links s"
  "timers_upd T (timers_upd U s) = timers_upd T s"
  "upd_timer t f s = timers_upd ((timers s)(t := f (timers s t))) s"
  by (simp_all add: timers_upd_def upd_timer_def)

lemma timers_upd_same: "timers_upd (timers s) s = s"
  by (simp add: timers_upd_def)

lemma add_timer_loop_spec:
  assumes "dlist (timer_links s) TimerList (map TimerLink (xs @ ys))" "t \<notin> set (xs @ ys)"
    and "le = hd (map TimerLink ys @ [TimerList])"
  shows "\<exists>T us vs. add_timer_loop t le s =
             Some (hd (map TimerLink vs @ [TimerList]), timers_upd T s) \<and> ys = us @ vs \<and>
           deadlines T a (us @ t # vs) =
             ins_deadline (t, a + unat (expires (timers s t))) (deadlines (timers s) a ys) \<and>
           span T (us @ t # vs) \<le> max (span (timers s) ys) (unat (expires (timers s t))) \<and>
           (\<forall>x. x \<notin> insert t (set vs) \<longrightarrow> T x = timers s x) \<and> (us = [] \<longrightarrow> T t = timers s t) \<and>
           (\<forall>x. timer_proc (T x) = timer_proc (timers s x))"
  using assms
proof (induction ys arbitrary: xs s le a)
  case Nil
  have "add_timer_loop t le s = Some (TimerList, timers_upd (timers s) s)"
    using Nil.prems(3) by (simp add: add_timer_loop.simps timers_upd_same)
  then show ?case
    by (intro exI [of _ "timers s"] exI [of _ "[]"] exI [of _ "[]"]) simp
next
  case (Cons n ys)
  let ?T = "timers s"
  let ?e = "expires (?T t)" and ?en = "expires (?T n)"
  have le: "le = TimerLink n" using Cons.prems(3) by simp
  have tn: "t \<noteq> n" "t \<notin> set ys" using Cons.prems(2) by auto
  have "distinct (map TimerLink (xs @ n # ys))" using dlist_distinct(1) [OF Cons.prems(1)] .
  then have ny: "n \<notin> set ys" by auto
  show ?case
  proof (cases "?e < ?en")
    case True
    define T where "T = ?T(n := (?T n)\<lparr>expires := ?en - ?e\<rparr>)"
    have r: "add_timer_loop t le s = Some (hd (map TimerLink (n # ys) @ [TimerList]), timers_upd T s)"
      using True by (simp add: add_timer_loop.simps le T_def)
    have u: "unat (?en - ?e) = unat ?en - unat ?e" "unat ?e < unat ?en"
      using True unat_sub_le [OF less_imp_le [OF True]] by (simp_all add: word_less_nat_alt)
    have T: "expires (T n) = ?en - ?e" "\<And>x. x \<noteq> n \<Longrightarrow> T x = ?T x"
      "\<And>x. timer_proc (T x) = timer_proc (?T x)"
      by (simp_all add: T_def)
    have "deadlines T b ys = deadlines ?T b ys" "span T ys = span ?T ys" for b
      using timers_other [OF ny, of T ?T] T(2) by blast+
    then have "deadlines T a ([] @ t # n # ys) =
        ins_deadline (t, a + unat ?e) (deadlines ?T a (n # ys))"
      "span T ([] @ t # n # ys) \<le> max (span ?T (n # ys)) (unat ?e)"
      using T tn u by simp_all
    moreover have "\<forall>x. x \<notin> insert t (set (n # ys)) \<longrightarrow> T x = ?T x" "T t = ?T t"
      using T(2) tn by auto
    ultimately show ?thesis using r T(3) by blast
  next
    case False
    let ?T' = "?T(t := (?T t)\<lparr>expires := ?e - ?en\<rparr>)"
    let ?s = "timers_upd ?T' s"
    have u: "unat (?e - ?en) = unat ?e - unat ?en" "unat ?en \<le> unat ?e"
      using False by (simp_all add: unat_sub_le word_le_nat_alt not_less)
    have nx: "list_next le (timer_links s) = hd (map TimerLink ys @ [TimerList])"
      using dlist_next_prev(1) [of "timer_links s" TimerList "map TimerLink xs" le "map TimerLink ys"]
        Cons.prems(1) le by (simp add: list_next_def)
    have r: "add_timer_loop t le s =
        add_timer_loop t (hd (map TimerLink ys @ [TimerList])) ?s"
      using False nx by (subst add_timer_loop.simps) (simp add: le Let_def)
    have "dlist (timer_links ?s) TimerList (map TimerLink ((xs @ [n]) @ ys))"
      "t \<notin> set ((xs @ [n]) @ ys)"
      using Cons.prems by simp_all
    from Cons.IH [OF this refl, of "a + unat ?en"]
    obtain T us vs where ih0:
      "add_timer_loop t (hd (map TimerLink ys @ [TimerList])) ?s =
         Some (hd (map TimerLink vs @ [TimerList]), timers_upd T ?s)" "ys = us @ vs"
      "deadlines T (a + unat ?en) (us @ t # vs) =
         ins_deadline (t, a + unat ?en + unat (expires (timers ?s t)))
           (deadlines (timers ?s) (a + unat ?en) ys)"
      "span T (us @ t # vs) \<le> max (span (timers ?s) ys) (unat (expires (timers ?s t)))"
      "\<forall>x. x \<notin> insert t (set vs) \<longrightarrow> T x = timers ?s x"
      "\<forall>x. timer_proc (T x) = timer_proc (timers ?s x)"
      by blast
    have te: "expires (timers ?s t) = ?e - ?en" by simp
    note ih = ih0 [unfolded te, unfolded timers_upd_simps]
    have "deadlines ?T' (a + unat ?en) ys = deadlines ?T (a + unat ?en) ys" "span ?T' ys = span ?T ys"
      using tn by (auto intro!: deadlines_cong span_cong)
    moreover have "T n = ?T n" using ih(2,5) ny tn by auto
    moreover have "\<forall>x. x \<notin> insert t (set vs) \<longrightarrow> T x = ?T x" using ih(5) by auto
    moreover have "\<forall>x. timer_proc (T x) = timer_proc (?T x)" using ih(6) by auto
    ultimately have "deadlines T a ((n # us) @ t # vs) =
        ins_deadline (t, a + unat ?e) (deadlines ?T a (n # ys))"
      "span T ((n # us) @ t # vs) \<le> max (span ?T (n # ys)) (unat ?e)" "n # ys = (n # us) @ vs"
      "\<forall>x. x \<notin> insert t (set vs) \<longrightarrow> T x = ?T x" "\<forall>x. timer_proc (T x) = timer_proc (?T x)"
      using ih(2-4) u by (simp_all add: le_max_iff_disj) linarith
    then show ?thesis using r ih(1) by (metis list.distinct(1) timers_upd_simps(3))
  qed
qed

lemma add_timer_spec:
  assumes rep: "timer_rep s ts" and t: "list_empty (TimerLink t) (timer_links s)"
    and e: "expires (timers s t) > 0" "timer_proc (timers s t) \<noteq> None"
  obtains s' ts' where "add_timer t s = Some s'" "timer_rep s' ts'"
    "deadlines (timers s') 0 ts' =
       ins_deadline (t, unat (expires (timers s t))) (deadlines (timers s) 0 ts)"
    "set ts' = insert t (set ts)" "\<forall>x. timer_proc (timers s' x) = timer_proc (timers s x)"
    "kernel.truncate s' = kernel.truncate s"
proof -
  have d: "dlist (timer_links s) TimerList (map TimerLink ts)" and sp: "span (timers s) ts < 2 ^ 32"
    using rep by (simp_all add: timer_rep_def timer_seq_def)
  have nt: "t \<notin> set ts" using dlist_self_not_in [OF d t] by auto
  have le: "list_next TimerList (timer_links s) = hd (map TimerLink ts @ [TimerList])"
    using dlist_next_head(1) [OF d] by (simp add: list_next_def)
  obtain T us vs where l: "add_timer_loop t (list_next TimerList (timer_links s)) s =
      Some (hd (map TimerLink vs @ [TimerList]), timers_upd T s)" "ts = us @ vs"
    "deadlines T 0 (us @ t # vs) =
      ins_deadline (t, unat (expires (timers s t))) (deadlines (timers s) 0 ts)"
    "span T (us @ t # vs) \<le> max (span (timers s) ts) (unat (expires (timers s t)))"
    "\<forall>x. x \<notin> insert t (set vs) \<longrightarrow> T x = timers s x" "us = [] \<longrightarrow> T t = timers s t"
    "\<forall>x. timer_proc (T x) = timer_proc (timers s x)"
    using add_timer_loop_spec [of s "[]" ts t _ 0, unfolded append_Nil, OF d nt le]
    unfolding add_0_left by blast
  let ?s = "upd_timer_links (list_add_before (hd (map TimerLink vs @ [TimerList])) (TimerLink t))
    (timers_upd T s)"
  have "dlist (timer_links ?s) TimerList (map TimerLink us @ TimerLink t # map TimerLink vs)"
    using dlist_add_before [of "timer_links s" TimerList "map TimerLink us" "map TimerLink vs"]
      d nt l(2) by auto
  moreover have "span T (us @ t # vs) < 2 ^ 32"
    using l(4) sp unat_u32_less [of "expires (timers s t)"] by simp
  moreover have "expires (T (hd (us @ t # vs))) \<noteq> 0"
  proof (cases us)
    case Nil
    then show ?thesis using l(6) e(1) by simp
  next
    case (Cons u us')
    have "distinct ts" using dlist_distinct(1) [OF d] by (simp add: distinct_map)
    then have "T u = timers s u" using l(2,5) nt Cons by auto
    then show ?thesis using rep Cons l(2) by (simp add: timer_rep_def)
  qed
  ultimately have "timer_rep ?s (us @ t # vs)"
    by (cases us) (simp_all add: timer_rep_def timer_seq_def)
  moreover have "add_timer t s = Some ?s" using e t l(1) by (simp add: add_timer_def)
  moreover have "kernel.truncate ?s = kernel.truncate s"
    by (simp add: kernel.defs timers_upd_def upd_timer_links_def)
  ultimately show ?thesis using that l(2,3,7) by simp
qed

section \<open>Removing a timer\<close>

lemma del_timer_spec:
  assumes rep: "timer_seq s (us @ t # vs)"
  obtains T where "del_timer t s = upd_timer_links (list_del_init (TimerLink t)) (timers_upd T s)"
    "timer_seq (del_timer t s) (us @ vs)"
    "\<forall>x. x \<notin> set vs \<longrightarrow> T x = timers s x" "\<forall>x. timer_proc (T x) = timer_proc (timers s x)"
    "deadlines T 0 (us @ vs) = filter (\<lambda>x. fst x \<noteq> t) (deadlines (timers s) 0 (us @ t # vs))"
    "expires (timers s t) = 0 \<Longrightarrow> T = timers s"
    "us = [] \<Longrightarrow> expires (timers s t) \<noteq> 0 \<Longrightarrow> vs \<noteq> [] \<Longrightarrow> expires (T (hd vs)) \<noteq> 0"
proof -
  let ?T = "timers s"
  let ?e = "expires (?T t)"
  have d: "dlist (timer_links s) TimerList (map TimerLink us @ TimerLink t # map TimerLink vs)"
    and sp: "span ?T (us @ t # vs) < 2 ^ 32"
    using rep by (simp_all add: timer_seq_def)
  have dist: "distinct (us @ t # vs)" using dlist_distinct(1) [OF d] by (auto simp: distinct_map)
  have ne: "\<not> list_empty (TimerLink t) (timer_links s)"
    using dlist_self_not_in [OF d, of "TimerLink t"] by auto
  have nx: "list_next (TimerLink t) (timer_links s) = hd (map TimerLink vs @ [TimerList])"
    using dlist_next_prev(1) [OF d] by (simp add: list_next_def)
  define T where "T = (if ?e \<noteq> 0 then (case vs of [] \<Rightarrow> ?T
      | v # _ \<Rightarrow> ?T(v := (?T v)\<lparr>expires := expires (?T v) + ?e\<rparr>)) else ?T)"
  have del: "del_timer t s = upd_timer_links (list_del_init (TimerLink t)) (timers_upd T s)"
    using ne nx by (cases vs) (simp_all add: del_timer_def T_def timers_upd_same)
  have T: "x \<notin> set vs \<Longrightarrow> T x = ?T x" "timer_proc (T x) = timer_proc (?T x)" for x
    by (cases vs; simp add: T_def)+
  have vs: "deadlines T a vs = deadlines ?T (a + unat ?e) vs" "span T vs \<le> unat ?e + span ?T vs"
    "?e \<noteq> 0 \<Longrightarrow> vs \<noteq> [] \<Longrightarrow> expires (T (hd vs)) \<noteq> 0" for a
  proof -
    have "deadlines T a vs = deadlines ?T (a + unat ?e) vs \<and> span T vs \<le> unat ?e + span ?T vs \<and>
      (?e \<noteq> 0 \<longrightarrow> vs \<noteq> [] \<longrightarrow> expires (T (hd vs)) \<noteq> 0)"
    proof (cases "?e = 0 \<or> vs = []")
      case True
      then show ?thesis by (auto simp: T_def)
    next
      case False
      then obtain v vs' where v: "vs = v # vs'" by (cases vs) auto
      have Tv: "expires (T v) = expires (?T v) + ?e" "\<And>x. x \<noteq> v \<Longrightarrow> T x = ?T x"
        using v False by (simp_all add: T_def)
      have "unat (expires (T v)) = unat (expires (?T v)) + unat ?e"
        using Tv(1) sp v by (simp add: unat_add_u32)
      moreover have "deadlines T b vs' = deadlines ?T b vs'" "span T vs' = span ?T vs'" for b
        using timers_other [of v vs' T ?T] dist v Tv(2) by auto
      moreover have "unat ?e \<noteq> 0" using False by (simp add: unat_eq_0)
      moreover have "expires (T v) \<noteq> 0" using calculation(1,4) by (metis add_is_0 unat_0)
      ultimately show ?thesis by (simp add: v ac_simps)
    qed
    then show "deadlines T a vs = deadlines ?T (a + unat ?e) vs"
      "span T vs \<le> unat ?e + span ?T vs"
      "?e \<noteq> 0 \<Longrightarrow> vs \<noteq> [] \<Longrightarrow> expires (T (hd vs)) \<noteq> 0" by auto
  qed
  have us: "deadlines T 0 us = deadlines ?T 0 us" "span T us = span ?T us"
    using dist T(1) by (auto intro!: deadlines_cong span_cong arg_cong [where f = expires])
  have keep: "filter (\<lambda>x. fst x \<noteq> t) (deadlines ?T b xs) = deadlines ?T b xs" if "t \<notin> set xs" for b xs
    using that by (induction xs arbitrary: b) auto
  have "deadlines T 0 (us @ vs) = filter (\<lambda>x. fst x \<noteq> t) (deadlines ?T 0 (us @ t # vs))"
    using dist us vs(1) by (simp add: deadlines_append keep)
  moreover have "timer_seq (del_timer t s) (us @ vs)"
    using dlist_del_init [OF d] us vs(2) sp by (simp add: timer_seq_def del)
  moreover have "?e = 0 \<Longrightarrow> T = ?T" by (simp add: T_def)
  ultimately show ?thesis using that [of T] del T vs(3) by blast
qed

section \<open>The tick\<close>

lemma deadlines_pos: "d \<in> snd ` set (deadlines T a ts) \<Longrightarrow> a \<le> d"
  using deadlines_ge by force

lemma deadlines_dropWhile:
  "deadlines T 0 (dropWhile (\<lambda>t. expires (T t) = 0) ts) =
     filter (\<lambda>x. snd x \<noteq> 0) (deadlines T 0 ts)"
proof (induction ts)
  case (Cons t ts)
  show ?case
  proof (cases "expires (T t) = 0")
    case False
    then have "0 < unat (expires (T t))" by (simp add: unat_gt_0)
    then have "\<forall>x \<in> set (deadlines T (unat (expires (T t))) ts). snd x \<noteq> 0"
      using deadlines_ge by fastforce
    then show ?thesis using False by (simp add: unat_eq_0 filter_True)
  qed (simp add: Cons)
qed simp

lemma takeWhile_deadlines:
  "takeWhile (\<lambda>t. expires (T t) = 0) ts = map fst (filter (\<lambda>x. snd x = 0) (deadlines T 0 ts))"
proof (induction ts)
  case (Cons t ts)
  show ?case
  proof (cases "expires (T t) = 0")
    case False
    then have "0 < unat (expires (T t))" by (simp add: unat_gt_0)
    then have "\<forall>x \<in> set (deadlines T (unat (expires (T t))) ts). snd x \<noteq> 0"
      using deadlines_ge by fastforce
    then have "filter (\<lambda>x. snd x = 0) (deadlines T (unat (expires (T t))) ts) = []"
      by (simp add: filter_empty_conv)
    then show ?thesis using False by (simp add: unat_eq_0)
  qed (simp add: Cons)
qed simp

text \<open>One tick brings every deadline of a well-formed list one closer.\<close>

lemma deadlines_tick:
  assumes "expires (T t) \<noteq> 0" "t \<notin> set ts"
  shows "deadlines (T(t := (T t)\<lparr>expires := expires (T t) - 1\<rparr>)) 0 (t # ts) =
      map (\<lambda>(x, d). (x, d - 1)) (deadlines T 0 (t # ts))"
proof -
  let ?T = "T(t := (T t)\<lparr>expires := expires (T t) - 1\<rparr>)" and ?e = "expires (T t)"
  have e: "unat ?e \<noteq> 0" using assms(1) by (simp add: unat_eq_0)
  have "unat (?e - 1) = unat ?e - 1" using unat_sub_u32 [of 1 ?e] e by simp
  moreover have "deadlines ?T b ts = deadlines T b ts" for b
    using assms(2) by (intro deadlines_cong) auto
  moreover have "deadlines T (unat ?e - 1) ts =
      map (\<lambda>(x, d). (x, d - 1)) (deadlines T (unat ?e - 1 + 1) ts)"
    unfolding deadlines_shift by (simp add: comp_def case_prod_beta)
  ultimately show ?thesis using e by simp
qed

text \<open>Every timer of the list has a live process that may be woken.\<close>

definition wakeable :: "'a timed_kernel_scheme \<Rightarrow> proc_ptr set \<Rightarrow> nat \<Rightarrow> bool" where
  "wakeable s P t \<longleftrightarrow>
     (case timer_proc (timers s t) of None \<Rightarrow> False
      | Some p \<Rightarrow> p \<in> P \<and> state (procs s p) \<noteq> PROC_ZOMBIE \<and>
          (wait_state (procs s p) = 0 \<or> and (wait_state (procs s p)) WT_INTERRUPTED \<noteq> 0))"

definition woken :: "'a timed_kernel_scheme \<Rightarrow> nat list \<Rightarrow> proc_ptr set" where
  "woken s ts = {p. \<exists>t \<in> set ts. timer_proc (timers s t) = Some p}"

lemma timed_more:
  fixes s s' :: "'a timed_kernel_scheme"
  assumes "sched.more s' = sched.more s"
  shows "timers s' = timers s" "timer_links s' = timer_links s"
  using assms by (cases s; cases s'; simp)+

lemma wakeable_cong:
  assumes "timer_proc (timers s' x) = timer_proc (timers s x)" "procs s' = procs s"
  shows "wakeable s' P x = wakeable s P x"
  using assms by (cases "timer_proc (timers s x)") (simp_all add: wakeable_def)

locale timed_core = sched_core C rq_ok queue ready
  for C :: "'c timed_kernel_scheme sched_class"
    and rq_ok :: "'c timed_kernel_scheme \<Rightarrow> bool"
    and queue :: "'c timed_kernel_scheme \<Rightarrow> proc_ptr set"
    and ready :: "proc_ptr \<Rightarrow> 'c timed_kernel_scheme \<Rightarrow> bool"
begin

lemma sched_ok_timers:
  assumes ok: "sched_ok rq_ok queue ready P c i s"
  shows "sched_ok rq_ok queue ready P c i (timers_upd T s)"
    and "sched_ok rq_ok queue ready P c i (upd_timer_links g s)"
proof -
  have r: "rq_ok s" using ok by (simp add: sched_ok_def)
  have "same_queue s (timers_upd T s)" "same_queue s (upd_timer_links g s)"
    by (simp_all add: same_queue_def timers_upd_def upd_timer_links_def)
  note f = frame [OF r this(1)] frame [OF r this(2)]
  show "sched_ok rq_ok queue ready P c i (timers_upd T s)"
    using ok f(1) by (simp add: sched_ok_def) (simp add: timers_upd_def)
  show "sched_ok rq_ok queue ready P c i (upd_timer_links g s)"
    using ok f(2) by (simp add: sched_ok_def) (simp add: upd_timer_links_def)
qed

lemma expire_step:
  assumes ok: "sched_ok rq_ok queue ready P c i s" and ts: "timer_seq s (t # ts)"
    and w: "\<forall>x \<in> set (t # ts). wakeable s P x" and e: "expires (timers s t) = 0"
  obtains p s1 where "timer_proc (timers s t) = Some p" "wakeup_proc C p s = Some s1"
    "sched_ok rq_ok queue ready P c i (del_timer t s1)" "timer_seq (del_timer t s1) ts"
    "timers (del_timer t s1) = timers s" "\<forall>x \<in> set ts. wakeable (del_timer t s1) P x"
    "state (procs (del_timer t s1) p) = PROC_RUNNABLE"
    "\<forall>q. q \<noteq> p \<longrightarrow> state (procs (del_timer t s1) q) = state (procs s q)"
    "(if wait_state (procs s p) \<noteq> 0
      then kassert (and (wait_state (procs s p)) WT_INTERRUPTED \<noteq> 0) else Some ()) = Some ()"
proof -
  obtain p where p: "timer_proc (timers s t) = Some p" "p \<in> P" "state (procs s p) \<noteq> PROC_ZOMBIE"
    "wait_state (procs s p) = 0 \<or> and (wait_state (procs s p)) WT_INTERRUPTED \<noteq> 0"
    using w by (auto simp: wakeable_def split: option.splits)
  obtain s1 where s1: "wakeup_proc C p s = Some s1" "sched_ok rq_ok queue ready P c i s1"
    "state (procs s1 p) = PROC_RUNNABLE" "\<forall>q. q \<noteq> p \<longrightarrow> state (procs s1 q) = state (procs s q)"
    "state (procs s p) \<noteq> PROC_RUNNABLE \<Longrightarrow> wait_state (procs s1 p) = 0"
    "state (procs s p) = PROC_RUNNABLE \<Longrightarrow> s1 = s"
    "\<forall>q. q \<noteq> p \<longrightarrow> wait_state (procs s1 q) = wait_state (procs s q)"
    "sched.more s1 = sched.more s"
    using wakeup_spec [OF ok p(2,3)] by metis
  have tm: "timers s1 = timers s" "timer_links s1 = timer_links s"
    using timed_more s1(8) by blast+
  have "timer_seq s1 ([] @ t # ts)" using ts tm by (simp add: timer_seq_def)
  then obtain T where d: "del_timer t s1 = upd_timer_links (list_del_init (TimerLink t)) (timers_upd T s1)"
    "timer_seq (del_timer t s1) ts" "expires (timers s1 t) = 0 \<Longrightarrow> T = timers s1"
    by (rule del_timer_spec) auto
  have T: "T = timers s" using d(3) e tm by simp
  have pr: "procs (del_timer t s1) = procs s1"
    unfolding d(1) by (simp add: timers_upd_def upd_timer_links_def)
  have tms: "timers (del_timer t s1) = timers s" using d(1) T by simp
  have wk: "wakeable s1 P x" if x: "x \<in> set ts" for x
  proof -
    obtain q where q: "timer_proc (timers s x) = Some q" "q \<in> P" "state (procs s q) \<noteq> PROC_ZOMBIE"
      "wait_state (procs s q) = 0 \<or> and (wait_state (procs s q)) WT_INTERRUPTED \<noteq> 0"
      using w x by (auto simp: wakeable_def split: option.splits)
    show ?thesis
    proof (cases "q = p")
      case True
      then show ?thesis
        using q s1(3,5,6) tm by (cases "state (procs s p) = PROC_RUNNABLE") (simp_all add: wakeable_def)
    next
      case False
      then have "state (procs s1 q) = state (procs s q)"
        "wait_state (procs s1 q) = wait_state (procs s q)" using s1(4,7) by auto
      then show ?thesis using q tm by (simp add: wakeable_def)
    qed
  qed
  have "wakeable (del_timer t s1) P x = wakeable s1 P x" for x
    using pr tms tm by (intro wakeable_cong) simp_all
  then have "\<forall>x \<in> set ts. wakeable (del_timer t s1) P x" using wk by simp
  moreover have "sched_ok rq_ok queue ready P c i (del_timer t s1)"
    unfolding d(1) by (intro sched_ok_timers s1(2))
  ultimately show ?thesis
    using that [OF p(1) s1(1)] d(2) tms pr s1(3,4) p(4) by auto
qed

lemma expire_loop_spec:
  assumes "sched_ok rq_ok queue ready P c i s" "timer_seq s (t # ts)"
    and "\<forall>x \<in> set (t # ts). wakeable s P x"
  shows "\<exists>s'. expire_loop C t (TimerLink t) s = Some s' \<and>
           sched_ok rq_ok queue ready P c i s' \<and> timers s' = timers s \<and>
           timer_seq s' (dropWhile (\<lambda>x. expires (timers s x) = 0) (t # ts)) \<and>
           (\<forall>p. state (procs s' p) =
              (if p \<in> woken s (takeWhile (\<lambda>x. expires (timers s x) = 0) (t # ts))
               then PROC_RUNNABLE else state (procs s p)))"
  using assms
proof (induction ts arbitrary: t s)
  case Nil
  show ?case
  proof (cases "expires (timers s t) = 0")
    case True
    obtain p s1 where st: "timer_proc (timers s t) = Some p" "wakeup_proc C p s = Some s1"
      "sched_ok rq_ok queue ready P c i (del_timer t s1)" "timer_seq (del_timer t s1) []"
      "timers (del_timer t s1) = timers s" "state (procs (del_timer t s1) p) = PROC_RUNNABLE"
      "\<forall>q. q \<noteq> p \<longrightarrow> state (procs (del_timer t s1) q) = state (procs s q)"
      "(if wait_state (procs s p) \<noteq> 0
        then kassert (and (wait_state (procs s p)) WT_INTERRUPTED \<noteq> 0) else Some ()) = Some ()"
      using expire_step [OF Nil True] by metis
    have "list_next (TimerLink t) (timer_links s) = TimerList"
      using dlist_next_prev(1) [of "timer_links s" TimerList "[]" "TimerLink t" "[]"] Nil(2)
      by (simp add: timer_seq_def list_next_def)
    then have "expire_loop C t (TimerLink t) s = Some (del_timer t s1)"
      using st(1,2,8) True by (simp add: expire_loop.simps)
    then show ?thesis using st True by (auto simp: woken_def)
  next
    case False
    then show ?thesis using Nil by (auto simp: expire_loop.simps woken_def)
  qed
next
  case (Cons u us)
  show ?case
  proof (cases "expires (timers s t) = 0")
    case True
    obtain p s1 where st: "timer_proc (timers s t) = Some p" "wakeup_proc C p s = Some s1"
      "sched_ok rq_ok queue ready P c i (del_timer t s1)" "timer_seq (del_timer t s1) (u # us)"
      "timers (del_timer t s1) = timers s" "\<forall>x \<in> set (u # us). wakeable (del_timer t s1) P x"
      "state (procs (del_timer t s1) p) = PROC_RUNNABLE"
      "\<forall>q. q \<noteq> p \<longrightarrow> state (procs (del_timer t s1) q) = state (procs s q)"
      "(if wait_state (procs s p) \<noteq> 0
        then kassert (and (wait_state (procs s p)) WT_INTERRUPTED \<noteq> 0) else Some ()) = Some ()"
      using expire_step [OF Cons.prems True] by metis
    let ?s = "del_timer t s1"
    have "list_next (TimerLink t) (timer_links s) = TimerLink u"
      using dlist_next_prev(1) [of "timer_links s" TimerList "[]" "TimerLink t"
          "map TimerLink (u # us)"] Cons.prems(2)
      by (simp add: timer_seq_def list_next_def)
    then have r: "expire_loop C t (TimerLink t) s = expire_loop C u (TimerLink u) ?s"
      using st(1,2,9) True by (subst expire_loop.simps) simp
    obtain s' where s': "expire_loop C u (TimerLink u) ?s = Some s'"
      "sched_ok rq_ok queue ready P c i s'" "timers s' = timers ?s"
      "timer_seq s' (dropWhile (\<lambda>x. expires (timers ?s x) = 0) (u # us))"
      "\<forall>p. state (procs s' p) =
         (if p \<in> woken ?s (takeWhile (\<lambda>x. expires (timers ?s x) = 0) (u # us))
          then PROC_RUNNABLE else state (procs ?s p))"
      using Cons.IH [OF st(3,4,6)] by blast
    define us0 where "us0 = takeWhile (\<lambda>x. expires (timers s x) = 0) (u # us)"
    have tw: "takeWhile (\<lambda>x. expires (timers s x) = 0) (t # u # us) = t # us0"
      using True by (simp add: us0_def)
    have wk: "woken ?s us0 = woken s us0" "woken s (t # us0) = insert p (woken s us0)"
      using st(1,5) by (auto simp: woken_def)
    have "state (procs s' q) = (if q \<in> woken s (t # us0) then PROC_RUNNABLE else state (procs s q))"
      for q
      using spec [OF s'(5), of q] st(7,8) wk unfolding st(5) us0_def [symmetric] by auto
    moreover have "dropWhile (\<lambda>x. expires (timers s x) = 0) (t # u # us) =
        dropWhile (\<lambda>x. expires (timers s x) = 0) (u # us)" using True by simp
    ultimately show ?thesis
      using r s'(1-4) unfolding st(5) tw by auto
  next
    case False
    then show ?thesis using Cons.prems by (auto simp: expire_loop.simps woken_def)
  qed
qed

text \<open>The whole tick: deadlines come one closer, the due ones are removed and served.\<close>

lemma run_timer_list_spec:
  assumes ok: "sched_ok rq_ok queue ready P c i s" and rep: "timer_rep s ts"
    and w: "\<forall>x \<in> set ts. wakeable s P x"
  shows "\<exists>s' ts'. run_timer_list C s = Some s' \<and> sched_ok rq_ok queue ready P c i s' \<and>
           timer_rep s' ts' \<and>
           deadlines (timers s') 0 ts' =
             map (\<lambda>(x, d). (x, d - 1)) (filter (\<lambda>x. 1 < snd x) (deadlines (timers s) 0 ts)) \<and>
           (\<forall>p. state (procs s' p) =
              (if p \<in> woken s (map fst (filter (\<lambda>x. snd x \<le> 1) (deadlines (timers s) 0 ts)))
               then PROC_RUNNABLE else state (procs s p)))"
proof (cases ts)
  case Nil
  have "current s = Some c" using ok by (simp add: sched_ok_def)
  moreover have "list_next TimerList (timer_links s) = TimerList"
    using rep Nil dlist_next_head(1) [of "timer_links s" TimerList "[]"]
    by (simp add: timer_rep_def timer_seq_def list_next_def)
  ultimately have "run_timer_list C s = Some (sched_class_proc_tick C c s)"
    by (simp add: run_timer_list_def)
  moreover have "timer_rep (sched_class_proc_tick C c s) ts"
    using rep Nil timed_more [OF tick_spec(3) [OF ok]] by (simp add: timer_rep_def timer_seq_def)
  ultimately show ?thesis using tick_spec(1,2) [OF ok] Nil by (auto simp: woken_def)
next
  case (Cons t us)
  let ?T = "(timers s)(t := (timers s t)\<lparr>expires := expires (timers s t) - 1\<rparr>)"
  let ?s = "timers_upd ?T s"
  have e: "expires (timers s t) \<noteq> 0" using rep Cons by (simp add: timer_rep_def)
  have d: "dlist (timer_links s) TimerList (map TimerLink ts)" "span (timers s) ts < 2 ^ 32"
    using rep by (simp_all add: timer_rep_def timer_seq_def)
  have tn: "t \<notin> set us" using dlist_distinct(1) [OF d(1)] Cons by (auto simp: distinct_map)
  have le: "list_next TimerList (timer_links s) = TimerLink t"
    using dlist_next_head(1) [OF d(1)] Cons by (simp add: list_next_def)
  have pr: "procs ?s = procs s" by (simp add: timers_upd_def)
  have tp: "timer_proc (?T x) = timer_proc (timers s x)" for x by simp
  have "unat (expires (timers s t) - 1) \<le> unat (expires (timers s t))"
    using unat_sub_u32 [of 1 "expires (timers s t)"] e by (simp add: unat_eq_0 Suc_le_eq unat_gt_0)
  moreover have "span ?T us = span (timers s) us" using tn by (intro timers_other(2)) auto
  ultimately have seq: "timer_seq ?s (t # us)" using d Cons by (simp add: timer_seq_def)
  have "wakeable ?s P x = wakeable s P x" for x
    using pr tp by (intro wakeable_cong) simp_all
  then have w': "\<forall>x \<in> set (t # us). wakeable ?s P x" using w Cons by simp
  obtain s1 where s1: "expire_loop C t (TimerLink t) ?s = Some s1"
    "sched_ok rq_ok queue ready P c i s1" "timers s1 = timers ?s"
    "timer_seq s1 (dropWhile (\<lambda>x. expires (timers ?s x) = 0) (t # us))"
    "\<forall>p. state (procs s1 p) =
       (if p \<in> woken ?s (takeWhile (\<lambda>x. expires (timers ?s x) = 0) (t # us))
        then PROC_RUNNABLE else state (procs ?s p))"
    using expire_loop_spec [OF sched_ok_timers(1) [OF ok] seq w'] by blast
  let ?s2 = "sched_class_proc_tick C c s1"
  define ts' where "ts' = dropWhile (\<lambda>x. expires (?T x) = 0) ts"
  have T1: "timers s1 = ?T" using s1(3) by simp
  have cur: "current s1 = Some c" using s1(2) by (simp add: sched_ok_def)
  have run: "run_timer_list C s = Some ?s2"
    using le e s1(1) cur by (simp add: run_timer_list_def)
  note tk = tick_spec [OF s1(2)]
  have tm: "timers ?s2 = ?T" "timer_links ?s2 = timer_links s1" using timed_more [OF tk(3)] T1 by auto
  have "timer_seq ?s2 ts'" using s1(4) Cons tm T1 by (simp add: timer_seq_def ts'_def)
  moreover have "ts' \<noteq> [] \<Longrightarrow> expires (?T (hd ts')) \<noteq> 0"
    unfolding ts'_def using hd_dropWhile [of "\<lambda>x. expires (?T x) = 0" ts] by simp
  ultimately have rep2: "timer_rep ?s2 ts'" by (cases ts') (simp_all add: timer_rep_def tm del: fun_upd_apply)
  let ?D = "deadlines (timers s) 0 ts"
  have D: "deadlines ?T 0 ts = map (\<lambda>(x, d). (x, d - 1)) ?D"
    using deadlines_tick [of "timers s" t us, OF e tn] Cons by (simp del: fun_upd_apply deadlines.simps)
  have D': "deadlines ?T 0 ts' = map (\<lambda>(x, d). (x, d - 1)) (filter (\<lambda>x. 1 < snd x) ?D)"
  proof -
    have "((\<lambda>x. snd x \<noteq> 0) \<circ> (\<lambda>(x, d). (x, d - 1))) = (\<lambda>x :: nat \<times> nat. 1 < snd x)"
      by (rule ext) auto
    then show ?thesis unfolding ts'_def deadlines_dropWhile D filter_map by simp
  qed
  have tw: "takeWhile (\<lambda>x. expires (?T x) = 0) ts = map fst (filter (\<lambda>x. snd x \<le> 1) ?D)"
  proof -
    have "takeWhile (\<lambda>x. expires (?T x) = 0) ts = map fst (filter (\<lambda>x. snd x = 0) (deadlines ?T 0 ts))"
      by (rule takeWhile_deadlines)
    also have "filter (\<lambda>x. snd x = 0) (deadlines ?T 0 ts) =
        map (\<lambda>(x, d). (x, d - 1)) (filter (\<lambda>x. snd x \<le> 1) ?D)"
    proof -
      have "((\<lambda>x. snd x = 0) \<circ> (\<lambda>(x, d). (x, d - 1))) = (\<lambda>x :: nat \<times> nat. snd x \<le> 1)"
        by (rule ext) auto
      then show ?thesis unfolding D filter_map by simp
    qed
    finally show ?thesis by (simp add: comp_def case_prod_beta)
  qed
  have "woken ?s xs = woken s xs" for xs using tp by (simp add: woken_def del: fun_upd_apply)
  then have "state (procs ?s2 p) = (if p \<in> woken s (map fst (filter (\<lambda>x. snd x \<le> 1) ?D))
      then PROC_RUNNABLE else state (procs s p))" for p
    using tk(2) [of p] spec [OF s1(5), of p] tw Cons pr by simp
  then show ?thesis using run tk(1) rep2 D' tm(1) by metis
qed

end

interpretation rrt: timed_core default_sched_class rr_ok rr_queue rr_ready
  by unfold_locales

interpretation stride_t: timed_core stride_sched_class stride_ok stride_queue stride_ready
  by unfold_locales

section \<open>Guarantees of the timer list\<close>

text \<open>
  \<open>add_timer\<close> inserts the timer at its own deadline, after all deadlines that are not
  later, and moves no other deadline; the list stays well-formed.
\<close>

theorem add_timer_deadline:
  assumes "timer_rep s ts" "list_empty (TimerLink t) (timer_links s)"
    and "expires (timers s t) > 0" "timer_proc (timers s t) \<noteq> None"
  shows "\<exists>s' ts'. add_timer t s = Some s' \<and> timer_rep s' ts' \<and>
           deadlines (timers s') 0 ts' =
             ins_deadline (t, unat (expires (timers s t))) (deadlines (timers s) 0 ts) \<and>
           (\<forall>x. timer_proc (timers s' x) = timer_proc (timers s x))"
  using add_timer_spec [OF assms] by metis

text \<open>
  \<open>del_timer\<close> removes the timer from the list and leaves every other deadline as it was.
\<close>

theorem del_timer_keeps_deadlines:
  assumes "timer_rep s (us @ t # vs)"
  shows "timer_seq (del_timer t s) (us @ vs) \<and>
         deadlines (timers (del_timer t s)) 0 (us @ vs) =
           filter (\<lambda>x. fst x \<noteq> t) (deadlines (timers s) 0 (us @ t # vs)) \<and>
         list_empty (TimerLink t) (timer_links (del_timer t s))"
proof -
  have "timer_seq s (us @ t # vs)" using assms by (simp add: timer_rep_def)
  then obtain T where "del_timer t s = upd_timer_links (list_del_init (TimerLink t)) (timers_upd T s)"
    "timer_seq (del_timer t s) (us @ vs)"
    "deadlines T 0 (us @ vs) = filter (\<lambda>x. fst x \<noteq> t) (deadlines (timers s) 0 (us @ t # vs))"
    by (rule del_timer_spec)
  then show ?thesis by simp
qed

text \<open>
  One timer tick brings every deadline one tick closer, removes exactly the timers that
  are due, makes their processes (and no others) runnable, and keeps the scheduling invariant.
\<close>

theorem run_timer_list_expires:
  assumes "sched_ok rr_ok rr_queue rr_ready P c i s" "timer_rep s ts"
    and "\<forall>x \<in> set ts. wakeable s P x"
  shows "\<exists>s' ts'. run_timer_list default_sched_class s = Some s' \<and>
           sched_ok rr_ok rr_queue rr_ready P c i s' \<and> timer_rep s' ts' \<and>
           deadlines (timers s') 0 ts' =
             map (\<lambda>(x, d). (x, d - 1)) (filter (\<lambda>x. 1 < snd x) (deadlines (timers s) 0 ts)) \<and>
           (\<forall>p. state (procs s' p) =
              (if p \<in> woken s (map fst (filter (\<lambda>x. snd x \<le> 1) (deadlines (timers s) 0 ts)))
               then PROC_RUNNABLE else state (procs s p)))"
  using assms by (rule rrt.run_timer_list_spec)

section \<open>Witnesses\<close>

text \<open>Process 3 sleeps until the next tick (timer 7), process 1 has a timer two ticks later.\<close>

definition example_timed :: timed_kernel where
  "example_timed =
     \<lparr>procs = (\<lambda>_. example_proc)(3 := example_proc\<lparr>state := PROC_SLEEPING, wait_state := WT_TIMER\<rparr>),
      run_links = \<lparr>next_of = id(RunList := RunLink 1, RunLink 1 := RunLink 2, RunLink 2 := RunList),
                   prev_of = id(RunList := RunLink 2, RunLink 2 := RunLink 1, RunLink 1 := RunList)\<rparr>,
      pool = \<lparr>parent_of = (\<lambda>_. None), left_of = (\<lambda>_. None), right_of = (\<lambda>_. None)\<rparr>,
      proc_num = 2, max_time_slice = 5, lab6_run_pool = None,
      current = Some 0, idleproc = Some 0, initproc = Some 1, satp = 0,
      timers = (\<lambda>_. \<lparr>expires = 2, timer_proc = Some 1\<rparr>)(7 := \<lparr>expires = 1, timer_proc = Some 3\<rparr>),
      timer_links =
        \<lparr>next_of = id(TimerList := TimerLink 7, TimerLink 7 := TimerLink 8, TimerLink 8 := TimerList),
         prev_of = id(TimerList := TimerLink 8, TimerLink 8 := TimerLink 7, TimerLink 7 := TimerList)\<rparr>\<rparr>"

lemma example_timed_rr: "rr_rep example_timed [1, 2]"
  by (simp add: rr_rep_def example_timed_def dlist_def example_proc_def)

lemma example_timed_ok: "sched_ok rr_ok rr_queue rr_ready {1, 2, 3} 0 0 example_timed"
  using example_timed_rr rr_queue_rep [OF example_timed_rr]
  by (auto simp: sched_ok_def rr_ok_def example_timed_def example_proc_def rr_ready_def
      list_empty_def)

lemma example_timed_rep: "timer_rep example_timed [7, 8]"
  by (simp add: timer_rep_def timer_seq_def example_timed_def dlist_def)

lemma example_deadlines: "deadlines (timers example_timed) 0 [7, 8] = [(7, 1), (8, 3)]"
  by (simp add: example_timed_def)

lemma example_wakeable: "\<forall>x \<in> set [7, 8]. wakeable example_timed {1, 2, 3} x"
  by (simp add: wakeable_def example_timed_def example_proc_def WT_TIMER_def WT_INTERRUPTED_def)

theorem add_timer_deadline_witness:
  "\<exists>s' ts'. add_timer 9 example_timed = Some s' \<and> timer_rep s' ts' \<and>
     deadlines (timers s') 0 ts' = [(7, 1), (9, 2), (8, 3)]"
proof -
  have a: "list_empty (TimerLink 9) (timer_links example_timed)"
    "expires (timers example_timed 9) > 0" "timer_proc (timers example_timed 9) \<noteq> None"
    by (simp_all add: example_timed_def list_empty_def)
  have "ins_deadline (9, unat (expires (timers example_timed 9)))
      (deadlines (timers example_timed) 0 [7, 8]) = [(7, 1), (9, 2), (8, 3)]"
    by (simp add: example_timed_def)
  with add_timer_deadline [OF example_timed_rep a] show ?thesis by metis
qed

theorem del_timer_keeps_deadlines_witness:
  "timer_seq (del_timer 7 example_timed) [8] \<and>
   deadlines (timers (del_timer 7 example_timed)) 0 [8] = [(8, 3)]"
  using del_timer_keeps_deadlines [of example_timed "[]" 7 "[8]"] example_timed_rep
    example_deadlines by simp

theorem run_timer_list_expires_witness:
  "\<exists>s' ts'. run_timer_list default_sched_class example_timed = Some s' \<and> timer_rep s' ts' \<and>
     deadlines (timers s') 0 ts' = [(8, 2)] \<and> state (procs s' 3) = PROC_RUNNABLE"
proof -
  have "3 \<in> woken example_timed [7]" by (simp add: woken_def example_timed_def)
  then show ?thesis
    using run_timer_list_expires [OF example_timed_ok example_timed_rep example_wakeable]
    unfolding example_deadlines by fastforce
qed

end
