(* ===== verification/Sync.thy ===== *)
theory Sync
imports Sched
begin

text \<open>
  Wait queues (\<open>kern/sync/wait.c\<close>), semaphores (\<open>sem.c\<close>) and monitors (\<open>monitor.c\<close>). A wait
  descriptor \<open>wait_t\<close> is a node \<open>WaitLink w\<close>, the head of the wait queue \<open>q\<close> is \<open>WaitHead q\<close>; the
  semaphore \<open>q\<close> owns the wait queue \<open>q\<close>.

  \<open>down\<close> can suspend its caller inside \<open>schedule\<close>, so it is two steps: \<open>down_begin\<close>, up to the
  call of \<open>schedule\<close>, and \<open>down_end\<close>, which the process runs when it is scheduled again.
\<close>

record wait_t =
  wproc :: "proc_ptr option"
  wakeup_flags :: "32 word"
  wait_queue :: "nat option"

datatype wnode = WaitHead nat | WaitLink nat

fun le2wait :: "wnode \<Rightarrow> nat option" where
  "le2wait (WaitLink w) = Some w"
| "le2wait (WaitHead q) = None"

record sync_kernel = timed_kernel +
  waits :: "nat \<Rightarrow> wait_t"
  wait_links :: "wnode links"
  sem_value :: "nat \<Rightarrow> int"

definition upd_wait :: "nat \<Rightarrow> (wait_t \<Rightarrow> wait_t) \<Rightarrow> 'a sync_kernel_scheme \<Rightarrow> 'a sync_kernel_scheme"
where
  "upd_wait w f s = s\<lparr>waits := (waits s)(w := f (waits s w))\<rparr>"

definition upd_wait_links ::
  "(wnode links \<Rightarrow> wnode links) \<Rightarrow> 'a sync_kernel_scheme \<Rightarrow> 'a sync_kernel_scheme"
where
  "upd_wait_links f s = s\<lparr>wait_links := f (wait_links s)\<rparr>"

definition upd_sem :: "nat \<Rightarrow> int \<Rightarrow> 'a sync_kernel_scheme \<Rightarrow> 'a sync_kernel_scheme" where
  "upd_sem q v s = s\<lparr>sem_value := (sem_value s)(q := v)\<rparr>"

section \<open>Wait queues\<close>

definition wait_init :: "nat \<Rightarrow> proc_ptr \<Rightarrow> 'a sync_kernel_scheme \<Rightarrow> 'a sync_kernel_scheme" where
  "wait_init w p s =
     upd_wait_links (list_init (WaitLink w))
       (upd_wait w (\<lambda>d. d\<lparr>wproc := Some p, wakeup_flags := WT_INTERRUPTED\<rparr>) s)"

definition wait_queue_init :: "nat \<Rightarrow> 'a sync_kernel_scheme \<Rightarrow> 'a sync_kernel_scheme" where
  "wait_queue_init q s = upd_wait_links (list_init (WaitHead q)) s"

definition wait_queue_add ::
  "nat \<Rightarrow> nat \<Rightarrow> 'a sync_kernel_scheme \<Rightarrow> 'a sync_kernel_scheme option"
where
  "wait_queue_add q w s =
     do {
       kassert (list_empty (WaitLink w) (wait_links s) \<and> wproc (waits s w) \<noteq> None);
       let s1 = upd_wait w (\<lambda>d. d\<lparr>wait_queue := Some q\<rparr>) s;
       Some (upd_wait_links (list_add_before (WaitHead q) (WaitLink w)) s1)
     }"

definition wait_queue_del ::
  "nat \<Rightarrow> nat \<Rightarrow> 'a sync_kernel_scheme \<Rightarrow> 'a sync_kernel_scheme option"
where
  "wait_queue_del q w s =
     do {
       kassert (\<not> list_empty (WaitLink w) (wait_links s) \<and> wait_queue (waits s w) = Some q);
       Some (upd_wait_links (list_del_init (WaitLink w)) s)
     }"

definition wait_queue_next :: "nat \<Rightarrow> nat \<Rightarrow> 'a sync_kernel_scheme \<Rightarrow> nat option option" where
  "wait_queue_next q w s =
     do {
       kassert (\<not> list_empty (WaitLink w) (wait_links s) \<and> wait_queue (waits s w) = Some q);
       let le = list_next (WaitLink w) (wait_links s);
       Some (if le \<noteq> WaitHead q then le2wait le else None)
     }"

definition wait_queue_prev :: "nat \<Rightarrow> nat \<Rightarrow> 'a sync_kernel_scheme \<Rightarrow> nat option option" where
  "wait_queue_prev q w s =
     do {
       kassert (\<not> list_empty (WaitLink w) (wait_links s) \<and> wait_queue (waits s w) = Some q);
       let le = list_prev (WaitLink w) (wait_links s);
       Some (if le \<noteq> WaitHead q then le2wait le else None)
     }"

definition wait_queue_first :: "nat \<Rightarrow> 'a sync_kernel_scheme \<Rightarrow> nat option" where
  "wait_queue_first q s =
     (let le = list_next (WaitHead q) (wait_links s)
      in if le \<noteq> WaitHead q then le2wait le else None)"

definition wait_queue_last :: "nat \<Rightarrow> 'a sync_kernel_scheme \<Rightarrow> nat option" where
  "wait_queue_last q s =
     (let le = list_prev (WaitHead q) (wait_links s)
      in if le \<noteq> WaitHead q then le2wait le else None)"

definition wait_queue_empty :: "nat \<Rightarrow> 'a sync_kernel_scheme \<Rightarrow> bool" where
  "wait_queue_empty q s = list_empty (WaitHead q) (wait_links s)"

definition wait_in_queue :: "nat \<Rightarrow> 'a sync_kernel_scheme \<Rightarrow> bool" where
  "wait_in_queue w s = (\<not> list_empty (WaitLink w) (wait_links s))"

definition wakeup_wait ::
  "'a sync_kernel_scheme sched_class \<Rightarrow> nat \<Rightarrow> nat \<Rightarrow> 32 word \<Rightarrow> bool \<Rightarrow>
   'a sync_kernel_scheme \<Rightarrow> 'a sync_kernel_scheme option"
where
  "wakeup_wait C q w fl del s =
     do {
       s1 \<leftarrow> (if del then wait_queue_del q w s else Some s);
       let s2 = upd_wait w (\<lambda>d. d\<lparr>wakeup_flags := fl\<rparr>) s1;
       p \<leftarrow> wproc (waits s2 w);
       wakeup_proc C p s2
     }"

definition wakeup_first ::
  "'a sync_kernel_scheme sched_class \<Rightarrow> nat \<Rightarrow> 32 word \<Rightarrow> bool \<Rightarrow>
   'a sync_kernel_scheme \<Rightarrow> 'a sync_kernel_scheme option"
where
  "wakeup_first C q fl del s =
     (case wait_queue_first q s of None \<Rightarrow> Some s | Some w \<Rightarrow> wakeup_wait C q w fl del s)"

partial_function (option) wakeup_del_loop ::
  "'a sync_kernel_scheme sched_class \<Rightarrow> nat \<Rightarrow> 32 word \<Rightarrow> nat \<Rightarrow>
   'a sync_kernel_scheme \<Rightarrow> 'a sync_kernel_scheme option"
where
  "wakeup_del_loop C q fl w s =
     Option.bind (wakeup_wait C q w fl True s)
       (\<lambda>s1. case wait_queue_first q s1 of
          None \<Rightarrow> Some s1 | Some w' \<Rightarrow> wakeup_del_loop C q fl w' s1)"

partial_function (option) wakeup_keep_loop ::
  "'a sync_kernel_scheme sched_class \<Rightarrow> nat \<Rightarrow> 32 word \<Rightarrow> nat \<Rightarrow>
   'a sync_kernel_scheme \<Rightarrow> 'a sync_kernel_scheme option"
where
  "wakeup_keep_loop C q fl w s =
     Option.bind (wakeup_wait C q w fl False s)
       (\<lambda>s1. Option.bind (wait_queue_next q w s1) (\<lambda>n. case n of
          None \<Rightarrow> Some s1 | Some w' \<Rightarrow> wakeup_keep_loop C q fl w' s1))"

definition wakeup_queue ::
  "'a sync_kernel_scheme sched_class \<Rightarrow> nat \<Rightarrow> 32 word \<Rightarrow> bool \<Rightarrow>
   'a sync_kernel_scheme \<Rightarrow> 'a sync_kernel_scheme option"
where
  "wakeup_queue C q fl del s =
     (case wait_queue_first q s of
        None \<Rightarrow> Some s
      | Some w \<Rightarrow> if del then wakeup_del_loop C q fl w s else wakeup_keep_loop C q fl w s)"

definition wait_current_set ::
  "nat \<Rightarrow> nat \<Rightarrow> 32 word \<Rightarrow> 'a sync_kernel_scheme \<Rightarrow> 'a sync_kernel_scheme option"
where
  "wait_current_set q w ws s =
     do {
       c \<leftarrow> current s;
       let s1 = wait_init w c s;
       let s2 = upd_proc c (\<lambda>d. d\<lparr>state := PROC_SLEEPING\<rparr>) s1;
       let s3 = upd_proc c (\<lambda>d. d\<lparr>wait_state := ws\<rparr>) s2;
       wait_queue_add q w s3
     }"

definition wait_current_del ::
  "nat \<Rightarrow> nat \<Rightarrow> 'a sync_kernel_scheme \<Rightarrow> 'a sync_kernel_scheme option"
where
  "wait_current_del q w s = (if wait_in_queue w s then wait_queue_del q w s else Some s)"

section \<open>Semaphores\<close>

definition sem_init :: "nat \<Rightarrow> int \<Rightarrow> 'a sync_kernel_scheme \<Rightarrow> 'a sync_kernel_scheme" where
  "sem_init q v s = wait_queue_init q (upd_sem q v s)"

text \<open>The value is an \<open>int\<close>: incrementing the greatest one is undefined.\<close>

definition up_state ::
  "'a sync_kernel_scheme sched_class \<Rightarrow> nat \<Rightarrow> 32 word \<Rightarrow>
   'a sync_kernel_scheme \<Rightarrow> 'a sync_kernel_scheme option"
where
  "up_state C q ws s =
     (case wait_queue_first q s of
        None \<Rightarrow> if sem_value s q = 2 ^ 31 - 1 then None else Some (upd_sem q (sem_value s q + 1) s)
      | Some w \<Rightarrow> do {
          p \<leftarrow> wproc (waits s w);
          kassert (wait_state (procs s p) = ws);
          wakeup_wait C q w ws True s
        })"

definition up ::
  "'a sync_kernel_scheme sched_class \<Rightarrow> nat \<Rightarrow> 'a sync_kernel_scheme \<Rightarrow> 'a sync_kernel_scheme option"
where
  "up C q s = up_state C q WT_KSEM s"

text \<open>\<open>__down\<close> up to \<open>schedule\<close>; the flag says whether the caller was suspended.\<close>

definition down_begin ::
  "'a sync_kernel_scheme sched_class \<Rightarrow> nat \<Rightarrow> nat \<Rightarrow> 32 word \<Rightarrow>
   'a sync_kernel_scheme \<Rightarrow> (bool \<times> 'a sync_kernel_scheme) option"
where
  "down_begin C q w ws s =
     (if sem_value s q > 0 then Some (False, upd_sem q (sem_value s q - 1) s)
      else do {
        s1 \<leftarrow> wait_current_set q w ws s;
        s2 \<leftarrow> schedule C s1;
        Some (True, s2)
      })"

text \<open>The rest of \<open>__down\<close> after \<open>schedule\<close> returns to the caller.\<close>

definition down_end ::
  "nat \<Rightarrow> nat \<Rightarrow> 32 word \<Rightarrow> 'a sync_kernel_scheme \<Rightarrow> (32 word \<times> 'a sync_kernel_scheme) option"
where
  "down_end q w ws s =
     do {
       s1 \<leftarrow> wait_current_del q w s;
       Some (if wakeup_flags (waits s1 w) \<noteq> ws then wakeup_flags (waits s1 w) else 0, s1)
     }"

text \<open>The rest of \<open>down\<close>, with its assertion \<open>flags == 0\<close>.\<close>

definition down_finish :: "nat \<Rightarrow> nat \<Rightarrow> 'a sync_kernel_scheme \<Rightarrow> 'a sync_kernel_scheme option" where
  "down_finish q w s =
     do {
       (fl, s1) \<leftarrow> down_end q w WT_KSEM s;
       kassert (fl = 0);
       Some s1
     }"

definition try_down :: "nat \<Rightarrow> 'a sync_kernel_scheme \<Rightarrow> bool \<times> 'a sync_kernel_scheme" where
  "try_down q s =
     (if sem_value s q > 0 then (True, upd_sem q (sem_value s q - 1) s) else (False, s))"

lemma upd_sync_simps [simp]:
  "waits (upd_wait w f s) = (waits s)(w := f (waits s w))"
  "wait_links (upd_wait w f s) = wait_links s" "sem_value (upd_wait w f s) = sem_value s"
  "procs (upd_wait w f s) = procs s" "current (upd_wait w f s) = current s"
  "waits (upd_wait_links g s) = waits s"
  "wait_links (upd_wait_links g s) = g (wait_links s)"
  "sem_value (upd_wait_links g s) = sem_value s"
  "procs (upd_wait_links g s) = procs s" "current (upd_wait_links g s) = current s"
  "waits (upd_sem q v s) = waits s" "wait_links (upd_sem q v s) = wait_links s"
  "sem_value (upd_sem q v s) = (sem_value s)(q := v)"
  "procs (upd_sem q v s) = procs s" "current (upd_sem q v s) = current s"
  "waits (upd_proc p h s) = waits s" "wait_links (upd_proc p h s) = wait_links s"
  "sem_value (upd_proc p h s) = sem_value s"
  by (simp_all add: upd_wait_def upd_wait_links_def upd_sem_def upd_proc_def)

section \<open>The state of a semaphore\<close>

text \<open>The waiters \<open>ws\<close> of the semaphore \<open>q\<close> and their sleeping processes.\<close>

definition waiter_ok :: "'a sync_kernel_scheme \<Rightarrow> proc_ptr set \<Rightarrow> nat \<Rightarrow> nat \<Rightarrow> bool" where
  "waiter_ok s P q w \<longleftrightarrow>
     wait_queue (waits s w) = Some q \<and>
     (\<exists>p \<in> P. wproc (waits s w) = Some p \<and> state (procs s p) = PROC_SLEEPING \<and>
        wait_state (procs s p) = WT_KSEM)"

definition waiter_procs :: "'a sync_kernel_scheme \<Rightarrow> nat list \<Rightarrow> proc_ptr option list" where
  "waiter_procs s ws = map (\<lambda>w. wproc (waits s w)) ws"

definition sem_rep :: "'a sync_kernel_scheme \<Rightarrow> proc_ptr set \<Rightarrow> nat \<Rightarrow> nat list \<Rightarrow> bool" where
  "sem_rep s P q ws \<longleftrightarrow>
     dlist (wait_links s) (WaitHead q) (map WaitLink ws) \<and>
     0 \<le> sem_value s q \<and> (0 < sem_value s q \<longrightarrow> ws = []) \<and>
     distinct (waiter_procs s ws) \<and> (\<forall>w \<in> set ws. waiter_ok s P q w)"

lemma waiter_procs_cong:
  "(\<And>w. w \<in> set ws \<Longrightarrow> wproc (waits s' w) = wproc (waits s w)) \<Longrightarrow>
     waiter_procs s' ws = waiter_procs s ws"
  by (simp add: waiter_procs_def)

lemma waiter_procs_simps [simp]:
  "waiter_procs s [] = []" "waiter_procs s (w # ws) = wproc (waits s w) # waiter_procs s ws"
  "waiter_procs s (us @ ws) = waiter_procs s us @ waiter_procs s ws"
  by (simp_all add: waiter_procs_def)

lemma in_waiter_procs: "w \<in> set ws \<Longrightarrow> wproc (waits s w) \<in> set (waiter_procs s ws)"
  by (simp add: waiter_procs_def)

lemma sem_repD:
  assumes "sem_rep s P q ws"
  shows "dlist (wait_links s) (WaitHead q) (map WaitLink ws)" "0 \<le> sem_value s q"
    "0 < sem_value s q \<Longrightarrow> ws = []" "distinct (waiter_procs s ws)"
    "\<And>w. w \<in> set ws \<Longrightarrow> waiter_ok s P q w" "distinct ws"
  using assms dlist_distinct(1) [of "wait_links s" "WaitHead q" "map WaitLink ws"]
  by (auto simp: sem_rep_def distinct_map)

lemma wait_queue_first_rep:
  assumes "dlist (wait_links s) (WaitHead q) (map WaitLink ws)"
  shows "wait_queue_first q s = (case ws of [] \<Rightarrow> None | w # _ \<Rightarrow> Some w)"
  using dlist_next_head(1) [OF assms]
  by (cases ws) (simp_all add: wait_queue_first_def list_next_def Let_def)

lemma waiter_ok_cong:
  assumes "waiter_ok s P q w" "waits s' w = waits s w"
    and "\<And>p. wproc (waits s w) = Some p \<Longrightarrow>
      state (procs s' p) = state (procs s p) \<and> wait_state (procs s' p) = wait_state (procs s p)"
  shows "waiter_ok s' P q w"
  using assms unfolding waiter_ok_def by metis

text \<open>Changes of other processes, waits and links do not concern the semaphore.\<close>

lemma sem_rep_cong:
  assumes rep: "sem_rep s P q ws"
    and "\<And>w. w \<in> set ws \<Longrightarrow> waits s' w = waits s w" "wait_links s' = wait_links s"
    and "sem_value s' q = sem_value s q"
    and "\<And>w p. w \<in> set ws \<Longrightarrow> wproc (waits s w) = Some p \<Longrightarrow>
      state (procs s' p) = state (procs s p) \<and> wait_state (procs s' p) = wait_state (procs s p)"
  shows "sem_rep s' P q ws"
proof -
  have "waiter_procs s' ws = waiter_procs s ws"
    by (rule waiter_procs_cong) (simp only: assms(2))
  moreover have "\<forall>w \<in> set ws. waiter_ok s' P q w"
  proof
    fix w assume w: "w \<in> set ws"
    show "waiter_ok s' P q w"
      by (rule waiter_ok_cong [OF sem_repD(5) [OF rep w] assms(2) [OF w]]) (rule assms(5) [OF w])
  qed
  ultimately show ?thesis using rep assms(3,4) by (simp add: sem_rep_def)
qed

lemma sync_more:
  fixes s s' :: "'a sync_kernel_scheme"
  assumes "kernel.more s' = kernel.more s"
  shows "waits s' = waits s" "wait_links s' = wait_links s" "sem_value s' = sem_value s"
  using assms by (cases s; cases s'; simp)+

section \<open>Processes sharing a semaphore\<close>

text \<open>
  The steps of processes that use the semaphore \<open>q\<close>, with the ghost set \<open>H\<close> of the processes
  that hold it: a process holds the semaphore when its \<open>down\<close> has taken the value, or when an
  \<open>up\<close> has woken it. Only a holder calls \<open>up\<close>. Each step runs with interrupts disabled.
\<close>

inductive sem_step ::
  "'d sync_kernel_scheme sched_class \<Rightarrow> nat \<Rightarrow> 'd sync_kernel_scheme \<times> proc_ptr set \<Rightarrow>
   'd sync_kernel_scheme \<times> proc_ptr set \<Rightarrow> bool"
  for C :: "'d sync_kernel_scheme sched_class" and q :: nat
where
  take: "current s = Some c \<Longrightarrow> idleproc s \<noteq> Some c \<Longrightarrow> state (procs s c) = PROC_RUNNABLE \<Longrightarrow>
    c \<notin> H \<Longrightarrow> \<not> wait_in_queue w s \<Longrightarrow> down_begin C q w WT_KSEM s = Some (False, s') \<Longrightarrow>
    sem_step C q (s, H) (s', insert c H)"
| block: "current s = Some c \<Longrightarrow> idleproc s \<noteq> Some c \<Longrightarrow> state (procs s c) = PROC_RUNNABLE \<Longrightarrow>
    c \<notin> H \<Longrightarrow> \<not> wait_in_queue w s \<Longrightarrow> down_begin C q w WT_KSEM s = Some (True, s') \<Longrightarrow>
    sem_step C q (s, H) (s', H)"
| release: "current s = Some c \<Longrightarrow> c \<in> H \<Longrightarrow> up C q s = Some s' \<Longrightarrow>
    sem_step C q (s, H) (s', (H - {c}) \<union>
      (case wait_queue_first q s of None \<Rightarrow> {} | Some w \<Rightarrow> set_option (wproc (waits s w))))"
| switch: "schedule C s = Some s' \<Longrightarrow> sem_step C q (s, H) (s', H)"

definition sem_inv ::
  "('d sync_kernel_scheme \<Rightarrow> bool) \<Rightarrow> ('d sync_kernel_scheme \<Rightarrow> proc_ptr set) \<Rightarrow>
   (proc_ptr \<Rightarrow> 'd sync_kernel_scheme \<Rightarrow> bool) \<Rightarrow> proc_ptr set \<Rightarrow> proc_ptr \<Rightarrow> nat \<Rightarrow> int \<Rightarrow>
   'd sync_kernel_scheme \<times> proc_ptr set \<Rightarrow> bool"
where
  "sem_inv rq_ok queue ready P i q v0 st \<longleftrightarrow>
     (case st of (s, H) \<Rightarrow>
        \<exists>c ws. sched_ok rq_ok queue ready P c i s \<and> sem_rep s P q ws \<and> finite H \<and>
          sem_value s q + int (card H) = v0 \<and> set (waiter_procs s ws) \<inter> Some ` H = {})"

lemma sem_invI:
  assumes "sched_ok rq_ok queue ready P c i s" "sem_rep s P q ws" "finite H"
    and "sem_value s q + int (card H) = v0" "set (waiter_procs s ws) \<inter> Some ` H = {}"
  shows "sem_inv rq_ok queue ready P i q v0 (s, H)"
  unfolding sem_inv_def prod.case using assms by blast

locale sync_core = sched_core C rq_ok queue ready
  for C :: "'d sync_kernel_scheme sched_class"
    and rq_ok :: "'d sync_kernel_scheme \<Rightarrow> bool"
    and queue :: "'d sync_kernel_scheme \<Rightarrow> proc_ptr set"
    and ready :: "proc_ptr \<Rightarrow> 'd sync_kernel_scheme \<Rightarrow> bool"
begin

lemma sched_ok_frame:
  assumes ok: "sched_ok rq_ok queue ready P c i s" and sq: "same_queue s s'"
    and "procs s' = procs s" "current s' = current s" "idleproc s' = idleproc s"
  shows "sched_ok rq_ok queue ready P c i s'"
proof -
  have "rq_ok s" using ok by (simp add: sched_ok_def)
  from frame [OF this sq] show ?thesis using ok assms(3-5) by (simp add: sched_ok_def)
qed

lemma sched_ok_sync:
  assumes "sched_ok rq_ok queue ready P c i s"
  shows "sched_ok rq_ok queue ready P c i (upd_wait w f s)"
    and "sched_ok rq_ok queue ready P c i (upd_wait_links g s)"
    and "sched_ok rq_ok queue ready P c i (upd_sem q v s)"
  by (rule sched_ok_frame [OF assms];
      simp add: same_queue_def upd_wait_def upd_wait_links_def upd_sem_def)+

text \<open>The current process may go to sleep.\<close>

lemma sched_ok_sleep:
  assumes ok: "sched_ok rq_ok queue ready P c i s"
    and f: "\<And>d. on_rq (f d) = on_rq d \<and> time_slice (f d) = time_slice d \<and>
      lab6_stride (f d) = lab6_stride d \<and> lab6_priority (f d) = lab6_priority d"
  shows "sched_ok rq_ok queue ready P c i (upd_proc c f s)"
proof -
  have r: "rq_ok s" using ok by (simp add: sched_ok_def)
  have "same_queue s (upd_proc c f s)" using f by (rule same_queue_upd_proc)
  note fr = frame [OF r this]
  show ?thesis using ok fr by (auto simp: sched_ok_def)
qed

lemma up_spec:
  assumes ok: "sched_ok rq_ok queue ready P c i s" and rep: "sem_rep s P q ws"
    and room: "ws = [] \<Longrightarrow> sem_value s q \<noteq> 2 ^ 31 - 1"
  obtains s' where "up C q s = Some s'" "sched_ok rq_ok queue ready P c i s'"
    "sem_rep s' P q (tl ws)"
    "ws = [] \<longrightarrow> sem_value s' = (sem_value s)(q := sem_value s q + 1) \<and> procs s' = procs s"
    "ws \<noteq> [] \<longrightarrow> sem_value s' = sem_value s \<and>
       wakeup_flags (waits s' (hd ws)) = WT_KSEM \<and> \<not> wait_in_queue (hd ws) s' \<and>
       (\<exists>p. wproc (waits s (hd ws)) = Some p \<and> state (procs s' p) = PROC_RUNNABLE \<and>
          p \<in> candidates queue c i s')"
proof (cases ws)
  case Nil
  let ?s = "upd_sem q (sem_value s q + 1) s"
  have "up C q s = Some ?s"
    using wait_queue_first_rep [OF sem_repD(1) [OF rep]] Nil room by (simp add: up_def up_state_def)
  moreover have "sem_rep ?s P q []" using rep Nil by (simp add: sem_rep_def)
  ultimately show ?thesis using that [of ?s] sched_ok_sync(3) [OF ok] Nil by simp
next
  case (Cons w us)
  note r = sem_repD [OF rep]
  obtain p where p: "p \<in> P" "wproc (waits s w) = Some p" "state (procs s p) = PROC_SLEEPING"
    "wait_state (procs s p) = WT_KSEM" "wait_queue (waits s w) = Some q"
    using r(5) [of w] Cons by (auto simp: waiter_ok_def)
  have d: "dlist (wait_links s) (WaitHead q) ([] @ WaitLink w # map WaitLink us)" using r(1) Cons by simp
  have ne: "\<not> list_empty (WaitLink w) (wait_links s)"
    using dlist_self_not_in [OF d, of "WaitLink w"] by auto
  let ?s1 = "upd_wait_links (list_del_init (WaitLink w)) s"
  let ?s2 = "upd_wait w (\<lambda>d. d\<lparr>wakeup_flags := WT_KSEM\<rparr>) ?s1"
  have ok2: "sched_ok rq_ok queue ready P c i ?s2" by (intro sched_ok_sync ok)
  have "state (procs ?s2 p) \<noteq> PROC_ZOMBIE" using p(3) by simp
  then obtain s' where s': "wakeup_proc C p ?s2 = Some s'" "sched_ok rq_ok queue ready P c i s'"
    "state (procs s' p) = PROC_RUNNABLE" "p \<in> candidates queue c i s'"
    "\<forall>x. x \<noteq> p \<longrightarrow> state (procs s' x) = state (procs ?s2 x)"
    "\<forall>x. x \<noteq> p \<longrightarrow> wait_state (procs s' x) = wait_state (procs ?s2 x)"
    "sched.more s' = sched.more ?s2"
    by (rule wakeup_spec [OF ok2 p(1)])
  have m: "waits s' = waits ?s2" "wait_links s' = wait_links ?s2" "sem_value s' = sem_value ?s2"
    using sync_more [OF more_eq_kernel(5) [OF s'(7)]] by simp_all
  have run: "up C q s = Some s'"
    using wait_queue_first_rep [OF r(1)] Cons p s'(1) ne
    by (simp add: up_def up_state_def wakeup_wait_def wait_queue_del_def)
  have other: "wproc (waits s v) \<noteq> Some p \<and> v \<noteq> w" if "v \<in> set us" for v
    using r(4,6) Cons that p(2) in_waiter_procs [OF that, of s] by auto
  have "waiter_ok s' P q v" if v: "v \<in> set us" for v
  proof (rule waiter_ok_cong [of s])
    show "waiter_ok s P q v" using r(5) Cons v by simp
    show "waits s' v = waits s v" using m(1) other [OF v] by simp
    fix x assume "wproc (waits s v) = Some x"
    then have "x \<noteq> p" using other [OF v] by auto
    then show "state (procs s' x) = state (procs s x) \<and> wait_state (procs s' x) = wait_state (procs s x)"
      using s'(5,6) by simp
  qed
  moreover have "waiter_procs s' us = waiter_procs s us"
    using m(1) other by (intro waiter_procs_cong) simp
  moreover have "dlist (wait_links s') (WaitHead q) (map WaitLink us)"
    using dlist_del_init [OF d] m(2) by simp
  ultimately have "sem_rep s' P q us" using r(2,3,4) Cons m(3) by (auto simp: sem_rep_def)
  moreover have "\<not> wait_in_queue w s'" using m(2) by (simp add: wait_in_queue_def)
  ultimately show ?thesis
    using that [of s'] run s'(2-4) Cons m p(2) by simp
qed

lemma down_begin_spec:
  assumes ok: "sched_ok rq_ok queue ready P c i s" and rep: "sem_rep s P q ws"
    and c: "c \<in> P" "state (procs s c) = PROC_RUNNABLE" and w: "w \<notin> set ws"
  obtains (taken) s' where "0 < sem_value s q" "down_begin C q w WT_KSEM s = Some (False, s')"
    "sched_ok rq_ok queue ready P c i s'" "sem_rep s' P q ws"
    "sem_value s' = (sem_value s)(q := sem_value s q - 1)" "procs s' = procs s"
  | (blocked) s' c' where "sem_value s q = 0" "down_begin C q w WT_KSEM s = Some (True, s')"
    "sched_ok rq_ok queue ready P c' i s'" "sem_rep s' P q (ws @ [w])"
    "sem_value s' = sem_value s" "wproc (waits s' w) = Some c"
    "\<forall>v. v \<noteq> w \<longrightarrow> waits s' v = waits s v"
    "\<forall>p. p \<noteq> c \<longrightarrow> state (procs s' p) = state (procs s p)"
proof (cases "0 < sem_value s q")
  case True
  let ?s = "upd_sem q (sem_value s q - 1) s"
  have "ws = []" using sem_repD(3) [OF rep True] .
  then have "sem_rep ?s P q ws" using rep True by (simp add: sem_rep_def)
  then show ?thesis using taken [of ?s] True sched_ok_sync(3) [OF ok] by (simp add: down_begin_def)
next
  case False
  note r = sem_repD [OF rep]
  have v0: "sem_value s q = 0" using False r(2) by simp
  have cur: "current s = Some c" using ok by (simp add: sched_ok_def)
  let ?s1 = "wait_init w c s"
  let ?s2 = "upd_proc c (\<lambda>d. d\<lparr>state := PROC_SLEEPING\<rparr>) ?s1"
  let ?s3 = "upd_proc c (\<lambda>d. d\<lparr>wait_state := WT_KSEM\<rparr>) ?s2"
  let ?s4 = "upd_wait_links (list_add_before (WaitHead q) (WaitLink w))
    (upd_wait w (\<lambda>d. d\<lparr>wait_queue := Some q\<rparr>) ?s3)"
  have set: "wait_current_set q w WT_KSEM s = Some ?s4"
    using cur by (simp add: wait_current_set_def wait_queue_add_def wait_init_def list_empty_def
        links_simps Let_def)
  have ok4: "sched_ok rq_ok queue ready P c i ?s4"
    unfolding wait_init_def by (intro sched_ok_sync sched_ok_sleep ok) simp_all
  obtain s' c' where s': "schedule C ?s4 = Some s'" "sched_ok rq_ok queue ready P c' i s'"
    "\<forall>p. state (procs s' p) = state (procs ?s4 p)"
    "\<forall>p. wait_state (procs s' p) = wait_state (procs ?s4 p)" "kernel.more s' = kernel.more ?s4"
    using schedule_spec [OF ok4] by metis
  note m = sync_more [OF s'(5)]
  have wv: "waits s' v = waits s v" if "v \<noteq> w" for v using m(1) that by (simp add: wait_init_def)
  have ww: "wproc (waits s' w) = Some c" "wait_queue (waits s' w) = Some q"
    using m(1) by (simp_all add: wait_init_def)
  have not_c: "wproc (waits s v) \<noteq> Some c" if "v \<in> set ws" for v
    using r(5) [OF that] c(2) by (auto simp: waiter_ok_def)
  have st: "state (procs s' p) = state (procs s p) \<and> wait_state (procs s' p) = wait_state (procs s p)"
    if "p \<noteq> c" for p
    using s'(3,4) that by (simp add: wait_init_def)
  have "dlist (list_init (WaitLink w) (wait_links s)) (WaitHead q) (map WaitLink ws)"
    using w by (intro dlist_frame [OF r(1)]) (auto simp: links_simps)
  then have "dlist (wait_links s') (WaitHead q) (map WaitLink (ws @ [w]))"
    using dlist_add_before [of "list_init (WaitLink w) (wait_links s)" "WaitHead q" "map WaitLink ws" "[]"
        "WaitLink w" "WaitHead q"] w m(2) by (auto simp: wait_init_def)
  moreover have "waiter_ok s' P q v" if v: "v \<in> set ws" for v
  proof (rule waiter_ok_cong [OF r(5) [OF v]])
    show "waits s' v = waits s v" using wv [of v] w v by fastforce
    fix p assume "wproc (waits s v) = Some p"
    then show "state (procs s' p) = state (procs s p) \<and> wait_state (procs s' p) = wait_state (procs s p)"
      using st not_c [OF v] by auto
  qed
  moreover have "waiter_ok s' P q w"
    using ww c(1) s'(3,4) by (simp add: waiter_ok_def)
  moreover have "waiter_procs s' ws = waiter_procs s ws"
    using wv w by (intro waiter_procs_cong) metis
  moreover have "Some c \<notin> set (waiter_procs s ws)"
    using not_c by (force simp: waiter_procs_def)
  ultimately have "sem_rep s' P q (ws @ [w])"
    using r(2,4) v0 m(3) ww by (auto simp: sem_rep_def wait_init_def)
  moreover have "down_begin C q w WT_KSEM s = Some (True, s')"
    using v0 set s'(1) by (simp add: down_begin_def)
  moreover have "sem_value s' = sem_value s" using m(3) by (simp add: wait_init_def)
  ultimately show ?thesis using blocked v0 s'(2) ww(1) wv st by blast
qed

text \<open>\<open>up\<close> moves no wait descriptor to another process.\<close>

lemma up_wprocs:
  assumes ok: "sched_ok rq_ok queue ready P c i s" and rep: "sem_rep s P q ws"
    and run: "up C q s = Some s'"
  shows "wproc (waits s' v) = wproc (waits s v)"
proof (cases ws)
  case Nil
  then show ?thesis
    using wait_queue_first_rep [OF sem_repD(1) [OF rep]] run by (auto simp: up_def up_state_def split: if_splits)
next
  case (Cons w us)
  let ?s1 = "upd_wait_links (list_del_init (WaitLink w)) s"
  let ?s2 = "upd_wait w (\<lambda>d. d\<lparr>wakeup_flags := WT_KSEM\<rparr>) ?s1"
  obtain p where p: "p \<in> P" "wproc (waits s w) = Some p" "state (procs s p) = PROC_SLEEPING"
    using sem_repD(5) [OF rep, of w] Cons by (auto simp: waiter_ok_def)
  have ok2: "sched_ok rq_ok queue ready P c i ?s2" by (intro sched_ok_sync ok)
  have "state (procs ?s2 p) \<noteq> PROC_ZOMBIE" using p(3) by simp
  then obtain t where t: "wakeup_proc C p ?s2 = Some t" "sched.more t = sched.more ?s2"
    by (rule wakeup_spec [OF ok2 p(1)])
  have "waits t = waits ?s2" using sync_more [OF more_eq_kernel(5) [OF t(2)]] by simp
  moreover have "s' = t"
    using wait_queue_first_rep [OF sem_repD(1) [OF rep]] Cons p(2) t(1) run
    by (auto simp: up_def up_state_def wakeup_wait_def wait_queue_del_def bind_kassert
        split: if_splits)
  ultimately show ?thesis by simp
qed

lemma schedule_sem:
  assumes ok: "sched_ok rq_ok queue ready P c i s" and rep: "sem_rep s P q ws"
    and run: "schedule C s = Some s'"
  shows "\<exists>c'. sched_ok rq_ok queue ready P c' i s'" "sem_rep s' P q ws"
    "sem_value s' = sem_value s" "waits s' = waits s"
proof -
  obtain n where s': "sched_ok rq_ok queue ready P n i s'"
    "\<forall>p. state (procs s' p) = state (procs s p)"
    "\<forall>p. wait_state (procs s' p) = wait_state (procs s p)" "kernel.more s' = kernel.more s"
    using schedule_spec [OF ok] run by (metis option.inject)
  note m = sync_more [OF s'(4)]
  show "\<exists>c'. sched_ok rq_ok queue ready P c' i s'" using s'(1) by blast
  show "sem_rep s' P q ws" using s'(2,3) m by (intro sem_rep_cong [OF rep]) simp_all
  show "sem_value s' = sem_value s" "waits s' = waits s" using m by simp_all
qed

lemma sem_step_inv:
  assumes "sem_step C q st st'" "sem_inv rq_ok queue ready P i q v0 st"
  shows "sem_inv rq_ok queue ready P i q v0 st'"
  using assms
proof (cases rule: sem_step.cases)
  case (take s c H w s')
  obtain c' ws where i: "sched_ok rq_ok queue ready P c' i s" "sem_rep s P q ws" "finite H"
    "sem_value s q + int (card H) = v0" "set (waiter_procs s ws) \<inter> Some ` H = {}"
    using assms(2) take(1) by (auto simp: sem_inv_def)
  have c: "c' = c" "c \<in> P" using i(1) take(3,4) by (auto simp: sched_ok_def)
  have w: "w \<notin> set ws"
    using dlist_self_not_in [OF sem_repD(1) [OF i(2)], of "WaitLink w"] take(7)
    by (auto simp: wait_in_queue_def)
  show ?thesis
  proof (rule down_begin_spec [OF i(1) [unfolded c(1)] i(2) c(2) take(5) w])
    fix t assume t: "0 < sem_value s q" "down_begin C q w WT_KSEM s = Some (False, t)"
      "sched_ok rq_ok queue ready P c i t" "sem_rep t P q ws"
      "sem_value t = (sem_value s)(q := sem_value s q - 1)"
    have "ws = []" using sem_repD(3) [OF i(2) t(1)] .
    then show ?thesis using t take i(3,4) by (auto simp: sem_inv_def)
  qed (use take in auto)
next
  case (block s c H w s')
  obtain c' ws where i: "sched_ok rq_ok queue ready P c' i s" "sem_rep s P q ws" "finite H"
    "sem_value s q + int (card H) = v0" "set (waiter_procs s ws) \<inter> Some ` H = {}"
    using assms(2) block(1) by (auto simp: sem_inv_def)
  have c: "c' = c" "c \<in> P" using i(1) block(3,4) by (auto simp: sched_ok_def)
  have w: "w \<notin> set ws"
    using dlist_self_not_in [OF sem_repD(1) [OF i(2)], of "WaitLink w"] block(7)
    by (auto simp: wait_in_queue_def)
  show ?thesis
  proof (rule down_begin_spec [OF i(1) [unfolded c(1)] i(2) c(2) block(5) w])
    fix t n assume t: "sem_value s q = 0" "down_begin C q w WT_KSEM s = Some (True, t)"
      "sched_ok rq_ok queue ready P n i t" "sem_rep t P q (ws @ [w])"
      "sem_value t = sem_value s" "wproc (waits t w) = Some c"
      "\<forall>v. v \<noteq> w \<longrightarrow> waits t v = waits s v"
    have "waiter_procs t ws = waiter_procs s ws"
      by (rule waiter_procs_cong) (use t(7) w in metis)
    then have "set (waiter_procs t (ws @ [w])) \<inter> Some ` H = {}"
      using i(5) t(6) block(6) by auto
    moreover have "sem_value t q + int (card H) = v0" using t(5) i(4) by simp
    ultimately have "sem_inv rq_ok queue ready P i q v0 (t, H)"
      using t(3,4) i(3) by (intro sem_invI)
    then show ?thesis using t(2) block(2,8) by simp
  qed (use block in auto)
next
  case (release s c H s')
  obtain c' ws where i: "sched_ok rq_ok queue ready P c' i s" "sem_rep s P q ws" "finite H"
    "sem_value s q + int (card H) = v0" "set (waiter_procs s ws) \<inter> Some ` H = {}"
    using assms(2) release(1) by (auto simp: sem_inv_def)
  obtain t where t: "up C q s = Some t" "sched_ok rq_ok queue ready P c' i t" "sem_rep t P q (tl ws)"
    "ws = [] \<longrightarrow> sem_value t = (sem_value s)(q := sem_value s q + 1) \<and> procs t = procs s"
    "ws \<noteq> [] \<longrightarrow> sem_value t = sem_value s \<and>
       wakeup_flags (waits t (hd ws)) = WT_KSEM \<and> \<not> wait_in_queue (hd ws) t \<and>
       (\<exists>p. wproc (waits s (hd ws)) = Some p \<and> state (procs t p) = PROC_RUNNABLE \<and>
          p \<in> candidates queue c' i t)"
    by (rule up_spec [OF i(1,2)])
      (use release(5) wait_queue_first_rep [OF sem_repD(1) [OF i(2)]] in \<open>auto simp: up_def up_state_def\<close>)
  have wp: "wproc (waits t w) = wproc (waits s w)" for w by (rule up_wprocs [OF i(1,2) t(1)])
  have st: "t = s'" using t(1) release(5) by simp
  have first: "wait_queue_first q s = (case ws of [] \<Rightarrow> None | w # _ \<Rightarrow> Some w)"
    by (rule wait_queue_first_rep [OF sem_repD(1) [OF i(2)]])
  have card: "int (card (H - {c})) = int (card H) - 1"
    using card_Suc_Diff1 [OF i(3) release(4)] by simp
  show ?thesis
  proof (cases ws)
    case Nil
    then show ?thesis using release(2) t(2-4) st first i(3,4) card by (auto simp: sem_inv_def)
  next
    case (Cons w us)
    obtain p where p: "wproc (waits s w) = Some p" "sem_value t = sem_value s"
      using t(5) Cons by auto
    have pH: "p \<notin> H" using i(5) p(1) Cons by auto
    have "waiter_procs t us = waiter_procs s us" using wp by (intro waiter_procs_cong) simp
    moreover have "Some p \<notin> set (waiter_procs s us)" using sem_repD(4) [OF i(2)] Cons p(1) by simp
    ultimately have "set (waiter_procs t us) \<inter> Some ` (H - {c} \<union> {p}) = {}"
      using i(5) Cons by auto
    moreover have "int (card (H - {c} \<union> {p})) = int (card H)" using i(3) pH card by simp
    ultimately show ?thesis
      using release(2) t(2,3) st first i(3,4) p Cons by (auto simp: sem_inv_def)
  qed
next
  case (switch s s' H)
  obtain c' ws where i: "sched_ok rq_ok queue ready P c' i s" "sem_rep s P q ws" "finite H"
    "sem_value s q + int (card H) = v0" "set (waiter_procs s ws) \<inter> Some ` H = {}"
    using assms(2) switch(1) by (auto simp: sem_inv_def)
  note sc = schedule_sem [OF i(1,2) switch(3)]
  have "waiter_procs s' ws = waiter_procs s ws" using sc(4) by (intro waiter_procs_cong) simp
  then have "set (waiter_procs s' ws) \<inter> Some ` H = {}" using i(5) by simp
  moreover have "sem_value s' q + int (card H) = v0" using sc(3) i(4) by simp
  moreover obtain n where "sched_ok rq_ok queue ready P n i s'" using sc(1) by blast
  ultimately have "sem_inv rq_ok queue ready P i q v0 (s', H)"
    using sc(2) i(3) by (intro sem_invI)
  then show ?thesis using switch(2) by simp
qed

lemma sem_steps_inv:
  assumes "(sem_step C q)\<^sup>*\<^sup>* st st'" "sem_inv rq_ok queue ready P i q v0 st"
  shows "sem_inv rq_ok queue ready P i q v0 st'"
  using assms by (induction rule: rtranclp_induct) (auto intro: sem_step_inv)

end

interpretation rr_sync: sync_core default_sched_class rr_ok rr_queue rr_ready
  by unfold_locales

section \<open>Guarantees of semaphores\<close>

text \<open>
  C38: \<open>up\<close> returns, unless nobody waits and the value is the greatest \<open>int\<close>. With no waiter it
  increments the value, otherwise it hands the semaphore to the first waiter in FIFO order: the value
  stays, the waiter leaves the queue with the flags \<open>WT_KSEM\<close> (so its \<open>__down\<close> returns 0 and the
  assertion of \<open>down\<close> holds) and its process becomes a candidate of \<open>schedule\<close>.
\<close>

theorem up_hands_over_fifo:
  assumes "sched_ok rr_ok rr_queue rr_ready P c i s" "sem_rep s P q ws"
  shows "if ws = [] \<and> sem_value s q = 2 ^ 31 - 1 then up default_sched_class q s = None
         else \<exists>s'. up default_sched_class q s = Some s' \<and> sched_ok rr_ok rr_queue rr_ready P c i s' \<and>
           sem_rep s' P q (tl ws) \<and>
           (case ws of
              [] \<Rightarrow> sem_value s' = (sem_value s)(q := sem_value s q + 1) \<and> procs s' = procs s
            | w # _ \<Rightarrow> sem_value s' = sem_value s \<and> down_end q w WT_KSEM s' = Some (0, s') \<and>
                down_finish q w s' = Some s' \<and>
                (\<exists>p. wproc (waits s w) = Some p \<and> p \<in> candidates rr_queue c i s'))"
proof (cases "ws = [] \<and> sem_value s q = 2 ^ 31 - 1")
  case True
  then show ?thesis
    using wait_queue_first_rep [OF sem_repD(1) [OF assms(2)]] by (simp add: up_def up_state_def)
next
  case False
  obtain s' where s': "up default_sched_class q s = Some s'"
    "sched_ok rr_ok rr_queue rr_ready P c i s'" "sem_rep s' P q (tl ws)"
    "ws = [] \<longrightarrow> sem_value s' = (sem_value s)(q := sem_value s q + 1) \<and> procs s' = procs s"
    "ws \<noteq> [] \<longrightarrow> sem_value s' = sem_value s \<and>
       wakeup_flags (waits s' (hd ws)) = WT_KSEM \<and> \<not> wait_in_queue (hd ws) s' \<and>
       (\<exists>p. wproc (waits s (hd ws)) = Some p \<and> state (procs s' p) = PROC_RUNNABLE \<and>
          p \<in> candidates rr_queue c i s')"
    using rr_sync.up_spec [OF assms] False by metis
  then show ?thesis
    using False by (cases ws) (auto simp: down_finish_def down_end_def wait_current_del_def)
qed

text \<open>
  C37: whatever the order of \<open>down\<close>, \<open>up\<close> and \<open>schedule\<close> steps, the value of a semaphore plus
  the number of its holders is the initial value: a semaphore initialised to 1 is a mutex, and
  nobody waits for a semaphore that nobody holds (no lost wakeup).
\<close>

theorem semaphore_mutual_exclusion:
  assumes "sched_ok rr_ok rr_queue rr_ready P c i s0" "sem_rep s0 P q []" "sem_value s0 q = 1"
    and "(sem_step default_sched_class q)\<^sup>*\<^sup>* (s0, {}) (s, H)"
  shows "finite H \<and> card H \<le> 1 \<and> sem_value s q + int (card H) = 1 \<and>
         (\<exists>ws. sem_rep s P q ws \<and> (H = {} \<longrightarrow> ws = []))"
proof -
  have "sem_inv rr_ok rr_queue rr_ready P i q 1 (s0, {})"
    using assms(1-3) by (intro sem_invI) auto
  then have "sem_inv rr_ok rr_queue rr_ready P i q 1 (s, H)"
    by (rule rr_sync.sem_steps_inv [OF assms(4)])
  then obtain c ws where s: "sem_rep s P q ws" "finite H" "sem_value s q + int (card H) = 1"
    by (auto simp: sem_inv_def)
  have "0 \<le> sem_value s q" using s(1) by (simp add: sem_rep_def)
  moreover have "H = {} \<Longrightarrow> ws = []" using s(1,3) by (simp add: sem_rep_def)
  ultimately show ?thesis using s by auto
qed

section \<open>Witnesses\<close>

text \<open>Process 1 runs, 2 is queued, 3 waits for the semaphore 5; the semaphore 6 is free.\<close>

definition example_sync :: sync_kernel where
  "example_sync =
     \<lparr>procs = (\<lambda>_. example_proc)(3 := example_proc\<lparr>state := PROC_SLEEPING, wait_state := WT_KSEM\<rparr>),
      run_links = \<lparr>next_of = id(RunList := RunLink 2, RunLink 2 := RunList),
                   prev_of = id(RunList := RunLink 2, RunLink 2 := RunList)\<rparr>,
      pool = \<lparr>parent_of = (\<lambda>_. None), left_of = (\<lambda>_. None), right_of = (\<lambda>_. None)\<rparr>,
      proc_num = 1, max_time_slice = 5, lab6_run_pool = None,
      current = Some 1, idleproc = Some 0, initproc = Some 1, satp = 0,
      timers = (\<lambda>_. \<lparr>expires = 0, timer_proc = None\<rparr>),
      timer_links = \<lparr>next_of = id, prev_of = id\<rparr>,
      waits = (\<lambda>_. \<lparr>wproc = Some 3, wakeup_flags = WT_INTERRUPTED, wait_queue = Some 5\<rparr>),
      wait_links =
        \<lparr>next_of = id(WaitHead 5 := WaitLink 4, WaitLink 4 := WaitHead 5),
         prev_of = id(WaitHead 5 := WaitLink 4, WaitLink 4 := WaitHead 5)\<rparr>,
      sem_value = (\<lambda>_. 0)(6 := 1)\<rparr>"

lemma example_sync_rr: "rr_rep example_sync [2]"
  by (simp add: rr_rep_def example_sync_def dlist_def example_proc_def)

lemma example_sync_ok: "sched_ok rr_ok rr_queue rr_ready {1, 2, 3} 1 0 example_sync"
  using example_sync_rr rr_queue_rep [OF example_sync_rr]
  by (auto simp: sched_ok_def rr_ok_def example_sync_def example_proc_def rr_ready_def
      list_empty_def)

lemma example_sync_rep: "sem_rep example_sync {1, 2, 3} 5 [4]" "sem_rep example_sync {1, 2, 3} 6 []"
  by (simp_all add: sem_rep_def example_sync_def dlist_def waiter_ok_def example_proc_def)

theorem up_hands_over_fifo_witness:
  "\<exists>s'. up default_sched_class 5 example_sync = Some s' \<and> sem_rep s' {1, 2, 3} 5 [] \<and>
     down_end 5 4 WT_KSEM s' = Some (0, s') \<and> down_finish 5 4 s' = Some s' \<and> 3 \<in> candidates rr_queue 1 0 s'"
  using up_hands_over_fifo [OF example_sync_ok example_sync_rep(1)]
  by (auto simp: example_sync_def)

theorem semaphore_mutual_exclusion_witness:
  "\<exists>s. (sem_step default_sched_class 6)\<^sup>*\<^sup>* (example_sync, {}) (s, {1}) \<and> sem_value s 6 = 0"
proof -
  let ?s = "upd_sem 6 (sem_value example_sync 6 - 1) example_sync"
  have "sem_step default_sched_class 6 (example_sync, {}) (?s, insert 1 {})"
    by (rule sem_step.take [of _ _ _ 7])
      (simp_all add: down_begin_def wait_in_queue_def list_empty_def,
        simp_all add: example_sync_def example_proc_def)
  then have r: "(sem_step default_sched_class 6)\<^sup>*\<^sup>* (example_sync, {}) (?s, {1})" by simp
  have "sem_value example_sync 6 = 1" by (simp add: example_sync_def)
  then have "sem_value ?s 6 + int (card {1 :: nat}) = 1"
    using semaphore_mutual_exclusion [OF example_sync_ok example_sync_rep(2) _ r] by blast
  with r show ?thesis by (intro exI [of _ ?s]) simp
qed

end
