(* ===== verification/ProcTable.thy ===== *)
theory ProcTable
imports Sync
begin

text \<open>
  The process table of \<open>kern/process/proc.c\<close>: the list of all processes, the hash table by
  process number, the choice of process numbers and the family links. \<open>proc_list\<close> is the list
  with head \<open>ProcList\<close> and one node per process (its \<open>list_link\<close>); \<open>hash_list[i]\<close> is the list
  with head \<open>HashList i\<close> and nodes \<open>hash_link\<close>. The static variables \<open>last_pid\<close> and \<open>next_safe\<close>
  of \<open>get_pid\<close> are part of the state. The idle process is in none of the lists.
\<close>

datatype pnode = ProcList | ProcLink proc_ptr

datatype hnode = HashList nat | HashLink proc_ptr

record proctab = sync_kernel +
  proc_links :: "pnode links"
  hash_links :: "hnode links"
  nr_process :: int
  last_pid :: int
  next_safe :: int

definition MAX_PROCESS :: int where "MAX_PROCESS = 4096"
definition MAX_PID :: int where "MAX_PID = MAX_PROCESS * 2"
definition HASH_SHIFT :: nat where "HASH_SHIFT = 10"
definition HASH_LIST_SIZE :: nat where "HASH_LIST_SIZE = 2 ^ HASH_SHIFT"

definition GOLDEN_RATIO_PRIME_32 :: "64 word" where "GOLDEN_RATIO_PRIME_32 = 0x9e370001"

text \<open>The constant is an \<open>unsigned long\<close>, so the product has 64 bits before it is stored in 32.\<close>

definition hash32 :: "32 word \<Rightarrow> nat \<Rightarrow> 32 word" where
  "hash32 val bits =
     (let hash = ucast (ucast val * GOLDEN_RATIO_PRIME_32) in drop_bit (32 - bits) hash)"

definition pid_hashfn :: "int \<Rightarrow> nat" where
  "pid_hashfn x = unat (hash32 (of_int x) HASH_SHIFT)"

definition upd_proc_links :: "(pnode links \<Rightarrow> pnode links) \<Rightarrow> 'a proctab_scheme \<Rightarrow> 'a proctab_scheme" where
  "upd_proc_links f s = s\<lparr>proc_links := f (proc_links s)\<rparr>"

definition upd_hash_links :: "(hnode links \<Rightarrow> hnode links) \<Rightarrow> 'a proctab_scheme \<Rightarrow> 'a proctab_scheme" where
  "upd_hash_links f s = s\<lparr>hash_links := f (hash_links s)\<rparr>"

section \<open>The operations\<close>

subsection \<open>Process numbers\<close>

text \<open>The loop under the label \<open>repeat\<close>; \<open>le\<close> is the node before the one looked at next.\<close>

partial_function (option) get_pid_scan :: "pnode \<Rightarrow> 'a proctab_scheme \<Rightarrow> 'a proctab_scheme option" where
  "get_pid_scan le s =
     (case list_next le (proc_links s) of
        ProcList \<Rightarrow> Some s
      | ProcLink p \<Rightarrow>
          if pid (procs s p) = last_pid s
          then let s1 = s\<lparr>last_pid := last_pid s + 1\<rparr> in
               if last_pid s1 \<ge> next_safe s1
               then let s2 = (if last_pid s1 \<ge> MAX_PID then s1\<lparr>last_pid := 1\<rparr> else s1)
                    in get_pid_scan ProcList (s2\<lparr>next_safe := MAX_PID\<rparr>)
               else get_pid_scan (ProcLink p) s1
          else if pid (procs s p) > last_pid s \<and> next_safe s > pid (procs s p)
          then get_pid_scan (ProcLink p) (s\<lparr>next_safe := pid (procs s p)\<rparr>)
          else get_pid_scan (ProcLink p) s)"

text \<open>The code from the label \<open>inside\<close> on.\<close>

definition get_pid_inside :: "'a proctab_scheme \<Rightarrow> (int \<times> 'a proctab_scheme) option" where
  "get_pid_inside s = do {
     s \<leftarrow> get_pid_scan ProcList (s\<lparr>next_safe := MAX_PID\<rparr>);
     Some (last_pid s, s)
   }"

definition get_pid :: "'a proctab_scheme \<Rightarrow> (int \<times> 'a proctab_scheme) option" where
  "get_pid s =
     (let s1 = s\<lparr>last_pid := last_pid s + 1\<rparr> in
      if last_pid s1 \<ge> MAX_PID then get_pid_inside (s1\<lparr>last_pid := 1\<rparr>)
      else if last_pid s1 \<ge> next_safe s1 then get_pid_inside s1
      else Some (last_pid s1, s1))"

subsection \<open>The hash table\<close>

definition hash_proc :: "proc_ptr \<Rightarrow> 'a proctab_scheme \<Rightarrow> 'a proctab_scheme" where
  "hash_proc p s = upd_hash_links (list_add (HashList (pid_hashfn (pid (procs s p)))) (HashLink p)) s"

definition unhash_proc :: "proc_ptr \<Rightarrow> 'a proctab_scheme \<Rightarrow> 'a proctab_scheme" where
  "unhash_proc p s = upd_hash_links (list_del (HashLink p)) s"

partial_function (option) find_proc_loop ::
  "int \<Rightarrow> hnode \<Rightarrow> hnode \<Rightarrow> 'a proctab_scheme \<Rightarrow> proc_ptr option option" where
  "find_proc_loop n head le s =
     (case list_next le (hash_links s) of
        HashList b \<Rightarrow> if HashList b = head then Some None else None
      | HashLink p \<Rightarrow>
          if pid (procs s p) = n then Some (Some p) else find_proc_loop n head (HashLink p) s)"

definition find_proc :: "int \<Rightarrow> 'a proctab_scheme \<Rightarrow> proc_ptr option option" where
  "find_proc n s =
     (if 0 < n \<and> n < MAX_PID
      then let head = HashList (pid_hashfn n) in find_proc_loop n head head s
      else Some None)"

subsection \<open>Family links\<close>

text \<open>Dereferencing a \<open>NULL\<close> parent stops the machine.\<close>

definition set_links :: "proc_ptr \<Rightarrow> 'a proctab_scheme \<Rightarrow> 'a proctab_scheme option" where
  "set_links p s = do {
     let s = upd_proc_links (list_add ProcList (ProcLink p)) s;
     let s = upd_proc p (\<lambda>d. d\<lparr>yptr := None\<rparr>) s;
     pa \<leftarrow> parent (procs s p);
     let s = upd_proc p (\<lambda>d. d\<lparr>optr := cptr (procs s pa)\<rparr>) s;
     let s = (case optr (procs s p) of
                None \<Rightarrow> s
              | Some q \<Rightarrow> upd_proc q (\<lambda>d. d\<lparr>yptr := Some p\<rparr>) s);
     let s = upd_proc pa (\<lambda>d. d\<lparr>cptr := Some p\<rparr>) s;
     Some (s\<lparr>nr_process := nr_process s + 1\<rparr>)
   }"

definition remove_links :: "proc_ptr \<Rightarrow> 'a proctab_scheme \<Rightarrow> 'a proctab_scheme option" where
  "remove_links p s = do {
     let s = upd_proc_links (list_del (ProcLink p)) s;
     let s = (case optr (procs s p) of
                None \<Rightarrow> s
              | Some q \<Rightarrow> upd_proc q (\<lambda>d. d\<lparr>yptr := yptr (procs s p)\<rparr>) s);
     s \<leftarrow> (case yptr (procs s p) of
             Some q \<Rightarrow> Some (upd_proc q (\<lambda>d. d\<lparr>optr := optr (procs s p)\<rparr>) s)
           | None \<Rightarrow> do {
               pa \<leftarrow> parent (procs s p);
               Some (upd_proc pa (\<lambda>d. d\<lparr>cptr := optr (procs s p)\<rparr>) s)
             });
     Some (s\<lparr>nr_process := nr_process s - 1\<rparr>)
   }"

lemma upd_proctab_simps [simp]:
  "procs (upd_proc_links f s) = procs s" "hash_links (upd_proc_links f s) = hash_links s"
  "proc_links (upd_proc_links f s) = f (proc_links s)" "nr_process (upd_proc_links f s) = nr_process s"
  "last_pid (upd_proc_links f s) = last_pid s" "next_safe (upd_proc_links f s) = next_safe s"
  "procs (upd_hash_links g s) = procs s" "hash_links (upd_hash_links g s) = g (hash_links s)"
  "proc_links (upd_hash_links g s) = proc_links s" "nr_process (upd_hash_links g s) = nr_process s"
  "last_pid (upd_hash_links g s) = last_pid s" "next_safe (upd_hash_links g s) = next_safe s"
  "hash_links (upd_proc p h s) = hash_links s" "proc_links (upd_proc p h s) = proc_links s"
  "nr_process (upd_proc p h s) = nr_process s"
  "last_pid (upd_proc p h s) = last_pid s" "next_safe (upd_proc p h s) = next_safe s"
  by (simp_all add: upd_proc_links_def upd_hash_links_def upd_proc_def)


section \<open>Choosing a process number\<close>

text \<open>No process of \<open>ps\<close> has a number strictly between \<open>last_pid\<close> and \<open>next_safe\<close>.\<close>

definition pid_window :: "'a proctab_scheme \<Rightarrow> proc_ptr list \<Rightarrow> bool" where
  "pid_window s ps \<longleftrightarrow> 1 \<le> last_pid s \<and> last_pid s \<le> MAX_PID \<and> next_safe s \<le> MAX_PID \<and>
     (\<forall>p\<in>set ps. pid (procs s p) \<le> last_pid s \<or> next_safe s \<le> pid (procs s p))"

definition pids :: "'a proctab_scheme \<Rightarrow> proc_ptr list \<Rightarrow> int set" where
  "pids s ps = (\<lambda>p. pid (procs s p)) ` set ps"

text \<open>How many numbers the search has to pass before it meets the unused number \<open>f\<close>.\<close>

definition pid_distance :: "int \<Rightarrow> int \<Rightarrow> nat" where
  "pid_distance f l = nat ((f - l) mod (MAX_PID - 1))"

lemma pid_distance_step:
  assumes "1 \<le> f" "f < MAX_PID" "1 \<le> l" "l < MAX_PID" "l \<noteq> f"
  shows "pid_distance f (if l + 1 \<ge> MAX_PID then 1 else l + 1) < pid_distance f l"
proof -
  have M: "MAX_PID - 1 = 8191" by (simp add: MAX_PID_def MAX_PROCESS_def)
  have wrap: "(f - 8192) mod 8191 = (f - 1) mod 8191"
    using mod_add_self2 [of "f - 8192" "8191 :: int"] by simp
  have range: "- 8191 < f - l" "f - l < 8191" "f - l \<noteq> 0"
    using assms by (simp_all add: MAX_PID_def MAX_PROCESS_def)
  have m: "a mod 8191 = (if 0 \<le> a then a else a + 8191)" if "- 8191 \<le> a" "a < 8191" for a :: int
  proof (cases "0 \<le> a")
    case False
    have "(a + 8191) mod 8191 = a + 8191" using that False by (intro mod_pos_pos_trivial) auto
    then show ?thesis unfolding if_not_P [OF False] mod_add_self2 [of a "8191 :: int"] .
  qed (use that in simp)
  have step: "nat ((f - (l + 1)) mod 8191) < nat ((f - l) mod 8191)"
    using m [of "f - l"] m [of "f - (l + 1)"] range by auto
  show ?thesis
  proof (cases "l + 1 \<ge> MAX_PID")
    case True
    then have "l = 8191" using assms(4) by (simp add: MAX_PID_def MAX_PROCESS_def)
    then show ?thesis using step wrap by (simp add: pid_distance_def M MAX_PID_def MAX_PROCESS_def)
  next
    case False
    then show ?thesis using step by (simp add: pid_distance_def M)
  qed
qed

lemma get_pid_scan_spec:
  assumes "dlist (proc_links s) ProcList (map ProcLink (qs @ rs))"
    and "1 \<le> f" "f < MAX_PID" "f \<notin> pids s (qs @ rs)"
    and "1 \<le> last_pid s" "last_pid s < next_safe s" "next_safe s \<le> MAX_PID"
    and "\<forall>p\<in>set qs. pid (procs s p) < last_pid s \<or> next_safe s \<le> pid (procs s p)"
    and "le = last (ProcList # map ProcLink qs)"
  shows "\<exists>l n. get_pid_scan le s = Some (s\<lparr>last_pid := l, next_safe := n\<rparr>) \<and> 1 \<le> l \<and> l < n \<and> n \<le> MAX_PID \<and>
    (\<forall>p\<in>set (qs @ rs). pid (procs s p) < l \<or> n \<le> pid (procs s p))"
  using assms
proof (induction "pid_distance f (last_pid s) * Suc (length (qs @ rs)) + length rs"
    arbitrary: s qs rs le rule: less_induct)
  case less
  note prem = less.prems
  have nx: "list_next le (proc_links s) = hd (map ProcLink rs @ [ProcList])"
    using dlist_next_last [of "proc_links s" ProcList "map ProcLink qs" "map ProcLink rs"] prem(1,9)
    by (simp add: list_next_def)
  show ?case
  proof (cases rs)
    case Nil
    then have "get_pid_scan le s = Some s" using nx by (subst get_pid_scan.simps) simp
    then show ?thesis using prem(5-8) Nil
      by (intro exI [of _ "last_pid s"] exI [of _ "next_safe s"]) simp
  next
    case (Cons p rs')
    let ?n = "pid (procs s p)"
    have app: "qs @ rs = (qs @ [p]) @ rs'" using Cons by simp
    have le': "ProcLink p = last (ProcList # map ProcLink (qs @ [p]))" by simp
    have go: "get_pid_scan le s = (if ?n = last_pid s
          then if last_pid s + 1 \<ge> next_safe s
               then get_pid_scan ProcList (s\<lparr>last_pid := if last_pid s + 1 \<ge> MAX_PID then 1 else last_pid s + 1,
                 next_safe := MAX_PID\<rparr>)
               else get_pid_scan (ProcLink p) (s\<lparr>last_pid := last_pid s + 1\<rparr>)
          else if ?n > last_pid s \<and> next_safe s > ?n
          then get_pid_scan (ProcLink p) (s\<lparr>next_safe := ?n\<rparr>) else get_pid_scan (ProcLink p) s)"
      using nx Cons by (subst get_pid_scan.simps) (simp add: Let_def)
    have same: "\<And>l n. pids (s\<lparr>last_pid := l, next_safe := n\<rparr>) (qs @ rs) = pids s (qs @ rs)"
      by (simp add: pids_def)
    have lt: "last_pid s < MAX_PID" using prem(6,7) by simp
    show ?thesis
    proof (cases "?n = last_pid s")
      case True
      then have ne: "last_pid s \<noteq> f" using prem(4) Cons by (auto simp: pids_def)
      note d = pid_distance_step [OF prem(2,3,5) lt ne]
      have sm: "a * Suc m + k < b * Suc m + Suc j" if "a < b" "k \<le> m" for a b m k j :: nat
      proof -
        have "Suc a * Suc m \<le> b * Suc m" using that(1) by (intro mult_right_mono) simp_all
        then show ?thesis using that(2) by simp
      qed
      show ?thesis
      proof (cases "last_pid s + 1 \<ge> next_safe s")
        case restart: True
        let ?s = "s\<lparr>last_pid := if last_pid s + 1 \<ge> MAX_PID then 1 else last_pid s + 1, next_safe := MAX_PID\<rparr>"
        have "\<exists>l n. get_pid_scan ProcList ?s = Some (?s\<lparr>last_pid := l, next_safe := n\<rparr>) \<and> 1 \<le> l \<and> l < n \<and>
            n \<le> MAX_PID \<and> (\<forall>q\<in>set ([] @ (qs @ rs)). pid (procs ?s q) < l \<or> n \<le> pid (procs ?s q))"
        proof (rule less.hyps)
          show "pid_distance f (last_pid ?s) * Suc (length ([] @ (qs @ rs))) + length (qs @ rs)
              < pid_distance f (last_pid s) * Suc (length (qs @ rs)) + length rs"
            using sm [OF d, of "length (qs @ rs)" "length (qs @ rs)" "length rs'"] Cons by simp
        qed (use prem restart in \<open>auto simp: pids_def MAX_PID_def MAX_PROCESS_def\<close>)
        then show ?thesis using go True restart by simp
      next
        case False
        let ?s = "s\<lparr>last_pid := last_pid s + 1\<rparr>"
        have d': "pid_distance f (last_pid s + 1) < pid_distance f (last_pid s)"
          using d False prem(7) by (simp split: if_splits)
        have "\<exists>l n. get_pid_scan (ProcLink p) ?s = Some (?s\<lparr>last_pid := l, next_safe := n\<rparr>) \<and> 1 \<le> l \<and> l < n \<and>
            n \<le> MAX_PID \<and> (\<forall>q\<in>set ((qs @ [p]) @ rs'). pid (procs ?s q) < l \<or> n \<le> pid (procs ?s q))"
        proof (rule less.hyps)
          show "pid_distance f (last_pid ?s) * Suc (length ((qs @ [p]) @ rs')) + length rs'
              < pid_distance f (last_pid s) * Suc (length (qs @ rs)) + length rs"
            using sm [OF d', of "length rs'" "length (qs @ rs)" "length rs'"] Cons by simp
          show "\<forall>q\<in>set (qs @ [p]). pid (procs ?s q) < last_pid ?s \<or> next_safe ?s \<le> pid (procs ?s q)"
            using prem(8) True by auto
        qed (use prem False Cons in \<open>auto simp: pids_def\<close>)
        then show ?thesis using go True False app by simp
      qed
    next
      case other: False
      show ?thesis
      proof (cases "?n > last_pid s \<and> next_safe s > ?n")
        case True
        let ?s = "s\<lparr>next_safe := ?n\<rparr>"
        have "\<exists>l n. get_pid_scan (ProcLink p) ?s = Some (?s\<lparr>last_pid := l, next_safe := n\<rparr>) \<and> 1 \<le> l \<and> l < n \<and>
            n \<le> MAX_PID \<and> (\<forall>q\<in>set ((qs @ [p]) @ rs'). pid (procs ?s q) < l \<or> n \<le> pid (procs ?s q))"
        proof (rule less.hyps)
          show "\<forall>q\<in>set (qs @ [p]). pid (procs ?s q) < last_pid ?s \<or> next_safe ?s \<le> pid (procs ?s q)"
            using prem(8) True by auto
        qed (use prem True Cons in \<open>auto simp: pids_def\<close>)
        then show ?thesis using go other True app by simp
      next
        case False
        have "\<exists>l n. get_pid_scan (ProcLink p) s = Some (s\<lparr>last_pid := l, next_safe := n\<rparr>) \<and> 1 \<le> l \<and> l < n \<and>
            n \<le> MAX_PID \<and> (\<forall>q\<in>set ((qs @ [p]) @ rs'). pid (procs s q) < l \<or> n \<le> pid (procs s q))"
        proof (rule less.hyps)
          show "\<forall>q\<in>set (qs @ [p]). pid (procs s q) < last_pid s \<or> next_safe s \<le> pid (procs s q)"
            using prem(8) other False by auto
        qed (use prem Cons in \<open>auto simp: pids_def\<close>)
        then show ?thesis using go other False app by simp
      qed
    qed
  qed
qed


lemma unused_pid:
  assumes "length ps < nat MAX_PID - 1"
  obtains f where "1 \<le> f" "f < MAX_PID" "f \<notin> pids s ps"
proof -
  have "card (pids s ps) \<le> length ps" unfolding pids_def using card_image_le [of "set ps"] card_length [of ps]
    by (meson List.finite_set le_trans)
  moreover have "card {1..<MAX_PID} = nat MAX_PID - 1" by (simp add: nat_diff_distrib)
  ultimately have "\<not> {1..<MAX_PID} \<subseteq> pids s ps"
    using assms card_mono [of "pids s ps" "{1..<MAX_PID}"] by (auto simp: pids_def)
  then obtain f where "f \<in> {1..<MAX_PID}" "f \<notin> pids s ps" by blast
  then have "1 \<le> f" "f < MAX_PID" "f \<notin> pids s ps" by simp_all
  then show thesis by (rule that)
qed

lemma get_pid_spec:
  assumes d: "dlist (proc_links s) ProcList (map ProcLink ps)" and w: "pid_window s ps"
    and len: "length ps < nat MAX_PID - 1"
  obtains n m where "get_pid s = Some (n, s\<lparr>last_pid := n, next_safe := m\<rparr>)" "1 \<le> n" "n < m" "m \<le> MAX_PID"
    "\<forall>p\<in>set ps. pid (procs s p) < n \<or> m \<le> pid (procs s p)"
proof -
  note result = that
  obtain f where f: "1 \<le> f" "f < MAX_PID" "f \<notin> pids s ps" by (rule unused_pid [OF len])
  have inside: thesis if s1: "get_pid s = get_pid_inside s1" and e: "s1 = s\<lparr>last_pid := l\<rparr>" "1 \<le> l" "l < MAX_PID" for s1 l
  proof -
    let ?s = "s1\<lparr>next_safe := MAX_PID\<rparr>"
    have "\<exists>l n. get_pid_scan ProcList ?s = Some (?s\<lparr>last_pid := l, next_safe := n\<rparr>) \<and> 1 \<le> l \<and> l < n \<and> n \<le> MAX_PID \<and>
        (\<forall>p\<in>set ([] @ ps). pid (procs ?s p) < l \<or> n \<le> pid (procs ?s p))"
      by (rule get_pid_scan_spec [where f = f]) (use d f e in \<open>auto simp: pids_def\<close>)
    then obtain k n where k: "get_pid_scan ProcList ?s = Some (?s\<lparr>last_pid := k, next_safe := n\<rparr>)" "1 \<le> k" "k < n"
        "n \<le> MAX_PID" "\<forall>p\<in>set ps. pid (procs s p) < k \<or> n \<le> pid (procs s p)"
      unfolding e(1) by auto
    have "get_pid s = Some (k, s\<lparr>last_pid := k, next_safe := n\<rparr>)"
      using k(1) s1 e(1) by (simp add: get_pid_inside_def)
    then show thesis by (rule result) (fact k)+
  qed
  let ?l = "last_pid s + 1"
  note w = w [unfolded pid_window_def]
  consider "?l \<ge> MAX_PID" | "?l < MAX_PID" "?l \<ge> next_safe s" | "?l < MAX_PID" "?l < next_safe s" by linarith
  then show thesis
  proof cases
    case 1
    then show thesis by (intro inside [of "s\<lparr>last_pid := 1\<rparr>" 1])
        (simp_all add: get_pid_def MAX_PID_def MAX_PROCESS_def)
  next
    case 2
    then show thesis using w by (intro inside [of "s\<lparr>last_pid := ?l\<rparr>" ?l]) (simp_all add: get_pid_def)
  next
    case 3
    have "\<forall>p\<in>set ps. pid (procs s p) < ?l \<or> next_safe s \<le> pid (procs s p)" using w by force
    then show thesis using 3 w result [of ?l "next_safe s"] by (simp add: get_pid_def)
  qed
qed


section \<open>Lists that share a store\<close>

lemma dlist_ends:
  "dlist L h ys \<Longrightarrow> next_of L h \<in> set (h # ys)" "dlist L h ys \<Longrightarrow> prev_of L h \<in> set (h # ys)"
  using dlist_next_head [of L h ys] by (cases ys; auto)+

lemma dlist_inner:
  assumes "dlist L h ys" "e \<in> set ys"
  shows "next_of L e \<in> set (h # ys)" "prev_of L e \<in> set (h # ys)"
proof -
  obtain as bs where ys: "ys = as @ e # bs" using assms(2) split_list by metis
  have "hd (bs @ [h]) \<in> set (h # bs)" by (cases bs) auto
  moreover have "last (h # as) \<in> set (h # as)" by (rule last_in_set) simp
  ultimately show "next_of L e \<in> set (h # ys)" "prev_of L e \<in> set (h # ys)"
    using dlist_next_prev [OF assms(1) [unfolded ys]] ys by auto
qed

lemma dlist_add_other:
  assumes "dlist L h xs" "dlist L g ys" "set (h # xs) \<inter> set (g # ys) = {}" "e \<notin> set (h # xs)"
  shows "dlist (list_add g e L) h xs"
proof (rule dlist_frame [OF assms(1)])
  have n: "next_of L g \<notin> set (h # xs)" using dlist_ends(1) [OF assms(2)] assms(3) by blast
  fix x assume "x \<in> set (h # xs)"
  then have "x \<noteq> g" "x \<noteq> e" "x \<noteq> next_of L g" using assms(3,4) n by auto
  then show "next_of (list_add g e L) x = next_of L x" "prev_of (list_add g e L) x = prev_of L x"
    by (simp_all add: list_add_def list_add_after_def links_simps)
qed

lemma dlist_del_other:
  assumes "dlist L h xs" "dlist L g ys" "set (h # xs) \<inter> set (g # ys) = {}" "e \<in> set ys"
  shows "dlist (list_del e L) h xs"
proof (rule dlist_frame [OF assms(1)])
  note n = dlist_inner [OF assms(2,4)]
  fix x assume "x \<in> set (h # xs)"
  then have "x \<noteq> next_of L e" "x \<noteq> prev_of L e" using assms(3) n by blast+
  then show "next_of (list_del e L) x = next_of L x" "prev_of (list_del e L) x = prev_of L x"
    by (simp_all add: list_del_def links_simps)
qed

section \<open>The hash table as a set of processes\<close>

definition in_bucket :: "'a proctab_scheme \<Rightarrow> nat \<Rightarrow> proc_ptr \<Rightarrow> bool" where
  "in_bucket s b p \<longleftrightarrow> pid_hashfn (pid (procs s p)) = b"

definition bucket :: "'a proctab_scheme \<Rightarrow> nat \<Rightarrow> proc_ptr list \<Rightarrow> bool" where
  "bucket s b qs \<longleftrightarrow> dlist (hash_links s) (HashList b) (map HashLink qs)"

definition hash_rep :: "'a proctab_scheme \<Rightarrow> proc_ptr list \<Rightarrow> bool" where
  "hash_rep s ps \<longleftrightarrow> (\<forall>b<HASH_LIST_SIZE. \<exists>qs. bucket s b qs \<and> set qs = {p \<in> set ps. in_bucket s b p})"

lemma pid_hashfn_less: "pid_hashfn n < HASH_LIST_SIZE"
proof -
  have "unat (drop_bit 22 (x :: 32 word)) < 2 ^ 10" for x
  proof -
    have "unat (drop_bit 22 x) = unat x div 2 ^ 22"
      unfolding unat_drop_bit_eq by (rule drop_bit_eq_div)
    then show ?thesis using unat_u32_less [of x] by (simp add: less_mult_imp_div_less)
  qed
  then show ?thesis by (simp add: pid_hashfn_def hash32_def HASH_SHIFT_def HASH_LIST_SIZE_def Let_def)
qed

lemma hash_repE:
  assumes "hash_rep s ps" "b < HASH_LIST_SIZE"
  obtains qs where "bucket s b qs" "set qs = {p \<in> set ps. in_bucket s b p}"
  using assms by (auto simp: hash_rep_def)

lemma hash_rep_cong:
  assumes "hash_links s' = hash_links s" "\<And>p. p \<in> set ps \<Longrightarrow> pid (procs s' p) = pid (procs s p)" "set ps' = set ps"
  shows "hash_rep s' ps' = hash_rep s ps"
proof -
  have "{p \<in> set ps'. in_bucket s' b p} = {p \<in> set ps. in_bucket s b p}" for b
    using assms(2,3) by (auto simp: in_bucket_def)
  then show ?thesis using assms(1) by (simp add: hash_rep_def bucket_def)
qed

lemma buckets_apart:
  assumes "set qs \<subseteq> {p \<in> A. in_bucket s b p}" "set rs \<subseteq> {p \<in> A. in_bucket s c p}" "b \<noteq> c"
  shows "set (HashList b # map HashLink qs) \<inter> set (HashList c # map HashLink rs) = {}"
  using assms by (auto simp: in_bucket_def)

lemma hash_proc_rep:
  assumes h: "hash_rep s ps" and p: "p \<notin> set ps"
  shows "hash_rep (hash_proc p s) (p # ps)"
  unfolding hash_rep_def
proof (intro allI impI)
  let ?c = "pid_hashfn (pid (procs s p))"
  let ?s = "hash_proc p s"
  have inb: "in_bucket ?s b q = in_bucket s b q" for b q by (simp add: in_bucket_def hash_proc_def)
  obtain rs where rs: "bucket s ?c rs" "set rs = {q \<in> set ps. in_bucket s ?c q}"
    by (rule hash_repE [OF h pid_hashfn_less])
  fix b assume b: "b < HASH_LIST_SIZE"
  show "\<exists>qs. bucket ?s b qs \<and> set qs = {q \<in> set (p # ps). in_bucket ?s b q}"
  proof (cases "b = ?c")
    case True
    have d: "dlist (hash_links s) (HashList ?c) ([] @ map HashLink rs)" using rs(1) by (simp add: bucket_def)
    have new: "HashLink p \<notin> set (HashList ?c # [] @ map HashLink rs)" using rs(2) p by auto
    have "dlist (hash_links ?s) (HashList ?c) ([] @ HashLink p # map HashLink rs)"
      using dlist_add [OF d new, of "HashList ?c"] by (simp add: hash_proc_def)
    then have "bucket ?s b (p # rs)" using True by (simp add: bucket_def)
    moreover have "set (p # rs) = {q \<in> set (p # ps). in_bucket ?s b q}"
      using rs(2) True inb by (auto simp: in_bucket_def)
    ultimately show ?thesis by blast
  next
    case False
    obtain qs where qs: "bucket s b qs" "set qs = {q \<in> set ps. in_bucket s b q}" by (rule hash_repE [OF h b])
    have ap: "set (HashList b # map HashLink qs) \<inter> set (HashList ?c # map HashLink rs) = {}"
      by (rule buckets_apart [of _ "set ps" s]) (use qs rs False in auto)
    have "bucket ?s b qs"
      using dlist_add_other [OF qs(1) [unfolded bucket_def] rs(1) [unfolded bucket_def] ap, of "HashLink p"] qs(2) p
      by (auto simp: bucket_def hash_proc_def)
    moreover have "set qs = {q \<in> set (p # ps). in_bucket ?s b q}"
      using qs(2) False inb by (auto simp: in_bucket_def)
    ultimately show ?thesis by blast
  qed
qed

lemma unhash_proc_rep:
  assumes h: "hash_rep s ps" and p: "p \<in> set ps"
  shows "hash_rep (unhash_proc p s) (removeAll p ps)"
  unfolding hash_rep_def
proof (intro allI impI)
  let ?c = "pid_hashfn (pid (procs s p))"
  let ?s = "unhash_proc p s"
  have inb: "in_bucket ?s b q = in_bucket s b q" for b q by (simp add: in_bucket_def unhash_proc_def)
  obtain rs where rs: "bucket s ?c rs" "set rs = {q \<in> set ps. in_bucket s ?c q}"
    by (rule hash_repE [OF h pid_hashfn_less])
  have "p \<in> set rs" using rs(2) p by (simp add: in_bucket_def)
  then obtain as bs where ab: "rs = as @ p # bs" using split_list by metis
  have d: "dlist (hash_links s) (HashList ?c) (map HashLink as @ HashLink p # map HashLink bs)"
    using rs(1) ab by (simp add: bucket_def)
  have dist: "p \<notin> set as" "p \<notin> set bs" using dlist_distinct(1) [OF d] by auto
  fix b assume b: "b < HASH_LIST_SIZE"
  show "\<exists>qs. bucket ?s b qs \<and> set qs = {q \<in> set (removeAll p ps). in_bucket ?s b q}"
  proof (cases "b = ?c")
    case True
    have "bucket ?s b (as @ bs)" using dlist_del [OF d] True by (simp add: bucket_def unhash_proc_def)
    moreover have "set (as @ bs) = {q \<in> set (removeAll p ps). in_bucket ?s b q}"
    proof -
      have "set (as @ bs) = set rs - {p}" using ab dist by auto
      then show ?thesis using rs(2) True inb by auto
    qed
    ultimately show ?thesis by blast
  next
    case False
    obtain qs where qs: "bucket s b qs" "set qs = {q \<in> set ps. in_bucket s b q}" by (rule hash_repE [OF h b])
    have ap: "set (HashList b # map HashLink qs) \<inter> set (HashList ?c # map HashLink rs) = {}"
      by (rule buckets_apart [of _ "set ps" s]) (use qs rs False in auto)
    have "bucket ?s b qs"
      using dlist_del_other [OF qs(1) [unfolded bucket_def] rs(1) [unfolded bucket_def] ap, of "HashLink p"]
        \<open>p \<in> set rs\<close> by (simp add: bucket_def unhash_proc_def)
    moreover have "set qs = {q \<in> set (removeAll p ps). in_bucket ?s b q}"
      using qs(2) False inb by (auto simp: in_bucket_def)
    ultimately show ?thesis by blast
  qed
qed

lemma find_proc_loop_spec:
  assumes "dlist (hash_links s) (HashList b) (map HashLink (qs @ rs))"
    and "le = last (HashList b # map HashLink qs)"
  shows "find_proc_loop n (HashList b) le s = Some (List.find (\<lambda>p. pid (procs s p) = n) rs)"
  using assms
proof (induction rs arbitrary: qs le)
  case Nil
  then have "list_next le (hash_links s) = HashList b"
    using dlist_next_last [of "hash_links s" "HashList b" "map HashLink qs" "[]"] by (simp add: list_next_def)
  then show ?case by (subst find_proc_loop.simps) simp
next
  case (Cons p rs)
  have "list_next le (hash_links s) = HashLink p"
    using Cons.prems dlist_next_last [of "hash_links s" "HashList b" "map HashLink qs" "map HashLink (p # rs)"]
    by (simp add: list_next_def)
  moreover have "find_proc_loop n (HashList b) (HashLink p) s = Some (List.find (\<lambda>p. pid (procs s p) = n) rs)"
    by (rule Cons.IH [of "qs @ [p]"]) (use Cons.prems in simp_all)
  ultimately show ?case by (subst find_proc_loop.simps) simp
qed

lemma find_proc_spec:
  assumes h: "hash_rep s ps" and inj: "inj_on (\<lambda>p. pid (procs s p)) (set ps)"
    and range: "\<forall>p\<in>set ps. 0 < pid (procs s p) \<and> pid (procs s p) < MAX_PID"
  obtains r where "find_proc n s = Some r" "\<And>p. r = Some p \<longleftrightarrow> p \<in> set ps \<and> pid (procs s p) = n"
proof (cases "0 < n \<and> n < MAX_PID")
  case True
  let ?b = "pid_hashfn n"
  obtain qs where qs: "bucket s ?b qs" "set qs = {p \<in> set ps. in_bucket s ?b p}"
    by (rule hash_repE [OF h pid_hashfn_less])
  have f: "find_proc n s = Some (List.find (\<lambda>p. pid (procs s p) = n) qs)"
    using find_proc_loop_spec [of s ?b "[]" qs _ n] qs(1) True by (simp add: find_proc_def bucket_def Let_def)
  have mem: "p \<in> set qs \<longleftrightarrow> p \<in> set ps" if "pid (procs s p) = n" for p
    using that qs(2) by (auto simp: in_bucket_def)
  show thesis
  proof (rule that [OF f])
    fix p show "List.find (\<lambda>p. pid (procs s p) = n) qs = Some p \<longleftrightarrow> p \<in> set ps \<and> pid (procs s p) = n"
    proof
      assume "List.find (\<lambda>p. pid (procs s p) = n) qs = Some p"
      then have "p \<in> set qs \<and> pid (procs s p) = n" by (auto simp: find_Some_iff)
      then show "p \<in> set ps \<and> pid (procs s p) = n" using mem by blast
    next
      assume p: "p \<in> set ps \<and> pid (procs s p) = n"
      then have "p \<in> set qs" using mem by blast
      then obtain q where q: "List.find (\<lambda>p. pid (procs s p) = n) qs = Some q"
        using p by (cases "List.find (\<lambda>p. pid (procs s p) = n) qs") (auto simp: find_None_iff)
      then have "q \<in> set qs \<and> pid (procs s q) = n" by (auto simp: find_Some_iff)
      then have "q = p" using p mem inj by (auto dest: inj_onD)
      then show "List.find (\<lambda>p. pid (procs s p) = n) qs = Some p" using q by simp
    qed
  qed
next
  case False
  then have "find_proc n s = Some None" by (auto simp: find_proc_def)
  then show thesis using that [of None] False range by auto
qed


section \<open>Families\<close>

text \<open>
  \<open>sibs P y r cs y' r'\<close>: following \<open>optr\<close> from \<open>r\<close> gives the processes \<open>cs\<close> and then \<open>r'\<close>; the
  \<open>yptr\<close> of the first is \<open>y\<close>, of every other its predecessor, and \<open>y'\<close> is the last one (or \<open>y\<close>).
\<close>

primrec sibs :: "(proc_ptr \<Rightarrow> proc_struct) \<Rightarrow> proc_ptr option \<Rightarrow> proc_ptr option \<Rightarrow> proc_ptr list \<Rightarrow>
    proc_ptr option \<Rightarrow> proc_ptr option \<Rightarrow> bool" where
  "sibs P y r [] y' r' \<longleftrightarrow> y' = y \<and> r' = r"
| "sibs P y r (c # cs) y' r' \<longleftrightarrow> r = Some c \<and> yptr (P c) = y \<and> sibs P (Some c) (optr (P c)) cs y' r'"

lemma sibs_append:
  "sibs P y r (as @ bs) y' r' \<longleftrightarrow> (\<exists>m n. sibs P y r as m n \<and> sibs P m n bs y' r')"
  by (induction as arbitrary: y r) auto

lemma sibs_cong:
  assumes "\<And>c. c \<in> set cs \<Longrightarrow> yptr (Q c) = yptr (P c) \<and> optr (Q c) = optr (P c)"
  shows "sibs Q y r cs y' r' \<longleftrightarrow> sibs P y r cs y' r'"
  using assms by (induction cs arbitrary: y r) auto

lemma sibs_last: "sibs P y r cs y' r' \<Longrightarrow> y' = (if cs = [] then y else Some (last cs))"
  by (induction cs arbitrary: y r) auto

lemma sibs_first: "sibs P y r cs y' r' \<Longrightarrow> r = (if cs = [] then r' else Some (hd cs))"
  by (cases cs) auto

lemma sibs_set_optr:
  assumes "sibs P y r (as @ [c]) y' r'" "c \<notin> set as" "optr (f (P c)) = n" "yptr (f (P c)) = yptr (P c)"
  shows "sibs (P(c := f (P c))) y r (as @ [c]) y' n"
proof -
  obtain m k where "sibs P y r as m k" "sibs P m k [c] y' r'" using assms(1) by (auto simp: sibs_append)
  moreover have "sibs (P(c := f (P c))) y r as m k = sibs P y r as m k" by (rule sibs_cong) (use assms(2) in auto)
  ultimately show ?thesis using assms(3,4) by (auto simp: sibs_append)
qed

lemma sibs_set_yptr:
  assumes "sibs P y r (c # cs) y' r'" "c \<notin> set cs" "yptr (f (P c)) = z" "optr (f (P c)) = optr (P c)"
  shows "sibs (P(c := f (P c))) z r (c # cs) y' r'"
proof -
  have "sibs (P(c := f (P c))) (Some c) (optr (P c)) cs y' r' = sibs P (Some c) (optr (P c)) cs y' r'"
    by (rule sibs_cong) (use assms(2) in auto)
  then show ?thesis using assms by auto
qed

text \<open>The children of \<open>p\<close>, youngest first, are \<open>cs\<close>.\<close>

definition children :: "(proc_ptr \<Rightarrow> proc_struct) \<Rightarrow> proc_ptr \<Rightarrow> proc_ptr list \<Rightarrow> bool" where
  "children P p cs \<longleftrightarrow> distinct cs \<and> (\<exists>y. sibs P None (cptr (P p)) cs y None)"

definition family_rep :: "(proc_ptr \<Rightarrow> proc_struct) \<Rightarrow> proc_ptr set \<Rightarrow> proc_ptr \<Rightarrow> (proc_ptr \<Rightarrow> proc_ptr list) \<Rightarrow> bool" where
  "family_rep P A i kids \<longleftrightarrow> i \<notin> A \<and>
     (\<forall>p\<in>insert i A. children P p (kids p) \<and> set (kids p) = {c \<in> A. parent (P c) = Some p}) \<and>
     (\<forall>c\<in>A. \<exists>p\<in>insert i A. parent (P c) = Some p \<and> p \<noteq> c)"

lemma children_cong:
  assumes "cptr (Q p) = cptr (P p)" "\<And>c. c \<in> set cs \<Longrightarrow> yptr (Q c) = yptr (P c) \<and> optr (Q c) = optr (P c)"
  shows "children Q p cs = children P p cs"
proof -
  have "sibs Q None r cs y None = sibs P None r cs y None" for r y by (rule sibs_cong) (rule assms(2))
  then show ?thesis by (simp add: children_def assms(1))
qed

lemma family_rep_cong:
  assumes "\<And>p. p \<in> insert i A \<Longrightarrow> cptr (Q p) = cptr (P p) \<and> yptr (Q p) = yptr (P p) \<and> optr (Q p) = optr (P p) \<and>
      parent (Q p) = parent (P p)"
  shows "family_rep Q A i kids = family_rep P A i kids"
proof -
  have "{c \<in> A. parent (Q c) = Some p} = {c \<in> A. parent (P c) = Some p}" for p
    using assms by auto
  then have 1: "set (kids p) = {c \<in> A. parent (Q c) = Some p} \<longleftrightarrow> set (kids p) = {c \<in> A. parent (P c) = Some p}" for p
    by simp
  have 2: "children Q p (kids p) = children P p (kids p)"
    if "p \<in> insert i A" "set (kids p) = {c \<in> A. parent (P c) = Some p}" for p
    by (rule children_cong) (use assms that in auto)
  have "(\<forall>p\<in>insert i A. children Q p (kids p) \<and> set (kids p) = {c \<in> A. parent (Q c) = Some p}) \<longleftrightarrow>
      (\<forall>p\<in>insert i A. children P p (kids p) \<and> set (kids p) = {c \<in> A. parent (P c) = Some p})"
  proof (rule ball_cong [OF refl])
    fix p assume "p \<in> insert i A"
    then show "children Q p (kids p) \<and> set (kids p) = {c \<in> A. parent (Q c) = Some p} \<longleftrightarrow>
        children P p (kids p) \<and> set (kids p) = {c \<in> A. parent (P c) = Some p}"
      using 1 [of p] 2 [of p] by blast
  qed
  moreover have "(\<forall>c\<in>A. \<exists>p\<in>insert i A. parent (Q c) = Some p \<and> p \<noteq> c) \<longleftrightarrow>
      (\<forall>c\<in>A. \<exists>p\<in>insert i A. parent (P c) = Some p \<and> p \<noteq> c)"
    using assms by simp
  ultimately show ?thesis by (simp add: family_rep_def)
qed

lemma family_kids:
  assumes "family_rep P A i kids" "p \<in> insert i A"
  shows "children P p (kids p)" "distinct (kids p)" "c \<in> set (kids p) \<longleftrightarrow> c \<in> A \<and> parent (P c) = Some p"
  using assms by (auto simp: family_rep_def children_def)

text \<open>A new process at the head of the children of \<open>pa\<close>.\<close>

lemma family_add:
  assumes fam: "family_rep P A i kids" and p: "p \<notin> insert i A" and pa: "pa \<in> insert i A"
    and Q: "parent (Q p) = Some pa" "cptr (Q p) = None" "yptr (Q p) = None" "optr (Q p) = cptr (P pa)"
      "cptr (Q pa) = Some p"
      "\<And>q. q \<noteq> p \<Longrightarrow> parent (Q q) = parent (P q)"
      "\<And>q. q \<noteq> p \<Longrightarrow> q \<noteq> pa \<Longrightarrow> cptr (Q q) = cptr (P q)"
      "\<And>q. q \<noteq> p \<Longrightarrow> optr (Q q) = optr (P q)"
      "\<And>q. q \<noteq> p \<Longrightarrow> yptr (Q q) = (if cptr (P pa) = Some q then Some p else yptr (P q))"
  shows "family_rep Q (insert p A) i (kids(pa := p # kids pa, p := []))"
proof -
  note F = family_kids [OF fam]
  have np: "p \<noteq> pa" "p \<noteq> i" using p pa by auto
  have kA: "set (kids q) \<subseteq> A" if "q \<in> insert i A" for q using F(3) [OF that] by blast
  obtain y where y: "sibs P None (cptr (P pa)) (kids pa) y None" using F(1) [OF pa] by (auto simp: children_def)
  have hd: "cptr (P pa) = (if kids pa = [] then None else Some (hd (kids pa)))" by (rule sibs_first [OF y])
  have new: "sibs Q (Some p) (cptr (P pa)) (kids pa) (if kids pa = [] then Some p else y) None"
  proof (cases "kids pa")
    case Nil
    then show ?thesis using y by simp
  next
    case (Cons c cs)
    have c: "c \<noteq> p" "c \<notin> set cs" "p \<notin> set cs" using F(2) [OF pa] kA [OF pa] p Cons by auto
    have "sibs Q (Some c) (optr (P c)) cs y None = sibs P (Some c) (optr (P c)) cs y None"
    proof (rule sibs_cong)
      fix k assume "k \<in> set cs"
      then have "k \<noteq> p" "k \<noteq> c" using c by auto
      then show "yptr (Q k) = yptr (P k) \<and> optr (Q k) = optr (P k)" using Q(8,9) hd Cons by simp
    qed
    then show ?thesis using y Cons Q(8,9) c hd by auto
  qed
  have other: "children Q q (kids q)" if q: "q \<in> insert i A" "q \<noteq> pa" for q
  proof -
    have "children Q q (kids q) = children P q (kids q)"
    proof (rule children_cong)
      show "cptr (Q q) = cptr (P q)" by (rule Q(7)) (use q p in auto)
      fix c assume c: "c \<in> set (kids q)"
      then have "c \<in> A" "parent (P c) = Some q" using F(3) [OF q(1)] by auto
      moreover have "cptr (P pa) \<noteq> Some c"
        using hd F(3) [OF pa, of c] q(2) \<open>parent (P c) = Some q\<close> by (metis hd_in_set option.inject option.distinct(1))
      moreover have "c \<noteq> p" using \<open>c \<in> A\<close> p by auto
      ultimately show "yptr (Q c) = yptr (P c) \<and> optr (Q c) = optr (P c)" using Q(8,9) by simp
    qed
    then show ?thesis using F(1) [OF q(1)] by simp
  qed
  have chpa: "children Q pa (p # kids pa)"
    using new Q(3-5) F(2) [OF pa] kA [OF pa] p by (auto simp: children_def)
  have chp: "children Q p []" using Q(2) by (simp add: children_def)
  have nop: "parent (P c) \<noteq> Some p" if "c \<in> A" for c using fam that p by (auto simp: family_rep_def)
  have i: "i \<notin> A" using fam by (simp add: family_rep_def)
  show ?thesis
    unfolding family_rep_def
  proof (intro conjI ballI)
    show "i \<notin> insert p A" using np i by auto
    fix q assume q: "q \<in> insert i (insert p A)"
    show "children Q q ((kids(pa := p # kids pa, p := [])) q)" using q chpa chp other np by auto
    show "set ((kids(pa := p # kids pa, p := [])) q) = {c \<in> insert p A. parent (Q c) = Some q}"
    proof (cases "q = p")
      case True
      have "parent (Q c) \<noteq> Some p" if "c \<in> insert p A" for c using that Q(1,6) nop np by (cases "c = p") auto
      then show ?thesis using True by auto
    next
      case False
      then have qA: "q \<in> insert i A" using q by auto
      have "{c \<in> insert p A. parent (Q c) = Some q} = (if q = pa then {p} else {}) \<union> {c \<in> A. parent (P c) = Some q}"
        using Q(1,6) p by (auto; metis)
      then show ?thesis using F(3) [OF qA] False by auto
    qed
  next
    fix c assume c: "c \<in> insert p A"
    show "\<exists>q\<in>insert i (insert p A). parent (Q c) = Some q \<and> q \<noteq> c"
    proof (cases "c = p")
      case True
      then show ?thesis using Q(1) pa np by auto
    next
      case False
      then show ?thesis using fam c Q(6) [OF False] by (auto simp: family_rep_def)
    qed
  qed
qed


text \<open>The childless process \<open>p\<close> leaves the children of its parent \<open>pa\<close>.\<close>

lemma children_remove:
  assumes ch: "children P pa (as @ p # bs)"
    and Q: "\<And>q. cptr (Q q) = (if q = pa \<and> yptr (P p) = None then optr (P p) else cptr (P q))"
      "\<And>q. optr (Q q) = (if yptr (P p) = Some q then optr (P p) else optr (P q))"
      "\<And>q. yptr (Q q) = (if optr (P p) = Some q then yptr (P p) else yptr (P q))"
  shows "children Q pa (as @ bs)"
proof -
  obtain y' m where dist: "distinct (as @ p # bs)" and m: "sibs P None (cptr (P pa)) as m (Some p)"
      "yptr (P p) = m" "sibs P (Some p) (optr (P p)) bs y' None"
    using ch by (auto simp: children_def sibs_append)
  have last: "m = (if as = [] then None else Some (last as))" by (rule sibs_last [OF m(1)])
  have first: "optr (P p) = (if bs = [] then None else Some (hd bs))" by (rule sibs_first [OF m(3)])
  have as: "sibs Q None (cptr (Q pa)) as m (optr (P p))"
  proof (cases as rule: rev_cases)
    case Nil
    then show ?thesis using m last Q(1) by simp
  next
    case (snoc as' a)
    have c: "cptr (Q pa) = cptr (P pa)" using snoc last m(2) Q(1) by simp
    obtain k n where k: "sibs P None (cptr (P pa)) as' k n" "sibs P k n [a] m (Some p)"
      using m(1) snoc by (auto simp: sibs_append)
    have nb: "optr (P p) \<noteq> Some q" if "q \<in> set as" for q
      using that first dist by (cases bs) auto
    have "sibs Q None (cptr (P pa)) as' k n = sibs P None (cptr (P pa)) as' k n"
    proof (rule sibs_cong)
      fix q assume q: "q \<in> set as'"
      then have "q \<noteq> a" using dist snoc by auto
      then show "yptr (Q q) = yptr (P q) \<and> optr (Q q) = optr (P q)"
        using Q(2,3) nb [of q] q snoc last m(2) by auto
    qed
    moreover have "sibs Q k n [a] m (optr (P p))"
      using k(2) Q(2,3) nb [of a] snoc last m(2) by auto
    ultimately show ?thesis unfolding c snoc using k(1) by (auto simp: sibs_append)
  qed
  have "\<exists>y. sibs Q m (optr (P p)) bs y None"
  proof (cases bs)
    case Nil
    then show ?thesis using first by simp
  next
    case (Cons b bs')
    have no: "yptr (P p) \<noteq> Some q" if "q \<in> set bs" for q
      using that last m(2) dist by (cases as rule: rev_cases) auto
    have "sibs Q (Some b) (optr (P b)) bs' y' None = sibs P (Some b) (optr (P b)) bs' y' None"
    proof (rule sibs_cong)
      fix q assume q: "q \<in> set bs'"
      then have "q \<noteq> b" using dist Cons by auto
      then show "yptr (Q q) = yptr (P q) \<and> optr (Q q) = optr (P q)"
        using Q(2,3) no [of q] q Cons first by auto
    qed
    then show ?thesis using m(2,3) Cons first Q(2,3) no [of b] by auto
  qed
  then have "\<exists>y. sibs Q None (cptr (Q pa)) (as @ bs) y None" using as by (auto simp: sibs_append)
  then show ?thesis using dist by (simp add: children_def)
qed

lemma family_remove:
  assumes fam: "family_rep P A i kids" and p: "p \<in> A" and pa: "parent (P p) = Some pa" and np: "kids p = []"
    and Q: "\<And>q. parent (Q q) = parent (P q)"
      "\<And>q. cptr (Q q) = (if q = pa \<and> yptr (P p) = None then optr (P p) else cptr (P q))"
      "\<And>q. optr (Q q) = (if yptr (P p) = Some q then optr (P p) else optr (P q))"
      "\<And>q. yptr (Q q) = (if optr (P p) = Some q then yptr (P p) else yptr (P q))"
  shows "family_rep Q (A - {p}) i (kids(pa := removeAll p (kids pa)))"
proof -
  note F = family_kids [OF fam]
  have paA: "pa \<in> insert i A" "pa \<noteq> p" using fam p pa by (auto simp: family_rep_def)
  have "p \<in> set (kids pa)" using F(3) [OF paA(1)] p pa by simp
  then obtain as bs where ab: "kids pa = as @ p # bs" using split_list by metis
  have ndist: "p \<notin> set as" "p \<notin> set bs" using F(2) [OF paA(1)] ab by auto
  have rem: "removeAll p (kids pa) = as @ bs" using ab ndist by simp
  obtain y' m where m: "sibs P None (cptr (P pa)) as m (Some p)"
      "yptr (P p) = m" "sibs P (Some p) (optr (P p)) bs y' None"
    using F(1) [OF paA(1)] ab by (auto simp: children_def sibs_append)
  have ends: "q \<in> set (kids pa)" if "yptr (P p) = Some q \<or> optr (P p) = Some q" for q
    using that sibs_last [OF m(1)] sibs_first [OF m(3)] m(2) ab by (auto split: if_splits)
  have other: "children Q q (kids q)" if q: "q \<in> insert i A" "q \<noteq> pa" for q
  proof -
    have "children Q q (kids q) = children P q (kids q)"
    proof (rule children_cong)
      show "cptr (Q q) = cptr (P q)" using Q(2) q by simp
      fix c assume "c \<in> set (kids q)"
      then have "c \<notin> set (kids pa)" using F(3) [OF q(1)] F(3) [OF paA(1)] q(2) by auto
      then show "yptr (Q c) = yptr (P c) \<and> optr (Q c) = optr (P c)" using Q(3,4) ends by auto
    qed
    then show ?thesis using F(1) [OF q(1)] by simp
  qed
  have chpa: "children Q pa (as @ bs)"
    by (rule children_remove [OF _ Q(2-4)]) (use F(1) [OF paA(1)] ab in simp)
  have nop: "parent (P c) \<noteq> Some p" if "c \<in> A" for c
    using F(3) [of p c] p np that by auto
  have i: "i \<notin> A" using fam by (simp add: family_rep_def)
  show ?thesis
    unfolding family_rep_def
  proof (intro conjI ballI)
    show "i \<notin> A - {p}" using i by simp
    fix q assume q: "q \<in> insert i (A - {p})"
    then have qA: "q \<in> insert i A" by auto
    show "children Q q ((kids(pa := removeAll p (kids pa))) q)" using qA chpa other rem by simp
    show "set ((kids(pa := removeAll p (kids pa))) q) = {c \<in> A - {p}. parent (Q c) = Some q}"
      using F(3) [OF qA] pa Q(1) by (cases "q = pa") auto
  next
    fix c assume c: "c \<in> A - {p}"
    then have "c \<in> A" by simp
    then obtain q where "q \<in> insert i A" "parent (P c) = Some q" "q \<noteq> c"
      using fam unfolding family_rep_def by blast
    then show "\<exists>q\<in>insert i (A - {p}). parent (Q c) = Some q \<and> q \<noteq> c"
      using nop [of c] c Q(1) by (intro bexI [of _ q]) auto
  qed
qed


section \<open>The process table\<close>

text \<open>
  The live processes other than the idle process \<open>i\<close> are \<open>ps\<close>, the children of each are given by
  \<open>kids\<close>. This is the invariant of the table.
\<close>

definition proctab_rep :: "'a proctab_scheme \<Rightarrow> proc_ptr \<Rightarrow> proc_ptr list \<Rightarrow> (proc_ptr \<Rightarrow> proc_ptr list) \<Rightarrow> bool" where
  "proctab_rep s i ps kids \<longleftrightarrow>
     dlist (proc_links s) ProcList (map ProcLink ps) \<and> hash_rep s ps \<and> family_rep (procs s) (set ps) i kids \<and>
     inj_on (\<lambda>p. pid (procs s p)) (set ps) \<and> (\<forall>p\<in>set ps. 0 < pid (procs s p) \<and> pid (procs s p) < MAX_PID) \<and>
     pid_window s ps \<and> nr_process s = int (length ps) + 1"

lemma proctab_repD:
  assumes "proctab_rep s i ps kids"
  shows "dlist (proc_links s) ProcList (map ProcLink ps)" "hash_rep s ps" "family_rep (procs s) (set ps) i kids"
    "inj_on (\<lambda>p. pid (procs s p)) (set ps)" "\<forall>p\<in>set ps. 0 < pid (procs s p) \<and> pid (procs s p) < MAX_PID"
    "pid_window s ps" "nr_process s = int (length ps) + 1" "distinct ps"
  using assms dlist_distinct(1) [of "proc_links s" ProcList "map ProcLink ps"]
  by (simp_all add: proctab_rep_def distinct_map)

text \<open>A descriptor without its family links.\<close>

definition no_family :: "proc_struct \<Rightarrow> proc_struct" where
  "no_family d = d\<lparr>cptr := None, yptr := None, optr := None\<rparr>"

lemma no_family_fields:
  assumes "no_family d = no_family e"
  shows "pid d = pid e" "parent d = parent e" "state d = state e" "wait_state d = wait_state e" "flags d = flags e"
    "exit_code d = exit_code e" "kstack d = kstack e" "mm d = mm e" "filesp d = filesp e" "on_rq d = on_rq e"
    "time_slice d = time_slice e" "lab6_stride d = lab6_stride e" "lab6_priority d = lab6_priority e"
proof -
  note e = assms [unfolded no_family_def]
  show "pid d = pid e" using arg_cong [OF e, of pid] by simp
  show "parent d = parent e" using arg_cong [OF e, of parent] by simp
  show "state d = state e" using arg_cong [OF e, of state] by simp
  show "wait_state d = wait_state e" using arg_cong [OF e, of wait_state] by simp
  show "flags d = flags e" using arg_cong [OF e, of flags] by simp
  show "exit_code d = exit_code e" using arg_cong [OF e, of exit_code] by simp
  show "kstack d = kstack e" using arg_cong [OF e, of kstack] by simp
  show "mm d = mm e" using arg_cong [OF e, of mm] by simp
  show "filesp d = filesp e" using arg_cong [OF e, of filesp] by simp
  show "on_rq d = on_rq e" using arg_cong [OF e, of on_rq] by simp
  show "time_slice d = time_slice e" using arg_cong [OF e, of time_slice] by simp
  show "lab6_stride d = lab6_stride e" using arg_cong [OF e, of lab6_stride] by simp
  show "lab6_priority d = lab6_priority e" using arg_cong [OF e, of lab6_priority] by simp
qed

lemma no_family_upd [simp]:
  "no_family (d\<lparr>cptr := x\<rparr>) = no_family d" "no_family (d\<lparr>yptr := x\<rparr>) = no_family d"
  "no_family (d\<lparr>optr := x\<rparr>) = no_family d"
  by (simp_all add: no_family_def)

lemma set_links_spec:
  assumes fam: "family_rep (procs s) A i kids" and p: "p \<notin> insert i A"
    and pa: "parent (procs s p) = Some pa" "pa \<in> insert i A" and c: "cptr (procs s p) = None"
  obtains s' where "set_links p s = Some s'"
    "s' = (upd_proc_links (list_add ProcList (ProcLink p)) s)\<lparr>procs := procs s', nr_process := nr_process s + 1\<rparr>"
    "\<And>q. no_family (procs s' q) = no_family (procs s q)"
    "family_rep (procs s') (insert p A) i (kids(pa := p # kids pa, p := []))"
proof -
  let ?P = "procs s"
  note F = family_kids [OF fam]
  have np: "p \<noteq> pa" "pa \<noteq> p" using p pa(2) by auto
  obtain y where "sibs ?P None (cptr (?P pa)) (kids pa) y None" using F(1) [OF pa(2)] by (auto simp: children_def)
  then have hd: "cptr (?P pa) = (if kids pa = [] then None else Some (hd (kids pa)))" by (rule sibs_first)
  have hq: "q \<noteq> p \<and> q \<noteq> pa" if "cptr (?P pa) = Some q" for q
  proof -
    have "q \<in> set (kids pa)" using that hd by (auto split: if_splits)
    then have "q \<in> A" "parent (?P q) = Some pa" using F(3) [OF pa(2)] by auto
    then show ?thesis using p fam by (auto simp: family_rep_def)
  qed
  define Q where "Q = (\<lambda>q. if q = p then (?P p)\<lparr>yptr := None, optr := cptr (?P pa)\<rparr>
      else if q = pa then (?P pa)\<lparr>cptr := Some p\<rparr>
      else if cptr (?P pa) = Some q then (?P q)\<lparr>yptr := Some p\<rparr> else ?P q)"
  let ?s = "(upd_proc_links (list_add ProcList (ProcLink p)) s)\<lparr>procs := Q, nr_process := nr_process s + 1\<rparr>"
  have eq: "set_links p s = Some ?s"
  proof (cases "cptr (?P pa)")
    case None
    then have "Q = (?P)(p := (?P p)\<lparr>yptr := None, optr := None\<rparr>, pa := (?P pa)\<lparr>cptr := Some p\<rparr>)"
      using np by (auto simp: Q_def fun_eq_iff)
    then show ?thesis using pa(1) np None by (simp add: set_links_def upd_proc_def Let_def upd_proc_links_def)
  next
    case (Some q)
    then have "Q = (?P)(p := (?P p)\<lparr>yptr := None, optr := Some q\<rparr>, q := (?P q)\<lparr>yptr := Some p\<rparr>,
        pa := (?P pa)\<lparr>cptr := Some p\<rparr>)"
      using np hq [OF Some] by (auto simp: Q_def fun_eq_iff)
    then show ?thesis using pa(1) np hq [OF Some] Some
      by (simp add: set_links_def upd_proc_def Let_def upd_proc_links_def)
  qed
  show thesis
  proof (rule that [OF eq])
    show "no_family (procs ?s q) = no_family (?P q)" for q by (simp add: Q_def)
    have "family_rep Q (insert p A) i (kids(pa := p # kids pa, p := []))"
      by (rule family_add [OF fam p pa(2)]) (use np pa c hq in \<open>auto simp: Q_def\<close>)
    then show "family_rep (procs ?s) (insert p A) i (kids(pa := p # kids pa, p := []))" by simp
  qed simp
qed

lemma remove_links_spec:
  assumes fam: "family_rep (procs s) A i kids" and p: "p \<in> A" "kids p = []"
    and pa: "parent (procs s p) = Some pa"
  obtains s' where "remove_links p s = Some s'"
    "s' = (upd_proc_links (list_del (ProcLink p)) s)\<lparr>procs := procs s', nr_process := nr_process s - 1\<rparr>"
    "\<And>q. no_family (procs s' q) = no_family (procs s q)"
    "family_rep (procs s') (A - {p}) i (kids(pa := removeAll p (kids pa)))"
proof -
  let ?P = "procs s"
  note F = family_kids [OF fam]
  have paA: "pa \<in> insert i A" "pa \<noteq> p" using fam p pa by (auto simp: family_rep_def)
  have "p \<in> set (kids pa)" using F(3) [OF paA(1)] p pa by simp
  then obtain as bs where ab: "kids pa = as @ p # bs" using split_list by metis
  have dist: "distinct (as @ p # bs)" using F(2) [OF paA(1)] ab by simp
  obtain y' m where m: "sibs ?P None (cptr (?P pa)) as m (Some p)"
      "yptr (?P p) = m" "sibs ?P (Some p) (optr (?P p)) bs y' None"
    using F(1) [OF paA(1)] ab by (auto simp: children_def sibs_append)
  have y: "yptr (?P p) = (if as = [] then None else Some (last as))" using sibs_last [OF m(1)] m(2) by simp
  have o': "optr (?P p) = (if bs = [] then None else Some (hd bs))" by (rule sibs_first [OF m(3)])
  have nA: "q \<noteq> p \<and> q \<noteq> pa" if "yptr (?P p) = Some q \<or> optr (?P p) = Some q" for q
  proof -
    have "q \<in> set (kids pa)" "q \<noteq> p" using that y o' ab dist
      by (cases as rule: rev_cases; cases bs; auto)+
    then show ?thesis using F(3) [OF paA(1)] fam by (auto simp: family_rep_def)
  qed
  have apart: "yptr (?P p) = Some q \<Longrightarrow> optr (?P p) \<noteq> Some q" for q
    using y o' dist by (cases as rule: rev_cases; cases bs) auto
  define Q where "Q = (\<lambda>q. if q = pa \<and> yptr (?P p) = None then (?P pa)\<lparr>cptr := optr (?P p)\<rparr>
      else if yptr (?P p) = Some q then (?P q)\<lparr>optr := optr (?P p)\<rparr>
      else if optr (?P p) = Some q then (?P q)\<lparr>yptr := yptr (?P p)\<rparr> else ?P q)"
  let ?s = "(upd_proc_links (list_del (ProcLink p)) s)\<lparr>procs := Q, nr_process := nr_process s - 1\<rparr>"
  have Qeq: "Q = (case yptr (?P p) of
       Some z \<Rightarrow> (case optr (?P p) of None \<Rightarrow> ?P | Some q \<Rightarrow> ?P(q := (?P q)\<lparr>yptr := yptr (?P p)\<rparr>))
         (z := (?P z)\<lparr>optr := optr (?P p)\<rparr>)
     | None \<Rightarrow> (case optr (?P p) of None \<Rightarrow> ?P | Some q \<Rightarrow> ?P(q := (?P q)\<lparr>yptr := yptr (?P p)\<rparr>))
         (pa := (?P pa)\<lparr>cptr := optr (?P p)\<rparr>))"
    using nA apart paA(2) by (auto simp: Q_def fun_eq_iff split: option.split)
  have eq: "remove_links p s = Some ?s"
    unfolding Qeq using pa nA apart paA(2)
    by (auto simp: remove_links_def upd_proc_def Let_def upd_proc_links_def split: option.split)
  show thesis
  proof (rule that [OF eq])
    show "no_family (procs ?s q) = no_family (?P q)" for q by (simp add: Q_def)
    have "family_rep Q (A - {p}) i (kids(pa := removeAll p (kids pa)))"
      by (rule family_remove [OF fam p(1) pa p(2)]) (use nA apart in \<open>auto simp: Q_def\<close>)
    then show "family_rep (procs ?s) (A - {p}) i (kids(pa := removeAll p (kids pa)))" by simp
  qed simp
qed


lemma pid_window_cong:
  assumes "last_pid s' = last_pid s" "next_safe s' = next_safe s" "\<And>p. p \<in> set ps \<Longrightarrow> pid (procs s' p) = pid (procs s p)"
  shows "pid_window s' ps = pid_window s ps"
  using assms by (simp add: pid_window_def)

text \<open>Changes that leave the table alone.\<close>

lemma proctab_rep_cong:
  assumes "proc_links s' = proc_links s" "hash_links s' = hash_links s" "last_pid s' = last_pid s"
    "next_safe s' = next_safe s" "nr_process s' = nr_process s"
    and "\<And>p. p \<in> insert i (set ps) \<Longrightarrow> cptr (procs s' p) = cptr (procs s p) \<and> yptr (procs s' p) = yptr (procs s p) \<and>
      optr (procs s' p) = optr (procs s p) \<and> parent (procs s' p) = parent (procs s p)"
    and "\<And>p. p \<in> set ps \<Longrightarrow> pid (procs s' p) = pid (procs s p)"
  shows "proctab_rep s' i ps kids = proctab_rep s i ps kids"
proof -
  have "hash_rep s' ps = hash_rep s ps" by (rule hash_rep_cong) (use assms in auto)
  moreover have "family_rep (procs s') (set ps) i kids = family_rep (procs s) (set ps) i kids"
    by (rule family_rep_cong) (rule assms(6))
  moreover have "pid_window s' ps = pid_window s ps" by (rule pid_window_cong) (use assms in auto)
  moreover have "inj_on (\<lambda>p. pid (procs s' p)) (set ps) = inj_on (\<lambda>p. pid (procs s p)) (set ps)"
    by (rule inj_on_cong) (rule assms(7))
  ultimately show ?thesis using assms(1,5,7) by (simp add: proctab_rep_def)
qed

lemma join_table:
  assumes rep: "proctab_rep s i ps kids" and p: "p \<notin> insert i (set ps)"
    and pa: "parent (procs s p) = Some pa" "pa \<in> insert i (set ps)" and c: "cptr (procs s p) = None"
    and n: "pid (procs s p) = last_pid s" "0 < last_pid s" "last_pid s < MAX_PID" "last_pid s \<notin> pids s ps"
  obtains s' where "set_links p (hash_proc p s) = Some s'"
    "proctab_rep s' i (p # ps) (kids(pa := p # kids pa, p := []))"
    "\<And>q. no_family (procs s' q) = no_family (procs s q)"
    "s' = (upd_proc_links (list_add ProcList (ProcLink p)) (hash_proc p s))
       \<lparr>procs := procs s', nr_process := nr_process s + 1\<rparr>"
proof -
  note R = proctab_repD [OF rep]
  let ?h = "hash_proc p s"
  have h: "procs ?h = procs s" "proc_links ?h = proc_links s" "nr_process ?h = nr_process s"
    "last_pid ?h = last_pid s" "next_safe ?h = next_safe s" by (simp_all add: hash_proc_def)
  have fam: "family_rep (procs ?h) (set ps) i kids" using R(3) h by simp
  obtain s' where s': "set_links p ?h = Some s'"
    "s' = (upd_proc_links (list_add ProcList (ProcLink p)) ?h)\<lparr>procs := procs s', nr_process := nr_process ?h + 1\<rparr>"
    "\<And>q. no_family (procs s' q) = no_family (procs ?h q)"
    "family_rep (procs s') (insert p (set ps)) i (kids(pa := p # kids pa, p := []))"
    by (rule set_links_spec [OF fam p]) (use pa c h in simp_all)
  have pid': "pid (procs s' q) = pid (procs s q)" for q using no_family_fields(1) [OF s'(3) [of q]] h by simp
  have "hash_rep ?h (p # ps)" by (rule hash_proc_rep [OF R(2)]) (use p in simp)
  moreover have hl: "hash_links s' = hash_links ?h" by (subst s'(2)) simp
  ultimately have hash: "hash_rep s' (p # ps)"
    using hash_rep_cong [of s' ?h "p # ps" "p # ps"] pid' h by simp
  have d: "dlist (proc_links s) ProcList ([] @ map ProcLink ps)" using R(1) by simp
  have "dlist (list_add ProcList (ProcLink p) (proc_links s)) ProcList ([] @ ProcLink p # map ProcLink ps)"
    by (rule dlist_add [OF d]) (use p in auto)
  then have links: "dlist (proc_links s') ProcList (map ProcLink (p # ps))"
    using h by (subst s'(2)) simp
  have nr: "nr_process s' = nr_process s + 1" "last_pid s' = last_pid s" "next_safe s' = next_safe s"
    using h by (subst s'(2); simp)+
  have "pid_window s' (p # ps)"
    using R(6) n(1) pid' nr by (auto simp: pid_window_def)
  moreover have "inj_on (\<lambda>q. pid (procs s' q)) (set (p # ps))"
    using R(4) n(1,4) p unfolding pid' by (auto simp: pids_def image_iff inj_on_def; metis)
  ultimately have "proctab_rep s' i (p # ps) (kids(pa := p # kids pa, p := []))"
    using links hash s'(4) R(5,7) n pid' nr by (simp add: proctab_rep_def)
  then show thesis using s' h by (intro that [of s']) simp_all
qed

lemma leave_table:
  assumes rep: "proctab_rep s i ps kids" and p: "p \<in> set ps" "kids p = []" and pa: "parent (procs s p) = Some pa"
  obtains s' where "remove_links p (unhash_proc p s) = Some s'"
    "proctab_rep s' i (removeAll p ps) (kids(pa := removeAll p (kids pa)))"
    "\<And>q. no_family (procs s' q) = no_family (procs s q)"
    "s' = (upd_proc_links (list_del (ProcLink p)) (unhash_proc p s))
       \<lparr>procs := procs s', nr_process := nr_process s - 1\<rparr>"
proof -
  note R = proctab_repD [OF rep]
  let ?h = "unhash_proc p s"
  have h: "procs ?h = procs s" "proc_links ?h = proc_links s" "nr_process ?h = nr_process s"
    "last_pid ?h = last_pid s" "next_safe ?h = next_safe s" by (simp_all add: unhash_proc_def)
  have fam: "family_rep (procs ?h) (set ps) i kids" using R(3) h by simp
  obtain s' where s': "remove_links p ?h = Some s'"
    "s' = (upd_proc_links (list_del (ProcLink p)) ?h)\<lparr>procs := procs s', nr_process := nr_process ?h - 1\<rparr>"
    "\<And>q. no_family (procs s' q) = no_family (procs ?h q)"
    "family_rep (procs s') (set ps - {p}) i (kids(pa := removeAll p (kids pa)))"
    by (rule remove_links_spec [OF fam p]) (use pa h in simp_all)
  have pid': "pid (procs s' q) = pid (procs s q)" for q using no_family_fields(1) [OF s'(3) [of q]] h by simp
  have "hash_rep ?h (removeAll p ps)" by (rule unhash_proc_rep [OF R(2) p(1)])
  moreover have hl: "hash_links s' = hash_links ?h" by (subst s'(2)) simp
  ultimately have hash: "hash_rep s' (removeAll p ps)"
    using hash_rep_cong [of s' ?h "removeAll p ps" "removeAll p ps"] pid' h by simp
  obtain as bs where ab: "ps = as @ p # bs" using p(1) split_list by metis
  have dist: "p \<notin> set as" "p \<notin> set bs" using R(8) ab by auto
  then have rem: "removeAll p ps = as @ bs" "length ps = Suc (length (as @ bs))" using ab by auto
  then have len: "int (length ps) = int (length (removeAll p ps)) + 1" by simp
  have d: "dlist (proc_links s) ProcList (map ProcLink as @ ProcLink p # map ProcLink bs)" using R(1) ab by simp
  have links: "dlist (proc_links s') ProcList (map ProcLink (removeAll p ps))"
    using dlist_del [OF d] h rem by (subst s'(2)) simp
  have nr: "nr_process s' = nr_process s - 1" "last_pid s' = last_pid s" "next_safe s' = next_safe s"
    using h by (subst s'(2); simp)+
  have "pid_window s' (removeAll p ps)" using R(6) pid' nr by (auto simp: pid_window_def)
  moreover have "inj_on (\<lambda>q. pid (procs s' q)) (set (removeAll p ps))"
    using R(4) unfolding pid' by (auto simp: inj_on_def)
  ultimately have "proctab_rep s' i (removeAll p ps) (kids(pa := removeAll p (kids pa)))"
    using links hash s'(4) R(5,7) pid' nr len by (simp add: proctab_rep_def)
  then show thesis using s' h by (intro that [of s']) simp_all
qed

lemma empty_table:
  assumes "proc_links s = \<lparr>next_of = (\<lambda>n. n), prev_of = (\<lambda>n. n)\<rparr>" "hash_links s = \<lparr>next_of = (\<lambda>n. n), prev_of = (\<lambda>n. n)\<rparr>"
    and "cptr (procs s i) = None" "nr_process s = 1" "1 \<le> last_pid s" "last_pid s \<le> MAX_PID" "next_safe s \<le> MAX_PID"
  shows "proctab_rep s i [] (\<lambda>_. [])"
  using assms
  by (simp add: proctab_rep_def hash_rep_def bucket_def dlist_def family_rep_def children_def pid_window_def MAX_PID_def
      MAX_PROCESS_def)

section \<open>Properties\<close>

text \<open>
  C11: \<open>get_pid\<close> always ends. With fewer than \<open>MAX_PID - 1\<close> processes it returns a positive number below
  \<open>MAX_PID\<close> that no process has; it changes only its two static variables, and no process has a
  number between their new values, so the shortcut of the next call is right.
\<close>

theorem get_pid_ends_unused:
  assumes "dlist (proc_links s) ProcList (map ProcLink ps)" and "pid_window s ps" and "length ps < nat MAX_PID - 1"
  shows "\<exists>n m. get_pid s = Some (n, s\<lparr>last_pid := n, next_safe := m\<rparr>) \<and> 1 \<le> n \<and> n < MAX_PID \<and> n \<notin> pids s ps \<and>
    pid_window (s\<lparr>last_pid := n, next_safe := m\<rparr>) ps"
proof -
  obtain n m where g: "get_pid s = Some (n, s\<lparr>last_pid := n, next_safe := m\<rparr>)" "1 \<le> n" "n < m" "m \<le> MAX_PID"
    "\<forall>p\<in>set ps. pid (procs s p) < n \<or> m \<le> pid (procs s p)" by (rule get_pid_spec [OF assms])
  then have "n \<notin> pids s ps" "pid_window (s\<lparr>last_pid := n, next_safe := m\<rparr>) ps"
    by (force simp: pids_def, auto simp: pid_window_def)
  then show ?thesis using g by auto
qed

text \<open>
  C12: \<open>find_proc\<close> always ends, and through the hash table it finds exactly what a search through the
  list of all processes finds: the process with the given number, or none.
\<close>

theorem find_proc_is_search:
  assumes "proctab_rep s i ps kids"
  shows "find_proc n s = Some (List.find (\<lambda>p. pid (procs s p) = n) ps)"
proof -
  note R = proctab_repD [OF assms]
  obtain r where r: "find_proc n s = Some r" "\<And>p. r = Some p \<longleftrightarrow> p \<in> set ps \<and> pid (procs s p) = n"
    by (rule find_proc_spec [OF R(2,4,5)]) blast
  show ?thesis
  proof (cases "List.find (\<lambda>p. pid (procs s p) = n) ps")
    case None
    then have "r = None" using r(2) by (cases r) (auto simp: find_None_iff)
    then show ?thesis using r(1) None by simp
  next
    case (Some p)
    then have "p \<in> set ps \<and> pid (procs s p) = n" by (auto simp: find_Some_iff)
    then show ?thesis using r Some by simp
  qed
qed

text \<open>The idle process 0, and process 1 with the number 1 before it joins the table.\<close>

definition example_table :: proctab where
  "example_table =
     \<lparr>procs = (\<lambda>_. example_proc)(1 := example_proc\<lparr>parent := Some 0\<rparr>),
      run_links = \<lparr>next_of = (\<lambda>n. n), prev_of = (\<lambda>n. n)\<rparr>,
      pool = \<lparr>parent_of = (\<lambda>_. None), left_of = (\<lambda>_. None), right_of = (\<lambda>_. None)\<rparr>,
      proc_num = 0, max_time_slice = 5, lab6_run_pool = None,
      current = Some 0, idleproc = Some 0, initproc = None, satp = 0,
      timers = (\<lambda>_. \<lparr>expires = 0, timer_proc = None\<rparr>), timer_links = \<lparr>next_of = (\<lambda>n. n), prev_of = (\<lambda>n. n)\<rparr>,
      waits = (\<lambda>_. \<lparr>wproc = None, wakeup_flags = 0, wait_queue = None\<rparr>),
      wait_links = \<lparr>next_of = (\<lambda>n. n), prev_of = (\<lambda>n. n)\<rparr>, sem_value = (\<lambda>_. 0),
      proc_links = \<lparr>next_of = (\<lambda>n. n), prev_of = (\<lambda>n. n)\<rparr>,
      hash_links = \<lparr>next_of = (\<lambda>n. n), prev_of = (\<lambda>n. n)\<rparr>,
      nr_process = 1, last_pid = 1, next_safe = MAX_PID\<rparr>"

lemma example_joined:
  obtains t where "set_links 1 (hash_proc 1 example_table) = Some t" "proctab_rep t 0 [1] ((\<lambda>_. [])(0 := [1], 1 := []))"
    "pid (procs t 1) = 1" "last_pid t = 1" "next_safe t = MAX_PID"
proof -
  have empty: "proctab_rep example_table 0 [] (\<lambda>_. [])"
    by (rule empty_table) (simp_all add: example_table_def example_proc_def MAX_PID_def MAX_PROCESS_def)
  have f: "1 \<notin> insert 0 (set ([] :: nat list))" "parent (procs example_table 1) = Some 0"
    "0 \<in> insert 0 (set ([] :: nat list))" "cptr (procs example_table 1) = None"
    "pid (procs example_table 1) = last_pid example_table" "0 < last_pid example_table"
    "last_pid example_table < MAX_PID" "last_pid example_table \<notin> pids example_table []"
    by (simp_all add: example_table_def example_proc_def MAX_PID_def MAX_PROCESS_def pids_def)
  obtain t where t: "set_links 1 (hash_proc 1 example_table) = Some t"
    "proctab_rep t 0 (1 # []) ((\<lambda>_. [])(0 := 1 # (\<lambda>_. []) (0::nat), 1 := []))"
    "\<And>q. no_family (procs t q) = no_family (procs example_table q)"
    "t = (upd_proc_links (list_add ProcList (ProcLink 1)) (hash_proc 1 example_table))
       \<lparr>procs := procs t, nr_process := nr_process example_table + 1\<rparr>"
    by (rule join_table [OF empty f]) (rule that)
  have "pid (procs t 1) = 1" using no_family_fields(1) [OF t(3) [of 1]] by (simp add: example_table_def example_proc_def)
  moreover have "last_pid t = 1" "next_safe t = MAX_PID" by (subst t(4); simp add: hash_proc_def example_table_def)+
  ultimately show thesis using that t(1,2) by simp
qed

theorem get_pid_ends_unused_witness:
  "\<exists>t n m. set_links 1 (hash_proc 1 example_table) = Some t \<and> get_pid t = Some (n, t\<lparr>last_pid := n, next_safe := m\<rparr>) \<and>
     1 \<le> n \<and> n \<noteq> 1"
proof -
  obtain t where t: "set_links 1 (hash_proc 1 example_table) = Some t" "proctab_rep t 0 [1] ((\<lambda>_. [])(0 := [1], 1 := []))"
    "pid (procs t 1) = 1" by (rule example_joined)
  note R = proctab_repD [OF t(2)]
  have "\<exists>n m. get_pid t = Some (n, t\<lparr>last_pid := n, next_safe := m\<rparr>) \<and> 1 \<le> n \<and> n < MAX_PID \<and> n \<notin> pids t [1] \<and>
    pid_window (t\<lparr>last_pid := n, next_safe := m\<rparr>) [1]"
    by (rule get_pid_ends_unused [OF R(1,6)]) (simp add: MAX_PID_def MAX_PROCESS_def)
  then show ?thesis using t by (auto simp: pids_def)
qed

theorem find_proc_is_search_witness:
  "\<exists>t. set_links 1 (hash_proc 1 example_table) = Some t \<and> find_proc 1 t = Some (Some 1) \<and> find_proc 2 t = Some None"
proof -
  obtain t where t: "set_links 1 (hash_proc 1 example_table) = Some t" "proctab_rep t 0 [1] ((\<lambda>_. [])(0 := [1], 1 := []))"
    "pid (procs t 1) = 1" by (rule example_joined)
  show ?thesis using find_proc_is_search [OF t(2), of 1] find_proc_is_search [OF t(2), of 2] t(1,3) by simp
qed

end
