(* ===== verification/Vfs.thy ===== *)
theory Vfs
imports Disk LinkedList
begin

text \<open>
  The virtual file system layer: inodes and their counts (\<open>kern/fs/vfs/inode.c\<close>, \<open>inode.h\<close>), the
  device table (\<open>vfsdev.c\<close>), path lookup (\<open>vfslookup.c\<close>), the current directory (\<open>vfspath.c\<close>), the
  boot file system (\<open>vfs.c\<close>) and opening and closing (\<open>vfsfile.c\<close>), with the records of
  \<open>kern/fs/file.h\<close> and \<open>fs.h\<close>.

  The function tables \<open>struct inode_ops\<close> and the four functions of \<open>struct fs\<close> are parameters of the
  operations, as they are in the code: \<open>ops n\<close> is the table of inode \<open>n\<close> (an entry \<open>None\<close> is a \<open>NULL\<close>
  pointer) and acts on the whole state. Paths are C strings without their final zero. \<open>fp\<close> is
  \<open>current->filesp\<close>. What is passed to \<open>kfree\<close> is recorded in \<open>vfs_freed\<close>; the results of \<open>kmalloc\<close>
  are arguments.
\<close>

datatype inode_type = inode_type_device_info | inode_type_sfs_inode_info

record inode =
  in_type :: inode_type
  ref_count :: int
  iopen_count :: int
  in_fs :: "nat option"

datatype fd_status = FD_NONE | FD_INIT | FD_OPENED | FD_CLOSED

record file_struct =
  status :: fd_status
  readable :: bool
  writable :: bool
  fd :: int
  pos :: int
  node :: "nat option"
  open_count :: int

record files_struct =
  pwd :: "nat option"
  fd_array :: "file_struct list"
  files_count :: int
  files_sem :: int

record vfs_dev_t =
  devname :: string
  devnode :: "nat option"
  dev_fs :: "nat option"
  mountable :: bool

datatype vdnode = VdevList | VdevLink nat

record vfs =
  inodes :: "nat \<Rightarrow> inode"
  filesps :: "nat \<Rightarrow> files_struct"
  vdevs :: "nat \<Rightarrow> vfs_dev_t"
  vdev_links :: "vdnode links"
  vdev_list_sem :: int
  bootfs_node :: "nat option"
  bootfs_sem :: int
  vfs_freed :: "nat list"

record stat =
  st_mode :: nat
  st_nlinks :: nat
  st_blocks :: nat
  st_size :: nat

text \<open>\<open>struct inode_ops\<close>: each function gets the inode.\<close>

record 's inode_ops =
  op_open :: "(nat \<Rightarrow> 32 word \<Rightarrow> 's \<Rightarrow> (int \<times> 's) option) option"
  op_close :: "(nat \<Rightarrow> 's \<Rightarrow> (int \<times> 's) option) option"
  op_read :: "(nat \<Rightarrow> iobuf \<Rightarrow> 's \<Rightarrow> (int \<times> iobuf \<times> 's) option) option"
  op_write :: "(nat \<Rightarrow> iobuf \<Rightarrow> 's \<Rightarrow> (int \<times> iobuf \<times> 's) option) option"
  op_fstat :: "(nat \<Rightarrow> 's \<Rightarrow> (int \<times> stat \<times> 's) option) option"
  op_fsync :: "(nat \<Rightarrow> 's \<Rightarrow> (int \<times> 's) option) option"
  op_namefile :: "(nat \<Rightarrow> iobuf \<Rightarrow> 's \<Rightarrow> (int \<times> iobuf \<times> 's) option) option"
  op_getdirentry :: "(nat \<Rightarrow> iobuf \<Rightarrow> 's \<Rightarrow> (int \<times> iobuf \<times> 's) option) option"
  op_reclaim :: "(nat \<Rightarrow> 's \<Rightarrow> (int \<times> 's) option) option"
  op_gettype :: "(nat \<Rightarrow> 's \<Rightarrow> (int \<times> nat \<times> 's) option) option"
  op_tryseek :: "(nat \<Rightarrow> int \<Rightarrow> 's \<Rightarrow> (int \<times> 's) option) option"
  op_truncate :: "(nat \<Rightarrow> int \<Rightarrow> 's \<Rightarrow> (int \<times> 's) option) option"
  op_create :: "(nat \<Rightarrow> string \<Rightarrow> bool \<Rightarrow> 's \<Rightarrow> (int \<times> nat option \<times> 's) option) option"
  op_lookup :: "(nat \<Rightarrow> string \<Rightarrow> 's \<Rightarrow> (int \<times> nat option \<times> 's) option) option"

text \<open>The functions of \<open>struct fs\<close>; \<open>fs_get_root\<close> never returns \<open>NULL\<close>.\<close>

record 's fs_ops =
  fs_sync :: "nat \<Rightarrow> 's \<Rightarrow> (int \<times> 's) option"
  fs_get_root :: "nat \<Rightarrow> 's \<Rightarrow> (nat \<times> 's) option"
  fs_unmount :: "nat \<Rightarrow> 's \<Rightarrow> (int \<times> 's) option"
  fs_cleanup :: "nat \<Rightarrow> 's \<Rightarrow> 's option"

definition MAX_INODE_COUNT :: int where "MAX_INODE_COUNT = 0x10000"
definition S_IFMT :: nat where "S_IFMT = 28672"
definition S_IFREG :: nat where "S_IFREG = 4096"
definition S_IFDIR :: nat where "S_IFDIR = 8192"
definition S_IFLNK :: nat where "S_IFLNK = 12288"
definition S_IFCHR :: nat where "S_IFCHR = 16384"
definition S_IFBLK :: nat where "S_IFBLK = 20480"

definition S_ISDIR :: "nat \<Rightarrow> bool" where "S_ISDIR mode \<longleftrightarrow> and mode S_IFMT = S_IFDIR"

definition O_RDONLY :: "32 word" where "O_RDONLY = 0"
definition O_WRONLY :: "32 word" where "O_WRONLY = 1"
definition O_RDWR :: "32 word" where "O_RDWR = 2"
definition O_CREAT :: "32 word" where "O_CREAT = 4"
definition O_EXCL :: "32 word" where "O_EXCL = 8"
definition O_TRUNC :: "32 word" where "O_TRUNC = 0x10"
definition O_APPEND :: "32 word" where "O_APPEND = 0x20"
definition O_ACCMODE :: "32 word" where "O_ACCMODE = 3"
definition FS_MAX_DNAME_LEN :: nat where "FS_MAX_DNAME_LEN = 31"

definition upd_inode :: "nat \<Rightarrow> (inode \<Rightarrow> inode) \<Rightarrow> 'a vfs_scheme \<Rightarrow> 'a vfs_scheme" where
  "upd_inode n f s = s\<lparr>inodes := (inodes s)(n := f (inodes s n))\<rparr>"

definition upd_files :: "nat \<Rightarrow> (files_struct \<Rightarrow> files_struct) \<Rightarrow> 'a vfs_scheme \<Rightarrow> 'a vfs_scheme" where
  "upd_files fp f s = s\<lparr>filesps := (filesps s)(fp := f (filesps s fp))\<rparr>"

definition upd_vdev :: "nat \<Rightarrow> (vfs_dev_t \<Rightarrow> vfs_dev_t) \<Rightarrow> 'a vfs_scheme \<Rightarrow> 'a vfs_scheme" where
  "upd_vdev v f s = s\<lparr>vdevs := (vdevs s)(v := f (vdevs s v))\<rparr>"

definition kfree_vfs :: "nat \<Rightarrow> 'a vfs_scheme \<Rightarrow> 'a vfs_scheme" where
  "kfree_vfs p s = s\<lparr>vfs_freed := p # vfs_freed s\<rparr>"

section \<open>Inodes (inode.c, inode.h)\<close>

definition alloc_inode :: "nat option \<Rightarrow> inode_type \<Rightarrow> 'a vfs_scheme \<Rightarrow> nat option \<times> 'a vfs_scheme" where
  "alloc_inode kp ty s =
     (case kp of None \<Rightarrow> (None, s) | Some n \<Rightarrow> (Some n, upd_inode n (\<lambda>d. d\<lparr>in_type := ty\<rparr>) s))"

definition inode_ref_inc :: "nat \<Rightarrow> 'a vfs_scheme \<Rightarrow> 'a vfs_scheme" where
  "inode_ref_inc n s = upd_inode n (\<lambda>d. d\<lparr>ref_count := ref_count d + 1\<rparr>) s"

definition inode_open_inc :: "nat \<Rightarrow> 'a vfs_scheme \<Rightarrow> 'a vfs_scheme" where
  "inode_open_inc n s = upd_inode n (\<lambda>d. d\<lparr>iopen_count := iopen_count d + 1\<rparr>) s"

definition inode_init :: "nat \<Rightarrow> nat option \<Rightarrow> 'a vfs_scheme \<Rightarrow> 'a vfs_scheme" where
  "inode_init n fs s = inode_ref_inc n (upd_inode n (\<lambda>d. d\<lparr>ref_count := 0, iopen_count := 0, in_fs := fs\<rparr>) s)"

definition inode_kill :: "nat \<Rightarrow> 'a vfs_scheme \<Rightarrow> 'a vfs_scheme option" where
  "inode_kill n s = do {
     kassert (ref_count (inodes s n) = 0);
     kassert (iopen_count (inodes s n) = 0);
     Some (kfree_vfs n s)
   }"

definition inode_check :: "nat \<Rightarrow> 'a vfs_scheme \<Rightarrow> bool" where
  "inode_check n s \<longleftrightarrow>
     (let ref = ref_count (inodes s n); opn = iopen_count (inodes s n) in
      ref \<ge> opn \<and> opn \<ge> 0 \<and> ref < MAX_INODE_COUNT \<and> opn < MAX_INODE_COUNT)"

text \<open>\<open>__vop_op\<close>: the function to call, after the checks.\<close>

definition vop_op :: "nat \<Rightarrow> 'f option \<Rightarrow> 'a vfs_scheme \<Rightarrow> 'f option" where
  "vop_op n entry s = do { f \<leftarrow> entry; kassert (inode_check n s); Some f }"

definition vop_open where "vop_open ops n fl s = do { f \<leftarrow> vop_op n (op_open (ops n)) s; f n fl s }"
definition vop_close where "vop_close ops n s = do { f \<leftarrow> vop_op n (op_close (ops n)) s; f n s }"
definition vop_read where "vop_read ops n iob s = do { f \<leftarrow> vop_op n (op_read (ops n)) s; f n iob s }"
definition vop_write where "vop_write ops n iob s = do { f \<leftarrow> vop_op n (op_write (ops n)) s; f n iob s }"
definition vop_fstat where "vop_fstat ops n s = do { f \<leftarrow> vop_op n (op_fstat (ops n)) s; f n s }"
definition vop_fsync where "vop_fsync ops n s = do { f \<leftarrow> vop_op n (op_fsync (ops n)) s; f n s }"
definition vop_namefile where "vop_namefile ops n iob s = do { f \<leftarrow> vop_op n (op_namefile (ops n)) s; f n iob s }"
definition vop_getdirentry where
  "vop_getdirentry ops n iob s = do { f \<leftarrow> vop_op n (op_getdirentry (ops n)) s; f n iob s }"
definition vop_reclaim where "vop_reclaim ops n s = do { f \<leftarrow> vop_op n (op_reclaim (ops n)) s; f n s }"
definition vop_gettype where "vop_gettype ops n s = do { f \<leftarrow> vop_op n (op_gettype (ops n)) s; f n s }"
definition vop_tryseek where "vop_tryseek ops n p s = do { f \<leftarrow> vop_op n (op_tryseek (ops n)) s; f n p s }"
definition vop_truncate where "vop_truncate ops n len s = do { f \<leftarrow> vop_op n (op_truncate (ops n)) s; f n len s }"
definition vop_create where
  "vop_create ops n name excl s = do { f \<leftarrow> vop_op n (op_create (ops n)) s; f n name excl s }"
definition vop_lookup where "vop_lookup ops n path s = do { f \<leftarrow> vop_op n (op_lookup (ops n)) s; f n path s }"

definition inode_ref_dec ::
  "(nat \<Rightarrow> 'a vfs_scheme inode_ops) \<Rightarrow> nat \<Rightarrow> 'a vfs_scheme \<Rightarrow> (int \<times> 'a vfs_scheme) option" where
  "inode_ref_dec ops n s = do {
     kassert (ref_count (inodes s n) > 0);
     let s = upd_inode n (\<lambda>d. d\<lparr>ref_count := ref_count d - 1\<rparr>) s;
     let rc = ref_count (inodes s n);
     s \<leftarrow> (if rc = 0 then do { (ret, s) \<leftarrow> vop_reclaim ops n s; Some s } else Some s);
     Some (rc, s)
   }"

definition inode_open_dec ::
  "(nat \<Rightarrow> 'a vfs_scheme inode_ops) \<Rightarrow> nat \<Rightarrow> 'a vfs_scheme \<Rightarrow> (int \<times> 'a vfs_scheme) option" where
  "inode_open_dec ops n s = do {
     kassert (iopen_count (inodes s n) > 0);
     let s = upd_inode n (\<lambda>d. d\<lparr>iopen_count := iopen_count d - 1\<rparr>) s;
     let oc = iopen_count (inodes s n);
     s \<leftarrow> (if oc = 0 then do { (ret, s) \<leftarrow> vop_close ops n s; Some s } else Some s);
     Some (oc, s)
   }"

section \<open>The current directory and the boot file system (vfspath.c, vfs.c)\<close>

definition lock_files :: "nat \<Rightarrow> 'a vfs_scheme \<Rightarrow> 'a vfs_scheme option" where
  "lock_files fp s = do { v \<leftarrow> sem_down (files_sem (filesps s fp)); Some (upd_files fp (\<lambda>d. d\<lparr>files_sem := v\<rparr>) s) }"

definition unlock_files :: "nat \<Rightarrow> 'a vfs_scheme \<Rightarrow> 'a vfs_scheme" where
  "unlock_files fp s = upd_files fp (\<lambda>d. d\<lparr>files_sem := sem_up (files_sem d)\<rparr>) s"

definition vfs_get_curdir :: "nat \<Rightarrow> 'a vfs_scheme \<Rightarrow> int \<times> nat option \<times> 'a vfs_scheme" where
  "vfs_get_curdir fp s =
     (case pwd (filesps s fp) of
        None \<Rightarrow> (- E_NOENT, None, s)
      | Some n \<Rightarrow> (0, Some n, inode_ref_inc n s))"

definition vfs_set_curdir ::
  "(nat \<Rightarrow> 'a vfs_scheme inode_ops) \<Rightarrow> nat \<Rightarrow> nat option \<Rightarrow> 'a vfs_scheme \<Rightarrow> (int \<times> 'a vfs_scheme) option" where
  "vfs_set_curdir ops fp dir s = do {
     s \<leftarrow> lock_files fp s;
     let old_dir = pwd (filesps s fp);
     (ret, s) \<leftarrow>
       (if old_dir \<noteq> dir
        then do {
          (ret, s) \<leftarrow> (case dir of
             None \<Rightarrow> Some (0, s)
           | Some d \<Rightarrow> do {
               (ret, ty, s) \<leftarrow> vop_gettype ops d s;
               Some (if ret \<noteq> 0 then (ret, s) else if \<not> S_ISDIR ty then (- E_NOTDIR, s) else (0, inode_ref_inc d s))
             });
          (if ret \<noteq> 0 then Some (ret, s)
           else do {
             let s = upd_files fp (\<lambda>d. d\<lparr>pwd := dir\<rparr>) s;
             s \<leftarrow> (case old_dir of None \<Rightarrow> Some s | Some n \<Rightarrow> do { (r, s) \<leftarrow> inode_ref_dec ops n s; Some s });
             Some (0, s)
           })
        }
        else Some (0, s));
     Some (ret, unlock_files fp s)
   }"

definition vfs_get_bootfs :: "'a vfs_scheme \<Rightarrow> (int \<times> nat option \<times> 'a vfs_scheme) option" where
  "vfs_get_bootfs s =
     (case bootfs_node s of
        None \<Rightarrow> Some (- E_NOENT, None, s)
      | Some n \<Rightarrow> do {
          v \<leftarrow> sem_down (bootfs_sem s);
          let s = inode_ref_inc n (s\<lparr>bootfs_sem := v\<rparr>);
          Some (0, Some n, s\<lparr>bootfs_sem := sem_up (bootfs_sem s)\<rparr>)
        })"

definition change_bootfs ::
  "(nat \<Rightarrow> 'a vfs_scheme inode_ops) \<Rightarrow> nat option \<Rightarrow> 'a vfs_scheme \<Rightarrow> 'a vfs_scheme option" where
  "change_bootfs ops n s = do {
     v \<leftarrow> sem_down (bootfs_sem s);
     let old = bootfs_node s;
     let s = s\<lparr>bootfs_node := n, bootfs_sem := sem_up v\<rparr>;
     (case old of None \<Rightarrow> Some s | Some k \<Rightarrow> do { (r, s) \<leftarrow> inode_ref_dec ops k s; Some s })
   }"

section \<open>The device table (vfsdev.c)\<close>

definition lock_vdev_list :: "'a vfs_scheme \<Rightarrow> 'a vfs_scheme option" where
  "lock_vdev_list s = do { v \<leftarrow> sem_down (vdev_list_sem s); Some (s\<lparr>vdev_list_sem := v\<rparr>) }"

definition unlock_vdev_list :: "'a vfs_scheme \<Rightarrow> 'a vfs_scheme" where
  "unlock_vdev_list s = s\<lparr>vdev_list_sem := sem_up (vdev_list_sem s)\<rparr>"

definition vfs_devlist_init :: "'a vfs_scheme \<Rightarrow> 'a vfs_scheme" where
  "vfs_devlist_init s = s\<lparr>vdev_links := list_init VdevList (vdev_links s), vdev_list_sem := 1\<rparr>"

definition vfs_init :: "'a vfs_scheme \<Rightarrow> 'a vfs_scheme" where
  "vfs_init s = vfs_devlist_init (s\<lparr>bootfs_sem := 1\<rparr>)"

text \<open>The loops over the device list: the first entry with property \<open>P\<close>.\<close>

partial_function (option) find_vdev ::
  "(vfs_dev_t \<Rightarrow> bool) \<Rightarrow> vdnode \<Rightarrow> 'a vfs_scheme \<Rightarrow> nat option option" where
  "find_vdev P le s =
     (case list_next le (vdev_links s) of
        VdevList \<Rightarrow> Some None
      | VdevLink v \<Rightarrow> if P (vdevs s v) then Some (Some v) else find_vdev P (VdevLink v) s)"

definition vfs_get_root ::
  "'a vfs_scheme fs_ops \<Rightarrow> string \<Rightarrow> 'a vfs_scheme \<Rightarrow> (int \<times> nat option \<times> 'a vfs_scheme) option" where
  "vfs_get_root fops name s =
     (if list_empty VdevList (vdev_links s) then Some (- E_NO_DEV, None, s)
      else do {
        s \<leftarrow> lock_vdev_list s;
        r \<leftarrow> find_vdev (\<lambda>d. name = devname d) VdevList s;
        (ret, n, s) \<leftarrow> (case r of
            None \<Rightarrow> Some (- E_NO_DEV, None, s)
          | Some v \<Rightarrow>
              (case dev_fs (vdevs s v) of
                 Some fs \<Rightarrow> do { (root, s) \<leftarrow> fs_get_root fops fs s; Some (0, Some root, s) }
               | None \<Rightarrow>
                   if \<not> mountable (vdevs s v)
                   then do { n \<leftarrow> devnode (vdevs s v); Some (0, Some n, inode_ref_inc n s) }
                   else Some (- E_NA_DEV, None, s)));
        Some (ret, n, unlock_vdev_list s)
      })"

definition vfs_get_devname :: "nat \<Rightarrow> 'a vfs_scheme \<Rightarrow> string option option" where
  "vfs_get_devname fs s = do {
     r \<leftarrow> find_vdev (\<lambda>d. dev_fs d = Some fs) VdevList s;
     Some (case r of None \<Rightarrow> None | Some v \<Rightarrow> Some (devname (vdevs s v)))
   }"

definition check_devname_conflict :: "string \<Rightarrow> 'a vfs_scheme \<Rightarrow> bool option" where
  "check_devname_conflict name s = do {
     r \<leftarrow> find_vdev (\<lambda>d. devname d = name) VdevList s;
     Some (r = None)
   }"

text \<open>\<open>name_ok\<close> tells whether \<open>strdup\<close> gets memory, \<open>kp\<close> is what \<open>kmalloc\<close> returns for the entry.\<close>

definition vfs_do_add ::
  "bool \<Rightarrow> nat option \<Rightarrow> string \<Rightarrow> nat option \<Rightarrow> nat option \<Rightarrow> bool \<Rightarrow> 'a vfs_scheme \<Rightarrow> (int \<times> 'a vfs_scheme) option" where
  "vfs_do_add name_ok kp name dn fs mnt s = do {
     kassert (case dn of None \<Rightarrow> \<not> mnt | Some n \<Rightarrow> in_type (inodes s n) = inode_type_device_info);
     (if length name > FS_MAX_DNAME_LEN then Some (- E_TOO_BIG, s)
      else if \<not> name_ok then Some (- E_NO_MEM, s)
      else (case kp of
          None \<Rightarrow> Some (- E_NO_MEM, s)
        | Some v \<Rightarrow> do {
            s \<leftarrow> lock_vdev_list s;
            free \<leftarrow> check_devname_conflict name s;
            (if \<not> free then Some (- E_EXISTS, kfree_vfs v (unlock_vdev_list s))
             else
               let s = upd_vdev v (\<lambda>d. d\<lparr>devname := name, devnode := dn, mountable := mnt, dev_fs := fs\<rparr>) s;
                   s = s\<lparr>vdev_links := list_add VdevList (VdevLink v) (vdev_links s)\<rparr>
               in Some (0, unlock_vdev_list s))
          }))
   }"

definition vfs_add_fs where "vfs_add_fs name_ok kp name fs s = vfs_do_add name_ok kp name None (Some fs) False s"

definition vfs_add_dev where "vfs_add_dev name_ok kp name n mnt s = vfs_do_add name_ok kp name (Some n) None mnt s"

definition find_mount :: "string \<Rightarrow> 'a vfs_scheme \<Rightarrow> (int \<times> nat option) option" where
  "find_mount name s = do {
     r \<leftarrow> find_vdev (\<lambda>d. mountable d \<and> devname d = name) VdevList s;
     Some (case r of None \<Rightarrow> (- E_NO_DEV, None) | Some v \<Rightarrow> (0, Some v))
   }"

text \<open>\<open>mountfunc\<close> gets the device inode and returns an error code and the new file system.\<close>

definition vfs_mount ::
  "(nat \<Rightarrow> 'a vfs_scheme \<Rightarrow> (int \<times> nat option \<times> 'a vfs_scheme) option) \<Rightarrow> string \<Rightarrow> 'a vfs_scheme \<Rightarrow>
   (int \<times> 'a vfs_scheme) option" where
  "vfs_mount mountfunc name s = do {
     s \<leftarrow> lock_vdev_list s;
     (ret, r) \<leftarrow> find_mount name s;
     (ret, s) \<leftarrow>
       (if ret \<noteq> 0 then Some (ret, s)
        else do {
          v \<leftarrow> r;
          (if dev_fs (vdevs s v) \<noteq> None then Some (- E_BUSY, s)
           else do {
             kassert (mountable (vdevs s v));
             n \<leftarrow> devnode (vdevs s v);
             kassert (in_type (inodes s n) = inode_type_device_info);
             (ret, fs, s) \<leftarrow> mountfunc n s;
             let s = (if ret = 0 then upd_vdev v (\<lambda>d. d\<lparr>dev_fs := fs\<rparr>) s else s);
             kassert (ret = 0 \<longrightarrow> dev_fs (vdevs s v) \<noteq> None);
             Some (ret, s)
           })
        });
     Some (ret, unlock_vdev_list s)
   }"

text \<open>Writing a mounted file system back and unmounting it.\<close>

definition unmount_vdev ::
  "'a vfs_scheme fs_ops \<Rightarrow> nat \<Rightarrow> nat \<Rightarrow> 'a vfs_scheme \<Rightarrow> (int \<times> 'a vfs_scheme) option" where
  "unmount_vdev fops v fs s = do {
     (ret, s) \<leftarrow> fs_sync fops fs s;
     (if ret \<noteq> 0 then Some (ret, s)
      else do {
        (ret, s) \<leftarrow> fs_unmount fops fs s;
        Some (ret, if ret = 0 then upd_vdev v (\<lambda>d. d\<lparr>dev_fs := None\<rparr>) s else s)
      })
   }"

definition vfs_unmount :: "'a vfs_scheme fs_ops \<Rightarrow> string \<Rightarrow> 'a vfs_scheme \<Rightarrow> (int \<times> 'a vfs_scheme) option" where
  "vfs_unmount fops name s = do {
     s \<leftarrow> lock_vdev_list s;
     (ret, r) \<leftarrow> find_mount name s;
     (ret, s) \<leftarrow>
       (if ret \<noteq> 0 then Some (ret, s)
        else do {
          v \<leftarrow> r;
          (case dev_fs (vdevs s v) of
             None \<Rightarrow> Some (- E_INVAL, s)
           | Some fs \<Rightarrow> do { kassert (mountable (vdevs s v)); unmount_vdev fops v fs s })
        });
     Some (ret, unlock_vdev_list s)
   }"

partial_function (option) unmount_all_loop ::
  "'a vfs_scheme fs_ops \<Rightarrow> vdnode \<Rightarrow> 'a vfs_scheme \<Rightarrow> 'a vfs_scheme option" where
  "unmount_all_loop fops le s =
     (case list_next le (vdev_links s) of
        VdevList \<Rightarrow> Some s
      | VdevLink v \<Rightarrow>
          (case dev_fs (vdevs s v) of
             Some fs \<Rightarrow>
               if mountable (vdevs s v)
               then Option.bind (unmount_vdev fops v fs s) (\<lambda>(ret, s). unmount_all_loop fops (VdevLink v) s)
               else unmount_all_loop fops (VdevLink v) s
           | None \<Rightarrow> unmount_all_loop fops (VdevLink v) s))"

definition vfs_unmount_all :: "'a vfs_scheme fs_ops \<Rightarrow> 'a vfs_scheme \<Rightarrow> (int \<times> 'a vfs_scheme) option" where
  "vfs_unmount_all fops s =
     (if list_empty VdevList (vdev_links s) then Some (0, s)
      else do {
        s \<leftarrow> lock_vdev_list s;
        s \<leftarrow> unmount_all_loop fops VdevList s;
        Some (0, unlock_vdev_list s)
      })"

partial_function (option) cleanup_loop ::
  "'a vfs_scheme fs_ops \<Rightarrow> vdnode \<Rightarrow> 'a vfs_scheme \<Rightarrow> 'a vfs_scheme option" where
  "cleanup_loop fops le s =
     (case list_next le (vdev_links s) of
        VdevList \<Rightarrow> Some s
      | VdevLink v \<Rightarrow>
          (case dev_fs (vdevs s v) of
             Some fs \<Rightarrow> Option.bind (fs_cleanup fops fs s) (cleanup_loop fops (VdevLink v))
           | None \<Rightarrow> cleanup_loop fops (VdevLink v) s))"

definition vfs_cleanup :: "'a vfs_scheme fs_ops \<Rightarrow> 'a vfs_scheme \<Rightarrow> 'a vfs_scheme option" where
  "vfs_cleanup fops s =
     (if list_empty VdevList (vdev_links s) then Some s
      else do {
        s \<leftarrow> lock_vdev_list s;
        s \<leftarrow> cleanup_loop fops VdevList s;
        Some (unlock_vdev_list s)
      })"

section \<open>Path names (vfslookup.c)\<close>

text \<open>The scan of \<open>get_device\<close> stops at the first colon or slash.\<close>

fun first_mark :: "string \<Rightarrow> nat \<Rightarrow> (nat \<times> char) option" where
  "first_mark [] i = None"
| "first_mark (c # cs) i = (if c = CHR '':'' \<or> c = CHR ''/'' then Some (i, c) else first_mark cs (i + 1))"

definition skip_slashes :: "string \<Rightarrow> string" where
  "skip_slashes path = dropWhile (\<lambda>c. c = CHR ''/'') path"

text \<open>A leading slash starts at the root of the boot file system, a leading colon at the root of the file
  system of the current directory.\<close>

definition path_start ::
  "(nat \<Rightarrow> 'a vfs_scheme inode_ops) \<Rightarrow> 'a vfs_scheme fs_ops \<Rightarrow> nat \<Rightarrow> string \<Rightarrow> 'a vfs_scheme \<Rightarrow>
   (int \<times> nat option \<times> 'a vfs_scheme) option" where
  "path_start ops fops fp path s =
     (if hd path = CHR ''/'' then vfs_get_bootfs s
      else case vfs_get_curdir fp s of (ret, n, s) \<Rightarrow>
        if ret \<noteq> 0 then Some (ret, n, s)
        else do {
          k \<leftarrow> n;
          fs \<leftarrow> in_fs (inodes s k);
          (root, s) \<leftarrow> fs_get_root fops fs s;
          (r, s) \<leftarrow> inode_ref_dec ops k s;
          Some (0, Some root, s)
        })"

text \<open>The result has the error code, the buffer of the path (\<open>get_device\<close> ends the device name in it with
  a zero), the rest of the path and the inode to start from.\<close>

definition get_device ::
  "(nat \<Rightarrow> 'a vfs_scheme inode_ops) \<Rightarrow> 'a vfs_scheme fs_ops \<Rightarrow> nat \<Rightarrow> string \<Rightarrow> 'a vfs_scheme \<Rightarrow>
   (int \<times> string \<times> string \<times> nat option \<times> 'a vfs_scheme) option" where
  "get_device ops fops fp path s =
     (let mark = first_mark path 0;
          colon = (case mark of None \<Rightarrow> None | Some (i, c) \<Rightarrow> if c = CHR '':'' then Some i else None);
          slash = (case mark of None \<Rightarrow> None | Some (i, c) \<Rightarrow> if c = CHR ''/'' then Some i else None)
      in if colon = None \<and> slash \<noteq> Some 0
         then case vfs_get_curdir fp s of (ret, n, s) \<Rightarrow> Some (ret, path, path, n, s)
         else if colon \<noteq> None \<and> colon \<noteq> Some 0
         then do {
           i \<leftarrow> colon;
           let name = take i path;
           (ret, n, s) \<leftarrow> vfs_get_root fops name s;
           Some (ret, name, skip_slashes (drop (i + 1) path), n, s)
         }
         else do {
           (ret, n, s) \<leftarrow> path_start ops fops fp path s;
           Some (ret, path, skip_slashes (tl path), n, s)
         })"

definition vfs_lookup ::
  "(nat \<Rightarrow> 'a vfs_scheme inode_ops) \<Rightarrow> 'a vfs_scheme fs_ops \<Rightarrow> nat \<Rightarrow> string \<Rightarrow> 'a vfs_scheme \<Rightarrow>
   (int \<times> string \<times> nat option \<times> 'a vfs_scheme) option" where
  "vfs_lookup ops fops fp path s = do {
     (ret, path, sub, n, s) \<leftarrow> get_device ops fops fp path s;
     (if ret \<noteq> 0 then Some (ret, path, None, s)
      else if sub \<noteq> []
      then do {
        k \<leftarrow> n;
        (ret, found, s) \<leftarrow> vop_lookup ops k sub s;
        (r, s) \<leftarrow> inode_ref_dec ops k s;
        Some (ret, path, found, s)
      }
      else Some (0, path, n, s))
   }"

definition vfs_lookup_parent ::
  "(nat \<Rightarrow> 'a vfs_scheme inode_ops) \<Rightarrow> 'a vfs_scheme fs_ops \<Rightarrow> nat \<Rightarrow> string \<Rightarrow> 'a vfs_scheme \<Rightarrow>
   (int \<times> nat option \<times> string \<times> 'a vfs_scheme) option" where
  "vfs_lookup_parent ops fops fp path s = do {
     (ret, path, sub, n, s) \<leftarrow> get_device ops fops fp path s;
     Some (if ret \<noteq> 0 then (ret, None, [], s) else (0, n, sub, s))
   }"

definition vfs_chdir ::
  "(nat \<Rightarrow> 'a vfs_scheme inode_ops) \<Rightarrow> 'a vfs_scheme fs_ops \<Rightarrow> nat \<Rightarrow> string \<Rightarrow> 'a vfs_scheme \<Rightarrow>
   (int \<times> 'a vfs_scheme) option" where
  "vfs_chdir ops fops fp path s = do {
     (ret, path, n, s) \<leftarrow> vfs_lookup ops fops fp path s;
     (if ret = 0
      then do {
        (ret, s) \<leftarrow> vfs_set_curdir ops fp n s;
        k \<leftarrow> n;
        (r, s) \<leftarrow> inode_ref_dec ops k s;
        Some (ret, s)
      }
      else Some (ret, s))
   }"

definition vfs_set_bootfs ::
  "(nat \<Rightarrow> 'a vfs_scheme inode_ops) \<Rightarrow> 'a vfs_scheme fs_ops \<Rightarrow> nat \<Rightarrow> string option \<Rightarrow> 'a vfs_scheme \<Rightarrow>
   (int \<times> 'a vfs_scheme) option" where
  "vfs_set_bootfs ops fops fp fsname s =
     (case fsname of
        None \<Rightarrow> do { s \<leftarrow> change_bootfs ops None s; Some (0, s) }
      | Some name \<Rightarrow>
          if dropWhile (\<lambda>c. c \<noteq> CHR '':'') name \<noteq> '':'' then Some (- E_INVAL, s)
          else do {
            (ret, s) \<leftarrow> vfs_chdir ops fops fp name s;
            (if ret \<noteq> 0 then Some (ret, s)
             else let (ret, n, s) = vfs_get_curdir fp s in
               if ret \<noteq> 0 then Some (ret, s)
               else do { s \<leftarrow> change_bootfs ops n s; Some (0, s) })
          })"

section \<open>Opening and closing (vfsfile.c)\<close>

definition vfs_close ::
  "(nat \<Rightarrow> 'a vfs_scheme inode_ops) \<Rightarrow> nat \<Rightarrow> 'a vfs_scheme \<Rightarrow> (int \<times> 'a vfs_scheme) option" where
  "vfs_close ops n s = do {
     (oc, s) \<leftarrow> inode_open_dec ops n s;
     (rc, s) \<leftarrow> inode_ref_dec ops n s;
     Some (0, s)
   }"

text \<open>Finding or creating the inode of a file; \<open>-16\<close> is \<open>-E_NOENT\<close>. The second lookup gets the buffer as
  the first one left it; the result of \<open>vop_create\<close> is not looked at.\<close>

definition open_inode ::
  "(nat \<Rightarrow> 'a vfs_scheme inode_ops) \<Rightarrow> 'a vfs_scheme fs_ops \<Rightarrow> nat \<Rightarrow> string \<Rightarrow> bool \<Rightarrow> bool \<Rightarrow> 'a vfs_scheme \<Rightarrow>
   (int \<times> nat option \<times> 'a vfs_scheme) option" where
  "open_inode ops fops fp path excl create s = do {
     (ret, path, n, s) \<leftarrow> vfs_lookup ops fops fp path s;
     (if ret \<noteq> 0
      then (if ret = - 16 \<and> create
            then do {
              (ret, dir, name, s) \<leftarrow> vfs_lookup_parent ops fops fp path s;
              (if ret \<noteq> 0 then Some (ret, None, s)
               else do {
                 d \<leftarrow> dir;
                 (ret, n, s) \<leftarrow> vop_create ops d name excl s;
                 Some (0, n, s)
               })
            }
            else Some (ret, None, s))
      else if excl \<and> create then Some (- E_EXISTS, None, s)
      else Some (0, n, s))
   }"

definition vfs_open ::
  "(nat \<Rightarrow> 'a vfs_scheme inode_ops) \<Rightarrow> 'a vfs_scheme fs_ops \<Rightarrow> nat \<Rightarrow> string \<Rightarrow> 32 word \<Rightarrow> 'a vfs_scheme \<Rightarrow>
   (int \<times> nat option \<times> 'a vfs_scheme) option" where
  "vfs_open ops fops fp path open_flags s =
     (let mode = and open_flags O_ACCMODE;
          can_write = (mode = O_WRONLY \<or> mode = O_RDWR)
      in if mode \<noteq> O_RDONLY \<and> \<not> can_write then Some (- E_INVAL, None, s)
      else if and open_flags O_TRUNC \<noteq> 0 \<and> \<not> can_write then Some (- E_INVAL, None, s)
      else do {
        let excl = (and open_flags O_EXCL \<noteq> 0);
        let create = (and open_flags O_CREAT \<noteq> 0);
        (ret, r, s) \<leftarrow> open_inode ops fops fp path excl create s;
        (if ret \<noteq> 0 then Some (ret, None, s)
         else do {
           n \<leftarrow> r;
           (ret, s) \<leftarrow> vop_open ops n open_flags s;
           (if ret \<noteq> 0
            then do { (rc, s) \<leftarrow> inode_ref_dec ops n s; Some (ret, None, s) }
            else do {
              let s = inode_open_inc n s;
              (ret, s) \<leftarrow> (if and open_flags O_TRUNC \<noteq> 0 \<or> create then vop_truncate ops n 0 s else Some (0, s));
              (if ret \<noteq> 0
               then do {
                 (oc, s) \<leftarrow> inode_open_dec ops n s;
                 (rc, s) \<leftarrow> inode_ref_dec ops n s;
                 Some (ret, None, s)
               }
               else Some (0, Some n, s))
            })
         })
      })"

end
