(* ===== verification/Files.thy ===== *)
theory Files
imports Vfs
begin

text \<open>
  The open files of a process: \<open>kern/fs/file.c\<close> and \<open>kern/fs/fs.c\<close>. \<open>fp\<close> is a pointer to a
  \<open>files_struct\<close> (\<open>current->filesp\<close> in \<open>file.c\<close>), a \<open>struct file *\<close> is an index into its
  \<open>fd_array\<close>. A function that stores into an out parameter returns the stored value as well
  (\<open>None\<close> when nothing was stored). The position of a file is passed on as the offset of an I/O
  buffer, so it is read as a natural number there; \<open>vop_tryseek\<close> refuses negative ones.
\<close>

definition FILES_STRUCT_BUFSIZE :: nat where "FILES_STRUCT_BUFSIZE = 4096 - 48"
definition FILES_STRUCT_NENTRY :: nat where "FILES_STRUCT_NENTRY = FILES_STRUCT_BUFSIZE div 56"

definition NO_FD :: int where "NO_FD = - 0x9527"
definition LSEEK_SET :: int where "LSEEK_SET = 0"
definition LSEEK_CUR :: int where "LSEEK_CUR = 1"
definition LSEEK_END :: int where "LSEEK_END = 2"
definition FS_MAX_FNAME_LEN :: nat where "FS_MAX_FNAME_LEN = 255"

record dirent =
  d_offset :: int
  d_name :: "byte list"

definition iobuf_used :: "iobuf \<Rightarrow> nat" where "iobuf_used iob = io_len iob - io_resid iob"

definition fopen_count_inc :: "file_struct \<Rightarrow> file_struct" where "fopen_count_inc f = f\<lparr>open_count := open_count f + 1\<rparr>"
definition fopen_count_dec :: "file_struct \<Rightarrow> file_struct" where "fopen_count_dec f = f\<lparr>open_count := open_count f - 1\<rparr>"

definition files_count_inc :: "nat \<Rightarrow> 'a vfs_scheme \<Rightarrow> 'a vfs_scheme" where
  "files_count_inc fp s = upd_files fp (\<lambda>d. d\<lparr>files_count := files_count d + 1\<rparr>) s"

definition files_count_dec :: "nat \<Rightarrow> 'a vfs_scheme \<Rightarrow> int \<times> 'a vfs_scheme" where
  "files_count_dec fp s =
     (let s = upd_files fp (\<lambda>d. d\<lparr>files_count := files_count d - 1\<rparr>) s in (files_count (filesps s fp), s))"

definition file_at :: "nat \<Rightarrow> nat \<Rightarrow> 'a vfs_scheme \<Rightarrow> file_struct" where
  "file_at fp i s = fd_array (filesps s fp) ! i"

definition upd_file :: "nat \<Rightarrow> nat \<Rightarrow> (file_struct \<Rightarrow> file_struct) \<Rightarrow> 'a vfs_scheme \<Rightarrow> 'a vfs_scheme" where
  "upd_file fp i f s = upd_files fp (\<lambda>d. d\<lparr>fd_array := (fd_array d)[i := f (fd_array d ! i)]\<rparr>) s"

section \<open>The descriptor table (file.c)\<close>

definition testfd :: "int \<Rightarrow> bool" where "testfd n \<longleftrightarrow> n \<ge> 0 \<and> n < int FILES_STRUCT_NENTRY"

definition get_fd_array :: "nat \<Rightarrow> 'a vfs_scheme \<Rightarrow> (file_struct list) option" where
  "get_fd_array fp s = do { kassert (files_count (filesps s fp) > 0); Some (fd_array (filesps s fp)) }"

text \<open>The argument is the memory of the table, which is not cleared.\<close>

definition fd_array_init :: "file_struct list \<Rightarrow> file_struct list" where
  "fd_array_init fs = map (\<lambda>i. (fs ! i)\<lparr>open_count := 0, status := FD_NONE, fd := int i\<rparr>) [0..<FILES_STRUCT_NENTRY]"

fun find_none :: "file_struct list \<Rightarrow> nat \<Rightarrow> nat option" where
  "find_none [] i = None"
| "find_none (f # fs) i = (if status f = FD_NONE then Some i else find_none fs (i + 1))"

definition fd_array_alloc :: "nat \<Rightarrow> int \<Rightarrow> 'a vfs_scheme \<Rightarrow> (int \<times> nat option \<times> 'a vfs_scheme) option" where
  "fd_array_alloc fp n s = do {
     fs \<leftarrow> get_fd_array fp s;
     let (ret, slot) =
       (if n = NO_FD
        then (case find_none (take FILES_STRUCT_NENTRY fs) 0 of
                None \<Rightarrow> (- E_MAX_OPEN, None)
              | Some i \<Rightarrow> (0, Some i))
        else if testfd n
        then (if status (fs ! nat n) = FD_NONE then (0, Some (nat n)) else (- E_BUSY, None))
        else (- E_INVAL, None));
     (case slot of
        None \<Rightarrow> Some (ret, None, s)
      | Some i \<Rightarrow> do {
          kassert (open_count (fs ! i) = 0);
          Some (0, Some i, upd_file fp i (\<lambda>f. f\<lparr>status := FD_INIT, node := None\<rparr>) s)
        })
   }"

definition fd_array_free ::
  "(nat \<Rightarrow> 'a vfs_scheme inode_ops) \<Rightarrow> nat \<Rightarrow> nat \<Rightarrow> 'a vfs_scheme \<Rightarrow> 'a vfs_scheme option" where
  "fd_array_free ops fp i s = do {
     kassert (status (file_at fp i s) = FD_INIT \<or> status (file_at fp i s) = FD_CLOSED);
     kassert (open_count (file_at fp i s) = 0);
     s \<leftarrow> (if status (file_at fp i s) = FD_CLOSED
          then do { n \<leftarrow> node (file_at fp i s); (ret, s) \<leftarrow> vfs_close ops n s; Some s }
          else Some s);
     Some (upd_file fp i (\<lambda>f. f\<lparr>status := FD_NONE\<rparr>) s)
   }"

definition fd_array_acquire :: "nat \<Rightarrow> nat \<Rightarrow> 'a vfs_scheme \<Rightarrow> 'a vfs_scheme option" where
  "fd_array_acquire fp i s = do {
     kassert (status (file_at fp i s) = FD_OPENED);
     Some (upd_file fp i fopen_count_inc s)
   }"

definition fd_array_release ::
  "(nat \<Rightarrow> 'a vfs_scheme inode_ops) \<Rightarrow> nat \<Rightarrow> nat \<Rightarrow> 'a vfs_scheme \<Rightarrow> 'a vfs_scheme option" where
  "fd_array_release ops fp i s = do {
     kassert (status (file_at fp i s) = FD_OPENED \<or> status (file_at fp i s) = FD_CLOSED);
     kassert (open_count (file_at fp i s) > 0);
     let s = upd_file fp i fopen_count_dec s;
     (if open_count (file_at fp i s) = 0 then fd_array_free ops fp i s else Some s)
   }"

definition fd_array_open :: "nat \<Rightarrow> nat \<Rightarrow> 'a vfs_scheme \<Rightarrow> 'a vfs_scheme option" where
  "fd_array_open fp i s = do {
     kassert (status (file_at fp i s) = FD_INIT \<and> node (file_at fp i s) \<noteq> None);
     Some (upd_file fp i (\<lambda>f. fopen_count_inc (f\<lparr>status := FD_OPENED\<rparr>)) s)
   }"

definition fd_array_close ::
  "(nat \<Rightarrow> 'a vfs_scheme inode_ops) \<Rightarrow> nat \<Rightarrow> nat \<Rightarrow> 'a vfs_scheme \<Rightarrow> 'a vfs_scheme option" where
  "fd_array_close ops fp i s = do {
     kassert (status (file_at fp i s) = FD_OPENED);
     kassert (open_count (file_at fp i s) > 0);
     let s = upd_file fp i (\<lambda>f. fopen_count_dec (f\<lparr>status := FD_CLOSED\<rparr>)) s;
     (if open_count (file_at fp i s) = 0 then fd_array_free ops fp i s else Some s)
   }"

text \<open>\<open>to\<close> and \<open>from\<close> may lie in the tables of different processes.\<close>

definition fd_array_dup :: "nat \<Rightarrow> nat \<Rightarrow> nat \<Rightarrow> nat \<Rightarrow> 'a vfs_scheme \<Rightarrow> 'a vfs_scheme option" where
  "fd_array_dup fp i from_fp j s = do {
     let src = file_at from_fp j s;
     kassert (status (file_at fp i s) = FD_INIT \<and> status src = FD_OPENED);
     let s = upd_file fp i (\<lambda>f. f\<lparr>pos := pos src, readable := readable src, writable := writable src\<rparr>) s;
     n \<leftarrow> node src;
     let s = inode_open_inc n (inode_ref_inc n s);
     let s = upd_file fp i (\<lambda>f. f\<lparr>node := Some n\<rparr>) s;
     fd_array_open fp i s
   }"

definition fd2file :: "nat \<Rightarrow> int \<Rightarrow> 'a vfs_scheme \<Rightarrow> (int \<times> nat option) option" where
  "fd2file fp n s =
     (if testfd n
      then do {
        fs \<leftarrow> get_fd_array fp s;
        let f = fs ! nat n;
        Some (if status f = FD_OPENED \<and> fd f = n then (0, Some (nat n)) else (- E_INVAL, None))
      }
      else Some (- E_INVAL, None))"

definition file_testfd :: "nat \<Rightarrow> int \<Rightarrow> bool \<Rightarrow> bool \<Rightarrow> 'a vfs_scheme \<Rightarrow> bool option" where
  "file_testfd fp n r w s = do {
     (ret, slot) \<leftarrow> fd2file fp n s;
     (case slot of
        None \<Rightarrow> Some False
      | Some i \<Rightarrow>
          if r \<and> \<not> readable (file_at fp i s) then Some False
          else if w \<and> \<not> writable (file_at fp i s) then Some False
          else Some True)
   }"

section \<open>Operations on descriptors (file.c)\<close>

text \<open>The position of a new file; when that fails, its inode is closed and the descriptor freed.\<close>

definition open_position ::
  "(nat \<Rightarrow> 'a vfs_scheme inode_ops) \<Rightarrow> nat \<Rightarrow> nat \<Rightarrow> nat \<Rightarrow> 32 word \<Rightarrow> 'a vfs_scheme \<Rightarrow> (int \<times> 'a vfs_scheme) option" where
  "open_position ops fp i n open_flags s =
     (let s = upd_file fp i (\<lambda>f. f\<lparr>pos := 0\<rparr>) s in
      if and open_flags O_APPEND \<noteq> 0
      then do {
        (ret, st, s) \<leftarrow> vop_fstat ops n s;
        (if ret \<noteq> 0
         then do { (r, s) \<leftarrow> vfs_close ops n s; s \<leftarrow> fd_array_free ops fp i s; Some (ret, s) }
         else Some (0, upd_file fp i (\<lambda>f. f\<lparr>pos := int (st_size st)\<rparr>) s))
      }
      else Some (0, s))"

definition file_open ::
  "(nat \<Rightarrow> 'a vfs_scheme inode_ops) \<Rightarrow> 'a vfs_scheme fs_ops \<Rightarrow> nat \<Rightarrow> string \<Rightarrow> 32 word \<Rightarrow> 'a vfs_scheme \<Rightarrow>
   (int \<times> 'a vfs_scheme) option" where
  "file_open ops fops fp path open_flags s =
     (let mode = and open_flags O_ACCMODE;
          r = (mode = O_RDONLY \<or> mode = O_RDWR);
          w = (mode = O_WRONLY \<or> mode = O_RDWR)
      in if \<not> r \<and> \<not> w then Some (- E_INVAL, s)
      else do {
        (ret, slot, s) \<leftarrow> fd_array_alloc fp NO_FD s;
        (case slot of
           None \<Rightarrow> Some (ret, s)
         | Some i \<Rightarrow> do {
             (ret, opened, s) \<leftarrow> vfs_open ops fops fp path open_flags s;
             (if ret \<noteq> 0 then do { s \<leftarrow> fd_array_free ops fp i s; Some (ret, s) }
              else do {
                n \<leftarrow> opened;
                (ret, s) \<leftarrow> open_position ops fp i n open_flags s;
                (if ret \<noteq> 0 then Some (ret, s)
                 else do {
                   let s = upd_file fp i (\<lambda>f. f\<lparr>node := Some n, readable := r, writable := w\<rparr>) s;
                   s \<leftarrow> fd_array_open fp i s;
                   Some (fd (file_at fp i s), s)
                 })
              })
           })
      })"

definition file_close ::
  "(nat \<Rightarrow> 'a vfs_scheme inode_ops) \<Rightarrow> nat \<Rightarrow> int \<Rightarrow> 'a vfs_scheme \<Rightarrow> (int \<times> 'a vfs_scheme) option" where
  "file_close ops fp n s = do {
     (ret, slot) \<leftarrow> fd2file fp n s;
     (case slot of
        None \<Rightarrow> Some (ret, s)
      | Some i \<Rightarrow> do { s \<leftarrow> fd_array_close ops fp i s; Some (0, s) })
   }"

text \<open>The buffer is the memory \<open>mem\<close> from \<open>base\<close> on; the result has the error code, \<open>*copied_store\<close> and
  the memory.\<close>

definition file_read ::
  "(nat \<Rightarrow> 'a vfs_scheme inode_ops) \<Rightarrow> nat \<Rightarrow> int \<Rightarrow> byte list \<Rightarrow> nat \<Rightarrow> nat \<Rightarrow> 'a vfs_scheme \<Rightarrow>
   (int \<times> nat \<times> byte list \<times> 'a vfs_scheme) option" where
  "file_read ops fp n mem base len s = do {
     (ret, slot) \<leftarrow> fd2file fp n s;
     (case slot of
        None \<Rightarrow> Some (ret, 0, mem, s)
      | Some i \<Rightarrow>
          if \<not> readable (file_at fp i s) then Some (- E_INVAL, 0, mem, s)
          else do {
            s \<leftarrow> fd_array_acquire fp i s;
            nd \<leftarrow> node (file_at fp i s);
            (ret, iob, s) \<leftarrow> vop_read ops nd (iobuf_init mem base len (nat (pos (file_at fp i s)))) s;
            let copied = iobuf_used iob;
            let s = (if status (file_at fp i s) = FD_OPENED
                     then upd_file fp i (\<lambda>f. f\<lparr>pos := pos f + int copied\<rparr>) s else s);
            s \<leftarrow> fd_array_release ops fp i s;
            Some (ret, copied, io_mem iob, s)
          })
   }"

definition file_write ::
  "(nat \<Rightarrow> 'a vfs_scheme inode_ops) \<Rightarrow> nat \<Rightarrow> int \<Rightarrow> byte list \<Rightarrow> nat \<Rightarrow> nat \<Rightarrow> 'a vfs_scheme \<Rightarrow>
   (int \<times> nat \<times> 'a vfs_scheme) option" where
  "file_write ops fp n mem base len s = do {
     (ret, slot) \<leftarrow> fd2file fp n s;
     (case slot of
        None \<Rightarrow> Some (ret, 0, s)
      | Some i \<Rightarrow>
          if \<not> writable (file_at fp i s) then Some (- E_INVAL, 0, s)
          else do {
            s \<leftarrow> fd_array_acquire fp i s;
            nd \<leftarrow> node (file_at fp i s);
            (ret, iob, s) \<leftarrow> vop_write ops nd (iobuf_init mem base len (nat (pos (file_at fp i s)))) s;
            let copied = iobuf_used iob;
            let s = (if status (file_at fp i s) = FD_OPENED
                     then upd_file fp i (\<lambda>f. f\<lparr>pos := pos f + int copied\<rparr>) s else s);
            s \<leftarrow> fd_array_release ops fp i s;
            Some (ret, copied, s)
          })
   }"

definition file_seek ::
  "(nat \<Rightarrow> 'a vfs_scheme inode_ops) \<Rightarrow> nat \<Rightarrow> int \<Rightarrow> int \<Rightarrow> int \<Rightarrow> 'a vfs_scheme \<Rightarrow> (int \<times> 'a vfs_scheme) option" where
  "file_seek ops fp n off whence s = do {
     (ret, slot) \<leftarrow> fd2file fp n s;
     (case slot of
        None \<Rightarrow> Some (ret, s)
      | Some i \<Rightarrow> do {
          s \<leftarrow> fd_array_acquire fp i s;
          nd \<leftarrow> node (file_at fp i s);
          (ret, off, s) \<leftarrow>
            (if whence = LSEEK_SET then Some (0, off, s)
             else if whence = LSEEK_CUR then Some (0, off + pos (file_at fp i s), s)
             else if whence = LSEEK_END
             then do {
               (ret, st, s) \<leftarrow> vop_fstat ops nd s;
               Some (ret, if ret = 0 then off + int (st_size st) else off, s)
             }
             else Some (- E_INVAL, off, s));
          (ret, s) \<leftarrow>
            (if ret = 0
             then do {
               (ret, s) \<leftarrow> vop_tryseek ops nd off s;
               Some (ret, if ret = 0 then upd_file fp i (\<lambda>f. f\<lparr>pos := off\<rparr>) s else s)
             }
             else Some (ret, s));
          s \<leftarrow> fd_array_release ops fp i s;
          Some (ret, s)
        })
   }"

definition file_fstat ::
  "(nat \<Rightarrow> 'a vfs_scheme inode_ops) \<Rightarrow> nat \<Rightarrow> int \<Rightarrow> 'a vfs_scheme \<Rightarrow> (int \<times> stat option \<times> 'a vfs_scheme) option" where
  "file_fstat ops fp n s = do {
     (ret, slot) \<leftarrow> fd2file fp n s;
     (case slot of
        None \<Rightarrow> Some (ret, None, s)
      | Some i \<Rightarrow> do {
          s \<leftarrow> fd_array_acquire fp i s;
          nd \<leftarrow> node (file_at fp i s);
          (ret, st, s) \<leftarrow> vop_fstat ops nd s;
          s \<leftarrow> fd_array_release ops fp i s;
          Some (ret, Some st, s)
        })
   }"

definition file_fsync ::
  "(nat \<Rightarrow> 'a vfs_scheme inode_ops) \<Rightarrow> nat \<Rightarrow> int \<Rightarrow> 'a vfs_scheme \<Rightarrow> (int \<times> 'a vfs_scheme) option" where
  "file_fsync ops fp n s = do {
     (ret, slot) \<leftarrow> fd2file fp n s;
     (case slot of
        None \<Rightarrow> Some (ret, s)
      | Some i \<Rightarrow> do {
          s \<leftarrow> fd_array_acquire fp i s;
          nd \<leftarrow> node (file_at fp i s);
          (ret, s) \<leftarrow> vop_fsync ops nd s;
          s \<leftarrow> fd_array_release ops fp i s;
          Some (ret, s)
        })
   }"

text \<open>The offset is what the user has put into the entry; an \<open>iobuf\<close> has its 64 bits.\<close>

definition file_getdirentry ::
  "(nat \<Rightarrow> 'a vfs_scheme inode_ops) \<Rightarrow> nat \<Rightarrow> int \<Rightarrow> dirent \<Rightarrow> 'a vfs_scheme \<Rightarrow> (int \<times> dirent \<times> 'a vfs_scheme) option" where
  "file_getdirentry ops fp n direntp s = do {
     (ret, slot) \<leftarrow> fd2file fp n s;
     (case slot of
        None \<Rightarrow> Some (ret, direntp, s)
      | Some i \<Rightarrow> do {
          s \<leftarrow> fd_array_acquire fp i s;
          nd \<leftarrow> node (file_at fp i s);
          (ret, iob, s) \<leftarrow>
            vop_getdirentry ops nd (iobuf_init (d_name direntp) 0 (FS_MAX_FNAME_LEN + 1) (nat (d_offset direntp mod 2 ^ 64))) s;
          let direntp = direntp\<lparr>d_name := io_mem iob\<rparr>;
          let direntp = (if ret = 0 then direntp\<lparr>d_offset := d_offset direntp + int (iobuf_used iob)\<rparr> else direntp);
          s \<leftarrow> fd_array_release ops fp i s;
          Some (ret, direntp, s)
        })
   }"

definition file_dup :: "nat \<Rightarrow> int \<Rightarrow> int \<Rightarrow> 'a vfs_scheme \<Rightarrow> (int \<times> 'a vfs_scheme) option" where
  "file_dup fp fd1 fd2 s = do {
     (ret, slot) \<leftarrow> fd2file fp fd1 s;
     (case slot of
        None \<Rightarrow> Some (ret, s)
      | Some j \<Rightarrow> do {
          (ret, slot, s) \<leftarrow> fd_array_alloc fp fd2 s;
          (case slot of
             None \<Rightarrow> Some (ret, s)
           | Some i \<Rightarrow> do {
               s \<leftarrow> fd_array_dup fp i fp j s;
               Some (fd (file_at fp i s), s)
             })
        })
   }"

section \<open>The files of a process (fs.c)\<close>

text \<open>\<open>kp\<close> is the result of \<open>kmalloc\<close>.\<close>

definition files_create :: "nat option \<Rightarrow> 'a vfs_scheme \<Rightarrow> nat option \<times> 'a vfs_scheme" where
  "files_create kp s =
     (case kp of
        None \<Rightarrow> (None, s)
      | Some fp \<Rightarrow> (Some fp, upd_files fp
          (\<lambda>d. d\<lparr>pwd := None, files_count := 0, files_sem := 1, fd_array := fd_array_init (fd_array d)\<rparr>) s))"

text \<open>The loops of \<open>files_destroy\<close> and \<open>files_closeall\<close> over the descriptors from \<open>i\<close> on, \<open>k\<close> of them.\<close>

fun destroy_loop ::
  "(nat \<Rightarrow> 'a vfs_scheme inode_ops) \<Rightarrow> nat \<Rightarrow> nat \<Rightarrow> nat \<Rightarrow> 'a vfs_scheme \<Rightarrow> 'a vfs_scheme option" where
  "destroy_loop ops fp i 0 s = Some s"
| "destroy_loop ops fp i (Suc k) s = do {
     s \<leftarrow> (if status (file_at fp i s) = FD_OPENED then fd_array_close ops fp i s else Some s);
     kassert (status (file_at fp i s) = FD_NONE);
     destroy_loop ops fp (i + 1) k s
   }"

definition files_destroy ::
  "(nat \<Rightarrow> 'a vfs_scheme inode_ops) \<Rightarrow> nat \<Rightarrow> 'a vfs_scheme \<Rightarrow> 'a vfs_scheme option" where
  "files_destroy ops fp s = do {
     kassert (files_count (filesps s fp) = 0);
     s \<leftarrow> (case pwd (filesps s fp) of
            None \<Rightarrow> Some s
          | Some n \<Rightarrow> do { (r, s) \<leftarrow> inode_ref_dec ops n s; Some s });
     s \<leftarrow> destroy_loop ops fp 0 FILES_STRUCT_NENTRY s;
     Some (kfree_vfs fp s)
   }"

fun closeall_loop ::
  "(nat \<Rightarrow> 'a vfs_scheme inode_ops) \<Rightarrow> nat \<Rightarrow> nat \<Rightarrow> nat \<Rightarrow> 'a vfs_scheme \<Rightarrow> 'a vfs_scheme option" where
  "closeall_loop ops fp i 0 s = Some s"
| "closeall_loop ops fp i (Suc k) s = do {
     s \<leftarrow> (if status (file_at fp i s) = FD_OPENED then fd_array_close ops fp i s else Some s);
     closeall_loop ops fp (i + 1) k s
   }"

definition files_closeall ::
  "(nat \<Rightarrow> 'a vfs_scheme inode_ops) \<Rightarrow> nat \<Rightarrow> 'a vfs_scheme \<Rightarrow> 'a vfs_scheme option" where
  "files_closeall ops fp s = do {
     kassert (files_count (filesps s fp) > 0);
     closeall_loop ops fp 2 (FILES_STRUCT_NENTRY - 2) s
   }"

fun dup_loop :: "nat \<Rightarrow> nat \<Rightarrow> nat \<Rightarrow> nat \<Rightarrow> 'a vfs_scheme \<Rightarrow> 'a vfs_scheme option" where
  "dup_loop to from i 0 s = Some s"
| "dup_loop to from i (Suc k) s = do {
     s \<leftarrow> (if status (file_at from i s) = FD_OPENED
          then fd_array_dup to i from i (upd_file to i (\<lambda>f. f\<lparr>status := FD_INIT\<rparr>) s)
          else Some s);
     dup_loop to from (i + 1) k s
   }"

definition dup_files :: "nat \<Rightarrow> nat \<Rightarrow> 'a vfs_scheme \<Rightarrow> (int \<times> 'a vfs_scheme) option" where
  "dup_files to from s = do {
     kassert (files_count (filesps s to) = 0 \<and> files_count (filesps s from) > 0);
     let s = upd_files to (\<lambda>d. d\<lparr>pwd := pwd (filesps s from)\<rparr>) s;
     let s = (case pwd (filesps s to) of None \<Rightarrow> s | Some n \<Rightarrow> inode_ref_inc n s);
     s \<leftarrow> dup_loop to from 0 FILES_STRUCT_NENTRY s;
     Some (0, s)
   }"

section \<open>What the operations do to the tables and the counts\<close>

text \<open>\<open>ind r\<close> is one at the inode \<open>r\<close>. \<open>counts a b s s'\<close>: the descriptor tables are the same, the open
  counts have moved by \<open>a\<close> and the reference counts by at least \<open>b\<close>.\<close>

definition ind :: "nat option \<Rightarrow> nat \<Rightarrow> int" where "ind r n = (if r = Some n then 1 else 0)"

definition counts ::
  "(nat \<Rightarrow> int) \<Rightarrow> (nat \<Rightarrow> int) \<Rightarrow> 'a vfs_scheme \<Rightarrow> 'b vfs_scheme \<Rightarrow> bool" where
  "counts a b s s' \<longleftrightarrow> filesps s' = filesps s \<and>
     (\<forall>n. iopen_count (inodes s' n) = iopen_count (inodes s n) + a n) \<and>
     (\<forall>n. ref_count (inodes s' n) \<ge> ref_count (inodes s n) + b n)"

definition grants :: "nat option \<Rightarrow> 'a vfs_scheme \<Rightarrow> 'b vfs_scheme \<Rightarrow> bool" where
  "grants r s s' \<longleftrightarrow> counts (\<lambda>_. 0) (ind r) s s'"

lemma ind_simps [simp]: "ind None n = 0" "ind (Some m) n = (if n = m then 1 else 0)"
  by (auto simp: ind_def)

lemma ind_nonneg [simp]: "0 \<le> ind r n"
  by (simp add: ind_def)

lemma counts_refl: "counts (\<lambda>_. 0) (\<lambda>_. 0) s s"
  by (simp add: counts_def)

lemma counts_trans:
  assumes "counts a b s t" "counts a' b' t u" "\<And>n. a'' n = a n + a' n" "\<And>n. b'' n \<le> b n + b' n"
  shows "counts a'' b'' s u"
  unfolding counts_def
proof (intro conjI allI)
  fix n
  have "ref_count (inodes s n) + b n \<le> ref_count (inodes t n)" "ref_count (inodes t n) + b' n \<le> ref_count (inodes u n)"
    using assms(1,2) by (simp_all add: counts_def)
  then show "ref_count (inodes s n) + b'' n \<le> ref_count (inodes u n)" using assms(4) [of n] by linarith
qed (use assms(1-3) in \<open>simp_all add: counts_def\<close>)

lemma counts_weaken: "counts a b s t \<Longrightarrow> (\<And>n. b' n \<le> b n) \<Longrightarrow> counts a b' s t"
  by (rule counts_trans [OF _ counts_refl]) (auto intro: order_trans)

lemma grants_refl [simp]: "grants None s s"
  by (simp add: grants_def counts_def)

lemma grants_trans:
  "grants r s t \<Longrightarrow> grants None t u \<Longrightarrow> grants r s u"
  "grants None s t \<Longrightarrow> grants r t u \<Longrightarrow> grants r s u"
  unfolding grants_def by (erule (1) counts_trans; simp)+

lemma grants_drop: "grants r s t \<Longrightarrow> grants None s t"
  unfolding grants_def by (erule counts_weaken) simp

lemma grants_counts: "grants r s t \<Longrightarrow> counts (\<lambda>_. 0) (\<lambda>_. 0) s t"
  unfolding grants_def by (erule counts_weaken) simp

lemma upd_inode_simps [simp]:
  "filesps (upd_inode n f s) = filesps s" "inodes (upd_inode n f s) = (inodes s)(n := f (inodes s n))"
  "inodes (upd_files fp g s) = inodes s" "filesps (upd_files fp g s) = (filesps s)(fp := g (filesps s fp))"
  "inodes (upd_vdev v h s) = inodes s" "filesps (upd_vdev v h s) = filesps s"
  "inodes (kfree_vfs p s) = inodes s" "filesps (kfree_vfs p s) = filesps s"
  by (simp_all add: upd_inode_def upd_files_def upd_vdev_def kfree_vfs_def)

lemma counts_ref_inc: "counts (\<lambda>_. 0) (ind (Some n)) s (inode_ref_inc n s)"
  by (simp add: counts_def inode_ref_inc_def)

lemma counts_open_inc: "counts (ind (Some n)) (\<lambda>_. 0) s (inode_open_inc n s)"
  by (simp add: counts_def inode_open_inc_def)

section \<open>The contract of the function tables\<close>

text \<open>
  What the file layer relies on: the functions of an inode and of a file system leave the
  descriptor tables and the open counts alone and take away no reference; a lookup, a creation and
  \<open>fs_get_root\<close> leave the caller a reference to the inode they hand out.
\<close>

locale vnode_ops =
  fixes ops :: "nat \<Rightarrow> 'a vfs_scheme inode_ops" and fops :: "'a vfs_scheme fs_ops"
  assumes open_law: "op_open (ops n) = Some f1 \<Longrightarrow> f1 n fl s = Some (ret, s') \<Longrightarrow> grants None s s'"
    and close_law: "op_close (ops n) = Some f2 \<Longrightarrow> f2 n s = Some (ret, s') \<Longrightarrow> grants None s s'"
    and read_law: "op_read (ops n) = Some f3 \<Longrightarrow> f3 n iob s = Some (ret, iob', s') \<Longrightarrow> grants None s s'"
    and write_law: "op_write (ops n) = Some f4 \<Longrightarrow> f4 n iob s = Some (ret, iob', s') \<Longrightarrow> grants None s s'"
    and fstat_law: "op_fstat (ops n) = Some f5 \<Longrightarrow> f5 n s = Some (ret, st, s') \<Longrightarrow> grants None s s'"
    and fsync_law: "op_fsync (ops n) = Some f6 \<Longrightarrow> f6 n s = Some (ret, s') \<Longrightarrow> grants None s s'"
    and getdirentry_law: "op_getdirentry (ops n) = Some f7 \<Longrightarrow> f7 n iob s = Some (ret, iob', s') \<Longrightarrow> grants None s s'"
    and reclaim_law: "op_reclaim (ops n) = Some f8 \<Longrightarrow> f8 n s = Some (ret, s') \<Longrightarrow> grants None s s'"
    and gettype_law: "op_gettype (ops n) = Some f9 \<Longrightarrow> f9 n s = Some (ret, ty, s') \<Longrightarrow> grants None s s'"
    and tryseek_law: "op_tryseek (ops n) = Some f10 \<Longrightarrow> f10 n p s = Some (ret, s') \<Longrightarrow> grants None s s'"
    and truncate_law: "op_truncate (ops n) = Some f11 \<Longrightarrow> f11 n len s = Some (ret, s') \<Longrightarrow> grants None s s'"
    and create_law: "op_create (ops n) = Some f12 \<Longrightarrow> f12 n name excl s = Some (ret, m, s') \<Longrightarrow> grants m s s'"
    and lookup_law: "op_lookup (ops n) = Some f13 \<Longrightarrow> f13 n path s = Some (ret, m, s') \<Longrightarrow>
      grants (if ret = 0 then m else None) s s'"
    and root_law: "fs_get_root fops fs s = Some (k, s') \<Longrightarrow> grants (Some k) s s'"
begin

lemma vop_laws:
  "vop_open ops n fl s = Some (ret, s') \<Longrightarrow> grants None s s'"
  "vop_close ops n s = Some (ret, s') \<Longrightarrow> grants None s s'"
  "vop_read ops n iob s = Some (ret, iob', s') \<Longrightarrow> grants None s s'"
  "vop_write ops n iob s = Some (ret, iob', s') \<Longrightarrow> grants None s s'"
  "vop_fstat ops n s = Some (ret, st, s') \<Longrightarrow> grants None s s'"
  "vop_fsync ops n s = Some (ret, s') \<Longrightarrow> grants None s s'"
  "vop_getdirentry ops n iob s = Some (ret, iob', s') \<Longrightarrow> grants None s s'"
  "vop_reclaim ops n s = Some (ret, s') \<Longrightarrow> grants None s s'"
  "vop_gettype ops n s = Some (ret, ty, s') \<Longrightarrow> grants None s s'"
  "vop_tryseek ops n p s = Some (ret, s') \<Longrightarrow> grants None s s'"
  "vop_truncate ops n len s = Some (ret, s') \<Longrightarrow> grants None s s'"
  "vop_create ops n name excl s = Some (ret, m, s') \<Longrightarrow> grants m s s'"
  "vop_lookup ops n path s = Some (ret, m, s') \<Longrightarrow> grants (if ret = 0 then m else None) s s'"
  unfolding vop_open_def vop_close_def vop_read_def vop_write_def vop_fstat_def vop_fsync_def vop_getdirentry_def
    vop_reclaim_def vop_gettype_def vop_tryseek_def vop_truncate_def vop_create_def vop_lookup_def vop_op_def
  by (auto simp only: bind_eq_Some_conv option.inject kassert_eq_Some intro: open_law close_law read_law write_law
      fstat_law fsync_law getdirentry_law reclaim_law gettype_law tryseek_law truncate_law create_law lookup_law)

lemma ref_dec_counts:
  assumes "inode_ref_dec ops n s = Some (r, s')"
  shows "counts (\<lambda>_. 0) (\<lambda>m. - ind (Some n) m) s s'"
proof -
  let ?t = "upd_inode n (\<lambda>d. d\<lparr>ref_count := ref_count d - 1\<rparr>) s"
  have dec: "counts (\<lambda>_. 0) (\<lambda>m. - ind (Some n) m) s ?t" by (simp add: counts_def)
  have "grants None ?t s'"
    using assms by (auto simp: inode_ref_dec_def Let_def bind_eq_Some_conv split: if_splits dest: vop_laws)
  then show ?thesis by (intro counts_trans [OF dec grants_counts]) simp_all
qed

lemma open_dec_counts:
  assumes "inode_open_dec ops n s = Some (r, s')"
  shows "counts (\<lambda>m. - ind (Some n) m) (\<lambda>_. 0) s s'"
proof -
  let ?t = "upd_inode n (\<lambda>d. d\<lparr>iopen_count := iopen_count d - 1\<rparr>) s"
  have dec: "counts (\<lambda>m. - ind (Some n) m) (\<lambda>_. 0) s ?t" by (simp add: counts_def)
  have "grants None ?t s'"
    using assms by (auto simp: inode_open_dec_def Let_def bind_eq_Some_conv split: if_splits dest: vop_laws)
  then show ?thesis by (intro counts_trans [OF dec grants_counts]) simp_all
qed

lemma close_counts:
  assumes "vfs_close ops n s = Some (r, s')"
  shows "counts (\<lambda>m. - ind (Some n) m) (\<lambda>m. - ind (Some n) m) s s'"
proof -
  obtain oc t rc where o: "inode_open_dec ops n s = Some (oc, t)" and d: "inode_ref_dec ops n t = Some (rc, s')"
    using assms by (auto simp: vfs_close_def bind_eq_Some_conv)
  show ?thesis by (rule counts_trans [OF open_dec_counts [OF o] ref_dec_counts [OF d]]) simp_all
qed

lemma drop_granted: "grants (Some n) s t \<Longrightarrow> inode_ref_dec ops n t = Some (r, u) \<Longrightarrow> grants None s u"
  unfolding grants_def by (rule counts_trans [OF _ ref_dec_counts]) (assumption | simp)+

lemma swap_granted:
  assumes "grants (Some k) s t" "grants r t u" "inode_ref_dec ops k u = Some (rc, v)"
  shows "grants r s v"
proof -
  have "counts (\<lambda>_. 0) (\<lambda>n. ind (Some k) n + ind r n) s u"
    using assms(1,2) unfolding grants_def by (rule counts_trans) simp_all
  then show ?thesis unfolding grants_def by (rule counts_trans [OF _ ref_dec_counts [OF assms(3)]]) simp_all
qed

end

section \<open>Looking up, opening and closing under the contract\<close>

lemma sem_grants [simp]:
  "grants r (s\<lparr>vdev_list_sem := v\<rparr>) t = grants r s t" "grants r s (t\<lparr>vdev_list_sem := v\<rparr>) = grants r s t"
  "grants r (s\<lparr>bootfs_sem := v\<rparr>) t = grants r s t" "grants r s (t\<lparr>bootfs_sem := v\<rparr>) = grants r s t"
  by (simp_all add: grants_def counts_def)

lemma ref_inc_grants [simp]: "grants (Some n) s (inode_ref_inc n s)"
  by (simp add: grants_def counts_ref_inc)

lemma curdir_cases:
  obtains "vfs_get_curdir fp s = (- E_NOENT, None, s)"
  | n where "vfs_get_curdir fp s = (0, Some n, inode_ref_inc n s)"
  by (cases "pwd (filesps s fp)") (auto simp: vfs_get_curdir_def)

lemma curdir_grants: "vfs_get_curdir fp s = (ret, n, s') \<Longrightarrow> grants n s s'"
  by (cases fp s rule: curdir_cases) auto

lemma bootfs_grants:
  assumes "vfs_get_bootfs s = Some (ret, n, s')"
  shows "grants n s s'"
proof (cases "bootfs_node s")
  case (Some k)
  then obtain v where "n = Some k" "s' = (inode_ref_inc k (s\<lparr>bootfs_sem := v\<rparr>))
      \<lparr>bootfs_sem := sem_up (bootfs_sem (inode_ref_inc k (s\<lparr>bootfs_sem := v\<rparr>)))\<rparr>"
    using assms by (auto simp: vfs_get_bootfs_def Let_def bind_eq_Some_conv)
  then show ?thesis using ref_inc_grants [of k "s\<lparr>bootfs_sem := v\<rparr>"] by simp
qed (use assms in \<open>simp add: vfs_get_bootfs_def\<close>)

context vnode_ops begin

lemma get_root_grants:
  assumes "vfs_get_root fops name s = Some (ret, n, s')"
  shows "grants n s s'"
proof (cases "list_empty VdevList (vdev_links s)")
  case False
  let ?t = "s\<lparr>vdev_list_sem := vdev_list_sem s - 1\<rparr>"
  have sem: "vdev_list_sem s > 0"
    using assms False by (auto simp: vfs_get_root_def lock_vdev_list_def sem_down_def split: if_splits)
  then have locked: "lock_vdev_list s = Some ?t" by (simp add: lock_vdev_list_def sem_down_def)
  note unfold = assms [unfolded vfs_get_root_def locked if_not_P [OF False]]
  show ?thesis
  proof (cases "find_vdev (\<lambda>d. name = devname d) VdevList ?t")
    case (Some r)
    show ?thesis
    proof (cases r)
      case (Some v)
      show ?thesis
      proof (cases "dev_fs (vdevs s v)")
        case fs: (Some fs)
        then obtain root u where u: "fs_get_root fops fs ?t = Some (root, u)"
          "n = Some root" "s' = unlock_vdev_list u"
          using unfold Some \<open>find_vdev _ _ _ = Some r\<close> by (auto simp: bind_eq_Some_conv)
        then show ?thesis using root_law [OF u(1)] by (simp add: unlock_vdev_list_def)
      next
        case None
        then show ?thesis using unfold Some \<open>find_vdev _ _ _ = Some r\<close> ref_inc_grants [of _ ?t]
          by (auto simp: bind_eq_Some_conv unlock_vdev_list_def split: if_splits)
      qed
    qed (use unfold \<open>find_vdev _ _ _ = Some r\<close> in \<open>auto simp: unlock_vdev_list_def\<close>)
  qed (use unfold in simp)
qed (use assms in \<open>simp add: vfs_get_root_def\<close>)

lemma path_start_grants:
  assumes "path_start ops fops fp path s = Some (ret, n, s')"
  shows "grants n s s'"
proof (cases "hd path = CHR ''/''")
  case False
  show ?thesis
  proof (cases fp s rule: curdir_cases)
    case (2 k)
    then obtain fs root t r where t: "fs_get_root fops fs (inode_ref_inc k s) = Some (root, t)"
      and r: "inode_ref_dec ops k t = Some (r, s')" and n: "n = Some root"
      using assms False by (auto simp: path_start_def bind_eq_Some_conv)
    show ?thesis using swap_granted [OF ref_inc_grants root_law [OF t] r] n by simp
  qed (use assms False in \<open>auto simp: path_start_def error_codes\<close>)
qed (use assms bootfs_grants in \<open>auto simp: path_start_def\<close>)

lemma get_device_grants:
  assumes "get_device ops fops fp path s = Some (ret, path', sub, n, s')"
  shows "grants n s s'"
  using assms unfolding get_device_def Let_def
  by (auto simp: bind_eq_Some_conv split: if_splits prod.splits
      dest: curdir_grants get_root_grants path_start_grants)

lemma lookup_grants:
  assumes "vfs_lookup ops fops fp path s = Some (ret, path', found, s')"
  shows "grants (if ret = 0 then found else None) s s'"
proof -
  obtain ret1 p sub n t where d: "get_device ops fops fp path s = Some (ret1, p, sub, n, t)"
    and rest: "(if ret1 \<noteq> 0 then Some (ret1, p, None, t)
      else if sub \<noteq> []
      then do { k \<leftarrow> n; (ret, found, s) \<leftarrow> vop_lookup ops k sub t; (r, s) \<leftarrow> inode_ref_dec ops k s;
                Some (ret, p, found, s) }
      else Some (0, p, n, t)) = Some (ret, path', found, s')"
    using assms by (auto simp: vfs_lookup_def bind_eq_Some_conv)
  note g = get_device_grants [OF d]
  consider (err) "s' = t" "ret \<noteq> 0" | (dir) "s' = t" "found = n" "ret = 0"
    | (sub) k r u where "n = Some k" "vop_lookup ops k sub t = Some (ret, found, u)" "inode_ref_dec ops k u = Some (r, s')"
    using rest by (auto simp: bind_eq_Some_conv split: if_splits)
  then show ?thesis
  proof cases
    case sub
    show ?thesis by (rule swap_granted [OF _ vop_laws(13) [OF sub(2)] sub(3)]) (use g sub(1) in simp)
  qed (use g in \<open>auto intro: grants_drop\<close>)
qed

lemma lookup_parent_grants:
  assumes "vfs_lookup_parent ops fops fp path s = Some (ret, dir, name, s')"
  shows "grants dir s s'"
  using assms by (auto simp: vfs_lookup_parent_def bind_eq_Some_conv split: if_splits
      dest!: get_device_grants intro: grants_drop)

lemma open_inode_grants:
  assumes "open_inode ops fops fp path excl create s = Some (ret, r, s')"
  shows "grants r s s'"
proof -
  obtain ret1 p n t where l: "vfs_lookup ops fops fp path s = Some (ret1, p, n, t)"
    using assms by (auto simp: open_inode_def bind_eq_Some_conv)
  note g = lookup_grants [OF l] and k = grants_drop [OF lookup_grants [OF l]]
  have made: "grants r s s'" if "ret1 \<noteq> 0" "ret1 = - 16 \<and> create"
  proof -
    note cond = that
    obtain x where x: "vfs_lookup_parent ops fops fp p t = Some x"
      using assms cond l by (cases "vfs_lookup_parent ops fops fp p t") (auto simp: open_inode_def)
    obtain ret2 dir name u where e: "x = (ret2, dir, name, u)" by (cases x)
    note p = x [unfolded e]
    have rest: "(if ret2 \<noteq> 0 then Some (ret2, None, u)
        else do { d \<leftarrow> dir; (ret, n, s) \<leftarrow> vop_create ops d name excl u; Some (0, n, s) }) = Some (ret, r, s')"
      using assms cond l p by (simp add: open_inode_def)
    note pg = grants_trans(1) [OF k grants_drop [OF lookup_parent_grants [OF p]]]
    show ?thesis using rest pg
      by (auto simp: bind_eq_Some_conv split: if_splits dest!: vop_laws(12) intro: grants_trans(2))
  qed
  show ?thesis
  proof (cases "ret1 \<noteq> 0")
    case True
    then show ?thesis using made assms l k by (cases "ret1 = - 16 \<and> create") (auto simp: open_inode_def)
  next
    case False
    then show ?thesis using assms l g k by (auto simp: open_inode_def split: if_splits)
  qed
qed

text \<open>On success the opened inode has one more open and one more reference.\<close>

lemma vfs_open_counts:
  assumes "vfs_open ops fops fp path fl s = Some (ret, r, s')"
  shows "if ret = 0 then r \<noteq> None \<and> counts (ind r) (ind r) s s' else grants None s s'"
proof (cases "ret = 0")
  case True
  then obtain n t t1 t2 where o: "open_inode ops fops fp path (and fl O_EXCL \<noteq> 0) (and fl O_CREAT \<noteq> 0) s = Some (0, Some n, t)"
    and v: "vop_open ops n fl t = Some (0, t1)" and r: "r = Some n"
    and tr: "(if and fl O_TRUNC \<noteq> 0 \<or> and fl O_CREAT \<noteq> 0 then vop_truncate ops n 0 (inode_open_inc n t1)
              else Some (0, inode_open_inc n t1)) = Some (0, s')"
    using assms by (fastforce simp: vfs_open_def Let_def bind_eq_Some_conv E_INVAL_def split: if_splits)
  have "grants (Some n) s t1" using grants_trans(1) [OF open_inode_grants [OF o] vop_laws(1) [OF v]] .
  then have "counts (ind r) (ind r) s (inode_open_inc n t1)"
    unfolding grants_def r by (rule counts_trans [OF _ counts_open_inc]) simp_all
  moreover have "grants None (inode_open_inc n t1) s'" using tr by (auto split: if_splits dest: vop_laws)
  ultimately have "counts (ind r) (ind r) s s'" by (rule counts_trans [OF _ grants_counts]) simp_all
  then show ?thesis using True r by simp
next
  case False
  let ?opened = "\<lambda>n t. do {
      (ret, s) \<leftarrow> (if and fl O_TRUNC \<noteq> 0 \<or> and fl O_CREAT \<noteq> 0 then vop_truncate ops n 0 t else Some (0, t));
      (if ret \<noteq> 0 then do { (oc, s) \<leftarrow> inode_open_dec ops n s; (rc, s) \<leftarrow> inode_ref_dec ops n s; Some (ret, None, s) }
       else Some (0, Some n, s)) }"
  consider (inval) "s' = s"
    | (looked) ret1 r1 where "open_inode ops fops fp path (and fl O_EXCL \<noteq> 0) (and fl O_CREAT \<noteq> 0) s = Some (ret1, r1, s')"
    | (refused) n t t1 rc ret1 where "open_inode ops fops fp path (and fl O_EXCL \<noteq> 0) (and fl O_CREAT \<noteq> 0) s = Some (0, Some n, t)"
        "vop_open ops n fl t = Some (ret1, t1)" "inode_ref_dec ops n t1 = Some (rc, s')"
    | (opened) n t t1 where "open_inode ops fops fp path (and fl O_EXCL \<noteq> 0) (and fl O_CREAT \<noteq> 0) s = Some (0, Some n, t)"
        "vop_open ops n fl t = Some (0, t1)" "?opened n (inode_open_inc n t1) = Some (ret, r, s')"
    using assms False unfolding vfs_open_def Let_def
    by (auto simp: bind_eq_Some_conv split: if_splits)
  then have "grants None s s'"
  proof cases
    case looked
    then show ?thesis by (blast intro: grants_drop open_inode_grants)
  next
    case refused
    show ?thesis by (rule drop_granted [OF grants_trans(1) [OF open_inode_grants [OF refused(1)]
        vop_laws(1) [OF refused(2)]] refused(3)])
  next
    case opened
    obtain t2 t3 oc rc ret2 where tr: "(if and fl O_TRUNC \<noteq> 0 \<or> and fl O_CREAT \<noteq> 0 then vop_truncate ops n 0 (inode_open_inc n t1)
        else Some (0, inode_open_inc n t1)) = Some (ret2, t2)"
      and u: "inode_open_dec ops n t2 = Some (oc, t3)" "inode_ref_dec ops n t3 = Some (rc, s')"
      using opened(3) False by (auto simp: bind_eq_Some_conv split: if_splits)
    have "grants None (inode_open_inc n t1) t2" using tr by (auto split: if_splits dest: vop_laws)
    then have "counts (ind (Some n)) (\<lambda>_. 0) t1 t2"
      by (intro counts_trans [OF counts_open_inc grants_counts]) simp_all
    then have "counts (\<lambda>_. 0) (\<lambda>_. 0) t1 t3" by (rule counts_trans [OF _ open_dec_counts [OF u(1)]]) simp_all
    then have k: "grants None t1 t3" by (simp add: grants_def counts_def)
    show ?thesis by (rule drop_granted [OF grants_trans(1) [OF grants_trans(1) [OF open_inode_grants [OF opened(1)]
        vop_laws(1) [OF opened(2)]] k] u(2)])
  qed simp
  then show ?thesis using False by simp
qed

end

section \<open>One descriptor changes\<close>

text \<open>\<open>slot_to fp i f a b s s'\<close>: entry \<open>i\<close> of the table of \<open>fp\<close> has become \<open>f\<close>, the other entries and tables
  are as before, and the counts of the inodes have moved by \<open>a\<close> and at least \<open>b\<close>.\<close>

definition slot_to ::
  "nat \<Rightarrow> nat \<Rightarrow> file_struct \<Rightarrow> (nat \<Rightarrow> int) \<Rightarrow> (nat \<Rightarrow> int) \<Rightarrow> 'a vfs_scheme \<Rightarrow> 'b vfs_scheme \<Rightarrow> bool" where
  "slot_to fp i f a b s s' \<longleftrightarrow> i < length (fd_array (filesps s fp)) \<and>
     counts a b (upd_file fp i (\<lambda>_. f) s) s'"

lemma upd_file_simps [simp]:
  "inodes (upd_file fp i f s) = inodes s"
  "filesps (upd_file fp i f s) =
     (filesps s)(fp := (filesps s fp)\<lparr>fd_array := (fd_array (filesps s fp))[i := f (file_at fp i s)]\<rparr>)"
  by (simp_all add: upd_file_def file_at_def)

lemma slot_to_at: "slot_to fp i f a b s s' \<Longrightarrow> file_at fp i s' = f"
  by (simp add: slot_to_def counts_def file_at_def)

lemma slot_to_length: "slot_to fp i f a b s s' \<Longrightarrow> length (fd_array (filesps s' fp)) = length (fd_array (filesps s fp))"
  by (simp add: slot_to_def counts_def)

lemma slot_to_upd:
  "i < length (fd_array (filesps s fp)) \<Longrightarrow> slot_to fp i (g (file_at fp i s)) (\<lambda>_. 0) (\<lambda>_. 0) s (upd_file fp i g s)"
  by (simp add: slot_to_def counts_def)

lemma slot_to_counts:
  "i < length (fd_array (filesps s fp)) \<Longrightarrow> counts a b s s' \<Longrightarrow> slot_to fp i (file_at fp i s) a b s s'"
  by (auto simp: slot_to_def counts_def file_at_def)

lemma slot_to_trans:
  assumes "slot_to fp i f a b s t" "slot_to fp i g a' b' t u"
    "\<And>n. a'' n = a n + a' n" "\<And>n. b'' n \<le> b n + b' n"
  shows "slot_to fp i g a'' b'' s u"
proof -
  have "counts a b (upd_file fp i (\<lambda>_. g) s) (upd_file fp i (\<lambda>_. g) t)"
    using assms(1) by (simp add: slot_to_def counts_def)
  moreover have "counts a' b' (upd_file fp i (\<lambda>_. g) t) u" using assms(2) by (simp add: slot_to_def)
  ultimately have "counts a'' b'' (upd_file fp i (\<lambda>_. g) s) u" by (rule counts_trans) (fact assms)+
  then show ?thesis using assms(1) by (simp add: slot_to_def)
qed

lemma slot_to_then_upd:
  assumes "slot_to fp i f a b s t"
  shows "slot_to fp i (g f) a b s (upd_file fp i g t)"
proof -
  have "slot_to fp i (g (file_at fp i t)) (\<lambda>_. 0) (\<lambda>_. 0) t (upd_file fp i g t)"
    using assms slot_to_length [OF assms] by (intro slot_to_upd) (simp add: slot_to_def)
  then show ?thesis unfolding slot_to_at [OF assms] by (rule slot_to_trans [OF assms]) simp_all
qed

lemma slot_to_then_counts:
  assumes "slot_to fp i f a b s t" "counts a' b' t u" "\<And>n. a'' n = a n + a' n" "\<And>n. b'' n \<le> b n + b' n"
  shows "slot_to fp i f a'' b'' s u"
proof -
  have "i < length (fd_array (filesps t fp))"
    using assms(1) unfolding slot_to_length [OF assms(1)] by (simp add: slot_to_def)
  then have "slot_to fp i f a' b' t u"
    using slot_to_counts [OF _ assms(2), of i fp] unfolding slot_to_at [OF assms(1)] by simp
  then show ?thesis by (rule slot_to_trans [OF assms(1)]) (fact assms)+
qed

text \<open>The inode a descriptor is open on, and well-formed descriptors (between calls no descriptor is in
  use, so the count of an open one is one).\<close>

definition opened_node :: "file_struct \<Rightarrow> nat option" where
  "opened_node f = (if status f = FD_OPENED then node f else None)"

lemma opened_node_simps [simp]:
  "status f = FD_OPENED \<Longrightarrow> opened_node f = node f" "status f \<noteq> FD_OPENED \<Longrightarrow> opened_node f = None"
  by (simp_all add: opened_node_def)

definition fd_ok :: "nat \<Rightarrow> file_struct \<Rightarrow> bool" where
  "fd_ok i f \<longleftrightarrow> fd f = int i \<and>
     (status f = FD_NONE \<and> open_count f = 0 \<or> status f = FD_OPENED \<and> open_count f = 1 \<and> node f \<noteq> None)"

definition table_ok :: "files_struct \<Rightarrow> bool" where
  "table_ok d \<longleftrightarrow> length (fd_array d) = FILES_STRUCT_NENTRY \<and> (\<forall>i < FILES_STRUCT_NENTRY. fd_ok i (fd_array d ! i))"

definition opens :: "nat \<Rightarrow> files_struct \<Rightarrow> int" where
  "opens n d = (\<Sum>f\<leftarrow>fd_array d. ind (opened_node f) n)"

text \<open>The invariant of the open files of the processes with tables \<open>F\<close>: every inode has as many opens as
  descriptors are open on it, and a reference for each of them, for each working directory and for the
  references \<open>x\<close> that are held elsewhere (by the caller, the device table and \<open>bootfs_node\<close>).\<close>

definition files_inv :: "(nat \<Rightarrow> int) \<Rightarrow> nat set \<Rightarrow> 'a vfs_scheme \<Rightarrow> bool" where
  "files_inv x F s \<longleftrightarrow> finite F \<and> (\<forall>fp\<in>F. table_ok (filesps s fp)) \<and>
     (\<forall>n. iopen_count (inodes s n) = (\<Sum>fp\<in>F. opens n (filesps s fp))) \<and>
     (\<forall>n. ref_count (inodes s n) \<ge> (\<Sum>fp\<in>F. opens n (filesps s fp) + ind (pwd (filesps s fp)) n) + x n)"

lemma files_invD:
  assumes "files_inv x F s" "fp \<in> F"
  shows "length (fd_array (filesps s fp)) = FILES_STRUCT_NENTRY"
    and "i < FILES_STRUCT_NENTRY \<Longrightarrow> fd_ok i (file_at fp i s)"
  using assms by (auto simp: files_inv_def table_ok_def file_at_def)

lemma table_okD:
  assumes "table_ok (filesps s fp)"
  shows "length (fd_array (filesps s fp)) = FILES_STRUCT_NENTRY"
    and "i < FILES_STRUCT_NENTRY \<Longrightarrow> fd_ok i (file_at fp i s)"
  using assms by (auto simp: table_ok_def file_at_def)

definition slot_step :: "nat \<Rightarrow> nat \<Rightarrow> 'a vfs_scheme \<Rightarrow> 'b vfs_scheme \<Rightarrow> bool" where
  "slot_step fp i s s' \<longleftrightarrow> (\<exists>f. fd_ok i f \<and>
     slot_to fp i f (\<lambda>n. ind (opened_node f) n - ind (opened_node (file_at fp i s)) n)
       (\<lambda>n. ind (opened_node f) n - ind (opened_node (file_at fp i s)) n) s s')"

lemma sum_upd: "finite F \<Longrightarrow> k \<in> F \<Longrightarrow> (\<Sum>x\<in>F. g ((h(k := y)) x)) = (\<Sum>x\<in>F. g (h x)) + (g y - g (h k) :: int)"
  by (subst (1 2) sum.remove [of F k]) (auto intro!: sum.cong)

lemma sum_list_upd: "i < length xs \<Longrightarrow> sum_list (xs[i := x]) = sum_list xs + (x - xs ! i :: int)"
  by (induction xs arbitrary: i) (auto split: nat.split)

lemma opens_upd:
  "i < length (fd_array d) \<Longrightarrow>
   opens n (d\<lparr>fd_array := (fd_array d)[i := f]\<rparr>) = opens n d + (ind (opened_node f) n - ind (opened_node (fd_array d ! i)) n)"
  by (simp add: opens_def map_update sum_list_upd)

lemma files_inv_table:
  assumes inv: "files_inv x F s" and fp: "fp \<in> F" and tab: "filesps s' = (filesps s)(fp := d)" and ok: "table_ok d"
    and io: "\<And>n. iopen_count (inodes s' n) = iopen_count (inodes s n) + (opens n d - opens n (filesps s fp))"
    and rf: "\<And>n. ref_count (inodes s' n) \<ge> ref_count (inodes s n) +
      (opens n d + ind (pwd d) n - (opens n (filesps s fp) + ind (pwd (filesps s fp)) n))"
  shows "files_inv x F s'"
proof -
  have fin: "finite F" using inv by (simp add: files_inv_def)
  have "table_ok (filesps s' q)" if "q \<in> F" for q using inv that ok by (simp add: tab files_inv_def)
  moreover have "iopen_count (inodes s' n) = (\<Sum>q\<in>F. opens n (filesps s' q))" for n
    using inv io unfolding tab sum_upd [OF fin fp] by (simp add: files_inv_def)
  moreover have "ref_count (inodes s' n) \<ge> (\<Sum>q\<in>F. opens n (filesps s' q) + ind (pwd (filesps s' q)) n) + x n" for n
  proof -
    have "(\<Sum>q\<in>F. opens n (filesps s' q) + ind (pwd (filesps s' q)) n)
        = (\<Sum>q\<in>F. opens n (filesps s q) + ind (pwd (filesps s q)) n) +
          (opens n d + ind (pwd d) n - (opens n (filesps s fp) + ind (pwd (filesps s fp)) n))"
      unfolding tab using sum_upd [OF fin fp, of "\<lambda>d. opens n d + ind (pwd d) n" "filesps s" d] by simp
    moreover have "ref_count (inodes s n) \<ge> (\<Sum>q\<in>F. opens n (filesps s q) + ind (pwd (filesps s q)) n) + x n"
      using inv by (simp add: files_inv_def)
    ultimately show ?thesis using rf [of n] by linarith
  qed
  ultimately show ?thesis using fin by (simp add: files_inv_def)
qed

text \<open>Several descriptors of one table change.\<close>

definition table_to :: "nat \<Rightarrow> file_struct list \<Rightarrow> 'a vfs_scheme \<Rightarrow> 'b vfs_scheme \<Rightarrow> bool" where
  "table_to fp fs s s' \<longleftrightarrow> (let d = (filesps s fp)\<lparr>fd_array := fs\<rparr> in
     counts (\<lambda>n. opens n d - opens n (filesps s fp)) (\<lambda>n. opens n d - opens n (filesps s fp)) (upd_files fp (\<lambda>_. d) s) s')"

definition table_step :: "nat \<Rightarrow> 'a vfs_scheme \<Rightarrow> 'b vfs_scheme \<Rightarrow> bool" where
  "table_step fp s s' \<longleftrightarrow> (\<exists>fs. table_ok ((filesps s fp)\<lparr>fd_array := fs\<rparr>) \<and> table_to fp fs s s')"

lemma table_to_refl: "table_to fp (fd_array (filesps s fp)) s s"
  by (simp add: table_to_def counts_def)

lemma table_to_trans:
  assumes s: "table_to fp fs s t" and t: "table_to fp gs t u"
  shows "table_to fp gs s u"
proof -
  have d: "filesps t fp = (filesps s fp)\<lparr>fd_array := fs\<rparr>" using s by (simp add: table_to_def Let_def counts_def)
  have "counts (\<lambda>n. opens n ((filesps s fp)\<lparr>fd_array := fs\<rparr>) - opens n (filesps s fp))
      (\<lambda>n. opens n ((filesps s fp)\<lparr>fd_array := fs\<rparr>) - opens n (filesps s fp))
      (upd_files fp (\<lambda>_. (filesps s fp)\<lparr>fd_array := gs\<rparr>) s) (upd_files fp (\<lambda>_. (filesps t fp)\<lparr>fd_array := gs\<rparr>) t)"
    using s by (simp add: table_to_def Let_def counts_def)
  from counts_trans [OF this t [unfolded table_to_def Let_def]] show ?thesis
    unfolding table_to_def Let_def by (simp add: d)
qed

lemma table_step_refl: "table_ok (filesps s fp) \<Longrightarrow> table_step fp s s"
  unfolding table_step_def by (rule exI [of _ "fd_array (filesps s fp)"]) (simp add: table_to_refl)

lemma table_step_trans: "table_step fp s t \<Longrightarrow> table_step fp t u \<Longrightarrow> table_step fp s u"
  unfolding table_step_def
  by (elim exE conjE, rule exI, rule conjI [OF _ table_to_trans]) (auto simp: table_to_def Let_def counts_def)

lemma table_step_ok: "table_step fp s t \<Longrightarrow> table_ok (filesps t fp)"
  by (auto simp: table_step_def table_to_def Let_def counts_def)

lemma table_step_other: "table_step fp s t \<Longrightarrow> q \<noteq> fp \<Longrightarrow> filesps t q = filesps s q"
  by (auto simp: table_step_def table_to_def Let_def counts_def)

lemma table_step_rest:
  "table_step fp s t \<Longrightarrow> (filesps t fp)\<lparr>fd_array := []\<rparr> = (filesps s fp)\<lparr>fd_array := []\<rparr>"
  by (auto simp: table_step_def table_to_def Let_def counts_def)

lemma slot_table_step:
  assumes ok: "table_ok (filesps s fp)" and st: "slot_step fp i s s'"
  shows "table_step fp s s'"
proof -
  obtain f where f: "fd_ok i f" and to: "slot_to fp i f (\<lambda>n. ind (opened_node f) n - ind (opened_node (file_at fp i s)) n)
       (\<lambda>n. ind (opened_node f) n - ind (opened_node (file_at fp i s)) n) s s'"
    using st by (auto simp: slot_step_def)
  let ?fs = "(fd_array (filesps s fp))[i := f]"
  have i: "i < length (fd_array (filesps s fp))" using to by (simp add: slot_to_def)
  have upd: "opens n ((filesps s fp)\<lparr>fd_array := ?fs\<rparr>) - opens n (filesps s fp)
      = ind (opened_node f) n - ind (opened_node (file_at fp i s)) n" for n
    using opens_upd [OF i] by (simp add: file_at_def)
  have "table_ok ((filesps s fp)\<lparr>fd_array := ?fs\<rparr>)" using ok f i by (auto simp: table_ok_def nth_list_update)
  then show ?thesis unfolding table_step_def
    by (intro exI [of _ ?fs]) (use to in \<open>simp add: table_to_def slot_to_def counts_def upd\<close>)
qed

lemma files_inv_table_step:
  assumes inv: "files_inv x F s" and fp: "fp \<in> F" and st: "table_step fp s s'"
  shows "files_inv x F s'"
proof -
  obtain fs where fs: "table_ok ((filesps s fp)\<lparr>fd_array := fs\<rparr>)"
    "counts (\<lambda>n. opens n ((filesps s fp)\<lparr>fd_array := fs\<rparr>) - opens n (filesps s fp))
      (\<lambda>n. opens n ((filesps s fp)\<lparr>fd_array := fs\<rparr>) - opens n (filesps s fp))
      (upd_files fp (\<lambda>_. (filesps s fp)\<lparr>fd_array := fs\<rparr>) s) s'"
    using st by (auto simp: table_step_def table_to_def Let_def)
  show ?thesis by (rule files_inv_table [OF inv fp _ fs(1)]) (use fs(2) in \<open>simp_all add: counts_def\<close>)
qed

lemma files_inv_slot: "files_inv x F s \<Longrightarrow> fp \<in> F \<Longrightarrow> slot_step fp i s s' \<Longrightarrow> files_inv x F s'"
  by (rule files_inv_table_step [OF _ _ slot_table_step]) (simp_all add: files_inv_def)

lemma files_inv_counts:
  assumes inv: "files_inv x F s" and c: "counts (\<lambda>_. 0) b s s'" and y: "\<And>n. y n \<le> x n + b n"
  shows "files_inv y F s'"
proof -
  have "ref_count (inodes s' n) \<ge> (\<Sum>q\<in>F. opens n (filesps s q) + ind (pwd (filesps s q)) n) + y n" for n
  proof -
    have "ref_count (inodes s' n) \<ge> ref_count (inodes s n) + b n" using c by (simp add: counts_def)
    moreover have "ref_count (inodes s n) \<ge> (\<Sum>q\<in>F. opens n (filesps s q) + ind (pwd (filesps s q)) n) + x n"
      using inv by (simp add: files_inv_def)
    ultimately show ?thesis using y [of n] by linarith
  qed
  then show ?thesis using inv c by (simp add: files_inv_def counts_def)
qed

lemma files_inv_grants:
  "files_inv x F s \<Longrightarrow> grants r s s' \<Longrightarrow> files_inv (\<lambda>n. x n + ind r n) F s'"
  unfolding grants_def by (erule (1) files_inv_counts) simp

lemma files_inv_kept: "files_inv x F s \<Longrightarrow> grants r s s' \<Longrightarrow> files_inv x F s'"
  unfolding grants_def by (erule (1) files_inv_counts) simp

section \<open>The operations change one descriptor\<close>

lemma find_none_None: "find_none fs k = None \<longleftrightarrow> (\<forall>f\<in>set fs. status f \<noteq> FD_NONE)"
  by (induction fs arbitrary: k) auto

lemma find_none_Some:
  "find_none fs k = Some i \<Longrightarrow>
   k \<le> i \<and> i - k < length fs \<and> status (fs ! (i - k)) = FD_NONE \<and> (\<forall>j < i - k. status (fs ! j) \<noteq> FD_NONE)"
proof (induction fs arbitrary: k)
  case (Cons f fs)
  show ?case
  proof (cases "status f = FD_NONE")
    case False
    then have k: "Suc k \<le> i" "i - Suc k < length fs" "status (fs ! (i - Suc k)) = FD_NONE"
        "\<forall>j < i - Suc k. status (fs ! j) \<noteq> FD_NONE"
      using Cons by force+
    then have e: "i - k = Suc (i - Suc k)" by simp
    have "\<forall>j < Suc (i - Suc k). status ((f # fs) ! j) \<noteq> FD_NONE" using False k(4) by (auto simp: less_Suc_eq_0_disj)
    then show ?thesis using k by (simp only: e) simp
  qed (use Cons in auto)
qed simp

lemma alloc_cases:
  assumes "fd_array_alloc fp n s = Some (ret, slot, t)" and ok: "table_ok (filesps s fp)"
  obtains (full) "slot = None" "t = s" "ret \<noteq> 0" "n = NO_FD \<Longrightarrow> \<forall>i < FILES_STRUCT_NENTRY. status (file_at fp i s) \<noteq> FD_NONE"
  | (found) i where "slot = Some i" "ret = 0" "i < FILES_STRUCT_NENTRY" "status (file_at fp i s) = FD_NONE"
      "t = upd_file fp i (\<lambda>f. f\<lparr>status := FD_INIT, node := None\<rparr>) s"
      "if n = NO_FD then \<forall>j<i. status (file_at fp j s) \<noteq> FD_NONE else i = nat n"
proof -
  note full = that(1) and found = that(2)
  let ?fs = "fd_array (filesps s fp)"
  have len: "length ?fs = FILES_STRUCT_NENTRY" using ok by (simp add: table_ok_def)
  show thesis
  proof (cases "n = NO_FD")
    case True
    show thesis
    proof (cases "find_none ?fs 0")
      case None
      have "\<forall>i < FILES_STRUCT_NENTRY. status (file_at fp i s) \<noteq> FD_NONE"
        using None len unfolding find_none_None by (simp add: file_at_def)
      then show thesis using assms True None len
        by (intro full) (auto simp: fd_array_alloc_def get_fd_array_def error_codes bind_kassert split: if_splits)
    next
      case (Some i)
      then show thesis using assms True len find_none_Some [OF Some]
        by (intro found) (auto simp: fd_array_alloc_def get_fd_array_def file_at_def bind_kassert split: if_splits)
    qed
  next
    case False
    show thesis
    proof (cases slot)
      case None
      then show thesis using assms False
        by (intro full) (auto simp: fd_array_alloc_def get_fd_array_def bind_kassert error_codes split: if_splits)
    next
      case (Some i)
      then show thesis using assms False
        by (intro found) (auto simp: fd_array_alloc_def get_fd_array_def bind_kassert file_at_def testfd_def split: if_splits)
    qed
  qed
qed

lemma fd2file_cases:
  assumes "fd2file fp n s = Some (ret, slot)"
  obtains (bad) "slot = None" "ret = - E_INVAL"
  | (good) i where "slot = Some i" "ret = 0" "n = int i" "i < FILES_STRUCT_NENTRY" "status (file_at fp i s) = FD_OPENED"
proof (cases "testfd n")
  case False
  then show thesis using assms bad by (simp add: fd2file_def)
next
  case True
  then show thesis using assms bad good [of "nat n"]
    by (auto simp: fd2file_def get_fd_array_def file_at_def testfd_def bind_kassert Let_def split: if_splits)
qed

lemma slot_stepI:
  "slot_to fp i f a b s t \<Longrightarrow> fd_ok i f \<Longrightarrow>
   (\<And>n. a n = ind (opened_node f) n - ind (opened_node (file_at fp i s)) n) \<Longrightarrow>
   (\<And>n. b n = ind (opened_node f) n - ind (opened_node (file_at fp i s)) n) \<Longrightarrow> slot_step fp i s t"
  unfolding slot_step_def by (rule exI [of _ f]) (simp add: slot_to_def counts_def)

lemma open_slot:
  assumes "slot_to fp i f a b s u" "fd_array_open fp i u = Some t"
  shows "slot_to fp i (fopen_count_inc (f\<lparr>status := FD_OPENED\<rparr>)) a b s t"
    and "status f = FD_INIT" and "node f \<noteq> None"
  using assms(2) slot_to_then_upd [OF assms(1), of "\<lambda>f. fopen_count_inc (f\<lparr>status := FD_OPENED\<rparr>)"]
  by (simp_all add: fd_array_open_def bind_kassert slot_to_at [OF assms(1)] split: if_splits)

lemma acquire_slot:
  assumes "i < length (fd_array (filesps s fp))" "fd_array_acquire fp i s = Some t"
  shows "slot_to fp i (fopen_count_inc (file_at fp i s)) (\<lambda>_. 0) (\<lambda>_. 0) s t"
  using assms slot_to_upd [OF assms(1), of fopen_count_inc]
  by (simp add: fd_array_acquire_def bind_kassert split: if_splits)

context vnode_ops begin

lemma release_slot:
  assumes "slot_to fp i f a b s u" "open_count f > 1" "fd_array_release ops fp i u = Some t"
  shows "slot_to fp i (fopen_count_dec f) a b s t"
proof -
  note d = slot_to_then_upd [OF assms(1), of fopen_count_dec]
  have "open_count (fopen_count_dec f) \<noteq> 0" using assms(2) by (simp add: fopen_count_dec_def)
  then show ?thesis using assms(2,3) d
    by (simp add: fd_array_release_def bind_kassert slot_to_at [OF assms(1)] slot_to_at [OF d] split: if_splits)
qed

lemma free_init_slot:
  assumes "slot_to fp i f a b s u" "status f = FD_INIT" "fd_array_free ops fp i u = Some t"
  shows "slot_to fp i (f\<lparr>status := FD_NONE\<rparr>) a b s t"
  using assms(2,3) slot_to_then_upd [OF assms(1), of "\<lambda>f. f\<lparr>status := FD_NONE\<rparr>"]
  by (simp add: fd_array_free_def bind_kassert slot_to_at [OF assms(1)] split: if_splits)

lemma close_slot:
  assumes i: "i < length (fd_array (filesps s fp))" and one: "open_count (file_at fp i s) = 1"
    and nd: "node (file_at fp i s) = Some n" and cl: "fd_array_close ops fp i s = Some t"
  shows "slot_to fp i ((file_at fp i s)\<lparr>status := FD_NONE, open_count := 0\<rparr>)
    (\<lambda>m. - ind (Some n) m) (\<lambda>m. - ind (Some n) m) s t"
proof -
  let ?f = "(file_at fp i s)\<lparr>status := FD_CLOSED, open_count := 0\<rparr>"
  let ?g = "\<lambda>f. fopen_count_dec (f\<lparr>status := FD_CLOSED\<rparr>)"
  have g: "?g (file_at fp i s) = ?f" using one by (simp add: fopen_count_dec_def)
  have c: "slot_to fp i ?f (\<lambda>_. 0) (\<lambda>_. 0) s (upd_file fp i ?g s)"
    using slot_to_upd [OF i, of ?g] unfolding g .
  have "fd_array_free ops fp i (upd_file fp i ?g s) = Some t"
    using cl one slot_to_at [OF c] by (simp add: fd_array_close_def bind_kassert split: if_splits)
  then obtain u ret where u: "vfs_close ops n (upd_file fp i ?g s) = Some (ret, u)"
      and t: "t = upd_file fp i (\<lambda>f. f\<lparr>status := FD_NONE\<rparr>) u"
    using slot_to_at [OF c] nd by (auto simp: fd_array_free_def bind_eq_Some_conv)
  have "slot_to fp i ?f (\<lambda>m. - ind (Some n) m) (\<lambda>m. - ind (Some n) m) s u"
    by (rule slot_to_then_counts [OF c close_counts [OF u]]) simp_all
  then have "slot_to fp i (?f\<lparr>status := FD_NONE\<rparr>) (\<lambda>m. - ind (Some n) m) (\<lambda>m. - ind (Some n) m) s t"
    unfolding t by (rule slot_to_then_upd)
  moreover have "?f\<lparr>status := FD_NONE\<rparr> = (file_at fp i s)\<lparr>status := FD_NONE, open_count := 0\<rparr>" by simp
  ultimately show ?thesis by simp
qed

lemma close_step:
  assumes tab: "table_ok (filesps s fp)" and i: "i < FILES_STRUCT_NENTRY"
    and st: "status (file_at fp i s) = FD_OPENED" and cl: "fd_array_close ops fp i s = Some t"
  shows "slot_step fp i s t"
    and "file_at fp i t = (file_at fp i s)\<lparr>status := FD_NONE, open_count := 0\<rparr>"
    and "filesps t = (filesps s)(fp := (filesps s fp)\<lparr>fd_array := (fd_array (filesps s fp))[i := (file_at fp i s)\<lparr>status := FD_NONE, open_count := 0\<rparr>]\<rparr>)"
proof -
  have len: "i < length (fd_array (filesps s fp))" and ok: "fd_ok i (file_at fp i s)"
    using table_okD [OF tab] i by auto
  obtain n where n: "node (file_at fp i s) = Some n" using ok st by (auto simp: fd_ok_def)
  have one: "open_count (file_at fp i s) = 1" using ok st by (simp add: fd_ok_def)
  note c = close_slot [OF len one n cl]
  show "slot_step fp i s t"
    by (rule slot_stepI [OF c]) (use ok st n in \<open>auto simp: fd_ok_def\<close>)
  show "file_at fp i t = (file_at fp i s)\<lparr>status := FD_NONE, open_count := 0\<rparr>" by (rule slot_to_at [OF c])
  show "filesps t = (filesps s)(fp := (filesps s fp)\<lparr>fd_array :=
      (fd_array (filesps s fp))[i := (file_at fp i s)\<lparr>status := FD_NONE, open_count := 0\<rparr>]\<rparr>)"
    using c by (simp add: slot_to_def counts_def)
qed

end

context vnode_ops begin

lemma open_position_slot:
  assumes two: "slot_to fp i f (ind (Some n)) (ind (Some n)) s u" and f: "status f = FD_INIT"
    and run: "open_position ops fp i n fl u = Some (ret, t)"
  obtains (failed) g where "ret \<noteq> 0" "slot_to fp i (g\<lparr>status := FD_NONE\<rparr>) (\<lambda>_. 0) (\<lambda>_. 0) s t" "g = f\<lparr>pos := 0\<rparr>"
  | (placed) p where "ret = 0" "slot_to fp i (f\<lparr>pos := p\<rparr>) (ind (Some n)) (ind (Some n)) s t"
      "and fl O_APPEND = 0 \<longrightarrow> p = 0"
proof -
  let ?u = "upd_file fp i (\<lambda>f. f\<lparr>pos := 0\<rparr>) u"
  note three = slot_to_then_upd [OF two, of "\<lambda>f. f\<lparr>pos := 0\<rparr>"]
  show thesis
  proof (cases "and fl O_APPEND = 0")
    case True
    then show thesis using run three by (intro placed [of 0]) (simp_all add: open_position_def)
  next
    case False
    then obtain ret1 st v where st: "vop_fstat ops n ?u = Some (ret1, st, v)"
      using run by (auto simp: open_position_def bind_eq_Some_conv)
    have four: "slot_to fp i (f\<lparr>pos := 0\<rparr>) (ind (Some n)) (ind (Some n)) s v"
      by (rule slot_to_then_counts [OF three grants_counts [OF vop_laws(5) [OF st]]]) simp_all
    show thesis
    proof (cases "ret1 = 0")
      case True
      then have t: "t = upd_file fp i (\<lambda>f. f\<lparr>pos := int (st_size st)\<rparr>) v" "ret = 0"
        using run False st by (simp_all add: open_position_def)
      show thesis
        using slot_to_then_upd [OF four, of "\<lambda>f. f\<lparr>pos := int (st_size st)\<rparr>"] t False
        by (intro placed [of "int (st_size st)"]) simp_all
    next
      case err: False
      then obtain r w where cl: "vfs_close ops n v = Some (r, w)" and fr: "fd_array_free ops fp i w = Some t" and "ret = ret1"
        using run False st by (auto simp: open_position_def bind_eq_Some_conv)
      moreover have "slot_to fp i (f\<lparr>pos := 0\<rparr>) (\<lambda>_. 0) (\<lambda>_. 0) s w"
        by (rule slot_to_then_counts [OF four close_counts [OF cl]]) simp_all
      ultimately show thesis using f err by (intro failed [OF _ free_init_slot]) simp_all
    qed
  qed
qed

lemma init_then_open:
  assumes two: "slot_to fp i f (ind (Some n)) (ind (Some n)) s u" and f: "status f = FD_INIT" "fd f = int i" "open_count f = 0"
    and none: "opened_node (file_at fp i s) = None"
    and run: "fd_array_open fp i (upd_file fp i (\<lambda>f. f\<lparr>node := Some n, readable := r, writable := w\<rparr>) u) = Some t"
  shows "slot_to fp i (f\<lparr>node := Some n, readable := r, writable := w, status := FD_OPENED, open_count := 1\<rparr>)
      (ind (Some n)) (ind (Some n)) s t" and "slot_step fp i s t"
proof -
  let ?g = "\<lambda>f. f\<lparr>node := Some n, readable := r, writable := w\<rparr>"
  have "fopen_count_inc ((?g f)\<lparr>status := FD_OPENED\<rparr>) = (?g f)\<lparr>status := FD_OPENED, open_count := 1\<rparr>"
    using f(3) by (simp add: fopen_count_inc_def)
  with open_slot(1) [OF slot_to_then_upd [OF two, of ?g] run]
  show final: "slot_to fp i (f\<lparr>node := Some n, readable := r, writable := w, status := FD_OPENED, open_count := 1\<rparr>)
      (ind (Some n)) (ind (Some n)) s t" by simp
  show "slot_step fp i s t" by (rule slot_stepI [OF final]) (simp_all add: none f fd_ok_def)
qed

lemma file_open_spec:
  assumes inv: "files_inv x F s" and fp: "fp \<in> F" and run: "file_open ops fops fp path fl s = Some (ret, t)"
  obtains (refused) "files_inv x F t" "ret \<noteq> 0"
  | (opened) i n p where "ret = int i" "i < FILES_STRUCT_NENTRY" "status (file_at fp i s) = FD_NONE"
      "\<forall>j<i. status (file_at fp j s) \<noteq> FD_NONE" "and fl O_APPEND = 0 \<longrightarrow> p = 0"
      "slot_to fp i ((file_at fp i s)\<lparr>pos := p, node := Some n,
        readable := (and fl O_ACCMODE = O_RDONLY \<or> and fl O_ACCMODE = O_RDWR),
        writable := (and fl O_ACCMODE = O_WRONLY \<or> and fl O_ACCMODE = O_RDWR),
        status := FD_OPENED, open_count := 1\<rparr>) (ind (Some n)) (ind (Some n)) s t" "slot_step fp i s t"
proof (cases "and fl O_ACCMODE = O_RDONLY \<or> and fl O_ACCMODE = O_WRONLY \<or> and fl O_ACCMODE = O_RDWR")
  case False
  then show thesis using run inv by (intro refused) (auto simp: file_open_def error_codes)
next
  case mode: True
  have tab: "table_ok (filesps s fp)" using inv fp by (simp add: files_inv_def)
  obtain ret1 slot s1 where al: "fd_array_alloc fp NO_FD s = Some (ret1, slot, s1)"
    using run mode by (auto simp: file_open_def Let_def bind_eq_Some_conv)
  from al tab show thesis
  proof (cases rule: alloc_cases)
    case full
    then show thesis using run mode al inv by (intro refused) (auto simp: file_open_def Let_def)
  next
    case (found i)
    let ?f1 = "(file_at fp i s)\<lparr>status := FD_INIT, node := None\<rparr>"
    have ok: "fd (file_at fp i s) = int i" "open_count (file_at fp i s) = 0"
      using files_invD(2) [OF inv fp found(3)] found(4) by (simp_all add: fd_ok_def)
    have len: "i < length (fd_array (filesps s fp))" using files_invD(1) [OF inv fp] found(3) by simp
    have one: "slot_to fp i ?f1 (\<lambda>_. 0) (\<lambda>_. 0) s s1" unfolding found(5) by (rule slot_to_upd [OF len])
    have none: "opened_node (file_at fp i s) = None" using found(4) by (simp add: opened_node_def)
    have undone: thesis if "slot_to fp i (f\<lparr>status := FD_NONE\<rparr>) (\<lambda>_. 0) (\<lambda>_. 0) s t" "f = ?f1 \<or> f = ?f1\<lparr>pos := 0\<rparr>" "ret \<noteq> 0" for f
    proof -
      have "slot_step fp i s t" by (rule slot_stepI [OF that(1)]) (use that(2) found(4) in \<open>auto simp: fd_ok_def ok\<close>)
      then show thesis using refused files_inv_slot [OF inv fp] that(3) by blast
    qed
    obtain ret2 nd s2 where op: "vfs_open ops fops fp path fl s1 = Some (ret2, nd, s2)"
      using run mode al found(1) by (auto simp: file_open_def Let_def bind_eq_Some_conv)
    show thesis
    proof (cases "ret2 = 0")
      case False
      then have fr: "fd_array_free ops fp i s2 = Some t" and ret: "ret = ret2"
        using run mode al found(1) op by (auto simp: file_open_def Let_def bind_eq_Some_conv)
      have "grants None s1 s2" using vfs_open_counts [OF op] False by simp
      then have "slot_to fp i ?f1 (\<lambda>_. 0) (\<lambda>_. 0) s s2" by (rule slot_to_then_counts [OF one grants_counts]) simp_all
      from free_init_slot [OF this _ fr] show thesis by (rule undone) (use False ret in simp_all)
    next
      case True
      then obtain n where n: "nd = Some n" and c: "counts (ind (Some n)) (ind (Some n)) s1 s2"
        using vfs_open_counts [OF op] by auto
      have two: "slot_to fp i ?f1 (ind (Some n)) (ind (Some n)) s s2" by (rule slot_to_then_counts [OF one c]) simp_all
      obtain ret3 s3 where at: "open_position ops fp i n fl s2 = Some (ret3, s3)"
        using run mode al found(1) op True n by (auto simp: file_open_def Let_def bind_eq_Some_conv)
      show thesis
      proof (rule open_position_slot [OF two _ at])
        fix g assume g: "ret3 \<noteq> 0" "slot_to fp i (g\<lparr>status := FD_NONE\<rparr>) (\<lambda>_. 0) (\<lambda>_. 0) s s3" "g = ?f1\<lparr>pos := 0\<rparr>"
        then have "s3 = t" "ret = ret3" using run mode al found(1) op True n at by (auto simp: file_open_def Let_def)
        then show thesis using g by (intro undone [of g]) simp_all
      next
        fix p assume p: "ret3 = 0" "slot_to fp i (?f1\<lparr>pos := p\<rparr>) (ind (Some n)) (ind (Some n)) s s3" "and fl O_APPEND = 0 \<longrightarrow> p = 0"
        then have od: "fd_array_open fp i (upd_file fp i (\<lambda>f. f\<lparr>node := Some n,
            readable := (and fl O_ACCMODE = O_RDONLY \<or> and fl O_ACCMODE = O_RDWR),
            writable := (and fl O_ACCMODE = O_WRONLY \<or> and fl O_ACCMODE = O_RDWR)\<rparr>) s3) = Some t" and rt: "ret = fd (file_at fp i t)"
          using run mode al found(1) op True n at by (auto simp: file_open_def Let_def bind_eq_Some_conv)
        note final = init_then_open [OF p(2) _ _ _ none od]
        show thesis
          by (rule opened [OF _ found(3,4) _ p(3), of n])
             (use rt slot_to_at [OF final(1)] final found(6) ok in simp_all)
      qed simp
    qed
  qed
qed

end

context vnode_ops begin

text \<open>The operations that hold a descriptor while they call a function of its inode.\<close>

lemma use_slot:
  assumes inv: "files_inv x F s" and fp: "fp \<in> F" and i: "i < FILES_STRUCT_NENTRY" "status (file_at fp i s) = FD_OPENED"
    and ac: "fd_array_acquire fp i s = Some u"
  shows "slot_to fp i (fopen_count_inc (file_at fp i s)) (\<lambda>_. 0) (\<lambda>_. 0) s u"
    and "node (file_at fp i s) \<noteq> None" and "node (file_at fp i u) = node (file_at fp i s)"
    and "pos (file_at fp i u) = pos (file_at fp i s)"
proof -
  have len: "i < length (fd_array (filesps s fp))" using files_invD(1) [OF inv fp] i by simp
  show a: "slot_to fp i (fopen_count_inc (file_at fp i s)) (\<lambda>_. 0) (\<lambda>_. 0) s u" by (rule acquire_slot [OF len ac])
  show "node (file_at fp i s) \<noteq> None" using files_invD(2) [OF inv fp i(1)] i(2) by (simp add: fd_ok_def)
  show "node (file_at fp i u) = node (file_at fp i s)" "pos (file_at fp i u) = pos (file_at fp i s)"
    using slot_to_at [OF a] by (simp_all add: fopen_count_inc_def)
qed

lemma unuse_slot:
  assumes inv: "files_inv x F s" and fp: "fp \<in> F" and i: "i < FILES_STRUCT_NENTRY" "status (file_at fp i s) = FD_OPENED"
    and u: "slot_to fp i ((fopen_count_inc (file_at fp i s))\<lparr>pos := p\<rparr>) (\<lambda>_. 0) (\<lambda>_. 0) s u"
    and rel: "fd_array_release ops fp i u = Some t"
  shows "slot_to fp i ((file_at fp i s)\<lparr>pos := p\<rparr>) (\<lambda>_. 0) (\<lambda>_. 0) s t" and "files_inv x F t"
proof -
  have ok: "fd_ok i (file_at fp i s)" using files_invD(2) [OF inv fp i(1)] .
  have e: "fopen_count_dec ((fopen_count_inc (file_at fp i s))\<lparr>pos := p\<rparr>) = (file_at fp i s)\<lparr>pos := p\<rparr>"
    by (simp add: fopen_count_inc_def fopen_count_dec_def)
  have "slot_to fp i (fopen_count_dec ((fopen_count_inc (file_at fp i s))\<lparr>pos := p\<rparr>)) (\<lambda>_. 0) (\<lambda>_. 0) s t"
    by (rule release_slot [OF u _ rel]) (use ok i(2) in \<open>simp add: fopen_count_inc_def fd_ok_def\<close>)
  then show s: "slot_to fp i ((file_at fp i s)\<lparr>pos := p\<rparr>) (\<lambda>_. 0) (\<lambda>_. 0) s t" unfolding e .
  have "slot_step fp i s t" by (rule slot_stepI [OF s]) (use ok i(2) in \<open>auto simp: fd_ok_def\<close>)
  then show "files_inv x F t" by (rule files_inv_slot [OF inv fp])
qed

lemma advance_slot:
  assumes inv: "files_inv x F s" and fp: "fp \<in> F" and i: "i < FILES_STRUCT_NENTRY" "status (file_at fp i s) = FD_OPENED"
    and ac: "fd_array_acquire fp i s = Some u" and op: "grants None u v"
    and rel: "fd_array_release ops fp i (if status (file_at fp i v) = FD_OPENED
       then upd_file fp i (\<lambda>f. f\<lparr>pos := pos f + k\<rparr>) v else v) = Some t"
  shows "slot_to fp i ((file_at fp i s)\<lparr>pos := pos (file_at fp i s) + k\<rparr>) (\<lambda>_. 0) (\<lambda>_. 0) s t" and "files_inv x F t"
proof -
  let ?f = "fopen_count_inc (file_at fp i s)"
  have v: "slot_to fp i ?f (\<lambda>_. 0) (\<lambda>_. 0) s v"
    by (rule slot_to_then_counts [OF use_slot(1) [OF inv fp i ac] grants_counts [OF op]]) simp_all
  have "status (file_at fp i v) = FD_OPENED" using slot_to_at [OF v] i(2) by (simp add: fopen_count_inc_def)
  moreover have "?f\<lparr>pos := pos ?f + k\<rparr> = ?f\<lparr>pos := pos (file_at fp i s) + k\<rparr>" by (simp add: fopen_count_inc_def)
  ultimately show "slot_to fp i ((file_at fp i s)\<lparr>pos := pos (file_at fp i s) + k\<rparr>) (\<lambda>_. 0) (\<lambda>_. 0) s t" "files_inv x F t"
    using unuse_slot [OF inv fp i _ rel] slot_to_then_upd [OF v, of "\<lambda>f. f\<lparr>pos := pos f + k\<rparr>"] by simp_all
qed

lemma hold_slot:
  assumes inv: "files_inv x F s" and fp: "fp \<in> F" and i: "i < FILES_STRUCT_NENTRY" "status (file_at fp i s) = FD_OPENED"
    and ac: "fd_array_acquire fp i s = Some u" and op: "grants None u v"
    and rel: "fd_array_release ops fp i v = Some t"
  shows "files_inv x F t" and "slot_to fp i (file_at fp i s) (\<lambda>_. 0) (\<lambda>_. 0) s t"
proof -
  let ?f = "fopen_count_inc (file_at fp i s)"
  have v: "slot_to fp i ?f (\<lambda>_. 0) (\<lambda>_. 0) s v"
    by (rule slot_to_then_counts [OF use_slot(1) [OF inv fp i ac] grants_counts [OF op]]) simp_all
  have e: "?f = ?f\<lparr>pos := pos (file_at fp i s)\<rparr>" by (simp add: fopen_count_inc_def)
  note t = unuse_slot [OF inv fp i v [unfolded arg_cong [OF e, of "\<lambda>f. slot_to fp i f (\<lambda>_. 0) (\<lambda>_. 0) s v"]] rel]
  show "files_inv x F t" "slot_to fp i (file_at fp i s) (\<lambda>_. 0) (\<lambda>_. 0) s t" using t by simp_all
qed

lemma file_read_spec:
  assumes inv: "files_inv x F s" and fp: "fp \<in> F"
    and run: "file_read ops fp n mem base len s = Some (ret, copied, mem', t)"
  obtains (bad) "ret = - E_INVAL" "copied = 0" "mem' = mem" "t = s"
  | (read) i nd iob u v where "n = int i" "i < FILES_STRUCT_NENTRY" "status (file_at fp i s) = FD_OPENED"
      "readable (file_at fp i s)" "node (file_at fp i s) = Some nd" "fd_array_acquire fp i s = Some u"
      "vop_read ops nd (iobuf_init mem base len (nat (pos (file_at fp i s)))) u = Some (ret, iob, v)"
      "copied = iobuf_used iob" "mem' = io_mem iob" "files_inv x F t"
      "slot_to fp i ((file_at fp i s)\<lparr>pos := pos (file_at fp i s) + int copied\<rparr>) (\<lambda>_. 0) (\<lambda>_. 0) s t"
proof -
  note bad = that(1) and result = that(2)
  obtain ret1 slot where f: "fd2file fp n s = Some (ret1, slot)"
    using run by (auto simp: file_read_def bind_eq_Some_conv)
  then show thesis
  proof (cases rule: fd2file_cases)
    case bad
    then show thesis using run f that(1) by (simp add: file_read_def)
  next
    case (good i)
    show thesis
    proof (cases "readable (file_at fp i s)")
      case False
      then show thesis using run f good bad by (simp add: file_read_def)
    next
      case True
      obtain u where ac: "fd_array_acquire fp i s = Some u"
        using run f good True by (auto simp: file_read_def bind_eq_Some_conv)
      note held = use_slot(2-4) [OF inv fp good(4,5) ac]
      obtain nd where nd: "node (file_at fp i s) = Some nd" using held(1) by auto
      obtain ret2 iob v where rd: "vop_read ops nd (iobuf_init mem base len (nat (pos (file_at fp i s)))) u = Some (ret2, iob, v)"
        using run f good True ac nd held(2,3) by (auto simp: file_read_def bind_eq_Some_conv)
      have rel: "fd_array_release ops fp i (if status (file_at fp i v) = FD_OPENED
            then upd_file fp i (\<lambda>f. f\<lparr>pos := pos f + int (iobuf_used iob)\<rparr>) v else v) = Some t"
          and out: "ret = ret2" "copied = iobuf_used iob" "mem' = io_mem iob"
        using run f good True ac nd held(2,3) rd by (simp_all add: file_read_def bind_eq_Some_conv Let_def)
      note t = advance_slot [OF inv fp good(4,5) ac vop_laws(3) [OF rd] rel]
      show thesis by (rule result [OF good(3-5) True nd ac]) (use rd out t in simp_all)
    qed
  qed
qed

lemma file_write_inv:
  assumes inv: "files_inv x F s" and fp: "fp \<in> F"
    and run: "file_write ops fp n mem base len s = Some (ret, copied, t)"
  shows "files_inv x F t"
proof -
  obtain ret1 slot where f: "fd2file fp n s = Some (ret1, slot)"
    using run by (auto simp: file_write_def bind_eq_Some_conv)
  then show ?thesis
  proof (cases rule: fd2file_cases)
    case (good i)
    show ?thesis
    proof (cases "writable (file_at fp i s)")
      case True
      obtain u nd ret2 iob v where "fd_array_acquire fp i s = Some u"
          "vop_write ops nd (iobuf_init mem base len (nat (pos (file_at fp i u)))) u = Some (ret2, iob, v)"
          "fd_array_release ops fp i (if status (file_at fp i v) = FD_OPENED
            then upd_file fp i (\<lambda>f. f\<lparr>pos := pos f + int (iobuf_used iob)\<rparr>) v else v) = Some t"
        using run f good True by (auto simp: file_write_def bind_eq_Some_conv Let_def)
      then show ?thesis by (blast intro: advance_slot(2) [OF inv fp good(4,5)] vop_laws(4))
    qed (use run f good inv in \<open>simp add: file_write_def\<close>)
  qed (use run f inv in \<open>simp add: file_write_def\<close>)
qed

lemma file_fsync_inv:
  assumes inv: "files_inv x F s" and fp: "fp \<in> F" and run: "file_fsync ops fp n s = Some (ret, t)"
  shows "files_inv x F t"
proof -
  obtain ret1 slot where f: "fd2file fp n s = Some (ret1, slot)"
    using run by (auto simp: file_fsync_def bind_eq_Some_conv)
  then show ?thesis
  proof (cases rule: fd2file_cases)
    case (good i)
    obtain u nd ret2 v where "fd_array_acquire fp i s = Some u" "vop_fsync ops nd u = Some (ret2, v)"
        "fd_array_release ops fp i v = Some t"
      using run f good by (auto simp: file_fsync_def bind_eq_Some_conv)
    then show ?thesis by (blast intro: hold_slot(1) [OF inv fp good(4,5)] vop_laws(6))
  qed (use run f inv in \<open>simp add: file_fsync_def\<close>)
qed

lemma file_fstat_inv:
  assumes inv: "files_inv x F s" and fp: "fp \<in> F" and run: "file_fstat ops fp n s = Some (ret, st, t)"
  shows "files_inv x F t"
proof -
  obtain ret1 slot where f: "fd2file fp n s = Some (ret1, slot)"
    using run by (auto simp: file_fstat_def bind_eq_Some_conv)
  then show ?thesis
  proof (cases rule: fd2file_cases)
    case (good i)
    obtain u nd ret2 st2 v where "fd_array_acquire fp i s = Some u" "vop_fstat ops nd u = Some (ret2, st2, v)"
        "fd_array_release ops fp i v = Some t"
      using run f good by (auto simp: file_fstat_def bind_eq_Some_conv)
    then show ?thesis by (blast intro: hold_slot(1) [OF inv fp good(4,5)] vop_laws(5))
  qed (use run f inv in \<open>simp add: file_fstat_def\<close>)
qed

lemma file_getdirentry_inv:
  assumes inv: "files_inv x F s" and fp: "fp \<in> F" and run: "file_getdirentry ops fp n d s = Some (ret, d', t)"
  shows "files_inv x F t"
proof -
  obtain ret1 slot where f: "fd2file fp n s = Some (ret1, slot)"
    using run by (auto simp: file_getdirentry_def bind_eq_Some_conv)
  then show ?thesis
  proof (cases rule: fd2file_cases)
    case (good i)
    obtain u nd iob ret2 iob2 v where "fd_array_acquire fp i s = Some u" "vop_getdirentry ops nd iob u = Some (ret2, iob2, v)"
        "fd_array_release ops fp i v = Some t"
      using run f good by (auto simp: file_getdirentry_def bind_eq_Some_conv Let_def)
    then show ?thesis by (blast intro: hold_slot(1) [OF inv fp good(4,5)] vop_laws(7))
  qed (use run f inv in \<open>simp add: file_getdirentry_def\<close>)
qed

end

section \<open>The remaining operations\<close>

lemma files_inv_upd_files:
  assumes "files_inv x F s" "fp \<in> F" "fd_array (g (filesps s fp)) = fd_array (filesps s fp)" "pwd (g (filesps s fp)) = pwd (filesps s fp)"
  shows "files_inv x F (upd_files fp g s)"
  by (rule files_inv_table [OF assms(1,2), of _ "g (filesps s fp)"])
     (use assms in \<open>auto simp: files_inv_def table_ok_def opens_def\<close>)

lemma dup_slot:
  assumes u: "slot_to fp i f (\<lambda>_. 0) (\<lambda>_. 0) s u" and f: "status f = FD_INIT" "fd f = int i" "open_count f = 0"
    and none: "opened_node (file_at fp i s) = None" and other: "(fp, i) \<noteq> (from, j)"
    and run: "fd_array_dup fp i from j u = Some t"
  obtains n where "status (file_at from j s) = FD_OPENED" "node (file_at from j s) = Some n"
    "slot_to fp i (f\<lparr>pos := pos (file_at from j s), readable := readable (file_at from j s),
       writable := writable (file_at from j s), node := Some n, status := FD_OPENED, open_count := 1\<rparr>)
      (ind (Some n)) (ind (Some n)) s t" "slot_step fp i s t"
proof -
  let ?g = "file_at from j s"
  have src: "file_at from j u = ?g" using u other by (auto simp: slot_to_def counts_def file_at_def)
  obtain n where st: "status ?g = FD_OPENED" and n: "node ?g = Some n"
    using run by (auto simp: fd_array_dup_def src Let_def bind_eq_Some_conv)
  let ?h = "\<lambda>f. f\<lparr>pos := pos ?g, readable := readable ?g, writable := writable ?g\<rparr>"
  let ?v = "inode_open_inc n (inode_ref_inc n (upd_file fp i ?h u))"
  have op: "fd_array_open fp i (upd_file fp i (\<lambda>f. f\<lparr>node := Some n\<rparr>) ?v) = Some t"
    using run by (simp add: fd_array_dup_def src Let_def bind_kassert n split: if_splits)
  have "slot_to fp i (?h f) (\<lambda>_. 0) (ind (Some n)) s (inode_ref_inc n (upd_file fp i ?h u))"
    by (rule slot_to_then_counts [OF slot_to_then_upd [OF u] counts_ref_inc]) simp_all
  then have v: "slot_to fp i (?h f) (ind (Some n)) (ind (Some n)) s ?v"
    by (rule slot_to_then_counts [OF _ counts_open_inc]) simp_all
  have "fopen_count_inc ((?h f)\<lparr>node := Some n, status := FD_OPENED\<rparr>) = (?h f)\<lparr>node := Some n, status := FD_OPENED, open_count := 1\<rparr>"
    using f(3) by (simp add: fopen_count_inc_def)
  with open_slot(1) [OF slot_to_then_upd [OF v, of "\<lambda>f. f\<lparr>node := Some n\<rparr>"] op]
  have t: "slot_to fp i ((?h f)\<lparr>node := Some n, status := FD_OPENED, open_count := 1\<rparr>) (ind (Some n)) (ind (Some n)) s t" by simp
  have "slot_step fp i s t" by (rule slot_stepI [OF t]) (simp_all add: none f fd_ok_def)
  with st n t show thesis by (intro that) simp_all
qed

lemma file_dup_spec:
  assumes inv: "files_inv x F s" and fp: "fp \<in> F" and run: "file_dup fp fd1 fd2 s = Some (ret, t)"
  obtains (refused) "t = s" "ret \<noteq> 0"
  | (dup) i j where "ret = int i" "fd1 = int j" "i < FILES_STRUCT_NENTRY" "j < FILES_STRUCT_NENTRY" "i \<noteq> j"
      "status (file_at fp i s) = FD_NONE" "status (file_at fp j s) = FD_OPENED" "fd2 \<noteq> NO_FD \<longrightarrow> i = nat fd2"
      "slot_to fp i ((file_at fp j s)\<lparr>fd := int i\<rparr>) (ind (node (file_at fp j s))) (ind (node (file_at fp j s))) s t"
      "slot_step fp i s t"
proof -
  note refused = that(1) and dup = that(2)
  have tab: "table_ok (filesps s fp)" using inv fp by (simp add: files_inv_def)
  obtain ret1 slot1 where f: "fd2file fp fd1 s = Some (ret1, slot1)" using run by (auto simp: file_dup_def bind_eq_Some_conv)
  then show thesis
  proof (cases rule: fd2file_cases)
    case bad
    then show thesis using run f by (intro refused) (auto simp: file_dup_def error_codes)
  next
    case (good j)
    obtain ret2 slot2 s1 where al: "fd_array_alloc fp fd2 s = Some (ret2, slot2, s1)"
      using run f good by (auto simp: file_dup_def bind_eq_Some_conv)
    from al tab show thesis
    proof (cases rule: alloc_cases)
      case full
      then show thesis using run f good al by (intro refused) (auto simp: file_dup_def)
    next
      case (found i)
      let ?f1 = "(file_at fp i s)\<lparr>status := FD_INIT, node := None\<rparr>"
      have ok: "fd (file_at fp i s) = int i" "open_count (file_at fp i s) = 0"
        using table_okD(2) [OF tab found(3)] found(4) by (simp_all add: fd_ok_def)
      have okj: "open_count (file_at fp j s) = 1" using table_okD(2) [OF tab good(4)] good(5) by (simp add: fd_ok_def)
      have len: "i < length (fd_array (filesps s fp))" using table_okD(1) [OF tab] found(3) by simp
      have one: "slot_to fp i ?f1 (\<lambda>_. 0) (\<lambda>_. 0) s s1" unfolding found(5) by (rule slot_to_upd [OF len])
      have ne: "i \<noteq> j" using found(4) good(5) by auto
      have d: "fd_array_dup fp i fp j s1 = Some t" and ret: "ret = fd (file_at fp i t)"
        using run f good al found(1) by (auto simp: file_dup_def bind_eq_Some_conv)
      obtain n where n: "node (file_at fp j s) = Some n"
        and t: "slot_to fp i (?f1\<lparr>pos := pos (file_at fp j s), readable := readable (file_at fp j s),
            writable := writable (file_at fp j s), node := Some n, status := FD_OPENED, open_count := 1\<rparr>)
          (ind (Some n)) (ind (Some n)) s t" "slot_step fp i s t"
        by (rule dup_slot [OF one _ _ _ _ _ d]) (use found(4) ok ne in auto)
      have "?f1\<lparr>pos := pos (file_at fp j s), readable := readable (file_at fp j s), writable := writable (file_at fp j s),
          node := Some n, status := FD_OPENED, open_count := 1\<rparr> = (file_at fp j s)\<lparr>fd := int i\<rparr>"
        using ok n good(5) okj by (intro file_struct.equality) simp_all
      with t have t': "slot_to fp i ((file_at fp j s)\<lparr>fd := int i\<rparr>) (ind (node (file_at fp j s))) (ind (node (file_at fp j s))) s t"
        by (simp add: n)
      show thesis
        by (rule dup [OF _ good(3) found(3) good(4) ne found(4) good(5) _ t' t(2)])
           (use ret slot_to_at [OF t'] found(6) in \<open>auto split: if_splits\<close>)
    qed
  qed
qed

context vnode_ops begin

lemma file_close_spec:
  assumes inv: "files_inv x F s" and fp: "fp \<in> F" and run: "file_close ops fp n s = Some (ret, t)"
  obtains (bad) "t = s" "ret = - E_INVAL"
  | (closed) i where "n = int i" "ret = 0" "i < FILES_STRUCT_NENTRY" "status (file_at fp i s) = FD_OPENED"
      "status (file_at fp i t) = FD_NONE" "slot_step fp i s t"
proof -
  have tab: "table_ok (filesps s fp)" using inv fp by (simp add: files_inv_def)
  obtain ret1 slot where f: "fd2file fp n s = Some (ret1, slot)" using run by (auto simp: file_close_def bind_eq_Some_conv)
  then show thesis
  proof (cases rule: fd2file_cases)
    case (good i)
    then have "fd_array_close ops fp i s = Some t" "ret = 0" using run f by (auto simp: file_close_def bind_eq_Some_conv)
    then show thesis using close_step [OF tab good(4,5)] good by (intro closed [of i]) simp_all
  qed (use run f that(1) in \<open>simp add: file_close_def\<close>)
qed

lemma file_seek_inv:
  assumes inv: "files_inv x F s" and fp: "fp \<in> F" and run: "file_seek ops fp n off whence s = Some (ret, t)"
  shows "files_inv x F t"
proof -
  obtain ret1 slot where f: "fd2file fp n s = Some (ret1, slot)" using run by (auto simp: file_seek_def bind_eq_Some_conv)
  then show ?thesis
  proof (cases rule: fd2file_cases)
    case (good i)
    let ?f = "fopen_count_inc (file_at fp i s)"
    obtain u nd ret2 off2 v where ac: "fd_array_acquire fp i s = Some u"
      and b: "(if whence = LSEEK_SET then Some (0, off, u)
             else if whence = LSEEK_CUR then Some (0, off + pos (file_at fp i u), u)
             else if whence = LSEEK_END
             then do { (ret, st, s) \<leftarrow> vop_fstat ops nd u; Some (ret, if ret = 0 then off + int (st_size st) else off, s) }
             else Some (- E_INVAL, off, u)) = Some (ret2, off2, v)"
      and c: "do { (ret, s) \<leftarrow> (if ret2 = 0
             then do { (ret, s) \<leftarrow> vop_tryseek ops nd off2 v;
                       Some (ret, if ret = 0 then upd_file fp i (\<lambda>f. f\<lparr>pos := off2\<rparr>) s else s) }
             else Some (ret2, v)); s \<leftarrow> fd_array_release ops fp i s; Some (ret, s) } = Some (ret, t)"
      using run f good by (auto simp only: file_seek_def bind_eq_Some_conv option.case prod.case case_prod_conv)
    have "grants None u v" using b by (auto simp: bind_eq_Some_conv split: if_splits dest: vop_laws(5))
    then have v: "slot_to fp i ?f (\<lambda>_. 0) (\<lambda>_. 0) s v"
      by (intro slot_to_then_counts [OF use_slot(1) [OF inv fp good(4,5) ac] grants_counts]) simp_all
    obtain w p where w: "slot_to fp i (?f\<lparr>pos := p\<rparr>) (\<lambda>_. 0) (\<lambda>_. 0) s w" and r: "fd_array_release ops fp i w = Some t"
    proof (cases "ret2 = 0")
      case False
      then show thesis using c v that [of "pos ?f" v] by (auto simp: bind_eq_Some_conv)
    next
      case True
      then obtain ret3 y where y: "vop_tryseek ops nd off2 v = Some (ret3, y)"
        and r: "fd_array_release ops fp i (if ret3 = 0 then upd_file fp i (\<lambda>f. f\<lparr>pos := off2\<rparr>) y else y) = Some t"
        using c by (auto simp: bind_eq_Some_conv)
      have s: "slot_to fp i ?f (\<lambda>_. 0) (\<lambda>_. 0) s y"
        by (rule slot_to_then_counts [OF v grants_counts [OF vop_laws(10) [OF y]]]) simp_all
      show thesis
        using that [of "pos ?f" y] that [of off2 "upd_file fp i (\<lambda>f. f\<lparr>pos := off2\<rparr>) y"] r s
          slot_to_then_upd [OF s, of "\<lambda>f. f\<lparr>pos := off2\<rparr>"] by (cases "ret3 = 0") simp_all
    qed
    show ?thesis by (rule unuse_slot(2) [OF inv fp good(4,5) w r])
  qed (use run f inv in \<open>simp add: file_seek_def\<close>)
qed

end

section \<open>Whole tables\<close>

lemma nth_fd_array_init [simp]: "i < FILES_STRUCT_NENTRY \<Longrightarrow>
    fd_array_init fs ! i = (fs ! i)\<lparr>open_count := 0, status := FD_NONE, fd := int i\<rparr>"
  by (simp add: fd_array_init_def)

lemma init_table: "table_ok (d\<lparr>fd_array := fd_array_init fs\<rparr>)" "opens n (d\<lparr>fd_array := fd_array_init fs\<rparr>) = 0"
proof -
  show "table_ok (d\<lparr>fd_array := fd_array_init fs\<rparr>)"
    by (simp add: table_ok_def fd_ok_def) (simp add: fd_array_init_def)
  show "opens n (d\<lparr>fd_array := fd_array_init fs\<rparr>) = 0"
    by (simp add: opens_def fd_array_init_def o_def)
qed

lemma files_inv_create:
  assumes inv: "files_inv x F s" and new: "fp \<notin> F" and run: "files_create (Some fp) s = (r, t)"
  shows "files_inv x (insert fp F) t" "r = Some fp" "\<forall>i < FILES_STRUCT_NENTRY. status (file_at fp i t) = FD_NONE"
proof -
  let ?d = "(filesps s fp)\<lparr>pwd := None, files_count := 0, files_sem := 1, fd_array := fd_array_init (fd_array (filesps s fp))\<rparr>"
  have t: "t = upd_files fp (\<lambda>d. d\<lparr>pwd := None, files_count := 0, files_sem := 1, fd_array := fd_array_init (fd_array d)\<rparr>) s"
    using run by (simp add: files_create_def)
  have old: "filesps t q = filesps s q" if "q \<in> F" for q using new that by (auto simp: t)
  have d: "filesps t fp = ?d" by (simp add: t)
  have ok: "table_ok ?d" using init_table(1) [where d = "(filesps s fp)\<lparr>pwd := None, files_count := 0, files_sem := 1\<rparr>"] by simp
  have none: "opens n ?d = 0" for n
    using init_table(2) [where n = n and d = "(filesps s fp)\<lparr>pwd := None, files_count := 0, files_sem := 1\<rparr>"] by simp
  show "files_inv x (insert fp F) t"
    using inv new by (auto simp: files_inv_def d ok none old cong: sum.cong) (simp_all add: t)
  show "r = Some fp" "\<forall>i < FILES_STRUCT_NENTRY. status (file_at fp i t) = FD_NONE"
    using run by (auto simp: files_create_def file_at_def)
qed

context vnode_ops begin

lemma closeall_loop_step:
  assumes "closeall_loop ops fp i k s = Some t" "table_ok (filesps s fp)" "i + k \<le> FILES_STRUCT_NENTRY"
  shows "table_step fp s t" "\<forall>j. i \<le> j \<and> j < i + k \<longrightarrow> status (file_at fp j t) = FD_NONE"
    "\<forall>j < i. file_at fp j t = file_at fp j s"
proof -
  have "table_step fp s t \<and> (\<forall>j. i \<le> j \<and> j < i + k \<longrightarrow> status (file_at fp j t) = FD_NONE) \<and>
      (\<forall>j < i. file_at fp j t = file_at fp j s)"
    using assms
  proof (induction k arbitrary: i s)
    case 0
    then show ?case using table_step_refl by auto
  next
    case (Suc k)
    then obtain u where u: "(if status (file_at fp i s) = FD_OPENED then fd_array_close ops fp i s else Some s) = Some u"
      and rest: "closeall_loop ops fp (i + 1) k u = Some t" by (auto simp: bind_eq_Some_conv)
    have i: "i < FILES_STRUCT_NENTRY" using Suc.prems(3) by simp
    have len: "i < length (fd_array (filesps s fp))" using table_okD(1) [OF Suc.prems(2)] i by simp
    have step: "table_step fp s u" and none: "status (file_at fp i u) = FD_NONE" and same: "\<forall>j < i. file_at fp j u = file_at fp j s"
    proof (atomize (full), cases "status (file_at fp i s) = FD_OPENED")
      case True
      then have "fd_array_close ops fp i s = Some u" using u by simp
      note c = close_step [OF Suc.prems(2) i True this]
      have "file_at fp j u = file_at fp j s" if "j < i" for j unfolding file_at_def c(3) using that by simp
      then show "table_step fp s u \<and> status (file_at fp i u) = FD_NONE \<and> (\<forall>j < i. file_at fp j u = file_at fp j s)"
        using slot_table_step [OF Suc.prems(2) c(1)] c(2) by simp
    next
      case False
      then show "table_step fp s u \<and> status (file_at fp i u) = FD_NONE \<and> (\<forall>j < i. file_at fp j u = file_at fp j s)"
        using u table_okD(2) [OF Suc.prems(2) i] table_step_refl [OF Suc.prems(2)] by (auto simp: fd_ok_def)
    qed
    have IH: "table_step fp u t \<and> (\<forall>j. i + 1 \<le> j \<and> j < i + 1 + k \<longrightarrow> status (file_at fp j t) = FD_NONE) \<and>
        (\<forall>j < i + 1. file_at fp j t = file_at fp j u)"
      by (rule Suc.IH [OF rest table_step_ok [OF step]]) (use Suc.prems(3) in simp)
    have "status (file_at fp j t) = FD_NONE" if "i \<le> j" "j < i + Suc k" for j
      using that IH none by (cases "j = i") auto
    then show ?case using IH same table_step_trans [OF step] by auto
  qed
  then show "table_step fp s t" "\<forall>j. i \<le> j \<and> j < i + k \<longrightarrow> status (file_at fp j t) = FD_NONE"
    "\<forall>j < i. file_at fp j t = file_at fp j s" by blast+
qed

lemma destroy_is_closeall: "destroy_loop ops fp i k s = Some t \<Longrightarrow> closeall_loop ops fp i k s = Some t"
  by (induction k arbitrary: i s) (auto simp: bind_eq_Some_conv)

lemma files_destroy_inv:
  assumes inv: "files_inv x F s" and fp: "fp \<in> F" and run: "files_destroy ops fp s = Some t"
  shows "files_inv x (F - {fp}) t"
proof -
  obtain u v where u: "(case pwd (filesps s fp) of None \<Rightarrow> Some s
        | Some n \<Rightarrow> do { (r, s) \<leftarrow> inode_ref_dec ops n s; Some s }) = Some u"
    and v: "destroy_loop ops fp 0 FILES_STRUCT_NENTRY u = Some v" and t: "t = kfree_vfs fp v"
    using run by (auto simp: files_destroy_def bind_eq_Some_conv)
  have cu: "counts (\<lambda>_. 0) (\<lambda>n. - ind (pwd (filesps s fp)) n) s u"
    using u ref_dec_counts by (cases "pwd (filesps s fp)") (auto simp: bind_eq_Some_conv counts_refl)
  have ok: "table_ok (filesps u fp)" using inv fp cu by (simp add: files_inv_def counts_def)
  note c = closeall_loop_step [OF destroy_is_closeall [OF v] ok]
  obtain fs where ok': "table_ok ((filesps u fp)\<lparr>fd_array := fs\<rparr>)" and to: "table_to fp fs u v"
    using c(1) by (auto simp: table_step_def)
  have len: "length fs = FILES_STRUCT_NENTRY" using ok' by (simp add: table_ok_def)
  have "\<forall>j < FILES_STRUCT_NENTRY. opened_node (fs ! j) = None"
    using c(2) to by (auto simp: file_at_def table_to_def Let_def counts_def)
  then have all: "\<forall>f\<in>set fs. opened_node f = None" using len by (auto simp: in_set_conv_nth)
  have "(\<Sum>f\<leftarrow>fs. ind (opened_node f) n) = 0" for n using all by (induction fs) auto
  then have none: "opens n ((filesps u fp)\<lparr>fd_array := fs\<rparr>) = 0" for n by (simp add: opens_def)
  have fin: "finite F" using inv by (simp add: files_inv_def)
  have cv: "counts (\<lambda>n. - opens n (filesps u fp)) (\<lambda>n. - opens n (filesps u fp)) (upd_files fp (\<lambda>d. d\<lparr>fd_array := fs\<rparr>) u) v"
    using to by (simp add: table_to_def none counts_def)
  have same: "filesps t q = filesps s q" if "q \<in> F - {fp}" for q
    using cu cv that by (auto simp: t counts_def)
  have "iopen_count (inodes t n) = (\<Sum>q\<in>F - {fp}. opens n (filesps s q))" for n
    using inv cu cv sum.remove [OF fin fp, of "\<lambda>q. opens n (filesps s q)"]
    by (simp add: files_inv_def counts_def t)
  moreover have "ref_count (inodes t n) \<ge> (\<Sum>q\<in>F - {fp}. opens n (filesps s q) + ind (pwd (filesps s q)) n) + x n" for n
  proof -
    have "ref_count (inodes u n) \<ge> ref_count (inodes s n) - ind (pwd (filesps s fp)) n" using cu by (simp add: counts_def)
    moreover have "ref_count (inodes t n) \<ge> ref_count (inodes u n) - opens n (filesps s fp)"
      using cv cu by (simp add: counts_def t)
    moreover have "ref_count (inodes s n) \<ge> (\<Sum>q\<in>F. opens n (filesps s q) + ind (pwd (filesps s q)) n) + x n"
      using inv by (simp add: files_inv_def)
    ultimately show ?thesis
      using sum.remove [OF fin fp, of "\<lambda>q. opens n (filesps s q) + ind (pwd (filesps s q)) n"] by linarith
  qed
  ultimately show ?thesis using inv by (simp add: files_inv_def same)
qed

end

section \<open>Copies of a table\<close>

text \<open>What \<open>dup_files\<close> makes of the entry \<open>g\<close> of the old table.\<close>

definition copied_file :: "file_struct \<Rightarrow> file_struct \<Rightarrow> bool" where
  "copied_file f g \<longleftrightarrow> (if status g = FD_OPENED then f = g else status f = FD_NONE)"

lemma dup_loop_step:
  assumes "dup_loop to from i k s = Some t" "table_ok (filesps s to)" "table_ok (filesps s from)" "to \<noteq> from"
    "i + k \<le> FILES_STRUCT_NENTRY" "\<forall>j. i \<le> j \<and> j < FILES_STRUCT_NENTRY \<longrightarrow> status (file_at to j s) = FD_NONE"
  shows "table_step to s t \<and> (\<forall>j. i \<le> j \<and> j < i + k \<longrightarrow> copied_file (file_at to j t) (file_at from j s)) \<and>
    (\<forall>j < i. file_at to j t = file_at to j s)"
  using assms
proof (induction k arbitrary: i s)
  case 0
  then show ?case using table_step_refl by auto
next
  case (Suc k)
  let ?u0 = "upd_file to i (\<lambda>f. f\<lparr>status := FD_INIT\<rparr>) s"
  obtain u where u: "(if status (file_at from i s) = FD_OPENED then fd_array_dup to i from i ?u0 else Some s) = Some u"
    and rest: "dup_loop to from (i + 1) k u = Some t" using Suc.prems(1) by (auto simp: bind_eq_Some_conv)
  have i: "i < FILES_STRUCT_NENTRY" using Suc.prems(5) by simp
  have len: "i < length (fd_array (filesps s to))" using table_okD(1) [OF Suc.prems(2)] i by simp
  have none: "status (file_at to i s) = FD_NONE" using Suc.prems(6) i by simp
  have step: "table_step to s u" and cp: "copied_file (file_at to i u) (file_at from i s)"
    and same: "\<forall>j. j \<noteq> i \<longrightarrow> file_at to j u = file_at to j s"
  proof (atomize (full), cases "status (file_at from i s) = FD_OPENED")
    case True
    let ?f1 = "(file_at to i s)\<lparr>status := FD_INIT\<rparr>"
    let ?g = "file_at from i s"
    have ok: "fd (file_at to i s) = int i" "open_count (file_at to i s) = 0" "fd ?g = int i" "open_count ?g = 1"
      using table_okD(2) [OF Suc.prems(2) i] table_okD(2) [OF Suc.prems(3) i] none True by (auto simp: fd_ok_def)
    have run: "fd_array_dup to i from i ?u0 = Some u" using u True by simp
    obtain n where n: "node ?g = Some n"
      and t: "slot_to to i (?f1\<lparr>pos := pos ?g, readable := readable ?g, writable := writable ?g,
            node := Some n, status := FD_OPENED, open_count := 1\<rparr>) (ind (Some n)) (ind (Some n)) s u" "slot_step to i s u"
      by (rule dup_slot [OF slot_to_upd [OF len, of "\<lambda>f. f\<lparr>status := FD_INIT\<rparr>"] _ _ _ _ _ run])
         (use none ok Suc.prems(4) in simp_all)
    have "?f1\<lparr>pos := pos ?g, readable := readable ?g, writable := writable ?g, node := Some n, status := FD_OPENED,
        open_count := 1\<rparr> = ?g" using ok n True by (intro file_struct.equality) simp_all
    then have "file_at to i u = ?g" using slot_to_at [OF t(1)] by simp
    moreover have "file_at to j u = file_at to j s" if "j \<noteq> i" for j
      using t(1) that by (simp add: slot_to_def counts_def file_at_def)
    ultimately show "table_step to s u \<and> copied_file (file_at to i u) ?g \<and> (\<forall>j. j \<noteq> i \<longrightarrow> file_at to j u = file_at to j s)"
      using slot_table_step [OF Suc.prems(2) t(2)] True by (simp add: copied_file_def)
  qed (use u table_step_refl [OF Suc.prems(2)] none in \<open>auto simp: copied_file_def\<close>)
  have old: "filesps u from = filesps s from" using table_step_other [OF step] Suc.prems(4) by metis
  then have old_at: "file_at from j u = file_at from j s" for j by (simp add: file_at_def)
  have IH: "table_step to u t \<and> (\<forall>j. i + 1 \<le> j \<and> j < i + 1 + k \<longrightarrow> copied_file (file_at to j t) (file_at from j u)) \<and>
      (\<forall>j < i + 1. file_at to j t = file_at to j u)"
  proof (rule Suc.IH [OF rest table_step_ok [OF step] _ Suc.prems(4)])
    show "\<forall>j. i + 1 \<le> j \<and> j < FILES_STRUCT_NENTRY \<longrightarrow> status (file_at to j u) = FD_NONE" using Suc.prems(6) same by simp
  qed (use Suc.prems old in simp_all)
  have "copied_file (file_at to j t) (file_at from j s)" if "i \<le> j" "j < i + Suc k" for j
    using that IH cp old_at by (cases "j = i") auto
  then show ?case using IH same table_step_trans [OF step] by auto
qed

lemma dup_files_spec:
  assumes inv: "files_inv x F s" and F: "to \<in> F" "from \<in> F" "to \<noteq> from"
    and new: "\<forall>i < FILES_STRUCT_NENTRY. status (file_at to i s) = FD_NONE"
    and run: "dup_files to from s = Some (ret, t)"
  shows "files_inv x F t" "ret = 0" "pwd (filesps t to) = pwd (filesps s from)" "filesps t from = filesps s from"
    "\<forall>i < FILES_STRUCT_NENTRY. copied_file (file_at to i t) (file_at from i s)"
proof -
  let ?u = "upd_files to (\<lambda>d. d\<lparr>pwd := pwd (filesps s from)\<rparr>) s"
  let ?v = "(case pwd (filesps s from) of None \<Rightarrow> ?u | Some n \<Rightarrow> inode_ref_inc n ?u)"
  have loop: "dup_loop to from 0 FILES_STRUCT_NENTRY ?v = Some t" and "ret = 0"
    using run F(3) by (auto simp: dup_files_def Let_def bind_eq_Some_conv bind_kassert split: if_splits)
  have tables: "filesps ?v = filesps ?u" by (auto simp: inode_ref_inc_def split: option.splits)
  have iv: "iopen_count (inodes ?v n) = iopen_count (inodes s n)"
    and rv: "ref_count (inodes ?v n) = ref_count (inodes s n) + ind (pwd (filesps s from)) n" for n
    by (auto simp: inode_ref_inc_def split: option.splits)
  have ok: "table_ok (filesps ?v to)" "table_ok (filesps ?v from)"
    using inv F unfolding tables by (auto simp: files_inv_def table_ok_def)
  have opens: "opens n (filesps ?v to) = opens n (filesps s to)" for n unfolding tables by (simp add: opens_def)
  have iv0: "files_inv x F ?v"
    by (rule files_inv_table [OF inv F(1), of _ "filesps ?v to"])
       (use ok opens in \<open>simp_all add: tables iv rv\<close>)
  have at: "file_at q i ?v = file_at q i s" for q i unfolding file_at_def tables by simp
  have d: "table_step to ?v t" "\<forall>j < FILES_STRUCT_NENTRY. copied_file (file_at to j t) (file_at from j s)"
    using dup_loop_step [OF loop ok F(3)] new by (simp_all add: at)
  show "files_inv x F t" by (rule files_inv_table_step [OF iv0 F(1) d(1)])
  show "\<forall>i < FILES_STRUCT_NENTRY. copied_file (file_at to i t) (file_at from i s)" "ret = 0" by fact+
  show "filesps t from = filesps s from" using table_step_other [OF d(1)] F(3) unfolding tables by simp
  show "pwd (filesps t to) = pwd (filesps s from)"
    using arg_cong [OF table_step_rest [OF d(1)], of pwd] unfolding tables by simp
qed

section \<open>The current directory\<close>

context vnode_ops begin

lemma set_curdir_inv:
  assumes inv: "files_inv x F s" and fp: "fp \<in> F" and run: "vfs_set_curdir ops fp dir s = Some (ret, t)"
  shows "files_inv x F t"
proof -
  obtain s1 ret2 w where lock: "lock_files fp s = Some s1" and t: "t = unlock_files fp w"
    and body: "(if pwd (filesps s1 fp) \<noteq> dir
        then do {
          (ret, s) \<leftarrow> (case dir of
             None \<Rightarrow> Some (0, s1)
           | Some d \<Rightarrow> do {
               (ret, ty, s) \<leftarrow> vop_gettype ops d s1;
               Some (if ret \<noteq> 0 then (ret, s) else if \<not> S_ISDIR ty then (- E_NOTDIR, s) else (0, inode_ref_inc d s))
             });
          (if ret \<noteq> 0 then Some (ret, s)
           else do {
             let s = upd_files fp (\<lambda>d. d\<lparr>pwd := dir\<rparr>) s;
             s \<leftarrow> (case pwd (filesps s1 fp) of None \<Rightarrow> Some s | Some n \<Rightarrow> do { (r, s) \<leftarrow> inode_ref_dec ops n s; Some s });
             Some (0, s)
           })
        }
        else Some (0, s1)) = Some (ret2, w)"
    using run by (auto simp: vfs_set_curdir_def Let_def bind_eq_Some_conv)
  have one: "files_inv x F s1"
    using lock files_inv_upd_files [OF inv fp] by (auto simp: lock_files_def bind_eq_Some_conv)
  let ?old = "pwd (filesps s1 fp)"
  have "files_inv x F w"
  proof (cases "?old = dir")
    case True
    then show ?thesis using body one by simp
  next
    case False
    then obtain ret3 u where u: "(case dir of None \<Rightarrow> Some (0, s1)
         | Some d \<Rightarrow> do { (ret, ty, s) \<leftarrow> vop_gettype ops d s1;
               Some (if ret \<noteq> 0 then (ret, s) else if \<not> S_ISDIR ty then (- E_NOTDIR, s) else (0, inode_ref_inc d s)) }) = Some (ret3, u)"
      and rest: "(if ret3 \<noteq> 0 then Some (ret3, u)
         else do {
           s \<leftarrow> (case ?old of None \<Rightarrow> Some (upd_files fp (\<lambda>d. d\<lparr>pwd := dir\<rparr>) u)
             | Some n \<Rightarrow> do { (r, s) \<leftarrow> inode_ref_dec ops n (upd_files fp (\<lambda>d. d\<lparr>pwd := dir\<rparr>) u); Some s });
           Some (0, s)
         }) = Some (ret2, w)"
      using body by (auto simp only: bind_eq_Some_conv Let_def if_True prod.case case_prod_conv simp_thms split: prod.splits)
    have g: "grants (if ret3 = 0 then dir else None) s1 u"
    proof (cases dir)
      case (Some d)
      then obtain ret4 ty u1 where y: "vop_gettype ops d s1 = Some (ret4, ty, u1)"
        and e: "(if ret4 \<noteq> 0 then (ret4, u1) else if \<not> S_ISDIR ty then (- E_NOTDIR, u1) else (0, inode_ref_inc d u1)) = (ret3, u)"
        using u by (auto simp: bind_eq_Some_conv)
      note k = vop_laws(9) [OF y]
      show ?thesis using e k grants_trans(2) [OF k ref_inc_grants [of d u1]] Some by (auto simp: error_codes split: if_splits)
    qed (use u in auto)
    show ?thesis
    proof (cases "ret3 = 0")
      case False
      then show ?thesis using rest g files_inv_kept [OF one] by simp
    next
      case True
      have tab: "filesps u = filesps s1" using g by (simp add: grants_def counts_def)
      let ?v = "upd_files fp (\<lambda>d. d\<lparr>pwd := dir\<rparr>) u"
      have c: "counts (\<lambda>_. 0) (\<lambda>n. - ind ?old n) ?v w"
        using rest True ref_dec_counts by (cases ?old) (auto simp: bind_eq_Some_conv counts_refl)
      have "ref_count (inodes w n) \<ge> ref_count (inodes s1 n) + (ind dir n - ind ?old n)"
        "iopen_count (inodes w n) = iopen_count (inodes s1 n)" for n
      proof -
        have "ref_count (inodes u n) \<ge> ref_count (inodes s1 n) + ind dir n" using g True by (simp add: grants_def counts_def)
        moreover have "ref_count (inodes w n) \<ge> ref_count (inodes u n) - ind ?old n" using c by (simp add: counts_def)
        ultimately show "ref_count (inodes w n) \<ge> ref_count (inodes s1 n) + (ind dir n - ind ?old n)" by linarith
        show "iopen_count (inodes w n) = iopen_count (inodes s1 n)" using c g by (simp add: counts_def grants_def)
      qed
      then show ?thesis
        by (intro files_inv_table [OF one fp, of _ "(filesps s1 fp)\<lparr>pwd := dir\<rparr>"])
           (use c tab one fp in \<open>auto simp: counts_def opens_def files_inv_def table_ok_def\<close>)
    qed
  qed
  then show ?thesis unfolding t unlock_files_def by (rule files_inv_upd_files [OF _ fp]) simp_all
qed

lemma chdir_inv:
  assumes inv: "files_inv x F s" and fp: "fp \<in> F" and run: "vfs_chdir ops fops fp path s = Some (ret, t)"
  shows "files_inv x F t"
proof -
  obtain ret1 p n u where l: "vfs_lookup ops fops fp path s = Some (ret1, p, n, u)"
    using run by (auto simp: vfs_chdir_def bind_eq_Some_conv)
  show ?thesis
  proof (cases "ret1 = 0")
    case False
    then show ?thesis using run l files_inv_kept [OF inv lookup_grants [OF l]] by (simp add: vfs_chdir_def)
  next
    case True
    then obtain ret2 v k r where v: "vfs_set_curdir ops fp n u = Some (ret2, v)" and k: "n = Some k"
      and d: "inode_ref_dec ops k v = Some (r, t)"
      using run l by (auto simp: vfs_chdir_def bind_eq_Some_conv)
    have "files_inv (\<lambda>m. x m + ind n m) F u" using files_inv_grants [OF inv lookup_grants [OF l]] True by simp
    from set_curdir_inv [OF this fp v] show ?thesis
      by (rule files_inv_counts [OF _ ref_dec_counts [OF d]]) (simp add: k)
  qed
qed

lemma closeall_inv:
  assumes inv: "files_inv x F s" and fp: "fp \<in> F" and run: "files_closeall ops fp s = Some t"
  shows "files_inv x F t" "\<forall>i. 2 \<le> i \<and> i < FILES_STRUCT_NENTRY \<longrightarrow> status (file_at fp i t) = FD_NONE"
    "\<forall>i < 2. file_at fp i t = file_at fp i s"
proof -
  have loop: "closeall_loop ops fp 2 (FILES_STRUCT_NENTRY - 2) s = Some t"
    using run by (auto simp: files_closeall_def bind_kassert split: if_splits)
  have N: "2 + (FILES_STRUCT_NENTRY - 2) = FILES_STRUCT_NENTRY"
    by (simp add: FILES_STRUCT_NENTRY_def FILES_STRUCT_BUFSIZE_def)
  have ok: "table_ok (filesps s fp)" using inv fp by (simp add: files_inv_def)
  note c = closeall_loop_step [OF loop ok, unfolded N, OF order.refl]
  show "files_inv x F t" by (rule files_inv_table_step [OF inv fp c(1)])
  show "\<forall>i. 2 \<le> i \<and> i < FILES_STRUCT_NENTRY \<longrightarrow> status (file_at fp i t) = FD_NONE"
    "\<forall>i < 2. file_at fp i t = file_at fp i s" by (fact c)+
qed

end

section \<open>The file operations as a step relation\<close>

text \<open>
  The operations on the tables of the processes. \<open>fork_files\<close> is \<open>copy_files\<close> of \<open>proc.c\<close> without
  \<open>CLONE_FS\<close>, \<open>share_files\<close> with it; \<open>new_files\<close> is what \<open>proc_init\<close> does; \<open>drop_files\<close> and \<open>last_files\<close> are \<open>put_files\<close>, the latter for
  the last process that uses the table.
\<close>

inductive files_step ::
  "(nat \<Rightarrow> 'a vfs_scheme inode_ops) \<Rightarrow> 'a vfs_scheme fs_ops \<Rightarrow> nat set \<times> 'a vfs_scheme \<Rightarrow> nat set \<times> 'a vfs_scheme \<Rightarrow> bool"
  for ops fops where
  open_file: "fp \<in> F \<Longrightarrow> file_open ops fops fp path fl s = Some (ret, t) \<Longrightarrow> files_step ops fops (F, s) (F, t)"
| close_file: "fp \<in> F \<Longrightarrow> file_close ops fp n s = Some (ret, t) \<Longrightarrow> files_step ops fops (F, s) (F, t)"
| read_file: "fp \<in> F \<Longrightarrow> file_read ops fp n mem base len s = Some (ret, copied, mem', t) \<Longrightarrow> files_step ops fops (F, s) (F, t)"
| write_file: "fp \<in> F \<Longrightarrow> file_write ops fp n mem base len s = Some (ret, copied, t) \<Longrightarrow> files_step ops fops (F, s) (F, t)"
| seek_file: "fp \<in> F \<Longrightarrow> file_seek ops fp n off whence s = Some (ret, t) \<Longrightarrow> files_step ops fops (F, s) (F, t)"
| stat_file: "fp \<in> F \<Longrightarrow> file_fstat ops fp n s = Some (ret, st, t) \<Longrightarrow> files_step ops fops (F, s) (F, t)"
| sync_file: "fp \<in> F \<Longrightarrow> file_fsync ops fp n s = Some (ret, t) \<Longrightarrow> files_step ops fops (F, s) (F, t)"
| list_file: "fp \<in> F \<Longrightarrow> file_getdirentry ops fp n d s = Some (ret, d', t) \<Longrightarrow> files_step ops fops (F, s) (F, t)"
| dup_file: "fp \<in> F \<Longrightarrow> file_dup fp fd1 fd2 s = Some (ret, t) \<Longrightarrow> files_step ops fops (F, s) (F, t)"
| change_dir: "fp \<in> F \<Longrightarrow> vfs_chdir ops fops fp path s = Some (ret, t) \<Longrightarrow> files_step ops fops (F, s) (F, t)"
| close_all: "fp \<in> F \<Longrightarrow> files_closeall ops fp s = Some t \<Longrightarrow> files_step ops fops (F, s) (F, t)"
| fork_files: "fp \<in> F \<Longrightarrow> child \<notin> F \<Longrightarrow> files_create (Some child) s = (r, u) \<Longrightarrow> dup_files child fp u = Some (ret, t) \<Longrightarrow>
    files_step ops fops (F, s) (insert child F, files_count_inc child t)"
| new_files: "fp \<notin> F \<Longrightarrow> files_create (Some fp) s = (r, t) \<Longrightarrow> files_step ops fops (F, s) (insert fp F, files_count_inc fp t)"
| share_files: "fp \<in> F \<Longrightarrow> files_step ops fops (F, s) (F, files_count_inc fp s)"
| drop_files: "fp \<in> F \<Longrightarrow> files_count_dec fp s = (k, t) \<Longrightarrow> k \<noteq> 0 \<Longrightarrow> files_step ops fops (F, s) (F, t)"
| last_files: "fp \<in> F \<Longrightarrow> files_count_dec fp s = (0, u) \<Longrightarrow> files_destroy ops fp u = Some t \<Longrightarrow>
    files_step ops fops (F, s) (F - {fp}, t)"

lemma files_count_inv:
  "files_inv x F s \<Longrightarrow> fp \<in> F \<Longrightarrow> files_inv x F (files_count_inc fp s)"
  "files_inv x F s \<Longrightarrow> fp \<in> F \<Longrightarrow> files_count_dec fp s = (k, t) \<Longrightarrow> files_inv x F t"
  by (auto simp: files_count_inc_def files_count_dec_def Let_def intro: files_inv_upd_files)

context vnode_ops begin

lemma files_step_inv:
  assumes inv: "files_inv x F s" and st: "files_step ops fops (F, s) (F', t)"
  shows "files_inv x F' t"
  using st
proof cases
  case (open_file fp path fl ret)
  from inv open_file(2,3) show ?thesis
    by (cases rule: file_open_spec) (simp_all add: open_file(1) files_inv_slot [OF inv open_file(2)])
next
  case (close_file fp n ret)
  from inv close_file(2,3) show ?thesis
    by (cases rule: file_close_spec) (simp_all add: close_file(1) inv files_inv_slot [OF inv close_file(2)])
next
  case (read_file fp n mem base len ret copied mem')
  from inv read_file(2,3) show ?thesis by (cases rule: file_read_spec) (simp_all add: read_file(1) inv)
next
  case (dup_file fp fd1 fd2 ret)
  from inv dup_file(2,3) show ?thesis
    by (cases rule: file_dup_spec) (simp_all add: dup_file(1) inv files_inv_slot [OF inv dup_file(2)])
next
  case (fork_files fp child r u ret v)
  note new = files_inv_create [OF inv fork_files(4,5)]
  have "files_inv x (insert child F) v"
    by (rule dup_files_spec(1) [OF new(1) _ _ _ new(3) fork_files(6)]) (use fork_files(3,4) in auto)
  then show ?thesis unfolding fork_files(1,2) by (rule files_count_inv) simp
next
  case (new_files fp r u)
  show ?thesis unfolding new_files(1,2) by (rule files_count_inv(1) [OF files_inv_create(1) [OF inv new_files(3,4)]]) simp
next
  case (last_files fp u)
  then show ?thesis using files_destroy_inv [OF files_count_inv(2) [OF inv last_files(2,3)] last_files(2,4)] by simp
qed (use inv in \<open>auto intro: file_write_inv file_seek_inv file_fstat_inv file_fsync_inv file_getdirentry_inv
  chdir_inv closeall_inv(1) files_count_inv\<close>)

lemma files_reachable_inv:
  assumes "(files_step ops fops)\<^sup>*\<^sup>* (F, s) (F', t)" and "files_inv x F s"
  shows "files_inv x F' t"
  using assms(1)
proof (induction rule: rtranclp_induct2)
  case refl
  then show ?case by (fact assms(2))
next
  case (step F1 s1 F2 s2)
  then show ?case by (blast intro: files_step_inv)
qed

end
section \<open>Copying the file table always succeeds\<close>

lemma fd_array_dup_total:
  assumes "status (file_at from i s) = FD_OPENED" "node (file_at from i s) = Some n" "to \<noteq> from"
    "i < length (fd_array (filesps s to))"
  obtains u where "fd_array_dup to i from i (upd_file to i (\<lambda>f. f\<lparr>status := FD_INIT\<rparr>) s) = Some u"
    "filesps u from = filesps s from" "length (fd_array (filesps u to)) = length (fd_array (filesps s to))"
proof -
  let ?g = "file_at from i s"
  let ?s1 = "upd_file to i (\<lambda>f. f\<lparr>status := FD_INIT\<rparr>) s"
  let ?s2 = "upd_file to i (\<lambda>f. f\<lparr>pos := pos ?g, readable := readable ?g, writable := writable ?g\<rparr>) ?s1"
  let ?s3 = "upd_file to i (\<lambda>f. f\<lparr>node := Some n\<rparr>) (inode_open_inc n (inode_ref_inc n ?s2))"
  let ?s4 = "upd_file to i (\<lambda>f. fopen_count_inc (f\<lparr>status := FD_OPENED\<rparr>)) ?s3"
  have g: "file_at from i ?s1 = ?g" using assms(3) by (simp add: file_at_def)
  have "fd_array_dup to i from i ?s1 = Some ?s4"
    using assms by (simp add: fd_array_dup_def fd_array_open_def Let_def g bind_kassert)
      (simp add: file_at_def inode_open_inc_def inode_ref_inc_def)
  then show thesis
    by (rule that) (use assms(3) in \<open>simp_all add: inode_open_inc_def inode_ref_inc_def\<close>)
qed

lemma dup_loop_total:
  fixes s :: "'a vfs_scheme"
  assumes "table_ok (filesps s from)" "to \<noteq> from" "i + k \<le> FILES_STRUCT_NENTRY"
    "length (fd_array (filesps s to)) = FILES_STRUCT_NENTRY"
  shows "\<exists>t. dup_loop to from i k s = Some t"
  using assms
proof (induction k arbitrary: i s)
  case (Suc k)
  have i: "i < FILES_STRUCT_NENTRY" using Suc.prems(3) by simp
  have rest: "\<exists>t. dup_loop to from (i + 1) k u = Some t"
    if "filesps u from = filesps s from" "length (fd_array (filesps u to)) = FILES_STRUCT_NENTRY" for u :: "'a vfs_scheme"
    by (rule Suc.IH) (use that Suc.prems in simp_all)
  show ?case
  proof (cases "status (file_at from i s) = FD_OPENED")
    case True
    then obtain n where n: "node (file_at from i s) = Some n"
      using table_okD(2) [OF Suc.prems(1) i] by (auto simp: fd_ok_def)
    obtain u where u: "fd_array_dup to i from i (upd_file to i (\<lambda>f. f\<lparr>status := FD_INIT\<rparr>) s) = Some u"
      "filesps u from = filesps s from" "length (fd_array (filesps u to)) = length (fd_array (filesps s to))"
      by (rule fd_array_dup_total [OF True n Suc.prems(2)]) (use i Suc.prems(4) in auto)
    then show ?thesis using rest [of u] True Suc.prems(4) by simp
  next
    case False
    then show ?thesis using rest [of s] Suc.prems(4) by simp
  qed
qed simp

lemma fork_table:
  assumes inv: "files_inv x F v" and F: "fp \<in> F" "kf \<notin> F" and cnt: "files_count (filesps v fp) > 0"
  obtains w t where "files_create (Some kf) v = (Some kf, w)" "dup_files kf fp w = Some (0, t)"
    "files_inv x (insert kf F) (files_count_inc kf t)"
    "pwd (filesps (files_count_inc kf t) kf) = pwd (filesps v fp)"
    "\<forall>i < FILES_STRUCT_NENTRY. copied_file (file_at kf i (files_count_inc kf t)) (file_at fp i v)"
proof -
  have ne: "kf \<noteq> fp" using F by auto
  obtain r w where w: "files_create (Some kf) v = (r, w)" by (cases "files_create (Some kf) v")
  note C = files_inv_create [OF inv F(2) w]
  have fw: "filesps w fp = filesps v fp" "files_count (filesps w kf) = 0"
    using w ne by (auto simp: files_create_def)
  let ?u = "upd_files kf (\<lambda>d. d\<lparr>pwd := pwd (filesps w fp)\<rparr>) w"
  let ?u2 = "(case pwd (filesps w fp) of None \<Rightarrow> ?u | Some n \<Rightarrow> inode_ref_inc n ?u)"
  have tables: "filesps ?u2 = filesps ?u" by (auto simp: inode_ref_inc_def split: option.splits)
  have "\<exists>t. dup_loop kf fp 0 FILES_STRUCT_NENTRY ?u2 = Some t"
    by (rule dup_loop_total)
      (use files_invD(1) [OF C(1), of kf] files_invD(1) [OF C(1), of fp] C(1) F ne in \<open>simp_all add: tables files_inv_def\<close>)
  then obtain t where t: "dup_loop kf fp 0 FILES_STRUCT_NENTRY ?u2 = Some t" by blast
  have "files_count (filesps w fp) > 0" using fw(1) cnt by simp
  then have d: "dup_files kf fp w = Some (0, t)" using t fw(2) ne by (simp add: dup_files_def Let_def bind_kassert)
  have in1: "kf \<in> insert kf F" and in2: "fp \<in> insert kf F" using F by simp_all
  note D = dup_files_spec [OF C(1) in1 in2 ne C(3) d]
  have at: "file_at kf i (files_count_inc kf t) = file_at kf i t" for i by (simp add: files_count_inc_def file_at_def)
  have old: "file_at fp i w = file_at fp i v" for i by (simp add: file_at_def fw)
  show thesis
  proof (rule that [OF _ d])
    show "files_create (Some kf) v = (Some kf, w)" using w C(2) by simp
    show "files_inv x (insert kf F) (files_count_inc kf t)" by (rule files_count_inv(1) [OF D(1) in1])
    show "pwd (filesps (files_count_inc kf t) kf) = pwd (filesps v fp)" using D(3) fw(1) by (simp add: files_count_inc_def)
    show "\<forall>i < FILES_STRUCT_NENTRY. copied_file (file_at kf i (files_count_inc kf t)) (file_at fp i v)"
      using D(5) by (simp add: at old)
  qed
qed

end
