(* ===== verification/Stdin.thy ===== *)
theory Stdin
imports Disk
begin

text \<open>
  The keyboard buffer of \<open>kern/fs/devs/dev_stdin.c\<close>: a ring of 4096 characters that the interrupt
  handler fills and that readers empty. The counters \<open>p_rpos\<close> and \<open>p_wpos\<close> only grow and are never
  negative. The functions that also use the wait queue of the readers are in theory Trap.
\<close>

definition STDIN_BUFSIZE :: nat where "STDIN_BUFSIZE = 4096"

record stdin_ring =
  stdin_buffer :: "byte list"
  p_rpos :: nat
  p_wpos :: nat

definition stdin_put :: "byte \<Rightarrow> stdin_ring \<Rightarrow> stdin_ring" where
  "stdin_put c r =
     (let r = r\<lparr>stdin_buffer := (stdin_buffer r)[p_wpos r mod STDIN_BUFSIZE := c]\<rparr> in
      if p_wpos r - p_rpos r < STDIN_BUFSIZE then r\<lparr>p_wpos := p_wpos r + 1\<rparr> else r)"

text \<open>The loop of \<open>dev_stdin_read\<close> for \<open>n\<close> more characters, as long as the ring has some.\<close>

fun stdin_take :: "nat \<Rightarrow> stdin_ring \<Rightarrow> byte list \<times> stdin_ring" where
  "stdin_take 0 r = ([], r)"
| "stdin_take (Suc n) r =
     (if p_rpos r < p_wpos r
      then let c = stdin_buffer r ! (p_rpos r mod STDIN_BUFSIZE);
               (cs, r) = stdin_take n (r\<lparr>p_rpos := p_rpos r + 1\<rparr>)
           in (c # cs, r)
      else ([], r))"

section \<open>The ring as a queue\<close>

definition pending :: "stdin_ring \<Rightarrow> byte list" where
  "pending r = map (\<lambda>i. stdin_buffer r ! (i mod STDIN_BUFSIZE)) [p_rpos r..<p_wpos r]"

definition ring_ok :: "stdin_ring \<Rightarrow> bool" where
  "ring_ok r \<longleftrightarrow> length (stdin_buffer r) = STDIN_BUFSIZE \<and> p_rpos r \<le> p_wpos r \<and> p_wpos r - p_rpos r \<le> STDIN_BUFSIZE"

lemma length_pending: "length (pending r) = p_wpos r - p_rpos r"
  by (simp add: pending_def)

lemma mod_eq_close:
  fixes i j n :: nat
  assumes "i mod n = j mod n" "i \<le> j" "j < i + n"
  shows "i = j"
proof -
  have "n dvd j - i" using assms(1,2) by (metis mod_eq_dvd_iff_nat)
  moreover have "j - i < n" using assms(2,3) by linarith
  ultimately have "j - i = 0" using nat_dvd_not_less by blast
  then show ?thesis using assms(2) by simp
qed

lemma stdin_put_room:
  assumes ok: "ring_ok r" and room: "p_wpos r - p_rpos r < STDIN_BUFSIZE"
  shows "pending (stdin_put c r) = pending r @ [c]" "ring_ok (stdin_put c r)"
proof -
  have other: "p_wpos r mod STDIN_BUFSIZE \<noteq> i mod STDIN_BUFSIZE" if "p_rpos r \<le> i" "i < p_wpos r" for i
  proof
    assume "p_wpos r mod STDIN_BUFSIZE = i mod STDIN_BUFSIZE"
    moreover have "p_wpos r < i + STDIN_BUFSIZE" using that room by simp
    ultimately have "i = p_wpos r" using that(2) by (metis mod_eq_close less_imp_le)
    then show False using that(2) by simp
  qed
  have "map (\<lambda>i. (stdin_buffer r)[p_wpos r mod STDIN_BUFSIZE := c] ! (i mod STDIN_BUFSIZE)) [p_rpos r..<p_wpos r]
      = map (\<lambda>i. stdin_buffer r ! (i mod STDIN_BUFSIZE)) [p_rpos r..<p_wpos r]"
    using other by (intro map_cong) (auto simp: nth_list_update_neq)
  then show "pending (stdin_put c r) = pending r @ [c]"
    using ok room by (simp add: stdin_put_def pending_def ring_ok_def Let_def STDIN_BUFSIZE_def)
  show "ring_ok (stdin_put c r)" using ok room by (auto simp: stdin_put_def ring_ok_def Let_def)
qed

text \<open>A character that arrives when the ring is full takes the place of the oldest one.\<close>

lemma stdin_put_full:
  assumes ok: "ring_ok r" and full: "p_wpos r - p_rpos r = STDIN_BUFSIZE"
  shows "pending (stdin_put c r) = c # tl (pending r)" "ring_ok (stdin_put c r)"
proof -
  have pos: "p_rpos r < p_wpos r" "p_wpos r = p_rpos r + STDIN_BUFSIZE"
    using full ok by (simp_all add: STDIN_BUFSIZE_def ring_ok_def)
  have lt: "p_rpos r mod STDIN_BUFSIZE < STDIN_BUFSIZE" by (simp add: STDIN_BUFSIZE_def)
  have slot: "p_wpos r mod STDIN_BUFSIZE = p_rpos r mod STDIN_BUFSIZE" by (simp add: pos(2))
  have other: "p_rpos r mod STDIN_BUFSIZE \<noteq> i mod STDIN_BUFSIZE" if "Suc (p_rpos r) \<le> i" "i < p_wpos r" for i
    using mod_eq_close [of "p_rpos r" STDIN_BUFSIZE i] that pos(2) by auto
  have "map (\<lambda>i. (stdin_buffer r)[p_wpos r mod STDIN_BUFSIZE := c] ! (i mod STDIN_BUFSIZE)) [Suc (p_rpos r)..<p_wpos r]
      = map (\<lambda>i. stdin_buffer r ! (i mod STDIN_BUFSIZE)) [Suc (p_rpos r)..<p_wpos r]"
    using other unfolding slot by (intro map_cong) (auto simp: nth_list_update_neq)
  then show "pending (stdin_put c r) = c # tl (pending r)"
    using ok full slot lt unfolding pending_def upt_conv_Cons [OF pos(1)]
    by (simp add: stdin_put_def ring_ok_def Let_def upt_conv_Cons [OF pos(1)] nth_list_update_eq)
  show "ring_ok (stdin_put c r)" using ok full by (auto simp: stdin_put_def ring_ok_def Let_def)
qed

lemma stdin_take_pending:
  assumes "stdin_take n r = (cs, r')" "ring_ok r"
  shows "pending r = cs @ pending r' \<and> length cs = min n (length (pending r)) \<and> ring_ok r'"
  using assms
proof (induction n arbitrary: r cs)
  case (Suc n)
  note run = Suc.prems(1) and ok = Suc.prems(2)
  show ?case
  proof (cases "p_rpos r < p_wpos r")
    case True
    let ?r = "r\<lparr>p_rpos := p_rpos r + 1\<rparr>"
    obtain ds r1 where "stdin_take n ?r = (ds, r1)" by (cases "stdin_take n ?r")
    then have ds: "stdin_take n ?r = (ds, r')" "cs = stdin_buffer r ! (p_rpos r mod STDIN_BUFSIZE) # ds"
      using run True by simp_all
    have p: "pending r = stdin_buffer r ! (p_rpos r mod STDIN_BUFSIZE) # pending ?r"
      using True by (simp add: pending_def upt_conv_Cons)
    have IH: "pending ?r = ds @ pending r' \<and> length ds = min n (length (pending ?r)) \<and> ring_ok r'"
      by (rule Suc.IH [OF ds(1)]) (use ok True in \<open>auto simp: ring_ok_def\<close>)
    then show ?thesis unfolding p ds(2) by (simp only: append_Cons list.size min_Suc_Suc simp_thms list.inject add_Suc_right add_0_right)
  next
    case False
    then show ?thesis using run ok by (simp add: pending_def)
  qed
qed simp

end
