(* ===== verification/Devices.thy ===== *)
theory Devices
imports Files Stdin
begin

text \<open>
  The devices of the kernel as inodes: \<open>kern/fs/devs/dev.c\<close> with the devices \<open>stdin\<close>, \<open>stdout\<close> and
  \<open>disk0\<close>. The function pointers of a \<open>struct device\<close> are always set together by one of the three
  \<open>*_device_init\<close> functions, so a device is recorded with the name of its table. What \<open>cputchar\<close>
  prints is appended to \<open>console\<close>. A read that would suspend the caller on the empty keyboard buffer
  has no result here; theory Stdin has its two halves.
\<close>

datatype dev_name = Dev_stdin | Dev_stdout | Dev_disk0

record device_struct =
  dv_blocks :: nat
  dv_blocksize :: nat
  dv_ops :: dev_name

record devices = vfs +
  device_of :: "nat \<Rightarrow> device_struct"
  keyboard :: stdin_ring
  console :: "byte list"
  disk :: disk0

section \<open>The three devices\<close>

definition stdin_open :: "32 word \<Rightarrow> int" where "stdin_open fl = (if fl \<noteq> O_RDONLY then - E_INVAL else 0)"
definition stdin_close :: int where "stdin_close = 0"
definition stdin_ioctl :: int where "stdin_ioctl = - E_INVAL"

definition stdin_io :: "iobuf \<Rightarrow> bool \<Rightarrow> 'a devices_scheme \<Rightarrow> (int \<times> iobuf \<times> 'a devices_scheme) option" where
  "stdin_io iob wr s =
     (if \<not> wr
      then do {
        let (cs, r) = stdin_take (io_resid iob) (keyboard s);
        kassert (length cs = io_resid iob);
        mem \<leftarrow> mem_put (io_base iob) cs (io_mem iob);
        let ret = int (length cs);
        let iob = iob\<lparr>io_mem := mem\<rparr>;
        Some (ret, if ret > 0 then iob\<lparr>io_resid := io_resid iob - nat ret\<rparr> else iob, s\<lparr>keyboard := r\<rparr>)
      }
      else Some (- E_INVAL, iob, s))"

definition stdout_open :: "32 word \<Rightarrow> int" where "stdout_open fl = (if fl \<noteq> O_WRONLY then - E_INVAL else 0)"
definition stdout_close :: int where "stdout_close = 0"
definition stdout_ioctl :: int where "stdout_ioctl = - E_INVAL"

text \<open>
  \<open>cons_putc\<close> sends a character through \<open>serial_putc\<close>, which turns a backspace into three bytes;
  \<open>sbi_console_putchar\<close> writes the low byte of its argument.
\<close>

definition serial_putc :: "int \<Rightarrow> byte list" where
  "serial_putc c = (if c \<noteq> 8 then [of_int c] else [8, 32, 8])"

definition serial_text :: "byte list \<Rightarrow> byte list" where
  "serial_text cs = concat (map (\<lambda>c. serial_putc (uint c)) cs)"

lemma serial_text_bytes: "serial_text cs = concat (map (\<lambda>c. if c = 8 then [8, 32, 8] else [c]) cs)"
proof -
  have "serial_putc (uint c) = (if c = 8 then [8, 32, 8] else [c])" for c :: byte
    by (simp add: serial_putc_def word_uint_eq_iff)
  then show ?thesis by (simp add: serial_text_def)
qed

lemma serial_text_append: "serial_text (xs @ ys) = serial_text xs @ serial_text ys"
  by (simp add: serial_text_def)

definition stdout_io :: "iobuf \<Rightarrow> bool \<Rightarrow> 'a devices_scheme \<Rightarrow> (int \<times> iobuf \<times> 'a devices_scheme) option" where
  "stdout_io iob wr s =
     (if wr
      then do {
        cs \<leftarrow> mem_get (io_base iob) (io_resid iob) (io_mem iob);
        Some (0, iob\<lparr>io_resid := 0\<rparr>, s\<lparr>console := console s @ serial_text cs\<rparr>)
      }
      else Some (- E_INVAL, iob, s))"

definition disk0_open :: "32 word \<Rightarrow> int" where "disk0_open fl = 0"
definition disk0_close :: int where "disk0_close = 0"
definition disk0_ioctl :: int where "disk0_ioctl = - E_UNIMP"

text \<open>\<open>dop_open\<close>, \<open>dop_close\<close> and \<open>dop_io\<close> on the device of an inode.\<close>

definition dev_dop_open :: "nat \<Rightarrow> 32 word \<Rightarrow> 'a devices_scheme \<Rightarrow> int" where
  "dev_dop_open n fl s =
     (case dv_ops (device_of s n) of
        Dev_stdin \<Rightarrow> stdin_open fl | Dev_stdout \<Rightarrow> stdout_open fl | Dev_disk0 \<Rightarrow> disk0_open fl)"

definition dev_dop_close :: "nat \<Rightarrow> 'a devices_scheme \<Rightarrow> int" where
  "dev_dop_close n s =
     (case dv_ops (device_of s n) of
        Dev_stdin \<Rightarrow> stdin_close | Dev_stdout \<Rightarrow> stdout_close | Dev_disk0 \<Rightarrow> disk0_close)"

definition dev_dop_io :: "nat \<Rightarrow> iobuf \<Rightarrow> bool \<Rightarrow> 'a devices_scheme \<Rightarrow> (int \<times> iobuf \<times> 'a devices_scheme) option" where
  "dev_dop_io n iob wr s =
     (case dv_ops (device_of s n) of
        Dev_stdin \<Rightarrow> stdin_io iob wr s
      | Dev_stdout \<Rightarrow> stdout_io iob wr s
      | Dev_disk0 \<Rightarrow> do {
          (ret, st, iob) \<leftarrow> disk0_io (dv_blocks (device_of s n)) (disk s) iob wr;
          Some (ret, iob, s\<lparr>disk := st\<rparr>)
        })"

definition dev_dop_ioctl :: "nat \<Rightarrow> 'a devices_scheme \<Rightarrow> int" where
  "dev_dop_ioctl n s =
     (case dv_ops (device_of s n) of
        Dev_stdin \<Rightarrow> stdin_ioctl | Dev_stdout \<Rightarrow> stdout_ioctl | Dev_disk0 \<Rightarrow> disk0_ioctl)"

section \<open>Devices as inodes (dev.c)\<close>

definition dev_open :: "nat \<Rightarrow> 32 word \<Rightarrow> 'a devices_scheme \<Rightarrow> (int \<times> 'a devices_scheme) option" where
  "dev_open n open_flags s =
     (if and open_flags (or O_CREAT (or O_TRUNC (or O_EXCL O_APPEND))) \<noteq> 0 then Some (- E_INVAL, s)
      else Some (dev_dop_open n open_flags s, s))"

definition dev_close :: "nat \<Rightarrow> 'a devices_scheme \<Rightarrow> (int \<times> 'a devices_scheme) option" where
  "dev_close n s = Some (dev_dop_close n s, s)"

definition dev_read :: "nat \<Rightarrow> iobuf \<Rightarrow> 'a devices_scheme \<Rightarrow> (int \<times> iobuf \<times> 'a devices_scheme) option" where
  "dev_read n iob s = dev_dop_io n iob False s"

definition dev_write :: "nat \<Rightarrow> iobuf \<Rightarrow> 'a devices_scheme \<Rightarrow> (int \<times> iobuf \<times> 'a devices_scheme) option" where
  "dev_write n iob s = dev_dop_io n iob True s"

definition dev_ioctl :: "nat \<Rightarrow> 'a devices_scheme \<Rightarrow> (int \<times> 'a devices_scheme) option" where
  "dev_ioctl n s = Some (dev_dop_ioctl n s, s)"

definition dev_gettype :: "nat \<Rightarrow> 'a devices_scheme \<Rightarrow> (int \<times> nat \<times> 'a devices_scheme) option" where
  "dev_gettype n s = Some (0, if dv_blocks (device_of s n) > 0 then S_IFBLK else S_IFCHR, s)"

text \<open>The call of \<open>vop_gettype\<close> on the node checks it; the table of a device node is \<open>dev_node_ops\<close>.\<close>

definition dev_fstat :: "nat \<Rightarrow> 'a devices_scheme \<Rightarrow> (int \<times> stat \<times> 'a devices_scheme) option" where
  "dev_fstat n s = do {
     let st = \<lparr>st_mode = 0, st_nlinks = 0, st_blocks = 0, st_size = 0\<rparr>;
     f \<leftarrow> vop_op n (Some dev_gettype) s;
     (ret, ty, s) \<leftarrow> f n s;
     let st = st\<lparr>st_mode := ty\<rparr>;
     (if ret \<noteq> 0 then Some (ret, st, s)
      else
        let st = st\<lparr>st_nlinks := 1, st_blocks := dv_blocks (device_of s n)\<rparr>;
            st = st\<lparr>st_size := st_blocks st * dv_blocksize (device_of s n)\<rparr>
        in Some (0, st, s))
   }"

text \<open>\<open>pos % dev->d_blocksize\<close> is computed on unsigned 64-bit values.\<close>

definition dev_tryseek :: "nat \<Rightarrow> int \<Rightarrow> 'a devices_scheme \<Rightarrow> (int \<times> 'a devices_scheme) option" where
  "dev_tryseek n off s =
     (let blocks = int (dv_blocks (device_of s n)); blocksize = int (dv_blocksize (device_of s n)) in
      if blocks > 0 \<and> (off mod 2 ^ 64) mod blocksize = 0 \<and> off \<ge> 0 \<and> off < blocks * blocksize
      then Some (0, s) else Some (- E_INVAL, s))"

definition dev_lookup :: "nat \<Rightarrow> string \<Rightarrow> 'a devices_scheme \<Rightarrow> (int \<times> nat option \<times> 'a devices_scheme) option" where
  "dev_lookup n path s = (if path \<noteq> [] then Some (- E_NOENT, None, s) else Some (0, Some n, inode_ref_inc n s))"

definition dev_node_ops :: "'a devices_scheme inode_ops" where
  "dev_node_ops =
    \<lparr>op_open = Some dev_open, op_close = Some dev_close, op_read = Some dev_read, op_write = Some dev_write,
     op_fstat = Some dev_fstat, op_fsync = None, op_namefile = None, op_getdirentry = None, op_reclaim = None,
     op_gettype = Some dev_gettype, op_tryseek = Some dev_tryseek, op_truncate = None, op_create = None,
     op_lookup = Some dev_lookup\<rparr>"

definition dev_create_inode :: "nat option \<Rightarrow> 'a devices_scheme \<Rightarrow> nat option \<times> 'a devices_scheme" where
  "dev_create_inode kp s =
     (case alloc_inode kp inode_type_device_info s of
        (None, s) \<Rightarrow> (None, s)
      | (Some n, s) \<Rightarrow> (Some n, inode_init n None s))"

definition set_device :: "nat \<Rightarrow> device_struct \<Rightarrow> 'a devices_scheme \<Rightarrow> 'a devices_scheme" where
  "set_device n d s = s\<lparr>device_of := (device_of s)(n := d)\<rparr>"

definition stdin_device_init :: "nat \<Rightarrow> 'a devices_scheme \<Rightarrow> 'a devices_scheme" where
  "stdin_device_init n s =
     set_device n \<lparr>dv_blocks = 0, dv_blocksize = 1, dv_ops = Dev_stdin\<rparr> s
       \<lparr>keyboard := (keyboard s)\<lparr>p_rpos := 0, p_wpos := 0\<rparr>\<rparr>"

definition stdout_device_init :: "nat \<Rightarrow> 'a devices_scheme \<Rightarrow> 'a devices_scheme" where
  "stdout_device_init n s = set_device n \<lparr>dv_blocks = 0, dv_blocksize = 1, dv_ops = Dev_stdout\<rparr> s"

definition disk0_node_init :: "nat \<Rightarrow> byte list option \<Rightarrow> 'a devices_scheme \<Rightarrow> 'a devices_scheme option" where
  "disk0_node_init n buffer s = do {
     d \<leftarrow> disk0_device_init buffer (disk s);
     Some (set_device n \<lparr>dv_blocks = d_blocks d, dv_blocksize = d_blocksize d, dv_ops = Dev_disk0\<rparr> s\<lparr>disk := d_state d\<rparr>)
   }"

text \<open>Each device gets memory for its inode (\<open>kn\<close>), for its name and for its entry of the device table
  (\<open>kv\<close>); a failure stops the machine.\<close>

definition dev_init_stdin :: "nat option \<Rightarrow> bool \<Rightarrow> nat option \<Rightarrow> 'a devices_scheme \<Rightarrow> 'a devices_scheme option" where
  "dev_init_stdin kn name_ok kv s = do {
     let (r, s) = dev_create_inode kn s;
     n \<leftarrow> r;
     (ret, s) \<leftarrow> vfs_add_dev name_ok kv ''stdin'' n False (stdin_device_init n s);
     kassert (ret = 0);
     Some s
   }"

definition dev_init_stdout :: "nat option \<Rightarrow> bool \<Rightarrow> nat option \<Rightarrow> 'a devices_scheme \<Rightarrow> 'a devices_scheme option" where
  "dev_init_stdout kn name_ok kv s = do {
     let (r, s) = dev_create_inode kn s;
     n \<leftarrow> r;
     (ret, s) \<leftarrow> vfs_add_dev name_ok kv ''stdout'' n False (stdout_device_init n s);
     kassert (ret = 0);
     Some s
   }"

definition dev_init_disk0 ::
  "nat option \<Rightarrow> byte list option \<Rightarrow> bool \<Rightarrow> nat option \<Rightarrow> 'a devices_scheme \<Rightarrow> 'a devices_scheme option" where
  "dev_init_disk0 kn buffer name_ok kv s = do {
     let (r, s) = dev_create_inode kn s;
     n \<leftarrow> r;
     s \<leftarrow> disk0_node_init n buffer s;
     (ret, s) \<leftarrow> vfs_add_dev name_ok kv ''disk0'' n True s;
     kassert (ret = 0);
     Some s
   }"

definition dev_init ::
  "nat option \<times> bool \<times> nat option \<Rightarrow> nat option \<times> bool \<times> nat option \<Rightarrow>
   nat option \<times> byte list option \<times> bool \<times> nat option \<Rightarrow> 'a devices_scheme \<Rightarrow> 'a devices_scheme option" where
  "dev_init a b c s =
     (let (an, aok, av) = a; (bn, bok, bv) = b; (cn, buf, cok, cv) = c in
      do {
        s \<leftarrow> dev_init_stdin an aok av s;
        s \<leftarrow> dev_init_stdout bn bok bv s;
        dev_init_disk0 cn buf cok cv s
      })"

section \<open>Devices keep the contract of inodes\<close>

lemma device_updates [simp]:
  "filesps (s\<lparr>keyboard := r\<rparr>) = filesps s" "inodes (s\<lparr>keyboard := r\<rparr>) = inodes s"
  "filesps (s\<lparr>console := c\<rparr>) = filesps s" "inodes (s\<lparr>console := c\<rparr>) = inodes s"
  "filesps (s\<lparr>disk := d\<rparr>) = filesps s" "inodes (s\<lparr>disk := d\<rparr>) = inodes s"
  by simp_all

lemma dev_io_grants: "dev_dop_io n iob wr s = Some (ret, iob', s') \<Longrightarrow> grants None s s'"
  by (auto simp: dev_dop_io_def stdin_io_def stdout_io_def grants_def counts_def bind_eq_Some_conv Let_def
      split: dev_name.splits if_splits prod.splits)

text \<open>The kernel before a file system is mounted: no function of a \<open>struct fs\<close> is reached.\<close>

definition no_fs_ops :: "'s fs_ops" where
  "no_fs_ops = \<lparr>fs_sync = \<lambda>_ _. None, fs_get_root = \<lambda>_ _. None, fs_unmount = \<lambda>_ _. None, fs_cleanup = \<lambda>_ _. None\<rparr>"

interpretation dev_nodes: vnode_ops "\<lambda>_. dev_node_ops" no_fs_ops
  by unfold_locales
     (auto simp: dev_node_ops_def no_fs_ops_def dev_open_def dev_close_def dev_read_def dev_write_def dev_fstat_def
       dev_gettype_def dev_tryseek_def dev_lookup_def Let_def vop_op_def bind_eq_Some_conv split: if_splits dest: dev_io_grants)


section \<open>Properties\<close>

text \<open>
  C9: open counts. In every state that the file operations of any number of processes reach (opening,
  closing, reading, writing, seeking, duplicating, changing the directory, \<open>fork\<close> with and without
  \<open>CLONE_FS\<close>, the last exit of a process, error paths included), the open count of every inode is the
  number of descriptors that are open on it, its reference count is at least that number plus the
  number of working directories in it, and every descriptor is closed or open with count one. The
  functions of the inodes are any that keep the contract \<open>vnode_ops\<close>.
\<close>

theorem files_reach_inv:
  assumes "vnode_ops ops fops" and "files_inv x F s" and "(files_step ops fops)\<^sup>*\<^sup>* (F, s) (F', t)"
  shows "finite F' \<and> (\<forall>fp\<in>F'. table_ok (filesps t fp)) \<and>
     (\<forall>n. iopen_count (inodes t n) = (\<Sum>fp\<in>F'. opens n (filesps t fp))) \<and>
     (\<forall>n. ref_count (inodes t n) \<ge> (\<Sum>fp\<in>F'. opens n (filesps t fp) + ind (pwd (filesps t fp)) n) + x n)"
  using vnode_ops.files_reachable_inv [OF assms(1,3,2)] by (simp add: files_inv_def)

definition example_file :: file_struct where
  "example_file = \<lparr>status = FD_INIT, readable = False, writable = False, fd = 0, pos = 0, node = None, open_count = 0\<rparr>"

definition example_devices :: devices where
  "example_devices =
    \<lparr>inodes = (\<lambda>n. \<lparr>in_type = inode_type_device_info, ref_count = (if n = 1 then 1 else 0), iopen_count = 0, in_fs = None\<rparr>),
     filesps = (\<lambda>_. \<lparr>pwd = None, fd_array = [], files_count = 0, files_sem = 1\<rparr>),
     vdevs = (\<lambda>_. \<lparr>devname = ''stdout'', devnode = Some 1, dev_fs = None, mountable = False\<rparr>),
     vdev_links = (let other = (\<lambda>n. if n = VdevList then VdevLink 0 else VdevList) in \<lparr>next_of = other, prev_of = other\<rparr>),
     vdev_list_sem = 1, bootfs_node = None, bootfs_sem = 1, vfs_freed = [],
     device_of = (\<lambda>_. \<lparr>dv_blocks = 0, dv_blocksize = 1, dv_ops = Dev_stdout\<rparr>),
     keyboard = \<lparr>stdin_buffer = replicate STDIN_BUFSIZE 0, p_rpos = 0, p_wpos = 0\<rparr>,
     console = [], disk = example_disk\<rparr>"


definition example_files :: devices where
  "example_files = files_count_inc 0 (snd (files_create (Some 0) example_devices))"

lemma example_tables: "filesps example_files 0 =
    \<lparr>pwd = None, fd_array = fd_array_init [], files_count = 1, files_sem = 1\<rparr>"
  by (simp add: example_files_def example_devices_def files_create_def files_count_inc_def)

lemma example_slot: "find_none (fd_array_init fs) 0 = Some 0"
  by (simp add: fd_array_init_def FILES_STRUCT_NENTRY_def FILES_STRUCT_BUFSIZE_def upt_conv_Cons)

lemma example_first: "first_mark ''stdout:'' 0 = Some (6, CHR '':'')"
  by (simp add: eval_nat_numeral)

lemma example_root:
  assumes "vdevs s = vdevs example_devices" "vdev_links s = vdev_links example_devices" "vdev_list_sem s = 1"
  shows "vfs_get_root no_fs_ops ''stdout'' (s :: devices) = Some (0, Some 1, (inode_ref_inc 1 s))"
proof -
  have "find_vdev (\<lambda>d. ''stdout'' = devname d) VdevList (s\<lparr>vdev_list_sem := 0\<rparr>) = Some (Some 0)"
    using assms by (subst find_vdev.simps) (simp add: example_devices_def list_next_def Let_def)
  then show ?thesis using assms
    by (simp add: vfs_get_root_def lock_vdev_list_def sem_down_def example_devices_def list_empty_def list_next_def
      Let_def unlock_vdev_list_def sem_up_def inode_ref_inc_def upd_inode_def)
qed

lemma example_open:
  "\<exists>t. file_open (\<lambda>_. dev_node_ops) no_fs_ops 0 ''stdout:'' O_WRONLY example_files = Some (0, t)"
proof -
  note flags = O_ACCMODE_def O_WRONLY_def O_RDWR_def O_RDONLY_def O_TRUNC_def O_EXCL_def O_CREAT_def O_APPEND_def
  have N: "0 < FILES_STRUCT_NENTRY" "length (fd_array_init fs) = FILES_STRUCT_NENTRY" for fs
    by (simp_all add: FILES_STRUCT_NENTRY_def FILES_STRUCT_BUFSIZE_def fd_array_init_def)
  have alloc: "fd_array_alloc 0 NO_FD example_files =
      Some (0, Some 0, upd_file 0 0 (\<lambda>f. f\<lparr>status := FD_INIT, node := None\<rparr>) example_files)"
    by (simp add: fd_array_alloc_def get_fd_array_def example_tables example_slot N)
  let ?s = "upd_file 0 0 (\<lambda>f. f\<lparr>status := FD_INIT, node := None\<rparr>) example_files"
  have "vfs_get_root no_fs_ops ''stdout'' ?s = Some (0, Some 1, inode_ref_inc 1 ?s)"
    by (rule example_root) (simp_all add: example_files_def files_create_def files_count_inc_def upd_files_def
      upd_file_def example_devices_def)
  then have look: "open_inode (\<lambda>_. dev_node_ops) no_fs_ops 0 ''stdout:'' False False ?s = Some (0, Some 1, inode_ref_inc 1 ?s)"
    by (simp add: open_inode_def vfs_lookup_def get_device_def example_first Let_def skip_slashes_def)
  have node1: "inodes example_files 1 = \<lparr>in_type = inode_type_device_info, ref_count = 1, iopen_count = 0, in_fs = None\<rparr>"
      "device_of example_files 1 = \<lparr>dv_blocks = 0, dv_blocksize = 1, dv_ops = Dev_stdout\<rparr>"
    by (simp_all add: example_files_def files_create_def files_count_inc_def upd_files_def example_devices_def)
  have open_ok: "vop_open (\<lambda>_. dev_node_ops) 1 O_WRONLY (inode_ref_inc 1 ?s) = Some (0, inode_ref_inc 1 ?s)"
    using node1 by (simp add: vop_open_def vop_op_def dev_node_ops_def inode_check_def inode_ref_inc_def upd_inode_def
      MAX_INODE_COUNT_def dev_open_def dev_dop_open_def stdout_open_def flags upd_file_def upd_files_def)
  let ?t = "inode_open_inc 1 (inode_ref_inc 1 ?s)"
  have "vfs_open (\<lambda>_. dev_node_ops) no_fs_ops 0 ''stdout:'' O_WRONLY ?s = Some (0, Some 1, ?t)"
    using look open_ok by (simp add: vfs_open_def flags Let_def)
  moreover have "filesps ?t 0 = (filesps example_files 0)\<lparr>fd_array :=
      (fd_array_init [])[0 := (fd_array_init [] ! 0)\<lparr>status := FD_INIT, node := None\<rparr>]\<rparr>"
    by (simp add: inode_open_inc_def inode_ref_inc_def example_tables file_at_def)
  ultimately show ?thesis
    by (simp add: file_open_def alloc open_position_def fd_array_open_def bind_kassert Let_def flags file_at_def N example_tables
      fopen_count_inc_def)
qed

theorem files_reach_inv_witness:
  "\<exists>t. (files_step (\<lambda>_. dev_node_ops) no_fs_ops)\<^sup>*\<^sup>* ({}, example_devices) ({0}, t) \<and> fd (file_at 0 0 t) = 0 \<and>
     iopen_count (inodes t 1) = (\<Sum>fp\<in>{0}. opens 1 (filesps t fp))"
proof -
  obtain t where t: "file_open (\<lambda>_. dev_node_ops) no_fs_ops 0 ''stdout:'' O_WRONLY example_files = Some (0, t)"
    using example_open by blast
  obtain r u where u: "files_create (Some 0) example_devices = (r, u)" by (cases "files_create (Some 0) example_devices")
  have "files_step (\<lambda>_. dev_node_ops) no_fs_ops ({}, example_devices) (insert 0 {}, files_count_inc 0 u)"
    by (rule new_files [OF _ u]) simp
  moreover have "files_step (\<lambda>_. dev_node_ops) no_fs_ops ({0}, example_files) ({0}, t)" by (rule open_file [OF _ t]) simp
  ultimately have reach: "(files_step (\<lambda>_. dev_node_ops) no_fs_ops)\<^sup>*\<^sup>* ({}, example_devices) ({0}, t)"
    by (auto simp: example_files_def u)
  have start: "files_inv (\<lambda>_. 0) {} example_devices" by (simp add: files_inv_def example_devices_def)
  have inv: "finite {0 :: nat} \<and> (\<forall>fp\<in>{0}. table_ok (filesps t fp)) \<and>
     (\<forall>n. iopen_count (inodes t n) = (\<Sum>fp\<in>{0}. opens n (filesps t fp))) \<and>
     (\<forall>n. ref_count (inodes t n) \<ge> (\<Sum>fp\<in>{0}. opens n (filesps t fp) + ind (pwd (filesps t fp)) n) + 0)"
    by (rule files_reach_inv [OF dev_nodes.vnode_ops_axioms start reach])
  have "fd_ok 0 (file_at 0 0 t)" using inv table_okD(2) [of t 0 0]
    by (simp add: FILES_STRUCT_NENTRY_def FILES_STRUCT_BUFSIZE_def)
  then show ?thesis using reach inv by (auto simp: fd_ok_def)
qed

end
