(* ===== verification/CString.thy ===== *)
theory CString
imports Prelude
begin

text \<open>
  The string and memory functions of \<open>libs/string.c\<close>, on a byte memory. Addresses are natural
  numbers (no object wraps around the end of the address space) and \<open>char\<close> is an unsigned
  byte, as in the RISC-V ABI. Loops that run to a terminating zero byte need not end
  (\<open>None\<close>); loops with a counter are structural recursions on it. The \<open>__HAVE_ARCH_\<close> variants
  are not defined by this port.
\<close>

type_synonym mem = "nat \<Rightarrow> 8 word"

section \<open>The operations\<close>

partial_function (option) strlen_loop :: "mem \<Rightarrow> nat \<Rightarrow> nat \<Rightarrow> nat option" where
  "strlen_loop m s cnt = (if m s \<noteq> 0 then strlen_loop m (s + 1) (cnt + 1) else Some cnt)"

definition strlen :: "mem \<Rightarrow> nat \<Rightarrow> nat option" where
  "strlen m s = strlen_loop m s 0"

text \<open>The counter of \<open>strnlen\<close> runs up to \<open>len\<close>; the last argument is \<open>len - cnt\<close>.\<close>

fun strnlen_loop :: "mem \<Rightarrow> nat \<Rightarrow> nat \<Rightarrow> nat \<Rightarrow> nat" where
  "strnlen_loop m s cnt 0 = cnt"
| "strnlen_loop m s cnt (Suc k) = (if m s \<noteq> 0 then strnlen_loop m (s + 1) (cnt + 1) k else cnt)"

definition strnlen :: "mem \<Rightarrow> nat \<Rightarrow> nat \<Rightarrow> nat" where
  "strnlen m s len = strnlen_loop m s 0 len"

partial_function (option) strcpy_loop :: "nat \<Rightarrow> nat \<Rightarrow> mem \<Rightarrow> mem option" where
  "strcpy_loop p src m =
     (let m' = m(p := m src) in if m src \<noteq> 0 then strcpy_loop (p + 1) (src + 1) m' else Some m')"

definition strcpy :: "nat \<Rightarrow> nat \<Rightarrow> mem \<Rightarrow> mem option" where
  "strcpy dst src m = strcpy_loop dst src m"

fun strncpy :: "nat \<Rightarrow> nat \<Rightarrow> nat \<Rightarrow> mem \<Rightarrow> mem" where
  "strncpy p src 0 m = m"
| "strncpy p src (Suc len) m =
     (let m' = m(p := m src) in strncpy (p + 1) (if m src \<noteq> 0 then src + 1 else src) len m')"

definition strcat :: "nat \<Rightarrow> nat \<Rightarrow> mem \<Rightarrow> mem option" where
  "strcat dst src m = Option.bind (strlen m dst) (\<lambda>n. strcpy (dst + n) src m)"

partial_function (option) strcmp :: "mem \<Rightarrow> nat \<Rightarrow> nat \<Rightarrow> int option" where
  "strcmp m s1 s2 =
     (if m s1 \<noteq> 0 \<and> m s1 = m s2 then strcmp m (s1 + 1) (s2 + 1)
      else Some (uint (m s1) - uint (m s2)))"

fun strncmp :: "mem \<Rightarrow> nat \<Rightarrow> nat \<Rightarrow> nat \<Rightarrow> int" where
  "strncmp m s1 s2 0 = 0"
| "strncmp m s1 s2 (Suc n) =
     (if m s1 \<noteq> 0 \<and> m s1 = m s2 then strncmp m (s1 + 1) (s2 + 1) n
      else uint (m s1) - uint (m s2))"

partial_function (option) strchr :: "mem \<Rightarrow> nat \<Rightarrow> 8 word \<Rightarrow> nat option option" where
  "strchr m s c =
     (if m s \<noteq> 0 then (if m s = c then Some (Some s) else strchr m (s + 1) c) else Some None)"

partial_function (option) strfind :: "mem \<Rightarrow> nat \<Rightarrow> 8 word \<Rightarrow> nat option" where
  "strfind m s c =
     (if m s \<noteq> 0 then (if m s = c then Some s else strfind m (s + 1) c) else Some s)"

fun memset :: "nat \<Rightarrow> 8 word \<Rightarrow> nat \<Rightarrow> mem \<Rightarrow> mem" where
  "memset p c 0 m = m"
| "memset p c (Suc n) m = memset (p + 1) c n (m(p := c))"

fun memcpy :: "nat \<Rightarrow> nat \<Rightarrow> nat \<Rightarrow> mem \<Rightarrow> mem" where
  "memcpy d s 0 m = m"
| "memcpy d s (Suc n) m = memcpy (d + 1) (s + 1) n (m(d := m s))"

text \<open>\<open>while (n -- > 0) *-- d = *-- s;\<close>\<close>

fun memmove_back :: "nat \<Rightarrow> nat \<Rightarrow> nat \<Rightarrow> mem \<Rightarrow> mem" where
  "memmove_back d s 0 m = m"
| "memmove_back d s (Suc n) m = memmove_back (d - 1) (s - 1) n (m(d - 1 := m (s - 1)))"

definition memmove :: "nat \<Rightarrow> nat \<Rightarrow> nat \<Rightarrow> mem \<Rightarrow> mem" where
  "memmove d s n m =
     (if s < d \<and> s + n > d then memmove_back (d + n) (s + n) n m else memcpy d s n m)"

fun memcmp :: "mem \<Rightarrow> nat \<Rightarrow> nat \<Rightarrow> nat \<Rightarrow> int" where
  "memcmp m s1 s2 0 = 0"
| "memcmp m s1 s2 (Suc n) =
     (if m s1 \<noteq> m s2 then uint (m s1) - uint (m s2) else memcmp m (s1 + 1) (s2 + 1) n)"

section \<open>Characters and number parsing\<close>

definition chr :: "char \<Rightarrow> 8 word" where
  "chr c = of_nat (of_char c)"

definition bytes_of_string :: "string \<Rightarrow> 8 word list" where
  "bytes_of_string cs = map chr cs"

text \<open>The digit value of a character in \<open>strtol\<close>; \<open>None\<close> for a character that ends the number.\<close>

definition digit_val :: "8 word \<Rightarrow> int option" where
  "digit_val c =
     (if 48 \<le> c \<and> c \<le> 57 then Some (uint c - 48)
      else if 97 \<le> c \<and> c \<le> 122 then Some (uint c - 97 + 10)
      else if 65 \<le> c \<and> c \<le> 90 then Some (uint c - 65 + 10)
      else None)"

partial_function (option) skip_blanks :: "mem \<Rightarrow> nat \<Rightarrow> nat option" where
  "skip_blanks m s = (if m s = 32 \<or> m s = 9 then skip_blanks m (s + 1) else Some s)"

partial_function (option) strtol_digits :: "mem \<Rightarrow> int \<Rightarrow> nat \<Rightarrow> 64 word \<Rightarrow> (nat \<times> 64 word) option" where
  "strtol_digits m base s val =
     (case digit_val (m s) of
        None \<Rightarrow> Some (s, val)
      | Some dig \<Rightarrow>
          if dig \<ge> base then Some (s, val)
          else strtol_digits m base (s + 1) (val * of_int base + of_int dig))"

text \<open>The result is a \<open>long\<close>: 64 bits, read as signed, without any check for an overflow.\<close>

definition strtol :: "mem \<Rightarrow> nat \<Rightarrow> int \<Rightarrow> (64 word \<times> nat) option" where
  "strtol m s0 base0 =
     do {
       s1 \<leftarrow> skip_blanks m s0;
       let (s2, neg) = (if m s1 = 43 then (s1 + 1, False)
                        else if m s1 = 45 then (s1 + 1, True) else (s1, False));
       let (s3, base) =
         (if (base0 = 0 \<or> base0 = 16) \<and> (m s2 = 48 \<and> m (s2 + 1) = 120) then (s2 + 2, 16)
          else if base0 = 0 \<and> m s2 = 48 then (s2 + 1, 8)
          else if base0 = 0 then (s2, 10) else (s2, base0));
       (s4, val) \<leftarrow> strtol_digits m base s3 0;
       Some (if neg then - val else val, s4)
     }"

section \<open>Strings in memory\<close>

definition bytes_at :: "mem \<Rightarrow> nat \<Rightarrow> 8 word list \<Rightarrow> bool" where
  "bytes_at m a xs \<longleftrightarrow> (\<forall>i < length xs. m (a + i) = xs ! i)"

definition cstr :: "mem \<Rightarrow> nat \<Rightarrow> 8 word list \<Rightarrow> bool" where
  "cstr m a xs \<longleftrightarrow> bytes_at m a (xs @ [0]) \<and> 0 \<notin> set xs"

lemma bytes_at_simps [simp]:
  "bytes_at m a []" "bytes_at m a (x # xs) \<longleftrightarrow> m a = x \<and> bytes_at m (Suc a) xs"
  by (auto simp: bytes_at_def nth_Cons split: nat.splits)

lemma cstr_simps [simp]:
  "cstr m a [] \<longleftrightarrow> m a = 0" "cstr m a (x # xs) \<longleftrightarrow> m a = x \<and> x \<noteq> 0 \<and> cstr m (Suc a) xs"
  by (auto simp: cstr_def)

lemma bytes_at_cong:
  assumes "\<And>x. a \<le> x \<Longrightarrow> x < a + length xs \<Longrightarrow> m' x = m x"
  shows "bytes_at m' a xs = bytes_at m a xs"
  using assms by (simp add: bytes_at_def)

lemma cstr_cong:
  assumes "\<And>x. a \<le> x \<Longrightarrow> x \<le> a + length xs \<Longrightarrow> m' x = m x"
  shows "cstr m' a xs = cstr m a xs"
  unfolding cstr_def using assms by (subst bytes_at_cong) auto

lemma bytes_at_append: "bytes_at m a (xs @ ys) \<longleftrightarrow> bytes_at m a xs \<and> bytes_at m (a + length xs) ys"
  by (induction xs arbitrary: a) auto

lemma strlen_loop_cstr: "cstr m s xs \<Longrightarrow> strlen_loop m s cnt = Some (cnt + length xs)"
proof (induction xs arbitrary: s cnt)
  case (Cons x xs)
  then show ?case by (subst strlen_loop.simps) simp
qed (subst strlen_loop.simps, simp)

lemma strlen_cstr: "cstr m s xs \<Longrightarrow> strlen m s = Some (length xs)"
  by (simp add: strlen_def strlen_loop_cstr)

lemma strnlen_loop_cstr: "cstr m s xs \<Longrightarrow> strnlen_loop m s cnt k = cnt + min k (length xs)"
proof (induction xs arbitrary: s cnt k)
  case Nil
  then show ?case by (cases k) auto
next
  case (Cons x xs)
  then show ?case by (cases k) auto
qed

lemma memcpy_other: "x < d \<or> d + n \<le> x \<Longrightarrow> memcpy d s n m x = m x"
  by (induction d s n m rule: memcpy.induct) auto

lemma memcpy_bytes:
  assumes "d \<le> s \<or> s + n \<le> d"
  shows "i < n \<Longrightarrow> memcpy d s n m (d + i) = m (s + i)"
  using assms
proof (induction d s n m arbitrary: i rule: memcpy.induct)
  case (2 d s n m)
  show ?case
  proof (cases i)
    case 0
    then show ?thesis using memcpy_other [of d "d + 1" n "s + 1"] by simp
  next
    case (Suc j)
    then have "memcpy (d + 1) (s + 1) n (m(d := m s)) (d + 1 + j) = (m(d := m s)) (s + 1 + j)"
      using "2.prems" by (intro "2.IH") auto
    moreover have "s + 1 + j \<noteq> d" using "2.prems" Suc by auto
    ultimately show ?thesis using Suc by simp
  qed
qed simp

lemma memmove_back_other: "n \<le> d \<Longrightarrow> x < d - n \<or> d \<le> x \<Longrightarrow> memmove_back d s n m x = m x"
proof (induction d s n m rule: memmove_back.induct)
  case (2 d s n m)
  have "x \<noteq> d - 1" "n \<le> d - 1" "x < d - 1 - n \<or> d - 1 \<le> x" using "2.prems" by auto
  then have "memmove_back (d - 1) (s - 1) n (m(d - 1 := m (s - 1))) x = (m(d - 1 := m (s - 1))) x"
    by (intro "2.IH")
  with \<open>x \<noteq> d - 1\<close> show ?case by (simp only: memmove_back.simps fun_upd_other not_False_eq_True)
qed simp

lemma memmove_back_bytes:
  assumes "s < d" "n \<le> s"
  shows "i < n \<Longrightarrow> memmove_back d s n m (d - n + i) = m (s - n + i)"
  using assms
proof (induction d s n m arbitrary: i rule: memmove_back.induct)
  case (2 d s n m)
  show ?case
  proof (cases "i = n")
    case True
    then have "memmove_back (d - 1) (s - 1) n (m(d - 1 := m (s - 1))) (d - 1) = m (s - 1)"
      using memmove_back_other [of n "d - 1" "d - 1"] "2.prems" by simp
    then show ?thesis using True "2.prems" by simp
  next
    case False
    then have "memmove_back (d - 1) (s - 1) n (m(d - 1 := m (s - 1))) (d - 1 - n + i) =
        (m(d - 1 := m (s - 1))) (s - 1 - n + i)"
      using "2.prems" by (intro "2.IH") auto
    moreover have "s - 1 - n + i \<noteq> d - 1" using False "2.prems" by auto
    ultimately show ?thesis using "2.prems" by simp
  qed
qed simp

lemma memmove_spec:
  shows "i < n \<Longrightarrow> memmove d s n m (d + i) = m (s + i)"
    and "x < d \<or> d + n \<le> x \<Longrightarrow> memmove d s n m x = m x"
proof -
  assume i: "i < n"
  show "memmove d s n m (d + i) = m (s + i)"
  proof (cases "s < d \<and> s + n > d")
    case True
    then show ?thesis using memmove_back_bytes [of "s + n" "d + n" n i m] i by (simp add: memmove_def)
  next
    case False
    then have "d \<le> s \<or> s + n \<le> d" by auto
    then have "memcpy d s n m (d + i) = m (s + i)" using i by (intro memcpy_bytes)
    with False show ?thesis unfolding memmove_def by (simp only: if_False)
  qed
next
  assume "x < d \<or> d + n \<le> x"
  then show "memmove d s n m x = m x"
    using memmove_back_other [of n "d + n" x] memcpy_other by (auto simp: memmove_def)
qed

lemma strcpy_loop_spec:
  assumes "cstr m s xs" "p + length xs < s \<or> s + length xs < p"
  shows "\<exists>m'. strcpy_loop p s m = Some m' \<and> cstr m' p xs \<and>
           (\<forall>x. x < p \<or> p + length xs < x \<longrightarrow> m' x = m x)"
  using assms
proof (induction xs arbitrary: p s m)
  case Nil
  then show ?case by (subst strcpy_loop.simps) simp
next
  case (Cons x xs)
  let ?m = "m(p := x)"
  have "cstr ?m (s + 1) xs"
    using Cons.prems by (subst cstr_cong [where m = m]) auto
  moreover have "p + 1 + length xs < s + 1 \<or> s + 1 + length xs < p + 1" using Cons.prems(2) by auto
  ultimately obtain m' where m': "strcpy_loop (p + 1) (s + 1) ?m = Some m'" "cstr m' (p + 1) xs"
    "\<forall>y. y < p + 1 \<or> p + 1 + length xs < y \<longrightarrow> m' y = ?m y"
    using Cons.IH by blast
  have "strcpy_loop p s m = Some m'"
    using Cons.prems(1) m'(1) by (subst strcpy_loop.simps) simp
  moreover have "m' p = x" using m'(3) by simp
  ultimately show ?case using m'(2,3) Cons.prems(1) by auto
qed

text \<open>The order of byte strings, byte by byte as unsigned values.\<close>

fun bytes_less :: "8 word list \<Rightarrow> 8 word list \<Rightarrow> bool" where
  "bytes_less [] ys \<longleftrightarrow> ys \<noteq> []"
| "bytes_less (x # xs) [] \<longleftrightarrow> False"
| "bytes_less (x # xs) (y # ys) \<longleftrightarrow> x < y \<or> x = y \<and> bytes_less xs ys"

lemma strcmp_spec:
  assumes "cstr m a xs" "cstr m b ys"
  shows "\<exists>r. strcmp m a b = Some r \<and> (r = 0 \<longleftrightarrow> xs = ys) \<and> (r < 0 \<longleftrightarrow> bytes_less xs ys)"
  using assms
proof (induction xs arbitrary: a b ys)
  case Nil
  then show ?case
    by (cases ys; subst strcmp.simps) (auto simp: word_neq_0_conv word_less_def)
next
  case (Cons x xs)
  show ?case
  proof (cases ys)
    case Nil
    then show ?thesis using Cons.prems by (subst strcmp.simps) (auto simp: unsigned_eq_0_iff)
  next
    case ys: (Cons y ys')
    show ?thesis
    proof (cases "x = y")
      case True
      then show ?thesis using Cons ys by (subst strcmp.simps) simp
    next
      case False
      then show ?thesis
        using Cons.prems ys by (subst strcmp.simps) (auto simp: word_less_def word_uint_eq_iff)
    qed
  qed
qed

end
