(* ===== verification/VMM.thy ===== *)
theory VMM
imports LinkedList ErrorCodes CString
begin

text \<open>
  Virtual memory areas of \<open>kern/mm/vmm.c\<close>: \<open>find_vma\<close> with its cache, \<open>insert_vma_struct\<close>,
  \<open>mm_map\<close>, and the checks and copies of user memory. Areas and address spaces are stores
  indexed by pointers; the list of an address space \<open>mm\<close> has the head \<open>VmaHead mm\<close>. Addresses
  are 64-bit words, so sums wrap as in the code.

  \<open>vma_create\<close> and \<open>mm_create\<close> take the pointer that their call of \<open>kmalloc\<close> returns as an
  argument (\<open>None\<close> for \<open>NULL\<close>).
\<close>

record vma_struct =
  vm_mm :: nat
  vm_start :: "64 word"
  vm_end :: "64 word"
  vm_flags :: "32 word"

record mm_struct =
  mmap_cache :: "nat option"
  mm_pgdir :: "64 word"
  map_count :: int
  mm_count :: int
  locked_by :: int

datatype vnode = VmaHead nat | VmaLink nat

fun le2vma :: "vnode \<Rightarrow> nat option" where
  "le2vma (VmaLink v) = Some v"
| "le2vma (VmaHead m) = None"

record vm =
  vmas :: "nat \<Rightarrow> vma_struct"
  vma_links :: "vnode links"
  mms :: "nat \<Rightarrow> mm_struct"

definition VM_READ :: "32 word" where "VM_READ = 1"
definition VM_WRITE :: "32 word" where "VM_WRITE = 2"
definition VM_EXEC :: "32 word" where "VM_EXEC = 4"
definition VM_STACK :: "32 word" where "VM_STACK = 8"

definition PGSIZE :: "64 word" where "PGSIZE = 4096"

definition ROUNDDOWN :: "64 word \<Rightarrow> 64 word \<Rightarrow> 64 word" where
  "ROUNDDOWN a n = a - a mod n"

definition ROUNDUP :: "64 word \<Rightarrow> 64 word \<Rightarrow> 64 word" where
  "ROUNDUP a n = ROUNDDOWN (a + n - 1) n"

definition USERBASE :: "64 word" where "USERBASE = 0x200000"
definition USERTOP :: "64 word" where "USERTOP = 0x80000000"
definition KERNBASE :: "64 word" where "KERNBASE = 0xFFFFFFFFC0200000"
definition KERNTOP :: "64 word" where "KERNTOP = KERNBASE + 0x7E00000"

definition USER_ACCESS :: "64 word \<Rightarrow> 64 word \<Rightarrow> bool" where
  "USER_ACCESS s e \<longleftrightarrow> USERBASE \<le> s \<and> s < e \<and> e \<le> USERTOP"

definition KERN_ACCESS :: "64 word \<Rightarrow> 64 word \<Rightarrow> bool" where
  "KERN_ACCESS s e \<longleftrightarrow> KERNBASE \<le> s \<and> s < e \<and> e \<le> KERNTOP"

definition upd_vma :: "nat \<Rightarrow> (vma_struct \<Rightarrow> vma_struct) \<Rightarrow> 'a vm_scheme \<Rightarrow> 'a vm_scheme" where
  "upd_vma v f s = s\<lparr>vmas := (vmas s)(v := f (vmas s v))\<rparr>"

definition upd_mm :: "nat \<Rightarrow> (mm_struct \<Rightarrow> mm_struct) \<Rightarrow> 'a vm_scheme \<Rightarrow> 'a vm_scheme" where
  "upd_mm m f s = s\<lparr>mms := (mms s)(m := f (mms s m))\<rparr>"

definition upd_vma_links :: "(vnode links \<Rightarrow> vnode links) \<Rightarrow> 'a vm_scheme \<Rightarrow> 'a vm_scheme" where
  "upd_vma_links f s = s\<lparr>vma_links := f (vma_links s)\<rparr>"

lemma upd_vm_simps [simp]:
  "vmas (upd_vma v f s) = (vmas s)(v := f (vmas s v))" "vma_links (upd_vma v f s) = vma_links s"
  "mms (upd_vma v f s) = mms s"
  "vmas (upd_mm m g s) = vmas s" "vma_links (upd_mm m g s) = vma_links s"
  "mms (upd_mm m g s) = (mms s)(m := g (mms s m))"
  "vmas (upd_vma_links h s) = vmas s" "vma_links (upd_vma_links h s) = h (vma_links s)"
  "mms (upd_vma_links h s) = mms s"
  by (simp_all add: upd_vma_def upd_mm_def upd_vma_links_def)

section \<open>The operations\<close>

definition mm_create :: "nat option \<Rightarrow> 'a vm_scheme \<Rightarrow> nat option \<times> 'a vm_scheme" where
  "mm_create kp s =
     (case kp of
        None \<Rightarrow> (None, s)
      | Some m \<Rightarrow>
          (Some m, upd_mm m (\<lambda>d. d\<lparr>mmap_cache := None, mm_pgdir := 0, map_count := 0, mm_count := 0\<rparr>)
                     (upd_vma_links (list_init (VmaHead m)) s)))"

definition vma_create ::
  "nat option \<Rightarrow> 64 word \<Rightarrow> 64 word \<Rightarrow> 32 word \<Rightarrow> 'a vm_scheme \<Rightarrow> nat option \<times> 'a vm_scheme"
where
  "vma_create kp st en fl s =
     (case kp of
        None \<Rightarrow> (None, s)
      | Some v \<Rightarrow>
          (Some v, upd_vma v (\<lambda>d. d\<lparr>vm_start := st, vm_end := en, vm_flags := fl\<rparr>) s))"

definition vma_covers :: "'a vm_scheme \<Rightarrow> nat \<Rightarrow> 64 word \<Rightarrow> bool" where
  "vma_covers s v a \<longleftrightarrow> vm_start (vmas s v) \<le> a \<and> a < vm_end (vmas s v)"

partial_function (option) find_vma_loop ::
  "'a vm_scheme \<Rightarrow> 64 word \<Rightarrow> vnode \<Rightarrow> nat option option"
where
  "find_vma_loop s a le =
     (case le2vma le of
        None \<Rightarrow> Some None
      | Some v \<Rightarrow> if vma_covers s v a then Some (Some v)
                  else find_vma_loop s a (list_next le (vma_links s)))"

definition find_vma ::
  "nat option \<Rightarrow> 64 word \<Rightarrow> 'a vm_scheme \<Rightarrow> (nat option \<times> 'a vm_scheme) option"
where
  "find_vma mmp a s =
     (case mmp of
        None \<Rightarrow> Some (None, s)
      | Some m \<Rightarrow> do {
          r \<leftarrow> (case mmap_cache (mms s m) of
                 Some v \<Rightarrow> if vma_covers s v a then Some (Some v)
                   else find_vma_loop s a (list_next (VmaHead m) (vma_links s))
               | None \<Rightarrow> find_vma_loop s a (list_next (VmaHead m) (vma_links s)));
          Some (r, case r of None \<Rightarrow> s | Some v \<Rightarrow> upd_mm m (\<lambda>d. d\<lparr>mmap_cache := Some v\<rparr>) s)
        })"

definition check_vma_overlap :: "'a vm_scheme \<Rightarrow> nat \<Rightarrow> nat \<Rightarrow> unit option" where
  "check_vma_overlap s p n =
     do {
       kassert (vm_start (vmas s p) < vm_end (vmas s p));
       kassert (vm_end (vmas s p) \<le> vm_start (vmas s n));
       kassert (vm_start (vmas s n) < vm_end (vmas s n))
     }"

partial_function (option) insert_vma_loop ::
  "'a vm_scheme \<Rightarrow> nat \<Rightarrow> vnode \<Rightarrow> vnode \<Rightarrow> vnode option"
where
  "insert_vma_loop s v le_prev le =
     (case le2vma le of
        None \<Rightarrow> Some le_prev
      | Some u \<Rightarrow>
          if vm_start (vmas s u) > vm_start (vmas s v) then Some le_prev
          else insert_vma_loop s v le (list_next le (vma_links s)))"

definition insert_vma_struct :: "nat \<Rightarrow> nat \<Rightarrow> 'a vm_scheme \<Rightarrow> 'a vm_scheme option" where
  "insert_vma_struct m v s =
     do {
       kassert (vm_start (vmas s v) < vm_end (vmas s v));
       le_prev \<leftarrow> insert_vma_loop s v (VmaHead m) (list_next (VmaHead m) (vma_links s));
       let le_next = list_next le_prev (vma_links s);
       (case le2vma le_prev of None \<Rightarrow> Some () | Some p \<Rightarrow> check_vma_overlap s p v);
       (case le2vma le_next of None \<Rightarrow> Some () | Some n \<Rightarrow> check_vma_overlap s v n);
       let s1 = upd_vma v (\<lambda>d. d\<lparr>vm_mm := m\<rparr>) s;
       let s2 = upd_vma_links (list_add_after le_prev (VmaLink v)) s1;
       Some (upd_mm m (\<lambda>d. d\<lparr>map_count := map_count d + 1\<rparr>) s2)
     }"

text \<open>The result code and the area stored through \<open>vma_store\<close> on success.\<close>

definition mm_map ::
  "nat option \<Rightarrow> nat \<Rightarrow> 64 word \<Rightarrow> 64 word \<Rightarrow> 32 word \<Rightarrow> 'a vm_scheme \<Rightarrow>
   (int \<times> nat option \<times> 'a vm_scheme) option"
where
  "mm_map kp m addr len fl s =
     (let st = ROUNDDOWN addr PGSIZE; en = ROUNDUP (addr + len) PGSIZE in
      if \<not> USER_ACCESS st en then Some (- E_INVAL, None, s)
      else do {
        (r, s1) \<leftarrow> find_vma (Some m) st s;
        if (case r of None \<Rightarrow> False | Some v \<Rightarrow> en > vm_start (vmas s1 v))
        then Some (- E_INVAL, None, s1)
        else (case vma_create kp st en fl s1 of
            (None, s2) \<Rightarrow> Some (- E_NO_MEM, None, s2)
          | (Some v, s2) \<Rightarrow> do {
              s3 \<leftarrow> insert_vma_struct m v s2;
              Some (0, Some v, s3)
            })
      })"

partial_function (option) user_mem_loop ::
  "nat \<Rightarrow> 64 word \<Rightarrow> 64 word \<Rightarrow> bool \<Rightarrow> 'a vm_scheme \<Rightarrow> (bool \<times> 'a vm_scheme) option"
where
  "user_mem_loop m st en write s =
     (if st < en
      then Option.bind (find_vma (Some m) st s) (\<lambda>(r, s1). case r of
          None \<Rightarrow> Some (False, s1)
        | Some v \<Rightarrow>
            if st < vm_start (vmas s1 v) then Some (False, s1)
            else if and (vm_flags (vmas s1 v)) (if write then VM_WRITE else VM_READ) = 0
            then Some (False, s1)
            else if write \<and> and (vm_flags (vmas s1 v)) VM_STACK \<noteq> 0 \<and>
                st < vm_start (vmas s1 v) + PGSIZE
            then Some (False, s1)
            else user_mem_loop m (vm_end (vmas s1 v)) en write s1)
      else Some (True, s))"

definition user_mem_check ::
  "nat option \<Rightarrow> 64 word \<Rightarrow> 64 word \<Rightarrow> bool \<Rightarrow> 'a vm_scheme \<Rightarrow> (bool \<times> 'a vm_scheme) option"
where
  "user_mem_check mmp addr len write s =
     (case mmp of
        Some m \<Rightarrow>
          if \<not> USER_ACCESS addr (addr + len) then Some (False, s)
          else user_mem_loop m addr (addr + len) write s
      | None \<Rightarrow> Some (KERN_ACCESS addr (addr + len), s))"

definition copy_from_user ::
  "nat option \<Rightarrow> 64 word \<Rightarrow> 64 word \<Rightarrow> 64 word \<Rightarrow> bool \<Rightarrow> mem \<Rightarrow> 'a vm_scheme \<Rightarrow>
   (bool \<times> mem \<times> 'a vm_scheme) option"
where
  "copy_from_user mmp dst src len writable mem s =
     do {
       (ok, s1) \<leftarrow> user_mem_check mmp src len writable s;
       Some (if \<not> ok then (False, mem, s1)
             else (True, memcpy (unat dst) (unat src) (unat len) mem, s1))
     }"

definition copy_to_user ::
  "nat option \<Rightarrow> 64 word \<Rightarrow> 64 word \<Rightarrow> 64 word \<Rightarrow> mem \<Rightarrow> 'a vm_scheme \<Rightarrow>
   (bool \<times> mem \<times> 'a vm_scheme) option"
where
  "copy_to_user mmp dst src len mem s =
     do {
       (ok, s1) \<leftarrow> user_mem_check mmp dst len True s;
       Some (if \<not> ok then (False, mem, s1)
             else (True, memcpy (unat dst) (unat src) (unat len) mem, s1))
     }"

partial_function (option) copy_string_loop ::
  "nat option \<Rightarrow> 64 word \<Rightarrow> 64 word \<Rightarrow> 64 word \<Rightarrow> 64 word \<Rightarrow> mem \<Rightarrow> 'a vm_scheme \<Rightarrow>
   (bool \<times> mem \<times> 'a vm_scheme) option"
where
  "copy_string_loop mmp dst src maxn part0 mem s =
     (let part = (if part0 > maxn then maxn else part0) in
      Option.bind (user_mem_check mmp src part False s) (\<lambda>(ok, s1).
        if \<not> ok then Some (False, mem, s1)
        else let alen = strnlen mem (unat src) (unat part) in
          if alen < unat part
          then Some (True, memcpy (unat dst) (unat src) (alen + 1) mem, s1)
          else if part = maxn then Some (False, mem, s1)
          else copy_string_loop mmp (dst + part) (src + part) (maxn - part) PGSIZE
                 (memcpy (unat dst) (unat src) (unat part) mem) s1))"

definition copy_string ::
  "nat option \<Rightarrow> 64 word \<Rightarrow> 64 word \<Rightarrow> 64 word \<Rightarrow> mem \<Rightarrow> 'a vm_scheme \<Rightarrow>
   (bool \<times> mem \<times> 'a vm_scheme) option"
where
  "copy_string mmp dst src maxn mem s =
     copy_string_loop mmp dst src maxn (ROUNDDOWN (src + PGSIZE) PGSIZE - src) mem s"

section \<open>Well-formed address spaces\<close>

definition vma_ordered :: "'a vm_scheme \<Rightarrow> nat list \<Rightarrow> bool" where
  "vma_ordered s vs \<longleftrightarrow>
     (\<forall>v \<in> set vs. vm_start (vmas s v) < vm_end (vmas s v)) \<and>
     sorted_wrt (\<lambda>u v. vm_end (vmas s u) \<le> vm_start (vmas s v)) vs"

definition mm_rep :: "'a vm_scheme \<Rightarrow> nat \<Rightarrow> nat list \<Rightarrow> bool" where
  "mm_rep s m vs \<longleftrightarrow>
     dlist (vma_links s) (VmaHead m) (map VmaLink vs) \<and> vma_ordered s vs \<and>
     map_count (mms s m) = int (length vs) \<and>
     (case mmap_cache (mms s m) of None \<Rightarrow> True | Some v \<Rightarrow> v \<in> set vs)"

lemma vma_ordered_cong:
  assumes "\<And>x. vm_start (vmas s' x) = vm_start (vmas s x)"
    and "\<And>x. vm_end (vmas s' x) = vm_end (vmas s x)"
  shows "vma_ordered s' vs = vma_ordered s vs"
  by (simp add: vma_ordered_def assms)

lemma mm_repD:
  assumes "mm_rep s m vs"
  shows "dlist (vma_links s) (VmaHead m) (map VmaLink vs)" "vma_ordered s vs" "distinct vs"
    "\<And>v. mmap_cache (mms s m) = Some v \<Longrightarrow> v \<in> set vs"
  using assms dlist_distinct(1) [of "vma_links s" "VmaHead m" "map VmaLink vs"]
  by (auto simp: mm_rep_def distinct_map)

text \<open>At most one area of an address space covers an address.\<close>

lemma vma_covers_unique:
  assumes "vma_ordered s vs" "u \<in> set vs" "v \<in> set vs" "vma_covers s u a" "vma_covers s v a"
  shows "u = v"
proof (rule ccontr)
  assume uv: "u \<noteq> v"
  obtain i j where ij: "i < length vs" "vs ! i = u" "j < length vs" "vs ! j = v"
    using assms(2,3) by (metis in_set_conv_nth)
  then have "i < j \<or> j < i" using uv by (metis linorder_neqE_nat)
  then show False
  proof
    assume "i < j"
    then have "vm_end (vmas s u) \<le> vm_start (vmas s v)"
      using assms(1) ij by (auto simp: vma_ordered_def sorted_wrt_iff_nth_less)
    then show False using assms(4,5) unfolding vma_covers_def by (meson leD order.trans)
  next
    assume "j < i"
    then have "vm_end (vmas s v) \<le> vm_start (vmas s u)"
      using assms(1) ij by (auto simp: vma_ordered_def sorted_wrt_iff_nth_less)
    then show False using assms(4,5) unfolding vma_covers_def by (meson leD order.trans)
  qed
qed

lemma find_vma_loop_spec:
  assumes "dlist (vma_links s) (VmaHead m) (map VmaLink (us @ vs))"
    and "le = hd (map VmaLink vs @ [VmaHead m])"
  shows "find_vma_loop s a le = Some (find (\<lambda>v. vma_covers s v a) vs)"
  using assms
proof (induction vs arbitrary: us le)
  case Nil
  then show ?case by (simp add: find_vma_loop.simps)
next
  case (Cons v vs)
  have "list_next (VmaLink v) (vma_links s) = hd (map VmaLink vs @ [VmaHead m])"
    using dlist_next_prev(1) [of "vma_links s" "VmaHead m" "map VmaLink us" "VmaLink v" "map VmaLink vs"]
      Cons.prems(1) by (simp add: list_next_def)
  moreover have "find_vma_loop s a (hd (map VmaLink vs @ [VmaHead m])) =
      Some (find (\<lambda>v. vma_covers s v a) vs)"
    using Cons.prems(1) by (intro Cons.IH [of "us @ [v]"]) simp_all
  ultimately show ?case using Cons.prems(2) by (subst find_vma_loop.simps) simp
qed

lemma find_vma_spec:
  assumes rep: "mm_rep s m vs"
  obtains r s' where "find_vma (Some m) a s = Some (r, s')" "mm_rep s' m vs" "vmas s' = vmas s"
    "vma_links s' = vma_links s"
    "case r of None \<Rightarrow> \<forall>v \<in> set vs. \<not> vma_covers s v a | Some v \<Rightarrow> v \<in> set vs \<and> vma_covers s v a"
proof -
  note r = mm_repD [OF rep]
  have le: "list_next (VmaHead m) (vma_links s) = hd (map VmaLink vs @ [VmaHead m])"
    using dlist_next_head(1) [OF r(1)] by (simp add: list_next_def)
  have loop: "find_vma_loop s a (list_next (VmaHead m) (vma_links s)) =
      Some (find (\<lambda>v. vma_covers s v a) vs)"
    using find_vma_loop_spec [of s m "[]" vs] r(1) le by simp
  obtain x where x: "find_vma (Some m) a s = Some (x, case x of None \<Rightarrow> s
        | Some v \<Rightarrow> upd_mm m (\<lambda>d. d\<lparr>mmap_cache := Some v\<rparr>) s)"
    "case x of None \<Rightarrow> \<forall>v \<in> set vs. \<not> vma_covers s v a | Some v \<Rightarrow> v \<in> set vs \<and> vma_covers s v a"
  proof (cases "\<exists>v. mmap_cache (mms s m) = Some v \<and> vma_covers s v a")
    case True
    then obtain v where v: "mmap_cache (mms s m) = Some v" "vma_covers s v a" by blast
    then show ?thesis using that [of "Some v"] r(4) by (simp add: find_vma_def)
  next
    case False
    have "find_vma (Some m) a s = Some (find (\<lambda>v. vma_covers s v a) vs,
        case find (\<lambda>v. vma_covers s v a) vs of None \<Rightarrow> s
        | Some v \<Rightarrow> upd_mm m (\<lambda>d. d\<lparr>mmap_cache := Some v\<rparr>) s)"
      using False loop by (cases "mmap_cache (mms s m)") (auto simp: find_vma_def)
    then show ?thesis
      using that [of "find (\<lambda>v. vma_covers s v a) vs"]
      by (auto simp: find_None_iff find_Some_iff split: option.splits)
  qed
  define s' where "s' = (case x of None \<Rightarrow> s | Some v \<Rightarrow> upd_mm m (\<lambda>d. d\<lparr>mmap_cache := Some v\<rparr>) s)"
  have "mm_rep s' m vs" "vmas s' = vmas s" "vma_links s' = vma_links s"
    using rep x(2) by (auto simp: s'_def mm_rep_def vma_ordered_def split: option.splits)
  then show ?thesis using that x s'_def by blast
qed

section \<open>Inserting an area\<close>

text \<open>The areas of \<open>vs\<close> that start at or before \<open>v\<close>, and the others.\<close>

definition vma_before :: "'a vm_scheme \<Rightarrow> nat \<Rightarrow> nat list \<Rightarrow> nat list" where
  "vma_before s v vs = takeWhile (\<lambda>u. vm_start (vmas s u) \<le> vm_start (vmas s v)) vs"

definition vma_after :: "'a vm_scheme \<Rightarrow> nat \<Rightarrow> nat list \<Rightarrow> nat list" where
  "vma_after s v vs = dropWhile (\<lambda>u. vm_start (vmas s u) \<le> vm_start (vmas s v)) vs"

definition vma_disjoint :: "'a vm_scheme \<Rightarrow> nat \<Rightarrow> nat \<Rightarrow> bool" where
  "vma_disjoint s u v \<longleftrightarrow>
     vm_end (vmas s u) \<le> vm_start (vmas s v) \<or> vm_end (vmas s v) \<le> vm_start (vmas s u)"

lemma vma_split: "vs = vma_before s v vs @ vma_after s v vs"
  by (simp add: vma_before_def vma_after_def)

lemma insert_vma_loop_spec:
  assumes "dlist (vma_links s) (VmaHead m) (map VmaLink (us @ vs))"
    and "le = hd (map VmaLink vs @ [VmaHead m])" and "lp = last (VmaHead m # map VmaLink us)"
  shows "insert_vma_loop s v lp le =
    Some (last (VmaHead m # map VmaLink (us @ vma_before s v vs)))"
  using assms
proof (induction vs arbitrary: us le lp)
  case Nil
  then show ?case by (simp add: insert_vma_loop.simps vma_before_def)
next
  case (Cons u vs)
  show ?case
  proof (cases "vm_start (vmas s u) \<le> vm_start (vmas s v)")
    case True
    have "list_next (VmaLink u) (vma_links s) = hd (map VmaLink vs @ [VmaHead m])"
      using dlist_next_prev(1) [of "vma_links s" "VmaHead m" "map VmaLink us" "VmaLink u" "map VmaLink vs"]
        Cons.prems(1) by (simp add: list_next_def)
    moreover have "insert_vma_loop s v (VmaLink u) (hd (map VmaLink vs @ [VmaHead m])) =
        Some (last (VmaHead m # map VmaLink ((us @ [u]) @ vma_before s v vs)))"
      using Cons.prems(1) by (intro Cons.IH) simp_all
    moreover have "vma_before s v (u # vs) = u # vma_before s v vs"
      using True by (simp add: vma_before_def)
    ultimately show ?thesis
      using Cons.prems(2) True [THEN leD] by (subst insert_vma_loop.simps) simp
  next
    case False
    then have "vma_before s v (u # vs) = []" "vm_start (vmas s v) < vm_start (vmas s u)"
      by (simp_all add: vma_before_def not_le)
    then show ?thesis using Cons.prems(2,3) by (subst insert_vma_loop.simps) simp
  qed
qed

lemma vma_before_le: "u \<in> set (vma_before s v vs) \<Longrightarrow> vm_start (vmas s u) \<le> vm_start (vmas s v)"
  unfolding vma_before_def by (rule set_takeWhileD [THEN conjunct2])

lemma sorted_wrt_last:
  assumes "sorted_wrt R (us @ [x])" "u \<in> set us"
  shows "R u x"
  using assms by (auto simp: sorted_wrt_append)

lemma vma_ordered_app:
  "vma_ordered s (us @ ws) \<longleftrightarrow> vma_ordered s us \<and> vma_ordered s ws \<and>
     (\<forall>u \<in> set us. \<forall>w \<in> set ws. vm_end (vmas s u) \<le> vm_start (vmas s w))"
  by (auto simp: vma_ordered_def sorted_wrt_append)

lemma vma_ordered_Cons:
  "vma_ordered s (v # ws) \<longleftrightarrow> vm_start (vmas s v) < vm_end (vmas s v) \<and> vma_ordered s ws \<and>
     (\<forall>w \<in> set ws. vm_end (vmas s v) \<le> vm_start (vmas s w))"
  by (auto simp: vma_ordered_def)

lemma vma_after_gt:
  assumes "vma_ordered s vs" "w \<in> set (vma_after s v vs)"
  shows "vm_start (vmas s v) < vm_start (vmas s w)"
proof (cases "vma_after s v vs")
  case Nil
  then show ?thesis using assms(2) by simp
next
  case (Cons w0 ws)
  then have w0: "vm_start (vmas s v) < vm_start (vmas s w0)"
    using hd_dropWhile [of "\<lambda>u. vm_start (vmas s u) \<le> vm_start (vmas s v)" vs]
    by (simp add: vma_after_def not_le)
  have o: "vma_ordered s (w0 # ws)"
    using assms(1) vma_split [of vs s v] Cons vma_ordered_app by metis
  show ?thesis
  proof (cases "w = w0")
    case False
    then have "w \<in> set ws" using assms(2) Cons by simp
    then have "vm_end (vmas s w0) \<le> vm_start (vmas s w)" "vm_start (vmas s w0) < vm_end (vmas s w0)"
      using o by (simp_all add: vma_ordered_Cons)
    then show ?thesis using w0 by (meson less_le_trans less_trans)
  qed (simp add: w0)
qed

text \<open>The two neighbours are enough to check that an area overlaps no other.\<close>

lemma neighbours_disjoint:
  assumes o: "vma_ordered s vs" and v: "vm_start (vmas s v) < vm_end (vmas s v)"
  shows "(\<forall>u \<in> set vs. vma_disjoint s u v) \<longleftrightarrow>
    (vma_before s v vs \<noteq> [] \<longrightarrow>
       vm_end (vmas s (last (vma_before s v vs))) \<le> vm_start (vmas s v)) \<and>
    (vma_after s v vs \<noteq> [] \<longrightarrow>
       vm_end (vmas s v) \<le> vm_start (vmas s (hd (vma_after s v vs))))"
    (is "?L \<longleftrightarrow> ?R")
proof -
  let ?us = "vma_before s v vs" and ?ws = "vma_after s v vs"
  have oo: "vma_ordered s ?us" "vma_ordered s ?ws"
    using o vma_split [of vs s v] vma_ordered_app by metis+
  have set: "set vs = set ?us \<union> set ?ws" using arg_cong [OF vma_split [of vs s v], of set] by simp
  have us: "vma_disjoint s u v \<longleftrightarrow> vm_end (vmas s u) \<le> vm_start (vmas s v)" if "u \<in> set ?us" for u
    using vma_before_le [OF that] v unfolding vma_disjoint_def by (meson leD le_less_trans)
  have ws: "vma_disjoint s w v \<longleftrightarrow> vm_end (vmas s v) \<le> vm_start (vmas s w)" if "w \<in> set ?ws" for w
  proof -
    have "vm_start (vmas s w) < vm_end (vmas s w)" using oo(2) that by (simp add: vma_ordered_def)
    then show ?thesis using vma_after_gt [OF o that] unfolding vma_disjoint_def
      by (meson leD less_trans)
  qed
  have last: "(\<forall>u \<in> set ?us. vm_end (vmas s u) \<le> vm_start (vmas s v)) \<longleftrightarrow>
      (?us \<noteq> [] \<longrightarrow> vm_end (vmas s (last ?us)) \<le> vm_start (vmas s v))"
  proof (cases ?us rule: rev_cases)
    case (snoc us' x)
    have "vm_end (vmas s u) \<le> vm_end (vmas s x)" if "u \<in> set us'" for u
    proof -
      have "vm_end (vmas s u) \<le> vm_start (vmas s x)" "vm_start (vmas s x) < vm_end (vmas s x)"
        using oo(1) that unfolding snoc by (simp_all add: vma_ordered_def sorted_wrt_append)
      then show ?thesis by (meson less_imp_le order.trans)
    qed
    then show ?thesis unfolding snoc by (auto intro: order.trans)
  qed simp
  have hd: "(\<forall>w \<in> set ?ws. vm_end (vmas s v) \<le> vm_start (vmas s w)) \<longleftrightarrow>
      (?ws \<noteq> [] \<longrightarrow> vm_end (vmas s v) \<le> vm_start (vmas s (hd ?ws)))"
  proof (cases ?ws)
    case (Cons x ws')
    have "vm_start (vmas s x) \<le> vm_start (vmas s w)" if "w \<in> set ws'" for w
    proof -
      have "vm_end (vmas s x) \<le> vm_start (vmas s w)" "vm_start (vmas s x) < vm_end (vmas s x)"
        using oo(2) that unfolding Cons by (simp_all add: vma_ordered_Cons)
      then show ?thesis by (meson less_imp_le order.trans)
    qed
    then show ?thesis unfolding Cons by (auto intro: order.trans)
  qed simp
  have "?L \<longleftrightarrow> (\<forall>u \<in> set ?us. vma_disjoint s u v) \<and> (\<forall>w \<in> set ?ws. vma_disjoint s w v)"
    unfolding set by blast
  then show ?thesis using us ws last hd by simp
qed

lemma insert_vma_spec:
  assumes rep: "mm_rep s m vs" and v: "v \<notin> set vs" "vm_start (vmas s v) < vm_end (vmas s v)"
  shows "if \<forall>u \<in> set vs. vma_disjoint s u v
    then \<exists>s'. insert_vma_struct m v s = Some s' \<and>
           mm_rep s' m (vma_before s v vs @ v # vma_after s v vs) \<and>
           (\<forall>x. vm_start (vmas s' x) = vm_start (vmas s x) \<and> vm_end (vmas s' x) = vm_end (vmas s x) \<and>
              vm_flags (vmas s' x) = vm_flags (vmas s x))
    else insert_vma_struct m v s = None"
proof -
  note r = mm_repD [OF rep]
  let ?us = "vma_before s v vs" and ?ws = "vma_after s v vs"
  define lp where "lp = last (VmaHead m # map VmaLink ?us)"
  define ln where "ln = hd (map VmaLink ?ws @ [VmaHead m])"
  have d: "dlist (vma_links s) (VmaHead m) (map VmaLink ?us @ map VmaLink ?ws)"
    using r(1) vma_split [of vs s v] by (metis map_append)
  have le: "list_next (VmaHead m) (vma_links s) = hd (map VmaLink vs @ [VmaHead m])"
    using dlist_next_head(1) [OF r(1)] by (simp add: list_next_def)
  have loop: "insert_vma_loop s v (VmaHead m) (list_next (VmaHead m) (vma_links s)) = Some lp"
    using insert_vma_loop_spec [of s m "[]" vs _ "VmaHead m" v] r(1) le by (simp add: lp_def)
  have nx: "list_next lp (vma_links s) = ln"
    using dlist_next_last [OF d] by (simp add: list_next_def lp_def ln_def)
  have prev: "le2vma lp = (if ?us = [] then None else Some (last ?us))"
    by (simp add: lp_def last_map)
  have nxt: "le2vma ln = (if ?ws = [] then None else Some (hd ?ws))"
    unfolding ln_def by (cases ?ws) auto
  have sets: "set vs = set ?us \<union> set ?ws" using arg_cong [OF vma_split [of vs s v], of set] by simp
  have inn: "?us \<noteq> [] \<Longrightarrow> last ?us \<in> set vs" "?ws \<noteq> [] \<Longrightarrow> hd ?ws \<in> set vs"
    unfolding sets by simp_all
  have pos: "\<And>x. x \<in> set vs \<Longrightarrow> vm_start (vmas s x) < vm_end (vmas s x)"
    using r(2) by (simp add: vma_ordered_def)
  note nd = neighbours_disjoint [OF r(2) v(2)]
  let ?s = "upd_mm m (\<lambda>d. d\<lparr>map_count := map_count d + 1\<rparr>)
    (upd_vma_links (list_add_after lp (VmaLink v)) (upd_vma v (\<lambda>d. d\<lparr>vm_mm := m\<rparr>) s))"
  have checks: "insert_vma_struct m v s = (if \<forall>u \<in> set vs. vma_disjoint s u v then Some ?s else None)"
    unfolding insert_vma_struct_def loop nd using v(2) pos inn nx prev nxt
    by (cases "?us = []"; cases "?ws = []") (simp_all add: check_vma_overlap_def bind_kassert)
  show ?thesis
  proof (cases "\<forall>u \<in> set vs. vma_disjoint s u v")
    case True
    have "VmaLink v \<notin> set (VmaHead m # map VmaLink ?us @ map VmaLink ?ws)"
      using v(1) unfolding sets by auto
    then have "dlist (vma_links ?s) (VmaHead m) (map VmaLink (?us @ v # ?ws))"
      using dlist_add_after [OF d] by (simp add: lp_def)
    moreover have "vma_ordered s (?us @ v # ?ws)"
    proof -
      have oo: "vma_ordered s ?us" "vma_ordered s ?ws"
        "\<forall>u \<in> set ?us. \<forall>w \<in> set ?ws. vm_end (vmas s u) \<le> vm_start (vmas s w)"
        using r(2) vma_split [of vs s v] vma_ordered_app by metis+
      have "\<forall>u \<in> set ?us. vm_end (vmas s u) \<le> vm_start (vmas s v)"
      proof
        fix u assume u: "u \<in> set ?us"
        then have "u \<in> set vs" unfolding sets by simp
        then have "vma_disjoint s u v" using True by blast
        then show "vm_end (vmas s u) \<le> vm_start (vmas s v)"
          using vma_before_le [OF u] v(2) unfolding vma_disjoint_def by (meson leD le_less_trans)
      qed
      moreover have "\<forall>w \<in> set ?ws. vm_end (vmas s v) \<le> vm_start (vmas s w)"
      proof
        fix w assume w: "w \<in> set ?ws"
        then have "w \<in> set vs" unfolding sets by simp
        then have "vma_disjoint s w v" "vm_start (vmas s w) < vm_end (vmas s w)" using True pos by auto
        then show "vm_end (vmas s v) \<le> vm_start (vmas s w)"
          using vma_after_gt [OF r(2) w] unfolding vma_disjoint_def by (meson leD less_trans)
      qed
      ultimately show ?thesis using oo v(2) by (auto simp: vma_ordered_app vma_ordered_Cons)
    qed
    then have "vma_ordered ?s (?us @ v # ?ws)" by (subst vma_ordered_cong [of ?s s]) simp_all
    moreover have "length vs = length ?us + length ?ws"
      using arg_cong [OF vma_split [of vs s v], of length] by simp
    moreover note sets
    ultimately have "mm_rep ?s m (?us @ v # ?ws)"
      using rep by (auto simp: mm_rep_def split: option.splits)
    then show ?thesis using True checks by auto
  next
    case False
    have "insert_vma_struct m v s = None" unfolding checks by (simp only: False if_False)
    then show ?thesis by (simp only: False if_False)
  qed
qed

section \<open>Mapping an area\<close>

definition range_free :: "'a vm_scheme \<Rightarrow> nat list \<Rightarrow> 64 word \<Rightarrow> 64 word \<Rightarrow> bool" where
  "range_free s vs st en \<longleftrightarrow> (\<forall>u \<in> set vs. vm_end (vmas s u) \<le> st \<or> en \<le> vm_start (vmas s u))"

lemma mm_rep_upd_other:
  assumes "mm_rep s m vs" "v \<notin> set vs"
  shows "mm_rep (upd_vma v f s) m vs"
proof -
  let ?s = "upd_vma v f s"
  have same: "vmas ?s u = vmas s u" if "u \<in> set vs" for u using assms(2) that by auto
  have o: "vma_ordered s vs" using assms(1) by (simp add: mm_rep_def)
  then have "sorted_wrt (\<lambda>u v. vm_end (vmas s u) \<le> vm_start (vmas s v)) vs"
    by (simp add: vma_ordered_def)
  then have "sorted_wrt (\<lambda>u v. vm_end (vmas ?s u) \<le> vm_start (vmas ?s v)) vs"
    by (rule sorted_wrt_mono_rel [rotated]) (simp only: same)
  moreover have "\<forall>u \<in> set vs. vm_start (vmas ?s u) < vm_end (vmas ?s u)"
    using o same by (simp add: vma_ordered_def del: upd_vm_simps)
  ultimately have "vma_ordered ?s vs" unfolding vma_ordered_def by blast
  then show ?thesis using assms(1) by (simp add: mm_rep_def)
qed

lemma mm_map_spec:
  assumes rep: "mm_rep s m vs" and kp: "\<forall>v. kp = Some v \<longrightarrow> v \<notin> set vs"
    and st: "st = ROUNDDOWN addr PGSIZE" and en: "en = ROUNDUP (addr + len) PGSIZE"
  shows "\<not> USER_ACCESS st en \<Longrightarrow> mm_map kp m addr len fl s = Some (- E_INVAL, None, s)"
    and "USER_ACCESS st en \<Longrightarrow> \<exists>u \<in> set vs. vma_covers s u st \<Longrightarrow>
      \<exists>s'. mm_map kp m addr len fl s = Some (- E_INVAL, None, s') \<and> mm_rep s' m vs \<and> vmas s' = vmas s"
    and "USER_ACCESS st en \<Longrightarrow> \<not> (\<exists>u \<in> set vs. vma_covers s u st) \<Longrightarrow> kp = None \<Longrightarrow>
      \<exists>s'. mm_map kp m addr len fl s = Some (- E_NO_MEM, None, s') \<and> mm_rep s' m vs \<and> vmas s' = vmas s"
    and "USER_ACCESS st en \<Longrightarrow> range_free s vs st en \<Longrightarrow> kp = Some v \<Longrightarrow>
      \<exists>s' us ws. mm_map kp m addr len fl s = Some (0, Some v, s') \<and> vs = us @ ws \<and>
        mm_rep s' m (us @ v # ws) \<and> vm_start (vmas s' v) = st \<and> vm_end (vmas s' v) = en \<and>
        vm_flags (vmas s' v) = fl \<and>
        (\<forall>u \<in> set vs. vm_start (vmas s' u) = vm_start (vmas s u) \<and>
           vm_end (vmas s' u) = vm_end (vmas s u) \<and> vm_flags (vmas s' u) = vm_flags (vmas s u))"
    and "USER_ACCESS st en \<Longrightarrow> \<not> (\<exists>u \<in> set vs. vma_covers s u st) \<Longrightarrow>
      \<not> range_free s vs st en \<Longrightarrow> kp \<noteq> None \<Longrightarrow> mm_map kp m addr len fl s = None"
proof -
  show "\<not> USER_ACCESS st en \<Longrightarrow> mm_map kp m addr len fl s = Some (- E_INVAL, None, s)"
    by (simp add: mm_map_def st en Let_def)
  obtain r s1 where f: "find_vma (Some m) st s = Some (r, s1)" "mm_rep s1 m vs" "vmas s1 = vmas s"
    "vma_links s1 = vma_links s"
    "case r of None \<Rightarrow> \<forall>v \<in> set vs. \<not> vma_covers s v st | Some v \<Rightarrow> v \<in> set vs \<and> vma_covers s v st"
    by (rule find_vma_spec [OF rep])
  have eq: "mm_map kp m addr len fl s =
      (if \<not> USER_ACCESS st en then Some (- E_INVAL, None, s)
       else if (case r of None \<Rightarrow> False | Some v \<Rightarrow> en > vm_start (vmas s1 v))
       then Some (- E_INVAL, None, s1)
       else (case vma_create kp st en fl s1 of (None, s2) \<Rightarrow> Some (- E_NO_MEM, None, s2)
         | (Some v, s2) \<Rightarrow> Option.bind (insert_vma_struct m v s2) (\<lambda>s3. Some (0, Some v, s3))))"
    unfolding mm_map_def Let_def st [symmetric] en [symmetric] f(1) by simp
  { assume ua: "USER_ACCESS st en" and c: "\<exists>u \<in> set vs. vma_covers s u st"
    then obtain u where u: "r = Some u" "vma_covers s u st" using f(5) by (cases r) auto
    have "vm_start (vmas s u) \<le> st" "st < en"
      using u(2) ua by (simp_all add: vma_covers_def USER_ACCESS_def)
    then have "vm_start (vmas s1 u) < en" using le_less_trans f(3) by metis
    then show "\<exists>s'. mm_map kp m addr len fl s = Some (- E_INVAL, None, s') \<and> mm_rep s' m vs \<and>
        vmas s' = vmas s"
      using eq ua u f(2,3) by simp }
  { assume ua: "USER_ACCESS st en" and c: "\<not> (\<exists>u \<in> set vs. vma_covers s u st)" and k: "kp = None"
    then have "r = None" using f(5) by (cases r) auto
    then show "\<exists>s'. mm_map kp m addr len fl s = Some (- E_NO_MEM, None, s') \<and> mm_rep s' m vs \<and>
        vmas s' = vmas s"
      using eq ua k f(2,3) by (simp add: vma_create_def) }
  have insert: "r = None \<Longrightarrow> USER_ACCESS st en \<Longrightarrow> kp = Some v \<Longrightarrow>
      mm_map kp m addr len fl s = Option.bind (insert_vma_struct m v
        (upd_vma v (\<lambda>d. d\<lparr>vm_start := st, vm_end := en, vm_flags := fl\<rparr>) s1)) (\<lambda>s3. Some (0, Some v, s3))" for v
    using eq by (simp add: vma_create_def)
  { fix v assume ua: "USER_ACCESS st en" and rf: "range_free s vs st en" and k: "kp = Some v"
    let ?s2 = "upd_vma v (\<lambda>d. d\<lparr>vm_start := st, vm_end := en, vm_flags := fl\<rparr>) s1"
    have vn: "v \<notin> set vs" using kp k by simp
    have lt: "st < en" using ua by (simp add: USER_ACCESS_def)
    have "\<not> vma_covers s u st" if "u \<in> set vs" for u
      using rf that lt unfolding range_free_def vma_covers_def by (meson leD le_less_trans)
    then have "r = None" using f(5) by (cases r) auto
    note ins = insert [OF this ua k]
    have rep2: "mm_rep ?s2 m vs" by (rule mm_rep_upd_other [OF f(2) vn])
    have "\<forall>u \<in> set vs. vma_disjoint ?s2 u v"
      using rf vn f(3) by (auto simp: vma_disjoint_def range_free_def)
    then obtain s' where s': "insert_vma_struct m v ?s2 = Some s'"
      "mm_rep s' m (vma_before ?s2 v vs @ v # vma_after ?s2 v vs)"
      "\<forall>x. vm_start (vmas s' x) = vm_start (vmas ?s2 x) \<and> vm_end (vmas s' x) = vm_end (vmas ?s2 x) \<and>
         vm_flags (vmas s' x) = vm_flags (vmas ?s2 x)"
      using insert_vma_spec [OF rep2 vn] lt by auto
    have "\<forall>u \<in> set vs. vm_start (vmas s' u) = vm_start (vmas s u) \<and>
        vm_end (vmas s' u) = vm_end (vmas s u) \<and> vm_flags (vmas s' u) = vm_flags (vmas s u)"
      using s'(3) vn f(3) by auto
    then show "\<exists>s' us ws. mm_map kp m addr len fl s = Some (0, Some v, s') \<and> vs = us @ ws \<and>
        mm_rep s' m (us @ v # ws) \<and> vm_start (vmas s' v) = st \<and> vm_end (vmas s' v) = en \<and>
        vm_flags (vmas s' v) = fl \<and>
        (\<forall>u \<in> set vs. vm_start (vmas s' u) = vm_start (vmas s u) \<and>
           vm_end (vmas s' u) = vm_end (vmas s u) \<and> vm_flags (vmas s' u) = vm_flags (vmas s u))"
      using ins s' vma_split [of vs ?s2 v]
      by (intro exI [of _ s'] exI [of _ "vma_before ?s2 v vs"] exI [of _ "vma_after ?s2 v vs"]) simp }
  { assume ua: "USER_ACCESS st en" and c: "\<not> (\<exists>u \<in> set vs. vma_covers s u st)"
      and rf: "\<not> range_free s vs st en" and k: "kp \<noteq> None"
    obtain v where v: "kp = Some v" using k by auto
    let ?s2 = "upd_vma v (\<lambda>d. d\<lparr>vm_start := st, vm_end := en, vm_flags := fl\<rparr>) s1"
    have vn: "v \<notin> set vs" using kp v by simp
    have "r = None" using f(5) c by (cases r) auto
    note ins = insert [OF this ua v]
    have "\<not> (\<forall>u \<in> set vs. vma_disjoint ?s2 u v)"
      using rf vn f(3) by (auto simp: vma_disjoint_def range_free_def)
    moreover have "vm_start (vmas ?s2 v) < vm_end (vmas ?s2 v)" using ua by (simp add: USER_ACCESS_def)
    ultimately have "insert_vma_struct m v ?s2 = None"
      using insert_vma_spec [OF mm_rep_upd_other [OF f(2) vn] vn] by presburger
    then show "mm_map kp m addr len fl s = None" using ins by simp }
qed

section \<open>Checking user memory\<close>

text \<open>What a check of one address in the area \<open>v\<close> demands.\<close>

definition access_ok :: "'a vm_scheme \<Rightarrow> bool \<Rightarrow> nat \<Rightarrow> 64 word \<Rightarrow> bool" where
  "access_ok s write v a \<longleftrightarrow>
     vma_covers s v a \<and>
     and (vm_flags (vmas s v)) (if write then VM_WRITE else VM_READ) \<noteq> 0 \<and>
     \<not> (write \<and> and (vm_flags (vmas s v)) VM_STACK \<noteq> 0 \<and> a < vm_start (vmas s v) + PGSIZE)"

lemma user_mem_loop_spec:
  assumes "mm_rep s m vs"
  shows "\<exists>r s'. user_mem_loop m st en write s = Some (r, s') \<and> mm_rep s' m vs \<and>
           vmas s' = vmas s \<and>
           (r \<longleftrightarrow> (\<forall>a. st \<le> a \<and> a < en \<longrightarrow> (\<exists>v \<in> set vs. access_ok s write v a)))"
  using assms
proof (induction "unat en - unat st" arbitrary: st s rule: less_induct)
  case less
  show ?case
  proof (cases "st < en")
    case False
    then have "user_mem_loop m st en write s = Some (True, s)"
      by (subst user_mem_loop.simps) simp
    moreover have "\<not> (st \<le> a \<and> a < en)" for a using False by (meson le_less_trans)
    ultimately show ?thesis using less.prems by blast
  next
    case lt: True
    obtain r s1 where f: "find_vma (Some m) st s = Some (r, s1)" "mm_rep s1 m vs" "vmas s1 = vmas s"
      "case r of None \<Rightarrow> \<forall>v \<in> set vs. \<not> vma_covers s v st | Some v \<Rightarrow> v \<in> set vs \<and> vma_covers s v st"
      by (rule find_vma_spec [OF less.prems])
    show ?thesis
    proof (cases "\<exists>v. r = Some v \<and> access_ok s write v st")
      case False
      have "user_mem_loop m st en write s = Some (False, s1)"
        using False f lt
        by (subst user_mem_loop.simps) (auto simp: access_ok_def vma_covers_def split: option.splits)
      moreover have "\<not> (\<exists>v \<in> set vs. access_ok s write v st)"
      proof
        assume "\<exists>v \<in> set vs. access_ok s write v st"
        then obtain v where v: "v \<in> set vs" "access_ok s write v st" by blast
        then have "vma_covers s v st" by (simp add: access_ok_def)
        then have "r = Some v"
          using f(4) v(1) vma_covers_unique [OF mm_repD(2) [OF less.prems]] by (cases r) auto
        then show False using False v(2) by blast
      qed
      then have "\<not> (\<forall>a. st \<le> a \<and> a < en \<longrightarrow> (\<exists>v \<in> set vs. access_ok s write v a))"
        using lt by blast
      ultimately show ?thesis using f(2,3) by blast
    next
      case True
      then obtain v where v: "r = Some v" "access_ok s write v st" by blast
      let ?e = "vm_end (vmas s v)"
      have cov: "vm_start (vmas s v) \<le> st" "st < ?e" "v \<in> set vs"
        using v f(4) by (auto simp: access_ok_def vma_covers_def)
      have step: "user_mem_loop m st en write s = user_mem_loop m ?e en write s1"
        using f(1,3) v lt cov
        by (subst user_mem_loop.simps) (auto simp: access_ok_def dest: leD)
      have "unat en - unat ?e < unat en - unat st"
        using cov(2) lt by (simp add: word_less_nat_alt)
      then obtain r' s' where ih: "user_mem_loop m ?e en write s1 = Some (r', s')" "mm_rep s' m vs"
        "vmas s' = vmas s1"
        "r' \<longleftrightarrow> (\<forall>a. ?e \<le> a \<and> a < en \<longrightarrow> (\<exists>v \<in> set vs. access_ok s1 write v a))"
        using less.hyps f(2) by blast
      have same: "access_ok s1 write x a = access_ok s write x a" for x a
        using f(3) by (simp add: access_ok_def vma_covers_def)
      have in_v: "access_ok s write v a" if "st \<le> a" "a < ?e" for a
        using v(2) that cov unfolding access_ok_def vma_covers_def
        by (meson le_less_trans order.trans)
      have "(\<forall>a. ?e \<le> a \<and> a < en \<longrightarrow> (\<exists>v \<in> set vs. access_ok s write v a)) \<longleftrightarrow>
          (\<forall>a. st \<le> a \<and> a < en \<longrightarrow> (\<exists>v \<in> set vs. access_ok s write v a))"
        using in_v cov by (meson less_imp_le not_le order.trans)
      then show ?thesis using step ih f(3) same by auto
    qed
  qed
qed

section \<open>Guarantees\<close>

text \<open>
  C23: \<open>mm_map\<close> on a well-formed address space: a range outside user space or one whose start
  is already mapped is refused with \<open>-E_INVAL\<close>, a failed allocation gives \<open>-E_NO_MEM\<close>, both
  without a change of the areas. Otherwise a range that overlaps no area becomes one new area with the
  given flags, in address order and disjoint from the others, which stay as they were; and a range that
  reaches into a later area stops the kernel (the case of C27).
\<close>

theorem mm_map_outcomes:
  assumes "mm_rep s m vs" "\<forall>v. kp = Some v \<longrightarrow> v \<notin> set vs"
    and "st = ROUNDDOWN addr PGSIZE" "en = ROUNDUP (addr + len) PGSIZE"
  shows "if \<not> USER_ACCESS st en then mm_map kp m addr len fl s = Some (- E_INVAL, None, s)
    else if \<exists>u \<in> set vs. vma_covers s u st
    then \<exists>s'. mm_map kp m addr len fl s = Some (- E_INVAL, None, s') \<and> mm_rep s' m vs \<and> vmas s' = vmas s
    else case kp of
      None \<Rightarrow> \<exists>s'. mm_map kp m addr len fl s = Some (- E_NO_MEM, None, s') \<and> mm_rep s' m vs \<and>
        vmas s' = vmas s
    | Some v \<Rightarrow> if range_free s vs st en
      then (\<exists>s' us ws. mm_map kp m addr len fl s = Some (0, Some v, s') \<and> vs = us @ ws \<and>
          mm_rep s' m (us @ v # ws) \<and> vm_start (vmas s' v) = st \<and> vm_end (vmas s' v) = en \<and>
          vm_flags (vmas s' v) = fl \<and>
          (\<forall>u \<in> set vs. vm_start (vmas s' u) = vm_start (vmas s u) \<and>
             vm_end (vmas s' u) = vm_end (vmas s u) \<and> vm_flags (vmas s' u) = vm_flags (vmas s u)))
      else mm_map kp m addr len fl s = None"
proof -
  note spec = mm_map_spec [OF assms, where fl = fl]
  show ?thesis
  proof (cases "USER_ACCESS st en \<and> \<not> (\<exists>u \<in> set vs. vma_covers s u st)")
    case True
    then show ?thesis using spec(3-5) by (cases kp) simp_all
  next
    case False
    then show ?thesis using spec(1,2) by auto
  qed
qed

text \<open>
  C27: \<open>mm_map\<close> looks for an overlap only at the start address: a range that starts in a gap and
  reaches into a later area is not refused but stops the kernel on the assertion of
  \<open>check_vma_overlap\<close>.
\<close>

theorem mm_map_overlap_panics:
  assumes "mm_rep s m vs" "v \<notin> set vs"
    and "st = ROUNDDOWN addr PGSIZE" "en = ROUNDUP (addr + len) PGSIZE" "USER_ACCESS st en"
    and "u \<in> set vs" "st < vm_start (vmas s u)" "vm_start (vmas s u) < en"
    and "\<forall>w \<in> set vs. \<not> vma_covers s w st"
  shows "mm_map (Some v) m addr len fl s = None"
proof -
  have "vm_start (vmas s u) < vm_end (vmas s u)"
    using mm_repD(2) [OF assms(1)] assms(6) by (simp add: vma_ordered_def)
  then have "\<not> range_free s vs st en"
    using assms(6-8) unfolding range_free_def by (meson leD less_trans)
  then show ?thesis
    using mm_map_spec(5) [OF assms(1) _ assms(3,4), of "Some v" fl] assms(2,5,9) by blast
qed

text \<open>
  C25: \<open>user_mem_check\<close> always returns and is exact: it accepts a user range if and only if
  the range lies in user space and every address of it is in an area that allows the access
  (and, for writes, not in the guard page of a stack area).
\<close>

theorem user_mem_check_exact:
  assumes "mm_rep s m vs"
  shows "\<exists>r s'. user_mem_check (Some m) addr len write s = Some (r, s') \<and> mm_rep s' m vs \<and>
           (r \<longleftrightarrow> USER_ACCESS addr (addr + len) \<and>
              (\<forall>a. addr \<le> a \<and> a < addr + len \<longrightarrow> (\<exists>v \<in> set vs. access_ok s write v a)))"
proof (cases "USER_ACCESS addr (addr + len)")
  case True
  then show ?thesis
    using user_mem_loop_spec [OF assms, of addr "addr + len" "write"]
    by (fastforce simp: user_mem_check_def)
qed (use assms in \<open>auto simp: user_mem_check_def\<close>)

section \<open>Witnesses\<close>

text \<open>One address space with the read-write area 5 on the page 0x801000.\<close>

definition example_vm :: vm where
  "example_vm =
     \<lparr>vmas = (\<lambda>_. \<lparr>vm_mm = 0, vm_start = 0x801000, vm_end = 0x802000, vm_flags = 3\<rparr>),
      vma_links =
        \<lparr>next_of = id(VmaHead 0 := VmaLink 5, VmaLink 5 := VmaHead 0),
         prev_of = id(VmaHead 0 := VmaLink 5, VmaLink 5 := VmaHead 0)\<rparr>,
      mms = (\<lambda>_. \<lparr>mmap_cache = None, mm_pgdir = 0, map_count = 1, mm_count = 1, locked_by = 0\<rparr>)\<rparr>"

lemma example_vm_rep: "mm_rep example_vm 0 [5]"
  by (simp add: mm_rep_def example_vm_def dlist_def vma_ordered_def)

theorem mm_map_outcomes_witness:
  "\<exists>s'. mm_map (Some 6) 0 0x900010 8 1 example_vm = Some (0, Some 6, s') \<and>
     vm_start (vmas s' 6) = 0x900000 \<and> vm_end (vmas s' 6) = 0x901000"
proof -
  have r: "ROUNDDOWN 0x900010 PGSIZE = 0x900000" "ROUNDUP (0x900010 + 8) PGSIZE = 0x901000"
    by (simp_all add: ROUNDDOWN_def ROUNDUP_def PGSIZE_def)
  have f: "(6 :: nat) \<notin> set [5]" by simp
  have c: "USER_ACCESS 0x900000 0x901000" "\<not> (\<exists>u \<in> set [5]. vma_covers example_vm u 0x900000)"
    "range_free example_vm [5] 0x900000 0x901000"
    by (simp_all add: USER_ACCESS_def USERBASE_def USERTOP_def vma_covers_def example_vm_def
        range_free_def)
  show ?thesis
    using mm_map_outcomes [OF example_vm_rep _ r [symmetric], of "Some 6" 1] f c
    by fastforce
qed

theorem mm_map_overlap_panics_witness:
  "mm_map (Some 6) 0 0x800000 0x2000 1 example_vm = None"
proof -
  have r: "ROUNDDOWN 0x800000 PGSIZE = 0x800000" "ROUNDUP (0x800000 + 0x2000) PGSIZE = 0x802000"
    by (simp_all add: ROUNDDOWN_def ROUNDUP_def PGSIZE_def)
  show ?thesis
    by (rule mm_map_overlap_panics [OF example_vm_rep _ r [symmetric], of _ 5])
      (simp_all add: USER_ACCESS_def USERBASE_def USERTOP_def vma_covers_def example_vm_def)
qed

theorem user_mem_check_exact_witness:
  "\<exists>s'. user_mem_check (Some 0) 0x801800 0x1000 False example_vm = Some (False, s')"
proof -
  have "\<not> access_ok example_vm False 5 0x802000"
    by (simp add: access_ok_def vma_covers_def example_vm_def)
  moreover have "(0x801800 :: 64 word) \<le> 0x802000" "(0x802000 :: 64 word) < 0x801800 + 0x1000"
    by simp_all
  ultimately have "\<not> (\<forall>a. 0x801800 \<le> a \<and> a < 0x801800 + 0x1000 \<longrightarrow>
      (\<exists>v \<in> set [5]. access_ok example_vm False v a))"
    by (metis empty_iff empty_set set_ConsD)
  then show ?thesis
    using user_mem_check_exact [OF example_vm_rep, of "0x801800" "0x1000" False]
    by (elim exE conjE) (simp only: simp_thms, simp)
qed

end
