(* ===== verification/PageTable.thy ===== *)
theory PageTable
imports FirstFit VMM
begin

text \<open>
  Page tables: \<open>kern/mm/mmu.h\<close>, the address conversions of \<open>kern/mm/pmm.h\<close> and the page
  table functions of \<open>kern/mm/pmm.c\<close>, over the first-fit manager that \<open>init_pmm_manager\<close>
  installs.

  Physical memory is \<open>frames\<close>: the 512 doublewords of every physical page, by page number. A
  kernel pointer into a page table is a page number with an entry index, so that \<open>KADDR\<close> of
  the address of a page is its number; a \<open>struct Page *\<close> is an index into the array \<open>pages\<close>
  as in theory PageDesc, whose first descriptor belongs to page number \<open>nbase\<close>. Loads through
  a page number that is not below \<open>npage\<close> panic as \<open>KADDR\<close> and \<open>pa2page\<close> do; a page number
  below \<open>nbase\<close>, for which \<open>pa2page\<close> would leave the array, is undefined behaviour and also
  \<open>None\<close>. TLB flushes have no effect on this state.
\<close>

record machine =
  phys :: pmm
  npage :: nat
  frames :: "nat \<Rightarrow> nat \<Rightarrow> 64 word"

definition PTE_V :: "64 word" where "PTE_V = 0x001"
definition PTE_R :: "64 word" where "PTE_R = 0x002"
definition PTE_W :: "64 word" where "PTE_W = 0x004"
definition PTE_X :: "64 word" where "PTE_X = 0x008"
definition PTE_U :: "64 word" where "PTE_U = 0x010"

definition PTE_USER :: "64 word" where
  "PTE_USER = or PTE_R (or PTE_W (or PTE_X (or PTE_U PTE_V)))"

definition NPTEENTRY :: nat where "NPTEENTRY = 512"
definition PTSIZE :: "64 word" where "PTSIZE = 0x200000"
definition PDSIZE :: "64 word" where "PDSIZE = 0x40000000"

definition PDX1 :: "64 word \<Rightarrow> nat" where "PDX1 la = unat (and (drop_bit 30 la) 0x1FF)"
definition PDX0 :: "64 word \<Rightarrow> nat" where "PDX0 la = unat (and (drop_bit 21 la) 0x1FF)"
definition PTX :: "64 word \<Rightarrow> nat" where "PTX la = unat (and (drop_bit 12 la) 0x1FF)"
definition PPN :: "64 word \<Rightarrow> nat" where "PPN la = unat (drop_bit 12 la)"
definition PGOFF :: "64 word \<Rightarrow> 64 word" where "PGOFF la = and la 0xFFF"

definition PTE_ADDR :: "64 word \<Rightarrow> 64 word" where
  "PTE_ADDR pte = push_bit 2 (and pte (not 0x3FF))"

definition nbase :: nat where "nbase = 0x80000"

section \<open>Addresses, page numbers and descriptors\<close>

definition KADDR :: "machine \<Rightarrow> 64 word \<Rightarrow> nat option" where
  "KADDR s pa = (if PPN pa \<ge> npage s then None else Some (PPN pa))"

definition page2ppn :: "nat \<Rightarrow> nat" where "page2ppn page = page + nbase"

definition page2pa :: "nat \<Rightarrow> 64 word" where
  "page2pa page = push_bit 12 (of_nat (page2ppn page))"

definition pa2page :: "machine \<Rightarrow> 64 word \<Rightarrow> nat option" where
  "pa2page s pa =
     (if PPN pa \<ge> npage s then None
      else if PPN pa < nbase then None else Some (PPN pa - nbase))"

definition page2kva :: "machine \<Rightarrow> nat \<Rightarrow> nat option" where
  "page2kva s page = KADDR s (page2pa page)"

definition pte2page :: "machine \<Rightarrow> 64 word \<Rightarrow> nat option" where
  "pte2page s pte = (if and pte PTE_V = 0 then None else pa2page s (PTE_ADDR pte))"

definition pde2page :: "machine \<Rightarrow> 64 word \<Rightarrow> nat option" where
  "pde2page s pde = pa2page s (PTE_ADDR pde)"

text \<open>The \<open>int\<close> argument is sign-extended when it meets the 64-bit operands.\<close>

definition pte_create :: "64 word \<Rightarrow> 32 word \<Rightarrow> 64 word" where
  "pte_create ppn type = or (or (push_bit 10 ppn) PTE_V) (signed type)"

section \<open>State updates\<close>

definition upd_phys :: "(pmm \<Rightarrow> pmm) \<Rightarrow> machine \<Rightarrow> machine" where
  "upd_phys f s = s\<lparr>phys := f (phys s)\<rparr>"

definition set_entry :: "nat \<Rightarrow> nat \<Rightarrow> 64 word \<Rightarrow> machine \<Rightarrow> machine" where
  "set_entry q i x s = s\<lparr>frames := (frames s)(q := (frames s q)(i := x))\<rparr>"

definition set_frame :: "nat \<Rightarrow> (nat \<Rightarrow> 64 word) \<Rightarrow> machine \<Rightarrow> machine" where
  "set_frame q c s = s\<lparr>frames := (frames s)(q := c)\<rparr>"

definition page_ref :: "machine \<Rightarrow> nat \<Rightarrow> int" where
  "page_ref s p = pg_ref (page_of (phys s) p)"

definition page_ref_inc :: "nat \<Rightarrow> machine \<Rightarrow> machine" where
  "page_ref_inc p = upd_phys (upd_page p (\<lambda>pg. pg\<lparr>pg_ref := pg_ref pg + 1\<rparr>))"

definition page_ref_dec :: "nat \<Rightarrow> machine \<Rightarrow> machine" where
  "page_ref_dec p = upd_phys (upd_page p (\<lambda>pg. pg\<lparr>pg_ref := pg_ref pg - 1\<rparr>))"

definition page_set_ref :: "nat \<Rightarrow> int \<Rightarrow> machine \<Rightarrow> machine" where
  "page_set_ref p v = upd_phys (upd_page p (set_page_ref v))"

lemma machine_simps [simp]:
  "phys (upd_phys f s) = f (phys s)" "npage (upd_phys f s) = npage s" "frames (upd_phys f s) = frames s"
  "phys (set_entry q i x s) = phys s" "npage (set_entry q i x s) = npage s"
  "phys (set_frame q c s) = phys s" "npage (set_frame q c s) = npage s"
  "frames (set_frame q c s) = (frames s)(q := c)"
  "frames (page_ref_inc p s) = frames s" "npage (page_ref_inc p s) = npage s"
  "frames (page_ref_dec p s) = frames s" "npage (page_ref_dec p s) = npage s"
  "frames (page_set_ref p v s) = frames s" "npage (page_set_ref p v s) = npage s"
  by (simp_all add: upd_phys_def set_entry_def set_frame_def page_ref_inc_def page_ref_dec_def
      page_set_ref_def)

lemma frames_set_entry [simp]:
  "frames (set_entry q i x s) q' j = (if q' = q \<and> j = i then x else frames s q' j)"
  by (simp add: set_entry_def)

section \<open>Allocation through the manager\<close>

definition alloc_pages :: "nat \<Rightarrow> machine \<Rightarrow> (nat option \<times> machine) option" where
  "alloc_pages n s = do {
     (r, p) \<leftarrow> default_alloc_pages n (phys s);
     Some (r, s\<lparr>phys := p\<rparr>) }"

definition free_pages :: "nat \<Rightarrow> nat \<Rightarrow> machine \<Rightarrow> machine option" where
  "free_pages base n s = do {
     p \<leftarrow> default_free_pages base n (phys s);
     Some (s\<lparr>phys := p\<rparr>) }"

definition nr_free_pages :: "machine \<Rightarrow> nat" where
  "nr_free_pages s = default_nr_free_pages (phys s)"

abbreviation alloc_page :: "machine \<Rightarrow> (nat option \<times> machine) option" where
  "alloc_page \<equiv> alloc_pages 1"

abbreviation free_page :: "nat \<Rightarrow> machine \<Rightarrow> machine option" where
  "free_page p \<equiv> free_pages p 1"

section \<open>Page table operations\<close>

text \<open>
  One level of \<open>get_pte\<close>: the table that entry \<open>i\<close> of table \<open>q\<close> points to, created empty when
  it is missing and \<open>create\<close> is set. Both levels of the function are this block of code.
\<close>

definition table_at :: "bool \<Rightarrow> nat \<Rightarrow> nat \<Rightarrow> machine \<Rightarrow> (nat option \<times> machine) option" where
  "table_at create q i s =
     (if and (frames s q i) PTE_V = 0 then
        if \<not> create then Some (None, s)
        else do {
          (r, s1) \<leftarrow> alloc_page s;
          case r of
            None \<Rightarrow> Some (None, s1)
          | Some page \<Rightarrow> do {
              let s2 = page_set_ref page 1 s1;
              k \<leftarrow> KADDR s2 (page2pa page);
              let s3 = set_frame k (\<lambda>_. 0) s2;
              let s4 = set_entry q i
                         (pte_create (of_nat (page2ppn page)) (ucast (or PTE_U PTE_V))) s3;
              t \<leftarrow> KADDR s4 (PTE_ADDR (frames s4 q i));
              Some (Some t, s4) } }
      else do {
        t \<leftarrow> KADDR s (PTE_ADDR (frames s q i));
        Some (Some t, s) })"

definition get_pte ::
  "nat \<Rightarrow> 64 word \<Rightarrow> bool \<Rightarrow> machine \<Rightarrow> ((nat \<times> nat) option \<times> machine) option"
where
  "get_pte pgdir la create s = do {
     (r0, s1) \<leftarrow> table_at create pgdir (PDX1 la) s;
     case r0 of
       None \<Rightarrow> Some (None, s1)
     | Some pd0 \<Rightarrow> do {
         (r, s2) \<leftarrow> table_at create pd0 (PDX0 la) s1;
         case r of
           None \<Rightarrow> Some (None, s2)
         | Some pt \<Rightarrow> Some (Some (pt, PTX la), s2) } }"

text \<open>The entry read through a pointer.\<close>

abbreviation deref :: "machine \<Rightarrow> nat \<times> nat \<Rightarrow> 64 word" where
  "deref s ptep \<equiv> frames s (fst ptep) (snd ptep)"

definition get_page :: "nat \<Rightarrow> 64 word \<Rightarrow> machine \<Rightarrow> (nat option \<times> (nat \<times> nat) option) option" where
  "get_page pgdir la s = do {
     (r, s1) \<leftarrow> get_pte pgdir la False s;
     case r of
       None \<Rightarrow> Some (None, None)
     | Some ptep \<Rightarrow>
         if and (deref s1 ptep) PTE_V \<noteq> 0
         then do { p \<leftarrow> pte2page s1 (deref s1 ptep); Some (Some p, Some ptep) }
         else Some (None, Some ptep) }"

definition page_remove_pte :: "nat \<times> nat \<Rightarrow> machine \<Rightarrow> machine option" where
  "page_remove_pte ptep s =
     (if and (deref s ptep) PTE_V \<noteq> 0 then do {
        page \<leftarrow> pte2page s (deref s ptep);
        let s1 = page_ref_dec page s;
        s2 \<leftarrow> (if page_ref s1 page = 0 then free_page page s1 else Some s1);
        Some (set_entry (fst ptep) (snd ptep) 0 s2) }
      else Some s)"

definition page_remove :: "nat \<Rightarrow> 64 word \<Rightarrow> machine \<Rightarrow> machine option" where
  "page_remove pgdir la s = do {
     (r, s1) \<leftarrow> get_pte pgdir la False s;
     case r of None \<Rightarrow> Some s1 | Some ptep \<Rightarrow> page_remove_pte ptep s1 }"

definition page_insert ::
  "nat \<Rightarrow> nat \<Rightarrow> 64 word \<Rightarrow> 32 word \<Rightarrow> machine \<Rightarrow> (int \<times> machine) option"
where
  "page_insert pgdir page la perm s = do {
     (r, s1) \<leftarrow> get_pte pgdir la True s;
     case r of
       None \<Rightarrow> Some (- E_NO_MEM, s1)
     | Some ptep \<Rightarrow> do {
         let s2 = page_ref_inc page s1;
         s3 \<leftarrow> (if and (deref s2 ptep) PTE_V \<noteq> 0 then do {
                  p \<leftarrow> pte2page s2 (deref s2 ptep);
                  if p = page then Some (page_ref_dec page s2) else page_remove_pte ptep s2 }
                else Some s2);
         Some (0, set_entry (fst ptep) (snd ptep)
                    (pte_create (of_nat (page2ppn page)) (or (ucast PTE_V) perm)) s3) } }"

definition pgdir_alloc_page ::
  "nat \<Rightarrow> 64 word \<Rightarrow> 32 word \<Rightarrow> machine \<Rightarrow> (nat option \<times> machine) option"
where
  "pgdir_alloc_page pgdir la perm s = do {
     (r, s1) \<leftarrow> alloc_page s;
     case r of
       None \<Rightarrow> Some (None, s1)
     | Some page \<Rightarrow> do {
         (ret, s2) \<leftarrow> page_insert pgdir page la perm s1;
         if ret \<noteq> 0 then do { s3 \<leftarrow> free_page page s2; Some (None, s3) }
         else do {
           kassert (page_ref s2 page = 1);
           Some (Some page, s2) } } }"

text \<open>The do-while loop of \<open>unmap_range\<close>.\<close>

partial_function (option) unmap_loop ::
  "nat \<Rightarrow> 64 word \<Rightarrow> 64 word \<Rightarrow> machine \<Rightarrow> machine option"
where
  "unmap_loop pgdir st en s =
     Option.bind (get_pte pgdir st False s) (\<lambda>(r, s1).
     Option.bind (case r of
         None \<Rightarrow> Some (ROUNDDOWN (st + PTSIZE) PTSIZE, s1)
       | Some ptep \<Rightarrow>
           Option.bind (if deref s1 ptep \<noteq> 0 then page_remove_pte ptep s1 else Some s1)
             (\<lambda>s2. Some (st + PGSIZE, s2)))
       (\<lambda>(st', s2). if st' \<noteq> 0 \<and> st' < en then unmap_loop pgdir st' en s2 else Some s2))"

definition unmap_range :: "nat \<Rightarrow> 64 word \<Rightarrow> 64 word \<Rightarrow> machine \<Rightarrow> machine option" where
  "unmap_range pgdir st en s = do {
     kassert (st mod PGSIZE = 0 \<and> en mod PGSIZE = 0);
     kassert (USER_ACCESS st en);
     unmap_loop pgdir st en s }"

text \<open>
  The inner loop of \<open>exit_range\<close> over the entries of the level 0 directory \<open>pd0\<close>; it returns
  \<open>free_pd0\<close> and the state.
\<close>

definition table_empty :: "machine \<Rightarrow> nat \<Rightarrow> bool" where
  "table_empty s pt \<longleftrightarrow> \<not> list_ex (\<lambda>i. and (frames s pt i) PTE_V \<noteq> 0) [0..<NPTEENTRY]"

partial_function (option) exit_pd0_loop ::
  "nat \<Rightarrow> 64 word \<Rightarrow> 64 word \<Rightarrow> 64 word \<Rightarrow> bool \<Rightarrow> machine \<Rightarrow> (bool \<times> machine) option"
where
  "exit_pd0_loop pd0 d1start d0start en free_pd0 s =
     Option.bind
       (if and (frames s pd0 (PDX0 d0start)) PTE_V \<noteq> 0 then
          Option.bind (pde2page s (frames s pd0 (PDX0 d0start))) (\<lambda>pg.
          Option.bind (page2kva s pg) (\<lambda>pt.
            if table_empty s pt then
              Option.bind (free_page pg s) (\<lambda>s1. Some (free_pd0, set_entry pd0 (PDX0 d0start) 0 s1))
            else Some (free_pd0, s)))
        else Some (False, s))
       (\<lambda>(free', s').
          let d0' = d0start + PTSIZE
          in if d0' \<noteq> 0 \<and> d0' < d1start + PDSIZE \<and> d0' < en
             then exit_pd0_loop pd0 d1start d0' en free' s'
             else Some (free', s'))"

partial_function (option) exit_loop ::
  "nat \<Rightarrow> 64 word \<Rightarrow> 64 word \<Rightarrow> 64 word \<Rightarrow> machine \<Rightarrow> machine option"
where
  "exit_loop pgdir d1start d0start en s =
     Option.bind
       (if and (frames s pgdir (PDX1 d1start)) PTE_V \<noteq> 0 then
          Option.bind (pde2page s (frames s pgdir (PDX1 d1start))) (\<lambda>pg.
          Option.bind (page2kva s pg) (\<lambda>pd0.
          Option.bind (exit_pd0_loop pd0 d1start d0start en True s) (\<lambda>(free_pd0, s1).
            if free_pd0 then
              Option.bind (free_page pg s1) (\<lambda>s2. Some (set_entry pgdir (PDX1 d1start) 0 s2))
            else Some s1)))
        else Some s)
       (\<lambda>s'.
          let d1' = d1start + PDSIZE
          in if d1' \<noteq> 0 \<and> d1' < en then exit_loop pgdir d1' d1' en s' else Some s')"

definition exit_range :: "nat \<Rightarrow> 64 word \<Rightarrow> 64 word \<Rightarrow> machine \<Rightarrow> machine option" where
  "exit_range pgdir st en s = do {
     kassert (st mod PGSIZE = 0 \<and> en mod PGSIZE = 0);
     kassert (USER_ACCESS st en);
     exit_loop pgdir (ROUNDDOWN st PDSIZE) (ROUNDDOWN st PTSIZE) en s }"

text \<open>The do-while loop of \<open>copy_range\<close> and its result code.\<close>

definition copy_page ::
  "nat \<Rightarrow> 64 word \<Rightarrow> 64 word \<Rightarrow> machine \<Rightarrow> machine option"
where
  "copy_page to la pte s = do {
     let perm = (ucast (and pte PTE_USER) :: 32 word);
     page \<leftarrow> pte2page s pte;
     (r, s1) \<leftarrow> alloc_page s;
     np \<leftarrow> r;
     src \<leftarrow> page2kva s1 page;
     dst \<leftarrow> page2kva s1 np;
     let s2 = set_frame dst (frames s1 src) s1;
     (ret, s3) \<leftarrow> page_insert to np la perm s2;
     kassert (ret = 0);
     Some s3 }"

partial_function (option) copy_loop ::
  "nat \<Rightarrow> nat \<Rightarrow> 64 word \<Rightarrow> 64 word \<Rightarrow> machine \<Rightarrow> (int \<times> machine) option"
where
  "copy_loop to frm st en s =
     Option.bind (get_pte frm st False s) (\<lambda>(r, s1).
     case r of
       None \<Rightarrow>
         (let st' = ROUNDDOWN (st + PTSIZE) PTSIZE
          in if st' \<noteq> 0 \<and> st' < en then copy_loop to frm st' en s1 else Some (0, s1))
     | Some ptep \<Rightarrow>
         (let st' = st + PGSIZE in
          if and (deref s1 ptep) PTE_V \<noteq> 0 then
            Option.bind (get_pte to st True s1) (\<lambda>(nr, s2).
            case nr of
              None \<Rightarrow> Some (- E_NO_MEM, s2)
            | Some nptep \<Rightarrow>
                Option.bind (copy_page to st (deref s2 ptep) s2) (\<lambda>s3.
                  if st' \<noteq> 0 \<and> st' < en then copy_loop to frm st' en s3 else Some (0, s3)))
          else if st' \<noteq> 0 \<and> st' < en then copy_loop to frm st' en s1 else Some (0, s1)))"

definition copy_range ::
  "nat \<Rightarrow> nat \<Rightarrow> 64 word \<Rightarrow> 64 word \<Rightarrow> machine \<Rightarrow> (int \<times> machine) option"
where
  "copy_range to frm st en s = do {
     kassert (st mod PGSIZE = 0 \<and> en mod PGSIZE = 0);
     kassert (USER_ACCESS st en);
     copy_loop to frm st en s }"

section \<open>Boot-time mappings\<close>

primrec boot_map_loop ::
  "nat \<Rightarrow> nat \<Rightarrow> 64 word \<Rightarrow> 64 word \<Rightarrow> 32 word \<Rightarrow> machine \<Rightarrow> machine option"
where
  "boot_map_loop 0 pgdir la pa perm s = Some s"
| "boot_map_loop (Suc n) pgdir la pa perm s = do {
     (r, s1) \<leftarrow> get_pte pgdir la True s;
     ptep \<leftarrow> r;
     let s2 = set_entry (fst ptep) (snd ptep)
                (pte_create (drop_bit 12 pa) (or (ucast PTE_V) perm)) s1;
     boot_map_loop n pgdir (la + PGSIZE) (pa + PGSIZE) perm s2 }"

definition boot_map_segment ::
  "nat \<Rightarrow> 64 word \<Rightarrow> 64 word \<Rightarrow> 64 word \<Rightarrow> 32 word \<Rightarrow> machine \<Rightarrow> machine option"
where
  "boot_map_segment pgdir la sz pa perm s = do {
     kassert (PGOFF la = PGOFF pa);
     boot_map_loop (unat (ROUNDUP (sz + PGOFF la) PGSIZE div PGSIZE)) pgdir
       (ROUNDDOWN la PGSIZE) (ROUNDDOWN pa PGSIZE) perm s }"

definition boot_alloc_page :: "machine \<Rightarrow> (nat \<times> machine) option" where
  "boot_alloc_page s = do {
     (r, s1) \<leftarrow> alloc_page s;
     p \<leftarrow> r;
     k \<leftarrow> page2kva s1 p;
     Some (k, s1) }"

end
