(* ===== verification/AddrSpace.thy ===== *)
theory AddrSpace
imports PageTable
begin

text \<open>
  The address space that a page directory stands for. A directory is a tree of tables reached
  along paths of entry indices (\<open>node\<close>); its meaning is the function \<open>entry\<close> from linear
  addresses to leaf entries. \<open>pt_ok\<close> says that the tables form a tree of allocated pages,
  \<open>space_ok\<close> adds what user mappings satisfy. The lemmas give the effect of every page table
  operation on \<open>entry\<close>: the walk, the insertion and removal of a mapping, the loops of
  \<open>unmap_range\<close> and \<open>exit_range\<close>.
\<close>

section \<open>Bits of entries and addresses\<close>

lemma and_PTE_V: "and x PTE_V \<noteq> 0 \<longleftrightarrow> bit x 0"
  by (simp add: PTE_V_def and_one_eq odd_iff_mod_2_eq_one [symmetric] bit_0)

lemma pte_create_valid [simp]: "bit (pte_create w ty) 0"
  by (simp add: pte_create_def PTE_V_def bit_simps)


lemma drop_push_12: "drop_bit 12 (push_bit 12 (w :: 64 word)) = take_bit 52 w"
  by (rule bit_word_eqI) (auto simp: bit_simps)

lemma PPN_page2pa [simp]:
  assumes "page + nbase < 2 ^ 52"
  shows "PPN (page2pa page) = page + nbase"
proof -
  have "take_bit 52 (unat (of_nat (page + nbase) :: 64 word)) = page + nbase"
    using assms by (simp add: unat_of_nat take_bit_nat_eq_self_iff del: of_nat_add)
  then show ?thesis
    by (simp only: PPN_def page2pa_def page2ppn_def drop_push_12 unsigned_take_bit_eq)
qed
lemma page_masks: "(0x3FF :: 64 word) = mask 10" "(0x1FF :: 64 word) = mask 9"
  by (simp_all add: mask_eq_exp_minus_1)

lemma PTE_ADDR_pte_create:
  assumes "take_bit 10 ty = ty"
  shows "drop_bit 12 (PTE_ADDR (pte_create w ty)) = take_bit 52 w"
proof (rule bit_word_eqI)
  fix n assume "n < LENGTH(64)"
  have "\<not> bit ty m" if "10 \<le> m" for m
    using that assms by (metis bit_take_bit_iff not_le)
  then show "bit (drop_bit 12 (PTE_ADDR (pte_create w ty))) n = bit (take_bit 52 w) n"
    by (auto simp: PTE_ADDR_def pte_create_def PTE_V_def page_masks bit_simps)
qed

lemma PPN_pte_create [simp]:
  assumes "take_bit 10 ty = ty" "k < 2 ^ 52"
  shows "PPN (PTE_ADDR (pte_create (of_nat k) ty)) = k"
  using assms
  by (simp add: PPN_def PTE_ADDR_pte_create unsigned_take_bit_eq unat_of_nat take_bit_nat_eq_self_iff)

lemma index_nat: "unat (and (drop_bit n la) 0x1FF) = unat (la :: 64 word) div 2 ^ n mod 2 ^ 9"
proof -
  have "unat (and (drop_bit n la) 0x1FF) = take_bit 9 (unat (drop_bit n la))"
    by (simp only: page_masks take_bit_eq_mask [symmetric] unsigned_take_bit_eq)
  also have "unat (drop_bit n la) = unat la div 2 ^ n"
    by (simp only: unat_drop_bit_eq drop_bit_eq_div [where 'a = nat])
  finally show ?thesis by (simp only: take_bit_eq_mod)
qed

lemma index_less: "PDX1 la < 512" "PDX0 la < 512" "PTX la < 512"
  by (simp_all add: PDX1_def PDX0_def PTX_def index_nat)

text \<open>The indices of a user address determine its page.\<close>
definition vpn :: "64 word \<Rightarrow> nat" where "vpn la = unat la div 4096"

lemma indices_vpn:
  "PDX1 la = vpn la div 262144 mod 512" "PDX0 la = vpn la div 512 mod 512" "PTX la = vpn la mod 512"
  by (simp_all add: PDX1_def PDX0_def PTX_def index_nat vpn_def div_mult2_eq [symmetric])

lemma vpn_of_indices:
  assumes "(v :: nat) < 2 ^ 27"
  shows "v = (v div 262144 mod 512) * 262144 + (v div 512 mod 512) * 512 + v mod 512"
proof -
  have a: "v div 262144 mod 512 = v div 512 div 512"
    using assms by (simp add: less_mult_imp_div_less flip: div_mult2_eq)
  have b: "v = v div 512 * 512 + v mod 512"
    "v div 512 = v div 512 div 512 * 512 + v div 512 mod 512" by (rule div_mult_mod_eq [symmetric])+
  show ?thesis unfolding a using b by linarith
qed

lemma indices_eq_vpn:
  assumes "vpn a < 2 ^ 27" "vpn b < 2 ^ 27"
    and "PDX1 a = PDX1 b" "PDX0 a = PDX0 b" "PTX a = PTX b"
  shows "vpn a = vpn b"
  using vpn_of_indices [OF assms(1)] vpn_of_indices [OF assms(2)] assms(3-5)
  unfolding indices_vpn by metis

lemma alloc_attr:
  assumes "default_alloc_pages n s = Some (r, s')"
  shows "pg_ref (page_of s' p) = pg_ref (page_of s p)"
    and "PageReserved (page_of s' p) = PageReserved (page_of s p)"
proof -
  have "pg_ref (page_of (take_block page n s) p) = pg_ref (page_of s p) \<and>
      PageReserved (page_of (take_block page n s) p) = PageReserved (page_of s p)" for page
    by (simp add: take_block_def Let_def)
  then have "pg_ref (page_of s' p) = pg_ref (page_of s p) \<and> PageReserved (page_of s' p) = PageReserved (page_of s p)"
    using assms unfolding default_alloc_pages_def
    by (auto simp: bind_kassert split: if_splits option.splits bind_splits)
  then show "pg_ref (page_of s' p) = pg_ref (page_of s p)"
    "PageReserved (page_of s' p) = PageReserved (page_of s p)" by simp_all
qed

lemma insert_loop_page_of:
  assumes "insert_loop base le s = Some s'"
  shows "page_of s' = page_of s"
proof (rule insert_loop.raw_induct [of "\<lambda>_ _ s s'. page_of s' = page_of s", OF _ assms])
  fix rec base le s s'
  assume IH: "\<And>b le s s'. rec b le s = Some s' \<Longrightarrow> page_of s' = page_of s"
    and "(case list_next le (free_links s) of FreeList \<Rightarrow> Some s
      | PageLink page \<Rightarrow>
          if base < page then Some (upd_links (list_add_before (PageLink page) (PageLink base)) s)
          else if list_next (PageLink page) (free_links s) = FreeList
          then rec base (PageLink page) (upd_links (list_add (PageLink page) (PageLink base)) s)
          else rec base (PageLink page) s) = Some s'"
  then show "page_of s' = page_of s" by (auto split: fnode.splits if_splits dest!: IH)
qed

lemma free_attr:
  assumes "default_free_pages b 1 s = Some s'" "p \<noteq> b"
  shows "pg_ref (page_of s' p) = pg_ref (page_of s p)"
    and "PageReserved (page_of s' p) = PageReserved (page_of s p)"
proof -
  obtain s1 s2 where s1: "free_pages_loop 1 b s = Some s1"
    and s2: "insert_free_block b (set_block_head b 1 s1) = Some s2"
    and s': "s' = (let (b', s3) = merge_backward b s2 in merge_forward b' s3)"
    using assms(1) unfolding default_free_pages_def
    by (auto split: bind_splits simp: Let_def case_prod_unfold)
  have "page_of s2 = page_of (set_block_head b 1 s1)"
    using s2 insert_loop_page_of by (auto simp: insert_free_block_def split: if_splits)
  moreover have "page_of s1 p = page_of s p"
    using s1 assms(2) by (auto simp: bind_kassert numeral_eq_Suc split: if_splits)
  moreover have "pg_ref (page_of (merge_forward x s3) p) = pg_ref (page_of s3 p)"
    "PageReserved (page_of (merge_forward x s3) p) = PageReserved (page_of s3 p)"
    "pg_ref (page_of (snd (merge_backward x s3)) p) = pg_ref (page_of s3 p)"
    "PageReserved (page_of (snd (merge_backward x s3)) p) = PageReserved (page_of s3 p)" for x s3
    by (simp_all add: merge_forward_def merge_backward_def Let_def split: fnode.splits)
  ultimately show "pg_ref (page_of s' p) = pg_ref (page_of s p)"
    "PageReserved (page_of s' p) = PageReserved (page_of s p)"
    using assms(2) by (simp_all add: s' case_prod_unfold Let_def set_block_head_def)
qed

text \<open>The reference count plays no part in the manager's invariant.\<close>

definition same_free :: "pmm \<Rightarrow> pmm \<Rightarrow> bool" where
  "same_free s t \<longleftrightarrow> free_links s = free_links t \<and> nr_free s = nr_free t \<and>
     (\<forall>p. property_of s p = property_of t p \<and> PageProperty (page_of s p) = PageProperty (page_of t p) \<and>
        PageReserved (page_of s p) = PageReserved (page_of t p))"

lemma same_free_list:
  assumes "same_free s t"
  shows "list_inv s = list_inv t" "list_free_set s = list_free_set t"
    "list_freeable s p n = list_freeable t p n"
  using assms by (simp_all add: same_free_def list_inv_def list_free_set_def list_freeable_def free_rep_def)

lemma same_free_upd_ref: "same_free (upd_page p (\<lambda>pg. pg\<lparr>pg_ref := f pg\<rparr>) s) s"
  by (simp add: same_free_def property_of_def)

lemmas list_upd_ref [simp] = same_free_list [OF same_free_upd_ref]

section \<open>A directory as a radix tree\<close>

definition sub_table :: "machine \<Rightarrow> nat \<Rightarrow> nat \<Rightarrow> nat option" where
  "sub_table s q i =
     (if and (frames s q i) PTE_V = 0 then None else Some (PPN (PTE_ADDR (frames s q i))))"

text \<open>The table reached from \<open>d\<close> along a path of entry indices.\<close>

primrec node :: "machine \<Rightarrow> nat \<Rightarrow> nat list \<Rightarrow> nat option" where
  "node s d [] = Some d"
| "node s d (i # is) = Option.bind (sub_table s d i) (\<lambda>q. node s q is)"

lemma node_append: "node s d (xs @ ys) = Option.bind (node s d xs) (\<lambda>q. node s q ys)"
  by (induction xs arbitrary: d) (auto split: bind_splits)

lemma node_snoc: "node s d (xs @ [i]) = Option.bind (node s d xs) (\<lambda>q. sub_table s q i)"
  by (simp add: node_append)

definition paths :: "nat list set" where
  "paths = {xs. length xs \<le> 2 \<and> set xs \<subseteq> {..<512}}"

lemma path_prefix: "xs @ ys \<in> paths \<Longrightarrow> xs \<in> paths"
  by (simp add: paths_def)

definition leaf_path :: "64 word \<Rightarrow> nat list" where
  "leaf_path la = [PDX1 la, PDX0 la]"

lemma path_indices [simp]:
  "[] \<in> paths" "[PDX1 la] \<in> paths" "leaf_path la \<in> paths" "length (leaf_path la) = 2"
  by (simp_all add: paths_def leaf_path_def index_less)

text \<open>
  A well-formed address space: the manager's invariant, free pages are memory of the machine,
  and the tables of the directory form a tree of allocated pages.
\<close>

definition pt_ok :: "machine \<Rightarrow> nat \<Rightarrow> bool" where
  "pt_ok s d \<longleftrightarrow>
     list_inv (phys s) \<and> npage s \<le> 2 ^ 52 \<and>
     (\<forall>p \<in> list_free_set (phys s). p + nbase < npage s) \<and>
     (\<forall>xs \<in> paths. \<forall>q. node s d xs = Some q \<longrightarrow>
        nbase \<le> q \<and> q < npage s \<and> q - nbase \<notin> list_free_set (phys s)) \<and>
     (\<forall>xs \<in> paths. \<forall>ys \<in> paths. \<forall>q. node s d xs = Some q \<longrightarrow> node s d ys = Some q \<longrightarrow> xs = ys)"

lemma pt_okD:
  assumes "pt_ok s d"
  shows "list_inv (phys s)" "npage s \<le> 2 ^ 52"
    "p \<in> list_free_set (phys s) \<Longrightarrow> p + nbase < npage s"
    "xs \<in> paths \<Longrightarrow> node s d xs = Some q \<Longrightarrow> nbase \<le> q"
    "xs \<in> paths \<Longrightarrow> node s d xs = Some q \<Longrightarrow> q < npage s"
    "xs \<in> paths \<Longrightarrow> node s d xs = Some q \<Longrightarrow> q - nbase \<notin> list_free_set (phys s)"
    "xs \<in> paths \<Longrightarrow> ys \<in> paths \<Longrightarrow> node s d xs = Some q \<Longrightarrow> node s d ys = Some q \<Longrightarrow> xs = ys"
  using assms unfolding pt_ok_def by blast+

text \<open>Linking a fresh empty table under entry \<open>i\<close> of the table at \<open>xs\<close>.\<close>

lemma node_link:
  assumes xs: "node s d xs = Some q" "xs @ [i] \<in> paths" and none: "sub_table s q i = None"
    and inj: "\<And>ys. ys \<in> paths \<Longrightarrow> node s d ys = Some q \<Longrightarrow> ys = xs"
    and fresh: "\<And>ys. ys \<in> paths \<Longrightarrow> node s d ys \<noteq> Some n"
    and new: "sub_table s' q i = Some n" "\<And>j. sub_table s' n j = None"
    and same: "\<And>t j. t \<noteq> n \<Longrightarrow> (t, j) \<noteq> (q, i) \<Longrightarrow> sub_table s' t j = sub_table s t j"
    and ys: "ys \<in> paths"
  shows "node s' d ys = (if ys = xs @ [i] then Some n else node s d ys)"
  using ys
proof (induction ys rule: rev_induct)
  case Nil
  then show ?case by simp
next
  case (snoc y ys)
  then have p: "ys \<in> paths" by (simp add: path_prefix)
  note IH = snoc.IH [OF p]
  have last: "node s d (xs @ [i]) = None" using xs none by (simp add: node_snoc)
  show ?case
  proof (cases "ys = xs @ [i]")
    case True
    then show ?thesis using IH new(2) last
      unfolding node_snoc [of s' d ys y] node_snoc [of s d ys y] by simp
  next
    case False
    then have eq: "node s' d ys = node s d ys" using IH by simp
    show ?thesis
    proof (cases "node s d ys")
      case None
      then show ?thesis using eq xs(1) by (auto simp: node_snoc)
    next
      case (Some r)
      have rn: "r \<noteq> n" using fresh [OF p] Some by auto
      have rq: "r = q \<longleftrightarrow> ys = xs" using inj [OF p] Some xs(1) by auto
      show ?thesis
      proof (cases "ys = xs \<and> y = i")
        case True
        then show ?thesis using eq Some new(1) rq by (simp add: node_snoc)
      next
        case ne: False
        then have "sub_table s' r y = sub_table s r y" using same [OF rn, of y] rq by auto
        then show ?thesis using eq Some ne by (auto simp: node_snoc)
      qed
    qed
  qed
qed

lemma sub_table_cong: "frames s' q i = frames s q i \<Longrightarrow> sub_table s' q i = sub_table s q i"
  by (simp add: sub_table_def)

lemma node_cong:
  assumes "\<And>xs zs q. ys = xs @ zs \<Longrightarrow> zs \<noteq> [] \<Longrightarrow> node s d xs = Some q \<Longrightarrow> frames s' q = frames s q"
  shows "node s' d ys = node s d ys"
  using assms
proof (induction ys rule: rev_induct)
  case (snoc y ys)
  have "node s' d ys = node s d ys"
  proof (rule snoc.IH)
    fix xs zs q assume "ys = xs @ zs" "zs \<noteq> []" "node s d xs = Some q"
    then show "frames s' q = frames s q" using snoc.prems [of xs "zs @ [y]" q] by simp
  qed
  moreover have "sub_table s' q y = sub_table s q y" if "node s d ys = Some q" for q
    using snoc.prems [of ys "[y]" q] that by (simp add: sub_table_def)
  ultimately show ?case by (cases "node s d ys") (simp_all add: node_snoc)
qed simp

definition entry :: "machine \<Rightarrow> nat \<Rightarrow> 64 word \<Rightarrow> 64 word" where
  "entry s d la = (case node s d (leaf_path la) of None \<Rightarrow> 0 | Some t \<Rightarrow> frames s t (PTX la))"

text \<open>What creating a table leaves alone: all contents but those of free pages and of one entry.\<close>

definition grown :: "machine \<Rightarrow> machine \<Rightarrow> nat \<Rightarrow> bool" where
  "grown s s' d \<longleftrightarrow>
     npage s' = npage s \<and> list_free_set (phys s') \<subseteq> list_free_set (phys s) \<and>
     (\<forall>la. entry s' d la = entry s d la) \<and>
     (\<forall>xs \<in> paths. \<forall>q. node s d xs = Some q \<longrightarrow> node s' d xs = Some q) \<and>
     (\<forall>xs \<in> paths. \<forall>q. node s' d xs = Some q \<longrightarrow>
        node s d xs = Some q \<or> q - nbase \<in> list_free_set (phys s)) \<and>
     (\<forall>p. p \<notin> list_free_set (phys s) \<longrightarrow> page_ref s' p = page_ref s p) \<and>
     (\<forall>p. PageReserved (page_of (phys s') p) = PageReserved (page_of (phys s) p)) \<and>
     (\<forall>k. k - nbase \<notin> list_free_set (phys s) \<longrightarrow> (\<forall>xs \<in> paths. node s d xs \<noteq> Some k) \<longrightarrow>
        frames s' k = frames s k)"

lemma grownD:
  assumes "grown s s' d"
  shows "npage s' = npage s" "p \<in> list_free_set (phys s') \<Longrightarrow> p \<in> list_free_set (phys s)"
    "entry s' d la = entry s d la"
    "xs \<in> paths \<Longrightarrow> node s d xs = Some q \<Longrightarrow> node s' d xs = Some q"
    "xs \<in> paths \<Longrightarrow> node s' d xs = Some q \<Longrightarrow>
       node s d xs = Some q \<or> q - nbase \<in> list_free_set (phys s)"
    "p \<notin> list_free_set (phys s) \<Longrightarrow> page_ref s' p = page_ref s p"
    "PageReserved (page_of (phys s') p) = PageReserved (page_of (phys s) p)"
    "k - nbase \<notin> list_free_set (phys s) \<Longrightarrow> (\<And>xs. xs \<in> paths \<Longrightarrow> node s d xs \<noteq> Some k) \<Longrightarrow>
       frames s' k = frames s k"
  using assms unfolding grown_def by (blast | simp)+

lemma grown_chain:
  assumes "grown s s1 d" "grown s1 s2 d"
  shows "grown s s2 d"
  unfolding grown_def
proof (intro conjI allI ballI impI)
  fix k assume k: "k - nbase \<notin> list_free_set (phys s)" "\<forall>xs \<in> paths. node s d xs \<noteq> Some k"
  then have "frames s1 k = frames s k" using grownD(8) [OF assms(1)] by blast
  moreover have "frames s2 k = frames s1 k"
    using grownD(8) [OF assms(2)] grownD(2,5) [OF assms(1)] k by blast
  ultimately show "frames s2 k = frames s k" by simp
next
  fix xs q assume "xs \<in> paths" "node s2 d xs = Some q"
  then show "node s d xs = Some q \<or> q - nbase \<in> list_free_set (phys s)"
    using grownD(5) [OF assms(2)] grownD(2,5) [OF assms(1)] by blast
next
  fix p assume p: "p \<notin> list_free_set (phys s)"
  then have "p \<notin> list_free_set (phys s1)" using grownD(2) [OF assms(1)] by blast
  then show "page_ref s2 p = page_ref s p"
    using grownD(6) [OF assms(1) p] grownD(6) [OF assms(2)] by simp
qed (use grownD [OF assms(1)] grownD [OF assms(2)] in \<open>auto simp: subset_iff\<close>)

lemma grown_same [simp]: "grown s s d"
  by (simp add: grown_def)

text \<open>A page that comes from the manager is new to a well-formed address space.\<close>

lemma alloc_page_spec:
  assumes "list_inv (phys s)"
  obtains (none) "alloc_page s = Some (None, s)" "list_free_set (phys s) = {}"
  | (page) p s1 where "alloc_page s = Some (Some p, s1)" "list_inv (phys s1)" "p \<in> list_free_set (phys s)"
      "list_free_set (phys s1) = list_free_set (phys s) - {p}" "npage s1 = npage s" "frames s1 = frames s"
      "\<And>q. page_ref s1 q = page_ref s q"
      "\<And>q. PageReserved (page_of (phys s1) q) = PageReserved (page_of (phys s) q)"
  using assms
proof (cases rule: ff.alloc_page_cases)
  case empty
  then show ?thesis using none by (simp add: alloc_pages_def)
next
  case (page p t)
  show ?thesis
  proof (rule that(2))
    show "alloc_page s = Some (Some p, s\<lparr>phys := t\<rparr>)" using page(1) by (simp add: alloc_pages_def)
  qed (use page alloc_attr [OF page(1)] in \<open>simp_all add: page_ref_def\<close>)
qed

lemma page_set_ref_simps [simp]:
  "list_inv (phys (page_set_ref p v s)) = list_inv (phys s)"
  "list_free_set (phys (page_set_ref p v s)) = list_free_set (phys s)"
  "page_ref (page_set_ref p v s) q = (if q = p then v else page_ref s q)"
  "PageReserved (page_of (phys (page_set_ref p v s)) q) = PageReserved (page_of (phys s) q)"
proof -
  have "set_page_ref v = (\<lambda>pg. pg\<lparr>pg_ref := v\<rparr>)" by (rule ext) (simp add: set_page_ref_def)
  then show "list_inv (phys (page_set_ref p v s)) = list_inv (phys s)"
    "list_free_set (phys (page_set_ref p v s)) = list_free_set (phys s)"
    by (simp_all add: page_set_ref_def)
qed (simp_all add: page_set_ref_def page_ref_def upd_phys_def)

lemma page_ref_set [simp]:
  "page_ref (set_entry q i x s) p = page_ref s p" "page_ref (set_frame q c s) p = page_ref s p"
  by (simp_all add: page_ref_def)

definition table_pte :: "nat \<Rightarrow> 64 word" where
  "table_pte page = pte_create (of_nat (page2ppn page)) (ucast (or PTE_U PTE_V))"

lemma PPN_table_pte [simp]: "page + nbase < 2 ^ 52 \<Longrightarrow> PPN (PTE_ADDR (table_pte page)) = page + nbase"
  unfolding table_pte_def page2ppn_def
  by (rule PPN_pte_create) (simp_all add: PTE_U_def PTE_V_def)

lemma table_pte_valid [simp]: "and (table_pte page) PTE_V \<noteq> 0"
  by (simp add: table_pte_def and_PTE_V)

lemma frame_nbase: "nbase \<le> k \<Longrightarrow> k - nbase = p \<longleftrightarrow> k = p + nbase"
  by auto


lemma table_at_spec:
  assumes ok: "pt_ok s d" and xs: "node s d xs = Some q" "xs @ [i] \<in> paths"
  obtains r s' where "table_at create q i s = Some (r, s')" "pt_ok s' d" "grown s s' d"
    "node s' d (xs @ [i]) = r" "\<not> create \<longrightarrow> s' = s"
    "create \<and> r = None \<longrightarrow> list_free_set (phys s) = {}" "sub_table s q i \<noteq> None \<longrightarrow> s' = s"
proof (cases "sub_table s q i")
  case (Some t)
  then have n: "node s d (xs @ [i]) = Some t" using xs(1) by (simp add: node_snoc)
  have "table_at create q i s = Some (Some t, s)"
    using Some pt_okD(5) [OF ok xs(2) n]
    by (auto simp: table_at_def sub_table_def KADDR_def split: if_splits)
  then show thesis using that [of "Some t" s] n ok Some by simp
next
  case None
  then have z: "and (frames s q i) PTE_V = 0" by (simp add: sub_table_def split: if_splits)
  have n: "node s d (xs @ [i]) = None" using xs(1) None by (simp add: node_snoc)
  show thesis
  proof (cases create)
    case False
    then have "table_at create q i s = Some (None, s)" using z by (simp add: table_at_def)
    then show thesis using that [of None s] n ok False by simp
  next
    case True
    from pt_okD(1) [OF ok] show thesis
    proof (cases rule: alloc_page_spec)
      case none
      then have "table_at create q i s = Some (None, s)" using z True by (simp add: table_at_def)
      then show thesis using that [of None s] n ok none True None by simp
    next
      case (page p s1)
      define k where "k = p + nbase"
      have k: "k < npage s" "k < 2 ^ 52" "k - nbase = p"
        using pt_okD(3) [OF ok page(3)] pt_okD(2) [OF ok] by (simp_all add: k_def)
      define s' where "s' = set_entry q i (table_pte p) (set_frame k (\<lambda>_. 0) (page_set_ref p 1 s1))"
      have eq: "table_at create q i s = Some (Some k, s')"
        using z True page(1,5,6) k
        by (simp add: table_at_def KADDR_def s'_def k_def flip: table_pte_def)
      have qk: "q \<noteq> k" and fresh: "node s d ys \<noteq> Some k" if "ys \<in> paths" for ys
        using pt_okD(6) [OF ok _ xs(1)] pt_okD(6) [OF ok that] path_prefix [OF xs(2)] k(3) page(3)
        by (auto simp del: diff_is_0_eq)
      have fr: "frames s' t = (if t = q then (frames s q)(i := table_pte p) else if t = k then \<lambda>_. 0
          else frames s t)" for t
        using qk [OF path_prefix [OF xs(2)]] page(6) by (auto simp: s'_def)
      have link: "node s' d ys = (if ys = xs @ [i] then Some k else node s d ys)" if "ys \<in> paths" for ys
      proof (rule node_link [OF xs None _ fresh _ _ _ that])
        show "ys = xs" if "ys \<in> paths" "node s d ys = Some q" for ys
          using pt_okD(7) [OF ok that(1) path_prefix [OF xs(2)] that(2) xs(1)] .
        show "sub_table s' q i = Some k" using k by (simp add: sub_table_def fr k_def)
        show "sub_table s' k j = None" for j using qk [OF path_prefix [OF xs(2)]] by (simp add: sub_table_def fr)
        show "sub_table s' t j = sub_table s t j" if "t \<noteq> k" "(t, j) \<noteq> (q, i)" for t j
          using that by (auto simp: sub_table_def fr)
      qed
      have s': "list_inv (phys s')" "list_free_set (phys s') = list_free_set (phys s) - {p}"
        "npage s' = npage s" "page_ref s' u = (if u = p then 1 else page_ref s u)"
        "PageReserved (page_of (phys s') u) = PageReserved (page_of (phys s) u)" for u
        using page by (simp_all add: s'_def)
      have ok': "pt_ok s' d"
        unfolding pt_ok_def
      proof (intro conjI ballI allI impI)
        show "list_inv (phys s')" "npage s' \<le> 2 ^ 52"
          using s' pt_okD(2) [OF ok] by simp_all
        show "r + nbase < npage s'" if "r \<in> list_free_set (phys s')" for r
          using that s' pt_okD(3) [OF ok] by simp
        fix ys t assume ys: "ys \<in> paths" "node s' d ys = Some t"
        show "nbase \<le> t" "t < npage s'" "t - nbase \<notin> list_free_set (phys s')"
          using ys(2) pt_okD(4-6) [OF ok ys(1)] k
          by (auto simp: link [OF ys(1)] s'(2,3) k_def split: if_splits)
        fix zs assume zs: "zs \<in> paths" "node s' d zs = Some t"
        show "ys = zs"
          using ys zs pt_okD(7) [OF ok ys(1) zs(1)] fresh [OF ys(1)] fresh [OF zs(1)]
          by (auto simp: link split: if_splits)
      qed
      have "entry s' d la = entry s d la" for la
      proof (cases "node s d (leaf_path la)")
        case None
        then show ?thesis using qk [OF path_prefix [OF xs(2)]] by (simp add: entry_def link fr)
      next
        case (Some t)
        have "leaf_path la \<noteq> xs" using xs(2) path_indices(4) [of la] by (auto simp: paths_def)
        then have "t \<noteq> q" using pt_okD(7) [OF ok _ path_prefix [OF xs(2)] _ xs(1), of "leaf_path la"] Some by auto
        moreover have "t \<noteq> k" using fresh [of "leaf_path la"] Some by auto
        moreover have "leaf_path la \<noteq> xs @ [i]" using Some n by auto
        ultimately show ?thesis using Some by (simp add: entry_def link fr)
      qed
      then have "grown s s' d"
        unfolding grown_def using page(3) k qk [OF path_prefix [OF xs(2)]] n xs path_prefix [OF xs(2)]
        by (auto simp: link fr s')
      then show thesis using that [OF eq ok'] link [OF xs(2)] True None by simp
    qed
  qed
qed

lemma get_pte_spec:
  assumes ok: "pt_ok s d"
  obtains r s' where "get_pte d la create s = Some (map_option (\<lambda>t. (t, PTX la)) r, s')"
    "pt_ok s' d" "grown s s' d" "node s' d (leaf_path la) = r" "\<not> create \<longrightarrow> s' = s"
    "create \<and> r = None \<longrightarrow> list_free_set (phys s') = {}"
    "node s d (leaf_path la) \<noteq> None \<longrightarrow> s' = s"
proof -
  obtain r1 s1 where f: "table_at create d (PDX1 la) s = Some (r1, s1)" "pt_ok s1 d" "grown s s1 d"
    "node s1 d ([] @ [PDX1 la]) = r1" "\<not> create \<longrightarrow> s1 = s"
    "create \<and> r1 = None \<longrightarrow> list_free_set (phys s) = {}" "sub_table s d (PDX1 la) \<noteq> None \<longrightarrow> s1 = s"
    by (rule table_at_spec [OF ok, of "[]" d "PDX1 la" create]) simp_all
  show thesis
  proof (cases r1)
    case None
    have "node s1 d (leaf_path la) = None" using f(4) None by (simp add: leaf_path_def)
    moreover have "list_free_set (phys s1) = {}" if create
      using f(6) None that grownD(2) [OF f(3)] by auto
    moreover have "node s d (leaf_path la) \<noteq> None \<longrightarrow> s1 = s"
      using f(7) by (auto simp: leaf_path_def)
    ultimately show thesis using that [of None s1] f None by (simp add: get_pte_def)
  next
    case (Some q)
    obtain r s2 where g: "table_at create q (PDX0 la) s1 = Some (r, s2)" "pt_ok s2 d" "grown s1 s2 d"
      "node s2 d ([PDX1 la] @ [PDX0 la]) = r" "\<not> create \<longrightarrow> s2 = s1"
      "create \<and> r = None \<longrightarrow> list_free_set (phys s1) = {}" "sub_table s1 q (PDX0 la) \<noteq> None \<longrightarrow> s2 = s1"
    proof (rule table_at_spec [OF f(2), of "[PDX1 la]" q "PDX0 la" create])
      show "[PDX1 la] @ [PDX0 la] \<in> paths" using path_indices(3) [of la] by (simp add: leaf_path_def)
    qed (use f(4) Some in simp)
    have r: "node s2 d (leaf_path la) = r" using g(4) by (simp add: leaf_path_def)
    have "list_free_set (phys s2) = {}" if "create" "r = None"
      using g(6) that grownD(2) [OF g(3)] by auto
    moreover have "s2 = s" if "node s d (leaf_path la) \<noteq> None"
    proof -
      have "s1 = s" using f(7) that by (auto simp: leaf_path_def)
      moreover have "sub_table s q (PDX0 la) \<noteq> None"
        using that f(4) Some \<open>s1 = s\<close> by (simp add: leaf_path_def)
      ultimately show ?thesis using g(7) by simp
    qed
    moreover have "get_pte d la create s = Some (map_option (\<lambda>t. (t, PTX la)) r, s2)"
      using f(1) Some g(1) by (cases r) (simp_all add: get_pte_def)
    ultimately show thesis using that g(2,5) grown_chain [OF f(3) g(3)] r f(5) by blast
  qed
qed

abbreviation valid :: "64 word \<Rightarrow> bool" where
  "valid x \<equiv> and x PTE_V \<noteq> 0"

definition same_page :: "64 word \<Rightarrow> 64 word \<Rightarrow> bool" where
  "same_page la lb \<longleftrightarrow> leaf_path la = leaf_path lb \<and> PTX la = PTX lb"

text \<open>
  A user address space: what an entry maps is an allocated page below some free page (the
  first-fit manager cannot take back a page behind all free blocks), not a table, counted at
  least once and mapped at one address.
\<close>

definition user_page :: "machine \<Rightarrow> nat \<Rightarrow> nat \<Rightarrow> bool" where
  "user_page s d p \<longleftrightarrow>
     p + nbase < npage s \<and> p \<notin> list_free_set (phys s) \<and> \<not> PageReserved (page_of (phys s) p) \<and>
     (\<exists>q \<in> list_free_set (phys s). p < q) \<and> (\<forall>xs \<in> paths. node s d xs \<noteq> Some (p + nbase)) \<and>
     1 \<le> page_ref s p"

definition space_ok :: "machine \<Rightarrow> nat \<Rightarrow> bool" where
  "space_ok s d \<longleftrightarrow>
     pt_ok s d \<and> npage s < 2 ^ 32 \<and>
     (\<forall>la. valid (entry s d la) \<longrightarrow>
        (\<exists>p. PPN (PTE_ADDR (entry s d la)) = p + nbase \<and> user_page s d p)) \<and>
     (\<forall>la lb. valid (entry s d la) \<longrightarrow> valid (entry s d lb) \<longrightarrow>
        PPN (PTE_ADDR (entry s d la)) = PPN (PTE_ADDR (entry s d lb)) \<longrightarrow> same_page la lb)"

lemma space_okD:
  assumes "space_ok s d"
  shows "pt_ok s d" "npage s < 2 ^ 32"
    "valid (entry s d la) \<Longrightarrow> \<exists>p. PPN (PTE_ADDR (entry s d la)) = p + nbase \<and> user_page s d p"
    "valid (entry s d la) \<Longrightarrow> valid (entry s d lb) \<Longrightarrow>
        PPN (PTE_ADDR (entry s d la)) = PPN (PTE_ADDR (entry s d lb)) \<Longrightarrow> same_page la lb"
  using assms unfolding space_ok_def by blast+

lemma set_leaf:
  assumes ok: "pt_ok s d" and t: "node s d (leaf_path la) = Some t"
    and fr: "\<And>q. frames s' q = (if q = t then (frames s t)(PTX la := x) else frames s q)"
  shows "ys \<in> paths \<Longrightarrow> node s' d ys = node s d ys"
    "entry s' d lb = (if same_page lb la then x else entry s d lb)"
proof -
  have node: "node s' d ys = node s d ys" if ys: "ys \<in> paths" for ys
  proof (rule node_cong)
    fix xs zs q assume a: "ys = xs @ zs" "zs \<noteq> []" "node s d xs = Some q"
    then have "xs \<in> paths" "xs \<noteq> leaf_path la" using ys path_prefix path_indices(4) [of la]
      by (auto simp: paths_def)
    then have "q \<noteq> t" using pt_okD(7) [OF ok _ _ a(3), of "leaf_path la"] t by auto
    then show "frames s' q = frames s q" by (simp add: fr)
  qed
  show "ys \<in> paths \<Longrightarrow> node s' d ys = node s d ys" by (rule node)
  show "entry s' d lb = (if same_page lb la then x else entry s d lb)"
  proof (cases "node s d (leaf_path lb)")
    case None
    then have "leaf_path lb \<noteq> leaf_path la" using t by auto
    then show ?thesis using None by (simp add: entry_def node same_page_def)
  next
    case (Some u)
    have "u = t \<longleftrightarrow> leaf_path lb = leaf_path la"
      using pt_okD(7) [OF ok _ _ _ t, of "leaf_path lb"] Some t by auto
    then show ?thesis using Some by (auto simp: entry_def node fr same_page_def)
  qed
qed

lemma page_ref_dec_simps [simp]:
  "list_inv (phys (page_ref_dec p s)) = list_inv (phys s)"
  "list_free_set (phys (page_ref_dec p s)) = list_free_set (phys s)"
  "list_freeable (phys (page_ref_dec p s)) q n = list_freeable (phys s) q n"
  "page_ref (page_ref_dec p s) q = (if q = p then page_ref s p - 1 else page_ref s q)"
  "PageReserved (page_of (phys (page_ref_dec p s)) q) = PageReserved (page_of (phys s) q)"
  by (simp_all add: page_ref_dec_def page_ref_def)

text \<open>The manager takes back an allocated page that has a free page behind it.\<close>

lemma below_top_freeable:
  assumes "list_inv t" "\<forall>p \<in> list_free_set t. p + nbase < n" "n < 2 ^ 32"
    and "p \<notin> list_free_set t" "\<not> PageReserved (page_of t p)" "\<exists>q \<in> list_free_set t. p < q"
  shows "list_freeable t p 1"
proof -
  have "list_free_set t \<subseteq> {..<n - nbase}" using assms(2) by fastforce
  then have "card (list_free_set t) \<le> n - nbase"
    by (metis card_lessThan card_mono finite_lessThan)
  then have "unat (nr_free t) \<le> n - nbase"
    using ff.count_free [OF assms(1)] by (simp add: default_nr_free_pages_def)
  then have "unat (nr_free t) + 1 < 2 ^ 32" using assms(3) by (simp add: nbase_def)
  then show ?thesis using assms(4-6) by (auto simp: list_freeable_def le_less_Suc_eq)
qed

lemma user_page_freeable:
  assumes "pt_ok s d" "npage s < 2 ^ 32" "user_page s d p"
  shows "list_freeable (phys s) p 1"
  using assms pt_okD(1,3) [OF assms(1)]
  by (intro below_top_freeable [of _ "npage s"]) (auto simp: user_page_def)

text \<open>Dropping one reference of a user page.\<close>

lemma drop_ref_spec:
  assumes "pt_ok s d" "npage s < 2 ^ 32" "user_page s d p"
  obtains s2 where
    "(if page_ref (page_ref_dec p s) p = 0 then free_page p (page_ref_dec p s)
      else Some (page_ref_dec p s)) = Some s2"
    "list_inv (phys s2)" "npage s2 = npage s" "frames s2 = frames s"
    "list_free_set (phys s2) = list_free_set (phys s) \<or> list_free_set (phys s2) = insert p (list_free_set (phys s))"
    "\<forall>q. q \<noteq> p \<longrightarrow> page_ref s2 q = page_ref s q"
    "\<forall>q. q \<noteq> p \<longrightarrow> PageReserved (page_of (phys s2) q) = PageReserved (page_of (phys s) q)"
proof (cases "page_ref (page_ref_dec p s) p = 0")
  case False
  then show thesis using that [of "page_ref_dec p s"] pt_okD(1) [OF assms(1)] by auto
next
  case True
  let ?s1 = "page_ref_dec p s"
  have "list_freeable (phys ?s1) p 1" "list_inv (phys ?s1)"
    using user_page_freeable [OF assms] pt_okD(1) [OF assms(1)] by simp_all
  then obtain t where t: "default_free_pages p 1 (phys ?s1) = Some t" "list_inv t"
    "list_free_set t = list_free_set (phys ?s1) \<union> {p..<p + 1}" using ff.release_ok by blast
  define s2 where "s2 = ?s1\<lparr>phys := t\<rparr>"
  have "free_page p ?s1 = Some s2" using t(1) by (simp add: free_pages_def s2_def)
  moreover have "page_ref s2 q = page_ref s q"
    "PageReserved (page_of (phys s2) q) = PageReserved (page_of (phys s) q)" if "q \<noteq> p" for q
    using free_attr [OF t(1) that] that by (simp_all add: s2_def page_ref_def page_ref_dec_def)
  ultimately show thesis using that [of s2] t(2,3) True by (simp add: s2_def)
qed

lemma pt_ok_leaf:
  assumes ok: "pt_ok s d" and t: "node s d (leaf_path la) = Some t"
    and fr: "\<And>q. frames s' q = (if q = t then (frames s t)(PTX la := x) else frames s q)"
    and ph: "list_inv (phys s')" "npage s' = npage s" "list_free_set (phys s') \<subseteq> insert p (list_free_set (phys s))"
    and p: "p + nbase < npage s" "\<forall>xs \<in> paths. node s d xs \<noteq> Some (p + nbase)"
  shows "pt_ok s' d"
  unfolding pt_ok_def
proof (intro conjI ballI allI impI)
  note leaf = set_leaf [OF ok t fr]
  show "list_inv (phys s')" "npage s' \<le> 2 ^ 52" using ph pt_okD(2) [OF ok] by simp_all
  show "r + nbase < npage s'" if "r \<in> list_free_set (phys s')" for r
    using that ph(2,3) pt_okD(3) [OF ok] p(1) by auto
  fix ys q assume ys: "ys \<in> paths" "node s' d ys = Some q"
  then have n: "node s d ys = Some q" by (simp add: leaf)
  have "q \<noteq> p + nbase" using p(2) ys(1) n by auto
  then show "nbase \<le> q" "q < npage s'" "q - nbase \<notin> list_free_set (phys s')"
    using pt_okD(4-6) [OF ok ys(1) n] ph by auto
  fix zs assume "zs \<in> paths" "node s' d zs = Some q"
  then show "ys = zs" using pt_okD(7) [OF ok ys(1) _ n] by (simp add: leaf)
qed

text \<open>Clearing one entry, the page going back to the manager with its last reference.\<close>

lemma page_remove_pte_spec:
  assumes ok: "space_ok s d" and t: "node s d (leaf_path la) = Some t"
  obtains s' where "page_remove_pte (t, PTX la) s = Some s'" "space_ok s' d"
    "\<forall>lb. entry s' d lb = (if same_page lb la \<and> valid (entry s d la) then 0 else entry s d lb)"
    "npage s' = npage s"
proof (cases "valid (entry s d la)")
  case False
  then have "page_remove_pte (t, PTX la) s = Some s" using t by (simp add: page_remove_pte_def entry_def)
  then show thesis using that ok False by simp
next
  case True
  have e: "frames s t (PTX la) = entry s d la" using t by (simp add: entry_def)
  obtain p where p: "PPN (PTE_ADDR (entry s d la)) = p + nbase" "user_page s d p"
    using space_okD(3) [OF ok True] by blast
  note pt = space_okD(1) [OF ok]
  have p2p: "pte2page s (entry s d la) = Some p"
    using True p by (simp add: pte2page_def pa2page_def user_page_def)
  let ?s1 = "page_ref_dec p s"
  obtain s2 where s2: "(if page_ref ?s1 p = 0 then free_page p ?s1 else Some ?s1) = Some s2"
    "list_inv (phys s2)" "npage s2 = npage s" "frames s2 = frames s"
    "list_free_set (phys s2) = list_free_set (phys s) \<or> list_free_set (phys s2) = insert p (list_free_set (phys s))"
    "\<forall>q. q \<noteq> p \<longrightarrow> page_ref s2 q = page_ref s q"
    "\<forall>q. q \<noteq> p \<longrightarrow> PageReserved (page_of (phys s2) q) = PageReserved (page_of (phys s) q)"
    by (rule drop_ref_spec [OF pt space_okD(2) [OF ok] p(2)])
  define s' where "s' = set_entry t (PTX la) 0 s2"
  have step: "page_remove_pte (t, PTX la) s = Some s'"
    using True e p2p s2(1) by (simp add: page_remove_pte_def s'_def del: One_nat_def)
  have fr: "frames s' q = (if q = t then (frames s t)(PTX la := 0) else frames s q)" for q
    using s2(4) by (auto simp: s'_def)
  note leaf = set_leaf [OF pt t fr]
  have ph: "phys s' = phys s2" "npage s' = npage s" "\<And>q. page_ref s' q = page_ref s2 q"
    using s2(3) by (simp_all add: s'_def page_ref_def)
  have sub: "list_free_set (phys s') \<subseteq> insert p (list_free_set (phys s))"
    "list_free_set (phys s) \<subseteq> list_free_set (phys s')" using s2(5) ph by auto
  have ok': "pt_ok s' d"
    using s2(2) ph p(2) sub(1) by (intro pt_ok_leaf [OF pt t fr, of p]) (auto simp: user_page_def)
  have "space_ok s' d"
    unfolding space_ok_def
  proof (intro conjI allI impI)
    show "pt_ok s' d" "npage s' < 2 ^ 32" using ok' ph space_okD(2) [OF ok] by simp_all
    fix lb assume lb: "valid (entry s' d lb)"
    then have ne: "\<not> same_page lb la" and v: "valid (entry s d lb)" by (auto simp: leaf split: if_splits)
    obtain q where q: "PPN (PTE_ADDR (entry s d lb)) = q + nbase" "user_page s d q"
      using space_okD(3) [OF ok v] by blast
    have "q \<noteq> p" using space_okD(4) [OF ok v True] q(1) p(1) ne by auto
    then have "user_page s' d q"
      using q(2) sub ph s2(6,7) by (auto simp: user_page_def leaf)
    then show "\<exists>q. PPN (PTE_ADDR (entry s' d lb)) = q + nbase \<and> user_page s' d q"
      using q(1) ne by (auto simp: leaf)
    fix lc assume "valid (entry s' d lc)" "PPN (PTE_ADDR (entry s' d lb)) = PPN (PTE_ADDR (entry s' d lc))"
    then show "same_page lb lc"
      using space_okD(4) [OF ok v, of lc] ne by (auto simp: leaf split: if_splits)
  qed
  then show thesis using that [OF step _ _ ph(2)] leaf(2) True by simp
qed

definition canonical :: "64 word \<Rightarrow> bool" where
  "canonical la \<longleftrightarrow> unat la < 2 ^ 39"

lemma canonical_vpn: "canonical la \<Longrightarrow> vpn la < 134217728"
  by (simp add: canonical_def vpn_def less_mult_imp_div_less)

lemma same_page_vpn:
  assumes "canonical la" "canonical lb"
  shows "same_page la lb \<longleftrightarrow> vpn la = vpn lb"
  using indices_eq_vpn [of la lb] canonical_vpn [OF assms(1)] canonical_vpn [OF assms(2)]
  by (auto simp: same_page_def leaf_path_def indices_vpn)

lemma leaf_path_vpn: "vpn la div 512 = vpn lb div 512 \<Longrightarrow> leaf_path la = leaf_path lb"
proof -
  assume a: "vpn la div 512 = vpn lb div 512"
  have "v div 262144 = v div 512 div 512" for v :: nat by (simp flip: div_mult2_eq)
  then show ?thesis using a by (simp add: leaf_path_def indices_vpn)
qed

lemma unat_ROUNDDOWN: "unat (ROUNDDOWN a n) = unat a div unat n * unat n"
proof -
  have "ROUNDDOWN a n = a div n * n"
    by (metis ROUNDDOWN_def minus_mod_eq_div_mult)
  moreover have "unat a div unat n * unat n < 2 ^ 64"
    using unsigned_less [of a] by (intro le_less_trans [OF div_times_less_eq_dividend]) simp
  moreover have "unat (a div n) = unat a div unat n" by (rule unat_div)
  ultimately show ?thesis by (simp add: unat_mult_lem [THEN iffD1])
qed

lemma unat_add_user:
  assumes "unat a \<le> 2 ^ 31" "unat b \<le> 2 ^ 31"
  shows "unat (a + b) = unat a + unat (b :: 64 word)"
  using assms by (simp add: unat_word_ariths)

lemma unat_sizes [simp]: "unat PGSIZE = 4096" "unat PTSIZE = 2097152" "unat USERTOP = 2147483648"
  by (simp_all add: PGSIZE_def PTSIZE_def USERTOP_def)

text \<open>The next page of a walk, and the start of the next page table.\<close>

lemma next_table:
  assumes "unat st < 2 ^ 31" "st' = ROUNDDOWN (st + PTSIZE) PTSIZE"
  shows "unat st' = (unat st div 2097152 + 1) * 2097152" "unat st < unat st'" "unat st' mod 4096 = 0"
    "st' \<noteq> 0"
proof -
  have "unat (st + PTSIZE) = unat st + 2097152" using assms(1) by (simp add: unat_add_user)
  then have "unat st' = (unat st + 2097152) div 2097152 * 2097152"
    by (simp only: assms(2) unat_ROUNDDOWN unat_sizes)
  also have "(unat st + 2097152) div 2097152 = unat st div 2097152 + 1" by simp
  finally show e: "unat st' = (unat st div 2097152 + 1) * 2097152" .
  then show "unat st < unat st'"
    using dividend_less_div_times [of 2097152 "unat st"] by simp
  then show "st' \<noteq> 0" by auto
  have "unat st' = 4096 * ((unat st div 2097152 + 1) * 512)" using e by simp
  then show "unat st' mod 4096 = 0" by simp
qed

lemma in_missing_table:
  assumes "unat st \<le> unat la" "unat la < (unat st div 2097152 + 1) * 2097152"
  shows "leaf_path la = leaf_path st"
proof (rule leaf_path_vpn)
  have "unat st div 2097152 * 2097152 \<le> unat la"
    using assms(1) by (rule le_trans [OF div_times_less_eq_dividend])
  then have "unat la div 2097152 = unat st div 2097152"
    using assms(2) by (intro div_nat_eqI) simp_all
  then show "vpn la div 512 = vpn st div 512" by (simp add: vpn_def flip: div_mult2_eq)
qed

lemma in_page:
  assumes "unat st mod 4096 = 0" "unat st \<le> unat la"
  shows "vpn la = vpn st \<longleftrightarrow> unat la < unat st + 4096"
proof -
  obtain k where k: "unat st = 4096 * k" using assms(1) by (auto simp: mod_eq_0_iff_dvd elim: dvdE)
  show ?thesis using assms(2) unfolding vpn_def k by auto
qed


lemma entry_same_page: "same_page la lb \<Longrightarrow> entry s d la = entry s d lb"
  by (auto simp: entry_def same_page_def split: option.splits)

text \<open>One iteration of the walk: the entries it passes are gone, the others as before.\<close>

definition unmap_step ::
  "nat \<Rightarrow> 64 word \<Rightarrow> machine \<Rightarrow> (64 word \<times> machine) option"
where
  "unmap_step d st s =
     Option.bind (get_pte d st False s) (\<lambda>(r, s1).
       case r of
         None \<Rightarrow> Some (ROUNDDOWN (st + PTSIZE) PTSIZE, s1)
       | Some ptep \<Rightarrow>
           Option.bind (if deref s1 ptep \<noteq> 0 then page_remove_pte ptep s1 else Some s1)
             (\<lambda>s2. Some (st + PGSIZE, s2)))"

lemma unmap_loop_step:
  "unmap_loop d st en s =
     Option.bind (unmap_step d st s)
       (\<lambda>(st', s2). if st' \<noteq> 0 \<and> st' < en then unmap_loop d st' en s2 else Some s2)"
  by (subst unmap_loop.simps) (simp add: unmap_step_def case_prod_unfold)

lemma unmap_step_spec:
  assumes ok: "space_ok s d" and st: "unat st mod 4096 = 0" and en: "unat en mod 4096 = 0"
    and lt: "unat st < unat en" "unat en \<le> 2 ^ 31"
  obtains st' s2 where "unmap_step d st s = Some (st', s2)" "space_ok s2 d" "npage s2 = npage s"
    "\<forall>la. canonical la \<longrightarrow> entry s2 d la =
       (if st \<le> la \<and> la < st' \<and> valid (entry s d la) then 0 else entry s d la)"
    "\<forall>la. canonical la \<longrightarrow> st \<le> la \<longrightarrow> la < st' \<longrightarrow> en \<le> la \<longrightarrow> \<not> valid (entry s d la)"
    "unat st < unat st'" "unat st' mod 4096 = 0"
proof -
  have st31: "unat st < 2 ^ 31" using lt by simp
  have cst: "canonical st" using st31 by (simp add: canonical_def)
  obtain r s1 where g: "get_pte d st False s = Some (map_option (\<lambda>t. (t, PTX st)) r, s1)"
    "pt_ok s1 d" "grown s s1 d" "node s1 d (leaf_path st) = r" "\<not> False \<longrightarrow> s1 = s"
    "False \<and> r = None \<longrightarrow> list_free_set (phys s1) = {}" "node s d (leaf_path st) \<noteq> None \<longrightarrow> s1 = s"
    by (rule get_pte_spec [OF space_okD(1) [OF ok], where create = False and la = st])
  then have s1: "s1 = s" by simp
  show thesis
  proof (cases r)
    case None
    let ?st' = "ROUNDDOWN (st + PTSIZE) PTSIZE"
    note nt = next_table [OF st31 refl]
    have z: "entry s d la = 0" if "st \<le> la" "la < ?st'" for la
    proof -
      have "leaf_path la = leaf_path st"
        using that nt(1) by (intro in_missing_table) (simp_all add: word_le_nat_alt word_less_nat_alt)
      then show ?thesis using g(4) s1 None by (simp add: entry_def)
    qed
    show thesis
    proof (rule that [of ?st' s])
      show "unmap_step d st s = Some (?st', s)" using g(1) s1 None by (simp add: unmap_step_def)
    qed (use ok nt z in auto)
  next
    case (Some t)
    let ?st' = "st + PGSIZE"
    have u: "unat ?st' = unat st + 4096" using st31 by (simp add: unat_add_user)
    have e: "frames s t (PTX st) = entry s d st" using g(4) s1 Some by (simp add: entry_def)
    have same: "same_page la st \<longleftrightarrow> st \<le> la \<and> la < ?st'" if "canonical la" for la
    proof (cases "st \<le> la")
      case True
      then show ?thesis using in_page [OF st, of la] same_page_vpn [OF that cst] u
        by (simp add: word_le_nat_alt word_less_nat_alt)
    next
      case False
      obtain k where k: "unat st = 4096 * k" using st by (auto simp: mod_eq_0_iff_dvd elim: dvdE)
      have "vpn la \<noteq> vpn st" using False k by (auto simp: vpn_def word_le_nat_alt)
      then show ?thesis using False same_page_vpn [OF that cst] by simp
    qed
    obtain s2 where s2: "(if entry s d st \<noteq> 0 then page_remove_pte (t, PTX st) s else Some s) = Some s2"
      "space_ok s2 d" "npage s2 = npage s"
      "\<forall>lb. entry s2 d lb = (if same_page lb st \<and> valid (entry s d st) then 0 else entry s d lb)"
    proof (cases "entry s d st = 0")
      case True
      then show thesis using that [of s] ok by simp
    next
      case False
      obtain s2 where "page_remove_pte (t, PTX st) s = Some s2" "space_ok s2 d"
        "\<forall>lb. entry s2 d lb = (if same_page lb st \<and> valid (entry s d st) then 0 else entry s d lb)"
        "npage s2 = npage s"
        by (rule page_remove_pte_spec [OF ok, of st t]) (use g(4) s1 Some in simp)
      then show thesis using that [of s2] False by simp
    qed
    show thesis
    proof (rule that [of ?st' s2])
      show "unmap_step d st s = Some (?st', s2)" using g(1) s1 Some e s2(1) by (simp add: unmap_step_def)
      show "\<forall>la. canonical la \<longrightarrow> entry s2 d la =
          (if st \<le> la \<and> la < ?st' \<and> valid (entry s d la) then 0 else entry s d la)"
      proof (intro allI impI)
        fix la assume c: "canonical la"
        show "entry s2 d la = (if st \<le> la \<and> la < ?st' \<and> valid (entry s d la) then 0 else entry s d la)"
          using s2(4) same [OF c] entry_same_page [of la st s d] by (cases "same_page la st") auto
      qed
      obtain k m where km: "unat st = 4096 * k" "unat en = 4096 * m"
        using st en by (auto simp: mod_eq_0_iff_dvd elim!: dvdE)
      then have "unat ?st' \<le> unat en" using lt(1) u by simp
      then show "\<forall>la. canonical la \<longrightarrow> st \<le> la \<longrightarrow> la < ?st' \<longrightarrow> en \<le> la \<longrightarrow> \<not> valid (entry s d la)"
        by (auto simp: word_le_nat_alt word_less_nat_alt)
      show "unat ?st' mod 4096 = 0" using st u by simp
    qed (use s2 u in simp_all)
  qed
qed

lemma unmap_loop_spec:
  assumes "space_ok s d" "unat st mod 4096 = 0" "unat en mod 4096 = 0" "unat st < unat en"
    "unat en \<le> 2 ^ 31"
  shows "\<exists>s'. unmap_loop d st en s = Some s' \<and> space_ok s' d \<and> npage s' = npage s \<and>
    (\<forall>la. canonical la \<longrightarrow> entry s' d la =
       (if st \<le> la \<and> la < en \<and> valid (entry s d la) then 0 else entry s d la))"
  using assms
proof (induction "unat en - unat st" arbitrary: st s rule: less_induct)
  case less
  obtain st' s2 where s2: "unmap_step d st s = Some (st', s2)" "space_ok s2 d" "npage s2 = npage s"
    "\<forall>la. canonical la \<longrightarrow> entry s2 d la =
       (if st \<le> la \<and> la < st' \<and> valid (entry s d la) then 0 else entry s d la)"
    "\<forall>la. canonical la \<longrightarrow> st \<le> la \<longrightarrow> la < st' \<longrightarrow> en \<le> la \<longrightarrow> \<not> valid (entry s d la)"
    "unat st < unat st'" "unat st' mod 4096 = 0"
    by (rule unmap_step_spec [OF less.prems])
  have step: "unmap_loop d st en s = (if st' \<noteq> 0 \<and> st' < en then unmap_loop d st' en s2 else Some s2)"
    by (subst unmap_loop_step) (simp add: s2(1))
  have ne: "st' \<noteq> 0" using s2(6) by auto
  have le: "st \<le> st'" using s2(6) by (simp add: word_le_nat_alt)
  show ?case
  proof (cases "st' < en")
    case False
    have "entry s2 d la = (if st \<le> la \<and> la < en \<and> valid (entry s d la) then 0 else entry s d la)"
      if "canonical la" for la
    proof (cases "st \<le> la \<and> la < st'")
      case True
      then show ?thesis using s2(4,5) that by (cases "la < en") (simp_all add: not_less)
    next
      case nin: False
      then have "\<not> (st \<le> la \<and> la < en)" using False by auto
      moreover have "entry s2 d la = entry s d la" using s2(4) that nin by auto
      ultimately show ?thesis by auto
    qed
    then show ?thesis using step False s2(2,3) by auto
  next
    case True
    have m: "unat en - unat st' < unat en - unat st" and lt: "unat st' < unat en"
      using True s2(6) by (simp_all add: word_less_nat_alt)
    obtain s' where s': "unmap_loop d st' en s2 = Some s'" "space_ok s' d" "npage s' = npage s2"
      "\<forall>la. canonical la \<longrightarrow> entry s' d la =
         (if st' \<le> la \<and> la < en \<and> valid (entry s2 d la) then 0 else entry s2 d la)"
      using less.hyps [OF m s2(2) s2(7) less.prems(3) lt less.prems(5)] by blast
    have "entry s' d la = (if st \<le> la \<and> la < en \<and> valid (entry s d la) then 0 else entry s d la)"
      if "canonical la" for la
    proof (cases "st \<le> la \<and> la < st'")
      case in_step: True
      then have "la < en" "\<not> st' \<le> la" using True by auto
      then show ?thesis using in_step s'(4) s2(4) that by simp
    next
      case nin: False
      then have "st' \<le> la \<longleftrightarrow> st \<le> la" using le by auto
      moreover have "entry s2 d la = entry s d la" using s2(4) that nin by auto
      ultimately show ?thesis using s'(4) that by auto
    qed
    then show ?thesis using step True ne s' s2(3) by auto
  qed
qed

lemma page_ref_inc_simps [simp]:
  "list_inv (phys (page_ref_inc p s)) = list_inv (phys s)"
  "list_free_set (phys (page_ref_inc p s)) = list_free_set (phys s)"
  "page_ref (page_ref_inc p s) q = (if q = p then page_ref s p + 1 else page_ref s q)"
  "PageReserved (page_of (phys (page_ref_inc p s)) q) = PageReserved (page_of (phys s) q)"
  by (simp_all add: page_ref_inc_def page_ref_def)

text \<open>Only the tables and the manager matter for \<open>pt_ok\<close>.\<close>

lemma node_frames: "frames s' = frames s \<Longrightarrow> node s' d xs = node s d xs"
  by (rule node_cong) simp

lemma node_page_ref_inc [simp]: "node (page_ref_inc p s) d xs = node s d xs"
  by (rule node_frames) simp

lemma entry_frames:
  assumes "frames s' = frames s"
  shows "entry s' d la = entry s d la"
  unfolding entry_def node_frames [OF assms] assms ..

lemma pt_ok_frames:
  assumes "pt_ok s d" "frames s' = frames s" "npage s' = npage s" "list_inv (phys s')"
    "list_free_set (phys s') = list_free_set (phys s)"
  shows "pt_ok s' d"
  using assms unfolding pt_ok_def by (simp add: node_frames [OF assms(2)])

definition leaf_pte :: "nat \<Rightarrow> 32 word \<Rightarrow> 64 word" where
  "leaf_pte page perm = pte_create (of_nat (page2ppn page)) (or (ucast PTE_V) perm)"

lemma leaf_pte_valid [simp]: "valid (leaf_pte page perm)"
  by (simp add: leaf_pte_def and_PTE_V)

lemma PPN_leaf_pte [simp]:
  assumes "take_bit 10 perm = perm" "page + nbase < 2 ^ 52"
  shows "PPN (PTE_ADDR (leaf_pte page perm)) = page + nbase"
  using assms by (simp add: leaf_pte_def page2ppn_def PTE_V_def del: of_nat_add)

lemma page_insert_spec:
  assumes ok: "space_ok s d" and p: "p + nbase < npage s" "p \<notin> list_free_set (phys s)"
    "\<forall>xs \<in> paths. node s d xs \<noteq> Some (p + nbase)"
  obtains s' where "page_insert d p la perm s = Some (- E_NO_MEM, s')" "pt_ok s' d" "npage s' = npage s"
      "list_free_set (phys s') = {}" "\<forall>lb. entry s' d lb = entry s d lb" "node s d (leaf_path la) = None"
  | s' where "page_insert d p la perm s = Some (0, s')" "pt_ok s' d" "npage s' = npage s"
      "\<forall>lb. entry s' d lb = (if same_page lb la then leaf_pte p perm else entry s d lb)"
      "page_ref s' p = page_ref s p +
        (if valid (entry s d la) \<and> PPN (PTE_ADDR (entry s d la)) = p + nbase then 0 else 1)"
proof -
  note pt = space_okD(1) [OF ok]
  obtain r s1 where g: "get_pte d la True s = Some (map_option (\<lambda>t. (t, PTX la)) r, s1)"
    "pt_ok s1 d" "grown s s1 d" "node s1 d (leaf_path la) = r" "\<not> True \<longrightarrow> s1 = s"
    "True \<and> r = None \<longrightarrow> list_free_set (phys s1) = {}" "node s d (leaf_path la) \<noteq> None \<longrightarrow> s1 = s"
    by (rule get_pte_spec [OF pt, where create = True and la = la])
  note gr = grownD [OF g(3)]
  show thesis
  proof (cases r)
    case None
    have "page_insert d p la perm s = Some (- E_NO_MEM, s1)" using g(1) None by (simp add: page_insert_def)
    then show thesis using that(1) g(2,4,6,7) None gr(1,3) by auto
  next
    case (Some t)
    have e: "frames s1 t (PTX la) = entry s d la" using g(4) Some gr(3) [of la] by (simp add: entry_def)
    have t1: "node s1 d (leaf_path la) = Some t" using g(4) Some by simp
    have p1: "p + nbase < npage s1" "\<forall>xs \<in> paths. node s1 d xs \<noteq> Some (p + nbase)"
      using p gr(1) by (simp, fastforce dest: gr(5))
    let ?s2 = "page_ref_inc p s1"
    obtain s3 where s3: "(if and (deref ?s2 (t, PTX la)) PTE_V \<noteq> 0 then do {
          p' \<leftarrow> pte2page ?s2 (deref ?s2 (t, PTX la));
          if p' = p then Some (page_ref_dec p ?s2) else page_remove_pte (t, PTX la) ?s2 }
        else Some ?s2) = Some s3"
      "list_inv (phys s3)" "npage s3 = npage s1"
      "\<forall>q. frames s3 q = frames s1 q \<or> q = t \<and> frames s3 q = (frames s1 t)(PTX la := 0)"
      "\<exists>p'. p' + nbase < npage s1 \<and> (\<forall>xs \<in> paths. node s1 d xs \<noteq> Some (p' + nbase)) \<and>
         list_free_set (phys s3) \<subseteq> insert p' (list_free_set (phys s1))"
      "page_ref s3 p = page_ref s p +
         (if valid (entry s d la) \<and> PPN (PTE_ADDR (entry s d la)) = p + nbase then 0 else 1)"
    proof (cases "valid (entry s d la)")
      case False
      have "npage s1 = npage s" "page_ref s1 p = page_ref s p" using gr(1) gr(6) [OF p(2)] by simp_all
      then show thesis
        using that [of ?s2] False e pt_okD(1) [OF g(2)] p1 by (auto intro!: exI [of _ p])
    next
      case True
      then have "node s d (leaf_path la) \<noteq> None" by (auto simp: entry_def split: option.splits)
      then have s1: "s1 = s" using g(7) by simp
      obtain p' where p': "PPN (PTE_ADDR (entry s d la)) = p' + nbase" "user_page s d p'"
        using space_okD(3) [OF ok True] by blast
      have p2p: "pte2page ?s2 (entry s d la) = Some p'"
        using True p' s1 by (simp add: pte2page_def pa2page_def user_page_def)
      show thesis
      proof (cases "p' = p")
        case True
        then show thesis
          using that [of "page_ref_dec p ?s2"] p2p e s1 p' \<open>valid (entry s d la)\<close> pt_okD(1) [OF pt] p1
          by (auto intro!: exI [of _ p])
      next
        case ne: False
        have pt2: "pt_ok ?s2 d"
          using pt_okD(1) [OF pt] s1 by (intro pt_ok_frames [OF pt]) simp_all
        have up: "user_page ?s2 d p'"
          using p'(2) ne s1 by (simp add: user_page_def)
        obtain s4 where s4: "(if page_ref (page_ref_dec p' ?s2) p' = 0 then free_page p' (page_ref_dec p' ?s2)
            else Some (page_ref_dec p' ?s2)) = Some s4"
          "list_inv (phys s4)" "npage s4 = npage ?s2" "frames s4 = frames ?s2"
          "list_free_set (phys s4) = list_free_set (phys ?s2) \<or>
             list_free_set (phys s4) = insert p' (list_free_set (phys ?s2))"
          "\<forall>q. q \<noteq> p' \<longrightarrow> page_ref s4 q = page_ref ?s2 q"
          "\<forall>q. q \<noteq> p' \<longrightarrow> PageReserved (page_of (phys s4) q) = PageReserved (page_of (phys ?s2) q)"
          by (rule drop_ref_spec [OF pt2 _ up]) (use space_okD(2) [OF ok] s1 in simp)
        have "page_remove_pte (t, PTX la) ?s2 = Some (set_entry t (PTX la) 0 s4)"
          using True e p2p s4(1) by (simp add: page_remove_pte_def)
        moreover have "\<forall>q. frames (set_entry t (PTX la) 0 s4) q = frames s1 q \<or>
            q = t \<and> frames (set_entry t (PTX la) 0 s4) q = (frames s1 t)(PTX la := 0)"
          using s4(4) by (auto simp: fun_eq_iff)
        moreover have "\<exists>p'. p' + nbase < npage s1 \<and> (\<forall>xs \<in> paths. node s1 d xs \<noteq> Some (p' + nbase)) \<and>
            list_free_set (phys (set_entry t (PTX la) 0 s4)) \<subseteq> insert p' (list_free_set (phys s1))"
          using p'(2) s4(5) s1 by (intro exI [of _ p']) (auto simp: user_page_def)
        ultimately show thesis
          using that [of "set_entry t (PTX la) 0 s4"] p2p e s1 ne p'(1) True s4(2,3,6) by simp
      qed
    qed
    define s' where "s' = set_entry t (PTX la) (leaf_pte p perm) s3"
    have eq: "page_insert d p la perm s = Some (0, s')"
      using g(1) Some s3(1) by (simp add: page_insert_def s'_def flip: leaf_pte_def)
    have fr: "frames s' q = (if q = t then (frames s1 t)(PTX la := leaf_pte p perm) else frames s1 q)" for q
      using spec [OF s3(4), of q] by (auto simp: s'_def fun_eq_iff)
    obtain p' where p': "p' + nbase < npage s1" "\<forall>xs \<in> paths. node s1 d xs \<noteq> Some (p' + nbase)"
      "list_free_set (phys s3) \<subseteq> insert p' (list_free_set (phys s1))" using s3(5) by blast
    have "pt_ok s' d"
      using s3(2,3) p' by (intro pt_ok_leaf [OF g(2) t1 fr, of p']) (simp_all add: s'_def)
    moreover have "\<forall>lb. entry s' d lb = (if same_page lb la then leaf_pte p perm else entry s d lb)"
      using set_leaf(2) [OF g(2) t1 fr] gr(3) by simp
    moreover have "npage s' = npage s" using s3(3) gr(1) by (simp add: s'_def)
    ultimately show thesis using that(2) [OF eq] s3(6) by (simp add: s'_def page_ref_def)
  qed
qed

section \<open>exit_range\<close>

lemma table_lookup:
  assumes "pt_ok s d" "node s d xs = Some q" "xs @ [i] \<in> paths" "node s d (xs @ [i]) = Some t"
  shows "valid (frames s q i)" "pde2page s (frames s q i) = Some (t - nbase)"
    "page2kva s (t - nbase) = Some t"
proof -
  have "sub_table s q i = Some t" using assms(2,4) by (simp add: node_snoc)
  then have e: "valid (frames s q i)" "PPN (PTE_ADDR (frames s q i)) = t"
    by (simp_all add: sub_table_def split: if_splits)
  have t: "nbase \<le> t" "t < npage s" "npage s \<le> 2 ^ 52"
    using pt_okD(2,4,5) [OF assms(1)] assms(3,4) by auto
  show "valid (frames s q i)" by (rule e)
  show "pde2page s (frames s q i) = Some (t - nbase)" using e t by (simp add: pde2page_def pa2page_def)
  show "page2kva s (t - nbase) = Some t" using t by (simp add: page2kva_def KADDR_def)
qed

lemma free_page_spec:
  assumes "list_inv (phys s)" "list_freeable (phys s) p 1"
  obtains s' where "free_page p s = Some s'" "list_inv (phys s')" "npage s' = npage s" "frames s' = frames s"
    "list_free_set (phys s') = insert p (list_free_set (phys s))"
    "\<forall>q. q \<noteq> p \<longrightarrow> PageReserved (page_of (phys s') q) = PageReserved (page_of (phys s) q)"
proof -
  obtain t where t: "default_free_pages p 1 (phys s) = Some t" "list_inv t"
    "list_free_set t = list_free_set (phys s) \<union> {p..<p + 1}"
    using ff.release_ok [OF assms] by blast
  show thesis
    by (rule that [of "s\<lparr>phys := t\<rparr>"])
      (use t free_attr(2) [OF t(1)] in \<open>simp_all add: free_pages_def\<close>)
qed

lemma round_down_indices:
  "PDX1 (ROUNDDOWN st PDSIZE) = PDX1 st"
  "PDX0 (ROUNDDOWN st PTSIZE) = PDX0 st"
  by (simp_all add: PDX1_def PDX0_def index_nat unat_ROUNDDOWN PDSIZE_def)

lemma one_table_range:
  assumes "unat st < 2 ^ 31" "en \<le> ROUNDDOWN st PTSIZE + PTSIZE"
  shows "\<not> ROUNDDOWN st PTSIZE + PTSIZE < en" "\<not> ROUNDDOWN st PDSIZE + PDSIZE < en"
proof -
  have z: "unat PDSIZE = 1073741824" by (simp add: PDSIZE_def)
  let ?k = "unat st div 2097152"
  have a: "unat (ROUNDDOWN st PTSIZE) = ?k * 2097152" "unat (ROUNDDOWN st PDSIZE) = ?k div 512 * 1073741824"
    by (simp_all add: unat_ROUNDDOWN z flip: div_mult2_eq)
  have k: "?k * 2097152 \<le> unat st" "?k < 1024" using assms(1) by (auto simp: less_mult_imp_div_less)
  have b: "unat (ROUNDDOWN st PTSIZE + PTSIZE) = ?k * 2097152 + 2097152"
    using a(1) k by (subst unat_add_user) simp_all
  have k2: "?k div 512 * 1073741824 \<le> 2 ^ 31"
    using k(2) by (simp add: less_mult_imp_div_less)
  have c: "unat (ROUNDDOWN st PDSIZE + PDSIZE) = ?k div 512 * 1073741824 + 1073741824"
    using a(2) k2 z by (subst unat_add_user) simp_all
  show "\<not> ROUNDDOWN st PTSIZE + PTSIZE < en" using assms(2) by (simp add: not_less)
  have "?k * 2097152 + 2097152 \<le> ?k div 512 * 1073741824 + 1073741824"
    using dividend_less_div_times [of 512 ?k] by simp
  then show "\<not> ROUNDDOWN st PDSIZE + PDSIZE < en"
    using assms(2) b c by (simp add: word_less_nat_alt word_le_nat_alt)
qed


lemma exit_range_one_table:
  assumes ok: "pt_ok s d" "npage s < 2 ^ 32"
    and rng: "st mod PGSIZE = 0" "en mod PGSIZE = 0" "USER_ACCESS st en" "en \<le> ROUNDDOWN st PTSIZE + PTSIZE"
    and n: "node s d [PDX1 st] = Some pd0" "node s d (leaf_path st) = Some pt" "table_empty s pt"
    and res: "\<not> PageReserved (page_of (phys s) (pd0 - nbase))" "\<not> PageReserved (page_of (phys s) (pt - nbase))"
    and top: "\<exists>q \<in> list_free_set (phys s). pd0 - nbase < q \<and> pt - nbase < q"
  shows "\<exists>s'. exit_range d st en s = Some s' \<and>
    list_free_set (phys s') = list_free_set (phys s) \<union> {pt - nbase, pd0 - nbase} \<and>
    (\<forall>lb. node s' d (leaf_path lb) = (if PDX1 lb = PDX1 st then None else node s d (leaf_path lb)))"
proof -
  have st31: "unat st < 2 ^ 31" using rng(3) by (simp add: USER_ACCESS_def word_less_nat_alt word_le_nat_alt)
  have leaf: "[PDX1 st] @ [PDX0 st] = leaf_path st" by (simp add: leaf_path_def)
  note l1 = table_lookup [OF ok(1), of "[]" d "PDX1 st" pd0, simplified, OF n(1) [simplified]]
  note l0 = table_lookup [OF ok(1) n(1), of "PDX0 st" pt, unfolded leaf, OF path_indices(3) n(2)]
  have "pt \<noteq> pd0"
    using pt_okD(7) [OF ok(1) path_indices(3) path_indices(2) n(2), of st] n(1) by (auto simp: leaf_path_def)
  moreover have "nbase \<le> pt" "nbase \<le> pd0"
    using pt_okD(4) [OF ok(1) path_indices(3) n(2)] pt_okD(4) [OF ok(1) path_indices(2) n(1)] .
  ultimately have ne: "pt \<noteq> pd0" "pt - nbase \<noteq> pd0 - nbase" by auto
  have nf: "pt - nbase \<notin> list_free_set (phys s)" "pd0 - nbase \<notin> list_free_set (phys s)"
    using pt_okD(6) [OF ok(1) _ n(2)] pt_okD(6) [OF ok(1) _ n(1)] by simp_all
  have fr: "\<forall>p \<in> list_free_set (phys s). p + nbase < npage s" using pt_okD(3) [OF ok(1)] by blast
  have f1: "list_freeable (phys s) (pt - nbase) 1"
    using top nf res ok(2) by (intro below_top_freeable [OF pt_okD(1) [OF ok(1)] fr]) auto
  obtain s1 where s1: "free_page (pt - nbase) s = Some s1" "list_inv (phys s1)" "npage s1 = npage s"
    "frames s1 = frames s" "list_free_set (phys s1) = insert (pt - nbase) (list_free_set (phys s))"
    "\<forall>q. q \<noteq> pt - nbase \<longrightarrow> PageReserved (page_of (phys s1) q) = PageReserved (page_of (phys s) q)"
    by (rule free_page_spec [OF pt_okD(1) [OF ok(1)] f1])
  define s2 where "s2 = set_entry pd0 (PDX0 st) 0 s1"
  have ptn: "pt - nbase + nbase < npage s"
    using pt_okD(4,5) [OF ok(1) _ n(2)] by simp
  have f2: "list_freeable (phys s2) (pd0 - nbase) 1"
    using top nf res ok(2) s1 ne fr ptn
    by (intro below_top_freeable [of _ "npage s"]) (auto simp: s2_def)
  have inv2: "list_inv (phys s2)" using s1(2) by (simp add: s2_def)
  obtain s3 where s3: "free_page (pd0 - nbase) s2 = Some s3" "list_inv (phys s3)" "npage s3 = npage s2"
    "frames s3 = frames s2" "list_free_set (phys s3) = insert (pd0 - nbase) (list_free_set (phys s2))"
    "\<forall>q. q \<noteq> pd0 - nbase \<longrightarrow> PageReserved (page_of (phys s3) q) = PageReserved (page_of (phys s2) q)"
    by (rule free_page_spec [OF inv2 f2])
  define s' where "s' = set_entry d (PDX1 st) 0 s3"
  note one = one_table_range [OF st31 rng(4)]
  have inner: "exit_pd0_loop pd0 (ROUNDDOWN st PDSIZE) (ROUNDDOWN st PTSIZE) en True s = Some (True, s2)"
    by (subst exit_pd0_loop.simps)
      (use l0 n(3) s1(1) one(1) in \<open>simp add: round_down_indices s2_def Let_def\<close>)
  have "exit_range d st en s = Some s'"
    unfolding exit_range_def
    by (subst exit_loop.simps)
      (use l1 inner rng s3(1) one(2) in \<open>simp add: round_down_indices s'_def Let_def bind_kassert\<close>)
  moreover have "list_free_set (phys s') = list_free_set (phys s) \<union> {pt - nbase, pd0 - nbase}"
    using s1(5) s3(5) by (auto simp: s'_def s2_def)
  moreover have "node s' d (leaf_path lb) = (if PDX1 lb = PDX1 st then None else node s d (leaf_path lb))" for lb
  proof (cases "PDX1 lb = PDX1 st")
    case True
    then show ?thesis by (simp add: leaf_path_def sub_table_def s'_def)
  next
    case False
    have fr': "sub_table s' q i = sub_table s q i" if "(q, i) \<noteq> (d, PDX1 st)" "q \<noteq> pd0" for q i
      using that s1(4) s3(4) by (auto simp: sub_table_def s'_def s2_def)
    have dp: "d \<noteq> pd0" using pt_okD(7) [OF ok(1) path_indices(1) path_indices(2), of d st] n(1) by auto
    have "q \<noteq> pd0 \<and> q \<noteq> d" if "sub_table s d (PDX1 lb) = Some q" for q
      using pt_okD(7) [OF ok(1) path_indices(2) path_indices(2), of lb q st]
        pt_okD(7) [OF ok(1) path_indices(1) path_indices(2), of q lb] that n(1) False by auto
    then show ?thesis using False dp fr' by (auto simp: leaf_path_def split: bind_splits)
  qed
  ultimately show ?thesis by blast
qed

lemma get_page_entry:
  assumes "pt_ok s d" "valid (entry s d la)" "PPN (PTE_ADDR (entry s d la)) = p + nbase" "p + nbase < npage s"
  shows "\<exists>ptep. get_page d la s = Some (Some p, Some ptep) \<and> deref s ptep = entry s d la"
proof -
  obtain r s1 where g: "get_pte d la False s = Some (map_option (\<lambda>t. (t, PTX la)) r, s1)"
    "pt_ok s1 d" "grown s s1 d" "node s1 d (leaf_path la) = r" "\<not> False \<longrightarrow> s1 = s"
    "False \<and> r = None \<longrightarrow> list_free_set (phys s1) = {}" "node s d (leaf_path la) \<noteq> None \<longrightarrow> s1 = s"
    by (rule get_pte_spec [OF assms(1), where create = False and la = la])
  then obtain t where t: "r = Some t" "frames s t (PTX la) = entry s d la"
    using assms(2) by (cases r) (auto simp: entry_def)
  have "pte2page s (entry s d la) = Some p" using assms by (simp add: pte2page_def pa2page_def)
  then show ?thesis using g(1,5) t assms(2) by (simp add: get_page_def)
qed

section \<open>Guarantees\<close>

text \<open>
  C19: \<open>page_insert\<close> in a user address space either finds no page for a missing table, reports
  \<open>-E_NO_MEM\<close> and changes no mapping, or returns 0; then \<open>get_page\<close> at the address finds
  the page, every other address keeps its entry, the tables stay a tree of allocated pages, and
  the page has one more reference unless it was mapped there already.
\<close>

theorem page_insert_maps:
  assumes "space_ok s d" "p + nbase < npage s" "p \<notin> list_free_set (phys s)"
    and "\<forall>xs \<in> paths. node s d xs \<noteq> Some (p + nbase)" "take_bit 10 perm = perm"
  shows "\<exists>ret s'. page_insert d p la perm s = Some (ret, s') \<and> pt_ok s' d \<and>
    (\<forall>lb. \<not> same_page lb la \<longrightarrow> entry s' d lb = entry s d lb) \<and>
    (if ret = 0
     then (\<exists>ptep. get_page d la s' = Some (Some p, Some ptep) \<and> deref s' ptep = leaf_pte p perm) \<and>
       page_ref s' p = page_ref s p +
         (if valid (entry s d la) \<and> PPN (PTE_ADDR (entry s d la)) = p + nbase then 0 else 1)
     else ret = - E_NO_MEM \<and> node s d (leaf_path la) = None \<and> list_free_set (phys s') = {} \<and>
       entry s' d la = entry s d la)"
proof (rule page_insert_spec [OF assms(1-4), of la perm])
  fix s' assume "page_insert d p la perm s = Some (- E_NO_MEM, s')" "pt_ok s' d" "npage s' = npage s"
    "list_free_set (phys s') = {}" "\<forall>lb. entry s' d lb = entry s d lb" "node s d (leaf_path la) = None"
  then show ?thesis by (simp add: E_NO_MEM_def)
next
  fix s' assume a: "page_insert d p la perm s = Some (0, s')" "pt_ok s' d" "npage s' = npage s"
    "\<forall>lb. entry s' d lb = (if same_page lb la then leaf_pte p perm else entry s d lb)"
    "page_ref s' p = page_ref s p +
        (if valid (entry s d la) \<and> PPN (PTE_ADDR (entry s d la)) = p + nbase then 0 else 1)"
  have e: "entry s' d la = leaf_pte p perm" using a(4) by (simp add: same_page_def)
  have "p + nbase < 2 ^ 52" using assms(2) pt_okD(2) [OF space_okD(1) [OF assms(1)]] by simp
  then have "\<exists>ptep. get_page d la s' = Some (Some p, Some ptep) \<and> deref s' ptep = entry s' d la"
    using e a(3) assms(2,5) by (intro get_page_entry [OF a(2)]) simp_all
  then show ?thesis using a e by auto
qed

text \<open>
  C20: \<open>unmap_range\<close> on a page-aligned user range always returns, removes exactly the valid
  entries of the range and leaves a well-formed address space.
\<close>

theorem unmap_range_clears:
  assumes "space_ok s d" "st mod PGSIZE = 0" "en mod PGSIZE = 0" "USER_ACCESS st en"
  shows "\<exists>s'. unmap_range d st en s = Some s' \<and> space_ok s' d \<and>
    (\<forall>la. canonical la \<longrightarrow> entry s' d la =
       (if st \<le> la \<and> la < en \<and> valid (entry s d la) then 0 else entry s d la))"
proof -
  have m: "unat st mod 4096 = 0" "unat en mod 4096 = 0"
    using arg_cong [OF assms(2), of unat] arg_cong [OF assms(3), of unat] by (simp_all add: unat_mod)
  have "unat st < unat en" "unat en \<le> 2 ^ 31"
    using assms(4) by (simp_all add: USER_ACCESS_def word_less_nat_alt word_le_nat_alt)
  then obtain s' where "unmap_loop d st en s = Some s'" "space_ok s' d"
    "\<forall>la. canonical la \<longrightarrow> entry s' d la =
       (if st \<le> la \<and> la < en \<and> valid (entry s d la) then 0 else entry s d la)"
    using unmap_loop_spec [OF assms(1) m] by blast
  then show ?thesis using assms(2-4) by (simp add: unmap_range_def)
qed

text \<open>
  C21: \<open>exit_range\<close> over a range inside one empty page table frees the level 0 directory above
  it although that directory still holds another table: every mapping of that gigabyte is
  lost and the other table's page is neither free nor reachable.
\<close>

theorem exit_range_loses_tables:
  assumes "pt_ok s d" "npage s < 2 ^ 32"
    and "st mod PGSIZE = 0" "en mod PGSIZE = 0" "USER_ACCESS st en" "en \<le> ROUNDDOWN st PTSIZE + PTSIZE"
    and "node s d [PDX1 st] = Some pd0" "node s d (leaf_path st) = Some pt" "table_empty s pt"
    and "\<not> PageReserved (page_of (phys s) (pd0 - nbase))" "\<not> PageReserved (page_of (phys s) (pt - nbase))"
    and "\<exists>q \<in> list_free_set (phys s). pd0 - nbase < q \<and> pt - nbase < q"
    and "PDX1 lb = PDX1 st" "PDX0 lb \<noteq> PDX0 st" "node s d (leaf_path lb) = Some pt2" "valid (entry s d lb)"
  shows "\<exists>s'. exit_range d st en s = Some s' \<and> pd0 - nbase \<in> list_free_set (phys s') \<and>
    entry s' d lb = 0 \<and> pt2 - nbase \<notin> list_free_set (phys s') \<and>
    (\<forall>la. node s' d (leaf_path la) \<noteq> Some pt2)"
proof -
  obtain s' where s': "exit_range d st en s = Some s'"
    "list_free_set (phys s') = list_free_set (phys s) \<union> {pt - nbase, pd0 - nbase}"
    "\<forall>lb. node s' d (leaf_path lb) = (if PDX1 lb = PDX1 st then None else node s d (leaf_path lb))"
    using exit_range_one_table [OF assms(1-12)] by blast
  have ne: "leaf_path lb \<noteq> leaf_path st" "leaf_path lb \<noteq> [PDX1 st]" using assms(14) by (simp_all add: leaf_path_def)
  have "pt2 \<noteq> pt" "pt2 \<noteq> pd0"
    using pt_okD(7) [OF assms(1) _ _ assms(15)] assms(7,8) ne path_indices by blast+
  moreover have "nbase \<le> pt" "nbase \<le> pd0" "nbase \<le> pt2" "pt2 - nbase \<notin> list_free_set (phys s)"
    using pt_okD(4,6) [OF assms(1)] assms(7,8,15) path_indices by blast+
  ultimately have "pt2 - nbase \<notin> list_free_set (phys s')" using s'(2) by auto
  moreover have "node s' d (leaf_path la) \<noteq> Some pt2" for la
  proof
    assume "node s' d (leaf_path la) = Some pt2"
    then have "PDX1 la \<noteq> PDX1 st" "node s d (leaf_path la) = Some pt2" using s'(3) by (auto split: if_splits)
    then show False
      using pt_okD(7) [OF assms(1) path_indices(3) path_indices(3) _ assms(15), of la] assms(13)
      by (simp add: leaf_path_def)
  qed
  ultimately show ?thesis using s' assms(13) by (auto simp: entry_def)
qed

section \<open>Witnesses\<close>

text \<open>
  A directory in page 0 of memory with one level 0 directory (page 1), two tables (pages 5 and 6,
  for the addresses from 0x800000 and from 0xA00000) and page 7 mapped at 0x800000; the manager
  holds the pages 2 to 4 and 10 to 14.
\<close>

definition example_machine :: machine where
  "example_machine =
     \<lparr>phys = upd_page 7 (\<lambda>pg. pg\<lparr>pg_ref := 1\<rparr>) example_pmm, npage = nbase + 16,
      frames = (\<lambda>q i.
        if q = nbase \<and> i = 0 then table_pte 1
        else if q = nbase + 1 \<and> i = 4 then table_pte 5
        else if q = nbase + 1 \<and> i = 5 then table_pte 6
        else if q = nbase + 5 \<and> i = 0 then leaf_pte 7 0x17
        else 0)\<rparr>"

lemma example_inv: "list_inv (phys example_machine)"
  "list_free_set (phys example_machine) = {2, 3, 4, 10, 11, 12, 13, 14}"
proof -
  have "list_free_set example_pmm = pages_in [(2, 3), (10, 5)]"
    by (rule free_rep_free_set [OF example_pmm_rep])
  also have "\<dots> = {2, 3, 4, 10, 11, 12, 13, 14}" by auto
  finally show "list_free_set (phys example_machine) = {2, 3, 4, 10, 11, 12, 13, 14}"
    by (simp add: example_machine_def)
  show "list_inv (phys example_machine)"
    using example_pmm_rep by (auto simp: example_machine_def list_inv_def [of example_pmm])
qed

lemma example_sub_table:
  "sub_table example_machine q i =
     (if q = nbase \<and> i = 0 then Some (nbase + 1)
      else if q = nbase + 1 \<and> i = 4 then Some (nbase + 5)
      else if q = nbase + 1 \<and> i = 5 then Some (nbase + 6)
      else if q = nbase + 5 \<and> i = 0 then Some (nbase + 7)
      else None)"
  by (simp add: sub_table_def example_machine_def nbase_def take_bit_eq_mod)

lemma example_node:
  assumes "xs \<in> paths" "node example_machine nbase xs = Some q"
  shows "(xs, q) \<in> {([], nbase), ([0], nbase + 1), ([0, 4], nbase + 5), ([0, 5], nbase + 6)}"
proof -
  have "length xs \<le> 2" using assms(1) by (simp add: paths_def)
  then consider "xs = []" | i where "xs = [i]" | i j where "xs = [i, j]"
    by (metis One_nat_def Suc_1 Suc_le_length_iff le_0_eq le_Suc_eq length_0_conv length_Suc_conv)
  then show ?thesis using assms(2) by cases (auto simp: example_sub_table split: if_splits)
qed

lemma example_pt_ok: "pt_ok example_machine nbase"
  unfolding pt_ok_def
proof (intro conjI ballI allI impI)
  show "list_inv (phys example_machine)" by (rule example_inv)
  show "npage example_machine \<le> 2 ^ 52" by (simp add: example_machine_def nbase_def)
  show "p + nbase < npage example_machine" if "p \<in> list_free_set (phys example_machine)" for p
    using that unfolding example_inv by (auto simp: example_machine_def)
  fix xs q assume x: "xs \<in> paths" "node example_machine nbase xs = Some q"
  show "nbase \<le> q" "q < npage example_machine" "q - nbase \<notin> list_free_set (phys example_machine)"
    using example_node [OF x] unfolding example_inv by (auto simp: example_machine_def)
  fix ys assume y: "ys \<in> paths" "node example_machine nbase ys = Some q"
  show "xs = ys" using example_node [OF x] example_node [OF y] by auto
qed

lemma example_entry:
  "entry example_machine nbase la = (if PDX1 la = 0 \<and> PDX0 la = 4 \<and> PTX la = 0 then leaf_pte 7 0x17 else 0)"
  by (simp add: entry_def leaf_path_def example_sub_table)
    (auto simp: example_machine_def)

lemma example_space_ok: "space_ok example_machine nbase"
proof -
  have pp: "PPN (PTE_ADDR (leaf_pte 7 0x17)) = 7 + nbase"
    by (rule PPN_leaf_pte) (simp_all add: nbase_def take_bit_eq_mod)
  have "\<forall>xs \<in> paths. node example_machine nbase xs \<noteq> Some (7 + nbase)"
    using example_node by force
  moreover have "page_ref example_machine 7 = 1" "\<not> PageReserved (page_of (phys example_machine) 7)"
    "npage example_machine = nbase + 16"
    by (simp_all add: example_machine_def page_ref_def example_pmm_def PageReserved_def PG_reserved_def)
  ultimately have "user_page example_machine nbase 7"
    unfolding user_page_def example_inv by simp
  moreover have "npage example_machine < 2 ^ 32" by (simp add: example_machine_def nbase_def)
  ultimately show ?thesis
    using example_pt_ok pp unfolding space_ok_def
    by (auto simp: example_entry same_page_def leaf_path_def)
qed

theorem page_insert_maps_witness:
  "\<exists>s'. page_insert nbase 8 0x801000 0x17 example_machine = Some (0, s') \<and>
     (\<exists>ptep. get_page nbase 0x801000 s' = Some (Some 8, Some ptep)) \<and> entry s' nbase 0x800000 = leaf_pte 7 0x17"
proof -
  have n: "\<forall>xs \<in> paths. node example_machine nbase xs \<noteq> Some (8 + nbase)"
    using example_node by force
  have i: "\<not> same_page 0x800000 0x801000" "entry example_machine nbase 0x800000 = leaf_pte 7 0x17"
    by (simp_all add: same_page_def leaf_path_def PTX_def PDX1_def PDX0_def example_entry)
  have "8 + nbase < npage example_machine" "8 \<notin> list_free_set (phys example_machine)"
    unfolding example_inv by (simp_all add: example_machine_def)
  moreover have "take_bit 10 (0x17 :: 32 word) = 0x17" by (simp add: take_bit_eq_mod)
  ultimately obtain ret s' where r: "page_insert nbase 8 0x801000 0x17 example_machine = Some (ret, s')"
    "\<forall>lb. \<not> same_page lb 0x801000 \<longrightarrow> entry s' nbase lb = entry example_machine nbase lb"
    "if ret = 0
     then (\<exists>ptep. get_page nbase 0x801000 s' = Some (Some 8, Some ptep) \<and> deref s' ptep = leaf_pte 8 0x17) \<and>
       page_ref s' 8 = page_ref example_machine 8 +
         (if valid (entry example_machine nbase 0x801000) \<and>
             PPN (PTE_ADDR (entry example_machine nbase 0x801000)) = 8 + nbase then 0 else 1)
     else ret = - E_NO_MEM \<and> node example_machine nbase (leaf_path 0x801000) = None \<and>
       list_free_set (phys s') = {} \<and> entry s' nbase 0x801000 = entry example_machine nbase 0x801000"
    using page_insert_maps [OF example_space_ok _ _ n, of "0x17" "0x801000"] by blast
  have "node example_machine nbase (leaf_path 0x801000) \<noteq> None"
    by (simp add: leaf_path_def PDX1_def PDX0_def example_sub_table)
  then have "ret = 0" using r(3) by presburger
  then show ?thesis using r i by auto
qed

theorem unmap_range_clears_witness:
  "\<exists>s'. unmap_range nbase 0x800000 0x802000 example_machine = Some s' \<and>
     entry example_machine nbase 0x800000 = leaf_pte 7 0x17 \<and> entry s' nbase 0x800000 = 0"
proof -
  have e: "entry example_machine nbase 0x800000 = leaf_pte 7 0x17"
    by (simp add: PTX_def PDX1_def PDX0_def example_entry)
  have m: "0x800000 mod PGSIZE = 0" "0x802000 mod PGSIZE = 0" "USER_ACCESS 0x800000 0x802000"
    by (simp_all add: PGSIZE_def USER_ACCESS_def USERBASE_def USERTOP_def)
  obtain s' where s': "unmap_range nbase 0x800000 0x802000 example_machine = Some s'"
    "\<forall>la. canonical la \<longrightarrow> entry s' nbase la =
       (if 0x800000 \<le> la \<and> la < 0x802000 \<and> valid (entry example_machine nbase la) then 0
        else entry example_machine nbase la)"
    using unmap_range_clears [OF example_space_ok m] by blast
  have "entry s' nbase 0x800000 = 0" using spec [OF s'(2), of "0x800000"] e by (simp add: canonical_def)
  then show ?thesis using s'(1) e by blast
qed

theorem exit_range_loses_tables_witness:
  "\<exists>s'. exit_range nbase 0xA00000 0xA01000 example_machine = Some s' \<and>
     entry example_machine nbase 0x800000 = leaf_pte 7 0x17 \<and> entry s' nbase 0x800000 = 0"
proof -
  have e: "entry example_machine nbase 0x800000 = leaf_pte 7 0x17"
    by (simp add: PTX_def PDX1_def PDX0_def example_entry)
  have v: "valid (entry example_machine nbase 0x800000)" using e by simp
  have r: "(0xA00000 :: 64 word) mod PGSIZE = 0" "(0xA01000 :: 64 word) mod PGSIZE = 0"
    "USER_ACCESS 0xA00000 0xA01000" "0xA01000 \<le> ROUNDDOWN 0xA00000 PTSIZE + PTSIZE"
    by (simp_all add: PGSIZE_def USER_ACCESS_def USERBASE_def USERTOP_def ROUNDDOWN_def PTSIZE_def)
  have n: "node example_machine nbase [PDX1 0xA00000] = Some (nbase + 1)"
    "node example_machine nbase (leaf_path 0xA00000) = Some (nbase + 6)"
    "node example_machine nbase (leaf_path 0x800000) = Some (nbase + 5)"
    "PDX1 0x800000 = PDX1 0xA00000" "PDX0 0x800000 \<noteq> PDX0 0xA00000"
    by (simp_all add: leaf_path_def PDX1_def PDX0_def example_sub_table)
  have t: "table_empty example_machine (nbase + 6)"
    by (simp add: table_empty_def list_ex_iff example_machine_def)
  have p: "npage example_machine < 2 ^ 32" "\<not> PageReserved (page_of (phys example_machine) (nbase + 1 - nbase))"
    "\<not> PageReserved (page_of (phys example_machine) (nbase + 6 - nbase))"
    "\<exists>q \<in> list_free_set (phys example_machine). nbase + 1 - nbase < q \<and> nbase + 6 - nbase < q"
    unfolding example_inv
    by (simp_all add: example_machine_def nbase_def example_pmm_def PageReserved_def PG_reserved_def)
  show ?thesis
    using exit_range_loses_tables [OF example_pt_ok p(1) r n(1,2) t p(2-4) n(4,5,3) v] e by blast
qed

end
