(* ===== verification/MmLife.thy ===== *)
theory MmLife
imports AddrSpace Disk
begin

text \<open>
  The life of an address space: creation, duplication and destruction of \<open>mm_struct\<close>s
  (\<open>kern/mm/vmm.c\<close>, \<open>vmm.h\<close>) with their page tables (\<open>setup_pgdir\<close> and \<open>put_pgdir\<close> of \<open>proc.c\<close>).

  \<open>mm->pgdir\<close> is a kernel pointer to a page, so \<open>mm_pgdir\<close> holds a page number as everywhere in theory
  PageTable. The results of \<open>kmalloc\<close> are arguments: one pointer, or a list of results for a loop
  (\<open>NULL\<close> when the list is used up). What is passed to \<open>kfree\<close> is recorded. \<open>who\<close> is the \<open>pid\<close> of
  \<open>current\<close>, if there is a current process.
\<close>

record uvm = vm +
  mach :: machine
  boot_pgdir :: nat
  mm_sem :: "nat \<Rightarrow> int"
  vmas_freed :: "nat list"
  mms_freed :: "nat list"

definition upd_mach :: "machine \<Rightarrow> 'a uvm_scheme \<Rightarrow> 'a uvm_scheme" where
  "upd_mach m s = s\<lparr>mach := m\<rparr>"

definition mm_new :: "nat option \<Rightarrow> 'a uvm_scheme \<Rightarrow> nat option \<times> 'a uvm_scheme" where
  "mm_new kp s =
     (case mm_create kp s of
        (None, s) \<Rightarrow> (None, s)
      | (Some m, s) \<Rightarrow> (Some m, s\<lparr>mm_sem := (mm_sem s)(m := 1)\<rparr>))"

definition mm_count_inc :: "nat \<Rightarrow> 'a uvm_scheme \<Rightarrow> 'a uvm_scheme" where
  "mm_count_inc m s = upd_mm m (\<lambda>d. d\<lparr>mm_count := mm_count d + 1\<rparr>) s"

definition mm_count_dec :: "nat \<Rightarrow> 'a uvm_scheme \<Rightarrow> int \<times> 'a uvm_scheme" where
  "mm_count_dec m s = (let s = upd_mm m (\<lambda>d. d\<lparr>mm_count := mm_count d - 1\<rparr>) s in (mm_count (mms s m), s))"

definition lock_mm :: "int option \<Rightarrow> nat option \<Rightarrow> 'a uvm_scheme \<Rightarrow> 'a uvm_scheme option" where
  "lock_mm who mo s =
     (case mo of
        None \<Rightarrow> Some s
      | Some m \<Rightarrow> do {
          v \<leftarrow> sem_down (mm_sem s m);
          let s = s\<lparr>mm_sem := (mm_sem s)(m := v)\<rparr>;
          Some (case who of None \<Rightarrow> s | Some n \<Rightarrow> upd_mm m (\<lambda>d. d\<lparr>locked_by := n\<rparr>) s)
        })"

definition unlock_mm :: "nat option \<Rightarrow> 'a uvm_scheme \<Rightarrow> 'a uvm_scheme" where
  "unlock_mm mo s =
     (case mo of
        None \<Rightarrow> s
      | Some m \<Rightarrow> upd_mm m (\<lambda>d. d\<lparr>locked_by := 0\<rparr>) (s\<lparr>mm_sem := (mm_sem s)(m := sem_up (mm_sem s m))\<rparr>))"

section \<open>Page directories\<close>

definition kva2page :: "machine \<Rightarrow> nat \<Rightarrow> nat option" where
  "kva2page s k = (if k \<ge> npage s then None else if k < nbase then None else Some (k - nbase))"

definition setup_pgdir :: "nat \<Rightarrow> 'a uvm_scheme \<Rightarrow> (int \<times> 'a uvm_scheme) option" where
  "setup_pgdir m s = do {
     (r, h) \<leftarrow> alloc_page (mach s);
     (case r of
        None \<Rightarrow> Some (- E_NO_MEM, upd_mach h s)
      | Some page \<Rightarrow> do {
          k \<leftarrow> page2kva h page;
          let h = set_frame k (frames h (boot_pgdir s)) h;
          Some (0, upd_mm m (\<lambda>d. d\<lparr>mm_pgdir := of_nat k\<rparr>) (upd_mach h s))
        })
   }"

definition put_pgdir :: "nat \<Rightarrow> 'a uvm_scheme \<Rightarrow> 'a uvm_scheme option" where
  "put_pgdir m s = do {
     page \<leftarrow> kva2page (mach s) (unat (mm_pgdir (mms s m)));
     h \<leftarrow> free_page page (mach s);
     Some (upd_mach h s)
   }"

section \<open>Destruction and duplication\<close>

partial_function (option) mm_destroy_loop :: "nat \<Rightarrow> 'a uvm_scheme \<Rightarrow> 'a uvm_scheme option" where
  "mm_destroy_loop m s =
     (case list_next (VmaHead m) (vma_links s) of
        VmaHead k \<Rightarrow> if k = m then Some s else None
      | VmaLink v \<Rightarrow>
          (let s = upd_vma_links (list_del (VmaLink v)) s
           in mm_destroy_loop m (s\<lparr>vmas_freed := v # vmas_freed s\<rparr>)))"

definition mm_destroy :: "nat \<Rightarrow> 'a uvm_scheme \<Rightarrow> 'a uvm_scheme option" where
  "mm_destroy m s = do {
     kassert (mm_count (mms s m) = 0);
     s \<leftarrow> mm_destroy_loop m s;
     Some (s\<lparr>mms_freed := m # mms_freed s\<rparr>)
   }"

partial_function (option) dup_mmap_loop ::
  "nat \<Rightarrow> nat \<Rightarrow> vnode \<Rightarrow> nat option list \<Rightarrow> 'a uvm_scheme \<Rightarrow> (int \<times> 'a uvm_scheme) option" where
  "dup_mmap_loop to frm le ks s =
     (case list_prev le (vma_links s) of
        VmaHead k \<Rightarrow> if k = frm then Some (0, s) else None
      | VmaLink v \<Rightarrow>
          (case vma_create (case ks of [] \<Rightarrow> None | k # _ \<Rightarrow> k) (vm_start (vmas s v)) (vm_end (vmas s v)) (vm_flags (vmas s v)) s of
             (None, s) \<Rightarrow> Some (- E_NO_MEM, s)
           | (Some nv, s) \<Rightarrow>
               Option.bind (insert_vma_struct to nv s) (\<lambda>s.
               Option.bind (copy_range (unat (mm_pgdir (mms s to))) (unat (mm_pgdir (mms s frm)))
                   (vm_start (vmas s v)) (vm_end (vmas s v)) (mach s)) (\<lambda>(ret, h).
                 if ret \<noteq> 0 then Some (- E_NO_MEM, upd_mach h s)
                 else dup_mmap_loop to frm (VmaLink v) (tl ks) (upd_mach h s)))))"

definition dup_mmap :: "nat \<Rightarrow> nat \<Rightarrow> nat option list \<Rightarrow> 'a uvm_scheme \<Rightarrow> (int \<times> 'a uvm_scheme) option" where
  "dup_mmap to frm ks s = dup_mmap_loop to frm (VmaHead frm) ks s"

text \<open>The two loops of \<open>exit_mmap\<close>: \<open>f\<close> is \<open>unmap_range\<close> and then \<open>exit_range\<close>.\<close>

partial_function (option) exit_mmap_loop ::
  "(nat \<Rightarrow> 64 word \<Rightarrow> 64 word \<Rightarrow> machine \<Rightarrow> machine option) \<Rightarrow> nat \<Rightarrow> nat \<Rightarrow> vnode \<Rightarrow> 'a uvm_scheme \<Rightarrow>
   'a uvm_scheme option" where
  "exit_mmap_loop f d m le s =
     (case list_next le (vma_links s) of
        VmaHead k \<Rightarrow> if k = m then Some s else None
      | VmaLink v \<Rightarrow>
          Option.bind (f d (vm_start (vmas s v)) (vm_end (vmas s v)) (mach s)) (\<lambda>h.
            exit_mmap_loop f d m (VmaLink v) (upd_mach h s)))"

definition exit_mmap :: "nat \<Rightarrow> 'a uvm_scheme \<Rightarrow> 'a uvm_scheme option" where
  "exit_mmap m s = do {
     kassert (mm_count (mms s m) = 0);
     let d = unat (mm_pgdir (mms s m));
     s \<leftarrow> exit_mmap_loop unmap_range d m (VmaHead m) s;
     exit_mmap_loop exit_range d m (VmaHead m) s
   }"

text \<open>What \<open>do_exit\<close> and a failing \<open>copy_mm\<close> do when nobody uses the address space any more.\<close>

definition drop_mm :: "nat \<Rightarrow> 'a uvm_scheme \<Rightarrow> 'a uvm_scheme option" where
  "drop_mm m s = do { s \<leftarrow> exit_mmap m s; s \<leftarrow> put_pgdir m s; mm_destroy m s }"

end
