(* ===== verification/Process.thy ===== *)
theory Process
imports ProcTable Devices MmLife
begin

text \<open>
  The life of a process in \<open>kern/process/proc.c\<close>: \<open>do_fork\<close>, \<open>do_exit\<close>, \<open>do_wait\<close>, \<open>do_kill\<close> and
  \<open>do_sleep\<close>, over the process table (theory ProcTable), the scheduler, the address spaces (theory
  MmLife) and the files (theories Vfs, Files). The state joins the states of these parts.

  The results of \<open>kmalloc\<close> during a fork are the argument \<open>fm\<close>. \<open>forkret\<close> is the address of that
  function. A kernel address of the byte \<open>a\<close> of physical memory is \<open>a\<close> plus
  \<open>PHYSICAL_MEMORY_OFFSET\<close>; \<open>kstack\<close> is a page number, \<open>tf\<close> an address. Saved trap frames are in
  \<open>tframes\<close>, by address. Interrupt flags are not modelled: every function runs to its next call of
  \<open>schedule\<close> without a break, and what follows that call is a step of its own.
\<close>

datatype gpr_reg =
  R_zero | R_ra | R_sp | R_gp | R_tp | R_t0 | R_t1 | R_t2 | R_s0 | R_s1 | R_a0 | R_a1 | R_a2 | R_a3 | R_a4 | R_a5
| R_a6 | R_a7 | R_s2 | R_s3 | R_s4 | R_s5 | R_s6 | R_s7 | R_s8 | R_s9 | R_s10 | R_s11 | R_t3 | R_t4 | R_t5 | R_t6

record trapframe =
  gpr :: "gpr_reg \<Rightarrow> 64 word"
  tf_status :: "64 word"
  tf_epc :: "64 word"
  tf_tval :: "64 word"
  tf_cause :: "64 word"

record system = proctab +
  memory :: uvm
  fsys :: devices
  tframes :: "nat \<Rightarrow> trapframe"
  procs_freed :: "proc_ptr list"

record fork_mem =
  fm_proc :: "proc_ptr option"
  fm_mm :: "nat option"
  fm_vmas :: "nat option list"
  fm_files :: "nat option"

definition CLONE_VM :: "32 word" where "CLONE_VM = 0x100"
definition CLONE_FS :: "32 word" where "CLONE_FS = 0x800"
definition KSTACKPAGE :: nat where "KSTACKPAGE = 2"
definition KSTACKSIZE :: "64 word" where "KSTACKSIZE = of_nat KSTACKPAGE * PGSIZE"
definition PHYSICAL_MEMORY_OFFSET :: "64 word" where "PHYSICAL_MEMORY_OFFSET = 0xFFFFFFFF40000000"
definition PROC_NAME_LEN :: nat where "PROC_NAME_LEN = 15"

definition boot_pgdir_pa :: "'a system_scheme \<Rightarrow> 64 word" where
  "boot_pgdir_pa s = push_bit 12 (of_nat (boot_pgdir (memory s)))"

definition lsatp :: "64 word \<Rightarrow> 'a system_scheme \<Rightarrow> 'a system_scheme" where
  "lsatp d s = s\<lparr>satp := or 0x8000000000000000 (drop_bit 12 d)\<rparr>"

definition kfree_proc :: "proc_ptr \<Rightarrow> 'a system_scheme \<Rightarrow> 'a system_scheme" where
  "kfree_proc p s = s\<lparr>procs_freed := p # procs_freed s\<rparr>"

section \<open>The parts of a new process\<close>

definition alloc_proc :: "proc_ptr option \<Rightarrow> 'a system_scheme \<Rightarrow> proc_ptr option \<times> 'a system_scheme" where
  "alloc_proc kp s =
     (case kp of
        None \<Rightarrow> (None, s)
      | Some p \<Rightarrow>
          let s = upd_proc p (\<lambda>d. d\<lparr>state := PROC_UNINIT, pid := - 1, runs := 0, kstack := None, need_resched := False,
                    parent := None, mm := None, proc_context := \<lparr>ctx_ra = 0, ctx_sp = 0, ctx_s = replicate 12 0\<rparr>,
                    tf := None, pgdir := boot_pgdir_pa s, flags := 0, proc_name := [], wait_state := 0,
                    cptr := None, optr := None, yptr := None, on_rq := False, time_slice := 0,
                    lab6_stride := 0, lab6_priority := 0, filesp := None\<rparr>) s;
              s = upd_run_links (list_init (RunLink p)) s
          in (Some p, s\<lparr>pool := skew_heap_init p (pool s)\<rparr>))"

text \<open>\<open>memcpy\<close> of \<open>PROC_NAME_LEN\<close> bytes into a cleared array of one byte more.\<close>

definition set_proc_name :: "proc_ptr \<Rightarrow> string \<Rightarrow> 'a system_scheme \<Rightarrow> 'a system_scheme" where
  "set_proc_name p name s = upd_proc p (\<lambda>d. d\<lparr>proc_name := take PROC_NAME_LEN name\<rparr>) s"

definition get_proc_name :: "proc_ptr \<Rightarrow> 'a system_scheme \<Rightarrow> string" where
  "get_proc_name p s = take PROC_NAME_LEN (proc_name (procs s p))"

definition setup_kstack :: "proc_ptr \<Rightarrow> 'a system_scheme \<Rightarrow> (int \<times> 'a system_scheme) option" where
  "setup_kstack p s = do {
     (r, h) \<leftarrow> alloc_pages KSTACKPAGE (mach (memory s));
     let s = s\<lparr>memory := upd_mach h (memory s)\<rparr>;
     (case r of
        None \<Rightarrow> Some (- E_NO_MEM, s)
      | Some page \<Rightarrow> do {
          k \<leftarrow> page2kva h page;
          Some (0, upd_proc p (\<lambda>d. d\<lparr>kstack := Some k\<rparr>) s)
        })
   }"

definition put_kstack :: "proc_ptr \<Rightarrow> 'a system_scheme \<Rightarrow> 'a system_scheme option" where
  "put_kstack p s = do {
     k \<leftarrow> kstack (procs s p);
     page \<leftarrow> kva2page (mach (memory s)) k;
     h \<leftarrow> free_pages page KSTACKPAGE (mach (memory s));
     Some (s\<lparr>memory := upd_mach h (memory s)\<rparr>)
   }"

definition use_mm :: "nat \<Rightarrow> proc_ptr \<Rightarrow> 'a system_scheme \<Rightarrow> 'a system_scheme" where
  "use_mm m p s =
     (let s = s\<lparr>memory := mm_count_inc m (memory s)\<rparr>
      in upd_proc p (\<lambda>d. d\<lparr>mm := Some m, pgdir := push_bit 12 (mm_pgdir (mms (memory s) m))\<rparr>) s)"

definition copy_mm ::
  "32 word \<Rightarrow> proc_ptr \<Rightarrow> nat option \<Rightarrow> nat option list \<Rightarrow> 'a system_scheme \<Rightarrow> (int \<times> 'a system_scheme) option" where
  "copy_mm clone_flags p kmm kvmas s = do {
     c \<leftarrow> current s;
     (case mm (procs s c) of
        None \<Rightarrow> Some (0, s)
      | Some oldmm \<Rightarrow>
          if and clone_flags CLONE_VM \<noteq> 0 then Some (0, use_mm oldmm p s)
          else
            let (r, u) = mm_new kmm (memory s) in
            (case r of
               None \<Rightarrow> Some (- E_NO_MEM, s\<lparr>memory := u\<rparr>)
             | Some m \<Rightarrow> do {
                 (ret, u) \<leftarrow> setup_pgdir m u;
                 (if ret \<noteq> 0
                  then do { u \<leftarrow> mm_destroy m u; Some (- E_NO_MEM, s\<lparr>memory := u\<rparr>) }
                  else do {
                    u \<leftarrow> lock_mm (Some (pid (procs s c))) (Some oldmm) u;
                    (ret, u) \<leftarrow> dup_mmap m oldmm kvmas u;
                    let u = unlock_mm (Some oldmm) u;
                    (if ret \<noteq> 0
                     then do { u \<leftarrow> drop_mm m u; Some (ret, s\<lparr>memory := u\<rparr>) }
                     else Some (0, use_mm m p (s\<lparr>memory := u\<rparr>)))
                  })
               }))
   }"

definition copy_thread ::
  "64 word \<Rightarrow> proc_ptr \<Rightarrow> 64 word \<Rightarrow> trapframe \<Rightarrow> 'a system_scheme \<Rightarrow> 'a system_scheme option" where
  "copy_thread forkret p esp tf0 s = do {
     k \<leftarrow> kstack (procs s p);
     let a = push_bit 12 (of_nat k) + PHYSICAL_MEMORY_OFFSET + KSTACKSIZE - 36 * 8;
     let s = upd_proc p (\<lambda>d. d\<lparr>tf := Some (unat a)\<rparr>) s;
     let t = tf0\<lparr>gpr := (gpr tf0)(R_a0 := 0, R_sp := (if esp = 0 then a else esp))\<rparr>;
     let s = s\<lparr>tframes := (tframes s)(unat a := t)\<rparr>;
     Some (upd_proc p (\<lambda>d. d\<lparr>proc_context := (proc_context d)\<lparr>ctx_ra := forkret, ctx_sp := a\<rparr>\<rparr>) s)
   }"

definition copy_files ::
  "(nat \<Rightarrow> devices inode_ops) \<Rightarrow> 32 word \<Rightarrow> proc_ptr \<Rightarrow> nat option \<Rightarrow> 'a system_scheme \<Rightarrow> (int \<times> 'a system_scheme) option" where
  "copy_files ops clone_flags p kf s = do {
     c \<leftarrow> current s;
     old_filesp \<leftarrow> filesp (procs s c);
     (if and clone_flags CLONE_FS \<noteq> 0
      then Some (0, upd_proc p (\<lambda>d. d\<lparr>filesp := Some old_filesp\<rparr>) (s\<lparr>fsys := files_count_inc old_filesp (fsys s)\<rparr>))
      else
        let (r, v) = files_create kf (fsys s) in
        (case r of
           None \<Rightarrow> Some (- E_NO_MEM, s\<lparr>fsys := v\<rparr>)
         | Some fp \<Rightarrow> do {
             (ret, v) \<leftarrow> dup_files fp old_filesp v;
             (if ret \<noteq> 0
              then do { v \<leftarrow> files_destroy ops fp v; Some (ret, s\<lparr>fsys := v\<rparr>) }
              else Some (0, upd_proc p (\<lambda>d. d\<lparr>filesp := Some fp\<rparr>) (s\<lparr>fsys := files_count_inc fp v\<rparr>)))
           }))
   }"

definition put_files :: "(nat \<Rightarrow> devices inode_ops) \<Rightarrow> proc_ptr \<Rightarrow> 'a system_scheme \<Rightarrow> 'a system_scheme option" where
  "put_files ops p s =
     (case filesp (procs s p) of
        None \<Rightarrow> Some s
      | Some fp \<Rightarrow> do {
          let (n, v) = files_count_dec fp (fsys s);
          v \<leftarrow> (if n = 0 then files_destroy ops fp v else Some v);
          Some (s\<lparr>fsys := v\<rparr>)
        })"

section \<open>Creating a process\<close>

text \<open>The cleanup of a failed fork, from the label \<open>bad_fork_cleanup_kstack\<close>.\<close>

definition fork_cleanup_kstack :: "proc_ptr \<Rightarrow> int \<Rightarrow> 'a system_scheme \<Rightarrow> (int \<times> 'a system_scheme) option" where
  "fork_cleanup_kstack p ret s = do { s \<leftarrow> put_kstack p s; Some (ret, kfree_proc p s) }"

definition do_fork ::
  "'a system_scheme sched_class \<Rightarrow> (nat \<Rightarrow> devices inode_ops) \<Rightarrow> 64 word \<Rightarrow> fork_mem \<Rightarrow> 32 word \<Rightarrow> 64 word \<Rightarrow> trapframe \<Rightarrow>
   'a system_scheme \<Rightarrow> (int \<times> 'a system_scheme) option" where
  "do_fork C ops forkret fm clone_flags stack tf0 s =
     (if nr_process s \<ge> MAX_PROCESS then Some (- E_NO_FREE_PROC, s)
      else
        let (r, s) = alloc_proc (fm_proc fm) s in
        (case r of
           None \<Rightarrow> Some (- E_NO_MEM, s)
         | Some p \<Rightarrow> do {
             c \<leftarrow> current s;
             let s = upd_proc p (\<lambda>d. d\<lparr>parent := Some c\<rparr>) s;
             kassert (wait_state (procs s c) = 0);
             (ret, s) \<leftarrow> setup_kstack p s;
             (if ret \<noteq> 0 then Some (- E_NO_MEM, kfree_proc p s)
              else do {
                (ret, s) \<leftarrow> copy_mm clone_flags p (fm_mm fm) (fm_vmas fm) s;
                (if ret \<noteq> 0 then fork_cleanup_kstack p (- E_NO_MEM) s
                 else do {
                   (n, s) \<leftarrow> get_pid s;
                   let s = upd_proc p (\<lambda>d. d\<lparr>pid := n\<rparr>) s;
                   s \<leftarrow> copy_thread forkret p stack tf0 s;
                   s \<leftarrow> set_links p (hash_proc p s);
                   s \<leftarrow> wakeup_proc C p s;
                   let ret = pid (procs s p);
                   (r, s) \<leftarrow> copy_files ops clone_flags p (fm_files fm) s;
                   (if r \<noteq> 0 then fork_cleanup_kstack p ret s else Some (ret, s))
                 })
              })
           }))"

definition kernel_thread ::
  "'a system_scheme sched_class \<Rightarrow> (nat \<Rightarrow> devices inode_ops) \<Rightarrow> 64 word \<Rightarrow> fork_mem \<Rightarrow> 64 word \<Rightarrow> 64 word \<Rightarrow> 64 word \<Rightarrow>
   64 word \<Rightarrow> 32 word \<Rightarrow> 'a system_scheme \<Rightarrow> (int \<times> 'a system_scheme) option" where
  "kernel_thread C ops forkret fm kentry sstatus fn arg clone_flags s =
     do_fork C ops forkret fm (or clone_flags CLONE_VM) 0
       \<lparr>gpr = (\<lambda>_. 0)(R_s0 := fn, R_s1 := arg),
        tf_status = and (or sstatus (or 0x100 0x20)) (not 0x2), tf_epc = kentry, tf_tval = 0, tf_cause = 0\<rparr> s"

section \<open>The end of a process\<close>

text \<open>The loop that hands the children of the exiting process to \<open>initproc\<close>.\<close>

partial_function (option) reparent_loop ::
  "'a system_scheme sched_class \<Rightarrow> proc_ptr \<Rightarrow> 'a system_scheme \<Rightarrow> 'a system_scheme option" where
  "reparent_loop C c s =
     (case cptr (procs s c) of
        None \<Rightarrow> Some s
      | Some p \<Rightarrow>
          (case initproc s of
             None \<Rightarrow> None
           | Some ini \<Rightarrow>
               (let s = upd_proc c (\<lambda>d. d\<lparr>cptr := optr (procs s p)\<rparr>) s;
                    s = upd_proc p (\<lambda>d. d\<lparr>yptr := None\<rparr>) s;
                    s = upd_proc p (\<lambda>d. d\<lparr>optr := cptr (procs s ini)\<rparr>) s;
                    s = (case cptr (procs s ini) of None \<Rightarrow> s | Some q \<Rightarrow> upd_proc q (\<lambda>d. d\<lparr>yptr := Some p\<rparr>) s);
                    s = upd_proc p (\<lambda>d. d\<lparr>parent := Some ini\<rparr>) s;
                    s = upd_proc ini (\<lambda>d. d\<lparr>cptr := Some p\<rparr>) s
                in Option.bind
                     (if state (procs s p) = PROC_ZOMBIE \<and> wait_state (procs s ini) = WT_CHILD
                      then wakeup_proc C ini s else Some s)
                     (reparent_loop C c))))"

text \<open>\<open>do_exit\<close> up to and including its call of \<open>schedule\<close>, which does not return to the process.\<close>

definition do_exit ::
  "'a system_scheme sched_class \<Rightarrow> (nat \<Rightarrow> devices inode_ops) \<Rightarrow> int \<Rightarrow> 'a system_scheme \<Rightarrow> 'a system_scheme option" where
  "do_exit C ops error_code s = do {
     c \<leftarrow> current s;
     kassert (Some c \<noteq> idleproc s);
     kassert (Some c \<noteq> initproc s);
     s \<leftarrow> (case mm (procs s c) of
            None \<Rightarrow> Some s
          | Some m \<Rightarrow> do {
              let s = lsatp (boot_pgdir_pa s) s;
              let (n, u) = mm_count_dec m (memory s);
              u \<leftarrow> (if n = 0 then drop_mm m u else Some u);
              let s = upd_proc c (\<lambda>d. d\<lparr>mm := None\<rparr>) (s\<lparr>memory := u\<rparr>);
              put_files ops c s
            });
     let s = upd_proc c (\<lambda>d. d\<lparr>state := PROC_ZOMBIE, exit_code := error_code\<rparr>) s;
     pa \<leftarrow> parent (procs s c);
     s \<leftarrow> (if wait_state (procs s pa) = WT_CHILD then wakeup_proc C pa s else Some s);
     s \<leftarrow> reparent_loop C c s;
     schedule C s
   }"

definition do_yield :: "'a system_scheme \<Rightarrow> (int \<times> 'a system_scheme) option" where
  "do_yield s = do { c \<leftarrow> current s; Some (0, upd_proc c (\<lambda>d. d\<lparr>need_resched := True\<rparr>) s) }"

section \<open>Waiting for a child\<close>

text \<open>The search through the children: whether there is one, and the first zombie.\<close>

partial_function (option) child_loop ::
  "proc_ptr option \<Rightarrow> bool \<Rightarrow> 'a system_scheme \<Rightarrow> (bool \<times> proc_ptr option) option" where
  "child_loop po haskid s =
     (case po of
        None \<Rightarrow> Some (haskid, None)
      | Some p \<Rightarrow> if state (procs s p) = PROC_ZOMBIE then Some (True, Some p) else child_loop (optr (procs s p)) True s)"

definition wait_search :: "int \<Rightarrow> proc_ptr \<Rightarrow> 'a system_scheme \<Rightarrow> (bool \<times> proc_ptr option) option" where
  "wait_search n c s =
     (if n \<noteq> 0
      then do {
        r \<leftarrow> find_proc n s;
        Some (case r of
            None \<Rightarrow> (False, None)
          | Some p \<Rightarrow>
              if parent (procs s p) = Some c
              then (True, if state (procs s p) = PROC_ZOMBIE then Some p else None)
              else (False, None))
      }
      else child_loop (cptr (procs s c)) False s)"

text \<open>The code from the label \<open>found\<close>: the exit code of the child and the state without it.\<close>

definition reap :: "proc_ptr \<Rightarrow> 'a system_scheme \<Rightarrow> (int \<times> 'a system_scheme) option" where
  "reap p s = do {
     kassert (\<not> (Some p = idleproc s \<or> Some p = initproc s));
     let code = exit_code (procs s p);
     s \<leftarrow> remove_links p (unhash_proc p s);
     s \<leftarrow> put_kstack p s;
     Some (code, kfree_proc p s)
   }"

datatype wait_result = Wait_returns int "int option" | Wait_suspended

text \<open>One pass of \<open>do_wait\<close> from the label \<open>repeat\<close>: a return value, with the exit code that is stored
  at \<open>code_store\<close>, or the call of \<open>schedule\<close>.\<close>

definition do_wait_pass ::
  "'a system_scheme sched_class \<Rightarrow> int \<Rightarrow> 64 word \<Rightarrow> 'a system_scheme \<Rightarrow> (wait_result \<times> 'a system_scheme) option" where
  "do_wait_pass C n code_store s = do {
     c \<leftarrow> current s;
     (haskid, found) \<leftarrow> wait_search n c s;
     (case found of
        Some p \<Rightarrow> do { (code, s) \<leftarrow> reap p s; Some (Wait_returns 0 (if code_store \<noteq> 0 then Some code else None), s) }
      | None \<Rightarrow>
          if haskid
          then do {
            let s = upd_proc c (\<lambda>d. d\<lparr>state := PROC_SLEEPING, wait_state := WT_CHILD\<rparr>) s;
            s \<leftarrow> schedule C s;
            Some (Wait_suspended, s)
          }
          else Some (Wait_returns (- E_BAD_PROC) None, s))
   }"

text \<open>\<open>do_wait\<close> up to its first pass; \<open>code_store\<close> is the user address, 0 for \<open>NULL\<close>.\<close>

definition do_wait ::
  "'a system_scheme sched_class \<Rightarrow> int \<Rightarrow> 64 word \<Rightarrow> 'a system_scheme \<Rightarrow> (wait_result \<times> 'a system_scheme) option" where
  "do_wait C n code_store s = do {
     c \<leftarrow> current s;
     (ok, s) \<leftarrow> (if code_store \<noteq> 0
       then do {
         (ok, u) \<leftarrow> user_mem_check (mm (procs s c)) code_store 4 True (memory s);
         Some (ok, s\<lparr>memory := u\<rparr>)
       }
       else Some (True, s));
     (if \<not> ok then Some (Wait_returns (- E_INVAL) None, s) else do_wait_pass C n code_store s)
   }"

text \<open>What a suspended \<open>do_wait\<close> does when it runs again.\<close>

definition do_wait_resume ::
  "'a system_scheme sched_class \<Rightarrow> (nat \<Rightarrow> devices inode_ops) \<Rightarrow> int \<Rightarrow> 64 word \<Rightarrow> 'a system_scheme \<Rightarrow>
   (wait_result \<times> 'a system_scheme) option" where
  "do_wait_resume C ops n code_store s = do {
     c \<leftarrow> current s;
     (if and (flags (procs s c)) PF_EXITING \<noteq> 0
      then do { s \<leftarrow> do_exit C ops (- E_KILLED) s; Some (Wait_suspended, s) }
      else do_wait_pass C n code_store s)
   }"

section \<open>Killing and sleeping\<close>

definition do_kill :: "'a system_scheme sched_class \<Rightarrow> int \<Rightarrow> 'a system_scheme \<Rightarrow> (int \<times> 'a system_scheme) option" where
  "do_kill C n s = do {
     r \<leftarrow> find_proc n s;
     (case r of
        None \<Rightarrow> Some (- E_INVAL, s)
      | Some p \<Rightarrow>
          if and (flags (procs s p)) PF_EXITING = 0
          then do {
            let s = upd_proc p (\<lambda>d. d\<lparr>flags := or (flags d) PF_EXITING\<rparr>) s;
            s \<leftarrow> (if and (wait_state (procs s p)) WT_INTERRUPTED \<noteq> 0 then wakeup_proc C p s else Some s);
            Some (0, s)
          }
          else Some (- E_KILLED, s))
   }"

definition lab6_set_priority :: "32 word \<Rightarrow> 'a system_scheme \<Rightarrow> 'a system_scheme option" where
  "lab6_set_priority priority s = do {
     c \<leftarrow> current s;
     Some (upd_proc c (\<lambda>d. d\<lparr>lab6_priority := (if priority = 0 then 1 else priority)\<rparr>) s)
   }"

text \<open>\<open>do_sleep\<close> up to \<open>schedule\<close>, with the timer \<open>t\<close> on its stack, and the rest.\<close>

definition do_sleep_begin ::
  "'a system_scheme sched_class \<Rightarrow> nat \<Rightarrow> 32 word \<Rightarrow> 'a system_scheme \<Rightarrow> (bool \<times> 'a system_scheme) option" where
  "do_sleep_begin C t time s =
     (if time = 0 then Some (False, s)
      else do {
        c \<leftarrow> current s;
        let s = timer_init t c time s;
        let s = upd_proc c (\<lambda>d. d\<lparr>state := PROC_SLEEPING, wait_state := WT_TIMER\<rparr>) s;
        s \<leftarrow> add_timer t s;
        s \<leftarrow> schedule C s;
        Some (True, s)
      })"

definition do_sleep_end :: "nat \<Rightarrow> 'a system_scheme \<Rightarrow> int \<times> 'a system_scheme" where
  "do_sleep_end t s = (0, del_timer t s)"

section \<open>Starting the process system\<close>

primrec init_hash_lists :: "nat \<Rightarrow> hnode links \<Rightarrow> hnode links" where
  "init_hash_lists 0 L = L"
| "init_hash_lists (Suc n) L = list_init (HashList n) (init_hash_lists n L)"

text \<open>\<open>ki\<close> and \<open>kfs\<close> are the memory for the idle process and its files, \<open>bootstack\<close> is its stack.\<close>

definition proc_init ::
  "'a system_scheme sched_class \<Rightarrow> (nat \<Rightarrow> devices inode_ops) \<Rightarrow> 64 word \<Rightarrow> fork_mem \<Rightarrow> 64 word \<Rightarrow> 64 word \<Rightarrow> 64 word \<Rightarrow>
   proc_ptr option \<Rightarrow> nat option \<Rightarrow> nat \<Rightarrow> 'a system_scheme \<Rightarrow> 'a system_scheme option" where
  "proc_init C ops forkret fm kentry sstatus init_main ki kfs bootstack s = do {
     let s = upd_proc_links (list_init ProcList) s;
     let s = upd_hash_links (init_hash_lists HASH_LIST_SIZE) s;
     let (r, s) = alloc_proc ki s;
     idle \<leftarrow> r;
     let s = upd_proc idle (\<lambda>d. d\<lparr>pid := 0, state := PROC_RUNNABLE, kstack := Some bootstack, need_resched := True\<rparr>) s;
     let (f, v) = files_create kfs (fsys s);
     fp \<leftarrow> f;
     let s = upd_proc idle (\<lambda>d. d\<lparr>filesp := Some fp\<rparr>) (s\<lparr>idleproc := Some idle, fsys := files_count_inc fp v\<rparr>);
     let s = set_proc_name idle ''idle'' s;
     let s = s\<lparr>nr_process := nr_process s + 1, current := Some idle\<rparr>;
     (n, s) \<leftarrow> kernel_thread C ops forkret fm kentry sstatus init_main 0 0 s;
     kassert (n > 0);
     r \<leftarrow> find_proc n s;
     i \<leftarrow> r;
     let s = set_proc_name i ''init'' (s\<lparr>initproc := Some i\<rparr>);
     kassert (pid (procs s idle) = 0);
     kassert (pid (procs s i) = 1);
     Some s
   }"

end
