(* ===== verification/Fork.thy ===== *)
theory Fork
imports Process
begin

text \<open>
  What \<open>do_fork\<close> guarantees. The locale \<open>sched_newcomer\<close> extends the contract of a scheduling class by
  the law for a process whose descriptor \<open>alloc_proc\<close> has set up; round robin satisfies it.
\<close>

section \<open>Scheduling classes and new processes\<close>

locale sched_newcomer = sched_core C rq_ok queue ready
  for C :: "'b kernel_scheme sched_class"
    and rq_ok :: "'b kernel_scheme \<Rightarrow> bool"
    and queue :: "'b kernel_scheme \<Rightarrow> proc_ptr set"
    and ready :: "proc_ptr \<Rightarrow> 'b kernel_scheme \<Rightarrow> bool" +
  assumes newcomer: "rq_ok s \<Longrightarrow> p \<notin> queue s \<Longrightarrow> run_links s' = list_init (RunLink p) (run_links s) \<Longrightarrow>
      pool s' = skew_heap_init p (pool s) \<Longrightarrow> proc_num s' = proc_num s \<Longrightarrow>
      max_time_slice s' = max_time_slice s \<Longrightarrow> lab6_run_pool s' = lab6_run_pool s \<Longrightarrow>
      (\<And>q. q \<noteq> p \<Longrightarrow> procs s' q = procs s q) \<Longrightarrow>
      rq_ok s' \<and> queue s' = queue s \<and> ready p s' \<and> (\<forall>q. ready q s \<longrightarrow> ready q s')"
begin

lemma sched_ok_newcomer:
  assumes ok: "sched_ok rq_ok queue ready P c i s" and p: "p \<notin> insert i P"
    and st: "state (procs s' p) = PROC_UNINIT"
    and same: "run_links s' = list_init (RunLink p) (run_links s)" "pool s' = skew_heap_init p (pool s)"
      "proc_num s' = proc_num s" "max_time_slice s' = max_time_slice s" "lab6_run_pool s' = lab6_run_pool s"
      "\<And>q. q \<noteq> p \<Longrightarrow> procs s' q = procs s q"
    and cur: "current s' = current s" "idleproc s' = idleproc s"
  shows "sched_ok rq_ok queue ready (insert p P) c i s'"
proof -
  note k = ok [unfolded sched_ok_def]
  have pq: "p \<notin> queue s" using k p by auto
  have n: "rq_ok s'" "queue s' = queue s" "ready p s'" "\<And>q. ready q s \<Longrightarrow> ready q s'"
    using newcomer [OF _ pq same] k by blast+
  have "c \<noteq> p" using k p by auto
  have s: "state (procs s' q) = state (procs s q)" if "q \<noteq> p" for q using same(6) [OF that] by simp
  show ?thesis
    unfolding sched_ok_def n(2)
  proof (intro conjI)
    show "\<forall>q\<in>queue s. state (procs s' q) = PROC_RUNNABLE" using k pq s by metis
    show "\<forall>q\<in>insert p P - {c}. state (procs s' q) = PROC_RUNNABLE \<longrightarrow> q \<in> queue s"
      using k st s by (metis DiffD1 DiffD2 DiffI insertE proc_state.distinct(1,3,5))
    show "\<forall>q\<in>insert p P - queue s. ready q s'" using k n(3,4) by auto
  qed (use k n(1) cur p in auto)
qed

lemma sched_ok_frame:
  assumes ok: "sched_ok rq_ok queue ready P c i s" and q: "same_queue s s'"
    and st: "\<And>p. state (procs s' p) = state (procs s p)" and cur: "current s' = current s" "idleproc s' = idleproc s"
  shows "sched_ok rq_ok queue ready P c i s'"
proof -
  have "rq_ok s' \<and> queue s' = queue s \<and> (\<forall>p. ready p s' = ready p s)"
    by (rule frame [OF _ q]) (use ok in \<open>simp add: sched_ok_def\<close>)
  then show ?thesis using ok st cur by (simp add: sched_ok_def)
qed

text \<open>All that \<open>wakeup_proc\<close> changes of the descriptors.\<close>

lemma wakeup_fields:
  assumes ok: "sched_ok rq_ok queue ready P c i s" and p: "p \<in> P" "p \<noteq> c"
    and st: "state (procs s p) \<noteq> PROC_ZOMBIE" "state (procs s p) \<noteq> PROC_RUNNABLE"
    and w: "wakeup_proc C p s = Some s'"
  shows "same_proc (if q = p then (procs s p)\<lparr>state := PROC_RUNNABLE, wait_state := 0\<rparr> else procs s q) (procs s' q)"
    and "p \<in> queue s'"
proof -
  let ?s2 = "upd_proc p (\<lambda>d. d\<lparr>wait_state := 0\<rparr>) (upd_proc p (\<lambda>d. d\<lparr>state := PROC_RUNNABLE\<rparr>) s)"
  have cur: "current s = Some c" "idleproc s = Some i" "i \<notin> P" "rq_ok s" "p \<notin> queue s" "ready p s"
    using ok p st by (auto simp: sched_ok_def)
  have "same_queue s ?s2" by (rule same_queue_trans [OF same_queue_upd_proc same_queue_upd_proc]) simp_all
  then have f2: "rq_ok ?s2" "queue ?s2 = queue s" "\<forall>q. ready q ?s2 = ready q s" using frame cur(4) by blast+
  then have "ready p ?s2" using cur(6) by simp
  then obtain s3 where e: "sc_enqueue C p ?s2 = Some s3" "queue s3 = insert p (queue ?s2)" "same_procs ?s2 s3"
    using enqueue [OF f2(1)] by blast
  have "p \<noteq> i" using p cur(3) by auto
  then have "wakeup_proc C p s = Some s3"
    using st p cur e(1) by (simp add: wakeup_proc_def sched_class_enqueue_def)
  then have s3: "s' = s3" using w by simp
  show "p \<in> queue s'" using e(2) s3 by simp
  show "same_proc (if q = p then (procs s p)\<lparr>state := PROC_RUNNABLE, wait_state := 0\<rparr> else procs s q) (procs s' q)"
    using e(3) s3 by (auto simp: same_procs_def fun_upd_def split: if_splits)
qed

end

lemma dlist_init_other:
  assumes "dlist L h xs" "e \<notin> set (h # xs)"
  shows "dlist (list_init e L) h xs"
  by (rule dlist_frame [OF assms(1)]) (use assms(2) in \<open>auto simp: links_simps\<close>)

interpretation rr_new: sched_newcomer default_sched_class rr_ok rr_queue rr_ready
proof unfold_locales
  fix s s' :: "'a kernel_scheme" and p
  assume "rr_ok s" and p: "p \<notin> rr_queue s" and e: "run_links s' = list_init (RunLink p) (run_links s)"
    "proc_num s' = proc_num s" "\<And>q. q \<noteq> p \<Longrightarrow> procs s' q = procs s q"
  then obtain ps where rep: "rr_rep s ps" by (auto simp: rr_ok_def)
  then have ps: "p \<notin> set ps" using p rr_queue_rep [OF rep] by simp
  have "dlist (run_links s') RunList (map RunLink ps)"
    unfolding e(1) by (rule dlist_init_other) (use rep ps in \<open>auto simp: rr_rep_def\<close>)
  moreover have "on_rq (procs s' q)" if "q \<in> set ps" for q
    using that rep ps e(3) [of q] by (metis rr_rep_def)
  ultimately have r: "rr_rep s' ps" using rep e(2) by (simp add: rr_rep_def)
  show "rr_ok s' \<and> rr_queue s' = rr_queue s \<and> rr_ready p s' \<and> (\<forall>q. rr_ready q s \<longrightarrow> rr_ready q s')"
    using r rep rr_queue_rep [OF r] rr_queue_rep [OF rep] e(1)
    by (auto simp: rr_ok_def rr_ready_def list_empty_def list_next_def links_simps)
qed

section \<open>A process before it joins the table\<close>

definition newborn ::
  "('a system_scheme \<Rightarrow> bool) \<Rightarrow> ('a system_scheme \<Rightarrow> proc_ptr set) \<Rightarrow> (proc_ptr \<Rightarrow> 'a system_scheme \<Rightarrow> bool) \<Rightarrow>
   proc_ptr \<Rightarrow> proc_ptr \<Rightarrow> proc_ptr \<Rightarrow> proc_ptr list \<Rightarrow> (proc_ptr \<Rightarrow> proc_ptr list) \<Rightarrow> 'a system_scheme \<Rightarrow> bool" where
  "newborn rq_ok queue ready p c i ps kids s \<longleftrightarrow>
     proctab_rep s i ps kids \<and> sched_ok rq_ok queue ready (insert p (set ps)) c i s \<and> p \<notin> insert i (set ps) \<and>
     c \<in> insert i (set ps) \<and>
     state (procs s p) = PROC_UNINIT \<and> parent (procs s p) = Some c \<and> cptr (procs s p) = None \<and> filesp (procs s p) = None"

text \<open>What the preparation of process \<open>p\<close> may change: its own descriptor, memory, files and frames.\<close>

definition quiet :: "proc_ptr \<Rightarrow> 'a system_scheme \<Rightarrow> 'a system_scheme \<Rightarrow> bool" where
  "quiet p s s' \<longleftrightarrow> same_queue s s' \<and> current s' = current s \<and> idleproc s' = idleproc s \<and>
     proc_links s' = proc_links s \<and> hash_links s' = hash_links s \<and> last_pid s' = last_pid s \<and>
     next_safe s' = next_safe s \<and> nr_process s' = nr_process s \<and> procs_freed s' = procs_freed s \<and>
     (\<forall>q. q \<noteq> p \<longrightarrow> procs s' q = procs s q) \<and> state (procs s' p) = state (procs s p) \<and>
     parent (procs s' p) = parent (procs s p) \<and> cptr (procs s' p) = cptr (procs s p) \<and>
     filesp (procs s' p) = filesp (procs s p)"

lemma quiet_trans: "quiet p s t \<Longrightarrow> quiet p t u \<Longrightarrow> quiet p s u"
  by (auto simp: quiet_def intro: same_queue_trans)

lemma quiet_refl [simp]: "quiet p s s"
  by (simp add: quiet_def same_queue_def)

lemma quiet_upd:
  assumes "\<And>d. on_rq (f d) = on_rq d \<and> time_slice (f d) = time_slice d \<and> lab6_stride (f d) = lab6_stride d \<and>
      lab6_priority (f d) = lab6_priority d \<and> state (f d) = state d \<and> parent (f d) = parent d \<and> cptr (f d) = cptr d \<and>
      filesp (f d) = filesp d"
  shows "quiet p s (upd_proc p f s)"
proof -
  have "same_queue s (upd_proc p f s)" by (rule same_queue_upd_proc) (use assms in blast)
  moreover have "procs_freed (upd_proc p f s) = procs_freed s" by (simp add: upd_proc_def)
  ultimately show ?thesis using assms [of "procs s p"] by (simp add: quiet_def)
qed

lemma quiet_parts [simp]: "quiet p s (s\<lparr>memory := m\<rparr>)" "quiet p s (s\<lparr>tframes := f\<rparr>)" "quiet p s (s\<lparr>fsys := v\<rparr>)"
  by (simp_all add: quiet_def same_queue_def)

lemma upd_proc_system [simp]:
  "memory (upd_proc p f s) = memory s" "fsys (upd_proc p f s) = fsys s" "tframes (upd_proc p f s) = tframes s"
  "procs_freed (upd_proc p f s) = procs_freed s"
  by (simp_all add: upd_proc_def)

lemma system_more:
  fixes s s' :: "'a system_scheme"
  assumes "sched.more s' = sched.more s"
  shows "proc_links s' = proc_links s" "hash_links s' = hash_links s" "last_pid s' = last_pid s" "next_safe s' = next_safe s"
    "nr_process s' = nr_process s" "memory s' = memory s" "fsys s' = fsys s" "procs_freed s' = procs_freed s"
    "current s' = current s" "idleproc s' = idleproc s"
  using assms by (cases s; cases s'; simp)+

text \<open>What preparing the stack and sharing the address space does.\<close>

lemma setup_kstack_none:
  assumes "alloc_pages KSTACKPAGE (mach (memory s)) = Some (None, h)"
  shows "setup_kstack p s = Some (- E_NO_MEM, s\<lparr>memory := upd_mach h (memory s)\<rparr>)"
  using assms by (simp add: setup_kstack_def)

lemma setup_kstack_some:
  assumes "alloc_pages KSTACKPAGE (mach (memory s)) = Some (Some page, h)" "page + nbase < npage h" "npage h < 2 ^ 32"
  shows "setup_kstack p s =
    Some (0, upd_proc p (\<lambda>d. d\<lparr>kstack := Some (page + nbase)\<rparr>) (s\<lparr>memory := upd_mach h (memory s)\<rparr>))"
proof -
  have "page2kva h page = Some (page + nbase)" using assms(2,3) by (simp add: page2kva_def KADDR_def)
  then show ?thesis using assms(1) by (simp add: setup_kstack_def)
qed

lemma copy_mm_shares:
  assumes "current s = Some c" "mm (procs s c) = None \<or> and fl CLONE_VM \<noteq> 0"
  obtains s' where "copy_mm fl p km kv s = Some (0, s')" "quiet p s s'" "mach (memory s') = mach (memory s)" "fsys s' = fsys s"
    "kstack (procs s' p) = kstack (procs s p)"
proof (cases "mm (procs s c)")
  case None
  then show thesis using that [of s] assms by (simp add: copy_mm_def)
next
  case (Some m)
  then have "copy_mm fl p km kv s = Some (0, use_mm m p s)" using assms by (simp add: copy_mm_def)
  moreover have "quiet p s (use_mm m p s)"
    by (auto simp: use_mm_def Let_def intro!: quiet_trans [OF quiet_parts(1) quiet_upd])
  ultimately show thesis
    by (rule that) (simp_all add: use_mm_def Let_def mm_count_inc_def upd_mm_def)
qed

lemma copy_thread_quiet:
  assumes "kstack (procs s p) = Some k"
  obtains s' where "copy_thread forkret p esp tf0 s = Some s'" "quiet p s s'" "memory s' = memory s" "fsys s' = fsys s"
    "kstack (procs s' p) = Some k" "pid (procs s' p) = pid (procs s p)"
proof -
  let ?a = "push_bit 12 (of_nat k) + PHYSICAL_MEMORY_OFFSET + KSTACKSIZE - 36 * 8"
  let ?s1 = "upd_proc p (\<lambda>d. d\<lparr>tf := Some (unat ?a)\<rparr>) s"
  let ?t = "tf0\<lparr>gpr := (gpr tf0)(R_a0 := 0, R_sp := (if esp = 0 then ?a else esp))\<rparr>"
  let ?s2 = "?s1\<lparr>tframes := (tframes ?s1)(unat ?a := ?t)\<rparr>"
  let ?s3 = "upd_proc p (\<lambda>d. d\<lparr>proc_context := (proc_context d)\<lparr>ctx_ra := forkret, ctx_sp := ?a\<rparr>\<rparr>) ?s2"
  have "copy_thread forkret p esp tf0 s = Some ?s3" using assms by (simp add: copy_thread_def Let_def)
  moreover have "quiet p s ?s3"
    by (rule quiet_trans [OF quiet_upd quiet_trans [OF quiet_parts(2) quiet_upd]]) simp_all
  ultimately show thesis by (rule that) (use assms in simp_all)
qed

lemma same_proc_family:
  assumes "same_proc d e"
  shows "cptr e = cptr d" "yptr e = yptr d" "optr e = optr d" "parent e = parent d" "pid e = pid d" "filesp e = filesp d"
    "kstack e = kstack d" "exit_code e = exit_code d"
proof -
  note e = assms [unfolded same_proc_def]
  show "cptr e = cptr d" using arg_cong [OF e, of cptr] by simp
  show "yptr e = yptr d" using arg_cong [OF e, of yptr] by simp
  show "optr e = optr d" using arg_cong [OF e, of optr] by simp
  show "parent e = parent d" using arg_cong [OF e, of parent] by simp
  show "pid e = pid d" using arg_cong [OF e, of pid] by simp
  show "filesp e = filesp d" using arg_cong [OF e, of filesp] by simp
  show "kstack e = kstack d" using arg_cong [OF e, of kstack] by simp
  show "exit_code e = exit_code d" using arg_cong [OF e, of exit_code] by simp
qed

locale fork_core = sched_newcomer C rq_ok queue ready
  for C :: "'a system_scheme sched_class"
    and rq_ok :: "'a system_scheme \<Rightarrow> bool"
    and queue :: "'a system_scheme \<Rightarrow> proc_ptr set"
    and ready :: "proc_ptr \<Rightarrow> 'a system_scheme \<Rightarrow> bool"
begin

abbreviation fresh where "fresh \<equiv> newborn rq_ok queue ready"

lemma newborn_quiet:
  assumes n: "fresh p c i ps kids s" and q: "quiet p s s'"
  shows "fresh p c i ps kids s'"
proof -
  note n = n [unfolded newborn_def] and q = q [unfolded quiet_def]
  have o: "procs s' r = procs s r" if "r \<in> insert i (set ps)" for r using n q that by metis
  have "proctab_rep s' i ps kids = proctab_rep s i ps kids" by (rule proctab_rep_cong) (use n q o in simp_all)
  moreover have "state (procs s' r) = state (procs s r)" for r using q by (cases "r = p") simp_all
  then have "sched_ok rq_ok queue ready (insert p (set ps)) c i s'"
    by (rule sched_ok_frame [OF conjunct1 [OF conjunct2 [OF n]] conjunct1 [OF q]]) (use q in simp_all)
  ultimately show ?thesis using n q by (simp add: newborn_def)
qed

text \<open>\<open>alloc_proc\<close> and the parent link.\<close>

lemma alloc_proc_newborn:
  assumes rep: "proctab_rep s i ps kids" and ok: "sched_ok rq_ok queue ready (set ps) c i s"
    and p: "p \<notin> insert i (set ps)"
  obtains s' where "alloc_proc (Some p) s = (Some p, s')" "fresh p c i ps kids (upd_proc p (\<lambda>d. d\<lparr>parent := Some c\<rparr>) s')"
    "current s' = Some c" "\<And>q. q \<noteq> p \<Longrightarrow> procs s' q = procs s q" "memory s' = memory s" "fsys s' = fsys s"
    "procs_freed s' = procs_freed s" "nr_process s' = nr_process s"
proof -
  define s' where "s' = snd (alloc_proc (Some p) s)"
  let ?s = "upd_proc p (\<lambda>d. d\<lparr>parent := Some c\<rparr>) s'"
  have a: "alloc_proc (Some p) s = (Some p, s')" by (simp add: s'_def alloc_proc_def Let_def)
  have e: "run_links s' = list_init (RunLink p) (run_links s)" "pool s' = skew_heap_init p (pool s)"
    "proc_num s' = proc_num s" "max_time_slice s' = max_time_slice s" "lab6_run_pool s' = lab6_run_pool s"
    "\<And>q. q \<noteq> p \<Longrightarrow> procs s' q = procs s q" "sched.more s' = sched.more s"
    "state (procs s' p) = PROC_UNINIT" "cptr (procs s' p) = None" "filesp (procs s' p) = None"
    by (simp_all add: s'_def alloc_proc_def Let_def)
  note m = system_more [OF e(7)]
  have cur: "current s = Some c" "c \<in> insert i (set ps)" using ok by (simp_all add: sched_ok_def)
  have "proctab_rep ?s i ps kids = proctab_rep s i ps kids"
    by (rule proctab_rep_cong) (use p m e(6) in \<open>auto simp: upd_proc_def\<close>)
  moreover have "sched_ok rq_ok queue ready (insert p (set ps)) c i ?s"
    by (rule sched_ok_newcomer [OF ok p]) (use m e in simp_all)
  ultimately have "fresh p c i ps kids ?s" using p cur(2) rep e by (simp add: newborn_def)
  then show thesis using that a m cur(1) e(6) by simp
qed

text \<open>The number, the links and the wakeup of a prepared process.\<close>

lemma newborn_pid:
  assumes n: "fresh p c i ps kids s" and room: "nr_process s < MAX_PROCESS"
  obtains n t where "get_pid s = Some (n, t)" "fresh p c i ps kids (upd_proc p (\<lambda>d. d\<lparr>pid := n\<rparr>) t)"
    "1 \<le> n" "n < MAX_PID" "n \<notin> pids s ps" "last_pid t = n" "procs t = procs s" "memory t = memory s" "fsys t = fsys s"
    "procs_freed t = procs_freed s" "current t = current s"
proof -
  note N = n [unfolded newborn_def]
  note R = proctab_repD [OF conjunct1 [OF N]]
  have "length ps < nat MAX_PID - 1" using room R(7) by (simp add: MAX_PID_def MAX_PROCESS_def)
  then obtain n m where g: "get_pid s = Some (n, s\<lparr>last_pid := n, next_safe := m\<rparr>)" "1 \<le> n" "n < m" "m \<le> MAX_PID"
    "\<forall>q\<in>set ps. pid (procs s q) < n \<or> m \<le> pid (procs s q)" by (rule get_pid_spec [OF R(1,6)])
  let ?t = "s\<lparr>last_pid := n, next_safe := m\<rparr>"
  let ?u = "upd_proc p (\<lambda>d. d\<lparr>pid := n\<rparr>) ?t"
  have notin: "n \<notin> pids s ps" using g(3,5) by (force simp: pids_def)
  have pw: "pid_window ?t ps" using g(2-5) by (auto simp: pid_window_def)
  have "hash_rep ?t ps = hash_rep s ps" by (rule hash_rep_cong) simp_all
  then have "proctab_rep ?t i ps kids" using N pw by (simp add: proctab_rep_def)
  moreover have "proctab_rep ?u i ps kids = proctab_rep ?t i ps kids"
    by (rule proctab_rep_cong) (use N in \<open>auto simp: upd_proc_def\<close>)
  moreover have "same_queue s ?u" by (simp add: same_queue_def)
  then have "sched_ok rq_ok queue ready (insert p (set ps)) c i ?u"
    by (rule sched_ok_frame [OF conjunct1 [OF conjunct2 [OF N]]]) simp_all
  ultimately have "fresh p c i ps kids ?u" using N by (simp add: newborn_def)
  then show thesis using g notin by (intro that [OF g(1)]) simp_all
qed

lemma newborn_joins:
  assumes n: "fresh p c i ps kids s" and k: "pid (procs s p) = last_pid s" "0 < last_pid s" "last_pid s < MAX_PID"
    "last_pid s \<notin> pids s ps"
  obtains s' t where "set_links p (hash_proc p s) = Some t" "wakeup_proc C p t = Some s'"
    "proctab_rep s' i (p # ps) (kids(c := p # kids c, p := []))" "sched_ok rq_ok queue ready (set (p # ps)) c i s'"
    "pid (procs s' p) = last_pid s" "state (procs s' p) = PROC_RUNNABLE" "p \<in> queue s'"
    "parent (procs s' p) = Some c" "\<And>q. filesp (procs s' q) = filesp (procs s q)" "\<And>q. kstack (procs s' q) = kstack (procs s q)"
    "memory s' = memory s" "fsys s' = fsys s" "procs_freed s' = procs_freed s" "current s' = Some c"
proof -
  note N = n [unfolded newborn_def]
  have rep: "proctab_rep s i ps kids" and ok: "sched_ok rq_ok queue ready (insert p (set ps)) c i s"
    and p: "p \<notin> insert i (set ps)" and c: "c \<in> insert i (set ps)" "parent (procs s p) = Some c" "cptr (procs s p) = None"
    using N by simp_all
  obtain t where t: "set_links p (hash_proc p s) = Some t"
    "proctab_rep t i (p # ps) (kids(c := p # kids c, p := []))"
    "\<And>q. no_family (procs t q) = no_family (procs s q)"
    "t = (upd_proc_links (list_add ProcList (ProcLink p)) (hash_proc p s))
       \<lparr>procs := procs t, nr_process := nr_process s + 1\<rparr>"
    by (rule join_table [OF rep p c(2,1,3) k]) (rule that)
  note F = no_family_fields [OF t(3)]
  have e: "run_links t = run_links s" "pool t = pool s" "proc_num t = proc_num s" "max_time_slice t = max_time_slice s"
    "lab6_run_pool t = lab6_run_pool s" "current t = current s" "idleproc t = idleproc s" "memory t = memory s"
    "fsys t = fsys s" "procs_freed t = procs_freed s"
    by (subst t(4); simp add: hash_proc_def upd_hash_links_def upd_proc_links_def)+
  have "same_queue s t" using e F by (simp add: same_queue_def)
  then have ok2: "sched_ok rq_ok queue ready (insert p (set ps)) c i t"
    by (rule sched_ok_frame [OF ok]) (use e F in simp_all)
  have st: "state (procs t p) = PROC_UNINIT" using F(3) N by simp
  obtain s' where w: "wakeup_proc C p t = Some s'" "sched_ok rq_ok queue ready (insert p (set ps)) c i s'"
    "state (procs s' p) = PROC_RUNNABLE" "sched.more s' = sched.more t"
    by (rule wakeup_spec [OF ok2, of p]) (use st in auto)
  have pc: "p \<noteq> c" using p c by auto
  have S: "same_proc (if q = p then (procs t p)\<lparr>state := PROC_RUNNABLE, wait_state := 0\<rparr> else procs t q) (procs s' q)"
    for q using wakeup_fields(1) [OF ok2 _ pc _ _ w(1), of q] st by simp
  have pq: "p \<in> queue s'" using wakeup_fields(2) [OF ok2 _ pc _ _ w(1)] st by simp
  have G: "cptr (procs s' q) = cptr (procs t q)" "yptr (procs s' q) = yptr (procs t q)" "optr (procs s' q) = optr (procs t q)"
    "parent (procs s' q) = parent (procs t q)" "pid (procs s' q) = pid (procs t q)" "filesp (procs s' q) = filesp (procs t q)"
    "kstack (procs s' q) = kstack (procs t q)" for q
    using same_proc_family [OF S [of q]] by (simp_all split: if_splits)
  note m = system_more [OF w(4)]
  have rep': "proctab_rep s' i (p # ps) (kids(c := p # kids c, p := []))"
    using t(2) by (rule iffD2 [OF proctab_rep_cong, rotated -1]) (use m G in simp_all)
  have ok': "sched_ok rq_ok queue ready (set (p # ps)) c i s'" using w(2) by simp
  have cur: "current s' = Some c" using w(2) by (simp add: sched_ok_def)
  show thesis
    by (rule that [OF t(1) w(1) rep' ok' _ w(3) pq _ _ _ _ _ _ cur]) (use G F m e c(2) k(1) in simp_all)
qed

end

lemma pids_other:
  assumes "\<And>q. q \<noteq> p \<Longrightarrow> procs s' q = procs s q" "p \<notin> set ps"
  shows "pids s' ps = pids s ps"
proof -
  have "pid (procs s' q) = pid (procs s q)" if "q \<in> set ps" for q
    using assms that by (cases "q = p") simp_all
  then show ?thesis by (simp add: pids_def cong: image_cong)
qed

context fork_core
begin

text \<open>
  \<open>do_fork\<close> of a process without an address space, or with a shared one, up to \<open>copy_files\<close>: the child
  is in the table, woken up and queued.
\<close>

lemma do_fork_until_files:
  assumes rep: "proctab_rep s i ps kids" and ok: "sched_ok rq_ok queue ready (set ps) c i s"
    and room: "nr_process s < MAX_PROCESS" and fm: "fm_proc fm = Some p" "p \<notin> insert i (set ps)"
    and ws: "wait_state (procs s c) = 0" and share: "mm (procs s c) = None \<or> and fl CLONE_VM \<noteq> 0"
    and mem: "alloc_pages KSTACKPAGE (mach (memory s)) = Some (Some page, h)" "page + nbase < npage h" "npage h < 2 ^ 32"
  obtains n s' where
    "do_fork C ops forkret fm fl stack tf0 s =
       Option.bind (copy_files ops fl p (fm_files fm) s')
         (\<lambda>(r, t). if r \<noteq> 0 then fork_cleanup_kstack p n t else Some (n, t))"
    "1 \<le> n" "n < MAX_PID" "n \<notin> pids s ps" "pid (procs s' p) = n"
    "proctab_rep s' i (p # ps) (kids(c := p # kids c, p := []))" "sched_ok rq_ok queue ready (set (p # ps)) c i s'"
    "state (procs s' p) = PROC_RUNNABLE" "p \<in> queue s'" "parent (procs s' p) = Some c" "filesp (procs s' p) = None"
    "filesp (procs s' c) = filesp (procs s c)" "kstack (procs s' p) = Some (page + nbase)" "mach (memory s') = h"
    "fsys s' = fsys s" "procs_freed s' = procs_freed s" "current s' = Some c"
proof -
  obtain a where a: "alloc_proc (Some p) s = (Some p, a)" "fresh p c i ps kids (upd_proc p (\<lambda>d. d\<lparr>parent := Some c\<rparr>) a)"
    "current a = Some c" "\<And>q. q \<noteq> p \<Longrightarrow> procs a q = procs s q" "memory a = memory s" "fsys a = fsys s"
    "procs_freed a = procs_freed s" "nr_process a = nr_process s"
    by (rule alloc_proc_newborn [OF rep ok fm(2)]) (rule that)
  define s1 where "s1 = upd_proc p (\<lambda>d. d\<lparr>parent := Some c\<rparr>) a"
  define s2 where "s2 = upd_proc p (\<lambda>d. d\<lparr>kstack := Some (page + nbase)\<rparr>) (s1\<lparr>memory := upd_mach h (memory s1)\<rparr>)"
  have c: "c \<noteq> p" using ok fm(2) by (auto simp: sched_ok_def)
  have k: "setup_kstack p s1 = Some (0, s2)"
    unfolding s2_def by (rule setup_kstack_some [OF _ mem(2,3)]) (use mem(1) a(5) in \<open>simp add: s1_def\<close>)
  have q2: "quiet p s1 s2" unfolding s2_def by (rule quiet_trans [OF quiet_parts(1) quiet_upd]) simp
  have c2: "current s2 = Some c" "procs s2 c = procs s c" using a(3,4) c by (simp_all add: s2_def s1_def)
  obtain s3 where s3: "copy_mm fl p (fm_mm fm) (fm_vmas fm) s2 = Some (0, s3)" "quiet p s2 s3"
    "mach (memory s3) = mach (memory s2)" "fsys s3 = fsys s2" "kstack (procs s3 p) = kstack (procs s2 p)"
    by (rule copy_mm_shares [OF c2(1)]) (use share c2 in simp_all)
  have q3: "quiet p s1 s3" by (rule quiet_trans [OF q2 s3(2)])
  note Q3 = q3 [unfolded quiet_def]
  have n3: "fresh p c i ps kids s3" by (rule newborn_quiet [OF _ q3]) (use a(2) in \<open>simp add: s1_def\<close>)
  have nr: "nr_process s3 < MAX_PROCESS" using Q3 room a(8) by (simp add: s1_def upd_proc_def)
  obtain n t where t: "get_pid s3 = Some (n, t)" "fresh p c i ps kids (upd_proc p (\<lambda>d. d\<lparr>pid := n\<rparr>) t)"
    "1 \<le> n" "n < MAX_PID" "n \<notin> pids s3 ps" "last_pid t = n" "procs t = procs s3" "memory t = memory s3"
    "fsys t = fsys s3" "procs_freed t = procs_freed s3" "current t = current s3"
    by (rule newborn_pid [OF n3 nr]) (rule that)
  define u where "u = upd_proc p (\<lambda>d. d\<lparr>pid := n\<rparr>) t"
  have ku: "kstack (procs u p) = Some (page + nbase)" using s3(5) t(7) by (simp add: u_def s2_def)
  obtain v where v: "copy_thread forkret p stack tf0 u = Some v" "quiet p u v" "memory v = memory u" "fsys v = fsys u"
    "kstack (procs v p) = Some (page + nbase)" "pid (procs v p) = pid (procs u p)"
    by (rule copy_thread_quiet [OF ku]) (rule that)
  note V = v(2) [unfolded quiet_def]
  have nv: "fresh p c i ps kids v" by (rule newborn_quiet [OF _ v(2)]) (use t(2) in \<open>simp add: u_def\<close>)
  have other: "procs v q = procs s q" if "q \<noteq> p" for q
    using V Q3 t(7) a(4) that by (simp add: u_def s1_def)
  have lp: "last_pid v = n" using V t(6) by (simp add: u_def upd_proc_def)
  have three: "procs s3 q = procs s q" if "q \<noteq> p" for q using Q3 a(4) that by (simp add: s1_def)
  have pids: "pids v ps = pids s ps" "pids s3 ps = pids s ps"
    using fm(2) by (intro pids_other [of p]; simp add: other three)+
  obtain s' w where w: "set_links p (hash_proc p v) = Some w" "wakeup_proc C p w = Some s'"
    "proctab_rep s' i (p # ps) (kids(c := p # kids c, p := []))" "sched_ok rq_ok queue ready (set (p # ps)) c i s'"
    "pid (procs s' p) = last_pid v" "state (procs s' p) = PROC_RUNNABLE" "p \<in> queue s'"
    "parent (procs s' p) = Some c" "\<And>q. filesp (procs s' q) = filesp (procs v q)"
    "\<And>q. kstack (procs s' q) = kstack (procs v q)"
    "memory s' = memory v" "fsys s' = fsys v" "procs_freed s' = procs_freed v" "current s' = Some c"
    by (rule newborn_joins [OF nv]) (use v(6) lp t pids in \<open>simp_all add: u_def\<close>)
  have "do_fork C ops forkret fm fl stack tf0 s =
       Option.bind (copy_files ops fl p (fm_files fm) s')
         (\<lambda>(r, t). if r \<noteq> 0 then fork_cleanup_kstack p n t else Some (n, t))"
    using room fm(1) a(1,3) a(4) [OF c] ws k [unfolded s1_def] s3(1) t(1) v(1) [unfolded u_def] w(1,2,5) lp
    by (simp add: do_fork_def bind_kassert c)
  moreover have "mach (memory s') = h" "fsys s' = fsys s" "procs_freed s' = procs_freed s"
    using w v(3,4) t s3 V Q3 a by (simp_all add: u_def s2_def s1_def upd_mach_def)
  moreover have "filesp (procs s' c) = filesp (procs s c)" using w(9) other [OF c] by simp
  moreover have "filesp (procs s' p) = None" using w(9) nv by (simp add: newborn_def)
  ultimately show thesis
    using that [of s' n] t(3-5) pids w lp v(5) by simp
qed

end

context fork_core
begin

text \<open>Setting \<open>filesp\<close> and changing the files leaves the process table and the run queue alone.\<close>

lemma with_files:
  assumes rep: "proctab_rep s i ps kids" and ok: "sched_ok rq_ok queue ready P c i s"
  shows "proctab_rep (upd_proc p (\<lambda>d. d\<lparr>filesp := r\<rparr>) (s\<lparr>fsys := v\<rparr>)) i ps kids"
    and "sched_ok rq_ok queue ready P c i (upd_proc p (\<lambda>d. d\<lparr>filesp := r\<rparr>) (s\<lparr>fsys := v\<rparr>))"
proof -
  let ?s = "upd_proc p (\<lambda>d. d\<lparr>filesp := r\<rparr>) (s\<lparr>fsys := v\<rparr>)"
  have "proctab_rep ?s i ps kids = proctab_rep s i ps kids"
    by (rule proctab_rep_cong) (auto simp: upd_proc_def)
  then show "proctab_rep ?s i ps kids" using rep by simp
  have "same_queue s ?s" by (simp add: same_queue_def)
  then show "sched_ok rq_ok queue ready P c i ?s" by (rule sched_ok_frame [OF ok]) simp_all
qed

lemma do_fork_copies_files:
  assumes rep: "proctab_rep s i ps kids" and ok: "sched_ok rq_ok queue ready (set ps) c i s"
    and room: "nr_process s < MAX_PROCESS" and fm: "fm_proc fm = Some p" "p \<notin> insert i (set ps)"
    and ws: "wait_state (procs s c) = 0" and share: "mm (procs s c) = None \<or> and fl CLONE_VM \<noteq> 0"
    and mem: "alloc_pages KSTACKPAGE (mach (memory s)) = Some (Some page, h)" "page + nbase < npage h" "npage h < 2 ^ 32"
    and files: "filesp (procs s c) = Some fp" "files_inv x F (fsys s)" "fp \<in> F" "files_count (filesps (fsys s) fp) > 0"
    and copy: "and fl CLONE_FS = 0" "fm_files fm = Some kf" "kf \<notin> F"
  obtains n s' where "do_fork C ops forkret fm fl stack tf0 s = Some (n, s')"
    "1 \<le> n" "n < MAX_PID" "n \<notin> pids s ps" "pid (procs s' p) = n"
    "proctab_rep s' i (p # ps) (kids(c := p # kids c, p := []))" "sched_ok rq_ok queue ready (set (p # ps)) c i s'"
    "p \<in> queue s'" "parent (procs s' p) = Some c" "filesp (procs s' p) = Some kf" "procs_freed s' = procs_freed s"
    "files_inv x (insert kf F) (fsys s')" "pwd (filesps (fsys s') kf) = pwd (filesps (fsys s) fp)"
    "\<forall>i < FILES_STRUCT_NENTRY. copied_file (file_at kf i (fsys s')) (file_at fp i (fsys s))"
proof -
  obtain n s4 where d: "do_fork C ops forkret fm fl stack tf0 s =
       Option.bind (copy_files ops fl p (fm_files fm) s4)
         (\<lambda>(r, t). if r \<noteq> 0 then fork_cleanup_kstack p n t else Some (n, t))"
    "1 \<le> n" "n < MAX_PID" "n \<notin> pids s ps" "pid (procs s4 p) = n"
    "proctab_rep s4 i (p # ps) (kids(c := p # kids c, p := []))" "sched_ok rq_ok queue ready (set (p # ps)) c i s4"
    "state (procs s4 p) = PROC_RUNNABLE" "p \<in> queue s4" "parent (procs s4 p) = Some c" "filesp (procs s4 p) = None"
    "filesp (procs s4 c) = filesp (procs s c)" "kstack (procs s4 p) = Some (page + nbase)" "mach (memory s4) = h"
    "fsys s4 = fsys s" "procs_freed s4 = procs_freed s" "current s4 = Some c"
    by (rule do_fork_until_files [OF rep ok room fm ws share mem]) (rule that)
  obtain w t where w: "files_create (Some kf) (fsys s) = (Some kf, w)" "dup_files kf fp w = Some (0, t)"
    "files_inv x (insert kf F) (files_count_inc kf t)"
    "pwd (filesps (files_count_inc kf t) kf) = pwd (filesps (fsys s) fp)"
    "\<forall>i < FILES_STRUCT_NENTRY. copied_file (file_at kf i (files_count_inc kf t)) (file_at fp i (fsys s))"
    by (rule fork_table [OF files(2,3) copy(3) files(4)]) (rule that)
  let ?s = "upd_proc p (\<lambda>d. d\<lparr>filesp := Some kf\<rparr>) (s4\<lparr>fsys := files_count_inc kf t\<rparr>)"
  have "copy_files ops fl p (fm_files fm) s4 = Some (0, ?s)"
    using d(12,15,17) files(1) copy(1,2) w(1,2) by (simp add: copy_files_def)
  then have run: "do_fork C ops forkret fm fl stack tf0 s = Some (n, ?s)" using d(1) by simp
  have ok4: "sched_ok rq_ok queue ready (set (p # ps)) c i ?s" by (rule with_files(2) [OF d(6,7)])
  have "p \<noteq> c" using ok fm(2) by (auto simp: sched_ok_def)
  then have "p \<in> queue ?s" using ok4 d(8) by (auto simp: sched_ok_def)
  then show thesis
    by (intro that [OF run d(2-4) _ with_files(1) [OF d(6,7)] ok4]) (use d w in simp_all)
qed

text \<open>When \<open>copy_files\<close> fails for want of memory, the child has already joined the table.\<close>

lemma do_fork_fails_late:
  assumes rep: "proctab_rep s i ps kids" and ok: "sched_ok rq_ok queue ready (set ps) c i s"
    and room: "nr_process s < MAX_PROCESS" and fm: "fm_proc fm = Some p" "p \<notin> insert i (set ps)"
    and ws: "wait_state (procs s c) = 0" and share: "mm (procs s c) = None \<or> and fl CLONE_VM \<noteq> 0"
    and mem: "alloc_pages KSTACKPAGE (mach (memory s)) = Some (Some page, h)" "page + nbase < npage h" "npage h < 2 ^ 32"
      "free_pages page KSTACKPAGE h = Some h'"
    and files: "filesp (procs s c) = Some fp" "and fl CLONE_FS = 0" "fm_files fm = None"
  obtains n s' where "do_fork C ops forkret fm fl stack tf0 s = Some (n, s')"
    "1 \<le> n" "pid (procs s' p) = n" "proctab_rep s' i (p # ps) (kids(c := p # kids c, p := []))"
    "state (procs s' p) = PROC_RUNNABLE" "p \<in> queue s'" "procs_freed s' = p # procs_freed s" "mach (memory s') = h'"
    "filesp (procs s' p) = None"
proof -
  obtain n s4 where d: "do_fork C ops forkret fm fl stack tf0 s =
       Option.bind (copy_files ops fl p (fm_files fm) s4)
         (\<lambda>(r, t). if r \<noteq> 0 then fork_cleanup_kstack p n t else Some (n, t))"
    "1 \<le> n" "n < MAX_PID" "n \<notin> pids s ps" "pid (procs s4 p) = n"
    "proctab_rep s4 i (p # ps) (kids(c := p # kids c, p := []))" "sched_ok rq_ok queue ready (set (p # ps)) c i s4"
    "state (procs s4 p) = PROC_RUNNABLE" "p \<in> queue s4" "parent (procs s4 p) = Some c" "filesp (procs s4 p) = None"
    "filesp (procs s4 c) = filesp (procs s c)" "kstack (procs s4 p) = Some (page + nbase)" "mach (memory s4) = h"
    "fsys s4 = fsys s" "procs_freed s4 = procs_freed s" "current s4 = Some c"
    by (rule do_fork_until_files [OF rep ok room fm ws share mem(1-3)]) (rule that)
  have "files_create None (fsys s) = (None, fsys s)" by (simp add: files_create_def)
  then have cf: "copy_files ops fl p (fm_files fm) s4 = Some (- E_NO_MEM, s4\<lparr>fsys := fsys s\<rparr>)"
    using d(12,15,17) files by (simp add: copy_files_def)
  let ?s = "kfree_proc p (s4\<lparr>fsys := fsys s, memory := upd_mach h' (memory s4)\<rparr>)"
  have "kva2page h (page + nbase) = Some page" using mem(2) by (simp add: kva2page_def)
  then have "fork_cleanup_kstack p n (s4\<lparr>fsys := fsys s\<rparr>) = Some (n, ?s)"
    using d(13,14) mem(4) by (simp add: fork_cleanup_kstack_def put_kstack_def)
  then have run: "do_fork C ops forkret fm fl stack tf0 s = Some (n, ?s)" using d(1) cf by (simp add: E_NO_MEM_def)
  have P: "procs ?s = procs s4" by (simp add: kfree_proc_def)
  have "proctab_rep ?s i (p # ps) (kids(c := p # kids c, p := [])) = proctab_rep s4 i (p # ps) (kids(c := p # kids c, p := []))"
    by (rule proctab_rep_cong) (simp_all add: kfree_proc_def)
  moreover have "same_queue s4 ?s" by (simp add: same_queue_def kfree_proc_def)
  then have "queue ?s = queue s4" using frame [of s4 ?s] d(7) by (simp add: sched_ok_def)
  ultimately show thesis
    by (intro that [OF run d(2)]) (use d in \<open>simp_all add: P\<close>, simp_all add: kfree_proc_def upd_mach_def d)
qed

end

interpretation rr_fork: fork_core default_sched_class rr_ok rr_queue rr_ready
  by unfold_locales

section \<open>Every outcome of a fork\<close>

context fork_core
begin

lemma sched_ok_forget:
  assumes ok: "sched_ok rq_ok queue ready (insert p P) c i s" and p: "state (procs s p) = PROC_UNINIT" "c \<in> insert i P"
  shows "sched_ok rq_ok queue ready P c i s"
proof -
  have "p \<notin> queue s" using ok p(1) by (auto simp: sched_ok_def)
  then show ?thesis using ok p(2) by (auto simp: sched_ok_def)
qed

lemma do_fork_no_stack:
  assumes rep: "proctab_rep s i ps kids" and ok: "sched_ok rq_ok queue ready (set ps) c i s"
    and room: "nr_process s < MAX_PROCESS" and fm: "fm_proc fm = Some p" "p \<notin> insert i (set ps)"
    and ws: "wait_state (procs s c) = 0" and mem: "alloc_pages KSTACKPAGE (mach (memory s)) = Some (None, h)"
  obtains s' where "do_fork C ops forkret fm fl stack tf0 s = Some (- E_NO_MEM, s')" "proctab_rep s' i ps kids"
    "sched_ok rq_ok queue ready (set ps) c i s'" "procs_freed s' = p # procs_freed s" "fsys s' = fsys s"
proof -
  obtain a where a: "alloc_proc (Some p) s = (Some p, a)" "fresh p c i ps kids (upd_proc p (\<lambda>d. d\<lparr>parent := Some c\<rparr>) a)"
    "current a = Some c" "\<And>q. q \<noteq> p \<Longrightarrow> procs a q = procs s q" "memory a = memory s" "fsys a = fsys s"
    "procs_freed a = procs_freed s" "nr_process a = nr_process s"
    by (rule alloc_proc_newborn [OF rep ok fm(2)]) (rule that)
  let ?s1 = "upd_proc p (\<lambda>d. d\<lparr>parent := Some c\<rparr>) a"
  let ?s2 = "?s1\<lparr>memory := upd_mach h (memory s)\<rparr>"
  have c: "c \<noteq> p" "c \<in> insert i (set ps)" using ok fm(2) by (auto simp: sched_ok_def)
  have k: "setup_kstack p ?s1 = Some (- E_NO_MEM, ?s2)" using setup_kstack_none [of ?s1 h p] mem a(5) by simp
  have run: "do_fork C ops forkret fm fl stack tf0 s = Some (- E_NO_MEM, kfree_proc p ?s2)"
    using room fm(1) a(1,3) a(4) [OF c(1)] ws k by (simp add: do_fork_def bind_kassert c E_NO_MEM_def)
  have n2: "fresh p c i ps kids ?s2" by (rule newborn_quiet [OF a(2) quiet_parts(1)])
  note N = n2 [unfolded newborn_def]
  let ?s3 = "kfree_proc p ?s2"
  have ok2: "sched_ok rq_ok queue ready (set ps) c i ?s2"
    by (rule sched_ok_forget [OF conjunct1 [OF conjunct2 [OF N]] _ c(2)]) (use N in blast)
  have "same_queue ?s2 ?s3" by (simp add: same_queue_def kfree_proc_def)
  then have "sched_ok rq_ok queue ready (set ps) c i ?s3"
    by (rule sched_ok_frame [OF ok2]) (simp_all add: kfree_proc_def)
  moreover have "proctab_rep ?s3 i ps kids = proctab_rep ?s2 i ps kids"
    by (rule proctab_rep_cong) (simp_all add: kfree_proc_def)
  ultimately show thesis using that [OF run] N a by (simp add: kfree_proc_def)
qed

end

text \<open>The pages of the kernel stack.\<close>

lemma stack_pages:
  assumes "list_inv (phys m)" "\<forall>q\<in>list_free_set (phys m). q + nbase < npage m"
  obtains (none) h where "alloc_pages KSTACKPAGE m = Some (None, h)"
  | (some) page h where "alloc_pages KSTACKPAGE m = Some (Some page, h)" "page + nbase < npage h" "npage h = npage m"
proof -
  have k: "0 < KSTACKPAGE" by (simp add: KSTACKPAGE_def)
  obtain r t where r: "default_alloc_pages KSTACKPAGE (phys m) = Some (r, t)" using ff.alloc_total [OF assms(1) k] by blast
  then have a: "alloc_pages KSTACKPAGE m = Some (r, m\<lparr>phys := t\<rparr>)" by (simp add: alloc_pages_def)
  show thesis
  proof (cases r)
    case None
    then show thesis using a none by simp
  next
    case (Some page)
    then have "{page..<page + KSTACKPAGE} \<subseteq> list_free_set (phys m)" using ff.alloc_some [OF assms(1) k, of page t] r by simp
    then have "page \<in> list_free_set (phys m)" using k by auto
    then show thesis using a Some some assms(2) by simp
  qed
qed

section \<open>Properties\<close>

text \<open>
  C2: \<open>do_fork\<close> from a process without an address space, or with \<open>CLONE_VM\<close>, that copies the files
  returns when there is memory for the file table of the child (C10 is the case that there is none). It
  reports a full table, and missing memory for the descriptor or the kernel stack of the child, and then
  leaves the process table and the run queue as they were (giving back the descriptor); otherwise it
  returns the unused number of the child, which is the youngest child of the current process, in the
  process list, the hash table and the run queue, with a copy of every open file and of the working
  directory.
\<close>

theorem do_fork_outcome:
  fixes s :: "'a system_scheme"
  assumes "proctab_rep s i ps kids" and "sched_ok rr_ok rr_queue rr_ready (set ps) c i s"
    and "\<forall>p. fm_proc fm = Some p \<longrightarrow> p \<notin> insert i (set ps)"
    and "wait_state (procs s c) = 0" and "mm (procs s c) = None \<or> and fl CLONE_VM \<noteq> 0"
    and "list_inv (phys (mach (memory s)))" and "\<forall>q\<in>list_free_set (phys (mach (memory s))). q + nbase < npage (mach (memory s))"
    and "npage (mach (memory s)) < 2 ^ 32"
    and "filesp (procs s c) = Some fp" and "files_inv x F (fsys s)" and "fp \<in> F"
    and "files_count (filesps (fsys s) fp) > 0" and "and fl CLONE_FS = 0" and "fm_files fm = Some kf" and "kf \<notin> F"
  shows "\<exists>n s'. do_fork default_sched_class ops forkret fm fl stack tf0 s = Some (n, s') \<and>
    (if nr_process s \<ge> MAX_PROCESS then n = - E_NO_FREE_PROC \<and> s' = s
     else case fm_proc fm of None \<Rightarrow> n = - E_NO_MEM \<and> s' = s
     | Some p \<Rightarrow>
     if fst (the (alloc_pages KSTACKPAGE (mach (memory s)))) = None
     then n = - E_NO_MEM \<and> procs_freed s' = p # procs_freed s \<and> fsys s' = fsys s \<and>
       proctab_rep s' i ps kids \<and> sched_ok rr_ok rr_queue rr_ready (set ps) c i s'
     else 1 \<le> n \<and> n < MAX_PID \<and> n \<notin> pids s ps \<and> pid (procs s' p) = n \<and> parent (procs s' p) = Some c \<and>
       proctab_rep s' i (p # ps) (kids(c := p # kids c, p := [])) \<and>
       sched_ok rr_ok rr_queue rr_ready (set (p # ps)) c i s' \<and> p \<in> rr_queue s' \<and> procs_freed s' = procs_freed s \<and>
       filesp (procs s' p) = Some kf \<and> files_inv x (insert kf F) (fsys s') \<and>
       pwd (filesps (fsys s') kf) = pwd (filesps (fsys s) fp) \<and>
       (\<forall>j < FILES_STRUCT_NENTRY. copied_file (file_at kf j (fsys s')) (file_at fp j (fsys s))))"
proof (cases "nr_process s \<ge> MAX_PROCESS")
  case True
  then show ?thesis by (simp add: do_fork_def)
next
  case False
  then have room: "nr_process s < MAX_PROCESS" by simp
  show ?thesis
  proof (cases "fm_proc fm")
    case None
    then show ?thesis using room by (simp add: do_fork_def alloc_proc_def)
  next
    case (Some p)
    then have fm: "fm_proc fm = Some p" "p \<notin> insert i (set ps)" using assms(3) by auto
    from assms(6,7) show ?thesis
    proof (cases rule: stack_pages)
      case (none h)
      obtain s' where "do_fork default_sched_class ops forkret fm fl stack tf0 s = Some (- E_NO_MEM, s')"
        "proctab_rep s' i ps kids" "sched_ok rr_ok rr_queue rr_ready (set ps) c i s'" "procs_freed s' = p # procs_freed s"
        "fsys s' = fsys s"
        by (rule rr_fork.do_fork_no_stack [OF assms(1,2) room fm assms(4) none]) (rule that)
      then show ?thesis using none room fm(1) by auto
    next
      case (some page h)
      have np: "npage h < 2 ^ 32" using some(3) assms(8) by simp
      obtain n s' where d: "do_fork default_sched_class ops forkret fm fl stack tf0 s = Some (n, s')"
        "1 \<le> n" "n < MAX_PID" "n \<notin> pids s ps" "pid (procs s' p) = n"
        "proctab_rep s' i (p # ps) (kids(c := p # kids c, p := []))" "sched_ok rr_ok rr_queue rr_ready (set (p # ps)) c i s'"
        "p \<in> rr_queue s'" "parent (procs s' p) = Some c" "filesp (procs s' p) = Some kf" "procs_freed s' = procs_freed s"
        "files_inv x (insert kf F) (fsys s')" "pwd (filesps (fsys s') kf) = pwd (filesps (fsys s) fp)"
        "\<forall>j < FILES_STRUCT_NENTRY. copied_file (file_at kf j (fsys s')) (file_at fp j (fsys s))"
        by (rule rr_fork.do_fork_copies_files [OF assms(1,2) room fm assms(4,5) some(1,2) np assms(9-15)]) (rule that)
      have "fst (the (alloc_pages KSTACKPAGE (mach (memory s)))) = Some page" using some(1) by simp
      then show ?thesis using d room fm(1) by (intro exI [of _ n] exI [of _ s']) simp
    qed
  qed
qed

text \<open>
  C10: when the memory for the file table of the child is missing, \<open>do_fork\<close> frees the kernel stack and the
  descriptor of the child but returns its number like a success. The freed process is still in the process
  list, the hash table, the family links and, runnable, in the run queue, and has no file table.
\<close>

theorem do_fork_frees_linked_process:
  fixes s :: "'a system_scheme"
  assumes "proctab_rep s i ps kids" and "sched_ok rr_ok rr_queue rr_ready (set ps) c i s" and "nr_process s < MAX_PROCESS"
    and "fm_proc fm = Some p" and "p \<notin> insert i (set ps)"
    and "wait_state (procs s c) = 0" and "mm (procs s c) = None \<or> and fl CLONE_VM \<noteq> 0"
    and "alloc_pages KSTACKPAGE (mach (memory s)) = Some (Some page, h)" and "page + nbase < npage h" and "npage h < 2 ^ 32"
    and "free_pages page KSTACKPAGE h = Some h'"
    and "filesp (procs s c) = Some fp" and "and fl CLONE_FS = 0" and "fm_files fm = None"
  shows "\<exists>n s'. do_fork default_sched_class ops forkret fm fl stack tf0 s = Some (n, s') \<and> 1 \<le> n \<and>
    p \<in> set (procs_freed s') \<and> mach (memory s') = h' \<and> find_proc n s' = Some (Some p) \<and>
    proctab_rep s' i (p # ps) (kids(c := p # kids c, p := [])) \<and>
    state (procs s' p) = PROC_RUNNABLE \<and> p \<in> rr_queue s' \<and> filesp (procs s' p) = None"
proof -
  obtain n s' where d: "do_fork default_sched_class ops forkret fm fl stack tf0 s = Some (n, s')"
    "1 \<le> n" "pid (procs s' p) = n" "proctab_rep s' i (p # ps) (kids(c := p # kids c, p := []))"
    "state (procs s' p) = PROC_RUNNABLE" "p \<in> rr_queue s'" "procs_freed s' = p # procs_freed s" "mach (memory s') = h'"
    "filesp (procs s' p) = None"
    by (rule rr_fork.do_fork_fails_late [OF assms]) (rule that)
  note R = proctab_repD [OF d(4)]
  obtain r where "find_proc n s' = Some r" "\<And>q. r = Some q \<longleftrightarrow> q \<in> set (p # ps) \<and> pid (procs s' q) = n"
    by (rule find_proc_spec [OF R(2,4,5)]) blast
  then have "find_proc n s' = Some (Some p)" using d(3) by simp
  then show ?thesis using d by (intro exI [of _ n] exI [of _ s']) simp
qed

section \<open>A first fork\<close>

text \<open>The idle process 0 runs alone; memory has the free blocks of \<open>example_pmm\<close>.\<close>

definition example_uvm :: uvm where
  "example_uvm = \<lparr>vmas = vmas example_vm, vma_links = vma_links example_vm, mms = mms example_vm,
     mach = \<lparr>phys = example_pmm, npage = nbase + 16, frames = (\<lambda>_ _. 0)\<rparr>, boot_pgdir = 0, mm_sem = (\<lambda>_. 1),
     vmas_freed = [], mms_freed = []\<rparr>"

definition example_system :: system where
  "example_system =
     \<lparr>procs = (\<lambda>_. example_proc\<lparr>filesp := Some 0\<rparr>),
      run_links = \<lparr>next_of = (\<lambda>n. n), prev_of = (\<lambda>n. n)\<rparr>,
      pool = \<lparr>parent_of = (\<lambda>_. None), left_of = (\<lambda>_. None), right_of = (\<lambda>_. None)\<rparr>,
      proc_num = 0, max_time_slice = 5, lab6_run_pool = None,
      current = Some 0, idleproc = Some 0, initproc = None, satp = 0,
      timers = (\<lambda>_. \<lparr>expires = 0, timer_proc = None\<rparr>), timer_links = \<lparr>next_of = (\<lambda>n. n), prev_of = (\<lambda>n. n)\<rparr>,
      waits = (\<lambda>_. \<lparr>wproc = None, wakeup_flags = 0, wait_queue = None\<rparr>),
      wait_links = \<lparr>next_of = (\<lambda>n. n), prev_of = (\<lambda>n. n)\<rparr>, sem_value = (\<lambda>_. 0),
      proc_links = \<lparr>next_of = (\<lambda>n. n), prev_of = (\<lambda>n. n)\<rparr>,
      hash_links = \<lparr>next_of = (\<lambda>n. n), prev_of = (\<lambda>n. n)\<rparr>,
      nr_process = 1, last_pid = MAX_PID, next_safe = MAX_PID,
      memory = example_uvm, fsys = example_files,
      tframes = (\<lambda>_. \<lparr>gpr = (\<lambda>_. 0), tf_status = 0, tf_epc = 0, tf_tval = 0, tf_cause = 0\<rparr>), procs_freed = []\<rparr>"

definition example_frame :: trapframe where
  "example_frame = \<lparr>gpr = (\<lambda>_. 0), tf_status = 0, tf_epc = 0, tf_tval = 0, tf_cause = 0\<rparr>"

lemma example_system_table: "proctab_rep example_system 0 [] (\<lambda>_. [])"
  by (rule empty_table) (simp_all add: example_system_def example_proc_def MAX_PID_def MAX_PROCESS_def)

lemma example_system_sched: "sched_ok rr_ok rr_queue rr_ready (set []) 0 0 example_system"
proof -
  have r: "rr_rep example_system []" by (simp add: rr_rep_def example_system_def dlist_def)
  then have "rr_queue example_system = {}" using rr_queue_rep [OF r] by simp
  then show ?thesis using r by (auto simp: sched_ok_def rr_ok_def) (simp_all add: example_system_def)
qed

lemma example_system_idle:
  "nr_process example_system < MAX_PROCESS" "wait_state (procs example_system 0) = 0"
  "mm (procs example_system 0) = None \<or> and 0 CLONE_VM \<noteq> 0" "filesp (procs example_system 0) = Some 0"
  by (simp_all add: example_system_def example_proc_def MAX_PROCESS_def)

lemma example_system_files: "files_inv (\<lambda>_. 0) {0} (fsys example_system)"
  "files_count (filesps (fsys example_system) 0) > 0"
proof -
  have start: "files_inv (\<lambda>_. 0) {} example_devices" by (simp add: files_inv_def example_devices_def)
  obtain r u where u: "files_create (Some 0) example_devices = (r, u)" by (cases "files_create (Some 0) example_devices")
  have "files_inv (\<lambda>_. 0) (insert 0 {}) u" by (rule files_inv_create(1) [OF start _ u]) simp
  then have "files_inv (\<lambda>_. 0) {0} (files_count_inc 0 u)" by (intro files_count_inv(1)) simp_all
  then show "files_inv (\<lambda>_. 0) {0} (fsys example_system)" by (simp add: example_system_def example_files_def u)
  show "files_count (filesps (fsys example_system) 0) > 0" by (simp add: example_system_def example_tables)
qed

lemma example_system_pages:
  "list_inv (phys (mach (memory example_system)))"
  "\<forall>q\<in>list_free_set (phys (mach (memory example_system))). q + nbase < npage (mach (memory example_system))"
  "npage (mach (memory example_system)) < 2 ^ 32"
proof -
  have p: "phys (mach (memory example_system)) = example_pmm" "npage (mach (memory example_system)) = nbase + 16"
    by (simp_all add: example_system_def example_uvm_def)
  show "list_inv (phys (mach (memory example_system)))" using example_pmm_rep by (auto simp: p list_inv_def)
  show "\<forall>q\<in>list_free_set (phys (mach (memory example_system))). q + nbase < npage (mach (memory example_system))"
    using free_rep_free_set [OF example_pmm_rep] by (auto simp: p pages_in_def)
  show "npage (mach (memory example_system)) < 2 ^ 32" by (simp add: p nbase_def)
qed

lemma example_system_stack:
  obtains h h' where "alloc_pages KSTACKPAGE (mach (memory example_system)) = Some (Some 2, h)" "2 + nbase < npage h"
    "npage h < 2 ^ 32" "free_pages 2 KSTACKPAGE h = Some h'"
proof -
  have p: "phys (mach (memory example_system)) = example_pmm" "npage (mach (memory example_system)) = nbase + 16"
    by (simp_all add: example_system_def example_uvm_def)
  obtain t where t: "default_alloc_pages 2 example_pmm = Some (Some 2, t)"
    using default_alloc_spec [OF example_pmm_rep, of 2] by auto
  have inv: "list_inv example_pmm" using example_pmm_rep by (auto simp: list_inv_def)
  have s: "list_inv t" "list_free_set t = list_free_set example_pmm - {2..<2 + 2}"
    using ff.alloc_some [OF inv _ t] by simp_all
  have "list_free_set example_pmm = {2..<5} \<union> {10..<15}"
    using free_rep_free_set [OF example_pmm_rep] by (simp add: pages_in_def)
  then have f: "list_free_set t = {4} \<union> {10..<15}" using s(2) by auto
  have "default_nr_free_pages t = card (list_free_set t)" using ff.count_free [OF s(1)] .
  also have "\<dots> = 6" unfolding f by (subst card_Un_disjoint) auto
  finally have n: "unat (nr_free t) = 6" by (simp add: default_nr_free_pages_def)
  have "list_freeable t 2 2"
    using f n alloc_attr(2) [OF t] example_pmm_unreserved by (auto simp: list_freeable_def)
  then obtain t' where t': "default_free_pages 2 2 t = Some t'" using ff.release_ok [OF s(1)] by blast
  let ?h = "(mach (memory example_system))\<lparr>phys := t\<rparr>"
  show thesis
    by (rule that [of ?h "?h\<lparr>phys := t'\<rparr>"])
      (use t t' p in \<open>simp_all add: alloc_pages_def free_pages_def KSTACKPAGE_def nbase_def\<close>)
qed

definition fork_memory :: "nat option \<Rightarrow> fork_mem" where
  "fork_memory kf = \<lparr>fm_proc = Some 1, fm_mm = None, fm_vmas = [], fm_files = kf\<rparr>"

theorem do_fork_outcome_witness:
  "\<exists>n s'. do_fork default_sched_class (\<lambda>_. dev_node_ops) 0 (fork_memory (Some 9)) 0 0 example_frame example_system = Some (n, s') \<and>
     1 \<le> n \<and> pid (procs s' 1) = n \<and> parent (procs s' 1) = Some 0 \<and> 1 \<in> rr_queue s' \<and> filesp (procs s' 1) = Some 9"
proof -
  let ?fm = "fork_memory (Some 9)"
  obtain h h' where h: "alloc_pages KSTACKPAGE (mach (memory example_system)) = Some (Some 2, h)" by (rule example_system_stack)
  have fm: "fm_proc ?fm = Some 1" "fm_files ?fm = Some 9" "\<forall>p. fm_proc ?fm = Some p \<longrightarrow> p \<notin> insert 0 (set ([] :: nat list))" "(0 :: nat) \<in> {0}"
    "(9 :: nat) \<notin> {0}" "and 0 CLONE_FS = 0" by (simp_all add: fork_memory_def)
  note out = do_fork_outcome [OF example_system_table example_system_sched fm(3) example_system_idle(2,3)
      example_system_pages example_system_idle(4) example_system_files(1) fm(4) example_system_files(2) fm(6,2,5),
      of "\<lambda>_. dev_node_ops" 0 0 example_frame]
  then show ?thesis using h example_system_idle(1) fm(1) by auto
qed

theorem do_fork_frees_linked_process_witness:
  "\<exists>n s'. do_fork default_sched_class (\<lambda>_. dev_node_ops) 0 (fork_memory None) 0 0 example_frame example_system = Some (n, s') \<and>
     1 \<le> n \<and> 1 \<in> set (procs_freed s') \<and> find_proc n s' = Some (Some 1) \<and> 1 \<in> rr_queue s'"
proof -
  obtain h h' where h: "alloc_pages KSTACKPAGE (mach (memory example_system)) = Some (Some 2, h)" "2 + nbase < npage h"
    "npage h < 2 ^ 32" "free_pages 2 KSTACKPAGE h = Some h'" by (rule example_system_stack)
  have fm: "fm_proc (fork_memory None) = Some 1" "fm_files (fork_memory None) = None"
    "1 \<notin> insert 0 (set ([] :: nat list))" "and 0 CLONE_FS = 0" by (simp_all add: fork_memory_def)
  show ?thesis
    using do_fork_frees_linked_process [OF example_system_table example_system_sched example_system_idle(1) fm(1,3)
        example_system_idle(2,3) h example_system_idle(4) fm(4,2), of "\<lambda>_. dev_node_ops" 0 0 example_frame] by blast
qed

end
