(* ===== verification/Wait.thy ===== *)
theory Wait
imports Fork
begin

text \<open>
  What \<open>do_wait\<close> guarantees: it finds the zombie children of the current process through the hash table or
  the sibling links, takes one of them out of the table, or sleeps, or reports that there is no child.
\<close>

section \<open>The search\<close>

definition is_zombie :: "'a system_scheme \<Rightarrow> proc_ptr \<Rightarrow> bool" where
  "is_zombie s p \<longleftrightarrow> state (procs s p) = PROC_ZOMBIE"

text \<open>The children a call of \<open>do_wait\<close> is interested in.\<close>

definition awaited :: "int \<Rightarrow> proc_ptr list \<Rightarrow> 'a system_scheme \<Rightarrow> proc_ptr list" where
  "awaited n cs s = (if n = 0 then cs else filter (\<lambda>p. pid (procs s p) = n) cs)"

lemma child_loop_spec:
  assumes "sibs (procs s) y r cs y' None"
  shows "child_loop r b s = Some (b \<or> cs \<noteq> [], List.find (is_zombie s) cs)"
  using assms
proof (induction cs arbitrary: y r b)
  case Nil
  then show ?case by (simp add: child_loop.simps)
next
  case (Cons p cs)
  then have r: "r = Some p" "sibs (procs s) (Some p) (optr (procs s p)) cs y' None" by simp_all
  show ?case by (subst child_loop.simps) (use r Cons.IH [OF r(2), of True] in \<open>simp add: is_zombie_def [symmetric]\<close>)
qed

lemma one_with_pid:
  assumes "inj_on (\<lambda>p. pid (procs s p)) A" "p \<in> set cs" "set cs \<subseteq> A" "distinct cs" "pid (procs s p) = n"
  shows "filter (\<lambda>q. pid (procs s q) = n) cs = [p]"
proof -
  obtain as bs where cs: "cs = as @ p # bs" using assms(2) split_list by metis
  have "pid (procs s q) \<noteq> n" if "q \<in> set as \<union> set bs" for q
    using that assms cs by (auto dest!: inj_onD [of _ A p q])
  then show ?thesis using cs assms(5) by (simp add: filter_empty_conv)
qed

lemma wait_search_spec:
  assumes rep: "proctab_rep s i ps kids" and c: "c \<in> insert i (set ps)"
  shows "wait_search n c s = Some (awaited n (kids c) s \<noteq> [], List.find (is_zombie s) (awaited n (kids c) s))"
proof -
  note R = proctab_repD [OF rep]
  note F = family_kids [OF R(3)]
  have kids: "distinct (kids c)" "set (kids c) \<subseteq> set ps"
    "\<And>p. p \<in> set (kids c) \<longleftrightarrow> p \<in> set ps \<and> parent (procs s p) = Some c"
    using R(3) c by (auto simp: family_rep_def children_def)
  show ?thesis
  proof (cases "n = 0")
    case True
    obtain y where "sibs (procs s) None (cptr (procs s c)) (kids c) y None"
      using R(3) c by (auto simp: family_rep_def children_def)
    from child_loop_spec [OF this] show ?thesis using True by (simp add: wait_search_def awaited_def)
  next
    case False
    obtain r where r: "find_proc n s = Some r" "\<And>p. r = Some p \<longleftrightarrow> p \<in> set ps \<and> pid (procs s p) = n"
      by (rule find_proc_spec [OF R(2,4,5)]) blast
    show ?thesis
    proof (cases "\<exists>p\<in>set (kids c). pid (procs s p) = n")
      case True
      then obtain p where p: "p \<in> set (kids c)" "pid (procs s p) = n" by blast
      then have "filter (\<lambda>q. pid (procs s q) = n) (kids c) = [p]"
        using one_with_pid [OF R(4) p(1) kids(2,1) p(2)] by simp
      moreover have "r = Some p" using r(2) p kids(3) by blast
      moreover have "parent (procs s p) = Some c" using kids(3) p by blast
      ultimately show ?thesis using r(1) False by (simp add: wait_search_def awaited_def is_zombie_def)
    next
      case no: False
      then have "filter (\<lambda>q. pid (procs s q) = n) (kids c) = []" by (simp add: filter_empty_conv)
      moreover have "parent (procs s p) \<noteq> Some c" if "r = Some p" for p using r(2) that kids(3) no by blast
      ultimately show ?thesis using r(1) False by (cases r) (simp_all add: wait_search_def awaited_def)
    qed
  qed
qed

section \<open>Taking a zombie out of the table\<close>

lemma same_proc_run:
  "same_proc d e \<Longrightarrow> same_proc (d\<lparr>need_resched := x, runs := y\<rparr>) (e\<lparr>need_resched := x, runs := y\<rparr>)"
  by (cases d; cases e; simp add: same_proc_def)

text \<open>What the code needs of a zombie it takes out: no children, and a kernel stack that can be freed.\<close>

definition reapable :: "(proc_ptr \<Rightarrow> proc_ptr list) \<Rightarrow> 'a system_scheme \<Rightarrow> proc_ptr \<Rightarrow> bool" where
  "reapable kids s p \<longleftrightarrow> kids p = [] \<and> Some p \<noteq> initproc s \<and>
     (\<exists>page. kstack (procs s p) = Some (page + nbase) \<and> page + nbase < npage (mach (memory s)) \<and>
       free_pages page KSTACKPAGE (mach (memory s)) \<noteq> None)"

lemma kernel_more_table:
  fixes s s' :: "'a system_scheme"
  assumes "kernel.more s' = kernel.more s"
  shows "proc_links s' = proc_links s" "hash_links s' = hash_links s" "last_pid s' = last_pid s" "next_safe s' = next_safe s"
    "nr_process s' = nr_process s" "memory s' = memory s" "fsys s' = fsys s" "procs_freed s' = procs_freed s"
  using assms by (cases s; cases s'; simp)+

context fork_core
begin

lemma sched_ok_remove:
  assumes ok: "sched_ok rq_ok queue ready P c i s" and p: "p \<noteq> c" "state (procs s p) \<noteq> PROC_RUNNABLE"
  shows "sched_ok rq_ok queue ready (P - {p}) c i s"
proof -
  have "p \<notin> queue s" using ok p(2) by (auto simp: sched_ok_def)
  then show ?thesis using ok p(1) by (auto simp: sched_ok_def)
qed

lemma reap_spec:
  assumes rep: "proctab_rep s i ps kids" and ok: "sched_ok rq_ok queue ready (set ps) c i s"
    and p: "p \<in> set (kids c)" "kids p = []" "state (procs s p) = PROC_ZOMBIE" "p \<noteq> c" "Some p \<noteq> initproc s"
    and k: "kstack (procs s p) = Some (page + nbase)" "page + nbase < npage (mach (memory s))"
    and free: "free_pages page KSTACKPAGE (mach (memory s)) = Some h"
  obtains s' where "reap p s = Some (exit_code (procs s p), s')"
    "proctab_rep s' i (removeAll p ps) (kids(c := removeAll p (kids c)))"
    "sched_ok rq_ok queue ready (set (removeAll p ps)) c i s'"
    "procs_freed s' = p # procs_freed s" "mach (memory s') = h" "fsys s' = fsys s"
proof -
  note R = proctab_repD [OF rep]
  have c: "c \<in> insert i (set ps)" "idleproc s = Some i" using ok by (simp_all add: sched_ok_def)
  have pc: "p \<in> set ps" "parent (procs s p) = Some c" using R(3) c(1) p(1) by (auto simp: family_rep_def)
  have pi: "p \<noteq> i" using R(3) pc(1) by (auto simp: family_rep_def)
  obtain t where t: "remove_links p (unhash_proc p s) = Some t"
    "proctab_rep t i (removeAll p ps) (kids(c := removeAll p (kids c)))"
    "\<And>q. no_family (procs t q) = no_family (procs s q)"
    "t = (upd_proc_links (list_del (ProcLink p)) (unhash_proc p s))\<lparr>procs := procs t, nr_process := nr_process s - 1\<rparr>"
    by (rule leave_table [OF rep pc(1) p(2) pc(2)]) (rule that)
  note G = no_family_fields [OF t(3)]
  have e: "run_links t = run_links s" "pool t = pool s" "proc_num t = proc_num s" "max_time_slice t = max_time_slice s"
    "lab6_run_pool t = lab6_run_pool s" "current t = current s" "idleproc t = idleproc s" "memory t = memory s"
    "fsys t = fsys s" "procs_freed t = procs_freed s"
    by (subst t(4); simp add: unhash_proc_def upd_hash_links_def upd_proc_links_def)+
  let ?s = "kfree_proc p (t\<lparr>memory := upd_mach h (memory t)\<rparr>)"
  have "kva2page (mach (memory s)) (page + nbase) = Some page" using k(2) by (simp add: kva2page_def)
  then have "put_kstack p t = Some (t\<lparr>memory := upd_mach h (memory t)\<rparr>)"
    using k(1) G(7) [of p] free e(8) by (simp add: put_kstack_def)
  then have run: "reap p s = Some (exit_code (procs s p), ?s)"
    using t(1) p(5) pi c(2) by (simp add: reap_def bind_kassert)
  have "proctab_rep ?s i (removeAll p ps) (kids(c := removeAll p (kids c))) =
      proctab_rep t i (removeAll p ps) (kids(c := removeAll p (kids c)))"
    by (rule proctab_rep_cong) (simp_all add: kfree_proc_def)
  then have rep': "proctab_rep ?s i (removeAll p ps) (kids(c := removeAll p (kids c)))" using t(2) by simp
  have sq: "same_queue s ?s" using e G by (simp add: same_queue_def kfree_proc_def)
  have st: "state (procs s p) \<noteq> PROC_RUNNABLE" using p(3) by simp
  have "sched_ok rq_ok queue ready (set ps - {p}) c i ?s"
    by (rule sched_ok_frame [OF sched_ok_remove [OF ok p(4) st] sq]) (simp_all add: kfree_proc_def e G)
  then have ok': "sched_ok rq_ok queue ready (set (removeAll p ps)) c i ?s" by simp
  show thesis by (rule that [OF run rep' ok']) (simp_all add: kfree_proc_def upd_mach_def e)
qed


lemma schedule_fields:
  assumes ok: "sched_ok rq_ok queue ready P c i s" and run: "schedule C s = Some s'"
  shows "same_proc ((procs s q)\<lparr>need_resched := False, runs := 0\<rparr>) ((procs s' q)\<lparr>need_resched := False, runs := 0\<rparr>)"
    and "kernel.more s' = kernel.more s" and "idleproc s' = idleproc s" and "initproc s' = initproc s"
proof -
  let ?s1 = "upd_proc c (\<lambda>d. d\<lparr>need_resched := False\<rparr>) s"
  have ok1: "sched_ok rq_ok queue ready P c i ?s1"
    by (rule sched_ok_frame [OF ok same_queue_upd_proc]) simp_all
  obtain s2 where e: "(if state (procs ?s1 c) = PROC_RUNNABLE then sched_class_enqueue C c ?s1 else Some ?s1) = Some s2"
    "rq_ok s2" "queue s2 = candidates queue c i ?s1" "same_procs ?s1 s2" "\<forall>q \<in> P - candidates queue c i ?s1. ready q s2"
    by (rule enqueue_current [OF ok1])
  obtain nx s3 s4 where d: "sc_pick_next C s2 = Some (nx, s3)"
    "(case nx of None \<Rightarrow> Some s3 | Some n \<Rightarrow> sc_dequeue C n s3) = Some s4" "same_procs s2 s4"
    by (rule pick_and_dequeue [of s2 P]) (use e in simp_all)
  have s14: "same_procs ?s1 s4" by (rule same_procs_trans [OF e(4) d(3)])
  then have m: "sched.more s4 = sched.more s" by (simp add: same_procs_def)
  note K = more_eq_kernel [OF m]
  have cur: "current s = Some c" "idleproc s = Some i" using ok by (simp_all add: sched_ok_def)
  define n where "n = (case nx of None \<Rightarrow> i | Some n \<Rightarrow> n)"
  have n': "(case nx of None \<Rightarrow> idleproc s4 | Some n \<Rightarrow> Some n) = Some n"
    using cur(2) K(2) by (cases nx) (simp_all add: n_def)
  let ?s5 = "upd_proc n (\<lambda>d. d\<lparr>runs := runs d + 1\<rparr>) s4"
  have "schedule C s = Some (if Some n \<noteq> current ?s5 then proc_run n ?s5 else ?s5)"
    using cur(1) e(1) d(1,2) n' by (simp add: schedule_def Let_def)
  then have s': "s' = (if Some n \<noteq> current ?s5 then proc_run n ?s5 else ?s5)" using run by simp
  have P: "procs s' = procs ?s5" "idleproc s' = idleproc s4" "initproc s' = initproc s4" "kernel.more s' = kernel.more s4"
    by (auto simp: s' proc_run_def)
  show "kernel.more s' = kernel.more s" "idleproc s' = idleproc s" "initproc s' = initproc s" using P K by simp_all
  have "same_proc (procs ?s1 q) (procs s4 q)" using s14 by (simp add: same_procs_def)
  then have "same_proc ((procs ?s1 q)\<lparr>need_resched := False, runs := 0\<rparr>) ((procs s4 q)\<lparr>need_resched := False, runs := 0\<rparr>)"
    by (rule same_proc_run)
  then show "same_proc ((procs s q)\<lparr>need_resched := False, runs := 0\<rparr>) ((procs s' q)\<lparr>need_resched := False, runs := 0\<rparr>)"
    unfolding P by (auto split: if_splits)
qed

lemma schedule_table:
  assumes rep: "proctab_rep s i ps kids" and ok: "sched_ok rq_ok queue ready P c i s" and run: "schedule C s = Some s'"
  shows "proctab_rep s' i ps kids"
proof -
  have G: "cptr (procs s' q) = cptr (procs s q)" "yptr (procs s' q) = yptr (procs s q)" "optr (procs s' q) = optr (procs s q)"
    "parent (procs s' q) = parent (procs s q)" "pid (procs s' q) = pid (procs s q)" for q
    using same_proc_family [OF schedule_fields(1) [OF ok run, of q]] by simp_all
  note m = kernel_more_table [OF schedule_fields(2) [OF ok run]]
  have "proctab_rep s' i ps kids = proctab_rep s i ps kids" by (rule proctab_rep_cong) (use m G in simp_all)
  then show ?thesis using rep by simp
qed

section \<open>One pass of the loop\<close>

lemma wait_reaps:
  assumes rep: "proctab_rep s i ps kids" and ok: "sched_ok rq_ok queue ready (set ps) c i s"
    and found: "List.find (is_zombie s) (awaited n (kids c) s) = Some p" and z: "reapable kids s p"
  obtains s' where
    "do_wait_pass C n code_store s =
       Some (Wait_returns 0 (if code_store \<noteq> 0 then Some (exit_code (procs s p)) else None), s')"
    "proctab_rep s' i (removeAll p ps) (kids(c := removeAll p (kids c)))"
    "sched_ok rq_ok queue ready (set (removeAll p ps)) c i s'" "procs_freed s' = p # procs_freed s" "fsys s' = fsys s"
proof -
  note R = proctab_repD [OF rep]
  have c: "current s = Some c" "c \<in> insert i (set ps)" using ok by (simp_all add: sched_ok_def)
  have p: "p \<in> set (kids c)" "state (procs s p) = PROC_ZOMBIE"
    using found by (auto simp: find_Some_iff awaited_def is_zombie_def split: if_splits dest: nth_mem)
  then have "p \<in> set ps" "parent (procs s p) = Some c" using R(3) c(2) by (auto simp: family_rep_def)
  then have "p \<noteq> c" using R(3) by (auto simp: family_rep_def)
  moreover obtain page h where k: "kstack (procs s p) = Some (page + nbase)" "page + nbase < npage (mach (memory s))"
    "free_pages page KSTACKPAGE (mach (memory s)) = Some h" using z by (auto simp: reapable_def)
  ultimately obtain s' where s': "reap p s = Some (exit_code (procs s p), s')"
    "proctab_rep s' i (removeAll p ps) (kids(c := removeAll p (kids c)))"
    "sched_ok rq_ok queue ready (set (removeAll p ps)) c i s'"
    "procs_freed s' = p # procs_freed s" "mach (memory s') = h" "fsys s' = fsys s"
    using reap_spec [OF rep ok p(1) _ p(2) _ _ k] z by (auto simp: reapable_def)
  have "do_wait_pass C n code_store s =
      Some (Wait_returns 0 (if code_store \<noteq> 0 then Some (exit_code (procs s p)) else None), s')"
    using wait_search_spec [OF rep c(2), of n] c(1) found s'(1) by (simp add: do_wait_pass_def)
  then show thesis by (rule that) (use s' in simp_all)
qed

lemma wait_sleeps:
  assumes rep: "proctab_rep s i ps kids" and ok: "sched_ok rq_ok queue ready (set ps) c i s"
    and none: "List.find (is_zombie s) (awaited n (kids c) s) = None" and some: "awaited n (kids c) s \<noteq> []"
  obtains s' d where "do_wait_pass C n code_store s = Some (Wait_suspended, s')" "proctab_rep s' i ps kids"
    "sched_ok rq_ok queue ready (set ps) d i s'" "c \<noteq> i \<Longrightarrow> d \<noteq> c"
    "state (procs s' c) = PROC_SLEEPING" "wait_state (procs s' c) = WT_CHILD"
proof -
  have c: "current s = Some c" "c \<in> insert i (set ps)" "i \<notin> set ps" using ok by (simp_all add: sched_ok_def)
  let ?s1 = "upd_proc c (\<lambda>d. d\<lparr>state := PROC_SLEEPING, wait_state := WT_CHILD\<rparr>) s"
  have sq: "same_queue s ?s1" by (rule same_queue_upd_proc) simp
  have f: "rq_ok ?s1" "queue ?s1 = queue s" "\<forall>p. ready p ?s1 = ready p s"
    using frame [OF _ sq] ok by (auto simp: sched_ok_def)
  have ok1: "sched_ok rq_ok queue ready (set ps) c i ?s1"
    using ok f by (auto simp: sched_ok_def)
  have "proctab_rep ?s1 i ps kids = proctab_rep s i ps kids"
    by (rule proctab_rep_cong) (auto simp: upd_proc_def)
  then have rep1: "proctab_rep ?s1 i ps kids" using rep by simp
  obtain s' d where s': "schedule C ?s1 = Some s'" "sched_ok rq_ok queue ready (set ps) d i s'"
    "if candidates queue c i ?s1 = {} then d = i else d \<in> candidates queue c i ?s1"
    "\<forall>p. state (procs s' p) = state (procs ?s1 p)" "\<forall>p. wait_state (procs s' p) = wait_state (procs ?s1 p)"
    by (rule schedule_spec [OF ok1]) (rule that)
  have "c \<notin> candidates queue c i ?s1" using ok1 by (auto simp: candidates_def sched_ok_def)
  then have dc: "d \<noteq> c" if "c \<noteq> i" using s'(3) that by (auto split: if_splits)
  have "do_wait_pass C n code_store s = Some (Wait_suspended, s')"
    using wait_search_spec [OF rep c(2), of n] c(1) none some s'(1) by (simp add: do_wait_pass_def)
  then show thesis
    by (rule that [OF _ schedule_table [OF rep1 ok1 s'(1)] s'(2) dc]) (use s'(4,5) in simp_all)
qed

lemma wait_no_child:
  assumes rep: "proctab_rep s i ps kids" and ok: "sched_ok rq_ok queue ready (set ps) c i s"
    and none: "awaited n (kids c) s = []"
  shows "do_wait_pass C n code_store s = Some (Wait_returns (- E_BAD_PROC) None, s)"
proof -
  have c: "current s = Some c" "c \<in> insert i (set ps)" using ok by (simp_all add: sched_ok_def)
  show ?thesis using wait_search_spec [OF rep c(2), of n] c(1) none by (simp add: do_wait_pass_def)
qed

end

text \<open>
  C4: one pass of \<open>do_wait\<close> always returns. If the process waits for a child that is a zombie, it gets the
  exit code of the first one, which leaves the process list, the hash table and the family links and is
  freed; if it has such children but none is a zombie, it sleeps as \<open>WT_CHILD\<close> and another process runs;
  without such a child it gets \<open>-E_BAD_PROC\<close> and nothing changes. The table and the run queue stay
  well-formed.
\<close>

theorem do_wait_pass_outcome:
  fixes s :: "'a system_scheme"
  assumes "proctab_rep s i ps kids" and "sched_ok rr_ok rr_queue rr_ready (set ps) c i s"
    and "\<forall>p\<in>set (kids c). is_zombie s p \<longrightarrow> reapable kids s p"
  shows "\<exists>r s'. do_wait_pass default_sched_class n code_store s = Some (r, s') \<and>
    (case List.find (is_zombie s) (awaited n (kids c) s) of
       Some p \<Rightarrow> r = Wait_returns 0 (if code_store \<noteq> 0 then Some (exit_code (procs s p)) else None) \<and>
         proctab_rep s' i (removeAll p ps) (kids(c := removeAll p (kids c))) \<and>
         sched_ok rr_ok rr_queue rr_ready (set (removeAll p ps)) c i s' \<and> procs_freed s' = p # procs_freed s
     | None \<Rightarrow>
         if awaited n (kids c) s = [] then r = Wait_returns (- E_BAD_PROC) None \<and> s' = s
         else r = Wait_suspended \<and> state (procs s' c) = PROC_SLEEPING \<and> wait_state (procs s' c) = WT_CHILD \<and>
           proctab_rep s' i ps kids \<and> (\<exists>d. (c = i \<or> d \<noteq> c) \<and> sched_ok rr_ok rr_queue rr_ready (set ps) d i s'))"
proof (cases "List.find (is_zombie s) (awaited n (kids c) s)")
  case (Some p)
  then have "p \<in> set (kids c) \<and> is_zombie s p"
    by (auto simp: find_Some_iff awaited_def split: if_splits dest: nth_mem)
  then have z: "reapable kids s p" using assms(3) by blast
  obtain s' where "do_wait_pass default_sched_class n code_store s =
       Some (Wait_returns 0 (if code_store \<noteq> 0 then Some (exit_code (procs s p)) else None), s')"
    "proctab_rep s' i (removeAll p ps) (kids(c := removeAll p (kids c)))"
    "sched_ok rr_ok rr_queue rr_ready (set (removeAll p ps)) c i s'" "procs_freed s' = p # procs_freed s" "fsys s' = fsys s"
    by (rule rr_fork.wait_reaps [OF assms(1,2) Some z]) (rule that)
  then show ?thesis using Some by auto
next
  case None
  show ?thesis
  proof (cases "awaited n (kids c) s = []")
    case True
    then show ?thesis using rr_fork.wait_no_child [OF assms(1,2) True] None by auto
  next
    case False
    obtain s' d where "do_wait_pass default_sched_class n code_store s = Some (Wait_suspended, s')" "proctab_rep s' i ps kids"
      "sched_ok rr_ok rr_queue rr_ready (set ps) d i s'" "c \<noteq> i \<Longrightarrow> d \<noteq> c"
      "state (procs s' c) = PROC_SLEEPING" "wait_state (procs s' c) = WT_CHILD"
      by (rule rr_fork.wait_sleeps [OF assms(1,2) None False]) (rule that)
    then show ?thesis using None False by auto
  qed
qed

text \<open>The idle process 0 with the zombie child 1.\<close>

definition example_orphan :: system where
  "example_orphan = upd_proc 1 (\<lambda>d. d\<lparr>parent := Some 0, state := PROC_ZOMBIE, exit_code := 5, kstack := Some (7 + nbase)\<rparr>)
     (example_system\<lparr>last_pid := 1\<rparr>)"

lemma example_orphan_joins:
  obtains t where "set_links 1 (hash_proc 1 example_orphan) = Some t" "proctab_rep t 0 [1] ((\<lambda>_. [])(0 := [1], 1 := []))"
    "sched_ok rr_ok rr_queue rr_ready (set [1]) 0 0 t" "reapable ((\<lambda>_. [])(0 := [1], 1 := [])) t 1" "is_zombie t 1"
    "exit_code (procs t 1) = 5"
proof -
  let ?s = example_orphan
  have empty: "proctab_rep ?s 0 [] (\<lambda>_. [])"
    by (rule empty_table) (simp_all add: example_orphan_def example_system_def example_proc_def MAX_PID_def MAX_PROCESS_def
      upd_proc_def)
  have f: "1 \<notin> insert 0 (set ([] :: nat list))" "parent (procs ?s 1) = Some 0" "0 \<in> insert 0 (set ([] :: nat list))"
    "cptr (procs ?s 1) = None" "pid (procs ?s 1) = last_pid ?s" "0 < last_pid ?s" "last_pid ?s < MAX_PID"
    "last_pid ?s \<notin> pids ?s []"
    by (simp_all add: example_orphan_def example_system_def example_proc_def MAX_PID_def MAX_PROCESS_def pids_def upd_proc_def)
  obtain t where t: "set_links 1 (hash_proc 1 ?s) = Some t"
    "proctab_rep t 0 (1 # []) ((\<lambda>_. [])(0 := 1 # (\<lambda>_. []) (0::nat), 1 := []))"
    "\<And>q. no_family (procs t q) = no_family (procs ?s q)"
    "t = (upd_proc_links (list_add ProcList (ProcLink 1)) (hash_proc 1 ?s))\<lparr>procs := procs t, nr_process := nr_process ?s + 1\<rparr>"
    by (rule join_table [OF empty f]) (rule that)
  note G = no_family_fields [OF t(3)]
  have e: "run_links t = run_links ?s" "pool t = pool ?s" "proc_num t = proc_num ?s" "max_time_slice t = max_time_slice ?s"
    "lab6_run_pool t = lab6_run_pool ?s" "current t = current ?s" "idleproc t = idleproc ?s" "initproc t = initproc ?s"
    "memory t = memory ?s"
    by (subst t(4); simp add: hash_proc_def upd_hash_links_def upd_proc_links_def)+
  have one: "procs ?s 1 = example_proc\<lparr>filesp := Some 0, parent := Some 0, state := PROC_ZOMBIE, exit_code := 5,
      kstack := Some (7 + nbase)\<rparr>"
    by (simp add: example_orphan_def example_system_def)
  have mem: "phys (mach (memory ?s)) = example_pmm" "npage (mach (memory ?s)) = nbase + 16" "initproc ?s = None"
    by (simp_all add: example_orphan_def example_system_def example_uvm_def upd_proc_def)
  have r: "rr_rep ?s []" by (simp add: rr_rep_def example_orphan_def example_system_def dlist_def)
  have q: "rr_queue ?s = {}" using rr_queue_rep [OF r] by simp
  have "sched_ok rr_ok rr_queue rr_ready {1} 0 0 ?s"
    using r q one by (auto simp: sched_ok_def rr_ok_def)
      (simp_all add: example_orphan_def example_system_def upd_proc_def rr_ready_def list_empty_def list_next_def)
  moreover have "same_queue ?s t" using e G by (simp add: same_queue_def)
  ultimately have ok: "sched_ok rr_ok rr_queue rr_ready {1} 0 0 t"
    by (rule rr_new.sched_ok_frame) (simp_all add: e G)
  have inv: "list_inv example_pmm" using example_pmm_rep by (auto simp: list_inv_def)
  have fr: "list_free_set example_pmm = {2..<5} \<union> {10..<15}"
    using free_rep_free_set [OF example_pmm_rep] by (simp add: pages_in_def)
  have "list_freeable example_pmm 7 2"
    unfolding list_freeable_def
  proof (intro conjI disjI2 bexI [of _ 10])
    show "unat (nr_free example_pmm) + 2 < 2 ^ 32" by (simp add: example_pmm_def)
  qed (use fr example_pmm_unreserved in auto)
  then obtain u where u: "default_free_pages 7 2 example_pmm = Some u" using ff.release_ok [OF inv] by blast
  have "free_pages 7 KSTACKPAGE (mach (memory t)) \<noteq> None"
    using u mem(1) e(9) by (simp add: free_pages_def KSTACKPAGE_def)
  then have "reapable ((\<lambda>_. [])(0 := [1], 1 := [])) t 1"
    using G(7) [of 1] one e mem by (auto simp: reapable_def)
  then show thesis
    using that [OF t(1) _ _ _ _] t(2) ok G(3,6) [of 1] one by (simp add: is_zombie_def)
qed

theorem do_wait_pass_outcome_witness:
  "\<exists>t r s'. set_links 1 (hash_proc 1 example_orphan) = Some t \<and>
     do_wait_pass default_sched_class 0 8 t = Some (r, s') \<and> r = Wait_returns 0 (Some 5) \<and> procs_freed s' = 1 # procs_freed t"
proof -
  let ?kids = "(\<lambda>_. [])(0 := [1], 1 := [])"
  obtain t where t: "set_links 1 (hash_proc 1 example_orphan) = Some t" "proctab_rep t 0 [1] ?kids"
    "sched_ok rr_ok rr_queue rr_ready (set [1]) 0 0 t" "reapable ?kids t 1" "is_zombie t 1" "exit_code (procs t 1) = 5"
    by (rule example_orphan_joins)
  have "\<forall>p\<in>set (?kids 0). is_zombie t p \<longrightarrow> reapable ?kids t p" using t(4) by simp
  from do_wait_pass_outcome [OF t(2,3) this, of 0 8] show ?thesis
    using t(1,5,6) by (auto simp: awaited_def)
qed

end
