(* ===== verification/Sysfile.thy ===== *)
theory Sysfile
imports Wait Sfs
begin

text \<open>
  The file system calls of \<open>kern/fs/sysfile.c\<close>: between the memory of the calling process and the
  operations on descriptors (theory Files). \<open>vfs_getcwd\<close> of \<open>vfspath.c\<close> is here because only
  \<open>sysfile_getcwd\<close> calls it.

  \<open>umem\<close> is the memory as the current address space shows it, user and kernel addresses alike. The
  results of the next calls of \<open>kmalloc\<close> for buffers are the list \<open>bufs_next\<close> (\<open>NULL\<close> when it is used
  up), and \<open>bufs_freed\<close> records what is passed to \<open>kfree\<close>. A path is handed on as the string that lies
  in its kernel buffer; that \<open>get_device\<close> cuts the buffer at a colon shows nowhere, since the buffer is
  freed next. The calls are modelled for processes
  that have a file table, as every process made by \<open>do_fork\<close> has.
\<close>

record sysmem = system +
  umem :: mem
  ticks :: "64 word"
  bufs_next :: "64 word option list"
  bufs_freed :: "64 word list"

definition load_bytes :: "mem \<Rightarrow> 64 word \<Rightarrow> nat \<Rightarrow> byte list" where
  "load_bytes m a n = map (\<lambda>i. m (unat a + i)) [0..<n]"

definition store_bytes :: "64 word \<Rightarrow> byte list \<Rightarrow> mem \<Rightarrow> mem" where
  "store_bytes a bs m = (\<lambda>x. if unat a \<le> x \<and> x < unat a + length bs then bs ! (x - unat a) else m x)"

text \<open>A C string in a buffer of \<open>n\<close> bytes.\<close>

definition string_at :: "mem \<Rightarrow> 64 word \<Rightarrow> nat \<Rightarrow> string" where
  "string_at m a n = map (\<lambda>b. char_of (unat b)) (load_bytes m a (strnlen m (unat a) n))"

definition size_to_int :: "64 word \<Rightarrow> int" where
  "size_to_int w = sint (ucast w :: 32 word)"

definition kmalloc_buf :: "'a sysmem_scheme \<Rightarrow> 64 word option \<times> 'a sysmem_scheme" where
  "kmalloc_buf s = (case bufs_next s of [] \<Rightarrow> (None, s) | k # ks \<Rightarrow> (k, s\<lparr>bufs_next := ks\<rparr>))"

definition kfree_buf :: "64 word \<Rightarrow> 'a sysmem_scheme \<Rightarrow> 'a sysmem_scheme" where
  "kfree_buf b s = s\<lparr>bufs_freed := b # bufs_freed s\<rparr>"

section \<open>The memory of the calling process\<close>

definition current_mm :: "'a sysmem_scheme \<Rightarrow> nat option option" where
  "current_mm s = do { c \<leftarrow> current s; Some (mm (procs s c)) }"

definition current_files :: "'a sysmem_scheme \<Rightarrow> nat option" where
  "current_files s = do { c \<leftarrow> current s; filesp (procs s c) }"

definition sys_lock_mm :: "nat option \<Rightarrow> 'a sysmem_scheme \<Rightarrow> 'a sysmem_scheme option" where
  "sys_lock_mm mo s = do {
     u \<leftarrow> lock_mm (map_option (\<lambda>c. pid (procs s c)) (current s)) mo (memory s);
     Some (s\<lparr>memory := u\<rparr>)
   }"

definition sys_unlock_mm :: "nat option \<Rightarrow> 'a sysmem_scheme \<Rightarrow> 'a sysmem_scheme" where
  "sys_unlock_mm mo s = s\<lparr>memory := unlock_mm mo (memory s)\<rparr>"

text \<open>The accesses to user memory, each between \<open>lock_mm\<close> and \<open>unlock_mm\<close> as in every caller.\<close>

definition locked ::
  "nat option \<Rightarrow> (mem \<Rightarrow> uvm \<Rightarrow> (bool \<times> mem \<times> uvm) option) \<Rightarrow> 'a sysmem_scheme \<Rightarrow> (bool \<times> 'a sysmem_scheme) option" where
  "locked mo f s = do {
     s \<leftarrow> sys_lock_mm mo s;
     (ok, m, u) \<leftarrow> f (umem s) (memory s);
     Some (ok, sys_unlock_mm mo (s\<lparr>umem := m, memory := u\<rparr>))
   }"

definition to_user :: "nat option \<Rightarrow> 64 word \<Rightarrow> 64 word \<Rightarrow> 64 word \<Rightarrow> 'a sysmem_scheme \<Rightarrow> (bool \<times> 'a sysmem_scheme) option" where
  "to_user mo dst src len s = locked mo (copy_to_user mo dst src len) s"

definition from_user ::
  "nat option \<Rightarrow> 64 word \<Rightarrow> 64 word \<Rightarrow> 64 word \<Rightarrow> bool \<Rightarrow> 'a sysmem_scheme \<Rightarrow> (bool \<times> 'a sysmem_scheme) option" where
  "from_user mo dst src len wr s = locked mo (copy_from_user mo dst src len wr) s"

section \<open>Paths\<close>

definition FS_MAX_FPATH_LEN :: nat where "FS_MAX_FPATH_LEN = 4095"

text \<open>The result code and the buffer that is stored through \<open>to\<close>.\<close>

definition copy_path ::
  "64 word \<Rightarrow> 'a sysmem_scheme \<Rightarrow> (int \<times> 64 word option \<times> 'a sysmem_scheme) option" where
  "copy_path uaddr s = do {
     m \<leftarrow> current_mm s;
     let (kp, s) = kmalloc_buf s;
     (case kp of
        None \<Rightarrow> Some (- E_NO_MEM, None, s)
      | Some buffer \<Rightarrow> do {
          (ok, s) \<leftarrow> locked m (copy_string m buffer uaddr (of_nat (FS_MAX_FPATH_LEN + 1))) s;
          Some (if \<not> ok then (- E_INVAL, None, kfree_buf buffer s) else (0, Some buffer, s))
        })
   }"

definition path_at :: "64 word \<Rightarrow> 'a sysmem_scheme \<Rightarrow> string" where
  "path_at b s = string_at (umem s) b (FS_MAX_FPATH_LEN + 1)"

section \<open>Open, close, seek and the like\<close>

text \<open>A call on one path: \<open>f\<close> is what is done with it.\<close>

definition with_path ::
  "(nat \<Rightarrow> string \<Rightarrow> devices \<Rightarrow> (int \<times> devices) option) \<Rightarrow> 64 word \<Rightarrow> 'a sysmem_scheme \<Rightarrow> (int \<times> 'a sysmem_scheme) option" where
  "with_path f upath s = do {
     (ret, path, s) \<leftarrow> copy_path upath s;
     (case path of
        None \<Rightarrow> Some (ret, s)
      | Some b \<Rightarrow> do {
          fp \<leftarrow> current_files s;
          (ret, v) \<leftarrow> f fp (path_at b s) (fsys s);
          Some (ret, kfree_buf b (s\<lparr>fsys := v\<rparr>))
        })
   }"

definition sysfile_open ::
  "(nat \<Rightarrow> devices inode_ops) \<Rightarrow> devices fs_ops \<Rightarrow> 64 word \<Rightarrow> 32 word \<Rightarrow> 'a sysmem_scheme \<Rightarrow>
   (int \<times> 'a sysmem_scheme) option" where
  "sysfile_open ops fops upath open_flags s = with_path (\<lambda>fp path. file_open ops fops fp path open_flags) upath s"

text \<open>A call that only works on the open files.\<close>

definition on_files ::
  "(nat \<Rightarrow> devices \<Rightarrow> (int \<times> devices) option) \<Rightarrow> 'a sysmem_scheme \<Rightarrow> (int \<times> 'a sysmem_scheme) option" where
  "on_files f s = do { fp \<leftarrow> current_files s; (ret, v) \<leftarrow> f fp (fsys s); Some (ret, s\<lparr>fsys := v\<rparr>) }"

definition sysfile_close ::
  "(nat \<Rightarrow> devices inode_ops) \<Rightarrow> int \<Rightarrow> 'a sysmem_scheme \<Rightarrow> (int \<times> 'a sysmem_scheme) option" where
  "sysfile_close ops n s = on_files (\<lambda>fp. file_close ops fp n) s"

definition sysfile_seek ::
  "(nat \<Rightarrow> devices inode_ops) \<Rightarrow> int \<Rightarrow> int \<Rightarrow> int \<Rightarrow> 'a sysmem_scheme \<Rightarrow> (int \<times> 'a sysmem_scheme) option" where
  "sysfile_seek ops n off whence s = on_files (\<lambda>fp. file_seek ops fp n off whence) s"

definition sysfile_fsync ::
  "(nat \<Rightarrow> devices inode_ops) \<Rightarrow> int \<Rightarrow> 'a sysmem_scheme \<Rightarrow> (int \<times> 'a sysmem_scheme) option" where
  "sysfile_fsync ops n s = on_files (\<lambda>fp. file_fsync ops fp n) s"

definition sysfile_dup :: "int \<Rightarrow> int \<Rightarrow> 'a sysmem_scheme \<Rightarrow> (int \<times> 'a sysmem_scheme) option" where
  "sysfile_dup fd1 fd2 s = on_files (\<lambda>fp. file_dup fp fd1 fd2) s"

definition sysfile_pipe :: int where "sysfile_pipe = - E_UNIMP"
definition sysfile_mkfifo :: int where "sysfile_mkfifo = - E_UNIMP"

section \<open>Read and write\<close>

definition IOBUF_SIZE :: "64 word" where "IOBUF_SIZE = 4096"

text \<open>
  One pass of the loop of \<open>sysfile_read\<close>: \<open>ret\<close>, \<open>alen\<close>, and how far \<open>base\<close> is moved. \<open>give_chunk\<close> is what
  follows \<open>file_read\<close>.
\<close>

definition chunk_len :: "64 word \<Rightarrow> 64 word" where
  "chunk_len len = (if IOBUF_SIZE > len then len else IOBUF_SIZE)"

definition give_chunk ::
  "nat option \<Rightarrow> 64 word \<Rightarrow> 64 word \<Rightarrow> 64 word \<Rightarrow> int \<Rightarrow> 64 word \<Rightarrow> 'a sysmem_scheme \<Rightarrow>
   (int \<times> 64 word \<times> 64 word \<times> 'a sysmem_scheme) option" where
  "give_chunk m buffer base len ret alen s =
     (if alen \<noteq> 0
      then do {
        (ok, s) \<leftarrow> to_user m base buffer alen s;
        (if ok then do { kassert (len \<ge> alen); Some (ret, alen, alen, s) }
         else Some (if ret = 0 then - E_INVAL else ret, alen, 0, s))
      }
      else Some (ret, alen, 0, s))"

definition read_chunk ::
  "(nat \<Rightarrow> devices inode_ops) \<Rightarrow> nat option \<Rightarrow> int \<Rightarrow> 64 word \<Rightarrow> 64 word \<Rightarrow> 64 word \<Rightarrow> 'a sysmem_scheme \<Rightarrow>
   (int \<times> 64 word \<times> 64 word \<times> 'a sysmem_scheme) option" where
  "read_chunk ops m n buffer base len s = do {
     fp \<leftarrow> current_files s;
     (ret, copied, bs, v) \<leftarrow>
       file_read ops fp n (load_bytes (umem s) buffer (unat IOBUF_SIZE)) 0 (unat (chunk_len len)) (fsys s);
     give_chunk m buffer base len ret (of_nat copied) (s\<lparr>umem := store_bytes buffer bs (umem s), fsys := v\<rparr>)
   }"

text \<open>One pass of the loop of \<open>sysfile_write\<close>; \<open>put_chunk\<close> is what follows \<open>copy_from_user\<close>.\<close>

definition put_chunk ::
  "(nat \<Rightarrow> devices inode_ops) \<Rightarrow> int \<Rightarrow> 64 word \<Rightarrow> 64 word \<Rightarrow> 'a sysmem_scheme \<Rightarrow>
   (int \<times> 64 word \<times> 64 word \<times> 'a sysmem_scheme) option" where
  "put_chunk ops n buffer len s = do {
     fp \<leftarrow> current_files s;
     (ret, copied, v) \<leftarrow>
       file_write ops fp n (load_bytes (umem s) buffer (unat IOBUF_SIZE)) 0 (unat (chunk_len len)) (fsys s);
     let alen = of_nat copied;
     kassert (alen \<noteq> 0 \<longrightarrow> len \<ge> alen);
     Some (ret, alen, alen, s\<lparr>fsys := v\<rparr>)
   }"

definition write_chunk ::
  "(nat \<Rightarrow> devices inode_ops) \<Rightarrow> nat option \<Rightarrow> int \<Rightarrow> 64 word \<Rightarrow> 64 word \<Rightarrow> 64 word \<Rightarrow> 'a sysmem_scheme \<Rightarrow>
   (int \<times> 64 word \<times> 64 word \<times> 'a sysmem_scheme) option" where
  "write_chunk ops m n buffer base len s = do {
     (ok, s) \<leftarrow> from_user m buffer base (chunk_len len) False s;
     (if ok then put_chunk ops n buffer len s else Some (- E_INVAL, chunk_len len, 0, s))
   }"

text \<open>The loop around either pass: the last \<open>ret\<close> and \<open>copied\<close>.\<close>

partial_function (option) transfer_loop ::
  "(64 word \<Rightarrow> 64 word \<Rightarrow> 's \<Rightarrow> (int \<times> 64 word \<times> 64 word \<times> 's) option) \<Rightarrow> 64 word \<Rightarrow> 64 word \<Rightarrow> 64 word \<Rightarrow> 's \<Rightarrow>
   (int \<times> 64 word \<times> 's) option" where
  "transfer_loop chunk base len copied s =
     (if len \<noteq> 0
      then Option.bind (chunk base len s) (\<lambda>(ret, alen, moved, s).
        if ret \<noteq> 0 \<or> alen = 0 then Some (ret, copied + moved, s)
        else transfer_loop chunk (base + moved) (len - moved) (copied + moved) s)
      else Some (0, copied, s))"

text \<open>What both calls do around the loop; \<open>r\<close> and \<open>w\<close> are what \<open>file_testfd\<close> is asked for.\<close>

definition sysfile_transfer ::
  "bool \<Rightarrow> bool \<Rightarrow> (nat option \<Rightarrow> 64 word \<Rightarrow> 64 word \<Rightarrow> 64 word \<Rightarrow> 'a sysmem_scheme \<Rightarrow>
     (int \<times> 64 word \<times> 64 word \<times> 'a sysmem_scheme) option) \<Rightarrow>
   int \<Rightarrow> 64 word \<Rightarrow> 64 word \<Rightarrow> 'a sysmem_scheme \<Rightarrow> (int \<times> 'a sysmem_scheme) option" where
  "sysfile_transfer r w chunk n base len s = do {
     m \<leftarrow> current_mm s;
     (if len = 0 then Some (0, s)
      else do {
        fp \<leftarrow> current_files s;
        ok \<leftarrow> file_testfd fp n r w (fsys s);
        (if \<not> ok then Some (- E_INVAL, s)
         else case kmalloc_buf s of
           (None, s) \<Rightarrow> Some (- E_NO_MEM, s)
         | (Some buffer, s) \<Rightarrow> do {
             (ret, copied, s) \<leftarrow> transfer_loop (chunk m buffer) base len 0 s;
             Some (if copied \<noteq> 0 then size_to_int copied else ret, kfree_buf buffer s)
           })
      })
   }"

definition sysfile_read ::
  "(nat \<Rightarrow> devices inode_ops) \<Rightarrow> int \<Rightarrow> 64 word \<Rightarrow> 64 word \<Rightarrow> 'a sysmem_scheme \<Rightarrow>
   (int \<times> 'a sysmem_scheme) option" where
  "sysfile_read ops n base len s = sysfile_transfer True False (\<lambda>m buffer. read_chunk ops m n buffer) n base len s"

definition sysfile_write ::
  "(nat \<Rightarrow> devices inode_ops) \<Rightarrow> int \<Rightarrow> 64 word \<Rightarrow> 64 word \<Rightarrow> 'a sysmem_scheme \<Rightarrow>
   (int \<times> 'a sysmem_scheme) option" where
  "sysfile_write ops n base len s = sysfile_transfer False True (\<lambda>m buffer. write_chunk ops m n buffer) n base len s"

section \<open>Status\<close>

text \<open>\<open>struct stat\<close> in memory: the four bytes after \<open>st_mode\<close> are padding, which every \<open>vop_fstat\<close> clears.\<close>

definition stat_bytes :: "stat \<Rightarrow> byte list" where
  "stat_bytes st = le_bytes 4 (st_mode st) @ replicate 4 0 @ le_bytes 8 (st_nlinks st) @ le_bytes 8 (st_blocks st) @
     le_bytes 8 (st_size st)"

text \<open>\<open>lstat\<close> is the address of \<open>__local_stat\<close> on the kernel stack.\<close>

definition sysfile_fstat ::
  "(nat \<Rightarrow> devices inode_ops) \<Rightarrow> 64 word \<Rightarrow> int \<Rightarrow> 64 word \<Rightarrow> 'a sysmem_scheme \<Rightarrow> (int \<times> 'a sysmem_scheme) option" where
  "sysfile_fstat ops lstat n ustat s = do {
     m \<leftarrow> current_mm s;
     fp \<leftarrow> current_files s;
     (ret, st, v) \<leftarrow> file_fstat ops fp n (fsys s);
     let s = s\<lparr>fsys := v\<rparr>;
     (if ret \<noteq> 0 then Some (ret, s)
      else do {
        st \<leftarrow> st;
        let s = s\<lparr>umem := store_bytes lstat (stat_bytes st) (umem s)\<rparr>;
        (ok, s) \<leftarrow> to_user m ustat lstat 32 s;
        Some (if \<not> ok then - E_INVAL else 0, s)
      })
   }"

section \<open>Calls with paths\<close>

definition sysfile_chdir ::
  "(nat \<Rightarrow> devices inode_ops) \<Rightarrow> devices fs_ops \<Rightarrow> 64 word \<Rightarrow> 'a sysmem_scheme \<Rightarrow> (int \<times> 'a sysmem_scheme) option" where
  "sysfile_chdir ops fops upath s = with_path (vfs_chdir ops fops) upath s"

definition vfs_link :: "string \<Rightarrow> string \<Rightarrow> int" where "vfs_link old_path new_path = - E_UNIMP"
definition vfs_rename :: "string \<Rightarrow> string \<Rightarrow> int" where "vfs_rename old_path new_path = - E_UNIMP"
definition vfs_unlink :: "string \<Rightarrow> int" where "vfs_unlink path = - E_UNIMP"
definition vfs_symlink :: "string \<Rightarrow> string \<Rightarrow> int" where "vfs_symlink old_path new_path = - E_UNIMP"
definition vfs_readlink :: "string \<Rightarrow> int" where "vfs_readlink path = - E_UNIMP"
definition vfs_mkdir :: "string \<Rightarrow> int" where "vfs_mkdir path = - E_UNIMP"

text \<open>\<open>sysfile_link\<close> and \<open>sysfile_rename\<close> differ in the last call.\<close>

definition two_paths ::
  "(string \<Rightarrow> string \<Rightarrow> int) \<Rightarrow> 64 word \<Rightarrow> 64 word \<Rightarrow> 'a sysmem_scheme \<Rightarrow>
   (int \<times> 'a sysmem_scheme) option" where
  "two_paths f upath1 upath2 s = do {
     (ret, old_path, s) \<leftarrow> copy_path upath1 s;
     (case old_path of
        None \<Rightarrow> Some (ret, s)
      | Some b1 \<Rightarrow> do {
          (ret, new_path, s) \<leftarrow> copy_path upath2 s;
          Some (case new_path of
              None \<Rightarrow> (ret, kfree_buf b1 s)
            | Some b2 \<Rightarrow> (f (path_at b1 s) (path_at b2 s), kfree_buf b2 (kfree_buf b1 s)))
        })
   }"

definition sysfile_link ::
  "64 word \<Rightarrow> 64 word \<Rightarrow> 'a sysmem_scheme \<Rightarrow> (int \<times> 'a sysmem_scheme) option" where
  "sysfile_link upath1 upath2 s = two_paths vfs_link upath1 upath2 s"

definition sysfile_rename ::
  "64 word \<Rightarrow> 64 word \<Rightarrow> 'a sysmem_scheme \<Rightarrow> (int \<times> 'a sysmem_scheme) option" where
  "sysfile_rename upath1 upath2 s = two_paths vfs_rename upath1 upath2 s"

definition sysfile_unlink ::
  "64 word \<Rightarrow> 'a sysmem_scheme \<Rightarrow> (int \<times> 'a sysmem_scheme) option" where
  "sysfile_unlink upath s = do {
     (ret, path, s) \<leftarrow> copy_path upath s;
     Some (case path of None \<Rightarrow> (ret, s) | Some b \<Rightarrow> (vfs_unlink (path_at b s), kfree_buf b s))
   }"

section \<open>The current directory and directory entries\<close>

text \<open>The name of the device, a colon and the path of the directory, as far as there is room.\<close>

definition put_cwd ::
  "(nat \<Rightarrow> 'a vfs_scheme inode_ops) \<Rightarrow> nat \<Rightarrow> string \<Rightarrow> iobuf \<Rightarrow> 'a vfs_scheme \<Rightarrow> (int \<times> iobuf \<times> 'a vfs_scheme) option" where
  "put_cwd ops n name iob s = do {
     (iob, d, copied, ret) \<leftarrow> iobuf_move iob (bytes_of_string name) (length name) True;
     (if ret \<noteq> 0 then Some (ret, iob, s)
      else do {
        (iob, d, copied, ret) \<leftarrow> iobuf_move iob (bytes_of_string '':'') 1 True;
        (if ret \<noteq> 0 then Some (ret, iob, s) else vop_namefile ops n iob s)
      })
   }"

definition vfs_getcwd ::
  "(nat \<Rightarrow> 'a vfs_scheme inode_ops) \<Rightarrow> nat \<Rightarrow> iobuf \<Rightarrow> 'a vfs_scheme \<Rightarrow> (int \<times> iobuf \<times> 'a vfs_scheme) option" where
  "vfs_getcwd ops fp iob s =
     (case vfs_get_curdir fp s of
        (ret, None, s) \<Rightarrow> Some (ret, iob, s)
      | (ret, Some n, s) \<Rightarrow> do {
          fs \<leftarrow> in_fs (inodes s n);
          dev \<leftarrow> vfs_get_devname fs s;
          name \<leftarrow> dev;
          (ret, iob, s) \<leftarrow> put_cwd ops n name iob s;
          (rc, s) \<leftarrow> inode_ref_dec ops n s;
          Some (ret, iob, s)
        })"

definition sysfile_getcwd ::
  "(nat \<Rightarrow> devices inode_ops) \<Rightarrow> 64 word \<Rightarrow> 64 word \<Rightarrow> 'a sysmem_scheme \<Rightarrow> (int \<times> 'a sysmem_scheme) option" where
  "sysfile_getcwd ops buf len s = do {
     m \<leftarrow> current_mm s;
     (if len = 0 then Some (- E_INVAL, s)
      else do {
        s \<leftarrow> sys_lock_mm m s;
        (ok, u) \<leftarrow> user_mem_check m buf len True (memory s);
        let s = s\<lparr>memory := u\<rparr>;
        (ret, s) \<leftarrow>
          (if ok
           then do {
             fp \<leftarrow> current_files s;
             (ret, iob, v) \<leftarrow> vfs_getcwd ops fp (iobuf_init (load_bytes (umem s) buf (unat len)) 0 (unat len) 0) (fsys s);
             Some (ret, s\<lparr>umem := store_bytes buf (io_mem iob) (umem s), fsys := v\<rparr>)
           }
           else Some (- E_INVAL, s));
        Some (ret, sys_unlock_mm m s)
      })
   }"

text \<open>\<open>struct dirent\<close> in memory.\<close>

definition dirent_at :: "mem \<Rightarrow> 64 word \<Rightarrow> dirent" where
  "dirent_at m a = \<lparr>d_offset = sint (of_nat (of_le (load_bytes m a 8)) :: 64 word),
     d_name = load_bytes m (a + 8) (FS_MAX_FNAME_LEN + 1)\<rparr>"

definition dirent_bytes :: "dirent \<Rightarrow> byte list" where
  "dirent_bytes d = le_bytes 8 (nat (d_offset d mod 2 ^ 64)) @ d_name d"

definition sysfile_getdirentry ::
  "(nat \<Rightarrow> devices inode_ops) \<Rightarrow> int \<Rightarrow> 64 word \<Rightarrow> 'a sysmem_scheme \<Rightarrow>
   (int \<times> 'a sysmem_scheme) option" where
  "sysfile_getdirentry ops n udir s = do {
     m \<leftarrow> current_mm s;
     (case kmalloc_buf s of
        (None, s) \<Rightarrow> Some (- E_NO_MEM, s)
      | (Some direntp, s) \<Rightarrow> do {
          (ok, s) \<leftarrow> from_user m direntp udir 8 True s;
          (ret, s) \<leftarrow>
            (if \<not> ok then Some (- E_INVAL, s)
             else do {
               fp \<leftarrow> current_files s;
               (ret, d, v) \<leftarrow> file_getdirentry ops fp n (dirent_at (umem s) direntp) (fsys s);
               let s = s\<lparr>umem := store_bytes direntp (dirent_bytes d) (umem s), fsys := v\<rparr>;
               (if ret \<noteq> 0 then Some (ret, s)
                else do {
                  (ok, s) \<leftarrow> to_user m udir direntp 264 s;
                  Some (if \<not> ok then - E_INVAL else 0, s)
                })
             });
          Some (ret, kfree_buf direntp s)
        })
   }"

end
