(* ===== verification/Printfmt.thy ===== *)
theory Printfmt
imports CString
begin

text \<open>
  Number formatting of \<open>libs/printfmt.c\<close>: \<open>printnum\<close>, with the output function \<open>putch\<close> as a
  parameter that updates a state, the bounded buffer of \<open>snprintf\<close> (\<open>sprintputch\<close>), and
  \<open>strtol\<close> as the inverse of \<open>printnum\<close>.
\<close>

section \<open>The operations\<close>

text \<open>\<open>"0123456789abcdef"[d]\<close>\<close>

definition digit_char :: "nat \<Rightarrow> 8 word" where
  "digit_char d =
     [48, 49, 50, 51, 52, 53, 54, 55, 56, 57, 97, 98, 99, 100, 101, 102] ! d"

text \<open>\<open>while (-- width > 0) putch(padc)\<close> runs \<open>width - 1\<close> times.\<close>

fun pad_loop :: "(8 word \<Rightarrow> 's \<Rightarrow> 's) \<Rightarrow> 8 word \<Rightarrow> nat \<Rightarrow> 's \<Rightarrow> 's" where
  "pad_loop putch padc 0 s = s"
| "pad_loop putch padc (Suc n) s = pad_loop putch padc n (putch padc s)"

text \<open>
  The width is a signed \<open>int\<close>: decrementing the least one is undefined, and every call does it, with
  \<open>width - 1\<close> or with \<open>-- width\<close>.
\<close>

partial_function (option) printnum ::
  "(8 word \<Rightarrow> 's \<Rightarrow> 's) \<Rightarrow> 64 word \<Rightarrow> 32 word \<Rightarrow> int \<Rightarrow> 8 word \<Rightarrow> 's \<Rightarrow> 's option"
where
  "printnum putch num base width padc s =
     (if base = 0 \<or> width \<le> - (2 ^ 31) then None
      else let result = num div ucast base; md = num mod ucast base in
        Option.bind
          (if num \<ge> ucast base then printnum putch result base (width - 1) padc s
           else Some (pad_loop putch padc (nat (width - 1)) s))
          (\<lambda>s1. Some (putch (digit_char (unat md)) s1)))"

text \<open>The \<open>struct sprintbuf\<close> of \<open>snprintf\<close>, with the memory it writes.\<close>

record sprintbuf =
  buf :: nat
  ebuf :: nat
  cnt :: "32 word"
  bmem :: mem

definition sprintputch :: "8 word \<Rightarrow> sprintbuf \<Rightarrow> sprintbuf" where
  "sprintputch ch b =
     (let b1 = b\<lparr>cnt := cnt b + 1\<rparr> in
      if buf b1 < ebuf b1
      then b1\<lparr>bmem := (bmem b1)(buf b1 := ch), buf := buf b1 + 1\<rparr> else b1)"

text \<open>However many characters are put, only the bytes below \<open>ebuf\<close> are written.\<close>

lemma sprintputch_bounds:
  assumes "buf b \<le> ebuf b"
  shows "buf b \<le> buf (fold sprintputch xs b) \<and> buf (fold sprintputch xs b) \<le> ebuf b \<and>
         ebuf (fold sprintputch xs b) = ebuf b \<and>
         cnt (fold sprintputch xs b) = cnt b + of_nat (length xs) \<and>
         (\<forall>x. x < buf b \<or> ebuf b \<le> x \<longrightarrow> bmem (fold sprintputch xs b) x = bmem b x)"
  using assms
proof (induction xs arbitrary: b)
  case (Cons c xs)
  let ?b = "sprintputch c b"
  have b: "buf b \<le> buf ?b" "buf ?b \<le> ebuf ?b" "ebuf ?b = ebuf b" "cnt ?b = cnt b + 1"
    "\<forall>x. x < buf b \<or> ebuf b \<le> x \<longrightarrow> bmem ?b x = bmem b x"
    using Cons.prems by (auto simp: sprintputch_def Let_def)
  from Cons.IH [OF b(2)] b show ?case by auto
qed simp

section \<open>The digits of a number\<close>

text \<open>The digits \<open>printnum\<close> prints, most significant first.\<close>

function digits :: "nat \<Rightarrow> nat \<Rightarrow> nat list" where
  "digits base num =
     (if 2 \<le> base \<and> base \<le> num then digits base (num div base) @ [num mod base] else [num mod base])"
  by auto
termination
  by (relation "measure snd") (auto intro: div_less_dividend)

declare digits.simps [simp del]

lemma digits_bound: "0 < base \<Longrightarrow> d \<in> set (digits base num) \<Longrightarrow> d < base"
proof (induction base num rule: digits.induct)
  case (1 base num)
  then show ?case by (subst (asm) digits.simps) (auto split: if_splits)
qed

lemma foldl_digits:
  "2 \<le> base \<Longrightarrow> foldl (\<lambda>v d. v * base + d) a (digits base num) =
     a * base ^ length (digits base num) + num"
proof (induction base num arbitrary: a rule: digits.induct)
  case (1 base num)
  show ?case
  proof (cases "base \<le> num")
    case True
    have "digits base num = digits base (num div base) @ [num mod base]"
      using True "1.prems" by (subst digits.simps) simp
    moreover have "foldl (\<lambda>v d. v * base + d) a (digits base (num div base)) =
        a * base ^ length (digits base (num div base)) + num div base"
      using "1.IH" True "1.prems" by simp
    ultimately show ?thesis by (simp add: algebra_simps)
  next
    case False
    then have "digits base num = [num mod base]" by (subst digits.simps) simp
    then show ?thesis using False by simp
  qed
qed

lemma digit_val_char:
  assumes "d < 16"
  shows "digit_val (digit_char d) = Some (int d)" "digit_char d \<noteq> 0" "digit_char d \<noteq> 32"
    "digit_char d \<noteq> 9" "digit_char d \<noteq> 43" "digit_char d \<noteq> 45" "digit_char d \<noteq> 120"
proof -
  have "d = 0 \<or> d = 1 \<or> d = 2 \<or> d = 3 \<or> d = 4 \<or> d = 5 \<or> d = 6 \<or> d = 7 \<or> d = 8 \<or> d = 9 \<or>
      d = 10 \<or> d = 11 \<or> d = 12 \<or> d = 13 \<or> d = 14 \<or> d = 15"
    using assms by arith
  then have "digit_val (digit_char d) = Some (int d) \<and> digit_char d \<noteq> 0 \<and> digit_char d \<noteq> 32 \<and>
    digit_char d \<noteq> 9 \<and> digit_char d \<noteq> 43 \<and> digit_char d \<noteq> 45 \<and> digit_char d \<noteq> 120"
    by (elim disjE) (simp_all add: digit_val_def digit_char_def)
  then show "digit_val (digit_char d) = Some (int d)" "digit_char d \<noteq> 0" "digit_char d \<noteq> 32"
    "digit_char d \<noteq> 9" "digit_char d \<noteq> 43" "digit_char d \<noteq> 45" "digit_char d \<noteq> 120" by auto
qed

section \<open>printnum prints the padded digits\<close>

text \<open>The output of a formatter that only appends is a list; this is its \<open>putch\<close>.\<close>

definition emit :: "8 word \<Rightarrow> 8 word list \<Rightarrow> 8 word list" where
  "emit c out = out @ [c]"

lemma pad_loop_fold: "pad_loop putch padc n s = fold putch (replicate n padc) s"
  by (induction n arbitrary: s) auto

definition printed :: "nat \<Rightarrow> nat \<Rightarrow> int \<Rightarrow> 8 word \<Rightarrow> 8 word list" where
  "printed base num width padc =
     replicate (nat (width - int (length (digits base num)))) padc @
     map digit_char (digits base num)"

lemma digits_length_pos: "0 < length (digits base num)"
  by (subst digits.simps) simp

text \<open>The width that the last of the nested calls decrements is still an \<open>int\<close>.\<close>

definition width_ok :: "nat \<Rightarrow> nat \<Rightarrow> int \<Rightarrow> bool" where
  "width_ok base num width \<longleftrightarrow> - (2 ^ 31) \<le> width - int (length (digits base num))"

lemma printnum_nat:
  assumes "2 \<le> b" "b = unat (base :: 32 word)" "n = unat (num :: 64 word)"
  shows "printnum putch num base width padc s =
    (if width_ok b n width then Some (fold putch (printed b n width padc) s) else None)"
  using assms
proof (induction b n arbitrary: num width rule: digits.induct)
  case (1 b n)
  have u: "unat (ucast base :: 64 word) = b" using "1.prems"(2) order_less_le_trans [OF unsigned_less [of base], of "2 ^ 64 :: nat"]
    by (simp add: unsigned_ucast_eq take_bit_nat_eq_self_iff)
  have ge: "num \<ge> ucast base \<longleftrightarrow> b \<le> n" using u "1.prems"(3) by (simp add: word_le_nat_alt)
  have dv: "n div b = unat (num div ucast base)" "unat (num mod ucast base) = n mod b"
    using u "1.prems"(3) by (simp_all add: unat_div unat_mod)
  have b0: "base \<noteq> 0" using "1.prems"(1,2) by auto
  show ?case
  proof (cases "b \<le> n")
    case True
    have d: "digits b n = digits b (n div b) @ [n mod b]"
      using True "1.prems"(1) by (subst digits.simps) simp
    have IH: "printnum putch (num div ucast base) base (width - 1) padc s =
        (if width_ok b (n div b) (width - 1) then Some (fold putch (printed b (n div b) (width - 1) padc) s) else None)"
      using "1.IH" [of "num div ucast base" "width - 1"] True "1.prems"(1,2) dv(1) by simp
    have w: "width_ok b (n div b) (width - 1) \<longleftrightarrow> width_ok b n width"
      "width_ok b n width \<Longrightarrow> \<not> width \<le> - (2 ^ 31)"
      using d by (auto simp: width_ok_def)
    have "width - 1 - int (length (digits b (n div b))) = width - int (length (digits b n))" using d by simp
    then have "printed b n width padc = printed b (n div b) (width - 1) padc @ [digit_char (n mod b)]"
      using d by (simp add: printed_def)
    then show ?thesis
      using IH w ge True b0 dv(2) by (subst printnum.simps) (auto simp: Let_def)
  next
    case False
    then have "digits b n = [n mod b]" by (subst digits.simps) simp
    then show ?thesis
      using False b0 ge dv(2) by (subst printnum.simps) (auto simp: printed_def pad_loop_fold width_ok_def Let_def)
  qed
qed

lemma printnum_spec:
  assumes "2 \<le> unat base"
  shows "printnum putch num base width padc s =
    (if width_ok (unat base) (unat num) width
     then Some (fold putch (printed (unat base) (unat num) width padc) s) else None)"
  by (rule printnum_nat [OF assms refl refl])

lemma fold_emit: "fold emit xs out = out @ xs"
  by (induction xs arbitrary: out) (auto simp: emit_def)

section \<open>strtol reads it back\<close>

lemma skip_blanks_spec:
  "bytes_at m a (replicate n 32) \<Longrightarrow> m (a + n) \<noteq> 32 \<Longrightarrow> m (a + n) \<noteq> 9 \<Longrightarrow> skip_blanks m a = Some (a + n)"
proof (induction n arbitrary: a)
  case (Suc n)
  then have "skip_blanks m (a + 1) = Some (a + 1 + n)" by simp
  moreover have "m a = 32" using Suc.prems(1) by simp
  ultimately show ?case by (subst skip_blanks.simps) simp
qed (subst skip_blanks.simps, simp)

lemma strtol_digits_spec:
  assumes "cstr m a (map digit_char ds)" "\<forall>d \<in> set ds. d < base" "base \<le> 16"
  shows "strtol_digits m (int base) a v =
    Some (a + length ds, foldl (\<lambda>v d. v * of_nat base + of_nat d) v ds)"
  using assms
proof (induction ds arbitrary: a v)
  case Nil
  then have "m a = 0" by simp
  then show ?case by (subst strtol_digits.simps) (simp add: digit_val_def)
next
  case (Cons d ds)
  have "digit_val (m a) = Some (int d)" using Cons.prems digit_val_char(1) by simp
  moreover have "d < base" using Cons.prems(2) by simp
  ultimately show ?case
    using Cons.IH [of "Suc a" "v * of_nat base + of_nat d"] Cons.prems
    by (subst strtol_digits.simps) simp
qed

lemma foldl_word:
  "foldl (\<lambda>v d. v * of_nat b + of_nat d) (of_nat a :: 64 word) ds = of_nat (foldl (\<lambda>v d. v * b + d) a ds)"
  by (induction ds arbitrary: a) (auto simp: algebra_simps simp flip: of_nat_mult of_nat_add)

lemma strtol_printed:
  assumes b: "2 \<le> base" "base \<le> 16" and c: "cstr m a (printed base num width 32)"
  shows "strtol m a (int base) = Some (of_nat num, a + length (printed base num width 32))"
proof -
  let ?ds = "digits base num"
  define n where "n = nat (width - int (length ?ds))"
  have p: "printed base num width 32 = replicate n 32 @ map digit_char ?ds"
    by (simp add: printed_def n_def)
  have lt: "\<forall>d \<in> set ?ds. d < base" using digits_bound b(1) by simp
  obtain d ds where ds: "?ds = d # ds" using digits_length_pos [of base num] by (cases ?ds) auto
  have "bytes_at m a (replicate n 32)" "cstr m (a + n) (map digit_char ?ds)"
    using c unfolding p cstr_def by (simp_all add: bytes_at_append)
  note mm = this
  have d16: "d < 16" using lt ds b(2) by auto
  have first: "m (a + n) = digit_char d" using mm(2) ds by simp
  have second: "m (a + n + 1) \<noteq> 120"
  proof (cases ds)
    case Nil
    then show ?thesis using mm(2) ds by simp
  next
    case (Cons e es)
    then have "m (a + n + 1) = digit_char e" "e < 16" using mm(2) ds lt b(2) by auto
    then show ?thesis using digit_val_char by simp
  qed
  have sk: "skip_blanks m a = Some (a + n)"
    using mm(1) first digit_val_char [OF d16] by (intro skip_blanks_spec) auto
  have dg: "strtol_digits m (int base) (a + n) 0 = Some (a + n + length ?ds, of_nat num)"
    using strtol_digits_spec [OF mm(2) lt b(2), of 0] foldl_word [of base 0 ?ds] foldl_digits [OF b(1), of 0 num]
    by simp
  show ?thesis
    using sk dg b first second digit_val_char [OF d16] by (simp add: strtol_def p)
qed

section \<open>Guarantees\<close>

lemma digits_length:
  "2 \<le> base \<Longrightarrow> num < 2 ^ k \<Longrightarrow> length (digits base num) \<le> max 1 k"
proof (induction base num arbitrary: k rule: digits.induct)
  case (1 base num)
  show ?case
  proof (cases "base \<le> num")
    case True
    then obtain j where k: "k = Suc j" using "1.prems" by (cases k) auto
    have "num div base \<le> num div 2" using "1.prems"(1) by (intro div_le_mono2) auto
    then have "num div base < 2 ^ j" using "1.prems"(2) unfolding k power_Suc by linarith
    then have "length (digits base (num div base)) \<le> max 1 j" using "1.IH" True "1.prems"(1) by simp
    moreover have "0 < j"
    proof (rule ccontr)
      assume "\<not> 0 < j"
      then have "num < 2" using "1.prems"(2) k by simp
      then show False using True "1.prems"(1) by simp
    qed
    moreover have "digits base num = digits base (num div base) @ [num mod base]"
      using True "1.prems"(1) by (subst digits.simps) simp
    ultimately show ?thesis by (simp add: k)
  next
    case False
    then have "digits base num = [num mod base]" by (subst digits.simps) simp
    then show ?thesis by simp
  qed
qed

text \<open>
  C39: printing a number below $2^{63}$ in a base from 2 to 16, padded with blanks to any width above
  $-2^{31} + 64$ (a smaller one is decremented below the least \<open>int\<close>), ends, and \<open>strtol\<close> with this base
  reads the printed string to its end and returns the same number as a \<open>long\<close>.
\<close>

theorem printnum_strtol_roundtrip:
  assumes "2 \<le> base" "base \<le> 16" "num < 2 ^ 63" "- (2 ^ 31) + 64 \<le> width"
  shows "\<exists>out. printnum emit num base width 32 [] = Some out \<and>
           (\<forall>m a. cstr m a out \<longrightarrow>
              (\<exists>v. strtol m a (uint base) = Some (v, a + length out) \<and> sint v = uint num))"
proof -
  have b: "2 \<le> unat base" "unat base \<le> 16" using assms(1,2) by (simp_all add: word_le_nat_alt)
  have n: "unat num < 2 ^ 63" using assms(3) by (simp add: word_less_nat_alt)
  have "length (digits (unat base) (unat num)) \<le> max 1 63" by (rule digits_length [OF b(1) n])
  then have "width_ok (unat base) (unat num) width" using assms(4) by (simp add: width_ok_def)
  then have p: "printnum emit num base width 32 [] = Some (printed (unat base) (unat num) width 32)"
    by (simp add: printnum_spec [OF b(1)] fold_emit)
  have "uint num < 2 ^ 63" using assms(3) by (simp add: word_less_def)
  then have s: "sint num = uint num"
    unfolding sint_uint by (simp add: signed_take_bit_int_eq_self_iff) (rule order_trans [of _ 0], simp_all)
  show ?thesis using p strtol_printed [OF b] s by (intro exI [of _ "printed (unat base) (unat num) width 32"]) simp
qed

theorem printnum_strtol_roundtrip_witness:
  "\<exists>out. printnum emit 0x7FFFFFFFFFFFFFFF 16 20 32 [] = Some out \<and>
     (\<forall>m a. cstr m a out \<longrightarrow> (\<exists>v. strtol m a 16 = Some (v, a + length out) \<and> sint v = 2 ^ 63 - 1))"
  using printnum_strtol_roundtrip [of 16 "0x7FFFFFFFFFFFFFFF" 20] by simp

text \<open>
  \<open>memmove\<close> copies the old content of the source also when the two ranges overlap, in
  either direction, and changes no byte outside the destination.
\<close>

theorem memmove_copies_overlapping:
  "(\<forall>i < n. memmove d s n m (d + i) = m (s + i)) \<and>
   (\<forall>x. x < d \<or> d + n \<le> x \<longrightarrow> memmove d s n m x = m x)"
  using memmove_spec by blast

theorem memmove_copies_overlapping_witness:
  "memmove 11 10 3 ((\<lambda>_. 0)(10 := 1, 11 := 2, 12 := 3)) 13 = 3"
proof -
  let ?m = "(\<lambda>_. 0)(10 := 1, 11 := 2, 12 := 3) :: mem"
  have "memmove 11 10 3 ?m (11 + 2) = ?m (10 + 2)"
    by (rule conjunct1 [OF memmove_copies_overlapping, rule_format]) simp
  then show ?thesis by simp
qed

text \<open>
  On two zero-terminated strings \<open>strcmp\<close> ends; the result is zero exactly when they are
  equal and negative exactly when the first is smaller in the order of unsigned bytes.
\<close>

theorem strcmp_orders_strings:
  assumes "cstr m a xs" "cstr m b ys"
  shows "\<exists>r. strcmp m a b = Some r \<and> (r = 0 \<longleftrightarrow> xs = ys) \<and> (r < 0 \<longleftrightarrow> bytes_less xs ys)"
  using assms by (rule strcmp_spec)

theorem strcmp_orders_strings_witness:
  "\<exists>r. strcmp ((\<lambda>_. 0)(0 := 97, 8 := 97, 9 := 200)) 0 8 = Some r \<and> r < 0"
proof -
  let ?m = "(\<lambda>_. 0)(0 := 97, 8 := 97, 9 := 200) :: mem"
  have "cstr ?m 0 [97]" "cstr ?m 8 [97, 200]" by simp_all
  from strcmp_orders_strings [OF this] show ?thesis by auto
qed

end
