(* ===== verification/Format.thy ===== *)
theory Format
imports Printfmt ErrorCodes
begin

text \<open>
  The format interpreter \<open>vprintfmt\<close> of \<open>libs/printfmt.c\<close> and \<open>vsnprintf\<close>. A format is its list of
  bytes without the terminating zero, read by index, since an unknown escape makes the code step back.
  The arguments are the list of what \<open>va_arg\<close> delivers; a string argument is its content (it does not
  overlap the output), \<open>None\<close> for \<open>NULL\<close>. Running out of arguments, arguments of the wrong kind and an
  overflow of an \<open>int\<close> or \<open>long long\<close> of the interpreter (a field width that is too large or is decremented
  below the least \<open>int\<close>, the negation of the least value in \<open>%d\<close> and \<open>%e\<close>) are undefined behaviour and have
  no result.
\<close>

section \<open>The interpreter\<close>

datatype fmt_arg = Arg_int "64 word" | Arg_str "8 word list option"

record fmt_spec =
  sp_padc :: "8 word"
  sp_width :: int
  sp_precision :: int
  sp_lflag :: nat
  sp_altflag :: bool

fun arg_int :: "fmt_arg list \<Rightarrow> (64 word \<times> fmt_arg list) option" where
  "arg_int (Arg_int n # args) = Some (n, args)"
| "arg_int _ = None"

fun arg_str :: "fmt_arg list \<Rightarrow> (8 word list option \<times> fmt_arg list) option" where
  "arg_str (Arg_str p # args) = Some (p, args)"
| "arg_str _ = None"

definition getuint :: "nat \<Rightarrow> 64 word \<Rightarrow> 64 word" where
  "getuint lflag n = (if lflag = 0 then ucast (ucast n :: 32 word) else n)"

definition getint :: "nat \<Rightarrow> 64 word \<Rightarrow> int" where
  "getint lflag n = (if lflag = 0 then sint (ucast n :: 32 word) else sint n)"

definition fmt_at :: "8 word list \<Rightarrow> nat \<Rightarrow> 8 word option" where
  "fmt_at f i = (if i < length f then Some (f ! i) else if i = length f then Some 0 else None)"

definition error_string :: "int \<Rightarrow> 8 word list option" where
  "error_string e = map_option bytes_of_string (map_of
     [(E_UNSPECIFIED, ''unspecified error''), (E_BAD_PROC, ''bad process''), (E_INVAL, ''invalid parameter''),
      (E_NO_MEM, ''out of memory''), (E_NO_FREE_PROC, ''out of processes''), (E_FAULT, ''segmentation fault''),
      (E_INVAL_ELF, ''invalid elf file''), (E_KILLED, ''process is killed''), (E_PANIC, ''panic failure''),
      (E_NO_DEV, ''no such device''), (E_NA_DEV, ''device not available''), (E_BUSY, ''device/file is busy''),
      (E_NOENT, ''no such file or directory''), (E_ISDIR, ''is a directory''), (E_NOTDIR, ''not a directory''),
      (E_XDEV, ''cross device link''), (E_UNIMP, ''unimplemented feature''), (E_SEEK, ''illegal seek''),
      (E_MAX_OPEN, ''too many files are open''), (E_EXISTS, ''file or directory already exists''),
      (E_NOTEMPTY, ''directory is not empty'')] e)"

text \<open>
  The loop over the digits of a width; \<open>acc\<close> is \<open>precision\<close> so far. The sum \<open>precision * 10 + ch\<close> is
  an \<open>int\<close>.
\<close>

partial_function (option) fmt_number :: "8 word list \<Rightarrow> nat \<Rightarrow> int \<Rightarrow> (int \<times> nat) option" where
  "fmt_number f i acc =
     Option.bind (fmt_at f i) (\<lambda>ch.
       if ch < 48 \<or> ch > 57 then Some (acc, i)
       else if acc * 10 + uint ch \<ge> 2 ^ 31 then None
       else fmt_number f (i + 1) (acc * 10 + uint ch - 48))"

definition process_precision :: "int \<Rightarrow> fmt_spec \<Rightarrow> fmt_spec" where
  "process_precision n sp =
     (if sp_width sp < 0 then sp\<lparr>sp_width := n, sp_precision := - 1\<rparr> else sp\<lparr>sp_precision := n\<rparr>)"

text \<open>The flags of an escape, from \<open>reswitch\<close> on, up to the conversion character.\<close>

partial_function (option) fmt_escape ::
  "8 word list \<Rightarrow> nat \<Rightarrow> fmt_spec \<Rightarrow> fmt_arg list \<Rightarrow> (8 word \<times> nat \<times> fmt_spec \<times> fmt_arg list) option" where
  "fmt_escape f i sp args = Option.bind (fmt_at f i) (\<lambda>ch.
     if ch = chr CHR ''-'' then fmt_escape f (i + 1) (sp\<lparr>sp_padc := chr CHR ''-''\<rparr>) args
     else if ch = chr CHR ''0'' then fmt_escape f (i + 1) (sp\<lparr>sp_padc := chr CHR ''0''\<rparr>) args
     else if chr CHR ''1'' \<le> ch \<and> ch \<le> chr CHR ''9''
     then Option.bind (fmt_number f (i + 1) (uint ch - 48)) (\<lambda>(n, j). fmt_escape f j (process_precision n sp) args)
     else if ch = chr CHR ''*''
     then Option.bind (arg_int args) (\<lambda>(n, args). fmt_escape f (i + 1) (process_precision (getint 0 n) sp) args)
     else if ch = chr CHR ''.'' then fmt_escape f (i + 1) (if sp_width sp < 0 then sp\<lparr>sp_width := 0\<rparr> else sp) args
     else if ch = chr CHR ''#'' then fmt_escape f (i + 1) (sp\<lparr>sp_altflag := True\<rparr>) args
     else if ch = chr CHR ''l''
     then (if sp_lflag sp = 2 ^ 31 - 1 then None else fmt_escape f (i + 1) (sp\<lparr>sp_lflag := sp_lflag sp + 1\<rparr>) args)
     else Some (ch, i + 1, sp, args))"

text \<open>
  The conversion \<open>%s\<close>: padding on the left, the characters, padding on the right. Every character
  decrements the width.
\<close>

definition fmt_str :: "(8 word \<Rightarrow> 's \<Rightarrow> 's) \<Rightarrow> fmt_spec \<Rightarrow> 8 word list option \<Rightarrow> 's \<Rightarrow> 's option" where
  "fmt_str putch sp ptr s =
     (let p = (case ptr of None \<Rightarrow> bytes_of_string ''(null)'' | Some p \<Rightarrow> p);
          p = (if sp_precision sp < 0 then p else take (nat (sp_precision sp)) p);
          left = (sp_width sp > 0 \<and> sp_padc sp \<noteq> chr CHR ''-'');
          width = (if left then sp_width sp - int (length p) else sp_width sp);
          s = (if left then pad_loop putch (sp_padc sp) (nat width) s else s);
          width = (if left \<and> width > 0 then 0 else width);
          s = fold putch (map (\<lambda>ch. if sp_altflag sp \<and> (ch < 32 \<or> ch > 126) then chr CHR ''?'' else ch) p) s
      in if width - int (length p) < - (2 ^ 31) then None
         else Some (pad_loop putch (chr CHR '' '') (nat (width - int (length p))) s))"

text \<open>The other conversions; \<open>None\<close> inside is an unknown conversion character.\<close>

definition fmt_convert ::
  "(8 word \<Rightarrow> 's \<Rightarrow> 's) \<Rightarrow> 8 word \<Rightarrow> fmt_spec \<Rightarrow> fmt_arg list \<Rightarrow> 's \<Rightarrow> (fmt_arg list \<times> 's) option option" where
  "fmt_convert putch ch sp args s =
     (let number = (\<lambda>num base s. printnum putch num base (sp_width sp) (sp_padc sp) s) in
      if ch = chr CHR ''c'' then map_option (\<lambda>(n, args). Some (args, putch (ucast n) s)) (arg_int args)
      else if ch = chr CHR ''s'' then do {
        (p, args) \<leftarrow> arg_str args;
        s \<leftarrow> fmt_str putch sp p s;
        Some (Some (args, s))
      }
      else if ch = chr CHR ''d'' then do {
        (n, args) \<leftarrow> arg_int args;
        let v = getint (sp_lflag sp) n;
        s \<leftarrow> (if v = - (2 ^ 63) then None
             else if v < 0 then number (- word_of_int v) 10 (putch (chr CHR ''-'') s) else number (word_of_int v) 10 s);
        Some (Some (args, s))
      }
      else if ch = chr CHR ''u'' \<or> ch = chr CHR ''o'' \<or> ch = chr CHR ''x'' then do {
        (n, args) \<leftarrow> arg_int args;
        s \<leftarrow> number (getuint (sp_lflag sp) n)
          (if ch = chr CHR ''u'' then 10 else if ch = chr CHR ''o'' then 8 else 16) s;
        Some (Some (args, s))
      }
      else if ch = chr CHR ''p'' then do {
        (n, args) \<leftarrow> arg_int args;
        s \<leftarrow> number n 16 (putch (chr CHR ''x'') (putch (chr CHR ''0'') s));
        Some (Some (args, s))
      }
      else if ch = chr CHR ''%'' then Some (Some (args, putch ch s))
      else Some None)"

text \<open>\<open>for (fmt --; fmt[-1] != '%'; fmt --)\<close>\<close>

fun fmt_back :: "8 word list \<Rightarrow> nat \<Rightarrow> nat option" where
  "fmt_back f 0 = None"
| "fmt_back f (Suc k) = (if fmt_at f k = Some (chr CHR ''%'') then Some (Suc k) else fmt_back f k)"

text \<open>The main loop from index \<open>i\<close> on.\<close>

partial_function (option) vprintfmt ::
  "(8 word \<Rightarrow> 's \<Rightarrow> 's) \<Rightarrow> 8 word list \<Rightarrow> nat \<Rightarrow> fmt_arg list \<Rightarrow> 's \<Rightarrow> 's option" where
  "vprintfmt putch f i args s = Option.bind (fmt_at f i) (\<lambda>ch.
     if ch \<noteq> chr CHR ''%'' then (if ch = 0 then Some s else vprintfmt putch f (i + 1) args (putch ch s))
     else Option.bind (fmt_escape f (i + 1) \<lparr>sp_padc = chr CHR '' '', sp_width = - 1, sp_precision = - 1, sp_lflag = 0,
         sp_altflag = False\<rparr> args) (\<lambda>(ch, j, sp, args).
       if ch = chr CHR ''e''
       then Option.bind (arg_int args) (\<lambda>(n, args).
         if getint 0 n = - (2 ^ 31) then None
         else let err = \<bar>getint 0 n\<bar> in
         Option.bind
           (case (if err > MAXERROR then None else error_string err) of
              None \<Rightarrow> vprintfmt putch (bytes_of_string ''error %d'') 0 [Arg_int (of_int err)] s
            | Some p \<Rightarrow> vprintfmt putch (bytes_of_string ''%s'') 0 [Arg_str (Some p)] s)
           (\<lambda>s. vprintfmt putch f j args s))
       else Option.bind (fmt_convert putch ch sp args s) (\<lambda>r.
         case r of
           Some (args, s) \<Rightarrow> vprintfmt putch f j args s
         | None \<Rightarrow> Option.bind (fmt_back f (j - 1)) (\<lambda>k. vprintfmt putch f k args (putch (chr CHR ''%'') s)))))"

definition vsnprintf :: "nat \<Rightarrow> nat \<Rightarrow> 8 word list \<Rightarrow> fmt_arg list \<Rightarrow> mem \<Rightarrow> (int \<times> mem) option" where
  "vsnprintf str sz f args m =
     (if str = 0 \<or> str > str + sz - 1 then Some (- E_INVAL, m)
      else do {
        b \<leftarrow> vprintfmt sprintputch f 0 args \<lparr>buf = str, ebuf = str + sz - 1, cnt = 0, bmem = m\<rparr>;
        Some (sint (cnt b), (bmem b)(buf b := 0))
      })"

section \<open>The output does not depend on where it goes\<close>

lemma fmt_str_fold: "fmt_str putch sp p s = map_option (\<lambda>out. fold putch out s) (fmt_str emit sp p [])"
  by (simp add: fmt_str_def Let_def pad_loop_fold fold_emit del: fold_replicate)

lemma fmt_convert_fold:
  "fmt_convert putch ch sp args s =
     map_option (map_option (\<lambda>(args, out). (args, fold putch out s))) (fmt_convert emit ch sp args [])"
  by (cases "arg_int args"; cases "arg_str args")
    (simp_all add: fmt_convert_def Let_def printnum_spec fold_emit fmt_str_fold [of putch] case_prod_beta
      bind_map_option map_option_bind comp_def split: prod.split,
      simp_all add: emit_def)

text \<open>One run determines, for all ways of putting characters, the same output \<open>out\<close>.\<close>

lemma vprintfmt_output:
  fixes putch :: "8 word \<Rightarrow> 's \<Rightarrow> 's" and putch' :: "8 word \<Rightarrow> 't \<Rightarrow> 't"
  assumes "vprintfmt putch f i args s = Some y"
  shows "\<exists>out. y = fold putch out s \<and> (\<forall>s'. vprintfmt putch' f i args s' = Some (fold putch' out s'))"
proof (rule vprintfmt.raw_induct [of "\<lambda>putch f i args s y. \<exists>out. y = fold putch out s \<and>
      (\<forall>s'. vprintfmt putch' f i args s' = Some (fold putch' out s'))", OF _ assms])
  fix loop :: "(8 word \<Rightarrow> 's \<Rightarrow> 's) \<Rightarrow> 8 word list \<Rightarrow> nat \<Rightarrow> fmt_arg list \<Rightarrow> 's \<Rightarrow> 's option"
    and putch :: "8 word \<Rightarrow> 's \<Rightarrow> 's" and f i args s y
  let ?spec = "\<lparr>sp_padc = chr CHR '' '', sp_width = - 1, sp_precision = - 1, sp_lflag = 0, sp_altflag = False\<rparr>"
  let ?Q = "\<lambda>f i args s y. \<exists>out. y = fold putch out s \<and> (\<forall>s'. vprintfmt putch' f i args s' = Some (fold putch' out s'))"
  assume IH: "\<And>putch f i args s y. loop putch f i args s = Some y \<Longrightarrow> \<exists>out. y = fold putch out s \<and>
      (\<forall>s'. vprintfmt putch' f i args s' = Some (fold putch' out s'))"
  assume run: "Option.bind (fmt_at f i) (\<lambda>ch.
     if ch \<noteq> chr CHR ''%'' then (if ch = 0 then Some s else loop putch f (i + 1) args (putch ch s))
     else Option.bind (fmt_escape f (i + 1) ?spec args) (\<lambda>(ch, j, sp, args).
       if ch = chr CHR ''e''
       then Option.bind (arg_int args) (\<lambda>(n, args).
         if getint 0 n = - (2 ^ 31) then None
         else let err = \<bar>getint 0 n\<bar> in
         Option.bind
           (case (if err > MAXERROR then None else error_string err) of
              None \<Rightarrow> loop putch (bytes_of_string ''error %d'') 0 [Arg_int (of_int err)] s
            | Some p \<Rightarrow> loop putch (bytes_of_string ''%s'') 0 [Arg_str (Some p)] s)
           (\<lambda>s. loop putch f j args s))
       else Option.bind (fmt_convert putch ch sp args s) (\<lambda>r.
         case r of
           Some (args, s) \<Rightarrow> loop putch f j args s
         | None \<Rightarrow> Option.bind (fmt_back f (j - 1)) (\<lambda>k. loop putch f k args (putch (chr CHR ''%'') s))))) = Some y"
  then obtain ch where ch: "fmt_at f i = Some ch" by (auto simp: bind_eq_Some_conv)
  show "?Q f i args s y"
  proof (cases "ch = chr CHR ''%''")
    case False
    show ?thesis
    proof (cases "ch = 0")
      case True
      then show ?thesis using run ch False by (intro exI [of _ "[]"]) (subst vprintfmt.simps, simp)
    next
      case nz: False
      then have "loop putch f (i + 1) args (putch ch s) = Some y" using run ch False by simp
      from IH [OF this] obtain out where o: "y = fold putch out (putch ch s)"
        "\<forall>s'. vprintfmt putch' f (i + 1) args s' = Some (fold putch' out s')" by blast
      show ?thesis using o by (intro exI [of _ "ch # out"]) (subst vprintfmt.simps, simp add: ch False nz)
    qed
  next
    case pc: True
    then obtain c j sp as where e: "fmt_escape f (i + 1) ?spec args = Some (c, j, sp, as)"
      using run ch by (auto simp: bind_eq_Some_conv)
    show ?thesis
    proof (cases "c = chr CHR ''e''")
      case True
      then obtain n as' where n: "arg_int as = Some (n, as')" "getint 0 n \<noteq> - (2 ^ 31)"
        using run ch pc e by (auto simp: bind_eq_Some_conv split: if_splits)
      let ?err = "\<bar>getint 0 n\<bar>"
      let ?f = "case (if ?err > MAXERROR then None else error_string ?err) of
          None \<Rightarrow> bytes_of_string ''error %d'' | Some p \<Rightarrow> bytes_of_string ''%s''"
      let ?a = "case (if ?err > MAXERROR then None else error_string ?err) of
          None \<Rightarrow> [Arg_int (of_int ?err)] | Some p \<Rightarrow> [Arg_str (Some p)]"
      have "Option.bind (loop putch ?f 0 ?a s) (\<lambda>s. loop putch f j as' s) = Some y"
        using run ch pc e True n by (simp add: Let_def split: option.splits if_splits)
      then obtain t where t: "loop putch ?f 0 ?a s = Some t" "loop putch f j as' t = Some y"
        by (auto simp: bind_eq_Some_conv)
      from IH [OF t(1)] obtain o1 where o1: "t = fold putch o1 s"
        "\<forall>s'. vprintfmt putch' ?f 0 ?a s' = Some (fold putch' o1 s')" by blast
      from IH [OF t(2)] obtain o2 where o2: "y = fold putch o2 t"
        "\<forall>s'. vprintfmt putch' f j as' s' = Some (fold putch' o2 s')" by blast
      show ?thesis
        using o1 o2 by (intro exI [of _ "o1 @ o2"])
          (subst vprintfmt.simps, simp add: ch pc e e [simplified] True n n(2) [simplified] Let_def split: option.splits if_splits)
    next
      case ne: False
      then obtain r where r: "fmt_convert putch c sp as s = Some r" using run ch pc e by (auto simp: bind_eq_Some_conv)
      then obtain r0 where r0: "fmt_convert emit c sp as [] = Some r0"
        "r = map_option (\<lambda>(as, out). (as, fold putch out s)) r0" by (subst (asm) fmt_convert_fold) auto
      then have r': "fmt_convert putch' c sp as s' = Some (map_option (\<lambda>(as, out). (as, fold putch' out s')) r0)" for s'
        by (subst fmt_convert_fold) simp
      show ?thesis
      proof (cases r0)
        case None
        then obtain k where k: "fmt_back f (j - 1) = Some k" "loop putch f k as (putch (chr CHR ''%'') s) = Some y"
          using run ch pc e ne r r0(2) by (auto simp: bind_eq_Some_conv)
        from IH [OF k(2)] obtain out where o: "y = fold putch out (putch (chr CHR ''%'') s)"
          "\<forall>s'. vprintfmt putch' f k as s' = Some (fold putch' out s')" by blast
        show ?thesis using o
          by (intro exI [of _ "chr CHR ''%'' # out"]) (subst vprintfmt.simps, simp add: ch pc e e [simplified] ne r' None k(1) k(1) [simplified])
      next
        case (Some q)
        obtain as' o1 where q: "q = (as', o1)" by (cases q)
        then have "loop putch f j as' (fold putch o1 s) = Some y" using run ch pc e ne r r0(2) Some by simp
        from IH [OF this] obtain o2 where o2: "y = fold putch o2 (fold putch o1 s)"
          "\<forall>s'. vprintfmt putch' f j as' s' = Some (fold putch' o2 s')" by blast
        show ?thesis using o2
          by (intro exI [of _ "o1 @ o2"]) (subst vprintfmt.simps, simp add: ch pc e e [simplified] ne r' Some q)
      qed
    qed
  qed
qed

definition formatted :: "8 word list \<Rightarrow> fmt_arg list \<Rightarrow> 8 word list option" where
  "formatted f args = vprintfmt emit f 0 args []"

lemma vprintfmt_formatted: "vprintfmt putch f 0 args s = map_option (\<lambda>out. fold putch out s) (formatted f args)"
proof (cases "formatted f args")
  case None
  then show ?thesis
    using vprintfmt_output [where putch = putch and putch' = emit and f = f and i = 0 and args = args and s = s]
    by (cases "vprintfmt putch f 0 args s") (auto simp: formatted_def)
next
  case (Some out)
  then obtain o' where "out = fold emit o' []" "\<forall>s'. vprintfmt putch f 0 args s' = Some (fold putch o' s')"
    using vprintfmt_output [where putch = emit and putch' = putch and f = f and i = 0 and args = args]
    unfolding formatted_def by blast
  then show ?thesis using Some by (simp add: fold_emit)
qed

lemma fold_sprintputch:
  assumes "buf b \<le> ebuf b"
  shows "fold sprintputch out b = b\<lparr>buf := buf b + length (take (ebuf b - buf b) out), cnt := cnt b + of_nat (length out),
     bmem := \<lambda>x. if buf b \<le> x \<and> x < buf b + length (take (ebuf b - buf b) out) then out ! (x - buf b) else bmem b x\<rparr>"
  using assms
proof (induction out arbitrary: b)
  case (Cons c out)
  show ?case
  proof (cases "buf b < ebuf b")
    case True
    let ?b = "b\<lparr>cnt := cnt b + 1, bmem := (bmem b)(buf b := c), buf := buf b + 1\<rparr>"
    have "sprintputch c b = ?b" using True by (simp add: sprintputch_def Let_def)
    moreover have "buf ?b \<le> ebuf ?b" using True by simp
    ultimately show ?thesis using Cons.IH [of ?b] True
      by (auto simp: nth_Cons' fun_eq_iff intro!: sprintbuf.equality)
  next
    case False
    then have "sprintputch c b = b\<lparr>cnt := cnt b + 1\<rparr>" by (simp add: sprintputch_def Let_def)
    then show ?thesis using Cons.IH [of "b\<lparr>cnt := cnt b + 1\<rparr>"] Cons.prems False
      by (auto simp: fun_eq_iff intro!: sprintbuf.equality)
  qed
qed (auto simp: fun_eq_iff intro!: sprintbuf.equality)

definition text_at :: "nat \<Rightarrow> 8 word list \<Rightarrow> mem \<Rightarrow> mem" where
  "text_at a text m = (\<lambda>x. if a \<le> x \<and> x < a + length text then text ! (x - a) else m x)"

lemma text_at_cstr: "0 \<notin> set text \<Longrightarrow> cstr (text_at a (text @ [0]) m) a text"
  by (simp add: cstr_def bytes_at_def text_at_def)

lemma text_at_terminated:
  "(\<lambda>x. if a \<le> x \<and> x < a + length (take k out) then out ! (x - a) else m x)(a + length (take k out) := 0) =
     text_at a (take k out @ [0]) m"
proof
  fix x
  consider "x < a" | "a \<le> x" "x - a < length (take k out)" | "x = a + length (take k out)" | "a + length (take k out) < x"
    by linarith
  then show "((\<lambda>x. if a \<le> x \<and> x < a + length (take k out) then out ! (x - a) else m x)(a + length (take k out) := 0)) x =
      text_at a (take k out @ [0]) m x"
    by cases (auto simp: text_at_def nth_append)
qed

lemma sint_of_nat32: "n < 2 ^ 31 \<Longrightarrow> sint (of_nat n :: 32 word) = int n"
  by (simp add: signed_of_nat signed_take_bit_int_eq_self_iff)

lemma vsnprintf_spec:
  assumes "str \<noteq> 0" "0 < sz"
  shows "vsnprintf str sz f args m =
    map_option (\<lambda>out. (sint (of_nat (length out) :: 32 word), text_at str (take (sz - 1) out @ [0]) m)) (formatted f args)"
proof -
  let ?b = "\<lparr>buf = str, ebuf = str + sz - 1, cnt = 0, bmem = m\<rparr>"
  have "\<not> (str = 0 \<or> str > str + sz - 1)" using assms by simp
  moreover have "buf ?b \<le> ebuf ?b" using assms by simp
  note fold_sprintputch [OF this]
  moreover have "str + sz - 1 - str = sz - 1" by simp
  ultimately show ?thesis
    unfolding vsnprintf_def vprintfmt_formatted
    by (cases "formatted f args") (simp_all only: option.map bind.simps if_False sprintbuf.simps add_0 text_at_terminated)
qed

text \<open>Equations for evaluation.\<close>

lemma bind_case: "Option.bind x g = (case x of None \<Rightarrow> None | Some y \<Rightarrow> g y)"
  by (cases x) simp_all

lemmas fmt_eval =
  vprintfmt.simps [unfolded bind_case] fmt_escape.simps [unfolded bind_case] fmt_number.simps [unfolded bind_case]

section \<open>Guarantees\<close>

text \<open>
  C40: the bounded formatter against the unbounded one. \<open>vsnprintf\<close> into a buffer of \<open>sz\<close> bytes returns
  exactly for the formats and arguments for which formatting into an unbounded list does (the others are
  undefined behaviour). It leaves in the buffer the first \<open>sz - 1\<close> characters of the text and a zero byte,
  and no byte behind them, nor any byte outside the buffer, is changed. The result is the length of the
  whole text, when this length is an \<open>int\<close>.
\<close>

theorem vsnprintf_truncates:
  assumes "str \<noteq> 0" "0 < sz"
  shows "case formatted f args of
      None \<Rightarrow> vsnprintf str sz f args m = None
    | Some out \<Rightarrow> \<exists>r m'. vsnprintf str sz f args m = Some (r, m') \<and>
        (length out < 2 ^ 31 \<longrightarrow> r = int (length out)) \<and>
        (0 \<notin> set (take (sz - 1) out) \<longrightarrow> cstr m' str (take (sz - 1) out)) \<and>
        (\<forall>x. x < str \<or> str + min sz (length out + 1) \<le> x \<longrightarrow> m' x = m x)"
proof (cases "formatted f args")
  case (Some out)
  have "text_at str (take (sz - 1) out @ [0]) m x = m x" if "x < str \<or> str + min sz (length out + 1) \<le> x" for x
    using that assms(2) by (auto simp: text_at_def)
  then show ?thesis using Some by (simp add: vsnprintf_spec [OF assms] text_at_cstr sint_of_nat32)
qed (simp add: vsnprintf_spec [OF assms])

theorem vsnprintf_truncates_witness:
  "\<exists>m'. vsnprintf 100 5 (bytes_of_string ''<null> %d'') [Arg_int (- 12)] (\<lambda>_. 7) = Some (10, m') \<and>
     cstr m' 100 (bytes_of_string ''<nul'') \<and> m' 105 = 7"
proof -
  have "digits 10 12 = [1, 2]" by (subst digits.simps, subst digits.simps) simp
  then have n: "printnum putch 12 10 (- 1) c s = Some (putch 50 (putch 49 s))" for putch :: "8 word \<Rightarrow> 's \<Rightarrow> 's" and c s
    by (simp add: printnum_spec printed_def digit_char_def width_ok_def)
  have "getint 0 (- 12) = - 12" by (simp add: getint_def)
  then have "formatted (bytes_of_string ''<null> %d'') [Arg_int (- 12)] = Some (bytes_of_string ''<null> -12'')"
    unfolding formatted_def
    by (simp add: fmt_eval fmt_at_def bytes_of_string_def chr_def fmt_convert_def n) (simp add: emit_def)
  then show ?thesis using vsnprintf_truncates [of 100 5 "bytes_of_string ''<null> %d''" "[Arg_int (- 12)]" "\<lambda>_. 7"]
    by (auto simp: bytes_of_string_def chr_def)
qed

end
