(* ===== verification/Exec.thy ===== *)
theory Exec
imports Sysfile Format
begin

text \<open>
  Program execution in \<open>kern/process/proc.c\<close>: \<open>load_icode_read\<close>, \<open>load_icode\<close>, \<open>copy_kargv\<close>,
  \<open>put_kargv\<close> and \<open>do_execve\<close>, with the ELF headers of \<open>libs/elf.h\<close>.

  A page that \<open>pgdir_alloc_page\<close> gives is filled through its kernel address, in \<open>umem\<close>; \<open>frames\<close> holds
  the page tables. \<open>exec_mem\<close> has the results of the calls of \<open>kmalloc\<close> in \<open>mm_create\<close> and
  \<open>vma_create\<close>; \<open>elf_at\<close> and \<open>lname\<close> are the addresses of the local variables \<open>elf\<close> and \<open>local_name\<close>
  on the kernel stack, and \<open>sstatus\<close> is what \<open>read_csr\<close> reads.
\<close>

record elfhdr =
  e_magic :: "32 word"
  e_entry :: "64 word"
  e_phoff :: "64 word"
  e_phnum :: nat

record proghdr =
  p_type :: "32 word"
  p_flags :: "32 word"
  p_offset :: "64 word"
  p_va :: "64 word"
  p_filesz :: "64 word"
  p_memsz :: "64 word"

record exec_mem =
  xm_mm :: "nat option"
  xm_vmas :: "nat option list"

definition ELF_MAGIC :: "32 word" where "ELF_MAGIC = 0x464C457F"
definition ELF_PT_LOAD :: "32 word" where "ELF_PT_LOAD = 1"
definition ELF_PF_X :: "32 word" where "ELF_PF_X = 1"
definition ELF_PF_W :: "32 word" where "ELF_PF_W = 2"
definition ELF_PF_R :: "32 word" where "ELF_PF_R = 4"
definition USTACKPAGE :: "64 word" where "USTACKPAGE = 256"
definition USTACKSIZE :: "64 word" where "USTACKSIZE = USTACKPAGE * PGSIZE"
definition USTACKTOP :: "64 word" where "USTACKTOP = USERTOP"
definition EXEC_MAX_ARG_NUM :: int where "EXEC_MAX_ARG_NUM = 32"
definition EXEC_MAX_ARG_LEN :: nat where "EXEC_MAX_ARG_LEN = 4095"
definition sizeof_elfhdr :: "64 word" where "sizeof_elfhdr = 64"
definition sizeof_proghdr :: nat where "sizeof_proghdr = 56"

text \<open>Numbers and headers in memory, at the offsets of the structures.\<close>

definition le_at :: "mem \<Rightarrow> 64 word \<Rightarrow> nat \<Rightarrow> nat" where
  "le_at m a n = of_le (load_bytes m a n)"

definition elfhdr_at :: "mem \<Rightarrow> 64 word \<Rightarrow> elfhdr" where
  "elfhdr_at m a = \<lparr>e_magic = of_nat (le_at m a 4), e_entry = of_nat (le_at m (a + 24) 8),
     e_phoff = of_nat (le_at m (a + 32) 8), e_phnum = le_at m (a + 56) 2\<rparr>"

definition proghdr_at :: "mem \<Rightarrow> 64 word \<Rightarrow> proghdr" where
  "proghdr_at m a = \<lparr>p_type = of_nat (le_at m a 4), p_flags = of_nat (le_at m (a + 4) 4),
     p_offset = of_nat (le_at m (a + 8) 8), p_va = of_nat (le_at m (a + 16) 8),
     p_filesz = of_nat (le_at m (a + 32) 8), p_memsz = of_nat (le_at m (a + 40) 8)\<rparr>"

definition page_addr :: "machine \<Rightarrow> nat \<Rightarrow> 64 word option" where
  "page_addr h page = do { k \<leftarrow> page2kva h page; Some (push_bit 12 (of_nat k) + PHYSICAL_MEMORY_OFFSET) }"

section \<open>Loading a program\<close>

definition load_icode_read ::
  "(nat \<Rightarrow> devices inode_ops) \<Rightarrow> int \<Rightarrow> 64 word \<Rightarrow> 64 word \<Rightarrow> 64 word \<Rightarrow> 'a sysmem_scheme \<Rightarrow>
   (int \<times> 'a sysmem_scheme) option" where
  "load_icode_read ops n b len offset s = do {
     (ret, s) \<leftarrow> sysfile_seek ops n (sint offset) LSEEK_SET s;
     (if ret \<noteq> 0 then Some (ret, s)
      else do {
        (ret, s) \<leftarrow> sysfile_read ops n b len s;
        Some (if word_of_int ret \<noteq> len then (if ret < 0 then ret else - 1) else 0, s)
      })
   }"

definition seg_vm_flags :: "proghdr \<Rightarrow> 32 word" where
  "seg_vm_flags ph =
     or (if and (p_flags ph) ELF_PF_X \<noteq> 0 then VM_EXEC else 0)
       (or (if and (p_flags ph) ELF_PF_W \<noteq> 0 then VM_WRITE else 0)
         (if and (p_flags ph) ELF_PF_R \<noteq> 0 then VM_READ else 0))"

definition seg_perm :: "32 word \<Rightarrow> 32 word" where
  "seg_perm fl =
     ucast (or (or PTE_U PTE_V) (or (if and fl VM_READ \<noteq> 0 then PTE_R else 0)
       (or (if and fl VM_WRITE \<noteq> 0 then or PTE_W PTE_R else 0) (if and fl VM_EXEC \<noteq> 0 then PTE_X else 0))))"

text \<open>A page of the new address space \<open>d\<close> for the address \<open>la\<close>: its kernel address, or \<open>NULL\<close>.\<close>

definition seg_page :: "nat \<Rightarrow> 32 word \<Rightarrow> 64 word \<Rightarrow> 'a sysmem_scheme \<Rightarrow> (64 word option \<times> 'a sysmem_scheme) option" where
  "seg_page d perm la s = do {
     (r, h) \<leftarrow> pgdir_alloc_page d la perm (mach (memory s));
     let s = s\<lparr>memory := upd_mach h (memory s)\<rparr>;
     (case r of
        None \<Rightarrow> Some (None, s)
      | Some page \<Rightarrow> do { a \<leftarrow> page_addr h page; Some (Some a, s) })
   }"

text \<open>
  The loop over the part of a segment that is in the file. The result says whether \<open>bad_cleanup_mmap\<close> is
  reached, with \<open>ret\<close>, \<open>start\<close> and the state; a failing \<open>pgdir_alloc_page\<close> leaves \<open>ret\<close> as it was.
\<close>

partial_function (option) seg_file_loop ::
  "(nat \<Rightarrow> devices inode_ops) \<Rightarrow> int \<Rightarrow> nat \<Rightarrow> 32 word \<Rightarrow> proghdr \<Rightarrow> 64 word \<Rightarrow> int \<Rightarrow> 64 word \<Rightarrow> 64 word \<Rightarrow>
   'a sysmem_scheme \<Rightarrow> (bool \<times> int \<times> 64 word \<times> 'a sysmem_scheme) option" where
  "seg_file_loop ops n d perm ph end_file ret start la s =
     (if start < end_file
      then Option.bind (seg_page d perm la s) (\<lambda>(r, s).
        case r of
          None \<Rightarrow> Some (True, ret, start, s)
        | Some a \<Rightarrow>
            (let off = start - la;
                 toread = (if end_file < la + PGSIZE then end_file - la - off else PGSIZE - off)
             in Option.bind (load_icode_read ops n (a + off) toread (p_offset ph + (start - p_va ph)) s) (\<lambda>(ret, s).
               if ret \<noteq> 0 then Some (True, ret, start, s)
               else seg_file_loop ops n d perm ph end_file ret (start + toread) (la + PGSIZE) s)))
      else Some (False, ret, start, s))"

definition zero_mem :: "64 word \<Rightarrow> 64 word \<Rightarrow> 'a sysmem_scheme \<Rightarrow> 'a sysmem_scheme" where
  "zero_mem a n s = s\<lparr>umem := memset (unat a) 0 (unat n) (umem s)\<rparr>"

partial_function (option) seg_zero_loop ::
  "nat \<Rightarrow> 32 word \<Rightarrow> 64 word \<Rightarrow> 64 word \<Rightarrow> 64 word \<Rightarrow> 'a sysmem_scheme \<Rightarrow> (bool \<times> 'a sysmem_scheme) option" where
  "seg_zero_loop d perm end_mem start page_la s =
     (if start < end_mem
      then Option.bind (seg_page d perm page_la s) (\<lambda>(r, s).
        case r of
          None \<Rightarrow> Some (True, s)
        | Some a \<Rightarrow>
            (let zerolen = (if end_mem < page_la + PGSIZE then end_mem - page_la else PGSIZE)
             in seg_zero_loop d perm end_mem (start + zerolen) (page_la + PGSIZE) (zero_mem a zerolen s)))
      else Some (False, s))"

text \<open>The part of a segment after the file, from \<open>start\<close> on.\<close>

definition seg_zero ::
  "nat \<Rightarrow> 32 word \<Rightarrow> 64 word \<Rightarrow> 64 word \<Rightarrow> 'a sysmem_scheme \<Rightarrow> (bool \<times> 'a sysmem_scheme) option" where
  "seg_zero d perm end_mem start s =
     (if start < end_mem
      then
        let page_la = ROUNDDOWN start PGSIZE; off = start - page_la in
        if off \<noteq> 0
        then do {
          (r, s) \<leftarrow> seg_page d perm page_la s;
          (case r of
             None \<Rightarrow> Some (True, s)
           | Some a \<Rightarrow>
               let zerolen = (if end_mem < page_la + PGSIZE then end_mem - start else PGSIZE - off)
               in seg_zero_loop d perm end_mem (start + zerolen) (page_la + PGSIZE) (zero_mem (a + off) zerolen s))
        }
        else seg_zero_loop d perm end_mem start page_la s
      else Some (False, s))"

text \<open>One program header: whether loading failed, \<open>ret\<close> and the state.\<close>

definition load_segment ::
  "(nat \<Rightarrow> devices inode_ops) \<Rightarrow> int \<Rightarrow> nat \<Rightarrow> nat option \<Rightarrow> proghdr \<Rightarrow> int \<Rightarrow> 'a sysmem_scheme \<Rightarrow>
   (bool \<times> int \<times> 'a sysmem_scheme) option" where
  "load_segment ops n m kvma ph ret s =
     (if p_filesz ph > p_memsz ph then Some (True, - E_INVAL_ELF, s)
      else do {
        let fl = seg_vm_flags ph;
        let perm = seg_perm fl;
        (ret, v, u) \<leftarrow> mm_map kvma m (p_va ph) (p_memsz ph) fl (memory s);
        let s = s\<lparr>memory := u\<rparr>;
        let d = unat (mm_pgdir (mms u m));
        (if ret \<noteq> 0 then Some (True, ret, s)
         else do {
           (bad, ret, start, s) \<leftarrow> seg_file_loop ops n d perm ph (p_va ph + p_filesz ph) ret (p_va ph)
               (ROUNDDOWN (p_va ph) PGSIZE) s;
           (if bad then Some (True, ret, s)
            else do { (bad, s) \<leftarrow> seg_zero d perm (p_va ph + p_memsz ph) start s; Some (bad, ret, s) })
         })
      })"

text \<open>The loop over the program headers from \<open>ph\<close> on; the number is how many are left.\<close>

fun load_segments ::
  "(nat \<Rightarrow> devices inode_ops) \<Rightarrow> int \<Rightarrow> nat \<Rightarrow> nat option list \<Rightarrow> 64 word \<Rightarrow> nat \<Rightarrow> int \<Rightarrow> 'a sysmem_scheme \<Rightarrow>
   (bool \<times> int \<times> nat option list \<times> 'a sysmem_scheme) option" where
  "load_segments ops n m ks ph 0 ret s = Some (False, ret, ks, s)"
| "load_segments ops n m ks ph (Suc k) ret s =
     (let h = proghdr_at (umem s) ph; next_ph = ph + of_nat sizeof_proghdr in
      if p_type h \<noteq> ELF_PT_LOAD then load_segments ops n m ks next_ph k ret s
      else do {
        (bad, ret, s) \<leftarrow> load_segment ops n m (case ks of [] \<Rightarrow> None | v # _ \<Rightarrow> v) h ret s;
        (if bad then Some (True, ret, ks, s) else load_segments ops n m (tl ks) next_ph k ret s)
      })"

text \<open>The labels at the end of \<open>load_icode\<close>.\<close>

definition bad_pgdir_cleanup_mm :: "nat \<Rightarrow> int \<Rightarrow> 'a sysmem_scheme \<Rightarrow> (int \<times> 'a sysmem_scheme) option" where
  "bad_pgdir_cleanup_mm m ret s = do { u \<leftarrow> mm_destroy m (memory s); Some (ret, s\<lparr>memory := u\<rparr>) }"

definition bad_elf_cleanup_pgdir :: "nat \<Rightarrow> int \<Rightarrow> 'a sysmem_scheme \<Rightarrow> (int \<times> 'a sysmem_scheme) option" where
  "bad_elf_cleanup_pgdir m ret s = do { u \<leftarrow> put_pgdir m (memory s); bad_pgdir_cleanup_mm m ret (s\<lparr>memory := u\<rparr>) }"

definition kfree_opt :: "64 word option \<Rightarrow> 'a sysmem_scheme \<Rightarrow> 'a sysmem_scheme" where
  "kfree_opt b s = (case b of None \<Rightarrow> s | Some a \<Rightarrow> kfree_buf a s)"

definition bad_cleanup_mmap :: "64 word option \<Rightarrow> nat \<Rightarrow> int \<Rightarrow> 'a sysmem_scheme \<Rightarrow> (int \<times> 'a sysmem_scheme) option" where
  "bad_cleanup_mmap phbuf m ret s = do {
     let s = kfree_opt phbuf s;
     u \<leftarrow> exit_mmap m (memory s);
     bad_elf_cleanup_pgdir m ret (s\<lparr>memory := u\<rparr>)
   }"

text \<open>The user stack: its area, and four pages that must be there.\<close>

definition stack_page :: "nat \<Rightarrow> 64 word \<Rightarrow> 'a sysmem_scheme \<Rightarrow> 'a sysmem_scheme option" where
  "stack_page m la s = do {
     (r, h) \<leftarrow> pgdir_alloc_page (unat (mm_pgdir (mms (memory s) m))) la (ucast PTE_USER) (mach (memory s));
     kassert (r \<noteq> None);
     Some (s\<lparr>memory := upd_mach h (memory s)\<rparr>)
   }"

definition user_frame :: "64 word \<Rightarrow> 64 word \<Rightarrow> trapframe" where
  "user_frame sstatus epc =
     \<lparr>gpr = (\<lambda>_. 0)(R_sp := USTACKTOP), tf_status = and (or (and sstatus (not 0x100)) 0x20) (not 0x2),
      tf_epc = epc, tf_tval = 0, tf_cause = 0\<rparr>"

definition load_image ::
  "(nat \<Rightarrow> devices inode_ops) \<Rightarrow> 64 word \<Rightarrow> int \<Rightarrow> proc_ptr \<Rightarrow> nat \<Rightarrow> nat option list \<Rightarrow> elfhdr \<Rightarrow> 64 word option \<Rightarrow>
   'a sysmem_scheme \<Rightarrow> (int \<times> 'a sysmem_scheme) option" where
  "load_image ops sstatus n c m ks elf phbuf s = do {
     (bad, ret, ks, s) \<leftarrow> load_segments ops n m ks (case phbuf of None \<Rightarrow> 0 | Some a \<Rightarrow> a) (e_phnum elf) 0 s;
     (if bad then bad_cleanup_mmap phbuf m ret s
      else do {
        let s = kfree_opt phbuf s;
        (ret, v, u) \<leftarrow> mm_map (case ks of [] \<Rightarrow> None | k # _ \<Rightarrow> k) m (USTACKTOP - USTACKSIZE) USTACKSIZE
          (or VM_READ (or VM_WRITE VM_STACK)) (memory s);
        let s = s\<lparr>memory := u\<rparr>;
        (if ret \<noteq> 0 then bad_cleanup_mmap phbuf m ret s
         else do {
           s \<leftarrow> stack_page m (USTACKTOP - PGSIZE) s;
           s \<leftarrow> stack_page m (USTACKTOP - 2 * PGSIZE) s;
           s \<leftarrow> stack_page m (USTACKTOP - 3 * PGSIZE) s;
           s \<leftarrow> stack_page m (USTACKTOP - 4 * PGSIZE) s;
           let s = use_mm m c s;
           let s = lsatp (push_bit 12 (mm_pgdir (mms (memory s) m))) s;
           t \<leftarrow> tf (procs s c);
           Some (0, s\<lparr>tframes := (tframes s)(t := user_frame sstatus (e_entry elf))\<rparr>)
         })
      })
   }"

definition load_icode ::
  "(nat \<Rightarrow> devices inode_ops) \<Rightarrow> 64 word \<Rightarrow> 64 word \<Rightarrow> exec_mem \<Rightarrow> int \<Rightarrow> 'a sysmem_scheme \<Rightarrow>
   (int \<times> 'a sysmem_scheme) option" where
  "load_icode ops sstatus elf_at xm n s = do {
     c \<leftarrow> current s;
     kassert (mm (procs s c) = None);
     let (r, u) = mm_new (xm_mm xm) (memory s);
     let s = s\<lparr>memory := u\<rparr>;
     (case r of
        None \<Rightarrow> Some (- E_NO_MEM, s)
      | Some m \<Rightarrow> do {
          (ret, u) \<leftarrow> setup_pgdir m (memory s);
          let s = s\<lparr>memory := u\<rparr>;
          (if ret \<noteq> 0 then bad_pgdir_cleanup_mm m (- E_NO_MEM) s
           else do {
             (ret, s) \<leftarrow> load_icode_read ops n elf_at sizeof_elfhdr 0 s;
             let elf = elfhdr_at (umem s) elf_at;
             (if ret \<noteq> 0 \<or> e_magic elf \<noteq> ELF_MAGIC then bad_elf_cleanup_pgdir m (- E_INVAL_ELF) s
              else if e_phnum elf * sizeof_proghdr > 0
              then case kmalloc_buf s of
                (None, s) \<Rightarrow> bad_pgdir_cleanup_mm m (- E_NO_MEM) s
              | (Some phbuf, s) \<Rightarrow> do {
                  (ret, s) \<leftarrow> load_icode_read ops n phbuf (of_nat (e_phnum elf * sizeof_proghdr)) (e_phoff elf) s;
                  (if ret \<noteq> 0 then bad_elf_cleanup_pgdir m ret (kfree_buf phbuf s)
                   else load_image ops sstatus n c m (xm_vmas xm) elf (Some phbuf) s)
                }
              else load_image ops sstatus n c m (xm_vmas xm) elf None s)
           })
        })
   }"

section \<open>The arguments and the call\<close>

definition put_kargv :: "64 word list \<Rightarrow> 'a sysmem_scheme \<Rightarrow> 'a sysmem_scheme" where
  "put_kargv kargv s = fold kfree_buf kargv s"

text \<open>The loop of \<open>copy_kargv\<close> from argument \<open>i\<close> on, with the buffers made so far.\<close>

fun copy_kargv_loop ::
  "nat option \<Rightarrow> 64 word \<Rightarrow> nat \<Rightarrow> nat \<Rightarrow> 64 word list \<Rightarrow> 'a sysmem_scheme \<Rightarrow> (int \<times> 64 word list \<times> 'a sysmem_scheme) option" where
  "copy_kargv_loop m argv i 0 kargv s = Some (0, kargv, s)"
| "copy_kargv_loop m argv i (Suc k) kargv s =
     (case kmalloc_buf s of
        (None, s) \<Rightarrow> Some (- E_NO_MEM, [], put_kargv kargv s)
      | (Some buffer, s) \<Rightarrow> do {
          (ok, h, u) \<leftarrow> copy_string m buffer (of_nat (le_at (umem s) (argv + of_nat (8 * i)) 8))
            (of_nat (EXEC_MAX_ARG_LEN + 1)) (umem s) (memory s);
          let s = s\<lparr>umem := h, memory := u\<rparr>;
          (if \<not> ok then Some (- E_INVAL, [], put_kargv kargv (kfree_buf buffer s))
           else copy_kargv_loop m argv (i + 1) k (kargv @ [buffer]) s)
        })"

definition copy_kargv ::
  "nat option \<Rightarrow> int \<Rightarrow> 64 word \<Rightarrow> 'a sysmem_scheme \<Rightarrow> (int \<times> 64 word list \<times> 'a sysmem_scheme) option" where
  "copy_kargv m argc argv s = do {
     (ok, u) \<leftarrow> user_mem_check m argv (8 * word_of_int argc) False (memory s);
     let s = s\<lparr>memory := u\<rparr>;
     (if \<not> ok then Some (- E_INVAL, [], s) else copy_kargv_loop m argv 0 (nat argc) [] s)
   }"

text \<open>\<open>snprintf(local_name, 16, "<null> %d", pid)\<close>\<close>

definition null_name :: "64 word \<Rightarrow> int \<Rightarrow> mem \<Rightarrow> mem option" where
  "null_name lname n m = map_option snd
     (vsnprintf (unat lname) (PROC_NAME_LEN + 1) (bytes_of_string ''<null> %d'') [Arg_int (word_of_int n)] m)"

text \<open>The name of the new program: whether it could be read, and the state with \<open>local_name\<close>.\<close>

definition exec_name :: "nat option \<Rightarrow> proc_ptr \<Rightarrow> 64 word \<Rightarrow> 64 word \<Rightarrow> 'a sysmem_scheme \<Rightarrow> (bool \<times> 'a sysmem_scheme) option" where
  "exec_name m c lname name s = do {
     let s = zero_mem lname (of_nat (PROC_NAME_LEN + 1)) s;
     (if name = 0
      then do { h \<leftarrow> null_name lname (pid (procs s c)) (umem s); Some (True, s\<lparr>umem := h\<rparr>) }
      else do {
        (ok, h, u) \<leftarrow> copy_string m lname name (of_nat (PROC_NAME_LEN + 1)) (umem s) (memory s);
        Some (ok, s\<lparr>umem := h, memory := u\<rparr>)
      })
   }"

text \<open>Giving up the old address space.\<close>

definition exec_drop_mm :: "nat option \<Rightarrow> proc_ptr \<Rightarrow> 'a sysmem_scheme \<Rightarrow> 'a sysmem_scheme option" where
  "exec_drop_mm mo c s =
     (case mo of
        None \<Rightarrow> Some s
      | Some m \<Rightarrow> do {
          let s = lsatp (boot_pgdir_pa s) s;
          let (k, u) = mm_count_dec m (memory s);
          u \<leftarrow> (if k = 0 then drop_mm m u else Some u);
          Some (upd_proc c (\<lambda>d. d\<lparr>mm := None\<rparr>) (s\<lparr>memory := u\<rparr>))
        })"

definition execve_exit ::
  "'a sysmem_scheme sched_class \<Rightarrow> (nat \<Rightarrow> devices inode_ops) \<Rightarrow> 64 word list \<Rightarrow> int \<Rightarrow> 'a sysmem_scheme \<Rightarrow>
   (int option \<times> 'a sysmem_scheme) option" where
  "execve_exit C ops kargv ret s = do { s \<leftarrow> do_exit C ops ret (put_kargv kargv s); Some (None, s) }"

text \<open>The result is \<open>None\<close> when the process has ended.\<close>

definition do_execve ::
  "'a sysmem_scheme sched_class \<Rightarrow> (nat \<Rightarrow> devices inode_ops) \<Rightarrow> devices fs_ops \<Rightarrow> 64 word \<Rightarrow> 64 word \<Rightarrow> 64 word \<Rightarrow> exec_mem \<Rightarrow>
   64 word \<Rightarrow> int \<Rightarrow> 64 word \<Rightarrow> 'a sysmem_scheme \<Rightarrow> (int option \<times> 'a sysmem_scheme) option" where
  "do_execve C ops fops sstatus elf_at lname xm name argc argv s = do {
     c \<leftarrow> current s;
     let m = mm (procs s c);
     (if \<not> (argc \<ge> 1 \<and> argc \<le> EXEC_MAX_ARG_NUM) then Some (Some (- E_INVAL), s)
      else do {
        s \<leftarrow> sys_lock_mm m s;
        (ok, s) \<leftarrow> exec_name m c lname name s;
        (if \<not> ok then Some (Some (- E_INVAL), sys_unlock_mm m s)
         else do {
           (ret, kargv, s) \<leftarrow> copy_kargv m argc argv s;
           (if ret \<noteq> 0 then Some (Some ret, sys_unlock_mm m s)
            else do {
              let path = of_nat (le_at (umem s) argv 8);
              let s = sys_unlock_mm m s;
              fp \<leftarrow> current_files s;
              v \<leftarrow> files_closeall ops fp (fsys s);
              let s = s\<lparr>fsys := v\<rparr>;
              (fd, s) \<leftarrow> sysfile_open ops fops path O_RDONLY s;
              (if fd < 0 then execve_exit C ops kargv fd s
               else do {
                 s \<leftarrow> exec_drop_mm m c s;
                 (ret, s) \<leftarrow> load_icode ops sstatus elf_at xm fd s;
                 (if ret \<noteq> 0 then execve_exit C ops kargv ret s
                  else Some (Some 0, set_proc_name c (string_at (umem s) lname (PROC_NAME_LEN + 1)) (put_kargv kargv s)))
               })
            })
         })
      })
   }"

end
