(* ===== verification/Syscall.thy ===== *)
theory Syscall
imports Exec
begin

text \<open>
  The system calls: the functions and the table of \<open>kern/syscall/syscall.c\<close> with the numbers of
  \<open>libs/unistd.h\<close>.

  A call that gives up the processor returns later, so \<open>syscall\<close> has three outcomes: it has stored a
  result in \<open>a0\<close>, the process is suspended inside \<open>do_wait\<close> or \<open>do_sleep\<close> and stores the result when
  it runs again (\<open>syscall_resume\<close>), or the process has ended. An undefined number panics (\<open>None\<close>).
  \<open>kenv\<close> collects what the calls take from their surroundings: the results of \<open>kmalloc\<close> for kernel
  structures, addresses of local variables on the kernel stack, addresses of code, and \<open>sstatus\<close>.
\<close>

record kenv =
  k_forkret :: "64 word"
  k_fork :: fork_mem
  k_exec :: exec_mem
  k_elf :: "64 word"
  k_name :: "64 word"
  k_stat :: "64 word"
  k_timer :: nat
  k_sstatus :: "64 word"

datatype sys_name =
  Sys_exit | Sys_fork | Sys_wait | Sys_exec | Sys_yield | Sys_kill | Sys_getpid | Sys_putc | Sys_pgdir | Sys_gettime
| Sys_lab6_set_priority | Sys_sleep | Sys_open | Sys_close | Sys_read | Sys_write | Sys_seek | Sys_fstat | Sys_fsync
| Sys_getcwd | Sys_getdirentry | Sys_dup

datatype sys_result = Sys_returns int | Sys_waits int "64 word" | Sys_sleeps nat | Sys_ended

definition int_arg :: "64 word \<Rightarrow> int" where "int_arg x = sint (ucast x :: 32 word)"

abbreviation returning :: "(int \<times> 's) option \<Rightarrow> (sys_result \<times> 's) option" where
  "returning r \<equiv> Option.bind r (\<lambda>(ret, s). Some (Sys_returns ret, s))"

section \<open>Processes\<close>

definition sys_exit ::
  "'a sysmem_scheme sched_class \<Rightarrow> (nat \<Rightarrow> devices inode_ops) \<Rightarrow> 64 word list \<Rightarrow> 'a sysmem_scheme \<Rightarrow>
   (sys_result \<times> 'a sysmem_scheme) option" where
  "sys_exit C ops args s = do { s \<leftarrow> do_exit C ops (int_arg (args ! 0)) s; Some (Sys_ended, s) }"

definition sys_fork ::
  "'a sysmem_scheme sched_class \<Rightarrow> (nat \<Rightarrow> devices inode_ops) \<Rightarrow> kenv \<Rightarrow> 'a sysmem_scheme \<Rightarrow>
   (sys_result \<times> 'a sysmem_scheme) option" where
  "sys_fork C ops E s = do {
     c \<leftarrow> current s;
     t \<leftarrow> tf (procs s c);
     returning (do_fork C ops (k_forkret E) (k_fork E) 0 (gpr (tframes s t) R_sp) (tframes s t) s)
   }"

text \<open>\<open>do_wait\<close> stores the exit code of the child at \<open>code_store\<close>, after the child is gone.\<close>

definition wait_outcome :: "int \<Rightarrow> 64 word \<Rightarrow> wait_result \<times> 'a sysmem_scheme \<Rightarrow> sys_result \<times> 'a sysmem_scheme" where
  "wait_outcome n st r =
     (case r of
        (Wait_returns ret code, s) \<Rightarrow>
          (Sys_returns ret,
           case code of None \<Rightarrow> s | Some x \<Rightarrow> s\<lparr>umem := store_bytes st (le_bytes 4 (nat (x mod 2 ^ 32))) (umem s)\<rparr>)
      | (Wait_suspended, s) \<Rightarrow> (Sys_waits n st, s))"

definition sys_wait ::
  "'a sysmem_scheme sched_class \<Rightarrow> 64 word list \<Rightarrow> 'a sysmem_scheme \<Rightarrow> (sys_result \<times> 'a sysmem_scheme) option" where
  "sys_wait C args s = map_option (wait_outcome (int_arg (args ! 0)) (args ! 1)) (do_wait C (int_arg (args ! 0)) (args ! 1) s)"

definition sys_exec ::
  "'a sysmem_scheme sched_class \<Rightarrow> (nat \<Rightarrow> devices inode_ops) \<Rightarrow> devices fs_ops \<Rightarrow> kenv \<Rightarrow> 64 word list \<Rightarrow>
   'a sysmem_scheme \<Rightarrow> (sys_result \<times> 'a sysmem_scheme) option" where
  "sys_exec C ops fops E args s = do {
     (ret, s) \<leftarrow> do_execve C ops fops (k_sstatus E) (k_elf E) (k_name E) (k_exec E) (args ! 0) (int_arg (args ! 1)) (args ! 2) s;
     Some (case ret of None \<Rightarrow> Sys_ended | Some x \<Rightarrow> Sys_returns x, s)
   }"

definition sys_yield :: "'a sysmem_scheme \<Rightarrow> (sys_result \<times> 'a sysmem_scheme) option" where
  "sys_yield s = returning (do_yield s)"

definition sys_kill ::
  "'a sysmem_scheme sched_class \<Rightarrow> 64 word list \<Rightarrow> 'a sysmem_scheme \<Rightarrow> (sys_result \<times> 'a sysmem_scheme) option" where
  "sys_kill C args s = returning (do_kill C (int_arg (args ! 0)) s)"

definition sys_getpid :: "'a sysmem_scheme \<Rightarrow> (sys_result \<times> 'a sysmem_scheme) option" where
  "sys_getpid s = do { c \<leftarrow> current s; Some (Sys_returns (pid (procs s c)), s) }"

text \<open>\<open>cputchar\<close> takes an \<open>int\<close>.\<close>

definition sys_putc :: "64 word list \<Rightarrow> 'a sysmem_scheme \<Rightarrow> (sys_result \<times> 'a sysmem_scheme) option" where
  "sys_putc args s = Some (Sys_returns 0, s\<lparr>fsys := (fsys s)\<lparr>console := console (fsys s) @
     serial_putc (sint (ucast (args ! 0) :: 32 word))\<rparr>\<rparr>)"

definition sys_pgdir :: "'a sysmem_scheme \<Rightarrow> (sys_result \<times> 'a sysmem_scheme) option" where
  "sys_pgdir s = Some (Sys_returns 0, s)"

definition sys_gettime :: "'a sysmem_scheme \<Rightarrow> (sys_result \<times> 'a sysmem_scheme) option" where
  "sys_gettime s = Some (Sys_returns (sint ((ucast (ticks s) :: 32 word) * 10)), s)"

definition sys_lab6_set_priority :: "64 word list \<Rightarrow> 'a sysmem_scheme \<Rightarrow> (sys_result \<times> 'a sysmem_scheme) option" where
  "sys_lab6_set_priority args s = do { s \<leftarrow> lab6_set_priority (ucast (args ! 0)) s; Some (Sys_returns 0, s) }"

definition sys_sleep ::
  "'a sysmem_scheme sched_class \<Rightarrow> kenv \<Rightarrow> 64 word list \<Rightarrow> 'a sysmem_scheme \<Rightarrow> (sys_result \<times> 'a sysmem_scheme) option" where
  "sys_sleep C E args s = do {
     (slept, s) \<leftarrow> do_sleep_begin C (k_timer E) (ucast (args ! 0)) s;
     Some (if slept then Sys_sleeps (k_timer E) else Sys_returns 0, s)
   }"

section \<open>Files\<close>

definition sys_open ::
  "(nat \<Rightarrow> devices inode_ops) \<Rightarrow> devices fs_ops \<Rightarrow> 64 word list \<Rightarrow> 'a sysmem_scheme \<Rightarrow> (sys_result \<times> 'a sysmem_scheme) option" where
  "sys_open ops fops args s = returning (sysfile_open ops fops (args ! 0) (ucast (args ! 1)) s)"

definition sys_close ::
  "(nat \<Rightarrow> devices inode_ops) \<Rightarrow> 64 word list \<Rightarrow> 'a sysmem_scheme \<Rightarrow> (sys_result \<times> 'a sysmem_scheme) option" where
  "sys_close ops args s = returning (sysfile_close ops (int_arg (args ! 0)) s)"

definition sys_read ::
  "(nat \<Rightarrow> devices inode_ops) \<Rightarrow> 64 word list \<Rightarrow> 'a sysmem_scheme \<Rightarrow> (sys_result \<times> 'a sysmem_scheme) option" where
  "sys_read ops args s = returning (sysfile_read ops (int_arg (args ! 0)) (args ! 1) (args ! 2) s)"

definition sys_write ::
  "(nat \<Rightarrow> devices inode_ops) \<Rightarrow> 64 word list \<Rightarrow> 'a sysmem_scheme \<Rightarrow> (sys_result \<times> 'a sysmem_scheme) option" where
  "sys_write ops args s = returning (sysfile_write ops (int_arg (args ! 0)) (args ! 1) (args ! 2) s)"

definition sys_seek ::
  "(nat \<Rightarrow> devices inode_ops) \<Rightarrow> 64 word list \<Rightarrow> 'a sysmem_scheme \<Rightarrow> (sys_result \<times> 'a sysmem_scheme) option" where
  "sys_seek ops args s = returning (sysfile_seek ops (int_arg (args ! 0)) (sint (args ! 1)) (int_arg (args ! 2)) s)"

definition sys_fstat ::
  "(nat \<Rightarrow> devices inode_ops) \<Rightarrow> kenv \<Rightarrow> 64 word list \<Rightarrow> 'a sysmem_scheme \<Rightarrow> (sys_result \<times> 'a sysmem_scheme) option" where
  "sys_fstat ops E args s = returning (sysfile_fstat ops (k_stat E) (int_arg (args ! 0)) (args ! 1) s)"

definition sys_fsync ::
  "(nat \<Rightarrow> devices inode_ops) \<Rightarrow> 64 word list \<Rightarrow> 'a sysmem_scheme \<Rightarrow> (sys_result \<times> 'a sysmem_scheme) option" where
  "sys_fsync ops args s = returning (sysfile_fsync ops (int_arg (args ! 0)) s)"

definition sys_getcwd ::
  "(nat \<Rightarrow> devices inode_ops) \<Rightarrow> 64 word list \<Rightarrow> 'a sysmem_scheme \<Rightarrow> (sys_result \<times> 'a sysmem_scheme) option" where
  "sys_getcwd ops args s = returning (sysfile_getcwd ops (args ! 0) (args ! 1) s)"

definition sys_getdirentry ::
  "(nat \<Rightarrow> devices inode_ops) \<Rightarrow> 64 word list \<Rightarrow> 'a sysmem_scheme \<Rightarrow> (sys_result \<times> 'a sysmem_scheme) option" where
  "sys_getdirentry ops args s = returning (sysfile_getdirentry ops (int_arg (args ! 0)) (args ! 1) s)"

definition sys_dup :: "64 word list \<Rightarrow> 'a sysmem_scheme \<Rightarrow> (sys_result \<times> 'a sysmem_scheme) option" where
  "sys_dup args s = returning (sysfile_dup (int_arg (args ! 0)) (int_arg (args ! 1)) s)"

section \<open>The table and the dispatcher\<close>

text \<open>The entries of \<open>syscalls\<close>, by number; an index without entry holds \<open>NULL\<close>.\<close>

definition syscalls :: "(int \<times> sys_name) list" where
  "syscalls =
     [(1, Sys_exit), (2, Sys_fork), (3, Sys_wait), (4, Sys_exec), (10, Sys_yield), (12, Sys_kill), (18, Sys_getpid),
      (30, Sys_putc), (31, Sys_pgdir), (17, Sys_gettime), (255, Sys_lab6_set_priority), (11, Sys_sleep), (100, Sys_open),
      (101, Sys_close), (102, Sys_read), (103, Sys_write), (104, Sys_seek), (110, Sys_fstat), (111, Sys_fsync),
      (121, Sys_getcwd), (128, Sys_getdirentry), (130, Sys_dup)]"

definition NUM_SYSCALLS :: int where "NUM_SYSCALLS = 256"

fun call_syscall ::
  "'a sysmem_scheme sched_class \<Rightarrow> (nat \<Rightarrow> devices inode_ops) \<Rightarrow> devices fs_ops \<Rightarrow> kenv \<Rightarrow> sys_name \<Rightarrow> 64 word list \<Rightarrow>
   'a sysmem_scheme \<Rightarrow> (sys_result \<times> 'a sysmem_scheme) option" where
  "call_syscall C ops fops E Sys_exit args s = sys_exit C ops args s"
| "call_syscall C ops fops E Sys_fork args s = sys_fork C ops E s"
| "call_syscall C ops fops E Sys_wait args s = sys_wait C args s"
| "call_syscall C ops fops E Sys_exec args s = sys_exec C ops fops E args s"
| "call_syscall C ops fops E Sys_yield args s = sys_yield s"
| "call_syscall C ops fops E Sys_kill args s = sys_kill C args s"
| "call_syscall C ops fops E Sys_getpid args s = sys_getpid s"
| "call_syscall C ops fops E Sys_putc args s = sys_putc args s"
| "call_syscall C ops fops E Sys_pgdir args s = sys_pgdir s"
| "call_syscall C ops fops E Sys_gettime args s = sys_gettime s"
| "call_syscall C ops fops E Sys_lab6_set_priority args s = sys_lab6_set_priority args s"
| "call_syscall C ops fops E Sys_sleep args s = sys_sleep C E args s"
| "call_syscall C ops fops E Sys_open args s = sys_open ops fops args s"
| "call_syscall C ops fops E Sys_close args s = sys_close ops args s"
| "call_syscall C ops fops E Sys_read args s = sys_read ops args s"
| "call_syscall C ops fops E Sys_write args s = sys_write ops args s"
| "call_syscall C ops fops E Sys_seek args s = sys_seek ops args s"
| "call_syscall C ops fops E Sys_fstat args s = sys_fstat ops E args s"
| "call_syscall C ops fops E Sys_fsync args s = sys_fsync ops args s"
| "call_syscall C ops fops E Sys_getcwd args s = sys_getcwd ops args s"
| "call_syscall C ops fops E Sys_getdirentry args s = sys_getdirentry ops args s"
| "call_syscall C ops fops E Sys_dup args s = sys_dup args s"

text \<open>\<open>tf->gpr.a0 = ret\<close>: an \<open>int\<close> is sign-extended.\<close>

definition set_a0 :: "nat \<Rightarrow> int \<Rightarrow> 'a sysmem_scheme \<Rightarrow> 'a sysmem_scheme" where
  "set_a0 t ret s = s\<lparr>tframes := (tframes s)(t := (tframes s t)\<lparr>gpr := (gpr (tframes s t))(R_a0 := word_of_int ret)\<rparr>)\<rparr>"

definition sys_return :: "nat \<Rightarrow> sys_result \<times> 'a sysmem_scheme \<Rightarrow> sys_result \<times> 'a sysmem_scheme" where
  "sys_return t r = (case r of (Sys_returns ret, s) \<Rightarrow> (Sys_returns ret, set_a0 t ret s) | _ \<Rightarrow> r)"

definition syscall ::
  "'a sysmem_scheme sched_class \<Rightarrow> (nat \<Rightarrow> devices inode_ops) \<Rightarrow> devices fs_ops \<Rightarrow> kenv \<Rightarrow> 'a sysmem_scheme \<Rightarrow>
   (sys_result \<times> 'a sysmem_scheme) option" where
  "syscall C ops fops E s = do {
     c \<leftarrow> current s;
     t \<leftarrow> tf (procs s c);
     let num = int_arg (gpr (tframes s t) R_a0);
     kassert (num \<ge> 0 \<and> num < NUM_SYSCALLS);
     f \<leftarrow> map_of syscalls num;
     map_option (sys_return t) (call_syscall C ops fops E f (map (gpr (tframes s t)) [R_a1, R_a2, R_a3, R_a4, R_a5]) s)
   }"

text \<open>What a suspended call does when its process runs again.\<close>

definition syscall_resume ::
  "'a sysmem_scheme sched_class \<Rightarrow> (nat \<Rightarrow> devices inode_ops) \<Rightarrow> sys_result \<Rightarrow> 'a sysmem_scheme \<Rightarrow>
   (sys_result \<times> 'a sysmem_scheme) option" where
  "syscall_resume C ops r s = do {
     c \<leftarrow> current s;
     t \<leftarrow> tf (procs s c);
     map_option (sys_return t)
       (case r of
          Sys_waits n st \<Rightarrow> map_option (wait_outcome n st) (do_wait_resume C ops n st s)
        | Sys_sleeps k \<Rightarrow> (case do_sleep_end k s of (ret, s) \<Rightarrow> Some (Sys_returns ret, s))
        | _ \<Rightarrow> None)
   }"

end
