(* ===== verification/FileCalls.thy ===== *)
theory FileCalls
imports Syscall
begin

text \<open>
  What the file system calls do to the memory of the caller and to the open files: they write only
  their kernel buffers and bytes that the caller may write, and keep the address space and the file
  tables well-formed.
\<close>

section \<open>Accesses to user memory\<close>

text \<open>The bytes that the areas \<open>vs\<close> let a process write.\<close>

definition user_writable :: "'a vm_scheme \<Rightarrow> nat list \<Rightarrow> nat set" where
  "user_writable u vs = {unat a | a. \<exists>v \<in> set vs. access_ok u True v a}"

lemma user_writable_cong: "vmas u = vmas u' \<Longrightarrow> user_writable u vs = user_writable u' vs"
  by (simp add: user_writable_def access_ok_def vma_covers_def)

lemma unat_add_u64: "(x :: 64 word) \<le> x + y \<Longrightarrow> unat (x + y) = unat x + unat y"
  by (simp add: unat_plus_simple)

lemma user_range_unat:
  assumes "USER_ACCESS addr (addr + len)"
  shows "unat (addr + len) = unat addr + unat len"
  using assms by (intro unat_add_u64) (auto simp: USER_ACCESS_def)

lemma user_range_writable:
  assumes ua: "USER_ACCESS addr (addr + len)"
    and ok: "\<forall>a. addr \<le> a \<and> a < addr + len \<longrightarrow> (\<exists>v \<in> set vs. access_ok u True v a)"
    and x: "unat addr \<le> x" "x < unat addr + unat len"
  shows "x \<in> user_writable u vs"
proof -
  have bound: "x < 2 ^ 64" using x(2) user_range_unat [OF ua] unsigned_less [of "addr + len", where ?'a = nat] by simp
  then have un: "unat (of_nat x :: 64 word) = x" by (simp add: unat_of_nat take_bit_nat_eq_self_iff)
  then have "addr \<le> of_nat x" "of_nat x < addr + len"
    using x user_range_unat [OF ua] by (simp_all add: word_le_nat_alt word_less_nat_alt)
  then obtain v where "v \<in> set vs" "access_ok u True v (of_nat x)" using ok by blast
  then show ?thesis unfolding user_writable_def using un by (intro CollectI exI [of _ "of_nat x"]) auto
qed

lemma user_mem_check_cases:
  assumes rep: "mm_rep u m vs" and run: "user_mem_check (Some m) addr len wr u = Some (r, u')"
  shows "mm_rep u' m vs" "vmas u' = vmas u"
    and "r \<longleftrightarrow> USER_ACCESS addr (addr + len) \<and>
      (\<forall>a. addr \<le> a \<and> a < addr + len \<longrightarrow> (\<exists>v \<in> set vs. access_ok u wr v a))"
proof -
  obtain r1 u1 where L: "user_mem_loop m addr (addr + len) wr u = Some (r1, u1)" "mm_rep u1 m vs" "vmas u1 = vmas u"
    "r1 \<longleftrightarrow> (\<forall>a. addr \<le> a \<and> a < addr + len \<longrightarrow> (\<exists>v \<in> set vs. access_ok u wr v a))"
    using user_mem_loop_spec [OF rep] by blast
  show "mm_rep u' m vs" "vmas u' = vmas u" "r \<longleftrightarrow> USER_ACCESS addr (addr + len) \<and>
      (\<forall>a. addr \<le> a \<and> a < addr + len \<longrightarrow> (\<exists>v \<in> set vs. access_ok u wr v a))"
    using run L rep by (simp_all add: user_mem_check_def split: if_splits)
qed

lemma find_vma_more: "find_vma mmp a u = Some (r, u') \<Longrightarrow> vm.more u' = vm.more u"
proof -
  have more: "vm.more (upd_mm k f u) = vm.more u" for k f by (simp add: upd_mm_def)
  assume "find_vma mmp a u = Some (r, u')"
  then have "u' = u \<or> (\<exists>k f. u' = upd_mm k f u)"
    by (simp add: find_vma_def bind_eq_Some_conv split: option.splits) blast+
  then show ?thesis using more by auto
qed

lemma user_mem_loop_more:
  assumes "user_mem_loop m st en wr u = Some y"
  shows "vm.more (snd y) = vm.more u"
proof (rule user_mem_loop.raw_induct [of "\<lambda>m st en wr u y. vm.more (snd y) = vm.more u", OF _ assms])
  fix loop :: "nat \<Rightarrow> 64 word \<Rightarrow> 64 word \<Rightarrow> bool \<Rightarrow> 'a vm_scheme \<Rightarrow> (bool \<times> 'a vm_scheme) option"
    and m and st en :: "64 word" and wr and u :: "'a vm_scheme" and y
  assume IH: "\<And>m st en wr u y. loop m st en wr u = Some y \<Longrightarrow> vm.more (snd y) = vm.more u"
  assume run: "(if st < en then Option.bind (find_vma (Some m) st u) (\<lambda>(r, s1). case r of
          None \<Rightarrow> Some (False, s1)
        | Some v \<Rightarrow>
            if st < vm_start (vmas s1 v) then Some (False, s1)
            else if and (vm_flags (vmas s1 v)) (if wr then VM_WRITE else VM_READ) = 0 then Some (False, s1)
            else if wr \<and> and (vm_flags (vmas s1 v)) VM_STACK \<noteq> 0 \<and> st < vm_start (vmas s1 v) + PGSIZE then Some (False, s1)
            else loop m (vm_end (vmas s1 v)) en wr s1)
      else Some (True, u)) = Some y"
  show "vm.more (snd y) = vm.more u"
  proof (cases "st < en")
    case True
    then obtain r s1 where f: "find_vma (Some m) st u = Some (r, s1)" using run by (auto simp: bind_eq_Some_conv)
    have "snd y = s1 \<or> (\<exists>v. loop m (vm_end (vmas s1 v)) en wr s1 = Some y)"
      using run True f by (cases r) (auto split: if_splits)
    then show ?thesis by (elim disjE exE) (simp_all only: IH find_vma_more [OF f])
  qed (use run in auto)
qed

lemma user_mem_check_more: "user_mem_check mmp addr len wr u = Some (r, u') \<Longrightarrow> vm.more u' = vm.more u"
  by (auto simp: user_mem_check_def split: option.splits if_splits dest: user_mem_loop_more)

text \<open>What the three copying functions write.\<close>

lemma copy_to_user_cases:
  assumes rep: "mm_rep u m vs" and run: "copy_to_user (Some m) dst src len h u = Some (ok, h', u')"
  shows "mm_rep u' m vs" "vmas u' = vmas u" "vm.more u' = vm.more u" "\<And>x. x \<notin> user_writable u vs \<Longrightarrow> h' x = h x"
proof -
  obtain r where c: "user_mem_check (Some m) dst len True u = Some (r, u')"
    "h' = (if r then memcpy (unat dst) (unat src) (unat len) h else h)"
    using run by (auto simp: copy_to_user_def bind_eq_Some_conv split: if_splits)
  note U = user_mem_check_cases [OF rep c(1)]
  show "mm_rep u' m vs" "vmas u' = vmas u" "vm.more u' = vm.more u" using U(1,2) user_mem_check_more [OF c(1)] by simp_all
  show "h' x = h x" if "x \<notin> user_writable u vs" for x
  proof (cases r)
    case True
    then have "\<not> (unat dst \<le> x \<and> x < unat dst + unat len)" using U(3) user_range_writable that by blast
    then show ?thesis using c(2) True by (auto simp: memcpy_other)
  qed (use c(2) in simp)
qed

lemma copy_from_user_cases:
  assumes rep: "mm_rep u m vs" and run: "copy_from_user (Some m) dst src len wr h u = Some (ok, h', u')"
  shows "mm_rep u' m vs" "vmas u' = vmas u" "vm.more u' = vm.more u"
    "\<And>x. x < unat dst \<or> unat dst + unat len \<le> x \<Longrightarrow> h' x = h x"
proof -
  obtain r where c: "user_mem_check (Some m) src len wr u = Some (r, u')"
    "h' = (if r then memcpy (unat dst) (unat src) (unat len) h else h)"
    using run by (auto simp: copy_from_user_def bind_eq_Some_conv split: if_splits)
  show "mm_rep u' m vs" "vmas u' = vmas u" "vm.more u' = vm.more u"
    using user_mem_check_cases [OF rep c(1)] user_mem_check_more [OF c(1)] by simp_all
  show "h' x = h x" if "x < unat dst \<or> unat dst + unat len \<le> x" for x
    using c(2) memcpy_other [OF that] by simp
qed

lemma strnlen_loop_le: "strnlen_loop h a n k \<le> n + k"
  by (induction h a n k rule: strnlen_loop.induct) auto

lemma strnlen_le: "strnlen h a n \<le> n"
  using strnlen_loop_le [of h a 0 n] by (simp add: strnlen_def)

lemma copy_string_loop_cases:
  fixes u :: "'a vm_scheme"
  assumes "copy_string_loop mmp dst src maxn part0 h u = Some y"
  shows "mmp = Some m \<longrightarrow> mm_rep u m vs \<longrightarrow> unat dst + unat maxn \<le> 2 ^ 64 \<longrightarrow>
    (case y of (ok, h', u') \<Rightarrow> mm_rep u' m vs \<and> vmas u' = vmas u \<and> vm.more u' = vm.more u \<and>
      (\<forall>x. x < unat dst \<or> unat dst + unat maxn \<le> x \<longrightarrow> h' x = h x))"
    (is "?P mmp dst maxn h u y")
proof (rule copy_string_loop.raw_induct [of "\<lambda>mmp dst src maxn part0 h u y. ?P mmp dst maxn h u y", OF _ assms])
  fix loop :: "nat option \<Rightarrow> 64 word \<Rightarrow> 64 word \<Rightarrow> 64 word \<Rightarrow> 64 word \<Rightarrow> mem \<Rightarrow> 'a vm_scheme \<Rightarrow> (bool \<times> mem \<times> 'a vm_scheme) option"
    and mmp and dst src maxn part0 :: "64 word" and h :: mem and u :: "'a vm_scheme" and y
  assume IH: "\<And>mmp dst src maxn part0 h u y. loop mmp dst src maxn part0 h u = Some y \<Longrightarrow> ?P mmp dst maxn h u y"
  let ?part = "if maxn < part0 then maxn else part0"
  assume run: "(let part = ?part in
      Option.bind (user_mem_check mmp src part False u) (\<lambda>(ok, s1).
        if \<not> ok then Some (False, h, s1)
        else let alen = strnlen h (unat src) (unat part)
             in if alen < unat part then Some (True, memcpy (unat dst) (unat src) (alen + 1) h, s1)
                else if part = maxn then Some (False, h, s1)
                else loop mmp (dst + part) (src + part) (maxn - part) PGSIZE (memcpy (unat dst) (unat src) (unat part) h) s1)) = Some y"
  have part: "?part \<le> maxn" by (simp add: not_less)
  show "?P mmp dst maxn h u y"
  proof (intro impI)
    assume m: "mmp = Some m" and rep: "mm_rep u m vs" and room: "unat dst + unat maxn \<le> 2 ^ 64"
    obtain ok s1 where c: "user_mem_check (Some m) src ?part False u = Some (ok, s1)"
      and rest: "(if \<not> ok then Some (False, h, s1)
        else let alen = strnlen h (unat src) (unat ?part)
             in if alen < unat ?part then Some (True, memcpy (unat dst) (unat src) (alen + 1) h, s1)
                else if ?part = maxn then Some (False, h, s1)
                else loop mmp (dst + ?part) (src + ?part) (maxn - ?part) PGSIZE (memcpy (unat dst) (unat src) (unat ?part) h) s1) = Some y"
      using run m by (auto simp: Let_def bind_eq_Some_conv simp del: if_split_asm)
    note U = user_mem_check_cases(1,2) [OF rep c] user_mem_check_more [OF c]
    let ?Q = "case y of (ok, h', u') \<Rightarrow> mm_rep u' m vs \<and> vmas u' = vmas u \<and> vm.more u' = vm.more u \<and>
      (\<forall>x. x < unat dst \<or> unat dst + unat maxn \<le> x \<longrightarrow> h' x = h x)"
    let ?alen = "strnlen h (unat src) (unat ?part)"
    have le: "unat ?part \<le> unat maxn" using part by (simp add: word_le_nat_alt)
    consider (stop) "y = (False, h, s1)" | (found) "?alen < unat ?part" "y = (True, memcpy (unat dst) (unat src) (?alen + 1) h, s1)"
      | (more) "?part \<noteq> maxn"
        "loop mmp (dst + ?part) (src + ?part) (maxn - ?part) PGSIZE (memcpy (unat dst) (unat src) (unat ?part) h) s1 = Some y"
      using rest by (auto simp: Let_def split: if_splits)
    then show ?Q
    proof cases
      case more
      have "unat ?part \<noteq> unat maxn" using more(1) unfolding word_unat_eq_iff .
      then have small: "unat dst + unat ?part < 2 ^ 64" using le room by linarith
      then have d: "unat (dst + ?part) = unat dst + unat ?part" by (simp add: unat_word_ariths)
      have r: "unat (maxn - ?part) = unat maxn - unat ?part" by (rule unat_sub [OF part])
      have "unat (dst + ?part) + unat (maxn - ?part) \<le> 2 ^ 64" using d r le room by simp
      then have "case y of (ok, h', u') \<Rightarrow> mm_rep u' m vs \<and> vmas u' = vmas s1 \<and> vm.more u' = vm.more s1 \<and>
        (\<forall>x. x < unat (dst + ?part) \<or> unat (dst + ?part) + unat (maxn - ?part) \<le> x \<longrightarrow>
          h' x = memcpy (unat dst) (unat src) (unat ?part) h x)"
        using IH [OF more(2)] m U(1) by blast
      then show ?thesis using U le d r by (auto simp: memcpy_other)
    qed (use U le in \<open>auto simp: memcpy_other\<close>)
  qed
qed

lemma copy_string_cases:
  assumes "copy_string (Some m) dst src maxn h u = Some (ok, h', u')" "mm_rep u m vs" "unat dst + unat maxn \<le> 2 ^ 64"
  shows "mm_rep u' m vs" "vmas u' = vmas u" "vm.more u' = vm.more u"
    "\<And>x. x < unat dst \<or> unat dst + unat maxn \<le> x \<Longrightarrow> h' x = h x"
  using copy_string_loop_cases [OF assms(1) [unfolded copy_string_def], of m vs] assms(2,3) by (simp_all, blast)

lemma mm_rep_frame:
  assumes "vmas u' = vmas u" "vma_links u' = vma_links u" "map_count (mms u' m) = map_count (mms u m)"
    "mmap_cache (mms u' m) = mmap_cache (mms u m)"
  shows "mm_rep u' m vs = mm_rep u m vs"
  using assms by (simp add: mm_rep_def vma_ordered_def)

lemma lock_mm_rep:
  assumes "lock_mm who mo u = Some u'"
  shows "mm_rep u' m vs = mm_rep u m vs" "vmas u' = vmas u"
proof -
  have "vmas u' = vmas u \<and> vma_links u' = vma_links u \<and> map_count (mms u' m) = map_count (mms u m) \<and>
      mmap_cache (mms u' m) = mmap_cache (mms u m)"
  proof (cases mo)
    case (Some k)
    then obtain v where v: "sem_down (mm_sem u k) = Some v"
      using assms by (cases "sem_down (mm_sem u k)") (simp_all add: lock_mm_def)
    have "u' = (let u1 = u\<lparr>mm_sem := (mm_sem u)(k := v)\<rparr> in
        case who of None \<Rightarrow> u1 | Some n \<Rightarrow> upd_mm k (\<lambda>d. d\<lparr>locked_by := n\<rparr>) u1)"
      using assms unfolding lock_mm_def Some option.case v Option.bind.simps Let_def by (rule option.inject [THEN iffD1, symmetric])
    then show ?thesis by (cases who) (simp_all add: upd_mm_def)
  qed (use assms in \<open>simp add: lock_mm_def\<close>)
  then show "mm_rep u' m vs = mm_rep u m vs" "vmas u' = vmas u" using mm_rep_frame [of u' u m] by blast+
qed

lemma lock_mm_ok:
  assumes "mm_sem u m > 0"
  obtains u' where "lock_mm who (Some m) u = Some u'" "mm_rep u' m vs = mm_rep u m vs" "vmas u' = vmas u"
    "mm_sem u' = (mm_sem u)(m := mm_sem u m - 1)"
proof -
  obtain u' where l: "lock_mm who (Some m) u = Some u'" "mm_sem u' = (mm_sem u)(m := mm_sem u m - 1)"
    using assms by (cases who) (simp_all add: lock_mm_def sem_down_def Let_def upd_mm_def)
  show thesis by (rule that [OF l(1) lock_mm_rep [OF l(1)] l(2)])
qed

lemma unlock_mm_rep: "mm_rep (unlock_mm mo u) m vs = mm_rep u m vs" "vmas (unlock_mm mo u) = vmas u"
  by (rule mm_rep_frame; simp add: unlock_mm_def upd_mm_def split: option.split)
    (simp add: unlock_mm_def upd_mm_def split: option.split)

lemma locked_cases:
  assumes rep: "mm_rep (memory s) m vs" and run: "locked mo f s = Some (ok, t)"
    and f: "\<And>h u ok h' u'. mm_rep u m vs \<Longrightarrow> vmas u = vmas (memory s) \<Longrightarrow> f h u = Some (ok, h', u') \<Longrightarrow>
      mm_rep u' m vs \<and> vmas u' = vmas u \<and> (\<forall>x. x \<notin> W \<longrightarrow> h' x = h x)"
  obtains h u where "t = s\<lparr>umem := h, memory := u\<rparr>" "mm_rep u m vs" "vmas u = vmas (memory s)"
    "\<forall>x. x \<notin> W \<longrightarrow> h x = umem s x"
proof -
  obtain u1 h' u2 where l: "lock_mm (map_option (\<lambda>c. pid (procs s c)) (current s)) mo (memory s) = Some u1"
    and g: "f (umem s) u1 = Some (ok, h', u2)" and t: "t = s\<lparr>umem := h', memory := unlock_mm mo u2\<rparr>"
    using run by (auto simp: locked_def sys_lock_mm_def sys_unlock_mm_def bind_eq_Some_conv)
  note L = lock_mm_rep [OF l]
  have "mm_rep u2 m vs \<and> vmas u2 = vmas u1 \<and> (\<forall>x. x \<notin> W \<longrightarrow> h' x = umem s x)"
    by (rule f [OF _ _ g]) (use L rep in simp_all)
  then show thesis by (intro that [OF t]) (use L in \<open>simp_all add: unlock_mm_rep\<close>)
qed

section \<open>A process inside a call\<close>

text \<open>The process \<open>c\<close> with address space \<open>m\<close> and file table \<open>fp\<close>, and the bytes \<open>W\<close> that it may cause
  to be written: what its areas let it write, and the kernel buffers of the call.\<close>

definition ready ::
  "(nat \<Rightarrow> int) \<Rightarrow> nat set \<Rightarrow> nat \<Rightarrow> nat list \<Rightarrow> nat set \<Rightarrow> proc_ptr \<Rightarrow> nat \<Rightarrow> 'a sysmem_scheme \<Rightarrow> bool" where
  "ready x F m vs W c fp s \<longleftrightarrow> current s = Some c \<and> mm (procs s c) = Some m \<and> filesp (procs s c) = Some fp \<and> fp \<in> F \<and>
     files_inv x F (fsys s) \<and> mm_rep (memory s) m vs \<and> user_writable (memory s) vs \<subseteq> W \<and>
     (\<forall>b. Some b \<in> set (bufs_next s) \<longrightarrow> unat b + 4096 \<le> 2 ^ 64 \<and> {unat b..<unat b + 4096} \<subseteq> W)"

definition safe ::
  "(nat \<Rightarrow> int) \<Rightarrow> nat set \<Rightarrow> nat \<Rightarrow> nat list \<Rightarrow> nat set \<Rightarrow> proc_ptr \<Rightarrow> nat \<Rightarrow> 'a sysmem_scheme \<Rightarrow> 'a sysmem_scheme \<Rightarrow> bool" where
  "safe x F m vs W c fp s t \<longleftrightarrow> ready x F m vs W c fp t \<and> (\<forall>a. a \<notin> W \<longrightarrow> umem t a = umem s a)"

lemma safe_refl: "ready x F m vs W c fp s \<Longrightarrow> safe x F m vs W c fp s s"
  by (simp add: safe_def)

lemma safe_trans: "safe x F m vs W c fp s t \<Longrightarrow> safe x F m vs W c fp t u \<Longrightarrow> safe x F m vs W c fp s u"
  by (simp add: safe_def)

lemma safe_ready: "safe x F m vs W c fp s t \<Longrightarrow> ready x F m vs W c fp t"
  by (simp add: safe_def)

lemma ready_current [simp]:
  "ready x F m vs W c fp s \<Longrightarrow> current_mm s = Some (Some m)"
  "ready x F m vs W c fp s \<Longrightarrow> current_files s = Some fp"
  by (simp_all add: ready_def current_mm_def current_files_def)

lemma ready_files: "ready x F m vs W c fp s \<Longrightarrow> files_inv x F (fsys s)" "ready x F m vs W c fp s \<Longrightarrow> fp \<in> F"
  by (simp_all add: ready_def)

lemma safe_memory:
  assumes "ready x F m vs W c fp s" "mm_rep u m vs" "vmas u = vmas (memory s)" "\<forall>a. a \<notin> W \<longrightarrow> h a = umem s a"
  shows "safe x F m vs W c fp s (s\<lparr>umem := h, memory := u\<rparr>)"
  using assms user_writable_cong [OF assms(3), of vs] by (simp add: safe_def ready_def)

lemma safe_fsys: "ready x F m vs W c fp s \<Longrightarrow> files_inv x F v \<Longrightarrow> safe x F m vs W c fp s (s\<lparr>fsys := v\<rparr>)"
  by (simp add: safe_def ready_def)

lemma safe_kfree: "ready x F m vs W c fp s \<Longrightarrow> safe x F m vs W c fp s (kfree_buf b s)"
  by (simp add: safe_def ready_def kfree_buf_def)

lemma safe_kmalloc:
  assumes "ready x F m vs W c fp s" "kmalloc_buf s = (r, t)"
  shows "safe x F m vs W c fp s t"
    and "r = Some b \<Longrightarrow> unat b + 4096 \<le> 2 ^ 64" "r = Some b \<Longrightarrow> {unat b..<unat b + 4096} \<subseteq> W"
  using assms by (auto simp: safe_def ready_def kmalloc_buf_def split: list.splits)

lemma store_bytes_other: "x < unat a \<or> unat a + length bs \<le> x \<Longrightarrow> store_bytes a bs h x = h x"
  by (auto simp: store_bytes_def)

lemma safe_store:
  assumes "ready x F m vs W c fp s" "{unat a..<unat a + length bs} \<subseteq> W"
  shows "safe x F m vs W c fp s (s\<lparr>umem := store_bytes a bs (umem s)\<rparr>)"
  using assms by (auto simp: safe_def ready_def store_bytes_def)

lemma safe_to_user:
  assumes ok: "ready x F m vs W c fp s" and run: "to_user (Some m) dst src len s = Some (r, t)"
  shows "safe x F m vs W c fp s t"
proof -
  have rep: "mm_rep (memory s) m vs" "user_writable (memory s) vs \<subseteq> W" using ok by (simp_all add: ready_def)
  obtain h u where t: "t = s\<lparr>umem := h, memory := u\<rparr>" "mm_rep u m vs" "vmas u = vmas (memory s)" "\<forall>a. a \<notin> W \<longrightarrow> h a = umem s a"
  proof (rule locked_cases [OF rep(1) run [unfolded to_user_def], where W = W])
    fix h ok h' and u u' :: uvm
    assume a: "mm_rep u m vs" "vmas u = vmas (memory s)" "copy_to_user (Some m) dst src len h u = Some (ok, h', u')"
    note C = copy_to_user_cases [OF a(1,3)]
    show "mm_rep u' m vs \<and> vmas u' = vmas u \<and> (\<forall>a. a \<notin> W \<longrightarrow> h' a = h a)"
      using C(1,2,4) rep(2) user_writable_cong [OF a(2), of vs] by blast
  qed
  show ?thesis unfolding t(1) by (rule safe_memory [OF ok t(2-4)])
qed

lemma safe_from_user:
  assumes ok: "ready x F m vs W c fp s" and run: "from_user (Some m) dst src len wr s = Some (r, t)"
    and W: "{unat dst..<unat dst + unat len} \<subseteq> W"
  shows "safe x F m vs W c fp s t"
proof -
  have rep: "mm_rep (memory s) m vs" using ok by (simp_all add: ready_def)
  obtain h u where t: "t = s\<lparr>umem := h, memory := u\<rparr>" "mm_rep u m vs" "vmas u = vmas (memory s)" "\<forall>a. a \<notin> W \<longrightarrow> h a = umem s a"
  proof (rule locked_cases [OF rep run [unfolded from_user_def], where W = W])
    fix h ok h' and u u' :: uvm
    assume a: "mm_rep u m vs" "copy_from_user (Some m) dst src len wr h u = Some (ok, h', u')"
    note C = copy_from_user_cases [OF a]
    show "mm_rep u' m vs \<and> vmas u' = vmas u \<and> (\<forall>a. a \<notin> W \<longrightarrow> h' a = h a)"
      using C(1,2,4) W by (meson atLeastLessThan_iff not_le subsetD)
  qed
  show ?thesis unfolding t(1) by (rule safe_memory [OF ok t(2-4)])
qed

lemma safe_copy_path:
  assumes ok: "ready x F m vs W c fp s" and run: "copy_path uaddr s = Some (ret, path, t)"
  shows "safe x F m vs W c fp s t"
proof -
  obtain kp s1 where k: "kmalloc_buf s = (kp, s1)" by (cases "kmalloc_buf s")
  note K = safe_kmalloc [OF ok k]
  show ?thesis
  proof (cases kp)
    case None
    then show ?thesis using run k K(1) ok by (simp add: copy_path_def)
  next
    case (Some b)
    obtain r s2 where l: "locked (Some m) (copy_string (Some m) b uaddr (of_nat (FS_MAX_FPATH_LEN + 1))) s1 = Some (r, s2)"
      and t: "t = s2 \<or> t = kfree_buf b s2"
      using run k ok Some by (auto simp: copy_path_def bind_eq_Some_conv split: if_splits)
    have ok1: "ready x F m vs W c fp s1" by (rule safe_ready [OF K(1)])
    then have rep: "mm_rep (memory s1) m vs" by (simp add: ready_def)
    have len: "unat (of_nat (FS_MAX_FPATH_LEN + 1) :: 64 word) = 4096" by (simp add: FS_MAX_FPATH_LEN_def)
    obtain h u where s2: "s2 = s1\<lparr>umem := h, memory := u\<rparr>" "mm_rep u m vs" "vmas u = vmas (memory s1)"
        "\<forall>a. a \<notin> W \<longrightarrow> h a = umem s1 a"
    proof (rule locked_cases [OF rep l, where W = W])
      fix h ok h' and u u' :: uvm
      assume a: "mm_rep u m vs" "copy_string (Some m) b uaddr (of_nat (FS_MAX_FPATH_LEN + 1)) h u = Some (ok, h', u')"
      note C = copy_string_cases [OF a(2,1), unfolded len, OF K(2) [OF Some]]
      show "mm_rep u' m vs \<and> vmas u' = vmas u \<and> (\<forall>a. a \<notin> W \<longrightarrow> h' a = h a)"
        using C(1,2,4) K(3) [OF Some] by (meson atLeastLessThan_iff not_le subsetD)
    qed
    have s12: "safe x F m vs W c fp s1 s2" unfolding s2(1) by (rule safe_memory [OF ok1 s2(2-4)])
    have "safe x F m vs W c fp s2 t" using t safe_refl safe_kfree safe_ready [OF s12] by blast
    then show ?thesis using K(1) s12 safe_trans by blast
  qed
qed

lemma iobuf_move_size: "iobuf_move iob d len m2b = Some (iob', d', n, ret) \<Longrightarrow> length (io_mem iob') = length (io_mem iob)"
  by (auto simp: iobuf_move_def iobuf_skip_def mem_put_def mem_get_def bind_eq_Some_conv Let_def split: if_splits)

section \<open>The contract of the function tables\<close>

text \<open>What the calls need beyond \<open>vnode_ops\<close>: \<open>vop_namefile\<close> takes no reference away, and the functions that
  fill a buffer stay inside it.\<close>

locale io_ops = vnode_ops ops fops for ops :: "nat \<Rightarrow> 'a vfs_scheme inode_ops" and fops :: "'a vfs_scheme fs_ops" +
  assumes namefile_law: "op_namefile (ops n) = Some f \<Longrightarrow> f n iob s = Some (ret, iob', s') \<Longrightarrow>
      grants None s s' \<and> length (io_mem iob') = length (io_mem iob)"
    and read_size: "op_read (ops n) = Some f1 \<Longrightarrow> f1 n iob s = Some (ret, iob', s') \<Longrightarrow> length (io_mem iob') = length (io_mem iob)"
    and getdirentry_size: "op_getdirentry (ops n) = Some f2 \<Longrightarrow> f2 n iob s = Some (ret, iob', s') \<Longrightarrow>
      length (io_mem iob') = length (io_mem iob)"
begin

lemma vop_sizes:
  "vop_read ops n iob s = Some (ret, iob', s') \<Longrightarrow> length (io_mem iob') = length (io_mem iob)"
  "vop_getdirentry ops n iob s = Some (ret, iob', s') \<Longrightarrow> length (io_mem iob') = length (io_mem iob)"
  unfolding vop_read_def vop_getdirentry_def vop_op_def
  by (auto simp only: bind_eq_Some_conv option.inject kassert_eq_Some intro: read_size getdirentry_size)

lemma file_read_size: "file_read ops fp n h base len s = Some (ret, copied, h', t) \<Longrightarrow> length h' = length h"
  by (auto simp: file_read_def bind_eq_Some_conv iobuf_init_def Let_def split: option.splits if_splits dest!: vop_sizes(1))

lemma file_getdirentry_size: "file_getdirentry ops fp n d s = Some (ret, d', t) \<Longrightarrow> length (d_name d') = length (d_name d)"
  by (auto simp: file_getdirentry_def bind_eq_Some_conv iobuf_init_def Let_def split: option.splits if_splits
      dest!: vop_sizes(2))

lemma put_cwd_kept:
  assumes "put_cwd ops n name iob s = Some (ret, iob', t)"
  shows "grants None s t \<and> length (io_mem iob') = length (io_mem iob)"
proof -
  obtain i1 d1 k1 r1 where m1: "iobuf_move iob (bytes_of_string name) (length name) True = Some (i1, d1, k1, r1)"
    using assms by (auto simp: put_cwd_def bind_eq_Some_conv)
  show ?thesis
  proof (cases "r1 = 0")
    case True
    then obtain i2 d2 k2 r2 where m2: "iobuf_move i1 (bytes_of_string '':'') 1 True = Some (i2, d2, k2, r2)"
      and rest: "(if r2 \<noteq> 0 then Some (r2, i2, s) else vop_namefile ops n i2 s) = Some (ret, iob', t)"
      using assms m1 by (auto simp: put_cwd_def bind_eq_Some_conv simp del: if_split_asm)
    have "grants None s t \<and> length (io_mem iob') = length (io_mem i2)"
      using rest namefile_law by (auto simp: vop_namefile_def vop_op_def bind_eq_Some_conv split: if_splits)
    then show ?thesis using iobuf_move_size [OF m1] iobuf_move_size [OF m2] by simp
  qed (use assms m1 in \<open>auto simp: put_cwd_def dest: iobuf_move_size\<close>)
qed

lemma getcwd_kept:
  assumes run: "vfs_getcwd ops fp iob s = Some (ret, iob', t)"
  shows "grants None s t" "length (io_mem iob') = length (io_mem iob)"
proof -
  have "grants None s t \<and> length (io_mem iob') = length (io_mem iob)"
  proof (cases "pwd (filesps s fp)")
    case (Some n)
    obtain name r1 s1 rc where p: "put_cwd ops n name iob (inode_ref_inc n s) = Some (r1, iob', s1)"
      and dec: "inode_ref_dec ops n s1 = Some (rc, t)"
      using run Some by (auto simp: vfs_getcwd_def vfs_get_curdir_def bind_eq_Some_conv)
    note P = put_cwd_kept [OF p]
    have "grants (Some n) s (inode_ref_inc n s)" by (simp add: grants_def counts_ref_inc)
    then have "grants (Some n) s s1" by (rule grants_trans(1)) (use P in blast)
    then show ?thesis using drop_granted dec P by blast
  qed (use run in \<open>simp add: vfs_getcwd_def vfs_get_curdir_def\<close>)
  then show "grants None s t" "length (io_mem iob') = length (io_mem iob)" by simp_all
qed

end

section \<open>The loop\<close>

lemma transfer_loop_safe:
  fixes chunk :: "64 word \<Rightarrow> 64 word \<Rightarrow> 'a sysmem_scheme \<Rightarrow> (int \<times> 64 word \<times> 64 word \<times> 'a sysmem_scheme) option"
  assumes chunk: "\<And>base len s ret alen moved t. ready x F m vs W c fp s \<Longrightarrow> chunk base len s = Some (ret, alen, moved, t) \<Longrightarrow>
      safe x F m vs W c fp s t"
    and ok: "ready x F m vs W c fp s" and run: "transfer_loop chunk base len copied s = Some y"
  shows "safe x F m vs W c fp s (snd (snd y))"
proof -
  let ?P = "\<lambda>ch base len copied s y. ch = chunk \<longrightarrow> ready x F m vs W c fp s \<longrightarrow> safe x F m vs W c fp s (snd (snd y))"
  have "?P chunk base len copied s y"
  proof (rule transfer_loop.raw_induct [of ?P, OF _ run])
    fix loop :: "(64 word \<Rightarrow> 64 word \<Rightarrow> 'a sysmem_scheme \<Rightarrow> (int \<times> 64 word \<times> 64 word \<times> 'a sysmem_scheme) option) \<Rightarrow>
        64 word \<Rightarrow> 64 word \<Rightarrow> 64 word \<Rightarrow> 'a sysmem_scheme \<Rightarrow> (int \<times> 64 word \<times> 'a sysmem_scheme) option"
      and ch base len copied and s :: "'a sysmem_scheme" and y
    assume IH: "\<And>ch base len copied s y. loop ch base len copied s = Some y \<Longrightarrow> ?P ch base len copied s y"
      and body: "(if len \<noteq> 0
        then Option.bind (ch base len s) (\<lambda>(ret, alen, moved, s).
          if ret \<noteq> 0 \<or> alen = 0 then Some (ret, copied + moved, s)
          else loop ch (base + moved) (len - moved) (copied + moved) s)
        else Some (0, copied, s)) = Some y"
    show "?P ch base len copied s y"
    proof (intro impI)
      assume ch: "ch = chunk" and ok: "ready x F m vs W c fp s"
      show "safe x F m vs W c fp s (snd (snd y))"
      proof (cases "len = 0")
        case False
        then obtain ret alen moved t where c1: "chunk base len s = Some (ret, alen, moved, t)"
          using body ch by (auto simp: bind_eq_Some_conv)
        note S = chunk [OF ok c1]
        show ?thesis
        proof (cases "ret \<noteq> 0 \<or> alen = 0")
          case True
          then have "(ret, copied + moved, t) = y" using body False ch c1 by simp
          then show ?thesis using S by (metis snd_conv)
        next
          case more: False
          then have "loop ch (base + moved) (len - moved) (copied + moved) t = Some y" using body False ch c1 by simp
          then show ?thesis using IH ch safe_ready [OF S] safe_trans [OF S] by blast
        qed
      qed (use body ok in \<open>auto simp: safe_refl\<close>)
    qed
  qed
  then show ?thesis using ok by blast
qed

lemma dirent_size: "length (dirent_bytes (dirent_at h a)) = 264" "length (d_name d) = length (d_name (dirent_at h a)) \<Longrightarrow>
    length (dirent_bytes d) = 264"
  by (simp_all add: dirent_bytes_def dirent_at_def le_bytes_def load_bytes_def FS_MAX_FNAME_LEN_def)

section \<open>Each call\<close>

lemma safe_on_files:
  assumes "ready x F m vs W c fp s" "on_files f s = Some (ret, t)" "\<And>v r. f fp (fsys s) = Some (r, v) \<Longrightarrow> files_inv x F v"
  shows "safe x F m vs W c fp s t"
  using assms safe_fsys [OF assms(1)] by (auto simp: on_files_def bind_eq_Some_conv)

lemma safe_with_path:
  assumes ok: "ready x F m vs W c fp s" and run: "with_path f upath s = Some (ret, t)"
    and files: "\<And>path v w r. files_inv x F v \<Longrightarrow> f fp path v = Some (r, w) \<Longrightarrow> files_inv x F w"
  shows "safe x F m vs W c fp s t"
proof -
  obtain r path u where p: "copy_path upath s = Some (r, path, u)"
    using run by (auto simp: with_path_def bind_eq_Some_conv)
  have su: "safe x F m vs W c fp s u" by (rule safe_copy_path [OF ok p])
  then have u: "ready x F m vs W c fp u" by (rule safe_ready)
  show ?thesis
  proof (cases path)
    case None
    then show ?thesis using run p su by (simp add: with_path_def)
  next
    case (Some b)
    then obtain w where w: "f fp (path_at b u) (fsys u) = Some (ret, w)" "t = kfree_buf b (u\<lparr>fsys := w\<rparr>)"
      using run p u by (auto simp: with_path_def bind_eq_Some_conv)
    have a: "safe x F m vs W c fp u (u\<lparr>fsys := w\<rparr>)" by (rule safe_fsys [OF u files [OF ready_files(1) [OF u] w(1)]])
    show ?thesis unfolding w(2) by (rule safe_trans [OF su safe_trans [OF a safe_kfree [OF safe_ready [OF a]]]])
  qed
qed

lemma safe_transfer:
  assumes ok: "ready x F m vs W c fp s" and run: "sysfile_transfer r w chunk n base len s = Some (ret, t)"
    and chunk: "\<And>b base len s ret alen moved t. {unat b..<unat b + 4096} \<subseteq> W \<Longrightarrow> unat b + 4096 \<le> 2 ^ 64 \<Longrightarrow>
      ready x F m vs W c fp s \<Longrightarrow> chunk (Some m) b base len s = Some (ret, alen, moved, t) \<Longrightarrow> safe x F m vs W c fp s t"
  shows "safe x F m vs W c fp s t"
proof (cases "len = 0 \<or> file_testfd fp n r w (fsys s) = Some False")
  note cur = ready_current [OF ok]
  case True
  then have "t = s" using run by (auto simp: sysfile_transfer_def cur split: if_splits)
  then show ?thesis using safe_refl [OF ok] by simp
next
  case False
  then have fd: "file_testfd fp n r w (fsys s) = Some True"
    using run ok by (auto simp: sysfile_transfer_def bind_eq_Some_conv split: if_splits)
  obtain k s1 where k: "kmalloc_buf s = (k, s1)" by (cases "kmalloc_buf s")
  note K = safe_kmalloc [OF ok k]
  show ?thesis
  proof (cases k)
    case None
    then show ?thesis using run ok fd k False K(1) by (simp add: sysfile_transfer_def)
  next
    case (Some b)
    then obtain ret1 copied u where l: "transfer_loop (chunk (Some m) b) base len 0 s1 = Some (ret1, copied, u)"
      and t: "t = kfree_buf b u"
      using run ok fd k False by (auto simp: sysfile_transfer_def bind_eq_Some_conv)
    have "safe x F m vs W c fp s1 (snd (snd (ret1, copied, u)))"
      by (rule transfer_loop_safe [OF chunk [OF K(3) [OF Some] K(2) [OF Some]] safe_ready [OF K(1)] l])
    then have "safe x F m vs W c fp s u" using safe_trans [OF K(1)] by simp
    then show ?thesis unfolding t by (rule safe_trans [OF _ safe_kfree [OF safe_ready]]) fact
  qed
qed

lemma unat_IOBUF_SIZE [simp]: "unat IOBUF_SIZE = 4096"
  by (simp add: IOBUF_SIZE_def)

lemma chunk_le: "unat (chunk_len len) \<le> 4096"
  by (auto simp: chunk_len_def word_less_nat_alt not_less IOBUF_SIZE_def)

lemma length_load_bytes [simp]: "length (load_bytes h a n) = n"
  by (simp add: load_bytes_def)

text \<open>The calls on files, and what the kernel may write for one: its buffers and \<open>__local_stat\<close>.\<close>

definition file_calls :: "sys_name list" where
  "file_calls = [Sys_open, Sys_close, Sys_read, Sys_write, Sys_seek, Sys_fstat, Sys_fsync, Sys_getcwd, Sys_getdirentry, Sys_dup]"

definition call_buffers :: "kenv \<Rightarrow> 'a sysmem_scheme \<Rightarrow> nat set" where
  "call_buffers E s = (\<Union>b \<in> {b. Some b \<in> set (bufs_next s)}. {unat b..<unat b + 4096}) \<union> {unat (k_stat E)..<unat (k_stat E) + 32}"

text \<open>The function tables of the kernel's file system, in the state of the devices.\<close>

locale dev_io_ops = io_ops ops fops for ops :: "nat \<Rightarrow> devices inode_ops" and fops :: "devices fs_ops"
begin

lemma step_inv: "files_inv x F v \<Longrightarrow> files_step ops fops (F, v) (F, w) \<Longrightarrow> files_inv x F w"
  by (rule files_step_inv)

lemma read_chunk_safe:
  assumes W: "{unat b..<unat b + 4096} \<subseteq> W" and ok: "ready x F m vs W c fp s"
    and run: "read_chunk ops (Some m) n b base len s = Some (ret, alen, moved, t)"
  shows "safe x F m vs W c fp s t"
proof -
  obtain r1 k h v where rd: "file_read ops fp n (load_bytes (umem s) b 4096) 0 (unat (chunk_len len)) (fsys s) = Some (r1, k, h, v)"
    and gv: "give_chunk (Some m) b base len r1 (of_nat k) (s\<lparr>umem := store_bytes b h (umem s), fsys := v\<rparr>) = Some (ret, alen, moved, t)"
    using run ready_current(2) [OF ok] by (auto simp: read_chunk_def bind_eq_Some_conv)
  let ?u1 = "s\<lparr>umem := store_bytes b h (umem s)\<rparr>" and ?u = "s\<lparr>umem := store_bytes b h (umem s), fsys := v\<rparr>"
  have inv: "files_inv x F v" by (rule step_inv [OF ready_files(1) [OF ok] read_file [OF ready_files(2) [OF ok] rd]])
  have "length h = 4096" using file_read_size [OF rd] by simp
  then have s1: "safe x F m vs W c fp s ?u1" using W by (intro safe_store [OF ok]) simp
  have "safe x F m vs W c fp ?u1 (?u1\<lparr>fsys := v\<rparr>)" by (rule safe_fsys [OF safe_ready [OF s1] inv])
  then have su: "safe x F m vs W c fp s ?u" using safe_trans [OF s1] by simp
  show ?thesis
  proof (cases "(of_nat k :: 64 word) = 0")
    case False
    then obtain q where "to_user (Some m) base b (of_nat k) ?u = Some (q, t)"
      using gv by (auto simp: give_chunk_def bind_eq_Some_conv split: if_splits)
    from safe_to_user [OF safe_ready [OF su] this] show ?thesis by (rule safe_trans [OF su])
  qed (use gv su in \<open>simp add: give_chunk_def\<close>)
qed

lemma write_chunk_safe:
  assumes W: "{unat b..<unat b + 4096} \<subseteq> W" and ok: "ready x F m vs W c fp s"
    and run: "write_chunk ops (Some m) n b base len s = Some (ret, alen, moved, t)"
  shows "safe x F m vs W c fp s t"
proof -
  obtain q u where fu: "from_user (Some m) b base (chunk_len len) False s = Some (q, u)"
    and rest: "(if q then put_chunk ops n b len u else Some (- E_INVAL, chunk_len len, 0, u)) = Some (ret, alen, moved, t)"
    using run by (auto simp: write_chunk_def bind_eq_Some_conv simp del: if_split_asm)
  have su: "safe x F m vs W c fp s u" by (rule safe_from_user [OF ok fu]) (use W chunk_le [of len] in auto)
  note u = safe_ready [OF su]
  show ?thesis
  proof (cases q)
    case True
    then obtain r1 k v where wr: "file_write ops fp n (load_bytes (umem u) b 4096) 0 (unat (chunk_len len)) (fsys u) = Some (r1, k, v)"
      and t: "t = u\<lparr>fsys := v\<rparr>"
      using rest ready_current(2) [OF u] by (auto simp: put_chunk_def Let_def bind_eq_Some_conv)
    have "files_inv x F v" by (rule step_inv [OF ready_files(1) [OF u] write_file [OF ready_files(2) [OF u] wr]])
    from safe_fsys [OF u this] show ?thesis unfolding t by (rule safe_trans [OF su])
  qed (use su rest in simp)
qed

lemma getcwd_safe:
  assumes ok: "ready x F m vs W c fp s" and run: "sysfile_getcwd ops b len s = Some (ret, t)"
  shows "safe x F m vs W c fp s t"
proof (cases "len = 0")
  case False
  obtain s1 q u where l: "sys_lock_mm (Some m) s = Some s1"
    and q: "user_mem_check (Some m) b len True (memory s1) = Some (q, u)"
    using run False ready_current(1) [OF ok] by (auto simp: sysfile_getcwd_def bind_eq_Some_conv)
  let ?s2 = "s1\<lparr>memory := u\<rparr>"
  obtain s3 where body: "(if q then do {
        fp \<leftarrow> current_files ?s2;
        (ret, iob, v) \<leftarrow> vfs_getcwd ops fp (iobuf_init (load_bytes (umem ?s2) b (unat len)) 0 (unat len) 0) (fsys ?s2);
        Some (ret, ?s2\<lparr>umem := store_bytes b (io_mem iob) (umem ?s2), fsys := v\<rparr>)
      } else Some (- E_INVAL, ?s2)) = Some (ret, s3)" and t: "t = sys_unlock_mm (Some m) s3"
    using run False ready_current(1) [OF ok] l q
    by (auto simp: sysfile_getcwd_def Let_def bind_eq_Some_conv simp del: if_split_asm)
  obtain u1 where s1: "s1 = s\<lparr>memory := u1\<rparr>" "mm_rep u1 m vs = mm_rep (memory s) m vs" "vmas u1 = vmas (memory s)"
    using l lock_mm_rep [of _ _ "memory s"] by (auto simp: sys_lock_mm_def bind_eq_Some_conv)
  have rep: "mm_rep (memory s1) m vs" using ok s1 by (simp add: ready_def)
  note U = user_mem_check_cases [OF rep q]
  have keep: "safe x F m vs W c fp w (w\<lparr>memory := a\<rparr>)"
    if "ready x F m vs W c fp w" "mm_rep a m vs" "vmas a = vmas (memory w)" for w :: "'b sysmem_scheme" and a
    using safe_memory [OF that, of "umem w"] by simp
  have s12: "safe x F m vs W c fp s ?s2"
    using keep [OF ok, of u] U(1,2) s1 by simp
  note r2 = safe_ready [OF s12]
  have s3: "safe x F m vs W c fp s s3"
  proof (cases q)
    case True
    then obtain iob v where g: "vfs_getcwd ops fp (iobuf_init (load_bytes (umem ?s2) b (unat len)) 0 (unat len) 0) (fsys ?s2) =
          Some (ret, iob, v)" and s3: "s3 = ?s2\<lparr>umem := store_bytes b (io_mem iob) (umem ?s2), fsys := v\<rparr>"
      using body ready_current(2) [OF r2] by (auto simp: bind_eq_Some_conv)
    note G = getcwd_kept [OF g]
    have wr: "{unat b..<unat b + unat len} \<subseteq> user_writable (memory s1) vs"
      using U(3) True user_range_writable by (metis atLeastLessThan_iff subsetI)
    have "user_writable (memory s1) vs \<subseteq> W" using ok s1 user_writable_cong [of "memory s1" "memory s" vs] by (simp add: ready_def)
    then have "{unat b..<unat b + length (io_mem iob)} \<subseteq> W" using wr G(2) by (simp add: iobuf_init_def)
    from safe_store [OF r2 this] have a: "safe x F m vs W c fp s (?s2\<lparr>umem := store_bytes b (io_mem iob) (umem ?s2)\<rparr>)"
      by (rule safe_trans [OF s12])
    have "files_inv x F v" by (rule files_inv_kept [OF _ G(1)]) (use ready_files(1) [OF r2] in simp)
    from safe_fsys [OF safe_ready [OF a] this] show ?thesis unfolding s3 using safe_trans [OF a] by simp
  qed (use body s12 in simp)
  have "safe x F m vs W c fp s3 t" unfolding t sys_unlock_mm_def
    by (rule keep [OF safe_ready [OF s3]]) (use safe_ready [OF s3] in \<open>simp_all add: unlock_mm_rep ready_def\<close>)
  with s3 show ?thesis by (rule safe_trans)
qed (use run ok in \<open>simp add: sysfile_getcwd_def safe_refl\<close>)

lemma stat_size: "length (stat_bytes st) = 32"
  by (simp add: stat_bytes_def le_bytes_def)

lemma fstat_safe:
  assumes ok: "ready x F m vs W c fp s" and run: "sysfile_fstat ops l n ustat s = Some (ret, t)"
    and W: "{unat l..<unat l + 32} \<subseteq> W"
  shows "safe x F m vs W c fp s t"
proof -
  obtain r1 st v where f: "file_fstat ops fp n (fsys s) = Some (r1, st, v)"
    using run ready_current [OF ok] by (auto simp: sysfile_fstat_def bind_eq_Some_conv)
  have inv: "files_inv x F v" by (rule step_inv [OF ready_files(1) [OF ok] stat_file [OF ready_files(2) [OF ok] f]])
  note s1 = safe_fsys [OF ok inv]
  show ?thesis
  proof (cases "r1 = 0")
    case True
    then obtain d q where d: "to_user (Some m) ustat l 32 (s\<lparr>fsys := v, umem := store_bytes l (stat_bytes d) (umem s)\<rparr>) = Some (q, t)"
      using run ready_current [OF ok] f by (auto simp: sysfile_fstat_def bind_eq_Some_conv Let_def)
    have "safe x F m vs W c fp (s\<lparr>fsys := v\<rparr>) (s\<lparr>fsys := v, umem := store_bytes l (stat_bytes d) (umem s)\<rparr>)"
      using safe_store [OF safe_ready [OF s1], of l "stat_bytes d"] W stat_size [of d] by simp
    then have s2: "safe x F m vs W c fp s (s\<lparr>fsys := v, umem := store_bytes l (stat_bytes d) (umem s)\<rparr>)" by (rule safe_trans [OF s1])
    show ?thesis by (rule safe_trans [OF s2 safe_to_user [OF safe_ready [OF s2] d]])
  qed (use run ready_current [OF ok] f s1 in \<open>simp add: sysfile_fstat_def\<close>)
qed

lemma getdirentry_safe:
  assumes ok: "ready x F m vs W c fp s" and run: "sysfile_getdirentry ops n udir s = Some (ret, t)"
  shows "safe x F m vs W c fp s t"
proof -
  obtain k s1 where k: "kmalloc_buf s = (k, s1)" by (cases "kmalloc_buf s")
  note K = safe_kmalloc [OF ok k] and cur = ready_current [OF ok]
  show ?thesis
  proof (cases k)
    case None
    then show ?thesis using run k cur K(1) by (simp add: sysfile_getdirentry_def)
  next
    case (Some b)
    obtain q s2 where q: "from_user (Some m) b udir 8 True s1 = Some (q, s2)"
      using run k cur Some by (auto simp: sysfile_getdirentry_def bind_eq_Some_conv)
    have "safe x F m vs W c fp s1 s2" by (rule safe_from_user [OF safe_ready [OF K(1)] q]) (use K(3) [OF Some] in auto)
    then have s2: "safe x F m vs W c fp s s2" by (rule safe_trans [OF K(1)])
    note r2 = safe_ready [OF s2]
    have "\<exists>s3. safe x F m vs W c fp s s3 \<and> t = kfree_buf b s3"
    proof (cases q)
      case True
      then obtain r1 d v where g: "file_getdirentry ops fp n (dirent_at (umem s2) b) (fsys s2) = Some (r1, d, v)"
        using run k cur Some q ready_current(2) [OF r2] by (auto simp: sysfile_getdirentry_def bind_eq_Some_conv)
      let ?s3 = "s2\<lparr>umem := store_bytes b (dirent_bytes d) (umem s2), fsys := v\<rparr>"
      have len: "length (dirent_bytes d) = 264" by (rule dirent_size(2) [OF file_getdirentry_size [OF g]])
      have a: "safe x F m vs W c fp s2 (s2\<lparr>umem := store_bytes b (dirent_bytes d) (umem s2)\<rparr>)"
        by (rule safe_store [OF r2]) (use len K(3) [OF Some] in auto)
      have inv: "files_inv x F v" by (rule step_inv [OF ready_files(1) [OF r2] list_file [OF ready_files(2) [OF r2] g]])
      have "safe x F m vs W c fp s2 ?s3" using safe_trans [OF a safe_fsys [OF safe_ready [OF a] inv]] by simp
      then have s3: "safe x F m vs W c fp s ?s3" by (rule safe_trans [OF s2])
      show ?thesis
      proof (cases "r1 = 0")
        case True
        then obtain q2 s4 where p: "to_user (Some m) udir b 264 ?s3 = Some (q2, s4)" "t = kfree_buf b s4"
          using run k cur Some q \<open>q\<close> ready_current(2) [OF r2] g
          by (auto simp: sysfile_getdirentry_def bind_eq_Some_conv Let_def)
        show ?thesis using safe_trans [OF s3 safe_to_user [OF safe_ready [OF s3] p(1)]] p(2) by blast
      next
        case False
        then have "t = kfree_buf b ?s3"
          using run k cur Some q \<open>q\<close> ready_current(2) [OF r2] g by (simp add: sysfile_getdirentry_def Let_def)
        then show ?thesis using s3 by blast
      qed
    next
      case False
      then have "t = kfree_buf b s2" using run k cur Some q by (simp add: sysfile_getdirentry_def)
      then show ?thesis using s2 by blast
    qed
    then obtain s3 where s3: "safe x F m vs W c fp s s3" "t = kfree_buf b s3" by blast
    show ?thesis unfolding s3(2) by (rule safe_trans [OF s3(1) safe_kfree [OF safe_ready [OF s3(1)]]])
  qed
qed

lemma file_call_safe:
  assumes ok: "ready x F m vs W c fp s" and f: "f \<in> set file_calls"
    and run: "call_syscall C ops fops E f args s = Some (r, t)" and W: "{unat (k_stat E)..<unat (k_stat E) + 32} \<subseteq> W"
  shows "safe x F m vs W c fp s t"
proof -
  have inv: "files_inv x F w" if "files_inv x F v" "files_step ops fops (F, v) (F, w)" for v w
    by (rule step_inv [OF that])
  note fp = ready_files(2) [OF ok]
  have on: "safe x F m vs W c fp s t"
    if "on_files g s = Some (ret, t)" "\<And>v w ret. g fp v = Some (ret, w) \<Longrightarrow> files_step ops fops (F, v) (F, w)" for g ret
    by (rule safe_on_files [OF ok that(1)]) (use inv [OF ready_files(1) [OF ok]] that(2) in blast)
  show ?thesis
  proof (cases f)
    case Sys_open
    then obtain ret where "with_path (\<lambda>fp path. file_open ops fops fp path (ucast (args ! 1))) (args ! 0) s = Some (ret, t)"
      using run by (auto simp: sys_open_def sysfile_open_def bind_eq_Some_conv)
    from safe_with_path [OF ok this] show ?thesis using inv open_file [OF fp] by blast
  next
    case Sys_close
    then obtain ret where "on_files (\<lambda>fp. file_close ops fp (int_arg (args ! 0))) s = Some (ret, t)"
      using run by (auto simp: sys_close_def sysfile_close_def bind_eq_Some_conv)
    from on [OF this] show ?thesis using close_file [OF fp] by blast
  next
    case Sys_read
    then obtain ret where "sysfile_transfer True False (\<lambda>m buffer. read_chunk ops m (int_arg (args ! 0)) buffer)
        (int_arg (args ! 0)) (args ! 1) (args ! 2) s = Some (ret, t)"
      using run by (auto simp: sys_read_def sysfile_read_def bind_eq_Some_conv)
    then show ?thesis by (rule safe_transfer [OF ok]) (rule read_chunk_safe)
  next
    case Sys_write
    then obtain ret where "sysfile_transfer False True (\<lambda>m buffer. write_chunk ops m (int_arg (args ! 0)) buffer)
        (int_arg (args ! 0)) (args ! 1) (args ! 2) s = Some (ret, t)"
      using run by (auto simp: sys_write_def sysfile_write_def bind_eq_Some_conv)
    then show ?thesis by (rule safe_transfer [OF ok]) (rule write_chunk_safe)
  next
    case Sys_seek
    then obtain ret where "on_files (\<lambda>fp. file_seek ops fp (int_arg (args ! 0)) (sint (args ! 1)) (int_arg (args ! 2))) s = Some (ret, t)"
      using run by (auto simp: sys_seek_def sysfile_seek_def bind_eq_Some_conv)
    from on [OF this] show ?thesis using seek_file [OF fp] by blast
  next
    case Sys_fstat
    then obtain ret where "sysfile_fstat ops (k_stat E) (int_arg (args ! 0)) (args ! 1) s = Some (ret, t)"
      using run by (auto simp: sys_fstat_def bind_eq_Some_conv)
    then show ?thesis by (rule fstat_safe [OF ok _ W])
  next
    case Sys_fsync
    then obtain ret where "on_files (\<lambda>fp. file_fsync ops fp (int_arg (args ! 0))) s = Some (ret, t)"
      using run by (auto simp: sys_fsync_def sysfile_fsync_def bind_eq_Some_conv)
    from on [OF this] show ?thesis using sync_file [OF fp] by blast
  next
    case Sys_getcwd
    then obtain ret where "sysfile_getcwd ops (args ! 0) (args ! 1) s = Some (ret, t)"
      using run by (auto simp: sys_getcwd_def bind_eq_Some_conv)
    then show ?thesis by (rule getcwd_safe [OF ok])
  next
    case Sys_getdirentry
    then obtain ret where "sysfile_getdirentry ops (int_arg (args ! 0)) (args ! 1) s = Some (ret, t)"
      using run by (auto simp: sys_getdirentry_def bind_eq_Some_conv)
    then show ?thesis by (rule getdirentry_safe [OF ok])
  next
    case Sys_dup
    then obtain ret where "on_files (\<lambda>fp. file_dup fp (int_arg (args ! 0)) (int_arg (args ! 1))) s = Some (ret, t)"
      using run by (auto simp: sys_dup_def sysfile_dup_def bind_eq_Some_conv)
    from on [OF this] show ?thesis using dup_file [OF fp] by blast
  qed (use f in \<open>simp_all add: file_calls_def\<close>)
qed

end

section \<open>The devices keep the contract\<close>

lemma disk0_step_size:
  "disk0_read_step resid blkno st iob = Some (st', iob', k, n) \<Longrightarrow> length (io_mem iob') = length (io_mem iob)"
  "disk0_write_step resid blkno st iob = Some (st', iob', k, n) \<Longrightarrow> length (io_mem iob') = length (io_mem iob)"
  by (auto simp: disk0_read_step_def disk0_write_step_def Let_def bind_eq_Some_conv dest: iobuf_move_size)

lemma disk0_loop_size:
  assumes "disk0_loop wr resid blkno st iob = Some y"
  shows "length (io_mem (snd y)) = length (io_mem iob)"
proof (rule disk0_loop.raw_induct [of "\<lambda>wr resid blkno st iob y. length (io_mem (snd y)) = length (io_mem iob)", OF _ assms])
  fix loop wr resid blkno st iob y
  assume IH: "\<And>wr resid blkno st iob y. loop wr resid blkno st iob = Some y \<Longrightarrow> length (io_mem (snd y)) = length (io_mem iob)"
    and body: "(if resid \<noteq> 0
     then Option.bind (if wr then disk0_write_step resid blkno st iob else disk0_read_step resid blkno st iob)
       (\<lambda>(st, iob, copied, nblks). loop wr (resid - copied) ((blkno + nblks) mod 2 ^ 32) st iob)
     else Some (st, iob)) = Some y"
  show "length (io_mem (snd y)) = length (io_mem iob)"
  proof (cases "resid = 0")
    case False
    then obtain st1 iob1 k n where s: "(if wr then disk0_write_step resid blkno st iob else disk0_read_step resid blkno st iob) =
        Some (st1, iob1, k, n)" and l: "loop wr (resid - k) ((blkno + n) mod 2 ^ 32) st1 iob1 = Some y"
      using body by (auto simp: bind_eq_Some_conv simp del: if_split_asm)
    have "length (io_mem iob1) = length (io_mem iob)" using s disk0_step_size by (cases wr) auto
    then show ?thesis using IH [OF l] by simp
  qed (use body in auto)
qed

lemma disk0_io_size: "disk0_io n st iob wr = Some (ret, st', iob') \<Longrightarrow> length (io_mem iob') = length (io_mem iob)"
  by (auto simp: disk0_io_def Let_def bind_eq_Some_conv split: if_splits dest!: disk0_loop_size)

lemma dev_io_size: "dev_dop_io n iob wr v = Some (ret, iob', w) \<Longrightarrow> length (io_mem iob') = length (io_mem iob)"
  by (auto simp: dev_dop_io_def stdin_io_def stdout_io_def mem_put_def bind_eq_Some_conv Let_def
      split: dev_name.splits if_splits prod.splits dest: disk0_io_size)

interpretation dev_io: io_ops "\<lambda>_. dev_node_ops" no_fs_ops
  by unfold_locales (auto simp: dev_node_ops_def dev_read_def dest: dev_io_size)

interpretation dev_calls: dev_io_ops "\<lambda>_. dev_node_ops" no_fs_ops
  by unfold_locales

section \<open>Properties\<close>

lemma ready_start:
  assumes "current s = Some c" "mm (procs s c) = Some m" "filesp (procs s c) = Some fp" "fp \<in> F"
    "files_inv x F (fsys s)" "mm_rep (memory s) m vs" "\<forall>b. Some b \<in> set (bufs_next s) \<longrightarrow> unat b + 4096 \<le> 2 ^ 64"
  shows "ready x F m vs (call_buffers E s \<union> user_writable (memory s) vs) c fp s"
  using assms by (auto simp: ready_def call_buffers_def)

text \<open>
  C6: the file system calls keep the data of the kernel well-formed. Whatever the arguments of the
  call, and on every path through it, errors included, the areas of the caller still form a well-formed
  address space, every descriptor of every table is closed or open with count one, and the open and
  reference counts of all inodes still agree with the tables.
\<close>

theorem file_calls_keep_types:
  assumes "dev_io_ops ops fops" and "f \<in> set file_calls" and "call_syscall C ops fops E f args s = Some (r, t)"
    and "current s = Some c" "mm (procs s c) = Some m" "filesp (procs s c) = Some fp" "fp \<in> F"
    and "files_inv x F (fsys s)" "mm_rep (memory s) m vs"
    and "\<forall>b. Some b \<in> set (bufs_next s) \<longrightarrow> unat b + 4096 \<le> 2 ^ 64"
  shows "files_inv x F (fsys t) \<and> mm_rep (memory t) m vs \<and> current t = Some c \<and> mm (procs t c) = Some m \<and>
    filesp (procs t c) = Some fp"
proof -
  have "safe x F m vs (call_buffers E s \<union> user_writable (memory s) vs) c fp s t"
    by (rule dev_io_ops.file_call_safe [OF assms(1) ready_start [OF assms(4-10)] assms(2,3)]) (auto simp: call_buffers_def)
  then show ?thesis by (simp add: safe_def ready_def)
qed

text \<open>
  C5: the file system calls protect memory. Whatever pointers and lengths a process passes, the bytes
  that a file system call changes lie in the buffers that the kernel allocated for the call, in its
  local \<open>struct stat\<close>, or in an area that the process itself may write (and not in the guard page of its
  stack).
\<close>

theorem file_calls_protect_memory:
  assumes "dev_io_ops ops fops" and "f \<in> set file_calls" and "call_syscall C ops fops E f args s = Some (r, t)"
    and "current s = Some c" "mm (procs s c) = Some m" "filesp (procs s c) = Some fp" "fp \<in> F"
    and "files_inv x F (fsys s)" "mm_rep (memory s) m vs"
    and "\<forall>b. Some b \<in> set (bufs_next s) \<longrightarrow> unat b + 4096 \<le> 2 ^ 64"
    and "umem t a \<noteq> umem s a"
  shows "a \<in> call_buffers E s \<union> user_writable (memory s) vs"
proof -
  have "safe x F m vs (call_buffers E s \<union> user_writable (memory s) vs) c fp s t"
    by (rule dev_io_ops.file_call_safe [OF assms(1) ready_start [OF assms(4-10)] assms(2,3)]) (auto simp: call_buffers_def)
  then show ?thesis using assms(11) by (auto simp: safe_def)
qed

section \<open>Witnesses\<close>

text \<open>Process 0 with the address space of \<open>example_vm\<close>, no open file and one page for buffers; its area starts
  with an empty string.\<close>

definition example_caller :: sysmem where
  "example_caller =
     \<lparr>procs = (\<lambda>_. example_proc\<lparr>filesp := Some 0, mm := Some 0, tf := Some 0\<rparr>),
      run_links = \<lparr>next_of = (\<lambda>n. n), prev_of = (\<lambda>n. n)\<rparr>,
      pool = \<lparr>parent_of = (\<lambda>_. None), left_of = (\<lambda>_. None), right_of = (\<lambda>_. None)\<rparr>,
      proc_num = 0, max_time_slice = 5, lab6_run_pool = None,
      current = Some 0, idleproc = Some 0, initproc = None, satp = 0,
      timers = (\<lambda>_. \<lparr>expires = 0, timer_proc = None\<rparr>), timer_links = \<lparr>next_of = (\<lambda>n. n), prev_of = (\<lambda>n. n)\<rparr>,
      waits = (\<lambda>_. \<lparr>wproc = None, wakeup_flags = 0, wait_queue = None\<rparr>),
      wait_links = \<lparr>next_of = (\<lambda>n. n), prev_of = (\<lambda>n. n)\<rparr>, sem_value = (\<lambda>_. 0),
      proc_links = \<lparr>next_of = (\<lambda>n. n), prev_of = (\<lambda>n. n)\<rparr>,
      hash_links = \<lparr>next_of = (\<lambda>n. n), prev_of = (\<lambda>n. n)\<rparr>,
      nr_process = 1, last_pid = MAX_PID, next_safe = MAX_PID,
      memory = example_uvm, fsys = example_files,
      tframes = (\<lambda>_. \<lparr>gpr = (\<lambda>_. 0), tf_status = 0, tf_epc = 0, tf_tval = 0, tf_cause = 0\<rparr>), procs_freed = [],
      umem = (\<lambda>a. if a = 0x801000 then 0 else 65), ticks = 0, bufs_next = [Some 0xFFFFFFFFC0300000], bufs_freed = []\<rparr>"

definition example_env :: kenv where
  "example_env = \<lparr>k_forkret = 0, k_fork = \<lparr>fm_proc = None, fm_mm = None, fm_vmas = [], fm_files = None\<rparr>,
     k_exec = \<lparr>xm_mm = None, xm_vmas = []\<rparr>, k_elf = 0, k_name = 0, k_stat = 0, k_timer = 0, k_sstatus = 0\<rparr>"

lemma example_caller_state:
  "current example_caller = Some 0" "mm (procs example_caller 0) = Some 0" "filesp (procs example_caller 0) = Some 0"
  "files_inv (\<lambda>_. 0) {0} (fsys example_caller)" "mm_rep (memory example_caller) 0 [5]"
  "\<forall>b. Some b \<in> set (bufs_next example_caller) \<longrightarrow> unat b + 4096 \<le> 2 ^ 64"
proof -
  show "files_inv (\<lambda>_. 0) {0} (fsys example_caller)"
    using example_system_files(1) by (simp add: example_caller_def example_system_def)
  show "mm_rep (memory example_caller) 0 [5]"
    using example_vm_rep by (simp add: example_caller_def example_uvm_def mm_rep_def vma_ordered_def)
qed (simp_all add: example_caller_def)

theorem file_calls_keep_types_witness:
  "\<exists>t. call_syscall default_sched_class (\<lambda>_. dev_node_ops) no_fs_ops example_env Sys_close [5] example_caller =
     Some (Sys_returns (- E_INVAL), t) \<and> files_inv (\<lambda>_. 0) {0} (fsys t) \<and> mm_rep (memory t) 0 [5]"
proof -
  have "file_close (\<lambda>_. dev_node_ops) 0 5 example_files = Some (- E_INVAL, example_files)"
    by (simp add: file_close_def fd2file_def testfd_def get_fd_array_def example_tables fd_array_init_def
      FILES_STRUCT_NENTRY_def FILES_STRUCT_BUFSIZE_def)
  then obtain t where t: "call_syscall default_sched_class (\<lambda>_. dev_node_ops) no_fs_ops example_env Sys_close [5] example_caller =
      Some (Sys_returns (- E_INVAL), t)"
    by (simp add: sys_close_def sysfile_close_def on_files_def current_files_def int_arg_def)
      (simp add: example_caller_def)
  show ?thesis
    using file_calls_keep_types [OF dev_calls.dev_io_ops_axioms _ t example_caller_state(1-3) _ example_caller_state(4-6)] t
    by (auto simp: file_calls_def)
qed

lemma example_user_range: "mm_rep u 0 [5] \<Longrightarrow> vmas u = vmas example_vm \<Longrightarrow>
    \<exists>u'. user_mem_check (Some 0) 0x801000 4096 False u = Some (True, u')"
proof -
  assume rep: "mm_rep u 0 [5]" and v: "vmas u = vmas example_vm"
  have ua: "USER_ACCESS 0x801000 (0x801000 + 4096)" by (simp add: USER_ACCESS_def USERBASE_def USERTOP_def)
  have "\<forall>a. 0x801000 \<le> a \<and> a < 0x801000 + 4096 \<longrightarrow> (\<exists>v \<in> set [5]. access_ok u False v a)"
    using v by (simp add: access_ok_def vma_covers_def example_vm_def VM_READ_def)
  then show ?thesis using user_mem_loop_spec [OF rep, of "0x801000" "0x801000 + 4096" False] ua
    by (auto simp: user_mem_check_def)
qed

lemma example_copy_path:
  "\<exists>u. copy_path 0x801000 example_caller = Some (0, Some 0xFFFFFFFFC0300000, example_caller\<lparr>bufs_next := [],
     umem := (umem example_caller)(0xFFFFFFFFC0300000 := 0), memory := u\<rparr>)"
proof -
  let ?u = "memory example_caller" and ?h = "umem example_caller"
  have sem: "mm_sem ?u 0 > 0" by (simp add: example_caller_def example_uvm_def)
  have bufs: "bufs_next example_caller = [Some 0xFFFFFFFFC0300000]" by (simp add: example_caller_def)
  have pid0: "pid (procs example_caller 0) = pid example_proc" by (simp add: example_caller_def)
  obtain u1 where l: "lock_mm (Some (pid example_proc)) (Some 0) ?u = Some u1" "mm_rep u1 0 [5] = mm_rep ?u 0 [5]"
      "vmas u1 = vmas ?u"
    by (rule lock_mm_ok [OF sem])
  obtain u2 where c: "user_mem_check (Some 0) 0x801000 4096 False u1 = Some (True, u2)"
    using example_user_range [of u1] l example_caller_state(5) by (auto simp: example_caller_def example_uvm_def)
  have z: "strnlen ?h 0x801000 4096 = 0"
    using strnlen_loop_cstr [of ?h "0x801000" "[]" 0 4096] by (simp add: strnlen_def example_caller_def)
  have part: "ROUNDDOWN (0x801000 + PGSIZE) PGSIZE - 0x801000 = 4096" by (simp add: ROUNDDOWN_def PGSIZE_def)
  have "copy_string (Some 0) 0xFFFFFFFFC0300000 0x801000 4096 ?h u1 = Some (True, ?h(0xFFFFFFFFC0300000 := 0), u2)"
    unfolding copy_string_def part using c z
    by (subst copy_string_loop.simps) (simp add: Let_def, simp add: example_caller_def)
  then have "locked (Some 0) (copy_string (Some 0) 0xFFFFFFFFC0300000 0x801000 4096) (example_caller\<lparr>bufs_next := []\<rparr>) =
      Some (True, example_caller\<lparr>bufs_next := [], umem := ?h(0xFFFFFFFFC0300000 := 0), memory := unlock_mm (Some 0) u2\<rparr>)"
    using l(1) example_caller_state(1) pid0 by (simp add: locked_def sys_lock_mm_def sys_unlock_mm_def)
  then show ?thesis using example_caller_state(1,2) bufs
    by (intro exI [of _ "unlock_mm (Some 0) u2"]) (simp add: copy_path_def current_mm_def kmalloc_buf_def FS_MAX_FPATH_LEN_def)
qed

theorem file_calls_protect_memory_witness:
  "\<exists>t. call_syscall default_sched_class (\<lambda>_. dev_node_ops) no_fs_ops example_env Sys_open [0x801000, 3] example_caller =
     Some (Sys_returns (- E_INVAL), t) \<and>
     0xFFFFFFFFC0300000 \<in> call_buffers example_env example_caller \<union> user_writable (memory example_caller) [5]"
proof -
  obtain u where p: "copy_path 0x801000 example_caller = Some (0, Some 0xFFFFFFFFC0300000, example_caller\<lparr>bufs_next := [],
     umem := (umem example_caller)(0xFFFFFFFFC0300000 := 0), memory := u\<rparr>)" (is "_ = Some (_, _, ?s)")
    using example_copy_path by blast
  have cf: "current_files ?s = Some 0" using example_caller_state(1,3) by (simp add: current_files_def)
  have "file_open (\<lambda>_. dev_node_ops) no_fs_ops 0 path 3 v = Some (- E_INVAL, v)" for path and v :: devices
    by (simp add: file_open_def O_ACCMODE_def O_RDONLY_def O_WRONLY_def O_RDWR_def)
  then have t: "call_syscall default_sched_class (\<lambda>_. dev_node_ops) no_fs_ops example_env Sys_open [0x801000, 3] example_caller =
      Some (Sys_returns (- E_INVAL), kfree_buf 0xFFFFFFFFC0300000 ?s)"
    using p cf by (simp add: sys_open_def sysfile_open_def with_path_def)
  have "umem (kfree_buf 0xFFFFFFFFC0300000 ?s) 0xFFFFFFFFC0300000 \<noteq> umem example_caller 0xFFFFFFFFC0300000"
    by (simp add: kfree_buf_def example_caller_def)
  from file_calls_protect_memory [OF dev_calls.dev_io_ops_axioms _ t example_caller_state(1-3) _ example_caller_state(4-6) this]
  show ?thesis using t by (auto simp: file_calls_def)
qed

end
