(* ===== verification/LoadTail.thy ===== *)
theory LoadTail
imports FileCalls
begin

text \<open>
  A finding on \<open>load_icode\<close> of \<open>kern/process/proc.c\<close>: what becomes of the page on which the file part of
  a segment ends.
\<close>

section \<open>The page on which the file part of a segment ends\<close>

lemma alloc_space_ok:
  assumes ok: "space_ok h d" and al: "alloc_page h = Some (Some q, h1)"
    and above: "k \<in> list_free_set (phys h)" "k \<noteq> q" "\<forall>p. user_page h d p \<longrightarrow> p < k"
  shows "space_ok h1 d" "q \<in> list_free_set (phys h)" "q \<notin> list_free_set (phys h1)" "npage h1 = npage h"
    "frames h1 = frames h" "page_ref h1 p = page_ref h p"
proof -
  note pt = space_okD(1) [OF ok]
  have "list_inv (phys h1) \<and> q \<in> list_free_set (phys h) \<and> list_free_set (phys h1) = list_free_set (phys h) - {q} \<and>
      npage h1 = npage h \<and> frames h1 = frames h \<and> (\<forall>p. page_ref h1 p = page_ref h p) \<and>
      (\<forall>p. PageReserved (page_of (phys h1) p) = PageReserved (page_of (phys h) p))"
    using pt_okD(1) [OF pt] by (cases rule: alloc_page_spec) (use al in auto)
  then have A: "list_inv (phys h1)" "q \<in> list_free_set (phys h)" "list_free_set (phys h1) = list_free_set (phys h) - {q}"
    "npage h1 = npage h" "frames h1 = frames h" "page_ref h1 p = page_ref h p"
    "PageReserved (page_of (phys h1) p) = PageReserved (page_of (phys h) p)" for p by simp_all
  have n: "node h1 d xs = node h d xs" for xs by (rule node_frames [OF A(5)])
  have e: "entry h1 d la = entry h d la" for la by (rule entry_frames [OF A(5)])
  have "pt_ok h1 d" using pt unfolding pt_ok_def n A(3,4) by (simp add: A(1))
  moreover have "user_page h1 d p" if "user_page h d p" for p
    using that above unfolding user_page_def n A(3,4,6,7) by blast
  ultimately show "space_ok h1 d" using ok unfolding space_ok_def e A(4) by blast
  show "q \<in> list_free_set (phys h)" "q \<notin> list_free_set (phys h1)" "npage h1 = npage h" "frames h1 = frames h"
    "page_ref h1 p = page_ref h p" using A by simp_all
qed

lemma memset_other: "x < a \<or> a + n \<le> x \<Longrightarrow> memset a c n m x = m x"
  by (induction a c n m rule: memset.induct) auto

lemma seg_page_remaps:
  assumes ok: "space_ok (mach (memory s)) d" and al: "alloc_page (mach (memory s)) = Some (Some q, h1)"
    and above: "k \<in> list_free_set (phys (mach (memory s)))" "k \<noteq> q" "\<forall>p. user_page (mach (memory s)) d p \<longrightarrow> p < k"
    and ref: "page_ref (mach (memory s)) q = 0" and perm: "take_bit 10 perm = perm"
    and old: "valid (entry (mach (memory s)) d la)" "PPN (PTE_ADDR (entry (mach (memory s)) d la)) = p + nbase"
      "user_page (mach (memory s)) d p"
  obtains a h2 where "seg_page d perm la s = Some (Some a, s\<lparr>memory := upd_mach h2 (memory s)\<rparr>)" "page_addr h2 q = Some a"
    "pt_ok h2 d" "entry h2 d la = leaf_pte q perm" "q \<noteq> p" "q + nbase < npage h2"
proof -
  let ?h = "mach (memory s)"
  note A = alloc_space_ok [OF ok al above]
  have n: "node h1 d xs = node ?h d xs" for xs by (rule node_frames [OF A(5)])
  have e: "entry h1 d la = entry ?h d la" by (rule entry_frames [OF A(5)])
  have q: "q + nbase < npage h1" using pt_okD(3) [OF space_okD(1) [OF ok] A(2)] A(4) by simp
  have fresh: "\<forall>xs \<in> paths. node h1 d xs \<noteq> Some (q + nbase)"
    using pt_okD(6) [OF space_okD(1) [OF ok], of _ "q + nbase"] A(2) by (auto simp: n)
  have qp: "q \<noteq> p" using old(3) A(2) by (auto simp: user_page_def)
  have np: "npage h1 \<le> 2 ^ 52" by (rule pt_okD(2) [OF space_okD(1) [OF A(1)]])
  from page_insert_spec [OF A(1) q A(3) fresh, of la perm] show thesis
  proof cases
    case (1 s')
    then have "node ?h d (leaf_path la) = None" by (simp add: n)
    then show thesis using old(1) by (simp add: entry_def)
  next
    case (2 h2)
    have r1: "page_ref h2 q = 1" using 2(5) qp old(2) ref e A(6) [of q] by simp
    have k: "page2kva h2 q = Some (q + nbase)" using q 2(3) np by (simp add: page2kva_def KADDR_def)
    then obtain a where a: "page_addr h2 q = Some a" by (simp add: page_addr_def)
    have "pgdir_alloc_page d la perm ?h = Some (Some q, h2)" using al 2(1) r1 by (simp add: pgdir_alloc_page_def)
    then have "seg_page d perm la s = Some (Some a, s\<lparr>memory := upd_mach h2 (memory s)\<rparr>)" using a by (simp add: seg_page_def)
    then show thesis by (rule that [OF _ a 2(2)]) (use 2(3,4) qp q in \<open>simp_all add: same_page_def\<close>)
  qed
qed

lemma get_page_mapped:
  assumes ok: "pt_ok h d" and g: "get_page d la h = Some (Some p, ptep)"
  shows "valid (entry h d la)" "PPN (PTE_ADDR (entry h d la)) = p + nbase"
proof -
  obtain r h1 where f: "get_pte d la False h = Some (map_option (\<lambda>t. (t, PTX la)) r, h1)"
    "node h1 d (leaf_path la) = r" "\<not> False \<longrightarrow> h1 = h"
    by (rule get_pte_spec [OF ok, where create = False and la = la])
  then obtain t where t: "r = Some t" "h1 = h" using g by (cases r) (auto simp: get_page_def)
  then have e: "entry h d la = frames h t (PTX la)" using f by (simp add: entry_def)
  have v: "valid (frames h t (PTX la))" "pte2page h (frames h t (PTX la)) = Some p"
    using g f t by (auto simp: get_page_def bind_eq_Some_conv split: if_splits)
  show "valid (entry h d la)" using v(1) e by simp
  show "PPN (PTE_ADDR (entry h d la)) = p + nbase" using v(2) e by (auto simp: pte2page_def pa2page_def split: if_splits)
qed

lemma zero_mem_machine [simp]: "mach (memory (zero_mem a n s)) = mach (memory s)"
  by (simp add: zero_mem_def)

text \<open>
  C13: the tail of the file part of a segment is lost. When the bytes of a segment that come from the
  file end inside a page and memory goes on on that page, \<open>load_icode\<close> maps a second, new page there
  for the zero bytes instead of clearing the rest of the page that was read: afterwards the address is
  mapped to a page that \<open>load_icode\<close> has written nowhere but in the zeroed part.
\<close>

theorem load_icode_loses_file_tail:
  assumes "space_ok (mach (memory s)) d" "page_la = ROUNDDOWN start PGSIZE" "start \<noteq> page_la"
    and "start < end_mem" "end_mem \<le> page_la + PGSIZE" "page_la \<le> page_la + PGSIZE"
    and "get_page d page_la (mach (memory s)) = Some (Some p, ptep)" "user_page (mach (memory s)) d p"
    and "alloc_page (mach (memory s)) = Some (Some q, h1)" "page_ref (mach (memory s)) q = 0"
    and "k \<in> list_free_set (phys (mach (memory s)))" "k \<noteq> q" "\<forall>p. user_page (mach (memory s)) d p \<longrightarrow> p < k"
    and "take_bit 10 perm = perm"
  shows "\<exists>t a ptep. seg_zero d perm end_mem start s = Some (False, t) \<and>
    get_page d page_la (mach (memory t)) = Some (Some q, ptep) \<and> q \<noteq> p \<and> page_addr (mach (memory t)) q = Some a \<and>
    (\<forall>x. x < unat (a + (start - page_la)) \<or> unat (a + (start - page_la)) + unat (end_mem - start) \<le> x \<longrightarrow> umem t x = umem s x)"
proof -
  let ?h = "mach (memory s)"
  note pt = space_okD(1) [OF assms(1)]
  obtain a h2 where r: "seg_page d perm page_la s = Some (Some a, s\<lparr>memory := upd_mach h2 (memory s)\<rparr>)"
    "page_addr h2 q = Some a" "pt_ok h2 d" "entry h2 d page_la = leaf_pte q perm" "q \<noteq> p" "q + nbase < npage h2"
    by (rule seg_page_remaps [OF assms(1,9,11-13,10,14) get_page_mapped [OF pt assms(7)] assms(8)])
  let ?t = "zero_mem (a + (start - page_la)) (end_mem - start) (s\<lparr>memory := upd_mach h2 (memory s)\<rparr>)"
  have m: "mach (memory ?t) = h2" by (simp add: upd_mach_def)
  have len: "(if end_mem < page_la + PGSIZE then end_mem - start else PGSIZE - (start - page_la)) = end_mem - start"
  proof (cases "end_mem < page_la + PGSIZE")
    case False
    then have "end_mem = page_la + PGSIZE" using assms(5) by simp
    then show ?thesis by (simp add: algebra_simps)
  qed simp
  have stop: "seg_zero_loop d perm end_mem (start + (end_mem - start)) la' u = Some (False, u)" for la' u
    by (subst seg_zero_loop.simps) simp
  have off: "start - page_la \<noteq> 0" using assms(3) by simp
  have run: "seg_zero d perm end_mem start s = Some (False, ?t)"
    unfolding seg_zero_def Let_def assms(2) [symmetric] len
    by (simp only: assms(4) if_True off not_False_eq_True r(1) bind.bind_lunit prod.case option.case stop)
  have "q + nbase < 2 ^ 52" using r(6) pt_okD(2) [OF r(3)] by simp
  then have "\<exists>ptep. get_page d page_la h2 = Some (Some q, Some ptep) \<and> deref h2 ptep = entry h2 d page_la"
    using r(4,6) assms(14) by (intro get_page_entry [OF r(3)]) simp_all
  then obtain e where "get_page d page_la (mach (memory ?t)) = Some (Some q, Some e)" unfolding m by blast
  moreover have "umem ?t x = umem s x"
    if "x < unat (a + (start - page_la)) \<or> unat (a + (start - page_la)) + unat (end_mem - start) \<le> x" for x
    using memset_other [OF that] by (simp add: zero_mem_def)
  ultimately have "seg_zero d perm end_mem start s = Some (False, ?t) \<and>
    get_page d page_la (mach (memory ?t)) = Some (Some q, Some e) \<and> q \<noteq> p \<and> page_addr (mach (memory ?t)) q = Some a \<and>
    (\<forall>x. x < unat (a + (start - page_la)) \<or> unat (a + (start - page_la)) + unat (end_mem - start) \<le> x \<longrightarrow>
       umem ?t x = umem s x)" using run r(2,5) unfolding m by simp
  then show ?thesis by (intro exI)
qed

text \<open>A segment whose file part ends at \<open>0x800100\<close>, on page 7, and whose memory ends at \<open>0x800200\<close>.\<close>

definition example_loader :: sysmem where
  "example_loader = example_caller\<lparr>memory := upd_mach example_machine example_uvm\<rparr>"

lemma example_loader_machine: "mach (memory example_loader) = example_machine"
  by (simp add: example_loader_def upd_mach_def)

lemma example_page_ref: "page_ref example_machine p = (if p = 7 then 1 else 0)"
  by (simp add: example_machine_def page_ref_def example_pmm_def)

theorem load_icode_loses_file_tail_witness:
  "\<exists>t q old new. get_page nbase 0x800000 (mach (memory example_loader)) = Some (Some 7, old) \<and>
     seg_zero nbase 0x17 0x800200 0x800100 example_loader = Some (False, t) \<and>
     get_page nbase 0x800000 (mach (memory t)) = Some (Some q, new) \<and> q \<noteq> 7"
proof -
  have e: "entry example_machine nbase 0x800000 = leaf_pte 7 0x17"
    by (simp add: PTX_def PDX1_def PDX0_def example_entry)
  have v: "valid (entry example_machine nbase 0x800000)" "PPN (PTE_ADDR (entry example_machine nbase 0x800000)) = 7 + nbase"
      "7 + nbase < npage example_machine"
    unfolding e by (simp_all add: PPN_leaf_pte nbase_def take_bit_eq_mod leaf_pte_valid example_machine_def)
  obtain old where g: "get_page nbase 0x800000 example_machine = Some (Some 7, Some old)"
    using get_page_entry [OF example_pt_ok v] by blast
  have u: "p = 7" if "user_page example_machine nbase p" for p
    using that by (simp add: user_page_def example_page_ref split: if_splits)
  have "\<forall>xs \<in> paths. node example_machine nbase xs \<noteq> Some (7 + nbase)" using example_node by force
  moreover have "\<not> PageReserved (page_of (phys example_machine) 7)" "npage example_machine = nbase + 16"
    by (simp_all add: example_machine_def example_pmm_def PageReserved_def PG_reserved_def)
  ultimately have u7: "user_page example_machine nbase 7"
    unfolding user_page_def example_inv by (simp add: example_page_ref)
  obtain q h1 where a: "alloc_page example_machine = Some (Some q, h1)" "q \<in> {2, 3, 4, 10, 11, 12, 13, 14}"
    by (cases rule: alloc_page_spec [OF example_inv(1)]) (auto simp: example_inv)
  define k :: nat where "k = (if q = 14 then 13 else 14)"
  have k: "k \<in> list_free_set (phys example_machine)" "k \<noteq> q" unfolding k_def example_inv by simp_all
  have k7: "p < k" if "user_page example_machine nbase p" for p using u [OF that] by (simp add: k_def)
  have r: "page_ref example_machine q = 0" "user_page example_machine nbase 7" using a(2) u7 by (auto simp: example_page_ref)
  have n: "0x800000 = ROUNDDOWN 0x800100 PGSIZE" "(0x800100 :: 64 word) \<noteq> 0x800000" "(0x800100 :: 64 word) < 0x800200"
      "(0x800200 :: 64 word) \<le> 0x800000 + PGSIZE" "(0x800000 :: 64 word) \<le> 0x800000 + PGSIZE"
      "take_bit 10 (0x17 :: 32 word) = 0x17"
    by (simp_all add: ROUNDDOWN_def PGSIZE_def take_bit_eq_mod)
  show ?thesis
    using load_icode_loses_file_tail [OF _ n(1-5), of example_loader nbase 7 "Some old" q h1 k "0x17"]
    unfolding example_loader_machine using example_space_ok g r a(1) k k7 n(6) by blast
qed

end
