(* ===== verification/Console.thy ===== *)
theory Console
imports FileCalls
begin

text \<open>
  The system call \<open>write\<close> on the console, from the registers of the caller through \<open>sysfile_write\<close>,
  \<open>file_write\<close> and the device table to \<open>stdout_io\<close>.
\<close>

section \<open>Copying in\<close>

lemma more_mm_sem: "vm.more u' = vm.more u \<Longrightarrow> mm_sem u' = mm_sem (u :: 'a uvm_scheme)"
  by (cases u; cases u') simp

lemma from_user_ok:
  fixes s :: "'a sysmem_scheme"
  assumes rep: "mm_rep (memory s) m vs" and sem: "mm_sem (memory s) m > 0" and ua: "USER_ACCESS base (base + len)"
    and rd: "\<forall>a. base \<le> a \<and> a < base + len \<longrightarrow> (\<exists>v \<in> set vs. access_ok (memory s) False v a)"
  obtains u where "from_user (Some m) dst base len False s =
      Some (True, s\<lparr>umem := memcpy (unat dst) (unat base) (unat len) (umem s), memory := u\<rparr>)"
    "mm_rep u m vs" "vmas u = vmas (memory s)" "mm_sem u = mm_sem (memory s)"
proof -
  obtain u1 where l: "lock_mm (map_option (\<lambda>c. pid (procs s c)) (current s)) (Some m) (memory s) = Some u1"
    "mm_rep u1 m vs = mm_rep (memory s) m vs" "vmas u1 = vmas (memory s)" "mm_sem u1 = (mm_sem (memory s))(m := mm_sem (memory s) m - 1)"
    by (rule lock_mm_ok [OF sem])
  have rep1: "mm_rep u1 m vs" using l(2) rep by simp
  obtain r u2 where c: "user_mem_check (Some m) base len False u1 = Some (r, u2)"
    using user_mem_loop_spec [OF rep1, of base "base + len" False] ua by (auto simp: user_mem_check_def)
  note U = user_mem_check_cases [OF rep1 c] user_mem_check_more [OF c]
  have r: r using U(3) ua rd l(3) by (simp add: access_ok_def vma_covers_def)
  let ?u = "unlock_mm (Some m) u2"
  have "mm_sem u2 = mm_sem u1" by (rule more_mm_sem [OF U(4)])
  then have m3: "mm_sem ?u = mm_sem (memory s)" using l(4) by (simp add: unlock_mm_def upd_mm_def sem_up_def)
  have "from_user (Some m) dst base len False s =
      Some (True, s\<lparr>umem := memcpy (unat dst) (unat base) (unat len) (umem s), memory := ?u\<rparr>)"
    using l(1) c r by (simp add: from_user_def locked_def sys_lock_mm_def sys_unlock_mm_def copy_from_user_def)
  then show thesis by (rule that) (use U(1,2) l(3) m3 in \<open>simp_all add: unlock_mm_rep\<close>)
qed

section \<open>Writing to the device\<close>

text \<open>The descriptor \<open>n\<close> of the table \<open>fp\<close> is open for writing on the inode \<open>nd\<close> of the console.\<close>

definition console_open :: "nat \<Rightarrow> int \<Rightarrow> nat \<Rightarrow> 'a devices_scheme \<Rightarrow> bool" where
  "console_open fp n nd v \<longleftrightarrow> testfd n \<and> files_count (filesps v fp) > 0 \<and> nat n < length (fd_array (filesps v fp)) \<and>
     status (file_at fp (nat n) v) = FD_OPENED \<and> fd (file_at fp (nat n) v) = n \<and> writable (file_at fp (nat n) v) \<and>
     file_struct.node (file_at fp (nat n) v) = Some nd \<and> open_count (file_at fp (nat n) v) > 0 \<and> inode_check nd v \<and>
     dv_ops (device_of v nd) = Dev_stdout"

lemma upd_file_devices:
  "i < length (fd_array (filesps v fp)) \<Longrightarrow> file_at fp i (upd_file fp i g v) = g (file_at fp i v)"
  "length (fd_array (filesps (upd_file fp i g v) fp)) = length (fd_array (filesps v fp))"
  "files_count (filesps (upd_file fp i g v) fp) = files_count (filesps v fp)"
  "inode_check nd (upd_file fp i g v) = inode_check nd v"
  "console (upd_file fp i g w) = console w" "device_of (upd_file fp i g w) = device_of w"
  by (simp_all add: upd_file_def upd_files_def file_at_def inode_check_def)

lemma console_write_iob:
  assumes "dv_ops (device_of v nd) = Dev_stdout" "inode_check nd v" "ops nd = dev_node_ops" "len \<le> length h"
  shows "vop_write ops nd (iobuf_init h 0 len k) v =
    Some (0, (iobuf_init h 0 len k)\<lparr>io_resid := 0\<rparr>, v\<lparr>console := console v @ serial_text (take len h)\<rparr>)"
  using assms by (simp add: vop_write_def vop_op_def dev_node_ops_def dev_write_def dev_dop_io_def stdout_io_def iobuf_init_def)

lemma file_write_console:
  assumes op: "console_open fp n nd v" and ops: "ops nd = dev_node_ops" and len: "len \<le> length h"
  obtains w where "file_write ops fp n h 0 len v = Some (0, len, w)" "console w = console v @ serial_text (take len h)"
    "console_open fp n nd w"
proof -
  note C = op [unfolded console_open_def]
  let ?i = "nat n"
  let ?k = "nat (pos (file_at fp ?i (upd_file fp ?i fopen_count_inc v)))"
  let ?v1 = "upd_file fp ?i fopen_count_inc v"
  let ?v2 = "?v1\<lparr>console := console v @ serial_text (take len h)\<rparr>"
  let ?v3 = "upd_file fp ?i (\<lambda>f. f\<lparr>pos := pos f + int len\<rparr>) ?v2"
  let ?w = "upd_file fp ?i fopen_count_dec ?v3"
  have at2: "file_at fp ?i ?v2 = file_at fp ?i ?v1" by (simp add: file_at_def)
  have fields: "filesps ?v2 = filesps ?v1" "device_of ?v2 = device_of ?v1" "inode_check nd ?v2 = inode_check nd ?v1"
    by (simp_all add: inode_check_def)
  note F = upd_file_devices fields at2 fopen_count_inc_def fopen_count_dec_def
  have wr: "vop_write ops nd (iobuf_init h 0 len ?k) ?v1 = Some (0, (iobuf_init h 0 len ?k)\<lparr>io_resid := 0\<rparr>, ?v2)"
    using console_write_iob [of ?v1 nd ops len h ?k] C ops len by (simp add: F)
  have fd: "fd2file fp n v = Some (0, Some ?i)"
    using C by (simp add: fd2file_def get_fd_array_def file_at_def bind_kassert)
  have "file_write ops fp n h 0 len v = Some (0, len, ?w)"
    using C wr fd by (simp add: file_write_def fd_array_acquire_def fd_array_release_def bind_kassert Let_def F
      iobuf_used_def iobuf_init_def)
  moreover have "console ?w = console v @ serial_text (take len h)" by (simp add: F)
  moreover have "console_open fp n nd ?w" using C by (simp add: console_open_def F)
  ultimately show thesis by (rule that)
qed

section \<open>The whole transfer\<close>

lemma load_bytes_cong: "(\<And>i. i < n \<Longrightarrow> h' (unat a + i) = h (unat a + i)) \<Longrightarrow> load_bytes h' a n = load_bytes h a n"
  by (simp add: load_bytes_def)

lemma load_bytes_append:
  "unat (a + k) = unat a + unat k \<Longrightarrow> load_bytes h a (unat k) @ load_bytes h (a + k) n = load_bytes h a (unat k + n)"
  by (rule nth_equalityI) (auto simp: load_bytes_def nth_append)

lemma take_load_bytes: "k \<le> n \<Longrightarrow> take k (load_bytes h a n) = load_bytes h a k"
  by (simp add: load_bytes_def take_map take_upt)

text \<open>What the process has to offer: readable bytes, an unlocked address space and the open console.\<close>

definition can_print ::
  "nat \<Rightarrow> nat list \<Rightarrow> nat \<Rightarrow> int \<Rightarrow> nat \<Rightarrow> 64 word \<Rightarrow> 64 word \<Rightarrow> 'a sysmem_scheme \<Rightarrow> bool" where
  "can_print m vs fp n nd base len s \<longleftrightarrow>
     current_files s = Some fp \<and> mm_rep (memory s) m vs \<and> mm_sem (memory s) m > 0 \<and> console_open fp n nd (fsys s) \<and>
     (len \<noteq> 0 \<longrightarrow> USER_ACCESS base (base + len)) \<and>
     (\<forall>a. base \<le> a \<and> a < base + len \<longrightarrow> (\<exists>v \<in> set vs. access_ok (memory s) False v a))"

lemma chunk_len_le: "chunk_len len \<le> len" "unat (chunk_len len) \<le> 4096" "len \<noteq> 0 \<Longrightarrow> chunk_len len \<noteq> 0"
  using chunk_le [of len] by (auto simp: chunk_len_def IOBUF_SIZE_def)

lemma unat_add_part:
  assumes "unat base + unat len \<le> K" "K < 2 ^ 64" "k \<le> (len :: 64 word)"
  shows "unat (base + k) = unat base + unat k" "unat (len - k) = unat len - unat k" "unat k \<le> unat len"
proof -
  show k: "unat k \<le> unat len" using assms(3) by (simp add: word_le_nat_alt)
  have "unat base + unat k < 2 ^ 64" using assms(1,2) k by linarith
  then show "unat (base + k) = unat base + unat k" by (simp add: unat_word_ariths)
  show "unat (len - k) = unat len - unat k" by (rule unat_sub [OF assms(3)])
qed

lemma write_chunk_console:
  fixes s :: "'a sysmem_scheme"
  assumes ok: "can_print m vs fp n nd base len s" and ops: "ops nd = dev_node_ops" and len: "len \<noteq> 0"
    and apart: "unat base + unat len \<le> unat b"
  obtains t where "write_chunk ops (Some m) n b base len s = Some (0, chunk_len len, chunk_len len, t)"
    "can_print m vs fp n nd (base + chunk_len len) (len - chunk_len len) t"
    "console (fsys t) = console (fsys s) @ serial_text (load_bytes (umem s) base (unat (chunk_len len)))"
    "\<forall>x < unat b. umem t x = umem s x" "procs t = procs s" "current t = current s" "bufs_freed t = bufs_freed s"
    "tframes t = tframes s"
proof -
  let ?k = "chunk_len len"
  note O = ok [unfolded can_print_def]
  have ua: "USER_ACCESS base (base + len)" using O len by simp
  have b64: "unat b < 2 ^ 64" using unsigned_less [of b, where ?'a = nat] by simp
  note K = unat_add_part [OF apart b64 chunk_len_le(1)] and L = user_range_unat [OF ua]
  have klen: "0 < unat ?k" "unat ?k \<le> 4096" using chunk_len_le(2,3) len by (auto simp: unat_gt_0)
  have bounds: "base < base + ?k" "base + ?k \<le> base + len"
    using K klen L by (simp_all add: word_less_nat_alt word_le_nat_alt)
  have uak: "USER_ACCESS base (base + ?k)" using ua bounds by (auto simp: USER_ACCESS_def)
  have rdk: "\<forall>a. base \<le> a \<and> a < base + ?k \<longrightarrow> (\<exists>v \<in> set vs. access_ok (memory s) False v a)"
    using O bounds(2) less_le_trans by blast
  obtain u where fu: "from_user (Some m) b base ?k False s =
      Some (True, s\<lparr>umem := memcpy (unat b) (unat base) (unat ?k) (umem s), memory := u\<rparr>)"
    "mm_rep u m vs" "vmas u = vmas (memory s)" "mm_sem u = mm_sem (memory s)"
    by (rule from_user_ok [OF _ _ uak rdk, where dst = b]) (use O in blast)+
  let ?h = "memcpy (unat b) (unat base) (unat ?k) (umem s)"
  let ?s1 = "s\<lparr>umem := ?h, memory := u\<rparr>"
  obtain w where w: "file_write ops fp n (load_bytes ?h b 4096) 0 (unat ?k) (fsys s) = Some (0, unat ?k, w)"
    "console w = console (fsys s) @ serial_text (take (unat ?k) (load_bytes ?h b 4096))" "console_open fp n nd w"
    by (rule file_write_console [of fp n nd "fsys s" ops "unat ?k" "load_bytes ?h b 4096"]) (use O ops klen in simp_all)
  let ?t = "s\<lparr>umem := ?h, memory := u, fsys := w\<rparr>"
  have cf: "current_files ?s1 = Some fp" "current_files ?t = Some fp" using O by (simp_all add: current_files_def)
  have "put_chunk ops n b len ?s1 = Some (0, ?k, ?k, ?t)"
    using w(1) cf chunk_len_le(1) by (simp add: put_chunk_def Let_def bind_kassert)
  then have run: "write_chunk ops (Some m) n b base len s = Some (0, ?k, ?k, ?t)"
    using fu(1) by (simp add: write_chunk_def)
  have bytes: "take (unat ?k) (load_bytes ?h b 4096) = load_bytes (umem s) base (unat ?k)"
  proof -
    have "?h (unat b + i) = umem s (unat base + i)" if "i < unat ?k" for i
      by (rule memcpy_bytes [OF _ that]) (use apart K(3) in linarith)
    then show ?thesis unfolding take_load_bytes [OF klen(2)] by (simp add: load_bytes_def)
  qed
  have rest: "base + ?k + (len - ?k) = base + len" by simp
  have "can_print m vs fp n nd (base + ?k) (len - ?k) ?t"
    unfolding can_print_def rest
  proof (intro conjI)
    show "len - ?k \<noteq> 0 \<longrightarrow> USER_ACCESS (base + ?k) (base + len)"
    proof
      assume "len - ?k \<noteq> 0"
      then have "?k \<noteq> len" by auto
      then have "unat ?k \<noteq> unat len" unfolding word_unat_eq_iff .
      then have "unat (base + ?k) < unat (base + len)" using K L by simp
      then have "base + ?k < base + len" by (simp only: word_less_nat_alt)
      moreover have "USERBASE \<le> base + ?k" using ua bounds(1) by (auto simp: USER_ACCESS_def)
      ultimately show "USER_ACCESS (base + ?k) (base + len)" using ua by (simp add: USER_ACCESS_def)
    qed
    show "\<forall>a. base + ?k \<le> a \<and> a < base + len \<longrightarrow> (\<exists>v\<in>set vs. access_ok (memory ?t) False v a)"
    proof (intro allI impI)
      fix a assume a: "base + ?k \<le> a \<and> a < base + len"
      then have "base \<le> a" using bounds(1) by (meson less_imp_le order.trans)
      then show "\<exists>v\<in>set vs. access_ok (memory ?t) False v a" using a O fu(3) by (simp add: access_ok_def vma_covers_def)
    qed
  qed (use cf(2) fu w O in simp_all)
  then show thesis by (rule that [OF run]) (use w(2) bytes in \<open>simp_all add: memcpy_other\<close>)
qed

lemma transfer_console:
  fixes s :: "'a sysmem_scheme"
  assumes "can_print m vs fp n nd base len s" "ops nd = dev_node_ops" "unat base + unat len \<le> unat b"
  shows "\<exists>t. transfer_loop (write_chunk ops (Some m) n b) base len copied s = Some (0, copied + len, t) \<and>
    console (fsys t) = console (fsys s) @ serial_text (load_bytes (umem s) base (unat len)) \<and>
    procs t = procs s \<and> current t = current s \<and> bufs_freed t = bufs_freed s \<and> tframes t = tframes s"
  using assms
proof (induction "unat len" arbitrary: base len copied s rule: less_induct)
  case less
  show ?case
  proof (cases "len = 0")
    case True
    then show ?thesis by (subst transfer_loop.simps) (simp add: load_bytes_def serial_text_def)
  next
    case False
    let ?k = "chunk_len len"
    obtain t where t: "write_chunk ops (Some m) n b base len s = Some (0, ?k, ?k, t)"
      "can_print m vs fp n nd (base + ?k) (len - ?k) t"
      "console (fsys t) = console (fsys s) @ serial_text (load_bytes (umem s) base (unat ?k))"
      "\<forall>x < unat b. umem t x = umem s x" "procs t = procs s" "current t = current s" "bufs_freed t = bufs_freed s"
      "tframes t = tframes s"
      by (rule write_chunk_console [where ops = ops, OF less.prems(1,2) False less.prems(3)])
    have b64: "unat b < 2 ^ 64" using unsigned_less [of b, where ?'a = nat] by simp
    note K = unat_add_part [OF less.prems(3) b64 chunk_len_le(1)]
    have k: "?k \<noteq> 0" by (rule chunk_len_le(3) [OF False])
    have "unat (len - ?k) < unat len" using K k False by (simp add: unat_gt_0 [symmetric] del: unat_gt_0)
    then obtain u where u: "transfer_loop (write_chunk ops (Some m) n b) (base + ?k) (len - ?k) (copied + ?k) t =
          Some (0, copied + ?k + (len - ?k), u)"
        "console (fsys u) = console (fsys t) @ serial_text (load_bytes (umem t) (base + ?k) (unat (len - ?k)))"
        "procs u = procs t" "current u = current t" "bufs_freed u = bufs_freed t" "tframes u = tframes t"
      using less.hyps [OF _ t(2) less.prems(2), of "copied + ?k"] K less.prems(3) by fastforce
    have same: "load_bytes (umem t) (base + ?k) (unat (len - ?k)) = load_bytes (umem s) (base + ?k) (unat (len - ?k))"
      by (rule load_bytes_cong) (use t(4) K less.prems(3) in simp)
    have "load_bytes (umem s) base (unat ?k) @ load_bytes (umem s) (base + ?k) (unat (len - ?k)) =
        load_bytes (umem s) base (unat len)"
      unfolding load_bytes_append [OF K(1)] using K(2,3) by simp
    then have "console (fsys u) = console (fsys s) @ serial_text (load_bytes (umem s) base (unat len))"
      using u(2) t(3) same by (simp flip: serial_text_append)
    moreover have "transfer_loop (write_chunk ops (Some m) n b) base len copied s = Some (0, copied + len, u)"
      using t(1) u(1) k False by (subst transfer_loop.simps) simp
    ultimately show ?thesis using t u by (intro exI [of _ u]) simp
  qed
qed

section \<open>The system call\<close>

lemma sint_small_ucast:
  fixes len :: "64 word"
  assumes "unat len < 2 ^ 31"
  shows "sint (ucast len :: 32 word) = int (unat len)"
proof -
  from assms have "int (unat len) < int (2 ^ 31)" by (simp only: of_nat_less_iff)
  then have l: "uint len < 2 ^ 31" by simp
  then have a: "uint (ucast len :: 32 word) = uint len" by (simp add: unsigned_ucast_eq take_bit_int_eq_self_iff)
  have "sint (ucast len :: 32 word) = signed_take_bit 31 (uint len)" unfolding sint_uint a by simp
  also have "\<dots> = uint len"
  proof (rule signed_take_bit_int_eq_self)
    show "- (2 ^ 31) \<le> uint len" by (rule order_trans [of _ 0]) simp_all
  qed (fact l)
  finally show ?thesis by simp
qed

lemma user_len_int:
  assumes "USER_ACCESS base (base + len)"
  shows "size_to_int len = int (unat len)"
proof -
  have "unat (base + len) \<le> 2 ^ 31" using assms by (simp add: USER_ACCESS_def USERTOP_def word_le_nat_alt)
  moreover have "0 < unat base" using assms by (auto simp: USER_ACCESS_def USERBASE_def word_le_nat_alt)
  ultimately have "unat len < 2 ^ 31" unfolding user_range_unat [OF assms] by linarith
  then show ?thesis unfolding size_to_int_def by (rule sint_small_ucast)
qed

lemma sysfile_write_console:
  fixes s :: "'a sysmem_scheme"
  assumes cur: "current_mm s = Some (Some m)" and ok: "can_print m vs fp n nd base len s" and ops: "ops nd = dev_node_ops"
    and ua: "USER_ACCESS base (base + len)" and buf: "bufs_next s = Some b # ks" "USERTOP \<le> b"
  obtains t where "sysfile_write ops n base len s = Some (int (unat len), t)"
    "console (fsys t) = console (fsys s) @ serial_text (load_bytes (umem s) base (unat len))" "bufs_freed t = b # bufs_freed s"
    "procs t = procs s" "current t = current s" "tframes t = tframes s"
proof -
  let ?s = "s\<lparr>bufs_next := ks\<rparr>"
  note O = ok [unfolded can_print_def]
  have len: "len \<noteq> 0" using ua by (auto simp: USER_ACCESS_def)
  have "unat (base + len) \<le> unat b" using ua buf(2) by (simp add: USER_ACCESS_def word_le_nat_alt)
  then have apart: "unat base + unat len \<le> unat b" using user_range_unat [OF ua] by simp
  have fd: "file_testfd fp n False True (fsys s) = Some True"
    using O by (simp add: console_open_def file_testfd_def fd2file_def get_fd_array_def file_at_def bind_kassert)
  have "can_print m vs fp n nd base len ?s" using ok by (simp add: can_print_def current_files_def)
  from transfer_console [where ops = ops, OF this ops apart, of 0] obtain t where
    t: "transfer_loop (write_chunk ops (Some m) n b) base len 0 ?s = Some (0, len, t)"
      "console (fsys t) = console (fsys s) @ serial_text (load_bytes (umem s) base (unat len))"
      "procs t = procs s" "current t = current s" "bufs_freed t = bufs_freed s" "tframes t = tframes s"
    by auto
  have "sysfile_write ops n base len s = Some (int (unat len), kfree_buf b t)"
    using cur O fd buf(1) t(1) len user_len_int [OF ua]
    by (simp add: sysfile_write_def sysfile_transfer_def kmalloc_buf_def)
  then show thesis by (rule that) (use t in \<open>simp_all add: kfree_buf_def\<close>)
qed

lemma syscall_console:
  fixes s :: "'a sysmem_scheme"
  assumes cur: "current s = Some c" "mm (procs s c) = Some m" "tf (procs s c) = Some r"
    and regs: "map (gpr (tframes s r)) [R_a0, R_a1, R_a2, R_a3] = [103, w, base, len]"
    and ok: "can_print m vs fp (int_arg w) nd base len s" and ops: "ops nd = dev_node_ops"
    and ua: "USER_ACCESS base (base + len)" and buf: "bufs_next s = Some b # ks" "USERTOP \<le> b"
  obtains t where "syscall C ops fops E s = Some (Sys_returns (int (unat len)), t)"
    "console (fsys t) = console (fsys s) @ serial_text (load_bytes (umem s) base (unat len))" "gpr (tframes t r) R_a0 = len"
    "bufs_freed t = b # bufs_freed s" "procs t = procs s" "current t = current s" "tf_epc (tframes t r) = tf_epc (tframes s r)"
proof -
  have "current_mm s = Some (Some m)" using cur by (simp add: current_mm_def)
  from sysfile_write_console [where ops = ops, OF this ok ops ua buf] obtain t where
    t: "sysfile_write ops (int_arg w) base len s = Some (int (unat len), t)"
      "console (fsys t) = console (fsys s) @ serial_text (load_bytes (umem s) base (unat len))" "bufs_freed t = b # bufs_freed s"
      "procs t = procs s" "current t = current s" "tframes t = tframes s" by metis
  have num: "int_arg 103 = 103" by (simp add: int_arg_def)
  have "syscall C ops fops E s = Some (Sys_returns (int (unat len)), set_a0 r (int (unat len)) t)"
    using cur regs(1) t(1) num
    by (simp add: syscall_def NUM_SYSCALLS_def syscalls_def sys_write_def sys_return_def)
  then show thesis by (rule that) (use t in \<open>simp_all add: set_a0_def\<close>)
qed

section \<open>An example\<close>

text \<open>Descriptor 0 of \<open>example_caller\<close> on the console, and the registers for writing the first three bytes of
  its area.\<close>

definition example_printer :: sysmem where
  "example_printer = example_caller
     \<lparr>fsys := upd_file 0 0 (\<lambda>_. \<lparr>status = FD_OPENED, readable = False, writable = True, fd = 0, pos = 0, node = Some 1,
        open_count = 1\<rparr>) example_files,
      tframes := (\<lambda>_. \<lparr>gpr = (\<lambda>_. 0)(R_a0 := 103, R_a2 := 0x801000, R_a3 := 3),
        tf_status = 0, tf_epc = 0, tf_tval = 0, tf_cause = 0\<rparr>)\<rparr>"

lemma example_printer_open: "console_open 0 0 1 (fsys example_printer)"
proof -
  have d: "device_of example_files = device_of example_devices" "inodes example_files = inodes example_devices"
    by (simp_all add: example_files_def files_create_def files_count_inc_def upd_files_def)
  have n: "0 < length (fd_array (filesps example_files 0))"
    by (simp add: example_tables fd_array_init_def FILES_STRUCT_NENTRY_def FILES_STRUCT_BUFSIZE_def)
  note F = upd_file_devices(1) [OF n] upd_file_devices(2-)
  show ?thesis
    using n by (simp add: console_open_def example_printer_def F)
      (simp add: example_tables testfd_def FILES_STRUCT_NENTRY_def FILES_STRUCT_BUFSIZE_def inode_check_def d example_devices_def
        MAX_INODE_COUNT_def)
qed

end
