(* ===== verification/Trap.thy ===== *)
theory Trap
imports Console
begin

text \<open>
  Traps (\<open>kern/trap/trap.c\<close>): the dispatch on the cause in the trap frame, the work after a trap from user
  mode, printing on the console (\<open>kern/libs/stdio.c\<close>), console input (\<open>kern/driver/console.c\<close>) and the
  functions of \<open>dev_stdin.c\<close> that wake up and suspend the readers of the keyboard.

  A trap has three outcomes: it returns, it is suspended inside a system call (\<open>trap_resume\<close> finishes it when
  the process runs again), or the process has ended. A trap that calls \<open>schedule\<close> at its end returns
  when its process runs again. \<open>input\<close> is what the firmware delivers, call by call, until it has no more;
  setting the next timer event only touches the hardware.
\<close>

definition CONSBUFSIZE :: nat where "CONSBUFSIZE = 512"

record cons_buf =
  cons_data :: "byte list"
  cons_rpos :: nat
  cons_wpos :: nat

record trapmem = sysmem +
  cons :: cons_buf

section \<open>Printing\<close>

definition cputch :: "byte \<Rightarrow> 32 word \<times> 'a system_scheme \<Rightarrow> 32 word \<times> 'a system_scheme" where
  "cputch c r = (case r of (n, s) \<Rightarrow>
     (n + 1, s\<lparr>fsys := (fsys s)\<lparr>console := console (fsys s) @ serial_putc (uint c)\<rparr>\<rparr>))"

definition vcprintf :: "string \<Rightarrow> fmt_arg list \<Rightarrow> 'a system_scheme \<Rightarrow> (32 word \<times> 'a system_scheme) option" where
  "vcprintf f args s = vprintfmt cputch (bytes_of_string f) 0 args (0, s)"

text \<open>All callers here ignore the count that \<open>cprintf\<close> returns.\<close>

definition cprintf :: "string \<Rightarrow> fmt_arg list \<Rightarrow> 'a system_scheme \<Rightarrow> 'a system_scheme option" where
  "cprintf f args s = map_option snd (vcprintf f args s)"

definition nl :: string where "nl = [CHR 0x0A]"

text \<open>The names and the spacing in \<open>print_regs\<close>.\<close>

definition reg_names :: "(gpr_reg \<times> string) list" where
  "reg_names =
     [(R_zero, ''zero''), (R_ra, ''ra  ''), (R_sp, ''sp  ''), (R_gp, ''gp  ''), (R_tp, ''tp  ''), (R_t0, ''t0  ''), (R_t1, ''t1  ''),
      (R_t2, ''t2  ''), (R_s0, ''s0  ''), (R_s1, ''s1  ''), (R_a0, ''a0  ''), (R_a1, ''a1  ''), (R_a2, ''a2  ''), (R_a3, ''a3  ''),
      (R_a4, ''a4  ''), (R_a5, ''a5  ''), (R_a6, ''a6  ''), (R_a7, ''a7  ''), (R_s2, ''s2  ''), (R_s3, ''s3  ''), (R_s4, ''s4  ''),
      (R_s5, ''s5  ''), (R_s6, ''s6  ''), (R_s7, ''s7  ''), (R_s8, ''s8  ''), (R_s9, ''s9  ''), (R_s10, ''s10 ''),
      (R_s11, ''s11 ''), (R_t3, ''t3  ''), (R_t4, ''t4  ''), (R_t5, ''t5  ''), (R_t6, ''t6  '')]"

fun print_reg_list :: "(gpr_reg \<times> string) list \<Rightarrow> (gpr_reg \<Rightarrow> 64 word) \<Rightarrow> 'a system_scheme \<Rightarrow> 'a system_scheme option" where
  "print_reg_list [] g s = Some s"
| "print_reg_list ((r, name) # rs) g s = do {
     s \<leftarrow> cprintf (''  '' @ name @ ''     0x%08x'' @ nl) [Arg_int (g r)] s;
     print_reg_list rs g s
   }"

definition print_regs :: "(gpr_reg \<Rightarrow> 64 word) \<Rightarrow> 'a system_scheme \<Rightarrow> 'a system_scheme option" where
  "print_regs g s = print_reg_list reg_names g s"

definition print_trapframe :: "nat \<Rightarrow> 'a system_scheme \<Rightarrow> 'a system_scheme option" where
  "print_trapframe t s = do {
     let f = tframes s t;
     s \<leftarrow> cprintf (''trapframe at %p'' @ nl) [Arg_int (of_nat t)] s;
     s \<leftarrow> print_regs (gpr f) s;
     s \<leftarrow> cprintf (''  status   0x%08x'' @ nl) [Arg_int (tf_status f)] s;
     s \<leftarrow> cprintf (''  epc      0x%08x'' @ nl) [Arg_int (tf_epc f)] s;
     s \<leftarrow> cprintf (''  tval 0x%08x'' @ nl) [Arg_int (tf_tval f)] s;
     cprintf (''  cause    0x%08x'' @ nl) [Arg_int (tf_cause f)] s
   }"

section \<open>Console input\<close>

definition serial_proc_data :: "int \<Rightarrow> int" where
  "serial_proc_data c = (if c < 0 then - 1 else if c = 127 then 8 else c)"

fun cons_intr :: "int list \<Rightarrow> cons_buf \<Rightarrow> cons_buf" where
  "cons_intr [] k = k"
| "cons_intr (x # xs) k =
     (let c = serial_proc_data x in
      if c = - 1 then k
      else if c \<noteq> 0
      then let k = k\<lparr>cons_data := (cons_data k)[cons_wpos k := of_int c], cons_wpos := cons_wpos k + 1\<rparr>
           in cons_intr xs (if cons_wpos k = CONSBUFSIZE then k\<lparr>cons_wpos := 0\<rparr> else k)
      else cons_intr xs k)"

definition cons_getc :: "int list \<Rightarrow> cons_buf \<Rightarrow> byte \<times> cons_buf" where
  "cons_getc input k =
     (let k = cons_intr input k in
      if cons_rpos k \<noteq> cons_wpos k
      then let c = cons_data k ! cons_rpos k; k = k\<lparr>cons_rpos := cons_rpos k + 1\<rparr>
           in (c, if cons_rpos k = CONSBUFSIZE then k\<lparr>cons_rpos := 0\<rparr> else k)
      else (0, k))"

section \<open>The keyboard and its readers\<close>

text \<open>The wait queue of \<open>dev_stdin.c\<close> is the wait queue 0.\<close>

definition stdin_queue :: nat where "stdin_queue = 0"

definition upd_keyboard :: "stdin_ring \<Rightarrow> 'a system_scheme \<Rightarrow> 'a system_scheme" where
  "upd_keyboard r s = s\<lparr>fsys := (fsys s)\<lparr>keyboard := r\<rparr>\<rparr>"

definition dev_stdin_write :: "'a system_scheme sched_class \<Rightarrow> byte \<Rightarrow> 'a system_scheme \<Rightarrow> 'a system_scheme option" where
  "dev_stdin_write C c s =
     (if c \<noteq> 0
      then let s = upd_keyboard (stdin_put c (keyboard (fsys s))) s in
           if \<not> wait_queue_empty stdin_queue s then wakeup_queue C stdin_queue WT_KBD True s else Some s
      else Some s)"

text \<open>
  \<open>dev_stdin_read\<close> copies what there is and, when that is too little, suspends its caller with the wait
  descriptor \<open>w\<close>; \<open>dev_stdin_read_end\<close> runs when the process is scheduled again and tells whether to go on
  with \<open>try_again\<close>.
\<close>

definition dev_stdin_read_begin ::
  "'a system_scheme sched_class \<Rightarrow> nat \<Rightarrow> nat \<Rightarrow> 'a system_scheme \<Rightarrow> (byte list \<times> bool \<times> 'a system_scheme) option" where
  "dev_stdin_read_begin C w len s =
     (let (cs, r) = stdin_take len (keyboard (fsys s));
          s = upd_keyboard r s
      in if length cs = len then Some (cs, False, s)
      else do {
        s \<leftarrow> wait_current_set stdin_queue w WT_KBD s;
        s \<leftarrow> schedule C s;
        Some (cs, True, s)
      })"

definition dev_stdin_read_end :: "nat \<Rightarrow> 'a system_scheme \<Rightarrow> (bool \<times> 'a system_scheme) option" where
  "dev_stdin_read_end w s = do {
     s \<leftarrow> wait_current_del stdin_queue w s;
     Some (wakeup_flags (waits s w) = WT_KBD, s)
   }"

section \<open>The dispatch\<close>

datatype trap_result = Trap_returns | Trap_suspended sys_result | Trap_exited

definition SSTATUS_SPP :: "64 word" where "SSTATUS_SPP = 0x100"

definition trap_in_kernel :: "trapframe \<Rightarrow> bool" where
  "trap_in_kernel f \<longleftrightarrow> and (tf_status f) SSTATUS_SPP \<noteq> 0"

definition IRQ_S_TIMER :: "64 word" where "IRQ_S_TIMER = 5"

text \<open>What is printed for the other interrupts.\<close>

definition irq_message :: "64 word \<Rightarrow> string option" where
  "irq_message = map_of
     [(0, ''User software interrupt''), (1, ''Supervisor software interrupt''), (2, ''Hypervisor software interrupt''),
      (3, ''Machine software interrupt''), (4, ''User software interrupt''), (6, ''Hypervisor software interrupt''),
      (7, ''Machine software interrupt''), (8, ''User software interrupt''), (9, ''Supervisor external interrupt''),
      (10, ''Hypervisor software interrupt''), (11, ''Machine software interrupt'')]"

definition timer_interrupt :: "'a trapmem_scheme sched_class \<Rightarrow> int list \<Rightarrow> 'a trapmem_scheme \<Rightarrow> 'a trapmem_scheme option" where
  "timer_interrupt C input s = do {
     let s = s\<lparr>ticks := ticks s + 1\<rparr>;
     s \<leftarrow> run_timer_list C s;
     let (c, k) = cons_getc input (cons s);
     dev_stdin_write C c (s\<lparr>cons := k\<rparr>)
   }"

definition interrupt_handler ::
  "'a trapmem_scheme sched_class \<Rightarrow> int list \<Rightarrow> nat \<Rightarrow> 'a trapmem_scheme \<Rightarrow> 'a trapmem_scheme option" where
  "interrupt_handler C input t s =
     (let cause = drop_bit 1 (push_bit 1 (tf_cause (tframes s t))) in
      if cause = IRQ_S_TIMER then timer_interrupt C input s
      else case irq_message cause of
          Some msg \<Rightarrow> cprintf (msg @ nl) [] s
        | None \<Rightarrow> print_trapframe t s)"

definition CAUSE_MISALIGNED_STORE :: "64 word" where "CAUSE_MISALIGNED_STORE = 6"
definition CAUSE_USER_ECALL :: "64 word" where "CAUSE_USER_ECALL = 8"
definition CAUSE_SUPERVISOR_ECALL :: "64 word" where "CAUSE_SUPERVISOR_ECALL = 9"

text \<open>What is printed for the exceptions without further work.\<close>

definition cause_message :: "64 word \<Rightarrow> string option" where
  "cause_message = map_of
     [(0, ''Instruction address misaligned''), (1, ''Instruction access fault''), (2, ''Illegal instruction''),
      (3, ''Breakpoint''), (4, ''Load address misaligned''), (5, ''Load access fault''), (7, ''Store/AMO access fault''),
      (10, ''Environment call from H-mode''), (11, ''Environment call from M-mode''), (12, ''Instruction page fault''),
      (13, ''Load page fault''), (15, ''Store/AMO page fault'')]"

text \<open>\<open>tf->epc += 4; syscall();\<close>\<close>

definition ecall ::
  "'a trapmem_scheme sched_class \<Rightarrow> (nat \<Rightarrow> devices inode_ops) \<Rightarrow> devices fs_ops \<Rightarrow> kenv \<Rightarrow> nat \<Rightarrow> 'a trapmem_scheme \<Rightarrow>
   (trap_result \<times> 'a trapmem_scheme) option" where
  "ecall C ops fops E t s = do {
     let s = s\<lparr>tframes := (tframes s)(t := (tframes s t)\<lparr>tf_epc := tf_epc (tframes s t) + 4\<rparr>)\<rparr>;
     (r, s) \<leftarrow> syscall C ops fops E s;
     Some (case r of Sys_returns _ \<Rightarrow> Trap_returns | Sys_ended \<Rightarrow> Trap_exited | _ \<Rightarrow> Trap_suspended r, s)
   }"

definition exception_handler ::
  "'a trapmem_scheme sched_class \<Rightarrow> (nat \<Rightarrow> devices inode_ops) \<Rightarrow> devices fs_ops \<Rightarrow> kenv \<Rightarrow> nat \<Rightarrow> 'a trapmem_scheme \<Rightarrow>
   (trap_result \<times> 'a trapmem_scheme) option" where
  "exception_handler C ops fops E t s =
     (let cause = tf_cause (tframes s t) in
      if cause = CAUSE_MISALIGNED_STORE then None
      else if cause = CAUSE_USER_ECALL then ecall C ops fops E t s
      else if cause = CAUSE_SUPERVISOR_ECALL
      then do { s \<leftarrow> cprintf (''Environment call from S-mode'' @ nl) [] s; ecall C ops fops E t s }
      else do {
        s \<leftarrow> (case cause_message cause of Some msg \<Rightarrow> cprintf (msg @ nl) [] s | None \<Rightarrow> print_trapframe t s);
        Some (Trap_returns, s)
      })"

definition trap_dispatch ::
  "'a trapmem_scheme sched_class \<Rightarrow> (nat \<Rightarrow> devices inode_ops) \<Rightarrow> devices fs_ops \<Rightarrow> kenv \<Rightarrow> int list \<Rightarrow> nat \<Rightarrow>
   'a trapmem_scheme \<Rightarrow> (trap_result \<times> 'a trapmem_scheme) option" where
  "trap_dispatch C ops fops E input t s =
     (if sint (tf_cause (tframes s t)) < 0
      then do { s \<leftarrow> interrupt_handler C input t s; Some (Trap_returns, s) }
      else exception_handler C ops fops E t s)"

text \<open>What \<open>trap\<close> does after the dispatch; \<open>otf\<close> is the old trap frame of the process.\<close>

definition trap_finish ::
  "'a trapmem_scheme sched_class \<Rightarrow> (nat \<Rightarrow> devices inode_ops) \<Rightarrow> nat option \<Rightarrow> bool \<Rightarrow> 'a trapmem_scheme \<Rightarrow>
   (trap_result \<times> 'a trapmem_scheme) option" where
  "trap_finish C ops otf in_kernel s = do {
     c \<leftarrow> current s;
     let s = upd_proc c (\<lambda>d. d\<lparr>tf := otf\<rparr>) s;
     (if in_kernel then Some (Trap_returns, s)
      else if and (flags (procs s c)) PF_EXITING \<noteq> 0
      then do { s \<leftarrow> do_exit C ops (- E_KILLED) s; Some (Trap_exited, s) }
      else if need_resched (procs s c) then do { s \<leftarrow> schedule C s; Some (Trap_returns, s) }
      else Some (Trap_returns, s))
   }"

definition trap ::
  "'a trapmem_scheme sched_class \<Rightarrow> (nat \<Rightarrow> devices inode_ops) \<Rightarrow> devices fs_ops \<Rightarrow> kenv \<Rightarrow> int list \<Rightarrow> nat \<Rightarrow>
   'a trapmem_scheme \<Rightarrow> (trap_result \<times> 'a trapmem_scheme) option" where
  "trap C ops fops E input t s =
     (case current s of
        None \<Rightarrow> trap_dispatch C ops fops E input t s
      | Some c \<Rightarrow> do {
          let otf = tf (procs s c);
          let in_kernel = trap_in_kernel (tframes s t);
          (r, s) \<leftarrow> trap_dispatch C ops fops E input t (upd_proc c (\<lambda>d. d\<lparr>tf := Some t\<rparr>) s);
          (case r of Trap_returns \<Rightarrow> trap_finish C ops otf in_kernel s | _ \<Rightarrow> Some (r, s))
        })"

text \<open>The rest of a trap that was suspended in the system call \<open>r\<close>.\<close>

definition trap_resume ::
  "'a trapmem_scheme sched_class \<Rightarrow> (nat \<Rightarrow> devices inode_ops) \<Rightarrow> nat option \<Rightarrow> bool \<Rightarrow> sys_result \<Rightarrow> 'a trapmem_scheme \<Rightarrow>
   (trap_result \<times> 'a trapmem_scheme) option" where
  "trap_resume C ops otf in_kernel r s = do {
     (r, s) \<leftarrow> syscall_resume C ops r s;
     (case r of
        Sys_returns _ \<Rightarrow> trap_finish C ops otf in_kernel s
      | Sys_ended \<Rightarrow> Some (Trap_exited, s)
      | _ \<Rightarrow> Some (Trap_suspended r, s))
   }"

end
