(* ===== verification/TrapFacts.thy ===== *)
theory TrapFacts
imports Trap
begin

text \<open>
  What traps do: a timer interrupt counts down the timers, feeds the keyboard and leads to a scheduling
  decision; an \<open>ecall\<close> of user mode runs its system call and returns behind the instruction.
\<close>

section \<open>Waking up the readers\<close>

text \<open>The waits \<open>ws\<close> of the queue \<open>q\<close>, of live processes.\<close>

definition readers_rep :: "'a sync_kernel_scheme \<Rightarrow> proc_ptr set \<Rightarrow> nat \<Rightarrow> nat list \<Rightarrow> bool" where
  "readers_rep s P q ws \<longleftrightarrow>
     dlist (wait_links s) (WaitHead q) (map WaitLink ws) \<and>
     (\<forall>w \<in> set ws. wait_queue (waits s w) = Some q \<and>
        (\<exists>p \<in> P. wproc (waits s w) = Some p \<and> state (procs s p) \<noteq> PROC_ZOMBIE))"

definition readers :: "'a sync_kernel_scheme \<Rightarrow> nat list \<Rightarrow> proc_ptr set" where
  "readers s ws = {p. \<exists>w \<in> set ws. wproc (waits s w) = Some p}"

lemma sync_more_fields:
  fixes s s' :: "'a sync_kernel_scheme"
  assumes "kernel.more s' = kernel.more s"
  shows "timers s' = timers s" "timer_links s' = timer_links s" "waits s' = waits s" "wait_links s' = wait_links s"
    "sync_kernel.more s' = sync_kernel.more s"
  using assms by (cases s; cases s'; simp)+

context sync_core
begin

lemma wakeup_wait_reader:
  assumes ok: "sched_ok rq_ok queue ready P c i s" and rep: "readers_rep s P q (w # ws)"
  obtains s' p where "wakeup_wait C q w fl True s = Some s'" "sched_ok rq_ok queue ready P c i s'" "readers_rep s' P q ws"
    "wproc (waits s w) = Some p" "\<forall>x. state (procs s' x) = (if x = p then PROC_RUNNABLE else state (procs s x))"
    "\<forall>x. wproc (waits s' x) = wproc (waits s x)" "timers s' = timers s" "timer_links s' = timer_links s"
    "sync_kernel.more s' = sync_kernel.more s"
proof -
  have d: "dlist (wait_links s) (WaitHead q) ([] @ WaitLink w # map WaitLink ws)" and wq: "wait_queue (waits s w) = Some q"
    using rep by (simp_all add: readers_rep_def)
  have ne: "\<not> list_empty (WaitLink w) (wait_links s)"
    using dlist_self_not_in [OF d, of "WaitLink w"] by auto
  obtain p where p: "p \<in> P" "wproc (waits s w) = Some p" "state (procs s p) \<noteq> PROC_ZOMBIE"
    using rep by (auto simp: readers_rep_def)
  let ?s1 = "upd_wait_links (list_del_init (WaitLink w)) s"
  let ?s2 = "upd_wait w (\<lambda>d. d\<lparr>wakeup_flags := fl\<rparr>) ?s1"
  have ok2: "sched_ok rq_ok queue ready P c i ?s2" by (intro sched_ok_sync ok)
  have "state (procs ?s2 p) \<noteq> PROC_ZOMBIE" using p(3) by simp
  then obtain s' where s': "wakeup_proc C p ?s2 = Some s'" "sched_ok rq_ok queue ready P c i s'"
    "state (procs s' p) = PROC_RUNNABLE" "\<forall>x. x \<noteq> p \<longrightarrow> state (procs s' x) = state (procs ?s2 x)"
    "sched.more s' = sched.more ?s2"
    using wakeup_spec [OF ok2 p(1)] by metis
  have "kernel.more s' = kernel.more ?s2" by (rule more_eq_kernel(5) [OF s'(5)])
  note m = sync_more_fields [OF this]
  have st: "state (procs s' x) = (if x = p then PROC_RUNNABLE else state (procs s x))" for x using s'(3,4) by simp
  have wt: "wait_queue (waits s' x) = wait_queue (waits s x)" "wproc (waits s' x) = wproc (waits s x)" for x
    using m(3) by simp_all
  have "dlist (wait_links s') (WaitHead q) (map WaitLink ws)"
    using dlist_del_init [OF d] m(4) by simp
  then have "readers_rep s' P q ws"
    using rep by (auto simp: readers_rep_def wt st)
  moreover have "wakeup_wait C q w fl True s = Some s'"
    using ne wq p(2) s'(1) by (simp add: wakeup_wait_def wait_queue_del_def bind_kassert)
  moreover have "timers s' = timers s" "timer_links s' = timer_links s" "sync_kernel.more s' = sync_kernel.more s"
    using m by (simp_all add: upd_wait_def upd_wait_links_def)
  ultimately show thesis using that [of s' p] s'(2) p(2) st wt(2) by blast
qed

lemma wakeup_del_loop_readers:
  assumes "sched_ok rq_ok queue ready P c i s" "readers_rep s P q (w # ws)"
  shows "\<exists>s'. wakeup_del_loop C q fl w s = Some s' \<and> sched_ok rq_ok queue ready P c i s' \<and> readers_rep s' P q [] \<and>
    (\<forall>x. state (procs s' x) = (if x \<in> readers s (w # ws) then PROC_RUNNABLE else state (procs s x))) \<and>
    timers s' = timers s \<and> timer_links s' = timer_links s \<and> sync_kernel.more s' = sync_kernel.more s"
  using assms
proof (induction ws arbitrary: w s)
  case Nil
  from Nil show ?case
  proof (rule wakeup_wait_reader [where fl = fl])
    fix s' p
    assume s': "wakeup_wait C q w fl True s = Some s'" "sched_ok rq_ok queue ready P c i s'" "readers_rep s' P q []"
      "wproc (waits s w) = Some p" "\<forall>x. state (procs s' x) = (if x = p then PROC_RUNNABLE else state (procs s x))"
      "\<forall>x. wproc (waits s' x) = wproc (waits s x)" "timers s' = timers s" "timer_links s' = timer_links s"
      "sync_kernel.more s' = sync_kernel.more s"
    have "wait_queue_first q s' = None" using s'(3) wait_queue_first_rep [of s' q "[]"] by (simp add: readers_rep_def)
    then have "wakeup_del_loop C q fl w s = Some s'" using s'(1) by (simp add: wakeup_del_loop.simps)
    then show ?thesis using s' by (auto simp: readers_def)
  qed
next
  case (Cons v ws)
  from Cons.prems show ?case
  proof (rule wakeup_wait_reader [where fl = fl])
    fix s' p
    assume s': "wakeup_wait C q w fl True s = Some s'" "sched_ok rq_ok queue ready P c i s'" "readers_rep s' P q (v # ws)"
      "wproc (waits s w) = Some p" "\<forall>x. state (procs s' x) = (if x = p then PROC_RUNNABLE else state (procs s x))"
      "\<forall>x. wproc (waits s' x) = wproc (waits s x)" "timers s' = timers s" "timer_links s' = timer_links s"
      "sync_kernel.more s' = sync_kernel.more s"
    have "wait_queue_first q s' = Some v" using s'(3) wait_queue_first_rep [of s' q "v # ws"] by (simp add: readers_rep_def)
    then have r: "wakeup_del_loop C q fl w s = wakeup_del_loop C q fl v s'"
      using s'(1) by (subst wakeup_del_loop.simps) simp
    have "readers s (w # v # ws) = insert p (readers s' (v # ws))" using s'(4,6) by (auto simp: readers_def)
    then show ?thesis using Cons.IH [OF s'(2,3)] s'(5,7-9) unfolding r by auto
  qed
qed

text \<open>A character for the keyboard: it is in the ring, and every reader is runnable and out of the queue.\<close>

lemma wakeup_queue_readers:
  assumes ok: "sched_ok rq_ok queue ready P c i s" and rep: "readers_rep s P q ws"
  obtains s' where "wakeup_queue C q fl True s = Some s'" "sched_ok rq_ok queue ready P c i s'" "readers_rep s' P q []"
    "\<forall>x. state (procs s' x) = (if x \<in> readers s ws then PROC_RUNNABLE else state (procs s x))"
    "timers s' = timers s" "timer_links s' = timer_links s" "sync_kernel.more s' = sync_kernel.more s"
proof (cases ws)
  case Nil
  then have "wait_queue_first q s = None" using rep wait_queue_first_rep [of s q "[]"] by (simp add: readers_rep_def)
  then have "wakeup_queue C q fl True s = Some s" by (simp add: wakeup_queue_def)
  then show thesis by (rule that) (use ok rep Nil in \<open>simp_all add: readers_def\<close>)
next
  case (Cons w us)
  then have "wait_queue_first q s = Some w" using rep wait_queue_first_rep [of s q ws] by (simp add: readers_rep_def)
  then have r: "wakeup_queue C q fl True s = wakeup_del_loop C q fl w s" by (simp add: wakeup_queue_def)
  show thesis using wakeup_del_loop_readers [OF ok rep [unfolded Cons], of fl] that unfolding r Cons by blast
qed

end

section \<open>What a tick leaves alone\<close>

text \<open>A wakeup changes the time slice of a process that it puts into the queue, so not that of the current one.\<close>

definition same_flags :: "'a kernel_scheme \<Rightarrow> 'a kernel_scheme \<Rightarrow> bool" where
  "same_flags s s' \<longleftrightarrow> idleproc s' = idleproc s \<and> current s' = current s \<and>
     (\<forall>p. flags (procs s' p) = flags (procs s p) \<and> tf (procs s' p) = tf (procs s p) \<and>
        runs (procs s' p) = runs (procs s p) \<and> need_resched (procs s' p) = need_resched (procs s p)) \<and>
     (\<forall>c. current s = Some c \<longrightarrow> time_slice (procs s' c) = time_slice (procs s c))"

lemma same_flags_trans: "same_flags s t \<Longrightarrow> same_flags t u \<Longrightarrow> same_flags s u"
  by (simp add: same_flags_def)

definition kept :: "'a timed_kernel_scheme \<Rightarrow> 'a timed_kernel_scheme \<Rightarrow> bool" where
  "kept s s' \<longleftrightarrow> same_flags s s' \<and> timed_kernel.more s' = timed_kernel.more s"

lemma kept_refl: "kept s s" by (simp add: kept_def same_flags_def)

lemma kept_trans: "kept s t \<Longrightarrow> kept t u \<Longrightarrow> kept s u" by (simp add: kept_def same_flags_def)

lemma kept_upd_proc:
  "(\<And>d. flags (f d) = flags d \<and> tf (f d) = tf d \<and> runs (f d) = runs d \<and> need_resched (f d) = need_resched d \<and>
     time_slice (f d) = time_slice d) \<Longrightarrow> kept s (upd_proc p f s)"
  by (simp add: kept_def same_flags_def upd_proc_def)

lemma kept_timers: "kept s (upd_timer_links g s)" "kept s (timers_upd T s)" "kept s (upd_timer t h s)"
  by (simp_all add: kept_def same_flags_def upd_timer_links_def timers_upd_def upd_timer_def)

lemma RR_enqueue_kept: "RR_enqueue p s = Some s' \<Longrightarrow> Some p \<noteq> current s \<Longrightarrow> kept s s'"
  by (auto simp: RR_enqueue_def kept_def same_flags_def upd_proc_def upd_run_links_def bind_eq_Some_conv Let_def split: if_splits)

lemma wakeup_proc_kept: "wakeup_proc default_sched_class p s = Some s' \<Longrightarrow> kept s s'"
proof -
  assume run: "wakeup_proc default_sched_class p s = Some s'"
  let ?s = "upd_proc p (\<lambda>d. d\<lparr>wait_state := 0\<rparr>) (upd_proc p (\<lambda>d. d\<lparr>state := PROC_RUNNABLE\<rparr>) s)"
  have k: "kept s ?s" by (rule kept_trans; rule kept_upd_proc) simp_all
  have "s' = s \<or> s' = ?s \<or> RR_enqueue p ?s = Some s' \<and> Some p \<noteq> current ?s"
    using run by (auto simp: wakeup_proc_def sched_class_enqueue_def bind_eq_Some_conv Let_def split: if_splits)
  then show "kept s s'" using k kept_refl kept_trans [OF k RR_enqueue_kept] by blast
qed

lemma del_timer_kept: "kept s (del_timer t s)"
  by (simp add: del_timer_def Let_def kept_refl kept_timers split: option.split)
    (blast intro: kept_timers kept_trans)

lemma expire_loop_kept:
  assumes "expire_loop default_sched_class t le s = Some s'"
  shows "kept s s'"
proof (rule mp [OF expire_loop.raw_induct [of "\<lambda>C t le s s'. C = default_sched_class \<longrightarrow> kept s s'", OF _ assms]])
  fix loop :: "'a timed_kernel_scheme sched_class \<Rightarrow> nat \<Rightarrow> tnode \<Rightarrow> 'a timed_kernel_scheme \<Rightarrow> 'a timed_kernel_scheme option"
    and C :: "'a timed_kernel_scheme sched_class" and t le s s'
  assume IH: "\<And>C t le s s'. loop C t le s = Some s' \<Longrightarrow> C = default_sched_class \<longrightarrow> kept s s'"
  assume run: "(if expires (timers s t) = 0
      then do {
        let le' = list_next le (timer_links s);
        p \<leftarrow> timer_proc (timers s t);
        (if wait_state (procs s p) \<noteq> 0
         then kassert (and (wait_state (procs s p)) WT_INTERRUPTED \<noteq> 0) else Some ());
        s1 \<leftarrow> wakeup_proc C p s;
        let s2 = del_timer t s1;
        case le2timer le' of None \<Rightarrow> Some s2 | Some t' \<Rightarrow> loop C t' le' s2
      }
      else Some s) = Some s'"
  show "C = default_sched_class \<longrightarrow> kept s s'"
  proof
    assume C: "C = default_sched_class"
    show "kept s s'"
    proof (cases "expires (timers s t) = 0")
      case True
      then obtain p s1 where p: "wakeup_proc C p s = Some s1"
        "(case le2timer (list_next le (timer_links s)) of None \<Rightarrow> Some (del_timer t s1)
          | Some t' \<Rightarrow> loop C t' (list_next le (timer_links s)) (del_timer t s1)) = Some s'"
        using run by (auto simp: bind_eq_Some_conv Let_def)
      have k: "kept s (del_timer t s1)" using p(1) C wakeup_proc_kept del_timer_kept kept_trans by blast
      show ?thesis
      proof (cases "le2timer (list_next le (timer_links s))")
        case None
        then show ?thesis using p(2) k by simp
      next
        case (Some t')
        then have "loop C t' (list_next le (timer_links s)) (del_timer t s1) = Some s'" using p(2) by simp
        then show ?thesis using IH C k kept_trans by blast
      qed
    qed (use run kept_refl in auto)
  qed
qed simp

text \<open>The tick of the running process: its time slice, and whether it has to be rescheduled.\<close>

definition slice_left :: "'a kernel_scheme \<Rightarrow> proc_ptr \<Rightarrow> int" where
  "slice_left s c =
     (if idleproc s \<noteq> Some c \<and> 0 < time_slice (procs s c) then time_slice (procs s c) - 1 else time_slice (procs s c))"

definition slice_ends :: "'a kernel_scheme \<Rightarrow> proc_ptr \<Rightarrow> bool" where
  "slice_ends s c \<longleftrightarrow> need_resched (procs s c) \<or> idleproc s = Some c \<or> slice_left s c = 0"

definition ticked :: "'a kernel_scheme \<Rightarrow> 'a kernel_scheme \<Rightarrow> bool" where
  "ticked s s' \<longleftrightarrow> idleproc s' = idleproc s \<and> current s' = current s \<and>
     (\<forall>p. flags (procs s' p) = flags (procs s p) \<and> tf (procs s' p) = tf (procs s p) \<and> runs (procs s' p) = runs (procs s p)) \<and>
     (\<forall>c. current s = Some c \<longrightarrow> need_resched (procs s' c) = slice_ends s c \<and> time_slice (procs s' c) = slice_left s c)"

lemma slice_same_flags: "same_flags s s' \<Longrightarrow> current s = Some c \<Longrightarrow> slice_ends s' c = slice_ends s c \<and> slice_left s' c = slice_left s c"
  by (simp add: same_flags_def slice_ends_def slice_left_def)

lemma ticked_same_flags: "same_flags s t \<Longrightarrow> ticked t u \<Longrightarrow> ticked s u" "ticked s t \<Longrightarrow> same_flags t u \<Longrightarrow> ticked s u"
  using slice_same_flags [of s t] by (simp_all add: ticked_def same_flags_def)

lemma tick_ticked:
  assumes "current s = Some c"
  shows "ticked s (sched_class_proc_tick default_sched_class c s)"
    "timed_kernel.more (sched_class_proc_tick default_sched_class c s) = timed_kernel.more (s :: 'a timed_kernel_scheme)"
  using assms
  by (auto simp: ticked_def slice_ends_def slice_left_def sched_class_proc_tick_def default_sched_class_def RR_proc_tick_def Let_def
      upd_proc_def)

lemma run_timer_list_ticked:
  assumes "run_timer_list default_sched_class s = Some s'" "current s = Some c"
  shows "ticked s s'" "timed_kernel.more s' = timed_kernel.more s"
proof -
  obtain s1 where s1: "s' = (case current s1 of None \<Rightarrow> s1 | Some c \<Rightarrow> sched_class_proc_tick default_sched_class c s1)"
    "(case le2timer (list_next TimerList (timer_links s)) of None \<Rightarrow> Some s
       | Some t \<Rightarrow> do {
          kassert (expires (timers s t) \<noteq> 0);
          expire_loop default_sched_class t (list_next TimerList (timer_links s)) (upd_timer t (\<lambda>d. d\<lparr>expires := expires d - 1\<rparr>) s)
         }) = Some s1"
    using assms(1) by (auto simp: run_timer_list_def bind_eq_Some_conv Let_def)
  have k: "kept s s1"
  proof (cases "le2timer (list_next TimerList (timer_links s))")
    case None
    then show ?thesis using s1(2) kept_refl by simp
  next
    case (Some t)
    then have "expire_loop default_sched_class t (list_next TimerList (timer_links s))
        (upd_timer t (\<lambda>d. d\<lparr>expires := expires d - 1\<rparr>) s) = Some s1"
      using s1(2) by (auto simp: bind_eq_Some_conv split: if_splits)
    from kept_trans [OF kept_timers(3) expire_loop_kept [OF this]] show ?thesis .
  qed
  then have c: "current s1 = Some c" using assms(2) by (simp add: kept_def same_flags_def)
  then have "s' = sched_class_proc_tick default_sched_class c s1" using s1(1) by simp
  then show "ticked s s'" "timed_kernel.more s' = timed_kernel.more s"
    using k tick_ticked [OF c] ticked_same_flags(1) by (auto simp: kept_def)
qed

lemma kept_fields:
  fixes s s' :: "'a trapmem_scheme"
  assumes "timed_kernel.more s' = timed_kernel.more s"
  shows "waits s' = waits s" "wait_links s' = wait_links s" "fsys s' = fsys s" "tframes s' = tframes s" "ticks s' = ticks s"
    "cons s' = cons s" "umem s' = umem s" "memory s' = memory s"
  using assms by (cases s; cases s'; simp)+

lemma more_fields:
  fixes s s' :: "'a trapmem_scheme"
  assumes "sync_kernel.more s' = sync_kernel.more s"
  shows "fsys s' = fsys s" "tframes s' = tframes s" "ticks s' = ticks s" "cons s' = cons s" "umem s' = umem s"
    "memory s' = memory s"
  using assms by (cases s; cases s'; simp)+

lemma kept_same_flags: "kept s s' \<Longrightarrow> same_flags s s'" by (simp add: kept_def)

lemma wakeup_wait_flags:
  assumes "wakeup_wait default_sched_class q w fl True s = Some s'"
  shows "same_flags s s'"
proof -
  let ?s2 = "upd_wait w (\<lambda>d. d\<lparr>wakeup_flags := fl\<rparr>) (upd_wait_links (list_del_init (WaitLink w)) s)"
  obtain p where "wakeup_proc default_sched_class p ?s2 = Some s'"
    using assms by (auto simp: wakeup_wait_def wait_queue_del_def bind_eq_Some_conv Let_def)
  then have "same_flags ?s2 s'" by (rule kept_same_flags [OF wakeup_proc_kept])
  then show ?thesis by (simp add: same_flags_def upd_wait_def upd_wait_links_def)
qed

lemma wakeup_del_loop_flags:
  assumes "wakeup_del_loop default_sched_class q fl w s = Some s'"
  shows "same_flags s s'"
proof (rule mp [OF wakeup_del_loop.raw_induct [of "\<lambda>C q fl w s s'. C = default_sched_class \<longrightarrow> same_flags s s'", OF _ assms]])
  fix loop :: "'a sync_kernel_scheme sched_class \<Rightarrow> nat \<Rightarrow> 32 word \<Rightarrow> nat \<Rightarrow> 'a sync_kernel_scheme \<Rightarrow> 'a sync_kernel_scheme option"
    and C :: "'a sync_kernel_scheme sched_class" and q fl w s s'
  assume IH: "\<And>C q fl w s s'. loop C q fl w s = Some s' \<Longrightarrow> C = default_sched_class \<longrightarrow> same_flags s s'"
  assume "Option.bind (wakeup_wait C q w fl True s)
       (\<lambda>s1. case wait_queue_first q s1 of None \<Rightarrow> Some s1 | Some w' \<Rightarrow> loop C q fl w' s1) = Some s'"
  then obtain s1 where s1: "wakeup_wait C q w fl True s = Some s1"
    "(case wait_queue_first q s1 of None \<Rightarrow> Some s1 | Some w' \<Rightarrow> loop C q fl w' s1) = Some s'"
    by (auto simp: bind_eq_Some_conv)
  show "C = default_sched_class \<longrightarrow> same_flags s s'"
  proof
    assume C: "C = default_sched_class"
    have a: "same_flags s s1" using s1(1) C wakeup_wait_flags by blast
    show "same_flags s s'"
    proof (cases "wait_queue_first q s1")
      case None
      then show ?thesis using s1(2) a by simp
    next
      case (Some w')
      then have "loop C q fl w' s1 = Some s'" using s1(2) by simp
      then show ?thesis using IH C a same_flags_trans by blast
    qed
  qed
qed simp

lemma dev_stdin_write_spec:
  fixes s :: "'a trapmem_scheme"
  assumes ok: "sched_ok rr_ok rr_queue rr_ready P c i s" and rep: "readers_rep s P stdin_queue ws"
  obtains s' where "dev_stdin_write default_sched_class k s = Some s'" "sched_ok rr_ok rr_queue rr_ready P c i s'"
    "readers_rep s' P stdin_queue (if k = 0 then ws else [])"
    "\<forall>x. state (procs s' x) = (if k \<noteq> 0 \<and> x \<in> readers s ws then PROC_RUNNABLE else state (procs s x))"
    "keyboard (fsys s') = (if k = 0 then keyboard (fsys s) else stdin_put k (keyboard (fsys s)))"
    "timers s' = timers s" "timer_links s' = timer_links s" "same_flags s s'" "tframes s' = tframes s" "ticks s' = ticks s"
proof (cases "k = 0")
  case True
  then have "dev_stdin_write default_sched_class k s = Some s" by (simp add: dev_stdin_write_def)
  then show thesis by (rule that) (use ok rep True in \<open>simp_all add: same_flags_def\<close>)
next
  case False
  let ?s = "upd_keyboard (stdin_put k (keyboard (fsys s))) s"
  have ok1: "sched_ok rr_ok rr_queue rr_ready P c i ?s"
    by (rule rr_sync.sched_ok_frame [OF ok]) (simp_all add: same_queue_def upd_keyboard_def)
  have rep1: "readers_rep ?s P stdin_queue ws" and rd: "readers ?s ws = readers s ws"
    using rep by (simp_all add: readers_rep_def readers_def upd_keyboard_def)
  obtain s' where s': "wakeup_queue default_sched_class stdin_queue WT_KBD True ?s = Some s'"
    "sched_ok rr_ok rr_queue rr_ready P c i s'" "readers_rep s' P stdin_queue []"
    "\<forall>x. state (procs s' x) = (if x \<in> readers ?s ws then PROC_RUNNABLE else state (procs ?s x))"
    "timers s' = timers ?s" "timer_links s' = timer_links ?s" "sync_kernel.more s' = sync_kernel.more ?s"
    by (rule rr_sync.wakeup_queue_readers [OF ok1 rep1])
  note m = more_fields [OF s'(7)]
  have run: "dev_stdin_write default_sched_class k s = Some s'"
  proof (cases "wait_queue_empty stdin_queue ?s")
    case True
    then have "wakeup_queue default_sched_class stdin_queue WT_KBD True ?s = Some ?s"
      by (simp add: wakeup_queue_def wait_queue_first_def wait_queue_empty_def list_empty_def list_next_def Let_def)
    then show ?thesis using s'(1) True False by (simp add: dev_stdin_write_def Let_def)
  qed (use s'(1) False in \<open>simp add: dev_stdin_write_def Let_def\<close>)
  have "same_flags ?s s'"
    using s'(1) wakeup_del_loop_flags [of stdin_queue WT_KBD _ ?s s']
    by (cases "wait_queue_first stdin_queue ?s") (simp_all add: wakeup_queue_def same_flags_def)
  then have "same_flags s s'" by (simp add: same_flags_def upd_keyboard_def)
  then show thesis
    using that [OF run s'(2)] False s'(3-6) m rd by (simp add: upd_keyboard_def)
qed

lemma timer_rep_cong: "timers s' = timers s \<Longrightarrow> timer_links s' = timer_links s \<Longrightarrow> timer_rep s' ts = timer_rep s ts"
  by (simp add: timer_rep_def timer_seq_def split: list.split)

lemma timer_interrupt_spec:
  fixes s :: "'a trapmem_scheme"
  assumes ok: "sched_ok rr_ok rr_queue rr_ready P c i s" and tr: "timer_rep s ts"
    and w: "\<forall>x \<in> set ts. wakeable s P x" and rep: "readers_rep s P stdin_queue ws"
    and getc: "cons_getc input (cons s) = (k, kk)"
  obtains s' ts' where "timer_interrupt default_sched_class input s = Some s'" "sched_ok rr_ok rr_queue rr_ready P c i s'"
    "timer_rep s' ts'"
    "deadlines (timers s') 0 ts' = map (\<lambda>(x, d). (x, d - 1)) (filter (\<lambda>x. 1 < snd x) (deadlines (timers s) 0 ts))"
    "readers_rep s' P stdin_queue (if k = 0 then ws else [])"
    "\<forall>p. state (procs s' p) =
       (if p \<in> woken s (map fst (filter (\<lambda>x. snd x \<le> 1) (deadlines (timers s) 0 ts))) \<or> k \<noteq> 0 \<and> p \<in> readers s ws
        then PROC_RUNNABLE else state (procs s p))"
    "keyboard (fsys s') = (if k = 0 then keyboard (fsys s) else stdin_put k (keyboard (fsys s)))"
    "ticks s' = ticks s + 1" "ticked s s'"
proof -
  let ?s1 = "s\<lparr>ticks := ticks s + 1\<rparr>"
  have ok1: "sched_ok rr_ok rr_queue rr_ready P c i ?s1"
    by (rule rr_sync.sched_ok_frame [OF ok]) (simp_all add: same_queue_def)
  have tr1: "timer_rep ?s1 ts" using tr timer_rep_cong [of ?s1 s ts] by simp
  have w1: "\<forall>x \<in> set ts. wakeable ?s1 P x" using w wakeable_cong [of ?s1 _ s P] by simp
  let ?due = "map fst (filter (\<lambda>x. snd x \<le> 1) (deadlines (timers s) 0 ts))"
  have "woken ?s1 ?due = woken s ?due" by (simp add: woken_def)
  then obtain s2 ts' where s2: "run_timer_list default_sched_class ?s1 = Some s2" "sched_ok rr_ok rr_queue rr_ready P c i s2"
    "timer_rep s2 ts'"
    "deadlines (timers s2) 0 ts' = map (\<lambda>(x, d). (x, d - 1)) (filter (\<lambda>x. 1 < snd x) (deadlines (timers s) 0 ts))"
    "\<forall>p. state (procs s2 p) = (if p \<in> woken s ?due then PROC_RUNNABLE else state (procs s p))"
    using rrt.run_timer_list_spec [OF ok1 tr1 w1] by auto
  have "current ?s1 = Some c" using ok by (simp add: sched_ok_def)
  note kp = run_timer_list_ticked [OF s2(1) this]
  note kf = kept_fields [OF kp(2)]
  let ?s3 = "s2\<lparr>cons := kk\<rparr>"
  have ok3: "sched_ok rr_ok rr_queue rr_ready P c i ?s3"
    by (rule rr_sync.sched_ok_frame [OF s2(2)]) (simp_all add: same_queue_def)
  have rep3: "readers_rep ?s3 P stdin_queue ws" and rd: "readers ?s3 ws = readers s ws"
    using rep by (auto simp: readers_rep_def readers_def kf s2(5))
  obtain s' where s': "dev_stdin_write default_sched_class k ?s3 = Some s'" "sched_ok rr_ok rr_queue rr_ready P c i s'"
    "readers_rep s' P stdin_queue (if k = 0 then ws else [])"
    "\<forall>x. state (procs s' x) = (if k \<noteq> 0 \<and> x \<in> readers ?s3 ws then PROC_RUNNABLE else state (procs ?s3 x))"
    "keyboard (fsys s') = (if k = 0 then keyboard (fsys ?s3) else stdin_put k (keyboard (fsys ?s3)))"
    "timers s' = timers ?s3" "timer_links s' = timer_links ?s3" "same_flags ?s3 s'" "tframes s' = tframes ?s3" "ticks s' = ticks ?s3"
    by (rule dev_stdin_write_spec [OF ok3 rep3])
  have "timer_interrupt default_sched_class input s = Some s'"
    using s2(1) getc s'(1) kf(6) by (simp add: timer_interrupt_def Let_def)
  moreover have "timer_rep s' ts'" "deadlines (timers s') 0 ts' = deadlines (timers s2) 0 ts'"
    using s2(3) s'(6,7) timer_rep_cong [of s' s2 ts'] by simp_all
  moreover have "ticked s ?s3" using kp(1) by (simp add: ticked_def slice_ends_def slice_left_def)
  then have "ticked s s'" by (rule ticked_same_flags(2) [OF _ s'(8)])
  moreover have "\<forall>p. state (procs s' p) =
       (if p \<in> woken s ?due \<or> k \<noteq> 0 \<and> p \<in> readers s ws then PROC_RUNNABLE else state (procs s p))"
    using s'(4) s2(5) rd by simp
  moreover have "ticks s' = ticks s + 1" "keyboard (fsys s') = (if k = 0 then keyboard (fsys s) else stdin_put k (keyboard (fsys s)))"
    using s'(5,10) kf(3,5) by simp_all
  ultimately show thesis using that [of s' ts'] s'(2,3) s2(4) by simp
qed

lemma sched_ok_tf:
  fixes s :: "'a trapmem_scheme"
  assumes "sched_ok rr_ok rr_queue rr_ready P c i s"
  shows "sched_ok rr_ok rr_queue rr_ready P c i (upd_proc c (\<lambda>d. d\<lparr>tf := t\<rparr>) s)"
  by (rule rr_sync.sched_ok_sleep [OF assms]) simp

lemma upd_tf_fields [simp]:
  fixes s :: "'a trapmem_scheme"
  shows "timers (upd_proc c f s) = timers s" "timer_links (upd_proc c f s) = timer_links s"
    "fsys (upd_proc c f s) = fsys s" "ticks (upd_proc c f s) = ticks s" "cons (upd_proc c f s) = cons s"
    "tframes (upd_proc c f s) = tframes s"
  by (simp_all add: upd_proc_def)

lemma readers_rep_cong:
  assumes "readers_rep s P q ws" "waits s' = waits s" "wait_links s' = wait_links s"
    "\<forall>p. state (procs s' p) = state (procs s p)"
  shows "readers_rep s' P q ws"
  using assms by (simp add: readers_rep_def)

text \<open>The end of a trap that need not end its process.\<close>

lemma trap_finish_spec:
  fixes s :: "'a trapmem_scheme"
  assumes ok: "sched_ok rr_ok rr_queue rr_ready P c i s" and alive: "and (flags (procs s c)) PF_EXITING = 0"
  obtains s' c' where "trap_finish default_sched_class ops otf in_kernel s = Some (Trap_returns, s')"
    "sched_ok rr_ok rr_queue rr_ready P c' i s'" "\<forall>p. state (procs s' p) = state (procs s p)"
    "kernel.more s' = kernel.more s"
    "if in_kernel \<or> \<not> need_resched (procs s c)
     then c' = c \<and> need_resched (procs s' c) = need_resched (procs s c) \<and> time_slice (procs s' c) = time_slice (procs s c) \<and>
       (\<forall>p. runs (procs s' p) = runs (procs s p))
     else \<not> need_resched (procs s' c) \<and> (\<forall>p. runs (procs s' p) = (if p = c' then runs (procs s p) + 1 else runs (procs s p))) \<and>
       (if \<exists>p \<in> P - {c}. state (procs s p) = PROC_RUNNABLE then c' \<in> P - {c} \<and> state (procs s c') = PROC_RUNNABLE
        else c' = (if state (procs s c) = PROC_RUNNABLE then c else i))"
proof -
  let ?s = "upd_proc c (\<lambda>d. d\<lparr>tf := otf\<rparr>) s"
  have ok1: "sched_ok rr_ok rr_queue rr_ready P c i ?s" by (rule sched_ok_tf [OF ok])
  have cur: "current s = Some c" using ok by (simp add: sched_ok_def)
  have st: "state (procs ?s p) = state (procs s p)" for p by simp
  show thesis
  proof (cases "in_kernel \<or> \<not> need_resched (procs s c)")
    case True
    then have "trap_finish default_sched_class ops otf in_kernel s = Some (Trap_returns, ?s)"
      using cur alive by (auto simp: trap_finish_def Let_def)
    then show thesis by (rule that [OF _ ok1]) (use st True in auto)
  next
    case False
    have rn: "runs (procs ?s p) = runs (procs s p)" for p by simp
    obtain s' n where s': "schedule default_sched_class ?s = Some s'" "sched_ok rr_ok rr_queue rr_ready P n i s'"
      "if \<exists>p \<in> P - {c}. state (procs ?s p) = PROC_RUNNABLE then n \<in> P - {c} \<and> state (procs ?s n) = PROC_RUNNABLE
       else n = (if state (procs ?s c) = PROC_RUNNABLE then c else i)"
      "\<forall>p. state (procs s' p) = state (procs ?s p)"
      "\<forall>p. runs (procs s' p) = (if p = n then runs (procs ?s p) + 1 else runs (procs ?s p))"
      "\<not> need_resched (procs s' c)" "kernel.more s' = kernel.more ?s"
      by (rule rr_schedule_next [OF ok1])
    have "trap_finish default_sched_class ops otf in_kernel s = Some (Trap_returns, s')"
      using cur alive False s'(1) by (simp add: trap_finish_def Let_def)
    then show thesis
      by (rule that [OF _ s'(2)]) (use s'(3-7) False in \<open>simp_all only: st rn upd_proc_kernel if_False if_True not_False_eq_True simp_thms\<close>)
  qed
qed

section \<open>Properties\<close>

text \<open>
  C7: a timer interrupt, from the entry of \<open>trap\<close> to its return. One tick is counted; the timers come one
  tick closer and those that are due are gone; a character that is waiting at the console goes into the
  keyboard ring and takes every reader out of the queue; exactly the processes of the due timers and these
  readers become runnable; the scheduling invariant holds again. The time slice of the process is counted
  down, and when it is used up (or the process is the idle process, or rescheduling was requested before) an
  interrupt of user mode preempts: another runnable process of the run queue runs next if there is one,
  and only its \<open>runs\<close> grows. Otherwise the trap returns to the process it interrupted; if that was in the
  kernel, the request for rescheduling is kept for later.
\<close>

theorem timer_interrupt_trap:
  fixes s :: "'a trapmem_scheme"
  assumes "sched_ok rr_ok rr_queue rr_ready P c i s" "timer_rep s ts" "\<forall>x \<in> set ts. wakeable s P x"
    and "readers_rep s P stdin_queue ws" "tf_cause (tframes s t) = 0x8000000000000005"
    and "and (flags (procs s c)) PF_EXITING = 0" "cons_getc input (cons s) = (k, kk)"
  shows "\<exists>s' c' ts'. trap default_sched_class ops fops E input t s = Some (Trap_returns, s') \<and>
    sched_ok rr_ok rr_queue rr_ready P c' i s' \<and> ticks s' = ticks s + 1 \<and> timer_rep s' ts' \<and>
    deadlines (timers s') 0 ts' = map (\<lambda>(x, d). (x, d - 1)) (filter (\<lambda>x. 1 < snd x) (deadlines (timers s) 0 ts)) \<and>
    keyboard (fsys s') = (if k = 0 then keyboard (fsys s) else stdin_put k (keyboard (fsys s))) \<and>
    readers_rep s' P stdin_queue (if k = 0 then ws else []) \<and>
    (\<forall>p. state (procs s' p) =
       (if p \<in> woken s (map fst (filter (\<lambda>x. snd x \<le> 1) (deadlines (timers s) 0 ts))) \<or> k \<noteq> 0 \<and> p \<in> readers s ws
        then PROC_RUNNABLE else state (procs s p))) \<and>
    (if trap_in_kernel (tframes s t) \<or> \<not> slice_ends s c
     then c' = c \<and> need_resched (procs s' c) = slice_ends s c \<and> time_slice (procs s' c) = slice_left s c \<and>
       (\<forall>p. runs (procs s' p) = runs (procs s p))
     else \<not> need_resched (procs s' c) \<and> (\<forall>p. runs (procs s' p) = (if p = c' then runs (procs s p) + 1 else runs (procs s p))) \<and>
       (if \<exists>p \<in> P - {c}. state (procs s' p) = PROC_RUNNABLE then c' \<in> P - {c} \<and> state (procs s' c') = PROC_RUNNABLE
        else c' = (if state (procs s' c) = PROC_RUNNABLE then c else i)))"
proof -
  let ?s = "upd_proc c (\<lambda>d. d\<lparr>tf := Some t\<rparr>) s" and ?due = "map fst (filter (\<lambda>x. snd x \<le> 1) (deadlines (timers s) 0 ts))"
  have cur: "current s = Some c" using assms(1) by (simp add: sched_ok_def)
  have ok1: "sched_ok rr_ok rr_queue rr_ready P c i ?s" by (rule sched_ok_tf [OF assms(1)])
  have tr1: "timer_rep ?s ts" using assms(2) timer_rep_cong [of ?s s ts] by simp
  have "wakeable ?s P x = wakeable s P x" for x by (simp add: wakeable_def split: option.split)
  then have w1: "\<forall>x \<in> set ts. wakeable ?s P x" using assms(3) by simp
  have rep1: "readers_rep ?s P stdin_queue ws" by (rule readers_rep_cong [OF assms(4)]) simp_all
  have g1: "cons_getc input (cons ?s) = (k, kk)" using assms(7) by simp
  have eq: "readers ?s ws = readers s ws" "woken ?s ?due = woken s ?due" by (simp_all add: readers_def woken_def)
  obtain s1 ts' where s1: "timer_interrupt default_sched_class input ?s = Some s1" "sched_ok rr_ok rr_queue rr_ready P c i s1"
    "timer_rep s1 ts'"
    "deadlines (timers s1) 0 ts' = map (\<lambda>(x, d). (x, d - 1)) (filter (\<lambda>x. 1 < snd x) (deadlines (timers s) 0 ts))"
    "readers_rep s1 P stdin_queue (if k = 0 then ws else [])"
    "\<forall>p. state (procs s1 p) = (if p \<in> woken s ?due \<or> k \<noteq> 0 \<and> p \<in> readers s ws then PROC_RUNNABLE else state (procs ?s p))"
    "keyboard (fsys s1) = (if k = 0 then keyboard (fsys s) else stdin_put k (keyboard (fsys s)))"
    "ticks s1 = ticks s + 1" "ticked ?s s1"
    using timer_interrupt_spec [OF ok1 tr1 w1 rep1 g1] unfolding eq upd_tf_fields by metis
  have "and (flags (procs s1 c)) PF_EXITING = 0" using s1(9) assms(6) by (simp add: ticked_def)
  then obtain s' c' where s': "trap_finish default_sched_class ops (tf (procs s c)) (trap_in_kernel (tframes s t)) s1 =
      Some (Trap_returns, s')" "sched_ok rr_ok rr_queue rr_ready P c' i s'" "\<forall>p. state (procs s' p) = state (procs s1 p)"
    "kernel.more s' = kernel.more s1"
    "if trap_in_kernel (tframes s t) \<or> \<not> need_resched (procs s1 c)
     then c' = c \<and> need_resched (procs s' c) = need_resched (procs s1 c) \<and> time_slice (procs s' c) = time_slice (procs s1 c) \<and>
       (\<forall>p. runs (procs s' p) = runs (procs s1 p))
     else \<not> need_resched (procs s' c) \<and> (\<forall>p. runs (procs s' p) = (if p = c' then runs (procs s1 p) + 1 else runs (procs s1 p))) \<and>
       (if \<exists>p \<in> P - {c}. state (procs s1 p) = PROC_RUNNABLE then c' \<in> P - {c} \<and> state (procs s1 c') = PROC_RUNNABLE
        else c' = (if state (procs s1 c) = PROC_RUNNABLE then c else i))"
    by (rule trap_finish_spec [OF s1(2)])
  have sl: "slice_ends ?s c = slice_ends s c" "slice_left ?s c = slice_left s c" by (simp_all add: slice_ends_def slice_left_def)
  have rn: "runs (procs s1 p) = runs (procs s p)" "need_resched (procs s1 c) = slice_ends s c" "time_slice (procs s1 c) = slice_left s c" for p
    using s1(9) cur unfolding sl [symmetric] by (simp_all add: ticked_def)
  have "sint (0x8000000000000005 :: 64 word) < 0" "drop_bit 1 (push_bit 1 (0x8000000000000005 :: 64 word)) = 5" by simp_all
  then have run: "trap default_sched_class ops fops E input t s = Some (Trap_returns, s')"
    using cur assms(5) s1(1) s'(1)
    by (simp add: trap_def trap_dispatch_def interrupt_handler_def Let_def IRQ_S_TIMER_def)
  note m = sync_more_fields [OF s'(4)]
  note m' = more_fields [OF m(5)]
  show ?thesis
  proof (rule exI [of _ s'], rule exI [of _ c'], rule exI [of _ ts'], intro conjI)
    show "timer_rep s' ts'" using s1(3) timer_rep_cong [OF m(1,2)] by simp
    show "readers_rep s' P stdin_queue (if k = 0 then ws else [])" by (rule readers_rep_cong [OF s1(5) m(3,4) s'(3)])
    show "\<forall>p. state (procs s' p) =
        (if p \<in> woken s ?due \<or> k \<noteq> 0 \<and> p \<in> readers s ws then PROC_RUNNABLE else state (procs s p))"
      using s'(3) s1(6) by simp
    show "if trap_in_kernel (tframes s t) \<or> \<not> slice_ends s c
     then c' = c \<and> need_resched (procs s' c) = slice_ends s c \<and> time_slice (procs s' c) = slice_left s c \<and>
       (\<forall>p. runs (procs s' p) = runs (procs s p))
     else \<not> need_resched (procs s' c) \<and> (\<forall>p. runs (procs s' p) = (if p = c' then runs (procs s p) + 1 else runs (procs s p))) \<and>
       (if \<exists>p \<in> P - {c}. state (procs s' p) = PROC_RUNNABLE then c' \<in> P - {c} \<and> state (procs s' c') = PROC_RUNNABLE
        else c' = (if state (procs s' c) = PROC_RUNNABLE then c else i))"
      using s'(5) unfolding rn s'(3) [rule_format] .
  qed (use run s'(2) s1(4,7,8) m m' in simp_all)
qed

text \<open>
  C8: the system call \<open>write\<close> on the console, from the trap to its return. A process enters with
  \<open>SYS_write\<close>, a descriptor that is open for writing on the console, a user address and a length in \<open>a0\<close> to
  \<open>a3\<close>, and its areas let it read the whole range. It gets through the loop over blocks of 4096 bytes
  whatever the length is: exactly its bytes are printed, in order, each backspace as backspace, blank, backspace,
  \<open>a0\<close> is the length, the process continues
  behind the \<open>ecall\<close> with its old trap frame in place, and the kernel buffer is freed.
\<close>

theorem console_write_trap:
  fixes s :: "'a trapmem_scheme"
  assumes "current s = Some c" "mm (procs s c) = Some m" "filesp (procs s c) = Some fp"
    and "tf_cause (tframes s r) = CAUSE_USER_ECALL"
    and "and (flags (procs s c)) PF_EXITING = 0" "\<not> need_resched (procs s c)"
    and "map (gpr (tframes s r)) [R_a0, R_a1, R_a2, R_a3] = [103, w, base, len]"
    and "mm_rep (memory s) m vs" "mm_sem (memory s) m > 0" "USER_ACCESS base (base + len)"
    and "\<forall>a. base \<le> a \<and> a < base + len \<longrightarrow> (\<exists>v \<in> set vs. access_ok (memory s) False v a)"
    and "console_open fp (int_arg w) nd (fsys s)" "ops nd = dev_node_ops"
    and "bufs_next s = Some b # ks" "USERTOP \<le> b"
  shows "\<exists>t. trap C ops fops E input r s = Some (Trap_returns, t) \<and> current t = Some c \<and>
    gpr (tframes t r) R_a0 = len \<and> tf_epc (tframes t r) = tf_epc (tframes s r) + 4 \<and> procs t = procs s \<and>
    console (fsys t) = console (fsys s) @
      concat (map (\<lambda>c. if c = 8 then [8, 32, 8] else [c]) (load_bytes (umem s) base (unat len))) \<and> bufs_freed t = b # bufs_freed s"
proof -
  let ?f = "(tframes s r)\<lparr>tf_epc := tf_epc (tframes s r) + 4\<rparr>"
  let ?s = "upd_proc c (\<lambda>d. d\<lparr>tf := Some r\<rparr>) s"
  let ?t = "?s\<lparr>tframes := (tframes ?s)(r := ?f)\<rparr>"
  note bytes = serial_text_bytes [of "load_bytes (umem s) base (unat len)", symmetric]
  have fr: "procs ?t c = (procs s c)\<lparr>tf := Some r\<rparr>" "current ?t = Some c" "memory ?t = memory s" "fsys ?t = fsys s" "umem ?t = umem s"
      "bufs_next ?t = bufs_next s" "bufs_freed ?t = bufs_freed s" "tframes ?t r = ?f"
    using assms(1) by (simp_all add: upd_proc_def)
  have p: "can_print m vs fp (int_arg w) nd base len ?t"
    unfolding can_print_def using fr assms(3,8-12) by (simp add: current_files_def)
  have regs: "map (gpr (tframes ?t r)) [R_a0, R_a1, R_a2, R_a3] = [103, w, base, len]" using assms(7) fr(8) by simp
  have mm: "mm (procs ?t c) = Some m" and tf: "tf (procs ?t c) = Some r" and bn: "bufs_next ?t = Some b # ks"
    unfolding fr using assms(2,14) by simp_all
  obtain u where u: "syscall C ops fops E ?t = Some (Sys_returns (int (unat len)), u)"
      "console (fsys u) = console (fsys s) @ serial_text (load_bytes (umem s) base (unat len))" "gpr (tframes u r) R_a0 = len"
      "bufs_freed u = b # bufs_freed s" "procs u = procs ?t" "current u = Some c" "tf_epc (tframes u r) = tf_epc ?f"
    by (rule syscall_console [where ops = ops and C = C and fops = fops and E = E, OF fr(2) mm tf regs p assms(13,10) bn assms(15)])
      (use fr in simp_all)
  let ?u = "upd_proc c (\<lambda>d. d\<lparr>tf := tf (procs s c)\<rparr>) u"
  have "procs ?u = procs s" using u(5) by (auto simp: upd_proc_def fun_eq_iff)
  moreover have "trap_finish C ops (tf (procs s c)) k u = Some (Trap_returns, ?u)" for k
    using u(5,6) assms(5,6) fr(1) by (simp add: trap_finish_def Let_def)
  moreover have "\<not> sint (8 :: 64 word) < 0" by simp
  ultimately show ?thesis
    unfolding bytes using assms(1,4) u by (intro exI [of _ ?u])
      (simp add: trap_def trap_dispatch_def exception_handler_def ecall_def Let_def CAUSE_USER_ECALL_def
        CAUSE_MISALIGNED_STORE_def, simp add: upd_proc_def)
qed

section \<open>Witnesses\<close>

definition no_input :: cons_buf where
  "no_input = \<lparr>cons_data = replicate CONSBUFSIZE 0, cons_rpos = 0, cons_wpos = 0\<rparr>"

text \<open>\<open>example_printer\<close> at the entry of the trap.\<close>

definition example_ecall :: trapmem where
  "example_ecall = sysmem.extend (example_printer\<lparr>procs := (procs example_printer)(0 := (procs example_printer 0)\<lparr>tf := None\<rparr>),
     tframes := (\<lambda>t. (tframes example_printer t)\<lparr>tf_cause := 8, tf_epc := 0x800100\<rparr>)\<rparr>) (trapmem.fields no_input)"

lemma example_ecall_fields:
  "current example_ecall = Some 0" "procs example_ecall = (procs example_printer)(0 := (procs example_printer 0)\<lparr>tf := None\<rparr>)"
  "memory example_ecall = memory example_printer" "fsys example_ecall = fsys example_printer"
  "umem example_ecall = umem example_printer" "bufs_next example_ecall = bufs_next example_printer"
  "tframes example_ecall t = (tframes example_printer t)\<lparr>tf_cause := 8, tf_epc := 0x800100\<rparr>"
  by (simp_all add: example_ecall_def sysmem.defs example_printer_def example_caller_def)

theorem console_write_trap_witness:
  "\<exists>t. trap default_sched_class (\<lambda>_. dev_node_ops) no_fs_ops example_env [] 0 example_ecall = Some (Trap_returns, t) \<and>
     console (fsys t) = [0, 65, 65] \<and> tf_epc (tframes t 0) = 0x800104"
proof -
  note F = example_ecall_fields
  have p: "current example_ecall = Some 0" "mm (procs example_ecall 0) = Some 0" "filesp (procs example_ecall 0) = Some 0"
      "tf_cause (tframes example_ecall 0) = CAUSE_USER_ECALL" "and (flags (procs example_ecall 0)) PF_EXITING = 0"
      "\<not> need_resched (procs example_ecall 0)"
      "map (gpr (tframes example_ecall 0)) [R_a0, R_a1, R_a2, R_a3] = [103, 0, 0x801000, 3]"
    by (simp_all add: F example_printer_def example_caller_def CAUSE_USER_ECALL_def example_proc_def)
  have rep: "mm_rep (memory example_ecall) 0 [5]" using example_caller_state(5) by (simp add: F example_printer_def)
  have q: "mm_sem (memory example_ecall) 0 > 0" "USER_ACCESS 0x801000 (0x801000 + 3)"
      "\<forall>a. 0x801000 \<le> a \<and> a < 0x801000 + 3 \<longrightarrow> (\<exists>v \<in> set [5]. access_ok (memory example_ecall) False v a)"
    by (auto simp: F example_printer_def example_caller_def example_uvm_def USER_ACCESS_def USERBASE_def USERTOP_def
      access_ok_def vma_covers_def example_vm_def VM_READ_def elim: less_trans)
  have o: "console_open 0 (int_arg 0) 1 (fsys example_ecall)" using example_printer_open by (simp add: F int_arg_def)
  have b: "bufs_next example_ecall = [Some 0xFFFFFFFFC0300000]" "USERTOP \<le> (0xFFFFFFFFC0300000 :: 64 word)"
    by (simp_all add: F example_printer_def example_caller_def USERTOP_def)
  have "console (fsys example_ecall) = []"
    by (simp add: F example_printer_def upd_file_devices example_files_def files_create_def files_count_inc_def upd_files_def
      example_devices_def)
  moreover have "load_bytes (umem example_ecall) 0x801000 (unat (3 :: 64 word)) = [0, 65, 65]"
    by (simp add: load_bytes_def F example_printer_def example_caller_def upt_rec)
  moreover have "tf_epc (tframes example_ecall 0) + 4 = 0x800104" by (simp add: F)
  ultimately show ?thesis
    using console_write_trap [OF p rep q o refl b, of default_sched_class no_fs_ops example_env "[]"]
    by auto
qed

text \<open>\<open>example_timed\<close> in the middle of a timer interrupt of user mode, with process 2 reading the keyboard.\<close>

definition example_tick :: trapmem where
  "example_tick = sysmem.extend (example_caller
     \<lparr>procs := procs example_timed, run_links := run_links example_timed, proc_num := 2, initproc := Some 1,
      timers := timers example_timed, timer_links := timer_links example_timed,
      waits := (\<lambda>_. \<lparr>wproc = Some 2, wakeup_flags = 0, wait_queue = Some 0\<rparr>),
      wait_links := \<lparr>next_of = id(WaitHead 0 := WaitLink 4, WaitLink 4 := WaitHead 0),
        prev_of = id(WaitHead 0 := WaitLink 4, WaitLink 4 := WaitHead 0)\<rparr>,
      tframes := (\<lambda>_. \<lparr>gpr = (\<lambda>_. 0), tf_status = 0, tf_epc = 0, tf_tval = 0, tf_cause = 0x8000000000000005\<rparr>)\<rparr>)
     (trapmem.fields no_input)"

lemma example_tick_fields:
  "procs example_tick = procs example_timed" "run_links example_tick = run_links example_timed"
  "pool example_tick = pool example_timed" "proc_num example_tick = proc_num example_timed"
  "max_time_slice example_tick = max_time_slice example_timed" "lab6_run_pool example_tick = lab6_run_pool example_timed"
  "current example_tick = current example_timed" "idleproc example_tick = idleproc example_timed"
  "timers example_tick = timers example_timed" "timer_links example_tick = timer_links example_timed"
  "waits example_tick = (\<lambda>_. \<lparr>wproc = Some 2, wakeup_flags = 0, wait_queue = Some 0\<rparr>)"
  "wait_links example_tick = \<lparr>next_of = id(WaitHead 0 := WaitLink 4, WaitLink 4 := WaitHead 0),
        prev_of = id(WaitHead 0 := WaitLink 4, WaitLink 4 := WaitHead 0)\<rparr>"
  "tframes example_tick t = \<lparr>gpr = (\<lambda>_. 0), tf_status = 0, tf_epc = 0, tf_tval = 0, tf_cause = 0x8000000000000005\<rparr>"
  "cons example_tick = no_input" "ticks example_tick = 0"
  by (simp_all add: example_tick_def sysmem.defs trapmem.defs example_caller_def example_timed_def)

lemma example_tick_ok: "sched_ok rr_ok rr_queue rr_ready {1, 2, 3} 0 0 example_tick"
proof -
  have q: "same_queue example_timed example_tick" by (simp add: same_queue_def example_tick_fields)
  have "rr_ok example_timed" using example_timed_ok by (simp add: sched_ok_def)
  then obtain xs where xs: "rr_rep example_timed xs" by (auto simp: rr_ok_def)
  have "rr_rep example_tick ys = rr_rep example_timed ys" for ys by (simp add: rr_rep_def example_tick_fields)
  then have "rr_ok example_tick = rr_ok example_timed" "rr_queue example_tick = rr_queue example_timed"
      "rr_ready p example_tick = rr_ready p example_timed" for p
    by (simp_all add: rr_ok_def rr_queue_def rr_ready_def example_tick_fields)
  then show ?thesis using example_timed_ok by (simp add: sched_ok_def example_tick_fields)
qed

theorem timer_interrupt_trap_witness:
  "\<exists>s'. trap default_sched_class (\<lambda>_. dev_node_ops) no_fs_ops example_env [97] 0 example_tick = Some (Trap_returns, s') \<and>
     ticks s' = 1 \<and> state (procs s' 3) = PROC_RUNNABLE \<and> readers_rep s' {1, 2, 3} stdin_queue [] \<and>
     current s' \<noteq> Some 0 \<and> \<not> need_resched (procs s' 0)"
proof -
  note F = example_tick_fields
  have tr: "timer_rep example_tick [7, 8]" using example_timed_rep by (simp add: timer_rep_def timer_seq_def F)
  have w: "\<forall>x \<in> set [7, 8]. wakeable example_tick {1, 2, 3} x" using example_wakeable wakeable_cong [of example_tick _ example_timed] by (simp add: F)
  have r: "readers_rep example_tick {1, 2, 3} stdin_queue [4]"
    by (simp add: readers_rep_def F stdin_queue_def dlist_def example_timed_def example_proc_def)
  have f: "tf_cause (tframes example_tick 0) = 0x8000000000000005" "and (flags (procs example_tick 0)) PF_EXITING = 0"
    by (simp_all add: F example_timed_def example_proc_def)
  obtain kk where g: "cons_getc [97] (cons example_tick) = (97, kk)"
    by (simp add: F no_input_def cons_getc_def serial_proc_data_def CONSBUFSIZE_def Let_def)
  have d: "deadlines (timers example_tick) 0 [7, 8] = [(7, 1), (8, 3)]" using example_deadlines by (simp add: F)
  have "\<not> (trap_in_kernel (tframes example_tick 0) \<or> \<not> slice_ends example_tick 0)"
    by (simp add: trap_in_kernel_def slice_ends_def F example_timed_def)
  note k = if_not_P [OF this]
  let ?due = "map fst (filter (\<lambda>x. snd x \<le> 1) (deadlines (timers example_tick) 0 [7, 8]))"
  obtain s' c' where s': "trap default_sched_class (\<lambda>_. dev_node_ops) no_fs_ops example_env [97] 0 example_tick =
      Some (Trap_returns, s')" "sched_ok rr_ok rr_queue rr_ready {1, 2, 3} c' 0 s'" "ticks s' = ticks example_tick + 1"
      "\<forall>p. state (procs s' p) = (if p \<in> woken example_tick ?due \<or> (97 :: byte) \<noteq> 0 \<and> p \<in> readers example_tick [4]
        then PROC_RUNNABLE else state (procs example_tick p))"
      "readers_rep s' {1, 2, 3} stdin_queue (if (97 :: byte) = 0 then [4] else [])" "\<not> need_resched (procs s' 0)"
      "if \<exists>p \<in> {1, 2, 3} - {0}. state (procs s' p) = PROC_RUNNABLE then c' \<in> {1, 2, 3} - {0} \<and> state (procs s' c') = PROC_RUNNABLE
       else c' = (if state (procs s' 0) = PROC_RUNNABLE then 0 else 0)"
    using timer_interrupt_trap [OF example_tick_ok tr w r f g, of "\<lambda>_. dev_node_ops" no_fs_ops example_env]
    unfolding k by (elim exE conjE) (rule that; assumption)
  have "3 \<in> woken example_tick ?due" by (simp add: d) (simp add: woken_def F example_timed_def)
  then have st: "state (procs s' 3) = PROC_RUNNABLE" using s'(4) by simp
  then have "c' \<noteq> 0" using s'(7) by auto
  then show ?thesis using s'(1-3,5,6) st by (auto simp: sched_ok_def F)
qed

end
