(* ===== verification/Spec2Isabelle.thy ===== *)
theory Spec2Isabelle
imports BestFit Buddy SfsIO LoadTail TrapFacts
begin

text \<open>
  A model of the uCore teaching kernel of this repository for RISC-V, with the theorems that make its
  parts correct. The kernel is the one of \<open>lab8\<close>, the last and most complete stage; the best-fit and
  the buddy allocator are those of \<open>lab2\<close>. Paths below are relative to \<open>src/lab8\<close>.

  \<^bold>\<open>How the kernel is put together.\<close> Physical pages come from a \<open>pmm_manager\<close>
  (\<open>kern/mm/default_pmm.c\<close>); page tables (\<open>pmm.c\<close>) and areas of virtual memory (\<open>vmm.c\<close>) make an
  address space. A process (\<open>kern/process/proc.c\<close>) has a descriptor with an address space, a kernel
  stack and a file table; it is in the list of all processes, in the hash table of process numbers, in
  the family links and, when it is runnable, in the run queue of a scheduling class
  (\<open>kern/schedule\<close>). Timers, wait queues and semaphores (\<open>kern/sync\<close>) put processes to sleep and
  wake them up. Open files (\<open>kern/fs/file.c\<close>, \<open>fs.c\<close>) are descriptors on inodes of the virtual file
  system (\<open>kern/fs/vfs\<close>), whose function tables belong to devices (\<open>kern/fs/devs\<close>) or to the
  simple file system (\<open>kern/fs/sfs\<close>) on a disk in memory (\<open>kern/driver\<close>). A user program enters the
  kernel through a trap (\<open>kern/trap/trap.c\<close>): a timer interrupt drives timers, keyboard and scheduler, and an
  \<open>ecall\<close> goes through the table of system calls (\<open>kern/syscall/syscall.c\<close>) to processes or, with copies
  between user and kernel memory (\<open>kern/fs/sysfile.c\<close>), to files.

  \<^bold>\<open>Conventions.\<close> A pointer is the number of an object in a store, which is a function in the
  record of the state; \<open>NULL\<close> is \<open>None\<close>. A result \<open>None\<close> of a definition means that the code panics,
  fails an assertion, dereferences \<open>NULL\<close>, runs into undefined behaviour or never returns, so a
  theorem that a definition gives \<open>Some\<close> says that the code returns. Error codes are negative integers
  (theory ErrorCodes). Intrusive lists are explicit \<open>next\<close> and \<open>prev\<close> pointers (theory LinkedList), so
  that the aliasing of the code, and its mistakes, can be seen. Loops that may not end are
  \<open>partial_function (option)\<close>; no definition uses fuel. Words have the width of the code where wrap
  around matters; counters that no theorem follows to the limit of their type (reference counts, file
  positions, the semaphores inside the file systems) are unbounded integers. The result of each call of \<open>kmalloc\<close> is an argument of the definition or part of its
  state (\<open>bufs_next\<close>), so theorems hold for success and failure of every allocation. A function that calls \<open>schedule\<close> and continues
  later is split there into two definitions. Interrupts are off in the critical sections of the code,
  which are therefore single steps.

  \<^bold>\<open>Theories.\<close>

  \<^item> Prelude, ErrorCodes: assertions in the option monad, shared lemmas, \<open>libs/error.h\<close>.
  \<^item> LinkedList: \<open>libs/list.h\<close>. \<open>dlist L h xs\<close>: the ring with head \<open>h\<close> contains \<open>xs\<close>.
  \<^item> SkewHeap: \<open>libs/skew_heap.h\<close>, with merging and removal proved against ordered trees.
  \<^item> CString, Printfmt, Format: \<open>libs/string.c\<close>, \<open>libs/printfmt.c\<close>: comparison, moving overlapping memory,
    printing of 64-bit numbers and its round trip with \<open>strtol\<close> below $2^{63}$, the format interpreter, whose
    output does not depend on where it goes, so that \<open>vsnprintf\<close> is its truncation. A format that overflows
    an \<open>int\<close> of the interpreter has no result; the count of characters is a 32-bit word.
  \<^item> PageDesc, PmmManager, FirstFit, BestFit, Buddy: page descriptors and the allocators. The locale
    \<open>page_allocator\<close> is the contract of \<open>struct pmm_manager\<close>; first fit and best fit are interpretations.
    The insertion loop of the code lacks a \<open>break\<close>: \<open>default_tail_free_double_allocation\<close> shows what
    follows, and the contract's \<open>freeable\<close> has the condition that avoids it.
  \<^item> PageTable, AddrSpace: \<open>kern/mm/pmm.c\<close>: three-level page tables as memory, mapping, unmapping, copying.
    \<open>pt_ok\<close> is the shape of a page table; the theorems say what \<open>get_page\<close> finds afterwards.
  \<^item> VMM: \<open>kern/mm/vmm.c\<close>: areas, \<open>mm_map\<close>, checks and copies of user memory. MmLife: creation,
    duplication and destruction of address spaces.
  \<^item> ProcStruct, SchedClass: descriptors, run queue and the scheduling core. The locale \<open>sched_class_laws\<close>
    is the contract of \<open>struct sched_class\<close>; \<open>sched_core\<close> proves \<open>schedule\<close> and \<open>wakeup_proc\<close> correct for
    every class. RoundRobin and Stride are the interpretations, with waiting time, time slices and
    proportional share, stated for \<open>run_count\<close>, of which the field \<open>runs\<close> keeps the low 32 bits.
  \<^item> Sched: timers of \<open>kern/schedule/sched.c\<close>: the differences in the list stand for absolute deadlines.
  \<^item> Sync: \<open>kern/sync/wait.c\<close>, \<open>sem.c\<close>: a step relation of all processes on one semaphore; the invariant
    gives mutual exclusion. An \<open>up\<close> that would overflow the value has no result.
  \<^item> ProcTable: the process table of \<open>kern/process/proc.c\<close>. \<open>proctab_rep s i ps kids\<close>: the processes
    \<open>ps\<close> besides the idle process \<open>i\<close> are exactly those in the list and in the hash table, with distinct
    numbers in range, and the sibling links represent \<open>kids\<close>.
  \<^item> Vfs, Files, Stdin, Devices: inodes, device table, paths, open files, file tables, console and disk
    devices. The locale \<open>vnode_ops\<close> is what the file layer relies on from the function tables of inodes;
    the devices are its interpretation. The step relation \<open>files_step\<close> has every operation on files of
    any number of processes; \<open>files_inv\<close> is its invariant.
  \<^item> Process, Fork, Wait: \<open>do_fork\<close>, \<open>do_exit\<close>, \<open>do_wait\<close>, \<open>do_kill\<close>, \<open>do_sleep\<close> and \<open>proc_init\<close> over all these
    parts, and what a fork and a wait guarantee. The locale \<open>sched_newcomer\<close> is the law on new processes that a
    scheduling class needs for this. Stride does not satisfy it, since \<open>alloc_proc\<close> leaves a priority 0.
  \<^item> Disk, Bitmap, Sfs, SfsMap, SfsFile, SfsIO: disk images, the block device \<open>disk0\<close>, the free map, and
    files of the simple file system: block map, truncation, reading and writing against an abstract file,
    a list of bytes.

  \<^item> Sysfile, Syscall, Exec: the file system calls, the table of system calls, and \<open>do_execve\<close> with
    \<open>load_icode\<close>. \<open>umem\<close> is the byte memory that the kernel and the current process see, while \<open>frames\<close>
    of PageTable holds the page tables. FileCalls: whatever its arguments, a file system call writes only its
    buffers and what the caller may write (\<open>safe\<close>), and keeps the invariants of files and areas. The locale
    \<open>io_ops\<close> is what this takes from the function tables of inodes; the devices are its interpretation.
    LoadTail: the end of the file part of a segment is lost.
  \<^item> Console, Trap, TrapFacts: traps, console input and output, the keyboard; a timer interrupt, which counts
    down the time slice and preempts when it is used up, and the call \<open>write\<close> from the entry of \<open>trap\<close> to
    its return. The console is the list of bytes that \<open>serial_putc\<close> sends (three for a backspace). A
    character argument of \<open>%c\<close> is taken as its low byte.

  \<^bold>\<open>Bounds.\<close> Theorems on address spaces assume fewer than $2^{32}$ pages; the ones on files of the simple
  file system assume that a file has at most the 12 direct and 1024 indirect blocks its inode can hold.
  A fork is covered when the address space is shared or absent: copying one (\<open>dup_mmap\<close>) is
  modelled without a theorem of its own. \<open>do_fork_outcome\<close> takes the memory for the file table of the child
  for granted, and \<open>do_fork_frees_linked_process\<close> shows what happens without it.

  \<^bold>\<open>Not modelled.\<close> Assembly and hardware access of the drivers; the kernel monitor and stack traces; the
  two kernel threads \<open>user_main\<close> and \<open>init_main\<close> and \<open>kernel_execve\<close>, which traps from kernel mode; system
  calls of a process without a file table; blocking reads inside a file system call, which have no result
  there (\<open>dev_stdin_read\<close> has its two halves in Trap); the directory operations, the inode cache and the
  mounting of the simple file system; \<open>kmalloc\<close>'s own lists; the monitors and the self-tests of
  \<open>kern/sync\<close>; user programs and host tools; the earlier stages of the kernel in \<open>lab1\<close> to \<open>lab7\<close>, whose
  code \<open>lab8\<close> repeats.
\<close>

end
